(* ===== verification/Prelude.thy ===== *)
theory Prelude
  imports Main "HOL-Library.Monad_Syntax" "HOL-Library.Word"
begin

section \<open>Prelude: C integers, memory blocks, and the option monad of undefined behaviour\<close>

text \<open>
  What every component shares.  A C computation that can run into undefined behaviour
  (a signed overflow, an access outside an object, a read of an indeterminate byte) is a
  function into \<open>option\<close>, and \<open>None\<close> is the undefined behaviour: a lemma that an
  operation yields \<open>Some\<close> says that the code is memory safe and free of overflow there.
  A memory object is a list of bytes, each \<open>Some c\<close> or, when it has not been written
  since its allocation, \<open>None\<close>.
\<close>

named_theorems c_simps \<open>evaluation rules of C primitives under their side conditions\<close>

subsection \<open>Integers of type int\<close>

abbreviation INT_MAX :: int where "INT_MAX \<equiv> 2147483647"
abbreviation INT_MIN :: int where "INT_MIN \<equiv> - 2147483648"

definition c_int :: "int \<Rightarrow> int option" where
  "c_int x = (if INT_MIN \<le> x \<and> x \<le> INT_MAX then Some x else None)"

lemma c_int_eval [c_simps]: "INT_MIN \<le> x \<Longrightarrow> x \<le> INT_MAX \<Longrightarrow> c_int x = Some x"
  by (simp add: c_int_def)

lemma c_int_Some_iff: "c_int x = Some y \<longleftrightarrow> y = x \<and> INT_MIN \<le> x \<and> x \<le> INT_MAX"
  by (auto simp: c_int_def)

lemma c_int_overflow: "INT_MAX < x \<Longrightarrow> c_int x = None"
  by (simp add: c_int_def)

subsection \<open>Memory blocks\<close>

type_synonym byte = "char option"
type_synonym block = "byte list"

abbreviation NUL :: char where "NUL \<equiv> CHR 0x00"

definition alloc_block :: "int \<Rightarrow> block" where
  "alloc_block n = replicate (nat n) None"

definition realloc_block :: "block \<Rightarrow> int \<Rightarrow> block" where
  "realloc_block b n = take (nat n) b @ replicate (nat n - length b) None"

definition block_load :: "block \<Rightarrow> int \<Rightarrow> char option" where
  "block_load b i = (if 0 \<le> i \<and> nat i < length b then b ! nat i else None)"

definition block_store :: "block \<Rightarrow> int \<Rightarrow> char \<Rightarrow> block option" where
  "block_store b i c = (if 0 \<le> i \<and> nat i < length b then Some (b[nat i := Some c]) else None)"

definition block_copy :: "block \<Rightarrow> int \<Rightarrow> block \<Rightarrow> int \<Rightarrow> int \<Rightarrow> block option" where
  \<comment> \<open>memcpy and memmove: \<open>n\<close> bytes from offset \<open>j\<close> of \<open>src\<close> to offset \<open>i\<close> of \<open>dst\<close>\<close>
  "block_copy dst i src j n =
     (if 0 \<le> i \<and> 0 \<le> j \<and> 0 \<le> n \<and> nat i + nat n \<le> length dst \<and> nat j + nat n \<le> length src
      then Some (take (nat i) dst @ take (nat n) (drop (nat j) src) @ drop (nat i + nat n) dst)
      else None)"

definition block_fill :: "block \<Rightarrow> int \<Rightarrow> char \<Rightarrow> int \<Rightarrow> block option" where
  "block_fill dst i c n =
     (if 0 \<le> i \<and> 0 \<le> n \<and> nat i + nat n \<le> length dst
      then Some (take (nat i) dst @ replicate (nat n) (Some c) @ drop (nat i + nat n) dst)
      else None)"

lemma length_realloc_block [simp]: "length (realloc_block b n) = nat n"
  by (simp add: realloc_block_def)

lemma length_alloc_block [simp]: "length (alloc_block n) = nat n"
  by (simp add: alloc_block_def)

lemma block_copy_length: "block_copy d i s j n = Some d' \<Longrightarrow> length d' = length d"
  by (auto simp: block_copy_def split: if_splits)

lemma block_fill_length: "block_fill d i c n = Some d' \<Longrightarrow> length d' = length d"
  by (auto simp: block_fill_def split: if_splits)

lemma block_store_length: "block_store d i c = Some d' \<Longrightarrow> length d' = length d"
  by (auto simp: block_store_def split: if_splits)

subsection \<open>C strings\<close>

text \<open>A \<open>const char *\<close> argument points to a block; \<open>strlen\<close> scans it for the NUL.\<close>

fun c_strlen :: "block \<Rightarrow> int option" where
  "c_strlen [] = None"
| "c_strlen (None # b) = None"
| "c_strlen (Some c # b) =
     (if c = NUL then Some 0 else map_option (\<lambda>n. n + 1) (c_strlen b))"

fun c_strnlen :: "block \<Rightarrow> nat \<Rightarrow> int option" where
  \<comment> \<open>the loop \<open>while (k < n && data[k] != 0) k++\<close>\<close>
  "c_strnlen b 0 = Some 0"
| "c_strnlen [] (Suc n) = None"
| "c_strnlen (None # b) (Suc n) = None"
| "c_strnlen (Some c # b) (Suc n) =
     (if c = NUL then Some 0 else map_option (\<lambda>k. k + 1) (c_strnlen b n))"

definition cstr_block :: "string \<Rightarrow> block" where
  "cstr_block xs = map Some xs @ [Some NUL]"

definition nul_free :: "string \<Rightarrow> bool" where
  "nul_free xs = (NUL \<notin> set xs)"

lemma nul_free_simps [simp]:
  "nul_free []" "nul_free (x # xs) \<longleftrightarrow> x \<noteq> NUL \<and> nul_free xs"
  "nul_free (xs @ ys) \<longleftrightarrow> nul_free xs \<and> nul_free ys"
  by (auto simp: nul_free_def)

lemma nul_free_take [simp]: "nul_free xs \<Longrightarrow> nul_free (take n xs)"
  by (auto simp: nul_free_def dest: in_set_takeD)

lemma nul_free_drop [simp]: "nul_free xs \<Longrightarrow> nul_free (drop n xs)"
  by (auto simp: nul_free_def dest: in_set_dropD)

lemma c_strlen_eval [c_simps]:
  "nul_free xs \<Longrightarrow> c_strlen (map Some xs @ Some NUL # r) = Some (int (length xs))"
  by (induction xs) auto

lemma c_strlen_cstr [c_simps]: "nul_free xs \<Longrightarrow> c_strlen (cstr_block xs) = Some (int (length xs))"
  by (simp add: cstr_block_def c_simps)

lemma c_strnlen_eval [c_simps]:
  "nul_free xs \<Longrightarrow> c_strnlen (map Some xs @ r) (length xs) = Some (int (length xs))"
  by (induction xs) auto

lemma c_strnlen_takeWhile:
  "n \<le> length xs \<Longrightarrow>
   c_strnlen (map Some xs @ r) n = Some (int (length (takeWhile (\<lambda>c. c \<noteq> NUL) (take n xs))))"
proof (induction xs arbitrary: n)
  case (Cons x xs)
  then show ?case by (cases n) auto
qed simp

definition cstr_of :: "string \<Rightarrow> string" where
  \<comment> \<open>what \<open>strcmp\<close> sees of a string\<close>
  "cstr_of cs = takeWhile (\<lambda>c. c \<noteq> NUL) cs"

lemma cstr_of_nul_free [simp]: "nul_free k \<Longrightarrow> cstr_of k = k"
  by (auto simp: cstr_of_def nul_free_def takeWhile_eq_all_conv)

subsection \<open>Character codes\<close>

text \<open>The classes of \<open>ctype.h\<close> in the C locale.\<close>

definition c_isdigit :: "char \<Rightarrow> bool" where
  "c_isdigit c \<longleftrightarrow> (let n = of_char c :: nat in 48 \<le> n \<and> n \<le> 57)"

definition c_isalpha :: "char \<Rightarrow> bool" where
  "c_isalpha c \<longleftrightarrow> (let n = of_char c :: nat in 65 \<le> n \<and> n \<le> 90 \<or> 97 \<le> n \<and> n \<le> 122)"

definition c_isalnum :: "char \<Rightarrow> bool" where
  "c_isalnum c \<longleftrightarrow> c_isalpha c \<or> c_isdigit c"

definition c_isspace :: "char \<Rightarrow> bool" where
  "c_isspace c \<longleftrightarrow> (let n = of_char c :: nat in n = 32 \<or> 9 \<le> n \<and> n \<le> 13)"

abbreviation NEWLINE :: char where "NEWLINE \<equiv> CHR 0x0A"
abbreviation TAB :: char where "TAB \<equiv> CHR 0x09"
abbreviation BACKSLASH :: char where "BACKSLASH \<equiv> CHR 0x5C"
abbreviation SQUOTE :: char where "SQUOTE \<equiv> CHR 0x27"
abbreviation DQUOTE :: char where "DQUOTE \<equiv> CHR 0x22"
abbreviation BACKTICK :: char where "BACKTICK \<equiv> CHR 0x60"

lemma of_char_int: "(of_char c :: int) = int (of_char c)"
  by (rule of_nat_of_char [symmetric])

lemma of_char_zero_iff: "(of_char a :: nat) = 0 \<longleftrightarrow> a = NUL"
  using of_char_eq_iff [of a NUL, where 'a = nat] by simp

lemma of_char_less_int_iff: "(of_char a :: int) < of_char b \<longleftrightarrow> (of_char a :: nat) < of_char b"
  unfolding of_char_int by simp

subsection \<open>The option monad\<close>

lemma option_eqI: "(\<And>v. a = Some v \<longleftrightarrow> b = Some v) \<Longrightarrow> a = b"
  by (cases a; cases b) auto

lemma bind_Some_iff:
  "Option.bind m f = Some y \<longleftrightarrow> (\<exists>x. m = Some x \<and> f x = Some y)"
  by (cases m) auto

end
