(* ===== verification/StringT.thy ===== *)
theory StringT
  imports Prelude
begin

section \<open>The dynamic string (string_t.c): storage, constructors, setters, modifiers\<close>

text \<open>
  \<open>string_t\<close> keeps up to 16 bytes in \<open>inline_data\<close> and longer contents in a heap block;
  the field \<open>data\<close> points to the one in use.  Each operation is translated statement by
  statement, with the bounds of every memory access and the range of every \<open>int\<close> sum
  checked (\<open>None\<close> is undefined behaviour).  \<open>represents s cs\<close> is the representation
  invariant together with the abstraction: the object is well formed and its contents are
  \<open>cs\<close>.  Each operation is shown never to be undefined on represented arguments (under
  the stated length bound) and to compute the corresponding list operation.
  Pointer arguments that may be NULL are options; two arguments are distinct objects.
\<close>

subsection \<open>Representation\<close>

datatype data_ptr = InlineData | HeapData block

record string_t =
  str_length :: int
  str_capacity :: int
  str_data :: data_ptr
  str_inline :: block

definition STRING_INITIAL_CAPACITY :: int where "STRING_INITIAL_CAPACITY = 16"
definition STRING_GROW_FACTOR :: int where "STRING_GROW_FACTOR = 2"
definition STRING_REDUCE_THRESHOLD :: int where "STRING_REDUCE_THRESHOLD = 512"

lemmas string_consts = STRING_INITIAL_CAPACITY_def STRING_GROW_FACTOR_def
  STRING_REDUCE_THRESHOLD_def

definition string_is_inline :: "string_t \<Rightarrow> bool" where
  "string_is_inline s = (str_capacity s \<le> STRING_INITIAL_CAPACITY)"

definition string_is_heap_allocated :: "string_t \<Rightarrow> bool" where
  "string_is_heap_allocated s = (str_capacity s > STRING_INITIAL_CAPACITY)"

text \<open>The block that \<open>str->data\<close> points to, and writing it back.\<close>

definition data_block :: "string_t \<Rightarrow> block" where
  "data_block s = (case str_data s of InlineData \<Rightarrow> str_inline s | HeapData b \<Rightarrow> b)"

definition set_data_block :: "string_t \<Rightarrow> block \<Rightarrow> string_t" where
  "set_data_block s b = (case str_data s of
      InlineData \<Rightarrow> s\<lparr>str_inline := b\<rparr> | HeapData _ \<Rightarrow> s\<lparr>str_data := HeapData b\<rparr>)"

definition represents :: "string_t \<Rightarrow> string \<Rightarrow> bool" where
  "represents s cs \<longleftrightarrow>
     str_length s = int (length cs) \<and>
     str_capacity s = int (length (data_block s)) \<and>
     length cs < length (data_block s) \<and>
     STRING_INITIAL_CAPACITY \<le> str_capacity s \<and> str_capacity s \<le> INT_MAX \<and>
     length (str_inline s) = 16 \<and>
     (str_data s = InlineData) = (str_capacity s \<le> STRING_INITIAL_CAPACITY) \<and>
     take (length cs + 1) (data_block s) = map Some cs @ [Some NUL]"

text \<open>Statement groups that recur in the C code.\<close>

definition mem_store :: "string_t \<Rightarrow> int \<Rightarrow> char \<Rightarrow> string_t option" where
  \<comment> \<open>\<open>str->data[i] = c\<close>\<close>
  "mem_store s i c = map_option (set_data_block s) (block_store (data_block s) i c)"

definition mem_copy :: "string_t \<Rightarrow> int \<Rightarrow> block \<Rightarrow> int \<Rightarrow> int \<Rightarrow> string_t option" where
  \<comment> \<open>\<open>memcpy(str->data + i, src + j, n)\<close>\<close>
  "mem_copy s i src j n = map_option (set_data_block s) (block_copy (data_block s) i src j n)"

definition mem_move :: "string_t \<Rightarrow> int \<Rightarrow> int \<Rightarrow> int \<Rightarrow> string_t option" where
  \<comment> \<open>\<open>memmove(str->data + i, str->data + j, n)\<close>\<close>
  "mem_move s i j n = mem_copy s i (data_block s) j n"

definition mem_fill :: "string_t \<Rightarrow> int \<Rightarrow> char \<Rightarrow> int \<Rightarrow> string_t option" where
  \<comment> \<open>\<open>memset(str->data + i, c, n)\<close>\<close>
  "mem_fill s i c n = map_option (set_data_block s) (block_fill (data_block s) i c n)"

definition set_length_nul :: "string_t \<Rightarrow> int \<Rightarrow> string_t option" where
  \<comment> \<open>\<open>str->length = n; str->data[str->length] = 0;\<close>\<close>
  "set_length_nul s n = mem_store (s\<lparr>str_length := n\<rparr>) n NUL"

lemma data_block_set [simp]: "data_block (set_data_block s b) = b"
  by (simp add: data_block_def set_data_block_def split: data_ptr.splits)

lemma set_data_block_fields [simp]:
  "str_length (set_data_block s b) = str_length s"
  "str_capacity (set_data_block s b) = str_capacity s"
  "(str_data (set_data_block s b) = InlineData) = (str_data s = InlineData)"
  by (simp_all add: set_data_block_def split: data_ptr.splits)

lemma set_data_block_inline [simp]:
  "length b = length (data_block s) \<Longrightarrow> length (str_inline (set_data_block s b)) = length (str_inline s)"
  by (auto simp: data_block_def set_data_block_def split: data_ptr.splits)

lemma data_block_length_update [simp]: "data_block (s\<lparr>str_length := n\<rparr>) = data_block s"
  by (simp add: data_block_def split: data_ptr.splits)

subsection \<open>Reasoning with \<open>represents\<close>\<close>

definition yields :: "string_t option \<Rightarrow> string \<Rightarrow> bool" where
  "yields m cs \<longleftrightarrow> (case m of None \<Rightarrow> False | Some s \<Rightarrow> represents s cs)"

definition yields_cap :: "string_t option \<Rightarrow> string \<Rightarrow> int \<Rightarrow> bool" where
  "yields_cap m cs n \<longleftrightarrow> (case m of None \<Rightarrow> False | Some s \<Rightarrow> represents s cs \<and> n \<le> str_capacity s)"

lemma yields_Some [simp]: "yields (Some s) cs = represents s cs"
  by (simp add: yields_def)

lemma yieldsE: "yields m cs \<Longrightarrow> (\<And>s. m = Some s \<Longrightarrow> represents s cs \<Longrightarrow> P) \<Longrightarrow> P"
  by (auto simp: yields_def split: option.splits)

lemma yields_bind:
  "yields m cs \<Longrightarrow> (\<And>s. represents s cs \<Longrightarrow> yields (f s) ds) \<Longrightarrow> yields (Option.bind m f) ds"
  by (auto elim: yieldsE)

lemma yields_cap_bind:
  "yields_cap m cs n \<Longrightarrow> (\<And>s. represents s cs \<Longrightarrow> n \<le> str_capacity s \<Longrightarrow> yields (f s) ds) \<Longrightarrow>
   yields (Option.bind m f) ds"
  by (auto simp: yields_cap_def split: option.splits)

lemma represents_length: "represents s cs \<Longrightarrow> str_length s = int (length cs)"
  by (simp add: represents_def)

lemma represents_block:
  assumes "represents s cs"
  obtains r where "data_block s = map Some cs @ Some NUL # r"
proof
  have "take (length cs + 1) (data_block s) = map Some cs @ [Some NUL]"
    using assms by (simp add: represents_def)
  then have "data_block s = (map Some cs @ [Some NUL]) @ drop (length cs + 1) (data_block s)"
    by (metis append_take_drop_id)
  then show "data_block s = map Some cs @ Some NUL # drop (length cs + 1) (data_block s)"
    by simp
qed

lemma represents_bounds:
  "represents s cs \<Longrightarrow> int (length cs) < str_capacity s"
  "represents s cs \<Longrightarrow> str_capacity s \<le> INT_MAX"
  "represents s cs \<Longrightarrow> 16 \<le> str_capacity s"
  by (auto simp: represents_def string_consts)

lemma represents_unique: "represents s cs \<Longrightarrow> represents s ds \<Longrightarrow> cs = ds"
  by (auto simp: represents_def)

text \<open>The step from a written block back to \<open>represents\<close>.\<close>

lemma represents_intro:
  assumes "represents s cs" and "length b = length (data_block s)"
    and "b = map Some ds @ Some NUL # r"
  shows "represents (set_data_block (s\<lparr>str_length := int (length ds)\<rparr>) b) ds"
proof -
  have "length b \<ge> length ds + 1" and "take (length ds + 1) b = map Some ds @ [Some NUL]"
    using assms(3) by simp_all
  moreover have "(str_data s = InlineData) = (str_capacity s \<le> STRING_INITIAL_CAPACITY)"
    and "str_capacity s = int (length (data_block s))" and "STRING_INITIAL_CAPACITY \<le> str_capacity s"
    and "str_capacity s \<le> INT_MAX" and "length (str_inline s) = 16"
    using assms(1) by (simp_all add: represents_def)
  ultimately show ?thesis
    using assms(2) by (simp add: represents_def)
qed

subsection \<open>Capacity management\<close>

definition string_normalize_capacity :: "string_t \<Rightarrow> int \<Rightarrow> string_t option" where
  "string_normalize_capacity s new_capacity =
     (if string_is_heap_allocated s \<and> new_capacity \<le> STRING_INITIAL_CAPACITY then
        let new_length = (if str_length s < STRING_INITIAL_CAPACITY then str_length s
                          else STRING_INITIAL_CAPACITY - 1)
        in do {
          b \<leftarrow> block_copy (str_inline s) 0 (data_block s) 0 new_length;
          b' \<leftarrow> block_store b new_length NUL;
          Some (s\<lparr>str_length := new_length, str_capacity := STRING_INITIAL_CAPACITY,
                  str_data := InlineData, str_inline := b'\<rparr>) }
      else if string_is_heap_allocated s \<and> new_capacity > STRING_INITIAL_CAPACITY then
        Some (s\<lparr>str_data := HeapData (realloc_block (data_block s) new_capacity),
                str_capacity := new_capacity\<rparr>)
      else if string_is_inline s \<and> new_capacity > STRING_INITIAL_CAPACITY then do {
          b \<leftarrow> block_copy (alloc_block new_capacity) 0 (str_inline s) 0 (str_length s);
          b' \<leftarrow> block_store b (str_length s) NUL;
          Some (s\<lparr>str_data := HeapData b', str_capacity := new_capacity\<rparr>) }
      else Some s)"

partial_function (option) grow_capacity :: "int \<Rightarrow> int \<Rightarrow> int option" where
  \<comment> \<open>the loop of \<open>string_ensure_capacity\<close>\<close>
  "grow_capacity new_capacity needed =
     (if new_capacity < needed then
        if new_capacity > INT_MAX div STRING_GROW_FACTOR then Some needed
        else grow_capacity (new_capacity * STRING_GROW_FACTOR) needed
      else Some new_capacity)"

definition string_ensure_capacity :: "string_t \<Rightarrow> int \<Rightarrow> string_t option" where
  "string_ensure_capacity s needed =
     (if needed < 0 then Some s
      else if needed \<le> str_capacity s then Some s
      else do {
        new_capacity \<leftarrow> grow_capacity
          (if str_capacity s \<noteq> 0 then str_capacity s else STRING_INITIAL_CAPACITY) needed;
        string_normalize_capacity s new_capacity })"

lemma grow_capacity_ok:
  "0 < c \<Longrightarrow> c < needed \<Longrightarrow> needed \<le> INT_MAX \<Longrightarrow>
   \<exists>c'. grow_capacity c needed = Some c' \<and> needed \<le> c' \<and> c' \<le> INT_MAX \<and> c' < 2 * needed"
proof (induction "nat (needed - c)" arbitrary: c rule: less_induct)
  case less
  show ?case
  proof (cases "c > INT_MAX div 2 \<or> needed \<le> c * 2")
    case True
    then show ?thesis
      using less.prems by (auto simp: grow_capacity.simps [of c] string_consts
          grow_capacity.simps [of "c * 2"])
  next
    case False
    then have "nat (needed - c * 2) < nat (needed - c)" using less.prems by simp
    from less.hyps [OF this] False less.prems show ?thesis
      by (simp add: grow_capacity.simps [of c] string_consts)
  qed
qed

lemma block_copy_prefix:
  "n \<le> length xs \<Longrightarrow> n \<le> length d \<Longrightarrow>
   block_copy d 0 (map Some xs @ r) 0 (int n) = Some (map Some (take n xs) @ drop n d)"
  by (simp add: block_copy_def take_map)

lemma replicate_update_hd: "0 < m \<Longrightarrow> (replicate m x)[0 := y] = y # replicate (m - 1) x"
  by (cases m) auto

lemma normalize_capacity_grow:
  assumes s: "represents s cs" and n: "str_capacity s < n" "n \<le> INT_MAX"
  shows "yields_cap (string_normalize_capacity s n) cs n"
proof -
  obtain r where r: "data_block s = map Some cs @ Some NUL # r"
    using s by (rule represents_block)
  show ?thesis
  proof (cases "string_is_heap_allocated s")
    case True
    with n have eq: "string_normalize_capacity s n = Some (s\<lparr>str_data :=
        HeapData (realloc_block (data_block s) n), str_capacity := n\<rparr>)"
      by (simp add: string_normalize_capacity_def string_is_heap_allocated_def)
    show ?thesis
      using s n r True unfolding eq
      by (simp add: yields_cap_def represents_def data_block_def [of "_\<lparr>str_capacity := _\<rparr>"]
          realloc_block_def string_is_heap_allocated_def)
  next
    case False
    then have inl: "data_block s = str_inline s" "str_capacity s = 16"
      using s by (auto simp: represents_def string_is_heap_allocated_def data_block_def string_consts)
    have len: "str_length s = int (length cs)" "length cs < 16" "length (str_inline s) = 16"
      using s inl by (auto simp: represents_def)
    have pre: "take (length cs) (str_inline s) = map Some cs"
      using inl(1) r by (metis append_eq_conv_conj length_map)
    have "string_normalize_capacity s n = Some (s\<lparr>str_data :=
        HeapData (map Some cs @ Some NUL # replicate (nat n - length cs - 1) None), str_capacity := n\<rparr>)"
      using False inl(2) len n
      by (auto simp: string_normalize_capacity_def string_is_heap_allocated_def string_is_inline_def
          string_consts block_copy_def block_store_def alloc_block_def list_update_append pre
          replicate_update_hd)
    moreover have "int (nat n - Suc (length cs)) = n - 1 - int (length cs)"
      using len n inl(2) by simp
    ultimately show ?thesis
      using s len n inl
      by (clarsimp simp: yields_cap_def represents_def data_block_def string_consts)
  qed
qed

lemma string_ensure_capacity_ok:
  assumes "represents s cs" "needed \<le> INT_MAX"
  shows "yields_cap (string_ensure_capacity s needed) cs needed"
proof (cases "needed \<le> str_capacity s")
  case True
  then show ?thesis using assms(1) by (auto simp: string_ensure_capacity_def yields_cap_def)
next
  case False
  have pos: "0 < str_capacity s" using represents_bounds(3) [OF assms(1)] by simp
  with False assms(2) obtain c where c: "grow_capacity (str_capacity s) needed = Some c"
      "needed \<le> c" "c \<le> INT_MAX"
    using grow_capacity_ok [of "str_capacity s" needed] by auto
  then have "yields_cap (string_normalize_capacity s c) cs c"
    using normalize_capacity_grow [OF assms(1)] False by simp
  then show ?thesis
    using c False pos by (auto simp: string_ensure_capacity_def yields_cap_def split: option.splits)
qed

subsection \<open>Writing into the data block\<close>

lemma set_data_block_twice [simp]: "set_data_block (set_data_block s b) b' = set_data_block s b'"
  by (simp add: set_data_block_def split: data_ptr.splits)

lemma set_data_block_length_update [simp]:
  "(set_data_block s b)\<lparr>str_length := n\<rparr> = set_data_block (s\<lparr>str_length := n\<rparr>) b"
  by (simp add: set_data_block_def split: data_ptr.splits)

lemma mem_fill_copy: "mem_fill s i c n = mem_copy s i (replicate (nat n) (Some c)) 0 n"
  by (simp add: mem_fill_def mem_copy_def block_fill_def block_copy_def)

lemma source_bound:
  "take (length new) (drop j src) = map Some new \<Longrightarrow> j + length new \<le> length src \<or> new = []"
proof (cases "new = []")
  case False
  assume "take (length new) (drop j src) = map Some new"
  then have "length (take (length new) (drop j src)) = length new" by simp
  moreover have "0 < length new" using False by simp
  ultimately show ?thesis unfolding length_take length_drop by linarith
qed simp

lemma finish_ok:
  assumes s: "represents s cs" and B: "length B = length (data_block s)"
    and pre: "take (length ds) B = map Some ds" and len: "length ds < length B"
  shows "yields (set_length_nul (set_data_block s B) (int (length ds))) ds"
proof -
  have "B = map Some ds @ drop (length ds) B" using pre by (metis append_take_drop_id)
  moreover obtain y r where "drop (length ds) B = y # r"
    using len by (cases "drop (length ds) B") auto
  ultimately have upd: "B[length ds := Some NUL] = map Some ds @ Some NUL # r"
    by (metis list_update_append length_map less_irrefl diff_self_eq_0 list_update_code(2))
  have "represents (set_data_block (s\<lparr>str_length := int (length ds)\<rparr>) (B[length ds := Some NUL])) ds"
    by (rule represents_intro [OF s _ upd]) (simp add: B)
  then show ?thesis
    using B len by (simp add: set_length_nul_def mem_store_def block_store_def)
qed

text \<open>
  \<open>overwrite\<close>: the bytes from position \<open>length a\<close> on are replaced by \<open>new\<close>, and the
  string ends there.  It covers assignment (\<open>a = []\<close>) and appending (\<open>d = []\<close>).
\<close>

lemma overwrite_ok:
  assumes s: "represents s (a @ d)"
    and src: "take (length new) (drop (nat j) src) = map Some new"
    and j: "0 \<le> j" "nat j \<le> length src"
    and ix: "i = int (length a)" "n = int (length new)"
    and fin: "\<And>B. fin (set_data_block s B) = int (length (a @ new))"
    and cap: "int (length (a @ new)) < str_capacity s"
  shows "yields (do { s \<leftarrow> mem_copy s i src j n; set_length_nul s (fin s) }) (a @ new)"
proof -
  obtain r where r: "data_block s = map Some (a @ d) @ Some NUL # r"
    using s by (rule represents_block)
  have len: "length (a @ new) < length (data_block s)" "nat j + length new \<le> length src"
    using s cap src j source_bound [OF src] by (auto simp: represents_def)
  define B where "B = map Some (a @ new) @ drop (length a + length new) (data_block s)"
  have copy: "mem_copy s i src j n = Some (set_data_block s B)"
    using len j ix src r by (simp add: mem_copy_def block_copy_def B_def)
  have "yields (set_length_nul (set_data_block s B) (int (length (a @ new)))) (a @ new)"
    using len by (intro finish_ok [OF s]) (simp_all add: B_def)
  then show ?thesis by (simp only: copy fin bind.bind_lunit)
qed

text \<open>\<open>splice\<close>: the tail \<open>b\<close> is moved, then the gap filled; insertion and replacement.\<close>

lemma splice_ok:
  assumes s: "represents s (a @ d @ b)"
    and src: "take (length new) (drop (nat j) src) = map Some new"
    and j: "0 \<le> j" "nat j \<le> length src"
    and ix: "i = int (length a)" "n = int (length new)" "to = i + n" "frm = i + int (length d)"
      "tail = int (length b)"
    and fin: "\<And>B. fin (set_data_block s B) = int (length (a @ new @ b))"
    and cap: "int (length (a @ new @ b)) < str_capacity s"
  shows "yields (do { s \<leftarrow> mem_move s to frm tail; s \<leftarrow> mem_copy s i src j n;
           set_length_nul s (fin s) }) (a @ new @ b)"
proof -
  obtain r where r: "data_block s = map Some (a @ d @ b) @ Some NUL # r"
    using s by (rule represents_block)
  have len: "length (a @ new @ b) < length (data_block s)" "nat j + length new \<le> length src"
    using s cap src j source_bound [OF src] by (auto simp: represents_def)
  define A where "A = take (length a + length new) (data_block s) @ map Some b @
    drop (length a + length new + length b) (data_block s)"
  have idx: "nat to = length a + length new" "nat frm = length a + length d" "nat tail = length b"
      "0 \<le> to" "0 \<le> frm" "0 \<le> tail"
    using ix by auto
  have "take (length b) (drop (length a + length d) (data_block s)) = map Some b"
    by (simp add: r)
  then have move: "mem_move s to frm tail = Some (set_data_block s A)"
    using len idx r by (simp add: mem_move_def mem_copy_def block_copy_def A_def)
  define B where "B = map Some (a @ new @ b) @ drop (length (a @ new @ b)) (data_block s)"
  have "take (length a) (take (length a + length new) (data_block s)) = map Some a"
    by (simp add: r)
  moreover have "drop (length a + length new) A = map Some b @ drop (length (a @ new @ b)) (data_block s)"
    using len by (simp add: A_def add.assoc)
  ultimately have copy: "mem_copy (set_data_block s A) i src j n = Some (set_data_block s B)"
    using len j ix src by (simp add: mem_copy_def block_copy_def B_def) (simp add: A_def add.assoc)
  have "yields (set_length_nul (set_data_block s B) (int (length (a @ new @ b)))) (a @ new @ b)"
    using len by (intro finish_ok [OF s]) (simp_all add: B_def)
  then show ?thesis by (simp only: move copy fin bind.bind_lunit)
qed

lemma set_data_block_same [simp]: "set_data_block s (data_block s) = s"
  by (simp add: set_data_block_def data_block_def split: data_ptr.splits)

lemma truncate_ok:
  assumes s: "represents s (a @ d)" and n: "n = int (length a)"
  shows "yields (set_length_nul s n) a"
proof -
  obtain r where r: "data_block s = map Some (a @ d) @ Some NUL # r"
    using s by (rule represents_block)
  have "yields (set_length_nul (set_data_block s (data_block s)) (int (length a))) a"
    by (intro finish_ok [OF s]) (simp_all add: r)
  then show ?thesis by (simp add: n)
qed

lemma erase_ok:
  assumes s: "represents s (a @ d @ b)"
    and ix: "i = int (length a)" "frm = i + int (length d)" "tail = int (length b)"
    and fin: "\<And>B. fin (set_data_block s B) = int (length (a @ b))"
  shows "yields (do { s \<leftarrow> mem_move s i frm tail; set_length_nul s (fin s) }) (a @ b)"
proof -
  obtain r where r: "data_block s = map Some (a @ d @ b) @ Some NUL # r"
    using s by (rule represents_block)
  define A where "A = map Some (a @ b) @ drop (length (a @ b)) (data_block s)"
  have idx: "nat i = length a" "nat frm = length a + length d" "nat tail = length b"
      "0 \<le> i" "0 \<le> frm" "0 \<le> tail"
    using ix by auto
  have "mem_move s i frm tail = Some (set_data_block s A)"
    using idx by (simp add: mem_move_def mem_copy_def block_copy_def A_def r)
  moreover have "yields (set_length_nul (set_data_block s A) (int (length (a @ b)))) (a @ b)"
    by (intro finish_ok [OF s]) (simp_all add: A_def r)
  ultimately show ?thesis by (simp only: fin bind.bind_lunit)
qed

end
