(* ===== verification/String_Ops.thy ===== *)
theory String_Ops
  imports StringT
begin

section \<open>Constructors, setters and modifiers of string_t\<close>

text \<open>
  The operations of \<open>string_t.c\<close> that build or change a string.  Every lemma
  \<open>string_<op>_ok\<close> states that the operation, on represented arguments, is free of
  undefined behaviour and results in a represented string with the given contents.
\<close>

subsection \<open>Ranges\<close>

definition clamp_range :: "int \<Rightarrow> int \<Rightarrow> int \<Rightarrow> int \<times> int" where
  "clamp_range len begin0 end0 =
     (let e = (if end0 = -1 then len else end0);
          b = (if begin0 < 0 then 0 else begin0);
          b = (if b > len then len else b);
          e = (if e < 0 then 0 else e);
          e = (if e > len then len else e)
      in if e \<le> b then (b, b) else (b, e))"

definition clamp_pos :: "int \<Rightarrow> int \<Rightarrow> int" where
  \<comment> \<open>\<open>if (pos < 0) pos = 0; if (pos > len) pos = len;\<close>\<close>
  "clamp_pos len pos = (let p = (if pos < 0 then 0 else pos) in if p > len then len else p)"

definition str_range :: "string \<Rightarrow> int \<Rightarrow> int \<Rightarrow> string" where
  "str_range cs b e = (case clamp_range (int (length cs)) b e of
     (b', e') \<Rightarrow> take (nat (e' - b')) (drop (nat b') cs))"

lemma clamp_range_bounds:
  "0 \<le> len \<Longrightarrow> clamp_range len b e = (b', e') \<Longrightarrow> 0 \<le> b' \<and> b' \<le> e' \<and> e' \<le> len"
  by (auto simp: clamp_range_def Let_def split: if_splits)

lemma clamp_range_whole [simp]: "clamp_range (int n) 0 (int n) = (0, int n)"
  by (simp add: clamp_range_def)

lemma str_range_whole [simp]: "str_range cs 0 (int (length cs)) = cs"
  by (simp add: str_range_def)

lemma clamp_pos_bounds [simp]:
  "0 \<le> len \<Longrightarrow> 0 \<le> clamp_pos len pos" "0 \<le> len \<Longrightarrow> clamp_pos len pos \<le> len"
  by (simp_all add: clamp_pos_def Let_def)

subsection \<open>Constructors\<close>

definition string_create :: string_t where
  "string_create = \<lparr>str_length = 0, str_capacity = STRING_INITIAL_CAPACITY,
     str_data = InlineData, str_inline = replicate 16 (Some NUL)\<rparr>"

definition string_create_from_n_chars :: "int \<Rightarrow> char \<Rightarrow> string_t option" where
  "string_create_from_n_chars count ch =
     (if count \<le> 0 then Some string_create
      else do {
        needed_capacity \<leftarrow> c_int (count + 1);
        s \<leftarrow> string_ensure_capacity string_create needed_capacity;
        s \<leftarrow> mem_fill s 0 ch count;
        set_length_nul s count })"

definition string_create_from_cstr_len :: "block option \<Rightarrow> int \<Rightarrow> string_t option" where
  "string_create_from_cstr_len data len =
     (case data of None \<Rightarrow> Some string_create
      | Some d \<Rightarrow>
        if len \<le> 0 then Some string_create
        else do {
          needed_capacity \<leftarrow> c_int (len + 1);
          s \<leftarrow> string_ensure_capacity string_create needed_capacity;
          s \<leftarrow> mem_copy s 0 d 0 len;
          set_length_nul s len })"

definition string_create_from_cstr :: "block option \<Rightarrow> string_t option" where
  "string_create_from_cstr data =
     (case data of None \<Rightarrow> Some string_create
      | Some d \<Rightarrow> do {
          len \<leftarrow> c_strlen d;
          string_create_from_cstr_len (Some d) (if len > INT_MAX then INT_MAX - 1 else len) })"

definition string_create_from_range :: "string_t \<Rightarrow> int \<Rightarrow> int \<Rightarrow> string_t option" where
  "string_create_from_range str start end0 =
     (if str_length str = 0 then Some string_create
      else let (b, e) = clamp_range (str_length str) start end0 in
        if b = e then Some string_create
        else do {
          needed_capacity \<leftarrow> c_int (e - b + 1);
          result \<leftarrow> string_ensure_capacity string_create needed_capacity;
          result \<leftarrow> mem_copy result 0 (data_block str) b (e - b);
          set_length_nul result (e - b) })"

definition string_create_from :: "string_t \<Rightarrow> string_t option" where
  "string_create_from other =
     (if str_length other = 0 then Some string_create
      else string_create_from_range other 0 (str_length other))"

definition string_substring :: "string_t \<Rightarrow> int \<Rightarrow> int \<Rightarrow> string_t option" where
  "string_substring str begin0 end0 = string_create_from_range str begin0 end0"

lemma string_create_ok [simp]: "represents string_create []"
  by (simp add: string_create_def represents_def data_block_def string_consts)

lemma source_of_represents:
  assumes "represents t ts" and "0 \<le> b" and "nat b + n \<le> length ts"
  shows "take n (drop (nat b) (data_block t)) = map Some (take n (drop (nat b) ts))"
proof -
  obtain r where "data_block t = map Some ts @ Some NUL # r"
    using assms(1) by (rule represents_block)
  then show ?thesis using assms(2,3) by (simp add: drop_map take_map)
qed

lemma data_block_bound: "represents t ts \<Longrightarrow> length ts < length (data_block t)"
  by (simp add: represents_def)

lemma source_cstr [simp]: "take (length xs) (cstr_block xs) = map Some xs"
  "length (cstr_block xs) = length xs + 1"
  by (simp_all add: cstr_block_def)

lemma string_create_from_n_chars_ok:
  "count < INT_MAX \<Longrightarrow> yields (string_create_from_n_chars count ch) (replicate (nat count) ch)"
  using overwrite_ok [of _ "[]" "[]" "replicate (nat count) ch" 0 "replicate (nat count) (Some ch)" 0 count
      "\<lambda>_. count"]
  by (auto simp: string_create_from_n_chars_def c_simps mem_fill_copy
      intro!: yields_cap_bind [OF string_ensure_capacity_ok [OF string_create_ok]])

lemma string_create_from_cstr_len_ok:
  assumes "len < INT_MAX" and "nat len \<le> length xs"
  shows "yields (string_create_from_cstr_len (Some (map Some xs @ r)) len) (take (nat len) xs)"
  using assms overwrite_ok [of _ "[]" "[]" "take (nat len) xs" 0 "map Some xs @ r" 0 len "\<lambda>_. len"]
  by (auto simp: string_create_from_cstr_len_def c_simps take_map min_absorb2
      intro!: yields_cap_bind [OF string_ensure_capacity_ok [OF string_create_ok]])

lemma string_create_from_cstr_ok:
  assumes "nul_free xs" and "int (length xs) < INT_MAX"
  shows "yields (string_create_from_cstr (Some (cstr_block xs))) xs"
  using string_create_from_cstr_len_ok [of "int (length xs)" xs "[Some NUL]"] assms
  by (simp add: string_create_from_cstr_def c_simps) (simp add: cstr_block_def)

lemma string_create_from_range_ok:
  assumes "represents t ts"
  shows "yields (string_create_from_range t b e) (str_range ts b e)"
proof -
  obtain b' e' where c: "clamp_range (int (length ts)) b e = (b', e')" by force
  then have be: "0 \<le> b'" "b' \<le> e'" "e' \<le> int (length ts)"
    using clamp_range_bounds [of "int (length ts)"] by auto
  define new where "new = take (nat (e' - b')) (drop (nat b') ts)"
  have new: "int (length new) = e' - b'" using be by (simp add: new_def)
  have bnd: "int (length ts) < INT_MAX" using represents_bounds [OF assms] by simp
  have src: "take (length new) (drop (nat b') (data_block t)) = map Some new"
  proof -
    have "nat b' + length new \<le> length ts" using be new by linarith
    moreover have "take (length new) (drop (nat b') ts) = new" by (simp add: new_def min_def)
    ultimately show ?thesis
      using source_of_represents [OF assms be(1), of "length new"] by simp
  qed
  have "yields (do { s \<leftarrow> mem_copy s 0 (data_block t) b' (e' - b'); set_length_nul s (e' - b') }) new"
    if "represents s []" "e' - b' + 1 \<le> str_capacity s" for s
  proof -
    have b: "nat b' \<le> length (data_block t)" using be data_block_bound [OF assms] by linarith
    have "yields (do { s \<leftarrow> mem_copy s 0 (data_block t) b' (e' - b'); set_length_nul s (e' - b') })
        ([] @ new)"
      by (rule overwrite_ok [where d = "[]", OF _ src be(1) b]) (use that new in simp_all)
    then show ?thesis by simp
  qed
  then have run: "yields (do { s \<leftarrow> string_ensure_capacity string_create (e' - b' + 1);
      s \<leftarrow> mem_copy s 0 (data_block t) b' (e' - b'); set_length_nul s (e' - b') }) new"
    using bnd be by (intro yields_cap_bind [OF string_ensure_capacity_ok [OF string_create_ok]]) auto
  have res: "str_range ts b e = new" by (simp add: str_range_def c new_def)
  show ?thesis
  proof (cases "b' = e'")
    case True
    then have "new = []" by (simp add: new_def)
    with True show ?thesis
      by (simp add: string_create_from_range_def represents_length [OF assms] c res)
  next
    case False
    then have "ts \<noteq> []" "c_int (e' - b' + 1) = Some (e' - b' + 1)" using be bnd by (auto simp: c_simps)
    then show ?thesis
      using False run by (simp add: string_create_from_range_def represents_length [OF assms] c res)
  qed
qed

lemma string_create_from_ok: "represents t ts \<Longrightarrow> yields (string_create_from t) ts"
  using string_create_from_range_ok [of t ts 0 "str_length t"]
  by (auto simp: string_create_from_def represents_length)

lemma string_substring_ok: "represents t ts \<Longrightarrow> yields (string_substring t b e) (str_range ts b e)"
  by (simp add: string_substring_def string_create_from_range_ok)

subsection \<open>Setters\<close>

definition string_set :: "string_t \<Rightarrow> string_t option \<Rightarrow> string_t option" where
  \<comment> \<open>the early return for \<open>str2 == str\<close> leaves the string as it is, as copying would\<close>
  "string_set str str2 =
     (case str2 of None \<Rightarrow> set_length_nul str 0
      | Some o2 \<Rightarrow>
        if str_length o2 = 0 then set_length_nul str 0
        else do {
          needed_capacity \<leftarrow> c_int (str_length o2 + 1);
          str \<leftarrow> string_ensure_capacity str needed_capacity;
          str \<leftarrow> mem_copy str 0 (data_block o2) 0 (str_length o2);
          set_length_nul str (str_length o2) })"

definition string_move :: "string_t \<Rightarrow> string_t \<Rightarrow> (string_t \<times> string_t) option" where
  \<comment> \<open>the result is the pair of \<open>*str\<close> and \<open>*str2\<close> after the call\<close>
  "string_move str str2 =
     do {
       str \<leftarrow> (if string_is_heap_allocated str2
              then Some (str\<lparr>str_data := str_data str2, str_length := str_length str2,
                             str_capacity := str_capacity str2\<rparr>)
              else do {
                b \<leftarrow> block_copy (str_inline str) 0 (str_inline str2) 0 (str_length str2 + 1);
                Some (str\<lparr>str_length := str_length str2, str_capacity := STRING_INITIAL_CAPACITY,
                          str_inline := b, str_data := InlineData\<rparr>) });
       str2 \<leftarrow> mem_store (str2\<lparr>str_data := InlineData, str_length := 0,
                str_capacity := STRING_INITIAL_CAPACITY\<rparr>) 0 NUL;
       Some (str, str2) }"

definition string_set_cstr :: "string_t \<Rightarrow> block option \<Rightarrow> string_t option" where
  "string_set_cstr str cstr =
     (case cstr of None \<Rightarrow> set_length_nul str 0
      | Some c \<Rightarrow> do {
          slen \<leftarrow> c_strlen c;
          len \<leftarrow> c_int (if slen > INT_MAX - 1 then INT_MAX - 1 else slen);
          needed_capacity \<leftarrow> c_int (len + 1);
          str \<leftarrow> string_ensure_capacity str needed_capacity;
          str \<leftarrow> mem_copy str 0 c 0 len;
          set_length_nul str len })"

definition string_set_char :: "string_t \<Rightarrow> char \<Rightarrow> string_t option" where
  "string_set_char str ch =
     (if ch = NUL then set_length_nul str 0
      else do { str \<leftarrow> mem_store str 0 ch; set_length_nul str 1 })"

definition string_set_data :: "string_t \<Rightarrow> block option \<Rightarrow> int \<Rightarrow> string_t option" where
  "string_set_data str data n =
     (case data of None \<Rightarrow> set_length_nul str 0
      | Some d \<Rightarrow>
        if n \<le> 0 then set_length_nul str 0
        else let n = (if n > INT_MAX - 1 then INT_MAX - 1 else n) in do {
          actual_len \<leftarrow> c_strnlen d (nat n);
          needed_capacity \<leftarrow> c_int (actual_len + 1);
          str \<leftarrow> string_ensure_capacity str needed_capacity;
          str \<leftarrow> mem_copy str 0 d 0 actual_len;
          set_length_nul str actual_len })"

definition string_set_n_chars :: "string_t \<Rightarrow> int \<Rightarrow> char \<Rightarrow> string_t option" where
  "string_set_n_chars str count ch =
     (if count \<le> 0 \<or> ch = NUL then set_length_nul str 0
      else let count = (if count > INT_MAX - 1 then INT_MAX - 1 else count) in do {
          needed_capacity \<leftarrow> c_int (count + 1);
          str \<leftarrow> string_ensure_capacity str needed_capacity;
          str \<leftarrow> mem_fill str 0 ch count;
          set_length_nul str count })"

definition string_set_substring :: "string_t \<Rightarrow> string_t option \<Rightarrow> int \<Rightarrow> int \<Rightarrow> string_t option" where
  "string_set_substring str str2 begin2 end2 =
     (case str2 of None \<Rightarrow> set_length_nul str 0
      | Some o2 \<Rightarrow>
        if str_length o2 = 0 then set_length_nul str 0
        else let (b, e) = clamp_range (str_length o2) begin2 end2 in
          if b = e then set_length_nul str 0
          else do {
            needed_capacity \<leftarrow> c_int (e - b + 1);
            str \<leftarrow> string_ensure_capacity str needed_capacity;
            str \<leftarrow> mem_copy str 0 (data_block o2) b (e - b);
            set_length_nul str (e - b) })"

definition opt_chars :: "string option \<Rightarrow> string" where
  "opt_chars x = (case x of None \<Rightarrow> [] | Some cs \<Rightarrow> cs)"

lemma opt_chars_simps [simp]: "opt_chars None = []" "opt_chars (Some cs) = cs"
  by (simp_all add: opt_chars_def)

definition represents_opt :: "string_t option \<Rightarrow> string option \<Rightarrow> bool" where
  "represents_opt = rel_option represents"

lemma represents_opt_cases:
  assumes "represents_opt t ts"
  obtains "t = None" "ts = None" | s cs where "t = Some s" "ts = Some cs" "represents s cs"
  using assms by (cases t; cases ts) (auto simp: represents_opt_def)

lemma string_clear_ok: "represents s cs \<Longrightarrow> yields (set_length_nul s 0) []"
  using truncate_ok [of s "[]" cs 0] by simp

text \<open>Assignment of a block that holds \<open>new\<close>, the common tail of the setters.\<close>

lemma assign_ok:
  assumes "represents s cs" and "take (length new) (drop (nat j) src) = map Some new"
    and "0 \<le> j" "nat j \<le> length src" and "n = int (length new)" and "n < INT_MAX"
  shows "yields (do { s \<leftarrow> string_ensure_capacity s (n + 1);
      s \<leftarrow> mem_copy s 0 src j n; set_length_nul s n }) new"
proof (rule yields_cap_bind [OF string_ensure_capacity_ok [OF assms(1)]])
  show "n + 1 \<le> INT_MAX" using assms(6) by simp
  fix t assume "represents t cs" "n + 1 \<le> str_capacity t"
  then show "yields (do { s \<leftarrow> mem_copy t 0 src j n; set_length_nul s n }) new"
    using overwrite_ok [of t "[]" cs new j src 0 n "\<lambda>_. n"] assms by simp
qed

lemma string_set_ok:
  "represents s cs \<Longrightarrow> represents_opt t ts \<Longrightarrow> yields (string_set s t) (opt_chars ts)"
proof (erule represents_opt_cases)
  assume s: "represents s cs"
  { assume "t = None" "ts = None"
    with s show ?thesis by (simp add: string_set_def string_clear_ok) }
  fix o2 os assume t: "t = Some o2" "ts = Some os" "represents o2 os"
  show ?thesis
    using s t represents_bounds [OF t(3)] represents_length [OF t(3)] data_block_bound [OF t(3)]
      assign_ok [OF s, of os 0 "data_block o2" "int (length os)"]
      source_of_represents [OF t(3), of 0 "length os"] string_clear_ok [OF s]
    by (auto simp: string_set_def c_simps)
qed

lemma string_set_cstr_ok:
  assumes "represents s cs" and "nul_free xs" and "int (length xs) < INT_MAX"
  shows "yields (string_set_cstr s (Some (cstr_block xs))) xs"
  using assms assign_ok [OF assms(1), of xs 0 "cstr_block xs" "int (length xs)"]
  by (simp add: string_set_cstr_def c_simps)

lemma mem_store_copy: "mem_store s i c = mem_copy s i [Some c] 0 1"
  by (simp add: mem_store_def mem_copy_def block_store_def block_copy_def upd_conv_take_nth_drop
      Suc_le_eq)

lemma string_set_char_ok:
  assumes "represents s cs"
  shows "yields (string_set_char s ch) (if ch = NUL then [] else [ch])"
  using assms overwrite_ok [of s "[]" cs "[ch]" 0 "[Some ch]" 0 1 "\<lambda>_. 1"] represents_bounds(3) [OF assms]
  by (auto simp: string_set_char_def mem_store_copy string_clear_ok)

lemma string_set_n_chars_ok:
  assumes "represents s cs" and "ch \<noteq> NUL"
  shows "yields (string_set_n_chars s count ch) (replicate (nat (min count (INT_MAX - 1))) ch)"
  using assms string_clear_ok [OF assms(1)]
    assign_ok [OF assms(1), of "replicate (nat (min count (INT_MAX - 1))) ch" 0
      "replicate (nat (min count (INT_MAX - 1))) (Some ch)" "min count (INT_MAX - 1)"]
  by (auto simp: string_set_n_chars_def mem_fill_copy c_simps min_def Let_def)

subsection \<open>Accessors\<close>

definition string_at :: "string_t \<Rightarrow> int \<Rightarrow> char option" where
  "string_at str index =
     (if index < 0 \<or> index \<ge> str_length str then Some NUL else block_load (data_block str) index)"

definition string_front :: "string_t \<Rightarrow> char option" where
  "string_front str = (if str_length str \<le> 0 then Some NUL else block_load (data_block str) 0)"

definition string_back :: "string_t \<Rightarrow> char option" where
  "string_back str =
     (if str_length str \<le> 0 then Some NUL else block_load (data_block str) (str_length str - 1))"

definition string_empty :: "string_t \<Rightarrow> bool" where
  "string_empty str = (str_length str = 0)"

text \<open>The character at an index of a character list, with the NUL that the code returns
  outside it; components built on strings use these.\<close>

definition chr_at :: "string \<Rightarrow> int \<Rightarrow> char" where
  "chr_at cs i = (if i < 0 \<or> i \<ge> int (length cs) then NUL else cs ! nat i)"

lemma block_load_represents:
  assumes "represents s cs" and "0 \<le> i" "i < int (length cs)"
  shows "block_load (data_block s) i = Some (cs ! nat i)"
proof -
  obtain r where "data_block s = map Some cs @ Some NUL # r"
    using assms(1) by (rule represents_block)
  moreover have "nat i < length cs" using assms(2,3) by linarith
  ultimately show ?thesis using assms(2) by (simp add: block_load_def nth_append)
qed

lemma string_at_ok: "represents s cs \<Longrightarrow> string_at s i = Some (chr_at cs i)"
  by (simp add: string_at_def chr_at_def block_load_represents represents_length)

lemma string_front_ok: "represents s cs \<Longrightarrow> string_front s = Some (chr_at cs 0)"
  by (auto simp: string_front_def chr_at_def block_load_represents represents_length)

lemma string_back_ok: "represents s cs \<Longrightarrow> string_back s = Some (chr_at cs (int (length cs) - 1))"
  by (auto simp: string_back_def chr_at_def block_load_represents represents_length)

subsection \<open>Capacity\<close>

definition string_reserve :: "string_t \<Rightarrow> int \<Rightarrow> string_t option" where
  "string_reserve str new_cap =
     (if new_cap < 0 then Some str
      else let new_cap = (if new_cap > INT_MAX - 1 then INT_MAX - 1 else new_cap) in
        if new_cap + 1 > str_capacity str then string_ensure_capacity str (new_cap + 1)
        else Some str)"

definition string_shrink_to_fit :: "string_t \<Rightarrow> string_t option" where
  "string_shrink_to_fit str =
     do {
       needed \<leftarrow> c_int (str_length str + 1);
       if needed \<le> STRING_INITIAL_CAPACITY then
         (if string_is_heap_allocated str
          then string_normalize_capacity str STRING_INITIAL_CAPACITY else Some str)
       else if str_capacity str > needed then
         Some (str\<lparr>str_data := HeapData (realloc_block (data_block str) needed),
                   str_capacity := needed\<rparr>)
       else Some str }"

lemma string_reserve_ok:
  assumes "represents s cs"
  shows "yields_cap (string_reserve s n) cs (min n (INT_MAX - 1))"
  using assms string_ensure_capacity_ok [OF assms, of "min n (INT_MAX - 1) + 1"]
    represents_bounds(3) [OF assms]
  by (auto simp: string_reserve_def Let_def yields_cap_def min_def split: option.splits)

lemma normalize_capacity_inline:
  assumes s: "represents s cs" and n: "length cs < 16" "string_is_heap_allocated s"
  shows "yields (string_normalize_capacity s STRING_INITIAL_CAPACITY) cs"
proof -
  obtain r where r: "data_block s = map Some cs @ Some NUL # r"
    using s by (rule represents_block)
  have inl: "length (str_inline s) = 16" "str_length s = int (length cs)"
    using s by (auto simp: represents_def)
  define b where "b = (map Some cs @ drop (length cs) (str_inline s))[length cs := Some NUL]"
  have "drop (length cs) (str_inline s) \<noteq> []" using inl n by simp
  then obtain y ys where "drop (length cs) (str_inline s) = y # ys" by (cases "drop (length cs) (str_inline s)") auto
  then have pre: "take (Suc (length cs)) b = map Some cs @ [Some NUL]"
    by (simp add: b_def list_update_append)
  have "length b = 16" using inl n by (simp add: b_def)
  moreover have "string_normalize_capacity s STRING_INITIAL_CAPACITY =
      Some (s\<lparr>str_length := int (length cs), str_capacity := STRING_INITIAL_CAPACITY,
              str_data := InlineData, str_inline := b\<rparr>)"
    using n inl r by (simp add: string_normalize_capacity_def block_copy_def block_store_def b_def string_consts)
  ultimately show ?thesis
    using pre n by (simp add: represents_def data_block_def string_consts)
qed

lemma string_shrink_to_fit_ok:
  assumes s: "represents s cs"
  shows "yields (string_shrink_to_fit s) cs"
proof -
  obtain r where r: "data_block s = map Some cs @ Some NUL # r"
    using s by (rule represents_block)
  have bnd: "int (length cs) + 1 \<le> INT_MAX" "str_length s = int (length cs)"
    using represents_bounds [OF s] represents_length [OF s] by auto
  have "represents (s\<lparr>str_data := HeapData (realloc_block (data_block s) (int (length cs) + 1)),
      str_capacity := int (length cs) + 1\<rparr>) cs" if "\<not> int (length cs) + 1 \<le> 16"
    using s r that by (simp add: represents_def data_block_def [of "_\<lparr>str_capacity := _\<rparr>"]
        realloc_block_def string_consts nat_add_distrib)
  then show ?thesis
    using s bnd normalize_capacity_inline [OF s]
    by (auto simp: string_shrink_to_fit_def c_simps string_consts)
qed

subsection \<open>Insertion and deletion\<close>

definition string_clear :: "string_t \<Rightarrow> string_t option" where
  "string_clear str = set_length_nul str 0"

definition string_insert :: "string_t \<Rightarrow> int \<Rightarrow> string_t option \<Rightarrow> string_t option" where
  "string_insert str pos other0 =
     (case other0 of None \<Rightarrow> Some str
      | Some other1 \<Rightarrow>
        if str_length other1 = 0 then Some str
        else let pos = clamp_pos (str_length str) pos; other_len = str_length other1 in do {
          needed_capacity \<leftarrow> c_int (str_length str + other_len + 1);
          str \<leftarrow> string_ensure_capacity str needed_capacity;
          str \<leftarrow> mem_move str (pos + other_len) pos (str_length str - pos);
          str \<leftarrow> mem_copy str pos (data_block other1) 0 other_len;
          set_length_nul str (str_length str + other_len) })"

definition string_insert_n_chars :: "string_t \<Rightarrow> int \<Rightarrow> int \<Rightarrow> char \<Rightarrow> string_t option" where
  "string_insert_n_chars str pos count ch =
     (if count \<le> 0 then Some str
      else if ch = NUL then set_length_nul str (clamp_pos (str_length str) pos)
      else let pos = clamp_pos (str_length str) pos in do {
          needed_capacity \<leftarrow> c_int (str_length str + count + 1);
          str \<leftarrow> string_ensure_capacity str needed_capacity;
          str \<leftarrow> mem_move str (pos + count) pos (str_length str - pos);
          str \<leftarrow> mem_fill str pos ch count;
          set_length_nul str (str_length str + count) })"

definition string_insert_cstr :: "string_t \<Rightarrow> int \<Rightarrow> block option \<Rightarrow> string_t option" where
  "string_insert_cstr str pos cstr =
     (case cstr of None \<Rightarrow> Some str
      | Some c \<Rightarrow> do {
          cstr_len \<leftarrow> c_strlen c;
          if cstr_len = 0 then Some str
          else let pos = clamp_pos (str_length str) pos in do {
            needed_capacity \<leftarrow> c_int (str_length str + cstr_len + 1);
            str \<leftarrow> string_ensure_capacity str needed_capacity;
            str \<leftarrow> mem_move str (pos + cstr_len) pos (str_length str - pos);
            str \<leftarrow> mem_copy str pos c 0 cstr_len;
            set_length_nul str (str_length str + cstr_len) } })"

definition string_insert_data :: "string_t \<Rightarrow> int \<Rightarrow> block option \<Rightarrow> int \<Rightarrow> string_t option" where
  "string_insert_data str pos data len =
     (case data of None \<Rightarrow> Some str
      | Some d \<Rightarrow>
        if len \<le> 0 then Some str
        else let pos = clamp_pos (str_length str) pos in do {
          actual_len \<leftarrow> c_strnlen d (nat len);
          if actual_len = 0 then Some str
          else do {
            needed_capacity \<leftarrow> c_int (str_length str + actual_len + 1);
            str \<leftarrow> string_ensure_capacity str needed_capacity;
            str \<leftarrow> mem_move str (pos + actual_len) pos (str_length str - pos);
            str \<leftarrow> mem_copy str pos d 0 actual_len;
            set_length_nul str (str_length str + actual_len) } })"

definition string_erase :: "string_t \<Rightarrow> int \<Rightarrow> int \<Rightarrow> string_t option" where
  "string_erase str pos len =
     (let pos = (if pos < 0 then 0 else pos) in
      if pos \<ge> str_length str then Some str
      else if len \<le> 0 then Some str
      else do {
        past \<leftarrow> c_int (pos + len);
        let len = (if past > str_length str then str_length str - pos else len);
        str \<leftarrow> mem_move str pos (pos + len) (str_length str - pos - len);
        str \<leftarrow> set_length_nul str (str_length str - len);
        if string_is_heap_allocated str \<and>
           str_capacity str - str_length str > STRING_REDUCE_THRESHOLD
        then string_shrink_to_fit str else Some str })"

definition string_push_back :: "string_t \<Rightarrow> char \<Rightarrow> string_t option" where
  "string_push_back str ch =
     (if ch = NUL then Some str
      else if str_length str \<ge> INT_MAX - 2 then Some str
      else do {
        needed_capacity \<leftarrow> c_int (str_length str + 1 + 1);
        str \<leftarrow> string_ensure_capacity str needed_capacity;
        str \<leftarrow> mem_store str (str_length str) ch;
        set_length_nul str (str_length str + 1) })"

definition string_pop_back :: "string_t \<Rightarrow> (char \<times> string_t) option" where
  "string_pop_back str =
     (if str_length str \<le> 0 then Some (NUL, str)
      else do {
        ch \<leftarrow> block_load (data_block str) (str_length str - 1);
        str \<leftarrow> set_length_nul str (str_length str - 1);
        Some (ch, str) })"

definition insert_at :: "string \<Rightarrow> int \<Rightarrow> string \<Rightarrow> string" where
  "insert_at cs pos new = (let p = nat (clamp_pos (int (length cs)) pos) in take p cs @ new @ drop p cs)"

definition erase_at :: "string \<Rightarrow> int \<Rightarrow> int \<Rightarrow> string" where
  "erase_at cs pos len = take (nat pos) cs @ drop (nat pos + nat len) cs"

lemma insert_gap_ok:
  assumes s: "represents s cs" and src: "take (length new) src = map Some new"
    and ix: "p = clamp_pos (int (length cs)) pos" "n = int (length new)" "L = int (length cs)"
    and bnd: "int (length cs) + n + 1 \<le> INT_MAX"
  shows "yields (do { needed \<leftarrow> c_int (L + n + 1); s \<leftarrow> string_ensure_capacity s needed;
      s \<leftarrow> mem_move s (p + n) p (str_length s - p); s \<leftarrow> mem_copy s p src 0 n;
      set_length_nul s (str_length s + n) }) (insert_at cs pos new)"
proof -
  have p: "0 \<le> p" "p \<le> int (length cs)" using ix by auto
  define a b where "a = take (nat p) cs" and "b = drop (nat p) cs"
  have eq: "insert_at cs pos new = a @ new @ b"
    by (simp add: insert_at_def Let_def a_def b_def ix(1))
  have "cs = a @ [] @ b" "p = int (length a)" "int (length cs) - p = int (length b)"
    using p by (simp_all add: a_def b_def)
  note ab = this eq
  have len: "int (length cs) = int (length a) + int (length b)" using ab by simp
  have "yields (do { s \<leftarrow> string_ensure_capacity s (L + n + 1);
      s \<leftarrow> mem_move s (p + n) p (str_length s - p); s \<leftarrow> mem_copy s p src 0 n;
      set_length_nul s (str_length s + n) }) (a @ new @ b)"
  proof (rule yields_cap_bind [OF string_ensure_capacity_ok [OF s]])
    show "L + n + 1 \<le> INT_MAX" using bnd ix by simp
    fix t assume t: "represents t cs" "L + n + 1 \<le> str_capacity t"
    have t': "represents t (a @ [] @ b)" using t(1) ab(1) by simp
    show "yields (do { s \<leftarrow> mem_move t (p + n) p (str_length t - p); s \<leftarrow> mem_copy s p src 0 n;
      set_length_nul s (str_length s + n) }) (a @ new @ b)"
      by (rule splice_ok [OF t'])
        (use t(2) ab(2,3) ix(2,3) len src represents_length [OF t(1)] in auto)
  qed
  moreover have "c_int (L + n + 1) = Some (L + n + 1)" using bnd ix by (simp add: c_simps)
  ultimately show ?thesis by (simp add: ab(4))
qed

lemma string_insert_ok:
  assumes "represents s cs" and "represents o2 os"
    and "int (length cs) + int (length os) + 1 \<le> INT_MAX"
  shows "yields (string_insert s pos (Some o2)) (insert_at cs pos os)"
  using insert_gap_ok [OF assms(1) _ refl refl refl, of os "data_block o2" pos] assms
    source_of_represents [OF assms(2), of 0 "length os"]
  by (auto simp: string_insert_def represents_length insert_at_def Let_def)

lemma string_insert_n_chars_ok:
  assumes "represents s cs" and "ch \<noteq> NUL" and "int (length cs) + count + 1 \<le> INT_MAX"
  shows "yields (string_insert_n_chars s pos count ch) (insert_at cs pos (replicate (nat count) ch))"
  using insert_gap_ok [OF assms(1) _ refl refl refl, of "replicate (nat count) ch"
      "replicate (nat count) (Some ch)" pos] assms
  by (auto simp: string_insert_n_chars_def represents_length insert_at_def Let_def mem_fill_copy)

lemma string_insert_cstr_ok:
  assumes "represents s cs" and "nul_free xs" and "int (length cs) + int (length xs) + 1 \<le> INT_MAX"
  shows "yields (string_insert_cstr s pos (Some (cstr_block xs))) (insert_at cs pos xs)"
  using insert_gap_ok [OF assms(1) _ refl refl refl, of xs "cstr_block xs" pos] assms
  by (auto simp: string_insert_cstr_def represents_length insert_at_def Let_def c_simps)

lemma string_erase_ok:
  assumes s: "represents s cs" and pos: "0 \<le> pos" and len: "0 \<le> len" and bnd: "pos + len \<le> INT_MAX"
  shows "yields (string_erase s pos len) (erase_at cs pos len)"
proof (cases "pos < int (length cs) \<and> 0 < len")
  case False
  then have "erase_at cs pos len = cs" using pos len by (auto simp: erase_at_def)
  with False s pos len show ?thesis by (auto simp: string_erase_def represents_length)
next
  case True
  define k where "k = (if pos + len > int (length cs) then int (length cs) - pos else len)"
  define a d b where "a = take (nat pos) cs" and "d = take (nat k) (drop (nat pos) cs)"
    and "b = drop (nat pos + nat len) cs"
  have b: "b = drop (nat k) (drop (nat pos) cs)" using True pos by (auto simp: b_def k_def add.commute)
  have "cs = a @ d @ b" unfolding a_def d_def b by (metis append_take_drop_id)
  have l: "int (length a) = pos" "int (length d) = k" "int (length b) = int (length cs) - pos - k"
    using True pos by (auto simp: a_def d_def b k_def)
  have "yields (do { s \<leftarrow> mem_move s pos (pos + k) (str_length s - pos - k);
      set_length_nul s (str_length s - k) }) (a @ b)"
    by (rule erase_ok) (use s l \<open>cs = a @ d @ b\<close> represents_length [OF s] in auto)
  then obtain t u where "mem_move s pos (pos + k) (str_length s - pos - k) = Some t"
      "set_length_nul t (str_length t - k) = Some u" "represents u (a @ b)"
    by (auto simp: yields_def split: option.splits bind_splits)
  moreover have "erase_at cs pos len = a @ b" by (simp add: erase_at_def a_def b_def)
  ultimately show ?thesis
    using True pos bnd string_shrink_to_fit_ok [of u "a @ b"]
    by (auto simp: string_erase_def represents_length [OF s] c_simps k_def Let_def)
qed

lemma string_push_back_ok:
  assumes s: "represents s cs" and ch: "ch \<noteq> NUL" and bnd: "int (length cs) < INT_MAX - 2"
  shows "yields (string_push_back s ch) (cs @ [ch])"
proof -
  have "yields (do { s \<leftarrow> string_ensure_capacity s (int (length cs) + 1 + 1);
      s \<leftarrow> mem_copy s (str_length s) [Some ch] 0 1; set_length_nul s (str_length s + 1) }) (cs @ [ch])"
  proof (rule yields_cap_bind [OF string_ensure_capacity_ok [OF s]])
    fix t assume t: "represents t cs" "int (length cs) + 1 + 1 \<le> str_capacity t"
    show "yields (do { s \<leftarrow> mem_copy t (str_length t) [Some ch] 0 1;
        set_length_nul s (str_length s + 1) }) (cs @ [ch])"
      by (rule overwrite_ok [where d = "[]"]) (use t represents_length [OF t(1)] in auto)
  qed (use bnd in simp)
  then show ?thesis
    using ch bnd by (simp add: string_push_back_def represents_length [OF s] mem_store_copy c_simps)
qed

lemma string_push_back_full:
  "represents s cs \<Longrightarrow> INT_MAX - 2 \<le> int (length cs) \<Longrightarrow> string_push_back s ch = Some s"
  by (simp add: string_push_back_def represents_length)

lemma string_pop_back_ok:
  assumes s: "represents s (cs @ [c])"
  shows "\<exists>t. string_pop_back s = Some (c, t) \<and> represents t cs"
proof -
  have "block_load (data_block s) (int (length cs)) = Some c"
    using block_load_represents [OF s, of "int (length cs)"] by simp
  moreover have "yields (set_length_nul s (int (length cs))) cs"
    by (rule truncate_ok [OF s]) simp
  ultimately show ?thesis
    by (auto simp: string_pop_back_def represents_length [OF s] elim: yieldsE)
qed

subsection \<open>Appending\<close>

definition string_append :: "string_t \<Rightarrow> string_t option \<Rightarrow> string_t option" where
  "string_append str other0 =
     (case other0 of None \<Rightarrow> Some str
      | Some other1 \<Rightarrow>
        if str_length other1 = 0 then Some str
        else let other_length = (if str_length other1 > INT_MAX - 1 - str_length str
                                 then INT_MAX - 1 - str_length str else str_length other1) in do {
          needed_capacity \<leftarrow> c_int (str_length str + other_length + 1);
          str \<leftarrow> string_ensure_capacity str needed_capacity;
          str \<leftarrow> mem_copy str (str_length str) (data_block other1) 0 other_length;
          set_length_nul str (str_length str + other_length) })"

definition string_append_substring :: "string_t \<Rightarrow> string_t option \<Rightarrow> int \<Rightarrow> int \<Rightarrow> string_t option" where
  "string_append_substring str other0 begin0 end0 =
     (case other0 of None \<Rightarrow> Some str
      | Some other1 \<Rightarrow>
        if str_length other1 = 0 then Some str
        else let (b, e) = clamp_range (str_length other1) begin0 end0 in
          if b = e then Some str
          else do {
            needed_capacity \<leftarrow> c_int (str_length str + (e - b) + 1);
            str \<leftarrow> string_ensure_capacity str needed_capacity;
            str \<leftarrow> mem_copy str (str_length str) (data_block other1) b (e - b);
            set_length_nul str (str_length str + (e - b)) })"

definition string_append_cstr :: "string_t \<Rightarrow> block option \<Rightarrow> string_t option" where
  "string_append_cstr str cstr =
     (case cstr of None \<Rightarrow> Some str
      | Some c \<Rightarrow> do {
          cstr_len \<leftarrow> c_strlen c;
          if cstr_len = 0 then Some str
          else let cstr_len = (if cstr_len > INT_MAX - 1 - str_length str
                               then INT_MAX - 1 - str_length str else cstr_len) in do {
            needed_capacity \<leftarrow> c_int (str_length str + cstr_len + 1);
            str \<leftarrow> string_ensure_capacity str needed_capacity;
            str \<leftarrow> mem_copy str (str_length str) c 0 cstr_len;
            set_length_nul str (str_length str + cstr_len) } })"

definition string_append_n_chars :: "string_t \<Rightarrow> int \<Rightarrow> char \<Rightarrow> string_t option" where
  "string_append_n_chars str count ch =
     (if count \<le> 0 \<or> ch = NUL then Some str
      else let count = (if count > INT_MAX - 1 - str_length str
                        then INT_MAX - 1 - str_length str else count) in do {
          needed_capacity \<leftarrow> c_int (str_length str + count + 1);
          str \<leftarrow> string_ensure_capacity str needed_capacity;
          str \<leftarrow> mem_fill str (str_length str) ch count;
          set_length_nul str (str_length str + count) })"

definition string_append_data :: "string_t \<Rightarrow> block option \<Rightarrow> int \<Rightarrow> string_t option" where
  "string_append_data str data len =
     (case data of None \<Rightarrow> Some str
      | Some d \<Rightarrow>
        if len \<le> 0 then Some str
        else do {
          actual_len \<leftarrow> c_strnlen d (nat len);
          if actual_len = 0 then Some str
          else let actual_len = (if actual_len > INT_MAX - 1 - str_length str
                                 then INT_MAX - 1 - str_length str else actual_len) in do {
            needed_capacity \<leftarrow> c_int (str_length str + actual_len + 1);
            str \<leftarrow> string_ensure_capacity str needed_capacity;
            str \<leftarrow> mem_copy str (str_length str) d 0 actual_len;
            set_length_nul str (str_length str + actual_len) } })"

lemma append_gap_ok:
  assumes s: "represents s cs" and src: "take (length new) (drop (nat j) src) = map Some new"
    and j: "0 \<le> j" "nat j \<le> length src"
    and ix: "n = int (length new)" "L = int (length cs)" and bnd: "int (length cs) + n + 1 \<le> INT_MAX"
  shows "yields (do { needed \<leftarrow> c_int (L + n + 1); s \<leftarrow> string_ensure_capacity s needed;
      s \<leftarrow> mem_copy s (str_length s) src j n; set_length_nul s (str_length s + n) }) (cs @ new)"
proof -
  have "yields (do { s \<leftarrow> string_ensure_capacity s (L + n + 1);
      s \<leftarrow> mem_copy s (str_length s) src j n; set_length_nul s (str_length s + n) }) (cs @ new)"
  proof (rule yields_cap_bind [OF string_ensure_capacity_ok [OF s]])
    fix t assume t: "represents t cs" "L + n + 1 \<le> str_capacity t"
    show "yields (do { s \<leftarrow> mem_copy t (str_length t) src j n;
        set_length_nul s (str_length s + n) }) (cs @ new)"
      by (rule overwrite_ok [where d = "[]"]) (use t ix represents_length [OF t(1)] src j in auto)
  qed (use bnd ix in simp)
  moreover have "c_int (L + n + 1) = Some (L + n + 1)" using bnd ix by (simp add: c_simps)
  ultimately show ?thesis by simp
qed

text \<open>\<open>string_append\<close> is total: a concatenation that would not fit an \<open>int\<close> is cut at
  \<open>INT_MAX - 1\<close> characters.\<close>

lemma string_append_ok:
  assumes s: "represents s cs" and o2: "represents o2 os"
  shows "yields (string_append s (Some o2)) (take (nat (INT_MAX - 1)) (cs @ os))"
proof -
  define n where "n = (if int (length os) > INT_MAX - 1 - int (length cs)
      then INT_MAX - 1 - int (length cs) else int (length os))"
  have b: "int (length cs) < INT_MAX" using represents_bounds [OF s] by simp
  then have n: "0 \<le> n" "n \<le> int (length os)" "int (length cs) + n + 1 \<le> INT_MAX"
    by (auto simp: n_def)
  have eq: "take (nat (INT_MAX - 1)) (cs @ os) = cs @ take (nat n) os"
    using b by (auto simp: n_def nat_diff_distrib')
  have "yields (do { needed \<leftarrow> c_int (int (length cs) + n + 1); s \<leftarrow> string_ensure_capacity s needed;
      s \<leftarrow> mem_copy s (str_length s) (data_block o2) 0 n; set_length_nul s (str_length s + n) })
      (cs @ take (nat n) os)"
    by (rule append_gap_ok [OF s])
      (use n source_of_represents [OF o2, of 0 "nat n"] in auto)
  moreover have "string_append s (Some o2) = do { needed \<leftarrow> c_int (int (length cs) + n + 1);
      s \<leftarrow> string_ensure_capacity s needed; s \<leftarrow> mem_copy s (str_length s) (data_block o2) 0 n;
      set_length_nul s (str_length s + n) }" if "os \<noteq> []"
    unfolding string_append_def n_def using that
    by (simp add: Let_def represents_length [OF s] represents_length [OF o2])
  moreover have "string_append s (Some o2) = Some s" if "os = []"
    using that by (simp add: string_append_def represents_length [OF o2])
  ultimately show ?thesis using s eq b by (cases "os = []") auto
qed

lemma string_append_fits:
  assumes "represents s cs" and "represents o2 os" and "int (length cs + length os) < INT_MAX"
  shows "yields (string_append s (Some o2)) (cs @ os)"
  using string_append_ok [OF assms(1,2)] assms(3) by simp

lemma string_append_cstr_ok:
  assumes s: "represents s cs" and "nul_free xs" and bnd: "int (length cs + length xs) < INT_MAX"
  shows "yields (string_append_cstr s (Some (cstr_block xs))) (cs @ xs)"
  using append_gap_ok [OF s, of xs 0 "cstr_block xs" "int (length xs)" "int (length cs)"] assms
    represents_length [OF s]
  by (auto simp: string_append_cstr_def c_simps Let_def)

lemma string_append_n_chars_ok:
  assumes s: "represents s cs" and "ch \<noteq> NUL" and bnd: "int (length cs) + count < INT_MAX"
  shows "yields (string_append_n_chars s count ch) (cs @ replicate (nat count) ch)"
  using append_gap_ok [OF s, of "replicate (nat count) ch" 0 "replicate (nat count) (Some ch)" count
      "int (length cs)"] assms represents_length [OF s]
  by (auto simp: string_append_n_chars_def c_simps Let_def mem_fill_copy)

lemma string_append_substring_ok:
  assumes s: "represents s cs" and t: "represents t ts"
    and bnd: "int (length cs + length ts) < INT_MAX"
  shows "yields (string_append_substring s (Some t) b e) (cs @ str_range ts b e)"
proof -
  obtain b' e' where c: "clamp_range (int (length ts)) b e = (b', e')" by force
  then have be: "0 \<le> b'" "b' \<le> e'" "e' \<le> int (length ts)"
    using clamp_range_bounds [of "int (length ts)"] by auto
  define new where "new = take (nat (e' - b')) (drop (nat b') ts)"
  have new: "e' - b' = int (length new)" "nat b' + length new \<le> length ts" "take (length new) (drop (nat b') ts) = new"
    using be by (auto simp: new_def min_def)
  have res: "str_range ts b e = new" by (simp add: str_range_def c new_def)
  have "yields (do { needed \<leftarrow> c_int (int (length cs) + (e' - b') + 1); s \<leftarrow> string_ensure_capacity s needed;
      s \<leftarrow> mem_copy s (str_length s) (data_block t) b' (e' - b');
      set_length_nul s (str_length s + (e' - b')) }) (cs @ new)"
    by (rule append_gap_ok [OF s])
      (use source_of_represents [OF t be(1) new(2)] new be bnd data_block_bound [OF t] in auto)
  moreover have "str_range ts b e = []" if "b' = e'" using that by (simp add: res new_def)
  ultimately show ?thesis
    using s c res be by (auto simp: string_append_substring_def represents_length [OF s] represents_length [OF t])
qed

end
