(* ===== verification/String_Edit.thy ===== *)
theory String_Edit
  imports String_Ops
begin

section \<open>Replacement, resizing and UTF-8 appending in string_t\<close>

text \<open>
  The remaining modifiers of \<open>string_t.c\<close>: replacing a range by another string, C string,
  run of one character or data block, resizing, copying out, and appending a code point
  encoded as UTF-8.
\<close>

definition replace_at :: "string \<Rightarrow> int \<Rightarrow> int \<Rightarrow> string \<Rightarrow> string" where
  "replace_at cs pos len new =
     (let p = (if pos < 0 then 0 else pos) in
      if p \<ge> int (length cs) \<or> len \<le> 0 then cs
      else take (nat p) cs @ new @ drop (nat p + nat len) cs)"

definition string_replace :: "string_t \<Rightarrow> int \<Rightarrow> int \<Rightarrow> string_t option \<Rightarrow> string_t option" where
  "string_replace str pos len other0 =
     (let pos = (if pos < 0 then 0 else pos) in
      if pos \<ge> str_length str then Some str
      else if len \<le> 0 then Some str
      else do {
        past \<leftarrow> c_int (pos + len);
        let len = (if past > str_length str then str_length str - pos else len);
        let other_len = (case other0 of None \<Rightarrow> 0 | Some o2 \<Rightarrow> str_length o2);
        new_length \<leftarrow> c_int (str_length str - len + other_len);
        needed_capacity \<leftarrow> c_int (new_length + 1);
        str \<leftarrow> string_ensure_capacity str needed_capacity;
        str \<leftarrow> mem_move str (pos + other_len) (pos + len) (str_length str - pos - len);
        str \<leftarrow> (case other0 of None \<Rightarrow> Some str
               | Some o2 \<Rightarrow> if other_len > 0 then mem_copy str pos (data_block o2) 0 other_len
                            else Some str);
        set_length_nul str new_length })"

definition string_replace_substring ::
  "string_t \<Rightarrow> int \<Rightarrow> int \<Rightarrow> string_t option \<Rightarrow> int \<Rightarrow> int \<Rightarrow> string_t option" where
  "string_replace_substring str pos len other0 begin2 end2 =
     (let pos = (if pos < 0 then 0 else pos) in
      if pos \<ge> str_length str then Some str
      else if len \<le> 0 then Some str
      else do {
        past \<leftarrow> c_int (pos + len);
        let len = (if past > str_length str then str_length str - pos else len);
        let (b, e) = (case other0 of None \<Rightarrow> (0, 0)
                      | Some o2 \<Rightarrow> if str_length o2 > 0 then clamp_range (str_length o2) begin2 end2
                                   else (0, 0));
        let other_len = e - b;
        new_length \<leftarrow> c_int (str_length str - len + other_len);
        needed_capacity \<leftarrow> c_int (new_length + 1);
        str \<leftarrow> string_ensure_capacity str needed_capacity;
        str \<leftarrow> mem_move str (pos + other_len) (pos + len) (str_length str - pos - len);
        str \<leftarrow> (case other0 of None \<Rightarrow> Some str
               | Some o2 \<Rightarrow> if other_len > 0 then mem_copy str pos (data_block o2) b other_len
                            else Some str);
        set_length_nul str new_length })"

definition string_replace_cstr :: "string_t \<Rightarrow> int \<Rightarrow> int \<Rightarrow> block option \<Rightarrow> string_t option" where
  "string_replace_cstr str pos len cstr =
     (let pos = (if pos < 0 then 0 else pos) in
      if pos \<ge> str_length str then Some str
      else if len \<le> 0 then Some str
      else do {
        past \<leftarrow> c_int (pos + len);
        let len = (if past > str_length str then str_length str - pos else len);
        cstr_len \<leftarrow> (case cstr of None \<Rightarrow> Some 0 | Some c \<Rightarrow> c_strlen c);
        new_length \<leftarrow> c_int (str_length str - len + cstr_len);
        needed_capacity \<leftarrow> c_int (new_length + 1);
        str \<leftarrow> string_ensure_capacity str needed_capacity;
        str \<leftarrow> mem_move str (pos + cstr_len) (pos + len) (str_length str - pos - len);
        str \<leftarrow> (case cstr of None \<Rightarrow> Some str
               | Some c \<Rightarrow> if cstr_len > 0 then mem_copy str pos c 0 cstr_len else Some str);
        set_length_nul str new_length })"

definition string_replace_n_chars :: "string_t \<Rightarrow> int \<Rightarrow> int \<Rightarrow> int \<Rightarrow> char \<Rightarrow> string_t option" where
  "string_replace_n_chars str pos len count ch =
     (let pos = (if pos < 0 then 0 else pos) in
      if pos \<ge> str_length str then Some str
      else if len \<le> 0 then Some str
      else if ch = NUL then Some str
      else do {
        past \<leftarrow> c_int (pos + len);
        let len = (if past > str_length str then str_length str - pos else len);
        let replacement_len = (if count \<le> 0 then 0 else count);
        new_length \<leftarrow> c_int (str_length str - len + replacement_len);
        needed_capacity \<leftarrow> c_int (new_length + 1);
        str \<leftarrow> string_ensure_capacity str needed_capacity;
        str \<leftarrow> mem_move str (pos + replacement_len) (pos + len) (str_length str - pos - len);
        str \<leftarrow> (if replacement_len > 0 then mem_fill str pos ch replacement_len else Some str);
        set_length_nul str new_length })"

definition string_replace_data :: "string_t \<Rightarrow> int \<Rightarrow> int \<Rightarrow> block option \<Rightarrow> int \<Rightarrow> string_t option" where
  "string_replace_data str pos len data data_len =
     (let pos = (if pos < 0 then 0 else pos) in
      if pos \<ge> str_length str then Some str
      else if len \<le> 0 then Some str
      else case data of None \<Rightarrow> Some str
      | Some d \<Rightarrow> do {
        past \<leftarrow> c_int (pos + len);
        let len = (if past > str_length str then str_length str - pos else len);
        actual_data_len \<leftarrow> (if data_len > 0 then c_strnlen d (nat data_len) else Some 0);
        new_length \<leftarrow> c_int (str_length str - len + actual_data_len);
        needed_capacity \<leftarrow> c_int (new_length + 1);
        str \<leftarrow> string_ensure_capacity str needed_capacity;
        str \<leftarrow> mem_move str (pos + actual_data_len) (pos + len) (str_length str - pos - len);
        str \<leftarrow> (if actual_data_len > 0 then mem_copy str pos d 0 actual_data_len else Some str);
        set_length_nul str new_length })"

lemma mem_copy_none:
  "0 \<le> i \<Longrightarrow> nat i \<le> length (data_block t) \<Longrightarrow> 0 \<le> j \<Longrightarrow> nat j \<le> length src \<Longrightarrow>
   mem_copy t i src j 0 = Some t"
  by (simp add: mem_copy_def block_copy_def)

text \<open>The tail that the five operations share.\<close>

lemma replace_gap_ok:
  assumes s: "represents s cs" and pos: "0 \<le> p" "p < int (length cs)" and len: "0 < len"
    and k: "k = (if p + len > int (length cs) then int (length cs) - p else len)"
    and src: "take (length new) (drop (nat j) src) = map Some new" "0 \<le> j" "nat j \<le> length src"
    and n: "n = int (length new)" and L: "L = int (length cs)"
    and bnd: "L - k + n + 1 \<le> INT_MAX"
    and cp: "\<And>t. 0 < n \<Longrightarrow> cp t = mem_copy t p src j n" "\<And>t. n = 0 \<Longrightarrow> cp t = Some t"
  shows "yields (do { new_length \<leftarrow> c_int (L - k + n); needed \<leftarrow> c_int (new_length + 1);
      s \<leftarrow> string_ensure_capacity s needed;
      s \<leftarrow> mem_move s (p + n) (p + k) (str_length s - p - k); s \<leftarrow> cp s;
      set_length_nul s new_length }) (take (nat p) cs @ new @ drop (nat p + nat len) cs)"
proof -
  define a d b where "a = take (nat p) cs" and "d = take (nat k) (drop (nat p) cs)"
    and "b = drop (nat p + nat len) cs"
  have b: "b = drop (nat k) (drop (nat p) cs)" using pos len by (auto simp: b_def k add.commute)
  have cs: "cs = a @ d @ b" unfolding a_def d_def b by (metis append_take_drop_id)
  have l: "int (length a) = p" "int (length d) = k" "int (length b) = int (length cs) - p - k"
    using pos len by (auto simp: a_def d_def b k)
  have tot: "L - k + n = int (length (a @ new @ b))" using l n L by simp
  have kb: "0 \<le> k" "k \<le> L" using pos len L by (auto simp: k)
  have "yields (do { s \<leftarrow> string_ensure_capacity s (L - k + n + 1);
      s \<leftarrow> mem_move s (p + n) (p + k) (str_length s - p - k); s \<leftarrow> cp s;
      set_length_nul s (L - k + n) }) (a @ new @ b)"
  proof (rule yields_cap_bind [OF string_ensure_capacity_ok [OF s]])
    fix t assume t: "represents t cs" "L - k + n + 1 \<le> str_capacity t"
    have eq: "cp u = mem_copy u p src j n" if "mem_move t (p + n) (p + k) (str_length t - p - k) = Some u" for u
    proof (cases "0 < n")
      case False
      have "nat (p + n) \<le> length (data_block u)"
        using that pos n by (auto simp: mem_move_def mem_copy_def block_copy_def split: if_splits)
      then show ?thesis using False n pos src cp(2) [of u] mem_copy_none [of p u j src] by simp
    qed (simp add: cp)
    have "yields (do { s \<leftarrow> mem_move t (p + n) (p + k) (str_length t - p - k);
        s \<leftarrow> mem_copy s p src j n; set_length_nul s (L - k + n) }) (a @ new @ b)"
      by (rule splice_ok [where d = d]) (use t cs l n src tot represents_length [OF t(1)] in auto)
    then show "yields (do { s \<leftarrow> mem_move t (p + n) (p + k) (str_length t - p - k);
        s \<leftarrow> cp s; set_length_nul s (L - k + n) }) (a @ new @ b)"
      using eq by (cases "mem_move t (p + n) (p + k) (str_length t - p - k)") auto
  qed (use bnd in simp)
  moreover have "c_int (L - k + n) = Some (L - k + n)" "c_int (L - k + n + 1) = Some (L - k + n + 1)"
    using bnd kb n by (simp_all add: c_simps)
  ultimately show ?thesis by (simp add: a_def b_def)
qed

lemma string_replace_ok:
  assumes s: "represents s cs" and t: "represents t ts"
    and bnd: "int (length cs) + int (length ts) + 1 \<le> INT_MAX" and past: "pos + len \<le> INT_MAX" "len \<le> INT_MAX"
  shows "yields (string_replace s pos len (Some t)) (replace_at cs pos len ts)"
proof -
  define p where "p = (if pos < 0 then 0 else pos)"
  define k where "k = (if p + len > int (length cs) then int (length cs) - p else len)"
  note L = represents_length [OF s] represents_length [OF t]
  show ?thesis
  proof (cases "p \<ge> int (length cs) \<or> len \<le> 0")
    case True
    then show ?thesis using s by (auto simp: string_replace_def replace_at_def L Let_def p_def)
  next
    case False
    have p: "0 \<le> p" "p < int (length cs)" "0 < len" "c_int (p + len) = Some (p + len)"
      using False past by (auto simp: p_def c_simps)
    have "string_replace s pos len (Some t) = do { new_length \<leftarrow> c_int (int (length cs) - k + int (length ts));
        needed \<leftarrow> c_int (new_length + 1); s \<leftarrow> string_ensure_capacity s needed;
        s \<leftarrow> mem_move s (p + int (length ts)) (p + k) (str_length s - p - k);
        s \<leftarrow> (if int (length ts) > 0 then mem_copy s p (data_block t) 0 (int (length ts)) else Some s);
        set_length_nul s new_length }"
      using False p(4) unfolding string_replace_def p_def [symmetric] k_def
      by (simp only: L Let_def option.case if_False bind.bind_lunit not_le) simp
    moreover have "yields \<dots> (take (nat p) cs @ ts @ drop (nat p + nat len) cs)"
      by (rule replace_gap_ok [OF s p(1-3) k_def])
        (use source_of_represents [OF t, of 0 "length ts"] p(1-3) bnd in \<open>auto simp: k_def\<close>)
    ultimately show ?thesis using False by (simp add: replace_at_def Let_def flip: p_def)
  qed
qed

lemma string_replace_cstr_ok:
  assumes s: "represents s cs" and xs: "nul_free xs"
    and bnd: "int (length cs) + int (length xs) + 1 \<le> INT_MAX" and past: "pos + len \<le> INT_MAX" "len \<le> INT_MAX"
  shows "yields (string_replace_cstr s pos len (Some (cstr_block xs))) (replace_at cs pos len xs)"
proof -
  define p where "p = (if pos < 0 then 0 else pos)"
  define k where "k = (if p + len > int (length cs) then int (length cs) - p else len)"
  note L = represents_length [OF s] c_strlen_cstr [OF xs]
  show ?thesis
  proof (cases "p \<ge> int (length cs) \<or> len \<le> 0")
    case True
    then show ?thesis using s by (auto simp: string_replace_cstr_def replace_at_def L Let_def p_def)
  next
    case False
    have p: "0 \<le> p" "p < int (length cs)" "0 < len" "c_int (p + len) = Some (p + len)"
      using False past by (auto simp: p_def c_simps)
    have "string_replace_cstr s pos len (Some (cstr_block xs)) =
        do { new_length \<leftarrow> c_int (int (length cs) - k + int (length xs));
        needed \<leftarrow> c_int (new_length + 1); s \<leftarrow> string_ensure_capacity s needed;
        s \<leftarrow> mem_move s (p + int (length xs)) (p + k) (str_length s - p - k);
        s \<leftarrow> (if int (length xs) > 0 then mem_copy s p (cstr_block xs) 0 (int (length xs)) else Some s);
        set_length_nul s new_length }"
      using False p(4) unfolding string_replace_cstr_def p_def [symmetric] k_def
      by (simp only: L Let_def option.case if_False bind.bind_lunit not_le) simp
    moreover have "yields \<dots> (take (nat p) cs @ xs @ drop (nat p + nat len) cs)"
      by (rule replace_gap_ok [OF s p(1-3) k_def]) (use p(1-3) bnd in \<open>auto simp: k_def\<close>)
    ultimately show ?thesis using False by (simp add: replace_at_def Let_def flip: p_def)
  qed
qed

subsection \<open>Resizing and copying out\<close>

definition string_resize :: "string_t \<Rightarrow> int \<Rightarrow> string_t option" where
  "string_resize str new_size =
     (let new_size = (if new_size < 0 then 0 else new_size) in
      if new_size \<ge> str_length str then Some str else set_length_nul str new_size)"

definition string_resize_with_char :: "string_t \<Rightarrow> int \<Rightarrow> char \<Rightarrow> string_t option" where
  "string_resize_with_char str new_size ch =
     (let new_size = (if new_size < 0 then 0 else new_size) in
      if new_size \<le> str_length str then set_length_nul str new_size
      else do {
        needed \<leftarrow> c_int (new_size + 1);
        str \<leftarrow> string_ensure_capacity str needed;
        str \<leftarrow> mem_fill str (str_length str) ch (new_size - str_length str);
        set_length_nul str new_size })"

definition string_copy_to_cstr_at :: "string_t \<Rightarrow> int \<Rightarrow> block \<Rightarrow> int \<Rightarrow> block option" where
  "string_copy_to_cstr_at str pos dest count =
     (if count \<le> 0 then Some dest
      else let pos = (if pos < 0 then 0 else pos) in
        if pos \<ge> str_length str then block_store dest 0 NUL
        else let available = str_length str - pos;
                 to_copy = (if available < count - 1 then available else count - 1) in do {
          dest \<leftarrow> block_copy dest 0 (data_block str) pos to_copy;
          block_store dest to_copy NUL })"

lemma string_resize_ok:
  assumes "represents s cs"
  shows "yields (string_resize s n) (take (nat n) cs)"
  using assms truncate_ok [of s "take (nat n) cs" "drop (nat n) cs" "max 0 n"]
  by (auto simp: string_resize_def represents_length Let_def max_def)

lemma string_resize_with_char_ok:
  assumes s: "represents s cs" and bnd: "n < INT_MAX"
  shows "yields (string_resize_with_char s n ch) (take (nat n) cs @ replicate (nat n - length cs) ch)"
proof (cases "(if n < 0 then 0 else n) \<le> int (length cs)")
  case True
  then show ?thesis
    using truncate_ok [of s "take (nat n) cs" "drop (nat n) cs" "if n < 0 then 0 else n"] s
    by (auto simp: string_resize_with_char_def represents_length [OF s] Let_def)
next
  case False
  have n: "int (nat n - length cs) = n - int (length cs)" "nat (n - int (length cs)) = nat n - length cs"
    using False by (auto split: if_splits)
  have "yields (do { s \<leftarrow> string_ensure_capacity s (n + 1);
      s \<leftarrow> mem_fill s (str_length s) ch (n - str_length s); set_length_nul s n })
      (cs @ replicate (nat n - length cs) ch)"
  proof (rule yields_cap_bind [OF string_ensure_capacity_ok [OF s]])
    fix t assume t: "represents t cs" "n + 1 \<le> str_capacity t"
    show "yields (do { s \<leftarrow> mem_fill t (str_length t) ch (n - str_length t); set_length_nul s n })
        (cs @ replicate (nat n - length cs) ch)"
      unfolding mem_fill_copy
      by (rule overwrite_ok [where d = "[]"])
        (use t n represents_length [OF t(1)] in auto)
  qed (use bnd in simp)
  then show ?thesis
    using False bnd by (auto simp: string_resize_with_char_def represents_length [OF s] Let_def c_simps)
qed

unbundle bit_operations_syntax

subsection \<open>Appending a code point as UTF-8\<close>

definition utf8_bytes :: "32 word \<Rightarrow> char list option" where
  \<comment> \<open>the buffer \<open>buf\<close>; \<open>None\<close> where the code returns 0\<close>
  "utf8_bytes cp =
     (if cp \<le> 0x7F then Some [char_of (unat cp)]
      else if cp \<le> 0x7FF then
        Some [char_of (unat (0xC0 OR drop_bit 6 cp)), char_of (unat (0x80 OR (cp AND 0x3F)))]
      else if cp \<ge> 0xD800 \<and> cp \<le> 0xDFFF then None
      else if cp \<le> 0xFFFF then
        Some [char_of (unat (0xE0 OR drop_bit 12 cp)),
              char_of (unat (0x80 OR (drop_bit 6 cp AND 0x3F))),
              char_of (unat (0x80 OR (cp AND 0x3F)))]
      else if cp \<le> 0x10FFFF then
        Some [char_of (unat (0xF0 OR drop_bit 18 cp)),
              char_of (unat (0x80 OR (drop_bit 12 cp AND 0x3F))),
              char_of (unat (0x80 OR (drop_bit 6 cp AND 0x3F))),
              char_of (unat (0x80 OR (cp AND 0x3F)))]
      else None)"

definition string_append_utf8 :: "string_t \<Rightarrow> 32 word \<Rightarrow> (int \<times> string_t) option" where
  "string_append_utf8 str cp =
     (case utf8_bytes cp of None \<Rightarrow> Some (0, str)
      | Some buf \<Rightarrow> do {
          str \<leftarrow> string_append_data str (Some (map Some buf)) (int (length buf));
          Some (int (length buf), str) })"

text \<open>The decoder of RFC 3629, the specification of the encoding: the first code point of a
  byte string and the bytes after it; overlong forms, surrogates and values beyond
  \<open>0x10FFFF\<close> are refused.\<close>

definition utf8_cont :: "char \<Rightarrow> bool" where
  "utf8_cont c = (128 \<le> (of_char c :: nat) \<and> (of_char c :: nat) < 192)"

fun utf8_decode :: "char list \<Rightarrow> (nat \<times> char list) option" where
  "utf8_decode [] = None"
| "utf8_decode (a # bs) =
     (let a' = of_char a in
      if a' < 128 then Some (a', bs)
      else if 192 \<le> a' \<and> a' < 224 then
        (case bs of b # r \<Rightarrow>
           let cp = (a' - 192) * 64 + (of_char b - 128) in
           if utf8_cont b \<and> 128 \<le> cp then Some (cp, r) else None | _ \<Rightarrow> None)
      else if 224 \<le> a' \<and> a' < 240 then
        (case bs of b # c # r \<Rightarrow>
           let cp = ((a' - 224) * 64 + (of_char b - 128)) * 64 + (of_char c - 128) in
           if utf8_cont b \<and> utf8_cont c \<and> 2048 \<le> cp \<and> \<not> (0xD800 \<le> cp \<and> cp \<le> 0xDFFF)
           then Some (cp, r) else None | _ \<Rightarrow> None)
      else if 240 \<le> a' \<and> a' < 248 then
        (case bs of b # c # d # r \<Rightarrow>
           let cp = (((a' - 240) * 64 + (of_char b - 128)) * 64 + (of_char c - 128)) * 64
                    + (of_char d - 128) in
           if utf8_cont b \<and> utf8_cont c \<and> utf8_cont d \<and> 65536 \<le> cp \<and> cp \<le> 0x10FFFF
           then Some (cp, r) else None | _ \<Rightarrow> None)
      else None)"

lemma or_high_bits: "x < 2 ^ n \<Longrightarrow> push_bit n k OR x = 2 ^ n * k + (x::nat)"
proof -
  assume "x < 2 ^ n"
  then have x: "x = take_bit n x" by (simp add: take_bit_nat_eq_self)
  have "push_bit n k AND take_bit n x = 0"
    by (rule bit_eqI) (auto simp: bit_and_iff bit_push_bit_iff bit_take_bit_iff)
  then have "push_bit n k OR take_bit n x = push_bit n k + take_bit n x"
    by (simp add: disjunctive_add_eq_or)
  then show ?thesis using x by (simp add: push_bit_eq_mult mult.commute)
qed

lemma and_low_bits: "m AND 63 = m mod (64::nat)"
  using take_bit_eq_mask [of 6 m] by (simp add: mask_eq_exp_minus_1 take_bit_eq_mod)

lemma lead_byte:
  "x < 32 \<Longrightarrow> 192 OR x = 192 + (x::nat)" "x < 16 \<Longrightarrow> 224 OR x = 224 + x"
  "x < 8 \<Longrightarrow> 240 OR x = 240 + x" "x < 64 \<Longrightarrow> 128 OR x = 128 + x"
  using or_high_bits [of x 5 6] or_high_bits [of x 4 14] or_high_bits [of x 3 30]
    or_high_bits [of x 6 2] by simp_all

lemma of_char_byte: "n < 256 \<Longrightarrow> of_char (char_of (n::nat)) = n"
  by simp

lemma unat_bytes:
  fixes cp :: "32 word"
  shows "unat (0xC0 OR drop_bit 6 cp) = 192 OR (unat cp div 64)"
    "unat (0xE0 OR drop_bit 12 cp) = 224 OR (unat cp div 4096)"
    "unat (0xF0 OR drop_bit 18 cp) = 240 OR (unat cp div 262144)"
    "unat (0x80 OR (cp AND 0x3F)) = 128 + unat cp mod 64"
    "unat (0x80 OR (drop_bit 6 cp AND 0x3F)) = 128 + unat cp div 64 mod 64"
    "unat (0x80 OR (drop_bit 12 cp AND 0x3F)) = 128 + unat cp div 4096 mod 64"
  by (simp_all add: unsigned_or_eq unsigned_and_eq drop_bit_eq_div unat_div and_low_bits lead_byte)

lemma unat_drops:
  fixes cp :: "32 word"
  shows "unat (drop_bit 6 cp) = unat cp div 64" "unat (drop_bit 12 cp) = unat cp div 4096"
    "unat (drop_bit 18 cp) = unat cp div 262144"
  by (simp_all add: drop_bit_eq_div unat_div)

lemma utf8_roundtrip_nat:
  assumes "utf8_bytes cp = Some bs"
  shows "utf8_decode (bs @ r) = Some (unat cp, r)"
proof -
  let ?m = "unat cp"
  have le: "cp \<le> 0x7F \<longleftrightarrow> ?m \<le> 0x7F" "cp \<le> 0x7FF \<longleftrightarrow> ?m \<le> 0x7FF" "cp \<ge> 0xD800 \<longleftrightarrow> ?m \<ge> 0xD800"
    "cp \<le> 0xDFFF \<longleftrightarrow> ?m \<le> 0xDFFF" "cp \<le> 0xFFFF \<longleftrightarrow> ?m \<le> 0xFFFF" "cp \<le> 0x10FFFF \<longleftrightarrow> ?m \<le> 0x10FFFF"
    by (simp_all add: word_le_nat_alt)
  have "?m div 4096 = ?m div 64 div 64" "?m div 262144 = ?m div 4096 div 64"
    by (simp_all flip: div_mult2_eq)
  then have d: "?m = 64 * (?m div 64) + ?m mod 64"
    "?m div 64 = 64 * (?m div 4096) + ?m div 64 mod 64"
    "?m div 4096 = 64 * (?m div 262144) + ?m div 4096 mod 64"
    by (metis mult_div_mod_eq)+
  consider (1) "?m \<le> 0x7F" | (2) "0x7F < ?m" "?m \<le> 0x7FF"
    | (3) "0x7FF < ?m" "?m \<le> 0xFFFF" "\<not> (0xD800 \<le> ?m \<and> ?m \<le> 0xDFFF)"
    | (4) "0xFFFF < ?m" "?m \<le> 0x10FFFF"
    using assms by (auto simp: utf8_bytes_def le split: if_splits)
  then show ?thesis
  proof cases
    case 1
    then show ?thesis using assms by (auto simp: utf8_bytes_def le)
  next
    case 2
    then have "192 OR (?m div 64) = 192 + ?m div 64" by (intro lead_byte) simp
    with 2 have "bs = [char_of (192 + ?m div 64), char_of (128 + ?m mod 64)]"
      using assms by (simp add: utf8_bytes_def le unat_bytes unat_drops)
    then show ?thesis using 2 d(1) by (simp add: utf8_cont_def Let_def of_char_byte del: of_char_of)
  next
    case 3
    then have "224 OR (?m div 4096) = 224 + ?m div 4096" by (intro lead_byte) simp
    with 3 have "bs = [char_of (224 + ?m div 4096), char_of (128 + ?m div 64 mod 64), char_of (128 + ?m mod 64)]"
      using assms by (auto simp add: utf8_bytes_def le unat_bytes unat_drops)
    moreover have "4096 * (?m div 4096) + ?m div 64 mod 64 * 64 + ?m mod 64 = ?m" using d by linarith
    moreover have "?m div 4096 < 16" using 3 by linarith
    ultimately show ?thesis using 3 by (simp add: utf8_cont_def Let_def of_char_byte del: of_char_of)
  next
    case 4
    then have "240 OR (?m div 262144) = 240 + ?m div 262144" by (intro lead_byte) simp
    with 4 have "bs = [char_of (240 + ?m div 262144), char_of (128 + ?m div 4096 mod 64),
        char_of (128 + ?m div 64 mod 64), char_of (128 + ?m mod 64)]"
      using assms by (auto simp add: utf8_bytes_def le unat_bytes unat_drops)
    moreover have "262144 * (?m div 262144) + ?m div 4096 mod 64 * 4096 + ?m div 64 mod 64 * 64 + ?m mod 64 = ?m"
      using d by linarith
    moreover have "?m div 262144 < 8" using 4 by linarith
    moreover have "?m div 4096 mod 64 < 64" "?m div 64 mod 64 < 64" "?m mod 64 < 64" by simp_all
    moreover define a b c d where "a = ?m div 262144" and "b = ?m div 4096 mod 64"
      and "c = ?m div 64 mod 64" and "d = ?m mod 64"
    ultimately have bs: "bs = [char_of (240 + a), char_of (128 + b), char_of (128 + c), char_of (128 + d)]"
      and m: "262144 * a + b * 4096 + c * 64 + d = ?m" and bnd: "a < 8" "b < 64" "c < 64" "d < 64"
      by (simp_all only:)
    show ?thesis using bnd m 4
      by (simp add: bs utf8_cont_def Let_def of_char_byte del: of_char_of)
  qed
qed

lemma string_append_data_ok:
  assumes s: "represents s cs" and xs: "nul_free xs" "xs \<noteq> []" and bnd: "int (length cs + length xs) < INT_MAX"
  shows "yields (string_append_data s (Some (map Some xs)) (int (length xs))) (cs @ xs)"
proof -
  have "c_strnlen (map Some xs) (length xs) = Some (int (length xs))"
    using c_strnlen_eval [OF xs(1), of "[]"] by simp
  then show ?thesis
    using append_gap_ok [OF s, of xs 0 "map Some xs" "int (length xs)" "int (length cs)"] xs bnd
      represents_length [OF s] by (simp add: string_append_data_def Let_def)
qed


lemma utf8_decode_nul_free:
  assumes "utf8_decode bs = Some (n, [])" "0 < n"
  shows "nul_free bs"
proof (cases bs)
  case (Cons a r)
  have "\<not> utf8_cont NUL" by (simp add: utf8_cont_def)
  moreover have "a \<noteq> NUL" using assms Cons by auto
  ultimately show ?thesis
    using assms Cons by (auto simp: nul_free_def Let_def split: if_splits list.splits)
qed simp

lemma utf8_bytes_nul_free:
  assumes "utf8_bytes cp = Some bs" "cp \<noteq> 0"
  shows "nul_free bs" "bs \<noteq> []" "length bs \<le> 4"
proof -
  show "nul_free bs"
    using utf8_decode_nul_free [of bs "unat cp"] utf8_roundtrip_nat [OF assms(1), of "[]"] assms(2)
    by (simp add: unat_gt_0)
  show "bs \<noteq> []" "length bs \<le> 4" using assms(1) by (auto simp: utf8_bytes_def split: if_splits)
qed

lemma string_append_utf8_ok:
  assumes s: "represents s cs" and cp: "utf8_bytes cp = Some bs" "cp \<noteq> 0" and bnd: "int (length cs) + 4 < INT_MAX"
  shows "\<exists>s'. string_append_utf8 s cp = Some (int (length bs), s') \<and> represents s' (cs @ bs)"
  using string_append_data_ok [OF s utf8_bytes_nul_free(1,2) [OF cp]] utf8_bytes_nul_free(3) [OF cp] cp(1) bnd
  by (auto simp: string_append_utf8_def elim: yieldsE)

end
