(* ===== verification/String_Search.thy ===== *)
theory String_Search
  imports String_Ops
begin

section \<open>Searching, comparing and hashing string_t\<close>

text \<open>
  The read-only operations of \<open>string_t.c\<close>: substring search in both directions, search
  for the first or last character with a property, \<open>strcmp\<close>-style comparison, prefix and
  suffix tests, and the FNV-1a hash that the hash tables use.  Each loop is a recursive
  function over the block with checked loads.
\<close>

subsection \<open>Substring search\<close>

definition memcmp_eq :: "block \<Rightarrow> int \<Rightarrow> block \<Rightarrow> int \<Rightarrow> bool option" where
  \<comment> \<open>\<open>memcmp(d + i, s, n) == 0\<close>\<close>
  "memcmp_eq d i s n =
     (let x = take (nat n) (drop (nat i) d); y = take (nat n) s in
      if 0 \<le> i \<and> 0 \<le> n \<and> nat i + nat n \<le> length d \<and> nat n \<le> length s
         \<and> None \<notin> set x \<and> None \<notin> set y
      then Some (x = y) else None)"

function find_up :: "block \<Rightarrow> block \<Rightarrow> int \<Rightarrow> int \<Rightarrow> int \<Rightarrow> int option" where
  \<comment> \<open>\<open>for (i; i <= last; i++) if (memcmp(d + i, s, n) == 0) return i;\<close>\<close>
  "find_up d s n i hi =
     (if i \<le> hi then do { eq \<leftarrow> memcmp_eq d i s n; if eq then Some i else find_up d s n (i + 1) hi }
      else Some (-1))"
  by pat_completeness auto
termination by (relation "measure (\<lambda>(d, s, n, i, hi). nat (hi + 1 - i))") auto

function find_down :: "block \<Rightarrow> block \<Rightarrow> int \<Rightarrow> int \<Rightarrow> int option" where
  \<comment> \<open>\<open>for (i; i >= 0; i--) if (memcmp(d + i, s, n) == 0) return i;\<close>\<close>
  "find_down d s n i =
     (if 0 \<le> i then do { eq \<leftarrow> memcmp_eq d i s n; if eq then Some i else find_down d s n (i - 1) }
      else Some (-1))"
  by pat_completeness auto
termination by (relation "measure (\<lambda>(d, s, n, i). nat (i + 1))") auto

declare find_up.simps [simp del] find_down.simps [simp del]

definition string_find_at :: "string_t \<Rightarrow> string_t option \<Rightarrow> int \<Rightarrow> int option" where
  "string_find_at str substr pos =
     (let pos = clamp_pos (str_length str) pos in
      case substr of None \<Rightarrow> Some pos
      | Some sub \<Rightarrow>
        if str_length sub = 0 then Some pos
        else if str_length sub > str_length str - pos then Some (-1)
        else find_up (data_block str) (data_block sub) (str_length sub) pos
               (str_length str - str_length sub))"

definition string_find :: "string_t \<Rightarrow> string_t option \<Rightarrow> int option" where
  "string_find str substr =
     (case substr of None \<Rightarrow> Some 0
      | Some sub \<Rightarrow> if str_length sub = 0 then Some 0 else string_find_at str substr 0)"

definition string_rfind_at :: "string_t \<Rightarrow> string_t option \<Rightarrow> int \<Rightarrow> int option" where
  "string_rfind_at str substr pos =
     (let pos = clamp_pos (str_length str) pos in
      case substr of None \<Rightarrow> Some pos
      | Some sub \<Rightarrow>
        if str_length sub = 0 then Some pos
        else let start = (if pos > str_length str - str_length sub
                          then str_length str - str_length sub else pos)
          in find_down (data_block str) (data_block sub) (str_length sub) start)"

definition string_rfind :: "string_t \<Rightarrow> string_t option \<Rightarrow> int option" where
  "string_rfind str substr =
     (case substr of None \<Rightarrow> Some (str_length str)
      | Some sub \<Rightarrow> if str_length sub = 0 then Some (str_length str)
                     else string_rfind_at str substr (str_length str))"

definition string_contains :: "string_t \<Rightarrow> string_t option \<Rightarrow> bool option" where
  "string_contains str substr =
     (case substr of None \<Rightarrow> Some True
      | Some sub \<Rightarrow> if str_length sub = 0 then Some True
                     else map_option (\<lambda>i. i \<ge> 0) (string_find str substr))"

definition string_starts_with :: "string_t \<Rightarrow> string_t option \<Rightarrow> bool option" where
  "string_starts_with str prefix =
     (case prefix of None \<Rightarrow> Some True
      | Some p \<Rightarrow> if str_length p = 0 then Some True
                   else if str_length p > str_length str then Some False
                   else memcmp_eq (data_block str) 0 (data_block p) (str_length p))"

definition string_ends_with :: "string_t \<Rightarrow> string_t option \<Rightarrow> bool option" where
  "string_ends_with str suffix =
     (case suffix of None \<Rightarrow> Some True
      | Some p \<Rightarrow> if str_length p = 0 then Some True
                   else if str_length p > str_length str then Some False
                   else memcmp_eq (data_block str) (str_length str - str_length p)
                          (data_block p) (str_length p))"

text \<open>The specification: an occurrence of \<open>ys\<close> in \<open>xs\<close> at an index.\<close>

definition occurs_at :: "string \<Rightarrow> string \<Rightarrow> int \<Rightarrow> bool" where
  "occurs_at xs ys i \<longleftrightarrow>
     0 \<le> i \<and> i + int (length ys) \<le> int (length xs) \<and> take (length ys) (drop (nat i) xs) = ys"

lemma memcmp_eq_represents:
  assumes s: "represents s cs" and t: "represents t ts"
    and i: "0 \<le> i" "i + int (length ts) \<le> int (length cs)"
  shows "memcmp_eq (data_block s) i (data_block t) (int (length ts)) = Some (occurs_at cs ts i)"
proof -
  have b: "nat i + length ts \<le> length cs" using i by linarith
  have x: "take (length ts) (drop (nat i) (data_block s)) = map Some (take (length ts) (drop (nat i) cs))"
    using source_of_represents [OF s i(1) b] .
  have y: "take (length ts) (data_block t) = map Some ts"
    using source_of_represents [OF t, of 0 "length ts"] by simp
  have "length cs < length (data_block s)" "length ts < length (data_block t)"
    using data_block_bound [OF s] data_block_bound [OF t] .
  moreover have "(map Some xs = map Some ys) = (xs = ys)" for xs ys :: string
    by (metis list.inj_map_strong option.inject)
  ultimately show ?thesis using b i
    by (auto simp: memcmp_eq_def x y occurs_at_def Let_def)
qed

lemma find_up_ok:
  assumes s: "represents s cs" and t: "represents t ts" and i: "0 \<le> i"
  shows "\<exists>r. find_up (data_block s) (data_block t) (int (length ts)) i (int (length cs) - int (length ts)) = Some r
    \<and> (if r = -1 then \<forall>k\<ge>i. \<not> occurs_at cs ts k else i \<le> r \<and> occurs_at cs ts r \<and> (\<forall>k. i \<le> k \<and> k < r \<longrightarrow> \<not> occurs_at cs ts k))"
  using i
proof (induction "nat (int (length cs) - int (length ts) + 1 - i)" arbitrary: i rule: less_induct)
  case less
  let ?f = "\<lambda>i. find_up (data_block s) (data_block t) (int (length ts)) i (int (length cs) - int (length ts))"
  show ?case
  proof (cases "i \<le> int (length cs) - int (length ts)")
    case False
    then have "\<forall>k\<ge>i. \<not> occurs_at cs ts k" by (auto simp: occurs_at_def)
    moreover have "?f i = Some (-1)" using False by (simp add: find_up.simps)
    ultimately show ?thesis by simp
  next
    case True
    have m: "memcmp_eq (data_block s) i (data_block t) (int (length ts)) = Some (occurs_at cs ts i)"
      using memcmp_eq_represents [OF s t less.prems] True by simp
    show ?thesis
    proof (cases "occurs_at cs ts i")
      case True
      then have "?f i = Some i" using \<open>i \<le> _\<close> m by (subst find_up.simps) simp
      then show ?thesis using True less.prems by auto
    next
      case False
      then have step: "?f i = ?f (i + 1)" using True m by (subst find_up.simps) simp
      have "nat (int (length cs) - int (length ts) + 1 - (i + 1)) <
          nat (int (length cs) - int (length ts) + 1 - i)" using True by simp
      from less.hyps [OF this] less.prems obtain r where r: "?f (i + 1) = Some r"
        "if r = -1 then \<forall>k\<ge>i + 1. \<not> occurs_at cs ts k
         else i + 1 \<le> r \<and> occurs_at cs ts r \<and> (\<forall>k. i + 1 \<le> k \<and> k < r \<longrightarrow> \<not> occurs_at cs ts k)"
        by auto
      have "\<not> occurs_at cs ts k" if "i \<le> k" "r \<noteq> -1 \<longrightarrow> k < r" for k
        using that r(2) False by (cases "k = i") (auto split: if_splits)
      then show ?thesis using r step by (intro exI [of _ r]) auto
    qed
  qed
qed

lemma string_find_at_ok:
  assumes s: "represents s cs" and t: "represents t ts" and ne: "ts \<noteq> []"
    and p: "p = clamp_pos (int (length cs)) pos"
  shows "\<exists>r. string_find_at s (Some t) pos = Some r \<and>
    (if r = -1 then \<forall>k\<ge>p. \<not> occurs_at cs ts k
     else p \<le> r \<and> occurs_at cs ts r \<and> (\<forall>k. p \<le> k \<and> k < r \<longrightarrow> \<not> occurs_at cs ts k))"
proof -
  have p0: "0 \<le> p" using p by simp
  note L = represents_length [OF s] represents_length [OF t]
  show ?thesis
  proof (cases "int (length ts) > int (length cs) - p")
    case True
    then have "\<forall>k\<ge>p. \<not> occurs_at cs ts k" by (auto simp: occurs_at_def)
    then show ?thesis using True ne by (simp add: string_find_at_def L Let_def flip: p)
  next
    case False
    then show ?thesis using find_up_ok [OF s t p0] ne
      by (simp add: string_find_at_def L Let_def flip: p)
  qed
qed

lemma string_starts_with_ok:
  assumes s: "represents s cs" and t: "represents t ts"
  shows "string_starts_with s (Some t) = Some (take (length ts) cs = ts)"
  using memcmp_eq_represents [OF s t, of 0] represents_length [OF s] represents_length [OF t]
  by (auto simp: string_starts_with_def occurs_at_def dest: arg_cong [where f = length])

lemma string_ends_with_ok:
  assumes s: "represents s cs" and t: "represents t ts"
  shows "string_ends_with s (Some t) =
    Some (length ts \<le> length cs \<and> drop (length cs - length ts) cs = ts)"
  using memcmp_eq_represents [OF s t, of "int (length cs) - int (length ts)"]
    represents_length [OF s] represents_length [OF t]
  by (auto simp: string_ends_with_def occurs_at_def nat_diff_distrib')

subsection \<open>Search by character\<close>

function scan_up :: "(char \<Rightarrow> bool) \<Rightarrow> block \<Rightarrow> int \<Rightarrow> int \<Rightarrow> int option" where
  \<comment> \<open>\<open>for (i; i < n; i++) if (P(d[i])) return i;\<close>\<close>
  "scan_up P d i n =
     (if i < n then do { c \<leftarrow> block_load d i; if P c then Some i else scan_up P d (i + 1) n }
      else Some (-1))"
  by pat_completeness auto
termination by (relation "measure (\<lambda>(P, d, i, n). nat (n - i))") auto

function scan_down :: "(char \<Rightarrow> bool) \<Rightarrow> block \<Rightarrow> int \<Rightarrow> int option" where
  \<comment> \<open>\<open>for (i; i >= 0; i--) if (P(d[i])) return i;\<close>\<close>
  "scan_down P d i =
     (if 0 \<le> i then do { c \<leftarrow> block_load d i; if P c then Some i else scan_down P d (i - 1) }
      else Some (-1))"
  by pat_completeness auto
termination by (relation "measure (\<lambda>(P, d, i). nat (i + 1))") auto

declare scan_up.simps [simp del] scan_down.simps [simp del]

definition string_chars :: "string_t \<Rightarrow> char set" where
  \<comment> \<open>the characters that the inner loop over \<open>chars->data\<close> compares with\<close>
  "string_chars s = {c. Some c \<in> set (take (nat (str_length s)) (data_block s))}"

definition strchr_found :: "block \<Rightarrow> char \<Rightarrow> bool" where
  \<comment> \<open>\<open>strchr(chars, c) != NULL\<close>: the terminating NUL counts as a character of \<open>chars\<close>\<close>
  "strchr_found chars c = (Some c \<in> set (take (nat (the (c_strlen chars)) + 1) chars))"

definition string_find_first_of_at :: "string_t \<Rightarrow> string_t option \<Rightarrow> int \<Rightarrow> int option" where
  "string_find_first_of_at str chars pos =
     (case chars of None \<Rightarrow> Some (-1)
      | Some cset \<Rightarrow>
        if str_length cset = 0 then Some (-1)
        else let pos = (if pos < 0 then 0 else pos) in
          if pos \<ge> str_length str then Some (-1)
          else scan_up (\<lambda>c. c \<in> string_chars cset) (data_block str) pos (str_length str))"

definition string_find_first_of_cstr_at :: "string_t \<Rightarrow> block option \<Rightarrow> int \<Rightarrow> int option" where
  "string_find_first_of_cstr_at str chars pos =
     (case chars of None \<Rightarrow> Some (-1)
      | Some cset \<Rightarrow> do {
          n \<leftarrow> c_strlen cset;
          if n = 0 then Some (-1)
          else let pos = (if pos < 0 then 0 else pos) in
            if pos \<ge> str_length str then Some (-1)
            else scan_up (strchr_found cset) (data_block str) pos (str_length str) })"

definition string_find_first_of_predicate_at ::
  "string_t \<Rightarrow> (char \<Rightarrow> bool) option \<Rightarrow> int \<Rightarrow> int option" where
  "string_find_first_of_predicate_at str pred pos =
     (case pred of None \<Rightarrow> Some (-1)
      | Some p \<Rightarrow>
        let pos = (if pos < 0 then 0 else pos) in
          if pos \<ge> str_length str then Some (-1)
          else scan_up p (data_block str) pos (str_length str))"

definition string_find_first_not_of_at :: "string_t \<Rightarrow> string_t option \<Rightarrow> int \<Rightarrow> int option" where
  "string_find_first_not_of_at str chars pos =
     (let pos = clamp_pos (str_length str) pos in
      case chars of None \<Rightarrow> Some (if pos < str_length str then pos else -1)
      | Some cset \<Rightarrow>
        if str_length cset = 0 then Some (if pos < str_length str then pos else -1)
        else scan_up (\<lambda>c. c \<notin> string_chars cset) (data_block str) pos (str_length str))"

definition string_find_first_not_of_predicate_at ::
  "string_t \<Rightarrow> (char \<Rightarrow> bool) option \<Rightarrow> int \<Rightarrow> int option" where
  "string_find_first_not_of_predicate_at str pred pos =
     (let pos = clamp_pos (str_length str) pos in
      case pred of None \<Rightarrow> Some (if pos < str_length str then pos else -1)
      | Some p \<Rightarrow> scan_up (\<lambda>c. \<not> p c) (data_block str) pos (str_length str))"

definition string_find_last_of_at :: "string_t \<Rightarrow> string_t option \<Rightarrow> int \<Rightarrow> int option" where
  "string_find_last_of_at str chars pos =
     (case chars of None \<Rightarrow> Some (-1)
      | Some cset \<Rightarrow>
        if str_length cset = 0 then Some (-1)
        else if pos < 0 then Some (-1)
        else let pos = (if pos \<ge> str_length str then str_length str - 1 else pos) in
          scan_down (\<lambda>c. c \<in> string_chars cset) (data_block str) pos)"

definition string_find_last_not_of_at :: "string_t \<Rightarrow> string_t option \<Rightarrow> int \<Rightarrow> int option" where
  "string_find_last_not_of_at str chars pos =
     (if pos < 0 then Some (-1)
      else let pos = (if pos \<ge> str_length str then str_length str - 1 else pos) in
      case chars of None \<Rightarrow> Some (if str_length str > 0 then pos else -1)
      | Some cset \<Rightarrow>
        if str_length cset = 0 then Some (if str_length str > 0 then pos else -1)
        else scan_down (\<lambda>c. c \<notin> string_chars cset) (data_block str) pos)"

definition first_index :: "(char \<Rightarrow> bool) \<Rightarrow> string \<Rightarrow> int \<Rightarrow> int \<Rightarrow> bool" where
  \<comment> \<open>\<open>r\<close> is the first index from \<open>p\<close> on whose character satisfies \<open>P\<close>, or -1\<close>
  "first_index P cs p r \<longleftrightarrow>
     (if r = -1 then \<forall>k. p \<le> k \<and> k < int (length cs) \<longrightarrow> \<not> P (cs ! nat k)
      else p \<le> r \<and> r < int (length cs) \<and> P (cs ! nat r) \<and>
           (\<forall>k. p \<le> k \<and> k < r \<longrightarrow> \<not> P (cs ! nat k)))"

lemma scan_up_ok:
  assumes s: "represents s cs" and "0 \<le> i"
  shows "\<exists>r. scan_up P (data_block s) i (int (length cs)) = Some r \<and> first_index P cs i r"
  using assms(2)
proof (induction "nat (int (length cs) - i)" arbitrary: i rule: less_induct)
  case less
  show ?case
  proof (cases "i < int (length cs)")
    case False
    then show ?thesis by (auto simp: scan_up.simps first_index_def)
  next
    case True
    have ld: "block_load (data_block s) i = Some (cs ! nat i)"
      using block_load_represents [OF s less.prems True] .
    show ?thesis
    proof (cases "P (cs ! nat i)")
      case True
      then show ?thesis using \<open>i < _\<close> ld less.prems
        by (subst scan_up.simps) (auto simp: first_index_def)
    next
      case False
      have "nat (int (length cs) - (i + 1)) < nat (int (length cs) - i)" using True by simp
      from less.hyps [OF this] less.prems
      obtain r where r: "scan_up P (data_block s) (i + 1) (int (length cs)) = Some r"
          "first_index P cs (i + 1) r" by auto
      have "\<not> P (cs ! nat k)" if "i \<le> k" "k < int (length cs)" "r \<noteq> -1 \<longrightarrow> k < r" for k
        using that r(2) False by (cases "k = i") (auto simp: first_index_def split: if_splits)
      then have "first_index P cs i r"
        using r(2) by (auto simp: first_index_def split: if_splits)
      then show ?thesis using True False ld r by (subst scan_up.simps) simp
    qed
  qed
qed

lemma string_chars_represents: "represents s cs \<Longrightarrow> string_chars s = set cs"
  using source_of_represents [of s cs 0 "length cs"]
  by (auto simp: string_chars_def represents_length)

lemma string_find_first_of_at_ok:
  assumes s: "represents s cs" and t: "represents t ts" and p: "0 \<le> p"
  shows "\<exists>r. string_find_first_of_at s (Some t) p = Some r \<and> first_index (\<lambda>c. c \<in> set ts) cs p r"
  using scan_up_ok [OF s p, of "\<lambda>c. c \<in> set ts"] p
  by (auto simp: string_find_first_of_at_def represents_length [OF s] represents_length [OF t]
      string_chars_represents [OF t] Let_def first_index_def)

lemma string_find_first_not_of_predicate_at_ok:
  assumes s: "represents s cs" and p: "0 \<le> p" "p \<le> int (length cs)"
  shows "\<exists>r. string_find_first_not_of_predicate_at s (Some f) p = Some r \<and> first_index (\<lambda>c. \<not> f c) cs p r"
  using scan_up_ok [OF s p(1), of "\<lambda>c. \<not> f c"] p
  by (auto simp: string_find_first_not_of_predicate_at_def represents_length [OF s] Let_def clamp_pos_def)

subsection \<open>Comparison\<close>

fun c_strcmp :: "block \<Rightarrow> block \<Rightarrow> int option" where
  \<comment> \<open>\<open>strcmp\<close>, with the difference of the first two different bytes as its result\<close>
  "c_strcmp (Some a # x) (Some b # y) =
     (if a \<noteq> b then Some (of_char a - of_char b)
      else if a = NUL then Some 0 else c_strcmp x y)"
| "c_strcmp _ _ = None"

definition string_compare :: "string_t option \<Rightarrow> string_t option \<Rightarrow> int option" where
  "string_compare str1 str2 =
     (let buf1 = (case str1 of None \<Rightarrow> cstr_block [] | Some s \<Rightarrow> data_block s);
          buf2 = (case str2 of None \<Rightarrow> cstr_block [] | Some s \<Rightarrow> data_block s)
      in c_strcmp buf1 buf2)"

definition string_compare_cstr :: "string_t \<Rightarrow> block \<Rightarrow> int option" where
  "string_compare_cstr str cstr = c_strcmp (data_block str) cstr"

definition string_eq :: "string_t option \<Rightarrow> string_t option \<Rightarrow> bool option" where
  "string_eq str1 str2 = map_option (\<lambda>r. r = 0) (string_compare str1 str2)"

definition string_eq_cstr :: "string_t \<Rightarrow> block \<Rightarrow> bool option" where
  "string_eq_cstr str cstr = map_option (\<lambda>r. r = 0) (string_compare_cstr str cstr)"

definition string_ne :: "string_t option \<Rightarrow> string_t option \<Rightarrow> bool option" where
  "string_ne str1 str2 = map_option (\<lambda>r. r \<noteq> 0) (string_compare str1 str2)"

definition string_lt :: "string_t option \<Rightarrow> string_t option \<Rightarrow> bool option" where
  "string_lt str1 str2 = map_option (\<lambda>r. r < 0) (string_compare str1 str2)"

definition string_le :: "string_t option \<Rightarrow> string_t option \<Rightarrow> bool option" where
  "string_le str1 str2 = map_option (\<lambda>r. r \<le> 0) (string_compare str1 str2)"

definition string_gt :: "string_t option \<Rightarrow> string_t option \<Rightarrow> bool option" where
  "string_gt str1 str2 = map_option (\<lambda>r. r > 0) (string_compare str1 str2)"

definition string_ge :: "string_t option \<Rightarrow> string_t option \<Rightarrow> bool option" where
  "string_ge str1 str2 = map_option (\<lambda>r. r \<ge> 0) (string_compare str1 str2)"

fun compare_loop :: "block \<Rightarrow> block \<Rightarrow> nat \<Rightarrow> nat \<Rightarrow> int option" where
  \<comment> \<open>the loop of \<open>string_compare_at\<close>; the last two arguments are \<open>end1 - p1\<close>, \<open>end2 - p2\<close>\<close>
  "compare_loop (Some a # x) (Some b # y) (Suc m) (Suc n) =
     (if a \<noteq> b then Some (of_char a - of_char b) else compare_loop x y m n)"
| "compare_loop x y 0 0 = Some 0"
| "compare_loop x y 0 (Suc n) = Some (-1)"
| "compare_loop x y (Suc m) 0 = Some 1"
| "compare_loop x y (Suc m) (Suc n) = None"

definition string_compare_at :: "string_t \<Rightarrow> int \<Rightarrow> string_t \<Rightarrow> int \<Rightarrow> int option" where
  "string_compare_at str1 pos1 str2 pos2 =
     (let p1 = clamp_pos (str_length str1) pos1; p2 = clamp_pos (str_length str2) pos2
      in compare_loop (drop (nat p1) (data_block str1)) (drop (nat p2) (data_block str2))
           (nat (str_length str1 - p1)) (nat (str_length str2 - p2)))"

definition str_less :: "string \<Rightarrow> string \<Rightarrow> bool" where
  "str_less xs ys \<longleftrightarrow> (xs, ys) \<in> lexord {(a, b). of_char a < (of_char b :: nat)}"

lemma str_less_asym: "\<not> (str_less xs ys \<and> str_less ys xs)"
  unfolding str_less_def by (metis (no_types, lifting) asymI case_prodD lexord_asymmetric mem_Collect_eq order_less_asym)

lemma str_less_linear: "str_less xs ys \<or> xs = ys \<or> str_less ys xs"
  unfolding str_less_def by (rule lexord_linear) (use of_char_eq_iff in auto)

lemma c_strcmp_ok:
  "nul_free xs \<Longrightarrow> nul_free ys \<Longrightarrow>
   \<exists>k. c_strcmp (map Some xs @ Some NUL # r) (map Some ys @ Some NUL # r') = Some k \<and>
       (k = 0 \<longleftrightarrow> xs = ys) \<and> (k < 0 \<longleftrightarrow> str_less xs ys)"
proof (induction xs arbitrary: ys)
  case Nil
  then show ?case
    using of_char_zero_iff by (cases ys) (auto simp: str_less_def of_char_int)
next
  case (Cons x xs)
  show ?case
  proof (cases ys)
    case Nil
    then show ?thesis
      using Cons.prems of_char_zero_iff by (auto simp: str_less_def of_char_int)
  next
    case (Cons y zs)
    show ?thesis
    proof (cases "x = y")
      case True
      then show ?thesis
        using Cons.IH [of zs] Cons.prems \<open>ys = _\<close> by (auto simp: str_less_def)
    next
      case False
      then show ?thesis
        using \<open>ys = _\<close> of_char_less_int_iff [of x y] by (auto simp: str_less_def)
    qed
  qed
qed

lemma represents_opt_block:
  assumes "represents_opt t ts"
  obtains r where "(case t of None \<Rightarrow> cstr_block [] | Some s \<Rightarrow> data_block s) =
    map Some (opt_chars ts) @ Some NUL # r"
  using assms
proof (rule represents_opt_cases)
  fix s cs assume "t = Some s" "ts = Some cs" "represents s cs"
  moreover obtain r where "data_block s = map Some cs @ Some NUL # r"
    using \<open>represents s cs\<close> by (rule represents_block)
  ultimately show thesis using that by simp
qed (use that in \<open>auto simp: cstr_block_def\<close>)

lemma string_compare_ok:
  assumes "represents_opt s cs" and "represents_opt t ts"
    and "nul_free (opt_chars cs)" and "nul_free (opt_chars ts)"
  shows "\<exists>k. string_compare s t = Some k \<and> (k = 0 \<longleftrightarrow> opt_chars cs = opt_chars ts) \<and>
    (k < 0 \<longleftrightarrow> str_less (opt_chars cs) (opt_chars ts))"
proof -
  obtain r where r: "(case s of None \<Rightarrow> cstr_block [] | Some s \<Rightarrow> data_block s) =
    map Some (opt_chars cs) @ Some NUL # r" by (rule represents_opt_block [OF assms(1)])
  obtain r' where r': "(case t of None \<Rightarrow> cstr_block [] | Some s \<Rightarrow> data_block s) =
    map Some (opt_chars ts) @ Some NUL # r'" by (rule represents_opt_block [OF assms(2)])
  show ?thesis
    unfolding string_compare_def Let_def r r' by (rule c_strcmp_ok [OF assms(3,4)])
qed

lemma string_eq_ok:
  assumes "represents s cs" "represents t ts" "nul_free cs" "nul_free ts"
  shows "string_eq (Some s) (Some t) = Some (cs = ts)"
  using string_compare_ok [of "Some s" "Some cs" "Some t" "Some ts"] assms
  by (auto simp: represents_opt_def string_eq_def)

subsection \<open>The hash\<close>

unbundle bit_operations_syntax

definition FNV_OFFSET :: "32 word" where "FNV_OFFSET = 0x811c9dc5"

fun hash_loop :: "32 word \<Rightarrow> block \<Rightarrow> nat \<Rightarrow> 32 word option" where
  "hash_loop h b 0 = Some h"
| "hash_loop h (Some c # b) (Suc n) = hash_loop ((h XOR word_of_nat (of_char c)) * 0x01000193) b n"
| "hash_loop h _ (Suc n) = None"

definition string_hash :: "string_t option \<Rightarrow> 32 word option" where
  "string_hash str =
     (case str of None \<Rightarrow> Some FNV_OFFSET
      | Some s \<Rightarrow>
        if str_length s = 0 then Some FNV_OFFSET
        else do { h \<leftarrow> hash_loop FNV_OFFSET (data_block s) (nat (str_length s));
                  Some (if h \<noteq> 0 then h else 1) })"

definition fnv1a :: "32 word \<Rightarrow> string \<Rightarrow> 32 word" where
  "fnv1a h cs = foldl (\<lambda>h c. (h XOR word_of_nat (of_char c)) * 0x01000193) h cs"

definition str_hash :: "string \<Rightarrow> 32 word" where
  \<comment> \<open>the hash of a string with these characters\<close>
  "str_hash cs = (if cs = [] then FNV_OFFSET
     else let h = fnv1a FNV_OFFSET cs in if h \<noteq> 0 then h else 1)"

lemma hash_loop_ok: "hash_loop h (map Some cs @ r) (length cs) = Some (fnv1a h cs)"
  by (induction cs arbitrary: h) (auto simp: fnv1a_def)

lemma string_hash_ok:
  assumes "represents s cs"
  shows "string_hash (Some s) = Some (str_hash cs)"
proof -
  obtain r where "data_block s = map Some cs @ Some NUL # r"
    using assms by (rule represents_block)
  then show ?thesis
    by (simp add: string_hash_def str_hash_def represents_length [OF assms] hash_loop_ok Let_def)
qed

lemma str_hash_nonzero: "str_hash cs \<noteq> 0"
  by (simp add: str_hash_def FNV_OFFSET_def Let_def)

end
