(* ===== verification/String_Props.thy ===== *)
theory String_Props
  imports String_Edit String_Search
begin

section \<open>Properties of strings\<close>

text \<open>
  What the string operations promise their callers: from operands that represent character
  sequences they never run into undefined behaviour and represent the expected sequence.
  \<open>inline_string\<close> builds the representation of a short string, for the concrete instances.
\<close>

definition inline_string :: "string \<Rightarrow> string_t" where
  "inline_string cs = \<lparr>str_length = int (length cs), str_capacity = 16, str_data = InlineData,
     str_inline = map Some cs @ Some NUL # replicate (15 - length cs) None\<rparr>"

lemma inline_string_represents: "length cs \<le> 15 \<Longrightarrow> represents (inline_string cs) cs"
  by (simp add: inline_string_def represents_def data_block_def string_consts)

subsection \<open>Editing\<close>

text \<open>C32: Appending a string to a string concatenates their contents, cut at the largest
  length that an \<open>int\<close> can index together with the terminator, and never runs into undefined
  behaviour, whatever the two lengths are.\<close>

theorem string_append_contents:
  assumes "represents s cs" and "represents o2 os"
  shows "\<exists>s'. string_append s (Some o2) = Some s' \<and> represents s' (take (nat (INT_MAX - 1)) (cs @ os))"
  using string_append_ok [OF assms] by (auto elim: yieldsE)

theorem string_append_contents_witness:
  "\<exists>s'. string_append (inline_string ''foo='') (Some (inline_string ''a longer value'')) = Some s' \<and>
    represents s' ''foo=a longer value''"
  using string_append_contents [OF inline_string_represents inline_string_represents, of "''foo=''" "''a longer value''"]
  by simp

text \<open>Replacing a range replaces exactly the characters of the range that the string has
  (a negative start counts as 0, a range past the end or of length 0 or less leaves the string
  alone), through every combination of growing, shrinking, inline and heap storage.\<close>

theorem string_replace_contents:
  assumes "represents s cs" and "represents t ts"
    and "int (length cs) + int (length ts) + 1 \<le> INT_MAX" and "pos + len \<le> INT_MAX" and "len \<le> INT_MAX"
  shows "\<exists>s'. string_replace s pos len (Some t) = Some s' \<and> represents s' (replace_at cs pos len ts)"
  using string_replace_ok [OF assms] by (auto elim: yieldsE)

theorem string_replace_contents_witness:
  "\<exists>s'. string_replace (inline_string ''hello'') 1 3 (Some (inline_string ''iiiiiiiiiiii'')) = Some s' \<and>
    represents s' ''hiiiiiiiiiiiio''"
  using string_replace_contents [OF inline_string_represents inline_string_represents,
      of "''hello''" "''iiiiiiiiiiii''" 1 3]
  by (simp add: replace_at_def)

text \<open>Inserting a string at any position and then erasing as many characters at the
  (clamped) position restores the string's contents.\<close>

theorem string_insert_erase:
  assumes "represents s cs" and "represents t ts" and "int (length cs) + int (length ts) + 1 \<le> INT_MAX"
  shows "\<exists>s1 s2. string_insert s pos (Some t) = Some s1 \<and> represents s1 (insert_at cs pos ts) \<and>
    string_erase s1 (clamp_pos (int (length cs)) pos) (int (length ts)) = Some s2 \<and> represents s2 cs"
proof -
  let ?p = "clamp_pos (int (length cs)) pos"
  have p: "0 \<le> ?p" "?p \<le> int (length cs)" by (auto simp: clamp_pos_def Let_def)
  obtain s1 where s1: "string_insert s pos (Some t) = Some s1" "represents s1 (insert_at cs pos ts)"
    using string_insert_ok [OF assms] by (auto elim: yieldsE)
  have "erase_at (insert_at cs pos ts) ?p (int (length ts)) = cs"
  proof -
    have "nat ?p \<le> length cs" using p by linarith
    then show ?thesis by (simp add: erase_at_def insert_at_def Let_def min_absorb2)
  qed
  then show ?thesis
    using string_erase_ok [OF s1(2) p(1), of "int (length ts)"] s1 p(2) assms(3) by (auto elim: yieldsE)
qed

theorem string_insert_erase_witness:
  "\<exists>s1 s2. string_insert (inline_string ''ad'') 1 (Some (inline_string ''bc'')) = Some s1 \<and>
    represents s1 ''abcd'' \<and> string_erase s1 1 2 = Some s2 \<and> represents s2 ''ad''"
  using string_insert_erase [OF inline_string_represents inline_string_represents, of "''ad''" "''bc''" 1]
  by (simp add: insert_at_def clamp_pos_def Let_def)

text \<open>Growing a string keeps its contents and reaches the requested capacity, for every
  request up to \<open>INT_MAX\<close>: the loop that doubles the capacity ends, its products do not
  overflow, and the move from inline to heap storage loses nothing.\<close>

theorem string_ensure_capacity_grows:
  assumes "represents s cs" and "needed \<le> INT_MAX"
  shows "\<exists>s'. string_ensure_capacity s needed = Some s' \<and> represents s' cs \<and> needed \<le> str_capacity s'"
  using string_ensure_capacity_ok [OF assms]
  by (auto simp: yields_cap_def split: option.splits)

theorem string_ensure_capacity_grows_witness:
  "\<exists>s'. string_ensure_capacity (inline_string ''abc'') 100 = Some s' \<and> represents s' ''abc'' \<and> 100 \<le> str_capacity s'"
  using string_ensure_capacity_grows [OF inline_string_represents, of "''abc''" 100] by simp

text \<open>Appending a code point other than 0 appends its UTF-8 encoding: the bytes are counted
  in the result, and decoding them, whatever follows them, gives the code point back.\<close>

theorem string_append_utf8_decodes:
  assumes "represents s cs" and "utf8_bytes cp = Some bs" and "cp \<noteq> 0" and "int (length cs) + 4 < INT_MAX"
  shows "\<exists>s'. string_append_utf8 s cp = Some (int (length bs), s') \<and> represents s' (cs @ bs) \<and>
    utf8_decode (bs @ rest) = Some (unat cp, rest)"
  using string_append_utf8_ok [OF assms] utf8_roundtrip_nat [OF assms(2)] by simp

theorem string_append_utf8_decodes_witness:
  "\<exists>s'. string_append_utf8 (inline_string ''x'') 0x20AC = Some (3, s') \<and>
    represents s' (''x'' @ [CHR 0xE2, CHR 0x82, CHR 0xAC]) \<and>
    utf8_decode ([CHR 0xE2, CHR 0x82, CHR 0xAC] @ ''y'') = Some (0x20AC, ''y'')"
proof -
  have "utf8_bytes 0x20AC = Some [CHR 0xE2, CHR 0x82, CHR 0xAC]" by (simp add: utf8_bytes_def char_of_eq_iff take_bit_eq_mod)
  from string_append_utf8_decodes [OF inline_string_represents this, of "''x''" "''y''"]
  show ?thesis by simp
qed

subsection \<open>Searching and comparing\<close>

text \<open>Substring search returns the least position, not before the given one, at which the
  sought string occurs, and -1 exactly when there is none.\<close>

theorem string_find_at_first:
  assumes "represents s cs" and "represents t ts" and "ts \<noteq> []"
  shows "\<exists>r. string_find_at s (Some t) pos = Some r \<and>
    (if r = -1 then \<forall>k\<ge>clamp_pos (int (length cs)) pos. \<not> occurs_at cs ts k
     else clamp_pos (int (length cs)) pos \<le> r \<and> occurs_at cs ts r \<and>
       (\<forall>k. clamp_pos (int (length cs)) pos \<le> k \<and> k < r \<longrightarrow> \<not> occurs_at cs ts k))"
  by (rule string_find_at_ok [OF assms refl])

theorem string_find_at_first_witness:
  "\<exists>r. string_find_at (inline_string ''abcabc'') (Some (inline_string ''bc'')) 2 = Some r \<and>
    (r = -1 \<or> 2 \<le> r \<and> occurs_at ''abcabc'' ''bc'' r)"
  using string_find_at_first [OF inline_string_represents inline_string_represents, of "''abcabc''" "''bc''" 2]
  by (auto simp: clamp_pos_def Let_def split: if_splits)

text \<open>Comparison orders the strings without NUL characters by their bytes: it is negative
  exactly for the smaller of the two, zero exactly for equal ones, and swapping the operands
  swaps the sign.\<close>

theorem string_compare_order:
  assumes "represents s cs" and "represents t ts" and "nul_free cs" and "nul_free ts"
  shows "\<exists>j k. string_compare (Some s) (Some t) = Some j \<and> string_compare (Some t) (Some s) = Some k \<and>
    (j < 0 \<longleftrightarrow> str_less cs ts) \<and> (j = 0 \<longleftrightarrow> cs = ts) \<and> (0 < j \<longleftrightarrow> str_less ts cs) \<and> sgn k = - sgn j"
proof -
  obtain j where j: "string_compare (Some s) (Some t) = Some j" "j = 0 \<longleftrightarrow> cs = ts" "j < 0 \<longleftrightarrow> str_less cs ts"
    using string_compare_ok [of "Some s" "Some cs" "Some t" "Some ts"] assms by (auto simp: represents_opt_def)
  obtain k where k: "string_compare (Some t) (Some s) = Some k" "k = 0 \<longleftrightarrow> ts = cs" "k < 0 \<longleftrightarrow> str_less ts cs"
    using string_compare_ok [of "Some t" "Some ts" "Some s" "Some cs"] assms by (auto simp: represents_opt_def)
  have "\<not> (str_less cs ts \<and> str_less ts cs)" "str_less cs ts \<or> cs = ts \<or> str_less ts cs"
    by (simp_all add: str_less_asym str_less_linear)
  then show ?thesis
    using j k by (cases "j = 0"; cases "j < 0"; cases "k < 0") (auto simp: sgn_if)
qed

theorem string_compare_order_witness:
  "\<exists>j k. string_compare (Some (inline_string ''ab'')) (Some (inline_string ''abc'')) = Some j \<and>
    string_compare (Some (inline_string ''abc'')) (Some (inline_string ''ab'')) = Some k \<and>
    (j < 0 \<longleftrightarrow> str_less ''ab'' ''abc'') \<and> (j = 0 \<longleftrightarrow> ''ab'' = ''abc'') \<and> (0 < j \<longleftrightarrow> str_less ''abc'' ''ab'') \<and>
    sgn k = - sgn j"
  by (rule string_compare_order [OF inline_string_represents inline_string_represents]) (simp_all add: nul_free_def)

text \<open>The hash depends on the contents only, is never 0, and agrees with equality: strings
  that compare equal hash alike, however they are stored.\<close>

theorem string_hash_congruent:
  assumes "represents s cs" and "represents t ts" and "nul_free cs" and "nul_free ts"
  shows "\<exists>h h' e. string_hash (Some s) = Some h \<and> string_hash (Some t) = Some h' \<and> h \<noteq> 0 \<and> h' \<noteq> 0 \<and>
    string_eq (Some s) (Some t) = Some e \<and> (e \<longrightarrow> h = h')"
  using string_hash_ok [OF assms(1)] string_hash_ok [OF assms(2)] string_eq_ok [OF assms] str_hash_nonzero by auto

theorem string_hash_congruent_witness:
  "\<exists>h h' e. string_hash (Some (inline_string ''PATH'')) = Some h \<and> string_hash (Some (inline_string ''HOME'')) = Some h' \<and>
    h \<noteq> 0 \<and> h' \<noteq> 0 \<and> string_eq (Some (inline_string ''PATH'')) (Some (inline_string ''HOME'')) = Some e \<and> (e \<longrightarrow> h = h')"
  by (rule string_hash_congruent [OF inline_string_represents inline_string_represents]) (simp_all add: nul_free_def)

text \<open>A C string of exactly \<open>INT_MAX\<close> characters slips past the length clamp of the
  constructor, which then computes \<open>len + 1\<close> in \<open>int\<close> and overflows.\<close>

theorem string_create_from_cstr_overflow:
  assumes "nul_free xs" and "int (length xs) = INT_MAX"
  shows "string_create_from_cstr (Some (cstr_block xs)) = None"
  using assms by (simp add: string_create_from_cstr_def c_strlen_cstr string_create_from_cstr_len_def c_int_overflow)

theorem string_create_from_cstr_overflow_witness:
  "string_create_from_cstr (Some (cstr_block (replicate (nat INT_MAX) CHR ''a''))) = None"
  by (rule string_create_from_cstr_overflow) (simp_all add: nul_free_def)

end
