(* ===== verification/Variable_Map.thy ===== *)
theory Variable_Map
  imports String_Search
begin

section \<open>The variable map (variable_map.c): a hash table with linear probing\<close>

text \<open>
  An open-addressing table: \<open>entries\<close> is an array of \<open>capacity\<close> slots, a key hashes to its
  ideal slot, collisions probe forward cyclically, deletion shifts the following entries
  back.  Keys and values are the contents of their \<open>string_t\<close> objects (the deep copies the
  code makes are value copies here); comparison and hashing are the ones of \<open>string_t.c\<close>.
  \<open>int32_t\<close> counts and slots are natural numbers, with the sums that could overflow checked.
  A NULL key that the code would pass on, an index outside the array, or an endless probe
  is \<open>None\<close>.
\<close>

subsection \<open>State\<close>

record variable_map_mapped =
  mm_value :: "string option"
  mm_exported :: bool
  mm_read_only :: bool

record variable_map_entry =
  e_key :: "string option"
  e_mapped :: variable_map_mapped
  e_occupied :: bool

record variable_map =
  vm_entries :: "variable_map_entry list"
  vm_size :: nat
  vm_capacity :: nat

definition VARIABLE_MAP_INITIAL_CAPACITY :: nat where "VARIABLE_MAP_INITIAL_CAPACITY = 16"

text \<open>A slot of a zeroed array, which is also what \<open>clear_entry\<close> leaves.\<close>

definition clear_entry :: variable_map_entry where
  "clear_entry = \<lparr>e_key = None, e_mapped = \<lparr>mm_value = None, mm_exported = False,
     mm_read_only = False\<rparr>, e_occupied = False\<rparr>"

definition keys_equal :: "string \<Rightarrow> string \<Rightarrow> bool" where
  "keys_equal a b = (cstr_of a = cstr_of b)"

definition find_slot :: "string \<Rightarrow> nat \<Rightarrow> nat" where
  "find_slot key capacity = unat (str_hash key) mod capacity"

definition entry_at :: "variable_map_entry list \<Rightarrow> nat \<Rightarrow> variable_map_entry option" where
  "entry_at es pos = (if pos < length es then Some (es ! pos) else None)"

definition c_nat :: "nat \<Rightarrow> nat option" where
  "c_nat n = (if int n \<le> INT_MAX then Some n else None)"

subsection \<open>Operations\<close>

definition variable_map_create :: variable_map where
  "variable_map_create = \<lparr>vm_entries = replicate VARIABLE_MAP_INITIAL_CAPACITY clear_entry,
     vm_size = 0, vm_capacity = VARIABLE_MAP_INITIAL_CAPACITY\<rparr>"

partial_function (option) probe_free :: "variable_map_entry list \<Rightarrow> nat \<Rightarrow> nat \<Rightarrow> nat option" where
  \<comment> \<open>\<open>while (entries[pos].occupied) pos = (pos + 1) % capacity;\<close>\<close>
  "probe_free es cap pos =
     do { e \<leftarrow> entry_at es pos;
          if e_occupied e then probe_free es cap ((pos + 1) mod cap) else Some pos }"

fun rehash :: "variable_map_entry list \<Rightarrow> nat \<Rightarrow> variable_map_entry list \<Rightarrow>
    variable_map_entry list option" where
  \<comment> \<open>the loop over the old array, moving its occupied entries into \<open>new\<close>\<close>
  "rehash [] cap new = Some new"
| "rehash (e # es) cap new =
     (if e_occupied e then do {
        key \<leftarrow> e_key e;
        pos \<leftarrow> probe_free new cap (find_slot key cap);
        rehash es cap (new[pos := e]) }
      else rehash es cap new)"

definition variable_map_resize :: "variable_map \<Rightarrow> nat \<Rightarrow> variable_map option" where
  "variable_map_resize vmap new_capacity =
     do { es \<leftarrow> rehash (vm_entries vmap) new_capacity (replicate new_capacity clear_entry);
          Some (vmap\<lparr>vm_entries := es, vm_capacity := new_capacity\<rparr>) }"

definition should_move :: "nat \<Rightarrow> nat \<Rightarrow> nat \<Rightarrow> bool" where
  "should_move hole cur ideal =
     (if cur \<ge> hole then ideal \<le> hole \<or> ideal > cur
      else ideal > cur \<and> ideal \<le> hole)"

partial_function (option) backward_shift ::
  "variable_map_entry list \<Rightarrow> nat \<Rightarrow> nat \<Rightarrow> nat \<Rightarrow> variable_map_entry list option" where
  "backward_shift es cap hole cur =
     do { e \<leftarrow> entry_at es cur;
          if e_occupied e then do {
            key \<leftarrow> e_key e;
            if should_move hole cur (find_slot key cap)
            then backward_shift
                   (es[hole := e,
                       cur := e\<lparr>e_occupied := False, e_key := None,
                                 e_mapped := (e_mapped e)\<lparr>mm_value := None\<rparr>\<rparr>])
                   cap cur ((cur + 1) mod cap)
            else backward_shift es cap hole ((cur + 1) mod cap) }
          else Some es }"

definition backward_shift_deletion :: "variable_map \<Rightarrow> nat \<Rightarrow> variable_map option" where
  "backward_shift_deletion vmap hole =
     do { es \<leftarrow> backward_shift (vm_entries vmap) (vm_capacity vmap) hole
                 ((hole + 1) mod vm_capacity vmap);
          Some (vmap\<lparr>vm_entries := es\<rparr>) }"

fun find_loop :: "variable_map_entry list \<Rightarrow> nat \<Rightarrow> string \<Rightarrow> nat \<Rightarrow> nat \<Rightarrow> nat option option" where
  "find_loop es cap key pos 0 = Some None"
| "find_loop es cap key pos (Suc n) =
     do { e \<leftarrow> entry_at es pos;
          if \<not> e_occupied e then Some None
          else do {
            k \<leftarrow> e_key e;
            if keys_equal k key then Some (Some pos)
            else find_loop es cap key ((pos + 1) mod cap) n } }"

definition variable_map_find :: "variable_map \<Rightarrow> string \<Rightarrow> nat option option" where
  \<comment> \<open>the inner \<open>None\<close> is the result -1\<close>
  "variable_map_find vmap key =
     find_loop (vm_entries vmap) (vm_capacity vmap) key (find_slot key (vm_capacity vmap)) (vm_capacity vmap)"

definition variable_map_at :: "variable_map \<Rightarrow> string \<Rightarrow> variable_map_mapped option option" where
  \<comment> \<open>the same loop as \<open>variable_map_find\<close>, with the mapped value as its result\<close>
  "variable_map_at vmap key =
     do { r \<leftarrow> find_loop (vm_entries vmap) (vm_capacity vmap) key
                 (find_slot key (vm_capacity vmap)) (vm_capacity vmap);
          (case r of None \<Rightarrow> Some None
           | Some pos \<Rightarrow> do { e \<leftarrow> entry_at (vm_entries vmap) pos; Some (Some (e_mapped e)) }) }"

definition variable_map_contains :: "variable_map \<Rightarrow> string \<Rightarrow> bool option" where
  "variable_map_contains vmap key = map_option (\<lambda>r. r \<noteq> None) (variable_map_find vmap key)"

datatype probe_result = Found nat | Free nat

partial_function (option) probe_key ::
  "variable_map_entry list \<Rightarrow> nat \<Rightarrow> string \<Rightarrow> nat \<Rightarrow> probe_result option" where
  \<comment> \<open>the probe of both insertions, stopped by an equal key or a free slot\<close>
  "probe_key es cap key pos =
     do { e \<leftarrow> entry_at es pos;
          if e_occupied e then do {
            k \<leftarrow> e_key e;
            if keys_equal k key then Some (Found pos)
            else probe_key es cap key ((pos + 1) mod cap) }
          else Some (Free pos) }"

definition grow_if_loaded :: "variable_map \<Rightarrow> variable_map option" where
  \<comment> \<open>\<open>if (size >= capacity * 3 / 4) variable_map_resize(vmap, capacity * 2);\<close>\<close>
  "grow_if_loaded vmap =
     do { c3 \<leftarrow> c_nat (vm_capacity vmap * 3);
          if vm_size vmap \<ge> c3 div 4 then do {
            c2 \<leftarrow> c_nat (vm_capacity vmap * 2);
            variable_map_resize vmap c2 }
          else Some vmap }"

definition set_entry :: "string \<Rightarrow> variable_map_mapped \<Rightarrow> variable_map_entry" where
  "set_entry key mapped = \<lparr>e_key = Some key, e_mapped = mapped, e_occupied = True\<rparr>"

definition variable_map_insert ::
  "variable_map \<Rightarrow> string \<Rightarrow> variable_map_mapped \<Rightarrow> (variable_map \<times> nat \<times> bool) option" where
  "variable_map_insert vmap key mapped =
     do { vmap \<leftarrow> grow_if_loaded vmap;
          r \<leftarrow> probe_key (vm_entries vmap) (vm_capacity vmap) key (find_slot key (vm_capacity vmap));
          (case r of
             Found pos \<Rightarrow> Some (vmap, pos, False)
           | Free pos \<Rightarrow> Some (vmap\<lparr>vm_entries := (vm_entries vmap)[pos := set_entry key mapped],
                                 vm_size := vm_size vmap + 1\<rparr>, pos, True)) }"

definition variable_map_insert_or_assign ::
  "variable_map \<Rightarrow> string \<Rightarrow> variable_map_mapped \<Rightarrow> (variable_map \<times> nat) option" where
  "variable_map_insert_or_assign vmap key mapped =
     do { vmap \<leftarrow> grow_if_loaded vmap;
          r \<leftarrow> probe_key (vm_entries vmap) (vm_capacity vmap) key (find_slot key (vm_capacity vmap));
          (case r of
             Found pos \<Rightarrow> Some (vmap\<lparr>vm_entries := (vm_entries vmap)
                [pos := (vm_entries vmap ! pos)\<lparr>e_mapped := mapped\<rparr>]\<rparr>, pos)
           | Free pos \<Rightarrow> Some (vmap\<lparr>vm_entries := (vm_entries vmap)[pos := set_entry key mapped],
                                 vm_size := vm_size vmap + 1\<rparr>, pos)) }"

definition variable_map_erase_at_pos :: "variable_map \<Rightarrow> nat \<Rightarrow> variable_map option" where
  "variable_map_erase_at_pos vmap pos =
     do { e \<leftarrow> entry_at (vm_entries vmap) pos;
          if \<not> e_occupied e then Some vmap
          else backward_shift_deletion
                 (vmap\<lparr>vm_entries := (vm_entries vmap)[pos := clear_entry], vm_size := vm_size vmap - 1\<rparr>) pos }"

definition variable_map_erase :: "variable_map \<Rightarrow> string \<Rightarrow> variable_map option" where
  "variable_map_erase vmap key =
     do { r \<leftarrow> variable_map_find vmap key;
          (case r of None \<Rightarrow> Some vmap | Some pos \<Rightarrow> variable_map_erase_at_pos vmap pos) }"

definition variable_map_clear :: "variable_map \<Rightarrow> variable_map" where
  "variable_map_clear vmap =
     vmap\<lparr>vm_entries := replicate (length (vm_entries vmap)) clear_entry, vm_size := 0\<rparr>"

definition variable_map_extract :: "variable_map \<Rightarrow> string \<Rightarrow>
    (variable_map \<times> variable_map_mapped option) option" where
  "variable_map_extract vmap key =
     do { r \<leftarrow> variable_map_find vmap key;
          (case r of None \<Rightarrow> Some (vmap, None)
           | Some pos \<Rightarrow> do {
               e \<leftarrow> entry_at (vm_entries vmap) pos;
               vmap \<leftarrow> variable_map_erase_at_pos vmap pos;
               Some (vmap, Some (e_mapped e)) }) }"

fun erase_each :: "variable_map \<Rightarrow> string list \<Rightarrow> variable_map option" where
  "erase_each vmap [] = Some vmap"
| "erase_each vmap (key # keys) = do { vmap \<leftarrow> variable_map_erase vmap key; erase_each vmap keys }"

definition destroy_entry :: "variable_map_entry \<Rightarrow> variable_map_entry" where
  "destroy_entry e = (if e_occupied e
     then e\<lparr>e_mapped := (e_mapped e)\<lparr>mm_value := None\<rparr>, e_key := None, e_occupied := False\<rparr> else e)"

fun mark_deleted :: "variable_map \<Rightarrow> string list \<Rightarrow> nat \<Rightarrow> (variable_map \<times> nat) option" where
  \<comment> \<open>the first loop of the rebuild: destroyed slots stay in the array, not occupied\<close>
  "mark_deleted vmap [] deleted = Some (vmap, deleted)"
| "mark_deleted vmap (key # keys) deleted =
     do { r \<leftarrow> variable_map_find vmap key;
          (case r of None \<Rightarrow> mark_deleted vmap keys deleted
           | Some pos \<Rightarrow> do {
               e \<leftarrow> entry_at (vm_entries vmap) pos;
               if e_occupied e
               then mark_deleted (vmap\<lparr>vm_entries := (vm_entries vmap)[pos := destroy_entry e]\<rparr>) keys (deleted + 1)
               else mark_deleted vmap keys deleted }) }"

definition variable_map_erase_multiple :: "variable_map \<Rightarrow> string list \<Rightarrow> variable_map option" where
  "variable_map_erase_multiple vmap keys =
     (let count = length keys in
      if count = 0 then Some vmap
      else if count = 1 then variable_map_erase vmap (keys ! 0)
      else if \<not> (count > vm_size vmap div 8 \<or> (count > 16 \<and> count > vm_capacity vmap div 16))
      then erase_each vmap keys
      else do {
        (vmap, deleted) \<leftarrow> mark_deleted vmap keys 0;
        if deleted = 0 then Some vmap
        else do {
          es \<leftarrow> rehash (vm_entries vmap) (vm_capacity vmap) (replicate (vm_capacity vmap) clear_entry);
          Some (vmap\<lparr>vm_entries := es, vm_size := vm_size vmap - deleted\<rparr>) } })"

subsection \<open>Iterators\<close>

text \<open>An iterator is the index it holds; the map it points to is the argument \<open>es\<close>.\<close>

function skip_free :: "variable_map_entry list \<Rightarrow> nat \<Rightarrow> nat" where
  "skip_free es i = (if i < length es \<and> \<not> e_occupied (es ! i) then skip_free es (i + 1) else i)"
  by pat_completeness auto
termination by (relation "measure (\<lambda>(es, i). length es - i)") auto

declare skip_free.simps [simp del]

lemma skip_free_ge: "i \<le> skip_free es i"
  by (induction es i rule: skip_free.induct) (subst skip_free.simps, auto)

definition variable_map_begin :: "variable_map \<Rightarrow> nat" where
  "variable_map_begin vmap = skip_free (vm_entries vmap) 0"

definition variable_map_end :: "variable_map \<Rightarrow> nat" where
  "variable_map_end vmap = vm_capacity vmap"

definition variable_map_iterator_deref :: "variable_map \<Rightarrow> nat \<Rightarrow> variable_map_entry option" where
  "variable_map_iterator_deref vmap i =
     do { e \<leftarrow> entry_at (vm_entries vmap) i; if e_occupied e then Some e else None }"

definition variable_map_iterator_increment :: "variable_map \<Rightarrow> nat \<Rightarrow> nat" where
  "variable_map_iterator_increment vmap i = skip_free (vm_entries vmap) (i + 1)"

text \<open>The \<open>while (!iterator_equal(it, end)) { deref; ...; increment }\<close> loop of the clients, with
  the body's effect as a state transformer.\<close>

partial_function (option) variable_map_iterate ::
  "variable_map \<Rightarrow> nat \<Rightarrow> (variable_map_entry \<Rightarrow> 's \<Rightarrow> 's option) \<Rightarrow> 's \<Rightarrow> 's option" where
  "variable_map_iterate vmap i body s =
     (if i = variable_map_end vmap then Some s
      else do {
        e \<leftarrow> variable_map_iterator_deref vmap i;
        s \<leftarrow> body e s;
        variable_map_iterate vmap (variable_map_iterator_increment vmap i) body s })"

end
