(* ===== verification/Map_Interface.thy ===== *)
theory Map_Interface
  imports Prelude
begin

section \<open>The finite-map interface between the variable map and its clients\<close>

text \<open>
  The variable store relies on these laws of a map from strings: what a lookup returns after
  an assignment or a deletion, and that both keep the representation invariant while there is
  room left.  Runs of assignments and deletions are treated once, here.
\<close>

fun fold_opt :: "('a \<Rightarrow> 's \<Rightarrow> 's option) \<Rightarrow> 'a list \<Rightarrow> 's \<Rightarrow> 's option" where
  \<comment> \<open>a loop whose body may fail\<close>
  "fold_opt f [] s = Some s"
| "fold_opt f (x # xs) s = do { s \<leftarrow> f x s; fold_opt f xs s }"

locale string_map =
  fixes create :: 'm
    and find :: "'m \<Rightarrow> string \<Rightarrow> 'v option option"
    and assign :: "'m \<Rightarrow> string \<Rightarrow> 'v \<Rightarrow> 'm option"
    and remove :: "'m \<Rightarrow> string \<Rightarrow> 'm option"
    and lookup :: "'m \<Rightarrow> string \<rightharpoonup> 'v"
    and invar :: "'m \<Rightarrow> bool"
    and room :: "nat \<Rightarrow> 'm \<Rightarrow> bool"
  assumes create_invar: "invar create"
    and create_lookup: "lookup create = Map.empty"
    and find_lookup: "invar m \<Longrightarrow> nul_free k \<Longrightarrow> find m k = Some (lookup m k)"
    and assign_law: "invar m \<Longrightarrow> nul_free k \<Longrightarrow> room (Suc n) m \<Longrightarrow>
      \<exists>m'. assign m k v = Some m' \<and> invar m' \<and> lookup m' = (lookup m)(k \<mapsto> v) \<and> room n m'"
    and remove_law: "invar m \<Longrightarrow> nul_free k \<Longrightarrow>
      \<exists>m'. remove m k = Some m' \<and> invar m' \<and> lookup m' = (lookup m)(k := None) \<and> (room n m \<longrightarrow> room n m')"
begin

lemma assign_all:
  assumes "invar m" "room (length kvs + n) m" "\<And>k. k \<in> fst ` set kvs \<Longrightarrow> nul_free k"
  shows "\<exists>m'. fold_opt (\<lambda>(k, v) m. assign m k v) kvs m = Some m' \<and> invar m' \<and>
    lookup m' = lookup m ++ map_of (rev kvs) \<and> room n m'"
  using assms
proof (induction kvs arbitrary: m)
  case (Cons kv kvs)
  obtain k v where kv: "kv = (k, v)" by fastforce
  obtain m' where m': "assign m k v = Some m'" "invar m'" "lookup m' = (lookup m)(k \<mapsto> v)"
      "room (length kvs + n) m'"
    using assign_law [OF Cons.prems(1), of k "length kvs + n" v] Cons.prems(2,3) kv by auto
  have nf: "nul_free k" if "k \<in> fst ` set kvs" for k using Cons.prems(3) [of k] that by simp
  obtain m'' where m'': "fold_opt (\<lambda>(k, v) m. assign m k v) kvs m' = Some m''" "invar m''"
      "lookup m'' = lookup m' ++ map_of (rev kvs)" "room n m''"
    using Cons.IH [OF m'(2,4) nf] by blast
  have "lookup m'' = lookup m ++ map_of (rev (kv # kvs))"
    using m'(3) m''(3) kv by (simp add: map_of_append)
  then show ?case using m'(1) m''(1,2,4) kv by (intro exI [of _ m'']) simp
qed simp

lemma remove_all:
  assumes "invar m" "\<And>k. k \<in> set ks \<Longrightarrow> nul_free k"
  shows "\<exists>m'. fold_opt (\<lambda>k m. remove m k) ks m = Some m' \<and> invar m' \<and>
    lookup m' = lookup m |` (- set ks) \<and> (room n m \<longrightarrow> room n m')"
  using assms
proof (induction ks arbitrary: m)
  case (Cons k ks)
  obtain m' where m': "remove m k = Some m'" "invar m'" "lookup m' = (lookup m)(k := None)"
      "room n m \<longrightarrow> room n m'"
    using remove_law [OF Cons.prems(1), of k n] Cons.prems(2) by auto
  moreover have "lookup m' |` (- set ks) = lookup m |` (- set (k # ks))"
    by (rule ext) (simp add: restrict_map_def m'(3))
  moreover obtain m'' where "fold_opt (\<lambda>k m. remove m k) ks m' = Some m''" "invar m''"
      "lookup m'' = lookup m' |` (- set ks)" "room n m' \<longrightarrow> room n m''"
    using Cons.IH [OF m'(2)] Cons.prems(2) by auto
  ultimately show ?case by auto
qed (simp add: restrict_map_def)

lemma find_after_assign:
  assumes "invar m" "nul_free k" "nul_free k'" "room (Suc n) m"
  shows "\<exists>m'. assign m k v = Some m' \<and> find m' k' = Some (if k' = k then Some v else lookup m k')"
  using assign_law [OF assms(1,2,4), of v] find_lookup assms(3) by auto

lemma find_after_remove:
  assumes "invar m" "nul_free k" "nul_free k'"
  shows "\<exists>m'. remove m k = Some m' \<and> find m' k' = Some (if k' = k then None else lookup m k')"
proof -
  obtain m' where "remove m k = Some m'" "invar m'" "lookup m' = (lookup m)(k := None)"
    using remove_law [OF assms(1,2)] by blast
  then show ?thesis using find_lookup [OF _ assms(3)] by auto
qed

end

end
