(* ===== verification/Variable_Map_Proofs.thy ===== *)
theory Variable_Map_Proofs
  imports Variable_Map Map_Interface
begin

section \<open>Correctness of the variable map\<close>

text \<open>
  The invariant of linear probing is stated with the cyclic distance between slots: every
  slot on the path from the ideal slot of an occupied slot's key up to that slot is itself
  occupied.  Under it, lookup, insertion and deletion by backward shift implement a finite
  map; the maps of the other components rest on the interface at the end of the theory.
\<close>

subsection \<open>Cyclic distance\<close>

definition cdist :: "nat \<Rightarrow> nat \<Rightarrow> nat \<Rightarrow> nat" where
  "cdist cap h p = (if h \<le> p then p - h else p + cap - h)"

lemma cdist_self [simp]: "cdist cap h h = 0"
  by (simp add: cdist_def)

lemma cdist_less: "h < cap \<Longrightarrow> p < cap \<Longrightarrow> cdist cap h p < cap"
  by (auto simp: cdist_def)

lemma cdist_inj: "h < cap \<Longrightarrow> p < cap \<Longrightarrow> q < cap \<Longrightarrow> cdist cap h p = cdist cap h q \<Longrightarrow> p = q"
  by (auto simp: cdist_def split: if_splits)

lemma next_slot: "(p::nat) < cap \<Longrightarrow> (p + 1) mod cap = (if p + 1 = cap then 0 else p + 1)"
  using mod_self [of cap] mod_less [of "p + 1" cap] by (auto simp del: mod_self mod_less)

lemma cdist_next: "h < cap \<Longrightarrow> p < cap \<Longrightarrow> (p + 1) mod cap \<noteq> h \<Longrightarrow>
    cdist cap h ((p + 1) mod cap) = cdist cap h p + 1"
  by (subst (asm) next_slot, simp, subst next_slot, simp)
     (auto simp: cdist_def split: if_splits)

lemma cdist_next_iff:
  assumes "h < cap" "x < cap" "p < cap" "(p + 1) mod cap \<noteq> h"
  shows "cdist cap h x < cdist cap h ((p + 1) mod cap) \<longleftrightarrow> cdist cap h x < cdist cap h p \<or> x = p"
  using cdist_next [of h cap p] cdist_inj [of h cap x p] assms by fastforce

text \<open>A loop that steps from slot to slot without stopping before \<open>p\<close> arrives at \<open>p\<close>.\<close>

lemma loop_reaches:
  assumes "h < cap" "p < cap"
    and step: "\<And>x. x < cap \<Longrightarrow> cdist cap h x < cdist cap h p \<Longrightarrow> f x = f ((x + 1) mod cap)"
  shows "f h = f p"
proof -
  have "f x = f p" if "x < cap" "cdist cap h x \<le> cdist cap h p" for x
    using that
  proof (induction "cdist cap h p - cdist cap h x" arbitrary: x)
    case 0
    then have "x = p" using cdist_inj [of h cap x p] assms(1,2) by simp
    then show ?case by simp
  next
    case (Suc n)
    let ?y = "(x + 1) mod cap"
    have lt: "cdist cap h x < cdist cap h p" using Suc.hyps(2) by simp
    have "?y \<noteq> h"
    proof
      assume "?y = h"
      then have "cdist cap h x = cap - 1"
        using Suc.prems(1) assms(1) next_slot [OF Suc.prems(1)] by (auto simp: cdist_def split: if_splits)
      then show False using lt cdist_less [OF assms(1,2)] by simp
    qed
    then have d: "cdist cap h ?y = cdist cap h x + 1" using cdist_next assms(1) Suc.prems(1) by blast
    have "f ?y = f p" using Suc d lt assms(1) by (intro Suc.hyps(1)) auto
    then show ?case using step [OF Suc.prems(1) lt] by simp
  qed
  from this [of h] assms show ?thesis by simp
qed

lemma first_stop:
  fixes S :: "nat \<Rightarrow> bool"
  assumes "\<exists>p<cap. S p"
  obtains p where "p < cap" "S p" "\<And>x. x < cap \<Longrightarrow> cdist cap h x < cdist cap h p \<Longrightarrow> \<not> S x"
proof -
  obtain q where "q < cap \<and> S q" using assms by blast
  from ex_has_least_nat [of "\<lambda>p. p < cap \<and> S p", OF this, of "cdist cap h"]
  obtain p where "p < cap \<and> S p" "\<And>x. x < cap \<and> S x \<Longrightarrow> cdist cap h p \<le> cdist cap h x"
    by blast
  then show thesis using that [of p] by (meson not_le)
qed

subsection \<open>The invariant\<close>

abbreviation occ :: "variable_map_entry list \<Rightarrow> nat \<Rightarrow> bool" where
  "occ es p \<equiv> e_occupied (es ! p)"

definition slot_key :: "variable_map_entry list \<Rightarrow> nat \<Rightarrow> string" where
  "slot_key es p = the (e_key (es ! p))"

definition home :: "variable_map_entry list \<Rightarrow> nat \<Rightarrow> nat \<Rightarrow> nat" where
  "home es cap p = find_slot (slot_key es p) cap"

definition keys_ok :: "variable_map_entry list \<Rightarrow> nat \<Rightarrow> bool" where
  "keys_ok es cap \<longleftrightarrow> length es = cap \<and> 0 < cap \<and>
     (\<forall>p<cap. occ es p \<longrightarrow> e_key (es ! p) = Some (slot_key es p) \<and> nul_free (slot_key es p)) \<and>
     (\<forall>p<cap. \<forall>q<cap. occ es p \<and> occ es q \<and> slot_key es p = slot_key es q \<longrightarrow> p = q)"

definition probe_ok :: "variable_map_entry list \<Rightarrow> nat \<Rightarrow> bool" where
  "probe_ok es cap \<longleftrightarrow> (\<forall>p<cap. occ es p \<longrightarrow>
     (\<forall>x<cap. cdist cap (home es cap p) x < cdist cap (home es cap p) p \<longrightarrow> occ es x))"

definition alist_of :: "variable_map_entry list \<Rightarrow> (string \<times> variable_map_mapped) list" where
  "alist_of es = map (\<lambda>e. (the (e_key e), e_mapped e)) (filter e_occupied es)"

definition vm_lookup :: "variable_map \<Rightarrow> string \<rightharpoonup> variable_map_mapped" where
  \<comment> \<open>the abstraction: the finite map that the table stands for\<close>
  "vm_lookup vmap = map_of (alist_of (vm_entries vmap))"

definition vm_invar :: "variable_map \<Rightarrow> bool" where
  "vm_invar vmap \<longleftrightarrow>
     keys_ok (vm_entries vmap) (vm_capacity vmap) \<and> probe_ok (vm_entries vmap) (vm_capacity vmap) \<and>
     vm_size vmap = length (filter e_occupied (vm_entries vmap)) \<and>
     VARIABLE_MAP_INITIAL_CAPACITY \<le> vm_capacity vmap \<and> 4 * vm_size vmap \<le> 3 * vm_capacity vmap"

definition vm_room :: "variable_map \<Rightarrow> bool" where
  \<comment> \<open>the capacities for which no \<open>int32_t\<close> product of an insertion overflows\<close>
  "vm_room vmap \<longleftrightarrow> int (vm_capacity vmap) * 3 \<le> INT_MAX"

lemma keys_equal_nul_free: "nul_free a \<Longrightarrow> nul_free b \<Longrightarrow> keys_equal a b = (a = b)"
  by (simp add: keys_equal_def)

lemma find_slot_less: "0 < cap \<Longrightarrow> find_slot k cap < cap"
  by (simp add: find_slot_def)

lemma keys_okD:
  assumes "keys_ok es cap"
  shows "length es = cap" "0 < cap"
    "\<And>p. p < cap \<Longrightarrow> occ es p \<Longrightarrow> e_key (es ! p) = Some (slot_key es p)"
    "\<And>p. p < cap \<Longrightarrow> occ es p \<Longrightarrow> nul_free (slot_key es p)"
    "\<And>p q. p < cap \<Longrightarrow> q < cap \<Longrightarrow> occ es p \<Longrightarrow> occ es q \<Longrightarrow> slot_key es p = slot_key es q \<Longrightarrow> p = q"
  using assms unfolding keys_ok_def by blast+

lemma home_less: "keys_ok es cap \<Longrightarrow> home es cap p < cap"
  by (simp add: home_def find_slot_less keys_okD)

lemma probe_okD: "probe_ok es cap \<Longrightarrow> p < cap \<Longrightarrow> occ es p \<Longrightarrow> x < cap \<Longrightarrow>
    cdist cap (home es cap p) x < cdist cap (home es cap p) p \<Longrightarrow> occ es x"
  unfolding probe_ok_def by blast

lemma entry_at_eval [c_simps]: "p < length es \<Longrightarrow> entry_at es p = Some (es ! p)"
  by (simp add: entry_at_def)

lemma in_alist_of:
  "(k, m) \<in> set (alist_of es) \<longleftrightarrow>
     (\<exists>p<length es. occ es p \<and> slot_key es p = k \<and> e_mapped (es ! p) = m)"
  by (force simp: alist_of_def slot_key_def in_set_conv_nth)

lemma distinct_alist_of:
  "keys_ok es cap \<Longrightarrow> (k, m) \<in> set (alist_of es) \<Longrightarrow> (k, m') \<in> set (alist_of es) \<Longrightarrow> m = m'"
  using keys_okD(1,5) by (fastforce simp: in_alist_of)

lemma map_of_functional:
  assumes "\<And>k m m'. (k, m) \<in> set al \<Longrightarrow> (k, m') \<in> set al \<Longrightarrow> m = m'"
  shows "map_of al k = Some m \<longleftrightarrow> (k, m) \<in> set al"
  using assms by (metis map_of_SomeD weak_map_of_SomeI)

lemma alist_lookup_mem:
  "keys_ok es cap \<Longrightarrow> map_of (alist_of es) k = Some m \<longleftrightarrow> (k, m) \<in> set (alist_of es)"
  by (rule map_of_functional) (rule distinct_alist_of)

lemma alist_lookup_Some:
  assumes "keys_ok es cap"
  shows "map_of (alist_of es) k = Some m \<longleftrightarrow>
    (\<exists>p<cap. occ es p \<and> slot_key es p = k \<and> e_mapped (es ! p) = m)"
proof -
  show ?thesis by (simp add: alist_lookup_mem [OF assms] in_alist_of keys_okD(1) [OF assms])
qed

lemma alist_lookup_None:
  assumes "keys_ok es cap"
  shows "map_of (alist_of es) k = None \<longleftrightarrow> (\<forall>p<cap. occ es p \<longrightarrow> slot_key es p \<noteq> k)"
  using alist_lookup_Some [OF assms] by (metis not_None_eq)

text \<open>Two tables with the same contents denote the same map.\<close>

lemma alist_lookup_eqI:
  assumes "keys_ok es cap" "keys_ok es' cap'" and "set (alist_of es) = set (alist_of es')"
  shows "map_of (alist_of es) = map_of (alist_of es')"
proof
  fix k
  have f: "map_of (alist_of es) k = Some m \<longleftrightarrow> (k, m) \<in> set (alist_of es)" for m
    by (rule map_of_functional) (rule distinct_alist_of [OF assms(1)])
  have g: "map_of (alist_of es') k = Some m \<longleftrightarrow> (k, m) \<in> set (alist_of es')" for m
    by (rule map_of_functional) (rule distinct_alist_of [OF assms(2)])
  show "map_of (alist_of es) k = map_of (alist_of es') k"
    using f g assms(3) by (cases "map_of (alist_of es) k"; cases "map_of (alist_of es') k") auto
qed

subsection \<open>Lookup\<close>

lemma find_loop_ok:
  assumes k: "keys_ok es cap" and pr: "probe_ok es cap" and key: "nul_free key"
  shows "find_loop es cap key (find_slot key cap) cap =
    Some (if \<exists>p<cap. occ es p \<and> slot_key es p = key
          then Some (THE p. p < cap \<and> occ es p \<and> slot_key es p = key) else None)"
proof -
  let ?h = "find_slot key cap"
  let ?S = "\<lambda>p. occ es p \<longrightarrow> slot_key es p = key"
  let ?f = "\<lambda>x. find_loop es cap key x (cap - cdist cap ?h x)"
  have h: "?h < cap" and len: "length es = cap" using keys_okD [OF k] by (simp_all add: find_slot_less)
  have unfold: "?f x = (if \<not> occ es x then Some None
      else if slot_key es x = key then Some (Some x)
      else find_loop es cap key ((x + 1) mod cap) (cap - cdist cap ?h x - 1))" if "x < cap" for x
  proof -
    have "cdist cap ?h x < cap" using cdist_less h that by blast
    then obtain n where "cap - cdist cap ?h x = Suc n" by (metis Suc_diff_Suc)
    then show ?thesis
      using that len keys_okD(3,4) [OF k that] key by (auto simp: c_simps keys_equal_nul_free)
  qed
  have stop: ?thesis if p: "p < cap" "?S p" "?f ?h = ?f p"
    "\<And>x. x < cap \<Longrightarrow> cdist cap ?h x < cdist cap ?h p \<Longrightarrow> \<not> ?S x" for p
  proof (cases "occ es p")
    case True
    then have "(THE p. p < cap \<and> occ es p \<and> slot_key es p = key) = p"
      using p keys_okD(5) [OF k] by (intro the_equality) auto
    then show ?thesis using True p unfold [OF p(1)] by auto
  next
    case False
    have "\<not> (occ es q \<and> slot_key es q = key)" if "q < cap" for q
    proof
      assume q: "occ es q \<and> slot_key es q = key"
      then have "\<not> cdist cap ?h q < cdist cap ?h p" using p(4) that by blast
      moreover have "q \<noteq> p" using q False by blast
      ultimately have "cdist cap ?h p < cdist cap ?h q" using cdist_inj [OF h p(1) that] by fastforce
      then have "occ es p" using probe_okD [OF pr that, of p] q p(1) by (auto simp: home_def)
      then show False using False by simp
    qed
    then show ?thesis using False p unfold [OF p(1)] by auto
  qed
  show ?thesis
  proof (cases "\<exists>p<cap. ?S p")
    case True
    then obtain p where p: "p < cap" "?S p" "\<And>x. x < cap \<Longrightarrow> cdist cap ?h x < cdist cap ?h p \<Longrightarrow> \<not> ?S x"
      using first_stop [OF True, of ?h] by metis
    have "?f ?h = ?f p"
    proof (rule loop_reaches [OF h p(1)])
      fix x assume x: "x < cap" "cdist cap ?h x < cdist cap ?h p"
      then have "(x + 1) mod cap \<noteq> ?h"
        using next_slot [OF x(1)] cdist_less [OF h p(1)] by (auto simp: cdist_def split: if_splits)
      then have "cdist cap ?h ((x + 1) mod cap) = cdist cap ?h x + 1" using cdist_next h x(1) by blast
      then show "?f x = ?f ((x + 1) mod cap)" using unfold [OF x(1)] p(3) [OF x] by simp
    qed
    then show ?thesis using stop p by blast
  next
    case False
    have "find_loop es cap key x n = Some None" if "x < cap" for x n
      using that
    proof (induction n arbitrary: x)
      case (Suc n)
      have "keys_equal (slot_key es x) key = False" "e_key (es ! x) = Some (slot_key es x)" "occ es x"
        using Suc.prems False keys_okD(3,4) [OF k Suc.prems] key by (auto simp: keys_equal_nul_free)
      moreover have "(x + 1) mod cap < cap" using Suc.prems by simp
      ultimately show ?case using Suc len by (simp add: c_simps)
    qed simp
    then show ?thesis using False h by auto
  qed
qed

subsection \<open>Probing for a slot\<close>

lemma probe_stops:
  fixes f :: "nat \<Rightarrow> 'r" and S :: "nat \<Rightarrow> bool"
  assumes "h < cap" "\<exists>p<cap. S p" and step: "\<And>x. x < cap \<Longrightarrow> \<not> S x \<Longrightarrow> f x = f ((x + 1) mod cap)"
  obtains p where "p < cap" "S p" "f h = f p"
    "\<And>x. x < cap \<Longrightarrow> cdist cap h x < cdist cap h p \<Longrightarrow> \<not> S x"
proof -
  obtain p where p: "p < cap" "S p" "\<And>x. x < cap \<Longrightarrow> cdist cap h x < cdist cap h p \<Longrightarrow> \<not> S x"
    using first_stop [OF assms(2), of h] by metis
  have "f h = f p" by (rule loop_reaches [OF assms(1) p(1)]) (use step p(3) in blast)
  then show thesis using that p by blast
qed

lemma probe_free_ok:
  assumes "length es = cap" "h < cap" "\<exists>p<cap. \<not> occ es p"
  obtains p where "probe_free es cap h = Some p" "p < cap" "\<not> occ es p"
    "\<And>x. x < cap \<Longrightarrow> cdist cap h x < cdist cap h p \<Longrightarrow> occ es x"
proof -
  obtain p where "p < cap" "\<not> occ es p" "probe_free es cap h = probe_free es cap p"
      "\<And>x. x < cap \<Longrightarrow> cdist cap h x < cdist cap h p \<Longrightarrow> \<not> \<not> occ es x"
    by (rule probe_stops [OF assms(2,3), of "probe_free es cap"])
      (use assms(1) in \<open>auto simp: probe_free.simps entry_at_def\<close>)
  moreover from this have "probe_free es cap p = Some p"
    using assms(1) by (simp add: probe_free.simps entry_at_def)
  ultimately show thesis using that by auto
qed

lemma probe_key_ok:
  assumes k: "keys_ok es cap" and pr: "probe_ok es cap" and key: "nul_free key"
    and room: "\<exists>p<cap. \<not> occ es p"
  obtains (found) p where "probe_key es cap key (find_slot key cap) = Some (Found p)" "p < cap"
      "occ es p" "slot_key es p = key"
  | (free) p where "probe_key es cap key (find_slot key cap) = Some (Free p)" "p < cap" "\<not> occ es p"
      "\<And>x. x < cap \<Longrightarrow> cdist cap (find_slot key cap) x < cdist cap (find_slot key cap) p \<Longrightarrow> occ es x"
      "\<And>q. q < cap \<Longrightarrow> occ es q \<Longrightarrow> slot_key es q \<noteq> key"
proof -
  let ?h = "find_slot key cap"
  have h: "?h < cap" and len: "length es = cap" using keys_okD [OF k] by (simp_all add: find_slot_less)
  have unfold: "probe_key es cap key x = (if \<not> occ es x then Some (Free x)
      else if slot_key es x = key then Some (Found x)
      else probe_key es cap key ((x + 1) mod cap))" if "x < cap" for x
    using that len keys_okD(3,4) [OF k that] key
    by (subst probe_key.simps) (auto simp: c_simps keys_equal_nul_free)
  obtain p where p: "p < cap" "\<not> occ es p \<or> slot_key es p = key"
      "probe_key es cap key ?h = probe_key es cap key p"
      "\<And>x. x < cap \<Longrightarrow> cdist cap ?h x < cdist cap ?h p \<Longrightarrow> \<not> (\<not> occ es x \<or> slot_key es x = key)"
    by (rule probe_stops [OF h, of "\<lambda>p. \<not> occ es p \<or> slot_key es p = key" "probe_key es cap key"])
      (use room unfold in auto)
  show thesis
  proof (cases "occ es p")
    case True
    then show thesis using found [of p] p unfold [OF p(1)] by simp
  next
    case False
    have absent: "slot_key es q \<noteq> key" if "q < cap" "occ es q" for q
    proof
      assume q: "slot_key es q = key"
      then have "\<not> cdist cap ?h q < cdist cap ?h p" using p(4) that by blast
      moreover have "q \<noteq> p" using that False by blast
      ultimately have "cdist cap ?h p < cdist cap ?h q"
        using cdist_inj [OF h p(1) that(1)] by fastforce
      then have "occ es p" using probe_okD [OF pr that(1,2) p(1)] q by (simp add: home_def)
      then show False using False by simp
    qed
    show thesis
      by (rule free [of p]) (use p False absent unfold [OF p(1)] in auto)
  qed
qed

subsection \<open>Filling and updating slots\<close>

lemma slot_key_update:
  "slot_key (es[p := e]) q = (if q = p \<and> p < length es then the (e_key e) else slot_key es q)"
  by (cases "p < length es") (auto simp: slot_key_def nth_list_update list_update_beyond)

lemma occ_update: "occ (es[p := e]) q \<longleftrightarrow> (if q = p \<and> p < length es then e_occupied e else occ es q)"
  by (cases "p < length es") (auto simp: nth_list_update list_update_beyond)

lemma length_filter_update:
  "p < length xs \<Longrightarrow> length (filter P (xs[p := x])) + (if P (xs ! p) then 1 else 0) =
     length (filter P xs) + (if P x then 1 else 0)"
proof -
  assume p: "p < length xs"
  have "length (filter P xs) = length (filter P (take p xs @ xs ! p # drop (Suc p) xs))"
    using p by (simp add: Cons_nth_drop_Suc)
  then show ?thesis using p by (simp add: upd_conv_take_nth_drop)
qed

text \<open>Filling a free slot that the probe for the entry's key has reached.\<close>

lemma fill_slot:
  assumes k: "keys_ok es cap" and pr: "probe_ok es cap" and p: "p < cap" "\<not> occ es p"
    and e: "e_occupied e" "e_key e = Some key" "nul_free key"
    and path: "\<And>x. x < cap \<Longrightarrow> cdist cap (find_slot key cap) x < cdist cap (find_slot key cap) p \<Longrightarrow> occ es x"
    and absent: "\<And>q. q < cap \<Longrightarrow> occ es q \<Longrightarrow> slot_key es q \<noteq> key"
  shows "keys_ok (es[p := e]) cap" "probe_ok (es[p := e]) cap"
    "set (alist_of (es[p := e])) = insert (key, e_mapped e) (set (alist_of es))"
    "length (filter e_occupied (es[p := e])) = length (filter e_occupied es) + 1"
proof -
  have len: "length es = cap" using keys_okD(1) [OF k] .
  let ?es = "es[p := e]"
  have o: "occ ?es q \<longleftrightarrow> q = p \<or> occ es q" for q using p e len by (simp add: occ_update)
  have s: "slot_key ?es q = (if q = p then key else slot_key es q)" for q
    using p e len by (simp add: slot_key_update)
  show "keys_ok ?es cap"
    unfolding keys_ok_def o
  proof (intro conjI allI impI)
    fix q assume "q < cap" "q = p \<or> occ es q"
    then show "e_key (?es ! q) = Some (slot_key ?es q)" "nul_free (slot_key ?es q)"
      using keys_okD(3,4) [OF k \<open>q < cap\<close>] p e len unfolding s by (auto simp: nth_list_update)
  next
    fix q r assume "q < cap" "r < cap"
      and "(q = p \<or> occ es q) \<and> (r = p \<or> occ es r) \<and> slot_key ?es q = slot_key ?es r"
    then show "q = r"
      using keys_okD(5) [OF k, of q r] absent [of q] absent [of r] unfolding s by metis
  qed (use len p in auto)
  show "probe_ok ?es cap"
    unfolding probe_ok_def home_def o s
  proof (intro allI impI)
    fix q x
    assume q: "q < cap" "q = p \<or> occ es q" and x: "x < cap"
      "cdist cap (find_slot (if q = p then key else slot_key es q) cap) x
       < cdist cap (find_slot (if q = p then key else slot_key es q) cap) q"
    show "x = p \<or> occ es x"
      using path [OF x(1)] probe_okD [OF pr q(1) _ x(1)] q(2) x(2) by (cases "q = p") (simp_all add: home_def)
  qed
  show "length (filter e_occupied (es[p := e])) = length (filter e_occupied es) + 1"
    using length_filter_update [of p es e_occupied e] p e len by simp
  have "(k', m) \<in> set (alist_of (es[p := e])) \<longleftrightarrow>
      (k', m) = (key, e_mapped e) \<or> (k', m) \<in> set (alist_of es)" for k' m
  proof -
    have "(\<exists>q<cap. occ (es[p := e]) q \<and> slot_key (es[p := e]) q = k' \<and> e_mapped (es[p := e] ! q) = m) \<longleftrightarrow>
      (key = k' \<and> e_mapped e = m) \<or> (\<exists>q<cap. occ es q \<and> slot_key es q = k' \<and> e_mapped (es ! q) = m)"
      unfolding occ_update slot_key_update nth_list_update using p e len
      by (auto simp: nth_list_update)
    then show ?thesis using len by (auto simp: in_alist_of)
  qed
  then show "set (alist_of (es[p := e])) = insert (key, e_mapped e) (set (alist_of es))" by auto
qed

lemma assign_slot:
  assumes k: "keys_ok es cap" and pr: "probe_ok es cap" and p: "p < cap" "occ es p"
    and es'_def: "es' = es[p := (es ! p)\<lparr>e_mapped := m\<rparr>]"
  shows "keys_ok es' cap" "probe_ok es' cap"
    "map_of (alist_of es') = (map_of (alist_of es))(slot_key es p \<mapsto> m)"
    "length (filter e_occupied es') = length (filter e_occupied es)"
proof -
  have len: "length es = cap" using keys_okD(1) [OF k] .
  have o: "occ es' q = occ es q" and s: "slot_key es' q = slot_key es q"
    and m': "e_mapped (es' ! q) = (if q = p then m else e_mapped (es ! q))"
    and ek: "e_key (es' ! q) = e_key (es ! q)" for q
    using p len by (auto simp: es'_def nth_list_update slot_key_def)
  show k': "keys_ok es' cap" using k len unfolding keys_ok_def o s ek by (simp add: es'_def)
  show "probe_ok es' cap" using pr unfolding probe_ok_def home_def o s .
  show "length (filter e_occupied es') = length (filter e_occupied es)"
    using length_filter_update [of p es e_occupied "(es ! p)\<lparr>e_mapped := m\<rparr>"] p len
    by (simp add: es'_def)
  show "map_of (alist_of es') = (map_of (alist_of es))(slot_key es p \<mapsto> m)"
  proof (rule ext)
    fix key
    show "map_of (alist_of es') key = ((map_of (alist_of es))(slot_key es p \<mapsto> m)) key"
    proof (cases "key = slot_key es p")
      case True
      then have "map_of (alist_of es') key = Some m"
        using p m' o s by (subst alist_lookup_Some [OF k']) (auto intro!: exI [of _ p])
      then show ?thesis using True by simp
    next
      case False
      have "map_of (alist_of es') key = map_of (alist_of es) key"
        by (rule option_eqI, unfold alist_lookup_Some [OF k'] alist_lookup_Some [OF k] o s m',
            rule ex_cong1) (use False in auto)
      then show ?thesis using False by simp
    qed
  qed
qed

subsection \<open>Growing the table\<close>

lemma empty_table: "0 < cap \<Longrightarrow> keys_ok (replicate cap clear_entry) cap"
  "probe_ok (replicate cap clear_entry) cap" "alist_of (replicate cap clear_entry) = []"
  by (auto simp: keys_ok_def probe_ok_def alist_of_def clear_entry_def)

lemma filter_all_length: "length (filter P xs) = length xs \<Longrightarrow> x \<in> set xs \<Longrightarrow> P x"
  by (metis filter_id_conv length_filter_less nat_neq_iff)

lemma free_slot_exists:
  assumes "length es = cap" "length (filter e_occupied es) < cap"
  shows "\<exists>p<cap. \<not> occ es p"
proof (rule ccontr)
  assume "\<not> ?thesis"
  then have "filter e_occupied es = es" using assms(1) by (auto simp: filter_id_conv in_set_conv_nth)
  then show False using assms by simp
qed

definition list_keys :: "variable_map_entry list \<Rightarrow> string set" where
  "list_keys es = {the (e_key e) | e. e \<in> set es \<and> e_occupied e}"

lemma list_keys_Cons: "list_keys (e # es) = (if e_occupied e then {the (e_key e)} else {}) \<union> list_keys es"
  by (auto simp: list_keys_def)

lemma rehash_ok:
  assumes "keys_ok new cap" "probe_ok new cap"
    and "\<And>e. e \<in> set es \<Longrightarrow> e_occupied e \<Longrightarrow> \<exists>k. e_key e = Some k \<and> nul_free k"
    and "distinct (map (\<lambda>e. the (e_key e)) (filter e_occupied es))"
    and "list_keys es \<inter> list_keys new = {}"
    and "length (filter e_occupied new) + length (filter e_occupied es) < cap"
  shows "\<exists>res. rehash es cap new = Some res \<and> keys_ok res cap \<and> probe_ok res cap \<and>
    set (alist_of res) = set (alist_of new) \<union> set (alist_of es) \<and>
    length (filter e_occupied res) = length (filter e_occupied new) + length (filter e_occupied es)"
  using assms
proof (induction es arbitrary: new)
  case Nil
  then show ?case by (auto simp: alist_of_def)
next
  case (Cons e es)
  show ?case
  proof (cases "e_occupied e")
    case False
    then show ?thesis
      using Cons.IH [of new] Cons.prems by (simp add: list_keys_Cons alist_of_def)
  next
    case True
    obtain k where k: "e_key e = Some k" "nul_free k" using Cons.prems(3) [of e] True by auto
    have len: "length new = cap" "0 < cap" using keys_okD [OF Cons.prems(1)] by auto
    have "\<exists>p<cap. \<not> occ new p" using free_slot_exists [OF len(1)] Cons.prems(6) by simp
    then obtain p where p: "probe_free new cap (find_slot k cap) = Some p" "p < cap" "\<not> occ new p"
        "\<And>x. x < cap \<Longrightarrow> cdist cap (find_slot k cap) x < cdist cap (find_slot k cap) p \<Longrightarrow> occ new x"
      using probe_free_ok [OF len(1) find_slot_less [OF len(2)]] by metis
    have "k \<notin> list_keys new" using Cons.prems(5) True k by (auto simp: list_keys_Cons)
    then have absent: "slot_key new q \<noteq> k" if "q < cap" "occ new q" for q
      using that len by (auto simp: list_keys_def slot_key_def)
    note fill = fill_slot [OF Cons.prems(1,2) p(2,3) True k p(4) absent]
    have "list_keys (new[p := e]) \<subseteq> insert k (list_keys new)"
      using set_update_subset_insert [of new p e] k by (auto simp: list_keys_def)
    moreover have "k \<notin> list_keys es"
      using Cons.prems(4) True k by (force simp: list_keys_def)
    ultimately have disj: "list_keys es \<inter> list_keys (new[p := e]) = {}"
      using Cons.prems(5) True by (auto simp: list_keys_Cons)
    obtain res where "rehash es cap (new[p := e]) = Some res" "keys_ok res cap" "probe_ok res cap"
        "set (alist_of res) = set (alist_of (new[p := e])) \<union> set (alist_of es)"
        "length (filter e_occupied res) = length (filter e_occupied (new[p := e])) + length (filter e_occupied es)"
      using Cons.IH [OF fill(1,2) _ _ disj] Cons.prems(3,4,6) fill(4) True by auto
    then show ?thesis
      using True k p(1) fill(3,4) by (auto simp: alist_of_def)
  qed
qed

lemma occupied_count: "length (filter e_occupied es) = card {p. p < length es \<and> occ es p}"
  by (rule length_filter_conv_card)

lemma keys_ok_distinct:
  "keys_ok es cap \<Longrightarrow> distinct (map (\<lambda>e. the (e_key e)) (filter e_occupied es))"
proof -
  assume k: "keys_ok es cap"
  have "p < length es \<Longrightarrow> q < length es \<Longrightarrow> occ es p \<Longrightarrow> occ es q \<Longrightarrow>
      the (e_key (es ! p)) = the (e_key (es ! q)) \<Longrightarrow> p = q" for p q
    using keys_okD(1,5) [OF k] by (auto simp: slot_key_def)
  then show ?thesis
  proof (induction es)
    case (Cons e es)
    have "distinct (map (\<lambda>e. the (e_key e)) (filter e_occupied es))"
    proof (rule Cons.IH)
      fix p q assume "p < length es" "q < length es" "occ es p" "occ es q"
        "the (e_key (es ! p)) = the (e_key (es ! q))"
      then show "p = q" using Cons.prems [of "Suc p" "Suc q"] by simp
    qed
    moreover have "the (e_key e) \<noteq> the (e_key (es ! q))" if "e_occupied e" "q < length es" "occ es q" for q
      using Cons.prems [of 0 "Suc q"] that by auto
    ultimately show ?case by (auto simp: in_set_conv_nth)
  qed simp
qed

lemma variable_map_resize_ok:
  assumes inv: "vm_invar m" and cap: "vm_capacity m < cap"
  shows "\<exists>m'. variable_map_resize m cap = Some m' \<and> vm_invar m' \<and> vm_lookup m' = vm_lookup m \<and>
    vm_capacity m' = cap \<and> vm_size m' = vm_size m"
proof -
  have k: "keys_ok (vm_entries m) (vm_capacity m)" and c16: "16 \<le> vm_capacity m"
    and sz: "vm_size m = length (filter e_occupied (vm_entries m))" "4 * vm_size m \<le> 3 * vm_capacity m"
    using inv by (auto simp: vm_invar_def VARIABLE_MAP_INITIAL_CAPACITY_def)
  have pos: "0 < cap" using cap by simp
  have keys: "\<exists>k. e_key e = Some k \<and> nul_free k" if "e \<in> set (vm_entries m)" "e_occupied e" for e
    using that keys_okD(1,3,4) [OF k] by (fastforce simp: in_set_conv_nth)
  obtain res where res: "rehash (vm_entries m) cap (replicate cap clear_entry) = Some res"
      "keys_ok res cap" "probe_ok res cap" "set (alist_of res) = set (alist_of (vm_entries m))"
      "length (filter e_occupied res) = length (filter e_occupied (vm_entries m))"
    using rehash_ok [OF empty_table(1) [OF pos] empty_table(2) keys keys_ok_distinct [OF k]]
      cap sz empty_table(3) [of cap] by (auto simp: list_keys_def clear_entry_def)
  have "map_of (alist_of res) = map_of (alist_of (vm_entries m))"
    by (rule alist_lookup_eqI [OF res(2) k res(4)])
  then show ?thesis
    using res sz cap c16 by (simp add: variable_map_resize_def vm_invar_def vm_lookup_def
        VARIABLE_MAP_INITIAL_CAPACITY_def)
qed

subsection \<open>Insertion\<close>

definition vm_reserve :: "nat \<Rightarrow> variable_map \<Rightarrow> bool" where
  \<comment> \<open>\<open>n\<close> more insertions overflow no \<open>int32_t\<close>\<close>
  "vm_reserve n m \<longleftrightarrow> int (3 * vm_capacity m) \<le> INT_MAX \<and> int (8 * (vm_size m + n)) \<le> INT_MAX"

lemma c_nat_eval [c_simps]: "int n \<le> INT_MAX \<Longrightarrow> c_nat n = Some n"
  by (simp add: c_nat_def)

lemma grow_if_loaded_ok:
  assumes inv: "vm_invar m" and r: "vm_reserve (Suc n) m"
  shows "\<exists>m'. grow_if_loaded m = Some m' \<and> vm_invar m' \<and> vm_lookup m' = vm_lookup m \<and>
    vm_size m' = vm_size m \<and> 4 * (vm_size m' + 1) \<le> 3 * vm_capacity m' \<and> vm_reserve (Suc n) m'"
proof (cases "vm_size m \<ge> vm_capacity m * 3 div 4")
  case True
  have cap: "16 \<le> vm_capacity m" "4 * vm_size m \<le> 3 * vm_capacity m"
    using inv by (auto simp: vm_invar_def VARIABLE_MAP_INITIAL_CAPACITY_def)
  have "vm_capacity m < vm_capacity m * 2" using cap by simp
  from variable_map_resize_ok [OF inv this]
  obtain m' where "variable_map_resize m (vm_capacity m * 2) = Some m'" "vm_invar m'"
      "vm_lookup m' = vm_lookup m" "vm_capacity m' = vm_capacity m * 2" "vm_size m' = vm_size m" by blast
  moreover have "int (vm_capacity m * 3) \<le> INT_MAX" "int (vm_capacity m * 2) \<le> INT_MAX"
    using r by (simp_all add: vm_reserve_def)
  moreover have "3 * (vm_capacity m * 2) \<le> 8 * (vm_size m + Suc n)"
  proof -
    have "vm_capacity m * 3 < (vm_size m + 1) * 4"
      using True div_less_iff_less_mult [of 4 "vm_capacity m * 3" "vm_size m + 1"] by simp
    then show ?thesis by simp
  qed
  ultimately show ?thesis
    using True r cap by (auto simp: grow_if_loaded_def c_simps vm_reserve_def)
next
  case False
  then have "4 * (vm_size m + 1) \<le> 3 * vm_capacity m"
    using less_eq_div_iff_mult_less_eq [of 4 "vm_size m + 1" "vm_capacity m * 3"] by simp
  then show ?thesis
    using False inv r by (auto simp: grow_if_loaded_def c_simps vm_reserve_def)
qed

lemma free_slot_of_invar:
  assumes "vm_invar m"
  shows "\<exists>p<vm_capacity m. \<not> occ (vm_entries m) p"
proof (rule free_slot_exists)
  show "length (vm_entries m) = vm_capacity m"
    using assms keys_okD(1) by (auto simp: vm_invar_def)
  show "length (filter e_occupied (vm_entries m)) < vm_capacity m"
    using assms by (auto simp: vm_invar_def VARIABLE_MAP_INITIAL_CAPACITY_def)
qed

lemma filled_table:
  assumes inv: "vm_invar m" and p: "p < vm_capacity m" "\<not> occ (vm_entries m) p" and key: "nul_free key"
    and path: "\<And>x. x < vm_capacity m \<Longrightarrow> cdist (vm_capacity m) (find_slot key (vm_capacity m)) x
        < cdist (vm_capacity m) (find_slot key (vm_capacity m)) p \<Longrightarrow> occ (vm_entries m) x"
    and absent: "\<And>q. q < vm_capacity m \<Longrightarrow> occ (vm_entries m) q \<Longrightarrow> slot_key (vm_entries m) q \<noteq> key"
    and room: "4 * (vm_size m + 1) \<le> 3 * vm_capacity m" and res: "vm_reserve (Suc n) m"
    and m': "m' = m\<lparr>vm_entries := (vm_entries m)[p := set_entry key mapped], vm_size := vm_size m + 1\<rparr>"
  shows "vm_invar m' \<and> vm_lookup m' = (vm_lookup m)(key \<mapsto> mapped) \<and> vm_lookup m key = None \<and> vm_reserve n m'"
proof -
  have k: "keys_ok (vm_entries m) (vm_capacity m)" and pr: "probe_ok (vm_entries m) (vm_capacity m)"
    using inv by (simp_all add: vm_invar_def)
  have e: "e_occupied (set_entry key mapped)" "e_key (set_entry key mapped) = Some key"
    "e_mapped (set_entry key mapped) = mapped"
    by (simp_all add: set_entry_def)
  note fill = fill_slot [OF k pr p e(1,2) key path absent]
  have none: "map_of (alist_of (vm_entries m)) key = None"
    unfolding alist_lookup_None [OF k] using absent by blast
  have "vm_lookup m' = (vm_lookup m)(key \<mapsto> mapped)"
  proof (rule ext, rule option_eqI)
    fix k' v
    have "vm_lookup m' k' = Some v \<longleftrightarrow> (k', v) \<in> insert (key, mapped) (set (alist_of (vm_entries m)))"
      using alist_lookup_mem [OF fill(1), of k' v] fill(3) e(3) by (simp add: m' vm_lookup_def)
    also have "\<dots> \<longleftrightarrow> ((vm_lookup m)(key \<mapsto> mapped)) k' = Some v"
      using alist_lookup_mem [OF k, of k' v] none
      by (auto simp: vm_lookup_def map_of_eq_None_iff image_iff)
    finally show "vm_lookup m' k' = Some v \<longleftrightarrow> ((vm_lookup m)(key \<mapsto> mapped)) k' = Some v" .
  qed
  then show ?thesis
    using inv fill room res none by (auto simp: m' vm_invar_def vm_reserve_def vm_lookup_def)
qed

lemma variable_map_insert_or_assign_ok:
  assumes inv: "vm_invar m" and res: "vm_reserve (Suc n) m" and key: "nul_free key"
  shows "\<exists>m' p. variable_map_insert_or_assign m key mapped = Some (m', p) \<and> vm_invar m' \<and>
    vm_lookup m' = (vm_lookup m)(key \<mapsto> mapped) \<and> vm_reserve n m'"
proof -
  obtain g where g: "grow_if_loaded m = Some g" "vm_invar g" "vm_lookup g = vm_lookup m"
      "4 * (vm_size g + 1) \<le> 3 * vm_capacity g" "vm_reserve (Suc n) g"
    using grow_if_loaded_ok [OF inv res] by blast
  have k: "keys_ok (vm_entries g) (vm_capacity g)" and pr: "probe_ok (vm_entries g) (vm_capacity g)"
    using g(2) by (simp_all add: vm_invar_def)
  show ?thesis
  proof (rule probe_key_ok [OF k pr key free_slot_of_invar [OF g(2)]])
    fix p assume p: "probe_key (vm_entries g) (vm_capacity g) key (find_slot key (vm_capacity g)) = Some (Found p)"
      "p < vm_capacity g" "occ (vm_entries g) p" "slot_key (vm_entries g) p = key"
    note assign = assign_slot [OF k pr p(2,3) refl, of mapped]
    show ?thesis
      using g p assign by (auto simp: variable_map_insert_or_assign_def vm_invar_def vm_lookup_def vm_reserve_def)
  next
    fix p assume p: "probe_key (vm_entries g) (vm_capacity g) key (find_slot key (vm_capacity g)) = Some (Free p)"
      "p < vm_capacity g" "\<not> occ (vm_entries g) p"
      "\<And>x. x < vm_capacity g \<Longrightarrow> cdist (vm_capacity g) (find_slot key (vm_capacity g)) x
         < cdist (vm_capacity g) (find_slot key (vm_capacity g)) p \<Longrightarrow> occ (vm_entries g) x"
      "\<And>q. q < vm_capacity g \<Longrightarrow> occ (vm_entries g) q \<Longrightarrow> slot_key (vm_entries g) q \<noteq> key"
    show ?thesis
      using filled_table [OF g(2) p(2,3) key p(4,5) g(4,5) refl, of mapped] g(1,3) p(1)
      by (auto simp: variable_map_insert_or_assign_def)
  qed
qed

lemma variable_map_insert_ok:
  assumes inv: "vm_invar m" and res: "vm_reserve (Suc n) m" and key: "nul_free key"
  shows "\<exists>m' p new. variable_map_insert m key mapped = Some (m', p, new) \<and> vm_invar m' \<and>
    new = (vm_lookup m key = None) \<and>
    vm_lookup m' = (if new then (vm_lookup m)(key \<mapsto> mapped) else vm_lookup m) \<and> vm_reserve n m'"
proof -
  obtain g where g: "grow_if_loaded m = Some g" "vm_invar g" "vm_lookup g = vm_lookup m"
      "4 * (vm_size g + 1) \<le> 3 * vm_capacity g" "vm_reserve (Suc n) g"
    using grow_if_loaded_ok [OF inv res] by blast
  have k: "keys_ok (vm_entries g) (vm_capacity g)" and pr: "probe_ok (vm_entries g) (vm_capacity g)"
    using g(2) by (simp_all add: vm_invar_def)
  show ?thesis
  proof (rule probe_key_ok [OF k pr key free_slot_of_invar [OF g(2)]])
    fix p assume p: "probe_key (vm_entries g) (vm_capacity g) key (find_slot key (vm_capacity g)) = Some (Found p)"
      "p < vm_capacity g" "occ (vm_entries g) p" "slot_key (vm_entries g) p = key"
    have "vm_lookup g key \<noteq> None"
      unfolding vm_lookup_def alist_lookup_None [OF k] using p by blast
    then show ?thesis
      using g p by (auto simp: variable_map_insert_def vm_reserve_def)
  next
    fix p assume p: "probe_key (vm_entries g) (vm_capacity g) key (find_slot key (vm_capacity g)) = Some (Free p)"
      "p < vm_capacity g" "\<not> occ (vm_entries g) p"
      "\<And>x. x < vm_capacity g \<Longrightarrow> cdist (vm_capacity g) (find_slot key (vm_capacity g)) x
         < cdist (vm_capacity g) (find_slot key (vm_capacity g)) p \<Longrightarrow> occ (vm_entries g) x"
      "\<And>q. q < vm_capacity g \<Longrightarrow> occ (vm_entries g) q \<Longrightarrow> slot_key (vm_entries g) q \<noteq> key"
    show ?thesis
      using filled_table [OF g(2) p(2,3) key p(4,5) g(4,5) refl, of mapped] g(1,3) p(1)
      by (auto simp: variable_map_insert_def)
  qed
qed

subsection \<open>Deletion by backward shift\<close>

lemma should_move_iff:
  "hole < cap \<Longrightarrow> c < cap \<Longrightarrow> h < cap \<Longrightarrow> hole \<noteq> c \<Longrightarrow>
    should_move hole c h \<longleftrightarrow> cdist cap h hole < cdist cap h c"
  by (auto simp: should_move_def cdist_def)

lemma cdist_between:
  "e < cap \<Longrightarrow> p < cap \<Longrightarrow> c < cap \<Longrightarrow> h < cap \<Longrightarrow> cdist cap h e < cdist cap h p \<Longrightarrow>
    cdist cap e c < cdist cap e p \<Longrightarrow> cdist cap h c < cdist cap h p"
  by (auto simp: cdist_def split: if_splits)

lemma cdist_pos: "e < cap \<Longrightarrow> p < cap \<Longrightarrow> e \<noteq> p \<Longrightarrow> 0 < cdist cap e p"
  by (auto simp: cdist_def)

lemma cdist_succ_le: "e < cap \<Longrightarrow> c < cap \<Longrightarrow> p < cap \<Longrightarrow> cdist cap e c < cdist cap e p \<Longrightarrow>
    cdist cap e ((c + 1) mod cap) \<le> cdist cap e p \<and> (c + 1) mod cap \<noteq> e"
  by (subst next_slot, simp, subst next_slot, simp) (auto simp: cdist_def split: if_splits)

lemma cdist_from_succ: "c < cap \<Longrightarrow> u < cap \<Longrightarrow> u \<noteq> c \<Longrightarrow>
    cdist cap c u = Suc (cdist cap ((c + 1) mod cap) u)"
  by (subst next_slot, simp) (auto simp: cdist_def split: if_splits)

text \<open>Every probe path is unbroken, except that paths to slots not before \<open>c\<close> may miss the hole.\<close>

definition gap_ok :: "variable_map_entry list \<Rightarrow> nat \<Rightarrow> nat \<Rightarrow> nat \<Rightarrow> bool" where
  "gap_ok es cap hole c \<longleftrightarrow>
     keys_ok es cap \<and> hole < cap \<and> c < cap \<and> hole \<noteq> c \<and> \<not> occ es hole \<and>
     (\<forall>p<cap. occ es p \<longrightarrow> (\<forall>x<cap. cdist cap (home es cap p) x < cdist cap (home es cap p) p \<longrightarrow>
        occ es x \<or> (x = hole \<and> cdist cap hole c \<le> cdist cap hole p)))"

lemma gap_okD:
  "gap_ok es cap hole c \<Longrightarrow> p < cap \<Longrightarrow> occ es p \<Longrightarrow> x < cap \<Longrightarrow>
    cdist cap (home es cap p) x < cdist cap (home es cap p) p \<Longrightarrow> \<not> occ es x \<Longrightarrow>
    x = hole \<and> cdist cap hole c \<le> cdist cap hole p"
  unfolding gap_ok_def by blast

lemma gap_closed:
  assumes g: "gap_ok es cap hole c" and "\<not> occ es c"
  shows "probe_ok es cap"
  unfolding probe_ok_def
proof (intro allI impI, rule ccontr)
  fix p x
  assume p: "p < cap" "occ es p" and x: "x < cap" "\<not> occ es x"
    "cdist cap (home es cap p) x < cdist cap (home es cap p) p"
  have b: "hole < cap" "c < cap" "hole \<noteq> c" "home es cap p < cap"
    using g home_less by (auto simp: gap_ok_def)
  have xh: "x = hole" "cdist cap hole c \<le> cdist cap hole p" using gap_okD [OF g p x(1,3,2)] by auto
  have "c \<noteq> p" using p assms(2) by blast
  then have "cdist cap hole c < cdist cap hole p" using xh(2) cdist_inj [OF b(1,2) p(1)] by fastforce
  then have "cdist cap (home es cap p) c < cdist cap (home es cap p) p"
    using cdist_between b p(1) x(3) xh(1) by blast
  then show False using gap_okD [OF g p b(2)] assms(2) b(3) by blast
qed

lemma gap_skip:
  assumes g: "gap_ok es cap hole c" and c: "occ es c" and "\<not> should_move hole c (home es cap c)"
    and u: "u < cap" "\<not> occ es u" "u \<noteq> hole" "cdist cap hole c \<le> cdist cap hole u"
  shows "gap_ok es cap hole ((c + 1) mod cap) \<and> cdist cap hole ((c + 1) mod cap) \<le> cdist cap hole u"
proof -
  have b: "keys_ok es cap" "hole < cap" "c < cap" "hole \<noteq> c" "\<not> occ es hole" and h: "\<And>p. home es cap p < cap"
    using g home_less by (auto simp: gap_ok_def)
  have stay: "\<not> cdist cap (home es cap c) hole < cdist cap (home es cap c) c"
    using assms(3) should_move_iff [OF b(2,3) h b(4)] by simp
  have "c \<noteq> u" using c u by blast
  then have "cdist cap hole c < cdist cap hole u" using u(4) cdist_inj [OF b(2,3) u(1)] by fastforce
  note n = cdist_succ_le [OF b(2,3) u(1) this]
  have "occ es x \<or> (x = hole \<and> cdist cap hole ((c + 1) mod cap) \<le> cdist cap hole p)"
    if p: "p < cap" "occ es p" and x: "x < cap"
      "cdist cap (home es cap p) x < cdist cap (home es cap p) p" for p x
  proof (rule ccontr)
    assume neg: "\<not> ?thesis"
    then have xh: "x = hole" "cdist cap hole c \<le> cdist cap hole p" using gap_okD [OF g p x] by auto
    have "p \<noteq> c" using stay x(2) xh(1) by blast
    then have "cdist cap hole c < cdist cap hole p" using xh(2) cdist_inj [OF b(2,3) p(1)] by fastforce
    then show False using cdist_succ_le [OF b(2,3) p(1)] neg xh(1) by blast
  qed
  moreover have "(c + 1) mod cap < cap" using b(3) by simp
  ultimately show ?thesis using b n unfolding gap_ok_def by metis
qed

definition vacated :: "variable_map_entry \<Rightarrow> variable_map_entry" where
  "vacated e = e\<lparr>e_occupied := False, e_key := None, e_mapped := (e_mapped e)\<lparr>mm_value := None\<rparr>\<rparr>"

text \<open>Moving the occupied entry at \<open>c\<close> into the hole, which makes \<open>c\<close> the new hole.\<close>

lemma moved_slots:
  assumes "length es = cap" "hole < cap" "c < cap" "hole \<noteq> c"
    and es': "es' = es[hole := es ! c, c := vacated (es ! c)]"
  shows "length es' = cap" "es' ! hole = es ! c" "\<not> occ es' c"
    "\<And>q. q \<noteq> hole \<Longrightarrow> q \<noteq> c \<Longrightarrow> es' ! q = es ! q"
  using assms by (auto simp: nth_list_update vacated_def)

lemma gap_move:
  assumes g: "gap_ok es cap hole c" and c: "occ es c" and mv: "should_move hole c (home es cap c)"
    and es': "es' = es[hole := es ! c, c := vacated (es ! c)]" and "1 < cap"
  shows "gap_ok es' cap c ((c + 1) mod cap)"
proof -
  have b: "keys_ok es cap" "hole < cap" "c < cap" "hole \<noteq> c" "\<not> occ es hole" and h: "\<And>p. home es cap p < cap"
    using g home_less by (auto simp: gap_ok_def)
  have lt: "cdist cap (home es cap c) hole < cdist cap (home es cap c) c"
    using mv should_move_iff [OF b(2,3) h b(4)] by simp
  note m = moved_slots [OF keys_okD(1) [OF b(1)] b(2,3,4) es']
  define from_slot where "from_slot q = (if q = hole then c else q)" for q
  have o: "occ es' q \<longleftrightarrow> q \<noteq> c \<and> occ es (from_slot q)"
    and s: "q \<noteq> c \<Longrightarrow> es' ! q = es ! from_slot q" "q \<noteq> c \<Longrightarrow> slot_key es' q = slot_key es (from_slot q)"
      "q \<noteq> c \<Longrightarrow> home es' cap q = home es cap (from_slot q)" for q
    using m c by (cases "q = c"; cases "q = hole"; simp add: from_slot_def slot_key_def home_def)+
  have fs: "q < cap \<Longrightarrow> from_slot q < cap" "q \<noteq> c \<Longrightarrow> r \<noteq> c \<Longrightarrow> occ es (from_slot q) \<Longrightarrow> occ es (from_slot r) \<Longrightarrow>
     from_slot q = from_slot r \<Longrightarrow> q = r" for q r
    using b by (auto simp: from_slot_def split: if_splits)
  have "keys_ok es' cap"
    unfolding keys_ok_def
  proof (intro conjI allI impI)
    fix q assume "q < cap" "occ es' q"
    then show "e_key (es' ! q) = Some (slot_key es' q)" "nul_free (slot_key es' q)"
      using keys_okD(3,4) [OF b(1) fs(1)] o s by auto
  next
    fix q r assume "q < cap" "r < cap" "occ es' q \<and> occ es' r \<and> slot_key es' q = slot_key es' r"
    then show "q = r" using keys_okD(5) [OF b(1) fs(1) fs(1)] fs(2) o s by metis
  qed (use m(1) b(3) in auto)
  moreover have "occ es' x \<or> (x = c \<and> cdist cap c ((c + 1) mod cap) \<le> cdist cap c p)"
    if p: "p < cap" "occ es' p" and x: "x < cap" "cdist cap (home es' cap p) x < cdist cap (home es' cap p) p" for p x
  proof (cases "p = hole")
    case True
    then have hx: "cdist cap (home es cap c) x < cdist cap (home es cap c) hole"
      using x(2) s(3) [of p] b(4) by (simp add: from_slot_def)
    have "x \<noteq> hole" "x \<noteq> c" using hx lt by auto
    moreover have "occ es x" using gap_okD [OF g b(3) c x(1)] hx lt \<open>x \<noteq> hole\<close> by force
    ultimately show ?thesis by (simp add: o from_slot_def)
  next
    case False
    have pc: "p \<noteq> c" using p(2) m(3) by blast
    then have p': "occ es p" "cdist cap (home es cap p) x < cdist cap (home es cap p) p"
      using p(2) x(2) False o [of p] s(3) [of p] by (auto simp: from_slot_def)
    have "1 \<le> cdist cap c p" using cdist_pos [OF b(3) p(1)] pc by simp
    moreover have "cdist cap c ((c + 1) mod cap) = 1"
      using next_slot [OF b(3)] \<open>1 < cap\<close> b(3) by (auto simp: cdist_def)
    ultimately show ?thesis
      using gap_okD [OF g p(1) p'(1) x(1) p'(2)] c by (cases "x = c") (auto simp: o from_slot_def)
  qed
  moreover have "c \<noteq> (c + 1) mod cap" using next_slot [OF b(3)] \<open>1 < cap\<close> by auto
  ultimately show ?thesis using b(3) m(3) unfolding gap_ok_def by simp
qed

lemma moved_contents:
  assumes "length es = cap" "hole < cap" "c < cap" "hole \<noteq> c" "\<not> occ es hole" "occ es c"
    and es': "es' = es[hole := es ! c, c := vacated (es ! c)]"
  shows "set (alist_of es') = set (alist_of es)"
    "length (filter e_occupied es') = length (filter e_occupied es)"
proof -
  note m = moved_slots [OF assms(1-4) es']
  have "(k, v) \<in> set (alist_of es') \<longleftrightarrow> (k, v) \<in> set (alist_of es)" for k v
  proof
    assume "(k, v) \<in> set (alist_of es')"
    then obtain p where p: "p < cap" "occ es' p" "slot_key es' p = k" "e_mapped (es' ! p) = v"
      using m(1) by (auto simp: in_alist_of)
    then show "(k, v) \<in> set (alist_of es)"
      using m assms by (cases "p = hole"; cases "p = c") (auto simp: in_alist_of slot_key_def)
  next
    assume "(k, v) \<in> set (alist_of es)"
    then obtain p where p: "p < cap" "occ es p" "slot_key es p = k" "e_mapped (es ! p) = v"
      using assms(1) by (auto simp: in_alist_of)
    then show "(k, v) \<in> set (alist_of es')"
      using m assms by (cases "p = hole"; cases "p = c") (auto simp: in_alist_of slot_key_def)
  qed
  then show "set (alist_of es') = set (alist_of es)" by auto
  show "length (filter e_occupied es') = length (filter e_occupied es)"
    using length_filter_update [of hole es e_occupied "es ! c"]
      length_filter_update [of c "es[hole := es ! c]" e_occupied "vacated (es ! c)"] assms
    by (simp add: vacated_def)
qed

lemma backward_shift_ok:
  assumes "gap_ok es cap hole c" "1 < cap" "u < cap" "\<not> occ es u" "u \<noteq> hole"
    and "cdist cap hole c \<le> cdist cap hole u"
  shows "\<exists>es'. backward_shift es cap hole c = Some es' \<and> keys_ok es' cap \<and> probe_ok es' cap \<and>
    set (alist_of es') = set (alist_of es) \<and> length (filter e_occupied es') = length (filter e_occupied es)"
  using assms
proof (induction "cdist cap c u" arbitrary: es hole c rule: less_induct)
  case less
  have b: "keys_ok es cap" "hole < cap" "c < cap" "hole \<noteq> c" "\<not> occ es hole" "length es = cap"
    using less.prems(1) keys_okD(1) by (auto simp: gap_ok_def)
  have run: "backward_shift es cap hole c = (if occ es c
      then if should_move hole c (home es cap c)
        then backward_shift (es[hole := es ! c, c := vacated (es ! c)]) cap c ((c + 1) mod cap)
        else backward_shift es cap hole ((c + 1) mod cap)
      else Some es)"
    using b keys_okD(3) [OF b(1,3)]
    by (subst backward_shift.simps) (simp add: entry_at_def vacated_def home_def)
  show ?case
  proof (cases "occ es c")
    case False
    then show ?thesis using run gap_closed [OF less.prems(1)] b by auto
  next
    case True
    then have "u \<noteq> c" using less.prems(4) by blast
    then have dec: "cdist cap ((c + 1) mod cap) u < cdist cap c u"
      using cdist_from_succ [OF b(3) less.prems(3)] by simp
    show ?thesis
    proof (cases "should_move hole c (home es cap c)")
      case mv: True
      let ?es = "es[hole := es ! c, c := vacated (es ! c)]"
      note g = gap_move [OF less.prems(1) True mv refl less.prems(2)]
      have "cdist cap c ((c + 1) mod cap) \<le> cdist cap c u"
        using next_slot [OF b(3)] cdist_pos [OF b(3) less.prems(3)] \<open>u \<noteq> c\<close> less.prems(2) b(3)
        by (auto simp: cdist_def split: if_splits)
      moreover have "\<not> occ ?es u"
        using moved_slots(4) [OF b(6,2,3,4) refl] less.prems(4,5) \<open>u \<noteq> c\<close> by simp
      ultimately show ?thesis
        using less.hyps [OF dec g less.prems(2,3) _ \<open>u \<noteq> c\<close>] run True mv
          moved_contents [OF b(6,2,3,4,5) True refl] by simp
    next
      case False
      note g = gap_skip [OF less.prems(1) True False less.prems(3,4,5,6)]
      then show ?thesis
        using less.hyps [OF dec _ less.prems(2,3,4,5)] run True False by simp
    qed
  qed
qed

subsection \<open>Lookup and deletion on the map\<close>

lemma vm_invarD:
  assumes "vm_invar m"
  shows "keys_ok (vm_entries m) (vm_capacity m)" "probe_ok (vm_entries m) (vm_capacity m)"
    "16 \<le> vm_capacity m" "length (vm_entries m) = vm_capacity m"
    "vm_size m = length (filter e_occupied (vm_entries m))" "4 * vm_size m \<le> 3 * vm_capacity m"
  using assms keys_okD(1) by (auto simp: vm_invar_def VARIABLE_MAP_INITIAL_CAPACITY_def)

lemma variable_map_find_ok:
  assumes inv: "vm_invar m" and key: "nul_free key"
  obtains (absent) "variable_map_find m key = Some None" "vm_lookup m key = None"
  | (found) p where "variable_map_find m key = Some (Some p)" "p < vm_capacity m" "occ (vm_entries m) p"
      "slot_key (vm_entries m) p = key" "vm_lookup m key = Some (e_mapped (vm_entries m ! p))"
proof -
  note k = vm_invarD(1) [OF inv]
  note run = find_loop_ok [OF k vm_invarD(2) [OF inv] key, folded variable_map_find_def]
  show thesis
  proof (cases "\<exists>p<vm_capacity m. occ (vm_entries m) p \<and> slot_key (vm_entries m) p = key")
    case True
    then obtain p where p: "p < vm_capacity m" "occ (vm_entries m) p" "slot_key (vm_entries m) p = key" by blast
    have "(THE p. p < vm_capacity m \<and> occ (vm_entries m) p \<and> slot_key (vm_entries m) p = key) = p"
      using p keys_okD(5) [OF k] by (intro the_equality) auto
    moreover have "vm_lookup m key = Some (e_mapped (vm_entries m ! p))"
      unfolding vm_lookup_def alist_lookup_Some [OF k] using p by blast
    ultimately show thesis using found [of p] p run True by simp
  next
    case False
    then have "vm_lookup m key = None" unfolding vm_lookup_def alist_lookup_None [OF k] by blast
    then show thesis using absent run False by simp
  qed
qed

lemma variable_map_at_ok:
  assumes "vm_invar m" "nul_free key"
  shows "variable_map_at m key = Some (vm_lookup m key)"
  using vm_invarD(4) [OF assms(1)]
  by (cases rule: variable_map_find_ok [OF assms])
     (simp_all add: variable_map_at_def variable_map_find_def entry_at_def)

lemma variable_map_contains_ok:
  assumes "vm_invar m" "nul_free key"
  shows "variable_map_contains m key = Some (vm_lookup m key \<noteq> None)"
  by (cases rule: variable_map_find_ok [OF assms]) (simp_all add: variable_map_contains_def)

lemma removed_slot:
  assumes k: "keys_ok es cap" and pr: "probe_ok es cap" and p: "p < cap" "occ es p" and "1 < cap"
  shows "gap_ok (es[p := clear_entry]) cap p ((p + 1) mod cap)"
    "(kk, v) \<in> set (alist_of (es[p := clear_entry])) \<longleftrightarrow> kk \<noteq> slot_key es p \<and> (kk, v) \<in> set (alist_of es)"
    "length (filter e_occupied (es[p := clear_entry])) = length (filter e_occupied es) - 1"
proof -
  have len: "length es = cap" using keys_okD(1) [OF k] .
  let ?es = "es[p := clear_entry]"
  have o: "occ ?es q \<longleftrightarrow> q \<noteq> p \<and> occ es q" and s: "q \<noteq> p \<Longrightarrow> ?es ! q = es ! q"
    "q \<noteq> p \<Longrightarrow> slot_key ?es q = slot_key es q" for q
    using p len by (auto simp: occ_update clear_entry_def slot_key_def nth_list_update)
  have "keys_ok ?es cap"
    unfolding keys_ok_def o
  proof (intro conjI allI impI)
    fix q assume "q < cap" "q \<noteq> p \<and> occ es q"
    then show "e_key (?es ! q) = Some (slot_key ?es q)" "nul_free (slot_key ?es q)"
      using keys_okD(3,4) [OF k \<open>q < cap\<close>] s [of q] by auto
  next
    fix q r assume "q < cap" "r < cap"
      "(q \<noteq> p \<and> occ es q) \<and> (r \<noteq> p \<and> occ es r) \<and> slot_key ?es q = slot_key ?es r"
    then show "q = r" using keys_okD(5) [OF k, of q r] s(2) by metis
  qed (use len keys_okD(2) [OF k] in auto)
  moreover have "occ ?es x \<or> (x = p \<and> cdist cap p ((p + 1) mod cap) \<le> cdist cap p q)"
    if "q < cap" "occ ?es q" "x < cap" "cdist cap (home ?es cap q) x < cdist cap (home ?es cap q) q" for q x
  proof -
    have q: "q \<noteq> p" "occ es q" using that(2) o by auto
    have "occ es x" using probe_okD [OF pr that(1) q(2) that(3)] that(4) s(2) [OF q(1)] by (simp add: home_def)
    moreover have "1 \<le> cdist cap p q" using cdist_pos [OF p(1) that(1)] q(1) by simp
    moreover have "cdist cap p ((p + 1) mod cap) = 1"
      using next_slot [OF p(1)] \<open>1 < cap\<close> p(1) by (auto simp: cdist_def)
    ultimately show ?thesis using o by auto
  qed
  moreover have "(p + 1) mod cap \<noteq> p" "(p + 1) mod cap < cap"
    using next_slot [OF p(1)] \<open>1 < cap\<close> p(1) by auto
  ultimately show "gap_ok ?es cap p ((p + 1) mod cap)"
    using p(1) o unfolding gap_ok_def by metis
  show "(kk, v) \<in> set (alist_of ?es) \<longleftrightarrow> kk \<noteq> slot_key es p \<and> (kk, v) \<in> set (alist_of es)"
    unfolding in_alist_of length_list_update len o
    using s keys_okD(5) [OF k _ p(1) _ p(2)] by (metis (no_types, lifting))
  show "length (filter e_occupied ?es) = length (filter e_occupied es) - 1"
    using length_filter_update [of p es e_occupied clear_entry] p len by (simp add: clear_entry_def)
qed

lemma variable_map_erase_at_pos_ok:
  assumes inv: "vm_invar m" and p: "p < vm_capacity m" "occ (vm_entries m) p"
  shows "\<exists>m'. variable_map_erase_at_pos m p = Some m' \<and> vm_invar m' \<and>
    vm_lookup m' = (vm_lookup m)(slot_key (vm_entries m) p := None) \<and> vm_size m' = vm_size m - 1 \<and>
    vm_capacity m' = vm_capacity m"
proof -
  note i = vm_invarD [OF inv]
  let ?cap = "vm_capacity m" and ?es = "(vm_entries m)[p := clear_entry]"
  have cap: "1 < ?cap" using i(3) by simp
  note r = removed_slot [OF i(1,2) p cap]
  have "\<exists>u<?cap. \<not> occ (vm_entries m) u" using free_slot_of_invar [OF inv] .
  then obtain u where u: "u < ?cap" "\<not> occ (vm_entries m) u" "u \<noteq> p" using p by blast
  have "\<not> occ ?es u" "cdist ?cap p ((p + 1) mod ?cap) \<le> cdist ?cap p u"
    using u p i(4) cdist_pos [OF p(1) u(1)] next_slot [OF p(1)] cap
    by (auto simp: occ_update cdist_def)
  from backward_shift_ok [OF r(1) cap u(1) this(1) u(3) this(2)]
  obtain es' where es': "backward_shift ?es ?cap p ((p + 1) mod ?cap) = Some es'" "keys_ok es' ?cap"
      "probe_ok es' ?cap" "set (alist_of es') = set (alist_of ?es)"
      "length (filter e_occupied es') = length (filter e_occupied ?es)" by blast
  have "map_of (alist_of es') k = ((vm_lookup m)(slot_key (vm_entries m) p := None)) k" for k
  proof (rule option_eqI)
    fix v
    show "map_of (alist_of es') k = Some v \<longleftrightarrow> ((vm_lookup m)(slot_key (vm_entries m) p := None)) k = Some v"
      using alist_lookup_mem [OF es'(2), of k v] alist_lookup_mem [OF i(1), of k v] es'(4) r(2) [of k v]
      by (simp add: vm_lookup_def)
  qed
  then have "map_of (alist_of es') = (vm_lookup m)(slot_key (vm_entries m) p := None)" by blast
  then show ?thesis
    using p i es' r(3) by (simp add: variable_map_erase_at_pos_def backward_shift_deletion_def c_simps
      vm_invar_def vm_lookup_def VARIABLE_MAP_INITIAL_CAPACITY_def)
qed

lemma variable_map_erase_ok:
  assumes inv: "vm_invar m" and key: "nul_free key"
  shows "\<exists>m'. variable_map_erase m key = Some m' \<and> vm_invar m' \<and> vm_lookup m' = (vm_lookup m)(key := None) \<and>
    vm_size m' \<le> vm_size m \<and> vm_capacity m' = vm_capacity m"
proof (cases rule: variable_map_find_ok [OF inv key, case_names absent found])
  case absent
  then show ?thesis using inv by (auto simp: variable_map_erase_def fun_upd_idem)
next
  case (found p)
  then show ?thesis
    using variable_map_erase_at_pos_ok [OF inv found(2,3)] by (auto simp: variable_map_erase_def)
qed

lemma variable_map_extract_ok:
  assumes inv: "vm_invar m" and key: "nul_free key"
  shows "\<exists>m'. variable_map_extract m key = Some (m', vm_lookup m key) \<and> vm_invar m' \<and>
    vm_lookup m' = (vm_lookup m)(key := None)"
proof (cases rule: variable_map_find_ok [OF inv key, case_names absent found])
  case absent
  then show ?thesis using inv by (auto simp: variable_map_extract_def fun_upd_idem)
next
  case (found p)
  then show ?thesis
    using variable_map_erase_at_pos_ok [OF inv found(2,3)] vm_invarD(4) [OF inv]
    by (auto simp: variable_map_extract_def entry_at_def)
qed

lemma cleared_table_ok:
  assumes "16 \<le> cap"
  shows "vm_invar \<lparr>vm_entries = replicate cap clear_entry, vm_size = 0, vm_capacity = cap\<rparr>"
    "vm_lookup \<lparr>vm_entries = replicate cap clear_entry, vm_size = 0, vm_capacity = cap\<rparr> = Map.empty"
  using empty_table [of cap] assms
  by (auto simp: vm_invar_def vm_lookup_def VARIABLE_MAP_INITIAL_CAPACITY_def clear_entry_def)

lemma variable_map_clear_ok:
  assumes "vm_invar m"
  shows "vm_invar (variable_map_clear m) \<and> vm_lookup (variable_map_clear m) = Map.empty"
  using cleared_table_ok [OF vm_invarD(3) [OF assms]] vm_invarD(4) [OF assms]
  by (cases m) (simp add: variable_map_clear_def)

lemma variable_map_create_ok: "vm_invar variable_map_create" "vm_lookup variable_map_create = Map.empty"
  using cleared_table_ok [of 16] by (simp_all add: variable_map_create_def VARIABLE_MAP_INITIAL_CAPACITY_def)

subsection \<open>The variable map as an instance of the finite-map interface\<close>

definition variable_map_assign :: "variable_map \<Rightarrow> string \<Rightarrow> variable_map_mapped \<Rightarrow> variable_map option" where
  \<comment> \<open>\<open>variable_map_insert_or_assign\<close> by a caller that ignores the position\<close>
  "variable_map_assign m key mapped = map_option fst (variable_map_insert_or_assign m key mapped)"

interpretation vm: string_map variable_map_create variable_map_at variable_map_assign
  variable_map_erase vm_lookup vm_invar vm_reserve
proof unfold_locales
  fix m k n v assume "vm_invar m" "nul_free k" "vm_reserve (Suc n) m"
  then show "\<exists>m'. variable_map_assign m k v = Some m' \<and> vm_invar m' \<and>
      vm_lookup m' = (vm_lookup m)(k \<mapsto> v) \<and> vm_reserve n m'"
    using variable_map_insert_or_assign_ok [of m n k v] by (auto simp: variable_map_assign_def)
next
  fix m k n assume "vm_invar m" "nul_free k"
  then show "\<exists>m'. variable_map_erase m k = Some m' \<and> vm_invar m' \<and>
      vm_lookup m' = (vm_lookup m)(k := None) \<and> (vm_reserve n m \<longrightarrow> vm_reserve n m')"
    using variable_map_erase_ok [of m k] by (fastforce simp: vm_reserve_def)
qed (simp_all add: variable_map_create_ok variable_map_at_ok)

lemma erase_each_fold: "erase_each m ks = fold_opt (\<lambda>k m. variable_map_erase m k) ks m"
  by (induction ks arbitrary: m) (simp_all cong: Option.bind_cong)

lemma erase_each_ok:
  assumes "vm_invar m" "\<And>k. k \<in> set ks \<Longrightarrow> nul_free k"
  shows "\<exists>m'. erase_each m ks = Some m' \<and> vm_invar m' \<and> vm_lookup m' = vm_lookup m |` (- set ks)"
  using vm.remove_all [OF assms, of _ 0] by (auto simp: erase_each_fold)

text \<open>The entries in slot order, which is the order in which clients iterate.\<close>

lemma distinct_alist_keys: "keys_ok es cap \<Longrightarrow> distinct (map fst (alist_of es))"
  using keys_ok_distinct by (simp add: alist_of_def comp_def)

lemma alist_nul_free: "keys_ok es cap \<Longrightarrow> (k, v) \<in> set (alist_of es) \<Longrightarrow> nul_free k"
  using keys_okD(1,4) by (fastforce simp: in_alist_of)

lemma vm_reserve_create: "n \<le> 100000 \<Longrightarrow> vm_reserve n variable_map_create"
  by (simp add: vm_reserve_def variable_map_create_def VARIABLE_MAP_INITIAL_CAPACITY_def)

subsection \<open>Iteration visits the occupied slots in order\<close>

lemma skip_free_drop:
  "filter e_occupied (drop (skip_free es i) es) = filter e_occupied (drop i es) \<and>
   (skip_free es i < length es \<longrightarrow> occ es (skip_free es i)) \<and> (i \<le> length es \<longrightarrow> skip_free es i \<le> length es)"
proof (induction es i rule: skip_free.induct)
  case (1 es i)
  show ?case
  proof (cases "i < length es \<and> \<not> occ es i")
    case True
    then have "filter e_occupied (drop (i + 1) es) = filter e_occupied (drop i es)"
      by (simp add: Cons_nth_drop_Suc [symmetric])
    then show ?thesis using 1 True by (subst (1 2 3 4) skip_free.simps) simp
  next
    case False
    then show ?thesis by (subst (1 2 3 4) skip_free.simps) auto
  qed
qed

lemma variable_map_iterate_from:
  assumes len: "length (vm_entries m) = vm_capacity m"
    and i: "i \<le> vm_capacity m" "i < vm_capacity m \<longrightarrow> occ (vm_entries m) i"
  shows "variable_map_iterate m i body s = fold_opt body (filter e_occupied (drop i (vm_entries m))) s"
  using i
proof (induction "vm_capacity m - i" arbitrary: i s rule: less_induct)
  case less
  show ?case
  proof (cases "i = vm_capacity m")
    case True
    then show ?thesis
      using len by (subst variable_map_iterate.simps) (simp add: variable_map_end_def)
  next
    case False
    let ?j = "variable_map_iterator_increment m i"
    have i: "i < vm_capacity m" "occ (vm_entries m) i" using less.prems False by auto
    have j: "filter e_occupied (drop ?j (vm_entries m)) = filter e_occupied (drop (Suc i) (vm_entries m))"
      "i < ?j" "?j \<le> vm_capacity m" "?j < vm_capacity m \<longrightarrow> occ (vm_entries m) ?j"
      using skip_free_drop [of "vm_entries m" "i + 1"] skip_free_ge [of "i + 1" "vm_entries m"] i len
      by (auto simp: variable_map_iterator_increment_def)
    have d: "filter e_occupied (drop i (vm_entries m)) =
        vm_entries m ! i # filter e_occupied (drop (Suc i) (vm_entries m))"
      using i len by (simp add: Cons_nth_drop_Suc [symmetric])
    have "variable_map_iterate m ?j body = fold_opt body (filter e_occupied (drop (Suc i) (vm_entries m)))"
      by (rule ext) (use less.hyps [of ?j] j i in simp)
    then show ?thesis
      using i len False unfolding d
      by (subst variable_map_iterate.simps)
         (simp add: variable_map_end_def variable_map_iterator_deref_def entry_at_def)
  qed
qed

lemma variable_map_iterate_ok:
  "length (vm_entries m) = vm_capacity m \<Longrightarrow>
    variable_map_iterate m (variable_map_begin m) body s = fold_opt body (filter e_occupied (vm_entries m)) s"
  using skip_free_drop [of "vm_entries m" 0] variable_map_iterate_from [of m "variable_map_begin m" body s]
  by (auto simp: variable_map_begin_def)

end
