(* ===== verification/Variable_Store.thy ===== *)
theory Variable_Store
  imports Variable_Map_Proofs
begin

section \<open>The variable store (variable_store.c)\<close>

text \<open>
  The shell's variables with their validation rules, read-only and export attributes, and
  the cached environment array.  The character classes are those of the C locale (and of
  UTF-8 locales, where no byte above 127 is a letter).  \<open>generation\<close> counts modify the
  store modulo 2^32.  An environment array is the list of its strings; the cached parent
  pointer, which the code only ever sets to NULL, is the address or \<open>None\<close>.
\<close>

subsection \<open>State, limits and errors\<close>

definition MAX_VAR_NAME_LENGTH :: int where "MAX_VAR_NAME_LENGTH = 1024"
definition MAX_VAR_VALUE_LENGTH :: int where "MAX_VAR_VALUE_LENGTH = 128 * 1024"

datatype var_store_error =
    VAR_STORE_ERROR_NONE
  | VAR_STORE_ERROR_NOT_FOUND
  | VAR_STORE_ERROR_READ_ONLY
  | VAR_STORE_ERROR_EMPTY_NAME
  | VAR_STORE_ERROR_NAME_TOO_LONG
  | VAR_STORE_ERROR_NAME_STARTS_WITH_DIGIT
  | VAR_STORE_ERROR_NAME_INVALID_CHARACTER
  | VAR_STORE_ERROR_VALUE_TOO_LONG

record variable_store =
  vs_map :: variable_map
  vs_generation :: "32 word"
  vs_cached_generation :: "32 word"
  vs_cached_parent_gen :: "32 word"
  vs_cached_parent :: "nat option"
  vs_cached_envp :: "string list option"

record variable_view =
  view_name :: "string option"
  view_value :: "string option"
  view_exported :: bool
  view_read_only :: bool

subsection \<open>Validation\<close>

definition validate_variable_name :: "string \<Rightarrow> var_store_error" where
  "validate_variable_name name =
     (if name = [] then VAR_STORE_ERROR_EMPTY_NAME
      else let len = int (length name) in
      if len > MAX_VAR_NAME_LENGTH then VAR_STORE_ERROR_NAME_TOO_LONG
      else let ch = hd name in
      if len = 1 \<and> (ch = CHR ''?'' \<or> ch = CHR ''-'' \<or> ch = CHR ''$'' \<or> ch = CHR ''!'')
      then VAR_STORE_ERROR_NONE
      else if \<not> c_isalpha ch \<and> ch \<noteq> CHR ''_''
      then (if c_isdigit ch then VAR_STORE_ERROR_NAME_STARTS_WITH_DIGIT
            else VAR_STORE_ERROR_NAME_INVALID_CHARACTER)
      else if \<exists>c \<in> set (tl name). \<not> c_isalnum c \<and> c \<noteq> CHR ''_''
      then VAR_STORE_ERROR_NAME_INVALID_CHARACTER
      else VAR_STORE_ERROR_NONE)"

definition validate_variable_value :: "string option \<Rightarrow> var_store_error" where
  "validate_variable_value value =
     (case value of None \<Rightarrow> VAR_STORE_ERROR_NONE
      | Some v \<Rightarrow> if int (length v) > MAX_VAR_VALUE_LENGTH then VAR_STORE_ERROR_VALUE_TOO_LONG
                  else VAR_STORE_ERROR_NONE)"

subsection \<open>Construction and modification\<close>

definition find_entry :: "variable_store \<Rightarrow> string \<Rightarrow> variable_map_entry option option" where
  "find_entry store name =
     do { r \<leftarrow> variable_map_find (vs_map store) name;
          (case r of None \<Rightarrow> Some None
           | Some pos \<Rightarrow> do { e \<leftarrow> entry_at (vm_entries (vs_map store)) pos; Some (Some e) }) }"

definition variable_store_create :: variable_store where
  "variable_store_create = \<lparr>vs_map = variable_map_create, vs_generation = 0, vs_cached_generation = 0,
     vs_cached_parent_gen = 0, vs_cached_parent = None, vs_cached_envp = None\<rparr>"

definition variable_store_add ::
  "variable_store \<Rightarrow> string \<Rightarrow> string option \<Rightarrow> bool \<Rightarrow> bool \<Rightarrow> (variable_store \<times> var_store_error) option" where
  "variable_store_add store name value exported read_only =
     (let err = validate_variable_name name in
      if err \<noteq> VAR_STORE_ERROR_NONE then Some (store, err)
      else let err = validate_variable_value value in
      if err \<noteq> VAR_STORE_ERROR_NONE then Some (store, err)
      else do {
        existing \<leftarrow> find_entry store name;
        if (case existing of None \<Rightarrow> False | Some e \<Rightarrow> mm_read_only (e_mapped e))
        then Some (store, VAR_STORE_ERROR_READ_ONLY)
        else do {
          m \<leftarrow> variable_map_assign (vs_map store) name
                 \<lparr>mm_value = Some (case value of None \<Rightarrow> [] | Some v \<Rightarrow> v),
                  mm_exported = exported, mm_read_only = read_only\<rparr>;
          Some (store\<lparr>vs_map := m, vs_generation := vs_generation store + 1\<rparr>, VAR_STORE_ERROR_NONE) } })"

definition parse_env_cstr :: "string \<Rightarrow> (string \<times> string) option" where
  \<comment> \<open>\<open>None\<close> is the result false; the argument is a C string, so it holds no NUL\<close>
  "parse_env_cstr env_str =
     (if env_str = [] then None
      else if hd env_str = CHR ''='' then None
      else if CHR ''='' \<notin> set env_str then None
      else let name_len = length (takeWhile (\<lambda>c. c \<noteq> CHR ''='') env_str) in
      if int name_len > INT_MAX then None
      else let name = take name_len env_str; value = take (nat INT_MAX) (drop (name_len + 1) env_str) in
      if validate_variable_name name \<noteq> VAR_STORE_ERROR_NONE then None
      else if validate_variable_value (Some value) \<noteq> VAR_STORE_ERROR_NONE then None
      else Some (name, value))"

definition variable_store_add_env :: "variable_store \<Rightarrow> string \<Rightarrow> variable_store option" where
  "variable_store_add_env store env =
     (case parse_env_cstr env of None \<Rightarrow> Some store
      | Some (name, value) \<Rightarrow> map_option fst (variable_store_add store name (Some value) True False))"

definition variable_store_create_from_envp :: "string list option \<Rightarrow> variable_store option" where
  "variable_store_create_from_envp envp =
     (case envp of None \<Rightarrow> Some variable_store_create
      | Some envs \<Rightarrow> fold_opt (\<lambda>env store. variable_store_add_env store env) envs variable_store_create)"

definition add_entry :: "variable_map_entry \<Rightarrow> variable_store \<Rightarrow> variable_store option" where
  \<comment> \<open>the loop body of the copying operations\<close>
  "add_entry e store = do { key \<leftarrow> e_key e;
     map_option fst (variable_store_add store key (mm_value (e_mapped e)) (mm_exported (e_mapped e))
       (mm_read_only (e_mapped e))) }"

definition variable_store_clone :: "variable_store \<Rightarrow> variable_store option" where
  "variable_store_clone src =
     variable_map_iterate (vs_map src) (variable_map_begin (vs_map src)) add_entry variable_store_create"

definition variable_store_clone_exported :: "variable_store \<Rightarrow> variable_store option" where
  "variable_store_clone_exported src =
     variable_map_iterate (vs_map src) (variable_map_begin (vs_map src))
       (\<lambda>e clone. if mm_exported (e_mapped e) then add_entry e clone else Some clone) variable_store_create"

definition variable_store_copy_all :: "variable_store \<Rightarrow> variable_store \<Rightarrow> variable_store option" where
  "variable_store_copy_all dst src =
     fold_opt (\<lambda>e dst. if \<not> e_occupied e then Some dst else add_entry e dst) (vm_entries (vs_map src)) dst"

definition variable_store_clear :: "variable_store \<Rightarrow> variable_store" where
  "variable_store_clear store = store\<lparr>vs_map := variable_map_clear (vs_map store),
     vs_generation := vs_generation store + 1, vs_cached_generation := 0, vs_cached_parent_gen := 0,
     vs_cached_parent := None\<rparr>"

definition variable_store_remove :: "variable_store \<Rightarrow> string \<Rightarrow> variable_store option" where
  "variable_store_remove store name =
     do { m \<leftarrow> variable_map_erase (vs_map store) name;
          Some (store\<lparr>vs_map := m, vs_generation := vs_generation store + 1\<rparr>) }"

definition update_mapped :: "variable_store \<Rightarrow> nat \<Rightarrow> (variable_map_mapped \<Rightarrow> variable_map_mapped) \<Rightarrow> variable_store" where
  \<comment> \<open>a store through the pointer \<open>variable_map_data_at\<close> returns, and the new generation\<close>
  "update_mapped store pos f =
     store\<lparr>vs_map := (vs_map store)\<lparr>vm_entries := (vm_entries (vs_map store))
             [pos := (vm_entries (vs_map store) ! pos)
                \<lparr>e_mapped := f (e_mapped (vm_entries (vs_map store) ! pos))\<rparr>]\<rparr>,
           vs_generation := vs_generation store + 1\<rparr>"

definition variable_store_set_read_only ::
  "variable_store \<Rightarrow> string \<Rightarrow> bool \<Rightarrow> (variable_store \<times> var_store_error) option" where
  "variable_store_set_read_only store name read_only =
     do { r \<leftarrow> variable_map_find (vs_map store) name;
          (case r of None \<Rightarrow> Some (store, VAR_STORE_ERROR_NOT_FOUND)
           | Some pos \<Rightarrow> do {
               e \<leftarrow> entry_at (vm_entries (vs_map store)) pos;
               if mm_read_only (e_mapped e) \<and> \<not> read_only then Some (store, VAR_STORE_ERROR_READ_ONLY)
               else Some (update_mapped store pos (\<lambda>m. m\<lparr>mm_read_only := read_only\<rparr>), VAR_STORE_ERROR_NONE) }) }"

definition variable_store_set_exported ::
  "variable_store \<Rightarrow> string \<Rightarrow> bool \<Rightarrow> (variable_store \<times> var_store_error) option" where
  "variable_store_set_exported store name exported =
     do { r \<leftarrow> variable_map_find (vs_map store) name;
          (case r of None \<Rightarrow> Some (store, VAR_STORE_ERROR_NOT_FOUND)
           | Some pos \<Rightarrow> do {
               e \<leftarrow> entry_at (vm_entries (vs_map store)) pos;
               if mm_read_only (e_mapped e) then Some (store, VAR_STORE_ERROR_READ_ONLY)
               else Some (update_mapped store pos (\<lambda>m. m\<lparr>mm_exported := exported\<rparr>), VAR_STORE_ERROR_NONE) }) }"

subsection \<open>Queries\<close>

definition variable_store_has_name :: "variable_store \<Rightarrow> string \<Rightarrow> bool option" where
  "variable_store_has_name store name = variable_map_contains (vs_map store) name"

definition variable_store_get_variable :: "variable_store \<Rightarrow> string \<Rightarrow> (variable_view \<times> bool) option" where
  "variable_store_get_variable store name =
     do { entry \<leftarrow> find_entry store name;
          Some (case entry of
            None \<Rightarrow> (\<lparr>view_name = None, view_value = None, view_exported = False, view_read_only = False\<rparr>, False)
          | Some e \<Rightarrow> (\<lparr>view_name = e_key e, view_value = mm_value (e_mapped e),
                       view_exported = mm_exported (e_mapped e), view_read_only = mm_read_only (e_mapped e)\<rparr>, True)) }"

definition variable_store_get_value :: "variable_store \<Rightarrow> string \<Rightarrow> string option option" where
  "variable_store_get_value store name =
     do { entry \<leftarrow> find_entry store name;
          Some (case entry of None \<Rightarrow> None | Some e \<Rightarrow> mm_value (e_mapped e)) }"

definition variable_store_is_read_only :: "variable_store \<Rightarrow> string \<Rightarrow> bool option" where
  "variable_store_is_read_only store name =
     do { entry \<leftarrow> find_entry store name;
          Some (case entry of None \<Rightarrow> False | Some e \<Rightarrow> mm_read_only (e_mapped e)) }"

definition variable_store_is_exported :: "variable_store \<Rightarrow> string \<Rightarrow> bool option" where
  "variable_store_is_exported store name =
     do { entry \<leftarrow> find_entry store name;
          Some (case entry of None \<Rightarrow> False | Some e \<Rightarrow> mm_exported (e_mapped e)) }"

definition variable_store_get_value_length :: "variable_store \<Rightarrow> string \<Rightarrow> int option" where
  "variable_store_get_value_length store name =
     do { entry \<leftarrow> find_entry store name;
          Some (case entry of None \<Rightarrow> -1
                | Some e \<Rightarrow> (case mm_value (e_mapped e) of None \<Rightarrow> 0 | Some v \<Rightarrow> int (length v))) }"

fun for_each_entry ::
  "(string \<Rightarrow> string option \<Rightarrow> bool \<Rightarrow> bool \<Rightarrow> 's \<Rightarrow> 's) \<Rightarrow> variable_map_entry list \<Rightarrow> 's \<Rightarrow> 's option" where
  "for_each_entry fn [] s = Some s"
| "for_each_entry fn (e # es) s =
     (if e_occupied e
      then do { key \<leftarrow> e_key e;
                for_each_entry fn es (fn key (mm_value (e_mapped e)) (mm_exported (e_mapped e)) (mm_read_only (e_mapped e)) s) }
      else for_each_entry fn es s)"

definition variable_store_for_each ::
  "variable_store \<Rightarrow> (string \<Rightarrow> string option \<Rightarrow> bool \<Rightarrow> bool \<Rightarrow> 's \<Rightarrow> 's) \<Rightarrow> 's \<Rightarrow> 's option" where
  \<comment> \<open>\<open>'s\<close> is the state behind \<open>user_data\<close>\<close>
  "variable_store_for_each store fn s = for_each_entry fn (vm_entries (vs_map store)) s"

subsection \<open>The environment array\<close>

definition make_env_cstr :: "string \<Rightarrow> string option \<Rightarrow> string option" where
  \<comment> \<open>the bytes before the terminator that the function writes\<close>
  "make_env_cstr name value =
     (let name_len = int (length name);
          value_len = (case value of None \<Rightarrow> 0 | Some v \<Rightarrow> int (length v)) in
      do { t \<leftarrow> c_int (name_len + 1);
           t \<leftarrow> c_int (t + value_len);
           total_len \<leftarrow> c_int (t + 1);
           Some (name @ CHR ''='' # (case value of None \<Rightarrow> [] | Some v \<Rightarrow> v)) })"

definition envp_cache_valid :: "variable_store \<Rightarrow> (nat \<times> variable_store) option \<Rightarrow> bool" where
  \<comment> \<open>a parent is its address and its contents\<close>
  "envp_cache_valid store parent =
     (if vs_cached_envp store = None then False
      else if vs_cached_generation store \<noteq> vs_generation store then False
      else if vs_cached_parent store \<noteq> map_option fst parent then False
      else (case parent of None \<Rightarrow> True
            | Some (_, p) \<Rightarrow> vs_cached_parent_gen store = vs_generation p))"

fun build_envp :: "variable_map_entry list \<Rightarrow> nat \<Rightarrow> string list \<Rightarrow> string list option" where
  \<comment> \<open>fills the array of \<open>max_count + 1\<close> pointers, whose last must remain for the NULL\<close>
  "build_envp [] max_count envs = Some envs"
| "build_envp (e # es) max_count envs =
     (if e_occupied e \<and> mm_exported (e_mapped e)
      then if length envs < max_count
           then do { key \<leftarrow> e_key e;
                     env \<leftarrow> make_env_cstr key (mm_value (e_mapped e));
                     build_envp es max_count (envs @ [env]) }
           else None
      else build_envp es max_count envs)"

definition variable_store_get_envp :: "variable_store \<Rightarrow> (variable_store \<times> string list) option" where
  "variable_store_get_envp store =
     (if envp_cache_valid store None then do { envs \<leftarrow> vs_cached_envp store; Some (store, envs) }
      else do {
        envs \<leftarrow> build_envp (vm_entries (vs_map store)) (vm_size (vs_map store)) [];
        Some (store\<lparr>vs_cached_envp := Some envs, vs_cached_generation := vs_generation store,
                vs_cached_parent := None, vs_cached_parent_gen := 0\<rparr>, envs) })"

subsection \<open>Mapping a callback over the store\<close>

datatype var_store_map_action =
    VAR_STORE_MAP_ACTION_SKIP
  | VAR_STORE_MAP_ACTION_UPDATE
  | VAR_STORE_MAP_ACTION_REMOVE

text \<open>
  The callback receives copies of the name and the value; what it returns besides the action
  is what the two strings and the two flags hold afterwards.  A value that is NULL stays
  NULL, as the callback gets the pointer by value.  \<open>'s\<close> is the state behind \<open>user_data\<close>.
\<close>

type_synonym 's map_fn = "string \<Rightarrow> string option \<Rightarrow> bool \<Rightarrow> bool \<Rightarrow> 's \<Rightarrow>
  var_store_map_action \<times> string \<times> string \<times> bool \<times> bool \<times> 's"

text \<open>The renames to come: the new names with their flags, and the parallel list of values, to
  which \<open>strlist_move_push_back\<close> does not add a NULL.\<close>

type_synonym renames = "(string \<times> bool \<times> bool) list \<times> string list"

definition push_rename :: "renames \<Rightarrow> string \<Rightarrow> string option \<Rightarrow> bool \<Rightarrow> bool \<Rightarrow> renames" where
  "push_rename rs name value exported read_only = (case rs of (names, vals) \<Rightarrow>
     (names @ [(name, exported, read_only)], (case value of None \<Rightarrow> vals | Some v \<Rightarrow> vals @ [v])))"

fun map_loop :: "'s map_fn \<Rightarrow> variable_map_entry list \<Rightarrow> string list \<Rightarrow> renames \<Rightarrow> 's \<Rightarrow>
    (variable_map_entry list \<times> (var_store_error \<times> string \<times> 's + string list \<times> renames \<times> 's)) option" where
  \<comment> \<open>\<open>Inl\<close> is the jump to \<open>cleanup\<close>, which leaves the remaining entries alone\<close>
  "map_loop fn [] removes renames s = Some ([], Inr (removes, renames, s))"
| "map_loop fn (e # es) removes renames s =
     (if \<not> e_occupied e then map_option (apfst ((#) e)) (map_loop fn es removes renames s)
      else do {
        key \<leftarrow> e_key e;
        let (action, name, v, exported, read_only, s) =
              fn key (mm_value (e_mapped e)) (mm_exported (e_mapped e)) (mm_read_only (e_mapped e)) s;
        let value = map_option (\<lambda>_. v) (mm_value (e_mapped e));
        (case action of
           VAR_STORE_MAP_ACTION_SKIP \<Rightarrow> map_option (apfst ((#) e)) (map_loop fn es removes renames s)
         | VAR_STORE_MAP_ACTION_REMOVE \<Rightarrow>
             map_option (apfst ((#) e)) (map_loop fn es (removes @ [key]) renames s)
         | VAR_STORE_MAP_ACTION_UPDATE \<Rightarrow>
             if validate_variable_name name \<noteq> VAR_STORE_ERROR_NONE
             then Some (e # es, Inl (validate_variable_name name, key, s))
             else if validate_variable_value value \<noteq> VAR_STORE_ERROR_NONE
             then Some (e # es, Inl (validate_variable_value value, key, s))
             else if name \<noteq> key
             then map_option (apfst ((#) e))
                    (map_loop fn es (removes @ [key]) (push_rename renames name value exported read_only) s)
             else map_option (apfst ((#)
                      (e\<lparr>e_mapped := \<lparr>mm_value = value, mm_exported = exported, mm_read_only = read_only\<rparr>\<rparr>)))
                    (map_loop fn es removes renames s)) })"

fun insert_renames :: "(string \<times> bool \<times> bool) list \<Rightarrow> string list \<Rightarrow> variable_map \<Rightarrow> variable_map option" where
  \<comment> \<open>past the end of the values \<open>strlist_at\<close> is NULL, which \<open>string_create_from\<close> does not accept\<close>
  "insert_renames [] vals m = Some m"
| "insert_renames ((name, exported, read_only) # names) [] m = None"
| "insert_renames ((name, exported, read_only) # names) (v # vals) m =
     do { m \<leftarrow> variable_map_assign m name
            \<lparr>mm_value = Some v, mm_exported = exported, mm_read_only = read_only\<rparr>;
          insert_renames names vals m }"

definition variable_store_map :: "variable_store \<Rightarrow> 's map_fn \<Rightarrow> 's \<Rightarrow>
    (variable_store \<times> var_store_error \<times> string option \<times> 's) option" where
  "variable_store_map store fn s =
     do { (es, r) \<leftarrow> map_loop fn (vm_entries (vs_map store)) [] ([], []) s;
          let m = (vs_map store)\<lparr>vm_entries := es\<rparr>;
          (case r of
             Inl (err, failed_name, s) \<Rightarrow> Some (store\<lparr>vs_map := m\<rparr>, err, Some failed_name, s)
           | Inr (removes, renames, s) \<Rightarrow> do {
               m \<leftarrow> (if removes = [] then Some m else variable_map_erase_multiple m removes);
               m \<leftarrow> insert_renames (fst renames) (snd renames) m;
               Some (store\<lparr>vs_map := m, vs_generation := vs_generation store + 1\<rparr>,
                     VAR_STORE_ERROR_NONE, None, s) }) }"

end
