(* ===== verification/Variable_Store_Proofs.thy ===== *)
theory Variable_Store_Proofs
  imports Variable_Store
begin

section \<open>Correctness of the variable store\<close>

text \<open>
  The store is a finite map from valid names to values with attributes, over the interface
  of the variable map; its cached environment array is coherent as long as the generation
  counter has not wrapped.
\<close>

subsection \<open>Valid names\<close>

lemma valid_name_chars:
  assumes "validate_variable_name name = VAR_STORE_ERROR_NONE" "c \<in> set name"
  shows "c_isalnum c \<or> c \<in> {CHR ''_'', CHR ''?'', CHR ''-'', CHR ''$'', CHR ''!''}"
  using assms by (cases name) (auto simp: validate_variable_name_def Let_def c_isalnum_def split: if_splits)

lemma not_alnum [simp]: "\<not> c_isalnum NUL" "\<not> c_isalnum CHR ''=''"
  by (simp_all add: c_isalnum_def c_isalpha_def c_isdigit_def)

lemma valid_name:
  assumes "validate_variable_name name = VAR_STORE_ERROR_NONE"
  shows "nul_free name" "CHR ''='' \<notin> set name" "name \<noteq> []" "int (length name) \<le> MAX_VAR_NAME_LENGTH"
proof -
  show "nul_free name" using valid_name_chars [OF assms, of NUL] by (auto simp: nul_free_def)
  show "CHR ''='' \<notin> set name" using valid_name_chars [OF assms, of "CHR ''=''"] by auto
  show "name \<noteq> []" "int (length name) \<le> MAX_VAR_NAME_LENGTH"
    using assms by (auto simp: validate_variable_name_def Let_def split: if_splits)
qed

lemma valid_value: "validate_variable_value (Some v) = VAR_STORE_ERROR_NONE \<longleftrightarrow> int (length v) \<le> MAX_VAR_VALUE_LENGTH"
  "validate_variable_value None = VAR_STORE_ERROR_NONE"
  by (simp_all add: validate_variable_value_def)

subsection \<open>The abstraction and the invariant\<close>

definition vs_lookup :: "variable_store \<Rightarrow> string \<rightharpoonup> variable_map_mapped" where
  "vs_lookup store = vm_lookup (vs_map store)"

definition valid_binding :: "string \<Rightarrow> variable_map_mapped \<Rightarrow> bool" where
  "valid_binding name m \<longleftrightarrow> validate_variable_name name = VAR_STORE_ERROR_NONE \<and>
     mm_value m \<noteq> None \<and> validate_variable_value (mm_value m) = VAR_STORE_ERROR_NONE"

definition env_string :: "variable_map_entry \<Rightarrow> string" where
  "env_string e = the (e_key e) @ CHR ''='' # the (mm_value (e_mapped e))"

definition exported_env :: "variable_map \<Rightarrow> string list" where
  "exported_env m = map env_string (filter (\<lambda>e. e_occupied e \<and> mm_exported (e_mapped e)) (vm_entries m))"

definition cache_ok :: "variable_store \<Rightarrow> bool" where
  "cache_ok store \<longleftrightarrow> (\<forall>envs. vs_cached_envp store = Some envs \<longrightarrow>
     unat (vs_cached_generation store) \<le> unat (vs_generation store) \<and>
     (vs_cached_generation store = vs_generation store \<and> vs_cached_parent store = None \<longrightarrow>
        envs = exported_env (vs_map store)))"

definition vs_invar :: "variable_store \<Rightarrow> bool" where
  "vs_invar store \<longleftrightarrow> vm_invar (vs_map store) \<and>
     (\<forall>k m. vs_lookup store k = Some m \<longrightarrow> valid_binding k m) \<and> cache_ok store"

definition vs_room :: "nat \<Rightarrow> variable_store \<Rightarrow> bool" where
  \<comment> \<open>\<open>n\<close> more modifications overflow no table index and do not wrap the generation\<close>
  "vs_room n store \<longleftrightarrow> vm_reserve n (vs_map store) \<and> unat (vs_generation store) + n < 2 ^ 32"

lemma generation_step: "unat (g :: 32 word) + Suc n < 2 ^ 32 \<Longrightarrow> unat (g + 1) = unat g + 1"
  using unat_add_lem [of g 1] by simp

lemma cache_ok_modify:
  assumes "cache_ok store" "unat (vs_generation store) + Suc n < 2 ^ 32"
    and "vs_generation store' = vs_generation store + 1" "vs_cached_envp store' = vs_cached_envp store"
    and "vs_cached_generation store' = vs_cached_generation store \<or> vs_cached_generation store' = 0"
  shows "cache_ok store'"
proof -
  have g: "unat (vs_generation store') = unat (vs_generation store) + 1"
    using generation_step assms(2,3) by simp
  have "unat (vs_cached_generation store') < unat (vs_generation store')" if "vs_cached_envp store = Some envs" for envs
    using assms(1,5) that g by (auto simp: cache_ok_def)
  then show ?thesis using assms(4) unfolding cache_ok_def by fastforce
qed

lemma find_entry_ok:
  assumes "vs_invar store" "nul_free name"
  obtains (absent) "find_entry store name = Some None" "vs_lookup store name = None"
  | (found) e where "find_entry store name = Some (Some e)" "vs_lookup store name = Some (e_mapped e)"
      "e_key e = Some name"
proof -
  have inv: "vm_invar (vs_map store)" using assms by (simp add: vs_invar_def)
  note i = vm_invarD [OF inv]
  show thesis
  proof (cases rule: variable_map_find_ok [OF inv assms(2), case_names absent found])
    case absent
    then show thesis using that(1) by (simp add: find_entry_def vs_lookup_def)
  next
    case (found p)
    then show thesis
      using that(2) [of "vm_entries (vs_map store) ! p"] keys_okD(3) [OF i(1) found(2,3)] i(4)
      by (simp add: find_entry_def vs_lookup_def entry_at_def)
  qed
qed

subsection \<open>Modification\<close>

definition add_error :: "variable_store \<Rightarrow> string \<Rightarrow> string option \<Rightarrow> var_store_error" where
  \<comment> \<open>what \<open>variable_store_add\<close> answers\<close>
  "add_error store name value =
     (if validate_variable_name name \<noteq> VAR_STORE_ERROR_NONE then validate_variable_name name
      else if validate_variable_value value \<noteq> VAR_STORE_ERROR_NONE then validate_variable_value value
      else if case vs_lookup store name of None \<Rightarrow> False | Some m \<Rightarrow> mm_read_only m
      then VAR_STORE_ERROR_READ_ONLY
      else VAR_STORE_ERROR_NONE)"

definition binding :: "string option \<Rightarrow> bool \<Rightarrow> bool \<Rightarrow> variable_map_mapped" where
  "binding value exported read_only =
     \<lparr>mm_value = Some (case value of None \<Rightarrow> [] | Some v \<Rightarrow> v), mm_exported = exported, mm_read_only = read_only\<rparr>"

lemma variable_store_add_ok:
  assumes inv: "vs_invar store" and room: "vs_room (Suc n) store"
  shows "\<exists>store'. variable_store_add store name value exported read_only = Some (store', add_error store name value) \<and>
    vs_invar store' \<and> vs_room n store' \<and>
    (if add_error store name value = VAR_STORE_ERROR_NONE
     then vs_lookup store' = (vs_lookup store)(name \<mapsto> binding value exported read_only) \<and>
       vs_generation store' = vs_generation store + 1
     else store' = store)"
proof (cases "add_error store name value = VAR_STORE_ERROR_NONE")
  case False
  have "variable_store_add store name value exported read_only = Some (store, add_error store name value)"
  proof (cases "validate_variable_name name = VAR_STORE_ERROR_NONE \<and> validate_variable_value value = VAR_STORE_ERROR_NONE")
    case True
    then obtain m where "vs_lookup store name = Some m" "mm_read_only m"
      using False by (auto simp: add_error_def split: if_splits option.splits)
    then show ?thesis
      using True by (cases rule: find_entry_ok [OF inv valid_name(1), of name])
        (auto simp: variable_store_add_def add_error_def)
  next
    case False
    then show ?thesis by (auto simp: variable_store_add_def add_error_def Let_def)
  qed
  then show ?thesis using False inv room by (auto simp: vs_room_def vm_reserve_def)
next
  case True
  then have v: "validate_variable_name name = VAR_STORE_ERROR_NONE"
      "validate_variable_value value = VAR_STORE_ERROR_NONE"
    and ro: "\<And>m. vs_lookup store name = Some m \<Longrightarrow> \<not> mm_read_only m"
    by (auto simp: add_error_def split: if_splits option.splits)
  have i: "vm_invar (vs_map store)" "vm_reserve (Suc n) (vs_map store)"
    using inv room by (simp_all add: vs_invar_def vs_room_def)
  obtain m where m: "variable_map_assign (vs_map store) name (binding value exported read_only) = Some m"
      "vm_invar m" "vm_lookup m = (vm_lookup (vs_map store))(name \<mapsto> binding value exported read_only)" "vm_reserve n m"
    using vm.assign_law [OF i(1) valid_name(1) [OF v(1)] i(2)] by blast
  let ?s = "store\<lparr>vs_map := m, vs_generation := vs_generation store + 1\<rparr>"
  have run: "variable_store_add store name value exported read_only = Some (?s, VAR_STORE_ERROR_NONE)"
    using v ro m(1) by (cases rule: find_entry_ok [OF inv valid_name(1) [OF v(1)]])
      (auto simp: variable_store_add_def binding_def)
  have "valid_binding name (binding value exported read_only)"
    using v by (auto simp: valid_binding_def binding_def valid_value MAX_VAR_VALUE_LENGTH_def split: option.splits)
  moreover have "cache_ok ?s"
    using cache_ok_modify [of store n ?s] inv room by (simp add: vs_invar_def vs_room_def)
  ultimately have "vs_invar ?s" using inv m by (simp add: vs_invar_def vs_lookup_def)
  moreover have "vs_room n ?s"
    using m(4) room generation_step [of "vs_generation store" n] by (simp add: vs_room_def)
  ultimately show ?thesis using run True m(3) by (simp add: vs_lookup_def)
qed

lemma variable_store_remove_ok:
  assumes inv: "vs_invar store" and room: "vs_room (Suc n) store" and name: "nul_free name"
  shows "\<exists>store'. variable_store_remove store name = Some store' \<and> vs_invar store' \<and> vs_room n store' \<and>
    vs_lookup store' = (vs_lookup store)(name := None)"
proof -
  have i: "vm_invar (vs_map store)" using inv by (simp add: vs_invar_def)
  obtain m where m: "variable_map_erase (vs_map store) name = Some m" "vm_invar m"
      "vm_lookup m = (vm_lookup (vs_map store))(name := None)" "vm_reserve n (vs_map store) \<longrightarrow> vm_reserve n m"
    using vm.remove_law [OF i name, of n] by blast
  let ?s = "store\<lparr>vs_map := m, vs_generation := vs_generation store + 1\<rparr>"
  have "cache_ok ?s"
    using cache_ok_modify [of store n ?s] inv room by (simp add: vs_invar_def vs_room_def)
  then have "vs_invar ?s" using inv m by (simp add: vs_invar_def vs_lookup_def)
  moreover have "vm_reserve n (vs_map store)" using room by (simp add: vs_room_def vm_reserve_def)
  ultimately show ?thesis
    using m room generation_step [of "vs_generation store" n]
    by (simp add: variable_store_remove_def vs_lookup_def vs_room_def)
qed

lemma variable_store_create_ok: "vs_invar variable_store_create" "vs_lookup variable_store_create = Map.empty"
  "n \<le> 100000 \<Longrightarrow> vs_room n variable_store_create"
  using variable_map_create_ok vm_reserve_create [of n]
  by (simp_all add: variable_store_create_def vs_invar_def vs_lookup_def cache_ok_def vs_room_def)

lemma variable_store_clear_ok:
  assumes "vs_invar store" "vs_room (Suc n) store"
  shows "vs_invar (variable_store_clear store)" "vs_lookup (variable_store_clear store) = Map.empty"
  using assms variable_map_clear_ok [of "vs_map store"]
    cache_ok_modify [of store n "variable_store_clear store"]
  by (auto simp: variable_store_clear_def vs_invar_def vs_lookup_def vs_room_def)

subsection \<open>Attributes\<close>

lemma update_mapped_ok:
  assumes inv: "vs_invar store" and room: "vs_room (Suc n) store"
    and p: "p < vm_capacity (vs_map store)" "occ (vm_entries (vs_map store)) p"
      "slot_key (vm_entries (vs_map store)) p = name" "e_mapped (vm_entries (vs_map store) ! p) = b"
    and f: "\<And>b. mm_value (f b) = mm_value b"
  shows "vs_invar (update_mapped store p f)" "vs_room n (update_mapped store p f)"
    "vs_lookup (update_mapped store p f) = (vs_lookup store)(name \<mapsto> f b)"
proof -
  have i: "vm_invar (vs_map store)" using inv by (simp add: vs_invar_def)
  note ii = vm_invarD [OF i]
  note a = assign_slot [OF ii(1,2) p(1,2) refl, of "f b"]
  show l: "vs_lookup (update_mapped store p f) = (vs_lookup store)(name \<mapsto> f b)"
    using a(3) p(3,4) by (simp add: vs_lookup_def vm_lookup_def update_mapped_def)
  have "vs_lookup store name = Some b"
    unfolding vs_lookup_def vm_lookup_def alist_lookup_Some [OF ii(1)] using p by blast
  then have "valid_binding name b" using inv by (simp add: vs_invar_def)
  then have "valid_binding name (f b)" using f by (simp add: valid_binding_def)
  moreover have "cache_ok (update_mapped store p f)"
    using cache_ok_modify [of store n "update_mapped store p f"] inv room
    by (simp add: vs_invar_def vs_room_def update_mapped_def)
  moreover have "vm_invar (vs_map (update_mapped store p f))"
    using i a(1,2,4) p(4) by (simp add: vm_invar_def update_mapped_def)
  ultimately show "vs_invar (update_mapped store p f)"
    using inv unfolding vs_invar_def l by simp
  show "vs_room n (update_mapped store p f)"
    using room generation_step [of "vs_generation store" n]
    by (simp add: vs_room_def vm_reserve_def update_mapped_def)
qed

definition set_read_only_error :: "variable_store \<Rightarrow> string \<Rightarrow> bool \<Rightarrow> var_store_error" where
  "set_read_only_error store name ro = (case vs_lookup store name of None \<Rightarrow> VAR_STORE_ERROR_NOT_FOUND
     | Some m \<Rightarrow> if mm_read_only m \<and> \<not> ro then VAR_STORE_ERROR_READ_ONLY else VAR_STORE_ERROR_NONE)"

definition set_exported_error :: "variable_store \<Rightarrow> string \<Rightarrow> var_store_error" where
  "set_exported_error store name = (case vs_lookup store name of None \<Rightarrow> VAR_STORE_ERROR_NOT_FOUND
     | Some m \<Rightarrow> if mm_read_only m then VAR_STORE_ERROR_READ_ONLY else VAR_STORE_ERROR_NONE)"

lemma attribute_ok:
  assumes inv: "vs_invar store" and room: "vs_room (Suc n) store" and name: "nul_free name"
    and f: "\<And>b. mm_value (f b) = mm_value b"
    and step: "step = do { r \<leftarrow> variable_map_find (vs_map store) name;
          (case r of None \<Rightarrow> Some (store, VAR_STORE_ERROR_NOT_FOUND)
           | Some pos \<Rightarrow> do {
               e \<leftarrow> entry_at (vm_entries (vs_map store)) pos;
               if blocked (e_mapped e) then Some (store, VAR_STORE_ERROR_READ_ONLY)
               else Some (update_mapped store pos f, VAR_STORE_ERROR_NONE) }) }"
    and err: "err = (case vs_lookup store name of None \<Rightarrow> VAR_STORE_ERROR_NOT_FOUND
     | Some m \<Rightarrow> if blocked m then VAR_STORE_ERROR_READ_ONLY else VAR_STORE_ERROR_NONE)"
  shows "\<exists>store'. step = Some (store', err) \<and> vs_invar store' \<and> vs_room n store' \<and>
    (if err = VAR_STORE_ERROR_NONE
     then vs_lookup store' = (vs_lookup store)(name \<mapsto> f (the (vs_lookup store name))) else store' = store)"
proof -
  have i: "vm_invar (vs_map store)" using inv by (simp add: vs_invar_def)
  have room': "vs_room n store" using room by (auto simp: vs_room_def vm_reserve_def)
  show ?thesis
  proof (cases rule: variable_map_find_ok [OF i name, case_names absent found])
    case absent
    then show ?thesis using inv room' by (simp add: step err vs_lookup_def)
  next
    case (found p)
    note u = update_mapped_ok [OF inv room found(2,3,4) refl f]
    have e: "entry_at (vm_entries (vs_map store)) p = Some (vm_entries (vs_map store) ! p)"
      using found(2) vm_invarD(4) [OF i] by (simp add: entry_at_def)
    show ?thesis
      using found(1,5) u e inv room' by (simp add: step err vs_lookup_def)
  qed
qed

lemma variable_store_set_read_only_ok:
  assumes "vs_invar store" "vs_room (Suc n) store" "nul_free name"
  shows "\<exists>store'. variable_store_set_read_only store name ro = Some (store', set_read_only_error store name ro) \<and>
    vs_invar store' \<and> vs_room n store' \<and>
    (if set_read_only_error store name ro = VAR_STORE_ERROR_NONE
     then vs_lookup store' = (vs_lookup store)(name \<mapsto> (the (vs_lookup store name))\<lparr>mm_read_only := ro\<rparr>)
     else store' = store)"
  by (rule attribute_ok [OF assms, where f = "\<lambda>m. m\<lparr>mm_read_only := ro\<rparr>" and blocked = "\<lambda>m. mm_read_only m \<and> \<not> ro"])
     (simp_all add: variable_store_set_read_only_def set_read_only_error_def)

lemma variable_store_set_exported_ok:
  assumes "vs_invar store" "vs_room (Suc n) store" "nul_free name"
  shows "\<exists>store'. variable_store_set_exported store name ex = Some (store', set_exported_error store name) \<and>
    vs_invar store' \<and> vs_room n store' \<and>
    (if set_exported_error store name = VAR_STORE_ERROR_NONE
     then vs_lookup store' = (vs_lookup store)(name \<mapsto> (the (vs_lookup store name))\<lparr>mm_exported := ex\<rparr>)
     else store' = store)"
  by (rule attribute_ok [OF assms, where f = "\<lambda>m. m\<lparr>mm_exported := ex\<rparr>" and blocked = mm_read_only])
     (simp_all add: variable_store_set_exported_def set_exported_error_def)

subsection \<open>Environment strings\<close>

lemma takeWhile_name: "CHR ''='' \<notin> set name \<Longrightarrow> takeWhile (\<lambda>c. c \<noteq> CHR ''='') (name @ CHR ''='' # r) = name"
  by (induction name) auto

lemma parse_env_string:
  assumes "validate_variable_name name = VAR_STORE_ERROR_NONE"
    and "validate_variable_value (Some v) = VAR_STORE_ERROR_NONE"
  shows "parse_env_cstr (name @ CHR ''='' # v) = Some (name, v)"
proof -
  note n = valid_name [OF assms(1)]
  have "hd (name @ CHR ''='' # v) \<noteq> CHR ''=''" using n(2,3) by (cases name) auto
  moreover have "take (nat INT_MAX) v = v" using assms(2) by (simp add: valid_value MAX_VAR_VALUE_LENGTH_def)
  ultimately show ?thesis
    using assms n by (simp add: parse_env_cstr_def takeWhile_name MAX_VAR_NAME_LENGTH_def Let_def)
qed

lemma make_env_cstr_ok:
  assumes "valid_binding name m"
  shows "make_env_cstr name (mm_value m) = Some (name @ CHR ''='' # the (mm_value m))"
  using assms valid_name(4) [of name]
  by (auto simp: valid_binding_def make_env_cstr_def valid_value c_int_eval
      MAX_VAR_NAME_LENGTH_def MAX_VAR_VALUE_LENGTH_def)

lemma entry_binding:
  assumes inv: "vs_invar store" and e: "e \<in> set (vm_entries (vs_map store))" "e_occupied e"
  shows "\<exists>k. e_key e = Some k \<and> vs_lookup store k = Some (e_mapped e) \<and> valid_binding k (e_mapped e)"
proof -
  note i = vm_invarD [OF inv [unfolded vs_invar_def, THEN conjunct1]]
  obtain p where p: "p < vm_capacity (vs_map store)" "vm_entries (vs_map store) ! p = e"
    using e(1) i(4) by (auto simp: in_set_conv_nth)
  let ?k = "slot_key (vm_entries (vs_map store)) p"
  have "vs_lookup store ?k = Some (e_mapped e)"
    unfolding vs_lookup_def vm_lookup_def alist_lookup_Some [OF i(1)] using p e(2) by blast
  moreover from this have "valid_binding ?k (e_mapped e)" using inv by (simp add: vs_invar_def)
  moreover have "e_key e = Some ?k" using keys_okD(3) [OF i(1) p(1)] p(2) e(2) by simp
  ultimately show ?thesis by blast
qed

lemma build_envp_ok:
  assumes "\<And>e. e \<in> set es \<Longrightarrow> e_occupied e \<Longrightarrow> \<exists>k. e_key e = Some k \<and> valid_binding k (e_mapped e)"
    and "length envs + length (filter e_occupied es) \<le> max_count"
  shows "build_envp es max_count envs =
    Some (envs @ map env_string (filter (\<lambda>e. e_occupied e \<and> mm_exported (e_mapped e)) es))"
  using assms
proof (induction es arbitrary: envs)
  case (Cons e es)
  have IH: "length envs' + length (filter e_occupied es) \<le> max_count \<Longrightarrow> build_envp es max_count envs' =
    Some (envs' @ map env_string (filter (\<lambda>e. e_occupied e \<and> mm_exported (e_mapped e)) es))" for envs'
    using Cons.IH [of envs'] Cons.prems(1) by simp
  show ?case
  proof (cases "e_occupied e \<and> mm_exported (e_mapped e)")
    case True
    then obtain k where "e_key e = Some k" "valid_binding k (e_mapped e)" using Cons.prems(1) [of e] by auto
    then show ?thesis
      using True Cons.prems(2) IH [of "envs @ [env_string e]"] make_env_cstr_ok [of k "e_mapped e"]
      by (simp add: env_string_def)
  next
    case False
    moreover have "length envs + length (filter e_occupied es) \<le> max_count"
      using Cons.prems(2) by (simp split: if_splits)
    ultimately show ?thesis using IH [of envs] by (auto simp del: build_envp.simps simp: build_envp.simps(2))
  qed
qed simp

lemma variable_store_get_envp_ok:
  assumes inv: "vs_invar store"
  shows "\<exists>store'. variable_store_get_envp store = Some (store', exported_env (vs_map store)) \<and>
    vs_invar store' \<and> vs_map store' = vs_map store \<and> vs_generation store' = vs_generation store \<and>
    variable_store_get_envp store' = Some (store', exported_env (vs_map store))"
proof -
  note i = vm_invarD [OF inv [unfolded vs_invar_def, THEN conjunct1]]
  have b: "build_envp (vm_entries (vs_map store)) (vm_size (vs_map store)) [] = Some (exported_env (vs_map store))"
    using build_envp_ok [of "vm_entries (vs_map store)" "[]" "vm_size (vs_map store)"] entry_binding [OF inv] i(5)
    by (fastforce simp: exported_env_def)
  show ?thesis
  proof (cases "envp_cache_valid store None")
    case True
    then show ?thesis
      using inv by (auto simp: variable_store_get_envp_def envp_cache_valid_def vs_invar_def cache_ok_def split: if_splits)
  next
    case False
    then show ?thesis
      using inv b by (simp add: variable_store_get_envp_def envp_cache_valid_def vs_invar_def cache_ok_def vs_lookup_def)
  qed
qed

subsection \<open>Copying stores\<close>

definition add_all :: "(string \<times> variable_map_mapped) list \<Rightarrow> variable_store \<Rightarrow> variable_store option" where
  "add_all = fold_opt (\<lambda>(k, m) s.
     map_option fst (variable_store_add s k (mm_value m) (mm_exported m) (mm_read_only m)))"

lemma add_all_simps [simp]: "add_all [] s = Some s"
  "add_all ((k, m) # kvs) s = do {
     s \<leftarrow> map_option fst (variable_store_add s k (mm_value m) (mm_exported m) (mm_read_only m));
     add_all kvs s }"
  by (simp_all add: add_all_def)

definition locked :: "(string \<rightharpoonup> variable_map_mapped) \<Rightarrow> string \<Rightarrow> bool" where
  "locked f k \<longleftrightarrow> (case f k of None \<Rightarrow> False | Some m \<Rightarrow> mm_read_only m)"

definition merged :: "(string \<rightharpoonup> variable_map_mapped) \<Rightarrow> (string \<rightharpoonup> variable_map_mapped) \<Rightarrow> string \<rightharpoonup> variable_map_mapped" where
  \<comment> \<open>the bindings of \<open>src\<close> over those of \<open>dst\<close>, except where \<open>dst\<close> is read-only\<close>
  "merged dst src k = (if locked dst k \<or> src k = None then dst k else src k)"

lemma merged_empty [simp]: "merged Map.empty src = src" "merged dst Map.empty = dst"
  by (rule ext, simp add: merged_def locked_def)+

lemma locked_upd: "locked (f(k \<mapsto> m)) k' = (if k' = k then mm_read_only m else locked f k')"
  by (simp add: locked_def)

lemma merged_step:
  assumes "src k = None"
  shows "merged (if locked dst k then dst else dst(k \<mapsto> m)) src = merged dst (src(k \<mapsto> m))"
  using assms by (intro ext) (auto simp: merged_def locked_upd)

lemma binding_same: "mm_value m \<noteq> None \<Longrightarrow> binding (mm_value m) (mm_exported m) (mm_read_only m) = m"
  by (cases m) (auto simp: binding_def)

lemma add_all_ok:
  assumes "vs_invar s" "vs_room (length kvs + n) s" "\<And>k m. (k, m) \<in> set kvs \<Longrightarrow> valid_binding k m"
    and "distinct (map fst kvs)"
  shows "\<exists>s'. add_all kvs s = Some s' \<and> vs_invar s' \<and> vs_room n s' \<and>
    vs_lookup s' = merged (vs_lookup s) (map_of kvs)"
  using assms
proof (induction kvs arbitrary: s)
  case Nil
  then show ?case by (auto simp: merged_def)
next
  case (Cons kv kvs)
  obtain k m where kv: "kv = (k, m)" by fastforce
  have b: "valid_binding k m" using Cons.prems(3) [of k m] kv by simp
  have "mm_value m \<noteq> None" using b by (simp add: valid_binding_def)
  note bs = binding_same [OF this]
  have r: "vs_room (Suc (length kvs + n)) s" using Cons.prems(2) by simp
  from variable_store_add_ok [OF Cons.prems(1) r, of k "mm_value m" "mm_exported m" "mm_read_only m", unfolded bs]
  obtain s1 where s1: "variable_store_add s k (mm_value m) (mm_exported m) (mm_read_only m)
        = Some (s1, add_error s k (mm_value m))" "vs_invar s1" "vs_room (length kvs + n) s1"
      "if add_error s k (mm_value m) = VAR_STORE_ERROR_NONE
       then vs_lookup s1 = (vs_lookup s)(k \<mapsto> m) \<and> vs_generation s1 = vs_generation s + 1 else s1 = s"
    by (elim exE conjE)
  have "add_error s k (mm_value m) = VAR_STORE_ERROR_NONE \<longleftrightarrow> \<not> locked (vs_lookup s) k"
    using b by (simp add: add_error_def valid_binding_def locked_def split: option.splits)
  then have l1: "vs_lookup s1 = (if locked (vs_lookup s) k then vs_lookup s else (vs_lookup s)(k \<mapsto> m))"
    using s1(4) by (cases "locked (vs_lookup s) k") simp_all
  obtain s' where s': "add_all kvs s1 = Some s'" "vs_invar s'" "vs_room n s'"
      "vs_lookup s' = merged (vs_lookup s1) (map_of kvs)"
    using Cons.IH [OF s1(2,3)] Cons.prems(3,4) by fastforce
  have nk: "map_of kvs k = None" using Cons.prems(4) kv by (simp add: map_of_eq_None_iff)
  have "merged (vs_lookup s1) (map_of kvs) = merged (vs_lookup s) ((map_of kvs)(k \<mapsto> m))"
    unfolding l1 by (rule merged_step, rule nk)
  moreover have "map_of (kv # kvs) = (map_of kvs)(k \<mapsto> m)" by (simp add: kv)
  ultimately have "vs_lookup s' = merged (vs_lookup s) (map_of (kv # kvs))" using s'(4) by metis
  moreover have "add_all (kv # kvs) s = Some s'" using s'(1) s1(1) by (simp add: kv)
  ultimately show ?case using s'(2,3) by blast
qed

lemma entries_alist:
  assumes inv: "vs_invar store"
  shows "(k, m) \<in> set (alist_of (vm_entries (vs_map store))) \<Longrightarrow> valid_binding k m"
    and "distinct (map fst (alist_of (vm_entries (vs_map store))))"
proof -
  note i = vm_invarD [OF inv [unfolded vs_invar_def, THEN conjunct1]]
  show "distinct (map fst (alist_of (vm_entries (vs_map store))))" by (rule distinct_alist_keys [OF i(1)])
  assume "(k, m) \<in> set (alist_of (vm_entries (vs_map store)))"
  then have "vs_lookup store k = Some m"
    using alist_lookup_mem [OF i(1)] by (simp add: vs_lookup_def vm_lookup_def)
  then show "valid_binding k m" using inv by (simp add: vs_invar_def)
qed

lemma fold_add_entry:
  assumes "\<And>e. e \<in> set es \<Longrightarrow> \<exists>k. e_key e = Some k"
  shows "fold_opt add_entry es s = add_all (map (\<lambda>e. (the (e_key e), e_mapped e)) es) s"
  using assms
proof (induction es arbitrary: s)
  case (Cons e es)
  obtain k where "e_key e = Some k" using Cons.prems [of e] by auto
  moreover have "fold_opt add_entry es = add_all (map (\<lambda>e. (the (e_key e), e_mapped e)) es)"
    by (rule ext) (use Cons in simp)
  moreover have "add_entry e s = map_option fst (variable_store_add s k (mm_value (e_mapped e))
      (mm_exported (e_mapped e)) (mm_read_only (e_mapped e)))"
    using calculation(1) by (simp add: add_entry_def)
  ultimately show ?case by simp
qed simp

lemma fold_opt_filter:
  "fold_opt (\<lambda>x s. if P x then f x s else Some s) xs s = fold_opt f (filter P xs) s"
proof (induction xs arbitrary: s)
  case (Cons x xs)
  then have "fold_opt (\<lambda>x s. if P x then f x s else Some s) xs = fold_opt f (filter P xs)" by blast
  then show ?case by simp
qed simp

lemma if_not: "(if \<not> P then x else y) = (if P then y else x)"
  by simp

lemma length_alist: "vm_invar m \<Longrightarrow> length (alist_of (vm_entries m)) = vm_size m"
  by (simp add: alist_of_def vm_invarD(5))

lemma alist_filter: "map (\<lambda>e. (the (e_key e), e_mapped e)) (filter (\<lambda>e. e_occupied e \<and> P (e_mapped e)) es) =
    filter (\<lambda>(k, m). P m) (alist_of es)"
  by (induction es) (auto simp: alist_of_def)

lemma map_of_filter:
  assumes "distinct (map fst kvs)"
  shows "map_of (filter (\<lambda>(k, m). P m) kvs) =
    (\<lambda>k. case map_of kvs k of Some m \<Rightarrow> if P m then Some m else None | None \<Rightarrow> None)"
proof
  fix k
  show "map_of (filter (\<lambda>(k, m). P m) kvs) k =
    (case map_of kvs k of Some m \<Rightarrow> if P m then Some m else None | None \<Rightarrow> None)"
    using assms
  proof (induction kvs)
    case (Cons kv kvs)
    obtain k' m where kv: "kv = (k', m)" by fastforce
    then have "map_of kvs k' = None" using Cons.prems by (simp add: map_of_eq_None_iff)
    then show ?case using Cons by (cases "k = k'") (simp_all add: kv)
  qed simp
qed

definition exported_part :: "(string \<rightharpoonup> variable_map_mapped) \<Rightarrow> string \<rightharpoonup> variable_map_mapped" where
  "exported_part f k = (case f k of Some m \<Rightarrow> if mm_exported m then Some m else None | None \<Rightarrow> None)"

lemma variable_store_clone_ok:
  assumes inv: "vs_invar store" and size: "vm_size (vs_map store) \<le> 100000"
  shows "\<exists>clone. variable_store_clone store = Some clone \<and> vs_invar clone \<and> vs_lookup clone = vs_lookup store"
    and "\<exists>clone. variable_store_clone_exported store = Some clone \<and> vs_invar clone \<and>
      vs_lookup clone = exported_part (vs_lookup store)"
proof -
  have vm: "vm_invar (vs_map store)" using inv by (simp add: vs_invar_def)
  note i = vm_invarD [OF vm]
  let ?es = "vm_entries (vs_map store)"
  have keys: "\<exists>k. e_key e = Some k" if "e \<in> set (filter e_occupied ?es)" for e
    using entry_binding [OF inv, of e] that by auto
  have room: "vs_room (length kvs + 0) variable_store_create" if "length kvs \<le> vm_size (vs_map store)" for kvs :: "'a list"
    using variable_store_create_ok(3) [of "length kvs"] that size by simp
  have clone: "variable_store_clone store = add_all (alist_of ?es) variable_store_create"
    using fold_add_entry [of "filter e_occupied ?es" variable_store_create] keys i(4)
    by (simp add: variable_store_clone_def variable_map_iterate_ok alist_of_def)
  have "length (alist_of ?es) \<le> vm_size (vs_map store)" using length_alist [OF vm] by simp
  from add_all_ok [OF variable_store_create_ok(1) room [OF this] entries_alist [OF inv]]
  show "\<exists>clone. variable_store_clone store = Some clone \<and> vs_invar clone \<and> vs_lookup clone = vs_lookup store"
    using clone variable_store_create_ok(2) by (auto simp: vs_lookup_def vm_lookup_def)
  let ?xs = "filter (\<lambda>(k, m). mm_exported m) (alist_of ?es)"
  have clone_exported: "variable_store_clone_exported store = add_all ?xs variable_store_create"
    using fold_add_entry [of "filter (\<lambda>e. e_occupied e \<and> mm_exported (e_mapped e)) ?es" variable_store_create] keys i(4)
      alist_filter [of mm_exported ?es]
    by (simp add: variable_store_clone_exported_def variable_map_iterate_ok fold_opt_filter conj_commute)
  have "length ?xs \<le> vm_size (vs_map store)"
    using length_alist [OF vm] length_filter_le [of "\<lambda>(k, m). mm_exported m" "alist_of ?es"] by simp
  moreover have "distinct (map fst ?xs)" using entries_alist(2) [OF inv] by (simp add: distinct_map_filter)
  ultimately have "\<exists>clone. add_all ?xs variable_store_create = Some clone \<and> vs_invar clone \<and> vs_lookup clone = map_of ?xs"
    using add_all_ok [OF variable_store_create_ok(1) room, of ?xs] entries_alist(1) [OF inv] variable_store_create_ok(2)
    by auto
  moreover have "map_of ?xs = exported_part (vs_lookup store)"
    using map_of_filter [OF entries_alist(2) [OF inv], of mm_exported]
    by (auto simp: vs_lookup_def vm_lookup_def exported_part_def)
  ultimately show "\<exists>clone. variable_store_clone_exported store = Some clone \<and> vs_invar clone \<and>
      vs_lookup clone = exported_part (vs_lookup store)"
    using clone_exported by simp
qed

lemma variable_store_copy_all_ok:
  assumes src: "vs_invar src" and dst: "vs_invar dst" "vs_room (vm_size (vs_map src) + n) dst"
  shows "\<exists>dst'. variable_store_copy_all dst src = Some dst' \<and> vs_invar dst' \<and>
    vs_lookup dst' = merged (vs_lookup dst) (vs_lookup src)"
proof -
  have vm: "vm_invar (vs_map src)" using src by (simp add: vs_invar_def)
  let ?es = "vm_entries (vs_map src)"
  have keys: "\<exists>k. e_key e = Some k" if "e \<in> set (filter e_occupied ?es)" for e
    using entry_binding [OF src, of e] that by auto
  have "variable_store_copy_all dst src = add_all (alist_of ?es) dst"
    using fold_add_entry [of "filter e_occupied ?es" dst] keys fold_opt_filter [of e_occupied add_entry ?es dst]
    by (simp add: variable_store_copy_all_def alist_of_def if_not)
  moreover have "vs_room (length (alist_of ?es) + n) dst" using dst(2) length_alist [OF vm] by simp
  ultimately show ?thesis
    using add_all_ok [OF dst(1) _ entries_alist [OF src]] by (auto simp: vs_lookup_def vm_lookup_def)
qed

text \<open>Handing the environment to another process, which reads it back.\<close>

lemma create_from_envp_ok:
  assumes inv: "vs_invar store" and size: "vm_size (vs_map store) \<le> 100000"
  shows "\<exists>child. variable_store_create_from_envp (Some (exported_env (vs_map store))) = Some child \<and> vs_invar child \<and>
    vs_lookup child = (\<lambda>k. map_option (\<lambda>m. m\<lparr>mm_read_only := False\<rparr>) (exported_part (vs_lookup store) k))"
proof -
  have vm: "vm_invar (vs_map store)" using inv by (simp add: vs_invar_def)
  let ?es = "filter (\<lambda>e. e_occupied e \<and> mm_exported (e_mapped e)) (vm_entries (vs_map store))"
  define xs where "xs = map (\<lambda>e. (the (e_key e), (e_mapped e)\<lparr>mm_read_only := False\<rparr>)) ?es"
  have xs: "xs = map (\<lambda>(k, m). (k, m\<lparr>mm_read_only := False\<rparr>)) (filter (\<lambda>(k, m). mm_exported m) (alist_of (vm_entries (vs_map store))))"
    unfolding xs_def alist_filter [symmetric] by simp
  have read: "fold_opt (\<lambda>env s. variable_store_add_env s env) (map env_string es) s =
      add_all (map (\<lambda>e. (the (e_key e), (e_mapped e)\<lparr>mm_read_only := False\<rparr>)) es) s"
    if "set es \<subseteq> set ?es" for es s
    using that
  proof (induction es arbitrary: s)
    case (Cons e es)
    then have "e \<in> set (vm_entries (vs_map store))" "e_occupied e" "mm_exported (e_mapped e)" by auto
    then obtain k v where k: "e_key e = Some k" "valid_binding k (e_mapped e)" "mm_value (e_mapped e) = Some v"
      using entry_binding [OF inv, of e] by (auto simp: valid_binding_def)
    have "fold_opt (\<lambda>env s. variable_store_add_env s env) (map env_string es) =
      add_all (map (\<lambda>e. (the (e_key e), (e_mapped e)\<lparr>mm_read_only := False\<rparr>)) es)"
      by (rule ext) (use Cons in simp)
    moreover have "parse_env_cstr (env_string e) = Some (k, v)"
      using k parse_env_string [of k v] by (simp add: env_string_def valid_binding_def)
    ultimately show ?case
      using k \<open>mm_exported (e_mapped e)\<close> by (simp add: variable_store_add_env_def)
  qed simp
  have len: "length xs \<le> vm_size (vs_map store)"
    using length_alist [OF vm] length_filter_le [of "\<lambda>(k, m). mm_exported m" "alist_of (vm_entries (vs_map store))"]
    by (simp add: xs)
  have fst: "map fst xs = map fst (filter (\<lambda>(k, m). mm_exported m) (alist_of (vm_entries (vs_map store))))"
    by (simp add: xs split_def)
  then have d: "distinct (map fst xs)" using entries_alist(2) [OF inv] by (simp add: distinct_map_filter)
  have v: "valid_binding k m" if "(k, m) \<in> set xs" for k m
    using that entries_alist(1) [OF inv] by (auto simp: xs valid_binding_def)
  have room: "vs_room (length xs + 0) variable_store_create"
    using variable_store_create_ok(3) [of "length xs"] len size by simp
  have "map_of xs = (\<lambda>k. map_option (\<lambda>m. m\<lparr>mm_read_only := False\<rparr>) (exported_part (vs_lookup store) k))"
    unfolding xs map_of_map map_of_filter [OF entries_alist(2) [OF inv]]
    by (rule ext) (simp add: exported_part_def vs_lookup_def vm_lookup_def)
  then show ?thesis
    using add_all_ok [OF variable_store_create_ok(1) room v d] read [of ?es] variable_store_create_ok(2)
    by (auto simp: variable_store_create_from_envp_def exported_env_def xs_def)
qed

end
