(* ===== verification/Variable_Props.thy ===== *)
theory Variable_Props
  imports Variable_Store_Proofs
begin

section \<open>Properties of the variable map and the variable store\<close>

text \<open>
  The contracts of the hash table and of the store, over the finite maps \<open>vm_lookup\<close> and
  \<open>vs_lookup\<close> that they stand for, the coherence of the cached environment, and the two
  places where the code breaks them.
\<close>

definition plain :: "string \<Rightarrow> variable_map_mapped" where
  \<comment> \<open>a value with no attributes, for the concrete instances\<close>
  "plain v = \<lparr>mm_value = Some v, mm_exported = False, mm_read_only = False\<rparr>"

subsection \<open>The variable map\<close>

text \<open>C8: Assignment in the hash table returns (the probe loops end and the load check keeps a
  free slot), keeps the representation invariant through growth and rehashing, and changes
  the map at the assigned key only.\<close>

theorem map_assign:
  assumes "vm_invar m" and "nul_free key" and "vm_reserve (Suc n) m"
  shows "\<exists>m' p. variable_map_insert_or_assign m key mapped = Some (m', p) \<and> vm_invar m' \<and>
    vm_lookup m' = (vm_lookup m)(key \<mapsto> mapped) \<and> vm_reserve n m'"
  by (rule variable_map_insert_or_assign_ok [OF assms(1,3,2)])

theorem map_assign_witness:
  "\<exists>m' p. variable_map_insert_or_assign variable_map_create ''PATH'' (plain ''/bin'') = Some (m', p) \<and>
    vm_invar m' \<and> vm_lookup m' = [''PATH'' \<mapsto> plain ''/bin''] \<and> vm_reserve 9 m'"
  using map_assign [OF variable_map_create_ok(1) _ vm_reserve_create, of "''PATH''" 9 "plain ''/bin''"]
  by (simp add: variable_map_create_ok(2) nul_free_def)

text \<open>\<open>variable_map_insert\<close> reports whether the key was new, binds it exactly then, and
  leaves an existing binding alone.\<close>

theorem map_insert:
  assumes "vm_invar m" and "nul_free key" and "vm_reserve (Suc n) m"
  shows "\<exists>m' p new. variable_map_insert m key mapped = Some (m', p, new) \<and> vm_invar m' \<and>
    new = (vm_lookup m key = None) \<and> vm_lookup m' = (if new then (vm_lookup m)(key \<mapsto> mapped) else vm_lookup m)"
  using variable_map_insert_ok [OF assms(1,3,2)] by blast

theorem map_insert_witness:
  "\<exists>m' p. variable_map_insert variable_map_create ''A'' (plain ''1'') = Some (m', p, True) \<and>
    vm_lookup m' = [''A'' \<mapsto> plain ''1'']"
  using map_insert [OF variable_map_create_ok(1) _ vm_reserve_create, of "''A''" 9 "plain ''1''"]
  by (auto simp: variable_map_create_ok(2) nul_free_def)

text \<open>C11: Deletion by backward shift removes exactly the given key: the loop ends, every other
  key can still be found from its ideal slot, and the invariant holds again.\<close>

theorem map_erase:
  assumes "vm_invar m" and "nul_free key" and "nul_free k"
  shows "\<exists>m'. variable_map_erase m key = Some m' \<and> vm_invar m' \<and>
    vm_lookup m' = (vm_lookup m)(key := None) \<and>
    variable_map_at m' k = Some (if k = key then None else vm_lookup m k)"
  using variable_map_erase_ok [OF assms(1,2)] variable_map_at_ok [OF _ assms(3)] by fastforce

theorem map_erase_witness:
  "\<exists>m'. variable_map_erase variable_map_create ''A'' = Some m' \<and> variable_map_at m' ''Q'' = Some None"
  using map_erase [OF variable_map_create_ok(1), of "''A''" "''Q''"] by (auto simp: variable_map_create_ok(2) nul_free_def)

text \<open>Erasing a list of keys one by one removes exactly those keys.\<close>

theorem map_erase_each:
  assumes "vm_invar m" and "list_all nul_free ks"
  shows "\<exists>m'. erase_each m ks = Some m' \<and> vm_invar m' \<and> vm_lookup m' = vm_lookup m |` (- set ks)"
  using erase_each_ok [OF assms(1)] assms(2) by (simp add: list_all_iff)

theorem map_erase_each_witness:
  "\<exists>m'. erase_each variable_map_create [''A'', ''Q''] = Some m' \<and> vm_lookup m' = Map.empty"
  using map_erase_each [OF variable_map_create_ok(1), of "[''A'', ''Q'']"]
  by (auto simp: variable_map_create_ok(2) nul_free_def)

subsection \<open>Erasing several keys at once\<close>

lemma colliding_slots: "find_slot ''A'' 16 = 12" "find_slot ''Q'' 16 = 12"
  by (simp_all add: find_slot_def str_hash_def fnv1a_def FNV_OFFSET_def)

definition one_entry :: variable_map where
  "one_entry = \<lparr>vm_entries = (replicate 16 clear_entry)[12 := set_entry ''A'' (plain ''1'')], vm_size = 1,
     vm_capacity = 16\<rparr>"

definition two_entries :: variable_map where
  "two_entries = \<lparr>vm_entries = (replicate 16 clear_entry)[12 := set_entry ''A'' (plain ''1''),
     13 := set_entry ''Q'' (plain ''2'')], vm_size = 2, vm_capacity = 16\<rparr>"

lemma one_entry_run: "variable_map_insert_or_assign variable_map_create ''A'' (plain ''1'') = Some (one_entry, 12)"
  by (simp add: variable_map_insert_or_assign_def variable_map_create_def grow_if_loaded_def one_entry_def
      VARIABLE_MAP_INITIAL_CAPACITY_def colliding_slots c_nat_def)
    (subst probe_key.simps, simp add: entry_at_def clear_entry_def)

lemma two_entries_run: "variable_map_insert_or_assign one_entry ''Q'' (plain ''2'') = Some (two_entries, 13)"
  by (simp add: variable_map_insert_or_assign_def two_entries_def one_entry_def grow_if_loaded_def
      VARIABLE_MAP_INITIAL_CAPACITY_def colliding_slots c_nat_def,
      subst probe_key.simps, simp add: entry_at_def set_entry_def keys_equal_def cstr_of_def,
      subst probe_key.simps, simp add: entry_at_def clear_entry_def)

lemma find_loop_numeral:
  "find_loop es cap key pos (numeral n) =
     do { e \<leftarrow> entry_at es pos;
          if \<not> e_occupied e then Some None
          else do {
            k \<leftarrow> e_key e;
            if keys_equal k key then Some (Some pos)
            else find_loop es cap key ((pos + 1) mod cap) (pred_numeral n) } }"
  by (simp only: numeral_eq_Suc find_loop.simps)

lemma replicate_16: "replicate 16 x = [x, x, x, x, x, x, x, x, x, x, x, x, x, x, x, x]"
  by (simp add: numeral_eq_Suc)

lemma two_entries_erased:
  "\<exists>m. variable_map_erase_multiple two_entries [''A'', ''Q''] = Some m \<and> vm_lookup m ''Q'' = Some (plain ''2'')"
  by (simp add: variable_map_erase_multiple_def two_entries_def variable_map_find_def colliding_slots
      find_loop_numeral entry_at_def set_entry_def keys_equal_def cstr_of_def destroy_entry_def replicate_16,
      simp add: clear_entry_def colliding_slots,
      subst probe_free.simps, simp add: entry_at_def vm_lookup_def alist_of_def clear_entry_def)

text \<open>\<open>variable_map_erase_multiple\<close> does not remove every key it is given: after inserting
  two keys with the same ideal slot into a new map, erasing both leaves the second, as the
  slot marked for the first one ends the probe for it.\<close>

theorem erase_multiple_leaves_key:
  "\<exists>m1 m2 m3 p q. variable_map_insert_or_assign variable_map_create ''A'' (plain ''1'') = Some (m1, p) \<and>
    variable_map_insert_or_assign m1 ''Q'' (plain ''2'') = Some (m2, q) \<and>
    variable_map_erase_multiple m2 [''A'', ''Q''] = Some m3 \<and> vm_lookup m3 ''Q'' = Some (plain ''2'')"
  using one_entry_run two_entries_run two_entries_erased by blast

subsection \<open>The variable store\<close>

text \<open>\<open>variable_store_add\<close> answers with the first failing check (the name, the value, a
  read-only variable) and then leaves the store alone; otherwise it binds the name, keeps the
  invariant (valid names and values, a coherent cache) and counts a new generation.\<close>

theorem store_add:
  assumes "vs_invar store" and "vs_room (Suc n) store"
  shows "\<exists>store'. variable_store_add store name value exported read_only = Some (store', add_error store name value) \<and>
    vs_invar store' \<and>
    (if add_error store name value = VAR_STORE_ERROR_NONE
     then vs_lookup store' = (vs_lookup store)(name \<mapsto> binding value exported read_only) \<and>
       vs_generation store' = vs_generation store + 1
     else store' = store)"
  using variable_store_add_ok [OF assms] by blast

theorem store_add_witness:
  "\<exists>store'. variable_store_add variable_store_create ''HOME'' (Some ''/'') True False = Some (store', VAR_STORE_ERROR_NONE) \<and>
    vs_lookup store' = [''HOME'' \<mapsto> binding (Some ''/'') True False]"
proof -
  have "add_error variable_store_create ''HOME'' (Some ''/'') = VAR_STORE_ERROR_NONE"
    by (simp add: add_error_def variable_store_create_ok(2) validate_variable_name_def validate_variable_value_def
        MAX_VAR_NAME_LENGTH_def MAX_VAR_VALUE_LENGTH_def c_isalnum_def c_isalpha_def c_isdigit_def)
  then show ?thesis
    using store_add [OF variable_store_create_ok(1,3), of 9 "''HOME''" "Some ''/''" True False] variable_store_create_ok(2)
    by auto
qed

text \<open>A read-only variable keeps its value and its attributes through every operation of
  the store that can fail: assignment, exporting and clearing the read-only attribute all
  answer with the read-only error and change nothing.\<close>

theorem store_read_only:
  assumes "vs_invar store" and "vs_room (Suc n) store"
    and "vs_lookup store name = Some b" and "mm_read_only b"
    and "validate_variable_value value = VAR_STORE_ERROR_NONE"
  shows "variable_store_add store name value exported read_only = Some (store, VAR_STORE_ERROR_READ_ONLY) \<and>
    variable_store_set_exported store name exported = Some (store, VAR_STORE_ERROR_READ_ONLY) \<and>
    variable_store_set_read_only store name False = Some (store, VAR_STORE_ERROR_READ_ONLY)"
proof -
  have n: "validate_variable_name name = VAR_STORE_ERROR_NONE"
    using assms(1,3) by (simp add: vs_invar_def valid_binding_def)
  have "add_error store name value = VAR_STORE_ERROR_READ_ONLY"
    "set_exported_error store name = VAR_STORE_ERROR_READ_ONLY"
    "set_read_only_error store name False = VAR_STORE_ERROR_READ_ONLY"
    using assms(3-5) n by (simp_all add: add_error_def set_exported_error_def set_read_only_error_def)
  then show ?thesis
    using variable_store_add_ok [OF assms(1,2), of name "value" exported read_only]
      variable_store_set_exported_ok [OF assms(1,2) valid_name(1) [OF n], of exported]
      variable_store_set_read_only_ok [OF assms(1,2) valid_name(1) [OF n], of False]
    by simp
qed

lemma valid_A: "validate_variable_name ''A'' = VAR_STORE_ERROR_NONE" "validate_variable_name ''B'' = VAR_STORE_ERROR_NONE"
  "validate_variable_value (Some ''1'') = VAR_STORE_ERROR_NONE" "validate_variable_value (Some ''2'') = VAR_STORE_ERROR_NONE"
  by (simp_all add: validate_variable_name_def validate_variable_value_def MAX_VAR_NAME_LENGTH_def
      MAX_VAR_VALUE_LENGTH_def c_isalpha_def)

lemma store_with_A: "\<exists>store. vs_invar store \<and> vs_room 9 store \<and> vm_size (vs_map store) \<le> 100000 \<and>
    vs_lookup store = [''A'' \<mapsto> binding (Some ''1'') ex ro]"
proof -
  have "add_error variable_store_create ''A'' (Some ''1'') = VAR_STORE_ERROR_NONE"
    by (simp add: add_error_def valid_A variable_store_create_ok(2))
  then obtain store where s: "vs_invar store" "vs_room 9 store" "vs_lookup store = [''A'' \<mapsto> binding (Some ''1'') ex ro]"
    using variable_store_add_ok [OF variable_store_create_ok(1,3), of 9 "''A''" "Some ''1''" ex ro]
      variable_store_create_ok(2) by auto
  have vm: "vm_invar (vs_map store)" using s(1) by (simp add: vs_invar_def)
  have "set (map fst (alist_of (vm_entries (vs_map store)))) = {''A''}"
    using s(3) by (metis dom_empty dom_fun_upd dom_map_of_conv_image_fst list.set_map option.distinct(1) vm_lookup_def vs_lookup_def)
  then have "length (alist_of (vm_entries (vs_map store))) = 1"
    using distinct_card [OF distinct_alist_keys [OF vm_invarD(1) [OF vm]]] by simp
  then show ?thesis using s length_alist [OF vm] by auto
qed

theorem store_read_only_witness:
  "\<exists>store. vs_lookup store = [''A'' \<mapsto> binding (Some ''1'') False True] \<and>
    variable_store_add store ''A'' (Some ''2'') False False = Some (store, VAR_STORE_ERROR_READ_ONLY) \<and>
    variable_store_set_exported store ''A'' False = Some (store, VAR_STORE_ERROR_READ_ONLY) \<and>
    variable_store_set_read_only store ''A'' False = Some (store, VAR_STORE_ERROR_READ_ONLY)"
proof -
  obtain store where s: "vs_invar store" "vs_room 9 store" "vs_lookup store = [''A'' \<mapsto> binding (Some ''1'') False True]"
    using store_with_A by blast
  have "vs_room (Suc 8) store" using s(2) by simp
  then show ?thesis
    using store_read_only [OF s(1), of 8 "''A''" "binding (Some ''1'') False True" "Some ''2''" False False] s(3) valid_A
    by (auto simp: binding_def)
qed

text \<open>A clone binds the same names to the same values and attributes, and a clone of the
  exported variables exactly those of them that are exported; no name or value that the store
  can hold is refused on the way.\<close>

theorem store_clone:
  assumes "vs_invar store" and "vm_size (vs_map store) \<le> 100000"
  shows "\<exists>c e. variable_store_clone store = Some c \<and> vs_invar c \<and> vs_lookup c = vs_lookup store \<and>
    variable_store_clone_exported store = Some e \<and> vs_invar e \<and> vs_lookup e = exported_part (vs_lookup store)"
  using variable_store_clone_ok [OF assms] by blast

theorem store_clone_witness:
  "\<exists>store c e. vs_lookup store = [''A'' \<mapsto> binding (Some ''1'') False True] \<and>
    variable_store_clone store = Some c \<and> vs_lookup c = vs_lookup store \<and>
    variable_store_clone_exported store = Some e \<and> vs_lookup e = Map.empty"
proof -
  obtain store where s: "vs_invar store" "vm_size (vs_map store) \<le> 100000"
      "vs_lookup store = [''A'' \<mapsto> binding (Some ''1'') False True]"
    using store_with_A by blast
  have "exported_part [''A'' \<mapsto> binding (Some ''1'') False True] = Map.empty"
    by (rule ext) (simp add: exported_part_def binding_def)
  then show ?thesis using store_clone [OF s(1,2)] s(3) by metis
qed

text \<open>Merging one store into another overrides exactly the variables that are not
  read-only in the destination.\<close>

theorem store_copy_all:
  assumes "vs_invar src" and "vs_invar dst" and "vs_room (vm_size (vs_map src) + n) dst"
  shows "\<exists>dst'. variable_store_copy_all dst src = Some dst' \<and> vs_invar dst' \<and>
    vs_lookup dst' = merged (vs_lookup dst) (vs_lookup src)"
  by (rule variable_store_copy_all_ok [OF assms])

theorem store_copy_all_witness:
  "\<exists>store dst'. vs_lookup store = [''A'' \<mapsto> binding (Some ''1'') True False] \<and>
    variable_store_copy_all variable_store_create store = Some dst' \<and> vs_lookup dst' = vs_lookup store"
proof -
  obtain store where s: "vs_invar store" "vm_size (vs_map store) \<le> 100000"
      "vs_lookup store = [''A'' \<mapsto> binding (Some ''1'') True False]"
    using store_with_A by blast
  show ?thesis
    using store_copy_all [OF s(1) variable_store_create_ok(1), of 0] variable_store_create_ok(2,3) s(2,3) by auto
qed



text \<open>C20: A process that reads the environment array back gets exactly the exported variables
  with their values, exported and not read-only.\<close>

theorem envp_roundtrip:
  assumes "vs_invar store" and "vm_size (vs_map store) \<le> 100000"
  shows "\<exists>store' envs child. variable_store_get_envp store = Some (store', envs) \<and>
    variable_store_create_from_envp (Some envs) = Some child \<and> vs_invar child \<and>
    vs_lookup child = (\<lambda>k. map_option (\<lambda>m. m\<lparr>mm_read_only := False\<rparr>) (exported_part (vs_lookup store) k))"
  using variable_store_get_envp_ok [OF assms(1)] create_from_envp_ok [OF assms] by blast

theorem envp_roundtrip_witness:
  "\<exists>store store' envs child. vs_lookup store = [''A'' \<mapsto> binding (Some ''1'') True True] \<and>
    variable_store_get_envp store = Some (store', envs) \<and> variable_store_create_from_envp (Some envs) = Some child \<and>
    vs_lookup child = [''A'' \<mapsto> binding (Some ''1'') True False]"
proof -
  obtain store where s: "vs_invar store" "vm_size (vs_map store) \<le> 100000"
      "vs_lookup store = [''A'' \<mapsto> binding (Some ''1'') True True]"
    using store_with_A by blast
  have "(\<lambda>k. map_option (\<lambda>m. m\<lparr>mm_read_only := False\<rparr>) (exported_part [''A'' \<mapsto> binding (Some ''1'') True True] k)) =
      [''A'' \<mapsto> binding (Some ''1'') True False]"
    by (rule ext) (simp add: exported_part_def binding_def)
  then show ?thesis using envp_roundtrip [OF s(1,2)] s(3) by metis
qed

subsection \<open>A callback that fails\<close>

definition rename_fails :: "unit map_fn" where
  \<comment> \<open>a callback that updates \<open>B\<close> in place and gives every other variable an invalid name\<close>
  "rename_fails name v exported read_only s =
     (if name = ''B'' then (VAR_STORE_MAP_ACTION_UPDATE, name, ''2'', exported, read_only, s)
      else (VAR_STORE_MAP_ACTION_UPDATE, ''1'', the v, exported, read_only, s))"

lemma slot_B: "find_slot ''B'' 16 = 5"
  by (simp add: find_slot_def str_hash_def fnv1a_def FNV_OFFSET_def)

definition store_B :: variable_store where
  "store_B = variable_store_create\<lparr>vs_map := \<lparr>vm_entries = (replicate 16 clear_entry)
     [5 := set_entry ''B'' (binding (Some ''1'') True False)], vm_size = 1, vm_capacity = 16\<rparr>, vs_generation := 1\<rparr>"

definition store_BA :: variable_store where
  "store_BA = variable_store_create\<lparr>vs_map := \<lparr>vm_entries = (replicate 16 clear_entry)
     [5 := set_entry ''B'' (binding (Some ''1'') True False), 12 := set_entry ''A'' (binding (Some ''1'') True False)],
     vm_size = 2, vm_capacity = 16\<rparr>, vs_generation := 2\<rparr>"

lemmas run_simps = find_entry_def variable_map_find_def colliding_slots slot_B find_loop_numeral entry_at_def
  replicate_16 clear_entry_def valid_A variable_map_assign_def variable_map_insert_or_assign_def
  grow_if_loaded_def c_nat_def variable_map_create_def VARIABLE_MAP_INITIAL_CAPACITY_def set_entry_def

lemma store_B_run:
  "variable_store_add variable_store_create ''B'' (Some ''1'') True False = Some (store_B, VAR_STORE_ERROR_NONE)"
  by (simp add: variable_store_add_def variable_store_create_def store_B_def run_simps binding_def,
      subst probe_key.simps, simp add: entry_at_def)

lemma store_BA_run: "variable_store_add store_B ''A'' (Some ''1'') True False = Some (store_BA, VAR_STORE_ERROR_NONE)"
  by (simp add: variable_store_add_def variable_store_create_def store_B_def store_BA_def run_simps binding_def,
      subst probe_key.simps, simp add: entry_at_def)

lemma store_BA_stale:
  "\<exists>s3 s4. variable_store_get_envp store_BA = Some (s3, [''B=1'', ''A=1'']) \<and>
    variable_store_map s3 rename_fails () = Some (s4, VAR_STORE_ERROR_NAME_STARTS_WITH_DIGIT, Some ''A'', ()) \<and>
    variable_store_get_value s4 ''B'' = Some (Some ''2'') \<and>
    variable_store_get_envp s4 = Some (s4, [''B=1'', ''A=1''])"
  by (simp add: variable_store_get_envp_def envp_cache_valid_def store_BA_def variable_store_create_def
      replicate_16 clear_entry_def set_entry_def binding_def make_env_cstr_def c_int_eval variable_store_map_def
      rename_fails_def valid_A validate_variable_name_def MAX_VAR_NAME_LENGTH_def c_isalpha_def c_isdigit_def
      validate_variable_value_def MAX_VAR_VALUE_LENGTH_def variable_store_get_value_def find_entry_def
      variable_map_find_def slot_B find_loop_numeral entry_at_def keys_equal_def cstr_of_def)

text \<open>When the callback of \<open>variable_store_map\<close> fails after an update in place, the update
  stays but no new generation is counted: the store answers with the new value, and the
  environment array with the old one, from its cache.\<close>

theorem failed_map_leaves_stale_envp:
  "\<exists>s1 s2 s3 s4. variable_store_add variable_store_create ''B'' (Some ''1'') True False = Some (s1, VAR_STORE_ERROR_NONE) \<and>
    variable_store_add s1 ''A'' (Some ''1'') True False = Some (s2, VAR_STORE_ERROR_NONE) \<and>
    variable_store_get_envp s2 = Some (s3, [''B=1'', ''A=1'']) \<and>
    variable_store_map s3 rename_fails () = Some (s4, VAR_STORE_ERROR_NAME_STARTS_WITH_DIGIT, Some ''A'', ()) \<and>
    variable_store_get_value s4 ''B'' = Some (Some ''2'') \<and>
    variable_store_get_envp s4 = Some (s4, [''B=1'', ''A=1''])"
  using store_B_run store_BA_run store_BA_stale by blast

end
