(* ===== verification/Frame_Vars.thy ===== *)
theory Frame_Vars
  imports Variable_Store_Proofs
begin

section \<open>Variables of a frame (frame.c, exec_frame.c)\<close>

text \<open>
  A frame reads a variable from its local store first, if it has one, and then from its
  global store, and assigns in the local store if there is one.  \<open>saved_variables\<close> is the
  store that an assignment meant to outlast a temporary environment goes to.  Only these
  three fields of the frame take part; a store that is absent is \<open>None\<close>.
\<close>

record frame_vars =
  fr_variables :: "variable_store option"
  fr_saved_variables :: "variable_store option"
  fr_local_variables :: "variable_store option"

datatype miga_var_status = MIGA_VAR_STATUS_OK | MIGA_VAR_STATUS_READ_ONLY | MIGA_VAR_STATUS_NOT_FOUND

definition exec_frame_get_variable :: "frame_vars \<Rightarrow> string \<Rightarrow> string option option" where
  \<comment> \<open>the inner \<open>None\<close> is the result NULL; an empty name fails the precondition\<close>
  "exec_frame_get_variable frame name =
     (if name = [] then None
      else do {
        l \<leftarrow> (case fr_local_variables frame of None \<Rightarrow> Some None
               | Some s \<Rightarrow> variable_store_get_value s name);
        (case l of Some v \<Rightarrow> Some (Some v)
         | None \<Rightarrow> (case fr_variables frame of None \<Rightarrow> Some None
                    | Some s \<Rightarrow> variable_store_get_value s name)) })"

definition frame_has_variable :: "frame_vars \<Rightarrow> string \<Rightarrow> bool option" where
  "frame_has_variable frame name = map_option (\<lambda>v. v \<noteq> None) (exec_frame_get_variable frame name)"

definition frame_get_variable_value :: "frame_vars \<Rightarrow> string \<Rightarrow> string option" where
  "frame_get_variable_value frame name =
     map_option (\<lambda>v. case v of None \<Rightarrow> [] | Some cs \<Rightarrow> cs) (exec_frame_get_variable frame name)"

definition var_status :: "var_store_error \<Rightarrow> miga_var_status" where
  "var_status err = (case err of
      VAR_STORE_ERROR_NONE \<Rightarrow> MIGA_VAR_STATUS_OK
    | VAR_STORE_ERROR_READ_ONLY \<Rightarrow> MIGA_VAR_STATUS_READ_ONLY
    | VAR_STORE_ERROR_NOT_FOUND \<Rightarrow> MIGA_VAR_STATUS_NOT_FOUND
    | _ \<Rightarrow> MIGA_VAR_STATUS_OK)"

definition set_in_store :: "variable_store \<Rightarrow> string \<Rightarrow> string \<Rightarrow> (variable_store \<times> miga_var_status) option" where
  \<comment> \<open>the common body of \<open>frame_set_variable\<close> and \<open>frame_set_persistent_variable\<close>;
    \<open>string_compare\<close> sees the strings up to their first NUL\<close>
  "set_in_store vars name v =
     do { (view, exists) \<leftarrow> variable_store_get_variable vars name;
          if exists \<and> view_read_only view
          then Some (vars, if cstr_of (case view_value view of None \<Rightarrow> [] | Some cs \<Rightarrow> cs) \<noteq> cstr_of v
                           then MIGA_VAR_STATUS_READ_ONLY else MIGA_VAR_STATUS_OK)
          else do {
            (vars, err) \<leftarrow> variable_store_add vars name (Some v)
               (if exists then view_exported view else False) (if exists then view_read_only view else False);
            Some (vars, var_status err) } }"

definition frame_set_variable :: "frame_vars \<Rightarrow> string \<Rightarrow> string \<Rightarrow> (frame_vars \<times> miga_var_status) option" where
  "frame_set_variable frame name v =
     (case fr_local_variables frame of
        Some s \<Rightarrow> map_option (\<lambda>(s, st). (frame\<lparr>fr_local_variables := Some s\<rparr>, st)) (set_in_store s name v)
      | None \<Rightarrow> (case fr_variables frame of
          Some s \<Rightarrow> map_option (\<lambda>(s, st). (frame\<lparr>fr_variables := Some s\<rparr>, st)) (set_in_store s name v)
        | None \<Rightarrow> Some (frame, MIGA_VAR_STATUS_NOT_FOUND)))"

definition frame_set_persistent_variable ::
  "frame_vars \<Rightarrow> string \<Rightarrow> string \<Rightarrow> (frame_vars \<times> miga_var_status) option" where
  "frame_set_persistent_variable frame name v =
     (case fr_saved_variables frame of
        Some s \<Rightarrow> map_option (\<lambda>(s, st). (frame\<lparr>fr_saved_variables := Some s\<rparr>, st)) (set_in_store s name v)
      | None \<Rightarrow> (case fr_variables frame of
          Some s \<Rightarrow> map_option (\<lambda>(s, st). (frame\<lparr>fr_variables := Some s\<rparr>, st)) (set_in_store s name v)
        | None \<Rightarrow> Some (frame, MIGA_VAR_STATUS_NOT_FOUND)))"

subsection \<open>The environment of a frame\<close>

definition frame_invar :: "nat \<Rightarrow> frame_vars \<Rightarrow> bool" where
  \<comment> \<open>both stores are in order and have room for \<open>n\<close> modifications\<close>
  "frame_invar n frame \<longleftrightarrow>
     (\<forall>s. fr_local_variables frame = Some s \<or> fr_variables frame = Some s \<longrightarrow> vs_invar s \<and> vs_room n s)"

definition store_env :: "variable_store option \<Rightarrow> string \<rightharpoonup> variable_map_mapped" where
  "store_env s = (case s of None \<Rightarrow> Map.empty | Some s \<Rightarrow> vs_lookup s)"

definition frame_env :: "frame_vars \<Rightarrow> string \<rightharpoonup> string" where
  \<comment> \<open>the value a frame sees for a name\<close>
  "frame_env frame name = Option.bind ((store_env (fr_variables frame) ++ store_env (fr_local_variables frame)) name) mm_value"

lemma variable_store_get_value_ok:
  assumes "vs_invar s" "nul_free name"
  shows "variable_store_get_value s name = Some (Option.bind (vs_lookup s name) mm_value)"
  by (cases rule: find_entry_ok [OF assms, case_names absent found])
    (simp_all add: variable_store_get_value_def)

lemma lookup_has_value: "vs_invar s \<Longrightarrow> vs_lookup s name = Some m \<Longrightarrow> \<exists>v. mm_value m = Some v"
  by (auto simp: vs_invar_def valid_binding_def)

lemma exec_frame_get_variable_ok:
  assumes inv: "frame_invar n frame" and name: "nul_free name" "name \<noteq> []"
  shows "exec_frame_get_variable frame name = Some (frame_env frame name)"
proof -
  have l: "vs_invar s" if "fr_local_variables frame = Some s" for s using inv that by (simp add: frame_invar_def)
  have g: "vs_invar s" if "fr_variables frame = Some s" for s using inv that by (simp add: frame_invar_def)
  show ?thesis
  proof (cases "fr_local_variables frame")
    case None
    then show ?thesis
      using name g by (cases "fr_variables frame")
        (simp_all add: exec_frame_get_variable_def frame_env_def store_env_def variable_store_get_value_ok)
  next
    case (Some s)
    show ?thesis
    proof (cases "vs_lookup s name")
      case None
      then show ?thesis
        using Some name g l by (cases "fr_variables frame")
          (simp_all add: exec_frame_get_variable_def frame_env_def store_env_def variable_store_get_value_ok map_add_def)
    next
      case (Some m)
      then obtain v where "mm_value m = Some v" using lookup_has_value l \<open>fr_local_variables frame = Some s\<close> by blast
      then show ?thesis
        using Some \<open>fr_local_variables frame = Some s\<close> name l
        by (simp add: exec_frame_get_variable_def frame_env_def store_env_def variable_store_get_value_ok map_add_def)
    qed
  qed
qed

lemma get_variable_ok:
  assumes "vs_invar s" "nul_free name"
  shows "\<exists>view. variable_store_get_variable s name = Some (view, vs_lookup s name \<noteq> None) \<and>
    (\<forall>m. vs_lookup s name = Some m \<longrightarrow> view = \<lparr>view_name = Some name, view_value = mm_value m,
       view_exported = mm_exported m, view_read_only = mm_read_only m\<rparr>)"
  by (cases rule: find_entry_ok [OF assms, case_names absent found])
    (simp_all add: variable_store_get_variable_def)

text \<open>Assigning in a store keeps the export attribute of an existing variable.\<close>

definition assigned :: "variable_store \<Rightarrow> string \<Rightarrow> string \<Rightarrow> variable_map_mapped" where
  "assigned s name v = binding (Some v) (case vs_lookup s name of None \<Rightarrow> False | Some m \<Rightarrow> mm_exported m) False"

lemma set_in_store_ok:
  assumes inv: "vs_invar s" and room: "vs_room (Suc n) s" and name: "validate_variable_name name = VAR_STORE_ERROR_NONE"
    and v: "validate_variable_value (Some v) = VAR_STORE_ERROR_NONE" and free: "\<not> locked (vs_lookup s) name"
  shows "\<exists>s'. set_in_store s name v = Some (s', MIGA_VAR_STATUS_OK) \<and> vs_invar s' \<and> vs_room n s' \<and>
    vs_lookup s' = (vs_lookup s)(name \<mapsto> assigned s name v)"
proof -
  define ex where "ex = (case vs_lookup s name of None \<Rightarrow> False | Some m \<Rightarrow> mm_exported m)"
  have err: "add_error s name (Some v) = VAR_STORE_ERROR_NONE"
    using name v free by (simp add: add_error_def locked_def)
  obtain s' where s': "variable_store_add s name (Some v) ex False = Some (s', VAR_STORE_ERROR_NONE)" "vs_invar s'"
      "vs_room n s'" "vs_lookup s' = (vs_lookup s)(name \<mapsto> binding (Some v) ex False)"
    using variable_store_add_ok [OF inv room, of name "Some v" ex False] err by auto
  obtain view where view: "variable_store_get_variable s name = Some (view, vs_lookup s name \<noteq> None)"
      "\<And>m. vs_lookup s name = Some m \<Longrightarrow> view = \<lparr>view_name = Some name, view_value = mm_value m,
       view_exported = mm_exported m, view_read_only = mm_read_only m\<rparr>"
    using get_variable_ok [OF inv valid_name(1) [OF name]] by blast
  have "set_in_store s name v = Some (s', MIGA_VAR_STATUS_OK)"
    using s'(1) view free by (cases "vs_lookup s name") (simp_all add: set_in_store_def ex_def locked_def var_status_def)
  then show ?thesis using s' by (simp add: assigned_def ex_def)
qed

definition target_store :: "frame_vars \<Rightarrow> variable_store option" where
  "target_store frame = (case fr_local_variables frame of Some s \<Rightarrow> Some s | None \<Rightarrow> fr_variables frame)"

lemma assigned_value [simp]: "mm_value (assigned s k v) = Some v"
  by (simp add: assigned_def binding_def)

lemma frame_set_variable_ok:
  assumes inv: "frame_invar (Suc n) frame" and name: "validate_variable_name name = VAR_STORE_ERROR_NONE"
    and v: "validate_variable_value (Some v) = VAR_STORE_ERROR_NONE"
    and s: "target_store frame = Some s" "\<not> locked (vs_lookup s) name"
  shows "\<exists>frame'. frame_set_variable frame name v = Some (frame', MIGA_VAR_STATUS_OK) \<and> frame_invar n frame' \<and>
    frame_env frame' = (frame_env frame)(name \<mapsto> v) \<and>
    (\<exists>s'. target_store frame' = Some s' \<and> (\<forall>k. locked (vs_lookup s') k \<longrightarrow> locked (vs_lookup s) k))"
proof -
  have si: "vs_invar s" "vs_room (Suc n) s"
    using s(1) inv by (auto simp: frame_invar_def target_store_def split: option.splits)
  obtain s' where s': "set_in_store s name v = Some (s', MIGA_VAR_STATUS_OK)" "vs_invar s'" "vs_room n s'"
      "vs_lookup s' = (vs_lookup s)(name \<mapsto> assigned s name v)"
    using set_in_store_ok [OF si name v s(2)] by blast
  have lk: "locked (vs_lookup s') k \<longrightarrow> locked (vs_lookup s) k" for k
    unfolding s'(4) locked_upd by (simp add: assigned_def binding_def)
  have weak: "vs_room n t" if "vs_room (Suc n) t" for t using that by (simp add: vs_room_def vm_reserve_def)
  show ?thesis
  proof (cases "fr_local_variables frame")
    case None
    then have g: "fr_variables frame = Some s" using s(1) by (simp add: target_store_def)
    let ?f = "frame\<lparr>fr_variables := Some s'\<rparr>"
    have "frame_env ?f = (frame_env frame)(name \<mapsto> v)"
      unfolding frame_env_def using None g s'(4)
      by (intro ext) (simp add: store_env_def map_add_def)
    moreover have "frame_invar n ?f" using inv None s'(2,3) by (simp add: frame_invar_def)
    ultimately show ?thesis
      using None g s'(1) lk by (simp add: frame_set_variable_def target_store_def)
  next
    case (Some t)
    then have t: "t = s" using s(1) by (simp add: target_store_def)
    let ?f = "frame\<lparr>fr_local_variables := Some s'\<rparr>"
    have "frame_env ?f = (frame_env frame)(name \<mapsto> v)"
      unfolding frame_env_def using Some t s'(4)
      by (intro ext) (simp add: store_env_def map_add_def)
    moreover have "frame_invar n ?f" using inv s'(2,3) weak by (auto simp: frame_invar_def)
    ultimately show ?thesis
      using Some t s'(1) lk by (simp add: frame_set_variable_def target_store_def)
  qed
qed

end
