(* ===== verification/String_Number.thy ===== *)
theory String_Number
  imports Prelude
begin

section \<open>Numbers in strings (string\_t.c)\<close>

text \<open>
  Reading and writing decimal numbers: \<open>strtol\<close> in base 10, its truncation to \<open>int\<close>, and the
  conversion to text.  \<open>long\<close> is the 64-bit type of the POSIX targets.
\<close>

subsection \<open>Integers of type long\<close>

abbreviation LONG_MAX :: int where "LONG_MAX \<equiv> 9223372036854775807"
abbreviation LONG_MIN :: int where "LONG_MIN \<equiv> - 9223372036854775808"

definition c_long :: "int \<Rightarrow> int option" where
  "c_long x = (if LONG_MIN \<le> x \<and> x \<le> LONG_MAX then Some x else None)"

fun strtol_digits :: "string \<Rightarrow> int \<Rightarrow> int" where
  "strtol_digits [] n = n"
| "strtol_digits (c # cs) n = (if c_isdigit c then strtol_digits cs (n * 10 + (of_char c - 48)) else n)"

definition string_atol :: "string \<Rightarrow> int" where
  \<comment> \<open>\<open>strtol\<close> in base 10: white space, a sign, digits; out of range values saturate\<close>
  "string_atol cs =
     (let cs = dropWhile c_isspace cs;
          v = (case cs of c # r \<Rightarrow> if c = CHR ''-'' then - strtol_digits r 0
                                  else if c = CHR ''+'' then strtol_digits r 0 else strtol_digits cs 0
               | [] \<Rightarrow> 0)
      in max LONG_MIN (min LONG_MAX v))"

definition digit_char :: "nat \<Rightarrow> char" where
  "digit_char n = char_of (48 + n)"

fun show_nat :: "nat \<Rightarrow> string" where
  "show_nat n = (if n < 10 then [digit_char n] else show_nat (n div 10) @ [digit_char (n mod 10)])"

declare show_nat.simps [simp del]

definition string_from_long :: "int \<Rightarrow> string" where
  \<comment> \<open>the conversion \<open>%ld\<close>\<close>
  "string_from_long v = (if v < 0 then CHR ''-'' # show_nat (nat (- v)) else show_nat (nat v))"

subsection \<open>Integers of type int\<close>

definition strtol_end :: "string \<Rightarrow> nat" where
  \<comment> \<open>how far \<open>strtol\<close> reads: nothing where there are no digits\<close>
  "strtol_end cs =
     (let spaces = takeWhile c_isspace cs;
          r = drop (length spaces) cs;
          sign = (case r of c # _ \<Rightarrow> if c = CHR ''-'' \<or> c = CHR ''+'' then 1 else 0 | [] \<Rightarrow> 0);
          digits = takeWhile c_isdigit (drop sign r)
      in if digits = [] then 0 else length spaces + sign + length digits)"

definition string_atoi_at_0 :: "string \<Rightarrow> int \<times> nat" where
  \<comment> \<open>the number at the start, cast to \<open>int\<close>, and where it ends\<close>
  "string_atoi_at_0 cs = (signed_take_bit 31 (string_atol cs), strtol_end cs)"

end
