(* ===== verification/Arithmetic.thy ===== *)
theory Arithmetic
  imports Frame_Vars String_Number
begin

section \<open>Arithmetic expansion (arithmetic.c): tokens, parser and evaluator\<close>

text \<open>
  The evaluator of \<open>$((...))\<close>: a tokenizer over the expanded text and a precedence-climbing
  parser that computes values, and assigns variables in the frame, while it parses.  \<open>long\<close>
  is the 64-bit type of the POSIX targets: an operation whose mathematical result does not
  fit, a shift count outside the width and a division of \<open>LONG_MIN\<close> by -1 are undefined
  behaviour.  The position may become -1, as in the code, when a name ends the input.  The
  recursion is bounded by a fuel argument, which the evaluation of a text chooses large
  enough (shown in the correctness theory).
\<close>

subsection \<open>Tokens\<close>

datatype (plugins only: code size) math_token =
    MATH_TOKEN_NUMBER int
  | MATH_TOKEN_VARIABLE string
  | MATH_TOKEN_LPAREN | MATH_TOKEN_RPAREN
  | MATH_TOKEN_PLUS | MATH_TOKEN_MINUS | MATH_TOKEN_MULTIPLY | MATH_TOKEN_DIVIDE | MATH_TOKEN_MODULO
  | MATH_TOKEN_BIT_NOT | MATH_TOKEN_LOGICAL_NOT
  | MATH_TOKEN_LEFT_SHIFT | MATH_TOKEN_RIGHT_SHIFT
  | MATH_TOKEN_LESS | MATH_TOKEN_GREATER | MATH_TOKEN_LESS_EQUAL | MATH_TOKEN_GREATER_EQUAL
  | MATH_TOKEN_EQUAL | MATH_TOKEN_NOT_EQUAL
  | MATH_TOKEN_BIT_AND | MATH_TOKEN_BIT_XOR | MATH_TOKEN_BIT_OR
  | MATH_TOKEN_LOGICAL_AND | MATH_TOKEN_LOGICAL_OR
  | MATH_TOKEN_QUESTION | MATH_TOKEN_COLON
  | MATH_TOKEN_ASSIGN | MATH_TOKEN_MULTIPLY_ASSIGN | MATH_TOKEN_DIVIDE_ASSIGN | MATH_TOKEN_MODULO_ASSIGN
  | MATH_TOKEN_PLUS_ASSIGN | MATH_TOKEN_MINUS_ASSIGN | MATH_TOKEN_LEFT_SHIFT_ASSIGN
  | MATH_TOKEN_RIGHT_SHIFT_ASSIGN | MATH_TOKEN_AND_ASSIGN | MATH_TOKEN_XOR_ASSIGN | MATH_TOKEN_OR_ASSIGN
  | MATH_TOKEN_COMMA
  | MATH_TOKEN_EOF

definition is_alpha_or_underscore :: "char \<Rightarrow> bool" where
  "is_alpha_or_underscore c \<longleftrightarrow> c_isalpha c \<or> c = CHR ''_''"

definition is_alnum_or_underscore :: "char \<Rightarrow> bool" where
  "is_alnum_or_underscore c \<longleftrightarrow> c_isalnum c \<or> c = CHR ''_''"

text \<open>Contents-level views of \<open>string_at\<close> (\<open>chr_at\<close>) and of \<open>string_find_first_not_of_predicate_at\<close>.\<close>

function find_not_at :: "(char \<Rightarrow> bool) \<Rightarrow> string \<Rightarrow> int \<Rightarrow> int" where
  "find_not_at f cs pos =
     (if 0 \<le> pos \<and> pos < int (length cs)
      then if f (cs ! nat pos) then find_not_at f cs (pos + 1) else pos
      else -1)"
  by pat_completeness auto
termination by (relation "measure (\<lambda>(f, cs, pos). nat (int (length cs) - pos))") auto

function skip_whitespace :: "string \<Rightarrow> int \<Rightarrow> int" where
  "skip_whitespace cs pos =
     (if pos < int (length cs) \<and> c_isspace (chr_at cs pos) then skip_whitespace cs (pos + 1) else pos)"
  by pat_completeness auto
termination by (relation "measure (\<lambda>(cs, pos). nat (int (length cs) - pos))") auto

definition digit_value :: "char \<Rightarrow> int option" where
  "digit_value c =
     (let n = of_char c :: int in
      if 48 \<le> n \<and> n \<le> 57 then Some (n - 48)
      else if 97 \<le> n \<and> n \<le> 102 then Some (n - 97 + 10)
      else if 65 \<le> n \<and> n \<le> 70 then Some (n - 65 + 10)
      else None)"

function scan_digits :: "int \<Rightarrow> string \<Rightarrow> int \<Rightarrow> int \<Rightarrow> (int \<times> int) option" where
  \<comment> \<open>the digit loops: the value in the given base and the position after it\<close>
  "scan_digits base cs pos v =
     (if pos < int (length cs)
      then (case digit_value (chr_at cs pos) of
              Some d \<Rightarrow> if d < base
                then do { m \<leftarrow> c_long (v * base); v \<leftarrow> c_long (m + d); scan_digits base cs (pos + 1) v }
                else Some (v, pos)
            | None \<Rightarrow> Some (v, pos))
      else Some (v, pos))"
  by pat_completeness auto
termination by (relation "measure (\<lambda>(base, cs, pos, v). nat (int (length cs) - pos))") auto

declare find_not_at.simps [simp del] skip_whitespace.simps [simp del] scan_digits.simps [simp del]

definition scan_number :: "string \<Rightarrow> int \<Rightarrow> (math_token \<times> int) option" where
  "scan_number cs pos =
     (let c = chr_at cs pos; len = int (length cs) in
      map_option (apfst MATH_TOKEN_NUMBER)
        (if c = CHR ''0'' \<and> pos + 1 < len then
           let nxt = chr_at cs (pos + 1) in
           if nxt = CHR ''x'' \<or> nxt = CHR ''X'' then scan_digits 16 cs (pos + 2) 0
           else if 48 \<le> (of_char nxt :: nat) \<and> (of_char nxt :: nat) \<le> 55 then scan_digits 8 cs (pos + 1) 0
           else Some (0, pos + 1)
         else scan_digits 10 cs pos 0))"

definition operator_token :: "char \<Rightarrow> string \<Rightarrow> int \<Rightarrow> math_token \<times> int" where
  \<comment> \<open>the \<open>switch\<close> on the character \<open>c\<close> just before \<open>pos\<close>\<close>
  "operator_token c cs pos =
     (let n = chr_at cs pos; n2 = chr_at cs (pos + 1);
          assign = (\<lambda>t u. if n = CHR ''='' then (t, pos + 1) else (u, pos)) in
      if c = CHR ''('' then (MATH_TOKEN_LPAREN, pos)
      else if c = CHR '')'' then (MATH_TOKEN_RPAREN, pos)
      else if c = CHR ''+'' then assign MATH_TOKEN_PLUS_ASSIGN MATH_TOKEN_PLUS
      else if c = CHR ''-'' then assign MATH_TOKEN_MINUS_ASSIGN MATH_TOKEN_MINUS
      else if c = CHR ''*'' then assign MATH_TOKEN_MULTIPLY_ASSIGN MATH_TOKEN_MULTIPLY
      else if c = CHR ''/'' then assign MATH_TOKEN_DIVIDE_ASSIGN MATH_TOKEN_DIVIDE
      else if c = CHR ''%'' then assign MATH_TOKEN_MODULO_ASSIGN MATH_TOKEN_MODULO
      else if c = CHR ''~'' then (MATH_TOKEN_BIT_NOT, pos)
      else if c = CHR ''!'' then assign MATH_TOKEN_NOT_EQUAL MATH_TOKEN_LOGICAL_NOT
      else if c = CHR ''<'' then
        if n = CHR ''<'' then
          if n2 = CHR ''='' then (MATH_TOKEN_LEFT_SHIFT_ASSIGN, pos + 2) else (MATH_TOKEN_LEFT_SHIFT, pos + 1)
        else assign MATH_TOKEN_LESS_EQUAL MATH_TOKEN_LESS
      else if c = CHR ''>'' then
        if n = CHR ''>'' then
          if n2 = CHR ''='' then (MATH_TOKEN_RIGHT_SHIFT_ASSIGN, pos + 2) else (MATH_TOKEN_RIGHT_SHIFT, pos + 1)
        else assign MATH_TOKEN_GREATER_EQUAL MATH_TOKEN_GREATER
      else if c = CHR ''='' then assign MATH_TOKEN_EQUAL MATH_TOKEN_ASSIGN
      else if c = CHR ''&'' then
        if n = CHR ''&'' then (MATH_TOKEN_LOGICAL_AND, pos + 1)
        else assign MATH_TOKEN_AND_ASSIGN MATH_TOKEN_BIT_AND
      else if c = CHR ''^'' then assign MATH_TOKEN_XOR_ASSIGN MATH_TOKEN_BIT_XOR
      else if c = CHR ''|'' then
        if n = CHR ''|'' then (MATH_TOKEN_LOGICAL_OR, pos + 1)
        else assign MATH_TOKEN_OR_ASSIGN MATH_TOKEN_BIT_OR
      else if c = CHR ''?'' then (MATH_TOKEN_QUESTION, pos)
      else if c = CHR '':'' then (MATH_TOKEN_COLON, pos)
      else if c = CHR '','' then (MATH_TOKEN_COMMA, pos)
      else (MATH_TOKEN_EOF, pos))"

definition get_token :: "string \<Rightarrow> int \<Rightarrow> (math_token \<times> int) option" where
  "get_token cs pos =
     (let pos = skip_whitespace cs pos in
      if int (length cs) = pos then Some (MATH_TOKEN_EOF, pos)
      else let c = chr_at cs pos in
      if c_isdigit c then scan_number cs pos
      else if is_alpha_or_underscore c then
        let endpos = find_not_at is_alnum_or_underscore cs pos
        in Some (MATH_TOKEN_VARIABLE (str_range cs pos endpos), endpos)
      else Some (operator_token c cs (pos + 1)))"

subsection \<open>Operators\<close>

definition get_precedence :: "math_token \<Rightarrow> int" where
  "get_precedence t = (case t of
      MATH_TOKEN_COMMA \<Rightarrow> 1
    | MATH_TOKEN_QUESTION \<Rightarrow> 3
    | MATH_TOKEN_LOGICAL_OR \<Rightarrow> 4
    | MATH_TOKEN_LOGICAL_AND \<Rightarrow> 5
    | MATH_TOKEN_BIT_OR \<Rightarrow> 6
    | MATH_TOKEN_BIT_XOR \<Rightarrow> 7
    | MATH_TOKEN_BIT_AND \<Rightarrow> 8
    | MATH_TOKEN_EQUAL \<Rightarrow> 9 | MATH_TOKEN_NOT_EQUAL \<Rightarrow> 9
    | MATH_TOKEN_LESS \<Rightarrow> 10 | MATH_TOKEN_GREATER \<Rightarrow> 10
    | MATH_TOKEN_LESS_EQUAL \<Rightarrow> 10 | MATH_TOKEN_GREATER_EQUAL \<Rightarrow> 10
    | MATH_TOKEN_LEFT_SHIFT \<Rightarrow> 11 | MATH_TOKEN_RIGHT_SHIFT \<Rightarrow> 11
    | MATH_TOKEN_PLUS \<Rightarrow> 12 | MATH_TOKEN_MINUS \<Rightarrow> 12
    | MATH_TOKEN_MULTIPLY \<Rightarrow> 13 | MATH_TOKEN_DIVIDE \<Rightarrow> 13 | MATH_TOKEN_MODULO \<Rightarrow> 13
    | _ \<Rightarrow> -1)"

definition is_right_associative :: "math_token \<Rightarrow> bool" where
  "is_right_associative t \<longleftrightarrow> t = MATH_TOKEN_QUESTION"

definition c_bool :: "bool \<Rightarrow> int" where
  "c_bool b = (if b then 1 else 0)"

definition c_div :: "int \<Rightarrow> int \<Rightarrow> int" where
  \<comment> \<open>division truncates towards zero\<close>
  "c_div a b = sgn a * sgn b * (\<bar>a\<bar> div \<bar>b\<bar>)"

definition c_shl :: "int \<Rightarrow> int \<Rightarrow> int option" where
  "c_shl a b = (if 0 \<le> b \<and> b < 64 \<and> 0 \<le> a then c_long (a * 2 ^ nat b) else None)"

definition c_shr :: "int \<Rightarrow> int \<Rightarrow> int option" where
  \<comment> \<open>arithmetic shift, as every compiler for these targets has it\<close>
  "c_shr a b = (if 0 \<le> b \<and> b < 64 then Some (a div 2 ^ nat b) else None)"

unbundle bit_operations_syntax

definition unary_op :: "math_token \<Rightarrow> int \<Rightarrow> int option" where
  "unary_op t v = (case t of
      MATH_TOKEN_MINUS \<Rightarrow> c_long (- v)
    | MATH_TOKEN_BIT_NOT \<Rightarrow> Some (NOT v)
    | MATH_TOKEN_LOGICAL_NOT \<Rightarrow> Some (c_bool (v = 0))
    | _ \<Rightarrow> Some v)"

text \<open>The final \<open>switch\<close> on a binary operator: undefined, an error message, or a value.\<close>

definition binary_op :: "math_token \<Rightarrow> int \<Rightarrow> int \<Rightarrow> (string + int) option" where
  "binary_op t a b =
     (let val = map_option Inr; bool = (\<lambda>p. Some (Inr (c_bool p))) in
      case t of
        MATH_TOKEN_MULTIPLY \<Rightarrow> val (c_long (a * b))
      | MATH_TOKEN_DIVIDE \<Rightarrow> if b = 0 then Some (Inl ''Division by zero'') else val (c_long (c_div a b))
      | MATH_TOKEN_MODULO \<Rightarrow> if b = 0 then Some (Inl ''Modulo by zero'')
                             else val (do { q \<leftarrow> c_long (c_div a b); Some (a - q * b) })
      | MATH_TOKEN_PLUS \<Rightarrow> val (c_long (a + b))
      | MATH_TOKEN_MINUS \<Rightarrow> val (c_long (a - b))
      | MATH_TOKEN_LEFT_SHIFT \<Rightarrow> val (c_shl a b)
      | MATH_TOKEN_RIGHT_SHIFT \<Rightarrow> val (c_shr a b)
      | MATH_TOKEN_LESS \<Rightarrow> bool (a < b)
      | MATH_TOKEN_GREATER \<Rightarrow> bool (a > b)
      | MATH_TOKEN_LESS_EQUAL \<Rightarrow> bool (a \<le> b)
      | MATH_TOKEN_GREATER_EQUAL \<Rightarrow> bool (a \<ge> b)
      | MATH_TOKEN_EQUAL \<Rightarrow> bool (a = b)
      | MATH_TOKEN_NOT_EQUAL \<Rightarrow> bool (a \<noteq> b)
      | MATH_TOKEN_BIT_AND \<Rightarrow> Some (Inr (a AND b))
      | MATH_TOKEN_BIT_XOR \<Rightarrow> Some (Inr (a XOR b))
      | MATH_TOKEN_BIT_OR \<Rightarrow> Some (Inr (a OR b))
      | MATH_TOKEN_LOGICAL_AND \<Rightarrow> bool (a \<noteq> 0 \<and> b \<noteq> 0)
      | MATH_TOKEN_LOGICAL_OR \<Rightarrow> bool (a \<noteq> 0 \<or> b \<noteq> 0)
      | _ \<Rightarrow> Some (Inl ''Unknown binary operator''))"

definition is_assignment :: "math_token \<Rightarrow> bool" where
  "is_assignment t \<longleftrightarrow> t \<in> {MATH_TOKEN_ASSIGN, MATH_TOKEN_MULTIPLY_ASSIGN, MATH_TOKEN_DIVIDE_ASSIGN,
     MATH_TOKEN_MODULO_ASSIGN, MATH_TOKEN_PLUS_ASSIGN, MATH_TOKEN_MINUS_ASSIGN, MATH_TOKEN_LEFT_SHIFT_ASSIGN,
     MATH_TOKEN_RIGHT_SHIFT_ASSIGN, MATH_TOKEN_AND_ASSIGN, MATH_TOKEN_XOR_ASSIGN, MATH_TOKEN_OR_ASSIGN}"

definition assign_op :: "math_token \<Rightarrow> int \<Rightarrow> int \<Rightarrow> (string + int) option" where
  \<comment> \<open>the \<open>switch\<close> on the assignment operator, from the variable's number and the right side\<close>
  "assign_op t var_num v =
     (let val = map_option Inr in
      case t of
        MATH_TOKEN_MULTIPLY_ASSIGN \<Rightarrow> val (c_long (var_num * v))
      | MATH_TOKEN_DIVIDE_ASSIGN \<Rightarrow> if v = 0 then Some (Inl ''Division by zero in assignment'')
                                    else val (c_long (c_div var_num v))
      | MATH_TOKEN_MODULO_ASSIGN \<Rightarrow> if v = 0 then Some (Inl ''Modulo by zero in assignment'')
                                    else val (do { q \<leftarrow> c_long (c_div var_num v); Some (var_num - q * v) })
      | MATH_TOKEN_PLUS_ASSIGN \<Rightarrow> val (c_long (var_num + v))
      | MATH_TOKEN_MINUS_ASSIGN \<Rightarrow> val (c_long (var_num - v))
      | MATH_TOKEN_LEFT_SHIFT_ASSIGN \<Rightarrow> val (c_shl var_num v)
      | MATH_TOKEN_RIGHT_SHIFT_ASSIGN \<Rightarrow> val (c_shr var_num v)
      | MATH_TOKEN_AND_ASSIGN \<Rightarrow> Some (Inr (var_num AND v))
      | MATH_TOKEN_XOR_ASSIGN \<Rightarrow> Some (Inr (var_num XOR v))
      | MATH_TOKEN_OR_ASSIGN \<Rightarrow> Some (Inr (var_num OR v))
      | _ \<Rightarrow> Some (Inr v))"

subsection \<open>Parsing and evaluating\<close>

text \<open>What a parsing function returns: an \<open>ArithmeticResult\<close> (a value, or an error with its
  message) with the position and the frame it leaves; undefined behaviour; or, of the model
  alone, the end of the fuel.\<close>

datatype arithmetic_result = Value int int frame_vars | Error string int frame_vars | Undefined | Exhausted

definition quoted :: "char \<Rightarrow> string" where
  "quoted c = [CHR 0x27, c, CHR 0x27]"

definition variable_number :: "frame_vars \<Rightarrow> string \<Rightarrow> int option" where
  "variable_number frame name =
     do { has \<leftarrow> frame_has_variable frame name;
          if has then do { v \<leftarrow> frame_get_variable_value frame name; Some (string_atol v) } else Some 0 }"

definition store_number :: "frame_vars \<Rightarrow> string \<Rightarrow> int \<Rightarrow> frame_vars option" where
  \<comment> \<open>the status of the assignment is ignored\<close>
  "store_number frame name v = map_option fst (frame_set_variable frame name (string_from_long v))"

text \<open>The tokens that \<open>parse_primary\<close> tells apart.\<close>

datatype primary_kind = Number_token int | Variable_token string | Lparen_token | Other_token

definition primary_kind :: "math_token \<Rightarrow> primary_kind" where
  "primary_kind t = (case t of MATH_TOKEN_NUMBER v \<Rightarrow> Number_token v | MATH_TOKEN_VARIABLE name \<Rightarrow> Variable_token name
     | MATH_TOKEN_LPAREN \<Rightarrow> Lparen_token | _ \<Rightarrow> Other_token)"

text \<open>Sequencing: \<open>if (result.failed) return result;\<close> after a call, and fetching a token.\<close>

definition after_value :: "arithmetic_result \<Rightarrow> (int \<Rightarrow> int \<Rightarrow> frame_vars \<Rightarrow> arithmetic_result) \<Rightarrow> arithmetic_result" where
  "after_value r f = (case r of Value v pos frame \<Rightarrow> f v pos frame | _ \<Rightarrow> r)"

definition with_token :: "string \<Rightarrow> int \<Rightarrow> (math_token \<Rightarrow> int \<Rightarrow> arithmetic_result) \<Rightarrow> arithmetic_result" where
  "with_token cs pos f = (case get_token cs pos of None \<Rightarrow> Undefined | Some (t, pos) \<Rightarrow> f t pos)"

definition defined :: "'a option \<Rightarrow> ('a \<Rightarrow> arithmetic_result) \<Rightarrow> arithmetic_result" where
  "defined x f = (case x of None \<Rightarrow> Undefined | Some v \<Rightarrow> f v)"

definition no_failure :: "string + int \<Rightarrow> int \<Rightarrow> frame_vars \<Rightarrow> (int \<Rightarrow> arithmetic_result) \<Rightarrow> arithmetic_result" where
  "no_failure x pos frame f = (case x of Inl msg \<Rightarrow> Error msg pos frame | Inr v \<Rightarrow> f v)"

definition assign_variable :: "math_token \<Rightarrow> string \<Rightarrow> int \<Rightarrow> int \<Rightarrow> frame_vars \<Rightarrow> arithmetic_result" where
  \<comment> \<open>the end of an assignment: the operator, and the update of the frame\<close>
  "assign_variable op name v pos frame =
     defined (variable_number frame name) (\<lambda>var_num.
       defined (assign_op op var_num v) (\<lambda>r. no_failure r pos frame (\<lambda>v.
         defined (store_number frame name v) (\<lambda>frame. Value v pos frame))))"

definition is_unary :: "math_token \<Rightarrow> bool" where
  "is_unary t \<longleftrightarrow> t = MATH_TOKEN_PLUS \<or> t = MATH_TOKEN_MINUS \<or> t = MATH_TOKEN_BIT_NOT \<or> t = MATH_TOKEN_LOGICAL_NOT"

definition next_min_prec :: "math_token \<Rightarrow> int" where
  "next_min_prec op = (if is_right_associative op then get_precedence op else get_precedence op + 1)"

function (sequential) parse_expression :: "nat \<Rightarrow> string \<Rightarrow> int \<Rightarrow> int \<Rightarrow> frame_vars \<Rightarrow> arithmetic_result"
  and parse_operators :: "nat \<Rightarrow> string \<Rightarrow> int \<Rightarrow> int \<Rightarrow> int \<Rightarrow> frame_vars \<Rightarrow> arithmetic_result"
  and parse_primary :: "nat \<Rightarrow> string \<Rightarrow> int \<Rightarrow> frame_vars \<Rightarrow> arithmetic_result" where
  "parse_expression 0 cs min_prec pos frame = Exhausted"
| "parse_expression (Suc n) cs min_prec pos frame =
     with_token cs pos (\<lambda>t pos'.
       if is_unary t
       then after_value (parse_expression n cs 14 pos' frame) (\<lambda>v pos frame.
              defined (unary_op t v) (\<lambda>v. parse_operators n cs min_prec v pos frame))
       else after_value (parse_primary n cs pos frame) (\<lambda>v pos frame.
              parse_operators n cs min_prec v pos frame))"
| "parse_operators 0 cs min_prec left pos frame = Exhausted"
  \<comment> \<open>the \<open>while (1)\<close> loop of \<open>parse_expression\<close>\<close>
| "parse_operators (Suc n) cs min_prec left pos frame =
     with_token cs pos (\<lambda>op pos'.
       if get_precedence op < min_prec then Value left pos frame
       else if op = MATH_TOKEN_COMMA then
         after_value (parse_expression n cs (next_min_prec op) pos' frame) (\<lambda>right pos frame.
           parse_operators n cs min_prec left pos frame)
       else if op = MATH_TOKEN_QUESTION then
         after_value (parse_expression n cs 0 pos' frame) (\<lambda>true_value pos frame.
           with_token cs pos (\<lambda>t pos.
             if t \<noteq> MATH_TOKEN_COLON
             then Error (''Expected '' @ quoted CHR '':'' @ '' in ternary expression'') pos frame
             else after_value (parse_expression n cs (get_precedence op) pos frame) (\<lambda>false_value pos frame.
               parse_operators n cs min_prec (if left \<noteq> 0 then true_value else false_value) pos frame)))
       else if op = MATH_TOKEN_LOGICAL_OR \<and> left \<noteq> 0 then Value left pos' frame
       else if op = MATH_TOKEN_LOGICAL_AND \<and> left = 0 then Value left pos' frame
       else
         after_value (parse_expression n cs (next_min_prec op) pos' frame) (\<lambda>right pos frame.
           defined (binary_op op left right) (\<lambda>r. no_failure r pos frame (\<lambda>v.
             parse_operators n cs min_prec v pos frame))))"
| "parse_primary 0 cs pos frame = Exhausted"
| "parse_primary (Suc n) cs pos frame =
     with_token cs pos (\<lambda>t pos.
       case primary_kind t of
         Number_token v \<Rightarrow> Value v pos frame
       | Variable_token name \<Rightarrow>
           with_token cs pos (\<lambda>next_token pos'.
             if \<not> is_assignment next_token
             then defined (variable_number frame name) (\<lambda>num. Value num pos frame)
             else after_value (parse_expression n cs 0 pos' frame) (\<lambda>v pos frame.
               assign_variable next_token name v pos frame))
       | Lparen_token \<Rightarrow>
           after_value (parse_expression n cs 0 pos frame) (\<lambda>v pos frame.
             with_token cs pos (\<lambda>t pos.
               if t \<noteq> MATH_TOKEN_RPAREN then Error (''Expected '' @ quoted CHR '')'') pos frame
               else Value v pos frame))
       | Other_token \<Rightarrow> Error (''Expected number, variable, or '' @ quoted CHR ''('') pos frame)"

  by pat_completeness auto
termination
  by (relation "measure (case_sum fst (case_sum fst fst))") simp_all

definition arithmetic_fuel :: "string \<Rightarrow> nat" where
  "arithmetic_fuel cs = 3 * length cs + 3"

definition arithmetic_evaluate :: "frame_vars \<Rightarrow> string \<Rightarrow> arithmetic_result" where
  \<comment> \<open>the steps after the expansion, on the expanded text\<close>
  "arithmetic_evaluate frame cs =
     (if cs = [] then Value 0 0 frame
      else (case parse_expression (arithmetic_fuel cs) cs 0 0 frame of
              Value v pos frame \<Rightarrow>
                with_token cs pos (\<lambda>t pos.
                  if t \<noteq> MATH_TOKEN_EOF then Error ''Unexpected tokens after expression'' pos frame
                  else Value v pos frame)
            | Error msg pos frame \<Rightarrow> with_token cs pos (\<lambda>t pos. Error msg pos frame)
            | r \<Rightarrow> r))"

end
