(* ===== verification/Arithmetic_Proofs.thy ===== *)
theory Arithmetic_Proofs
  imports Arithmetic
begin

section \<open>Correctness of arithmetic evaluation\<close>

text \<open>
  The fuel that the evaluation chooses is enough for every text; more fuel does not change a
  result; and parsing the text of a syntax tree computes what a reference evaluator computes
  on the tree, so precedence and associativity are respected.
\<close>

subsection \<open>Tokens make progress\<close>

definition pos_ok :: "string \<Rightarrow> int \<Rightarrow> bool" where
  "pos_ok cs pos \<longleftrightarrow> -1 \<le> pos \<and> pos \<le> int (length cs)"

definition remaining :: "string \<Rightarrow> int \<Rightarrow> nat" where
  \<comment> \<open>the text left; at position -1, where every token is the end, none\<close>
  "remaining cs pos = (if pos < 0 then 0 else nat (int (length cs) - pos))"

lemma chr_at_out: "pos < 0 \<or> int (length cs) \<le> pos \<Longrightarrow> chr_at cs pos = NUL"
  by (auto simp: chr_at_def)

lemma chr_at_in: "chr_at cs pos \<noteq> NUL \<Longrightarrow> 0 \<le> pos \<and> pos < int (length cs)"
  using chr_at_out [of pos cs] by force

lemma skip_whitespace_bounds:
  "pos_ok cs pos \<Longrightarrow> pos \<le> skip_whitespace cs pos \<and> pos_ok cs (skip_whitespace cs pos) \<and>
    (pos = -1 \<longrightarrow> skip_whitespace cs pos = -1)"
proof (induction cs pos rule: skip_whitespace.induct)
  case (1 cs pos)
  have "\<not> c_isspace NUL" by (simp add: c_isspace_def)
  then have "c_isspace (chr_at cs pos) \<Longrightarrow> 0 \<le> pos" using chr_at_in [of cs pos] by metis
  then show ?case
    using 1 by (subst (1 2 3) skip_whitespace.simps) (auto simp: pos_ok_def)
qed

lemma scan_digits_bounds:
  "scan_digits base cs pos v = Some (v', pos') \<Longrightarrow> pos \<le> int (length cs) \<Longrightarrow>
    pos \<le> pos' \<and> pos' \<le> int (length cs)"
proof (induction base cs pos v rule: scan_digits.induct)
  case (1 base cs pos v)
  show ?case
  proof (cases "pos < int (length cs) \<and> (\<exists>d. digit_value (chr_at cs pos) = Some d \<and> d < base)")
    case True
    then obtain d where d: "pos < int (length cs)" "digit_value (chr_at cs pos) = Some d" "d < base" by blast
    then obtain m u where mu: "c_long (v * base) = Some m" "c_long (m + d) = Some u"
        "scan_digits base cs (pos + 1) u = Some (v', pos')"
      using 1(2) by (subst (asm) scan_digits.simps) (auto simp: bind_Some_iff)
    then show ?thesis using 1(1) [OF d(1) d(2,3) mu(1,2,3)] d(1) by simp
  next
    case False
    then have "pos' = pos"
      using 1(2) by (subst (asm) scan_digits.simps) (auto split: option.splits if_splits)
    then show ?thesis using 1(3) by simp
  qed
qed

lemma digit_value_isdigit: "c_isdigit c \<Longrightarrow> \<exists>d<10. digit_value c = Some d"
  by (auto simp: c_isdigit_def digit_value_def Let_def of_char_int)

lemma scan_number_progress:
  assumes "scan_number cs pos = Some (t, pos')" "c_isdigit (chr_at cs pos)" "0 \<le> pos" "pos < int (length cs)"
  shows "pos < pos' \<and> pos' \<le> int (length cs) \<and> t \<noteq> MATH_TOKEN_EOF"
proof -
  have dec: "pos < p'" if "scan_digits 10 cs pos 0 = Some (v, p')" for v p'
  proof -
    obtain d where d: "d < 10" "digit_value (chr_at cs pos) = Some d" using digit_value_isdigit [OF assms(2)] by blast
    have eq: "scan_digits 10 cs pos 0 = do { m \<leftarrow> c_long (0 * 10); v \<leftarrow> c_long (m + d); scan_digits 10 cs (pos + 1) v }"
      using d assms(4) by (subst scan_digits.simps) simp
    have "\<exists>u. scan_digits 10 cs (pos + 1) u = Some (v, p')"
      using that unfolding eq bind_Some_iff by blast
    then obtain u where "scan_digits 10 cs (pos + 1) u = Some (v, p')" by blast
    then show ?thesis using scan_digits_bounds [of 10 cs "pos + 1" u v p'] assms(4) by simp
  qed
  show ?thesis
    using assms dec scan_digits_bounds [of 16 cs "pos + 2" 0] scan_digits_bounds [of 8 cs "pos + 1" 0]
      scan_digits_bounds [of 10 cs pos 0]
    by (fastforce simp: scan_number_def Let_def split: if_splits)
qed

lemma find_not_at_bounds:
  "0 \<le> pos \<Longrightarrow> find_not_at f cs pos = -1 \<or> pos \<le> find_not_at f cs pos \<and> find_not_at f cs pos < int (length cs)"
  by (induction f cs pos rule: find_not_at.induct) (subst (1 2 3) find_not_at.simps, auto)

lemma operator_token_bounds:
  assumes "operator_token c cs pos = (t, pos')" "pos \<le> int (length cs)" "0 \<le> pos"
  shows "pos \<le> pos' \<and> pos' \<le> int (length cs)"
proof -
  have "chr_at cs pos \<noteq> NUL \<Longrightarrow> pos < int (length cs)" "chr_at cs (pos + 1) \<noteq> NUL \<Longrightarrow> pos + 1 < int (length cs)"
    using chr_at_in [of cs pos] chr_at_in [of cs "pos + 1"] by auto
  then show ?thesis
    using assms by (auto simp: operator_token_def Let_def split: if_splits)
qed

lemma get_token_progress:
  assumes "get_token cs pos = Some (t, pos')" "pos_ok cs pos"
  shows "pos_ok cs pos' \<and> (t \<noteq> MATH_TOKEN_EOF \<longrightarrow> remaining cs pos' < remaining cs pos)"
proof -
  let ?p = "skip_whitespace cs pos"
  have sw: "pos \<le> ?p" "pos_ok cs ?p" "pos = -1 \<longrightarrow> ?p = -1" using skip_whitespace_bounds [OF assms(2)] by auto
  have nn: "0 \<le> ?p \<Longrightarrow> 0 \<le> pos" using sw assms(2) by (cases "pos = -1") (auto simp: pos_ok_def)
  have nul: "\<not> c_isdigit NUL" "\<not> is_alpha_or_underscore NUL" "\<not> is_alnum_or_underscore NUL"
    by (simp_all add: c_isdigit_def is_alpha_or_underscore_def is_alnum_or_underscore_def c_isalpha_def c_isalnum_def)
  show ?thesis
  proof (cases "?p = int (length cs)")
    case True
    then show ?thesis using assms sw by (simp add: get_token_def Let_def)
  next
    case False
    then have lt: "?p < int (length cs)" using sw(2) by (simp add: pos_ok_def)
    consider (number) "c_isdigit (chr_at cs ?p)" | (name) "\<not> c_isdigit (chr_at cs ?p)" "is_alpha_or_underscore (chr_at cs ?p)"
      | (operator) "\<not> c_isdigit (chr_at cs ?p)" "\<not> is_alpha_or_underscore (chr_at cs ?p)" by blast
    then show ?thesis
    proof cases
      case number
      then have "0 \<le> ?p" using chr_at_in [of cs ?p] nul by metis
      moreover have "scan_number cs ?p = Some (t, pos')"
        using assms(1) number lt by (simp add: get_token_def Let_def)
      ultimately show ?thesis
        using scan_number_progress [OF _ number _ lt, of t pos'] sw nn
        by (auto simp: pos_ok_def remaining_def)
    next
      case name
      then have p0: "0 \<le> ?p" using chr_at_in [of cs ?p] nul by metis
      have t: "pos' = find_not_at is_alnum_or_underscore cs ?p"
        using assms(1) name lt by (simp add: get_token_def Let_def)
      have "is_alnum_or_underscore (cs ! nat ?p)"
        using name(2) p0 lt by (auto simp: chr_at_def is_alpha_or_underscore_def is_alnum_or_underscore_def c_isalnum_def)
      then have "pos' = find_not_at is_alnum_or_underscore cs (?p + 1)"
        using t p0 lt by (subst (asm) find_not_at.simps) simp
      then show ?thesis
        using find_not_at_bounds [of "?p + 1" is_alnum_or_underscore cs] p0 lt sw nn
        by (auto simp: pos_ok_def remaining_def)
    next
      case operator
      then have o: "operator_token (chr_at cs ?p) cs (?p + 1) = (t, pos')"
        using assms(1) lt by (simp add: get_token_def Let_def)
      show ?thesis
      proof (cases "?p = -1")
        case True
        then have "t = MATH_TOKEN_EOF" "pos' = 0"
          using o chr_at_out [of "-1" cs] by (auto simp: operator_token_def Let_def)
        then show ?thesis by (simp add: pos_ok_def)
      next
        case False
        then have "0 \<le> ?p" using sw(2) by (simp add: pos_ok_def)
        then show ?thesis
          using operator_token_bounds [OF o] lt sw nn by (auto simp: pos_ok_def remaining_def)
      qed
    qed
  qed
qed

subsection \<open>Enough fuel\<close>

text \<open>A result that is not the end of the fuel and, if a value, leaves less than \<open>k\<close> characters.\<close>

definition settles :: "string \<Rightarrow> nat \<Rightarrow> arithmetic_result \<Rightarrow> bool" where
  "settles cs k r \<longleftrightarrow> (case r of Value v pos frame \<Rightarrow> pos_ok cs pos \<and> remaining cs pos < k
     | Exhausted \<Rightarrow> False | _ \<Rightarrow> True)"

lemma settles_simps [simp]:
  "settles cs k (Value v pos frame) \<longleftrightarrow> pos_ok cs pos \<and> remaining cs pos < k"
  "settles cs k (Error msg pos frame)" "settles cs k Undefined" "\<not> settles cs k Exhausted"
  by (simp_all add: settles_def)

lemma settles_mono: "settles cs k r \<Longrightarrow> k \<le> k' \<Longrightarrow> settles cs k' r"
  by (auto simp: settles_def split: arithmetic_result.splits)

lemma settles_after:
  "settles cs k r \<Longrightarrow> (\<And>v pos frame. pos_ok cs pos \<Longrightarrow> remaining cs pos < k \<Longrightarrow> settles cs k' (g v pos frame)) \<Longrightarrow>
    settles cs k' (after_value r g)"
  by (cases r) (auto simp: after_value_def)

lemma settles_token:
  "pos_ok cs pos \<Longrightarrow> (\<And>t pos'. pos_ok cs pos' \<Longrightarrow> (t \<noteq> MATH_TOKEN_EOF \<Longrightarrow> remaining cs pos' < remaining cs pos) \<Longrightarrow>
      settles cs k (f t pos')) \<Longrightarrow> settles cs k (with_token cs pos f)"
  using get_token_progress [of cs pos] by (auto simp: with_token_def split: option.splits)

lemma settles_defined: "(\<And>v. settles cs k (f v)) \<Longrightarrow> settles cs k (defined x f)"
  by (auto simp: defined_def split: option.splits)

lemma settles_no_failure: "(\<And>v. settles cs k (f v)) \<Longrightarrow> settles cs k (no_failure x pos frame f)"
  by (auto simp: no_failure_def split: sum.splits)

lemma settles_if: "settles cs k x \<Longrightarrow> settles cs k y \<Longrightarrow> settles cs k (if b then x else y)"
  by simp

lemmas settles_rules = settles_token settles_defined settles_no_failure

lemma eof_precedence [simp]: "get_precedence MATH_TOKEN_EOF = -1" "\<not> is_unary MATH_TOKEN_EOF"
  "primary_kind MATH_TOKEN_EOF = Other_token" "\<not> is_assignment MATH_TOKEN_EOF"
  by (simp_all add: get_precedence_def is_unary_def primary_kind_def is_assignment_def)

lemma not_eof: "is_unary t \<Longrightarrow> t \<noteq> MATH_TOKEN_EOF" "is_assignment t \<Longrightarrow> t \<noteq> MATH_TOKEN_EOF"
  "primary_kind t = Number_token v \<Longrightarrow> t \<noteq> MATH_TOKEN_EOF" "primary_kind t = Variable_token name \<Longrightarrow> t \<noteq> MATH_TOKEN_EOF"
  "primary_kind t = Lparen_token \<Longrightarrow> t \<noteq> MATH_TOKEN_EOF" "0 \<le> get_precedence t \<Longrightarrow> t \<noteq> MATH_TOKEN_EOF"
  by auto

lemma settles_assign: "pos_ok cs pos \<Longrightarrow> remaining cs pos < k \<Longrightarrow> settles cs k (assign_variable op name v pos frame)"
  unfolding assign_variable_def by (intro settles_defined settles_no_failure) simp

lemma next_min_prec_nonneg: "0 \<le> get_precedence op \<Longrightarrow> 0 \<le> next_min_prec op"
  by (simp add: next_min_prec_def)

lemma enough_fuel:
  "(pos_ok cs pos \<longrightarrow> 0 \<le> m \<longrightarrow> 3 * remaining cs pos + 3 \<le> n \<longrightarrow>
     settles cs (remaining cs pos) (parse_expression n cs m pos frame)) \<and>
   (pos_ok cs pos \<longrightarrow> 0 \<le> m \<longrightarrow> 3 * remaining cs pos + 1 \<le> n \<longrightarrow>
     settles cs (Suc (remaining cs pos)) (parse_operators n cs m left pos frame)) \<and>
   (pos_ok cs pos \<longrightarrow> 3 * remaining cs pos + 2 \<le> n \<longrightarrow>
     settles cs (remaining cs pos) (parse_primary n cs pos frame))"
proof (induction n arbitrary: pos m left frame)
  case (Suc n)
  have E: "settles cs (remaining cs pos) (parse_expression n cs m pos frame)"
    if "pos_ok cs pos" "0 \<le> m" "3 * remaining cs pos + 3 \<le> n" for pos m frame using Suc.IH that by blast
  have O: "settles cs (Suc (remaining cs pos)) (parse_operators n cs m left pos frame)"
    if "pos_ok cs pos" "0 \<le> m" "3 * remaining cs pos + 1 \<le> n" for pos m left frame using Suc.IH that by blast
  have P: "settles cs (remaining cs pos) (parse_primary n cs pos frame)"
    if "pos_ok cs pos" "3 * remaining cs pos + 2 \<le> n" for pos frame using Suc.IH that by blast
  have O': "settles cs k (parse_operators n cs m left pos frame)"
    if "pos_ok cs pos" "0 \<le> m" "3 * remaining cs pos + 1 \<le> n" "remaining cs pos < k" for k pos m left frame
    using settles_mono [OF O [OF that(1-3)]] that(4) by simp
  have expr: "settles cs (remaining cs pos) (parse_expression (Suc n) cs m pos frame)"
    if p: "pos_ok cs pos" "0 \<le> m" "3 * remaining cs pos + 3 \<le> Suc n" for pos m frame
  proof (simp only: parse_expression.simps, rule settles_token [OF p(1)])
    fix t pos'
    assume t: "pos_ok cs pos'" "t \<noteq> MATH_TOKEN_EOF \<Longrightarrow> remaining cs pos' < remaining cs pos"
    show "settles cs (remaining cs pos)
      (if is_unary t then after_value (parse_expression n cs 14 pos' frame)
         (\<lambda>v pos frame. defined (unary_op t v) (\<lambda>v. parse_operators n cs m v pos frame))
       else after_value (parse_primary n cs pos frame) (parse_operators n cs m))"
    proof (cases "is_unary t")
      case True
      then have "remaining cs pos' < remaining cs pos" using t(2) not_eof(1) by blast
      then show ?thesis
        using True t(1) p by (auto intro!: settles_after [OF E] settles_defined O')
    next
      case False
      then show ?thesis
        using p by (auto intro!: settles_after [OF P] O')
    qed
  qed
  have ops: "settles cs (Suc (remaining cs pos)) (parse_operators (Suc n) cs m left pos frame)"
    if p: "pos_ok cs pos" "0 \<le> m" "3 * remaining cs pos + 1 \<le> Suc n" for pos m left frame
  proof (simp only: parse_operators.simps, rule settles_token [OF p(1)])
    fix op pos'
    assume t: "pos_ok cs pos'" "op \<noteq> MATH_TOKEN_EOF \<Longrightarrow> remaining cs pos' < remaining cs pos"
    let ?body = "if get_precedence op < m then Value left pos frame
       else if op = MATH_TOKEN_COMMA then
         after_value (parse_expression n cs (next_min_prec op) pos' frame) (\<lambda>right pos frame.
           parse_operators n cs m left pos frame)
       else if op = MATH_TOKEN_QUESTION then
         after_value (parse_expression n cs 0 pos' frame) (\<lambda>true_value pos frame.
           with_token cs pos (\<lambda>t pos.
             if t \<noteq> MATH_TOKEN_COLON
             then Error (''Expected '' @ quoted CHR '':'' @ '' in ternary expression'') pos frame
             else after_value (parse_expression n cs (get_precedence op) pos frame) (\<lambda>false_value pos frame.
               parse_operators n cs m (if left \<noteq> 0 then true_value else false_value) pos frame)))
       else if op = MATH_TOKEN_LOGICAL_OR \<and> left \<noteq> 0 then Value left pos' frame
       else if op = MATH_TOKEN_LOGICAL_AND \<and> left = 0 then Value left pos' frame
       else
         after_value (parse_expression n cs (next_min_prec op) pos' frame) (\<lambda>right pos frame.
           defined (binary_op op left right) (\<lambda>r. no_failure r pos frame (\<lambda>v.
             parse_operators n cs m v pos frame)))"
    show "settles cs (Suc (remaining cs pos)) ?body"
    proof (cases "get_precedence op < m")
      case True
      then show ?thesis using p by simp
    next
      case False
      then have op: "0 \<le> get_precedence op" "op \<noteq> MATH_TOKEN_EOF" using p(2) by auto
      then have r: "remaining cs pos' < remaining cs pos" using t(2) by blast
      have e: "settles cs (remaining cs pos') (parse_expression n cs (next_min_prec op) pos' frame)"
        "settles cs (remaining cs pos') (parse_expression n cs 0 pos' frame)"
        using E t(1) op(1) r p(3) next_min_prec_nonneg by auto
      have cond: "settles cs (Suc (remaining cs pos))
         (with_token cs pos1 (\<lambda>t pos.
             if t \<noteq> MATH_TOKEN_COLON
             then Error (''Expected '' @ quoted CHR '':'' @ '' in ternary expression'') pos frame
             else after_value (parse_expression n cs (get_precedence op) pos frame) (\<lambda>false_value pos frame.
               parse_operators n cs m (if left \<noteq> 0 then true_value else false_value) pos frame)))"
        if "pos_ok cs pos1" "remaining cs pos1 < remaining cs pos'" for pos1 true_value frame
        using that r p op(1) by (auto intro!: settles_token settles_after [OF E] O')
      have "settles cs (Suc (remaining cs pos)) (parse_operators n cs m left' pos1 frame)"
        if "pos_ok cs pos1" "remaining cs pos1 < remaining cs pos'" for left' pos1 frame
        by (rule O') (use that p r in auto)
      note steps = settles_after [OF e(1)] settles_after [OF e(2)] settles_rules(2,3) this cond
      have "settles cs (Suc (remaining cs pos)) (Value left pos' frame)" using t(1) r by simp
      then show ?thesis
        unfolding if_not_P [OF False] by (intro settles_if) (assumption | rule steps)+
    qed
  qed
  have prim: "settles cs (remaining cs pos) (parse_primary (Suc n) cs pos frame)"
    if p: "pos_ok cs pos" "3 * remaining cs pos + 2 \<le> Suc n" for pos frame
  proof (simp only: parse_primary.simps, rule settles_token [OF p(1)])
    fix t pos'
    assume t: "pos_ok cs pos'" "t \<noteq> MATH_TOKEN_EOF \<Longrightarrow> remaining cs pos' < remaining cs pos"
    show "settles cs (remaining cs pos) (case primary_kind t of
         Number_token v \<Rightarrow> Value v pos' frame
       | Variable_token name \<Rightarrow>
           with_token cs pos' (\<lambda>next_token pos''.
             if \<not> is_assignment next_token
             then defined (variable_number frame name) (\<lambda>num. Value num pos' frame)
             else after_value (parse_expression n cs 0 pos'' frame) (\<lambda>v pos frame.
               assign_variable next_token name v pos frame))
       | Lparen_token \<Rightarrow>
           after_value (parse_expression n cs 0 pos' frame) (\<lambda>v pos frame.
             with_token cs pos (\<lambda>t pos.
               if t \<noteq> MATH_TOKEN_RPAREN then Error (''Expected '' @ quoted CHR '')'') pos frame
               else Value v pos frame))
       | Other_token \<Rightarrow> Error (''Expected number, variable, or '' @ quoted CHR ''('') pos' frame)"
    proof (cases "primary_kind t")
      case Number_token
      then have "t \<noteq> MATH_TOKEN_EOF" by (rule not_eof)
      then show ?thesis using Number_token t by simp
    next
      case (Variable_token name)
      then have r: "remaining cs pos' < remaining cs pos" using t(2) not_eof by blast
      have "settles cs (remaining cs pos) (if \<not> is_assignment u
             then defined (variable_number frame name) (\<lambda>num. Value num pos' frame)
             else after_value (parse_expression n cs 0 pos'' frame) (\<lambda>v pos frame.
               assign_variable u name v pos frame))"
        if u: "pos_ok cs pos''" "u \<noteq> MATH_TOKEN_EOF \<Longrightarrow> remaining cs pos'' < remaining cs pos'" for u pos''
      proof (cases "is_assignment u")
        case True
        then have "remaining cs pos'' < remaining cs pos'" using u(2) not_eof(2) by blast
        then show ?thesis
          using True u(1) r p(2) by (auto intro!: settles_after [OF E] settles_assign)
      qed (use r t(1) in \<open>auto intro!: settles_defined\<close>)
      then show ?thesis using Variable_token by (auto intro!: settles_token [OF t(1)])
    next
      case Lparen_token
      then have r: "remaining cs pos' < remaining cs pos" using t(2) not_eof by blast
      then show ?thesis
        using Lparen_token t(1) p(2) by (auto intro!: settles_after [OF E] settles_token)
    qed simp
  qed
  show ?case using expr ops prim by blast
qed simp

lemma evaluation_fuel:
  "settles cs (length cs) (parse_expression (arithmetic_fuel cs) cs 0 0 frame)"
  using enough_fuel [of cs 0 0 "arithmetic_fuel cs"] by (simp add: pos_ok_def remaining_def arithmetic_fuel_def)

subsection \<open>More fuel\<close>

definition refines :: "arithmetic_result \<Rightarrow> arithmetic_result \<Rightarrow> bool" where
  \<comment> \<open>the same result, unless the first ran out of fuel\<close>
  "refines r r' \<longleftrightarrow> r = Exhausted \<or> r = r'"

lemma refines_refl [intro]: "refines r r" "refines Exhausted r"
  by (simp_all add: refines_def)

lemma refines_after:
  assumes "refines r r'" "\<And>v pos frame. refines (g v pos frame) (g' v pos frame)"
  shows "refines (after_value r g) (after_value r' g')"
proof (cases "r = Exhausted")
  case True
  then show ?thesis by (simp add: refines_def after_value_def)
next
  case False
  then have "r' = r" using assms(1) by (simp add: refines_def)
  then show ?thesis using assms(2) by (cases r) (auto simp: after_value_def)
qed

lemma refines_token: "(\<And>t pos. refines (f t pos) (f' t pos)) \<Longrightarrow> refines (with_token cs pos f) (with_token cs pos f')"
  by (auto simp: with_token_def refines_def split: option.splits)

lemma refines_defined: "(\<And>v. refines (f v) (f' v)) \<Longrightarrow> refines (defined x f) (defined x f')"
  by (auto simp: defined_def refines_def split: option.splits)

lemma refines_no_failure: "(\<And>v. refines (f v) (f' v)) \<Longrightarrow> refines (no_failure x pos frame f) (no_failure x pos frame f')"
  by (auto simp: no_failure_def refines_def split: sum.splits)

lemma refines_if: "refines x x' \<Longrightarrow> refines y y' \<Longrightarrow> refines (if b then x else y) (if b then x' else y')"
  by simp

lemma refines_kind:
  "(\<And>v. refines (f v) (f' v)) \<Longrightarrow> (\<And>x. refines (g x) (g' x)) \<Longrightarrow> refines h h' \<Longrightarrow> refines i i' \<Longrightarrow>
    refines (case k of Number_token v \<Rightarrow> f v | Variable_token x \<Rightarrow> g x | Lparen_token \<Rightarrow> h | Other_token \<Rightarrow> i)
      (case k of Number_token v \<Rightarrow> f' v | Variable_token x \<Rightarrow> g' x | Lparen_token \<Rightarrow> h' | Other_token \<Rightarrow> i')"
  by (cases k) auto

lemma more_fuel_step:
  "refines (parse_expression n cs m pos frame) (parse_expression (Suc n) cs m pos frame) \<and>
   refines (parse_operators n cs m left pos frame) (parse_operators (Suc n) cs m left pos frame) \<and>
   refines (parse_primary n cs pos frame) (parse_primary (Suc n) cs pos frame)"
proof (induction n arbitrary: m left pos frame)
  case (Suc n)
  have IH: "refines (parse_expression n cs m pos frame) (parse_expression (Suc n) cs m pos frame)"
    "refines (parse_operators n cs m left pos frame) (parse_operators (Suc n) cs m left pos frame)"
    "refines (parse_primary n cs pos frame) (parse_primary (Suc n) cs pos frame)" for m left pos frame
    using Suc by blast+
  note rules = refines_token refines_if refines_after refines_defined refines_no_failure refines_kind IH refines_refl(1)
  have "refines (parse_expression (Suc n) cs m pos frame) (parse_expression (Suc (Suc n)) cs m pos frame)"
    by (subst parse_expression.simps(2) [of n], subst parse_expression.simps(2) [of "Suc n"]) (rule rules)+
  moreover have "refines (parse_operators (Suc n) cs m left pos frame) (parse_operators (Suc (Suc n)) cs m left pos frame)"
    by (subst parse_operators.simps(2) [of n], subst parse_operators.simps(2) [of "Suc n"]) (rule rules)+
  moreover have "refines (parse_primary (Suc n) cs pos frame) (parse_primary (Suc (Suc n)) cs pos frame)"
    by (subst parse_primary.simps(2) [of n], subst parse_primary.simps(2) [of "Suc n"]) (rule rules)+
  ultimately show ?case by blast
qed (simp add: refines_refl)

lemma more_fuel:
  assumes "n \<le> n'"
  shows "refines (parse_expression n cs m pos frame) (parse_expression n' cs m pos frame)"
    "refines (parse_operators n cs m left pos frame) (parse_operators n' cs m left pos frame)"
    "refines (parse_primary n cs pos frame) (parse_primary n' cs pos frame)"
proof -
  have tr: "refines a b \<Longrightarrow> refines b c \<Longrightarrow> refines a c" for a b c by (auto simp: refines_def)
  show "refines (parse_expression n cs m pos frame) (parse_expression n' cs m pos frame)"
    using assms by (induction rule: dec_induct) (use more_fuel_step tr in blast)+
  show "refines (parse_operators n cs m left pos frame) (parse_operators n' cs m left pos frame)"
    using assms by (induction rule: dec_induct) (use more_fuel_step tr in blast)+
  show "refines (parse_primary n cs pos frame) (parse_primary n' cs pos frame)"
    using assms by (induction rule: dec_induct) (use more_fuel_step tr in blast)+
qed

subsection \<open>Parsing as a relation\<close>

definition expression_yields :: "string \<Rightarrow> int \<Rightarrow> int \<Rightarrow> frame_vars \<Rightarrow> int \<times> int \<times> frame_vars \<Rightarrow> bool" where
  "expression_yields cs m pos frame r \<longleftrightarrow> (case r of (v, pos', frame') \<Rightarrow> \<exists>n. parse_expression n cs m pos frame = Value v pos' frame')"

definition operators_yield :: "string \<Rightarrow> int \<Rightarrow> int \<Rightarrow> int \<Rightarrow> frame_vars \<Rightarrow> int \<times> int \<times> frame_vars \<Rightarrow> bool" where
  "operators_yield cs m left pos frame r \<longleftrightarrow> (case r of (v, pos', frame') \<Rightarrow> \<exists>n. parse_operators n cs m left pos frame = Value v pos' frame')"

definition primary_yields :: "string \<Rightarrow> int \<Rightarrow> frame_vars \<Rightarrow> int \<times> int \<times> frame_vars \<Rightarrow> bool" where
  "primary_yields cs pos frame r \<longleftrightarrow> (case r of (v, pos', frame') \<Rightarrow> \<exists>n. parse_primary n cs pos frame = Value v pos' frame')"

lemma settled_value:
  fixes F :: "nat \<Rightarrow> arithmetic_result"
  assumes "\<And>n n'. n \<le> n' \<Longrightarrow> refines (F n) (F n')"
  shows "(\<exists>n. F n = Value v pos frame) \<longleftrightarrow> (\<exists>n0. \<forall>n\<ge>n0. F n = Value v pos frame)"
proof
  assume "\<exists>n. F n = Value v pos frame"
  then obtain n where n: "F n = Value v pos frame" by blast
  have "F n' = Value v pos frame" if "n \<le> n'" for n' using assms [OF that] n by (simp add: refines_def)
  then show "\<exists>n0. \<forall>n\<ge>n0. F n = Value v pos frame" by blast
next
  assume "\<exists>n0. \<forall>n\<ge>n0. F n = Value v pos frame"
  then show "\<exists>n. F n = Value v pos frame" by (meson order_refl)
qed

lemma yields_fuel:
  "expression_yields cs m pos frame (v, pos', frame') \<longleftrightarrow> (\<exists>n0. \<forall>n\<ge>n0. parse_expression n cs m pos frame = Value v pos' frame')"
  "operators_yield cs m left pos frame (v, pos', frame') \<longleftrightarrow> (\<exists>n0. \<forall>n\<ge>n0. parse_operators n cs m left pos frame = Value v pos' frame')"
  "primary_yields cs pos frame (v, pos', frame') \<longleftrightarrow> (\<exists>n0. \<forall>n\<ge>n0. parse_primary n cs pos frame = Value v pos' frame')"
  unfolding expression_yields_def operators_yield_def primary_yields_def prod.case
  by (rule settled_value, rule more_fuel, assumption)+

text \<open>One rule per way through the parsing functions.\<close>

lemma expression_primary:
  assumes "get_token cs pos = Some (t, p0)" "\<not> is_unary t" "primary_yields cs pos frame (v, p1, f1)"
    and "operators_yield cs m v p1 f1 r"
  shows "expression_yields cs m pos frame r"
proof -
  obtain w p2 f2 where r: "r = (w, p2, f2)" by (cases r)
  obtain a b where a: "\<And>n. a \<le> n \<Longrightarrow> parse_primary n cs pos frame = Value v p1 f1"
      and b: "\<And>n. b \<le> n \<Longrightarrow> parse_operators n cs m v p1 f1 = Value w p2 f2"
    using assms(3,4) unfolding r yields_fuel by blast
  have "parse_expression (Suc (max a b)) cs m pos frame = Value w p2 f2"
    using assms(1,2) a [of "max a b"] b [of "max a b"] by (simp add: with_token_def after_value_def)
  then show ?thesis unfolding r expression_yields_def by blast
qed

lemma expression_unary:
  assumes "get_token cs pos = Some (t, p0)" "is_unary t" "expression_yields cs 14 p0 frame (v, p1, f1)"
    and "unary_op t v = Some u" and "operators_yield cs m u p1 f1 r"
  shows "expression_yields cs m pos frame r"
proof -
  obtain w p2 f2 where r: "r = (w, p2, f2)" by (cases r)
  obtain a b where a: "\<And>n. a \<le> n \<Longrightarrow> parse_expression n cs 14 p0 frame = Value v p1 f1"
      and b: "\<And>n. b \<le> n \<Longrightarrow> parse_operators n cs m u p1 f1 = Value w p2 f2"
    using assms(3,5) unfolding r yields_fuel by blast
  have "parse_expression (Suc (max a b)) cs m pos frame = Value w p2 f2"
    using assms(1,2,4) a [of "max a b"] b [of "max a b"]
    by (simp add: with_token_def after_value_def defined_def)
  then show ?thesis unfolding r expression_yields_def by blast
qed

lemma operators_stop:
  assumes "get_token cs pos = Some (t, p0)" "get_precedence t < m"
  shows "operators_yield cs m v pos frame (v, pos, frame)"
proof -
  have "parse_operators (Suc 0) cs m v pos frame = Value v pos frame" using assms by (simp add: with_token_def)
  then show ?thesis unfolding operators_yield_def by blast
qed

definition goes_on :: "math_token \<Rightarrow> int \<Rightarrow> bool" where
  \<comment> \<open>the operator is neither the comma nor the ternary one, and does not short-circuit\<close>
  "goes_on op left \<longleftrightarrow> op \<noteq> MATH_TOKEN_COMMA \<and> op \<noteq> MATH_TOKEN_QUESTION \<and>
     \<not> (op = MATH_TOKEN_LOGICAL_OR \<and> left \<noteq> 0) \<and> \<not> (op = MATH_TOKEN_LOGICAL_AND \<and> left = 0)"

lemma operators_binary:
  assumes "get_token cs pos = Some (op, p0)" "m \<le> get_precedence op" "goes_on op left"
    and "expression_yields cs (get_precedence op + 1) p0 frame (right, p1, f1)"
    and "binary_op op left right = Some (Inr u)" and "operators_yield cs m u p1 f1 r"
  shows "operators_yield cs m left pos frame r"
proof -
  obtain w p2 f2 where r: "r = (w, p2, f2)" by (cases r)
  have q: "next_min_prec op = get_precedence op + 1"
    using assms(3) by (simp add: next_min_prec_def is_right_associative_def goes_on_def)
  obtain a b where a: "\<And>n. a \<le> n \<Longrightarrow> parse_expression n cs (next_min_prec op) p0 frame = Value right p1 f1"
      and b: "\<And>n. b \<le> n \<Longrightarrow> parse_operators n cs m u p1 f1 = Value w p2 f2"
    using assms(4,6) unfolding r yields_fuel q by blast
  have "parse_operators (Suc (max a b)) cs m left pos frame = Value w p2 f2"
    using assms(1,2,3,5) a [of "max a b"] b [of "max a b"] unfolding goes_on_def
    by (auto simp: with_token_def after_value_def defined_def no_failure_def)
  then show ?thesis unfolding r operators_yield_def by blast
qed

lemma operators_comma:
  assumes "get_token cs pos = Some (MATH_TOKEN_COMMA, p0)" "m \<le> 1"
    and "expression_yields cs 2 p0 frame (right, p1, f1)" and "operators_yield cs m left p1 f1 r"
  shows "operators_yield cs m left pos frame r"
proof -
  obtain w p2 f2 where r: "r = (w, p2, f2)" by (cases r)
  have q: "next_min_prec MATH_TOKEN_COMMA = 2" "get_precedence MATH_TOKEN_COMMA = 1"
    by (simp_all add: next_min_prec_def is_right_associative_def get_precedence_def)
  obtain a b where a: "\<And>n. a \<le> n \<Longrightarrow> parse_expression n cs 2 p0 frame = Value right p1 f1"
      and b: "\<And>n. b \<le> n \<Longrightarrow> parse_operators n cs m left p1 f1 = Value w p2 f2"
    using assms(3,4) unfolding r yields_fuel by blast
  have "parse_operators (Suc (max a b)) cs m left pos frame = Value w p2 f2"
    using assms(1,2) a [of "max a b"] b [of "max a b"] q by (simp add: with_token_def after_value_def)
  then show ?thesis unfolding r operators_yield_def by blast
qed

lemma operators_question:
  assumes "get_token cs pos = Some (MATH_TOKEN_QUESTION, p0)" "m \<le> 3"
    and "expression_yields cs 0 p0 frame (x, p1, f1)" and "get_token cs p1 = Some (MATH_TOKEN_COLON, p2)"
    and "expression_yields cs 3 p2 f1 (y, p3, f3)"
    and "operators_yield cs m (if left \<noteq> 0 then x else y) p3 f3 r"
  shows "operators_yield cs m left pos frame r"
proof -
  obtain w p4 f4 where r: "r = (w, p4, f4)" by (cases r)
  have q: "get_precedence MATH_TOKEN_QUESTION = 3" by (simp add: get_precedence_def)
  obtain a b c where a: "\<And>n. a \<le> n \<Longrightarrow> parse_expression n cs 0 p0 frame = Value x p1 f1"
      and b: "\<And>n. b \<le> n \<Longrightarrow> parse_expression n cs 3 p2 f1 = Value y p3 f3"
      and c: "\<And>n. c \<le> n \<Longrightarrow> parse_operators n cs m (if left \<noteq> 0 then x else y) p3 f3 = Value w p4 f4"
    using assms(3,5,6) unfolding r yields_fuel by blast
  let ?n = "max a (max b c)"
  have "parse_operators (Suc ?n) cs m left pos frame = Value w p4 f4"
    using assms(1,2,4) a [of ?n] b [of ?n] c [of ?n] q by (simp add: with_token_def after_value_def)
  then show ?thesis unfolding r operators_yield_def by blast
qed

lemma primary_number:
  assumes "get_token cs pos = Some (MATH_TOKEN_NUMBER v, p0)"
  shows "primary_yields cs pos frame (v, p0, frame)"
proof -
  have "parse_primary (Suc 0) cs pos frame = Value v p0 frame"
    using assms by (simp add: with_token_def primary_kind_def)
  then show ?thesis unfolding primary_yields_def by blast
qed

lemma primary_variable:
  assumes "get_token cs pos = Some (MATH_TOKEN_VARIABLE x, p0)" "get_token cs p0 = Some (t, p1)" "\<not> is_assignment t"
    and "variable_number frame x = Some v"
  shows "primary_yields cs pos frame (v, p0, frame)"
proof -
  have "parse_primary (Suc 0) cs pos frame = Value v p0 frame"
    using assms by (simp add: with_token_def primary_kind_def defined_def)
  then show ?thesis unfolding primary_yields_def by blast
qed

lemma primary_assignment:
  assumes "get_token cs pos = Some (MATH_TOKEN_VARIABLE x, p0)" "get_token cs p0 = Some (t, p1)" "is_assignment t"
    and "expression_yields cs 0 p1 frame (v, p2, f2)"
    and "variable_number f2 x = Some k" "assign_op t k v = Some (Inr u)" "store_number f2 x u = Some f3"
  shows "primary_yields cs pos frame (u, p2, f3)"
proof -
  obtain a where a: "parse_expression a cs 0 p1 frame = Value v p2 f2"
    using assms(4) by (auto simp: expression_yields_def)
  have "parse_primary (Suc a) cs pos frame = Value u p2 f3"
    using assms a by (simp add: with_token_def primary_kind_def after_value_def assign_variable_def defined_def no_failure_def)
  then show ?thesis unfolding primary_yields_def by blast
qed

lemma primary_parentheses:
  assumes "get_token cs pos = Some (MATH_TOKEN_LPAREN, p0)" "expression_yields cs 0 p0 frame (v, p1, f1)"
    and "get_token cs p1 = Some (MATH_TOKEN_RPAREN, p2)"
  shows "primary_yields cs pos frame (v, p2, f1)"
proof -
  obtain a where a: "parse_expression a cs 0 p0 frame = Value v p1 f1"
    using assms(2) by (auto simp: expression_yields_def)
  have "parse_primary (Suc a) cs pos frame = Value v p2 f1"
    using assms a by (simp add: with_token_def primary_kind_def after_value_def)
  then show ?thesis unfolding primary_yields_def by blast
qed

subsection \<open>Reading the text of tokens\<close>

definition tok_text :: "math_token \<Rightarrow> string" where
  "tok_text t = (case t of
      MATH_TOKEN_LPAREN \<Rightarrow> ''('' | MATH_TOKEN_RPAREN \<Rightarrow> '')''
    | MATH_TOKEN_PLUS \<Rightarrow> ''+'' | MATH_TOKEN_MINUS \<Rightarrow> ''-'' | MATH_TOKEN_MULTIPLY \<Rightarrow> ''*''
    | MATH_TOKEN_DIVIDE \<Rightarrow> ''/'' | MATH_TOKEN_MODULO \<Rightarrow> ''%''
    | MATH_TOKEN_BIT_NOT \<Rightarrow> ''~'' | MATH_TOKEN_LOGICAL_NOT \<Rightarrow> ''!''
    | MATH_TOKEN_LEFT_SHIFT \<Rightarrow> ''<<'' | MATH_TOKEN_RIGHT_SHIFT \<Rightarrow> ''>>''
    | MATH_TOKEN_LESS \<Rightarrow> ''<'' | MATH_TOKEN_GREATER \<Rightarrow> ''>''
    | MATH_TOKEN_LESS_EQUAL \<Rightarrow> ''<='' | MATH_TOKEN_GREATER_EQUAL \<Rightarrow> ''>=''
    | MATH_TOKEN_EQUAL \<Rightarrow> ''=='' | MATH_TOKEN_NOT_EQUAL \<Rightarrow> ''!=''
    | MATH_TOKEN_BIT_AND \<Rightarrow> ''&'' | MATH_TOKEN_BIT_XOR \<Rightarrow> ''^'' | MATH_TOKEN_BIT_OR \<Rightarrow> ''|''
    | MATH_TOKEN_LOGICAL_AND \<Rightarrow> ''&&'' | MATH_TOKEN_LOGICAL_OR \<Rightarrow> ''||''
    | MATH_TOKEN_QUESTION \<Rightarrow> ''?'' | MATH_TOKEN_COLON \<Rightarrow> '':'' | MATH_TOKEN_COMMA \<Rightarrow> '',''
    | MATH_TOKEN_ASSIGN \<Rightarrow> ''='' | MATH_TOKEN_MULTIPLY_ASSIGN \<Rightarrow> ''*='' | MATH_TOKEN_DIVIDE_ASSIGN \<Rightarrow> ''/=''
    | MATH_TOKEN_MODULO_ASSIGN \<Rightarrow> ''%='' | MATH_TOKEN_PLUS_ASSIGN \<Rightarrow> ''+='' | MATH_TOKEN_MINUS_ASSIGN \<Rightarrow> ''-=''
    | MATH_TOKEN_LEFT_SHIFT_ASSIGN \<Rightarrow> ''<<='' | MATH_TOKEN_RIGHT_SHIFT_ASSIGN \<Rightarrow> ''>>=''
    | MATH_TOKEN_AND_ASSIGN \<Rightarrow> ''&='' | MATH_TOKEN_XOR_ASSIGN \<Rightarrow> ''^='' | MATH_TOKEN_OR_ASSIGN \<Rightarrow> ''|=''
    | _ \<Rightarrow> [])"

definition is_name :: "string \<Rightarrow> bool" where
  "is_name x \<longleftrightarrow> x \<noteq> [] \<and> is_alpha_or_underscore (hd x) \<and> list_all is_alnum_or_underscore x"

definition word_token :: "string \<Rightarrow> math_token \<Rightarrow> bool" where
  \<comment> \<open>the text of a token\<close>
  "word_token w t \<longleftrightarrow> (case t of
      MATH_TOKEN_NUMBER n \<Rightarrow> 0 \<le> n \<and> n \<le> LONG_MAX \<and> w = show_nat (nat n)
    | MATH_TOKEN_VARIABLE x \<Rightarrow> w = x \<and> is_name x
    | _ \<Rightarrow> w = tok_text t \<and> w \<noteq> [])"

definition reads :: "string \<Rightarrow> int \<Rightarrow> string \<Rightarrow> bool" where
  \<comment> \<open>the text from the position on, up to one space\<close>
  "reads cs i s \<longleftrightarrow> 0 \<le> i \<and> i \<le> int (length cs) \<and> (drop (nat i) cs = s \<or> drop (nat i) cs = CHR '' '' # s)"

lemma chr_at_drop: "0 \<le> i \<Longrightarrow> drop (nat i) cs = s \<Longrightarrow> chr_at cs (i + int k) = (if k < length s then s ! k else NUL)"
  by (auto simp: chr_at_def nat_add_distrib)

lemma drop_in: "0 \<le> i \<Longrightarrow> drop (nat i) cs = s \<Longrightarrow> k < length s \<Longrightarrow> i + int k < int (length cs)"
  by auto

lemma isdigit_digit_char: "d < 10 \<Longrightarrow> c_isdigit (digit_char d)"
  by (simp add: c_isdigit_def digit_char_def Let_def)

lemma show_nat_digits: "list_all c_isdigit (show_nat n) \<and> show_nat n \<noteq> []"
proof (induction n rule: show_nat.induct)
  case (1 n)
  then show ?case
    by (subst (1 2) show_nat.simps) (simp add: isdigit_digit_char)
qed

lemma show_nat_head: "0 < n \<Longrightarrow> hd (show_nat n) \<noteq> CHR ''0''"
proof (induction n rule: show_nat.induct)
  case (1 n)
  show ?case
  proof (cases "n < 10")
    case True
    then have "hd (show_nat n) = digit_char n" by (simp add: show_nat.simps)
    moreover have "(of_char (digit_char n) :: nat) \<noteq> of_char CHR ''0''"
      using True 1(2) by (simp add: digit_char_def)
    ultimately show ?thesis by metis
  next
    case False
    then show ?thesis using 1(1) [OF False] show_nat_digits [of "n div 10"] by (simp add: show_nat.simps [of n])
  qed
qed

lemma digit_char_value: "d < 10 \<Longrightarrow> digit_value (digit_char d) = Some (int d)"
proof -
  assume d: "d < 10"
  then have "(of_char (digit_char d) :: nat) = 48 + d" by (simp add: digit_char_def)
  then have "(of_char (digit_char d) :: int) = 48 + int d" by (simp add: of_char_int)
  then show ?thesis using d by (simp add: digit_value_def Let_def)
qed

lemma c_long_eval: "LONG_MIN \<le> x \<Longrightarrow> x \<le> LONG_MAX \<Longrightarrow> c_long x = Some x"
  by (simp add: c_long_def)

lemma scan_show_nat:
  assumes "0 \<le> i" "drop (nat i) cs = show_nat n @ r" "int n \<le> LONG_MAX"
  shows "scan_digits 10 cs i 0 = scan_digits 10 cs (i + int (length (show_nat n))) (int n)"
  using assms
proof (induction n arbitrary: r rule: show_nat.induct)
  case (1 n)
  have dstep: "scan_digits 10 cs j v = scan_digits 10 cs (j + 1) (v * 10 + int d)"
    if "j < int (length cs)" "chr_at cs j = digit_char d" "d < 10" "0 \<le> v" "v * 10 + int d \<le> LONG_MAX" for j v d
    using that by (subst scan_digits.simps) (simp add: digit_char_value c_long_eval)
  show ?case
  proof (cases "n < 10")
    case True
    then have s: "show_nat n = [digit_char n]" by (simp add: show_nat.simps)
    then have "i < int (length cs)" "chr_at cs i = digit_char n"
      using drop_in [OF 1(2,3), of 0] chr_at_drop [OF 1(2,3), of 0] by auto
    then show ?thesis using dstep [of i n 0] True s 1(4) by simp
  next
    case False
    have s: "show_nat n = show_nat (n div 10) @ [digit_char (n mod 10)]" using False by (simp add: show_nat.simps)
    let ?j = "i + int (length (show_nat (n div 10)))"
    have "scan_digits 10 cs i 0 = scan_digits 10 cs ?j (int (n div 10))"
      using 1(1) [OF False 1(2), of "digit_char (n mod 10) # r"] 1(3,4) s by simp
    moreover have "chr_at cs ?j = digit_char (n mod 10)"
      using chr_at_drop [OF 1(2,3), of "length (show_nat (n div 10))"] s by (simp add: nth_append)
    moreover have "?j < int (length cs)"
      using drop_in [OF 1(2,3), of "length (show_nat (n div 10))"] s by simp
    moreover have "int (n div 10) * 10 + int (n mod 10) = int n"
      using div_mult_mod_eq [of n 10] by (metis of_nat_add of_nat_mult of_nat_numeral)
    ultimately show ?thesis using dstep [of ?j "n mod 10" "int (n div 10)"] s 1(4) by (simp add: ac_simps)
  qed
qed

lemma get_token_space: "chr_at cs i = CHR '' '' \<Longrightarrow> get_token cs i = get_token cs (i + 1)"
proof -
  assume c: "chr_at cs i = CHR '' ''"
  then have "i < int (length cs)" "c_isspace (chr_at cs i)"
    using chr_at_in [of cs i] by (auto simp: c_isspace_def)
  then have "skip_whitespace cs i = skip_whitespace cs (i + 1)" by (subst skip_whitespace.simps) simp
  then show ?thesis by (simp add: get_token_def)
qed

lemma reads_exact:
  assumes "reads cs i s"
  obtains j where "0 \<le> j" "j \<le> int (length cs)" "drop (nat j) cs = s" "get_token cs i = get_token cs j"
proof -
  have i: "0 \<le> i" "i \<le> int (length cs)" and d: "drop (nat i) cs = s \<or> drop (nat i) cs = CHR '' '' # s"
    using assms by (auto simp: reads_def)
  show thesis
  proof (cases "drop (nat i) cs = s")
    case True
    then show thesis using that i by blast
  next
    case False
    then have d: "drop (nat i) cs = CHR '' '' # s" using d by blast
    then have "chr_at cs i = CHR '' ''" using chr_at_drop [OF i(1) d, of 0] by simp
    moreover have "drop (nat (i + 1)) cs = s"
      using d i by (metis drop_Suc list.sel(3) nat_add_distrib nat_one_as_int Suc_eq_plus1 tl_drop zero_le_one)
    moreover have "i + 1 \<le> int (length cs)" using drop_in [OF i(1) d, of 0] by simp
    ultimately show thesis using that [of "i + 1"] i get_token_space by simp
  qed
qed

lemma get_token_end: "reads cs i [] \<Longrightarrow> get_token cs i = Some (MATH_TOKEN_EOF, int (length cs))"
proof (erule reads_exact)
  fix j assume j: "0 \<le> j" "j \<le> int (length cs)" "drop (nat j) cs = []" "get_token cs i = get_token cs j"
  then have "j = int (length cs)" by auto
  moreover from this have "skip_whitespace cs j = j" by (subst skip_whitespace.simps) simp
  ultimately show "get_token cs i = Some (MATH_TOKEN_EOF, int (length cs))"
    using j(4) by (simp add: get_token_def)
qed

lemma digit_not: "c_isdigit c \<Longrightarrow> \<not> c_isspace c"
  "c_isdigit c \<Longrightarrow> \<not> is_alpha_or_underscore c" "is_alpha_or_underscore c \<Longrightarrow> \<not> c_isspace c \<and> \<not> c_isdigit c"
  by (auto simp: c_isdigit_def c_isspace_def is_alpha_or_underscore_def c_isalpha_def Let_def)

lemma skip_none: "chr_at cs i = c \<Longrightarrow> \<not> c_isspace c \<Longrightarrow> skip_whitespace cs i = i"
  by (subst skip_whitespace.simps) simp

lemma get_token_number:
  assumes "0 \<le> i" "drop (nat i) cs = show_nat n @ CHR '' '' # s" "int n \<le> LONG_MAX"
  shows "get_token cs i = Some (MATH_TOKEN_NUMBER (int n), i + int (length (show_nat n)))"
proof -
  let ?w = "show_nat n"
  obtain c r where w: "?w = c # r" "c_isdigit c" using show_nat_digits [of n] by (cases ?w) auto
  have c0: "chr_at cs i = c" "i < int (length cs)"
    using chr_at_drop [OF assms(1,2), of 0] drop_in [OF assms(1,2), of 0] w by auto
  have sp: "chr_at cs (i + int (length ?w)) = CHR '' ''"
    using chr_at_drop [OF assms(1,2), of "length ?w"] by (simp add: nth_append)
  have "scan_number cs i = Some (MATH_TOKEN_NUMBER (int n), i + int (length ?w))"
  proof (cases "n = 0")
    case True
    then have "?w = ''0''" by (simp add: show_nat.simps digit_char_def char_of_eq_iff take_bit_eq_mod)
    then have "c = CHR ''0''" "length ?w = 1" using w(1) by auto
    then show ?thesis
      using c0 sp True chr_at_in [of cs "i + 1"] by (simp add: scan_number_def Let_def)
  next
    case False
    then have "c \<noteq> CHR ''0''" using show_nat_head [of n] w(1) by simp
    moreover have "scan_digits 10 cs (i + int (length ?w)) (int n) = Some (int n, i + int (length ?w))"
      using sp by (subst scan_digits.simps) (simp add: digit_value_def)
    ultimately show ?thesis
      using c0 scan_show_nat [OF assms] by (simp add: scan_number_def Let_def)
  qed
  then show ?thesis
    using c0 w(2) digit_not(1) [OF w(2)] skip_none [OF c0(1)] by (simp add: get_token_def Let_def)
qed

lemma find_not_at_name:
  assumes "0 \<le> i" "drop (nat i) cs = x @ c # s" "list_all f x" "\<not> f c"
  shows "find_not_at f cs i = i + int (length x)"
  using assms
proof (induction x arbitrary: i)
  case Nil
  then show ?case
    using chr_at_drop [OF Nil(1,2), of 0] drop_in [OF Nil(1,2), of 0]
    by (subst find_not_at.simps) (auto simp: chr_at_def)
next
  case (Cons a x)
  have "chr_at cs i = a" "i < int (length cs)"
    using chr_at_drop [OF Cons(2,3), of 0] drop_in [OF Cons(2,3), of 0] by auto
  moreover have "drop (nat (i + 1)) cs = x @ c # s"
    using Cons(2,3) by (metis append_Cons drop_Suc list.sel(3) nat_add_distrib nat_one_as_int Suc_eq_plus1 tl_drop zero_le_one)
  ultimately show ?case
    using Cons.IH [of "i + 1"] Cons.prems by (subst find_not_at.simps) (auto simp: chr_at_def)
qed

lemma get_token_name:
  assumes "0 \<le> i" "drop (nat i) cs = x @ CHR '' '' # s" "is_name x"
  shows "get_token cs i = Some (MATH_TOKEN_VARIABLE x, i + int (length x))"
proof -
  obtain c r where x: "x = c # r" "is_alpha_or_underscore c" using assms(3) by (cases x) (auto simp: is_name_def)
  have c0: "chr_at cs i = c" "i < int (length cs)"
    using chr_at_drop [OF assms(1,2), of 0] drop_in [OF assms(1,2), of 0] x by auto
  have "\<not> is_alnum_or_underscore CHR '' ''"
    by (simp add: is_alnum_or_underscore_def c_isalnum_def c_isalpha_def c_isdigit_def)
  then have e: "find_not_at is_alnum_or_underscore cs i = i + int (length x)"
    using find_not_at_name [OF assms(1,2)] assms(3) by (simp add: is_name_def)
  have "i + int (length x) \<le> int (length cs)" using drop_in [OF assms(1,2), of "length x"] by simp
  moreover have "take (length x) (drop (nat i) cs) = x" using assms(2) by simp
  ultimately have "str_range cs i (i + int (length x)) = x"
    using assms(1) x(1) by (auto simp: str_range_def clamp_range_def Let_def nat_add_distrib)
  then show ?thesis
    using c0 e digit_not(3) [OF x(2)] x(2) skip_none [OF c0(1)] by (simp add: get_token_def Let_def)
qed

text \<open>The text of an operator starts with neither a digit, a letter nor white space, and the
  tokenizer's \<open>switch\<close> reads it back.\<close>

definition plain_head :: "string \<Rightarrow> bool" where
  "plain_head w \<longleftrightarrow> w = [] \<or> (\<not> c_isspace (hd w) \<and> \<not> c_isdigit (hd w) \<and> \<not> is_alpha_or_underscore (hd w))"

lemma plain_head_simps: "plain_head []"
  "plain_head (c # r) = (\<not> c_isspace c \<and> \<not> c_isdigit c \<and> \<not> is_alpha_or_underscore c)"
  by (simp_all add: plain_head_def)

lemma plain_tok_text: "plain_head (tok_text t)"
  by (cases t; simp only: tok_text_def math_token.case plain_head_simps;
      simp add: c_isspace_def c_isdigit_def is_alpha_or_underscore_def c_isalpha_def)

lemma operator_word: "tok_text t = c # r \<Longrightarrow> chr_at cs p = (r @ [CHR '' '']) ! 0 \<Longrightarrow>
   (r \<noteq> [] \<Longrightarrow> chr_at cs (p + 1) = (r @ [CHR '' '']) ! 1) \<Longrightarrow> operator_token c cs p = (t, p + int (length r))"
  by (cases t; simp only: tok_text_def math_token.case list.distinct; hypsubst?; simp add: operator_token_def Let_def split del: if_split; (elim conjE)?; hypsubst?; simp)

lemma get_token_operator:
  assumes "0 \<le> i" "drop (nat i) cs = tok_text t @ CHR '' '' # s" "tok_text t \<noteq> []"
  shows "get_token cs i = Some (t, i + int (length (tok_text t)))"
proof -
  obtain c r where w: "tok_text t = c # r" using assms(3) by (cases "tok_text t") auto
  note at = chr_at_drop [OF assms(1,2)]
  have c0: "chr_at cs i = c" "i < int (length cs)"
    using at [of 0] drop_in [OF assms(1,2), of 0] w by auto
  have c: "\<not> c_isspace c" "\<not> c_isdigit c" "\<not> is_alpha_or_underscore c"
    using plain_tok_text [of t] unfolding w plain_head_simps by auto
  have "chr_at cs (i + 1) = (r @ [CHR '' '']) ! 0" using at [of 1] w by (cases r) auto
  moreover have "chr_at cs (i + 1 + 1) = (r @ [CHR '' '']) ! 1" if "r \<noteq> []"
    using at [of 2] w that by (cases r; cases "tl r") (auto simp: ac_simps)
  ultimately have "operator_token c cs (i + 1) = (t, i + 1 + int (length r))"
    by (rule operator_word [OF w])
  then show ?thesis
    using c0 c w skip_none [OF c0(1) c(1)] by (simp add: get_token_def Let_def)
qed

lemma read_token:
  assumes "word_token w t" "reads cs i (w @ CHR '' '' # s)"
  shows "\<exists>i'. get_token cs i = Some (t, i') \<and> reads cs i' s"
proof -
  obtain j where j: "0 \<le> j" "drop (nat j) cs = w @ CHR '' '' # s" "get_token cs i = get_token cs j"
    by (rule reads_exact [OF assms(2)])
  have "j + int (length w) < int (length cs)" using drop_in [OF j(1,2), of "length w"] by simp
  moreover have "drop (nat (j + int (length w))) cs = CHR '' '' # s"
    using j(1,2) by (simp add: nat_add_distrib) (metis add.commute append_eq_conv_conj drop_drop)
  ultimately have r: "reads cs (j + int (length w)) s" using j(1) by (simp add: reads_def)
  have "get_token cs j = Some (t, j + int (length w))"
  proof (cases "(\<exists>n. t = MATH_TOKEN_NUMBER n) \<or> (\<exists>x. t = MATH_TOKEN_VARIABLE x)")
    case True
    then show ?thesis
      using get_token_number [OF j(1), of cs _ s] get_token_name [OF j(1), of cs w s] j(2) assms(1)
      by (auto simp: word_token_def)
  next
    case False
    then have "w = tok_text t" "tok_text t \<noteq> []" using assms(1) by (auto simp: word_token_def split: math_token.splits)
    then show ?thesis using get_token_operator [OF j(1)] j(2) by simp
  qed
  then show ?thesis using r j(3) by auto
qed

subsection \<open>Syntax trees, their texts and their values\<close>

datatype (plugins only: code size) arith =
    ANum int
  | AVar string
  | AUn math_token arith
  | ABin math_token arith arith
  | ACond arith arith arith
  | AAssign math_token string arith

fun wf_arith :: "arith \<Rightarrow> bool" where
  "wf_arith (ANum n) \<longleftrightarrow> 0 \<le> n \<and> n \<le> LONG_MAX"
| "wf_arith (AVar x) \<longleftrightarrow> is_name x"
| "wf_arith (AUn t e) \<longleftrightarrow> is_unary t \<and> wf_arith e"
| "wf_arith (ABin t a b) \<longleftrightarrow> 0 \<le> get_precedence t \<and> t \<noteq> MATH_TOKEN_QUESTION \<and> wf_arith a \<and> wf_arith b"
| "wf_arith (ACond c a b) \<longleftrightarrow> wf_arith c \<and> wf_arith a \<and> wf_arith b"
| "wf_arith (AAssign t x e) \<longleftrightarrow> is_assignment t \<and> is_name x \<and> wf_arith e"

text \<open>The text with only the parentheses that the precedences (and left association) call for;
  \<open>p\<close> is the lowest precedence that may stand without them.\<close>

definition parens :: "bool \<Rightarrow> string \<Rightarrow> string" where
  "parens b s = (if b then ''( '' @ s @ '') '' else s)"

fun unparse :: "int \<Rightarrow> arith \<Rightarrow> string" where
  "unparse p (ANum n) = show_nat (nat n) @ '' ''"
| "unparse p (AVar x) = x @ '' ''"
| "unparse p (AUn t e) = tok_text t @ '' '' @ unparse 14 e"
| "unparse p (ABin t a b) = parens (get_precedence t < p)
     (unparse (get_precedence t) a @ tok_text t @ '' '' @ unparse (get_precedence t + 1) b)"
| "unparse p (ACond c a b) = parens (3 < p) (unparse 4 c @ ''? '' @ unparse 0 a @ '': '' @ unparse 3 b)"
| "unparse p (AAssign t x e) = parens (0 < p) (x @ '' '' @ tok_text t @ '' '' @ unparse 0 e)"

text \<open>
  The reference evaluator.  It follows the code in two places where C differs: both branches
  of a conditional are evaluated, and the comma yields its left operand.  It is undefined
  (\<open>None\<close>) on undefined behaviour, on errors, and where \<open>&&\<close> or \<open>||\<close> would short-circuit,
  as the code then leaves the right operand unread.
\<close>

fun aeval :: "arith \<Rightarrow> frame_vars \<Rightarrow> (int \<times> frame_vars) option" where
  "aeval (ANum n) f = Some (n, f)"
| "aeval (AVar x) f = do { v \<leftarrow> variable_number f x; Some (v, f) }"
| "aeval (AUn t e) f = do { (v, f) \<leftarrow> aeval e f; u \<leftarrow> unary_op t v; Some (u, f) }"
| "aeval (ABin t a b) f =
     do { (x, f) \<leftarrow> aeval a f;
          if t = MATH_TOKEN_COMMA then do { (y, f) \<leftarrow> aeval b f; Some (x, f) }
          else if \<not> goes_on t x then None
          else do { (y, f) \<leftarrow> aeval b f;
                    r \<leftarrow> binary_op t x y;
                    (case r of Inl _ \<Rightarrow> None | Inr u \<Rightarrow> Some (u, f)) } }"
| "aeval (ACond c a b) f =
     do { (x, f) \<leftarrow> aeval c f; (y, f) \<leftarrow> aeval a f; (z, f) \<leftarrow> aeval b f;
          Some (if x \<noteq> 0 then y else z, f) }"
| "aeval (AAssign t x e) f =
     do { (v, f) \<leftarrow> aeval e f; k \<leftarrow> variable_number f x; r \<leftarrow> assign_op t k v;
          (case r of Inl _ \<Rightarrow> None | Inr u \<Rightarrow> do { f \<leftarrow> store_number f x u; Some (u, f) }) }"

subsection \<open>Parsing the text of a tree\<close>

definition may_follow :: "int \<Rightarrow> math_token \<Rightarrow> bool" where
  \<comment> \<open>a token that ends an expression of precedence \<open>p\<close>\<close>
  "may_follow p t \<longleftrightarrow> \<not> is_assignment t \<and>
     (get_precedence t < p \<or> get_precedence t = p \<and> 1 \<le> p \<and> p \<noteq> 3)"

definition follow :: "int \<Rightarrow> string \<Rightarrow> bool" where
  "follow p s \<longleftrightarrow> s = [] \<or> (\<exists>w t s'. s = w @ CHR '' '' # s' \<and> word_token w t \<and> may_follow p t)"

lemma follow_token:
  assumes "follow p s" "reads cs i s" "0 \<le> p"
  shows "\<exists>t i'. get_token cs i = Some (t, i') \<and> may_follow p t"
  using assms get_token_end [of cs i] read_token [of _ _ cs i]
  by (fastforce simp: follow_def may_follow_def)

lemma get_precedence_le: "get_precedence t \<le> 13"
  by (cases t) (simp_all add: get_precedence_def)

lemma follow_stops:
  assumes "follow p s" "reads cs i s" "0 \<le> p" "p < m \<or> p = m \<and> (p = 0 \<or> p = 3)"
  shows "operators_yield cs m v i f (v, i, f)"
  using follow_token [OF assms(1-3)] operators_stop [of cs i _ _ m v f] assms(4)
  by (fastforce simp: may_follow_def)

lemma may_follow_mono: "may_follow p t \<Longrightarrow> p \<le> q \<Longrightarrow> may_follow q t"
  by (cases "p = q") (auto simp: may_follow_def)

lemma may_follow_13: "may_follow 14 t \<Longrightarrow> may_follow 13 t"
  using get_precedence_le [of t] by (auto simp: may_follow_def)

lemma follow_mono: "follow p s \<Longrightarrow> p \<le> q \<Longrightarrow> follow q s"
  unfolding follow_def using may_follow_mono by blast

lemma follow_word: "word_token w t \<Longrightarrow> may_follow p t \<Longrightarrow> follow p (w @ CHR '' '' # s)"
  unfolding follow_def by blast

lemma inr_Some_iff: "(case r of Inl x \<Rightarrow> None | Inr u \<Rightarrow> g u) = Some y \<longleftrightarrow> (\<exists>u. r = Inr u \<and> g u = Some y)"
  by (cases r) auto

definition parses :: "arith \<Rightarrow> string \<Rightarrow> int \<Rightarrow> bool" where
  \<comment> \<open>parsing the text \<open>w\<close> of \<open>e\<close>, in a context of precedence at most \<open>k\<close>, comes to the operator
    loop with the value of \<open>e\<close>\<close>
  "parses e w k \<longleftrightarrow> (\<forall>f v f' cs i p s m. aeval e f = Some (v, f') \<longrightarrow> reads cs i (w @ s) \<longrightarrow> follow p s \<longrightarrow>
     0 \<le> m \<longrightarrow> m \<le> p \<longrightarrow> p \<le> k \<longrightarrow>
     (\<exists>i'. reads cs i' s \<and> (\<forall>r. operators_yield cs m v i' f' r \<longrightarrow> expression_yields cs m i f r)))"

lemma parsesI:
  assumes "\<And>f v f' cs i p s m. aeval e f = Some (v, f') \<Longrightarrow> reads cs i (w @ s) \<Longrightarrow> follow p s \<Longrightarrow>
     0 \<le> m \<Longrightarrow> m \<le> p \<Longrightarrow> p \<le> k \<Longrightarrow>
     \<exists>i'. reads cs i' s \<and> (\<forall>r. operators_yield cs m v i' f' r \<longrightarrow> expression_yields cs m i f r)"
  shows "parses e w k"
  unfolding parses_def using assms by blast

lemma parsesD:
  assumes "parses e w k" "aeval e f = Some (v, f')" "reads cs i (w @ s)" "follow p s" "0 \<le> m" "m \<le> p" "p \<le> k"
  obtains i' where "reads cs i' s" "\<And>r. operators_yield cs m v i' f' r \<Longrightarrow> expression_yields cs m i f r"
  using assms unfolding parses_def by blast

text \<open>An operand, after which the operator loop stops.\<close>

lemma operand:
  assumes "parses e w k" "q \<le> k" "aeval e f = Some (v, f')" "reads cs i (w @ s)" "follow p s" "0 \<le> p"
    "p < q \<or> p = q \<and> (p = 0 \<or> p = 3)"
  obtains i' where "reads cs i' s" "expression_yields cs q i f (v, i', f')"
proof -
  have "follow q s" "0 \<le> q" using follow_mono [OF assms(5)] assms(6,7) by auto
  then obtain i' where i': "reads cs i' s" "\<And>r. operators_yield cs q v i' f' r \<Longrightarrow> expression_yields cs q i f r"
    using parsesD [OF assms(1,3,4), of q q] assms(2) by blast
  have "operators_yield cs q v i' f' (v, i', f')" by (rule follow_stops [OF assms(5) i'(1) assms(6,7)])
  then show thesis using that i' by blast
qed

lemma word_tokens:
  "word_token ''('' MATH_TOKEN_LPAREN" "word_token '')'' MATH_TOKEN_RPAREN" "word_token ''?'' MATH_TOKEN_QUESTION"
  "word_token '':'' MATH_TOKEN_COLON" "is_unary t \<Longrightarrow> word_token (tok_text t) t"
  "is_assignment t \<Longrightarrow> word_token (tok_text t) t" "0 \<le> get_precedence t \<Longrightarrow> word_token (tok_text t) t"
  by (auto simp: word_token_def tok_text_def is_unary_def is_assignment_def get_precedence_def split: math_token.splits)

lemma follow_closing: "follow 0 ('') '' @ s)" "follow 0 ('': '' @ s)"
  using follow_word [OF word_tokens(2), of 0 s] follow_word [OF word_tokens(4), of 0 s]
  by (simp_all add: may_follow_def is_assignment_def get_precedence_def)

lemma not_unary: "\<not> is_unary MATH_TOKEN_LPAREN" "\<not> is_unary (MATH_TOKEN_NUMBER n)" "\<not> is_unary (MATH_TOKEN_VARIABLE x)"
  by (simp_all add: is_unary_def)

lemma parses_parens:
  assumes body: "parses e w k" and k: "0 \<le> k"
  shows "p \<le> 14 \<Longrightarrow> parses e (parens (k < p) w) p"
proof (cases "k < p")
  case False
  then show "parses e (parens (k < p) w) p" using body by (auto simp: parens_def parses_def)
next
  case True
  show "parses e (parens (k < p) w) p"
  proof (rule parsesI)
    fix f v f' cs i q s m
    assume e: "aeval e f = Some (v, f')" and r: "reads cs i (parens (k < p) w @ s)"
    have "reads cs i (''('' @ CHR '' '' # (w @ '') '' @ s))" using r True by (simp add: parens_def)
    then obtain i1 where i1: "get_token cs i = Some (MATH_TOKEN_LPAREN, i1)" "reads cs i1 (w @ '') '' @ s)"
      using read_token [OF word_tokens(1)] by blast
    obtain i2 where i2: "reads cs i2 ('') '' @ s)" "expression_yields cs 0 i1 f (v, i2, f')"
      by (rule operand [OF body k e i1(2) follow_closing(1)]) auto
    obtain i3 where i3: "get_token cs i2 = Some (MATH_TOKEN_RPAREN, i3)" "reads cs i3 s"
      using read_token [OF word_tokens(2), of cs i2 s] i2(1) by auto
    show "\<exists>i'. reads cs i' s \<and> (\<forall>r. operators_yield cs m v i' f' r \<longrightarrow> expression_yields cs m i f r)"
      using i3(2) expression_primary [OF i1(1) not_unary(1) primary_parentheses [OF i1(1) i2(2) i3(1)]] by blast
  qed
qed

lemma parses_number: "wf_arith (ANum n) \<Longrightarrow> parses (ANum n) (unparse p (ANum n)) p"
proof (rule parsesI)
  fix f v f' cs i q s m
  assume wf: "wf_arith (ANum n)" and e: "aeval (ANum n) f = Some (v, f')" and r: "reads cs i (unparse p (ANum n) @ s)"
  have "word_token (show_nat (nat n)) (MATH_TOKEN_NUMBER n)" using wf by (simp add: word_token_def)
  then obtain i1 where i1: "get_token cs i = Some (MATH_TOKEN_NUMBER n, i1)" "reads cs i1 s"
    using read_token [of "show_nat (nat n)" _ cs i s] r by auto
  show "\<exists>i'. reads cs i' s \<and> (\<forall>r. operators_yield cs m v i' f' r \<longrightarrow> expression_yields cs m i f r)"
    using i1(2) expression_primary [OF i1(1) not_unary(2) primary_number [OF i1(1)]] e by auto
qed

lemma parses_variable: "wf_arith (AVar x) \<Longrightarrow> 0 \<le> p \<Longrightarrow> parses (AVar x) (unparse p (AVar x)) p"
proof (rule parsesI)
  fix f v f' cs i q s m
  assume wf: "wf_arith (AVar x)" and e: "aeval (AVar x) f = Some (v, f')" and r: "reads cs i (unparse p (AVar x) @ s)"
    and fo: "follow q s" and m: "0 \<le> (m::int)" "m \<le> q"
  have "word_token x (MATH_TOKEN_VARIABLE x)" using wf by (simp add: word_token_def)
  then obtain i1 where i1: "get_token cs i = Some (MATH_TOKEN_VARIABLE x, i1)" "reads cs i1 s"
    using read_token [of x _ cs i s] r by auto
  obtain t i2 where t: "get_token cs i1 = Some (t, i2)" "\<not> is_assignment t"
    using follow_token [OF fo i1(2)] m by (auto simp: may_follow_def)
  have "variable_number f x = Some v" "f' = f" using e by (auto simp: bind_Some_iff)
  then show "\<exists>i'. reads cs i' s \<and> (\<forall>r. operators_yield cs m v i' f' r \<longrightarrow> expression_yields cs m i f r)"
    using i1(2) expression_primary [OF i1(1) not_unary(3) primary_variable [OF i1(1) t]] by blast
qed

lemma parses_unary:
  assumes t: "is_unary t" and IH: "parses e (unparse 14 e) 14"
  shows "p \<le> 14 \<Longrightarrow> parses (AUn t e) (unparse p (AUn t e)) p"
proof (rule parsesI)
  fix f v f' cs i q s m
  assume e: "aeval (AUn t e) f = Some (v, f')" and r: "reads cs i (unparse p (AUn t e) @ s)"
    and fo: "follow q s" and m: "0 \<le> (m::int)" "m \<le> q" "q \<le> p" "p \<le> 14"
  obtain x where x: "aeval e f = Some (x, f')" "unary_op t x = Some v"
    using e by (auto simp: bind_Some_iff)
  obtain i1 where i1: "get_token cs i = Some (t, i1)" "reads cs i1 (unparse 14 e @ s)"
    using read_token [OF word_tokens(5) [OF t], of cs i] r by auto
  show "\<exists>i'. reads cs i' s \<and> (\<forall>r. operators_yield cs m v i' f' r \<longrightarrow> expression_yields cs m i f r)"
  proof (cases "q < 14")
    case True
    obtain i2 where i2: "reads cs i2 s" "expression_yields cs 14 i1 f (x, i2, f')"
      by (rule operand [OF IH order_refl x(1) i1(2) fo]) (use m True in auto)
    then show ?thesis using expression_unary [OF i1(1) t i2(2) x(2)] by blast
  next
    case False
    then have "q = 14" using m by linarith
    then have "follow 14 s" using fo by simp
    then have "follow 13 s" using may_follow_13 unfolding follow_def by blast
    obtain i2 where i2: "reads cs i2 s" "expression_yields cs 14 i1 f (x, i2, f')"
      by (rule operand [OF IH order_refl x(1) i1(2) \<open>follow 13 s\<close>]) auto
    then show ?thesis using expression_unary [OF i1(1) t i2(2) x(2)] by blast
  qed
qed

lemma parses_binary:
  assumes t: "0 \<le> get_precedence t" "t \<noteq> MATH_TOKEN_QUESTION"
    and a: "parses a (unparse (get_precedence t) a) (get_precedence t)"
    and b: "parses b (unparse (get_precedence t + 1) b) (get_precedence t + 1)"
  shows "parses (ABin t a b) (unparse (get_precedence t) a @ tok_text t @ '' '' @ unparse (get_precedence t + 1) b) (get_precedence t)"
proof (rule parsesI)
  let ?q = "get_precedence t"
  have q: "1 \<le> ?q" "?q \<noteq> 3" using t by (cases t; simp add: get_precedence_def)+
  fix f v f' cs i p s m
  assume e: "aeval (ABin t a b) f = Some (v, f')" and r: "reads cs i ((unparse ?q a @ tok_text t @ '' '' @ unparse (?q + 1) b) @ s)"
    and fo: "follow p s" and m: "0 \<le> (m::int)" "m \<le> p" "p \<le> ?q"
  obtain x f1 where x: "aeval a f = Some (x, f1)" using e by (auto simp: bind_Some_iff)
  have "\<not> is_assignment t" using t(1) by (auto simp: is_assignment_def get_precedence_def)
  then have "may_follow ?q t" using q by (simp add: may_follow_def)
  then have fa: "follow ?q (tok_text t @ CHR '' '' # (unparse (?q + 1) b @ s))"
    using follow_word [OF word_tokens(7) [OF t(1)]] by blast
  obtain i1 where i1: "reads cs i1 (tok_text t @ CHR '' '' # (unparse (?q + 1) b @ s))"
      "\<And>r. operators_yield cs m x i1 f1 r \<Longrightarrow> expression_yields cs m i f r"
    using parsesD [OF a x _ fa m(1) _ order_refl, of cs i] r m by auto
  obtain i2 where i2: "get_token cs i1 = Some (t, i2)" "reads cs i2 (unparse (?q + 1) b @ s)"
    using read_token [OF word_tokens(7) [OF t(1)] i1(1)] by blast
  obtain y where y: "aeval b f1 = Some (y, f')"
    using e x by (auto simp: bind_Some_iff inr_Some_iff split: if_splits)
  obtain i3 where i3: "reads cs i3 s" "expression_yields cs (?q + 1) i2 f1 (y, i3, f')"
    by (rule operand [OF b order_refl y i2(2) fo]) (use m in auto)
  have "operators_yield cs m v i3 f' r \<Longrightarrow> operators_yield cs m x i1 f1 r" for r
  proof (cases "t = MATH_TOKEN_COMMA")
    case True
    then have p: "?q = 1" by (simp add: get_precedence_def)
    have "v = x" using e x y True by simp
    then show "operators_yield cs m v i3 f' r \<Longrightarrow> operators_yield cs m x i1 f1 r"
      using operators_comma [of cs i1 i2 m f1 y i3 f' x r] i2(1) i3(2) m p True by simp
  next
    case False
    then have "goes_on t x" "binary_op t x y = Some (Inr v)"
      using e x y by (auto simp: bind_Some_iff inr_Some_iff split: if_splits)
    then show "operators_yield cs m v i3 f' r \<Longrightarrow> operators_yield cs m x i1 f1 r"
      using operators_binary [OF i2(1) _ _ i3(2)] m by auto
  qed
  then show "\<exists>i'. reads cs i' s \<and> (\<forall>r. operators_yield cs m v i' f' r \<longrightarrow> expression_yields cs m i f r)"
    using i1(2) i3(1) by blast
qed

lemma parses_conditional:
  assumes c: "parses c (unparse 4 c) 4" and a: "parses a (unparse 0 a) 0" and b: "parses b (unparse 3 b) 3"
  shows "parses (ACond c a b) (unparse 4 c @ ''? '' @ unparse 0 a @ '': '' @ unparse 3 b) 3"
proof (rule parsesI)
  fix f v f' cs i p s m
  assume e: "aeval (ACond c a b) f = Some (v, f')"
    and r: "reads cs i ((unparse 4 c @ ''? '' @ unparse 0 a @ '': '' @ unparse 3 b) @ s)"
    and fo: "follow p s" and m: "0 \<le> (m::int)" "m \<le> p" "p \<le> 3"
  obtain x f1 y f2 z where x: "aeval c f = Some (x, f1)" and y: "aeval a f1 = Some (y, f2)"
      and z: "aeval b f2 = Some (z, f')" and v: "v = (if x \<noteq> 0 then y else z)"
    using e by (auto simp: bind_Some_iff)
  let ?s1 = "''?'' @ CHR '' '' # (unparse 0 a @ '': '' @ unparse 3 b @ s)"
  have "may_follow 4 MATH_TOKEN_QUESTION" by (simp add: may_follow_def is_assignment_def get_precedence_def)
  then have fc: "follow 4 ?s1" using follow_word [OF word_tokens(3)] by blast
  obtain i1 where i1: "reads cs i1 ?s1" "\<And>r. operators_yield cs m x i1 f1 r \<Longrightarrow> expression_yields cs m i f r"
    using parsesD [OF c x _ fc m(1) _ order_refl, of cs i] r m by auto
  obtain i2 where i2: "get_token cs i1 = Some (MATH_TOKEN_QUESTION, i2)" "reads cs i2 (unparse 0 a @ '': '' @ unparse 3 b @ s)"
    using read_token [OF word_tokens(3) i1(1)] by blast
  obtain i3 where i3: "reads cs i3 ('': '' @ unparse 3 b @ s)" "expression_yields cs 0 i2 f1 (y, i3, f2)"
    by (rule operand [OF a order_refl y i2(2) follow_closing(2)]) auto
  obtain i4 where i4: "get_token cs i3 = Some (MATH_TOKEN_COLON, i4)" "reads cs i4 (unparse 3 b @ s)"
    using read_token [OF word_tokens(4), of cs i3 "unparse 3 b @ s"] i3(1) by auto
  obtain i5 where i5: "reads cs i5 s" "expression_yields cs 3 i4 f2 (z, i5, f')"
    by (rule operand [OF b order_refl z i4(2) fo]) (use m in auto)
  have "operators_yield cs m v i5 f' r \<Longrightarrow> operators_yield cs m x i1 f1 r" for r
    using operators_question [OF i2(1) _ i3(2) i4(1) i5(2)] m v by auto
  then show "\<exists>i'. reads cs i' s \<and> (\<forall>r. operators_yield cs m v i' f' r \<longrightarrow> expression_yields cs m i f r)"
    using i1(2) i5(1) by blast
qed

lemma parses_assignment:
  assumes t: "is_assignment t" "is_name x" and e: "parses e (unparse 0 e) 0"
  shows "parses (AAssign t x e) (x @ '' '' @ tok_text t @ '' '' @ unparse 0 e) 0"
proof (rule parsesI)
  fix f v f' cs i p s m
  assume ev: "aeval (AAssign t x e) f = Some (v, f')"
    and r: "reads cs i ((x @ '' '' @ tok_text t @ '' '' @ unparse 0 e) @ s)"
    and fo: "follow p s" and m: "0 \<le> (m::int)" "m \<le> p" "p \<le> 0"
  obtain y f1 k where y: "aeval e f = Some (y, f1)" "variable_number f1 x = Some k"
      "assign_op t k y = Some (Inr v)" "store_number f1 x v = Some f'"
    using ev by (auto simp: bind_Some_iff inr_Some_iff)
  have "word_token x (MATH_TOKEN_VARIABLE x)" using t by (simp add: word_token_def)
  then obtain i1 where i1: "get_token cs i = Some (MATH_TOKEN_VARIABLE x, i1)" "reads cs i1 (tok_text t @ CHR '' '' # (unparse 0 e @ s))"
    using read_token [of x _ cs i "tok_text t @ CHR '' '' # (unparse 0 e @ s)"] r by auto
  obtain i2 where i2: "get_token cs i1 = Some (t, i2)" "reads cs i2 (unparse 0 e @ s)"
    using read_token [OF word_tokens(6) [OF t(1)] i1(2)] by blast
  obtain i3 where i3: "reads cs i3 s" "expression_yields cs 0 i2 f (y, i3, f1)"
    by (rule operand [OF e order_refl y(1) i2(2) fo]) (use m in auto)
  have "primary_yields cs i f (v, i3, f')"
    by (rule primary_assignment [OF i1(1) i2(1) t(1) i3(2) y(2,3,4)])
  then show "\<exists>i'. reads cs i' s \<and> (\<forall>r. operators_yield cs m v i' f' r \<longrightarrow> expression_yields cs m i f r)"
    using i3(1) expression_primary [OF i1(1) not_unary(3)] by blast
qed

lemma parses_unparse: "wf_arith e \<Longrightarrow> 0 \<le> p \<Longrightarrow> p \<le> 14 \<Longrightarrow> parses e (unparse p e) p"
proof (induction e arbitrary: p)
  case (ANum n)
  then show ?case using parses_number by blast
next
  case (AVar x)
  then show ?case using parses_variable by blast
next
  case (AUn t e)
  then show ?case using parses_unary [of t e p] by simp
next
  case (ABin t a b)
  then have "parses (ABin t a b) (unparse (get_precedence t) a @ tok_text t @ '' '' @ unparse (get_precedence t + 1) b) (get_precedence t)"
    using get_precedence_le [of t] by (intro parses_binary) auto
  then show ?case using parses_parens [of _ _ "get_precedence t" p] ABin.prems by simp
next
  case (ACond c a b)
  then have "parses (ACond c a b) (unparse 4 c @ ''? '' @ unparse 0 a @ '': '' @ unparse 3 b) 3"
    by (intro parses_conditional) auto
  then show ?case using parses_parens [of _ _ 3 p] ACond.prems by simp
next
  case (AAssign t x e)
  then have "parses (AAssign t x e) (x @ '' '' @ tok_text t @ '' '' @ unparse 0 e) 0"
    by (intro parses_assignment) auto
  then show ?case using parses_parens [of _ _ 0 p] AAssign.prems by simp
qed

lemma arithmetic_evaluate_unparse:
  assumes "wf_arith e" "aeval e f = Some (v, f')"
  shows "\<exists>pos. arithmetic_evaluate f (unparse 0 e) = Value v pos f'"
proof -
  let ?cs = "unparse 0 e"
  have p: "parses e ?cs 0" by (rule parses_unparse [OF assms(1)]) auto
  have r: "reads ?cs 0 (?cs @ [])" by (simp add: reads_def)
  have fo: "follow 0 []" by (simp add: follow_def)
  obtain i where i: "reads ?cs i []" "expression_yields ?cs 0 0 f (v, i, f')"
    by (rule operand [OF p order_refl assms(2) r fo]) auto
  obtain n where n: "parse_expression n ?cs 0 0 f = Value v i f'" using i(2) by (auto simp: expression_yields_def)
  have "settles ?cs (length ?cs) (parse_expression (arithmetic_fuel ?cs) ?cs 0 0 f)" by (rule evaluation_fuel)
  then have "parse_expression (arithmetic_fuel ?cs) ?cs 0 0 f \<noteq> Exhausted" by auto
  moreover have "refines (parse_expression (arithmetic_fuel ?cs) ?cs 0 0 f) (parse_expression (max n (arithmetic_fuel ?cs)) ?cs 0 0 f)"
    "refines (parse_expression n ?cs 0 0 f) (parse_expression (max n (arithmetic_fuel ?cs)) ?cs 0 0 f)"
    using more_fuel(1) by (simp_all only: max.cobounded1 max.cobounded2)
  ultimately have run: "parse_expression (arithmetic_fuel ?cs) ?cs 0 0 f = Value v i f'"
    using n by (simp add: refines_def)
  have "get_token ?cs i = Some (MATH_TOKEN_EOF, int (length ?cs))" by (rule get_token_end [OF i(1)])
  moreover have "?cs \<noteq> []" using evaluation_fuel [of ?cs f] run by auto
  ultimately show ?thesis using run by (simp add: arithmetic_evaluate_def with_token_def)
qed

subsection \<open>Numbers as variable values\<close>

lemma strtol_show_nat: "strtol_digits (show_nat n @ r) 0 = strtol_digits r (int n)"
proof (induction n arbitrary: r rule: show_nat.induct)
  case (1 n)
  have d: "(of_char (digit_char d) :: int) = 48 + int d" if "d < 10" for d
    using that by (simp add: of_char_int digit_char_def)
  show ?case
  proof (cases "n < 10")
    case True
    then show ?thesis using d [of n] by (simp add: show_nat.simps isdigit_digit_char)
  next
    case False
    have "int (n div 10) * 10 + int (n mod 10) = int n"
      using div_mult_mod_eq [of n 10] by (metis of_nat_add of_nat_mult of_nat_numeral)
    moreover have "show_nat n @ r = show_nat (n div 10) @ digit_char (n mod 10) # r"
      using False by (simp add: show_nat.simps [of n])
    ultimately show ?thesis
      using 1 [OF False] d [of "n mod 10"] by (simp add: isdigit_digit_char)
  qed
qed

lemma string_atol_from_long:
  assumes "LONG_MIN \<le> v" "v \<le> LONG_MAX"
  shows "string_atol (string_from_long v) = v"
proof (cases "v < 0")
  case True
  have "\<not> c_isspace CHR ''-''" by (simp add: c_isspace_def)
  then show ?thesis
    using True assms strtol_show_nat [of "nat (- v)" "[]"] by (simp add: string_atol_def string_from_long_def Let_def)
next
  case False
  obtain c r where w: "show_nat (nat v) = c # r" "c_isdigit c" using show_nat_digits [of "nat v"] by (cases "show_nat (nat v)") auto
  have "\<not> c_isspace c" "c \<noteq> CHR ''-''" "c \<noteq> CHR ''+''"
    using digit_not(1) [OF w(2)] w(2) by (auto simp: c_isdigit_def)
  then show ?thesis
    using False assms strtol_show_nat [of "nat v" "[]"] w(1) by (simp add: string_atol_def string_from_long_def Let_def)
qed

lemma length_show_nat: "n < 10 ^ k \<Longrightarrow> 0 < k \<Longrightarrow> length (show_nat n) \<le> k"
proof (induction k arbitrary: n)
  case (Suc k)
  show ?case
  proof (cases "n < 10")
    case True
    then show ?thesis by (simp add: show_nat.simps)
  next
    case False
    then have "0 < k" using Suc.prems(1) by (cases k) auto
    moreover have "n div 10 < 10 ^ k" using Suc.prems(1) by (simp add: less_mult_imp_div_less mult.commute)
    ultimately show ?thesis using Suc.IH [of "n div 10"] False by (simp add: show_nat.simps [of n])
  qed
qed simp

lemma valid_number:
  assumes "LONG_MIN \<le> v" "v \<le> LONG_MAX"
  shows "validate_variable_value (Some (string_from_long v)) = VAR_STORE_ERROR_NONE"
proof -
  have "nat \<bar>v\<bar> < 10 ^ 19" using assms by (auto simp: nat_less_iff)
  then have "length (show_nat (nat \<bar>v\<bar>)) \<le> 19" by (rule length_show_nat) simp
  then have "length (string_from_long v) \<le> 20"
    by (cases "v < 0") (simp_all add: string_from_long_def)
  then show ?thesis by (simp add: valid_value MAX_VAR_VALUE_LENGTH_def)
qed

lemma valid_identifier:
  assumes "is_name x" "int (length x) \<le> MAX_VAR_NAME_LENGTH"
  shows "validate_variable_name x = VAR_STORE_ERROR_NONE"
proof (cases x)
  case Nil
  then show ?thesis using assms by (simp add: is_name_def)
next
  case (Cons c r)
  then have "c_isalpha c \<or> c = CHR ''_''" "\<forall>a\<in>set r. c_isalnum a \<or> a = CHR ''_''"
    using assms(1) by (auto simp: is_name_def is_alpha_or_underscore_def is_alnum_or_underscore_def list_all_iff)
  then show ?thesis using assms(2) Cons by (auto simp: validate_variable_name_def Let_def)
qed

lemma variable_number_ok:
  assumes "frame_invar n frame" "nul_free x" "x \<noteq> []"
  shows "variable_number frame x = Some (case frame_env frame x of None \<Rightarrow> 0 | Some s \<Rightarrow> string_atol s)"
  using exec_frame_get_variable_ok [OF assms]
  by (auto simp: variable_number_def frame_has_variable_def frame_get_variable_value_def split: option.splits)

lemma store_number_ok:
  assumes "frame_invar (Suc n) frame" "validate_variable_name x = VAR_STORE_ERROR_NONE" "LONG_MIN \<le> v" "v \<le> LONG_MAX"
    and "target_store frame = Some s" "\<not> locked (vs_lookup s) x"
  shows "\<exists>frame'. store_number frame x v = Some frame' \<and> frame_invar n frame' \<and>
    frame_env frame' = (frame_env frame)(x \<mapsto> string_from_long v)"
  using frame_set_variable_ok [OF assms(1,2) valid_number [OF assms(3,4)] assms(5,6)]
  by (auto simp: store_number_def)

end
