(* ===== verification/Arithmetic_Props.thy ===== *)
theory Arithmetic_Props
  imports Arithmetic_Proofs Variable_Props
begin

section \<open>Properties of arithmetic expansion and of frame variables\<close>

text \<open>
  What \<open>$((...))\<close> computes, that it always ends, what an assignment leaves in the frame, and
  the places where the evaluator departs from the language it documents.
\<close>

subsection \<open>Variables of a frame\<close>

definition global_frame :: "variable_store \<Rightarrow> frame_vars" where
  "global_frame s = \<lparr>fr_variables = Some s, fr_saved_variables = None, fr_local_variables = None\<rparr>"

definition no_variables :: frame_vars where
  "no_variables = global_frame variable_store_create"

lemma global_frame_invar: "vs_invar s \<Longrightarrow> vs_room n s \<Longrightarrow> frame_invar n (global_frame s)"
  by (simp add: frame_invar_def global_frame_def)

lemma global_frame_target: "target_store (global_frame s) = Some s"
  by (simp add: target_store_def global_frame_def)

lemma global_frame_env: "frame_env (global_frame s) x = Option.bind (vs_lookup s x) mm_value"
  by (simp add: frame_env_def global_frame_def store_env_def)

text \<open>Assigning a variable in a frame and reading it back gives the new value, and every
  other name reads as before, whether the assignment goes to the local or the global store,
  unless the variable is read-only in that store.\<close>

theorem frame_set_then_get:
  assumes "frame_invar (Suc n) frame" and "validate_variable_name x = VAR_STORE_ERROR_NONE"
    and "validate_variable_value (Some v) = VAR_STORE_ERROR_NONE"
    and "target_store frame = Some s" and "\<not> locked (vs_lookup s) x" and "nul_free y" and "y \<noteq> []"
  shows "\<exists>frame'. frame_set_variable frame x v = Some (frame', MIGA_VAR_STATUS_OK) \<and> frame_invar n frame' \<and>
    exec_frame_get_variable frame' y = Some (if y = x then Some v else frame_env frame y) \<and>
    exec_frame_get_variable frame y = Some (frame_env frame y)"
proof -
  obtain frame' where "frame_set_variable frame x v = Some (frame', MIGA_VAR_STATUS_OK)" "frame_invar n frame'"
      "frame_env frame' = (frame_env frame)(x \<mapsto> v)"
    using frame_set_variable_ok [OF assms(1-5)] by blast
  then show ?thesis
    using exec_frame_get_variable_ok [OF _ assms(6,7)] assms(1) by auto
qed

theorem frame_set_then_get_witness:
  "\<exists>frame'. frame_set_variable (global_frame variable_store_create) ''A'' ''1'' = Some (frame', MIGA_VAR_STATUS_OK) \<and>
    exec_frame_get_variable frame' ''A'' = Some (Some ''1'')"
  using frame_set_then_get [OF global_frame_invar [OF variable_store_create_ok(1,3)] valid_A(1,3) global_frame_target,
      of 9 "''A''"]
  by (auto simp: variable_store_create_ok(2) locked_def nul_free_def)

subsection \<open>Evaluation\<close>



lemma precedences: "get_precedence MATH_TOKEN_PLUS = 12" "get_precedence MATH_TOKEN_MULTIPLY = 13"
  "get_precedence MATH_TOKEN_MINUS = 12"
  by (simp_all add: get_precedence_def)

lemma show_digit: "show_nat 1 = ''1''" "show_nat (Suc 0) = ''1''" "show_nat 2 = ''2''" "show_nat 3 = ''3''"
  by (simp_all add: show_nat.simps digit_char_def char_of_eq_iff take_bit_eq_mod)




subsection \<open>Departures\<close>

definition starts_token :: "string \<Rightarrow> bool" where
  "starts_token s \<longleftrightarrow> (\<exists>w t r. s = w @ CHR '' '' # r \<and> word_token w t \<and> t \<noteq> MATH_TOKEN_EOF)"

lemma starts_word: "word_token w t \<Longrightarrow> t \<noteq> MATH_TOKEN_EOF \<Longrightarrow> starts_token (w @ CHR '' '' # r)"
  by (auto simp: starts_token_def)

lemma starts_append: "starts_token s \<Longrightarrow> starts_token (s @ r)"
  unfolding starts_token_def by (metis append.assoc append_Cons)

lemma starts_parens: "starts_token s \<Longrightarrow> starts_token (parens b s)"
  using starts_word [OF word_tokens(1), of "s @ '') ''"] by (simp add: parens_def)

lemma unparse_starts: "wf_arith e \<Longrightarrow> starts_token (unparse p e)"
proof (induction e arbitrary: p)
  case (ANum n)
  then have "word_token (show_nat (nat n)) (MATH_TOKEN_NUMBER n)" by (simp add: word_token_def)
  from starts_word [OF this, of "[]"] show ?case by simp
next
  case (AVar x)
  then have "word_token x (MATH_TOKEN_VARIABLE x)" by (simp add: word_token_def)
  from starts_word [OF this, of "[]"] show ?case by simp
next
  case (AUn t e)
  then have "word_token (tok_text t) t" "t \<noteq> MATH_TOKEN_EOF" using word_tokens(5) not_eof(1) by auto
  from starts_word [OF this] show ?case by simp
next
  case (ABin t a b)
  then show ?case by (simp add: starts_parens starts_append)
next
  case (ACond c a b)
  then show ?case by (simp add: starts_parens starts_append)
next
  case (AAssign t x e)
  then have "word_token x (MATH_TOKEN_VARIABLE x)" by (simp add: word_token_def)
  from starts_word [OF this] show ?case by (simp add: starts_parens)
qed

lemma evaluate_yields:
  assumes "expression_yields cs 0 0 f (v, i, f')" "get_token cs i = Some (t, i')" "cs \<noteq> []"
  shows "arithmetic_evaluate f cs =
    (if t \<noteq> MATH_TOKEN_EOF then Error ''Unexpected tokens after expression'' i' f' else Value v i' f')"
proof -
  obtain n where n: "parse_expression n cs 0 0 f = Value v i f'" using assms(1) by (auto simp: expression_yields_def)
  have "parse_expression (arithmetic_fuel cs) cs 0 0 f \<noteq> Exhausted" using evaluation_fuel [of cs f] by auto
  moreover have "refines (parse_expression (arithmetic_fuel cs) cs 0 0 f) (parse_expression (max n (arithmetic_fuel cs)) cs 0 0 f)"
    "refines (parse_expression n cs 0 0 f) (parse_expression (max n (arithmetic_fuel cs)) cs 0 0 f)"
    using more_fuel(1) by (simp_all only: max.cobounded1 max.cobounded2)
  ultimately have "parse_expression (arithmetic_fuel cs) cs 0 0 f = Value v i f'" using n by (simp add: refines_def)
  then show ?thesis using assms(2,3) by (simp add: arithmetic_evaluate_def with_token_def)
qed

definition short_circuits :: "math_token \<Rightarrow> int \<Rightarrow> bool" where
  "short_circuits op left \<longleftrightarrow> op = MATH_TOKEN_LOGICAL_OR \<and> left \<noteq> 0 \<or> op = MATH_TOKEN_LOGICAL_AND \<and> left = 0"

lemma operators_short:
  assumes "get_token cs pos = Some (op, p0)" "m \<le> 4" "short_circuits op left"
  shows "operators_yield cs m left pos frame (left, p0, frame)"
proof -
  have "parse_operators (Suc 0) cs m left pos frame = Value left p0 frame"
    using assms by (auto simp: with_token_def short_circuits_def get_precedence_def)
  then show ?thesis unfolding operators_yield_def by blast
qed

text \<open>An expression whose logical operator short-circuits is never evaluated: for a true left
  operand of \<open>||\<close> and a false one of \<open>&&\<close>, the parser returns before reading the right operand,
  whose text then counts as unexpected tokens.\<close>

theorem short_circuit_fails:
  assumes "wf_arith a" and "wf_arith b" and "aeval a frame = Some (v, frame')" and "short_circuits op v"
  shows "\<exists>pos. arithmetic_evaluate frame (unparse 0 (ABin op a b)) =
    Error ''Unexpected tokens after expression'' pos frame'"
proof -
  let ?q = "get_precedence op" and ?cs = "unparse 0 (ABin op a b)"
  have q: "4 \<le> ?q" "?q \<le> 5" "\<not> is_assignment op"
    using assms(4) by (auto simp: short_circuits_def get_precedence_def is_assignment_def)
  then have op: "word_token (tok_text op) op" using word_tokens(7) [of op] by simp
  let ?s = "tok_text op @ CHR '' '' # unparse (?q + 1) b"
  have cs: "?cs = unparse ?q a @ ?s" using q by (simp add: parens_def)
  have p: "parses a (unparse ?q a) ?q" using parses_unparse [OF assms(1)] q by simp
  have "may_follow ?q op" using q by (simp add: may_follow_def)
  then have fo: "follow ?q ?s" by (rule follow_word [OF op])
  have r: "reads ?cs 0 (unparse ?q a @ ?s)" unfolding cs by (simp add: reads_def)
  obtain i where i: "reads ?cs i ?s" "\<And>r. operators_yield ?cs 0 v i frame' r \<Longrightarrow> expression_yields ?cs 0 0 frame r"
    by (rule parsesD [OF p assms(3) r fo order_refl _ order_refl]) (use q in auto)
  obtain j where j: "get_token ?cs i = Some (op, j)" "reads ?cs j (unparse (?q + 1) b)"
    using read_token [OF op i(1)] by blast
  have e: "expression_yields ?cs 0 0 frame (v, j, frame')"
    using i(2) operators_short [OF j(1) _ assms(4)] by simp
  obtain w t s where w: "unparse (?q + 1) b = w @ CHR '' '' # s" "word_token w t" "t \<noteq> MATH_TOKEN_EOF"
    using unparse_starts [OF assms(2)] unfolding starts_token_def by blast
  obtain k where "get_token ?cs j = Some (t, k)"
    using read_token [OF w(2), of ?cs j s] j(2) w(1) by auto
  moreover have "?cs \<noteq> []" unfolding cs by simp
  ultimately show ?thesis using evaluate_yields [OF e] w(3) by auto
qed

theorem short_circuit_fails_witness:
  "\<exists>pos. arithmetic_evaluate no_variables ''1 || 2 '' = Error ''Unexpected tokens after expression'' pos no_variables"
  using short_circuit_fails [of "ANum 1" "ANum 2" no_variables 1 no_variables MATH_TOKEN_LOGICAL_OR]
  by (simp add: short_circuits_def get_precedence_def show_digit parens_def tok_text_def)

lemmas run_tokens = get_token_def Let_def skip_whitespace.simps chr_at_def c_isspace_def c_isdigit_def
  is_alpha_or_underscore_def c_isalpha_def scan_number_def scan_digits.simps digit_value_def c_long_def operator_token_def

lemma tokens_of_invalid: "get_token ''1 @ 2'' 0 = Some (MATH_TOKEN_NUMBER 1, 1)" "get_token ''1 @ 2'' 1 = Some (MATH_TOKEN_EOF, 3)"
  by (simp_all add: run_tokens)

text \<open>A character that no token starts with ends the input: the text after it is ignored
  without an error, whatever it is.\<close>

theorem invalid_character_ends_input:
  "arithmetic_evaluate frame ''1 @ 2'' = Value 1 3 frame"
proof -
  have "expression_yields ''1 @ 2'' 0 0 frame (1, 1, frame)"
    using expression_primary [OF tokens_of_invalid(1) _ primary_number [OF tokens_of_invalid(1)]
        operators_stop [OF tokens_of_invalid(2)], of 0] by (simp add: is_unary_def)
  then show ?thesis using evaluate_yields [OF _ tokens_of_invalid(2)] by simp
qed

lemma tokens_of_conditional:
  "get_token ''1?2:1/0'' 0 = Some (MATH_TOKEN_NUMBER 1, 1)" "get_token ''1?2:1/0'' 1 = Some (MATH_TOKEN_QUESTION, 2)"
  "get_token ''1?2:1/0'' 2 = Some (MATH_TOKEN_NUMBER 2, 3)" "get_token ''1?2:1/0'' 3 = Some (MATH_TOKEN_COLON, 4)"
  "get_token ''1?2:1/0'' 4 = Some (MATH_TOKEN_NUMBER 1, 5)" "get_token ''1?2:1/0'' 5 = Some (MATH_TOKEN_DIVIDE, 6)"
  "get_token ''1?2:1/0'' 6 = Some (MATH_TOKEN_NUMBER 0, 7)" "get_token ''1?2:1/0'' 7 = Some (MATH_TOKEN_EOF, 7)"
  by (simp_all add: run_tokens)

text \<open>The branch of a conditional that is not selected is evaluated too, and an error in it
  is the result: \<open>1?2:1/0\<close> is a division by zero.\<close>

theorem unselected_branch_fails:
  "\<exists>pos. arithmetic_evaluate frame ''1?2:1/0'' = Error ''Division by zero'' pos frame"
  by (simp add: arithmetic_evaluate_def arithmetic_fuel_def eval_nat_numeral with_token_def tokens_of_conditional
      is_unary_def primary_kind_def after_value_def get_precedence_def next_min_prec_def is_right_associative_def
      binary_op_def defined_def no_failure_def)

end
