(* ===== verification/Glob.thy ===== *)
theory Glob
  imports Prelude
begin

section \<open>Shell patterns (glob_util.c): the matcher for platforms without fnmatch\<close>

text \<open>
  The matcher with \<open>*\<close>, \<open>?\<close>, bracket expressions and backslash quoting.  A \<open>const char *\<close> that
  walks through a C string is the suffix of the string it points to, and reads NUL at the end;
  pattern and string have no NUL inside.  Plain \<open>char\<close> is signed, which the comparisons of
  ranges depend on.  On POSIX systems \<open>glob_util_match\<close> is \<open>fnmatch\<close> of the C library instead.
\<close>

subsection \<open>Flags and characters\<close>

definition GLOB_UTIL_PATHNAME :: int where "GLOB_UTIL_PATHNAME = 1"
definition GLOB_UTIL_PERIOD :: int where "GLOB_UTIL_PERIOD = 2"
definition GLOB_UTIL_NOESCAPE :: int where "GLOB_UTIL_NOESCAPE = 4"
definition GLOB_UTIL_CASEFOLD :: int where "GLOB_UTIL_CASEFOLD = 8"

unbundle bit_operations_syntax

definition flag_set :: "int \<Rightarrow> int \<Rightarrow> bool" where
  "flag_set flags f \<longleftrightarrow> flags AND f \<noteq> 0"

definition deref :: "string \<Rightarrow> char" where
  "deref p = (case p of [] \<Rightarrow> NUL | c # _ \<Rightarrow> c)"

definition lower_char :: "char \<Rightarrow> char" where
  "lower_char c = (let n = of_char c :: nat in if 65 \<le> n \<and> n \<le> 90 then char_of (n + 32) else c)"

definition schar :: "char \<Rightarrow> int" where
  \<comment> \<open>the value of a plain \<open>char\<close>\<close>
  "schar c = (let n = of_char c :: int in if n < 128 then n else n - 256)"

definition is_leading_position :: "string \<Rightarrow> string \<Rightarrow> int \<Rightarrow> bool" where
  "is_leading_position s str flags \<longleftrightarrow>
     (length s = length str \<or>
      flag_set flags GLOB_UTIL_PATHNAME \<and> length s < length str \<and> str ! (length str - length s - 1) = CHR ''/'')"

definition is_protected_dot :: "string \<Rightarrow> string \<Rightarrow> int \<Rightarrow> bool" where
  "is_protected_dot s str flags \<longleftrightarrow>
     flag_set flags GLOB_UTIL_PERIOD \<and> deref s = CHR ''.'' \<and> is_leading_position s str flags"

definition chars_match :: "char \<Rightarrow> char \<Rightarrow> int \<Rightarrow> bool" where
  "chars_match c1 c2 flags \<longleftrightarrow>
     c1 = c2 \<or> flag_set flags GLOB_UTIL_CASEFOLD \<and> lower_char c1 = lower_char c2"

definition char_in_range :: "char \<Rightarrow> char \<Rightarrow> char \<Rightarrow> int \<Rightarrow> bool" where
  "char_in_range c start endc flags \<longleftrightarrow>
     (if flag_set flags GLOB_UTIL_CASEFOLD
      then schar (lower_char start) \<le> schar (lower_char c) \<and> schar (lower_char c) \<le> schar (lower_char endc)
      else schar start \<le> schar c \<and> schar c \<le> schar endc)"

subsection \<open>Bracket expressions\<close>

definition read_pattern_char :: "string \<Rightarrow> int \<Rightarrow> (bool \<times> char \<times> string) option" where
  \<comment> \<open>whether the character was quoted, the character, and the pattern after it; \<open>None\<close> is -1\<close>
  "read_pattern_char p flags =
     (if deref p = NUL then None
      else if \<not> flag_set flags GLOB_UTIL_NOESCAPE \<and> deref p = CHR 0x5C \<and> deref (tl p) \<noteq> NUL
      then Some (True, deref (tl p), tl (tl p))
      else Some (False, deref p, tl p))"

lemma read_pattern_char_length: "read_pattern_char p flags = Some (e, c, q) \<Longrightarrow> length q < length p"
  by (cases p) (auto simp: read_pattern_char_def deref_def split: if_splits)

function scan_bracket :: "string \<Rightarrow> char \<Rightarrow> int \<Rightarrow> bool \<Rightarrow> bool \<Rightarrow> bool \<times> string" where
  \<comment> \<open>the \<open>while\<close> loop of \<open>match_bracket\<close>\<close>
  "scan_bracket p sc flags negate matched =
     (case read_pattern_char p flags of
        None \<Rightarrow> (False, p)
      | Some (escaped, ch, p) \<Rightarrow>
          if \<not> escaped \<and> ch = CHR '']'' then (matched \<noteq> negate, p)
          else if deref p = CHR ''-'' \<and> deref (tl p) \<noteq> CHR '']'' \<and> deref (tl p) \<noteq> NUL then
            (case read_pattern_char (tl p) flags of
               None \<Rightarrow> (False, tl p)
             | Some (_, end_ch, p) \<Rightarrow> scan_bracket p sc flags negate (matched \<or> char_in_range sc ch end_ch flags))
          else scan_bracket p sc flags negate (matched \<or> chars_match sc ch flags))"
  by pat_completeness auto
termination
  by (relation "measure (\<lambda>(p, sc, flags, negate, matched). length p)")
     (auto dest!: read_pattern_char_length)

definition match_bracket :: "string \<Rightarrow> char \<Rightarrow> int \<Rightarrow> bool \<times> string" where
  "match_bracket p sc flags =
     (let negate = (deref p = CHR ''!'' \<or> deref p = CHR ''^'');
          p = (if negate then tl p else p)
      in if deref p = CHR '']'' then scan_bracket (tl p) sc flags negate (chars_match sc CHR '']'' flags)
         else scan_bracket p sc flags negate False)"

declare scan_bracket.simps [simp del]

subsection \<open>The matching loop\<close>

text \<open>One pass of the loop goes on with new pointers and backtrack point, breaks out of it with
  the pattern left, or returns.\<close>

datatype glob_step = Continue string string "(string \<times> string) option" | Break string | Return bool

definition glob_backtrack :: "int \<Rightarrow> (string \<times> string) option \<Rightarrow> glob_step" where
  \<comment> \<open>the code at the label \<open>backtrack\<close>; the pair is \<open>star_pattern\<close> and \<open>star_string\<close>\<close>
  "glob_backtrack flags star =
     (case star of None \<Rightarrow> Return False
      | Some (star_pattern, star_string) \<Rightarrow>
          let p = tl star_pattern; s = tl star_string in
          if s = [] then Break p
          else if flag_set flags GLOB_UTIL_PATHNAME \<and> deref s = CHR ''/'' then Return False
          else Continue p s (Some (star_pattern, s)))"

definition glob_pass :: "string \<Rightarrow> int \<Rightarrow> string \<Rightarrow> string \<Rightarrow> (string \<times> string) option \<Rightarrow> glob_step" where
  "glob_pass str flags p s star =
     (let escape = \<not> flag_set flags GLOB_UTIL_NOESCAPE;
          slash = (flag_set flags GLOB_UTIL_PATHNAME \<and> deref s = CHR ''/'') in
      if is_protected_dot s str flags then
        let p = dropWhile (\<lambda>c. c = CHR ''*'') p in
        if deref p = CHR ''.'' then Continue (tl p) (tl s) star
        else if escape \<and> deref p = CHR 0x5C \<and> deref (tl p) = CHR ''.'' then Continue (tl (tl p)) (tl s) star
        else Return False
      else if escape \<and> deref p = CHR 0x5C \<and> deref (tl p) \<noteq> NUL then
        if chars_match (deref (tl p)) (deref s) flags then Continue (tl (tl p)) (tl s) star
        else glob_backtrack flags star
      else if deref p = CHR ''*'' then
        if slash then glob_backtrack flags star else Continue (tl p) s (Some (p, s))
      else if deref p = CHR ''?'' then
        if slash then glob_backtrack flags star else Continue (tl p) (tl s) star
      else if deref p = CHR ''['' then
        if slash then glob_backtrack flags star
        else (case match_bracket (tl p) (deref s) flags of
                (m, q) \<Rightarrow> if m then Continue q (tl s) star else glob_backtrack flags star)
      else if chars_match (deref p) (deref s) flags then Continue (tl p) (tl s) star
      else glob_backtrack flags star)"

lemma length_tl_le: "length q \<le> length (tl p) \<Longrightarrow> length q \<le> length p"
  by simp

lemma scan_bracket_length: "length (snd (scan_bracket p sc flags negate matched)) \<le> length p"
proof (induction p sc flags negate matched rule: scan_bracket.induct)
  case (1 p sc flags negate matched)
  show ?case
  proof (cases "read_pattern_char p flags")
    case None
    then show ?thesis by (subst scan_bracket.simps) simp
  next
    case (Some r)
    obtain e c q where r: "r = (e, c, q)" by (cases r)
    have q: "length q < length p" using read_pattern_char_length Some r by blast
    note IH = 1 [OF Some, unfolded r, OF refl refl]
    show ?thesis
    proof (cases "read_pattern_char (tl q) flags")
      case None
      then show ?thesis using Some r q IH(2) by (subst scan_bracket.simps) auto
    next
      case (Some r2)
      obtain e2 c2 q2 where r2: "r2 = (e2, c2, q2)" by (cases r2)
      have "length q2 < length (tl q)" using read_pattern_char_length Some r2 by blast
      then show ?thesis using \<open>read_pattern_char p flags = Some r\<close> Some r r2 q
          IH(1) [OF _ _ Some, unfolded r2, OF _ _ refl refl] IH(2)
        by (subst scan_bracket.simps) auto
    qed
  qed
qed

lemma match_bracket_length: "length (snd (match_bracket p sc flags)) \<le> length p"
  by (auto simp: match_bracket_def Let_def intro!: length_tl_le scan_bracket_length)

definition star_rank :: "string \<Rightarrow> (string \<times> string) option \<Rightarrow> nat" where
  "star_rank s star = (case star of None \<Rightarrow> length s + 1 | Some (_, ss) \<Rightarrow> max (length s) (length ss))"

lemma glob_backtrack_rank:
  "glob_backtrack flags star = Continue p' s' star' \<Longrightarrow> star_rank s' star' < star_rank s star"
  by (cases "case star of None \<Rightarrow> [] | Some (_, ss) \<Rightarrow> ss")
    (auto simp: glob_backtrack_def star_rank_def Let_def split: option.splits if_splits)

lemma star_rank_tl: "star_rank (tl s) star \<le> star_rank s star"
  by (auto simp: star_rank_def split: option.splits)

lemma star_rank_star: "deref p = CHR ''*'' \<Longrightarrow> star_rank s (Some (p, s)) \<le> star_rank s star"
  by (auto simp: star_rank_def split: option.splits)

text \<open>What a pass that continues does: it advances in the string, or records a star, or backtracks.\<close>

lemma glob_pass_cases:
  assumes "glob_pass str flags p s star = Continue p' s' star'"
  shows "s' = tl s \<and> star' = star \<and> length p' \<le> length p \<or>
    deref p = CHR ''*'' \<and> p' = tl p \<and> s' = s \<and> star' = Some (p, s) \<or>
    glob_backtrack flags star = Continue p' s' star'"
  using assms match_bracket_length [of "tl p" "deref s" flags] length_dropWhile_le [of "\<lambda>c. c = CHR ''*''" p]
  by (auto simp: glob_pass_def Let_def split: if_splits prod.splits)

lemma glob_pass_decreases:
  assumes "s \<noteq> []" "glob_pass str flags p s star = Continue p' s' star'"
  shows "star_rank s' star' < star_rank s star \<or>
    star_rank s' star' \<le> star_rank s star \<and> length p' + length s' < length p + length s"
  using glob_pass_cases [OF assms(2)]
proof (elim disjE conjE)
  assume "deref p = CHR ''*''" "p' = tl p" "s' = s" "star' = Some (p, s)"
  moreover from this have "p \<noteq> []" by (auto simp: deref_def)
  ultimately show ?thesis using star_rank_star [of p s star] by simp
next
  assume "s' = tl s" "star' = star" "length p' \<le> length p"
  then show ?thesis using assms(1) star_rank_tl [of s star] by (auto simp: neq_Nil_conv)
qed (blast intro: glob_backtrack_rank)

function glob_loop :: "string \<Rightarrow> int \<Rightarrow> string \<Rightarrow> string \<Rightarrow> (string \<times> string) option \<Rightarrow> bool" where
  \<comment> \<open>the main loop, and the trailing stars after it\<close>
  "glob_loop str flags p s star =
     (if s = [] then dropWhile (\<lambda>c. c = CHR ''*'') p = []
      else (case glob_pass str flags p s star of
              Continue p s star \<Rightarrow> glob_loop str flags p s star
            | Break p \<Rightarrow> dropWhile (\<lambda>c. c = CHR ''*'') p = []
            | Return b \<Rightarrow> b))"
  by pat_completeness auto
termination
  by (relation "measures [\<lambda>(str, flags, p, s, star). star_rank s star, \<lambda>(str, flags, p, s, star). length p + length s]")
    (use glob_pass_decreases in \<open>fastforce simp: le_less\<close>)+

declare glob_loop.simps [simp del]

definition glob_util_match :: "string \<Rightarrow> string \<Rightarrow> int \<Rightarrow> bool" where
  "glob_util_match pattern str flags = glob_loop str flags pattern str None"

end
