(* ===== verification/Glob_Proofs.thy ===== *)
theory Glob_Proofs
  imports Glob
begin

section \<open>Correctness of the pattern matcher\<close>

text \<open>
  A pattern is parsed into items, and a declarative relation says which strings a list of
  items matches.  The matching loop with its single backtrack point is sound for that
  relation under all flags and complete without \<open>GLOB_UTIL_PATHNAME\<close> and \<open>GLOB_UTIL_PERIOD\<close>.
\<close>

subsection \<open>Patterns as lists of items\<close>

datatype glob_item = Any_string | Any_char | Literal char | Bracket bool "(char \<times> char option) list" | Unclosed

function parse_members :: "string \<Rightarrow> int \<Rightarrow> ((char \<times> char option) list \<times> string) option" where
  \<comment> \<open>the characters and ranges up to the closing bracket, and the pattern after it\<close>
  "parse_members p flags =
     (case read_pattern_char p flags of
        None \<Rightarrow> None
      | Some (escaped, ch, p) \<Rightarrow>
          if \<not> escaped \<and> ch = CHR '']'' then Some ([], p)
          else if deref p = CHR ''-'' \<and> deref (tl p) \<noteq> CHR '']'' \<and> deref (tl p) \<noteq> NUL then
            (case read_pattern_char (tl p) flags of
               None \<Rightarrow> None
             | Some (_, end_ch, p) \<Rightarrow> map_option (apfst ((#) (ch, Some end_ch))) (parse_members p flags))
          else map_option (apfst ((#) (ch, None))) (parse_members p flags))"
  by pat_completeness auto
termination
  by (relation "measure (\<lambda>(p, flags). length p)") (auto dest!: read_pattern_char_length)

declare parse_members.simps [simp del]

definition parse_bracket :: "string \<Rightarrow> int \<Rightarrow> (bool \<times> (char \<times> char option) list \<times> string) option" where
  "parse_bracket p flags =
     (let negate = (deref p = CHR ''!'' \<or> deref p = CHR ''^'');
          p = (if negate then tl p else p)
      in map_option (Pair negate)
           (if deref p = CHR '']'' then map_option (apfst ((#) (CHR '']'', None))) (parse_members (tl p) flags)
            else parse_members p flags))"

definition member_matches :: "int \<Rightarrow> char \<Rightarrow> char \<times> char option \<Rightarrow> bool" where
  "member_matches flags c m =
     (case m of (a, None) \<Rightarrow> chars_match c a flags | (a, Some b) \<Rightarrow> char_in_range c a b flags)"

lemma scan_bracket_members:
  "case parse_members p flags of
     None \<Rightarrow> \<not> fst (scan_bracket p c flags negate matched)
   | Some (ms, q) \<Rightarrow> scan_bracket p c flags negate matched = ((matched \<or> list_ex (member_matches flags c) ms) \<noteq> negate, q)"
proof (induction p flags arbitrary: matched rule: parse_members.induct)
  case (1 p flags)
  show ?case
  proof (cases "read_pattern_char p flags")
    case None
    then show ?thesis by (subst parse_members.simps, subst scan_bracket.simps) simp
  next
    case (Some r)
    obtain e ch q where r: "r = (e, ch, q)" by (cases r)
    note p = Some [unfolded r] and IH = 1 [OF Some, unfolded r, OF refl refl]
    show ?thesis
    proof (cases "read_pattern_char (tl q) flags")
      case None
      show ?thesis using p None IH(2)
        by (subst parse_members.simps, subst (1 2) scan_bracket.simps)
          (auto simp: member_matches_def split: option.splits)
    next
      case (Some r2)
      obtain e2 c2 q2 where r2: "r2 = (e2, c2, q2)" by (cases r2)
      show ?thesis using p Some r2 IH(1) [OF _ _ Some, unfolded r2, OF _ _ refl refl] IH(2)
        by (subst parse_members.simps, subst (1 2) scan_bracket.simps)
          (auto simp: member_matches_def split: option.splits)
    qed
  qed
qed

lemma match_bracket_members:
  "case parse_bracket p flags of
     None \<Rightarrow> \<not> fst (match_bracket p c flags)
   | Some (negate, ms, q) \<Rightarrow> match_bracket p c flags = (list_ex (member_matches flags c) ms \<noteq> negate, q)"
proof -
  define negate where "negate \<longleftrightarrow> deref p = CHR ''!'' \<or> deref p = CHR ''^''"
  define p' where "p' = (if negate then tl p else p)"
  show ?thesis
    using scan_bracket_members [of "tl p'" c flags negate "chars_match c CHR '']'' flags"]
      scan_bracket_members [of p' c flags negate False]
    unfolding parse_bracket_def match_bracket_def Let_def negate_def [symmetric] p'_def [symmetric]
    by (auto simp: member_matches_def split: option.splits)
qed

lemma parse_members_length: "parse_members p flags = Some (ms, q) \<Longrightarrow> length q < length p"
proof (induction p flags arbitrary: ms q rule: parse_members.induct)
  case (1 p flags)
  from 1(3) obtain e ch r where r: "read_pattern_char p flags = Some (e, ch, r)"
    by (subst (asm) parse_members.simps) (auto split: option.splits)
  note IH = 1(1,2) [OF r refl refl] and q = read_pattern_char_length [OF r]
  show ?case
  proof (cases "read_pattern_char (tl r) flags")
    case None
    then show ?thesis using 1(3) r IH(2) q
      by (subst (asm) parse_members.simps) (auto split: option.splits if_splits)
  next
    case (Some r2)
    obtain e2 c2 q2 where r2: "r2 = (e2, c2, q2)" by (cases r2)
    have "length q2 < length (tl r)" using read_pattern_char_length Some r2 by blast
    then show ?thesis using 1(3) r IH(2) IH(1) [OF _ _ Some, unfolded r2, OF _ _ refl refl] Some r2 q
      by (subst (asm) parse_members.simps) (fastforce split: option.splits if_splits)
  qed
qed

lemma parse_bracket_length: "parse_bracket p flags = Some (negate, ms, q) \<Longrightarrow> length q < length p"
  by (auto simp: parse_bracket_def Let_def split: if_splits dest!: parse_members_length)

function glob_parse :: "string \<Rightarrow> int \<Rightarrow> glob_item list" where
  "glob_parse p flags =
     (if p = [] then []
      else if \<not> flag_set flags GLOB_UTIL_NOESCAPE \<and> deref p = CHR 0x5C \<and> deref (tl p) \<noteq> NUL
      then Literal (deref (tl p)) # glob_parse (tl (tl p)) flags
      else if deref p = CHR ''*'' then Any_string # glob_parse (tl p) flags
      else if deref p = CHR ''?'' then Any_char # glob_parse (tl p) flags
      else if deref p = CHR ''['' then
        (case parse_bracket (tl p) flags of None \<Rightarrow> [Unclosed]
         | Some (negate, ms, q) \<Rightarrow> Bracket negate ms # glob_parse q flags)
      else Literal (deref p) # glob_parse (tl p) flags)"
  by pat_completeness auto
termination
  by (relation "measure (\<lambda>(p, flags). length p)")
    (auto dest!: parse_bracket_length simp: neq_Nil_conv)

declare glob_parse.simps [simp del]

fun item_matches :: "int \<Rightarrow> glob_item \<Rightarrow> char \<Rightarrow> bool" where
  "item_matches flags (Literal a) c = chars_match a c flags"
| "item_matches flags Any_char c = (\<not> (flag_set flags GLOB_UTIL_PATHNAME \<and> c = CHR ''/''))"
| "item_matches flags (Bracket negate ms) c =
     (\<not> (flag_set flags GLOB_UTIL_PATHNAME \<and> c = CHR ''/'') \<and> list_ex (member_matches flags c) ms \<noteq> negate)"
| "item_matches flags _ c = False"

definition star_matches :: "int \<Rightarrow> string \<Rightarrow> bool" where
  "star_matches flags u \<longleftrightarrow> \<not> (flag_set flags GLOB_UTIL_PATHNAME \<and> CHR ''/'' \<in> set u)"

inductive glob_matches :: "int \<Rightarrow> glob_item list \<Rightarrow> string \<Rightarrow> bool" for flags where
  empty: "glob_matches flags [] []"
| char: "item_matches flags i c \<Longrightarrow> glob_matches flags is s \<Longrightarrow> glob_matches flags (i # is) (c # s)"
| star: "star_matches flags u \<Longrightarrow> glob_matches flags is s \<Longrightarrow> glob_matches flags (Any_string # is) (u @ s)"

inductive_simps glob_matches_simps:
  "glob_matches flags [] s" "glob_matches flags (Any_string # is) s"

lemma glob_matches_item:
  "i \<noteq> Any_string \<Longrightarrow> glob_matches flags (i # is) s \<longleftrightarrow>
    (\<exists>c s'. s = c # s' \<and> item_matches flags i c \<and> glob_matches flags is s')"
  by (auto elim: glob_matches.cases intro: glob_matches.char)

lemma glob_matches_star:
  "glob_matches flags (Any_string # is) s \<longleftrightarrow>
    (\<exists>k\<le>length s. star_matches flags (take k s) \<and> glob_matches flags is (drop k s))"
proof
  assume "\<exists>k\<le>length s. star_matches flags (take k s) \<and> glob_matches flags is (drop k s)"
  then obtain k where "star_matches flags (take k s)" "glob_matches flags is (drop k s)" by blast
  from glob_matches.star [OF this] show "glob_matches flags (Any_string # is) s" by simp
next
  assume "glob_matches flags (Any_string # is) s"
  then obtain u t where "s = u @ t" "star_matches flags u" "glob_matches flags is t"
    by (auto simp: glob_matches_simps)
  then show "\<exists>k\<le>length s. star_matches flags (take k s) \<and> glob_matches flags is (drop k s)"
    by (intro exI [of _ "length u"]) simp
qed

subsection \<open>One pass of the loop\<close>

lemma deref_simps [simp]: "deref [] = NUL" "deref (c # p) = c"
  by (simp_all add: deref_def)

lemma lower_char_NUL: "lower_char c = NUL \<longleftrightarrow> c = NUL"
  by (auto simp: lower_char_def Let_def char_of_eq_iff take_bit_eq_mod of_char_zero_iff)

lemma chars_match_NUL: "chars_match NUL c flags \<longleftrightarrow> c = NUL"
  using lower_char_NUL [of c] lower_char_NUL [of NUL] by (auto simp: chars_match_def)

lemma pass_item:
  assumes "c \<noteq> NUL" "p \<noteq> []" "deref p \<noteq> CHR ''*''" "\<not> is_protected_dot (c # s) str flags"
  shows "\<exists>i is q. glob_parse p flags = i # is \<and> i \<noteq> Any_string \<and>
    (item_matches flags i c \<longrightarrow> is = glob_parse q flags) \<and>
    glob_pass str flags p (c # s) star =
      (if item_matches flags i c then Continue q s star else glob_backtrack flags star)"
proof -
  have eq: "glob_parse p flags = (if \<not> flag_set flags GLOB_UTIL_NOESCAPE \<and> deref p = CHR 0x5C \<and> deref (tl p) \<noteq> NUL
      then Literal (deref (tl p)) # glob_parse (tl (tl p)) flags
      else if deref p = CHR ''?'' then Any_char # glob_parse (tl p) flags
      else if deref p = CHR ''['' then
        (case parse_bracket (tl p) flags of None \<Rightarrow> [Unclosed]
         | Some (negate, ms, q) \<Rightarrow> Bracket negate ms # glob_parse q flags)
      else Literal (deref p) # glob_parse (tl p) flags)"
    using assms(2,3) by (subst glob_parse.simps) simp
  show ?thesis
  proof (cases "deref p = CHR ''[''")
    case True
    then show ?thesis using assms(4) match_bracket_members [of "tl p" c flags]
      unfolding eq by (auto simp: glob_pass_def split: option.splits prod.splits)
  next
    case False
    then show ?thesis using assms(3,4) unfolding eq by (auto simp: glob_pass_def)
  qed
qed

lemma pass_star:
  assumes "deref p = CHR ''*''" "\<not> is_protected_dot (c # s) str flags"
  shows "glob_parse p flags = Any_string # glob_parse (tl p) flags"
    "glob_pass str flags p (c # s) star =
      (if star_matches flags [c] then Continue (tl p) (c # s) (Some (p, c # s)) else glob_backtrack flags star)"
proof -
  have "p \<noteq> []" using assms(1) by auto
  then show "glob_parse p flags = Any_string # glob_parse (tl p) flags"
    using assms(1) by (subst glob_parse.simps) simp
qed (use assms in \<open>simp add: glob_pass_def star_matches_def\<close>)

lemma pass_end:
  assumes "c \<noteq> NUL" "\<not> is_protected_dot (c # s) str flags"
  shows "glob_pass str flags [] (c # s) star = glob_backtrack flags star"
  using assms by (auto simp: glob_pass_def chars_match_NUL)

lemma parse_stars:
  "glob_matches flags (glob_parse (dropWhile (\<lambda>c. c = CHR ''*'') p) flags) s \<Longrightarrow> glob_matches flags (glob_parse p flags) s"
proof (induction p)
  case (Cons c p)
  show ?case
  proof (cases "c = CHR ''*''")
    case True
    then have "glob_matches flags (Any_string # glob_parse p flags) ([] @ s)"
      using Cons by (intro glob_matches.star) (simp_all add: star_matches_def)
    then show ?thesis using True by (subst glob_parse.simps) simp
  qed (use Cons.prems in simp)
qed simp

lemma parse_empty: "glob_matches flags (glob_parse p flags) [] \<longleftrightarrow> dropWhile (\<lambda>c. c = CHR ''*'') p = []"
proof (induction p)
  case Nil
  then show ?case by (simp add: glob_parse.simps glob_matches.empty)
next
  case (Cons c p)
  show ?case
  proof (cases "c = CHR ''*''")
    case True
    then have "glob_parse (c # p) flags = Any_string # glob_parse p flags" by (subst glob_parse.simps) simp
    then show ?thesis using Cons True by (auto simp: glob_matches_star star_matches_def)
  next
    case False
    then have "\<exists>i is. glob_parse (c # p) flags = i # is \<and> i \<noteq> Any_string"
      by (subst glob_parse.simps) (auto split: option.splits)
    then show ?thesis using False by (auto simp: glob_matches_item)
  qed
qed

subsection \<open>Soundness\<close>

definition star_alternative :: "int \<Rightarrow> (string \<times> string) option \<Rightarrow> bool" where
  \<comment> \<open>the recorded star takes at least one character more\<close>
  "star_alternative flags star \<longleftrightarrow>
     (\<exists>p c s. star = Some (p, c # s) \<and> glob_matches flags (Any_string # glob_parse (tl p) flags) s)"

definition star_ok :: "int \<Rightarrow> (string \<times> string) option \<Rightarrow> bool" where
  "star_ok flags star \<longleftrightarrow> (\<forall>p s. star = Some (p, s) \<longrightarrow> s \<noteq> [] \<and> nul_free s \<and> star_matches flags [hd s])"

lemma star_matches_Cons: "star_matches flags (c # u) \<longleftrightarrow> star_matches flags [c] \<and> star_matches flags u"
  by (auto simp: star_matches_def)

lemma star_Nil: "glob_matches flags is s \<Longrightarrow> glob_matches flags (Any_string # is) s"
  using glob_matches.star [of flags "[]"] by (simp add: star_matches_def)

lemma star_Cons:
  "star_matches flags [c] \<Longrightarrow> glob_matches flags (Any_string # is) (c # s) \<longleftrightarrow>
     glob_matches flags is (c # s) \<or> glob_matches flags (Any_string # is) s"
proof (intro iffI; (elim disjE)?)
  assume c: "star_matches flags [c]"
  assume "glob_matches flags (Any_string # is) (c # s)"
  then obtain u t where u: "c # s = u @ t" "star_matches flags u" "glob_matches flags is t"
    by (auto simp: glob_matches_simps)
  show "glob_matches flags is (c # s) \<or> glob_matches flags (Any_string # is) s"
  proof (cases u)
    case Nil
    then show ?thesis using u by simp
  next
    case (Cons a v)
    then have "s = v @ t" "star_matches flags v" using u Cons star_matches_Cons [of flags a v] by auto
    then show ?thesis using u(3) by (auto intro: glob_matches.star)
  qed
next
  assume c: "star_matches flags [c]"
  assume "glob_matches flags (Any_string # is) s"
  then obtain u t where "s = u @ t" "star_matches flags u" "glob_matches flags is t"
    by (auto simp: glob_matches_simps)
  then have "glob_matches flags (Any_string # is) ((c # u) @ t)"
    using c star_matches_Cons [of flags c u] by (intro glob_matches.star) auto
  then show "glob_matches flags (Any_string # is) (c # s)" using \<open>s = u @ t\<close> by simp
qed (rule star_Nil)

lemma deref_slash: "s \<noteq> [] \<Longrightarrow> flag_set flags GLOB_UTIL_PATHNAME \<and> deref s = CHR ''/'' \<longleftrightarrow> \<not> star_matches flags [hd s]"
  by (cases s) (auto simp: star_matches_def)

lemma backtrack_Some:
  "glob_backtrack flags (Some (p, s)) =
    (if tl s = [] then Break (tl p)
     else if star_matches flags [hd (tl s)] then Continue (tl p) (tl s) (Some (p, tl s)) else Return False)"
  using deref_slash [of "tl s" flags] by (simp add: glob_backtrack_def Let_def)

lemma backtrack_None: "glob_backtrack flags None = Return False"
  by (simp add: glob_backtrack_def)

text \<open>What the loop returns after one pass.\<close>

definition after_pass :: "string \<Rightarrow> int \<Rightarrow> glob_step \<Rightarrow> bool" where
  "after_pass str flags st =
     (case st of Continue p s star \<Rightarrow> glob_loop str flags p s star
      | Break p \<Rightarrow> dropWhile (\<lambda>c. c = CHR ''*'') p = []
      | Return b \<Rightarrow> b)"

lemma glob_loop_pass: "glob_loop str flags p (c # s) star = after_pass str flags (glob_pass str flags p (c # s) star)"
  by (subst glob_loop.simps) (simp add: after_pass_def)

lemma glob_loop_end: "glob_loop str flags p [] star \<longleftrightarrow> glob_matches flags (glob_parse p flags) []"
  by (subst glob_loop.simps) (simp add: parse_empty)

lemma after_pass_simps [simp]:
  "after_pass str flags (Continue p s star) = glob_loop str flags p s star"
  "after_pass str flags (Return b) = b"
  by (simp_all add: after_pass_def)

lemma after_pass_break [simp]: "after_pass str flags (Break p) \<longleftrightarrow> glob_matches flags (glob_parse p flags) []"
  by (simp add: after_pass_def parse_empty)

lemma star_alternative_simps:
  "\<not> star_alternative flags None"
  "star_alternative flags (Some (p, c # s)) \<longleftrightarrow> glob_matches flags (Any_string # glob_parse (tl p) flags) s"
  by (auto simp: star_alternative_def)

lemma backtrack_sound:
  assumes "after_pass str flags (glob_backtrack flags star)" "star_ok flags star"
    and "\<And>p' s' star'. glob_backtrack flags star = Continue p' s' star' \<Longrightarrow> glob_loop str flags p' s' star' \<Longrightarrow>
      nul_free s' \<Longrightarrow> star_ok flags star' \<Longrightarrow> glob_matches flags (glob_parse p' flags) s' \<or> star_alternative flags star'"
  shows "star_alternative flags star"
proof (cases star)
  case None
  then show ?thesis using assms(1) by (simp add: backtrack_None)
next
  case (Some ps)
  obtain p c s where ps: "star = Some (p, c # s)" and nf: "nul_free s"
    using Some assms(2) by (cases ps; cases "snd ps") (auto simp: star_ok_def)
  show ?thesis
  proof (cases s)
    case Nil
    then have "glob_matches flags (glob_parse (tl p) flags) []" using assms(1) ps by (simp add: backtrack_Some)
    then show ?thesis using ps Nil star_Nil by (simp add: star_alternative_simps)
  next
    case (Cons d t)
    then have d: "star_matches flags [d]" using assms(1) ps by (auto simp: backtrack_Some split: if_splits)
    then have b: "glob_backtrack flags star = Continue (tl p) s (Some (p, s))" using ps Cons by (simp add: backtrack_Some)
    have "glob_matches flags (glob_parse (tl p) flags) s \<or> star_alternative flags (Some (p, s))"
      by (rule assms(3) [OF b]) (use assms(1) b nf d Cons in \<open>auto simp: star_ok_def\<close>)
    then show ?thesis using ps Cons star_Cons [OF d] by (auto simp: star_alternative_simps)
  qed
qed

lemma protected_pass:
  assumes "is_protected_dot (c # s) str flags"
  shows "glob_pass str flags p (c # s) star = Return False \<or>
    (\<exists>r. glob_parse (dropWhile (\<lambda>c. c = CHR ''*'') p) flags = Literal CHR ''.'' # glob_parse r flags \<and>
      glob_pass str flags p (c # s) star = Continue r s star)"
proof -
  define q where "q = dropWhile (\<lambda>c. c = CHR ''*'') p"
  have dot: "glob_parse q flags = Literal CHR ''.'' # glob_parse (tl q) flags" if "deref q = CHR ''.''"
    using that by (cases q) (subst glob_parse.simps; simp)+
  have esc: "glob_parse q flags = Literal CHR ''.'' # glob_parse (tl (tl q)) flags"
    if "\<not> flag_set flags GLOB_UTIL_NOESCAPE" "deref q = CHR 0x5C" "deref (tl q) = CHR ''.''"
    using that by (cases q) (subst glob_parse.simps; simp)+
  show ?thesis
    using assms dot esc unfolding q_def [symmetric] by (auto simp: glob_pass_def q_def [symmetric] Let_def)
qed

lemma glob_loop_sound:
  "glob_loop str flags p s star \<Longrightarrow> nul_free s \<Longrightarrow> star_ok flags star \<Longrightarrow>
    glob_matches flags (glob_parse p flags) s \<or> star_alternative flags star"
proof (induction str flags p s star rule: glob_loop.induct)
  case (1 str flags p s star)
  show ?case
  proof (cases s)
    case Nil
    then show ?thesis using 1(2) by (simp add: glob_loop_end)
  next
    case (Cons c t)
    note [simp] = Cons
    have c: "c \<noteq> NUL" "nul_free t" using 1(3) by auto
    let ?pass = "glob_pass str flags p (c # t) star"
    have run: "after_pass str flags ?pass" using 1(2) by (simp add: glob_loop_pass)
    have IH: "glob_matches flags (glob_parse p' flags) s' \<or> star_alternative flags star'"
      if "?pass = Continue p' s' star'" "glob_loop str flags p' s' star'" "nul_free s'" "star_ok flags star'" for p' s' star'
      using 1(1) that by simp
    have bt: ?thesis if "?pass = glob_backtrack flags star"
      using backtrack_sound [OF _ 1(4), of str] run IH that by auto
    consider "is_protected_dot (c # t) str flags" | "\<not> is_protected_dot (c # t) str flags" "p = []"
      | "\<not> is_protected_dot (c # t) str flags" "p \<noteq> []" "deref p = CHR ''*''"
      | "\<not> is_protected_dot (c # t) str flags" "p \<noteq> []" "deref p \<noteq> CHR ''*''" by blast
    then show ?thesis
    proof cases
      case 1
      then have dot: "c = CHR ''.''" by (simp add: is_protected_dot_def)
      obtain q r where q: "q = dropWhile (\<lambda>c. c = CHR ''*'') p" "glob_parse q flags = Literal CHR ''.'' # glob_parse r flags"
          "?pass = Continue r t star"
        using run 1 protected_pass [OF 1, of p star] by auto
      have "glob_matches flags (glob_parse r flags) t \<or> star_alternative flags star"
        using run q(3) c(2) \<open>star_ok flags star\<close> by (intro IH) auto
      moreover have "glob_matches flags (glob_parse p flags) s" if "glob_matches flags (glob_parse r flags) t"
        using parse_stars [of flags p s] q(1,2) that dot by (simp add: glob_matches_item chars_match_def)
      ultimately show ?thesis by blast
    next
      case 2
      then show ?thesis using pass_end [OF c(1)] bt by blast
    next
      case 3
      note star = pass_star [OF 3(3,1)]
      show ?thesis
      proof (cases "star_matches flags [c]")
        case True
        then have "glob_matches flags (glob_parse (tl p) flags) (c # t) \<or> star_alternative flags (Some (p, c # t))"
          using run 1 star(2) by (intro IH) (auto simp: star_ok_def)
        then show ?thesis using star(1) star_Cons [OF True] by (auto simp: star_alternative_simps)
      qed (use bt star in auto)
    next
      case 4
      then obtain i "is" q where i: "glob_parse p flags = i # is" "i \<noteq> Any_string"
          "item_matches flags i c \<Longrightarrow> is = glob_parse q flags"
          "?pass = (if item_matches flags i c then Continue q t star else glob_backtrack flags star)"
        using pass_item [OF c(1) 4(2,3,1)] by blast
      show ?thesis
      proof (cases "item_matches flags i c")
        case True
        then have "glob_matches flags (glob_parse q flags) t \<or> star_alternative flags star"
          using run i(4) c(2) \<open>star_ok flags star\<close> by (intro IH) auto
        then show ?thesis using i True by (auto simp: glob_matches_item)
      qed (use bt i in auto)
    qed
  qed
qed

subsection \<open>Completeness\<close>

definition plain_flags :: "int \<Rightarrow> bool" where
  "plain_flags flags \<longleftrightarrow> \<not> flag_set flags GLOB_UTIL_PATHNAME \<and> \<not> flag_set flags GLOB_UTIL_PERIOD"

lemma plain_star [simp]: "plain_flags flags \<Longrightarrow> star_matches flags u"
  by (simp add: plain_flags_def star_matches_def)

lemma plain_dot [simp]: "plain_flags flags \<Longrightarrow> \<not> is_protected_dot s str flags"
  by (simp add: plain_flags_def is_protected_dot_def)

lemma star_absorbs:
  "plain_flags flags \<Longrightarrow> glob_matches flags (Any_string # is) (drop k s) \<Longrightarrow> glob_matches flags (Any_string # is) s"
proof (induction k)
  case (Suc k)
  show ?case
  proof (cases "drop k s")
    case Nil
    then show ?thesis using Suc by (simp add: drop_Suc tl_drop)
  next
    case (Cons c t)
    then have "drop (Suc k) s = t" by (metis list.sel(3) tl_drop drop_Suc)
    then show ?thesis using Suc star_Cons [of flags c "is" t] Cons by simp
  qed
qed simp

lemma items_take: "Any_string \<notin> set xs \<Longrightarrow> glob_matches flags (xs @ is) s \<Longrightarrow>
  length xs \<le> length s \<and> glob_matches flags is (drop (length xs) s)"
  by (induction xs arbitrary: s) (auto simp: glob_matches_item)

text \<open>Between the recorded star and the current position there are only items that take one
  character each, which is why one backtrack point is enough.\<close>

definition greedy :: "int \<Rightarrow> string \<Rightarrow> string \<Rightarrow> (string \<times> string) option \<Rightarrow> bool" where
  "greedy flags p s star \<longleftrightarrow>
     (\<forall>sp ss. star = Some (sp, ss) \<longrightarrow>
       (\<exists>xs. glob_parse (tl sp) flags = xs @ glob_parse p flags \<and> Any_string \<notin> set xs \<and>
         length xs \<le> length ss \<and> s = drop (length xs) ss))"

lemma greedy_alternative:
  assumes "plain_flags flags" "greedy flags p s star" "star_alternative flags star"
  shows "\<exists>k>0. k \<le> length s \<and> glob_matches flags (glob_parse p flags) (drop k s)"
proof -
  obtain sp d ss where sp: "star = Some (sp, d # ss)" "glob_matches flags (Any_string # glob_parse (tl sp) flags) ss"
    using assms(3) by (auto simp: star_alternative_def)
  then obtain k where k: "k \<le> length ss" "glob_matches flags (glob_parse (tl sp) flags) (drop k ss)"
    by (auto simp: glob_matches_star)
  obtain xs where xs: "glob_parse (tl sp) flags = xs @ glob_parse p flags" "Any_string \<notin> set xs"
      "length xs \<le> length (d # ss)" "s = drop (length xs) (d # ss)"
    using assms(2) sp(1) by (auto simp: greedy_def)
  have m: "length xs \<le> length ss - k" "glob_matches flags (glob_parse p flags) (drop (length xs) (drop k ss))"
    using items_take [OF xs(2)] k(2) xs(1) by fastforce+
  have "drop (Suc k) s = drop (length xs) (drop k ss)" using xs(4) by (simp add: add.commute)
  moreover have "Suc k \<le> length s" using xs(4) m(1) k(1) by simp
  ultimately show ?thesis using m(2) by (intro exI [of _ "Suc k"]) simp
qed

lemma backtrack_complete:
  assumes "plain_flags flags" "star_alternative flags star" "star_ok flags star"
    and "\<And>p' s' star'. glob_backtrack flags star = Continue p' s' star' \<Longrightarrow>
      glob_matches flags (glob_parse p' flags) s' \<or> star_alternative flags star' \<Longrightarrow>
      nul_free s' \<Longrightarrow> star_ok flags star' \<Longrightarrow> greedy flags p' s' star' \<Longrightarrow> glob_loop str flags p' s' star'"
  shows "after_pass str flags (glob_backtrack flags star)"
proof -
  obtain p c s where p: "star = Some (p, c # s)" "glob_matches flags (Any_string # glob_parse (tl p) flags) s"
    using assms(2) by (auto simp: star_alternative_def)
  show ?thesis
  proof (cases s)
    case Nil
    then show ?thesis using p by (auto simp: backtrack_Some glob_matches_star)
  next
    case (Cons d t)
    then have b: "glob_backtrack flags star = Continue (tl p) s (Some (p, s))" using p assms(1) by (simp add: backtrack_Some)
    have "glob_loop str flags (tl p) s (Some (p, s))"
      by (rule assms(4) [OF b])
        (use p Cons assms(1,3) star_Cons [of flags d "glob_parse (tl p) flags" t] in
          \<open>auto simp: star_alternative_simps star_ok_def greedy_def\<close>)
    then show ?thesis using b by simp
  qed
qed

lemma glob_loop_complete:
  "glob_matches flags (glob_parse p flags) s \<or> star_alternative flags star \<Longrightarrow> plain_flags flags \<Longrightarrow>
    nul_free s \<Longrightarrow> star_ok flags star \<Longrightarrow> greedy flags p s star \<Longrightarrow> glob_loop str flags p s star"
proof (induction str flags p s star rule: glob_loop.induct)
  case (1 str flags p s star)
  note plain = 1(3) and ok = 1(5) and greedy = 1(6)
  show ?case
  proof (cases s)
    case Nil
    then show ?thesis using 1(2) greedy_alternative [OF plain greedy] by (auto simp: glob_loop_end)
  next
    case (Cons c t)
    note [simp] = Cons
    have c: "c \<noteq> NUL" "nul_free t" using 1(4) by auto
    let ?pass = "glob_pass str flags p (c # t) star"
    have dot: "\<not> is_protected_dot (c # t) str flags" using plain by simp
    have IH: "glob_loop str flags p' s' star'"
      if "?pass = Continue p' s' star'" "glob_matches flags (glob_parse p' flags) s' \<or> star_alternative flags star'"
        "nul_free s'" "star_ok flags star'" "greedy flags p' s' star'" for p' s' star'
      using 1(1) plain that by simp
    have bt: ?thesis if "?pass = glob_backtrack flags star" "\<not> glob_matches flags (glob_parse p flags) s"
      using backtrack_complete [OF plain _ ok, of str] 1(2) IH that by (auto simp: glob_loop_pass)
    consider "p = []" | "p \<noteq> []" "deref p = CHR ''*''" | "p \<noteq> []" "deref p \<noteq> CHR ''*''" by blast
    then show ?thesis
    proof cases
      case 1
      then show ?thesis using pass_end [OF c(1) dot] bt by (simp add: glob_parse.simps glob_matches_simps)
    next
      case 2
      note star = pass_star [OF 2(2) dot]
      have "glob_matches flags (Any_string # glob_parse (tl p) flags) s"
        using \<open>glob_matches flags (glob_parse p flags) s \<or> _\<close> greedy_alternative [OF plain greedy]
          star_absorbs [OF plain] star(1) by auto
      then have "glob_matches flags (glob_parse (tl p) flags) (c # t) \<or> star_alternative flags (Some (p, c # t))"
        using star_Cons [of flags c _ t] plain by (auto simp: star_alternative_simps)
      then have "glob_loop str flags (tl p) (c # t) (Some (p, c # t))"
        using star(2) plain \<open>nul_free s\<close> by (intro IH) (auto simp: star_ok_def greedy_def)
      then show ?thesis using star(2) plain by (simp add: glob_loop_pass)
    next
      case 3
      then obtain i "is" q where i: "glob_parse p flags = i # is" "i \<noteq> Any_string"
          "item_matches flags i c \<Longrightarrow> is = glob_parse q flags"
          "?pass = (if item_matches flags i c then Continue q t star else glob_backtrack flags star)"
        using pass_item [OF c(1) 3 dot] by blast
      show ?thesis
      proof (cases "item_matches flags i c")
        case True
        have "greedy flags q t star"
          unfolding greedy_def
        proof (intro allI impI)
          fix sp ss assume "star = Some (sp, ss)"
          then obtain xs where xs: "glob_parse (tl sp) flags = xs @ glob_parse p flags" "Any_string \<notin> set xs"
              "length xs \<le> length ss" "c # t = drop (length xs) ss"
            using greedy by (auto simp: greedy_def)
          have "t = drop (Suc (length xs)) ss" by (metis xs(4) list.sel(3) tl_drop drop_Suc)
          moreover have "length xs < length ss" using arg_cong [OF xs(4), of length] by simp
          ultimately show "\<exists>xs. glob_parse (tl sp) flags = xs @ glob_parse q flags \<and> Any_string \<notin> set xs \<and>
              length xs \<le> length ss \<and> t = drop (length xs) ss"
            using xs i True by (intro exI [of _ "xs @ [i]"]) auto
        qed
        then have "glob_loop str flags q t star"
          using i True c(2) ok \<open>glob_matches flags (glob_parse p flags) s \<or> _\<close>
          by (intro IH) (auto simp: glob_matches_item)
        then show ?thesis using i(4) True by (simp add: glob_loop_pass)
      qed (use bt i in \<open>auto simp: glob_matches_item\<close>)
    qed
  qed
qed

subsection \<open>The matcher against the relation\<close>

lemma glob_util_match_sound:
  "nul_free str \<Longrightarrow> glob_util_match pattern str flags \<Longrightarrow> glob_matches flags (glob_parse pattern flags) str"
  using glob_loop_sound [of str flags pattern str None]
  by (auto simp: glob_util_match_def star_ok_def star_alternative_simps)

lemma glob_util_match_iff:
  "nul_free str \<Longrightarrow> plain_flags flags \<Longrightarrow>
    glob_util_match pattern str flags \<longleftrightarrow> glob_matches flags (glob_parse pattern flags) str"
  using glob_util_match_sound glob_loop_complete [of flags pattern str None str]
  by (auto simp: glob_util_match_def star_ok_def greedy_def)

end
