(* ===== verification/Pattern_Removal.thy ===== *)
theory Pattern_Removal
  imports String_Ops Glob_Proofs
begin

section \<open>Pattern removal (pattern_removal.c)\<close>

text \<open>
  The expansions \<open>${var#p}\<close>, \<open>${var##p}\<close>, \<open>${var%p}\<close> and \<open>${var%%p}\<close> over the string type.
  The matcher is an argument, since \<open>glob_util_match\<close> is \<open>fnmatch\<close> of the C library on POSIX
  systems and the matcher of glob_util.c elsewhere; the interface of a matcher is a locale,
  interpreted on the latter.  An allocation is taken to succeed.
\<close>

fun read_cstr :: "block \<Rightarrow> string option" where
  \<comment> \<open>the C string in a block\<close>
  "read_cstr [] = None"
| "read_cstr (None # b) = None"
| "read_cstr (Some c # b) = (if c = NUL then Some [] else map_option ((#) c) (read_cstr b))"

function first_up :: "(int \<Rightarrow> bool option) \<Rightarrow> int \<Rightarrow> int \<Rightarrow> int option option" where
  \<comment> \<open>\<open>for (; i <= n; i++)\<close>, up to the first index that matches\<close>
  "first_up test n i =
     (if i \<le> n then do { matched \<leftarrow> test i; if matched then Some (Some i) else first_up test n (i + 1) }
      else Some None)"
  by pat_completeness auto
termination by (relation "measure (\<lambda>(test, n, i). nat (n + 1 - i))") auto

function first_down :: "(int \<Rightarrow> bool option) \<Rightarrow> int \<Rightarrow> int option option" where
  \<comment> \<open>\<open>for (; i >= 0; i--)\<close>\<close>
  "first_down test i =
     (if i \<ge> 0 then do { matched \<leftarrow> test i; if matched then Some (Some i) else first_down test (i - 1) }
      else Some None)"
  by pat_completeness auto
termination by (relation "measure (\<lambda>(test, i). nat (i + 1))") auto

declare first_up.simps [simp del] first_down.simps [simp del]

definition prefix_matches :: "(string \<Rightarrow> string \<Rightarrow> int \<Rightarrow> bool) \<Rightarrow> string_t \<Rightarrow> string_t \<Rightarrow> int \<Rightarrow> bool option" where
  \<comment> \<open>a copy of the first \<open>i\<close> characters against the pattern\<close>
  "prefix_matches match v pattern i =
     do { prefix \<leftarrow> block_copy (alloc_block (i + 1)) 0 (data_block v) 0 i;
          prefix \<leftarrow> block_store prefix i NUL;
          pat_str \<leftarrow> read_cstr (data_block pattern);
          str \<leftarrow> read_cstr prefix;
          Some (match pat_str str 0) }"

definition suffix_matches :: "(string \<Rightarrow> string \<Rightarrow> int \<Rightarrow> bool) \<Rightarrow> string_t \<Rightarrow> string_t \<Rightarrow> int \<Rightarrow> bool option" where
  "suffix_matches match v pattern i =
     do { pat_str \<leftarrow> read_cstr (data_block pattern);
          str \<leftarrow> read_cstr (drop (nat i) (data_block v));
          Some (match pat_str str 0) }"

text \<open>What follows the loop: the rest after position \<open>i\<close>, or the characters before it.\<close>

definition rest_after :: "string_t \<Rightarrow> int option \<Rightarrow> string_t option" where
  "rest_after v found =
     (case found of Some i \<Rightarrow> string_create_from_cstr (Some (drop (nat i) (data_block v)))
      | None \<Rightarrow> string_create_from v)"

definition rest_before :: "string_t \<Rightarrow> int option \<Rightarrow> string_t option" where
  "rest_before v found =
     (case found of Some i \<Rightarrow> string_create_from_cstr_len (Some (data_block v)) i
      | None \<Rightarrow> string_create_from v)"

definition remove_prefix_smallest ::
  "(string \<Rightarrow> string \<Rightarrow> int \<Rightarrow> bool) \<Rightarrow> string_t option \<Rightarrow> string_t option \<Rightarrow> string_t option" where
  "remove_prefix_smallest match v0 pattern0 =
     (case (v0, pattern0) of (Some v, Some pattern) \<Rightarrow>
        if string_empty pattern then string_create_from v
        else Option.bind (first_up (prefix_matches match v pattern) (str_length v) 0) (rest_after v)
      | _ \<Rightarrow> Some string_create)"

definition remove_prefix_largest ::
  "(string \<Rightarrow> string \<Rightarrow> int \<Rightarrow> bool) \<Rightarrow> string_t option \<Rightarrow> string_t option \<Rightarrow> string_t option" where
  "remove_prefix_largest match v0 pattern0 =
     (case (v0, pattern0) of (Some v, Some pattern) \<Rightarrow>
        if string_empty pattern then string_create_from v
        else Option.bind (first_down (prefix_matches match v pattern) (str_length v)) (rest_after v)
      | _ \<Rightarrow> Some string_create)"

definition remove_suffix_smallest ::
  "(string \<Rightarrow> string \<Rightarrow> int \<Rightarrow> bool) \<Rightarrow> string_t option \<Rightarrow> string_t option \<Rightarrow> string_t option" where
  "remove_suffix_smallest match v0 pattern0 =
     (case (v0, pattern0) of (Some v, Some pattern) \<Rightarrow>
        if string_empty pattern then string_create_from v
        else Option.bind (first_down (suffix_matches match v pattern) (str_length v)) (rest_before v)
      | _ \<Rightarrow> Some string_create)"

definition remove_suffix_largest ::
  "(string \<Rightarrow> string \<Rightarrow> int \<Rightarrow> bool) \<Rightarrow> string_t option \<Rightarrow> string_t option \<Rightarrow> string_t option" where
  "remove_suffix_largest match v0 pattern0 =
     (case (v0, pattern0) of (Some v, Some pattern) \<Rightarrow>
        if string_empty pattern then string_create_from v
        else Option.bind (first_up (suffix_matches match v pattern) (str_length v) 0) (rest_before v)
      | _ \<Rightarrow> Some string_create)"

subsection \<open>The loops\<close>

lemma read_cstr_chars: "nul_free cs \<Longrightarrow> read_cstr (map Some cs @ Some NUL # r) = Some cs"
  by (induction cs) auto

definition first_of :: "(nat \<Rightarrow> bool) \<Rightarrow> nat \<Rightarrow> nat \<Rightarrow> int option \<Rightarrow> bool" where
  \<comment> \<open>the smallest index from \<open>i\<close> to \<open>n\<close> with the property, if any\<close>
  "first_of P i n f \<longleftrightarrow> (case f of None \<Rightarrow> \<forall>j. i \<le> j \<and> j \<le> n \<longrightarrow> \<not> P j
     | Some k \<Rightarrow> int i \<le> k \<and> k \<le> int n \<and> P (nat k) \<and> (\<forall>j. i \<le> j \<and> j < nat k \<longrightarrow> \<not> P j))"

definition last_of :: "(nat \<Rightarrow> bool) \<Rightarrow> int \<Rightarrow> int option \<Rightarrow> bool" where
  \<comment> \<open>the largest index up to \<open>i\<close>\<close>
  "last_of P i f \<longleftrightarrow> (case f of None \<Rightarrow> \<forall>j. int j \<le> i \<longrightarrow> \<not> P j
     | Some k \<Rightarrow> 0 \<le> k \<and> k \<le> i \<and> P (nat k) \<and> (\<forall>j. nat k < j \<and> int j \<le> i \<longrightarrow> \<not> P j))"

lemma first_of_step:
  assumes "\<not> P i" "first_of P (Suc i) n f" shows "first_of P i n f"
proof -
  have j: "i \<le> j \<longleftrightarrow> j = i \<or> Suc i \<le> j" for j by auto
  show ?thesis using assms unfolding first_of_def by (auto simp: j split: option.splits)
qed

lemma last_of_step:
  assumes "0 \<le> i" "\<not> P (nat i)" "last_of P (i - 1) f" shows "last_of P i f"
proof -
  have j: "int j \<le> i \<longleftrightarrow> j = nat i \<or> int j \<le> i - 1" for j using assms(1) by auto
  show ?thesis using assms unfolding last_of_def by (auto simp: j split: option.splits)
qed

lemma found_bounds:
  "first_of P i n (Some k) \<Longrightarrow> 0 \<le> k \<and> k \<le> int n"
  "last_of P m (Some k) \<Longrightarrow> 0 \<le> k \<and> k \<le> m"
  by (auto simp: first_of_def last_of_def)

lemma first_up_finds:
  "(\<And>j. i \<le> j \<Longrightarrow> j \<le> n \<Longrightarrow> test (int j) = Some (P j)) \<Longrightarrow>
    \<exists>f. first_up test (int n) (int i) = Some f \<and> first_of P i n f"
proof (induction "Suc n - i" arbitrary: i)
  case 0
  then show ?case by (intro exI [of _ None]) (subst first_up.simps, auto simp: first_of_def)
next
  case (Suc k)
  then have i: "i \<le> n" and k: "k = Suc n - Suc i" by arith+
  show ?case
  proof (cases "P i")
    case True
    then show ?thesis using Suc.prems [of i] i by (intro exI [of _ "Some (int i)"]) (subst first_up.simps, auto simp: first_of_def)
  next
    case False
    obtain f where "first_up test (int n) (int (Suc i)) = Some f" "first_of P (Suc i) n f"
      using Suc.hyps(1) [of "Suc i"] k Suc.prems by auto
    then show ?thesis using False Suc.prems [of i] i first_of_step [of P i n f]
      by (intro exI [of _ f]) (subst first_up.simps, simp add: add.commute)
  qed
qed

lemma first_down_finds:
  "(\<And>j. int j \<le> int i - 1 \<Longrightarrow> test (int j) = Some (P j)) \<Longrightarrow>
    \<exists>f. first_down test (int i - 1) = Some f \<and> last_of P (int i - 1) f"
proof (induction i)
  case 0
  then show ?case by (intro exI [of _ None]) (subst first_down.simps, auto simp: last_of_def)
next
  case (Suc i)
  show ?case
  proof (cases "P i")
    case True
    then show ?thesis using Suc.prems [of i] by (intro exI [of _ "Some (int i)"]) (subst first_down.simps, auto simp: last_of_def)
  next
    case False
    obtain f where "first_down test (int i - 1) = Some f" "last_of P (int i - 1) f"
      using Suc.IH Suc.prems by auto
    then show ?thesis using False Suc.prems [of i] last_of_step [of "int i" P f]
      by (intro exI [of _ f]) (subst first_down.simps, simp)
  qed
qed

lemma prefix_matches_ok:
  assumes "represents v cs" "represents pattern ps" "nul_free cs" "nul_free ps" "j \<le> length cs"
  shows "prefix_matches match v pattern (int j) = Some (match ps (take j cs) 0)"
proof -
  obtain r where r: "data_block v = map Some cs @ Some NUL # r" using assms(1) by (rule represents_block)
  obtain q where q: "data_block pattern = map Some ps @ Some NUL # q" using assms(2) by (rule represents_block)
  have "block_copy (alloc_block (int j + 1)) 0 (data_block v) 0 (int j) = Some (map Some (take j cs) @ replicate 1 None)"
    using assms(5) block_copy_prefix [of j cs "alloc_block (int j + 1)" "Some NUL # r"] r
    by (simp add: alloc_block_def nat_add_distrib drop_replicate del: replicate_Suc)
  moreover have "block_store (map Some (take j cs) @ replicate 1 None) (int j) NUL = Some (map Some (take j cs) @ [Some NUL])"
    using assms(5) by (simp add: block_store_def list_update_append)
  ultimately show ?thesis
    using q assms(3,4) by (simp add: prefix_matches_def read_cstr_chars)
qed

lemma suffix_matches_ok:
  assumes "represents v cs" "represents pattern ps" "nul_free cs" "nul_free ps" "j \<le> length cs"
  shows "suffix_matches match v pattern (int j) = Some (match ps (drop j cs) 0)"
proof -
  obtain r where r: "data_block v = map Some cs @ Some NUL # r" using assms(1) by (rule represents_block)
  obtain q where q: "data_block pattern = map Some ps @ Some NUL # q" using assms(2) by (rule represents_block)
  have "drop j (data_block v) = map Some (drop j cs) @ Some NUL # r" using r assms(5) by (simp add: drop_map)
  then show ?thesis using q assms(3,4) by (simp add: suffix_matches_def read_cstr_chars)
qed

lemma rest_after_ok:
  assumes "represents v cs" "nul_free cs" "\<And>k. found = Some k \<Longrightarrow> 0 \<le> k \<and> k \<le> int (length cs)"
  shows "yields (rest_after v found) (case found of None \<Rightarrow> cs | Some k \<Rightarrow> drop (nat k) cs)"
proof (cases found)
  case None
  then show ?thesis using string_create_from_ok [OF assms(1)] by (simp add: rest_after_def)
next
  case (Some k)
  obtain r where r: "data_block v = map Some cs @ Some NUL # r" using assms(1) by (rule represents_block)
  then have d: "drop (nat k) (data_block v) = map Some (drop (nat k) cs) @ Some NUL # r"
    using assms(3) Some by (simp add: drop_map nat_le_iff)
  have l: "int (length (drop (nat k) cs)) < INT_MAX" using represents_bounds [OF assms(1)] by simp
  have "yields (string_create_from_cstr (Some (map Some (drop (nat k) cs) @ Some NUL # r))) (drop (nat k) cs)"
    using string_create_from_cstr_len_ok [of "int (length (drop (nat k) cs))" "drop (nat k) cs" "Some NUL # r"] l assms(2)
    by (simp add: string_create_from_cstr_def c_simps)
  then show ?thesis using d Some by (simp add: rest_after_def)
qed

lemma rest_before_ok:
  assumes "represents v cs" "\<And>k. found = Some k \<Longrightarrow> 0 \<le> k \<and> k \<le> int (length cs)"
  shows "yields (rest_before v found) (case found of None \<Rightarrow> cs | Some k \<Rightarrow> take (nat k) cs)"
proof (cases found)
  case None
  then show ?thesis using string_create_from_ok [OF assms(1)] by (simp add: rest_before_def)
next
  case (Some k)
  obtain r where r: "data_block v = map Some cs @ Some NUL # r" using assms(1) by (rule represents_block)
  have k: "0 \<le> k" "k \<le> int (length cs)" "k < INT_MAX" using assms(2) Some represents_bounds [OF assms(1)] by auto
  then show ?thesis using string_create_from_cstr_len_ok [of k cs "Some NUL # r"] r Some
    by (simp add: rest_before_def nat_le_iff)
qed

subsection \<open>The interface of a matcher\<close>

text \<open>A matcher decides, with no flags set, whether the pattern describes the string.\<close>

locale pattern_matcher =
  fixes match :: "string \<Rightarrow> string \<Rightarrow> int \<Rightarrow> bool" and describes :: "string \<Rightarrow> string \<Rightarrow> bool"
  assumes match_describes: "nul_free s \<Longrightarrow> match p s 0 = describes p s"
begin

text \<open>The removals as choices of a cut of the value.\<close>

lemma removal_up:
  assumes "represents v cs" "represents pattern ps" "nul_free cs" "nul_free ps"
  shows "\<exists>f. first_up (prefix_matches match v pattern) (str_length v) 0 = Some f \<and>
      first_of (\<lambda>j. describes ps (take j cs)) 0 (length cs) f"
    "\<exists>f. first_up (suffix_matches match v pattern) (str_length v) 0 = Some f \<and>
      first_of (\<lambda>j. describes ps (drop j cs)) 0 (length cs) f"
  using first_up_finds [of 0 "length cs" "prefix_matches match v pattern"]
    first_up_finds [of 0 "length cs" "suffix_matches match v pattern"]
  by (simp_all add: prefix_matches_ok [OF assms] suffix_matches_ok [OF assms] match_describes assms(3)
      represents_length [OF assms(1)])

lemma removal_down:
  assumes "represents v cs" "represents pattern ps" "nul_free cs" "nul_free ps"
  shows "\<exists>f. first_down (prefix_matches match v pattern) (str_length v) = Some f \<and>
      last_of (\<lambda>j. describes ps (take j cs)) (int (length cs)) f"
    "\<exists>f. first_down (suffix_matches match v pattern) (str_length v) = Some f \<and>
      last_of (\<lambda>j. describes ps (drop j cs)) (int (length cs)) f"
  using first_down_finds [of "Suc (length cs)" "prefix_matches match v pattern"]
    first_down_finds [of "Suc (length cs)" "suffix_matches match v pattern"]
  by (simp_all add: prefix_matches_ok [OF assms] suffix_matches_ok [OF assms] match_describes assms(3)
      represents_length [OF assms(1)])

lemma remove_prefix_smallest_ok:
  assumes "represents v cs" "represents pattern ps" "nul_free cs" "nul_free ps" "ps \<noteq> []"
  shows "\<exists>f. first_of (\<lambda>j. describes ps (take j cs)) 0 (length cs) f \<and>
    yields (remove_prefix_smallest match (Some v) (Some pattern)) (case f of None \<Rightarrow> cs | Some k \<Rightarrow> drop (nat k) cs)"
proof -
  obtain f where "first_up (prefix_matches match v pattern) (str_length v) 0 = Some f"
      "first_of (\<lambda>j. describes ps (take j cs)) 0 (length cs) f" using removal_up(1) [OF assms(1-4)] by blast
  moreover from this(2) have "\<And>k. f = Some k \<Longrightarrow> 0 \<le> k \<and> k \<le> int (length cs)" using found_bounds by blast
  ultimately show ?thesis using assms rest_after_ok [of v cs f]
    by (intro exI [of _ f]) (auto simp: remove_prefix_smallest_def string_empty_def represents_length)
qed

lemma remove_prefix_largest_ok:
  assumes "represents v cs" "represents pattern ps" "nul_free cs" "nul_free ps" "ps \<noteq> []"
  shows "\<exists>f. last_of (\<lambda>j. describes ps (take j cs)) (int (length cs)) f \<and>
    yields (remove_prefix_largest match (Some v) (Some pattern)) (case f of None \<Rightarrow> cs | Some k \<Rightarrow> drop (nat k) cs)"
proof -
  obtain f where "first_down (prefix_matches match v pattern) (str_length v) = Some f"
      "last_of (\<lambda>j. describes ps (take j cs)) (int (length cs)) f" using removal_down(1) [OF assms(1-4)] by blast
  moreover from this(2) have "\<And>k. f = Some k \<Longrightarrow> 0 \<le> k \<and> k \<le> int (length cs)" using found_bounds by blast
  ultimately show ?thesis using assms rest_after_ok [of v cs f]
    by (intro exI [of _ f]) (auto simp: remove_prefix_largest_def string_empty_def represents_length)
qed

lemma remove_suffix_smallest_ok:
  assumes "represents v cs" "represents pattern ps" "nul_free cs" "nul_free ps" "ps \<noteq> []"
  shows "\<exists>f. last_of (\<lambda>j. describes ps (drop j cs)) (int (length cs)) f \<and>
    yields (remove_suffix_smallest match (Some v) (Some pattern)) (case f of None \<Rightarrow> cs | Some k \<Rightarrow> take (nat k) cs)"
proof -
  obtain f where "first_down (suffix_matches match v pattern) (str_length v) = Some f"
      "last_of (\<lambda>j. describes ps (drop j cs)) (int (length cs)) f" using removal_down(2) [OF assms(1-4)] by blast
  moreover from this(2) have "\<And>k. f = Some k \<Longrightarrow> 0 \<le> k \<and> k \<le> int (length cs)" using found_bounds by blast
  ultimately show ?thesis using assms rest_before_ok [of v cs f]
    by (intro exI [of _ f]) (auto simp: remove_suffix_smallest_def string_empty_def represents_length)
qed

lemma remove_suffix_largest_ok:
  assumes "represents v cs" "represents pattern ps" "nul_free cs" "nul_free ps" "ps \<noteq> []"
  shows "\<exists>f. first_of (\<lambda>j. describes ps (drop j cs)) 0 (length cs) f \<and>
    yields (remove_suffix_largest match (Some v) (Some pattern)) (case f of None \<Rightarrow> cs | Some k \<Rightarrow> take (nat k) cs)"
proof -
  obtain f where "first_up (suffix_matches match v pattern) (str_length v) 0 = Some f"
      "first_of (\<lambda>j. describes ps (drop j cs)) 0 (length cs) f" using removal_up(2) [OF assms(1-4)] by blast
  moreover from this(2) have "\<And>k. f = Some k \<Longrightarrow> 0 \<le> k \<and> k \<le> int (length cs)" using found_bounds by blast
  ultimately show ?thesis using assms rest_before_ok [of v cs f]
    by (intro exI [of _ f]) (auto simp: remove_suffix_largest_def string_empty_def represents_length)
qed

end

interpretation glob: pattern_matcher glob_util_match "\<lambda>p s. glob_matches 0 (glob_parse p 0) s"
  by unfold_locales (simp add: glob_util_match_iff plain_flags_def flag_set_def)

end
