(* ===== verification/Pattern_Props.thy ===== *)
theory Pattern_Props
  imports Pattern_Removal String_Props
begin

section \<open>Properties of pattern matching and pattern removal\<close>



text \<open>Under every combination of flags a successful match is a match of the pattern's items;
  with \<open>GLOB_UTIL_PATHNAME\<close> no star, question mark or bracket expression takes a slash.\<close>

theorem glob_match_sound:
  assumes "nul_free str" and "glob_util_match pattern str flags"
  shows "glob_matches flags (glob_parse pattern flags) str"
  by (rule glob_util_match_sound [OF assms])

lemmas run_glob = glob_util_match_def glob_loop.simps glob_pass_def glob_backtrack_def is_protected_dot_def
  is_leading_position_def flag_set_def deref_def chars_match_def GLOB_UTIL_PATHNAME_def GLOB_UTIL_PERIOD_def
  GLOB_UTIL_NOESCAPE_def GLOB_UTIL_CASEFOLD_def

theorem glob_match_sound_witness:
  "glob_matches GLOB_UTIL_PATHNAME (glob_parse ''?/b'' GLOB_UTIL_PATHNAME) ''a/b''"
  by (rule glob_match_sound) (simp_all add: run_glob)

text \<open>With \<open>GLOB_UTIL_PATHNAME\<close> the matcher misses matches: \<open>*/b\<close> describes \<open>a/b\<close>, but the
  loop gives up as soon as the star would have to end before a slash.\<close>

theorem glob_pathname_misses:
  "\<not> glob_util_match ''*/b'' ''a/b'' GLOB_UTIL_PATHNAME \<and>
   glob_matches GLOB_UTIL_PATHNAME (glob_parse ''*/b'' GLOB_UTIL_PATHNAME) ''a/b''"
proof
  show "\<not> glob_util_match ''*/b'' ''a/b'' GLOB_UTIL_PATHNAME" by (simp add: run_glob)
  have "glob_parse ''*/b'' GLOB_UTIL_PATHNAME = [Any_string, Literal CHR ''/'', Literal CHR ''b'']"
    by (simp add: glob_parse.simps)
  moreover have "glob_matches GLOB_UTIL_PATHNAME [Any_string, Literal CHR ''/'', Literal CHR ''b''] (''a'' @ ''/b'')"
    by (intro glob_matches.intros) (simp_all add: star_matches_def chars_match_def)
  ultimately show "glob_matches GLOB_UTIL_PATHNAME (glob_parse ''*/b'' GLOB_UTIL_PATHNAME) ''a/b''" by simp
qed

subsection \<open>Removal\<close>

definition removes_prefix :: "(string \<Rightarrow> bool) \<Rightarrow> (nat \<Rightarrow> nat \<Rightarrow> bool) \<Rightarrow> string \<Rightarrow> string \<Rightarrow> bool" where
  \<comment> \<open>\<open>r\<close> is the value without the best matching prefix, or the value itself when none matches\<close>
  "removes_prefix D better cs r \<longleftrightarrow>
     (if \<exists>u w. cs = u @ w \<and> D u
      then \<exists>u. cs = u @ r \<and> D u \<and> (\<forall>u' w'. cs = u' @ w' \<and> D u' \<longrightarrow> better (length u) (length u'))
      else r = cs)"

definition removes_suffix :: "(string \<Rightarrow> bool) \<Rightarrow> (nat \<Rightarrow> nat \<Rightarrow> bool) \<Rightarrow> string \<Rightarrow> string \<Rightarrow> bool" where
  "removes_suffix D better cs r \<longleftrightarrow>
     (if \<exists>u w. cs = u @ w \<and> D w
      then \<exists>w. cs = r @ w \<and> D w \<and> (\<forall>u' w'. cs = u' @ w' \<and> D w' \<longrightarrow> better (length w) (length w'))
      else r = cs)"

lemma cut_iff: "(\<exists>u w. cs = u @ w \<and> P u w) \<longleftrightarrow> (\<exists>j\<le>length cs. P (take j cs) (drop j cs))"
  by (metis append_eq_conv_conj append_take_drop_id le_add1 length_append)

lemma all_cut_iff: "(\<forall>u w. cs = u @ w \<and> P u w \<longrightarrow> Q u w) \<longleftrightarrow>
    (\<forall>j\<le>length cs. P (take j cs) (drop j cs) \<longrightarrow> Q (take j cs) (drop j cs))"
  using cut_iff [of cs "\<lambda>u w. P u w \<and> \<not> Q u w"] by blast

lemma first_of_None: "first_of P 0 n None \<Longrightarrow> \<not> (\<exists>j\<le>n. P j)"
  by (auto simp: first_of_def)

lemma last_of_None: "last_of P (int n) None \<Longrightarrow> \<not> (\<exists>j\<le>n. P j)"
  by (auto simp: last_of_def)

lemma first_of_Some: "first_of P 0 n (Some k) \<Longrightarrow> nat k \<le> n \<and> P (nat k) \<and> (\<forall>j\<le>n. P j \<longrightarrow> nat k \<le> j)"
  unfolding first_of_def by (auto simp: not_less [symmetric])

lemma last_of_Some: "last_of P (int n) (Some k) \<Longrightarrow> nat k \<le> n \<and> P (nat k) \<and> (\<forall>j\<le>n. P j \<longrightarrow> j \<le> nat k)"
  unfolding last_of_def by (auto simp: not_less [symmetric])

lemma removes_prefix_cut:
  assumes "k \<le> length cs" "D (take k cs)" "\<forall>j\<le>length cs. D (take j cs) \<longrightarrow> better k j"
  shows "removes_prefix D better cs (drop k cs)"
proof -
  have ex: "\<exists>u w. cs = u @ w \<and> D u" unfolding cut_iff using assms by blast
  have "\<forall>u w. cs = u @ w \<and> D u \<longrightarrow> better k (length u)" using assms(3) unfolding all_cut_iff by simp
  moreover have len: "length (take k cs) = k" using assms(1) by simp
  ultimately have "\<forall>u' w'. cs = u' @ w' \<and> D u' \<longrightarrow> better (length (take k cs)) (length u')" by (simp only: len)
  moreover have "cs = take k cs @ drop k cs" by simp
  ultimately have "cs = take k cs @ drop k cs \<and> D (take k cs) \<and>
      (\<forall>u' w'. cs = u' @ w' \<and> D u' \<longrightarrow> better (length (take k cs)) (length u'))"
    using assms(2) by blast
  then show ?thesis unfolding removes_prefix_def if_P [OF ex] by blast
qed

lemma removes_suffix_cut:
  assumes "k \<le> length cs" "D (drop k cs)" "\<forall>j\<le>length cs. D (drop j cs) \<longrightarrow> better (length cs - k) (length cs - j)"
  shows "removes_suffix D better cs (take k cs)"
proof -
  have ex: "\<exists>u w. cs = u @ w \<and> D w" unfolding cut_iff using assms by blast
  have "\<forall>u w. cs = u @ w \<and> D w \<longrightarrow> better (length cs - k) (length w)" using assms(3) unfolding all_cut_iff by simp
  then have "\<forall>u' w'. cs = u' @ w' \<and> D w' \<longrightarrow> better (length (drop k cs)) (length w')" unfolding length_drop .
  moreover have "cs = take k cs @ drop k cs" by simp
  ultimately have "cs = take k cs @ drop k cs \<and> D (drop k cs) \<and>
      (\<forall>u' w'. cs = u' @ w' \<and> D w' \<longrightarrow> better (length (drop k cs)) (length w'))"
    using assms(2) by blast
  then show ?thesis unfolding removes_suffix_def if_P [OF ex] by blast
qed

lemma removes_nothing:
  "\<not> (\<exists>j\<le>length cs. D (take j cs)) \<Longrightarrow> removes_prefix D better cs cs"
  "\<not> (\<exists>j\<le>length cs. D (drop j cs)) \<Longrightarrow> removes_suffix D better cs cs"
  unfolding removes_prefix_def removes_suffix_def cut_iff by (simp_all only: if_False)

lemma cut_first:
  assumes "first_of (\<lambda>j. D (take j cs)) 0 (length cs) f"
  shows "removes_prefix D (\<le>) cs (case f of None \<Rightarrow> cs | Some k \<Rightarrow> drop (nat k) cs)"
proof (cases f)
  case None
  then show ?thesis using removes_nothing(1) [of cs D] first_of_None assms by fastforce
next
  case (Some k)
  then show ?thesis using first_of_Some [OF assms [unfolded Some]] by (auto intro!: removes_prefix_cut)
qed

lemma cut_last:
  assumes "last_of (\<lambda>j. D (take j cs)) (int (length cs)) f"
  shows "removes_prefix D (\<ge>) cs (case f of None \<Rightarrow> cs | Some k \<Rightarrow> drop (nat k) cs)"
proof (cases f)
  case None
  then show ?thesis using removes_nothing(1) [of cs D] last_of_None assms by fastforce
next
  case (Some k)
  then show ?thesis using last_of_Some [OF assms [unfolded Some]] by (auto intro!: removes_prefix_cut)
qed

lemma cut_first_suffix:
  assumes "first_of (\<lambda>j. D (drop j cs)) 0 (length cs) f"
  shows "removes_suffix D (\<ge>) cs (case f of None \<Rightarrow> cs | Some k \<Rightarrow> take (nat k) cs)"
proof (cases f)
  case None
  then show ?thesis using removes_nothing(2) [of cs D] first_of_None assms by fastforce
next
  case (Some k)
  then show ?thesis using first_of_Some [OF assms [unfolded Some]] by (auto intro!: removes_suffix_cut)
qed

lemma cut_last_suffix:
  assumes "last_of (\<lambda>j. D (drop j cs)) (int (length cs)) f"
  shows "removes_suffix D (\<le>) cs (case f of None \<Rightarrow> cs | Some k \<Rightarrow> take (nat k) cs)"
proof (cases f)
  case None
  then show ?thesis using removes_nothing(2) [of cs D] last_of_None assms by fastforce
next
  case (Some k)
  then show ?thesis using last_of_Some [OF assms [unfolded Some]] by (auto intro!: removes_suffix_cut)
qed

text \<open>The language of a pattern without flags.\<close>

definition pattern_describes :: "string \<Rightarrow> string \<Rightarrow> bool" where
  "pattern_describes ps s = glob_matches 0 (glob_parse ps 0) s"



text \<open>\<open>${v%p}\<close> removes the shortest suffix of the value that the pattern describes and
  \<open>${v%%p}\<close> the longest; a value with no such suffix is returned whole.  Neither runs into
  undefined behaviour.\<close>

theorem suffix_removal:
  assumes "represents v cs" and "represents p ps" and "nul_free cs" and "nul_free ps" and "ps \<noteq> []"
  shows "(\<exists>r s. remove_suffix_smallest glob_util_match (Some v) (Some p) = Some r \<and> represents r s \<and>
      removes_suffix (pattern_describes ps) (\<le>) cs s) \<and>
    (\<exists>r s. remove_suffix_largest glob_util_match (Some v) (Some p) = Some r \<and> represents r s \<and>
      removes_suffix (pattern_describes ps) (\<ge>) cs s)"
  using glob.remove_suffix_smallest_ok [OF assms, folded pattern_describes_def]
    glob.remove_suffix_largest_ok [OF assms, folded pattern_describes_def]
  by (blast elim: yieldsE intro: cut_first_suffix cut_last_suffix)

theorem suffix_removal_witness:
  "\<exists>r s. remove_suffix_largest glob_util_match (Some (inline_string ''f.tar.gz'')) (Some (inline_string ''.*'')) = Some r \<and>
    represents r s \<and> removes_suffix (pattern_describes ''.*'') (\<ge>) ''f.tar.gz'' s"
  by (rule suffix_removal [THEN conjunct2]) (simp_all add: inline_string_represents)

end
