(* ===== verification/Tokens.thy ===== *)
theory Tokens
  imports Prelude
begin

section \<open>Tokens and parts of words (token.c)\<close>

text \<open>
  A token carries the parts of a word: literal text, with how it was quoted, and the
  expansions in it.  Pointers that may be NULL are options.  The growth of the arrays behind
  part and token lists is not observable and lists stand for them; \<open>nested\<close> is left out, as
  no code sets it.  A contract violation (\<open>Expects\<close>) ends the program and is \<open>None\<close>.
\<close>

subsection \<open>Data\<close>

datatype (plugins only: code size) token_type =
    TOKEN_EOF | TOKEN_WORD
  | TOKEN_AND_IF | TOKEN_OR_IF | TOKEN_DSEMI | TOKEN_DLESS | TOKEN_DGREAT | TOKEN_LESSAND | TOKEN_GREATAND
  | TOKEN_LESSGREAT | TOKEN_DLESSDASH | TOKEN_CLOBBER | TOKEN_SEMIAND | TOKEN_PIPE | TOKEN_SEMI | TOKEN_AMPER
  | TOKEN_LPAREN | TOKEN_RPAREN | TOKEN_GREATER | TOKEN_LESS
  | TOKEN_IF | TOKEN_THEN | TOKEN_ELSE | TOKEN_ELIF | TOKEN_FI | TOKEN_DO | TOKEN_DONE | TOKEN_CASE | TOKEN_ESAC
  | TOKEN_WHILE | TOKEN_UNTIL | TOKEN_FOR | TOKEN_IN | TOKEN_BANG | TOKEN_LBRACE | TOKEN_RBRACE
  | TOKEN_NEWLINE | TOKEN_IO_NUMBER | TOKEN_IO_LOCATION | TOKEN_ASSIGNMENT_WORD
  | TOKEN_REDIRECT | TOKEN_END_OF_HEREDOC

datatype (plugins only: code size) part_type =
  PART_LITERAL | PART_PARAMETER | PART_COMMAND_SUBST | PART_ARITHMETIC | PART_TILDE

datatype (plugins only: code size) param_subtype =
    PARAM_PLAIN | PARAM_LENGTH | PARAM_USE_DEFAULT | PARAM_ASSIGN_DEFAULT | PARAM_ERROR_IF_UNSET
  | PARAM_USE_ALTERNATE | PARAM_REMOVE_SMALL_PREFIX | PARAM_REMOVE_LARGE_PREFIX
  | PARAM_REMOVE_SMALL_SUFFIX | PARAM_REMOVE_LARGE_SUFFIX | PARAM_INDIRECT

record part =
  part_type_of :: part_type
  part_text :: "string option"
  part_param_kind :: param_subtype
  part_has_colon :: bool
  part_param_name :: "string option"
  part_word :: "string option"
  part_single_quoted :: bool
  part_double_quoted :: bool

record token =
  tok_type :: token_type
  tok_first_line :: int
  tok_first_column :: int
  tok_last_line :: int
  tok_last_column :: int
  tok_parts :: "part list option"
  tok_io_number :: int
  tok_io_location :: "string option"
  tok_heredoc_delimiter :: "string option"
  tok_heredoc_content :: "string option"
  tok_heredoc_delim_quoted :: bool
  tok_assignment_name :: "string option"
  tok_assignment_value :: "part list option"
  tok_needs_expansion :: bool
  tok_needs_field_splitting :: bool
  tok_needs_pathname_expansion :: bool
  tok_was_quoted :: bool
  tok_has_equals_before_quote :: bool

subsection \<open>Parts\<close>

definition blank_part :: part where
  \<comment> \<open>what \<open>xcalloc\<close> leaves\<close>
  "blank_part = \<lparr>part_type_of = PART_LITERAL, part_text = None, part_param_kind = PARAM_PLAIN,
     part_has_colon = False, part_param_name = None, part_word = None,
     part_single_quoted = False, part_double_quoted = False\<rparr>"

definition part_create_literal :: "string \<Rightarrow> part" where
  "part_create_literal text = blank_part\<lparr>part_type_of := PART_LITERAL, part_text := Some text\<rparr>"

definition part_create_parameter :: "string \<Rightarrow> part" where
  "part_create_parameter param_name = blank_part\<lparr>part_type_of := PART_PARAMETER, part_param_name := Some param_name\<rparr>"

definition part_create_command_subst :: "string \<Rightarrow> part" where
  "part_create_command_subst text = blank_part\<lparr>part_type_of := PART_COMMAND_SUBST, part_text := Some text\<rparr>"

definition part_create_arithmetic :: "string \<Rightarrow> part" where
  "part_create_arithmetic text = blank_part\<lparr>part_type_of := PART_ARITHMETIC, part_text := Some text\<rparr>"

definition part_create_tilde :: "string \<Rightarrow> part" where
  "part_create_tilde text = blank_part\<lparr>part_type_of := PART_TILDE, part_text := Some text\<rparr>"

definition part_set_quoted :: "part \<Rightarrow> bool \<Rightarrow> bool \<Rightarrow> part" where
  "part_set_quoted p single double = p\<lparr>part_single_quoted := single, part_double_quoted := double\<rparr>"

definition part_clone :: "part \<Rightarrow> part" where
  "part_clone p = blank_part\<lparr>part_type_of := part_type_of p, part_text := part_text p,
     part_param_name := part_param_name p, part_word := part_word p, part_param_kind := part_param_kind p,
     part_single_quoted := part_single_quoted p, part_double_quoted := part_double_quoted p\<rparr>"

subsection \<open>Tokens\<close>

definition token_create :: "token_type \<Rightarrow> token" where
  "token_create t = \<lparr>tok_type = t, tok_first_line = 0, tok_first_column = 0, tok_last_line = 0, tok_last_column = 0,
     tok_parts = (if t = TOKEN_WORD then Some [] else None), tok_io_number = 0, tok_io_location = None,
     tok_heredoc_delimiter = None, tok_heredoc_content = None, tok_heredoc_delim_quoted = False,
     tok_assignment_name = None, tok_assignment_value = None, tok_needs_expansion = False,
     tok_needs_field_splitting = False, tok_needs_pathname_expansion = False, tok_was_quoted = False,
     tok_has_equals_before_quote = False\<rparr>"

definition token_create_word :: token where
  "token_create_word = token_create TOKEN_WORD"

definition token_clone :: "token \<Rightarrow> token" where
  "token_clone t = t\<lparr>tok_parts := (case tok_parts t of None \<Rightarrow> if tok_type t = TOKEN_WORD then Some [] else None
                         | Some ps \<Rightarrow> Some (map part_clone ps)),
     tok_assignment_value := map_option (map part_clone) (tok_assignment_value t)\<rparr>"

definition token_set_quoted :: "token \<Rightarrow> bool \<Rightarrow> token" where
  "token_set_quoted t q = t\<lparr>tok_was_quoted := q\<rparr>"

definition token_set_location :: "token \<Rightarrow> int \<Rightarrow> int \<Rightarrow> int \<Rightarrow> int \<Rightarrow> token" where
  "token_set_location t fl fc ll lc =
     t\<lparr>tok_first_line := fl, tok_first_column := fc, tok_last_line := ll, tok_last_column := lc\<rparr>"

definition token_part_count :: "token \<Rightarrow> nat option" where
  "token_part_count t = map_option length (tok_parts t)"

definition token_get_part :: "token \<Rightarrow> nat \<Rightarrow> part option" where
  "token_get_part t i =
     do { ps \<leftarrow> tok_parts t; if i < length ps then Some (ps ! i) else None }"

definition token_is_last_part_literal :: "token \<Rightarrow> bool option" where
  "token_is_last_part_literal t =
     do { ps \<leftarrow> tok_parts t; if ps \<noteq> [] then Some (part_type_of (last ps) = PART_LITERAL) else None }"

definition token_add_part :: "token \<Rightarrow> part \<Rightarrow> token option" where
  "token_add_part t p =
     (if tok_type t = TOKEN_WORD then do { ps \<leftarrow> tok_parts t; Some (t\<lparr>tok_parts := Some (ps @ [p])\<rparr>) } else None)"

definition token_add_literal_part :: "token \<Rightarrow> string \<Rightarrow> token option" where
  "token_add_literal_part t text = token_add_part t (part_create_literal text)"

definition add_char :: "string \<Rightarrow> char \<Rightarrow> string" where
  \<comment> \<open>\<open>string_append_char\<close>, which ignores a NUL\<close>
  "add_char s c = (if c = NUL then s else s @ [c])"

definition char_string :: "char \<Rightarrow> string" where
  \<comment> \<open>the string of the array \<open>{c, '\0'}\<close>\<close>
  "char_string c = (if c = NUL then [] else [c])"

definition append_to_last_literal :: "token \<Rightarrow> (string \<Rightarrow> string) \<Rightarrow> token option" where
  "append_to_last_literal t f =
     (if tok_type t = TOKEN_WORD then
        do { ps \<leftarrow> tok_parts t;
             if ps \<noteq> [] \<and> part_type_of (last ps) = PART_LITERAL
             then do { text \<leftarrow> part_text (last ps);
                       Some (t\<lparr>tok_parts := Some (butlast ps @ [(last ps)\<lparr>part_text := Some (f text)\<rparr>])\<rparr>) }
             else None }
      else None)"

definition token_append_char_to_last_literal_part :: "token \<Rightarrow> char \<Rightarrow> token option" where
  "token_append_char_to_last_literal_part t c = append_to_last_literal t (\<lambda>s. add_char s c)"

definition token_append_cstr_to_last_literal_part :: "token \<Rightarrow> string \<Rightarrow> token option" where
  "token_append_cstr_to_last_literal_part t str =
     (if str \<noteq> [] then append_to_last_literal t (\<lambda>s. s @ str) else None)"

definition token_get_all_text :: "token \<Rightarrow> string option" where
  "token_get_all_text t =
     (if tok_type t = TOKEN_WORD
      then map_option (\<lambda>ps. concat (map (\<lambda>p. case part_text p of None \<Rightarrow> [] | Some s \<Rightarrow> s) ps)) (tok_parts t)
      else None)"

subsection \<open>Expansion flags\<close>

definition string_contains_glob :: "string \<Rightarrow> bool" where
  "string_contains_glob s \<longleftrightarrow> CHR ''*'' \<in> set s \<or> CHR ''?'' \<in> set s \<or> CHR ''['' \<in> set s"

definition part_unquoted :: "part \<Rightarrow> bool" where
  "part_unquoted p \<longleftrightarrow> \<not> part_single_quoted p \<and> \<not> part_double_quoted p"

definition flags_of_part :: "token \<Rightarrow> part \<Rightarrow> token" where
  \<comment> \<open>the \<open>switch\<close> on the type of one part\<close>
  "flags_of_part t p =
     (case part_type_of p of
        PART_TILDE \<Rightarrow> t\<lparr>tok_needs_expansion := True\<rparr>
      | PART_LITERAL \<Rightarrow>
          if part_unquoted p \<and> (case part_text p of None \<Rightarrow> False | Some s \<Rightarrow> string_contains_glob s)
          then t\<lparr>tok_needs_pathname_expansion := True\<rparr> else t
      | _ \<Rightarrow> (let t = t\<lparr>tok_needs_expansion := True\<rparr>
              in if part_unquoted p then t\<lparr>tok_needs_field_splitting := True\<rparr> else t))"

definition token_recompute_expansion_flags :: "token \<Rightarrow> token" where
  "token_recompute_expansion_flags t =
     (let t = t\<lparr>tok_needs_expansion := False, tok_needs_field_splitting := False,
                tok_needs_pathname_expansion := False\<rparr> in
      if tok_type t \<noteq> TOKEN_WORD then t
      else (case tok_parts t of None \<Rightarrow> t | Some ps \<Rightarrow> fold (\<lambda>p t. flags_of_part t p) ps t))"

subsection \<open>Reserved words and operators\<close>

definition reserved_words :: "(string \<times> token_type) list" where
  "reserved_words =
     [(''if'', TOKEN_IF), (''then'', TOKEN_THEN), (''else'', TOKEN_ELSE), (''elif'', TOKEN_ELIF), (''fi'', TOKEN_FI),
      (''do'', TOKEN_DO), (''done'', TOKEN_DONE), (''case'', TOKEN_CASE), (''esac'', TOKEN_ESAC),
      (''while'', TOKEN_WHILE), (''until'', TOKEN_UNTIL), (''for'', TOKEN_FOR), (''in'', TOKEN_IN),
      (''{'', TOKEN_LBRACE), (''}'', TOKEN_RBRACE), (''!'', TOKEN_BANG)]"

definition single_unquoted_literal :: "token \<Rightarrow> string option" where
  \<comment> \<open>the word that may be reserved: one literal part, not quoted\<close>
  "single_unquoted_literal t =
     (if tok_was_quoted t then None
      else (case tok_parts t of Some [p] \<Rightarrow> if part_type_of p = PART_LITERAL then part_text p else None | _ \<Rightarrow> None))"

definition token_try_promote_to_reserved_word :: "token \<Rightarrow> bool \<Rightarrow> token \<times> bool" where
  "token_try_promote_to_reserved_word t allow_in =
     (case single_unquoted_literal t of None \<Rightarrow> (t, False)
      | Some word \<Rightarrow>
          (case find (\<lambda>(w, ty). w = word \<and> (ty = TOKEN_IN \<longrightarrow> allow_in)) reserved_words of
             None \<Rightarrow> (t, False) | Some (_, ty) \<Rightarrow> (t\<lparr>tok_type := ty\<rparr>, True)))"

definition token_try_promote_to_word :: "token \<Rightarrow> string \<Rightarrow> token_type \<Rightarrow> token \<times> bool" where
  "token_try_promote_to_word t target ty =
     (if single_unquoted_literal t = Some target then (t\<lparr>tok_type := ty, tok_parts := None\<rparr>, True) else (t, False))"

definition token_string_to_reserved_word :: "string \<Rightarrow> token_type" where
  "token_string_to_reserved_word word =
     (case map_of reserved_words word of None \<Rightarrow> TOKEN_WORD | Some ty \<Rightarrow> ty)"

definition token_is_reserved_word :: "string \<Rightarrow> bool" where
  "token_is_reserved_word word \<longleftrightarrow> word \<in> set (map fst reserved_words)"

definition operators :: "(string \<times> token_type) list" where
  "operators =
     [(''&&'', TOKEN_AND_IF), (''||'', TOKEN_OR_IF), ('';;'', TOKEN_DSEMI), (''<<'', TOKEN_DLESS), (''>>'', TOKEN_DGREAT),
      (''<&'', TOKEN_LESSAND), (''>&'', TOKEN_GREATAND), (''<>'', TOKEN_LESSGREAT), (''<<-'', TOKEN_DLESSDASH),
      (''>|'', TOKEN_CLOBBER), (''|'', TOKEN_PIPE), ('';'', TOKEN_SEMI), (''&'', TOKEN_AMPER), (''('', TOKEN_LPAREN),
      ('')'', TOKEN_RPAREN), (''>'', TOKEN_GREATER), (''<'', TOKEN_LESS)]"

definition token_string_to_operator :: "string \<Rightarrow> token_type" where
  "token_string_to_operator str = (case map_of operators str of None \<Rightarrow> TOKEN_EOF | Some ty \<Rightarrow> ty)"

definition token_is_operator :: "string \<Rightarrow> bool" where
  "token_is_operator str \<longleftrightarrow> str \<in> set (map fst operators)"

end
