(* ===== verification/Lexer.thy ===== *)
theory Lexer
  imports Tokens
begin

section \<open>The lexer: its state and its primitives (lexer.c)\<close>

text \<open>
  The state of \<open>lexer_t\<close> and the operations that the modes are written with.  Strings are
  their contents; the input is shorter than an \<open>int\<close> can index and holds no NUL when it came
  from C strings.  The mode stack has its top first.  A contract violation is \<open>None\<close>.  The
  fields that no code reads (\<open>escaped\<close>, \<open>check_next_for_alias\<close>) are kept for the reset.
\<close>

subsection \<open>State\<close>

datatype (plugins only: code size) lex_status = LEX_OK | LEX_ERROR | LEX_INCOMPLETE | LEX_NEED_HEREDOC | LEX_INTERNAL_ERROR

datatype (plugins only: code size) lex_mode =
    LEX_NORMAL | LEX_SINGLE_QUOTE | LEX_DOUBLE_QUOTE | LEX_PARAM_EXP_BRACED | LEX_PARAM_EXP_UNBRACED
  | LEX_CMD_SUBST_PAREN | LEX_CMD_SUBST_BACKTICK | LEX_ARITH_EXP | LEX_HEREDOC_BODY

record heredoc_entry =
  hd_delimiter :: string
  hd_token_index :: nat
  hd_strip_tabs :: bool
  hd_delimiter_quoted :: bool

record lexer =
  lx_input :: string
  lx_pos :: nat
  lx_line_no :: int
  lx_col_no :: int
  lx_tok_start_line :: int
  lx_tok_start_col :: int
  lx_mode_stack :: "lex_mode list"
  lx_current_token :: "token option"
  lx_in_word :: bool
  lx_tokens :: "token list"
  lx_heredoc_queue :: "heredoc_entry list"
  lx_heredoc_index :: nat
  lx_reading_heredoc :: bool
  lx_escaped :: bool
  lx_operator_buffer :: string
  lx_at_command_start :: bool
  lx_after_case_in :: bool
  lx_check_next_for_alias :: bool
  lx_error_msg :: "string option"
  lx_error_line :: int
  lx_error_col :: int

definition lexer_create :: lexer where
  "lexer_create = \<lparr>lx_input = [], lx_pos = 0, lx_line_no = 1, lx_col_no = 1, lx_tok_start_line = 1,
     lx_tok_start_col = 1, lx_mode_stack = [], lx_current_token = None, lx_in_word = False, lx_tokens = [],
     lx_heredoc_queue = [], lx_heredoc_index = 0, lx_reading_heredoc = False, lx_escaped = False,
     lx_operator_buffer = [], lx_at_command_start = True, lx_after_case_in = False,
     lx_check_next_for_alias = False, lx_error_msg = None, lx_error_line = 0, lx_error_col = 0\<rparr>"

definition lexer_reset :: "lexer \<Rightarrow> lexer" where
  \<comment> \<open>\<open>reading_heredoc\<close> and \<open>heredoc_index\<close> keep their values\<close>
  "lexer_reset lx = lx\<lparr>lx_input := [], lx_pos := 0, lx_line_no := 1, lx_col_no := 1, lx_tok_start_line := 1,
     lx_tok_start_col := 1, lx_mode_stack := [], lx_tokens := [], lx_heredoc_queue := [], lx_current_token := None,
     lx_in_word := False, lx_escaped := False, lx_at_command_start := True, lx_after_case_in := False,
     lx_check_next_for_alias := False, lx_operator_buffer := [], lx_error_msg := map_option (\<lambda>_. []) (lx_error_msg lx),
     lx_error_line := 0, lx_error_col := 0\<rparr>"

definition lexer_append_input :: "lexer \<Rightarrow> string \<Rightarrow> lexer" where
  \<comment> \<open>the string is truncated at the length that an \<open>int\<close> can hold with the NUL\<close>
  "lexer_append_input lx input =
     (let s = lx_input lx @ input
      in lx\<lparr>lx_input := (if int (length s) < INT_MAX then s else take (nat (INT_MAX - 1)) s)\<rparr>)"

definition lexer_set_line_no :: "lexer \<Rightarrow> int \<Rightarrow> lexer" where
  "lexer_set_line_no lx n = lx\<lparr>lx_line_no := n, lx_col_no := 1\<rparr>"

definition lexer_drop_processed_input :: "lexer \<Rightarrow> lexer" where
  \<comment> \<open>its effect on the contents; the code also resizes a string with much unused capacity\<close>
  "lexer_drop_processed_input lx =
     (if lx_pos lx > 0 then lx\<lparr>lx_input := drop (lx_pos lx) (lx_input lx), lx_pos := 0\<rparr> else lx)"

subsection \<open>Modes\<close>

definition lexer_push_mode :: "lex_mode \<Rightarrow> lexer \<Rightarrow> lexer" where
  "lexer_push_mode m lx = lx\<lparr>lx_mode_stack := m # lx_mode_stack lx\<rparr>"

definition lexer_pop_mode :: "lexer \<Rightarrow> lexer" where
  "lexer_pop_mode lx = lx\<lparr>lx_mode_stack := tl (lx_mode_stack lx)\<rparr>"

definition lexer_current_mode :: "lexer \<Rightarrow> lex_mode" where
  "lexer_current_mode lx = (case lx_mode_stack lx of [] \<Rightarrow> LEX_NORMAL | m # _ \<Rightarrow> m)"

definition lexer_in_mode :: "lexer \<Rightarrow> lex_mode \<Rightarrow> bool" where
  "lexer_in_mode lx m \<longleftrightarrow> m \<in> set (lx_mode_stack lx)"

subsection \<open>Reading the input\<close>

definition lexer_at_end :: "lexer \<Rightarrow> bool" where
  "lexer_at_end lx \<longleftrightarrow> lx_pos lx \<ge> length (lx_input lx)"

definition lexer_peek_ahead :: "lexer \<Rightarrow> nat \<Rightarrow> char" where
  "lexer_peek_ahead lx n = (if lx_pos lx + n \<ge> length (lx_input lx) then NUL else lx_input lx ! (lx_pos lx + n))"

definition lexer_peek :: "lexer \<Rightarrow> char" where
  "lexer_peek lx = lexer_peek_ahead lx 0"

definition lexer_advance :: "lexer \<Rightarrow> lexer option" where
  "lexer_advance lx =
     (if lx_pos lx < length (lx_input lx)
      then Some (if lexer_peek lx = NEWLINE
                 then lx\<lparr>lx_pos := lx_pos lx + 1, lx_line_no := lx_line_no lx + 1, lx_col_no := 1\<rparr>
                 else lx\<lparr>lx_pos := lx_pos lx + 1, lx_col_no := lx_col_no lx + 1\<rparr>)
      else None)"

fun advance_times :: "nat \<Rightarrow> lexer \<Rightarrow> lexer option" where
  "advance_times 0 lx = Some lx"
| "advance_times (Suc n) lx = do { lx \<leftarrow> lexer_advance lx; advance_times n lx }"

definition lexer_advance_n_chars :: "nat \<Rightarrow> lexer \<Rightarrow> lexer option" where
  "lexer_advance_n_chars n lx = (if lx_pos lx + n \<le> length (lx_input lx) then advance_times n lx else None)"

definition lexer_input_starts_with :: "lexer \<Rightarrow> string \<Rightarrow> bool" where
  "lexer_input_starts_with lx str \<longleftrightarrow> take (length str) (drop (lx_pos lx) (lx_input lx)) = str"

definition lexer_input_starts_with_integer :: "lexer \<Rightarrow> bool" where
  "lexer_input_starts_with_integer lx \<longleftrightarrow> lx_pos lx < length (lx_input lx) \<and> c_isdigit (lx_input lx ! lx_pos lx)"

fun scan_integer :: "string \<Rightarrow> int \<Rightarrow> nat \<Rightarrow> int \<times> nat" where
  \<comment> \<open>the digits as far as their value fits an \<open>int\<close>\<close>
  "scan_integer [] v n = (v, n)"
| "scan_integer (c # cs) v n =
     (let d = of_char c - 48 in
      if \<not> c_isdigit c \<or> v > (INT_MAX - d) div 10 then (v, n) else scan_integer cs (v * 10 + d) (n + 1))"

definition lexer_peek_integer :: "lexer \<Rightarrow> int \<times> nat" where
  "lexer_peek_integer lx = scan_integer (drop (lx_pos lx) (lx_input lx)) 0 0"

subsection \<open>Building a word\<close>

definition lexer_start_word :: "lexer \<Rightarrow> lexer option" where
  "lexer_start_word lx =
     (if lx_current_token lx = None \<and> \<not> lx_in_word lx
      then Some (lx\<lparr>lx_current_token := Some token_create_word, lx_tok_start_line := lx_line_no lx,
                    lx_tok_start_col := lx_col_no lx, lx_in_word := True\<rparr>)
      else None)"

definition ensure_word :: "lexer \<Rightarrow> lexer option" where
  \<comment> \<open>\<open>if (!lx->in_word) lexer_start_word(lx);\<close>\<close>
  "ensure_word lx = (if lx_in_word lx then Some lx else lexer_start_word lx)"

definition on_token :: "(token \<Rightarrow> token option) \<Rightarrow> lexer \<Rightarrow> lexer option" where
  \<comment> \<open>an operation on \<open>lx->current_token\<close>\<close>
  "on_token f lx = do { t \<leftarrow> lx_current_token lx; t \<leftarrow> f t; Some (lx\<lparr>lx_current_token := Some t\<rparr>) }"

definition last_part_is_literal :: "bool \<Rightarrow> bool \<Rightarrow> token \<Rightarrow> bool option" where
  \<comment> \<open>the last part is a literal with these quoting flags\<close>
  "last_part_is_literal single double t =
     map_option (\<lambda>ps. ps \<noteq> [] \<and> part_type_of (last ps) = PART_LITERAL \<and>
       part_single_quoted (last ps) = single \<and> part_double_quoted (last ps) = double) (tok_parts t)"

definition append_literal_char :: "bool \<Rightarrow> bool \<Rightarrow> char \<Rightarrow> token \<Rightarrow> token option" where
  \<comment> \<open>extend the last literal part when it was quoted in the same way, otherwise add a part\<close>
  "append_literal_char single double c t =
     do { extend \<leftarrow> last_part_is_literal single double t;
          if extend then token_append_char_to_last_literal_part t c
          else token_add_part t (part_set_quoted (part_create_literal (char_string c)) single double) }"

definition lexer_append_literal_char_to_word :: "char \<Rightarrow> lexer \<Rightarrow> lexer option" where
  "lexer_append_literal_char_to_word c = on_token (append_literal_char False False c)"

definition lexer_append_literal_cstr_to_word :: "string \<Rightarrow> lexer \<Rightarrow> lexer option" where
  "lexer_append_literal_cstr_to_word str =
     on_token (\<lambda>t. if str = [] then None
       else do { extend \<leftarrow> last_part_is_literal False False t;
                 if extend then token_append_cstr_to_last_literal_part t str else token_add_literal_part t str })"

definition try_promote_to_assignment :: "token \<Rightarrow> token option" where
  "try_promote_to_assignment t =
     (if \<not> tok_has_equals_before_quote t then Some t
      else do {
        ps \<leftarrow> tok_parts t;
        case ps of [] \<Rightarrow> Some t
        | first # rest \<Rightarrow>
            if part_type_of first \<noteq> PART_LITERAL then Some t
            else do {
              text \<leftarrow> part_text first;
              let name = takeWhile (\<lambda>c. c \<noteq> CHR ''='') text; idx = length name in
              if idx = length text \<or> idx < 1 \<or> idx = length text - 1 \<and> rest = [] then Some t
              else Some (t\<lparr>tok_type := TOKEN_ASSIGNMENT_WORD, tok_assignment_name := Some name,
                tok_assignment_value := Some ((if idx = length text - 1 then []
                  else [part_create_literal (drop (idx + 1) text)]) @ rest),
                tok_parts := Some []\<rparr>) } })"

definition lexer_finalize_word :: "lexer \<Rightarrow> lexer option" where
  "lexer_finalize_word lx =
     do { t \<leftarrow> lx_current_token lx;
          t \<leftarrow> try_promote_to_assignment t;
          let t = token_set_location (token_recompute_expansion_flags t) (lx_tok_start_line lx) (lx_tok_start_col lx)
                    (lx_line_no lx) (lx_col_no lx) in
          Some (lx\<lparr>lx_tokens := lx_tokens lx @ [t], lx_current_token := None, lx_in_word := False,
                   lx_at_command_start := False\<rparr>) }"

definition finalize_if_word :: "lexer \<Rightarrow> lexer option" where
  "finalize_if_word lx = (if lx_in_word lx then lexer_finalize_word lx else Some lx)"

subsection \<open>Emitting tokens\<close>

definition here :: "token \<Rightarrow> lexer \<Rightarrow> token" where
  "here t lx = token_set_location t (lx_line_no lx) (lx_col_no lx) (lx_line_no lx) (lx_col_no lx)"

definition lexer_emit_token :: "token_type \<Rightarrow> lexer \<Rightarrow> lexer option" where
  "lexer_emit_token ty lx =
     (if lx_current_token lx = None \<and> ty \<noteq> TOKEN_WORD \<and> ty \<noteq> TOKEN_IO_NUMBER
      then Some (lx\<lparr>lx_tokens := lx_tokens lx @ [here (token_create ty) lx],
        lx_at_command_start := ty \<in> {TOKEN_SEMI, TOKEN_NEWLINE, TOKEN_AND_IF, TOKEN_OR_IF, TOKEN_PIPE}\<rparr>)
      else None)"

definition lexer_emit_io_number_token :: "int \<Rightarrow> lexer \<Rightarrow> lexer option" where
  "lexer_emit_io_number_token n lx =
     (if lx_current_token lx = None \<and> 0 \<le> n
      then Some (lx\<lparr>lx_tokens := lx_tokens lx @ [here ((token_create TOKEN_IO_NUMBER)\<lparr>tok_io_number := n\<rparr>) lx]\<rparr>)
      else None)"

definition lexer_emit_io_location_token :: "string \<Rightarrow> lexer \<Rightarrow> lexer" where
  "lexer_emit_io_location_token loc lx =
     lx\<lparr>lx_tokens := lx_tokens lx @ [here ((token_create TOKEN_IO_LOCATION)\<lparr>tok_io_location := Some loc\<rparr>) lx]\<rparr>"

definition lexer_pop_first_token :: "lexer \<Rightarrow> token option \<times> lexer" where
  "lexer_pop_first_token lx =
     (case lx_tokens lx of [] \<Rightarrow> (None, lx) | t # ts \<Rightarrow> (Some t, lx\<lparr>lx_tokens := ts\<rparr>))"

subsection \<open>Heredoc queue, white space and errors\<close>

definition lexer_queue_heredoc :: "string \<Rightarrow> bool \<Rightarrow> bool \<Rightarrow> lexer \<Rightarrow> lexer" where
  "lexer_queue_heredoc delimiter strip_tabs quoted lx =
     lx\<lparr>lx_heredoc_queue := lx_heredoc_queue lx @
       [\<lparr>hd_delimiter = delimiter, hd_token_index = length (lx_tokens lx), hd_strip_tabs = strip_tabs,
         hd_delimiter_quoted = quoted\<rparr>]\<rparr>"

definition lexer_empty_heredoc_queue :: "lexer \<Rightarrow> lexer" where
  "lexer_empty_heredoc_queue lx = lx\<lparr>lx_heredoc_queue := []\<rparr>"

definition lexer_set_error :: "string \<Rightarrow> lexer \<Rightarrow> lexer" where
  "lexer_set_error msg lx = lx\<lparr>lx_error_msg := Some msg, lx_error_line := lx_line_no lx, lx_error_col := lx_col_no lx\<rparr>"

definition lexer_is_metachar :: "char \<Rightarrow> bool" where
  "lexer_is_metachar c \<longleftrightarrow> c \<in> {CHR ''|'', CHR ''&'', CHR '';'', CHR ''('', CHR '')'', CHR ''<'', CHR ''>''}"

function advance_while :: "(char \<Rightarrow> bool) \<Rightarrow> lexer \<Rightarrow> lexer" where
  \<comment> \<open>\<open>while (!lexer_at_end(lx) && P(lexer_peek(lx))) lexer_advance(lx);\<close>\<close>
  "advance_while P lx =
     (if lexer_at_end lx \<or> \<not> P (lexer_peek lx) then lx
      else case lexer_advance lx of None \<Rightarrow> lx | Some lx \<Rightarrow> advance_while P lx)"
  by pat_completeness auto
termination
  by (relation "measure (\<lambda>(P, lx). length (lx_input lx) - lx_pos lx)")
     (auto simp: lexer_advance_def lexer_at_end_def split: if_splits)

declare advance_while.simps [simp del]

definition lexer_skip_whitespace :: "lexer \<Rightarrow> lexer" where
  "lexer_skip_whitespace = advance_while (\<lambda>c. c = CHR '' '' \<or> c = TAB)"

end
