(* ===== verification/Lexer_Modes.thy ===== *)
theory Lexer_Modes
  imports Lexer
begin

section \<open>The modes of the lexer inside a word\<close>

text \<open>
  Single and double quotes, parameter, command and arithmetic expansions
  (lexer_squote.c, lexer_dquote.c, lexer_param_exp.c, lexer_cmd_subst.c, lexer_arith_exp.c).
  Each mode returns its status with the state; a loop over the input is a recursion that
  consumes at least one character per round.
\<close>

type_synonym lex_result = "(lex_status \<times> lexer) option"

definition incomplete :: "lexer \<Rightarrow> lex_result" where
  "incomplete lx = Some (LEX_INCOMPLETE, lx)"

definition lex_error :: "string \<Rightarrow> lexer \<Rightarrow> lex_result" where
  "lex_error msg lx = Some (LEX_ERROR, lexer_set_error msg lx)"

definition leave_mode :: "lexer \<Rightarrow> lex_result" where
  \<comment> \<open>\<open>lexer_pop_mode(lx); return LEX_OK;\<close>\<close>
  "leave_mode lx = Some (LEX_OK, lexer_pop_mode lx)"

definition rest_len :: "lexer \<Rightarrow> nat" where
  "rest_len lx = length (lx_input lx) - lx_pos lx"

lemma advance_rest: "lexer_advance lx = Some lx' \<Longrightarrow> rest_len lx' < rest_len lx"
  by (auto simp: lexer_advance_def rest_len_def split: if_splits)

lemma on_token_rest: "on_token f lx = Some lx' \<Longrightarrow> rest_len lx' = rest_len lx"
  by (auto simp: on_token_def rest_len_def bind_Some_iff)

subsection \<open>Character classes\<close>

definition is_name_start_char :: "char \<Rightarrow> bool" where
  "is_name_start_char c \<longleftrightarrow> c_isalpha c \<or> c = CHR ''_''"

definition is_name_char :: "char \<Rightarrow> bool" where
  "is_name_char c \<longleftrightarrow> c_isalnum c \<or> c = CHR ''_''"

definition is_special_param_char :: "char \<Rightarrow> bool" where
  \<comment> \<open>as lexer_param_exp.c has it; the other modes count the underscore too\<close>
  "is_special_param_char c \<longleftrightarrow> c_isdigit c \<or>
     c \<in> {CHR ''#'', CHR ''?'', CHR ''-'', CHR ''$'', CHR ''!'', CHR ''@'', CHR ''*''}"

definition is_dquote_escapable :: "char \<Rightarrow> bool" where
  "is_dquote_escapable c \<longleftrightarrow> c \<in> {CHR ''$'', BACKTICK, DQUOTE, BACKSLASH, NEWLINE}"

subsection \<open>Single quotes\<close>

function squote_loop :: "lexer \<Rightarrow> lex_result" where
  "squote_loop lx =
     (if lexer_at_end lx then incomplete lx
      else if lexer_peek lx = SQUOTE then do { lx \<leftarrow> lexer_advance lx; leave_mode lx }
      else do { lx \<leftarrow> on_token (append_literal_char True False (lexer_peek lx)) lx;
                lx \<leftarrow> lexer_advance lx;
                squote_loop lx })"
  by pat_completeness auto
termination by (relation "measure rest_len") (auto dest!: advance_rest on_token_rest)

definition lexer_process_squote :: "lexer \<Rightarrow> lex_result" where
  "lexer_process_squote lx =
     do { lx \<leftarrow> ensure_word lx;
          lx \<leftarrow> on_token (\<lambda>t. Some (token_set_quoted t True)) lx;
          squote_loop lx }"

subsection \<open>Double quotes\<close>

definition enter :: "lex_mode \<Rightarrow> nat \<Rightarrow> lexer \<Rightarrow> lex_result" where
  \<comment> \<open>push the mode, consume the characters that open it, and let the mode go on\<close>
  "enter m n lx = do { lx \<leftarrow> advance_times n (lexer_push_mode m lx); incomplete lx }"

definition dquote_char :: "char \<Rightarrow> lexer \<Rightarrow> lexer option" where
  "dquote_char c = on_token (append_literal_char False True c)"

function dquote_loop :: "lexer \<Rightarrow> lex_result" where
  "dquote_loop lx =
     (let c = lexer_peek lx; c2 = lexer_peek_ahead lx 1; c3 = lexer_peek_ahead lx 2 in
      if lexer_at_end lx then incomplete lx
      else if c = DQUOTE then do { lx \<leftarrow> lexer_advance lx; leave_mode lx }
      else if c = BACKSLASH then
        if c2 = NUL then incomplete lx
        else if c2 = NEWLINE then
          do { lx \<leftarrow> lexer_advance lx;
               lx \<leftarrow> lexer_advance lx;
               if lexer_at_end lx then incomplete lx else dquote_loop lx }
        else if is_dquote_escapable c2 then
          do { lx \<leftarrow> lexer_advance lx; lx \<leftarrow> dquote_char c2 lx; lx \<leftarrow> lexer_advance lx; dquote_loop lx }
        else
          do { lx \<leftarrow> lexer_advance lx;
               lx \<leftarrow> dquote_char BACKSLASH lx;
               lx \<leftarrow> dquote_char c2 lx;
               lx \<leftarrow> lexer_advance lx;
               dquote_loop lx }
      else if c = BACKTICK then enter LEX_CMD_SUBST_BACKTICK 1 lx
      else if c = CHR ''$'' \<and> c2 = NUL then incomplete lx
      else if c = CHR ''$'' \<and> c2 = CHR ''{'' then enter LEX_PARAM_EXP_BRACED 2 lx
      else if c = CHR ''$'' \<and> c2 = CHR ''('' \<and> c3 = CHR ''('' then enter LEX_ARITH_EXP 3 lx
      else if c = CHR ''$'' \<and> c2 = CHR ''('' then enter LEX_CMD_SUBST_PAREN 2 lx
      else if c = CHR ''$'' \<and> (is_name_start_char c2 \<or> is_special_param_char c2 \<or> c2 = CHR ''_'')
      then enter LEX_PARAM_EXP_UNBRACED 1 lx
      else do { lx \<leftarrow> dquote_char c lx; lx \<leftarrow> lexer_advance lx; dquote_loop lx })"
  by pat_completeness auto
termination
  by (relation "measure rest_len") (auto simp: dquote_char_def dest!: advance_rest on_token_rest)

definition lexer_process_dquote :: "lexer \<Rightarrow> lex_result" where
  "lexer_process_dquote lx =
     do { lx \<leftarrow> ensure_word lx;
          lx \<leftarrow> on_token (\<lambda>t. Some (token_set_quoted t True)) lx;
          dquote_loop lx }"

subsection \<open>Parameter expansions\<close>

definition lexer_add_param_part :: "string \<Rightarrow> param_subtype \<Rightarrow> bool \<Rightarrow> string \<Rightarrow> lexer \<Rightarrow> lexer option" where
  \<comment> \<open>an empty \<open>word\<close> stands for NULL\<close>
  "lexer_add_param_part name kind has_colon wrd lx =
     (if name = [] then None
      else on_token (\<lambda>t. do {
        t \<leftarrow> token_add_part t ((part_create_parameter name)\<lparr>part_param_kind := kind, part_has_colon := has_colon,
               part_word := (if wrd = [] then None else Some wrd),
               part_double_quoted := lexer_in_mode lx LEX_DOUBLE_QUOTE\<rparr>);
        Some (t\<lparr>tok_needs_expansion := True\<rparr>) }) lx)"

definition name_here :: "lexer \<Rightarrow> string" where
  \<comment> \<open>the name characters from the current position on\<close>
  "name_here lx = takeWhile is_name_char (drop (lx_pos lx) (lx_input lx))"

definition lexer_process_param_exp_unbraced :: "lexer \<Rightarrow> lex_result" where
  "lexer_process_param_exp_unbraced lx =
     do { lx \<leftarrow> ensure_word lx;
          let c = lexer_peek lx in
          if lexer_at_end lx then incomplete lx
          else if is_special_param_char c then
            do { lx \<leftarrow> lexer_advance lx;
                 lx \<leftarrow> lexer_add_param_part [c] PARAM_PLAIN False [] lx;
                 leave_mode lx }
          else if is_name_start_char c then
            do { lx \<leftarrow> lexer_add_param_part (name_here lx) PARAM_PLAIN False [] (advance_while is_name_char lx);
                 leave_mode lx }
          else lex_error ''Invalid parameter expansion'' lx }"

function skip_quoted :: "char \<Rightarrow> lexer \<Rightarrow> lexer option" where
  \<comment> \<open>over a quoted section of the word and its closing quote, if there is one\<close>
  "skip_quoted q lx =
     (if lexer_at_end lx then Some lx
      else if lexer_peek lx = q then lexer_advance lx
      else if q = DQUOTE \<and> lexer_peek lx = BACKSLASH then
        do { lx \<leftarrow> lexer_advance lx;
             if lexer_at_end lx then Some lx else do { lx \<leftarrow> lexer_advance lx; skip_quoted q lx } }
      else do { lx \<leftarrow> lexer_advance lx; skip_quoted q lx })"
  by pat_completeness auto
termination by (relation "measure (\<lambda>(q, lx). rest_len lx)") (auto dest!: advance_rest)

declare squote_loop.simps [simp del] dquote_loop.simps [simp del] skip_quoted.simps [simp del]

lemma skip_quoted_rest: "skip_quoted q lx = Some lx' \<Longrightarrow> rest_len lx' \<le> rest_len lx"
proof (induction "rest_len lx" arbitrary: lx rule: less_induct)
  case less
  have step: "rest_len lx' \<le> rest_len lx" if "skip_quoted q l = Some lx'" "rest_len l < rest_len lx" for l
    using less.hyps [OF that(2,1)] that(2) by simp
  show ?case
    using less.prems by (subst (asm) skip_quoted.simps)
      (auto split: if_splits simp: bind_Some_iff less_imp_le advance_rest intro: step less_trans [OF advance_rest advance_rest])
qed

function param_word_loop :: "string \<Rightarrow> param_subtype \<Rightarrow> bool \<Rightarrow> nat \<Rightarrow> nat \<Rightarrow> nat \<Rightarrow> lexer \<Rightarrow> lex_result" where
  \<comment> \<open>the loop over the word, from position \<open>start\<close>, with its length so far and the open braces\<close>
  "param_word_loop name kind has_colon start len depth lx =
     (let c = lexer_peek lx; c2 = lexer_peek_ahead lx 1 in
      if lexer_at_end lx then incomplete lx
      else if c = CHR ''}'' then
        if depth = 0 then
          do { lx \<leftarrow> lexer_advance lx;
               lx \<leftarrow> lexer_add_param_part name kind has_colon (take len (drop start (lx_input lx))) lx;
               leave_mode lx }
        else do { lx \<leftarrow> lexer_advance lx; param_word_loop name kind has_colon start (len + 1) (depth - 1) lx }
      else if c = CHR ''$'' \<and> (c2 = CHR ''{'' \<or> c2 = CHR ''('') then
        do { lx \<leftarrow> lexer_advance lx;
             lx \<leftarrow> lexer_advance lx;
             param_word_loop name kind has_colon start (len + 2) (depth + 1) lx }
      else if c = CHR ''('' then
        do { lx \<leftarrow> lexer_advance lx; param_word_loop name kind has_colon start (len + 1) (depth + 1) lx }
      else if c = CHR '')'' then
        do { lx \<leftarrow> lexer_advance lx; param_word_loop name kind has_colon start (len + 1) (depth - 1) lx }
      else if c = BACKSLASH then
        do { lx \<leftarrow> lexer_advance lx;
             if lexer_at_end lx then param_word_loop name kind has_colon start (len + 1) depth lx
             else do { lx \<leftarrow> lexer_advance lx; param_word_loop name kind has_colon start (len + 2) depth lx } }
      else if c = SQUOTE \<or> c = DQUOTE then
        do { lx' \<leftarrow> lexer_advance lx;
             lx' \<leftarrow> skip_quoted c lx';
             param_word_loop name kind has_colon start (len + (lx_pos lx' - lx_pos lx)) depth lx' }
      else do { lx \<leftarrow> lexer_advance lx; param_word_loop name kind has_colon start (len + 1) depth lx })"
  by pat_completeness auto

termination
  by (relation "measure (\<lambda>(name, kind, has_colon, start, len, depth, lx). rest_len lx)")
    (auto dest!: advance_rest skip_quoted_rest)

declare param_word_loop.simps [simp del]

definition braced_word :: "string \<Rightarrow> bool \<Rightarrow> param_subtype \<Rightarrow> lexer \<Rightarrow> lex_result" where
  "braced_word name has_colon kind lx =
     (if lexer_at_end lx then incomplete lx else param_word_loop name kind has_colon (lx_pos lx) 0 0 lx)"

definition one_or_two :: "char \<Rightarrow> param_subtype \<Rightarrow> param_subtype \<Rightarrow> string \<Rightarrow> lexer \<Rightarrow> lex_result" where
  \<comment> \<open>the operators \<open>%\<close>, \<open>%%\<close> and \<open>#\<close>, \<open>##\<close>\<close>
  "one_or_two c small large name lx =
     do { lx \<leftarrow> lexer_advance lx;
          if \<not> lexer_at_end lx \<and> lexer_peek lx = c
          then do { lx \<leftarrow> lexer_advance lx; braced_word name False large lx }
          else braced_word name False small lx }"

definition braced_operator :: "string \<Rightarrow> bool \<Rightarrow> lexer \<Rightarrow> lex_result" where
  "braced_operator name has_colon lx =
     (let c = lexer_peek lx; colon_op = (\<lambda>kind. do { lx \<leftarrow> lexer_advance lx; braced_word name has_colon kind lx }) in
      if c = CHR ''-'' then colon_op PARAM_USE_DEFAULT
      else if c = CHR ''='' then colon_op PARAM_ASSIGN_DEFAULT
      else if c = CHR ''?'' then colon_op PARAM_ERROR_IF_UNSET
      else if c = CHR ''+'' then colon_op PARAM_USE_ALTERNATE
      else if c = CHR ''%'' then
        if has_colon then lex_error ''bad substitution: invalid operator :%'' lx
        else one_or_two CHR ''%'' PARAM_REMOVE_SMALL_SUFFIX PARAM_REMOVE_LARGE_SUFFIX name lx
      else if c = CHR ''#'' then
        if has_colon then lex_error ''bad substitution: invalid operator :#'' lx
        else one_or_two CHR ''#'' PARAM_REMOVE_SMALL_PREFIX PARAM_REMOVE_LARGE_PREFIX name lx
      else lex_error (if has_colon then ''bad substitution: invalid operator after '' @ [SQUOTE] @ '':'' @ [SQUOTE]
        else ''bad substitution: unexpected character '' @ [SQUOTE, c, SQUOTE]) lx)"

definition braced_rest :: "bool \<Rightarrow> string \<Rightarrow> lexer \<Rightarrow> lex_result" where
  \<comment> \<open>after the name\<close>
  "braced_rest is_length name lx =
     (let c = lexer_peek lx in
      if lexer_at_end lx then incomplete lx
      else if is_length then
        if c \<noteq> CHR ''}'' then
          lex_error (''bad substitution: expected '' @ [SQUOTE] @ ''}'' @ [SQUOTE] @ '' after ${#name}'') lx
        else do { lx \<leftarrow> lexer_add_param_part name PARAM_LENGTH False [] lx; lx \<leftarrow> lexer_advance lx; leave_mode lx }
      else if c = CHR ''}'' then
        do { lx \<leftarrow> lexer_advance lx; lx \<leftarrow> lexer_add_param_part name PARAM_PLAIN False [] lx; leave_mode lx }
      else if c = CHR '':'' then
        do { lx \<leftarrow> lexer_advance lx; if lexer_at_end lx then incomplete lx else braced_operator name True lx }
      else braced_operator name False lx)"

definition braced_name :: "bool \<Rightarrow> lexer \<Rightarrow> lex_result" where
  "braced_name is_length lx =
     (let c = lexer_peek lx in
      if is_special_param_char c then
        if is_length \<and> c \<noteq> CHR ''@'' \<and> c \<noteq> CHR ''*'' \<and> \<not> c_isdigit c then
          lex_error (''bad substitution: ${#'' @ [c] @ ''} is not a valid length expansion'') lx
        else do { lx \<leftarrow> lexer_advance lx; braced_rest is_length [c] lx }
      else if is_name_start_char c then braced_rest is_length (name_here lx) (advance_while is_name_char lx)
      else if c = CHR ''}'' then
        lex_error (''bad substitution: '' @ (if is_length then ''${#} requires a parameter name''
                                             else ''empty parameter name in ${}'')) lx
      else lex_error (''bad substitution: invalid character '' @ [SQUOTE, c, SQUOTE] @ '' in parameter name'') lx)"

definition lexer_process_param_exp_braced :: "lexer \<Rightarrow> lex_result" where
  "lexer_process_param_exp_braced lx =
     do { lx \<leftarrow> ensure_word lx;
          let c2 = lexer_peek_ahead lx 1 in
          if lexer_at_end lx then incomplete lx
          else if lexer_peek lx = CHR ''#'' \<and>
            (is_name_start_char c2 \<or> c_isdigit c2 \<or> c2 = CHR ''@'' \<or> c2 = CHR ''*'')
          then do { lx \<leftarrow> lexer_advance lx; if lexer_at_end lx then incomplete lx else braced_name True lx }
          else braced_name False lx }"

subsection \<open>Command substitutions\<close>

definition add_substitution :: "part \<Rightarrow> lexer \<Rightarrow> lexer option" where
  "add_substitution p lx =
     (let quoted = lexer_in_mode lx LEX_DOUBLE_QUOTE in
      on_token (\<lambda>t. do {
        t \<leftarrow> token_add_part t (if quoted then part_set_quoted p False True else p);
        Some (t\<lparr>tok_needs_expansion := True,
                tok_needs_field_splitting := (tok_needs_field_splitting t \<or> \<not> quoted)\<rparr>) }) lx)"

definition extra_newline :: "lexer \<Rightarrow> lexer" where
  \<comment> \<open>\<open>lx->line_no++; lx->col_no = 1;\<close> after \<open>lexer_advance\<close> has counted the line already\<close>
  "extra_newline lx = lx\<lparr>lx_line_no := lx_line_no lx + 1, lx_col_no := 1\<rparr>"

lemma rest_len_extra [simp]: "rest_len (extra_newline lx) = rest_len lx"
  by (simp add: rest_len_def extra_newline_def)

function cmd_subst_loop :: "nat \<Rightarrow> nat \<Rightarrow> lexer \<Rightarrow> lex_result" where
  "cmd_subst_loop start_pos depth lx =
     (let c = lexer_peek lx; c2 = lexer_peek_ahead lx 1 in
      if lexer_at_end lx then incomplete lx
      else if c = CHR '')'' \<and> depth = 1 then
        do { lx \<leftarrow> lexer_advance lx;
             lx \<leftarrow> add_substitution (part_create_command_subst
               (drop start_pos (take (lx_pos lx - 1) (lx_input lx)))) lx;
             leave_mode lx }
      else if c = CHR '')'' then do { lx \<leftarrow> lexer_advance lx; cmd_subst_loop start_pos (depth - 1) lx }
      else if c = CHR ''('' then do { lx \<leftarrow> lexer_advance lx; cmd_subst_loop start_pos (depth + 1) lx }
      else if c = BACKSLASH then
        if c2 = NUL then incomplete lx
        else do { lx \<leftarrow> lexer_advance lx;
                  lx \<leftarrow> lexer_advance lx;
                  if c2 = NEWLINE then
                    if lexer_at_end lx then incomplete (extra_newline lx)
                    else cmd_subst_loop start_pos depth (extra_newline lx)
                  else cmd_subst_loop start_pos depth lx }
      else do { lx \<leftarrow> lexer_advance lx; cmd_subst_loop start_pos depth lx })"
  by pat_completeness auto
termination
  by (relation "measure (\<lambda>(start_pos, depth, lx). rest_len lx)") (auto dest!: advance_rest)

definition lexer_process_cmd_subst_paren :: "lexer \<Rightarrow> lex_result" where
  "lexer_process_cmd_subst_paren lx = do { lx \<leftarrow> ensure_word lx; cmd_subst_loop (lx_pos lx) 1 lx }"

function backtick_loop :: "string \<Rightarrow> lexer \<Rightarrow> lex_result" where
  "backtick_loop cmd_text lx =
     (let c = lexer_peek lx; c2 = lexer_peek_ahead lx 1 in
      if lexer_at_end lx then incomplete lx
      else if c = BACKTICK then
        do { lx \<leftarrow> lexer_advance lx;
             lx \<leftarrow> add_substitution (part_create_command_subst cmd_text) lx;
             leave_mode lx }
      else if c = BACKSLASH then
        if c2 = NUL then incomplete lx
        else do { lx \<leftarrow> lexer_advance lx;
                  lx \<leftarrow> lexer_advance lx;
                  if c2 = NEWLINE then
                    if lexer_at_end lx then incomplete (extra_newline lx)
                    else backtick_loop cmd_text (extra_newline lx)
                  else if c2 = CHR ''$'' \<or> c2 = BACKTICK \<or> c2 = BACKSLASH \<or>
                    c2 = DQUOTE \<and> \<not> lexer_in_mode lx LEX_DOUBLE_QUOTE
                  then backtick_loop (add_char cmd_text c2) lx
                  else backtick_loop (add_char (add_char cmd_text BACKSLASH) c2) lx }
      else do { lx \<leftarrow> lexer_advance lx; backtick_loop (add_char cmd_text c) lx })"
  by pat_completeness auto
termination by (relation "measure (\<lambda>(cmd_text, lx). rest_len lx)") (auto dest!: advance_rest)

definition lexer_process_cmd_subst_backtick :: "lexer \<Rightarrow> lex_result" where
  "lexer_process_cmd_subst_backtick lx = do { lx \<leftarrow> ensure_word lx; backtick_loop [] lx }"

subsection \<open>Arithmetic expansions\<close>

definition set_buffer :: "string \<Rightarrow> lexer \<Rightarrow> lexer" where
  \<comment> \<open>the operator buffer is used as the stack of open brackets, its last character the innermost\<close>
  "set_buffer s lx = lx\<lparr>lx_operator_buffer := s\<rparr>"

lemma rest_len_buffer [simp]: "rest_len (set_buffer s lx) = rest_len lx"
  by (simp add: rest_len_def set_buffer_def)

definition arith_error :: "string \<Rightarrow> lexer \<Rightarrow> lex_result" where
  "arith_error msg lx = lex_error msg (set_buffer [] lx)"

function arith_loop :: "string \<Rightarrow> lexer \<Rightarrow> lex_result" where
  "arith_loop expr_text lx =
     (let c = lexer_peek lx; c2 = lexer_peek_ahead lx 1; stack = lx_operator_buffer lx in
      if lexer_at_end lx then incomplete (set_buffer [] lx)
      else if c = CHR '')'' \<and> stack = [] then
        if c2 = CHR '')'' then
          do { lx \<leftarrow> lexer_advance lx;
               lx \<leftarrow> lexer_advance lx;
               lx \<leftarrow> add_substitution (part_create_arithmetic expr_text) lx;
               leave_mode (set_buffer [] lx) }
        else if c2 = NUL then arith_error ''Missing closing parentheses in arithmetic expansion'' lx
        else arith_error ''Unbalanced parentheses in arithmetic expansion'' lx
      else if c = CHR ''('' \<or> c = CHR ''{'' then
        do { lx \<leftarrow> lexer_advance (set_buffer (stack @ [c]) lx); arith_loop (expr_text @ [c]) lx }
      else if c = CHR '')'' \<or> c = CHR ''}'' then
        if stack = [] then arith_error (''Unbalanced delimiter '' @ [SQUOTE, c, SQUOTE] @ '' in arithmetic expansion'') lx
        else if last stack = CHR ''('' \<and> c \<noteq> CHR '')'' \<or> last stack = CHR ''{'' \<and> c \<noteq> CHR ''}'' then
          arith_error (''Unbalanced delimiters in arithmetic expansion: '' @ [SQUOTE, last stack, SQUOTE] @ '' vs '' @
            [SQUOTE, c, SQUOTE]) lx
        else do { lx \<leftarrow> lexer_advance (set_buffer (butlast stack) lx); arith_loop (expr_text @ [c]) lx }
      else if c = BACKSLASH \<and> (c2 = CHR ''$'' \<or> c2 = BACKTICK \<or> c2 = BACKSLASH) then
        do { lx \<leftarrow> lexer_advance lx; lx \<leftarrow> lexer_advance lx; arith_loop (expr_text @ [c2]) lx }
      else if c = BACKSLASH \<and> c2 = NEWLINE then
        do { lx \<leftarrow> lexer_advance lx; lx \<leftarrow> lexer_advance lx; arith_loop expr_text lx }
      else if c = CHR ''$'' \<and> (c2 = CHR ''('' \<or> c2 = CHR ''{'') then
        do { lx \<leftarrow> lexer_advance (set_buffer (stack @ [c2]) lx);
             lx \<leftarrow> lexer_advance lx;
             arith_loop (expr_text @ [c, c2]) lx }
      else do { lx \<leftarrow> lexer_advance lx; arith_loop (add_char expr_text c) lx })"
  by pat_completeness auto
termination by (relation "measure (\<lambda>(expr_text, lx). rest_len lx)") (auto dest!: advance_rest)

definition lexer_process_arith_exp :: "lexer \<Rightarrow> lex_result" where
  "lexer_process_arith_exp lx = do { lx \<leftarrow> ensure_word lx; arith_loop [] (set_buffer [] lx) }"

declare cmd_subst_loop.simps [simp del] backtick_loop.simps [simp del] arith_loop.simps [simp del]

end
