(* ===== verification/Lexer_Heredoc.thy ===== *)
theory Lexer_Heredoc
  imports Lexer_Modes
begin

section \<open>Here-documents (lexer_heredoc.c, and the delimiter of lexer_normal.c)\<close>

text \<open>
  The body of a here-document is read up to its delimiter, and the delimiter word is read by
  the normal mode after \<open><<\<close> or \<open><<-\<close>.
\<close>

lemma advance_while_rest: "rest_len (advance_while P lx) \<le> rest_len lx"
proof (induction P lx rule: advance_while.induct)
  case (1 P lx)
  show ?case
  proof (cases "lexer_advance lx")
    case (Some l)
    show ?thesis
      using 1 [OF _ Some] advance_rest [OF Some] Some by (subst advance_while.simps) auto
  qed (subst advance_while.simps, simp)
qed

lemma advance_times_rest: "advance_times n lx = Some lx' \<Longrightarrow> rest_len lx' \<le> rest_len lx - n"
  by (induction n arbitrary: lx) (fastforce dest: advance_rest simp: bind_Some_iff)+

lemma advance_n_rest: "lexer_advance_n_chars n lx = Some lx' \<Longrightarrow> rest_len lx' \<le> rest_len lx - n"
  by (auto simp: lexer_advance_n_chars_def advance_times_rest split: if_splits)

lemma advance_n_rest_le: "lexer_advance_n_chars n lx = Some lx' \<Longrightarrow> rest_len lx' \<le> rest_len lx"
  by (meson advance_n_rest diff_le_self order_trans)

subsection \<open>The body\<close>

definition is_heredoc_escapable :: "char \<Rightarrow> bool" where
  "is_heredoc_escapable c \<longleftrightarrow> c \<in> {CHR ''$'', BACKTICK, BACKSLASH, NEWLINE}"

definition after_tabs :: "bool \<Rightarrow> lexer \<Rightarrow> nat" where
  "after_tabs strip_tabs lx =
     (let pos = lx_pos lx + length (takeWhile (\<lambda>c. c = TAB) (drop (lx_pos lx) (lx_input lx)))
      in if strip_tabs \<and> pos < length (lx_input lx) then pos else lx_pos lx)"

definition same_text :: "string \<Rightarrow> string \<Rightarrow> bool" where
  \<comment> \<open>\<open>string_compare_substring\<close> gives 0\<close>
  "same_text a b \<longleftrightarrow> length a = length b \<and> cstr_of a = cstr_of b"

definition lexer_check_heredoc_delimiter :: "string \<Rightarrow> bool \<Rightarrow> lexer \<Rightarrow> (bool \<times> lexer) option" where
  "lexer_check_heredoc_delimiter delim strip_tabs lx =
     (let pos = after_tabs strip_tabs lx; end_pos = pos + length delim in
      if \<not> same_text (take (length delim) (drop pos (lx_input lx))) delim then Some (False, lx)
      else if length (lx_input lx) = end_pos then
        do { lx \<leftarrow> lexer_advance_n_chars (end_pos - lx_pos lx) lx; Some (False, lx) }
      else if lx_input lx ! end_pos = NEWLINE then
        do { lx \<leftarrow> lexer_advance_n_chars (end_pos - lx_pos lx + 1) lx; Some (True, lx) }
      else Some (False, lx))"

definition add_heredoc_content :: "string \<Rightarrow> lexer \<Rightarrow> lexer option" where
  "add_heredoc_content content =
     on_token (\<lambda>t. do { c \<leftarrow> tok_heredoc_content t; Some (t\<lparr>tok_heredoc_content := Some (c @ content)\<rparr>) })"

definition finish_heredoc :: "string \<Rightarrow> bool \<Rightarrow> string \<Rightarrow> lexer \<Rightarrow> lex_result" where
  "finish_heredoc delim quoted content lx =
     do { lx \<leftarrow> add_heredoc_content content lx;
          t \<leftarrow> lx_current_token lx;
          let end_tok = (token_create TOKEN_END_OF_HEREDOC)\<lparr>tok_heredoc_delimiter := Some delim,
                tok_heredoc_content := tok_heredoc_content t, tok_heredoc_delim_quoted := quoted,
                tok_needs_expansion := \<not> quoted\<rparr>;
              lx = lx\<lparr>lx_current_token := None, lx_in_word := False, lx_tokens := lx_tokens lx @ [end_tok],
                lx_heredoc_index := lx_heredoc_index lx + 1\<rparr>
          in if lx_heredoc_index lx \<ge> length (lx_heredoc_queue lx)
             then leave_mode (lexer_empty_heredoc_queue (lx\<lparr>lx_reading_heredoc := False\<rparr>))
             else Some (LEX_OK, lx) }"

definition strip_line_tabs :: "bool \<Rightarrow> lexer \<Rightarrow> lexer" where
  "strip_line_tabs strip_tabs lx =
     (if strip_tabs \<and> lx_col_no lx = 1 then advance_while (\<lambda>c. c = TAB) lx else lx)"

lemma strip_line_tabs_rest: "rest_len (strip_line_tabs b lx) \<le> rest_len lx"
  by (simp add: strip_line_tabs_def advance_while_rest)

lemma check_heredoc_delimiter_rest:
  "lexer_check_heredoc_delimiter d b lx = Some (f, lx') \<Longrightarrow> rest_len lx' \<le> rest_len lx"
  unfolding lexer_check_heredoc_delimiter_def Let_def
  by (auto simp: bind_Some_iff simp del: take_drop drop_drop split: if_split_asm dest!: advance_n_rest_le)

lemma check_stripped_rest:
  "lexer_check_heredoc_delimiter d b (strip_line_tabs c lx) = Some (f, lx') \<Longrightarrow> rest_len lx' \<le> rest_len lx"
  using check_heredoc_delimiter_rest strip_line_tabs_rest order_trans by blast

function heredoc_loop :: "string \<Rightarrow> bool \<Rightarrow> bool \<Rightarrow> string \<Rightarrow> lexer \<Rightarrow> lex_result" where
  "heredoc_loop delim strip_tabs quoted content lx =
     (if lexer_at_end lx then do { lx \<leftarrow> add_heredoc_content content lx; incomplete lx }
      else do {
        (found, lx) \<leftarrow> lexer_check_heredoc_delimiter delim strip_tabs (strip_line_tabs strip_tabs lx);
        let c = lexer_peek lx; c2 = lexer_peek_ahead lx 1 in
        if found then finish_heredoc delim quoted content lx
        else if c = NEWLINE then
          do { lx \<leftarrow> lexer_advance lx; heredoc_loop delim strip_tabs quoted (content @ [NEWLINE]) (extra_newline lx) }
        else if \<not> quoted \<and> c = BACKSLASH \<and> c2 = NEWLINE then
          do { lx \<leftarrow> lexer_advance lx;
               lx \<leftarrow> lexer_advance lx;
               heredoc_loop delim strip_tabs quoted content (extra_newline lx) }
        else if \<not> quoted \<and> c = BACKSLASH \<and> is_heredoc_escapable c2 then
          do { lx \<leftarrow> lexer_advance lx;
               lx \<leftarrow> lexer_advance lx;
               heredoc_loop delim strip_tabs quoted (content @ [c2]) lx }
        else do { lx \<leftarrow> lexer_advance lx; heredoc_loop delim strip_tabs quoted (add_char content c) lx } })"
  by pat_completeness auto
termination
  by (relation "measure (\<lambda>(delim, strip_tabs, quoted, content, lx). rest_len lx)")
    (auto dest!: advance_rest check_stripped_rest)

declare heredoc_loop.simps [simp del]

definition lexer_process_heredoc_body :: "lexer \<Rightarrow> lex_result" where
  "lexer_process_heredoc_body lx =
     (if lx_heredoc_index lx \<ge> length (lx_heredoc_queue lx) then Some (LEX_OK, lx)
      else let entry = lx_heredoc_queue lx ! lx_heredoc_index lx;
               lx = (if lx_current_token lx = None
                     then lx\<lparr>lx_current_token := Some (token_create_word\<lparr>tok_heredoc_content := Some []\<rparr>)\<rparr> else lx)
           in heredoc_loop (hd_delimiter entry) (hd_strip_tabs entry) (hd_delimiter_quoted entry) [] lx)"

subsection \<open>The delimiter\<close>

text \<open>The delimiter with whether it was quoted, or \<open>None\<close> after an error, and the state.\<close>

type_synonym delimiter_result = "((string \<times> bool) option \<times> lexer) option"

definition delimiter_error :: "string \<Rightarrow> lexer \<Rightarrow> delimiter_result" where
  "delimiter_error msg lx = Some (None, lexer_set_error msg lx)"

function quoted_delimiter :: "char \<Rightarrow> string \<Rightarrow> lexer \<Rightarrow> delimiter_result" where
  \<comment> \<open>the loops after an opening single or double quote \<open>q\<close>\<close>
  "quoted_delimiter q out lx =
     (let c = lexer_peek lx;
          unterminated = ''unterminated '' @ (if q = SQUOTE then ''single'' else ''double'') @ ''-quoted heredoc delimiter'' in
      if lexer_at_end lx then delimiter_error unterminated lx
      else if c = q then do { lx \<leftarrow> lexer_advance lx; Some (Some (out, True), lexer_skip_whitespace lx) }
      else if c = NEWLINE then delimiter_error unterminated lx
      else if q = DQUOTE \<and> c = BACKSLASH \<and> lexer_peek_ahead lx 1 = NEWLINE then
        do { lx \<leftarrow> lexer_advance lx; lx \<leftarrow> lexer_advance lx; quoted_delimiter q out lx }
      else do { lx \<leftarrow> lexer_advance lx; quoted_delimiter q (add_char out c) lx })"
  by pat_completeness auto
termination by (relation "measure (\<lambda>(q, out, lx). rest_len lx)") (auto dest!: advance_rest)

function plain_delimiter :: "string \<Rightarrow> bool \<Rightarrow> lexer \<Rightarrow> delimiter_result" where
  "plain_delimiter out quoted lx =
     (let c = lexer_peek lx; c2 = lexer_peek_ahead lx 1 in
      if lexer_at_end lx \<or> c = CHR '' '' \<or> c = TAB \<or> c = NEWLINE \<or> lexer_is_metachar c then
        if out = [] then delimiter_error ''heredoc delimiter cannot be empty'' lx else Some (Some (out, quoted), lx)
      else if c = BACKSLASH \<and> c2 = NEWLINE then
        do { lx \<leftarrow> lexer_advance lx; lx \<leftarrow> lexer_advance lx; plain_delimiter out quoted lx }
      else if c = BACKSLASH \<and> c2 \<noteq> NUL then
        do { lx \<leftarrow> lexer_advance lx; lx \<leftarrow> lexer_advance lx; plain_delimiter (out @ [c2]) True lx }
      else do { lx \<leftarrow> lexer_advance lx; plain_delimiter (add_char out c) quoted lx })"
  by pat_completeness auto
termination by (relation "measure (\<lambda>(out, quoted, lx). rest_len lx)") (auto dest!: advance_rest)

declare quoted_delimiter.simps [simp del] plain_delimiter.simps [simp del]

definition get_heredoc_delimiter :: "lexer \<Rightarrow> delimiter_result" where
  "get_heredoc_delimiter lx0 =
     (let lx = lexer_skip_whitespace lx0; first = lexer_peek lx in
      if lexer_at_end lx \<or> first = NEWLINE then delimiter_error ''heredoc delimiter cannot be empty'' lx
      else if first = SQUOTE \<or> first = DQUOTE then do { lx \<leftarrow> lexer_advance lx; quoted_delimiter first [] lx }
      else plain_delimiter [] False lx)"

end
