(* ===== verification/Lexer_Normal.thy ===== *)
theory Lexer_Normal
  imports Lexer_Heredoc
begin

section \<open>The normal mode and the driver of the lexer (lexer_normal.c, lexer.c)\<close>

text \<open>
  One round of the loop of the normal mode is \<open>normal_pass\<close>; \<open>lexer_process_one_token\<close>
  dispatches on the mode until there is a token, an error or a need for input, and
  \<open>lexer_tokenize\<close> collects the tokens.  These two loops do not always end, so they are partial
  functions: the outer \<open>None\<close> is a run that goes on for ever, the inner one a contract violation.
\<close>

subsection \<open>Operators\<close>

definition normal_mode_operators :: "(token_type \<times> string) list" where
  \<comment> \<open>the entries of the table that are set, in the order of the token types\<close>
  "normal_mode_operators =
     [(TOKEN_AND_IF, ''&&''), (TOKEN_OR_IF, ''||''), (TOKEN_DSEMI, '';;''), (TOKEN_DLESS, ''<<''), (TOKEN_DGREAT, ''>>''),
      (TOKEN_LESSAND, ''<&''), (TOKEN_GREATAND, ''>&''), (TOKEN_LESSGREAT, ''<>''), (TOKEN_DLESSDASH, ''<<-''),
      (TOKEN_CLOBBER, ''>|''), (TOKEN_PIPE, ''|''), (TOKEN_SEMI, '';''), (TOKEN_AMPER, ''&''), (TOKEN_LPAREN, ''(''),
      (TOKEN_RPAREN, '')''), (TOKEN_GREATER, ''>''), (TOKEN_LESS, ''<'')]"

definition match_operator_of_length :: "lexer \<Rightarrow> nat \<Rightarrow> (token_type \<times> string) option" where
  "match_operator_of_length lx n =
     find (\<lambda>(t, op). length op = n \<and> lexer_input_starts_with lx op) normal_mode_operators"

definition match_operator :: "lexer \<Rightarrow> (token_type \<times> string) option" where
  \<comment> \<open>the longest operator at the position; \<open>None\<close> is \<open>TOKEN_EOF\<close>\<close>
  "match_operator lx =
     (case match_operator_of_length lx 3 of Some r \<Rightarrow> Some r
      | None \<Rightarrow> (case match_operator_of_length lx 2 of Some r \<Rightarrow> Some r
                 | None \<Rightarrow> match_operator_of_length lx 1))"

definition is_delimiter_char :: "char \<Rightarrow> bool" where
  "is_delimiter_char c \<longleftrightarrow> c = CHR '' '' \<or> c = TAB \<or> c = NEWLINE \<or> lexer_is_metachar c"

definition is_word_char :: "char \<Rightarrow> bool" where
  "is_word_char c \<longleftrightarrow> \<not> (is_delimiter_char c \<or> c = NUL)"

subsection \<open>Redirection prefixes\<close>

definition last_token_in :: "token_type set \<Rightarrow> lexer \<Rightarrow> bool" where
  \<comment> \<open>there is no token yet, or the last one has one of these types\<close>
  "last_token_in ts lx \<longleftrightarrow> lx_tokens lx = [] \<or> tok_type (last (lx_tokens lx)) \<in> ts"

definition previous_token_allows_io_number :: "lexer \<Rightarrow> bool" where
  "previous_token_allows_io_number =
     last_token_in {TOKEN_NEWLINE, TOKEN_SEMI, TOKEN_AMPER, TOKEN_PIPE, TOKEN_LPAREN, TOKEN_AND_IF, TOKEN_OR_IF, TOKEN_EOF}"

definition heredoc_previous_token_allows_io_number :: "lexer \<Rightarrow> bool" where
  "heredoc_previous_token_allows_io_number =
     last_token_in {TOKEN_NEWLINE, TOKEN_SEMI, TOKEN_AMPER, TOKEN_PIPE, TOKEN_LPAREN, TOKEN_EOF}"

definition is_redirection_start_char :: "char \<Rightarrow> bool" where
  "is_redirection_start_char c \<longleftrightarrow> c = CHR ''<'' \<or> c = CHR ''>''"

definition try_emit_io_number :: "lexer \<Rightarrow> (bool \<times> lexer) option" where
  "try_emit_io_number lx =
     (if \<not> previous_token_allows_io_number lx \<or> \<not> lexer_input_starts_with_integer lx then Some (False, lx)
      else (case lexer_peek_integer lx of (io_number, digit_count) \<Rightarrow>
        if digit_count = 0 \<or> io_number < 0 \<or> \<not> is_redirection_start_char (lexer_peek_ahead lx digit_count)
        then Some (False, lx)
        else do { lx \<leftarrow> lexer_emit_io_number_token io_number lx;
                  lx \<leftarrow> lexer_advance_n_chars digit_count lx;
                  Some (True, lx) }))"

definition braced_location :: "lexer \<Rightarrow> string option" where
  \<comment> \<open>an identifier in braces just before \<open><\<close> or \<open>>\<close>\<close>
  "braced_location lx =
     (let rest = drop (lx_pos lx) (lx_input lx); name = takeWhile is_name_char (tl rest);
          after = drop (length name + 1) rest in
      if rest \<noteq> [] \<and> hd rest = CHR ''{'' \<and> name \<noteq> [] \<and> after \<noteq> [] \<and> hd after = CHR ''}'' \<and> tl after \<noteq> [] \<and>
        is_redirection_start_char (hd (tl after))
      then Some (CHR ''{'' # name @ [CHR ''}'']) else None)"

definition try_emit_braced_io_location :: "lexer \<Rightarrow> (bool \<times> lexer) option" where
  "try_emit_braced_io_location lx =
     (case braced_location lx of None \<Rightarrow> Some (False, lx)
      | Some loc \<Rightarrow> do { lx \<leftarrow> lexer_advance_n_chars (length loc) (lexer_emit_io_location_token loc lx);
                        Some (True, lx) })"

datatype (plugins only: code size) heredoc_process_result =
  HEREDOC_PROCESS_RESULT_NOT_HEREDOC | HEREDOC_PROCESS_RESULT_SUCCESS | HEREDOC_PROCESS_RESULT_ERROR

definition heredoc_io_number :: "lexer \<Rightarrow> lexer option" where
  "heredoc_io_number lx =
     (if lexer_input_starts_with_integer lx \<and> heredoc_previous_token_allows_io_number lx
      then (case lexer_peek_integer lx of (io_number, digit_count) \<Rightarrow>
        if is_redirection_start_char (lexer_peek_ahead lx digit_count)
        then do { lx \<leftarrow> lexer_emit_io_number_token io_number lx; lexer_advance_n_chars digit_count lx }
        else Some lx)
      else Some lx)"

definition try_process_heredoc :: "lexer \<Rightarrow> (heredoc_process_result \<times> lexer) option" where
  "try_process_heredoc lx =
     do { lx \<leftarrow> heredoc_io_number lx;
          if \<not> lexer_input_starts_with lx ''<<'' then Some (HEREDOC_PROCESS_RESULT_NOT_HEREDOC, lx)
          else do {
            lx \<leftarrow> lexer_advance_n_chars 2 lx;
            let strip_tabs = (lexer_peek lx = CHR ''-'');
            lx \<leftarrow> (if strip_tabs then do { lx \<leftarrow> lexer_advance lx; lexer_emit_token TOKEN_DLESSDASH lx }
                   else lexer_emit_token TOKEN_DLESS lx);
            (r, lx) \<leftarrow> get_heredoc_delimiter (lexer_skip_whitespace lx);
            (case r of None \<Rightarrow> Some (HEREDOC_PROCESS_RESULT_ERROR, lx)
             | Some (delimiter, quoted) \<Rightarrow> do {
                 lx \<leftarrow> lexer_start_word lx;
                 lx \<leftarrow> lexer_append_literal_cstr_to_word (cstr_of delimiter) lx;
                 lx \<leftarrow> lexer_finalize_word lx;
                 Some (HEREDOC_PROCESS_RESULT_SUCCESS, lexer_queue_heredoc delimiter strip_tabs quoted lx) }) } }"

subsection \<open>The normal mode\<close>

datatype pass = Go lexer | Stop lex_status lexer

definition go :: "lexer \<Rightarrow> pass option" where
  "go lx = Some (Go lx)"

definition switch_mode :: "lex_mode \<Rightarrow> nat \<Rightarrow> lexer \<Rightarrow> pass option" where
  \<comment> \<open>push the mode, consume what opens it, and return \<open>LEX_INCOMPLETE\<close>\<close>
  "switch_mode m n lx = do { lx \<leftarrow> advance_times n (lexer_push_mode m lx); Some (Stop LEX_INCOMPLETE lx) }"

definition normal_newline :: "lexer \<Rightarrow> pass option" where
  "normal_newline lx =
     do { lx \<leftarrow> finalize_if_word lx;
          lx \<leftarrow> lexer_advance lx;
          lx \<leftarrow> lexer_emit_token TOKEN_NEWLINE lx;
          if lx_heredoc_queue lx \<noteq> [] \<and> \<not> lx_reading_heredoc lx
          then Some (Stop LEX_INCOMPLETE
            (lexer_push_mode LEX_HEREDOC_BODY (lx\<lparr>lx_reading_heredoc := True, lx_heredoc_index := 0\<rparr>)))
          else go lx }"

definition append_here :: "lexer \<Rightarrow> lexer option" where
  \<comment> \<open>\<open>lexer_append_literal_char_to_word(lx, lexer_advance(lx))\<close>\<close>
  "append_here lx = do { lx' \<leftarrow> lexer_advance lx; lexer_append_literal_char_to_word (lexer_peek lx) lx' }"

definition note_equals :: "char \<Rightarrow> lexer \<Rightarrow> lexer option" where
  "note_equals c =
     on_token (\<lambda>t. Some (if c = CHR ''='' \<and> \<not> tok_was_quoted t then t\<lparr>tok_has_equals_before_quote := True\<rparr> else t))"

definition normal_dollar :: "lexer \<Rightarrow> pass option" where
  "normal_dollar lx =
     (let c2 = lexer_peek_ahead lx 1; c3 = lexer_peek_ahead lx 2 in
      if c2 = NUL then Some (Stop LEX_INCOMPLETE lx)
      else if c2 = CHR ''{'' then switch_mode LEX_PARAM_EXP_BRACED 2 lx
      else if c2 = CHR ''('' \<and> c3 = CHR ''('' then switch_mode LEX_ARITH_EXP 3 lx
      else if c2 = CHR ''('' then switch_mode LEX_CMD_SUBST_PAREN 2 lx
      else if is_word_char c2 \<or> is_special_param_char c2 \<or> c2 = CHR ''_'' then switch_mode LEX_PARAM_EXP_UNBRACED 1 lx
      else do { lx \<leftarrow> ensure_word lx; lx \<leftarrow> append_here lx; go lx })"

definition normal_char :: "char \<Rightarrow> lexer \<Rightarrow> pass option" where
  \<comment> \<open>after the attempts at redirections, here-documents and operators\<close>
  "normal_char c lx =
     (if c = BACKSLASH then
        if lexer_peek_ahead lx 1 = NUL then Some (Stop LEX_INCOMPLETE lx)
        else do { lx \<leftarrow> ensure_word lx;
                  lx \<leftarrow> lexer_advance lx;
                  lx \<leftarrow> append_here lx;
                  lx \<leftarrow> on_token (\<lambda>t. Some (token_set_quoted t True)) lx;
                  go lx }
      else if c = BACKTICK then switch_mode LEX_CMD_SUBST_BACKTICK 1 lx
      else if c = SQUOTE then switch_mode LEX_SINGLE_QUOTE 1 lx
      else if c = DQUOTE then switch_mode LEX_DOUBLE_QUOTE 1 lx
      else if c = CHR ''$'' then normal_dollar lx
      else if is_word_char c \<and> c \<noteq> CHR ''#'' then
        do { lx \<leftarrow> ensure_word lx; lx \<leftarrow> note_equals c lx; lx \<leftarrow> append_here lx; go lx }
      else if c = CHR ''#'' then
        if \<not> lx_in_word lx then go (advance_while (\<lambda>c. c \<noteq> NEWLINE) lx)
        else do { lx \<leftarrow> lexer_start_word lx; lx \<leftarrow> append_here lx; go lx }
      else Some (Stop LEX_ERROR (lexer_set_error (''Unexpected character '' @ [SQUOTE, c, SQUOTE]) lx)))"

definition normal_operator :: "char \<Rightarrow> lexer \<Rightarrow> pass option" where
  "normal_operator c lx =
     (case match_operator lx of
        Some (t, op) \<Rightarrow> do {
          lx \<leftarrow> finalize_if_word lx;
          lx \<leftarrow> advance_times (length op) lx;
          lx \<leftarrow> lexer_emit_token t lx;
          Some (Stop LEX_OK lx) }
      | None \<Rightarrow> normal_char c lx)"

definition normal_redirection :: "char \<Rightarrow> lexer \<Rightarrow> pass option" where
  \<comment> \<open>from the attempt at a number before a redirection on\<close>
  "normal_redirection c lx =
     do { (emitted, lx) \<leftarrow> try_emit_io_number lx;
          if emitted then go lx
          else do {
            (emitted, lx) \<leftarrow> try_emit_braced_io_location lx;
            if emitted then go lx
            else do {
              (r, lx) \<leftarrow> try_process_heredoc lx;
              if r = HEREDOC_PROCESS_RESULT_SUCCESS then go lx
              else if r = HEREDOC_PROCESS_RESULT_ERROR then Some (Stop LEX_ERROR lx)
              else normal_operator c lx } } }"

definition normal_pass :: "lexer \<Rightarrow> pass option" where
  "normal_pass lx =
     (let c = lexer_peek lx; c2 = lexer_peek_ahead lx 1 in
      if c = BACKSLASH \<and> c2 = NEWLINE then
        do { lx \<leftarrow> lexer_advance lx;
             lx \<leftarrow> lexer_advance lx;
             if lexer_at_end lx then Some (Stop LEX_INCOMPLETE lx) else go lx }
      else if c = CHR '' '' \<or> c = TAB then do { lx \<leftarrow> finalize_if_word lx; go (lexer_skip_whitespace lx) }
      else if c = NEWLINE then normal_newline lx
      else normal_redirection c lx)"

definition normal_end :: "lexer \<Rightarrow> lex_result" where
  "normal_end lx =
     (if lx_in_word lx then do { lx \<leftarrow> lexer_finalize_word lx; lx \<leftarrow> lexer_emit_token TOKEN_EOF lx; Some (LEX_OK, lx) }
      else if lx_current_token lx \<noteq> None then lex_error ''Unexpected end of input'' lx
      else do { lx \<leftarrow> lexer_emit_token TOKEN_EOF lx; Some (LEX_OK, lx) })"

subsection \<open>Every round consumes input\<close>

lemma not_at_end_rest: "\<not> lexer_at_end lx \<longleftrightarrow> 0 < rest_len lx"
  by (auto simp: lexer_at_end_def rest_len_def)

lemma advance_while_less:
  assumes "\<not> lexer_at_end lx" "P (lexer_peek lx)"
  shows "rest_len (advance_while P lx) < rest_len lx"
proof -
  obtain l where l: "lexer_advance lx = Some l"
    using assms by (auto simp: lexer_advance_def lexer_at_end_def)
  show ?thesis
    using assms l advance_while_rest [of P l] advance_rest [OF l] by (subst advance_while.simps) simp
qed

lemma start_word_rest: "lexer_start_word lx = Some lx' \<Longrightarrow> rest_len lx' = rest_len lx"
  by (auto simp: lexer_start_word_def rest_len_def split: if_splits)

lemma ensure_word_rest: "ensure_word lx = Some lx' \<Longrightarrow> rest_len lx' = rest_len lx"
  by (auto simp: ensure_word_def start_word_rest split: if_splits)

lemma finalize_rest: "lexer_finalize_word lx = Some lx' \<Longrightarrow> rest_len lx' = rest_len lx"
  by (auto simp: lexer_finalize_word_def rest_len_def bind_Some_iff Let_def)

lemma finalize_if_word_rest: "finalize_if_word lx = Some lx' \<Longrightarrow> rest_len lx' = rest_len lx"
  by (auto simp: finalize_if_word_def finalize_rest split: if_splits)

lemma emit_token_rest: "lexer_emit_token ty lx = Some lx' \<Longrightarrow> rest_len lx' = rest_len lx"
  by (auto simp: lexer_emit_token_def rest_len_def split: if_splits)

lemma emit_io_number_rest: "lexer_emit_io_number_token n lx = Some lx' \<Longrightarrow> rest_len lx' = rest_len lx"
  by (auto simp: lexer_emit_io_number_token_def rest_len_def split: if_splits)

lemma emit_io_location_rest [simp]: "rest_len (lexer_emit_io_location_token loc lx) = rest_len lx"
  by (simp add: lexer_emit_io_location_token_def rest_len_def)

lemma queue_heredoc_rest [simp]: "rest_len (lexer_queue_heredoc d b q lx) = rest_len lx"
  by (simp add: lexer_queue_heredoc_def rest_len_def)

lemma set_error_rest [simp]: "rest_len (lexer_set_error m lx) = rest_len lx"
  by (simp add: lexer_set_error_def rest_len_def)

lemma append_char_rest: "lexer_append_literal_char_to_word c lx = Some lx' \<Longrightarrow> rest_len lx' = rest_len lx"
  by (auto simp: lexer_append_literal_char_to_word_def on_token_rest)

lemma append_cstr_rest: "lexer_append_literal_cstr_to_word c lx = Some lx' \<Longrightarrow> rest_len lx' = rest_len lx"
  by (auto simp: lexer_append_literal_cstr_to_word_def on_token_rest)

lemma append_here_rest: "append_here lx = Some lx' \<Longrightarrow> rest_len lx' < rest_len lx"
  by (auto simp: append_here_def bind_Some_iff dest!: append_char_rest advance_rest)

lemma note_equals_rest: "note_equals c lx = Some lx' \<Longrightarrow> rest_len lx' = rest_len lx"
  by (auto simp: note_equals_def on_token_rest)

lemmas same_rest = start_word_rest ensure_word_rest finalize_rest finalize_if_word_rest emit_token_rest
  emit_io_number_rest append_char_rest append_cstr_rest note_equals_rest on_token_rest

lemma io_number_rest: "try_emit_io_number lx = Some (b, lx') \<Longrightarrow> \<not> lexer_at_end lx \<Longrightarrow> rest_len lx' \<le> rest_len lx \<and> (b \<longrightarrow> rest_len lx' < rest_len lx)"
  by (auto simp: try_emit_io_number_def bind_Some_iff not_at_end_rest split: if_splits prod.splits dest!: same_rest advance_n_rest)

lemma io_location_rest: "try_emit_braced_io_location lx = Some (b, lx') \<Longrightarrow> \<not> lexer_at_end lx \<Longrightarrow> rest_len lx' \<le> rest_len lx \<and> (b \<longrightarrow> rest_len lx' < rest_len lx)"
  by (auto simp: try_emit_braced_io_location_def braced_location_def bind_Some_iff Let_def not_at_end_rest
      split: if_splits option.splits dest!: advance_n_rest)

lemma heredoc_io_number_rest: "heredoc_io_number lx = Some lx' \<Longrightarrow> rest_len lx' \<le> rest_len lx"
  by (auto simp: heredoc_io_number_def bind_Some_iff split: if_splits prod.splits dest!: same_rest advance_n_rest_le)

lemma skip_whitespace_rest: "rest_len (lexer_skip_whitespace lx) \<le> rest_len lx"
  by (simp add: lexer_skip_whitespace_def advance_while_rest)

lemma quoted_delimiter_rest: "quoted_delimiter q out lx = Some (r, lx') \<Longrightarrow> rest_len lx' \<le> rest_len lx"
proof (induction "rest_len lx" arbitrary: lx out rule: less_induct)
  case less
  have step: "rest_len lx' \<le> rest_len lx" if "quoted_delimiter q u l = Some (r, lx')" "rest_len l < rest_len lx" for l u
    using less.hyps [OF that(2,1)] that(2) by simp
  show ?case
    using less.prems by (subst (asm) quoted_delimiter.simps)
      (auto simp: Let_def delimiter_error_def bind_Some_iff split: if_splits
        intro: step less_trans [OF advance_rest advance_rest] advance_rest
          order_trans [OF skip_whitespace_rest less_imp_le [OF advance_rest]])
qed

lemma plain_delimiter_rest: "plain_delimiter out q lx = Some (r, lx') \<Longrightarrow> rest_len lx' \<le> rest_len lx"
proof (induction "rest_len lx" arbitrary: lx out q rule: less_induct)
  case less
  have step: "rest_len lx' \<le> rest_len lx" if "plain_delimiter u b l = Some (r, lx')" "rest_len l < rest_len lx" for l u b
    using less.hyps [OF that(2,1)] that(2) by simp
  show ?case
    using less.prems by (subst (asm) plain_delimiter.simps)
      (auto simp: Let_def delimiter_error_def bind_Some_iff split: if_splits
        intro: step less_trans [OF advance_rest advance_rest] advance_rest)
qed

lemma get_delimiter_rest: "get_heredoc_delimiter lx = Some (r, lx') \<Longrightarrow> rest_len lx' \<le> rest_len lx"
  using skip_whitespace_rest [of lx]
  by (auto simp: get_heredoc_delimiter_def Let_def delimiter_error_def bind_Some_iff split: if_splits
      dest!: advance_rest quoted_delimiter_rest plain_delimiter_rest)


lemma process_heredoc_rest:
  assumes "try_process_heredoc lx = Some (r, lx')" and ne: "\<not> lexer_at_end lx"
  shows "rest_len lx' \<le> rest_len lx \<and> (r = HEREDOC_PROCESS_RESULT_SUCCESS \<longrightarrow> rest_len lx' < rest_len lx)"
proof -
  from assms(1) obtain l1 where l1: "heredoc_io_number lx = Some l1"
    unfolding try_process_heredoc_def bind_Some_iff by blast
  note r1 = heredoc_io_number_rest [OF l1]
  show ?thesis
  proof (cases "lexer_input_starts_with l1 ''<<''")
    case False
    then show ?thesis using assms(1) l1 r1 by (simp add: try_process_heredoc_def)
  next
    case True
    with assms(1) l1 obtain l2 l3 d l4 where l2: "lexer_advance_n_chars 2 l1 = Some l2"
      and l3: "(if lexer_peek l2 = CHR ''-'' then do { lx \<leftarrow> lexer_advance l2; lexer_emit_token TOKEN_DLESSDASH lx }
                   else lexer_emit_token TOKEN_DLESS l2) = Some l3"
      and l4: "get_heredoc_delimiter (lexer_skip_whitespace l3) = Some (d, l4)"
      and l5: "(case d of None \<Rightarrow> Some (HEREDOC_PROCESS_RESULT_ERROR, l4)
             | Some (delimiter, quoted) \<Rightarrow> do {
                 lx \<leftarrow> lexer_start_word l4;
                 lx \<leftarrow> lexer_append_literal_cstr_to_word (cstr_of delimiter) lx;
                 lx \<leftarrow> lexer_finalize_word lx;
                 Some (HEREDOC_PROCESS_RESULT_SUCCESS, lexer_queue_heredoc delimiter (lexer_peek l2 = CHR ''-'') quoted lx) })
             = Some (r, lx')"
      unfolding try_process_heredoc_def Let_def by (auto simp only: bind_Some_iff option.inject if_not_P
          simp_thms prod.case split_paired_Ex)
    have "rest_len l3 \<le> rest_len l2"
      using l3 by (auto simp: bind_Some_iff split: if_splits dest!: same_rest advance_rest)
    moreover have "rest_len l4 \<le> rest_len l3"
      using get_delimiter_rest [OF l4] skip_whitespace_rest [of l3] by linarith
    moreover have "rest_len lx' = rest_len l4"
      using l5 by (auto simp: bind_Some_iff split: option.splits dest!: same_rest)
    moreover have "rest_len l2 < rest_len lx"
      using advance_n_rest [OF l2] r1 ne unfolding not_at_end_rest by linarith
    ultimately show ?thesis by linarith
  qed
qed

lemma normal_newline_rest: "normal_newline lx = Some (Go lx') \<Longrightarrow> rest_len lx' < rest_len lx"
  by (auto simp: normal_newline_def go_def bind_Some_iff split: if_splits dest!: same_rest advance_rest)

lemma normal_dollar_rest: "normal_dollar lx = Some (Go lx') \<Longrightarrow> rest_len lx' < rest_len lx"
  by (auto simp: normal_dollar_def go_def switch_mode_def Let_def bind_Some_iff split: if_splits
      dest!: same_rest append_here_rest)

lemma normal_char_rest:
  assumes "normal_char (lexer_peek lx) lx = Some (Go lx')" "\<not> lexer_at_end lx"
  shows "rest_len lx' < rest_len lx"
  using assms advance_while_less [of lx "\<lambda>c. c \<noteq> NEWLINE"]
  by (auto simp: normal_char_def go_def switch_mode_def bind_Some_iff split: if_splits
      dest!: same_rest append_here_rest advance_rest normal_dollar_rest)

lemma normal_char_at_end: "lexer_at_end lx \<Longrightarrow> normal_char (lexer_peek lx) lx \<noteq> Some (Go lx')"
  by (simp add: normal_char_def lexer_at_end_def lexer_peek_def lexer_peek_ahead_def is_word_char_def)

lemma process_heredoc_same:
  "try_process_heredoc lx = Some (HEREDOC_PROCESS_RESULT_NOT_HEREDOC, lx') \<Longrightarrow> heredoc_io_number lx = Some lx'"
  by (auto simp: try_process_heredoc_def bind_Some_iff Let_def split: if_splits option.splits)

lemma try_process_heredoc_keeps:
  "heredoc_io_number lx = Some lx \<Longrightarrow> try_process_heredoc lx = Some (HEREDOC_PROCESS_RESULT_NOT_HEREDOC, lx') \<Longrightarrow> lx' = lx"
  using process_heredoc_same by force

lemma scan_integer_nonneg: "0 \<le> v \<Longrightarrow> 0 \<le> fst (scan_integer cs v n)"
proof (induction cs v n rule: scan_integer.induct)
  case (2 c cs v n)
  have "0 \<le> v * 10 + (of_char c - 48)" if "c_isdigit c"
    using that 2(2) by (auto simp: c_isdigit_def Let_def of_char_int)
  with 2 show ?case by (auto simp: Let_def)
qed simp

lemma scan_integer_count: "n \<le> snd (scan_integer cs v n)"
  by (induction cs v n rule: scan_integer.induct) (auto simp: Let_def)

lemma scan_integer_digit: "c_isdigit c \<Longrightarrow> n < snd (scan_integer (c # cs) 0 n)"
  using scan_integer_count [of "Suc n"]
  by (auto simp: Let_def c_isdigit_def of_char_int Suc_le_eq)

lemma peek_integer_ok:
  assumes "lexer_input_starts_with_integer lx" "lexer_peek_integer lx = (v, n)"
  shows "0 \<le> v \<and> 0 < n"
proof -
  from assms(1) obtain c cs where "drop (lx_pos lx) (lx_input lx) = c # cs" "c_isdigit c"
    unfolding lexer_input_starts_with_integer_def by (metis Cons_nth_drop_Suc)
  with assms(2) scan_integer_digit [of c 0 cs] scan_integer_nonneg [of 0 "c # cs" 0] show ?thesis
    by (simp add: lexer_peek_integer_def)
qed

text \<open>The attempt at a number in \<open>try_process_heredoc\<close> comes after one that took every such number.\<close>

lemma no_second_io_number:
  assumes "try_emit_io_number lx = Some (False, lx1)"
  shows "lx1 = lx \<and> heredoc_io_number lx = Some lx"
  using assms peek_integer_ok [of lx]
  by (force simp: try_emit_io_number_def heredoc_io_number_def bind_Some_iff last_token_in_def
      previous_token_allows_io_number_def heredoc_previous_token_allows_io_number_def
      split: if_splits prod.splits)

lemma no_io_location: "try_emit_braced_io_location lx = Some (False, lx1) \<Longrightarrow> lx1 = lx"
  by (auto simp: try_emit_braced_io_location_def bind_Some_iff split: option.splits)

lemma normal_operator_rest:
  assumes "normal_operator (lexer_peek lx) lx = Some (Go lx')" "\<not> lexer_at_end lx"
  shows "rest_len lx' < rest_len lx"
  using assms by (auto simp: normal_operator_def bind_Some_iff split: option.splits intro: normal_char_rest)

lemma normal_redirection_rest:
  assumes run: "normal_redirection (lexer_peek lx) lx = Some (Go lx')" and ne: "\<not> lexer_at_end lx"
  shows "rest_len lx' < rest_len lx"
proof -
  from run obtain b l1 where l1: "try_emit_io_number lx = Some (b, l1)"
    by (auto simp: normal_redirection_def bind_Some_iff)
  show ?thesis
  proof (cases b)
    case True
    then show ?thesis using run l1 io_number_rest [OF l1 ne] by (simp add: normal_redirection_def go_def)
  next
    case b: False
    with no_second_io_number l1 have same: "l1 = lx" "heredoc_io_number lx = Some lx" by simp_all
    from run l1 b same obtain d l2 where l2: "try_emit_braced_io_location lx = Some (d, l2)"
      by (auto simp: normal_redirection_def bind_Some_iff)
    show ?thesis
    proof (cases d)
      case True
      then show ?thesis using run l1 b same l2 io_location_rest [OF l2 ne] by (simp add: normal_redirection_def go_def)
    next
      case d: False
      with no_io_location l2 have "l2 = lx" by simp
      with run l1 b d same l2 obtain r l3 where l3: "try_process_heredoc lx = Some (r, l3)"
        by (auto simp: normal_redirection_def bind_Some_iff)
      have l3_same: "l3 = lx" if "r = HEREDOC_PROCESS_RESULT_NOT_HEREDOC"
        using try_process_heredoc_keeps [OF same(2)] l3 that by simp
      with run l1 b d same l2 l3 \<open>l2 = lx\<close> process_heredoc_rest [OF l3 ne] normal_operator_rest [of lx lx'] ne show ?thesis
        by (cases r) (auto simp: normal_redirection_def go_def)
    qed
  qed
qed

lemma normal_pass_rest:
  assumes run: "normal_pass lx = Some (Go lx')" and ne: "\<not> lexer_at_end lx"
  shows "rest_len lx' < rest_len lx"
proof -
  let ?c = "lexer_peek lx"
  consider "?c = BACKSLASH \<and> lexer_peek_ahead lx 1 = NEWLINE" | "?c = CHR '' '' \<or> ?c = TAB" | "?c = NEWLINE"
    | (other) "\<not> (?c = BACKSLASH \<and> lexer_peek_ahead lx 1 = NEWLINE)" "\<not> (?c = CHR '' '' \<or> ?c = TAB)" "?c \<noteq> NEWLINE"
    by blast
  then show ?thesis
  proof cases
    case 1
    with run show ?thesis
      by (auto simp: normal_pass_def go_def bind_Some_iff split: if_splits dest!: advance_rest)
  next
    case 2
    have w: "rest_len (lexer_skip_whitespace l) < rest_len lx" if "finalize_if_word lx = Some l" for l
    proof -
      have "\<not> lexer_at_end l" using ne finalize_if_word_rest [OF that] by (simp add: not_at_end_rest)
      moreover have "lexer_peek l = ?c"
        using that by (auto simp: finalize_if_word_def lexer_finalize_word_def bind_Some_iff Let_def lexer_peek_def
            lexer_peek_ahead_def split: if_splits)
      ultimately show ?thesis
        using advance_while_less [of l "\<lambda>c. c = CHR '' '' \<or> c = TAB"] 2 finalize_if_word_rest [OF that]
        by (simp add: lexer_skip_whitespace_def)
    qed
    from 2 run show ?thesis
      by (auto simp: normal_pass_def go_def bind_Some_iff intro: w)
  next
    case 3
    with run show ?thesis by (auto simp: normal_pass_def intro: normal_newline_rest)
  next
    case other
    from other run have "normal_redirection ?c lx = Some (Go lx')"
      by (auto simp: normal_pass_def split: if_splits)
    then show ?thesis using ne by (rule normal_redirection_rest)
  qed
qed

function normal_loop :: "lexer \<Rightarrow> lex_result" where
  "normal_loop lx =
     (if lexer_at_end lx then normal_end lx
      else do { p \<leftarrow> normal_pass lx;
                (case p of Go lx \<Rightarrow> normal_loop lx | Stop status lx \<Rightarrow> Some (status, lx)) })"
  by pat_completeness auto
termination by (relation "measure rest_len") (auto dest: normal_pass_rest)

declare normal_loop.simps [simp del]

definition lexer_process_one_normal_token :: "lexer \<Rightarrow> lex_result" where
  "lexer_process_one_normal_token = normal_loop"

subsection \<open>The driver\<close>

definition process_mode :: "lexer \<Rightarrow> lex_result" where
  \<comment> \<open>the \<open>switch\<close> on the current mode\<close>
  "process_mode lx =
     (case lexer_current_mode lx of
        LEX_NORMAL \<Rightarrow> lexer_process_one_normal_token lx
      | LEX_SINGLE_QUOTE \<Rightarrow> lexer_process_squote lx
      | LEX_DOUBLE_QUOTE \<Rightarrow> lexer_process_dquote lx
      | LEX_PARAM_EXP_BRACED \<Rightarrow> lexer_process_param_exp_braced lx
      | LEX_PARAM_EXP_UNBRACED \<Rightarrow> lexer_process_param_exp_unbraced lx
      | LEX_CMD_SUBST_PAREN \<Rightarrow> lexer_process_cmd_subst_paren lx
      | LEX_CMD_SUBST_BACKTICK \<Rightarrow> lexer_process_cmd_subst_backtick lx
      | LEX_ARITH_EXP \<Rightarrow> lexer_process_arith_exp lx
      | LEX_HEREDOC_BODY \<Rightarrow> lexer_process_heredoc_body lx)"

definition loop_returns :: "nat \<Rightarrow> lex_status \<Rightarrow> lexer \<Rightarrow> lex_status option" where
  \<comment> \<open>what the loop returns after a mode; \<open>None\<close> is \<open>continue\<close>\<close>
  "loop_returns initial_token_count status lx =
     (let grown = length (lx_tokens lx) > initial_token_count in
      if status = LEX_ERROR \<or> status = LEX_INTERNAL_ERROR then Some status
      else if status = LEX_OK then
        if grown then Some LEX_OK
        else if lexer_current_mode lx \<noteq> LEX_NORMAL then None
        else if lx_in_word lx then None
        else Some LEX_OK
      else if status = LEX_INCOMPLETE then
        if grown then Some LEX_OK else if lexer_at_end lx then Some LEX_INCOMPLETE else None
      else None)"

partial_function (option) process_loop :: "nat \<Rightarrow> lexer \<Rightarrow> lex_result option" where
  "process_loop n lx =
     (case process_mode lx of
        None \<Rightarrow> Some None
      | Some (status, lx) \<Rightarrow>
          (case loop_returns n status lx of
             Some result \<Rightarrow> Some (Some (result, lx))
           | None \<Rightarrow> process_loop n lx))"

definition lexer_process_one_token :: "lexer \<Rightarrow> lex_result option" where
  "lexer_process_one_token lx = process_loop (length (lx_tokens lx)) lx"

function pop_tokens :: "token list \<Rightarrow> lexer \<Rightarrow> bool \<times> token list \<times> lexer" where
  \<comment> \<open>the inner loop of \<open>lexer_tokenize\<close>, with whether it met the end of the input\<close>
  "pop_tokens out lx =
     (case lexer_pop_first_token lx of
        (None, lx) \<Rightarrow> (False, out, lx)
      | (Some tok, lx) \<Rightarrow> if tok_type tok = TOKEN_EOF then (True, out, lx) else pop_tokens (out @ [tok]) lx)"
  by pat_completeness auto
termination
  by (relation "measure (\<lambda>(out, lx). length (lx_tokens lx))") (auto simp: lexer_pop_first_token_def split: list.splits)

declare pop_tokens.simps [simp del]

partial_function (option) tokenize_loop ::
  "token list \<Rightarrow> lexer \<Rightarrow> (lex_status \<times> token list \<times> lexer) option option" where
  "tokenize_loop out lx =
     (case lexer_process_one_token lx of
        None \<Rightarrow> None
      | Some None \<Rightarrow> Some None
      | Some (Some (status, lx)) \<Rightarrow>
          if status \<noteq> LEX_OK then Some (Some (status, out, lx))
          else (case pop_tokens out lx of (eof, out, lx) \<Rightarrow>
                  if eof then Some (Some (LEX_OK, out, lx)) else tokenize_loop out lx))"

declare process_loop.simps [code] tokenize_loop.simps [code]

definition lexer_tokenize :: "lexer \<Rightarrow> (lex_status \<times> token list \<times> lexer) option option" where
  "lexer_tokenize = tokenize_loop []"

definition lexer_create_with_input_cstr :: "string \<Rightarrow> lexer" where
  "lexer_create_with_input_cstr input = lexer_append_input lexer_create input"

definition lex_cstr_to_tokens :: "string \<Rightarrow> (lex_status \<times> token list) option option" where
  "lex_cstr_to_tokens input =
     map_option (map_option (\<lambda>(status, out, lx). (status, out))) (lexer_tokenize (lexer_create_with_input_cstr input))"

end
