(* ===== verification/Lexer_Progress.thy ===== *)
theory Lexer_Progress
  imports Lexer_Normal
begin

section \<open>Every mode of the lexer consumes input, asks for more, or fails\<close>

text \<open>
  \<open>progress\<close> is what a mode inside a word keeps and gives, \<open>advances\<close> what any mode does.
  The loops of the driver are partial functions; with these facts their runs are bounded by
  the characters left, except at a dollar or a backslash that ends the input
  (\<open>dangling\<close>).  The invariant \<open>heredoc_ok\<close> says that the mode of here-document bodies is
  alone on the stack and has an entry to read.
\<close>

subsection \<open>Modes inside a word\<close>

definition frame :: "lexer \<Rightarrow> lexer \<Rightarrow> bool" where
  "frame lx lx' \<longleftrightarrow> lx_input lx' = lx_input lx \<and> lx_pos lx \<le> lx_pos lx' \<and> lx_tokens lx' = lx_tokens lx \<and>
     lx_heredoc_queue lx' = lx_heredoc_queue lx \<and> lx_heredoc_index lx' = lx_heredoc_index lx \<and>
     set (lx_mode_stack lx') \<inter> {LEX_HEREDOC_BODY, LEX_NORMAL} \<subseteq> set (lx_mode_stack lx)"

definition dangling :: "lexer \<Rightarrow> bool" where
  "dangling lx \<longleftrightarrow> \<not> lexer_at_end lx \<and> lexer_peek lx \<in> {CHR ''$'', BACKSLASH} \<and> lexer_peek_ahead lx 1 = NUL"

definition progress :: "lexer \<Rightarrow> lex_status \<Rightarrow> lexer \<Rightarrow> bool" where
  "progress lx st lx' \<longleftrightarrow> frame lx lx' \<and> st \<in> {LEX_OK, LEX_INCOMPLETE, LEX_ERROR} \<and>
     (st = LEX_OK \<longrightarrow> rest_len lx' < rest_len lx) \<and>
     (st = LEX_INCOMPLETE \<longrightarrow> rest_len lx' < rest_len lx \<or> lexer_at_end lx' \<or> dangling lx')"

lemma frame_refl [simp]: "frame lx lx"
  by (simp add: frame_def)

lemma frame_trans [trans]: "frame a b \<Longrightarrow> frame b c \<Longrightarrow> frame a c"
  by (auto simp: frame_def)

lemma frame_rest: "frame a b \<Longrightarrow> rest_len b \<le> rest_len a"
  by (auto simp: frame_def rest_len_def)

lemma progress_after: "frame a b \<Longrightarrow> progress b st c \<Longrightarrow> progress a st c"
  using frame_rest [of a b] by (auto simp: progress_def intro: frame_trans)

lemma advance_frame: "lexer_advance lx = Some lx' \<Longrightarrow> frame lx lx' \<and> rest_len lx' < rest_len lx"
  by (auto simp: lexer_advance_def frame_def rest_len_def split: if_splits)

lemma on_token_frame: "on_token f lx = Some lx' \<Longrightarrow> frame lx lx'"
  by (auto simp: on_token_def frame_def bind_Some_iff)

lemma ensure_word_frame: "ensure_word lx = Some lx' \<Longrightarrow> frame lx lx'"
  by (auto simp: ensure_word_def lexer_start_word_def frame_def split: if_splits)

lemma frame_pop [simp]: "frame lx (lexer_pop_mode lx)"
  by (cases "lx_mode_stack lx") (auto simp: frame_def lexer_pop_mode_def)

lemma frame_push: "m \<notin> {LEX_HEREDOC_BODY, LEX_NORMAL} \<Longrightarrow> frame lx (lexer_push_mode m lx)"
  by (simp add: frame_def lexer_push_mode_def)

lemma frame_error [simp]: "frame lx (lexer_set_error m lx)"
  by (simp add: frame_def lexer_set_error_def)

lemma frame_extra [simp]: "frame lx (extra_newline lx)"
  by (simp add: frame_def extra_newline_def)

lemma frame_buffer [simp]: "frame lx (set_buffer s lx)"
  by (simp add: frame_def set_buffer_def)

lemma frame_advance_while: "frame lx (advance_while P lx)"
proof (induction P lx rule: advance_while.induct)
  case (1 P lx)
  show ?case
  proof (cases "lexer_advance lx")
    case (Some l)
    show ?thesis
      using 1 [OF _ Some] advance_frame [OF Some] Some frame_trans by (subst advance_while.simps) auto
  qed (subst advance_while.simps, simp)
qed

lemma advance_times_frame: "advance_times n lx = Some lx' \<Longrightarrow> frame lx lx' \<and> rest_len lx' \<le> rest_len lx - n"
  using advance_times_rest by (induction n arbitrary: lx) (fastforce dest: advance_frame intro: frame_trans simp: bind_Some_iff)+

definition forward :: "lexer \<Rightarrow> lexer \<Rightarrow> bool" where
  "forward a b \<longleftrightarrow> frame a b \<and> rest_len b < rest_len a"

named_theorems forward_elims
named_theorems forward_intros

lemma frame_advance [forward_elims]: "lexer_advance b = Some c \<Longrightarrow> frame a b \<Longrightarrow> frame a c"
  using advance_frame frame_trans by blast

lemma forward_advance [forward_elims]: "lexer_advance b = Some c \<Longrightarrow> frame a b \<Longrightarrow> forward a c"
  using advance_frame [of b c] frame_rest [of a b] frame_trans [of a b c] by (auto simp: forward_def)

lemma forward_frame: "frame b c \<Longrightarrow> forward a b \<Longrightarrow> forward a c"
  using frame_trans [of a b c] frame_rest [of b c] by (auto simp: forward_def)

lemma frame_on_token [forward_elims]: "on_token f b = Some c \<Longrightarrow> frame a b \<Longrightarrow> frame a c"
  using on_token_frame frame_trans by blast

lemma forward_on_token [forward_elims]: "on_token f b = Some c \<Longrightarrow> forward a b \<Longrightarrow> forward a c"
  using on_token_frame forward_frame by blast

lemma frame_ensure [forward_elims]: "ensure_word b = Some c \<Longrightarrow> frame a b \<Longrightarrow> frame a c"
  using ensure_word_frame frame_trans by blast

lemma frame_extended [forward_intros]:
  "frame a b \<Longrightarrow> frame a (extra_newline b)" "frame a b \<Longrightarrow> frame a (set_buffer s b)"
  "frame a b \<Longrightarrow> frame a (lexer_pop_mode b)" "frame a b \<Longrightarrow> frame a (lexer_set_error m b)"
  "frame a b \<Longrightarrow> frame a (advance_while P b)"
  using frame_trans [OF _ frame_extra] frame_trans [OF _ frame_buffer] frame_trans [OF _ frame_pop]
    frame_trans [OF _ frame_error] frame_trans [OF _ frame_advance_while] by blast+

lemma forward_extended [forward_intros]:
  "forward a b \<Longrightarrow> forward a (extra_newline b)" "forward a b \<Longrightarrow> forward a (set_buffer s b)"
  "forward a b \<Longrightarrow> forward a (lexer_pop_mode b)" "forward a b \<Longrightarrow> forward a (advance_while P b)"
  using forward_frame [OF frame_extra] forward_frame [OF frame_buffer] forward_frame [OF frame_pop]
    forward_frame [OF frame_advance_while] by blast+

lemma forward_imp_frame: "forward a b \<Longrightarrow> frame a b"
  by (simp add: forward_def)

declare frame_refl [forward_intros]

lemma skip_quoted_frame: "skip_quoted q lx = Some lx' \<Longrightarrow> frame lx lx'"
proof (induction "rest_len lx" arbitrary: q lx rule: less_induct)
  case less
  have step: "frame lx lx'" if "skip_quoted q l = Some lx'" "forward lx l" for q l
    using less.hyps [of l] that frame_trans unfolding forward_def by blast
  show ?case
    using less.prems by (subst (asm) skip_quoted.simps)
      (auto split: if_splits simp: bind_Some_iff, (erule step forward_elims | rule forward_intros)+)
qed

lemma frame_skip_quoted [forward_elims]: "skip_quoted q b = Some c \<Longrightarrow> frame a b \<Longrightarrow> frame a c"
  using skip_quoted_frame frame_trans by blast

lemma forward_skip_quoted [forward_elims]: "skip_quoted q b = Some c \<Longrightarrow> forward a b \<Longrightarrow> forward a c"
  using skip_quoted_frame forward_frame by blast

lemma progress_forward: "forward a b \<Longrightarrow> progress b st c \<Longrightarrow> progress a st c"
  by (blast intro: progress_after forward_imp_frame)

named_theorems progress_elims

lemma progress_leave [progress_elims]: "leave_mode b = Some (st, c) \<Longrightarrow> forward a b \<Longrightarrow> progress a st c"
  using forward_extended(3) [of a b] by (auto simp: leave_mode_def progress_def forward_def)

lemma progress_error [progress_elims]: "lex_error m b = Some (st, c) \<Longrightarrow> frame a b \<Longrightarrow> progress a st c"
  using frame_extended(4) [of a b] by (auto simp: lex_error_def progress_def)

lemma progress_incomplete [progress_elims]:
  "incomplete b = Some (st, c) \<Longrightarrow> frame a b \<Longrightarrow> lexer_at_end b \<or> dangling b \<Longrightarrow> progress a st c"
  by (auto simp: incomplete_def progress_def forward_def)

lemma progress_entered: "incomplete b = Some (st, c) \<Longrightarrow> forward a b \<Longrightarrow> progress a st c"
  by (auto simp: incomplete_def progress_def forward_def)

lemma at_end_extra [simp]: "lexer_at_end (extra_newline b) = lexer_at_end b" "lexer_at_end (set_buffer s b) = lexer_at_end b"
  by (auto simp: lexer_at_end_def extra_newline_def set_buffer_def)

lemma push_forward: "advance_times n (lexer_push_mode m b) = Some c \<Longrightarrow> frame a b \<Longrightarrow> m \<notin> {LEX_HEREDOC_BODY, LEX_NORMAL} \<Longrightarrow>
  0 < n \<Longrightarrow> \<not> lexer_at_end b \<Longrightarrow> forward a c"
proof -
  assume "advance_times n (lexer_push_mode m b) = Some c" "frame a b" "m \<notin> {LEX_HEREDOC_BODY, LEX_NORMAL}" "0 < n" "\<not> lexer_at_end b"
  moreover have "rest_len (lexer_push_mode m b) = rest_len b" by (simp add: rest_len_def lexer_push_mode_def)
  ultimately show ?thesis
    using frame_push [of m b] frame_trans [of a b c] frame_trans [of b "lexer_push_mode m b" c] frame_rest [of a b]
    by (auto simp: forward_def not_at_end_rest dest!: advance_times_frame)
qed

lemma enter_progress: "enter m n b = Some (st, c) \<Longrightarrow> frame a b \<Longrightarrow> m \<notin> {LEX_HEREDOC_BODY, LEX_NORMAL} \<Longrightarrow> 0 < n \<Longrightarrow> \<not> lexer_at_end b \<Longrightarrow> progress a st c"
  by (auto simp: enter_def bind_Some_iff dest: push_forward progress_entered)

lemma enter_modes [progress_elims]:
  "enter LEX_CMD_SUBST_BACKTICK (Suc 0) b = Some (st, c) \<Longrightarrow> frame a b \<Longrightarrow> \<not> lexer_at_end b \<Longrightarrow> progress a st c"
  "enter LEX_PARAM_EXP_BRACED 2 b = Some (st, c) \<Longrightarrow> frame a b \<Longrightarrow> \<not> lexer_at_end b \<Longrightarrow> progress a st c"
  "enter LEX_ARITH_EXP 3 b = Some (st, c) \<Longrightarrow> frame a b \<Longrightarrow> \<not> lexer_at_end b \<Longrightarrow> progress a st c"
  "enter LEX_CMD_SUBST_PAREN 2 b = Some (st, c) \<Longrightarrow> frame a b \<Longrightarrow> \<not> lexer_at_end b \<Longrightarrow> progress a st c"
  "enter LEX_PARAM_EXP_UNBRACED (Suc 0) b = Some (st, c) \<Longrightarrow> frame a b \<Longrightarrow> \<not> lexer_at_end b \<Longrightarrow> progress a st c"
  by (erule enter_progress; simp)+


lemma squote_progress: "squote_loop lx = Some (st, lx') \<Longrightarrow> progress lx st lx'"
proof (induction "rest_len lx" arbitrary: lx rule: less_induct)
  case less
  have step: "progress lx st lx'" if "squote_loop l = Some (st, lx')" "forward lx l" for l
    using less.hyps [of l] that progress_forward unfolding forward_def by blast
  show ?case
    using less.prems by (subst (asm) squote_loop.simps)
      (auto simp: bind_Some_iff split: if_splits, ((erule step progress_elims forward_elims | rule forward_intros | (simp add: dangling_def; fail))+))
qed

lemma dquote_progress: "dquote_loop lx = Some (st, lx') \<Longrightarrow> progress lx st lx'"
proof (induction "rest_len lx" arbitrary: lx rule: less_induct)
  case less
  have step: "progress lx st lx'" if "dquote_loop l = Some (st, lx')" "forward lx l" for l
    using less.hyps [of l] that progress_forward unfolding forward_def by blast
  show ?case
    using less.prems by (subst (asm) dquote_loop.simps)
      (auto simp: bind_Some_iff Let_def dquote_char_def split: if_split_asm, ((erule step progress_elims forward_elims | rule forward_intros | (simp add: dangling_def; fail))+))
qed

lemma param_word_progress: "param_word_loop name kind hc start len depth lx = Some (st, lx') \<Longrightarrow> progress lx st lx'"
proof (induction "rest_len lx" arbitrary: lx len depth rule: less_induct)
  case less
  have step: "progress lx st lx'" if "param_word_loop name kind hc start n d l = Some (st, lx')" "forward lx l" for l n d
    using less.hyps [of l] that progress_forward unfolding forward_def by blast
  show ?case
    using less.prems by (subst (asm) param_word_loop.simps)
      (auto simp: bind_Some_iff Let_def lexer_add_param_part_def split: if_split_asm, ((erule step progress_elims forward_elims | rule forward_intros | (simp add: dangling_def; fail))+))
qed

lemma cmd_subst_progress: "cmd_subst_loop start_pos depth lx = Some (st, lx') \<Longrightarrow> progress lx st lx'"
proof (induction "rest_len lx" arbitrary: lx depth rule: less_induct)
  case less
  have step: "progress lx st lx'" if "cmd_subst_loop start_pos d l = Some (st, lx')" "forward lx l" for l d
    using less.hyps [of l] that progress_forward unfolding forward_def by blast
  show ?case
    using less.prems by (subst (asm) cmd_subst_loop.simps)
      (auto simp: bind_Some_iff Let_def add_substitution_def split: if_split_asm, ((erule step progress_elims forward_elims | rule forward_intros | (simp add: dangling_def; fail))+))
qed

lemma backtick_progress: "backtick_loop cmd lx = Some (st, lx') \<Longrightarrow> progress lx st lx'"
proof (induction "rest_len lx" arbitrary: lx cmd rule: less_induct)
  case less
  have step: "progress lx st lx'" if "backtick_loop d l = Some (st, lx')" "forward lx l" for l d
    using less.hyps [of l] that progress_forward unfolding forward_def by blast
  show ?case
    using less.prems by (subst (asm) backtick_loop.simps)
      (auto simp: bind_Some_iff Let_def add_substitution_def split: if_split_asm, ((erule step progress_elims forward_elims | rule forward_intros | (simp add: dangling_def; fail))+))
qed

lemma arith_progress: "arith_loop cmd lx = Some (st, lx') \<Longrightarrow> progress lx st lx'"
proof (induction "rest_len lx" arbitrary: lx cmd rule: less_induct)
  case less
  have step: "progress lx st lx'" if "arith_loop d l = Some (st, lx')" "forward lx l" for l d
    using less.hyps [of l] that progress_forward unfolding forward_def by blast
  show ?case
    using less.prems by (subst (asm) arith_loop.simps)
      (auto simp: bind_Some_iff Let_def add_substitution_def arith_error_def split: if_split_asm, ((erule step progress_elims forward_elims | rule forward_intros | (simp add: dangling_def; fail))+))
qed

lemma process_squote_progress: "lexer_process_squote lx = Some (st, lx') \<Longrightarrow> progress lx st lx'"
  by (auto simp: lexer_process_squote_def bind_Some_iff,
      (erule squote_progress [THEN progress_after [rotated]] forward_elims | rule forward_intros)+)

lemma process_dquote_progress: "lexer_process_dquote lx = Some (st, lx') \<Longrightarrow> progress lx st lx'"
  by (auto simp: lexer_process_dquote_def bind_Some_iff,
      (erule dquote_progress [THEN progress_after [rotated]] forward_elims | rule forward_intros)+)

lemma forward_name:
  assumes "frame a b" "\<not> lexer_at_end b" "is_name_start_char (lexer_peek b)"
  shows "forward a (advance_while is_name_char b)"
proof -
  have "rest_len (advance_while is_name_char b) < rest_len b"
    using assms(2,3) by (intro advance_while_less) (auto simp: is_name_start_char_def is_name_char_def c_isalnum_def)
  then show ?thesis
    using assms(1) frame_trans [OF assms(1) frame_advance_while [of b is_name_char]] frame_rest [of a b]
    by (simp add: forward_def)
qed

lemma process_unbraced_progress:
  assumes "lexer_process_param_exp_unbraced lx = Some (st, lx')"
  shows "progress lx st lx'"
proof -
  from assms obtain b where b: "ensure_word lx = Some b"
    by (auto simp: lexer_process_param_exp_unbraced_def bind_Some_iff)
  have fr: "frame lx b" using ensure_word_frame [OF b] .
  show ?thesis
  proof (cases "lexer_at_end b")
    case True
    with assms b fr show ?thesis by (auto simp: lexer_process_param_exp_unbraced_def intro: progress_incomplete)
  next
    case False
    show ?thesis
      by (insert assms b fr False,
        auto simp: lexer_process_param_exp_unbraced_def bind_Some_iff lexer_add_param_part_def Let_def split: if_split_asm,
        (assumption | erule progress_elims forward_elims | rule forward_name)+)
  qed
qed

lemma braced_word_progress:
  "braced_word name hc kind b = Some (st, c) \<Longrightarrow> frame a b \<Longrightarrow> progress a st c"
  by (auto simp: braced_word_def split: if_split_asm intro: progress_incomplete progress_after param_word_progress)

lemma one_or_two_progress: "one_or_two ch s l name b = Some (st, c) \<Longrightarrow> frame a b \<Longrightarrow> progress a st c"
  by (auto simp: one_or_two_def bind_Some_iff split: if_split_asm, ((erule braced_word_progress progress_elims forward_elims | rule forward_intros | (simp add: dangling_def; fail))+))

lemma braced_operator_progress: "braced_operator name hc b = Some (st, c) \<Longrightarrow> frame a b \<Longrightarrow> progress a st c"
  by (auto simp: braced_operator_def bind_Some_iff Let_def split: if_split_asm,
      ((erule braced_word_progress one_or_two_progress progress_elims forward_elims | rule forward_intros | (simp add: dangling_def; fail))+))

lemma braced_rest_progress: "braced_rest il name b = Some (st, c) \<Longrightarrow> frame a b \<Longrightarrow> progress a st c"
  by (auto simp: braced_rest_def bind_Some_iff Let_def lexer_add_param_part_def split: if_split_asm,
      ((erule braced_operator_progress progress_elims forward_elims | rule forward_intros | (simp add: dangling_def; fail))+))

lemma braced_name_progress: "braced_name il b = Some (st, c) \<Longrightarrow> frame a b \<Longrightarrow> progress a st c"
  by (auto simp: braced_name_def bind_Some_iff Let_def split: if_split_asm,
      ((erule braced_rest_progress progress_elims forward_elims | rule forward_intros | (simp add: dangling_def; fail))+))

lemma process_braced_progress: "lexer_process_param_exp_braced lx = Some (st, lx') \<Longrightarrow> progress lx st lx'"
  by (auto simp: lexer_process_param_exp_braced_def bind_Some_iff Let_def split: if_split_asm,
      ((erule braced_name_progress progress_elims forward_elims | rule forward_intros | (simp add: dangling_def; fail))+))

lemma process_cmd_subst_progress: "lexer_process_cmd_subst_paren lx = Some (st, lx') \<Longrightarrow> progress lx st lx'"
  by (auto simp: lexer_process_cmd_subst_paren_def bind_Some_iff intro: progress_after [OF ensure_word_frame cmd_subst_progress])

lemma process_backtick_progress: "lexer_process_cmd_subst_backtick lx = Some (st, lx') \<Longrightarrow> progress lx st lx'"
  by (auto simp: lexer_process_cmd_subst_backtick_def bind_Some_iff intro: progress_after [OF ensure_word_frame backtick_progress])

lemma process_arith_progress: "lexer_process_arith_exp lx = Some (st, lx') \<Longrightarrow> progress lx st lx'"
  by (auto simp: lexer_process_arith_exp_def bind_Some_iff,
      (erule arith_progress [THEN progress_after [rotated]] forward_elims | rule forward_intros)+)

lemmas word_mode_progress = process_squote_progress process_dquote_progress process_unbraced_progress
  process_braced_progress process_cmd_subst_progress process_backtick_progress process_arith_progress


subsection \<open>Here-documents\<close>

lemma frame_n_chars: "lexer_advance_n_chars n b = Some c \<Longrightarrow> frame b c"
  by (auto simp: lexer_advance_n_chars_def split: if_splits dest: advance_times_frame)

lemma check_delimiter_frame:
  "lexer_check_heredoc_delimiter d s b = Some (f, c) \<Longrightarrow> frame b c"
  unfolding lexer_check_heredoc_delimiter_def Let_def
  by (auto simp: bind_Some_iff split: if_split_asm dest: frame_n_chars)

lemma check_delimiter_found:
  "lexer_check_heredoc_delimiter d s b = Some (True, c) \<Longrightarrow> rest_len c < rest_len b"
  unfolding lexer_check_heredoc_delimiter_def Let_def lexer_advance_n_chars_def
  by (auto simp: bind_Some_iff split: if_split_asm dest!: advance_times_rest advance_rest)

definition heredoc_ok :: "lexer \<Rightarrow> bool" where
  \<comment> \<open>the mode of the body is on the stack only alone, with an entry of the queue left to read\<close>
  "heredoc_ok lx \<longleftrightarrow> LEX_NORMAL \<notin> set (lx_mode_stack lx) \<and> (LEX_HEREDOC_BODY \<in> set (lx_mode_stack lx) \<longrightarrow>
     lx_mode_stack lx = [LEX_HEREDOC_BODY] \<and> lx_heredoc_index lx < length (lx_heredoc_queue lx))"

text \<open>What a mode gives: the input stays, the position does not go back, tokens are only added, and unless
  there is an error, input was consumed, more is needed, or the end was noted.\<close>

definition advances :: "lexer \<Rightarrow> lex_status \<Rightarrow> lexer \<Rightarrow> bool" where
  "advances lx st lx' \<longleftrightarrow> lx_input lx' = lx_input lx \<and> lx_pos lx \<le> lx_pos lx' \<and>
     length (lx_tokens lx) \<le> length (lx_tokens lx') \<and> heredoc_ok lx' \<and> st \<in> {LEX_OK, LEX_INCOMPLETE, LEX_ERROR} \<and>
     (st = LEX_OK \<longrightarrow> rest_len lx' < rest_len lx \<or> length (lx_tokens lx) < length (lx_tokens lx') \<and> TOKEN_EOF \<in> tok_type ` set (lx_tokens lx')) \<and>
     (st = LEX_INCOMPLETE \<longrightarrow> rest_len lx' < rest_len lx \<or>
        (lexer_at_end lx' \<or> dangling lx') \<and> length (lx_tokens lx') = length (lx_tokens lx))"

lemma word_mode_advances:
  assumes "progress lx st lx'" "LEX_HEREDOC_BODY \<notin> set (lx_mode_stack lx)" "heredoc_ok lx"
  shows "advances lx st lx'"
  using assms by (auto simp: advances_def progress_def frame_def heredoc_ok_def)

lemma advance_stack: "lexer_advance a = Some b \<Longrightarrow> lx_mode_stack b = lx_mode_stack a"
  by (auto simp: lexer_advance_def split: if_splits)

lemma advance_times_stack: "advance_times n a = Some b \<Longrightarrow> lx_mode_stack b = lx_mode_stack a"
  by (induction n arbitrary: a) (auto simp: bind_Some_iff dest: advance_stack)

lemma advance_while_stack [simp]: "lx_mode_stack (advance_while P a) = lx_mode_stack a"
proof (induction P a rule: advance_while.induct)
  case (1 P lx)
  show ?case
    using 1 by (subst advance_while.simps) (auto split: option.split dest: advance_stack)
qed

lemma check_delimiter_stack:
  "lexer_check_heredoc_delimiter d s b = Some (f, c) \<Longrightarrow> lx_mode_stack c = lx_mode_stack b"
  unfolding lexer_check_heredoc_delimiter_def Let_def lexer_advance_n_chars_def
  by (auto simp: bind_Some_iff split: if_split_asm dest!: advance_times_stack advance_stack)

lemma on_token_stack: "on_token f a = Some b \<Longrightarrow> lx_mode_stack b = lx_mode_stack a"
  by (auto simp: on_token_def bind_Some_iff)

definition stays :: "lexer \<Rightarrow> lexer \<Rightarrow> bool" where
  "stays a b \<longleftrightarrow> frame a b \<and> lx_mode_stack b = lx_mode_stack a"

lemma stays_refl: "stays a a"
  by (simp add: stays_def)

lemma stays_trans: "stays a b \<Longrightarrow> stays b c \<Longrightarrow> stays a c"
  using frame_trans by (auto simp: stays_def)

lemma stays_advance: "lexer_advance b = Some c \<Longrightarrow> stays b c \<and> rest_len c < rest_len b"
  by (auto simp: stays_def dest: advance_stack advance_frame)

lemma stays_rest: "stays a b \<Longrightarrow> rest_len b \<le> rest_len a"
  by (simp add: stays_def frame_rest)

lemma stays_extra: "stays b (extra_newline b)"
  by (simp add: stays_def) (simp add: extra_newline_def)

lemma stays_check:
  assumes "lexer_check_heredoc_delimiter d s (strip_line_tabs s b) = Some (f, c)"
  shows "stays b c"
proof -
  have "stays b (strip_line_tabs s b)"
    by (simp add: stays_def strip_line_tabs_def frame_advance_while)
  moreover have "stays (strip_line_tabs s b) c"
    using assms check_delimiter_frame check_delimiter_stack by (simp add: stays_def)
  ultimately show ?thesis by (rule stays_trans)
qed

definition heredoc_end :: "string \<Rightarrow> bool \<Rightarrow> lexer \<Rightarrow> lex_status \<Rightarrow> lexer \<Rightarrow> bool" where
  "heredoc_end delim q lx st lx' \<longleftrightarrow>
     (\<exists>k content. stays lx k \<and> rest_len k < rest_len lx \<and> finish_heredoc delim q content k = Some (st, lx')) \<or>
     stays lx lx' \<and> lexer_at_end lx' \<and> st = LEX_INCOMPLETE"

lemma heredoc_end_later: "stays lx l \<Longrightarrow> heredoc_end delim q l st lx' \<Longrightarrow> heredoc_end delim q lx st lx'"
  using stays_trans [of lx l] stays_rest [of lx l] unfolding heredoc_end_def by (meson order.strict_trans2)

lemma heredoc_loop_end: "heredoc_loop delim s q content lx = Some (st, lx') \<Longrightarrow> heredoc_end delim q lx st lx'"
proof (induction "rest_len lx" arbitrary: lx content q rule: less_induct)
  case less
  have later: "heredoc_end delim q lx st lx'"
    if "heredoc_loop delim s q u l = Some (st, lx')" "stays lx l" "rest_len l < rest_len lx" for l u q
    using less.hyps [OF that(3,1)] that(2) heredoc_end_later by blast
  show ?case
  proof (cases "lexer_at_end lx")
    case True
    with less.prems show ?thesis
      by (subst (asm) heredoc_loop.simps)
        (auto simp: add_heredoc_content_def bind_Some_iff incomplete_def heredoc_end_def stays_def lexer_at_end_def
          dest: on_token_stack on_token_frame, auto simp: on_token_def bind_Some_iff)
  next
    case False
    with less.prems obtain f k where k: "lexer_check_heredoc_delimiter delim s (strip_line_tabs s lx) = Some (f, k)"
      by (subst (asm) heredoc_loop.simps) (auto simp: bind_Some_iff)
    note kept = stays_check [OF k]
    have stays_adv: "stays lx c" if "lexer_advance b = Some c" "stays lx b" for b c
      using stays_advance [OF that(1)] stays_trans [OF that(2)] by auto
    have less_adv: "rest_len c < rest_len lx" if "lexer_advance b = Some c" "stays lx b" for b c
      using stays_advance [OF that(1)] stays_rest [OF that(2)] by auto
    have next_extra: "stays lx (extra_newline b)" if "stays lx b" for b
      using stays_trans [OF that stays_extra] .
    show ?thesis
    proof (cases f)
      case True
      with less.prems False k have "finish_heredoc delim q content k = Some (st, lx')"
        by (subst (asm) heredoc_loop.simps) (simp add: Let_def)
      moreover have "rest_len k < rest_len lx"
        using k True check_delimiter_found [of delim s "strip_line_tabs s lx" k] strip_line_tabs_rest [of s lx] by auto
      ultimately show ?thesis using kept by (auto simp: heredoc_end_def)
    next
      case no: False
      show ?thesis
        by (insert less.prems False k no, subst (asm) heredoc_loop.simps,
          auto simp: Let_def bind_Some_iff split: if_split_asm,
          (erule later | erule stays_adv less_adv | rule next_extra kept | simp only: rest_len_extra)+)
    qed
  qed
qed

lemma finish_heredoc_result:
  assumes "finish_heredoc delim q content k = Some (st, lx')" "lx_mode_stack k = [LEX_HEREDOC_BODY]"
  shows "st = LEX_OK \<and> lx_input lx' = lx_input k \<and> lx_pos lx' = lx_pos k \<and>
    length (lx_tokens k) < length (lx_tokens lx') \<and> heredoc_ok lx'"
  using assms
  by (cases "length (lx_heredoc_queue k) \<le> Suc (lx_heredoc_index k)")
    (auto simp: finish_heredoc_def add_heredoc_content_def on_token_def bind_Some_iff Let_def leave_mode_def
      lexer_empty_heredoc_queue_def lexer_pop_mode_def heredoc_ok_def)

lemma finish_heredoc_advances:
  assumes "finish_heredoc delim q content k = Some (st, lx')" "stays lx k" "rest_len k < rest_len lx"
    "lx_mode_stack lx = [LEX_HEREDOC_BODY]"
  shows "advances lx st lx'"
  using finish_heredoc_result [OF assms(1)] assms(2-) by (auto simp: advances_def stays_def frame_def rest_len_def)

lemma heredoc_mode_advances:
  assumes run: "lexer_process_heredoc_body lx = Some (st, lx')" and ok: "heredoc_ok lx" "LEX_HEREDOC_BODY \<in> set (lx_mode_stack lx)"
  shows "advances lx st lx'"
proof -
  from ok have stack: "lx_mode_stack lx = [LEX_HEREDOC_BODY]" and index: "lx_heredoc_index lx < length (lx_heredoc_queue lx)"
    by (auto simp: heredoc_ok_def)
  define b where "b = (if lx_current_token lx = None
                     then lx\<lparr>lx_current_token := Some (token_create_word\<lparr>tok_heredoc_content := Some []\<rparr>)\<rparr> else lx)"
  have b: "stays lx b" by (simp add: b_def stays_def frame_def)
  from run index have "heredoc_end (hd_delimiter (lx_heredoc_queue lx ! lx_heredoc_index lx))
      (hd_delimiter_quoted (lx_heredoc_queue lx ! lx_heredoc_index lx)) b st lx'"
    by (auto simp: lexer_process_heredoc_body_def b_def Let_def intro: heredoc_loop_end)
  with b heredoc_end_later have "heredoc_end (hd_delimiter (lx_heredoc_queue lx ! lx_heredoc_index lx))
      (hd_delimiter_quoted (lx_heredoc_queue lx ! lx_heredoc_index lx)) lx st lx'" by blast
  then show ?thesis
    using stack ok(1) by (auto simp: heredoc_end_def intro: finish_heredoc_advances)
      (auto simp: advances_def stays_def frame_def heredoc_ok_def)
qed


subsection \<open>The normal mode\<close>

definition moves :: "lexer \<Rightarrow> lexer \<Rightarrow> bool" where
  "moves a b \<longleftrightarrow> lx_input b = lx_input a \<and> lx_pos a \<le> lx_pos b \<and> length (lx_tokens a) \<le> length (lx_tokens b) \<and>
     lx_mode_stack b = lx_mode_stack a"

lemma moves_refl: "moves a a"
  by (simp add: moves_def)

lemma moves_trans: "moves a b \<Longrightarrow> moves b c \<Longrightarrow> moves a c"
  by (auto simp: moves_def)

lemma moves_rest: "moves a b \<Longrightarrow> rest_len b \<le> rest_len a"
  by (auto simp: moves_def rest_len_def)

lemma stays_moves: "stays a b \<Longrightarrow> moves a b"
  by (simp add: stays_def moves_def frame_def)

named_theorems moves_elims

lemma moves_advance [moves_elims]: "lexer_advance b = Some c \<Longrightarrow> moves a b \<Longrightarrow> moves a c"
  using stays_advance stays_moves moves_trans by blast

lemma moves_on_token [moves_elims]: "on_token f b = Some c \<Longrightarrow> moves a b \<Longrightarrow> moves a c"
  by (auto simp: on_token_def moves_def bind_Some_iff)

lemma moves_start_word [moves_elims]: "lexer_start_word b = Some c \<Longrightarrow> moves a b \<Longrightarrow> moves a c"
  by (auto simp: lexer_start_word_def moves_def split: if_splits)

lemma moves_ensure_word [moves_elims]: "ensure_word b = Some c \<Longrightarrow> moves a b \<Longrightarrow> moves a c"
  by (auto simp: ensure_word_def split: if_splits intro: moves_start_word)

lemma moves_append_char [moves_elims]: "lexer_append_literal_char_to_word ch b = Some c \<Longrightarrow> moves a b \<Longrightarrow> moves a c"
  unfolding lexer_append_literal_char_to_word_def by (rule moves_on_token)

lemma moves_append_cstr [moves_elims]: "lexer_append_literal_cstr_to_word str b = Some c \<Longrightarrow> moves a b \<Longrightarrow> moves a c"
  unfolding lexer_append_literal_cstr_to_word_def by (rule moves_on_token)

lemma moves_note_equals [moves_elims]: "note_equals ch b = Some c \<Longrightarrow> moves a b \<Longrightarrow> moves a c"
  unfolding note_equals_def by (rule moves_on_token)

lemma moves_append_here [moves_elims]: "append_here b = Some c \<Longrightarrow> moves a b \<Longrightarrow> moves a c"
  by (auto simp: append_here_def bind_Some_iff intro: moves_append_char moves_advance)

lemma moves_finalize [moves_elims]: "lexer_finalize_word b = Some c \<Longrightarrow> moves a b \<Longrightarrow> moves a c"
  by (auto simp: lexer_finalize_word_def moves_def bind_Some_iff Let_def)

lemma moves_finalize_if [moves_elims]: "finalize_if_word b = Some c \<Longrightarrow> moves a b \<Longrightarrow> moves a c"
  by (auto simp: finalize_if_word_def split: if_splits intro: moves_finalize)

lemma moves_emit [moves_elims]: "lexer_emit_token ty b = Some c \<Longrightarrow> moves a b \<Longrightarrow> moves a c"
  by (auto simp: lexer_emit_token_def moves_def split: if_splits)

lemma moves_emit_number [moves_elims]: "lexer_emit_io_number_token n b = Some c \<Longrightarrow> moves a b \<Longrightarrow> moves a c"
  by (auto simp: lexer_emit_io_number_token_def moves_def split: if_splits)

lemma moves_advance_times [moves_elims]: "advance_times n b = Some c \<Longrightarrow> moves a b \<Longrightarrow> moves a c"
  by (induction n arbitrary: b) (auto simp: bind_Some_iff intro: moves_advance)

lemma moves_n_chars [moves_elims]: "lexer_advance_n_chars n b = Some c \<Longrightarrow> moves a b \<Longrightarrow> moves a c"
  by (auto simp: lexer_advance_n_chars_def split: if_splits intro: moves_advance_times)

lemma moves_plain [simp]:
  "moves a (lexer_emit_io_location_token loc b) = (lx_input b = lx_input a \<and> lx_pos a \<le> lx_pos b \<and>
     length (lx_tokens a) \<le> Suc (length (lx_tokens b)) \<and> lx_mode_stack b = lx_mode_stack a)"
  "moves a (lexer_set_error m b) = moves a b" "moves a (lexer_queue_heredoc d s q b) = moves a b"
  by (auto simp: moves_def lexer_emit_io_location_token_def lexer_set_error_def lexer_queue_heredoc_def)

lemma moves_advance_while: "moves a b \<Longrightarrow> moves a (advance_while P b)"
  using moves_trans [of a b "advance_while P b"] stays_moves [of b "advance_while P b"]
  by (simp add: stays_def frame_advance_while)

lemma moves_skip: "moves a b \<Longrightarrow> moves a (lexer_skip_whitespace b)"
  by (simp add: lexer_skip_whitespace_def moves_advance_while)

lemma moves_quoted_delimiter: "quoted_delimiter q out b = Some (r, c) \<Longrightarrow> moves b c"
proof (induction "rest_len b" arbitrary: b out q rule: less_induct)
  case less
  have step: "moves b c" if "quoted_delimiter q u l = Some (r, c)" "moves b l" "rest_len l < rest_len b" for l u q
    using less.hyps [OF that(3,1)] that(2) moves_trans by blast
  have less1: "rest_len c < rest_len a" if "lexer_advance b = Some c" "moves a b" for a b c
    using advance_rest [OF that(1)] moves_rest [OF that(2)] by simp
  show ?case
    by (insert less.prems, subst (asm) quoted_delimiter.simps,
      auto simp: Let_def delimiter_error_def bind_Some_iff moves_refl split: if_split_asm,
      (erule step | erule less1 moves_elims | rule moves_skip moves_refl)+)
qed

lemma moves_plain_delimiter: "plain_delimiter out q b = Some (r, c) \<Longrightarrow> moves b c"
proof (induction "rest_len b" arbitrary: b out q rule: less_induct)
  case less
  have step: "moves b c" if "plain_delimiter u q l = Some (r, c)" "moves b l" "rest_len l < rest_len b" for l u q
    using less.hyps [OF that(3,1)] that(2) moves_trans by blast
  have less1: "rest_len c < rest_len a" if "lexer_advance b = Some c" "moves a b" for a b c
    using advance_rest [OF that(1)] moves_rest [OF that(2)] by simp
  show ?case
    by (insert less.prems, subst (asm) plain_delimiter.simps,
      auto simp: Let_def delimiter_error_def bind_Some_iff moves_refl split: if_split_asm,
      (erule step | erule less1 moves_elims | rule moves_refl)+)
qed

lemma moves_get_delimiter [moves_elims]:
  assumes "get_heredoc_delimiter b = Some (r, c)" "moves a b"
  shows "moves a c"
proof -
  have "moves b c"
    using assms(1) moves_skip [OF moves_refl, of b]
    by (auto simp: get_heredoc_delimiter_def Let_def delimiter_error_def bind_Some_iff split: if_split_asm
        intro: moves_trans [OF _ moves_plain_delimiter] moves_trans [OF moves_advance moves_quoted_delimiter])
  with assms(2) show ?thesis by (rule moves_trans)
qed


lemma moves_heredoc_number [moves_elims]: "heredoc_io_number b = Some c \<Longrightarrow> moves a b \<Longrightarrow> moves a c"
  by (auto simp: heredoc_io_number_def bind_Some_iff split: if_splits prod.splits,
    (erule moves_elims | assumption)+)

lemma moves_io_number: "try_emit_io_number b = Some (r, c) \<Longrightarrow> moves b c"
  by (auto simp: try_emit_io_number_def bind_Some_iff moves_refl split: if_splits prod.splits,
    (erule moves_elims | rule moves_refl)+)

lemma moves_io_location: "try_emit_braced_io_location b = Some (r, c) \<Longrightarrow> moves b c"
  by (auto simp: try_emit_braced_io_location_def bind_Some_iff moves_refl split: option.splits
    elim!: moves_n_chars)

lemma moves_heredoc:
  assumes "try_process_heredoc lx = Some (r, lx')"
  shows "moves lx lx'"
proof -
  from assms(1) obtain l1 where l1: "heredoc_io_number lx = Some l1"
    unfolding try_process_heredoc_def bind_Some_iff by blast
  note r1 = moves_heredoc_number [OF l1 moves_refl]
  show ?thesis
  proof (cases "lexer_input_starts_with l1 ''<<''")
    case False
    then show ?thesis using assms(1) l1 r1 by (simp add: try_process_heredoc_def)
  next
    case True
    with assms(1) l1 obtain l2 l3 d l4 where l2: "lexer_advance_n_chars 2 l1 = Some l2"
      and l3: "(if lexer_peek l2 = CHR ''-'' then do { lx \<leftarrow> lexer_advance l2; lexer_emit_token TOKEN_DLESSDASH lx }
                   else lexer_emit_token TOKEN_DLESS l2) = Some l3"
      and l4: "get_heredoc_delimiter (lexer_skip_whitespace l3) = Some (d, l4)"
      and l5: "(case d of None \<Rightarrow> Some (HEREDOC_PROCESS_RESULT_ERROR, l4)
             | Some (delimiter, quoted) \<Rightarrow> do {
                 lx \<leftarrow> lexer_start_word l4;
                 lx \<leftarrow> lexer_append_literal_cstr_to_word (cstr_of delimiter) lx;
                 lx \<leftarrow> lexer_finalize_word lx;
                 Some (HEREDOC_PROCESS_RESULT_SUCCESS, lexer_queue_heredoc delimiter (lexer_peek l2 = CHR ''-'') quoted lx) })
             = Some (r, lx')"
      unfolding try_process_heredoc_def Let_def by (auto simp only: bind_Some_iff option.inject if_not_P
          simp_thms prod.case split_paired_Ex)
    have m2: "moves lx l2" using moves_n_chars [OF l2 r1] .
    have m3: "moves lx l3"
      by (insert l3, auto simp: bind_Some_iff split: if_splits, (erule moves_elims | rule m2)+)
    have m4: "moves lx l4" using moves_get_delimiter [OF l4 moves_skip [OF m3]] .
    show ?thesis
    proof (cases d)
      case None
      with l5 m4 show ?thesis by simp
    next
      case (Some dq)
      show ?thesis
        by (insert l5 Some, auto simp: bind_Some_iff split: prod.splits, (erule moves_elims | rule m4)+)
    qed
  qed
qed

lemma moves_pass_char:
  "normal_newline b = Some (Go c) \<Longrightarrow> moves b c"
  "normal_dollar b = Some (Go c) \<Longrightarrow> moves b c"
  by (auto simp: normal_newline_def normal_dollar_def switch_mode_def go_def bind_Some_iff Let_def split: if_split_asm,
    (erule moves_elims | rule moves_refl)+)

lemma moves_normal_char: "normal_char ch b = Some (Go c) \<Longrightarrow> moves b c"
  by (auto simp: normal_char_def switch_mode_def go_def bind_Some_iff Let_def split: if_split_asm,
    (erule moves_elims moves_pass_char | rule moves_refl moves_advance_while)+)

lemma redirection_cases:
  assumes run: "normal_redirection ch lx = Some p"
  shows "(\<exists>l. (p = Go l \<or> p = Stop LEX_ERROR l) \<and> moves lx l) \<or> normal_operator ch lx = Some p"
proof -
  from run obtain b l1 where l1: "try_emit_io_number lx = Some (b, l1)"
    by (auto simp: normal_redirection_def bind_Some_iff)
  show ?thesis
  proof (cases b)
    case True
    then show ?thesis using run l1 moves_io_number [OF l1] by (auto simp: normal_redirection_def go_def)
  next
    case b: False
    with no_second_io_number l1 have same: "l1 = lx" "heredoc_io_number lx = Some lx" by simp_all
    from run l1 b same obtain d l2 where l2: "try_emit_braced_io_location lx = Some (d, l2)"
      by (auto simp: normal_redirection_def bind_Some_iff)
    show ?thesis
    proof (cases d)
      case True
      then show ?thesis using run l1 b same l2 moves_io_location [OF l2] by (auto simp: normal_redirection_def go_def)
    next
      case d: False
      with no_io_location l2 have "l2 = lx" by simp
      with run l1 b d same l2 obtain r l3 where l3: "try_process_heredoc lx = Some (r, l3)"
        by (auto simp: normal_redirection_def bind_Some_iff)
      show ?thesis
      proof (cases r)
        case HEREDOC_PROCESS_RESULT_NOT_HEREDOC
        with l3 try_process_heredoc_keeps [OF same(2)] have "l3 = lx" by simp
        with HEREDOC_PROCESS_RESULT_NOT_HEREDOC run l1 b d same l2 l3 \<open>l2 = lx\<close> show ?thesis
          by (simp add: normal_redirection_def)
      qed (use run l1 b d same l2 l3 \<open>l2 = lx\<close> moves_heredoc [OF l3] in \<open>auto simp: normal_redirection_def go_def\<close>)
    qed
  qed
qed

lemma moves_operator: "normal_operator ch b = Some (Go c) \<Longrightarrow> moves b c"
  by (auto simp: normal_operator_def bind_Some_iff split: option.splits intro: moves_normal_char)

lemma moves_redirection: "normal_redirection ch b = Some (Go c) \<Longrightarrow> moves b c"
  by (auto dest!: redirection_cases intro: moves_operator)

lemma moves_pass: "normal_pass b = Some (Go c) \<Longrightarrow> moves b c"
  by (auto simp: normal_pass_def go_def bind_Some_iff Let_def split: if_split_asm,
    (erule moves_elims moves_redirection moves_pass_char | rule moves_refl moves_skip)+)

text \<open>What ends the loop of the normal mode, on an empty stack.\<close>

lemma stop_moves:
  assumes "moves a b" "lx_mode_stack a = []" "st = LEX_ERROR \<or> st \<in> {LEX_OK, LEX_INCOMPLETE} \<and> rest_len b < rest_len a \<or> st = LEX_INCOMPLETE \<and> (lexer_at_end b \<or> dangling b) \<and> length (lx_tokens b) = length (lx_tokens a)"
  shows "advances a st b"
  using assms by (auto simp: moves_def advances_def heredoc_ok_def)

lemma switch_mode_stop:
  assumes "switch_mode m n b = Some (Stop st c)" "m \<notin> {LEX_HEREDOC_BODY, LEX_NORMAL}" "0 < n" "lx_mode_stack b = []" "\<not> lexer_at_end b"
  shows "advances b st c"
proof -
  from assms have adv: "advance_times n (lexer_push_mode m b) = Some c" and st: "st = LEX_INCOMPLETE"
    by (auto simp: switch_mode_def bind_Some_iff)
  have "moves (lexer_push_mode m b) c" using moves_advance_times [OF adv moves_refl] .
  moreover have "rest_len c < rest_len (lexer_push_mode m b)"
    using advance_times_rest [OF adv] assms(3,5) by (simp add: not_at_end_rest rest_len_def lexer_push_mode_def)
  ultimately show ?thesis
    using assms(2,4) st by (auto simp: moves_def advances_def heredoc_ok_def lexer_push_mode_def rest_len_def)
qed

lemma newline_stop:
  assumes "normal_newline b = Some (Stop st c)" "lx_mode_stack b = []"
  shows "advances b st c"
proof -
  from assms obtain k1 k2 k3 where k: "finalize_if_word b = Some k1" "lexer_advance k1 = Some k2"
    "lexer_emit_token TOKEN_NEWLINE k2 = Some k3" "lx_heredoc_queue k3 \<noteq> []" "st = LEX_INCOMPLETE"
    and c: "c = lexer_push_mode LEX_HEREDOC_BODY (k3\<lparr>lx_reading_heredoc := True, lx_heredoc_index := 0\<rparr>)"
    by (auto simp: normal_newline_def go_def bind_Some_iff split: if_split_asm)
  have m: "moves b k3"
    by (rule moves_emit [OF k(3)], rule moves_advance [OF k(2)], rule moves_finalize_if [OF k(1)], rule moves_refl)
  have "rest_len k3 < rest_len b"
    using k finalize_if_word_rest advance_rest emit_token_rest by metis
  with m c k(4,5) assms(2) show ?thesis
    by (auto simp: moves_def advances_def heredoc_ok_def lexer_push_mode_def rest_len_def)
qed

lemma dollar_stop:
  assumes "normal_dollar b = Some (Stop st c)" "lx_mode_stack b = []" "\<not> lexer_at_end b" "lexer_peek b = CHR ''$''"
  shows "advances b st c"
proof (cases "lexer_peek_ahead b 1 = NUL")
  case True
  with assms have "st = LEX_INCOMPLETE" "c = b" "dangling b" by (auto simp: normal_dollar_def dangling_def)
  then show ?thesis using assms(2) moves_refl by (intro stop_moves) auto
next
  case False
  with assms show ?thesis
    by (auto simp: normal_dollar_def go_def bind_Some_iff Let_def split: if_split_asm elim!: switch_mode_stop)
qed

lemma char_stop:
  assumes "normal_char (lexer_peek b) b = Some (Stop st c)" "lx_mode_stack b = []" "\<not> lexer_at_end b"
  shows "advances b st c"
proof -
  consider "lexer_peek b = BACKSLASH" "lexer_peek_ahead b 1 = NUL"
    | (d) "lexer_peek b = CHR ''$''"
    | (other) "lexer_peek b \<noteq> CHR ''$''" "lexer_peek b = BACKSLASH \<longrightarrow> lexer_peek_ahead b 1 \<noteq> NUL"
    by blast
  then show ?thesis
  proof cases
    case 1
    with assms have "st = LEX_INCOMPLETE" "c = b" "dangling b" by (auto simp: normal_char_def dangling_def)
    then show ?thesis using assms(2) moves_refl by (intro stop_moves) auto
  next
    case d
    with assms have "normal_dollar b = Some (Stop st c)" by (simp add: normal_char_def)
    then show ?thesis using assms(2,3) d by (rule dollar_stop)
  next
    case other
    show ?thesis
      by (insert assms other, auto simp: normal_char_def go_def bind_Some_iff split: if_split_asm,
        ((erule switch_mode_stop; simp) | (rule stop_moves; simp add: moves_refl))+)
  qed
qed

lemma match_operator_some: "match_operator b = Some (t, op) \<Longrightarrow> op \<noteq> []"
  unfolding match_operator_def match_operator_of_length_def
  by (auto simp: find_Some_iff split: option.splits)

lemma operator_stop:
  assumes "normal_operator (lexer_peek b) b = Some (Stop st c)" "lx_mode_stack b = []" "\<not> lexer_at_end b"
  shows "advances b st c"
proof (cases "match_operator b")
  case None
  with assms show ?thesis by (auto simp: normal_operator_def intro: char_stop)
next
  case (Some r)
  with assms obtain t op k1 k2 where r: "r = (t, op)" "finalize_if_word b = Some k1"
    "advance_times (length op) k1 = Some k2" "lexer_emit_token t k2 = Some c" "st = LEX_OK"
    by (cases r) (auto simp: normal_operator_def bind_Some_iff)
  have "moves b c"
    by (rule moves_emit [OF r(4)], rule moves_advance_times [OF r(3)], rule moves_finalize_if [OF r(2)], rule moves_refl)
  moreover have "rest_len c < rest_len b"
    using match_operator_some [of b t op] Some r assms(3) finalize_if_word_rest [OF r(2)] advance_times_rest [OF r(3)]
      emit_token_rest [OF r(4)] by (cases op) (auto simp: not_at_end_rest)
  ultimately show ?thesis using r(5) assms(2) by (intro stop_moves) auto
qed

lemma pass_stop:
  assumes "normal_pass b = Some (Stop st c)" "lx_mode_stack b = []" "\<not> lexer_at_end b"
  shows "advances b st c"
proof -
  have *: "advances b st c" if "normal_redirection (lexer_peek b) b = Some (Stop st c)"
    using redirection_cases [OF that] assms(2,3) operator_stop stop_moves by auto
  have "advances b LEX_INCOMPLETE c" if "lexer_advance b = Some k" "lexer_advance k = Some c" "lexer_at_end c" for k
    using that assms(2) moves_advance [OF that(2) moves_advance [OF that(1) moves_refl]] advance_rest [OF that(1)]
      advance_rest [OF that(2)] by (intro stop_moves) auto
  with assms * show ?thesis
    by (auto simp: normal_pass_def go_def bind_Some_iff Let_def split: if_split_asm intro: newline_stop)
qed

lemma normal_end_advances:
  assumes "normal_end b = Some (st, c)" "lx_mode_stack b = []"
  shows "advances b st c"
  using assms
  by (auto simp: normal_end_def lex_error_def bind_Some_iff lexer_emit_token_def lexer_finalize_word_def Let_def
      advances_def heredoc_ok_def lexer_set_error_def here_def token_set_location_def token_create_def
      split: if_split_asm)

lemma moves_advances:
  "moves a b \<Longrightarrow> rest_len b < rest_len a \<Longrightarrow> advances b st c \<Longrightarrow> advances a st c"
  unfolding moves_def advances_def by (auto simp: rest_len_def)

lemma normal_loop_advances: "normal_loop b = Some (st, c) \<Longrightarrow> lx_mode_stack b = [] \<Longrightarrow> advances b st c"
proof (induction b rule: normal_loop.induct)
  case (1 b)
  show ?case
  proof (cases "lexer_at_end b")
    case True
    with 1(2,3) show ?thesis by (subst (asm) normal_loop.simps) (auto intro: normal_end_advances)
  next
    case False
    with 1(2) obtain p where p: "normal_pass b = Some p" "(case p of Go k \<Rightarrow> normal_loop k | Stop s k \<Rightarrow> Some (s, k)) = Some (st, c)"
      by (subst (asm) normal_loop.simps) (auto simp: bind_Some_iff)
    show ?thesis
    proof (cases p)
      case (Go k)
      with p 1(3) False moves_pass [of b k] normal_pass_rest [of b k] 1(1) [OF False p(1) Go] show ?thesis
        by (auto intro: moves_advances simp: moves_def)
    next
      case (Stop s k)
      with p 1(3) False show ?thesis by (auto intro: pass_stop)
    qed
  qed
qed


subsection \<open>The driver\<close>

lemma process_mode_advances:
  assumes "process_mode lx = Some (st, lx')" "heredoc_ok lx"
  shows "advances lx st lx'"
proof (cases "lx_mode_stack lx")
  case Nil
  with assms show ?thesis
    by (auto simp: process_mode_def lexer_current_mode_def lexer_process_one_normal_token_def intro: normal_loop_advances)
next
  case (Cons m ms)
  then have mode: "lexer_current_mode lx = m" by (simp add: lexer_current_mode_def)
  have plain: "LEX_HEREDOC_BODY \<notin> set (lx_mode_stack lx)" if "m \<noteq> LEX_HEREDOC_BODY"
    using assms(2) Cons that by (auto simp: heredoc_ok_def)
  show ?thesis
  proof (cases "m = LEX_HEREDOC_BODY")
    case True
    with assms mode Cons show ?thesis by (auto simp: process_mode_def intro: heredoc_mode_advances)
  next
    case False
    moreover have "m \<noteq> LEX_NORMAL" using assms(2) Cons by (auto simp: heredoc_ok_def)
    ultimately have "progress lx st lx'"
      using assms(1) mode by (cases m) (auto simp: process_mode_def intro: word_mode_progress)
    then show ?thesis using plain [OF False] assms(2) by (rule word_mode_advances)
  qed
qed

definition ends_well :: "string \<Rightarrow> bool" where
  \<comment> \<open>no NUL, and the last character is neither a dollar nor a backslash\<close>
  "ends_well input \<longleftrightarrow> nul_free input \<and> (input \<noteq> [] \<longrightarrow> last input \<noteq> CHR ''$'' \<and> last input \<noteq> BACKSLASH)"

lemma ends_well_not_dangling:
  assumes "ends_well (lx_input lx)"
  shows "\<not> dangling lx"
proof
  assume d: "dangling lx"
  then have pos: "lx_pos lx < length (lx_input lx)" by (simp add: dangling_def lexer_at_end_def)
  show False
  proof (cases "lx_pos lx + 1 < length (lx_input lx)")
    case True
    with d have "lx_input lx ! (lx_pos lx + 1) = NUL" by (simp add: dangling_def lexer_peek_ahead_def)
    with assms nth_mem [OF True] show False by (simp add: ends_well_def nul_free_def)
  next
    case False
    with pos have "lx_pos lx = length (lx_input lx) - 1" by simp
    then have "lexer_peek lx = last (lx_input lx)"
      using pos last_conv_nth [of "lx_input lx"] by (cases "lx_input lx") (auto simp: lexer_peek_def lexer_peek_ahead_def)
    with d assms pos show False by (auto simp: dangling_def ends_well_def)
  qed
qed

definition one_token_ok :: "lexer \<Rightarrow> lex_result \<Rightarrow> bool" where
  "one_token_ok lx r \<longleftrightarrow> (case r of None \<Rightarrow> True | Some (st, c) \<Rightarrow>
     lx_input c = lx_input lx \<and> heredoc_ok c \<and> rest_len c \<le> rest_len lx \<and>
     (st = LEX_OK \<longrightarrow> rest_len c < rest_len lx \<or> TOKEN_EOF \<in> tok_type ` set (lx_tokens c)))"

lemma process_loop_returns:
  assumes "ends_well (lx_input lx)" "heredoc_ok lx"
  shows "\<exists>r. process_loop (length (lx_tokens lx)) lx = Some r \<and> one_token_ok lx r"
  using assms
proof (induction "rest_len lx" arbitrary: lx rule: less_induct)
  case less
  let ?n = "length (lx_tokens lx)"
  show ?case
  proof (cases "process_mode lx")
    case None
    then show ?thesis by (subst process_loop.simps) (simp add: one_token_ok_def)
  next
    case (Some a)
    then obtain st c where run: "process_mode lx = Some (st, c)" by (cases a) auto
    have adv: "advances lx st c" using run less.prems(2) by (rule process_mode_advances)
    then have keeps: "lx_input c = lx_input lx" "heredoc_ok c" "rest_len c \<le> rest_len lx" "?n \<le> length (lx_tokens c)"
      by (auto simp: advances_def rest_len_def)
    have nd: "\<not> dangling c" using less.prems(1) keeps(1) by (simp add: ends_well_not_dangling)
    show ?thesis
    proof (cases "loop_returns ?n st c")
      case None
      with adv nd have "rest_len c < rest_len lx" and "length (lx_tokens c) = ?n"
        by (auto simp: loop_returns_def Let_def advances_def split: if_splits)
      moreover from this less.hyps [of c] less.prems keeps obtain r
        where "process_loop ?n c = Some r" "one_token_ok c r" by auto
      ultimately show ?thesis
        using run None keeps by (subst process_loop.simps) (auto simp: one_token_ok_def split: option.splits)
    next
      case (Some result)
      have "result = LEX_OK \<longrightarrow> rest_len c < rest_len lx \<or> TOKEN_EOF \<in> tok_type ` set (lx_tokens c)"
        using Some adv nd by (auto simp: loop_returns_def Let_def advances_def split: if_splits)
      with Some run keeps show ?thesis by (subst process_loop.simps) (auto simp: one_token_ok_def)
    qed
  qed
qed

lemma pop_tokens_result:
  "pop_tokens out lx =
     (let ts = takeWhile (\<lambda>t. tok_type t \<noteq> TOKEN_EOF) (lx_tokens lx); more = dropWhile (\<lambda>t. tok_type t \<noteq> TOKEN_EOF) (lx_tokens lx)
      in (more \<noteq> [], out @ ts, lx\<lparr>lx_tokens := tl more\<rparr>))"
proof (induction "lx_tokens lx" arbitrary: out lx)
  case Nil
  then show ?case by (subst pop_tokens.simps) (simp add: lexer_pop_first_token_def)
next
  case (Cons t ts)
  then show ?case
    by (subst pop_tokens.simps) (simp add: lexer_pop_first_token_def Cons.hyps(2) [symmetric] Let_def)
qed

lemma tokenize_loop_returns:
  assumes "ends_well (lx_input lx)" "heredoc_ok lx" "lx_tokens lx = []"
  shows "\<exists>r. tokenize_loop out lx = Some r"
  using assms
proof (induction "rest_len lx" arbitrary: out lx rule: less_induct)
  case less
  obtain r where r: "lexer_process_one_token lx = Some r" "one_token_ok lx r"
    using process_loop_returns [OF less.prems(1,2)] by (auto simp: lexer_process_one_token_def)
  show ?case
  proof (cases r)
    case None
    with r show ?thesis by (subst tokenize_loop.simps) simp
  next
    case (Some a)
    obtain st c where a: "a = (st, c)" by (cases a)
    let ?more = "dropWhile (\<lambda>t. tok_type t \<noteq> TOKEN_EOF) (lx_tokens c)"
    show ?thesis
    proof (cases "st = LEX_OK \<and> ?more = []")
      case False
      with r Some a show ?thesis
        by (subst tokenize_loop.simps) (auto simp: pop_tokens_result Let_def)
    next
      case True
      then have "TOKEN_EOF \<notin> tok_type ` set (lx_tokens c)" by (auto simp: dropWhile_eq_Nil_conv)
      with True r Some a have c: "rest_len c < rest_len lx" "lx_input c = lx_input lx" "heredoc_ok c"
        by (auto simp: one_token_ok_def)
      have "rest_len (c\<lparr>lx_tokens := []\<rparr>) < rest_len lx" using c by (simp add: rest_len_def)
      from less.hyps [OF this] less.prems c obtain r'
        where "tokenize_loop (out @ takeWhile (\<lambda>t. tok_type t \<noteq> TOKEN_EOF) (lx_tokens c)) (c\<lparr>lx_tokens := []\<rparr>) = Some r'"
        by (auto simp: heredoc_ok_def)
      moreover have "tl ?more = []" using True by (metis list.sel(2))
      ultimately show ?thesis
        using True r Some a by (subst tokenize_loop.simps) (auto simp: pop_tokens_result Let_def simp del: dropWhile_eq_Nil_conv)
    qed
  qed
qed

lemma append_input_short:
  "int (length (lx_input lx @ input)) < INT_MAX \<Longrightarrow> lexer_append_input lx input = lx\<lparr>lx_input := lx_input lx @ input\<rparr>"
  by (simp add: lexer_append_input_def Let_def)

lemma lexer_tokenize_returns:
  assumes "ends_well input" "int (length input) < INT_MAX"
  shows "\<exists>r. lex_cstr_to_tokens input = Some r"
  using tokenize_loop_returns [of "lexer_create\<lparr>lx_input := input\<rparr>" "[]"] assms
  by (auto simp: lex_cstr_to_tokens_def lexer_tokenize_def lexer_create_with_input_cstr_def append_input_short
      lexer_create_def heredoc_ok_def)

end
