(* ===== verification/Lexer_Words.thy ===== *)
theory Lexer_Words
  imports Lexer_Progress
begin

section \<open>Reading back quoted words, operators and newlines\<close>

text \<open>
  A line is a list of items: words, built of plain, quoted and escaped segments, operators
  and newlines.  \<open>render_line\<close> writes it the way a user would, and the lexer gives back the
  tokens that \<open>item_view\<close> names.
\<close>

subsection \<open>Lines and what they mean\<close>

datatype segment = Plain string | Single string | Double string | Escaped char

datatype item = Wrd "segment list" | Opr token_type | Line

definition plain_char :: "char \<Rightarrow> bool" where
  "plain_char c \<longleftrightarrow> is_word_char c \<and> c \<notin> {BACKSLASH, BACKTICK, SQUOTE, DQUOTE, CHR ''$'', CHR ''#'', CHR ''=''}"

fun segment_ok :: "segment \<Rightarrow> bool" where
  "segment_ok (Plain s) \<longleftrightarrow> s \<noteq> [] \<and> list_all plain_char s"
| "segment_ok (Single s) \<longleftrightarrow> SQUOTE \<notin> set s \<and> nul_free s"
| "segment_ok (Double s) \<longleftrightarrow> nul_free s"
| "segment_ok (Escaped c) \<longleftrightarrow> c \<noteq> NEWLINE \<and> c \<noteq> NUL"

definition plain_operators :: "(token_type \<times> string) list" where
  \<comment> \<open>all but the two that start a here-document\<close>
  "plain_operators = filter (\<lambda>(t, op). t \<noteq> TOKEN_DLESS \<and> t \<noteq> TOKEN_DLESSDASH) normal_mode_operators"

fun item_ok :: "item \<Rightarrow> bool" where
  "item_ok (Wrd segs) \<longleftrightarrow> segs \<noteq> [] \<and> list_all segment_ok segs"
| "item_ok (Opr t) \<longleftrightarrow> t \<in> set (map fst plain_operators)"
| "item_ok Line \<longleftrightarrow> True"

definition escape_double :: "string \<Rightarrow> string" where
  "escape_double s = concat (map (\<lambda>c. if c \<in> {DQUOTE, BACKSLASH, CHR ''$'', BACKTICK} then [BACKSLASH, c] else [c]) s)"

fun render_segment :: "segment \<Rightarrow> string" where
  "render_segment (Plain s) = s"
| "render_segment (Single s) = SQUOTE # s @ [SQUOTE]"
| "render_segment (Double s) = DQUOTE # escape_double s @ [DQUOTE]"
| "render_segment (Escaped c) = [BACKSLASH, c]"

definition operator_text :: "token_type \<Rightarrow> string" where
  "operator_text t = (case map_of normal_mode_operators t of None \<Rightarrow> [] | Some op \<Rightarrow> op)"

fun render_item :: "item \<Rightarrow> string" where
  "render_item (Wrd segs) = concat (map render_segment segs) @ '' ''"
| "render_item (Opr t) = operator_text t @ '' ''"
| "render_item Line = [NEWLINE]"

definition render_line :: "item list \<Rightarrow> string" where
  "render_line items = concat (map render_item items)"

definition add_text :: "bool \<Rightarrow> bool \<Rightarrow> string \<Rightarrow> part list \<Rightarrow> part list" where
  \<comment> \<open>literal text joins the last part when that was quoted in the same way\<close>
  "add_text single double s ps =
     (if s = [] then ps
      else if ps \<noteq> [] \<and> part_single_quoted (last ps) = single \<and> part_double_quoted (last ps) = double
      then butlast ps @ [(last ps)\<lparr>part_text := map_option (\<lambda>u. u @ s) (part_text (last ps))\<rparr>]
      else ps @ [part_set_quoted (part_create_literal s) single double])"

fun add_segment :: "segment \<Rightarrow> part list \<Rightarrow> part list" where
  "add_segment (Plain s) ps = add_text False False s ps"
| "add_segment (Single s) ps = add_text True False s ps"
| "add_segment (Double s) ps = add_text False True s ps"
| "add_segment (Escaped c) ps = add_text False False [c] ps"

fun quoted_segment :: "segment \<Rightarrow> bool" where
  "quoted_segment (Plain s) = False"
| "quoted_segment _ = True"

type_synonym view = "token_type \<times> part list option \<times> bool"

definition view :: "token \<Rightarrow> view" where
  "view t = (tok_type t, tok_parts t, tok_was_quoted t)"

fun item_view :: "item \<Rightarrow> view" where
  "item_view (Wrd segs) = (TOKEN_WORD, Some (fold add_segment segs []), list_ex quoted_segment segs)"
| "item_view (Opr t) = (t, None, False)"
| "item_view Line = (TOKEN_NEWLINE, None, False)"

subsection \<open>Text of the parts\<close>

fun segment_text :: "segment \<Rightarrow> string" where
  "segment_text (Plain s) = s"
| "segment_text (Single s) = s"
| "segment_text (Double s) = s"
| "segment_text (Escaped c) = [c]"

definition literals :: "part list \<Rightarrow> bool" where
  "literals ps \<longleftrightarrow> (\<forall>p \<in> set ps. part_type_of p = PART_LITERAL \<and> part_text p \<noteq> None)"

lemma literals_Nil [simp]: "literals []"
  by (simp add: literals_def)

lemma literals_add_text: "literals ps \<Longrightarrow> literals (add_text s d u ps)"
  by (auto simp: literals_def add_text_def part_set_quoted_def part_create_literal_def blank_part_def dest: in_set_butlastD)

lemma literals_add_segment: "literals ps \<Longrightarrow> literals (add_segment seg ps)"
  by (cases seg) (auto intro: literals_add_text)

lemma add_text_step: "add_text s d (c # u) ps = add_text s d u (add_text s d [c] ps)"
  by (cases "last ps")
    (auto simp: add_text_def part_set_quoted_def part_create_literal_def blank_part_def option.map_comp comp_def)

definition parts_text :: "part list \<Rightarrow> string" where
  "parts_text ps = concat (map (\<lambda>p. case part_text p of None \<Rightarrow> [] | Some s \<Rightarrow> s) ps)"

lemma parts_text_add_text: "literals ps \<Longrightarrow> parts_text (add_text s d u ps) = parts_text ps @ u"
  by (cases ps rule: rev_cases)
    (auto simp: literals_def parts_text_def add_text_def part_set_quoted_def part_create_literal_def)

lemma parts_text_segments:
  "literals ps \<Longrightarrow> parts_text (fold add_segment segs ps) = parts_text ps @ concat (map segment_text segs)"
proof (induction segs arbitrary: ps)
  case (Cons seg segs)
  have "parts_text (add_segment seg ps) = parts_text ps @ segment_text seg"
    using Cons.prems by (cases seg) (auto simp: parts_text_add_text)
  with Cons show ?case by (simp add: literals_add_segment)
qed simp

subsection \<open>Appending to the word\<close>

lemma append_literal_char_add_text:
  assumes "tok_type t = TOKEN_WORD" "tok_parts t = Some ps" "literals ps" "c \<noteq> NUL"
  shows "append_literal_char s d c t = Some (t\<lparr>tok_parts := Some (add_text s d [c] ps)\<rparr>)"
proof (cases ps rule: rev_cases)
  case Nil
  with assms show ?thesis
    by (simp add: append_literal_char_def last_part_is_literal_def token_add_part_def add_text_def char_string_def)
next
  case (snoc qs p)
  with assms obtain u where u: "part_text p = Some u" "part_type_of p = PART_LITERAL" by (auto simp: literals_def)
  with snoc assms show ?thesis
    by (auto simp: append_literal_char_def last_part_is_literal_def token_add_part_def add_text_def char_string_def
      token_append_char_to_last_literal_part_def append_to_last_literal_def add_char_def)
qed

subsection \<open>Runs of the driver\<close>

definition drive :: "token list \<Rightarrow> lexer \<Rightarrow> (lex_status \<times> token list \<times> lexer) option option" where
  \<comment> \<open>the run of \<open>lexer_tokenize\<close> from a turn of the inner loop that began with no token\<close>
  "drive out lx =
     (case process_loop 0 lx of
        None \<Rightarrow> None
      | Some None \<Rightarrow> Some None
      | Some (Some (status, lx)) \<Rightarrow>
          if status \<noteq> LEX_OK then Some (Some (status, out, lx))
          else (case pop_tokens out lx of (eof, out, lx) \<Rightarrow>
                  if eof then Some (Some (LEX_OK, out, lx)) else tokenize_loop out lx))"

lemma tokenize_loop_drive: "lx_tokens lx = [] \<Longrightarrow> tokenize_loop out lx = drive out lx"
  by (subst tokenize_loop.simps) (simp add: drive_def lexer_process_one_token_def)

definition no_eof :: "lexer \<Rightarrow> bool" where
  "no_eof lx \<longleftrightarrow> (\<forall>t \<in> set (lx_tokens lx). tok_type t \<noteq> TOKEN_EOF)"

definition lexes :: "lexer \<Rightarrow> view list \<Rightarrow> bool" where
  "lexes lx vs \<longleftrightarrow> (\<forall>out. \<exists>ts k. drive out lx = Some (Some (LEX_OK, out @ lx_tokens lx @ ts, k)) \<and> map view ts = vs)"

lemma pop_no_eof: "no_eof lx \<Longrightarrow> pop_tokens out lx = (False, out @ lx_tokens lx, lx\<lparr>lx_tokens := []\<rparr>)"
proof -
  assume "no_eof lx"
  then have "takeWhile (\<lambda>t. tok_type t \<noteq> TOKEN_EOF) (lx_tokens lx) = lx_tokens lx"
    "dropWhile (\<lambda>t. tok_type t \<noteq> TOKEN_EOF) (lx_tokens lx) = []"
    by (auto simp: no_eof_def takeWhile_eq_all_conv)
  then show ?thesis unfolding pop_tokens_result Let_def by (simp del: dropWhile_eq_Nil_conv)
qed

lemma pop_eof:
  "lx_tokens lx = ts @ [e] \<Longrightarrow> tok_type e = TOKEN_EOF \<Longrightarrow> \<forall>t \<in> set ts. tok_type t \<noteq> TOKEN_EOF \<Longrightarrow>
   pop_tokens out lx = (True, out @ ts, lx\<lparr>lx_tokens := []\<rparr>)"
  unfolding pop_tokens_result Let_def by (simp add: takeWhile_append dropWhile_append)

lemma drive_popped:
  assumes "process_mode lx = Some (st, lx')" "loop_returns 0 st lx' = Some LEX_OK" "no_eof lx'"
  shows "drive out lx = drive (out @ lx_tokens lx') (lx'\<lparr>lx_tokens := []\<rparr>)"
  using assms by (subst drive_def, subst process_loop.simps) (simp add: pop_no_eof tokenize_loop_drive)

lemma drive_continues:
  "process_mode lx = Some (st, lx') \<Longrightarrow> loop_returns 0 st lx' = None \<Longrightarrow> drive out lx = drive out lx'"
  by (simp add: drive_def, subst process_loop.simps) simp

text \<open>A mode that ends without an error and short of the end of the input.\<close>

lemma lexes_mode:
  assumes run: "process_mode lx = Some (st, lx')" and st: "st = LEX_OK \<and> (lx_in_word lx' \<or> lx_tokens lx' \<noteq> []) \<or> st = LEX_INCOMPLETE \<and> \<not> lexer_at_end lx'"
    and tokens: "lx_tokens lx' = lx_tokens lx @ new" "no_eof lx'"
    and later: "\<And>ts. (ts = [] \<or> ts = lx_tokens lx') \<Longrightarrow> lexes (lx'\<lparr>lx_tokens := ts\<rparr>) vs"
  shows "lexes lx (map view new @ vs)"
proof -
  have "\<exists>ts k. drive out lx = Some (Some (LEX_OK, out @ lx_tokens lx @ ts, k)) \<and> map view ts = map view new @ vs" for out
  proof (cases "lx_tokens lx' = []")
    case True
    then have "loop_returns 0 st lx' = None \<or> loop_returns 0 st lx' = Some LEX_OK \<and> lexer_current_mode lx' = LEX_NORMAL \<and> \<not> lx_in_word lx'"
      using st by (auto simp: loop_returns_def)
    with True st have "loop_returns 0 st lx' = None" by (auto simp: loop_returns_def Let_def split: if_splits)
    then have "drive out lx = drive out lx'" using run by (rule drive_continues [rotated])
    moreover have "lx'\<lparr>lx_tokens := []\<rparr> = lx'" using True by (cases lx') simp
    moreover have "lexes (lx'\<lparr>lx_tokens := []\<rparr>) vs" by (rule later) simp
    ultimately obtain ts k where "drive out lx = Some (Some (LEX_OK, out @ lx_tokens lx' @ ts, k))" "map view ts = vs"
      unfolding lexes_def by metis
    with True tokens(1) show ?thesis by (intro exI [of _ ts] exI [of _ k]) simp
  next
    case False
    with st have "loop_returns 0 st lx' = Some LEX_OK" by (auto simp: loop_returns_def)
    note popped = drive_popped [OF run this tokens(2), of out]
    have "lexes (lx'\<lparr>lx_tokens := []\<rparr>) vs" by (rule later) simp
    with popped obtain ts k where "drive out lx = Some (Some (LEX_OK, (out @ lx_tokens lx') @ ts, k))" "map view ts = vs"
      by (auto simp: lexes_def dest: spec [of _ "out @ lx_tokens lx'"])
    with tokens(1) show ?thesis by (intro exI [of _ "new @ ts"] exI [of _ k]) simp
  qed
  then show ?thesis by (simp add: lexes_def)
qed

lemma lexes_normal:
  assumes "lx_mode_stack lx = []" "lx_mode_stack lx' = []" "normal_loop lx = normal_loop lx'"
    "lx_tokens lx' = lx_tokens lx @ new" "lexes lx' vs"
  shows "lexes lx (map view new @ vs)"
proof -
  have "process_mode lx = process_mode lx'"
    using assms(1-3) by (simp add: process_mode_def lexer_current_mode_def lexer_process_one_normal_token_def)
  then have same: "drive out lx = drive out lx'" for out
    by (simp add: drive_def process_loop.simps [of 0 lx] process_loop.simps [of 0 lx'])
  have "\<exists>ts k. drive out lx = Some (Some (LEX_OK, out @ lx_tokens lx @ ts, k)) \<and> map view ts = map view new @ vs" for out
  proof -
    from assms(5) obtain ts k where "drive out lx' = Some (Some (LEX_OK, out @ lx_tokens lx' @ ts, k))" "map view ts = vs"
      by (fastforce simp: lexes_def)
    with same assms(4) show ?thesis by (intro exI [of _ "new @ ts"] exI [of _ k]) simp
  qed
  then show ?thesis by (simp add: lexes_def)
qed

lemma lexes_go:
  assumes "lx_mode_stack lx = []" "\<not> lexer_at_end lx" "normal_pass lx = Some (Go lx')"
    "lx_tokens lx' = lx_tokens lx @ new" "lexes lx' vs"
  shows "lexes lx (map view new @ vs)"
proof (rule lexes_normal [OF assms(1) _ _ assms(4,5)])
  show "lx_mode_stack lx' = []" using moves_pass [OF assms(3)] assms(1) by (simp add: moves_def)
  show "normal_loop lx = normal_loop lx'" using assms(2,3) by (simp add: normal_loop.simps [of lx])
qed

lemma lexes_end:
  assumes "lx_mode_stack lx = []" "lexer_at_end lx" "lx_current_token lx = None" "\<not> lx_in_word lx" "no_eof lx"
  shows "lexes lx []"
proof -
  let ?eof = "here (token_create TOKEN_EOF) lx"
  have eof: "tok_type ?eof = TOKEN_EOF" by (simp add: here_def token_set_location_def token_create_def)
  have run: "process_mode lx = Some (LEX_OK, lx\<lparr>lx_tokens := lx_tokens lx @ [?eof], lx_at_command_start := False\<rparr>)"
    using assms(1-4)
    by (simp add: process_mode_def lexer_current_mode_def lexer_process_one_normal_token_def normal_loop.simps [of lx]
      normal_end_def lexer_emit_token_def)
  have "\<exists>ts k. drive out lx = Some (Some (LEX_OK, out @ lx_tokens lx @ ts, k)) \<and> map view ts = []" for out
    unfolding drive_def using assms(5) pop_eof [OF _ eof]
    by (subst process_loop.simps) (simp add: run loop_returns_def Let_def no_eof_def)
  then show ?thesis by (simp add: lexes_def)
qed

subsection \<open>Redirection prefixes do not get in the way\<close>

definition locator :: "char \<Rightarrow> bool" where
  \<comment> \<open>what a number or a braced name before a redirection is made of\<close>
  "locator c \<longleftrightarrow> is_name_char c \<or> c = CHR ''{'' \<or> c = CHR ''}''"

definition calm :: "string \<Rightarrow> bool" where
  \<comment> \<open>no redirection follows these characters directly\<close>
  "calm s \<longleftrightarrow> (case dropWhile locator s of [] \<Rightarrow> True | c # _ \<Rightarrow> \<not> is_redirection_start_char c)"

lemma calm_nth: "calm s \<Longrightarrow> \<forall>c \<in> set (take k s). locator c \<Longrightarrow> k < length s \<Longrightarrow> \<not> is_redirection_start_char (s ! k)"
proof (induction s arbitrary: k)
  case (Cons c s)
  show ?case
  proof (cases k)
    case 0
    with Cons.prems(1) show ?thesis
      by (auto simp: calm_def locator_def is_redirection_start_char_def is_name_char_def c_isalnum_def c_isalpha_def c_isdigit_def
          split: if_splits)
  next
    case (Suc j)
    with Cons show ?thesis by (auto simp: calm_def)
  qed
qed simp

lemma calm_Cons: "calm (c # s) \<longleftrightarrow> (if locator c then calm s else \<not> is_redirection_start_char c)"
  by (simp add: calm_def)

lemma calm_Nil [simp]: "calm []"
  by (simp add: calm_def)

lemma calm_locators: "list_all locator s \<Longrightarrow> calm (s @ r) \<longleftrightarrow> calm r"
  by (induction s) (auto simp: calm_Cons)

lemma calm_special [simp]:
  "calm (SQUOTE # r)" "calm (DQUOTE # r)" "calm (BACKSLASH # r)" "calm (CHR '' '' # r)"
  by (simp_all add: calm_Cons locator_def is_name_char_def c_isalnum_def c_isalpha_def c_isdigit_def is_redirection_start_char_def)

lemma plain_char_not:
  "plain_char c \<Longrightarrow> \<not> is_redirection_start_char c \<and> c \<noteq> CHR '' '' \<and> c \<noteq> TAB"
  by (auto simp: plain_char_def is_word_char_def is_delimiter_char_def lexer_is_metachar_def is_redirection_start_char_def)

lemma plain_not_redirection: "list_all plain_char s \<Longrightarrow> list_all (\<lambda>c. \<not> is_redirection_start_char c) s"
  using plain_char_not by (auto simp: list_all_iff)

lemma calm_append: "list_all (\<lambda>c. \<not> is_redirection_start_char c) s \<Longrightarrow> calm r \<Longrightarrow> calm (s @ r)"
  by (induction s) (auto simp: calm_Cons)

lemma scan_integer_digits:
  "scan_integer cs v n = (w, m) \<Longrightarrow> \<exists>k \<le> length cs. m = n + k \<and> (\<forall>c \<in> set (take k cs). c_isdigit c)"
proof (induction cs v n rule: scan_integer.induct)
  case (2 c cs v n)
  show ?case
  proof (cases "\<not> c_isdigit c \<or> v > (INT_MAX - (of_char c - 48)) div 10")
    case True
    with 2(2) show ?thesis by (auto simp: Let_def split: if_splits)
  next
    case False
    with 2 obtain k where "k \<le> length cs" "m = n + 1 + k" "\<forall>c \<in> set (take k cs). c_isdigit c"
      by (auto simp: Let_def)
    with False show ?thesis by (intro exI [of _ "Suc k"]) auto
  qed
qed auto

lemma calm_no_io_number:
  assumes "calm (drop (lx_pos lx) (lx_input lx))"
  shows "try_emit_io_number lx = Some (False, lx)"
proof -
  obtain v n where vn: "lexer_peek_integer lx = (v, n)" by fastforce
  then obtain k where k: "k \<le> length (drop (lx_pos lx) (lx_input lx))" "n = k"
    "\<forall>c \<in> set (take k (drop (lx_pos lx) (lx_input lx))). c_isdigit c"
    unfolding lexer_peek_integer_def using scan_integer_digits by fastforce
  have "\<not> is_redirection_start_char (lexer_peek_ahead lx n)"
  proof (cases "n < length (drop (lx_pos lx) (lx_input lx))")
    case True
    then have "lexer_peek_ahead lx n = drop (lx_pos lx) (lx_input lx) ! n" by (auto simp: lexer_peek_ahead_def)
    moreover have "\<forall>c \<in> set (take n (drop (lx_pos lx) (lx_input lx))). locator c"
      using k by (auto simp: locator_def is_name_char_def c_isalnum_def)
    ultimately show ?thesis using calm_nth [OF assms _ True] by simp
  qed (auto simp: lexer_peek_ahead_def is_redirection_start_char_def)
  with vn show ?thesis by (simp add: try_emit_io_number_def)
qed

lemma calm_no_io_location:
  assumes "calm (drop (lx_pos lx) (lx_input lx))"
  shows "try_emit_braced_io_location lx = Some (False, lx)"
proof -
  let ?rest = "drop (lx_pos lx) (lx_input lx)"
  have "braced_location lx = None"
  proof (cases "\<exists>s. ?rest = CHR ''{'' # s")
    case True
    then obtain s where s: "?rest = CHR ''{'' # s" by blast
    let ?name = "takeWhile is_name_char s" and ?after = "dropWhile is_name_char s"
    have "calm (CHR ''{'' # ?name @ ?after)" using assms s by simp
    then have "calm ?after"
      by (subst (asm) append_Cons [symmetric], subst (asm) calm_locators)
        (auto simp: locator_def list_all_iff dest: set_takeWhileD)
    then have "\<not> (\<exists>c r. ?after = CHR ''}'' # c # r \<and> is_redirection_start_char c)"
      by (auto simp: calm_Cons locator_def is_redirection_start_char_def is_name_char_def c_isalnum_def c_isalpha_def
          c_isdigit_def)
    then show ?thesis
      by (auto simp: braced_location_def s dropWhile_eq_drop [symmetric] Let_def neq_Nil_conv)
  next
    case False
    then show ?thesis by (cases ?rest) (auto simp: braced_location_def Let_def)
  qed
  then show ?thesis by (simp add: try_emit_braced_io_location_def)
qed

subsection \<open>The state within a word\<close>

definition word_state :: "lex_mode list \<Rightarrow> bool \<Rightarrow> part list \<Rightarrow> bool \<Rightarrow> string \<Rightarrow> token list \<Rightarrow> lexer \<Rightarrow> bool" where
  \<comment> \<open>the modes, whether a word has begun, its parts and whether it was quoted, the input left, the tokens\<close>
  "word_state ms w ps q rest ts lx \<longleftrightarrow> lx_mode_stack lx = ms \<and> lx_in_word lx = w \<and>
     drop (lx_pos lx) (lx_input lx) = rest \<and> lx_pos lx \<le> length (lx_input lx) \<and> lx_tokens lx = ts \<and>
     (\<forall>t \<in> set ts. tok_type t \<noteq> TOKEN_EOF) \<and> lx_heredoc_queue lx = [] \<and> literals ps \<and>
     (if w then \<exists>t. lx_current_token lx = Some t \<and> tok_type t = TOKEN_WORD \<and> tok_parts t = Some ps \<and>
        tok_was_quoted t = q \<and> \<not> tok_has_equals_before_quote t
      else lx_current_token lx = None \<and> ps = [] \<and> \<not> q)"

lemma word_state_peek:
  assumes "word_state ms w ps q (c # rest) ts lx"
  shows "lexer_peek lx = c" "\<not> lexer_at_end lx" "lexer_peek_ahead lx 0 = c"
    "lexer_peek_ahead lx (Suc 0) = (case rest of [] \<Rightarrow> NUL | d # _ \<Rightarrow> d)"
proof -
  let ?i = "lx_pos lx" and ?s = "lx_input lx"
  have d: "drop ?i ?s = c # rest" using assms by (simp add: word_state_def)
  then have i: "?i < length ?s" by (metis drop_eq_Nil leI list.distinct(1))
  with d have c: "?s ! ?i = c" "drop (Suc ?i) ?s = rest" by (metis Cons_nth_drop_Suc list.inject)+
  from c(2) have "(case rest of [] \<Rightarrow> NUL | d # _ \<Rightarrow> d) = (if Suc ?i < length ?s then ?s ! Suc ?i else NUL)"
    by (metis (no_types, lifting) Cons_nth_drop_Suc drop_all leI list.simps(4,5))
  with i c show "lexer_peek lx = c" "\<not> lexer_at_end lx" "lexer_peek_ahead lx 0 = c"
    "lexer_peek_ahead lx (Suc 0) = (case rest of [] \<Rightarrow> NUL | d # _ \<Rightarrow> d)"
    by (auto simp: lexer_peek_def lexer_peek_ahead_def lexer_at_end_def)
qed

lemma word_state_advance:
  assumes "word_state ms w ps q (c # rest) ts lx"
  obtains lx1 where "lexer_advance lx = Some lx1" "word_state ms w ps q rest ts lx1"
proof -
  let ?i = "lx_pos lx" and ?s = "lx_input lx"
  have d: "drop ?i ?s = c # rest" using assms by (simp add: word_state_def)
  then have i: "?i < length ?s" by (metis drop_eq_Nil leI list.distinct(1))
  with d have "drop (Suc ?i) ?s = rest" by (metis Cons_nth_drop_Suc list.inject)
  with assms i that [of "if lexer_peek lx = NEWLINE
                 then lx\<lparr>lx_pos := lx_pos lx + 1, lx_line_no := lx_line_no lx + 1, lx_col_no := 1\<rparr>
                 else lx\<lparr>lx_pos := lx_pos lx + 1, lx_col_no := lx_col_no lx + 1\<rparr>"] show ?thesis
    by (auto simp: lexer_advance_def word_state_def)
qed

lemma word_state_ensure:
  assumes "word_state ms w ps q rest ts lx"
  obtains lx1 where "ensure_word lx = Some lx1" "word_state ms True ps q rest ts lx1"
  using assms that
  by (cases w) (auto simp: ensure_word_def lexer_start_word_def word_state_def token_create_word_def token_create_def)

lemma word_state_literal:
  assumes "word_state ms True ps q rest ts lx" "c \<noteq> NUL"
  obtains lx1 where "on_token (append_literal_char s d c) lx = Some lx1" "word_state ms True (add_text s d [c] ps) q rest ts lx1"
  using assms that append_literal_char_add_text [of _ ps c s d]
  by (auto simp: on_token_def word_state_def literals_add_text)

lemma word_state_quoted:
  assumes "word_state ms True ps q rest ts lx"
  obtains lx1 where "on_token (\<lambda>t. Some (token_set_quoted t True)) lx = Some lx1" "word_state ms True ps True rest ts lx1"
  using assms that by (auto simp: on_token_def word_state_def token_set_quoted_def)

lemma word_state_here:
  assumes "word_state ms True ps q (c # rest) ts lx" "c \<noteq> NUL"
  obtains lx1 where "append_here lx = Some lx1" "word_state ms True (add_text False False [c] ps) q rest ts lx1"
proof -
  from assms(1) obtain lx1 where lx1: "lexer_advance lx = Some lx1" "word_state ms True ps q rest ts lx1"
    by (rule word_state_advance)
  from lx1(2) assms(2) obtain lx2 where "on_token (append_literal_char False False c) lx1 = Some lx2"
    "word_state ms True (add_text False False [c] ps) q rest ts lx2" by (rule word_state_literal)
  with lx1 that show thesis
    by (simp add: append_here_def lexer_append_literal_char_to_word_def word_state_peek(1) [OF assms(1)])
qed

subsection \<open>Quotes\<close>

lemma squote_loop_state:
  "word_state [m] True ps q (s @ SQUOTE # rest) ts lx \<Longrightarrow> SQUOTE \<notin> set s \<Longrightarrow> nul_free s \<Longrightarrow>
   \<exists>lx1. squote_loop lx = Some (LEX_OK, lx1) \<and> word_state [] True (add_text True False s ps) q rest ts lx1"
proof (induction s arbitrary: ps lx)
  case Nil
  then obtain lx1 where "lexer_advance lx = Some lx1" "word_state [m] True ps q rest ts lx1"
    using word_state_advance by (metis append_Nil)
  with Nil(1) show ?case
    by (subst squote_loop.simps)
      (simp add: word_state_peek [of "[m]" True ps q SQUOTE rest ts lx] leave_mode_def lexer_pop_mode_def word_state_def add_text_def)
next
  case (Cons c s)
  then have c: "word_state [m] True ps q (c # s @ SQUOTE # rest) ts lx" "c \<noteq> NUL" by simp_all
  then obtain lx1 where lx1: "on_token (append_literal_char True False c) lx = Some lx1"
    "word_state [m] True (add_text True False [c] ps) q (c # s @ SQUOTE # rest) ts lx1" by (rule word_state_literal)
  from lx1(2) obtain lx2 where lx2: "lexer_advance lx1 = Some lx2"
    "word_state [m] True (add_text True False [c] ps) q (s @ SQUOTE # rest) ts lx2" by (rule word_state_advance)
  have "c \<noteq> SQUOTE" using Cons.prems(2) by auto
  with Cons.IH [OF lx2(2)] Cons.prems(2,3) lx1 lx2 c show ?case
    by (subst squote_loop.simps) (simp add: word_state_peek [OF c(1)] add_text_step [of True False c s])
qed

lemma process_squote_state:
  assumes "word_state [LEX_SINGLE_QUOTE] w ps q (s @ SQUOTE # rest) ts lx" "SQUOTE \<notin> set s" "nul_free s"
  shows "\<exists>lx1. lexer_process_squote lx = Some (LEX_OK, lx1) \<and> word_state [] True (add_text True False s ps) True rest ts lx1"
proof -
  from assms(1) obtain lx1 where lx1: "ensure_word lx = Some lx1" "word_state [LEX_SINGLE_QUOTE] True ps q (s @ SQUOTE # rest) ts lx1"
    by (rule word_state_ensure)
  from lx1(2) obtain lx2 where "on_token (\<lambda>t. Some (token_set_quoted t True)) lx1 = Some lx2"
    "word_state [LEX_SINGLE_QUOTE] True ps True (s @ SQUOTE # rest) ts lx2" by (rule word_state_quoted)
  with lx1 squote_loop_state assms(2,3) show ?thesis by (fastforce simp: lexer_process_squote_def)
qed

lemma dquote_loop_state:
  "word_state [m] True ps q (escape_double s @ DQUOTE # rest) ts lx \<Longrightarrow> nul_free s \<Longrightarrow>
   \<exists>lx1. dquote_loop lx = Some (LEX_OK, lx1) \<and> word_state [] True (add_text False True s ps) q rest ts lx1"
proof (induction s arbitrary: ps lx)
  case Nil
  then have n: "word_state [m] True ps q (DQUOTE # rest) ts lx" by (simp add: escape_double_def)
  then obtain lx1 where "lexer_advance lx = Some lx1" "word_state [m] True ps q rest ts lx1"
    by (rule word_state_advance)
  with n show ?case
    by (subst dquote_loop.simps)
      (simp add: word_state_peek [OF n] leave_mode_def lexer_pop_mode_def word_state_def add_text_def)
next
  case (Cons c s)
  let ?r = "escape_double s @ DQUOTE # rest"
  show ?case
  proof (cases "c \<in> {DQUOTE, BACKSLASH, CHR ''$'', BACKTICK}")
    case True
    with Cons.prems have c: "word_state [m] True ps q (BACKSLASH # c # ?r) ts lx" "c \<noteq> NUL"
      by (auto simp: escape_double_def)
    from c(1) obtain lx1 where lx1: "lexer_advance lx = Some lx1" "word_state [m] True ps q (c # ?r) ts lx1"
      by (rule word_state_advance)
    from lx1(2) c(2) obtain lx2 where lx2: "on_token (append_literal_char False True c) lx1 = Some lx2"
      "word_state [m] True (add_text False True [c] ps) q (c # ?r) ts lx2" by (rule word_state_literal)
    from lx2(2) obtain lx3 where lx3: "lexer_advance lx2 = Some lx3"
      "word_state [m] True (add_text False True [c] ps) q ?r ts lx3" by (rule word_state_advance)
    have esc: "is_dquote_escapable c" "c \<noteq> NEWLINE" using True by (auto simp: is_dquote_escapable_def)
    from Cons.IH [OF lx3(2)] Cons.prems(2) lx1 lx2 lx3 c esc show ?thesis
      by (subst dquote_loop.simps) (simp add: Let_def word_state_peek [OF c(1)] dquote_char_def add_text_step [of False True c s])
  next
    case False
    with Cons.prems have c: "word_state [m] True ps q (c # ?r) ts lx" "c \<noteq> NUL"
      by (auto simp: escape_double_def)
    then obtain lx1 where lx1: "on_token (append_literal_char False True c) lx = Some lx1"
      "word_state [m] True (add_text False True [c] ps) q (c # ?r) ts lx1" by (rule word_state_literal)
    from lx1(2) obtain lx2 where lx2: "lexer_advance lx1 = Some lx2"
      "word_state [m] True (add_text False True [c] ps) q ?r ts lx2" by (rule word_state_advance)
    from Cons.IH [OF lx2(2)] Cons.prems(2) lx1 lx2 c False show ?thesis
      by (subst dquote_loop.simps) (simp add: Let_def word_state_peek [OF c(1)] dquote_char_def add_text_step [of False True c s])
  qed
qed

lemma process_dquote_state:
  assumes "word_state [LEX_DOUBLE_QUOTE] w ps q (escape_double s @ DQUOTE # rest) ts lx" "nul_free s"
  shows "\<exists>lx1. lexer_process_dquote lx = Some (LEX_OK, lx1) \<and> word_state [] True (add_text False True s ps) True rest ts lx1"
proof -
  from assms(1) obtain lx1 where lx1: "ensure_word lx = Some lx1"
    "word_state [LEX_DOUBLE_QUOTE] True ps q (escape_double s @ DQUOTE # rest) ts lx1" by (rule word_state_ensure)
  from lx1(2) obtain lx2 where "on_token (\<lambda>t. Some (token_set_quoted t True)) lx1 = Some lx2"
    "word_state [LEX_DOUBLE_QUOTE] True ps True (escape_double s @ DQUOTE # rest) ts lx2" by (rule word_state_quoted)
  with lx1 dquote_loop_state assms(2) show ?thesis by (fastforce simp: lexer_process_dquote_def)
qed

subsection \<open>The normal mode on words\<close>

lemma match_operator_none:
  assumes "word_state [] w ps q (c # rest) ts lx" "\<not> lexer_is_metachar c"
  shows "match_operator lx = None"
proof -
  have "drop (lx_pos lx) (lx_input lx) = c # rest" using assms(1) by (simp add: word_state_def)
  with assms(2) show ?thesis
    by (simp add: match_operator_def match_operator_of_length_def normal_mode_operators_def lexer_input_starts_with_def
        lexer_is_metachar_def)
qed

definition quiet :: "string \<Rightarrow> bool" where
  \<comment> \<open>no number or location of a redirection starts here\<close>
  "quiet s \<longleftrightarrow> calm s \<or> (\<exists>c r. s = c # r \<and> \<not> c_isdigit c \<and> c \<noteq> CHR ''{'')"

lemma quiet_attempts:
  assumes "drop (lx_pos lx) (lx_input lx) = s" "quiet s"
  shows "try_emit_io_number lx = Some (False, lx)" "try_emit_braced_io_location lx = Some (False, lx)"
proof -
  have "(\<exists>c r. s = c # r \<and> \<not> c_isdigit c \<and> c \<noteq> CHR ''{'') \<Longrightarrow> \<not> lexer_input_starts_with_integer lx \<and> braced_location lx = None"
    using assms(1) nth_via_drop [of "lx_pos lx" "lx_input lx"]
    by (auto simp: lexer_input_starts_with_integer_def braced_location_def Let_def)
  with assms calm_no_io_number [of lx] calm_no_io_location [of lx]
  show "try_emit_io_number lx = Some (False, lx)" "try_emit_braced_io_location lx = Some (False, lx)"
    by (auto simp: quiet_def try_emit_io_number_def try_emit_braced_io_location_def)
qed

lemma no_heredoc:
  assumes "word_state [] w ps q rest ts lx" "quiet rest" "take 2 rest \<noteq> ''<<''"
  shows "try_process_heredoc lx = Some (HEREDOC_PROCESS_RESULT_NOT_HEREDOC, lx)"
proof -
  have d: "drop (lx_pos lx) (lx_input lx) = rest" using assms(1) by (simp add: word_state_def)
  have "heredoc_io_number lx = Some lx"
    using no_second_io_number [OF quiet_attempts(1)] d assms(2) by simp
  moreover have "\<not> lexer_input_starts_with lx ''<<''" using assms(3) d by (simp add: lexer_input_starts_with_def numeral_2_eq_2)
  ultimately show ?thesis by (simp add: try_process_heredoc_def)
qed

lemma pass_operator:
  assumes "word_state [] w ps q (c # rest) ts lx" "quiet (c # rest)" "take 2 (c # rest) \<noteq> ''<<''"
    "c \<notin> {CHR '' '', TAB, NEWLINE}" "\<not> (c = BACKSLASH \<and> (\<exists>r. rest = NEWLINE # r))"
  shows "normal_pass lx = normal_operator c lx"
proof -
  have d: "drop (lx_pos lx) (lx_input lx) = c # rest" using assms(1) by (simp add: word_state_def)
  have "\<not> (c = BACKSLASH \<and> lexer_peek_ahead lx 1 = NEWLINE)"
    using assms(5) by (auto simp: word_state_peek [OF assms(1)] split: list.splits)
  with assms(4) show ?thesis
    using no_heredoc [OF assms(1-3)] quiet_attempts [OF d assms(2)]
    by (auto simp: normal_pass_def normal_redirection_def word_state_peek [OF assms(1)])
qed

lemma pass_char:
  assumes "word_state [] w ps q (c # rest) ts lx" "quiet (c # rest)" "\<not> lexer_is_metachar c"
    "c \<notin> {CHR '' '', TAB, NEWLINE}" "\<not> (c = BACKSLASH \<and> (\<exists>r. rest = NEWLINE # r))"
  shows "normal_pass lx = normal_char c lx"
  using pass_operator [OF assms(1) _ _ assms(4,5)] assms(2) match_operator_none [OF assms(1,3)] assms(3)
  by (auto simp: normal_operator_def lexer_is_metachar_def)

lemma pass_plain:
  assumes "word_state [] w ps q (c # rest) ts lx" "plain_char c" "quiet (c # rest)"
  shows "\<exists>lx1. normal_pass lx = Some (Go lx1) \<and> word_state [] True (add_text False False [c] ps) q rest ts lx1"
proof -
  have c: "\<not> lexer_is_metachar c" "c \<notin> {CHR '' '', TAB, NEWLINE}" "c \<noteq> NUL" "is_word_char c"
    "c \<notin> {BACKSLASH, BACKTICK, SQUOTE, DQUOTE, CHR ''$'', CHR ''#'', CHR ''=''}"
    using assms(2) by (auto simp: plain_char_def is_word_char_def is_delimiter_char_def)
  have pass: "normal_pass lx = normal_char c lx" using pass_char [OF assms(1,3)] c by auto
  from assms(1) obtain lx1 where lx1: "ensure_word lx = Some lx1" "word_state [] True ps q (c # rest) ts lx1"
    by (rule word_state_ensure)
  have note_eq: "note_equals c lx1 = Some lx1"
    using lx1(2) c by (auto simp: note_equals_def on_token_def word_state_def)
  from lx1(2) c(3) obtain lx2 where "append_here lx1 = Some lx2"
    "word_state [] True (add_text False False [c] ps) q rest ts lx2" by (rule word_state_here)
  with lx1 note_eq c show ?thesis by (simp add: pass normal_char_def go_def)
qed

lemma pass_escaped:
  assumes "word_state [] w ps q (BACKSLASH # c # rest) ts lx" "c \<noteq> NEWLINE" "c \<noteq> NUL"
  shows "\<exists>lx1. normal_pass lx = Some (Go lx1) \<and> word_state [] True (add_text False False [c] ps) True rest ts lx1"
proof -
  have "quiet (BACKSLASH # c # rest)" by (simp add: quiet_def)
  then have pass: "normal_pass lx = normal_char BACKSLASH lx"
    using pass_char [OF assms(1)] assms(2) by (auto simp: lexer_is_metachar_def)
  from assms(1) obtain lx1 where lx1: "ensure_word lx = Some lx1" "word_state [] True ps q (BACKSLASH # c # rest) ts lx1"
    by (rule word_state_ensure)
  from lx1(2) obtain lx2 where lx2: "lexer_advance lx1 = Some lx2" "word_state [] True ps q (c # rest) ts lx2"
    by (rule word_state_advance)
  from lx2(2) assms(3) obtain lx3 where lx3: "append_here lx2 = Some lx3"
    "word_state [] True (add_text False False [c] ps) q rest ts lx3" by (rule word_state_here)
  from lx3(2) obtain lx4 where "on_token (\<lambda>t. Some (token_set_quoted t True)) lx3 = Some lx4"
    "word_state [] True (add_text False False [c] ps) True rest ts lx4" by (rule word_state_quoted)
  with lx1 lx2 lx3 assms(3) show ?thesis
    by (simp add: pass normal_char_def go_def word_state_peek [OF assms(1)])
qed

lemma pass_quote:
  assumes "word_state [] w ps q (c # rest) ts lx" "c = SQUOTE \<and> m = LEX_SINGLE_QUOTE \<or> c = DQUOTE \<and> m = LEX_DOUBLE_QUOTE"
  shows "\<exists>lx1. process_mode lx = Some (LEX_INCOMPLETE, lx1) \<and> word_state [m] w ps q rest ts lx1"
proof -
  have "quiet (c # rest)" using assms(2) by (auto simp: quiet_def)
  then have pass: "normal_pass lx = normal_char c lx"
    using pass_char [OF assms(1)] assms(2) by (auto simp: lexer_is_metachar_def)
  have pushed: "word_state [m] w ps q (c # rest) ts (lexer_push_mode m lx)"
    using assms(1) by (auto simp: word_state_def lexer_push_mode_def)
  then obtain lx1 where lx1: "lexer_advance (lexer_push_mode m lx) = Some lx1" "word_state [m] w ps q rest ts lx1"
    by (rule word_state_advance)
  have "normal_char c lx = Some (Stop LEX_INCOMPLETE lx1)"
    using assms(2) lx1 by (auto simp: normal_char_def switch_mode_def)
  moreover have "lx_mode_stack lx = []" using assms(1) by (simp add: word_state_def)
  ultimately show ?thesis
    using lx1(2) pass word_state_peek(2) [OF assms(1)]
    by (simp add: process_mode_def lexer_current_mode_def lexer_process_one_normal_token_def normal_loop.simps [of lx])
qed

lemma flags_view [simp]: "view (flags_of_part t p) = view t" "tok_type (flags_of_part t p) = tok_type t"
  by (auto simp: view_def flags_of_part_def Let_def split: part_type.split option.split)

lemma flags_fold_view: "view (fold (\<lambda>p t. flags_of_part t p) ps t) = view t"
  by (induction ps arbitrary: t) simp_all

lemma recompute_view [simp]: "view (token_recompute_expansion_flags t) = view t"
proof -
  have "view (t\<lparr>tok_needs_expansion := False, tok_needs_field_splitting := False, tok_needs_pathname_expansion := False\<rparr>) = view t"
    by (simp add: view_def)
  then show ?thesis
    by (auto simp: token_recompute_expansion_flags_def Let_def flags_fold_view split: option.split)
qed

lemma location_view [simp]: "view (token_set_location t a b c d) = view t"
  by (simp add: view_def token_set_location_def)

lemma view_here [simp]: "view (here t lx) = view t"
  by (simp add: here_def)

lemma word_state_finalize:
  assumes "word_state [] True ps q rest ts lx"
  obtains lx1 t where "lexer_finalize_word lx = Some lx1" "view t = (TOKEN_WORD, Some ps, q)"
    "word_state [] False [] False rest (ts @ [t]) lx1"
proof -
  from assms obtain u where u: "lx_current_token lx = Some u" "tok_type u = TOKEN_WORD" "tok_parts u = Some ps"
    "tok_was_quoted u = q" "\<not> tok_has_equals_before_quote u" by (auto simp: word_state_def)
  define t where "t = token_set_location (token_recompute_expansion_flags u) (lx_tok_start_line lx) (lx_tok_start_col lx)
                    (lx_line_no lx) (lx_col_no lx)"
  have v: "view t = (TOKEN_WORD, Some ps, q)" using u by (simp add: t_def) (simp add: view_def)
  then have "tok_type t \<noteq> TOKEN_EOF" by (auto simp: view_def)
  moreover have "lexer_finalize_word lx = Some (lx\<lparr>lx_tokens := lx_tokens lx @ [t], lx_current_token := None,
      lx_in_word := False, lx_at_command_start := False\<rparr>)"
    using u by (simp add: lexer_finalize_word_def try_promote_to_assignment_def t_def Let_def)
  ultimately show thesis using that [OF _ v] assms by (auto simp: word_state_def)
qed

lemma word_state_emit:
  assumes "word_state [] False [] False rest ts lx" "ty \<notin> {TOKEN_WORD, TOKEN_IO_NUMBER, TOKEN_EOF}"
  obtains lx1 t where "lexer_emit_token ty lx = Some lx1" "view t = (ty, None, False)"
    "word_state [] False [] False rest (ts @ [t]) lx1"
proof -
  let ?t = "here (token_create ty) lx"
  have v: "view ?t = (ty, None, False)" using assms(2) by (simp, auto simp: view_def token_create_def)
  then have "tok_type ?t = ty" by (simp add: view_def)
  let ?lx = "lx\<lparr>lx_tokens := lx_tokens lx @ [?t], lx_at_command_start := ty \<in> {TOKEN_SEMI, TOKEN_NEWLINE, TOKEN_AND_IF, TOKEN_OR_IF, TOKEN_PIPE}\<rparr>"
  have "lexer_emit_token ty lx = Some ?lx" using assms by (simp add: lexer_emit_token_def word_state_def)
  moreover have "word_state [] False [] False rest (ts @ [?t]) ?lx"
    using assms \<open>tok_type ?t = ty\<close> by (auto simp: word_state_def)
  ultimately show thesis using that v by blast
qed

definition no_blank :: "string \<Rightarrow> bool" where
  "no_blank s \<longleftrightarrow> (case s of [] \<Rightarrow> True | c # _ \<Rightarrow> c \<noteq> CHR '' '' \<and> c \<noteq> TAB)"

lemma skip_no_blank:
  assumes "no_blank (drop (lx_pos lx) (lx_input lx))"
  shows "lexer_skip_whitespace lx = lx"
proof (cases "lexer_at_end lx")
  case True
  then show ?thesis by (simp add: lexer_skip_whitespace_def advance_while.simps)
next
  case False
  then have "drop (lx_pos lx) (lx_input lx) = lexer_peek lx # drop (Suc (lx_pos lx)) (lx_input lx)"
    by (simp add: lexer_at_end_def lexer_peek_def lexer_peek_ahead_def Cons_nth_drop_Suc)
  with assms show ?thesis by (auto simp: lexer_skip_whitespace_def advance_while.simps no_blank_def)
qed

lemma pass_blank:
  assumes "word_state [] True ps q (CHR '' '' # rest) ts lx" "no_blank rest"
  shows "\<exists>lx1 t. normal_pass lx = Some (Go lx1) \<and> view t = (TOKEN_WORD, Some ps, q) \<and> word_state [] False [] False rest (ts @ [t]) lx1"
proof -
  from assms(1) obtain lx1 t where lx1: "lexer_finalize_word lx = Some lx1" "view t = (TOKEN_WORD, Some ps, q)"
    "word_state [] False [] False (CHR '' '' # rest) (ts @ [t]) lx1" by (rule word_state_finalize)
  from lx1(3) obtain lx2 where lx2: "lexer_advance lx1 = Some lx2" "word_state [] False [] False rest (ts @ [t]) lx2"
    by (rule word_state_advance)
  have "lexer_skip_whitespace lx1 = lexer_skip_whitespace lx2"
    using lx2(1) word_state_peek [OF lx1(3)]
    by (simp add: lexer_skip_whitespace_def advance_while.simps [of _ lx1])
  moreover have "lexer_skip_whitespace lx2 = lx2"
    using skip_no_blank [of lx2] assms(2) lx2(2) by (simp add: word_state_def)
  moreover have "lx_in_word lx" using assms(1) by (simp add: word_state_def)
  ultimately show ?thesis
    using lx1 lx2 by (auto simp: normal_pass_def word_state_peek [OF assms(1)] finalize_if_word_def go_def)
qed

lemma pass_space:
  assumes "word_state [] False [] False (CHR '' '' # rest) ts lx" "no_blank rest"
  shows "\<exists>lx1. normal_pass lx = Some (Go lx1) \<and> word_state [] False [] False rest ts lx1"
proof -
  from assms(1) obtain lx2 where lx2: "lexer_advance lx = Some lx2" "word_state [] False [] False rest ts lx2"
    by (rule word_state_advance)
  have "lexer_skip_whitespace lx = lexer_skip_whitespace lx2"
    using lx2(1) word_state_peek [OF assms(1)]
    by (simp add: lexer_skip_whitespace_def advance_while.simps [of _ lx])
  moreover have "lexer_skip_whitespace lx2 = lx2"
    using skip_no_blank [of lx2] assms(2) lx2(2) by (simp add: word_state_def)
  moreover have "\<not> lx_in_word lx" using assms(1) by (simp add: word_state_def)
  ultimately show ?thesis
    using lx2 by (auto simp: normal_pass_def word_state_peek [OF assms(1)] finalize_if_word_def go_def)
qed

lemma pass_newline:
  assumes "word_state [] False [] False (NEWLINE # rest) ts lx"
  shows "\<exists>lx1 t. normal_pass lx = Some (Go lx1) \<and> view t = (TOKEN_NEWLINE, None, False) \<and>
    word_state [] False [] False rest (ts @ [t]) lx1"
proof -
  from assms obtain lx2 where lx2: "lexer_advance lx = Some lx2" "word_state [] False [] False rest ts lx2"
    by (rule word_state_advance)
  from lx2(2) obtain lx3 t where lx3: "lexer_emit_token TOKEN_NEWLINE lx2 = Some lx3" "view t = (TOKEN_NEWLINE, None, False)"
    "word_state [] False [] False rest (ts @ [t]) lx3" by (rule word_state_emit [of _ _ _ TOKEN_NEWLINE]) simp_all
  have "\<not> lx_in_word lx" "lx_heredoc_queue lx3 = []" using assms lx3(3) by (simp_all add: word_state_def)
  with lx2 lx3 show ?thesis
    by (auto simp: normal_pass_def word_state_peek [OF assms] normal_newline_def finalize_if_word_def go_def)
qed

lemma word_state_advance_times:
  "word_state ms w ps q (s @ rest) ts lx \<Longrightarrow> \<exists>lx1. advance_times (length s) lx = Some lx1 \<and> word_state ms w ps q rest ts lx1"
proof (induction s arbitrary: lx)
  case (Cons c s)
  then obtain lx1 where "lexer_advance lx = Some lx1" "word_state ms w ps q (s @ rest) ts lx1"
    using word_state_advance by (metis append_Cons)
  with Cons.IH show ?case by auto
qed simp

lemma plain_operators_eval:
  "plain_operators = [(TOKEN_AND_IF, ''&&''), (TOKEN_OR_IF, ''||''), (TOKEN_DSEMI, '';;''), (TOKEN_DGREAT, ''>>''),
      (TOKEN_LESSAND, ''<&''), (TOKEN_GREATAND, ''>&''), (TOKEN_LESSGREAT, ''<>''),
      (TOKEN_CLOBBER, ''>|''), (TOKEN_PIPE, ''|''), (TOKEN_SEMI, '';''), (TOKEN_AMPER, ''&''), (TOKEN_LPAREN, ''(''),
      (TOKEN_RPAREN, '')''), (TOKEN_GREATER, ''>''), (TOKEN_LESS, ''<'')]"
  by (simp add: plain_operators_def normal_mode_operators_def)

definition longest_operator :: "string \<Rightarrow> (token_type \<times> string) option" where
  "longest_operator s =
     (let m = (\<lambda>n. find (\<lambda>(t, op). length op = n \<and> take (length op) s = op) normal_mode_operators)
      in case m 3 of Some r \<Rightarrow> Some r | None \<Rightarrow> (case m 2 of Some r \<Rightarrow> Some r | None \<Rightarrow> m 1))"

lemma match_operator_longest: "match_operator lx = longest_operator (drop (lx_pos lx) (lx_input lx))"
  unfolding match_operator_def longest_operator_def match_operator_of_length_def lexer_input_starts_with_def Let_def ..

lemma longest_plain:
  "list_all (\<lambda>(t, op). longest_operator (op @ CHR '' '' # rest) = Some (t, op)) plain_operators"
  by code_simp

lemma match_plain_operator:
  assumes "(t, op) \<in> set plain_operators" "drop (lx_pos lx) (lx_input lx) = op @ CHR '' '' # rest"
  shows "match_operator lx = Some (t, op)"
  using assms longest_plain [of rest] unfolding match_operator_longest list_all_iff by fastforce

lemma plain_operators_shape:
  "list_all (\<lambda>(t, op). t \<notin> {TOKEN_WORD, TOKEN_IO_NUMBER, TOKEN_EOF} \<and>
     (case op @ '' '' of c # d # _ \<Rightarrow> op \<noteq> [] \<and> c \<notin> {CHR '' '', TAB, NEWLINE, BACKSLASH, CHR ''{''} \<and> \<not> c_isdigit c \<and> [c, d] \<noteq> ''<<'' | _ \<Rightarrow> False))
   plain_operators"
  by code_simp

lemma process_operator:
  assumes "word_state [] False [] False (op @ CHR '' '' # rest) ts lx" "(t, op) \<in> set plain_operators"
  shows "\<exists>lx1 tok. process_mode lx = Some (LEX_OK, lx1) \<and> view tok = (t, None, False) \<and>
    word_state [] False [] False (CHR '' '' # rest) (ts @ [tok]) lx1"
proof -
  have d: "drop (lx_pos lx) (lx_input lx) = op @ CHR '' '' # rest" using assms(1) by (simp add: word_state_def)
  have shape: "t \<notin> {TOKEN_WORD, TOKEN_IO_NUMBER, TOKEN_EOF} \<and>
     (case op @ '' '' of c # d # _ \<Rightarrow> op \<noteq> [] \<and> c \<notin> {CHR '' '', TAB, NEWLINE, BACKSLASH, CHR ''{''} \<and> \<not> c_isdigit c \<and> [c, d] \<noteq> ''<<'' | _ \<Rightarrow> False)"
    using plain_operators_shape assms(2) unfolding list_all_iff by blast
  then have ty: "t \<notin> {TOKEN_WORD, TOKEN_IO_NUMBER, TOKEN_EOF}" by blast
  from shape obtain c cs where c: "op = c # cs" "c \<notin> {CHR '' '', TAB, NEWLINE, BACKSLASH, CHR ''{''}" "\<not> c_isdigit c"
    by (cases op) (auto split: list.splits)
  with shape have "take 2 (op @ CHR '' '' # rest) \<noteq> ''<<''" by (cases cs) auto
  note c = c this
  have w: "word_state [] False [] False (c # cs @ CHR '' '' # rest) ts lx" using assms(1) c(1) by simp
  have "normal_pass lx = normal_operator c lx"
    using pass_operator [OF w] c by (simp add: quiet_def)
  moreover have "finalize_if_word lx = Some lx" using w by (simp add: finalize_if_word_def word_state_def)
  moreover obtain lx1 where lx1: "advance_times (length op) lx = Some lx1" "word_state [] False [] False (CHR '' '' # rest) ts lx1"
    using word_state_advance_times [OF assms(1)] by blast
  moreover from lx1(2) ty obtain lx2 tok where "lexer_emit_token t lx1 = Some lx2" "view tok = (t, None, False)"
    "word_state [] False [] False (CHR '' '' # rest) (ts @ [tok]) lx2" by (rule word_state_emit)
  moreover have "lx_mode_stack lx = []" using w by (simp add: word_state_def)
  ultimately show ?thesis
    using match_plain_operator [OF assms(2) d] word_state_peek(2) [OF w]
    by (auto simp: process_mode_def lexer_current_mode_def lexer_process_one_normal_token_def normal_loop.simps [of lx]
        normal_operator_def)
qed

subsection \<open>Whole lines\<close>

lemma word_state_tokens: "word_state ms w ps q rest ts lx \<Longrightarrow> set us \<subseteq> set ts \<Longrightarrow> word_state ms w ps q rest us (lx\<lparr>lx_tokens := us\<rparr>)"
  by (auto simp: word_state_def)

lemma lexes_pass:
  assumes "word_state [] w ps q (c # rest) ts lx" "normal_pass lx = Some (Go lx1)" "lx_tokens lx1 = ts @ new" "lexes lx1 vs"
  shows "lexes lx (map view new @ vs)"
proof (rule lexes_go [OF _ word_state_peek(2) [OF assms(1)] assms(2) _ assms(4)])
qed (use assms(1,3) in \<open>simp_all add: word_state_def\<close>)

text \<open>In what follows, \<open>later\<close> says that the rest of the line is read from any state that this segment leaves.\<close>

lemma lexes_plain:
  assumes "word_state [] w ps q (s @ rest) ts lx" "s \<noteq> []" "list_all plain_char s" "calm rest"
    and later: "\<And>ts lx. word_state [] True (add_text False False s ps) q rest ts lx \<Longrightarrow> lexes lx vs"
  shows "lexes lx vs"
  using assms
proof (induction s arbitrary: w ps lx)
  case (Cons c s)
  have plain: "list_all (\<lambda>c. \<not> is_redirection_start_char c) (c # s)"
    using Cons.prems(3) by (rule plain_not_redirection)
  have "word_state [] w ps q (c # s @ rest) ts lx" "plain_char c" "quiet (c # s @ rest)"
    using Cons.prems calm_append [OF plain Cons.prems(4)] by (simp_all add: quiet_def)
  from pass_plain [OF this] obtain lx1 where lx1: "normal_pass lx = Some (Go lx1)"
    "word_state [] True (add_text False False [c] ps) q (s @ rest) ts lx1" by blast
  have "lexes lx1 vs"
  proof (cases "s = []")
    case True
    with lx1(2) Cons.prems(5) show ?thesis by simp
  next
    case False
    with Cons lx1(2) show ?thesis by (simp add: add_text_step [of False False c s])
  qed
  with lexes_pass [OF \<open>word_state [] w ps q (c # s @ rest) ts lx\<close> lx1(1), of "[]"] lx1(2) show ?case
    by (simp add: word_state_def)
qed simp

lemma lexes_escaped:
  assumes "word_state [] w ps q (BACKSLASH # c # rest) ts lx" "c \<noteq> NEWLINE" "c \<noteq> NUL"
    and later: "\<And>ts lx. word_state [] True (add_text False False [c] ps) True rest ts lx \<Longrightarrow> lexes lx vs"
  shows "lexes lx vs"
  using pass_escaped [OF assms(1-3)] lexes_pass [OF assms(1), of _ "[]"] later by (fastforce simp: word_state_def)

lemma lexes_quote:
  assumes "word_state [] w ps q (c # s @ rest) ts lx" "s @ rest \<noteq> []"
    "c = SQUOTE \<and> m = LEX_SINGLE_QUOTE \<or> c = DQUOTE \<and> m = LEX_DOUBLE_QUOTE"
    and mode: "\<And>ts lx. word_state [m] w ps q (s @ rest) ts lx \<Longrightarrow>
      \<exists>lx1. process_mode lx = Some (LEX_OK, lx1) \<and> word_state [] True qs True rest ts lx1"
    and later: "\<And>ts lx. word_state [] True qs True rest ts lx \<Longrightarrow> lexes lx vs"
  shows "lexes lx vs"
proof -
  have inner: "lexes k vs" if "word_state [m] w ps q (s @ rest) us k" for us k
  proof -
    from mode [OF that] obtain k1 where k1: "process_mode k = Some (LEX_OK, k1)" "word_state [] True qs True rest us k1" by blast
    have "lexes k (map view [] @ vs)"
    proof (rule lexes_mode [OF k1(1)])
      show "lexes (k1\<lparr>lx_tokens := ts\<rparr>) vs" if "ts = [] \<or> ts = lx_tokens k1" for ts
        by (rule later [OF word_state_tokens [OF k1(2)]]) (use that k1(2) in \<open>auto simp: word_state_def\<close>)
    qed (use k1(2) that in \<open>auto simp: word_state_def no_eof_def\<close>)
    then show ?thesis by simp
  qed
  from pass_quote [OF assms(1,3)] obtain k where k: "process_mode lx = Some (LEX_INCOMPLETE, k)"
    "word_state [m] w ps q (s @ rest) ts k" by blast
  have "\<not> lexer_at_end k" using k(2) assms(2) by (auto simp: word_state_def lexer_at_end_def)
  have "lexes lx (map view [] @ vs)"
  proof (rule lexes_mode [OF k(1)])
    show "lexes (k\<lparr>lx_tokens := us\<rparr>) vs" if "us = [] \<or> us = lx_tokens k" for us
      by (rule inner [OF word_state_tokens [OF k(2)]]) (use that k(2) in \<open>auto simp: word_state_def\<close>)
  qed (use k(2) assms(1) \<open>\<not> lexer_at_end k\<close> in \<open>auto simp: word_state_def no_eof_def\<close>)
  then show ?thesis by simp
qed

lemma lexes_segment:
  assumes "word_state [] w ps q (render_segment seg @ rest) ts lx" "segment_ok seg" "calm rest"
    and later: "\<And>ts lx. word_state [] True (add_segment seg ps) (q \<or> quoted_segment seg) rest ts lx \<Longrightarrow> lexes lx vs"
  shows "lexes lx vs"
proof (cases seg)
  case (Plain s)
  with assms show ?thesis by (intro lexes_plain [of w ps q s rest ts lx vs]) simp_all
next
  case (Single s)
  show ?thesis
  proof (rule lexes_quote [of w ps q SQUOTE "s @ [SQUOTE]" rest ts lx LEX_SINGLE_QUOTE "add_segment seg ps"])
    show "\<exists>k. process_mode l = Some (LEX_OK, k) \<and> word_state [] True (add_segment seg ps) True rest us k"
      if "word_state [LEX_SINGLE_QUOTE] w ps q ((s @ [SQUOTE]) @ rest) us l" for us l
      using process_squote_state [of w ps q s rest us l] that assms(2) Single
      by (auto simp: process_mode_def lexer_current_mode_def word_state_def)
  qed (use assms Single in simp_all)
next
  case (Double s)
  show ?thesis
  proof (rule lexes_quote [of w ps q DQUOTE "escape_double s @ [DQUOTE]" rest ts lx LEX_DOUBLE_QUOTE "add_segment seg ps"])
    show "\<exists>k. process_mode l = Some (LEX_OK, k) \<and> word_state [] True (add_segment seg ps) True rest us k"
      if "word_state [LEX_DOUBLE_QUOTE] w ps q ((escape_double s @ [DQUOTE]) @ rest) us l" for us l
      using process_dquote_state [of w ps q s rest us l] that assms(2) Double
      by (auto simp: process_mode_def lexer_current_mode_def word_state_def)
  qed (use assms Double in simp_all)
next
  case (Escaped c)
  with assms show ?thesis by (intro lexes_escaped [of w ps q c rest ts lx vs]) simp_all
qed

lemma segment_text_calm: "segment_ok seg \<Longrightarrow> calm r \<Longrightarrow> calm (render_segment seg @ r)"
  by (cases seg) (simp_all add: calm_append plain_not_redirection)

lemma segments_calm: "list_all segment_ok segs \<Longrightarrow> calm (concat (map render_segment segs) @ CHR '' '' # r)"
  by (induction segs) (auto simp: segment_text_calm)

lemma lexes_segments:
  assumes "word_state [] w ps q (concat (map render_segment segs) @ CHR '' '' # rest) ts lx" "list_all segment_ok segs" "segs \<noteq> []"
    and later: "\<And>ts lx. word_state [] True (fold add_segment segs ps) (q \<or> list_ex quoted_segment segs) (CHR '' '' # rest) ts lx \<Longrightarrow> lexes lx vs"
  shows "lexes lx vs"
  using assms
proof (induction segs arbitrary: w ps q ts lx)
  case (Cons seg segs)
  show ?case
  proof (rule lexes_segment [of w ps q seg "concat (map render_segment segs) @ CHR '' '' # rest" ts lx])
    fix us k
    assume k: "word_state [] True (add_segment seg ps) (q \<or> quoted_segment seg) (concat (map render_segment segs) @ CHR '' '' # rest) us k"
    show "lexes k vs"
    proof (cases "segs = []")
      case True
      with k Cons.prems(4) show ?thesis by simp
    next
      case False
      from Cons.IH [OF k _ False] Cons.prems(2,4) show ?thesis by (simp add: disj_assoc)
    qed
  qed (use Cons.prems segments_calm in simp_all)
qed simp

lemma operator_text_head: "t \<in> set (map fst plain_operators) \<Longrightarrow> \<exists>c cs. operator_text t = c # cs \<and> c \<noteq> CHR '' '' \<and> c \<noteq> TAB"
  unfolding plain_operators_eval operator_text_def normal_mode_operators_def by (simp, elim disjE; simp)

lemma render_segment_head: "segment_ok seg \<Longrightarrow> no_blank (render_segment seg @ r)"
proof (cases seg)
  case (Plain s)
  assume "segment_ok seg"
  with Plain obtain c cs where "s = c # cs" "plain_char c" by (cases s) auto
  with Plain show ?thesis by (auto simp: no_blank_def dest: plain_char_not)
qed (simp_all add: no_blank_def)

lemma render_line_head: "list_all item_ok items \<Longrightarrow> no_blank (render_line items)"
proof (cases items)
  case (Cons it its)
  assume "list_all item_ok items"
  with Cons have ok: "item_ok it" by simp
  show ?thesis
  proof (cases it)
    case (Wrd segs)
    with ok obtain seg sgs where "segs = seg # sgs" "segment_ok seg" by (cases segs) auto
    with Wrd Cons show ?thesis by (simp add: render_line_def render_segment_head)
  next
    case (Opr t)
    with ok operator_text_head [of t] Cons show ?thesis by (auto simp: render_line_def no_blank_def)
  next
    case Line
    with Cons show ?thesis by (simp add: render_line_def no_blank_def)
  qed
qed (simp add: render_line_def no_blank_def)

lemma operator_text_in: "t \<in> set (map fst plain_operators) \<Longrightarrow> (t, operator_text t) \<in> set plain_operators"
  unfolding plain_operators_eval operator_text_def normal_mode_operators_def by (simp, elim disjE; simp)

theorem lexes_line:
  "word_state [] False [] False (render_line items) ts lx \<Longrightarrow> list_all item_ok items \<Longrightarrow> lexes lx (map item_view items)"
proof (induction items arbitrary: ts lx)
  case Nil
  then show ?case by (simp add: render_line_def) (rule lexes_end, auto simp: word_state_def lexer_at_end_def no_eof_def)
next
  case (Cons it items)
  let ?rest = "render_line items"
  have ok: "item_ok it" "list_all item_ok items" and st: "word_state [] False [] False (render_item it @ ?rest) ts lx"
    using Cons.prems by (simp_all add: render_line_def)
  have head: "no_blank ?rest" using render_line_head [OF ok(2)] .
  have further: "lexes k (map item_view items)" if "word_state [] False [] False ?rest us k" for us k
    using Cons.IH that ok(2) by blast
  show ?case
  proof (cases it)
    case (Wrd segs)
    have "lexes lx (item_view it # map item_view items)"
    proof (rule lexes_segments [of False "[]" False segs ?rest ts lx])
      fix us k
      assume k: "word_state [] True (fold add_segment segs []) (False \<or> list_ex quoted_segment segs) (CHR '' '' # ?rest) us k"
      from pass_blank [OF k head] obtain k1 t where "normal_pass k = Some (Go k1)" "view t = item_view it"
        "word_state [] False [] False ?rest (us @ [t]) k1" using Wrd by auto
      with lexes_pass [OF k, of k1 "[t]"] further show "lexes k (item_view it # map item_view items)"
        by (simp add: word_state_def)
    qed (use st ok Wrd in simp_all)
    then show ?thesis by simp
  next
    case (Opr t)
    then have op: "(t, operator_text t) \<in> set plain_operators" using ok(1) operator_text_in by simp
    have blank: "lexes k (map item_view items)" if k: "word_state [] False [] False (CHR '' '' # ?rest) us k" for us k
    proof -
      from pass_space [OF k head] obtain k1 where "normal_pass k = Some (Go k1)" "word_state [] False [] False ?rest us k1" by blast
      with lexes_pass [OF k, of k1 "[]"] further show ?thesis by (simp add: word_state_def)
    qed
    from process_operator [OF _ op] st Opr obtain k tok where k: "process_mode lx = Some (LEX_OK, k)" "view tok = item_view it"
      "word_state [] False [] False (CHR '' '' # ?rest) (ts @ [tok]) k" by fastforce
    have "lexes lx (map view [tok] @ map item_view items)"
    proof (rule lexes_mode [OF k(1)])
      show "lexes (k\<lparr>lx_tokens := us\<rparr>) (map item_view items)" if "us = [] \<or> us = lx_tokens k" for us
        by (rule blank [OF word_state_tokens [OF k(3)]]) (use that k(3) in \<open>auto simp: word_state_def\<close>)
    qed (use k(3) st in \<open>auto simp: word_state_def no_eof_def\<close>)
    with k(2) show ?thesis by simp
  next
    case Line
    with st have st': "word_state [] False [] False (NEWLINE # ?rest) ts lx" by simp
    from pass_newline [OF this] obtain k t where k: "normal_pass lx = Some (Go k)" "view t = item_view it"
      "word_state [] False [] False ?rest (ts @ [t]) k" using Line by auto
    with lexes_pass [OF st', of k "[t]"] further show ?thesis by (simp add: word_state_def)
  qed
qed

end
