(* ===== verification/Lexer_Props.thy ===== *)
theory Lexer_Props
  imports Lexer_Words
begin

section \<open>Properties of the lexer\<close>

subsection \<open>Helpers\<close>

lemma initial_state:
  assumes "int (length s) < INT_MAX"
  shows "word_state [] False [] False s [] (lexer_create_with_input_cstr s)"
  using assms by (simp add: lexer_create_with_input_cstr_def append_input_short lexer_create_def word_state_def)

lemma lex_cstr_drive:
  "lex_cstr_to_tokens s = map_option (map_option (\<lambda>(st, out, lx). (st, out))) (drive [] (lexer_create_with_input_cstr s))"
  by (simp add: lex_cstr_to_tokens_def lexer_tokenize_def tokenize_loop_drive lexer_create_with_input_cstr_def
      lexer_append_input_def Let_def lexer_create_def)

lemma lexes_result:
  "lexes (lexer_create_with_input_cstr s) vs \<Longrightarrow> int (length s) < INT_MAX \<Longrightarrow>
   \<exists>ts. lex_cstr_to_tokens s = Some (Some (LEX_OK, ts)) \<and> map view ts = vs"
  using initial_state [of s] unfolding lexes_def lex_cstr_drive
  by (fastforce simp: word_state_def dest: spec [of _ "[]"])

definition word_of_view :: "view \<Rightarrow> string" where
  "word_of_view v = (case v of (_, Some ps, _) \<Rightarrow> parts_text ps | _ \<Rightarrow> [])"

lemma all_text_view: "view t = (TOKEN_WORD, Some ps, q) \<Longrightarrow> token_get_all_text t = Some (parts_text ps)"
  by (auto simp: view_def token_get_all_text_def parts_text_def)

lemma drive_same_loop:
  assumes "lx_mode_stack lx = []" "lx_mode_stack lx' = []" "normal_loop lx = normal_loop lx'"
  shows "drive out lx = drive out lx'"
proof -
  have "process_mode lx = process_mode lx'"
    using assms by (simp add: process_mode_def lexer_current_mode_def lexer_process_one_normal_token_def)
  then show ?thesis by (simp add: drive_def process_loop.simps [of 0 lx] process_loop.simps [of 0 lx'])
qed

lemma drive_plain:
  assumes "word_state [] w ps q (s @ rest) ts lx" "list_all plain_char s"
    "calm rest \<or> list_all (\<lambda>c. \<not> c_isdigit c \<and> c \<noteq> CHR ''{'') s"
  shows "\<exists>lx'. drive out lx = drive out lx' \<and> word_state [] (w \<or> s \<noteq> []) (add_text False False s ps) q rest ts lx'"
  using assms
proof (induction s arbitrary: w ps lx)
  case Nil
  then show ?case by (auto simp: add_text_def)
next
  case (Cons c s)
  have c: "word_state [] w ps q (c # s @ rest) ts lx" "plain_char c" "quiet (c # s @ rest)"
    using Cons.prems calm_append [OF plain_not_redirection [OF Cons.prems(2)]] by (auto simp: quiet_def)
  from pass_plain [OF this] obtain lx1 where lx1: "normal_pass lx = Some (Go lx1)"
    "word_state [] True (add_text False False [c] ps) q (s @ rest) ts lx1" by blast
  have "normal_loop lx = normal_loop lx1" using lx1(1) word_state_peek(2) [OF c(1)] by (simp add: normal_loop.simps [of lx])
  then have "drive out lx = drive out lx1" by (rule drive_same_loop [rotated 2]) (use c(1) lx1(2) in \<open>simp_all add: word_state_def\<close>)
  with Cons.IH [OF lx1(2)] Cons.prems(2,3) show ?case by (auto simp: add_text_step [of False False c s])
qed

subsection \<open>A dangling dollar\<close>

lemma pass_dangling:
  assumes "word_state [] w ps q ''$'' ts lx"
  shows "normal_pass lx = Some (Stop LEX_INCOMPLETE lx)"
proof -
  have "normal_pass lx = normal_char CHR ''$'' lx"
    using pass_char [OF assms] by (simp add: quiet_def lexer_is_metachar_def c_isdigit_def)
  then show ?thesis
    using word_state_peek [OF assms] by (simp add: normal_char_def normal_dollar_def Let_def)
qed

lemma process_loop_stuck:
  "process_loop n lx = Some r \<Longrightarrow> \<forall>st. process_mode lx = Some (st, lx) \<longrightarrow> loop_returns n st lx \<noteq> None"
proof (rule process_loop.raw_induct
    [where P = "\<lambda>n lx _. \<forall>st. process_mode lx = Some (st, lx) \<longrightarrow> loop_returns n st lx \<noteq> None"])
  fix f n lx and r :: "(lex_status \<times> lexer) option"
  assume IH: "\<And>n lx r. f n lx = Some r \<Longrightarrow> \<forall>st. process_mode lx = Some (st, lx) \<longrightarrow> loop_returns n st lx \<noteq> None"
    and run: "(case process_mode lx of None \<Rightarrow> Some None
      | Some (status, lx) \<Rightarrow> (case loop_returns n status lx of Some result \<Rightarrow> Some (Some (result, lx)) | None \<Rightarrow> f n lx)) = Some r"
  show "\<forall>st. process_mode lx = Some (st, lx) \<longrightarrow> loop_returns n st lx \<noteq> None"
  proof (intro allI impI notI)
    fix st
    assume m: "process_mode lx = Some (st, lx)" and none: "loop_returns n st lx = None"
    with run have "f n lx = Some r" by simp
    with IH m none show False by blast
  qed
qed

lemma process_loop_diverges:
  assumes "process_mode lx = Some (st, lx)" "loop_returns n st lx = None"
  shows "process_loop n lx = None"
  using process_loop_stuck [of n lx] assms by (cases "process_loop n lx") auto

text \<open>A line that ends with a bare dollar after a plain word (also the line \<open>$\<close> alone) makes the
  lexer run for ever.\<close>

theorem dangling_dollar_diverges:
  assumes "list_all plain_char s" "int (length s) < INT_MAX - 1"
  shows "lex_cstr_to_tokens (s @ ''$'') = None"
proof -
  have "calm ''$''"
    by (simp add: calm_Cons locator_def is_name_char_def c_isalnum_def c_isalpha_def c_isdigit_def is_redirection_start_char_def)
  with drive_plain [of False "[]" False s "''$''" "[]"] initial_state [of "s @ ''$''"] assms obtain lx
    where lx: "drive [] (lexer_create_with_input_cstr (s @ ''$'')) = drive [] lx"
      "word_state [] (s \<noteq> []) (add_text False False s []) False ''$'' [] lx" by fastforce
  have "process_mode lx = Some (LEX_INCOMPLETE, lx)"
    using pass_dangling [OF lx(2)] word_state_peek(2) [OF lx(2)] lx(2)
    by (simp add: process_mode_def lexer_current_mode_def lexer_process_one_normal_token_def normal_loop.simps [of lx] word_state_def)
  moreover have "loop_returns 0 LEX_INCOMPLETE lx = None"
    using lx(2) word_state_peek(2) [OF lx(2)] by (simp add: loop_returns_def word_state_def)
  ultimately show ?thesis
    using process_loop_diverges by (simp add: lex_cstr_drive lx(1)) (simp add: drive_def)
qed

theorem dangling_dollar_diverges_witness: "lex_cstr_to_tokens (''cost'' @ ''$'') = None"
  by (rule dangling_dollar_diverges) code_simp+



text \<open>C4: A line of words with plain, single-quoted, double-quoted and escaped segments, of operators (other
  than the two of here-documents) and of newlines is read back as exactly these tokens, each word with its
  text joined into parts by how it was quoted, and with its quoting noted.\<close>

theorem lexer_reads_line:
  assumes "list_all item_ok items" "int (length (render_line items)) < INT_MAX"
  shows "\<exists>ts. lex_cstr_to_tokens (render_line items) = Some (Some (LEX_OK, ts)) \<and> map view ts = map item_view items"
  using lexes_result [OF lexes_line [OF initial_state [OF assms(2)] assms(1)] assms(2)] .

theorem lexer_reads_line_witness:
  "\<exists>ts. lex_cstr_to_tokens (render_line [Wrd [Plain ''a'', Single ''$x''], Opr TOKEN_GREATER, Wrd [Double ''b c''], Line]) =
     Some (Some (LEX_OK, ts)) \<and>
     map view ts = map item_view [Wrd [Plain ''a'', Single ''$x''], Opr TOKEN_GREATER, Wrd [Double ''b c''], Line]"
  by (rule lexer_reads_line) code_simp+

text \<open>The text of a word is the text of its segments: quoting a string in any of the four ways, or in
  pieces, does not change what is read.\<close>

theorem quoting_keeps_text:
  assumes "segs \<noteq> []" "list_all segment_ok segs" "int (length (render_line [Wrd segs])) < INT_MAX"
  shows "\<exists>t. lex_cstr_to_tokens (render_line [Wrd segs]) = Some (Some (LEX_OK, [t])) \<and>
    token_get_all_text t = Some (concat (map segment_text segs))"
proof -
  have "list_all item_ok [Wrd segs]" using assms(1,2) by simp
  from lexes_result [OF lexes_line [OF initial_state [OF assms(3)] this] assms(3)] obtain ts
    where ts: "lex_cstr_to_tokens (render_line [Wrd segs]) = Some (Some (LEX_OK, ts))" "map view ts = [item_view (Wrd segs)]"
    by auto
  then obtain t where t: "ts = [t]" "view t = item_view (Wrd segs)" by auto
  with all_text_view [of t "fold add_segment segs []"] parts_text_segments [of "[]" segs] ts(1) show ?thesis
    by (auto simp: parts_text_def)
qed

theorem quoting_keeps_text_witness:
  "\<exists>t. lex_cstr_to_tokens (render_line [Wrd [Double ''a\"$'', Escaped CHR '' '', Single ''b'']]) = Some (Some (LEX_OK, [t])) \<and>
    token_get_all_text t = Some (concat (map segment_text [Double ''a\"$'', Escaped CHR '' '', Single ''b'']))"
  by (rule quoting_keeps_text) code_simp+


subsection \<open>Operators\<close>

lemma longest_operator_found:
  "case match_operator lx of
     Some (t, op) \<Rightarrow> (t, op) \<in> set normal_mode_operators \<and> lexer_input_starts_with lx op \<and>
       (\<forall>(t', op') \<in> set normal_mode_operators. lexer_input_starts_with lx op' \<longrightarrow> length op' \<le> length op)
   | None \<Rightarrow> \<forall>(t', op') \<in> set normal_mode_operators. \<not> lexer_input_starts_with lx op'"
proof -
  have lengths: "length op \<in> {1, 2, 3}" if "(t, op) \<in> set normal_mode_operators" for t op
  proof -
    have "list_all (\<lambda>(t, op). length op \<in> {1, 2, 3}) normal_mode_operators" by code_simp
    with that show ?thesis by (auto simp: list_all_iff)
  qed
  have found: "(t, op) \<in> set normal_mode_operators \<and> length op = n \<and> lexer_input_starts_with lx op"
    if "match_operator_of_length lx n = Some (t, op)" for n t op
    using that unfolding match_operator_of_length_def by (auto simp: find_Some_iff dest: nth_mem)
  have missing: "\<not> (length op = n \<and> lexer_input_starts_with lx op)"
    if "match_operator_of_length lx n = None" "(t, op) \<in> set normal_mode_operators" for n t op
    using that unfolding match_operator_of_length_def by (auto simp: find_None_iff)
  let ?at = "\<lambda>n. match_operator_of_length lx n"
  have longest: "length op' \<le> n"
    if "(t', op') \<in> set normal_mode_operators" "lexer_input_starts_with lx op'" "\<forall>m \<in> {1, 2, 3}. n < m \<longrightarrow> ?at m = None" for t' op' n
    using that missing [of "length op'" t' op'] lengths [of t' op'] by (meson not_le)
  consider t op where "?at 3 = Some (t, op)" "match_operator lx = Some (t, op)"
    | t op where "?at 3 = None" "?at 2 = Some (t, op)" "match_operator lx = Some (t, op)"
    | t op where "?at 3 = None" "?at 2 = None" "?at 1 = Some (t, op)" "match_operator lx = Some (t, op)"
    | "?at 3 = None" "?at 2 = None" "?at 1 = None" "match_operator lx = None"
    unfolding match_operator_def by (cases "?at 3"; cases "?at 2"; cases "?at 1") auto
  then show ?thesis
  proof cases
    case 1
    with found [OF 1(1)] longest [of _ _ 3] show ?thesis by auto
  next
    case 2
    with found [OF 2(2)] longest [of _ _ 2] show ?thesis by auto
  next
    case 3
    with found [OF 3(3)] longest [of _ _ 1] show ?thesis by auto
  next
    case 4
    with longest [of _ _ 0] lengths show ?thesis by fastforce
  qed
qed

definition operators_here :: "lexer \<Rightarrow> (token_type \<times> string) list" where
  "operators_here lx = filter (\<lambda>(t, op). lexer_input_starts_with lx op) normal_mode_operators"

text \<open>The operator at a position is one that the input starts with there and has the length of the longest
  of them; there is none exactly when the input starts with no operator.\<close>

theorem operators_maximal_munch:
  "set_option (match_operator lx) \<subseteq> set (operators_here lx) \<and>
   map_option (length \<circ> snd) (match_operator lx) =
     (if operators_here lx = [] then None else Some (Max ((length \<circ> snd) ` set (operators_here lx))))"
proof (cases "match_operator lx")
  case None
  with longest_operator_found [of lx] show ?thesis by (auto simp: operators_here_def filter_empty_conv)
next
  case (Some r)
  obtain t op where r: "r = (t, op)" by (cases r)
  have here: "(t, op) \<in> set (operators_here lx)"
    and max: "\<And>t' op'. (t', op') \<in> set (operators_here lx) \<Longrightarrow> length op' \<le> length op"
    using longest_operator_found [of lx] Some r by (auto simp: operators_here_def)
  have "Max ((length \<circ> snd) ` set (operators_here lx)) = length op"
    using here max by (intro Max_eqI) force+
  with here Some r show ?thesis by auto
qed

subsection \<open>Contract violations\<close>

lemma drive_aborts:
  "word_state [] w ps q (c # rest) ts lx \<Longrightarrow> normal_pass lx = None \<Longrightarrow> drive out lx = Some None"
  using word_state_peek(2) [of "[]" w ps q c rest ts lx]
  unfolding drive_def
  by (subst process_loop.simps)
    (simp add: process_mode_def lexer_current_mode_def lexer_process_one_normal_token_def normal_loop.simps [of lx] word_state_def)

text \<open>A hash inside an unquoted word, as in \<open>a#b\<close>, violates a contract of the lexer and ends the
  program, where it should be an ordinary character of the word.\<close>

theorem hash_in_word_aborts:
  assumes "list_all plain_char s" "s \<noteq> []" "int (length (s @ ''#'' @ r)) < INT_MAX"
  shows "lex_cstr_to_tokens (s @ ''#'' @ r) = Some None"
proof -
  have c: "calm (CHR ''#'' # r)"
    by (simp add: calm_Cons locator_def is_name_char_def c_isalnum_def c_isalpha_def c_isdigit_def is_redirection_start_char_def)
  with drive_plain [of False "[]" False s "''#'' @ r" "[]"] initial_state [of "s @ ''#'' @ r"] assms obtain lx
    where lx: "drive [] (lexer_create_with_input_cstr (s @ ''#'' @ r)) = drive [] lx"
      "word_state [] True (add_text False False s []) False (CHR ''#'' # r) [] lx" by fastforce
  have "lexer_start_word lx = None" "lx_in_word lx" using lx(2) by (auto simp: word_state_def lexer_start_word_def)
  then have "normal_char CHR ''#'' lx = None" by (simp add: normal_char_def is_word_char_def)
  then have "normal_pass lx = None"
    using pass_char [OF lx(2)] c by (simp add: quiet_def lexer_is_metachar_def)
  with drive_aborts [OF lx(2)] lx(1) show ?thesis by (simp add: lex_cstr_drive)
qed

theorem hash_in_word_aborts_witness: "lex_cstr_to_tokens (''a'' @ ''#'' @ ''b'') = Some None"
  by (rule hash_in_word_aborts) code_simp+

text \<open>A here-document that follows a word without a blank, as in \<open>cat<<EOF\<close>, violates a contract of the
  lexer and ends the program: the operator is emitted while the word is still open.\<close>

theorem heredoc_after_word_aborts:
  assumes "list_all plain_char s" "s \<noteq> []" "list_all (\<lambda>c. \<not> c_isdigit c \<and> c \<noteq> CHR ''{'') s"
    "int (length (s @ ''<<'' @ r)) < INT_MAX"
  shows "lex_cstr_to_tokens (s @ ''<<'' @ r) = Some None"
proof -
  from drive_plain [of False "[]" False s "''<<'' @ r" "[]"] initial_state [of "s @ ''<<'' @ r"] assms obtain lx
    where lx: "drive [] (lexer_create_with_input_cstr (s @ ''<<'' @ r)) = drive [] lx"
      "word_state [] True (add_text False False s []) False (''<<'' @ r) [] lx" by fastforce
  from lx(2) have st: "word_state [] True (add_text False False s []) False (CHR ''<'' # CHR ''<'' # r) [] lx" by simp
  have d: "drop (lx_pos lx) (lx_input lx) = ''<<'' @ r" using st by (simp add: word_state_def)
  have q: "quiet (''<<'' @ r)" by (simp add: quiet_def c_isdigit_def)
  have number: "heredoc_io_number lx = Some lx" using no_second_io_number [OF quiet_attempts(1) [OF d q]] by simp
  have starts: "lexer_input_starts_with lx ''<<''" using d by (simp add: lexer_input_starts_with_def)
  from word_state_advance_times [of "[]" True _ False "''<<''" r] lx(2) obtain k
    where k: "advance_times 2 lx = Some k" "word_state [] True (add_text False False s []) False r [] k"
    by (fastforce simp: numeral_2_eq_2)
  have "lx_pos lx + 2 \<le> length (lx_input lx)" using d by (metis diff_is_0_eq' drop_all length_drop le_add_diff_inverse length_append list.size(3,4) nat_le_linear add_cancel_right_right add_le_cancel_left append_is_Nil_conv list.distinct(1) One_nat_def Suc_eq_plus1 numeral_2_eq_2 le_add1)
  then have adv: "lexer_advance_n_chars 2 lx = Some k" using k(1) by (simp add: lexer_advance_n_chars_def)
  have pending: "lexer_emit_token ty l = None" if "lx_current_token l \<noteq> None" for ty l
    using that by (simp add: lexer_emit_token_def)
  have "lx_current_token k \<noteq> None" using k(2) by (auto simp: word_state_def)
  moreover have "lx_current_token l \<noteq> None" if "lexer_advance k = Some l" for l
    using that calculation by (auto simp: lexer_advance_def split: if_splits)
  ultimately have "try_process_heredoc lx = None"
    using number starts adv pending by (auto simp: try_process_heredoc_def Let_def bind_eq_None_conv)
  then have "normal_pass lx = None"
    using quiet_attempts [OF d q] by (auto simp: normal_pass_def normal_redirection_def word_state_peek [OF st])
  with drive_aborts [OF st] lx(1) show ?thesis by (simp add: lex_cstr_drive)
qed

theorem heredoc_after_word_aborts_witness: "lex_cstr_to_tokens (''cat'' @ ''<<'' @ ''EOF'') = Some None"
  by (rule heredoc_after_word_aborts) code_simp+

end
