(* ===== verification/Lexer_Chunks.thy ===== *)
theory Lexer_Chunks
  imports Lexer_Words
begin

section \<open>Command substitutions over one or two chunks of input\<close>

text \<open>
  The shell appends each line to the same lexer and lexes on.  A command substitution that is
  not closed at the end of a chunk is taken up again in its mode, where the next call starts
  its text anew.
\<close>

definition inner_char :: "char \<Rightarrow> bool" where
  \<comment> \<open>what the text of a command substitution may hold without nesting or escapes\<close>
  "inner_char c \<longleftrightarrow> c \<notin> {CHR ''('', CHR '')'', BACKSLASH, NUL}"

lemma advance_pos: "lexer_advance lx = Some k \<Longrightarrow> lx_input k = lx_input lx \<and> lx_pos k = Suc (lx_pos lx)"
  by (auto simp: lexer_advance_def split: if_splits)

lemma cmd_subst_walk:
  assumes "word_state ms True ps q (s @ rest) ts lx" "list_all inner_char s"
  shows "\<exists>k. cmd_subst_loop p 1 lx = cmd_subst_loop p 1 k \<and> word_state ms True ps q rest ts k \<and>
    lx_input k = lx_input lx \<and> lx_pos k = lx_pos lx + length s"
  using assms
proof (induction s arbitrary: lx)
  case (Cons c s)
  then have st: "word_state ms True ps q (c # s @ rest) ts lx" by simp
  then obtain l where l: "lexer_advance lx = Some l" "word_state ms True ps q (s @ rest) ts l" by (rule word_state_advance)
  with Cons.prems(2) have "cmd_subst_loop p 1 lx = cmd_subst_loop p 1 l"
    by (subst cmd_subst_loop.simps) (simp add: Let_def word_state_peek [OF st] inner_char_def)
  with Cons.IH [OF l(2)] Cons.prems(2) advance_pos [OF l(1)] show ?case by auto
qed auto

lemma cmd_subst_unclosed:
  assumes "word_state [LEX_CMD_SUBST_PAREN] w ps q s ts lx" "list_all inner_char s"
  shows "\<exists>k. process_mode lx = Some (LEX_INCOMPLETE, k) \<and> word_state [LEX_CMD_SUBST_PAREN] True ps q [] ts k \<and>
    lx_input k = lx_input lx"
proof -
  from assms(1) obtain l where l: "ensure_word lx = Some l" "word_state [LEX_CMD_SUBST_PAREN] True ps q s ts l"
    by (rule word_state_ensure)
  have same: "lx_input l = lx_input lx" using l(1) by (auto simp: ensure_word_def lexer_start_word_def split: if_splits)
  from cmd_subst_walk [of _ ps q s "[]" ts l "lx_pos l"] l(2) assms(2) obtain k
    where k: "cmd_subst_loop (lx_pos l) 1 l = cmd_subst_loop (lx_pos l) 1 k" "word_state [LEX_CMD_SUBST_PAREN] True ps q [] ts k"
      "lx_input k = lx_input l" by auto
  have "lexer_at_end k" using k(2) by (simp add: word_state_def lexer_at_end_def)
  then have "cmd_subst_loop (lx_pos l) 1 k = Some (LEX_INCOMPLETE, k)"
    by (subst cmd_subst_loop.simps) (simp add: incomplete_def Let_def)
  moreover have "lexer_current_mode lx = LEX_CMD_SUBST_PAREN" using assms(1) by (simp add: word_state_def lexer_current_mode_def)
  ultimately show ?thesis using k l(1) same by (auto simp: process_mode_def lexer_process_cmd_subst_paren_def)
qed

lemma cmd_subst_closed:
  assumes "word_state [LEX_CMD_SUBST_PAREN] w [] q (s @ '')'') ts lx" "list_all inner_char s"
  shows "\<exists>k t. process_mode lx = Some (LEX_OK, k) \<and> lx_mode_stack k = [] \<and> lexer_at_end k \<and> lx_in_word k \<and>
    lx_current_token k = Some t \<and> tok_type t = TOKEN_WORD \<and> tok_parts t = Some [part_create_command_subst s] \<and>
    \<not> tok_has_equals_before_quote t \<and> lx_tokens k = ts"
proof -
  from assms(1) obtain l where l: "ensure_word lx = Some l" "word_state [LEX_CMD_SUBST_PAREN] True [] q (s @ '')'') ts l"
    by (rule word_state_ensure)
  from cmd_subst_walk [OF l(2) assms(2), of "lx_pos l"] obtain k1
    where k1: "cmd_subst_loop (lx_pos l) 1 l = cmd_subst_loop (lx_pos l) 1 k1"
      "word_state [LEX_CMD_SUBST_PAREN] True [] q '')'' ts k1" "lx_input k1 = lx_input l" "lx_pos k1 = lx_pos l + length s" by auto
  from k1(2) obtain k2 where k2: "lexer_advance k1 = Some k2" "word_state [LEX_CMD_SUBST_PAREN] True [] q [] ts k2"
    by (rule word_state_advance)
  have rest: "drop (lx_pos l) (lx_input l) = s @ '')''" using l(2) by (simp add: word_state_def)
  have "drop (lx_pos l) (take (lx_pos k2 - 1) (lx_input k2)) = s"
    using rest k1(3,4) advance_pos [OF k2(1)] by (simp add: drop_take)
  with k1 k2 assms(1) l(1) show ?thesis
    by (auto simp: process_mode_def lexer_current_mode_def lexer_process_cmd_subst_paren_def word_state_peek [OF k1(2)]
        cmd_subst_loop.simps [of _ _ k1] add_substitution_def on_token_def token_add_part_def leave_mode_def lexer_pop_mode_def
        lexer_in_mode_def word_state_def Let_def lexer_at_end_def)
qed

lemma drive_last_word:
  assumes "lx_mode_stack k = []" "lexer_at_end k" "lx_in_word k" "lx_current_token k = Some t" "tok_type t = TOKEN_WORD"
    "\<not> tok_has_equals_before_quote t" "lx_tokens k = []"
  shows "\<exists>u l. drive [] k = Some (Some (LEX_OK, [u], l)) \<and> view u = view t"
proof -
  define u where "u = token_set_location (token_recompute_expansion_flags t) (lx_tok_start_line k) (lx_tok_start_col k)
    (lx_line_no k) (lx_col_no k)"
  have v: "view u = view t" by (simp add: u_def)
  then have ty: "tok_type u = TOKEN_WORD" using assms(5) by (simp add: view_def)
  obtain e l where run: "process_mode k = Some (LEX_OK, l)" "lx_tokens l = [u, e]" "tok_type e = TOKEN_EOF"
    using assms by (auto simp: process_mode_def lexer_current_mode_def lexer_process_one_normal_token_def normal_loop.simps [of k]
        normal_end_def lexer_finalize_word_def try_promote_to_assignment_def lexer_emit_token_def u_def Let_def here_def
        token_set_location_def token_create_def)
  then have "drive [] k = Some (Some (LEX_OK, [u], l\<lparr>lx_tokens := []\<rparr>))"
    using pop_eof [of l "[u]" e "[]"] ty
    unfolding drive_def by (subst process_loop.simps) (simp add: loop_returns_def)
  with v show ?thesis by blast
qed

lemma closed_run:
  assumes "word_state [LEX_CMD_SUBST_PAREN] w [] q (s @ '')'') [] lx" "list_all inner_char s"
  shows "\<exists>t l. drive [] lx = Some (Some (LEX_OK, [t], l)) \<and> tok_parts t = Some [part_create_command_subst s]"
proof -
  from cmd_subst_closed [OF assms] obtain k t where k: "process_mode lx = Some (LEX_OK, k)" "lx_mode_stack k = []"
    "lexer_at_end k" "lx_in_word k" "lx_current_token k = Some t" "tok_type t = TOKEN_WORD"
    "tok_parts t = Some [part_create_command_subst s]" "\<not> tok_has_equals_before_quote t" "lx_tokens k = []" by blast
  have "loop_returns 0 LEX_OK k = None" using k by (simp add: loop_returns_def lexer_current_mode_def)
  then have "drive [] lx = drive [] k" using k(1) by (rule drive_continues [rotated])
  with drive_last_word [OF k(2-6,8,9)] k(7) show ?thesis by (auto simp: view_def)
qed

lemma open_substitution:
  assumes "int (length s) < INT_MAX - 2" "list_all inner_char s'" "s = s' @ r" "s' \<noteq> []"
  shows "\<exists>k. process_mode (lexer_create_with_input_cstr (''$('' @ s)) = Some (LEX_INCOMPLETE, k) \<and>
    word_state [LEX_CMD_SUBST_PAREN] False [] False s [] k \<and> lx_input k = ''$('' @ s"
proof -
  define lx where "lx = lexer_create_with_input_cstr (''$('' @ s)"
  have short: "int (length (''$('' @ s)) < INT_MAX" using assms(1) by simp
  have st: "word_state [] False [] False (CHR ''$'' # CHR ''('' # s) [] lx"
    using short by (simp add: lx_def lexer_create_with_input_cstr_def append_input_short lexer_create_def word_state_def)
  have input: "lx_input lx = ''$('' @ s" "lx_pos lx = 0"
    using short by (simp_all add: lx_def lexer_create_with_input_cstr_def append_input_short lexer_create_def)
  have c3: "lexer_peek_ahead lx 2 \<noteq> CHR ''(''"
    using input assms(2-4) by (cases s') (auto simp: lexer_peek_ahead_def inner_char_def)
  have push: "word_state [LEX_CMD_SUBST_PAREN] False [] False (''$('' @ s) [] (lexer_push_mode LEX_CMD_SUBST_PAREN lx)"
    using st by (simp add: word_state_def lexer_push_mode_def)
  from word_state_advance_times [OF push] obtain k
    where k: "advance_times 2 (lexer_push_mode LEX_CMD_SUBST_PAREN lx) = Some k" "word_state [LEX_CMD_SUBST_PAREN] False [] False s [] k"
    by (auto simp: numeral_2_eq_2)
  have "lx_input k = ''$('' @ s"
    using advance_times_frame [OF k(1)] input by (simp add: frame_def lexer_push_mode_def)
  moreover have "normal_pass lx = normal_char CHR ''$'' lx"
    using pass_char [OF st] by (simp add: quiet_def lexer_is_metachar_def c_isdigit_def)
  moreover have "lx_mode_stack lx = []" using st by (simp add: word_state_def)
  ultimately have "process_mode lx = Some (LEX_INCOMPLETE, k)"
    using k(1) c3 word_state_peek [OF st]
    by (simp add: process_mode_def lexer_current_mode_def lexer_process_one_normal_token_def normal_loop.simps [of lx]
        normal_char_def normal_dollar_def switch_mode_def)
  with k(2) \<open>lx_input k = ''$('' @ s\<close> show ?thesis by (auto simp: lx_def)
qed

lemma loop_incomplete:
  "process_mode lx = Some (LEX_INCOMPLETE, k) \<Longrightarrow> lx_tokens k = [] \<Longrightarrow> \<not> lexer_at_end k \<Longrightarrow> drive out lx = drive out k"
  using drive_continues [of lx LEX_INCOMPLETE k out] by (simp add: loop_returns_def)

lemma drive_wants_more:
  "process_mode lx = Some (LEX_INCOMPLETE, k) \<Longrightarrow> lx_tokens k = [] \<Longrightarrow> lexer_at_end k \<Longrightarrow>
   drive out lx = Some (Some (LEX_INCOMPLETE, out, k))"
  unfolding drive_def by (subst process_loop.simps) (simp add: loop_returns_def)

text \<open>A command substitution that is lexed in one piece has its whole text; the same input in two
  chunks, as the shell reads lines, loses the part of the text in the first chunk.\<close>

theorem split_substitution_loses_text:
  assumes "list_all inner_char s" "list_all inner_char r" "s \<noteq> []" "int (length s + length r) < INT_MAX - 4"
  shows "\<exists>whole lx chunk lx'.
    lex_cstr_to_tokens (''$('' @ s @ r @ '')'') = Some (Some (LEX_OK, [whole])) \<and>
    tok_parts whole = Some [part_create_command_subst (s @ r)] \<and>
    lexer_tokenize (lexer_create_with_input_cstr (''$('' @ s)) = Some (Some (LEX_INCOMPLETE, [], lx)) \<and>
    lexer_tokenize (lexer_append_input lx (r @ '')'')) = Some (Some (LEX_OK, [chunk], lx')) \<and>
    tok_parts chunk = Some [part_create_command_subst r]"
proof -
  have tokens: "lx_tokens (lexer_create_with_input_cstr x) = []" for x
    by (simp add: lexer_create_with_input_cstr_def lexer_append_input_def Let_def lexer_create_def)
  from open_substitution [of "s @ r @ '')''" s "r @ '')''"] assms obtain k
    where k: "process_mode (lexer_create_with_input_cstr (''$('' @ s @ r @ '')'')) = Some (LEX_INCOMPLETE, k)"
      "word_state [LEX_CMD_SUBST_PAREN] False [] False ((s @ r) @ '')'') [] k" by auto
  have "\<not> lexer_at_end k" using k(2) by (auto simp: word_state_def lexer_at_end_def)
  with loop_incomplete [OF k(1)] k(2) have dk: "drive [] (lexer_create_with_input_cstr (''$('' @ s @ r @ '')'')) = drive [] k"
    by (simp add: word_state_def)
  have inner: "list_all inner_char (s @ r)" using assms(1,2) by simp
  from closed_run [OF k(2) inner] dk obtain whole l
    where whole: "lex_cstr_to_tokens (''$('' @ s @ r @ '')'') = Some (Some (LEX_OK, [whole]))"
      "tok_parts whole = Some [part_create_command_subst (s @ r)]"
    by (auto simp: lex_cstr_to_tokens_def lexer_tokenize_def tokenize_loop_drive [OF tokens])
  from open_substitution [of s s "[]"] assms obtain k1
    where k1: "process_mode (lexer_create_with_input_cstr (''$('' @ s)) = Some (LEX_INCOMPLETE, k1)"
      "word_state [LEX_CMD_SUBST_PAREN] False [] False s [] k1" "lx_input k1 = ''$('' @ s" by auto
  have "\<not> lexer_at_end k1" using k1(2) assms(3) by (auto simp: word_state_def lexer_at_end_def)
  with loop_incomplete [OF k1(1)] k1(2) have d1: "drive [] (lexer_create_with_input_cstr (''$('' @ s)) = drive [] k1"
    by (simp add: word_state_def)
  from cmd_subst_unclosed [OF k1(2) assms(1)] obtain k2
    where k2: "process_mode k1 = Some (LEX_INCOMPLETE, k2)" "word_state [LEX_CMD_SUBST_PAREN] True [] False [] [] k2"
      "lx_input k2 = lx_input k1" by blast
  have e2: "lexer_at_end k2" "lx_tokens k2 = []" using k2(2) by (simp_all add: word_state_def lexer_at_end_def)
  have first: "lexer_tokenize (lexer_create_with_input_cstr (''$('' @ s)) = Some (Some (LEX_INCOMPLETE, [], k2))"
    using d1 drive_wants_more [OF k2(1) e2(2,1)] by (simp add: lexer_tokenize_def tokenize_loop_drive [OF tokens])
  have "lexer_append_input k2 (r @ '')'') = k2\<lparr>lx_input := lx_input k2 @ r @ '')''\<rparr>"
    using assms(4) k1(3) k2(3) by (simp add: append_input_short)
  then have "word_state [LEX_CMD_SUBST_PAREN] True [] False (r @ '')'') [] (lexer_append_input k2 (r @ '')''))"
    using k2(2) by (simp add: word_state_def)
  from closed_run [OF this assms(2)] obtain chunk l'
    where "drive [] (lexer_append_input k2 (r @ '')'')) = Some (Some (LEX_OK, [chunk], l'))"
      "tok_parts chunk = Some [part_create_command_subst r]" by blast
  moreover have "lx_tokens (lexer_append_input k2 (r @ '')'')) = []"
    using e2(2) by (simp add: lexer_append_input_def Let_def)
  ultimately have "lexer_tokenize (lexer_append_input k2 (r @ '')'')) = Some (Some (LEX_OK, [chunk], l'))"
    "tok_parts chunk = Some [part_create_command_subst r]"
    by (simp_all add: lexer_tokenize_def tokenize_loop_drive)
  with whole first show ?thesis by blast
qed

theorem split_substitution_loses_text_witness:
  "\<exists>whole lx chunk lx'.
    lex_cstr_to_tokens (''$('' @ ''ls;'' @ ''pwd'' @ '')'') = Some (Some (LEX_OK, [whole])) \<and>
    tok_parts whole = Some [part_create_command_subst (''ls;'' @ ''pwd'')] \<and>
    lexer_tokenize (lexer_create_with_input_cstr (''$('' @ ''ls;'')) = Some (Some (LEX_INCOMPLETE, [], lx)) \<and>
    lexer_tokenize (lexer_append_input lx (''pwd'' @ '')'')) = Some (Some (LEX_OK, [chunk], lx')) \<and>
    tok_parts chunk = Some [part_create_command_subst ''pwd'']"
  by (rule split_substitution_loses_text) code_simp+

end
