(* ===== verification/Alias_Store.thy ===== *)
theory Alias_Store
  imports
    Prelude
begin

section \<open>Aliases (alias.c, alias\_array.c, alias\_store.c)\<close>

text \<open>
  A dynamic array of pointers to aliases, and the store over it: adding an alias replaces the
  one of that name in place or appends it.  A slot of the array is indeterminate, NULL or
  points to an alias; \<open>None\<close> is a violated contract (\<open>Expects_...\<close>), an overflow of the
  capacity or a use of a slot that holds no alias.  The contents of a \<open>string_t\<close> are a list of
  characters; \<open>cstr_of\<close> is what \<open>strcmp\<close> sees of it.
\<close>

subsection \<open>One alias\<close>

record alias_t =
  alias_name :: string
  alias_value :: string

definition alias_create :: "string \<Rightarrow> string \<Rightarrow> alias_t" where
  "alias_create n v = \<lparr> alias_name = n, alias_value = v \<rparr>"

definition alias_create_from_cstr :: "string \<Rightarrow> string \<Rightarrow> alias_t" where
  "alias_create_from_cstr n v = \<lparr> alias_name = cstr_of n, alias_value = cstr_of v \<rparr>"

definition alias_get_value_cstr :: "alias_t \<Rightarrow> string" where
  "alias_get_value_cstr a = cstr_of (alias_value a)"

definition alias_get_name_cstr :: "alias_t \<Rightarrow> string" where
  "alias_get_name_cstr a = cstr_of (alias_name a)"

definition alias_set_name :: "alias_t \<Rightarrow> string \<Rightarrow> alias_t" where
  "alias_set_name a n = a\<lparr>alias_name := n\<rparr>"

definition alias_set_value :: "alias_t \<Rightarrow> string \<Rightarrow> alias_t" where
  "alias_set_value a v = a\<lparr>alias_value := v\<rparr>"

definition alias_set_name_cstr :: "alias_t \<Rightarrow> string \<Rightarrow> alias_t" where
  "alias_set_name_cstr a n = a\<lparr>alias_name := cstr_of n\<rparr>"

definition alias_set_value_cstr :: "alias_t \<Rightarrow> string \<Rightarrow> alias_t" where
  "alias_set_value_cstr a v = a\<lparr>alias_value := cstr_of v\<rparr>"

subsection \<open>The array\<close>

datatype alias_slot = Indeterminate | Null_Slot | Alias_Slot alias_t

record alias_array_t =
  aa_data :: "alias_slot list"
  aa_size :: nat
  aa_capacity :: nat

abbreviation alias_array_initial :: nat where "alias_array_initial \<equiv> 16"

definition alias_array_create :: alias_array_t where
  "alias_array_create =
     \<lparr> aa_data = replicate alias_array_initial Null_Slot, aa_size = 0,
       aa_capacity = alias_array_initial \<rparr>"

function grow_until :: "nat \<Rightarrow> nat \<Rightarrow> nat option" where
  \<comment> \<open>the loop \<open>while (new_capacity < needed) new_capacity *= GROW_FACTOR\<close>; a capacity above
     INT\_MAX is a signed overflow\<close>
  "grow_until c needed =
     (if needed \<le> c \<or> c = 0 then Some c
      else if int (2 * c) \<le> INT_MAX then grow_until (2 * c) needed else None)"
  by pat_completeness auto
termination by (relation "measure (\<lambda>(c, needed). needed - c)") auto

declare grow_until.simps [simp del]

definition alias_array_ensure_capacity :: "alias_array_t \<Rightarrow> nat \<Rightarrow> alias_array_t option" where
  "alias_array_ensure_capacity a needed =
     (if needed \<le> aa_capacity a then Some a
      else do { c \<leftarrow> grow_until (if aa_capacity a \<noteq> 0 then aa_capacity a else alias_array_initial) needed;
                Some (a\<lparr>aa_data := take c (aa_data a) @ replicate (c - length (aa_data a)) Indeterminate,
                        aa_capacity := c\<rparr>) })"

definition alias_array_size :: "alias_array_t \<Rightarrow> nat" where
  "alias_array_size a = aa_size a"

definition alias_array_is_empty :: "alias_array_t \<Rightarrow> bool" where
  "alias_array_is_empty a \<longleftrightarrow> aa_size a = 0"

definition read_slot :: "alias_array_t \<Rightarrow> nat \<Rightarrow> alias_t option" where
  \<comment> \<open>the alias a slot points to, where its fields are used\<close>
  "read_slot a i =
     (if i < length (aa_data a)
      then (case aa_data a ! i of Alias_Slot x \<Rightarrow> Some x | _ \<Rightarrow> None) else None)"

definition alias_array_get :: "alias_array_t \<Rightarrow> nat \<Rightarrow> alias_t option" where
  "alias_array_get a i = (if i < aa_size a then read_slot a i else None)"

definition write_slot :: "alias_array_t \<Rightarrow> nat \<Rightarrow> alias_slot \<Rightarrow> alias_array_t option" where
  "write_slot a i x =
     (if i < length (aa_data a) then Some (a\<lparr>aa_data := (aa_data a)[i := x]\<rparr>) else None)"

definition alias_array_append :: "alias_array_t \<Rightarrow> alias_t \<Rightarrow> alias_array_t option" where
  "alias_array_append a x =
     do { a \<leftarrow> alias_array_ensure_capacity a (aa_size a + 1);
          a \<leftarrow> write_slot a (aa_size a) (Alias_Slot x);
          Some (a\<lparr>aa_size := aa_size a + 1\<rparr>) }"

definition alias_array_set :: "alias_array_t \<Rightarrow> nat \<Rightarrow> alias_t \<Rightarrow> alias_array_t option" where
  "alias_array_set a i x =
     (if i < aa_size a then do { _ \<leftarrow> read_slot a i; write_slot a i (Alias_Slot x) } else None)"

fun shift_down :: "nat \<Rightarrow> nat \<Rightarrow> alias_slot list \<Rightarrow> alias_slot list" where
  \<comment> \<open>\<open>n\<close> rounds of the loop that fills the gap, from index \<open>i\<close>\<close>
  "shift_down 0 i xs = xs"
| "shift_down (Suc n) i xs = shift_down n (i + 1) (xs[i := xs ! (i + 1)])"

definition alias_array_remove :: "alias_array_t \<Rightarrow> nat \<Rightarrow> alias_array_t option" where
  "alias_array_remove a i =
     (if i < aa_size a \<and> aa_size a \<le> length (aa_data a)
      then do { _ \<leftarrow> read_slot a i;
                let n = aa_size a - 1;
                write_slot (a\<lparr>aa_data := shift_down (n - i) i (aa_data a), aa_size := n\<rparr>) n Null_Slot }
      else None)"

definition alias_array_clear :: "alias_array_t \<Rightarrow> alias_array_t option" where
  "alias_array_clear a =
     (if aa_size a \<le> length (aa_data a) \<and> aa_capacity a \<le> length (aa_data a)
      then Some (a\<lparr>aa_data := replicate (aa_capacity a) Null_Slot @ drop (aa_capacity a) (aa_data a),
                   aa_size := 0\<rparr>)
      else None)"

definition alias_array_resize :: "alias_array_t \<Rightarrow> nat \<Rightarrow> alias_array_t option" where
  \<comment> \<open>the loop that should clear the new slots starts at the capacity that
     \<open>alias_array_ensure_capacity\<close> has just raised, so it never runs\<close>
  "alias_array_resize a c =
     (let a = (if c < aa_size a
               then a\<lparr>aa_data := take c (aa_data a)
                         @ replicate (aa_size a - c) Null_Slot @ drop (aa_size a) (aa_data a),
                      aa_size := c\<rparr>
               else a)
      in do { a \<leftarrow> alias_array_ensure_capacity a c;
              Some (a\<lparr>aa_capacity := c\<rparr>) })"

fun find_slot_from :: "(alias_t \<Rightarrow> bool) \<Rightarrow> alias_slot list \<Rightarrow> nat \<Rightarrow> nat option option" where
  "find_slot_from same [] i = Some None"
| "find_slot_from same (Alias_Slot x # xs) i =
     (if same x then Some (Some i) else find_slot_from same xs (i + 1))"
| "find_slot_from same (Null_Slot # xs) i = None"
| "find_slot_from same (Indeterminate # xs) i = None"

definition alias_array_find_with_compare ::
    "alias_array_t \<Rightarrow> (alias_t \<Rightarrow> bool) \<Rightarrow> nat option option" where
  \<comment> \<open>the index found, or \<open>Some None\<close> for -1\<close>
  "alias_array_find_with_compare a same = find_slot_from same (take (aa_size a) (aa_data a)) 0"

subsection \<open>The store\<close>

definition is_valid_alias_char :: "char \<Rightarrow> bool" where
  "is_valid_alias_char c \<longleftrightarrow>
     c_isalnum c \<or> c \<in> set ''!%,-@_''"

definition alias_name_is_valid :: "string \<Rightarrow> bool" where
  "alias_name_is_valid n \<longleftrightarrow> cstr_of n \<noteq> [] \<and> list_all is_valid_alias_char (cstr_of n)"

type_synonym alias_store = alias_array_t

definition alias_store_create :: alias_store where
  "alias_store_create = alias_array_create"

definition compare_alias_name :: "string \<Rightarrow> alias_t \<Rightarrow> bool" where
  \<comment> \<open>\<open>string_compare(alias_get_name(alias), name) == 0\<close>\<close>
  "compare_alias_name n a \<longleftrightarrow> cstr_of (alias_name a) = cstr_of n"

definition alias_store_add :: "alias_store \<Rightarrow> string \<Rightarrow> string \<Rightarrow> alias_store option" where
  "alias_store_add s n v =
     do { r \<leftarrow> alias_array_find_with_compare s (compare_alias_name n);
          case r of Some i \<Rightarrow> alias_array_set s i (alias_create n v)
          | None \<Rightarrow> alias_array_append s (alias_create n v) }"

definition alias_store_add_cstr :: "alias_store \<Rightarrow> string \<Rightarrow> string \<Rightarrow> alias_store option" where
  "alias_store_add_cstr s n v =
     do { r \<leftarrow> alias_array_find_with_compare s (compare_alias_name n);
          case r of Some i \<Rightarrow> alias_array_set s i (alias_create_from_cstr n v)
          | None \<Rightarrow> alias_array_append s (alias_create_from_cstr n v) }"

definition alias_store_remove :: "alias_store \<Rightarrow> string \<Rightarrow> (alias_store \<times> bool) option" where
  "alias_store_remove s n =
     do { r \<leftarrow> alias_array_find_with_compare s (compare_alias_name n);
          case r of None \<Rightarrow> Some (s, False)
          | Some i \<Rightarrow> map_option (\<lambda>s. (s, True)) (alias_array_remove s i) }"

definition alias_store_clear :: "alias_store \<Rightarrow> alias_store option" where
  "alias_store_clear = alias_array_clear"

definition alias_store_size :: "alias_store \<Rightarrow> nat" where
  "alias_store_size = alias_array_size"

definition alias_store_has_name :: "alias_store \<Rightarrow> string \<Rightarrow> bool option" where
  "alias_store_has_name s n =
     map_option (\<lambda>r. r \<noteq> None) (alias_array_find_with_compare s (compare_alias_name n))"

definition alias_store_get_value :: "alias_store \<Rightarrow> string \<Rightarrow> string option option" where
  "alias_store_get_value s n =
     do { r \<leftarrow> alias_array_find_with_compare s (compare_alias_name n);
          case r of None \<Rightarrow> Some None
          | Some i \<Rightarrow> map_option (\<lambda>a. Some (alias_value a)) (alias_array_get s i) }"

definition alias_store_get_value_cstr :: "alias_store \<Rightarrow> string \<Rightarrow> string option option" where
  "alias_store_get_value_cstr s n =
     do { r \<leftarrow> alias_array_find_with_compare s (compare_alias_name n);
          case r of None \<Rightarrow> Some None
          | Some i \<Rightarrow> map_option (\<lambda>a. Some (alias_get_value_cstr a)) (alias_array_get s i) }"

fun clone_from :: "alias_store \<Rightarrow> nat \<Rightarrow> nat \<Rightarrow> alias_store \<Rightarrow> alias_store option" where
  "clone_from other 0 i s = Some s"
| "clone_from other (Suc n) i s =
     do { a \<leftarrow> alias_array_get other i;
          s \<leftarrow> alias_store_add s (alias_name a) (alias_value a);
          clone_from other n (i + 1) s }"

definition alias_store_clone :: "alias_store \<Rightarrow> alias_store option" where
  "alias_store_clone other = clone_from other (alias_array_size other) 0 alias_store_create"

fun foreach_from :: "(string \<Rightarrow> string \<Rightarrow> 'a \<Rightarrow> 'a) \<Rightarrow> alias_store \<Rightarrow> nat \<Rightarrow> nat \<Rightarrow> 'a \<Rightarrow> 'a option" where
  "foreach_from callback s 0 i x = Some x"
| "foreach_from callback s (Suc n) i x =
     do { a \<leftarrow> alias_array_get s i;
          foreach_from callback s n (i + 1) (callback (alias_name a) (alias_value a) x) }"

definition alias_store_foreach ::
    "alias_store \<Rightarrow> (string \<Rightarrow> string \<Rightarrow> 'a \<Rightarrow> 'a) \<Rightarrow> 'a \<Rightarrow> 'a option" where
  "alias_store_foreach s callback = foreach_from callback s (alias_array_size s) 0"

end
