(* ===== verification/Tokenizer.thy ===== *)
theory Tokenizer
  imports
    Lexer_Normal Alias_Store
begin

section \<open>The tokenizer (tokenizer.c)\<close>

text \<open>
  The stage between the lexer and the parser: it replaces aliases by their re-lexed text,
  turns words at command positions into reserved words, attaches numbers to redirections, and
  holds back the tokens of a compound command until the command is complete.

  A result is \<open>None\<close> when the code does not return, \<open>Some None\<close> when it violates a contract or
  runs into undefined behaviour, and \<open>Some (Some r)\<close> otherwise.  Lists of tokens are HOL lists;
  \<open>tk_input\<close> and \<open>tk_output\<close> are the contents of the two lists that the caller passes to
  \<open>tokenizer_process\<close> and owns, so they are left in the state when it returns.  The stack of
  open compound commands has its top first.
\<close>

subsection \<open>Lists of tokens\<close>

definition token_list_append :: "token list \<Rightarrow> token \<Rightarrow> token list" where
  "token_list_append ts t = ts @ [t]"

definition token_list_get :: "token list \<Rightarrow> nat \<Rightarrow> token option" where
  "token_list_get ts i = (if i < length ts then Some (ts ! i) else None)"

definition token_list_remove :: "token list \<Rightarrow> nat \<Rightarrow> token list option" where
  "token_list_remove ts i = (if i < length ts then Some (take i ts @ drop (i + 1) ts) else None)"

definition token_list_set_io_number :: "token list \<Rightarrow> nat \<Rightarrow> int \<Rightarrow> token list option" where
  "token_list_set_io_number ts i n =
     (if 0 \<le> n \<and> i < length ts
      then Some (ts[i := (ts ! i)\<lparr>tok_type := TOKEN_IO_NUMBER, tok_io_number := n\<rparr>]) else None)"

definition token_list_insert_range :: "token list \<Rightarrow> nat \<Rightarrow> token list \<Rightarrow> token list option" where
  "token_list_insert_range ts i new =
     (if i \<le> length ts then Some (take i ts @ new @ drop i ts) else None)"

definition token_list_append_list_move :: "token list \<Rightarrow> token list \<Rightarrow> token list" where
  "token_list_append_list_move dest src = (if src = [] then dest else dest @ src)"

subsection \<open>State\<close>

datatype tok_status_t = TOK_OK | TOK_ERROR | TOK_INCOMPLETE | TOK_INTERNAL_ERROR

record tokenizer_t =
  tk_aliases :: "alias_store option"
  tk_input :: "token list"
  tk_pos :: nat
  tk_output :: "token list"
  tk_buffered :: "token list"
  tk_depth :: int
  tk_max_depth :: int
  tk_expanded :: "string list"
  tk_error :: "string option"
  tk_at_command :: bool
  tk_stack :: "token_type list"

definition tokenizer_create :: "alias_store option \<Rightarrow> tokenizer_t" where
  "tokenizer_create aliases =
     \<lparr> tk_aliases = aliases, tk_input = [], tk_pos = 0, tk_output = [], tk_buffered = [],
       tk_depth = 0, tk_max_depth = 32, tk_expanded = [], tk_error = None,
       tk_at_command = True, tk_stack = [] \<rparr>"

definition tokenizer_set_error :: "string \<Rightarrow> tokenizer_t \<Rightarrow> tokenizer_t" where
  "tokenizer_set_error msg tk = tk\<lparr>tk_error := Some msg\<rparr>"

definition tokenizer_get_error :: "tokenizer_t \<Rightarrow> string option" where
  "tokenizer_get_error tk = tk_error tk"

definition tokenizer_clear_error :: "tokenizer_t \<Rightarrow> tokenizer_t" where
  "tokenizer_clear_error tk = tk\<lparr>tk_error := map_option (\<lambda>_. []) (tk_error tk)\<rparr>"

definition tokenizer_reset :: "tokenizer_t \<Rightarrow> tokenizer_t" where
  "tokenizer_reset tk =
     tokenizer_clear_error (tk\<lparr>tk_stack := [], tk_buffered := [], tk_at_command := True\<rparr>)"

definition tokenizer_mark_alias_expanded :: "string \<Rightarrow> tokenizer_t \<Rightarrow> tokenizer_t" where
  "tokenizer_mark_alias_expanded n tk = tk\<lparr>tk_expanded := tk_expanded tk @ [n]\<rparr>"

definition tokenizer_is_alias_expanded :: "tokenizer_t \<Rightarrow> string \<Rightarrow> bool" where
  "tokenizer_is_alias_expanded tk n \<longleftrightarrow> n \<in> set (tk_expanded tk)"

definition tokenizer_clear_expanded_aliases :: "tokenizer_t \<Rightarrow> tokenizer_t" where
  "tokenizer_clear_expanded_aliases tk = tk\<lparr>tk_expanded := []\<rparr>"

subsection \<open>Words\<close>

definition tokenizer_alias_ends_with_blank :: "string \<Rightarrow> bool" where
  "tokenizer_alias_ends_with_blank v \<longleftrightarrow> v \<noteq> [] \<and> (last v = CHR '' '' \<or> last v = TAB)"

definition tokenizer_extract_word_text :: "token \<Rightarrow> string option option" where
  "tokenizer_extract_word_text t =
     (if tok_type t \<noteq> TOKEN_WORD then Some None
      else do { n \<leftarrow> token_part_count t;
                if n \<noteq> 1 then Some None
                else do { p \<leftarrow> token_get_part t 0;
                          Some (if part_type_of p \<noteq> PART_LITERAL then None
                                else map_option cstr_of (part_text p)) } })"

definition tokenizer_is_alias_eligible :: "tokenizer_t \<Rightarrow> token \<Rightarrow> bool option" where
  "tokenizer_is_alias_eligible tk t =
     (if \<not> tk_at_command tk \<or> tok_type t \<noteq> TOKEN_WORD \<or> tok_was_quoted t then Some False
      else do { n \<leftarrow> token_part_count t;
                if n \<noteq> 1 then Some False
                else do { p \<leftarrow> token_get_part t 0;
                          Some (part_type_of p = PART_LITERAL \<and>
                                \<not> (part_single_quoted p \<or> part_double_quoted p)) } })"

subsection \<open>The stack of compound commands\<close>

definition tokenizer_push_compound :: "token_type \<Rightarrow> tokenizer_t \<Rightarrow> tokenizer_t" where
  "tokenizer_push_compound ty tk = tk\<lparr>tk_stack := ty # tk_stack tk\<rparr>"

definition tokenizer_get_closing_token :: "token_type \<Rightarrow> token_type" where
  "tokenizer_get_closing_token ty =
     (case ty of TOKEN_IF \<Rightarrow> TOKEN_FI | TOKEN_WHILE \<Rightarrow> TOKEN_DONE | TOKEN_UNTIL \<Rightarrow> TOKEN_DONE
      | TOKEN_FOR \<Rightarrow> TOKEN_DONE | TOKEN_CASE \<Rightarrow> TOKEN_ESAC | TOKEN_LBRACE \<Rightarrow> TOKEN_RBRACE
      | _ \<Rightarrow> TOKEN_WORD)"

definition tokenizer_token_name :: "token_type \<Rightarrow> string" where
  "tokenizer_token_name ty =
     (case ty of TOKEN_IF \<Rightarrow> ''if'' | TOKEN_THEN \<Rightarrow> ''then'' | TOKEN_ELIF \<Rightarrow> ''elif''
      | TOKEN_ELSE \<Rightarrow> ''else'' | TOKEN_FI \<Rightarrow> ''fi'' | TOKEN_WHILE \<Rightarrow> ''while''
      | TOKEN_UNTIL \<Rightarrow> ''until'' | TOKEN_FOR \<Rightarrow> ''for'' | TOKEN_DO \<Rightarrow> ''do'' | TOKEN_DONE \<Rightarrow> ''done''
      | TOKEN_CASE \<Rightarrow> ''case'' | TOKEN_ESAC \<Rightarrow> ''esac'' | TOKEN_LBRACE \<Rightarrow> ''{''
      | TOKEN_RBRACE \<Rightarrow> ''}'' | _ \<Rightarrow> ''???'')"

definition in_quotes :: "string \<Rightarrow> string" where
  "in_quotes s = SQUOTE # s @ [SQUOTE]"

definition tokenizer_pop_compound :: "token_type \<Rightarrow> tokenizer_t \<Rightarrow> tokenizer_t \<times> bool" where
  "tokenizer_pop_compound closing tk =
     (case tk_stack tk of
        [] \<Rightarrow> (tokenizer_set_error (''Unexpected closing token '' @ in_quotes (tokenizer_token_name closing)
                 @ '' with no matching opening token'') tk, False)
      | opening # rest \<Rightarrow>
          let expected = tokenizer_get_closing_token opening in
          if closing \<noteq> expected
          then (tokenizer_set_error (''Mismatched compound command: expected '' @ in_quotes (tokenizer_token_name expected)
                  @ '' to close '' @ in_quotes (tokenizer_token_name opening)
                  @ '', but got '' @ in_quotes (tokenizer_token_name closing)) tk, False)
          else (tk\<lparr>tk_stack := rest\<rparr>, True))"

definition command_position_follows :: "token_type \<Rightarrow> bool" where
  "command_position_follows ty \<longleftrightarrow>
     ty \<in> {TOKEN_NEWLINE, TOKEN_SEMI, TOKEN_AMPER, TOKEN_PIPE, TOKEN_AND_IF, TOKEN_OR_IF, TOKEN_LPAREN,
           TOKEN_RPAREN, TOKEN_DSEMI, TOKEN_IF, TOKEN_THEN, TOKEN_ELSE, TOKEN_ELIF, TOKEN_DO,
           TOKEN_WHILE, TOKEN_UNTIL, TOKEN_FOR, TOKEN_CASE, TOKEN_LBRACE}"

definition tokenizer_update_command_position :: "token \<Rightarrow> tokenizer_t \<Rightarrow> tokenizer_t" where
  "tokenizer_update_command_position t tk =
     (if command_position_follows (tok_type t)
      then tokenizer_clear_expanded_aliases (tk\<lparr>tk_at_command := True\<rparr>)
      else tk\<lparr>tk_at_command := False\<rparr>)"

subsection \<open>Expanding an alias\<close>

definition relex_error :: "lexer \<Rightarrow> string" where
  "relex_error lx =
     ''Failed to re-lex alias expansion: ''
       @ (case lx_error_msg lx of None \<Rightarrow> ''(null)'' | Some e \<Rightarrow> e)"

definition tokenizer_relex_text ::
    "tokenizer_t \<Rightarrow> string \<Rightarrow> (tok_status_t \<times> tokenizer_t) option option" where
  "tokenizer_relex_text tk value_text =
     (case lexer_tokenize (lexer_append_input lexer_create value_text) of
        None \<Rightarrow> None
      | Some None \<Rightarrow> Some None
      | Some (Some (status, new, lx)) \<Rightarrow>
          if status \<noteq> LEX_OK
          then Some (Some (TOK_ERROR, tokenizer_set_error (relex_error lx) tk))
          else if new = [] then Some (Some (TOK_OK, tk))
          else Some (map_option (\<lambda>ts. (TOK_OK, tk\<lparr>tk_input := ts\<rparr>))
                 (token_list_insert_range (tk_input tk) (tk_pos tk) new)))"

definition alias_value_of :: "tokenizer_t \<Rightarrow> string \<Rightarrow> string option option" where
  \<comment> \<open>\<open>alias_store_get_value_cstr(tok->aliases, ...)\<close>, whose contract wants a store\<close>
  "alias_value_of tk n = Option.bind (tk_aliases tk) (\<lambda>s. alias_store_get_value_cstr s n)"

definition tokenizer_expand_alias ::
    "tokenizer_t \<Rightarrow> string \<Rightarrow> (tok_status_t \<times> tokenizer_t) option option" where
  "tokenizer_expand_alias tk n =
     (if tk_depth tk \<ge> tk_max_depth tk
      then Some (Some (TOK_ERROR, tokenizer_set_error ''Maximum alias expansion depth exceeded'' tk))
      else case alias_value_of tk n of
        None \<Rightarrow> Some None
      | Some None \<Rightarrow> Some (Some (TOK_OK, tk))
      | Some (Some v) \<Rightarrow>
          let tk = (tokenizer_mark_alias_expanded n tk)\<lparr>tk_depth := tk_depth tk + 1\<rparr>;
              check_next = tokenizer_alias_ends_with_blank v
          in case tokenizer_relex_text tk v of
               None \<Rightarrow> None
             | Some None \<Rightarrow> Some None
             | Some (Some (status, tk)) \<Rightarrow>
                 let tk = tk\<lparr>tk_depth := tk_depth tk - 1\<rparr>
                 in Some (Some
                      (if status \<noteq> TOK_OK
                       then (status, tk\<lparr>tk_expanded := butlast (tk_expanded tk)\<rparr>)
                       else if check_next then (TOK_OK, tk\<lparr>tk_at_command := True\<rparr>)
                       else (TOK_OK, tk))))"

definition alias_to_expand :: "tokenizer_t \<Rightarrow> token \<Rightarrow> string option option" where
  \<comment> \<open>the guards before the call of \<open>tokenizer_expand_alias\<close>\<close>
  "alias_to_expand tk t =
     (case tk_aliases tk of None \<Rightarrow> Some None
      | Some s \<Rightarrow>
          do { eligible \<leftarrow> tokenizer_is_alias_eligible tk t;
               if \<not> eligible then Some None
               else do { w \<leftarrow> tokenizer_extract_word_text t;
                         case w of None \<Rightarrow> Some None
                         | Some n \<Rightarrow>
                             do { known \<leftarrow> alias_store_has_name s n;
                                  Some (if known \<and> \<not> tokenizer_is_alias_expanded tk n
                                        then Some n else None) } } })"

subsection \<open>One token\<close>

definition next_type_is :: "(token_type \<Rightarrow> bool) \<Rightarrow> tokenizer_t \<Rightarrow> bool" where
  "next_type_is P tk \<longleftrightarrow>
     tk_pos tk + 1 < length (tk_input tk) \<and> P (tok_type (tk_input tk ! (tk_pos tk + 1)))"

definition last_type_is :: "(token_type \<Rightarrow> bool) \<Rightarrow> token list \<Rightarrow> bool" where
  "last_type_is P ts \<longleftrightarrow> ts \<noteq> [] \<and> P (tok_type (last ts))"

definition is_case_pattern :: "tokenizer_t \<Rightarrow> bool" where
  "is_case_pattern tk \<longleftrightarrow>
     tk_stack tk \<noteq> [] \<and> hd (tk_stack tk) = TOKEN_CASE \<and> next_type_is (\<lambda>ty. ty = TOKEN_RPAREN) tk"

definition is_loop_var_or_case_word :: "tokenizer_t \<Rightarrow> bool" where
  "is_loop_var_or_case_word tk \<longleftrightarrow>
     last_type_is (\<lambda>ty. ty = TOKEN_FOR \<or> ty = TOKEN_CASE)
       (if tk_stack tk \<noteq> [] then tk_buffered tk else tk_output tk)"

definition reserved_type :: "tokenizer_t \<Rightarrow> token \<Rightarrow> token_type option option" where
  \<comment> \<open>the reserved word that a token becomes\<close>
  "reserved_type tk t =
     (if tok_type t \<noteq> TOKEN_WORD \<or> \<not> tk_at_command tk \<or> tok_was_quoted t
         \<or> is_case_pattern tk \<or> is_loop_var_or_case_word tk then Some None
      else do { w \<leftarrow> tokenizer_extract_word_text t;
                Some (case w of None \<Rightarrow> None
                  | Some word \<Rightarrow>
                      (let ty = token_string_to_reserved_word word
                       in if ty \<noteq> TOKEN_WORD \<and> ty \<noteq> TOKEN_IN then Some ty else None)) })"

definition is_redirection_type :: "token_type \<Rightarrow> bool" where
  "is_redirection_type ty \<longleftrightarrow>
     ty \<in> {TOKEN_LESS, TOKEN_GREATER, TOKEN_DGREAT, TOKEN_DLESS, TOKEN_DLESSDASH, TOKEN_LESSAND,
           TOKEN_GREATAND, TOKEN_LESSGREAT, TOKEN_CLOBBER}"

fun digits_value :: "string \<Rightarrow> int \<Rightarrow> int" where
  "digits_value [] n = n"
| "digits_value (c # cs) n = digits_value cs (10 * n + (of_char c - 48))"

definition c_atoi :: "string \<Rightarrow> int option" where
  \<comment> \<open>\<open>atoi\<close> on a string of digits: undefined beyond the range of \<open>int\<close>\<close>
  "c_atoi s = c_int (digits_value s 0)"

definition io_number_word :: "tokenizer_t \<Rightarrow> token \<Rightarrow> string option option" where
  \<comment> \<open>the digits of a word that precedes a redirection operator\<close>
  "io_number_word tk t =
     (if tok_type t \<noteq> TOKEN_WORD \<or> \<not> next_type_is is_redirection_type tk then Some None
      else do { w \<leftarrow> tokenizer_extract_word_text t;
                Some (case w of None \<Rightarrow> None
                  | Some word \<Rightarrow> if word \<noteq> [] \<and> list_all c_isdigit word then Some word else None) })"

definition starts_function_definition :: "tokenizer_t \<Rightarrow> token_type \<Rightarrow> bool" where
  "starts_function_definition tk ty \<longleftrightarrow>
     ty = TOKEN_LPAREN \<and> \<not> (tk_stack tk \<noteq> [] \<or> tk_buffered tk \<noteq> []) \<and>
     last_type_is (\<lambda>ty. ty = TOKEN_WORD) (tk_output tk) \<and> next_type_is (\<lambda>ty. ty = TOKEN_RPAREN) tk"

definition opens_compound :: "token_type \<Rightarrow> bool" where
  "opens_compound ty \<longleftrightarrow>
     ty \<in> {TOKEN_IF, TOKEN_WHILE, TOKEN_UNTIL, TOKEN_FOR, TOKEN_CASE, TOKEN_LBRACE}"

definition closes_compound :: "token_type \<Rightarrow> bool" where
  "closes_compound ty \<longleftrightarrow> ty \<in> {TOKEN_FI, TOKEN_DONE, TOKEN_ESAC, TOKEN_RBRACE}"

definition move_function_name :: "tokenizer_t \<Rightarrow> tokenizer_t" where
  "move_function_name tk =
     tk\<lparr>tk_output := butlast (tk_output tk),
        tk_buffered := token_list_append (tk_buffered tk) (last (tk_output tk))\<rparr>"

definition track_compound :: "token_type \<Rightarrow> tokenizer_t \<Rightarrow> tokenizer_t \<times> bool" where
  "track_compound ty tk =
     (let tk = (if opens_compound ty then tokenizer_push_compound ty tk else tk)
      in if closes_compound ty then tokenizer_pop_compound ty tk else (tk, True))"

definition place_token :: "bool \<Rightarrow> token \<Rightarrow> tokenizer_t \<Rightarrow> tokenizer_t" where
  "place_token buffering t tk =
     (let tk = tk\<lparr>tk_pos := tk_pos tk + 1\<rparr>;
          tk = (if buffering \<or> tk_stack tk \<noteq> []
                then tk\<lparr>tk_buffered := token_list_append (tk_buffered tk) t\<rparr>
                else tk\<lparr>tk_output := token_list_append (tk_output tk) t\<rparr>)
      in tokenizer_update_command_position t tk)"

definition add_token :: "tokenizer_t \<Rightarrow> token \<Rightarrow> tok_status_t \<times> tokenizer_t" where
  \<comment> \<open>from the label \<open>add_token\<close> on\<close>
  "add_token tk t =
     (let ty = tok_type t;
          is_function = starts_function_definition tk ty;
          buffering = (tk_stack tk \<noteq> [] \<or> tk_buffered tk \<noteq> [] \<or> is_function)
      in case track_compound ty (if is_function then move_function_name tk else tk) of
           (tk, False) \<Rightarrow> (TOK_ERROR, tk)
         | (tk, True) \<Rightarrow> (TOK_OK, place_token buffering t tk))"

definition process_plain_token :: "tokenizer_t \<Rightarrow> token \<Rightarrow> (tok_status_t \<times> tokenizer_t) option" where
  \<comment> \<open>what follows the alias expansion; the token is the one in the input list, so that a
     change of its type is seen there too\<close>
  "process_plain_token tk t =
     do { r \<leftarrow> reserved_type tk t;
          case r of
            Some ty \<Rightarrow> let t = t\<lparr>tok_type := ty\<rparr>
                       in Some (add_token (tk\<lparr>tk_input := (tk_input tk)[tk_pos tk := t]\<rparr>) t)
          | None \<Rightarrow>
              do { w \<leftarrow> io_number_word tk t;
                   case w of
                     None \<Rightarrow> Some (add_token tk t)
                   | Some word \<Rightarrow>
                       do { n \<leftarrow> c_atoi word;
                            ts \<leftarrow> token_list_set_io_number (tk_input tk) (tk_pos tk + 1) n;
                            ts \<leftarrow> token_list_remove ts (tk_pos tk);
                            Some (TOK_OK, tk\<lparr>tk_input := ts\<rparr>) } } }"

definition tokenizer_process_one_token ::
    "tokenizer_t \<Rightarrow> (tok_status_t \<times> tokenizer_t) option option" where
  "tokenizer_process_one_token tk =
     (if tk_pos tk \<ge> length (tk_input tk) then Some (Some (TOK_INCOMPLETE, tk))
      else let t = tk_input tk ! tk_pos tk in
        case alias_to_expand tk t of
          None \<Rightarrow> Some None
        | Some None \<Rightarrow> Some (process_plain_token tk t)
        | Some (Some n) \<Rightarrow>
            (case token_list_remove (tk_input tk) (tk_pos tk) of
               None \<Rightarrow> Some None
             | Some ts \<Rightarrow> tokenizer_expand_alias (tk\<lparr>tk_input := ts\<rparr>) n))"

subsection \<open>All tokens of a call\<close>

partial_function (option) process_tokens ::
    "tokenizer_t \<Rightarrow> (tok_status_t \<times> tokenizer_t) option option" where
  "process_tokens tk =
     (if tk_pos tk < length (tk_input tk)
      then (case tokenizer_process_one_token tk of
              None \<Rightarrow> None
            | Some None \<Rightarrow> Some None
            | Some (Some (status, tk)) \<Rightarrow>
                if status \<noteq> TOK_OK then Some (Some (status, tk)) else process_tokens tk)
      else Some (Some (TOK_OK, tk)))"

declare process_tokens.simps [code]

fun comma_separated :: "string list \<Rightarrow> string" where
  "comma_separated [] = []"
| "comma_separated [x] = x"
| "comma_separated (x # xs) = x @ '', '' @ comma_separated xs"

definition unclosed_message :: "token_type list \<Rightarrow> string" where
  "unclosed_message stack =
     ''Unclosed compound command(s): ''
       @ comma_separated (map (\<lambda>ty. in_quotes (tokenizer_token_name ty)) (rev stack))"

definition finish_process :: "tokenizer_t \<Rightarrow> tok_status_t \<times> tokenizer_t" where
  \<comment> \<open>after the loop\<close>
  "finish_process tk =
     (if tk_stack tk \<noteq> []
      then (TOK_INCOMPLETE,
            (tokenizer_set_error (unclosed_message (tk_stack tk)) tk)\<lparr>tk_input := [], tk_pos := 0\<rparr>)
      else (TOK_OK,
            tk\<lparr>tk_output := tk_output tk @ tk_buffered tk, tk_buffered := [], tk_input := [],
               tk_pos := 0\<rparr>))"

definition start_process :: "tokenizer_t \<Rightarrow> token list \<Rightarrow> token list \<Rightarrow> tokenizer_t" where
  "start_process tk input output =
     tokenizer_clear_error (tokenizer_clear_expanded_aliases
       (tk\<lparr>tk_input := input, tk_pos := 0, tk_output := output, tk_at_command := True\<rparr>))"

definition tokenizer_process ::
    "tokenizer_t \<Rightarrow> token list \<Rightarrow> token list \<Rightarrow> (tok_status_t \<times> tokenizer_t) option option" where
  "tokenizer_process tk input output =
     (case process_tokens (start_process tk input output) of
        None \<Rightarrow> None
      | Some None \<Rightarrow> Some None
      | Some (Some (status, tk)) \<Rightarrow>
          Some (Some (if status \<noteq> TOK_OK then (status, tk) else finish_process tk)))"

end
