(* ===== verification/Alias_Proofs.thy ===== *)
theory Alias_Proofs
  imports
    Alias_Store Map_Interface
begin

section \<open>The alias store refines a finite map\<close>

text \<open>
  \<open>holds a xs\<close>: the array is well formed and its slots point to the aliases \<open>xs\<close>.  Every
  operation is related to one on \<open>xs\<close>, and the store to the map from names to values, with
  \<open>bindings\<close> as the abstraction function.
\<close>

named_theorems alias_ops

definition holds :: "alias_array_t \<Rightarrow> alias_t list \<Rightarrow> bool" where
  "holds a xs \<longleftrightarrow> aa_size a = length xs \<and> aa_capacity a = length (aa_data a) \<and>
     aa_capacity a \<noteq> 0 \<and> length xs \<le> aa_capacity a \<and>
     take (length xs) (aa_data a) = map Alias_Slot xs"

definition named :: "string \<Rightarrow> alias_t \<Rightarrow> bool" where
  "named n x \<longleftrightarrow> cstr_of (alias_name x) = cstr_of n"

definition bindings :: "alias_t list \<Rightarrow> string \<rightharpoonup> string" where
  "bindings xs n = map_option alias_value (find (named n) xs)"

definition as_invar :: "alias_store \<Rightarrow> alias_t list \<Rightarrow> bool" where
  "as_invar s xs \<longleftrightarrow> holds s xs \<and> distinct (map (\<lambda>x. cstr_of (alias_name x)) xs)"

lemma compare_named [simp]: "compare_alias_name n = named n"
  by (simp add: fun_eq_iff compare_alias_name_def named_def)

subsection \<open>The array\<close>

lemma holds_slot: "holds a xs \<Longrightarrow> i < length xs \<Longrightarrow> aa_data a ! i = Alias_Slot (xs ! i)"
  by (metis holds_def nth_map nth_take)

lemma grow_until_ok: "int (needed) * 2 \<le> INT_MAX \<Longrightarrow> 0 < c \<Longrightarrow>
    \<exists>d. grow_until c needed = Some d \<and> needed \<le> d \<and> c \<le> d"
proof (induction c needed rule: grow_until.induct)
  case (1 c needed)
  show ?case
  proof (cases "needed \<le> c")
    case False
    with 1 have "\<exists>d. grow_until (2 * c) needed = Some d \<and> needed \<le> d \<and> 2 * c \<le> d" by simp
    with False 1 show ?thesis by (subst grow_until.simps) auto
  qed (simp add: grow_until.simps)
qed

lemma ensure_ok: "holds a xs \<Longrightarrow> int needed * 2 \<le> INT_MAX \<Longrightarrow>
    \<exists>b. alias_array_ensure_capacity a needed = Some b \<and> holds b xs \<and> needed \<le> aa_capacity b"
  using grow_until_ok [of needed "aa_capacity a"]
  by (auto simp: alias_array_ensure_capacity_def holds_def min_def)

lemma append_ok [alias_ops]:
  assumes "holds a xs" and "int (length xs + 1) * 2 \<le> INT_MAX"
  shows "\<exists>b. alias_array_append a x = Some b \<and> holds b (xs @ [x])"
proof -
  from assms obtain b where "alias_array_ensure_capacity a (length xs + 1) = Some b" "holds b xs"
    "length xs + 1 \<le> aa_capacity b" using ensure_ok by blast
  with assms(1) show ?thesis
    by (auto simp: alias_array_append_def holds_def write_slot_def take_Suc_conv_app_nth
          nth_list_update)
qed

lemma read_ok: "holds a xs \<Longrightarrow> i < length xs \<Longrightarrow> read_slot a i = Some (xs ! i)"
  by (auto simp: read_slot_def holds_slot) (simp add: holds_def)

lemma get_ok [alias_ops]: "holds a xs \<Longrightarrow> i < length xs \<Longrightarrow> alias_array_get a i = Some (xs ! i)"
  by (simp add: alias_array_get_def read_ok) (simp add: holds_def)

lemma set_ok [alias_ops]: "holds a xs \<Longrightarrow> i < length xs \<Longrightarrow>
    \<exists>b. alias_array_set a i x = Some b \<and> holds b (xs[i := x])"
  by (simp add: alias_array_set_def read_ok write_slot_def)
     (auto simp: holds_def take_update_swap map_update)

lemma shift_down_length [simp]: "length (shift_down n i xs) = length xs"
  by (induction n i xs rule: shift_down.induct) simp_all

lemma shift_down_nth: "i + n < length xs \<Longrightarrow> k < length xs \<Longrightarrow>
    shift_down n i xs ! k = (if i \<le> k \<and> k < i + n then xs ! (k + 1) else xs ! k)"
  by (induction n i xs rule: shift_down.induct) (auto simp: nth_list_update)

lemma remove_ok [alias_ops]:
  assumes "holds a xs" and "i < length xs"
  shows "\<exists>b. alias_array_remove a i = Some b \<and> holds b (take i xs @ drop (i + 1) xs)"
proof -
  have len: "length xs \<le> length (aa_data a)" using assms by (simp add: holds_def)
  have "take (length xs - 1) (shift_down (length xs - 1 - i) i (aa_data a)) =
      map Alias_Slot (take i xs @ drop (i + 1) xs)"
  proof (rule nth_equalityI)
    fix k assume "k < length (take (length xs - 1) (shift_down (length xs - 1 - i) i (aa_data a)))"
    then have k: "k < length xs - 1" by simp
    with assms len have "take (length xs - 1) (shift_down (length xs - 1 - i) i (aa_data a)) ! k =
        Alias_Slot (if i \<le> k then xs ! (k + 1) else xs ! k)"
      by (simp add: shift_down_nth holds_slot [OF assms(1)])
    also have "\<dots> = map Alias_Slot (take i xs @ drop (i + 1) xs) ! k"
      using assms k by (auto simp: nth_append min_def)
    finally show "take (length xs - 1) (shift_down (length xs - 1 - i) i (aa_data a)) ! k =
        map Alias_Slot (take i xs @ drop (i + 1) xs) ! k" .
  qed (use assms len in auto)
  with assms show ?thesis
    by (auto simp: alias_array_remove_def read_ok write_slot_def holds_def Let_def)
qed

lemma clear_ok [alias_ops]: "holds a xs \<Longrightarrow> \<exists>b. alias_array_clear a = Some b \<and> holds b []"
  by (auto simp: alias_array_clear_def holds_def)

lemma create_ok [alias_ops]: "holds alias_array_create []"
  by (simp add: holds_def alias_array_create_def)

lemma find_slot_ok: "find_slot_from P (map Alias_Slot xs) i =
    Some (if list_ex P xs then Some (i + length (takeWhile (\<lambda>x. \<not> P x) xs)) else None)"
  by (induction xs arbitrary: i) auto

lemma find_ok: "holds a xs \<Longrightarrow> alias_array_find_with_compare a P =
    Some (if list_ex P xs then Some (length (takeWhile (\<lambda>x. \<not> P x) xs)) else None)"
  by (simp add: alias_array_find_with_compare_def holds_def find_slot_ok)

subsection \<open>The store\<close>

lemma first_split: "list_ex P xs \<Longrightarrow>
    \<exists>ys x zs. xs = ys @ x # zs \<and> P x \<and> takeWhile (\<lambda>x. \<not> P x) xs = ys \<and> list_all (\<lambda>y. \<not> P y) ys"
proof (induction xs)
  case (Cons y xs)
  show ?case
  proof (cases "P y")
    case True
    then show ?thesis by (intro exI [of _ "[]"]) simp
  next
    case False
    with Cons obtain ys x zs where "xs = ys @ x # zs" "P x" "takeWhile (\<lambda>x. \<not> P x) xs = ys"
      "list_all (\<lambda>y. \<not> P y) ys" by auto
    with False show ?thesis by (intro exI [of _ "y # ys"]) auto
  qed
qed simp

lemma bindings_simps [simp]: "bindings [] n = None"
  "bindings (x # xs) n = (if named n x then Some (alias_value x) else bindings xs n)"
  by (simp_all add: bindings_def)

lemma bindings_append:
  "bindings (ys @ zs) m = (case bindings ys m of None \<Rightarrow> bindings zs m | Some v \<Rightarrow> Some v)"
  by (induction ys) auto

lemma bindings_None: "list_all (\<lambda>y. \<not> named n y) ys \<Longrightarrow> cstr_of m = cstr_of n \<Longrightarrow>
    bindings ys m = None"
  by (induction ys) (auto simp: named_def)

lemma store_find: "as_invar s xs \<Longrightarrow> alias_array_find_with_compare s (named n) =
    Some (if list_ex (named n) xs then Some (length (takeWhile (\<lambda>x. \<not> named n x) xs)) else None)"
  by (simp add: as_invar_def find_ok)

definition with_binding :: "string \<Rightarrow> string \<Rightarrow> (string \<rightharpoonup> string) \<Rightarrow> string \<rightharpoonup> string" where
  "with_binding n v f m = (if cstr_of m = cstr_of n then Some v else f m)"

definition without_binding :: "string \<Rightarrow> (string \<rightharpoonup> string) \<Rightarrow> string \<rightharpoonup> string" where
  "without_binding n f m = (if cstr_of m = cstr_of n then None else f m)"

lemma add_general:
  assumes inv: "as_invar s xs" and room: "int (length xs + 1) * 2 \<le> INT_MAX" and nm: "named n new"
  shows "\<exists>t ys. (do { r \<leftarrow> alias_array_find_with_compare s (named n);
          case r of Some i \<Rightarrow> alias_array_set s i new | None \<Rightarrow> alias_array_append s new }) = Some t \<and>
     as_invar t ys \<and> bindings ys = with_binding n (alias_value new) (bindings xs) \<and>
     length ys \<le> length xs + 1"
proof (cases "list_ex (named n) xs")
  case True
  obtain ys x zs where xs: "xs = ys @ x # zs" and x: "named n x"
    and ys: "takeWhile (\<lambda>x. \<not> named n x) xs = ys" "list_all (\<lambda>y. \<not> named n y) ys"
    using first_split [OF True] by auto
  from inv obtain t where t: "alias_array_set s (length ys) new = Some t" "holds t (ys @ new # zs)"
    using set_ok [of s xs "length ys" new] by (auto simp: as_invar_def xs)
  have "bindings (ys @ new # zs) m = with_binding n (alias_value new) (bindings xs) m" for m
    using bindings_None [OF ys(2)] x nm
    by (auto simp: xs bindings_append with_binding_def named_def split: option.split)
  moreover from inv x nm have "as_invar t (ys @ new # zs)"
    using t(2) by (auto simp: as_invar_def xs named_def)
  ultimately show ?thesis
    using t(1) True ys(1) by (auto simp: store_find [OF inv] fun_eq_iff xs)
next
  case False
  then have none: "list_all (\<lambda>y. \<not> named n y) xs" by (induction xs) auto
  from inv room obtain t where t: "alias_array_append s new = Some t" "holds t (xs @ [new])"
    using append_ok unfolding as_invar_def by blast
  have "bindings (xs @ [new]) m = with_binding n (alias_value new) (bindings xs) m" for m
    using bindings_None [OF none] nm
    by (auto simp: bindings_append with_binding_def named_def split: option.split)
  moreover from inv none nm have "as_invar t (xs @ [new])"
    using t(2) by (auto simp: as_invar_def named_def list_all_iff)
  ultimately show ?thesis
    using t(1) False by (auto simp: store_find [OF inv] fun_eq_iff)
qed

lemma add_ok: "as_invar s xs \<Longrightarrow> int (length xs + 1) * 2 \<le> INT_MAX \<Longrightarrow>
    \<exists>t ys. alias_store_add s n v = Some t \<and> as_invar t ys \<and>
      bindings ys = with_binding n v (bindings xs) \<and> length ys \<le> length xs + 1"
  using add_general [of s xs n "alias_create n v"]
  by (simp add: alias_store_add_def) (simp add: alias_create_def named_def)

lemma remove_store_ok:
  assumes inv: "as_invar s xs"
  shows "\<exists>t ys. alias_store_remove s n = Some (t, bindings xs n \<noteq> None) \<and> as_invar t ys \<and>
     bindings ys = without_binding n (bindings xs) \<and> length ys \<le> length xs"
proof (cases "list_ex (named n) xs")
  case True
  obtain ys x zs where xs: "xs = ys @ x # zs" and x: "named n x"
    and ys: "takeWhile (\<lambda>x. \<not> named n x) xs = ys" "list_all (\<lambda>y. \<not> named n y) ys"
    using first_split [OF True] by auto
  from inv obtain t where t: "alias_array_remove s (length ys) = Some t" "holds t (ys @ zs)"
    using remove_ok [of s xs "length ys"] by (auto simp: as_invar_def xs)
  from inv x have "list_all (\<lambda>y. \<not> named n y) zs"
    by (auto simp: as_invar_def xs named_def list_all_iff intro: rev_image_eqI)
  then have "bindings (ys @ zs) m = without_binding n (bindings xs) m" for m
    using bindings_None [OF ys(2)] bindings_None [of n zs] x
    by (auto simp: xs bindings_append without_binding_def named_def split: option.split)
  moreover have "as_invar t (ys @ zs)" using inv t(2) by (auto simp: as_invar_def xs)
  moreover have "bindings xs n \<noteq> None"
    using bindings_None [OF ys(2), of n] x by (simp add: xs bindings_append)
  ultimately show ?thesis
    using t(1) True ys(1) by (auto simp: alias_store_remove_def store_find [OF inv] fun_eq_iff xs)
next
  case False
  then have "list_all (\<lambda>y. \<not> named n y) xs" by (induction xs) auto
  with False show ?thesis
    using inv bindings_None [of n xs]
    by (intro exI [of _ s] exI [of _ xs])
       (auto simp: alias_store_remove_def store_find [OF inv] without_binding_def fun_eq_iff)
qed

lemma has_name_ok: "as_invar s xs \<Longrightarrow> alias_store_has_name s n = Some (bindings xs n \<noteq> None)"
proof -
  have "list_ex (named n) xs \<longleftrightarrow> bindings xs n \<noteq> None" by (induction xs) auto
  then show "as_invar s xs \<Longrightarrow> ?thesis" by (auto simp: alias_store_has_name_def store_find)
qed

lemma get_value_ok:
  assumes inv: "as_invar s xs"
  shows "alias_store_get_value s n = Some (bindings xs n)"
proof (cases "list_ex (named n) xs")
  case True
  obtain ys x zs where xs: "xs = ys @ x # zs" and x: "named n x"
    and ys: "takeWhile (\<lambda>x. \<not> named n x) xs = ys" "list_all (\<lambda>y. \<not> named n y) ys"
    using first_split [OF True] by auto
  from inv have "alias_array_get s (length ys) = Some x"
    by (subst get_ok [of s xs]) (auto simp: as_invar_def xs)
  with True ys(1) x show ?thesis
    using bindings_None [OF ys(2), of n]
    by (simp add: alias_store_get_value_def store_find [OF inv]) (simp add: xs bindings_append)
next
  case False
  then have "list_all (\<lambda>y. \<not> named n y) xs" by (induction xs) auto
  with False show ?thesis
    using bindings_None [of n xs] by (simp add: alias_store_get_value_def store_find [OF inv])
qed

lemma get_value_cstr_eq:
  "alias_store_get_value_cstr s n = map_option (map_option cstr_of) (alias_store_get_value s n)"
  by (cases "alias_array_find_with_compare s (compare_alias_name n)")
     (auto simp: alias_store_get_value_cstr_def alias_store_get_value_def alias_get_value_cstr_def
        option.map_comp comp_def simp del: compare_named split: option.split)

lemma create_store_ok: "as_invar alias_store_create []"
  by (simp add: as_invar_def alias_store_create_def create_ok)

lemma clear_store_ok: "as_invar s xs \<Longrightarrow> \<exists>t. alias_store_clear s = Some t \<and> as_invar t []"
  using clear_ok [of s xs] by (auto simp: as_invar_def alias_store_clear_def)

subsection \<open>Cloning and visiting\<close>

lemma add_new:
  assumes "as_invar s xs" "list_all (\<lambda>y. \<not> named n y) xs" "int (length xs + 1) * 2 \<le> INT_MAX"
  shows "\<exists>t. alias_store_add s n v = Some t \<and> as_invar t (xs @ [alias_create n v])"
proof -
  have "\<not> list_ex (named n) xs" using assms(2) by (induction xs) auto
  moreover obtain t where "alias_array_append s (alias_create n v) = Some t"
    "holds t (xs @ [alias_create n v])"
    using append_ok assms unfolding as_invar_def by blast
  ultimately show ?thesis
    using assms
    by (auto simp: alias_store_add_def store_find as_invar_def alias_create_def named_def list_all_iff)
qed

lemma alias_create_fields [simp]: "alias_create (alias_name a) (alias_value a) = a"
  by (cases a) (simp add: alias_create_def)

lemma clone_from_ok:
  "as_invar other xs \<Longrightarrow> as_invar s (take i xs) \<Longrightarrow> i + n = length xs \<Longrightarrow>
   int (length xs) * 2 \<le> INT_MAX \<Longrightarrow> \<exists>t. clone_from other n i s = Some t \<and> as_invar t xs"
proof (induction n arbitrary: i s)
  case (Suc n)
  then have i: "i < length xs" by simp
  have get: "alias_array_get other i = Some (xs ! i)"
    using Suc.prems i get_ok unfolding as_invar_def by blast
  have "list_all (\<lambda>y. \<not> named (alias_name (xs ! i)) y) (take i xs)"
    using Suc.prems(1) i
    by (auto simp: as_invar_def list_all_length named_def distinct_conv_nth)
  then obtain t where t: "alias_store_add s (alias_name (xs ! i)) (alias_value (xs ! i)) = Some t"
    "as_invar t (take i xs @ [alias_create (alias_name (xs ! i)) (alias_value (xs ! i))])"
    using add_new [OF Suc.prems(2)] Suc.prems i by fastforce
  then have "as_invar t (take (i + 1) xs)"
    using i by (simp add: take_Suc_conv_app_nth)
  with Suc.IH [of t "i + 1"] Suc.prems get t(1) show ?case by simp
qed simp

lemma clone_ok: "as_invar s xs \<Longrightarrow> int (length xs) * 2 \<le> INT_MAX \<Longrightarrow>
    \<exists>t. alias_store_clone s = Some t \<and> as_invar t xs"
  using clone_from_ok [of s xs alias_store_create 0 "length xs"] create_store_ok
  by (auto simp: alias_store_clone_def alias_array_size_def as_invar_def holds_def)

lemma foreach_from_ok: "holds s xs \<Longrightarrow> i + n = length xs \<Longrightarrow>
    foreach_from f s n i x = Some (fold (\<lambda>a. f (alias_name a) (alias_value a)) (drop i xs) x)"
proof (induction n arbitrary: i x)
  case (Suc n)
  then have "drop i xs = xs ! i # drop (i + 1) xs" by (simp add: Cons_nth_drop_Suc)
  with Suc show ?case by (simp add: get_ok)
qed simp

lemma foreach_ok: "as_invar s xs \<Longrightarrow>
    alias_store_foreach s f x = Some (fold (\<lambda>a. f (alias_name a) (alias_value a)) xs x)"
  using foreach_from_ok [of s xs 0 "length xs"]
  by (auto simp: alias_store_foreach_def alias_array_size_def as_invar_def holds_def)

subsection \<open>The store as a map from strings\<close>

fun slot_alias :: "alias_slot \<Rightarrow> alias_t option" where
  "slot_alias (Alias_Slot a) = Some a"
| "slot_alias _ = None"

definition contents :: "alias_store \<Rightarrow> alias_t list" where
  "contents s = List.map_filter slot_alias (take (aa_size s) (aa_data s))"

lemma map_filter_slots: "List.map_filter slot_alias (map Alias_Slot xs) = xs"
  by (induction xs) (simp_all add: map_filter_simps)

lemma contents_eq: "as_invar s xs \<Longrightarrow> contents s = xs"
  by (simp add: as_invar_def holds_def contents_def map_filter_slots)

definition store_ok :: "alias_store \<Rightarrow> bool" where
  "store_ok s \<longleftrightarrow> as_invar s (contents s)"

definition as_lookup :: "alias_store \<Rightarrow> string \<rightharpoonup> string" where
  "as_lookup s n = (if nul_free n then bindings (contents s) n else None)"

definition as_room :: "nat \<Rightarrow> alias_store \<Rightarrow> bool" where
  "as_room n s \<longleftrightarrow> int (length (contents s) + n) * 2 \<le> INT_MAX"

definition alias_store_unset :: "alias_store \<Rightarrow> string \<Rightarrow> alias_store option" where
  "alias_store_unset s n = map_option fst (alias_store_remove s n)"

lemma add_law:
  assumes "store_ok s" "nul_free k" "as_room (Suc n) s"
  shows "\<exists>t. alias_store_add s k v = Some t \<and> store_ok t \<and>
    as_lookup t = (as_lookup s)(k \<mapsto> v) \<and> as_room n t"
proof -
  from assms obtain t ys where t: "alias_store_add s k v = Some t" "as_invar t ys"
    "bindings ys = with_binding k v (bindings (contents s))" "length ys \<le> length (contents s) + 1"
    using add_ok [of s "contents s" k v] by (auto simp: store_ok_def as_room_def)
  moreover from t assms(2) have "as_lookup t = (as_lookup s)(k \<mapsto> v)"
    by (auto simp: as_lookup_def contents_eq [OF t(2)] with_binding_def fun_eq_iff)
  ultimately show ?thesis
    using assms(3) by (auto simp: store_ok_def as_room_def contents_eq [OF t(2)])
qed

lemma unset_law:
  assumes "store_ok s" "nul_free k"
  shows "\<exists>t. alias_store_unset s k = Some t \<and> store_ok t \<and>
    as_lookup t = (as_lookup s)(k := None) \<and> (as_room n s \<longrightarrow> as_room n t)"
proof -
  from assms obtain t ys where t: "alias_store_unset s k = Some t" "as_invar t ys"
    "bindings ys = without_binding k (bindings (contents s))" "length ys \<le> length (contents s)"
    using remove_store_ok [of s "contents s" k] by (auto simp: store_ok_def alias_store_unset_def)
  moreover from t assms(2) have "as_lookup t = (as_lookup s)(k := None)"
    by (auto simp: as_lookup_def contents_eq [OF t(2)] without_binding_def fun_eq_iff)
  ultimately show ?thesis
    by (auto simp: store_ok_def as_room_def contents_eq [OF t(2)])
qed

interpretation al: string_map alias_store_create alias_store_get_value alias_store_add
  alias_store_unset as_lookup store_ok as_room
proof
  show "store_ok alias_store_create" "as_lookup alias_store_create = Map.empty"
    by (simp_all add: store_ok_def as_lookup_def fun_eq_iff contents_eq [OF create_store_ok]
          create_store_ok)
qed (simp_all add: store_ok_def get_value_ok as_lookup_def add_law [unfolded store_ok_def]
       unset_law [unfolded store_ok_def])

text \<open>C19: The alias store is a finite map.  After any adding of aliases and then any removing
  of names, within the capacity that an \<open>int\<close> can count, no contract of the array is violated,
  and both lookups answer as the map does: the last value added to a name that was not removed.
  A clone of the store answers every lookup as the store does.\<close>

theorem alias_store_is_map:
  assumes "\<forall>k \<in> fst ` set kvs \<union> set ks. nul_free k" and "int (length kvs) * 2 \<le> INT_MAX"
  shows "\<exists>s t u. fold_opt (\<lambda>(k, v) s. alias_store_add s k v) kvs alias_store_create = Some s \<and>
    fold_opt (\<lambda>k s. alias_store_unset s k) ks s = Some t \<and> alias_store_clone t = Some u \<and>
    (\<forall>n. nul_free n \<longrightarrow>
       (let r = (map_of (rev kvs) |` (- set ks)) n
        in alias_store_get_value t n = Some r \<and> alias_store_has_name t n = Some (r \<noteq> None) \<and>
           alias_store_get_value u n = Some r))"
proof -
  have room: "as_room (length kvs + 0) alias_store_create"
    using assms(2) by (simp add: as_room_def contents_eq [OF create_store_ok])
  obtain s where s: "fold_opt (\<lambda>(k, v) s. alias_store_add s k v) kvs alias_store_create = Some s"
    "store_ok s" "as_lookup s = map_of (rev kvs)" "as_room 0 s"
    using al.assign_all [OF al.create_invar room] assms(1) by (auto simp: al.create_lookup)
  obtain t where t: "fold_opt (\<lambda>k s. alias_store_unset s k) ks s = Some t" "store_ok t"
    "as_lookup t = map_of (rev kvs) |` (- set ks)" "as_room 0 t"
    using al.remove_all [OF s(2), of ks 0] assms(1) s(3,4) by auto
  obtain u where u: "alias_store_clone t = Some u" "as_invar u (contents t)"
    using clone_ok [of t "contents t"] t(2,4) by (auto simp: store_ok_def as_room_def)
  have "alias_store_get_value t n = Some ((map_of (rev kvs) |` (- set ks)) n)" if "nul_free n" for n
    using al.find_lookup [OF t(2) that] t(3) by simp
  moreover from this have "bindings (contents t) n = (map_of (rev kvs) |` (- set ks)) n"
    if "nul_free n" for n
    using get_value_ok [of t "contents t" n] t(2) that by (simp add: store_ok_def)
  ultimately show ?thesis
    using s(1) t(1,2) u get_value_ok [OF u(2)] has_name_ok [of t "contents t"]
    by (intro exI [of _ s] exI [of _ t] exI [of _ u]) (simp add: Let_def store_ok_def)
qed

theorem alias_store_is_map_witness:
  "\<exists>s t. fold_opt (\<lambda>(k, v) s. alias_store_add s k v)
       [(''ll'', ''ls -l''), (''g'', ''grep''), (''ll'', ''ls -la'')] alias_store_create = Some s \<and>
     fold_opt (\<lambda>k s. alias_store_unset s k) [''g''] s = Some t \<and>
     alias_store_get_value t ''ll'' = Some (Some ''ls -la'') \<and>
     alias_store_has_name t ''g'' = Some False"
proof -
  from alias_store_is_map [of "[(''ll'', ''ls -l''), (''g'', ''grep''), (''ll'', ''ls -la'')]" "[''g'']"]
  obtain s t where "fold_opt (\<lambda>(k, v) s. alias_store_add s k v)
       [(''ll'', ''ls -l''), (''g'', ''grep''), (''ll'', ''ls -la'')] alias_store_create = Some s"
    "fold_opt (\<lambda>k s. alias_store_unset s k) [''g''] s = Some t"
    and look: "\<forall>n. nul_free n \<longrightarrow> (let r = (map_of (rev [(''ll'', ''ls -l''), (''g'', ''grep''),
         (''ll'', ''ls -la'')]) |` (- set [''g''])) n
        in alias_store_get_value t n = Some r \<and> alias_store_has_name t n = Some (r \<noteq> None))"
    by (auto simp: Let_def)
  then show ?thesis
    using look [rule_format, of "''ll''"] look [rule_format, of "''g''"]
    by (intro exI [of _ s] exI [of _ t]) (simp add: restrict_map_def)
qed

end
