(* ===== verification/Tokenizer_Proofs.thy ===== *)
theory Tokenizer_Proofs
  imports
    Tokenizer Alias_Proofs
begin

section \<open>The tokenizer: steps, order of tokens, nesting\<close>

text \<open>
  How one step of the tokenizer depends on its lists, the invariant of the compound-command
  stack, and the run over a whole input.
\<close>

abbreviation map_run where
  "map_run f \<equiv> map_option (map_option f)"

subsection \<open>A step in a larger context\<close>

text \<open>
  \<open>within p o e ys tk\<close> is the state \<open>tk\<close> with \<open>p\<close> consumed before its input, \<open>ys\<close> still to come
  after it, \<open>o\<close> already in the output, and the error message \<open>e\<close>.  A step that does not look
  beyond the input is the same in the larger context.
\<close>

definition within ::
    "token list \<Rightarrow> token list \<Rightarrow> string option \<Rightarrow> token list \<Rightarrow> tokenizer_t \<Rightarrow> tokenizer_t" where
  "within p out e ys tk =
     tk\<lparr>tk_input := p @ tk_input tk @ ys, tk_pos := length p + tk_pos tk,
        tk_output := out @ tk_output tk, tk_error := e\<rparr>"

lemma within_fields [simp]:
  "tk_aliases (within p out e ys tk) = tk_aliases tk"
  "tk_input (within p out e ys tk) = p @ tk_input tk @ ys"
  "tk_pos (within p out e ys tk) = length p + tk_pos tk"
  "tk_output (within p out e ys tk) = out @ tk_output tk"
  "tk_buffered (within p out e ys tk) = tk_buffered tk"
  "tk_depth (within p out e ys tk) = tk_depth tk"
  "tk_max_depth (within p out e ys tk) = tk_max_depth tk"
  "tk_expanded (within p out e ys tk) = tk_expanded tk"
  "tk_error (within p out e ys tk) = e"
  "tk_at_command (within p out e ys tk) = tk_at_command tk"
  "tk_stack (within p out e ys tk) = tk_stack tk"
  by (simp_all add: within_def)

lemma within_updates:
  "(within p out e ys tk)\<lparr>tk_stack := st\<rparr> = within p out e ys (tk\<lparr>tk_stack := st\<rparr>)"
  "(within p out e ys tk)\<lparr>tk_buffered := b\<rparr> = within p out e ys (tk\<lparr>tk_buffered := b\<rparr>)"
  "(within p out e ys tk)\<lparr>tk_at_command := c\<rparr> = within p out e ys (tk\<lparr>tk_at_command := c\<rparr>)"
  "(within p out e ys tk)\<lparr>tk_expanded := x\<rparr> = within p out e ys (tk\<lparr>tk_expanded := x\<rparr>)"
  "(within p out e ys tk)\<lparr>tk_depth := d\<rparr> = within p out e ys (tk\<lparr>tk_depth := d\<rparr>)"
  "(within p out e ys tk)\<lparr>tk_pos := length p + n\<rparr> = within p out e ys (tk\<lparr>tk_pos := n\<rparr>)"
  "(within p out e ys tk)\<lparr>tk_output := out @ o'\<rparr> = within p out e ys (tk\<lparr>tk_output := o'\<rparr>)"
  "(within p out e ys tk)\<lparr>tk_input := p @ i @ ys\<rparr> = within p out e ys (tk\<lparr>tk_input := i\<rparr>)"
  "(within p out e ys tk)\<lparr>tk_error := e'\<rparr> = within p out e' ys (tk\<lparr>tk_error := e'\<rparr>)"
  by (simp_all add: within_def)

definition fits :: "token list \<Rightarrow> tokenizer_t \<Rightarrow> bool" where
  \<comment> \<open>what already is in the output does not matter\<close>
  "fits out tk \<longleftrightarrow> out = [] \<or> (tk_output tk = [] \<and> tk_buffered tk \<noteq> [] \<and>
     \<not> last_type_is (\<lambda>ty. ty = TOKEN_FOR \<or> ty = TOKEN_CASE) out)"

definition sees :: "token list \<Rightarrow> tokenizer_t \<Rightarrow> bool" where
  \<comment> \<open>looking one token ahead does not leave the input\<close>
  "sees ys tk \<longleftrightarrow> tk_pos tk < length (tk_input tk) \<and>
     (ys = [] \<or> tk_pos tk + 1 < length (tk_input tk) \<or>
      tok_type (tk_input tk ! tk_pos tk) = TOKEN_NEWLINE)"

lemma next_within: "ys = [] \<or> tk_pos tk + 1 < length (tk_input tk) \<Longrightarrow>
    next_type_is P (within p out e ys tk) = next_type_is P tk"
  by (auto simp: next_type_is_def nth_append)

lemma eligible_within [simp]:
  "tokenizer_is_alias_eligible (within p out e ys tk) t = tokenizer_is_alias_eligible tk t"
  "tokenizer_is_alias_expanded (within p out e ys tk) = tokenizer_is_alias_expanded tk"
  by (simp_all add: tokenizer_is_alias_eligible_def tokenizer_is_alias_expanded_def fun_eq_iff)

lemma alias_to_expand_within [simp]:
  "alias_to_expand (within p out e ys tk) t = alias_to_expand tk t"
  unfolding alias_to_expand_def eligible_within within_fields ..

lemma last_within: "fits out tk \<Longrightarrow>
    is_loop_var_or_case_word (within p out e ys tk) = is_loop_var_or_case_word tk"
  by (auto simp: fits_def is_loop_var_or_case_word_def last_type_is_def)

lemma reserved_within:
  assumes "sees ys tk" "fits out tk" "t = tk_input tk ! tk_pos tk"
  shows "reserved_type (within p out e ys tk) t = reserved_type tk t"
proof (cases "tok_type t = TOKEN_NEWLINE")
  case False
  with assms have "ys = [] \<or> tk_pos tk + 1 < length (tk_input tk)" by (auto simp: sees_def)
  then show ?thesis using assms(2) by (simp add: reserved_type_def is_case_pattern_def next_within last_within)
qed (simp add: reserved_type_def)

lemma io_number_word_within:
  assumes "sees ys tk" "t = tk_input tk ! tk_pos tk"
  shows "io_number_word (within p out e ys tk) t = io_number_word tk t"
proof (cases "tok_type t = TOKEN_NEWLINE")
  case False
  with assms have "ys = [] \<or> tk_pos tk + 1 < length (tk_input tk)" by (auto simp: sees_def)
  then show ?thesis by (simp add: io_number_word_def next_within)
qed (simp add: io_number_word_def)

lemma starts_within:
  assumes "ys = [] \<or> tk_pos tk + 1 < length (tk_input tk) \<or> ty \<noteq> TOKEN_LPAREN" "fits out tk"
  shows "starts_function_definition (within p out e ys tk) ty = starts_function_definition tk ty"
proof (cases "ty = TOKEN_LPAREN")
  case True
  with assms show ?thesis
    by (auto simp: starts_function_definition_def next_within fits_def)
qed (simp add: starts_function_definition_def)

definition result_error :: "tok_status_t \<Rightarrow> string option \<Rightarrow> tokenizer_t \<Rightarrow> string option" where
  "result_error st e tk = (if st = TOK_OK then e else tk_error tk)"

definition within_result ::
    "token list \<Rightarrow> token list \<Rightarrow> string option \<Rightarrow> token list \<Rightarrow>
     tok_status_t \<times> tokenizer_t \<Rightarrow> tok_status_t \<times> tokenizer_t" where
  "within_result p out e ys r =
     (case r of (st, tk) \<Rightarrow> (st, within p out (result_error st e tk) ys tk))"

lemma move_within:
  "starts_function_definition tk ty \<Longrightarrow>
   move_function_name (within p out e ys tk) = within p out e ys (move_function_name tk)"
  by (simp add: move_function_name_def starts_function_definition_def last_type_is_def
        butlast_append within_def)

lemma push_within: "tokenizer_push_compound ty (within p out e ys tk) =
    within p out e ys (tokenizer_push_compound ty tk)"
  by (simp add: tokenizer_push_compound_def within_updates)

lemma pop_within: "tokenizer_pop_compound ty (within p out e ys tk) =
    (case tokenizer_pop_compound ty tk of
       (tk', ok) \<Rightarrow> (within p out (if ok then e else tk_error tk') ys tk', ok))"
  by (simp add: tokenizer_pop_compound_def tokenizer_set_error_def within_updates Let_def
        split: list.split)

lemma track_within: "track_compound ty (within p out e ys tk) =
    (case track_compound ty tk of
       (tk', ok) \<Rightarrow> (within p out (if ok then e else tk_error tk') ys tk', ok))"
  by (simp add: track_compound_def Let_def push_within pop_within)

lemma position_within: "tokenizer_update_command_position t (within p out e ys tk) =
    within p out e ys (tokenizer_update_command_position t tk)"
  by (simp add: tokenizer_update_command_position_def tokenizer_clear_expanded_aliases_def
        within_updates)

lemma place_within:
  "place_token b t (within p out e ys tk) = within p out e ys (place_token b t tk)"
  by (simp add: place_token_def Let_def token_list_append_def tokenizer_update_command_position_def
        tokenizer_clear_expanded_aliases_def within_def)

lemma add_token_within:
  assumes "ys = [] \<or> tk_pos tk + 1 < length (tk_input tk) \<or> tok_type t \<noteq> TOKEN_LPAREN" "fits out tk"
  shows "add_token (within p out e ys tk) t = within_result p out e ys (add_token tk t)"
  using move_within [of tk "tok_type t" p out e ys]
  by (auto simp: add_token_def Let_def starts_within [OF assms] track_within place_within
        within_result_def result_error_def split: prod.split bool.split)


lemma set_io_within: "i < length xs \<Longrightarrow> token_list_set_io_number (p @ xs @ ys) (length p + i) n =
    map_option (\<lambda>ts. p @ ts @ ys) (token_list_set_io_number xs i n)"
  by (simp add: token_list_set_io_number_def list_update_append nth_append)

lemma remove_within: "i < length xs \<Longrightarrow> token_list_remove (p @ xs @ ys) (length p + i) =
    map_option (\<lambda>ts. p @ ts @ ys) (token_list_remove xs i)"
  by (simp add: token_list_remove_def)

lemma insert_within: "i \<le> length xs \<Longrightarrow> token_list_insert_range (p @ xs @ ys) (length p + i) new =
    map_option (\<lambda>ts. p @ ts @ ys) (token_list_insert_range xs i new)"
  by (simp add: token_list_insert_range_def)

lemma set_io_length: "token_list_set_io_number xs i n = Some ts \<Longrightarrow> length ts = length xs"
  by (auto simp: token_list_set_io_number_def split: if_splits)

lemma io_word_next: "io_number_word tk t = Some (Some w) \<Longrightarrow> tk_pos tk + 1 < length (tk_input tk)"
  by (auto simp: io_number_word_def next_type_is_def split: if_splits)

lemma promote_within: "tk_pos tk < length (tk_input tk) \<Longrightarrow>
    (within p out e ys tk)\<lparr>tk_input := (p @ tk_input tk @ ys)[length p + tk_pos tk := t]\<rparr> =
      within p out e ys (tk\<lparr>tk_input := (tk_input tk)[tk_pos tk := t]\<rparr>)"
  by (simp add: within_def list_update_append)

lemma reserved_word_type: "token_string_to_reserved_word w \<in> insert TOKEN_WORD (snd ` set reserved_words)"
  by (auto simp: token_string_to_reserved_word_def split: option.split dest!: map_of_SomeD)
     (force intro: rev_image_eqI)

lemma reserved_type_word: "reserved_type tk t = Some (Some ty) \<Longrightarrow>
    tok_type t = TOKEN_WORD \<and> ty \<in> snd ` set reserved_words"
  using reserved_word_type
  by (force simp: reserved_type_def Let_def bind_eq_Some_conv split: if_splits option.splits)

lemma reserved_not_lparen: "reserved_type tk t = Some (Some ty) \<Longrightarrow> ty \<noteq> TOKEN_LPAREN"
  using reserved_type_word [of tk t ty] by (auto simp: reserved_words_def)

lemma fits_input [simp]: "fits out (tk\<lparr>tk_input := i\<rparr>) = fits out tk"
  by (simp add: fits_def)

lemma plain_within:
  assumes "sees ys tk" "fits out tk" "t = tk_input tk ! tk_pos tk"
  shows "process_plain_token (within p out e ys tk) t =
    map_option (within_result p out e ys) (process_plain_token tk t)"
proof -
  have pos: "tk_pos tk < length (tk_input tk)" using assms(1) by (simp add: sees_def)
  have look: "ys = [] \<or> tk_pos tk + 1 < length (tk_input tk) \<or> tok_type t \<noteq> TOKEN_LPAREN"
    using assms by (auto simp: sees_def)
  note same = reserved_within [OF assms] io_number_word_within [OF assms(1,3)]
  show ?thesis
  proof (cases "reserved_type tk t")
    case None
    then show ?thesis by (simp add: process_plain_token_def same)
  next
    case (Some r)
    note res = Some
    show ?thesis
    proof (cases r)
      case (Some ty)
      with res have "ty \<noteq> TOKEN_LPAREN" using reserved_not_lparen by simp
      with res Some show ?thesis
        using assms(2) add_token_within [of ys "tk\<lparr>tk_input := (tk_input tk)[tk_pos tk := t\<lparr>tok_type := ty\<rparr>]\<rparr>"
            "t\<lparr>tok_type := ty\<rparr>" out p e]
        by (simp add: process_plain_token_def same Let_def promote_within [OF pos])
    next
      case None
      note plain = None
      show ?thesis
      proof (cases "io_number_word tk t")
        case None
        then show ?thesis using res plain by (simp add: process_plain_token_def same)
      next
        case (Some w)
        show ?thesis
        proof (cases w)
          case None
          with res plain Some show ?thesis
            by (simp add: process_plain_token_def same add_token_within [OF look assms(2)])
        next
          fix word assume word: "w = Some word"
          with Some have nxt: "tk_pos tk + 1 < length (tk_input tk)" using io_word_next by blast
          then have set: "token_list_set_io_number (p @ tk_input tk @ ys) (Suc (length p + tk_pos tk)) n =
              map_option (\<lambda>ts. p @ ts @ ys)
                (token_list_set_io_number (tk_input tk) (Suc (tk_pos tk)) n)" for n
            using set_io_within [of "Suc (tk_pos tk)" "tk_input tk" p ys n] by simp
          have rem: "token_list_remove (p @ ts @ ys) (length p + tk_pos tk) =
              map_option (\<lambda>ts. p @ ts @ ys) (token_list_remove ts (tk_pos tk))"
            if "token_list_set_io_number (tk_input tk) (Suc (tk_pos tk)) n = Some ts" for n ts
            using remove_within [of "tk_pos tk" ts p ys] pos set_io_length [OF that] by simp
          show ?thesis using res plain Some word
            by (auto simp: process_plain_token_def same set rem bind_map_option comp_def
                  within_result_def result_error_def within_updates
                  split: bind_splits)
        qed
      qed
    qed
  qed
qed


lemma relex_within:
  assumes "tk_pos tk \<le> length (tk_input tk)"
  shows "tokenizer_relex_text (within p out e ys tk) v =
      map_run (within_result p out e ys) (tokenizer_relex_text tk v)"
proof (cases "lexer_tokenize (lexer_append_input lexer_create v)")
  case (Some r)
  note run = Some
  show ?thesis
  proof (cases r)
    case (Some q)
    obtain st new lx where q: "q = (st, new, lx)" by (cases q)
    have "map_option (\<lambda>ts. (TOK_OK, (within p out e ys tk)\<lparr>tk_input := ts\<rparr>))
        (token_list_insert_range (p @ tk_input tk @ ys) (length p + tk_pos tk) new) =
      map_option (within_result p out e ys)
        (map_option (\<lambda>ts. (TOK_OK, tk\<lparr>tk_input := ts\<rparr>))
          (token_list_insert_range (tk_input tk) (tk_pos tk) new))"
      by (simp add: insert_within [OF assms] option.map_comp comp_def within_result_def
            result_error_def within_updates)
    then show ?thesis
      using run Some
      by (cases "st = LEX_OK"; cases "new = []")
         (simp_all add: tokenizer_relex_text_def q within_result_def result_error_def
           tokenizer_set_error_def within_updates)
  qed (use run in \<open>simp add: tokenizer_relex_text_def\<close>)
qed (simp add: tokenizer_relex_text_def)

lemma relex_fields:
  assumes "tokenizer_relex_text tk v = Some (Some (st, a))"
  shows "tk_pos a = tk_pos tk \<and> tk_depth a = tk_depth tk \<and> tk_expanded a = tk_expanded tk \<and>
    tk_stack a = tk_stack tk \<and> tk_output a = tk_output tk \<and> tk_buffered a = tk_buffered tk \<and>
    tk_at_command a = tk_at_command tk \<and> tk_aliases a = tk_aliases tk \<and>
    tk_max_depth a = tk_max_depth tk \<and> st \<in> {TOK_OK, TOK_ERROR} \<and>
    (st = TOK_OK \<longrightarrow> tk_error a = tk_error tk \<and>
       (\<exists>new. tk_input a = take (tk_pos tk) (tk_input tk) @ new @ drop (tk_pos tk) (tk_input tk)))"
  using assms
  by (auto simp: tokenizer_relex_text_def token_list_insert_range_def tokenizer_set_error_def
        intro: exI [of _ "[]"] split: option.splits prod.splits if_splits)

lemma expand_within: "tk_pos tk \<le> length (tk_input tk) \<Longrightarrow>
    tokenizer_expand_alias (within p out e ys tk) n =
      map_run (within_result p out e ys) (tokenizer_expand_alias tk n)"
proof -
  assume pos: "tk_pos tk \<le> length (tk_input tk)"
  have val: "alias_value_of (within p out e ys tk) n = alias_value_of tk n"
    by (simp add: alias_value_of_def)
  have mark: "tokenizer_mark_alias_expanded n (within p out e ys tk) =
      within p out e ys (tokenizer_mark_alias_expanded n tk)"
    by (simp add: tokenizer_mark_alias_expanded_def within_updates)
  have relex: "tokenizer_relex_text
        (within p out e ys ((tokenizer_mark_alias_expanded n tk)\<lparr>tk_depth := d\<rparr>)) v =
      map_run (within_result p out e ys)
        (tokenizer_relex_text ((tokenizer_mark_alias_expanded n tk)\<lparr>tk_depth := d\<rparr>) v)" for d v
    using pos by (simp add: relex_within tokenizer_mark_alias_expanded_def)
  show ?thesis
    by (simp add: tokenizer_expand_alias_def val mark within_updates relex Let_def
          split: option.split)
       (auto simp: within_result_def result_error_def within_updates tokenizer_set_error_def
          split: prod.split)
qed

lemma one_token_within:
  assumes "sees ys tk" "fits out tk"
  shows "tokenizer_process_one_token (within p out e ys tk) =
    map_run (within_result p out e ys) (tokenizer_process_one_token tk)"
proof -
  have pos: "tk_pos tk < length (tk_input tk)" using assms(1) by (simp add: sees_def)
  then have tok: "(tk_input tk @ ys) ! tk_pos tk = tk_input tk ! tk_pos tk"
    by (simp add: nth_append)
  have expand: "tokenizer_expand_alias ((within p out e ys tk)\<lparr>tk_input := p @ ts @ ys\<rparr>) n =
      map_run (within_result p out e ys) (tokenizer_expand_alias (tk\<lparr>tk_input := ts\<rparr>) n)"
    if "token_list_remove (tk_input tk) (tk_pos tk) = Some ts" for ts n
    using that pos by (auto simp: within_updates expand_within token_list_remove_def)
  show ?thesis
    using pos plain_within [OF assms refl]
    by (auto simp: tokenizer_process_one_token_def tok Let_def remove_within expand
          split: option.split)
qed

subsection \<open>What a step does\<close>

lemma track_fields: "track_compound ty tk = (a, ok) \<Longrightarrow>
    a = tk\<lparr>tk_stack := tk_stack a, tk_error := tk_error a\<rparr> \<and> (ok \<longrightarrow> tk_error a = tk_error tk)"
  by (auto simp: track_compound_def tokenizer_push_compound_def tokenizer_pop_compound_def
        tokenizer_set_error_def Let_def split: if_splits list.splits)

lemma place_fields [simp]:
  "tk_aliases (place_token b t tk) = tk_aliases tk" "tk_input (place_token b t tk) = tk_input tk"
  "tk_pos (place_token b t tk) = tk_pos tk + 1" "tk_depth (place_token b t tk) = tk_depth tk"
  "tk_max_depth (place_token b t tk) = tk_max_depth tk"
  "tk_error (place_token b t tk) = tk_error tk" "tk_stack (place_token b t tk) = tk_stack tk"
  "tk_at_command (place_token b t tk) = command_position_follows (tok_type t)"
  "tk_expanded (place_token b t tk) =
     (if command_position_follows (tok_type t) then [] else tk_expanded tk)"
  "tk_output (place_token b t tk) =
     (if b \<or> tk_stack tk \<noteq> [] then tk_output tk else tk_output tk @ [t])"
  "tk_buffered (place_token b t tk) =
     (if b \<or> tk_stack tk \<noteq> [] then tk_buffered tk @ [t] else tk_buffered tk)"
  by (simp_all add: place_token_def Let_def tokenizer_update_command_position_def
        tokenizer_clear_expanded_aliases_def token_list_append_def)

text \<open>The tokens that a state holds, in order, and the effect of a token on the open commands.\<close>

definition held :: "tokenizer_t \<Rightarrow> token list" where
  "held tk = tk_output tk @ tk_buffered tk"

definition nest :: "token_type \<Rightarrow> token_type list \<Rightarrow> token_type list option" where
  "nest ty stack =
     (let stack = (if opens_compound ty then ty # stack else stack)
      in if \<not> closes_compound ty then Some stack
         else case stack of [] \<Rightarrow> None
           | o' # rest \<Rightarrow> if ty = tokenizer_get_closing_token o' then Some rest else None)"

fun nesting :: "token_type list \<Rightarrow> token_type list \<Rightarrow> token_type list option" where
  "nesting stack [] = Some stack"
| "nesting stack (ty # tys) = Option.bind (nest ty stack) (\<lambda>s. nesting s tys)"

definition kept_in_order :: "tokenizer_t \<Rightarrow> bool" where
  \<comment> \<open>while a command is open the output is not written\<close>
  "kept_in_order tk \<longleftrightarrow> (tk_stack tk \<noteq> [] \<longrightarrow> tk_buffered tk \<noteq> [])"

lemma track_nest: "track_compound ty tk = (a, ok) \<Longrightarrow>
    (if ok then nest ty (tk_stack tk) = Some (tk_stack a)
     else nest ty (tk_stack tk) = None \<and> tk_stack a = tk_stack tk)"
  by (auto simp: track_compound_def nest_def tokenizer_push_compound_def
        tokenizer_pop_compound_def tokenizer_set_error_def Let_def opens_compound_def
        closes_compound_def split: if_splits list.splits)

lemma add_token_effect:
  assumes "add_token tk t = (st, a)"
  shows "tk_aliases a = tk_aliases tk \<and> tk_input a = tk_input tk \<and> tk_depth a = tk_depth tk \<and>
    tk_max_depth a = tk_max_depth tk \<and>
    (if st = TOK_OK
     then held a = held tk @ [t] \<and> nest (tok_type t) (tk_stack tk) = Some (tk_stack a) \<and>
       tk_pos a = tk_pos tk + 1 \<and> tk_error a = tk_error tk \<and>
       tk_at_command a = command_position_follows (tok_type t) \<and>
       tk_expanded a = (if command_position_follows (tok_type t) then [] else tk_expanded tk) \<and>
       (tk_stack a \<noteq> [] \<longrightarrow> tk_buffered a \<noteq> []) \<and>
       (tk_buffered tk \<noteq> [] \<longrightarrow> tk_buffered a \<noteq> [] \<and> tk_output a = tk_output tk)
     else st = TOK_ERROR \<and> tk_output a = tk_output tk \<and> tk_buffered a = tk_buffered tk \<and> nest (tok_type t) (tk_stack tk) = None \<and>
       tk_pos a = tk_pos tk \<and> tk_stack a = tk_stack tk)"
proof -
  define tk' where "tk' = (if starts_function_definition tk (tok_type t) then move_function_name tk else tk)"
  have moved: "held tk' = held tk" "tk_stack tk' = tk_stack tk" "tk_pos tk' = tk_pos tk"
     "tk_aliases tk' = tk_aliases tk" "tk_input tk' = tk_input tk" "tk_depth tk' = tk_depth tk"
     "tk_max_depth tk' = tk_max_depth tk" "tk_error tk' = tk_error tk"
     "tk_expanded tk' = tk_expanded tk"
     "tk_buffered tk \<noteq> [] \<longrightarrow> tk' = tk"
     "starts_function_definition tk (tok_type t) \<longrightarrow> tk_buffered tk' \<noteq> []"
     "\<not> starts_function_definition tk (tok_type t) \<longrightarrow> tk' = tk"
    by (auto simp: tk'_def held_def move_function_name_def starts_function_definition_def
          last_type_is_def token_list_append_def)
  obtain b ok where tr: "track_compound (tok_type t) tk' = (b, ok)" by fastforce
  note b = track_fields [OF tr] track_nest [OF tr]
  have flds: "held b = held tk'" "tk_pos b = tk_pos tk'" "tk_aliases b = tk_aliases tk'"
     "tk_input b = tk_input tk'" "tk_depth b = tk_depth tk'" "tk_max_depth b = tk_max_depth tk'"
     "tk_expanded b = tk_expanded tk'" "tk_output b = tk_output tk'" "tk_buffered b = tk_buffered tk'"
    unfolding held_def by (subst b(1) [THEN conjunct1], simp)+
  have err: "ok \<longrightarrow> tk_error b = tk_error tk'" using b(1) by blast
  show ?thesis
  proof (cases ok)
    case True
    with assms tr have "st = TOK_OK" "a = place_token (tk_stack tk \<noteq> [] \<or> tk_buffered tk \<noteq> [] \<or>
        starts_function_definition tk (tok_type t)) t b"
      by (auto simp: add_token_def Let_def tk'_def)
    with True b(2) moved flds err show ?thesis by (auto simp: held_def)
  next
    case False
    with assms tr have "st = TOK_ERROR" "a = b" by (auto simp: add_token_def Let_def tk'_def)
    moreover have "\<not> starts_function_definition tk (tok_type t)"
      using False b(2) moved(2)
      by (auto simp: starts_function_definition_def nest_def opens_compound_def closes_compound_def)
    ultimately show ?thesis using False b(2) moved flds by simp
  qed
qed


definition kept :: "token \<Rightarrow> token \<Rightarrow> bool" where
  \<comment> \<open>what the parser sees of an input token: the token, or the reserved word it spells\<close>
  "kept x t \<longleftrightarrow> t = x \<or>
     (tok_type x = TOKEN_WORD \<and> \<not> tok_was_quoted x \<and>
      (\<exists>w. tokenizer_extract_word_text x = Some (Some w) \<and>
         t = x\<lparr>tok_type := token_string_to_reserved_word w\<rparr>))"

lemma reserved_type_kept: "reserved_type tk t = Some (Some ty) \<Longrightarrow> kept t (t\<lparr>tok_type := ty\<rparr>)"
  by (auto simp: reserved_type_def kept_def Let_def bind_eq_Some_conv split: if_splits option.splits)

lemma plain_effect:
  assumes "process_plain_token tk t = Some (st, a)" "t = tk_input tk ! tk_pos tk"
    "tk_pos tk < length (tk_input tk)"
  shows "(\<exists>t'. add_token (tk\<lparr>tk_input := (tk_input tk)[tk_pos tk := t']\<rparr>) t' = (st, a) \<and> kept t t') \<or>
    (\<exists>w n y. io_number_word tk t = Some (Some w) \<and> st = TOK_OK \<and> 0 \<le> n \<and>
       tk_pos tk + 1 < length (tk_input tk) \<and>
       y = (tk_input tk ! (tk_pos tk + 1))\<lparr>tok_type := TOKEN_IO_NUMBER, tok_io_number := n\<rparr> \<and>
       a = tk\<lparr>tk_input := take (tk_pos tk) (tk_input tk) @ y # drop (tk_pos tk + 2) (tk_input tk)\<rparr>)"
proof -
  from assms(1) obtain r where r: "reserved_type tk t = Some r"
    by (auto simp: process_plain_token_def bind_eq_Some_conv)
  show ?thesis
  proof (cases r)
    case (Some ty)
    with assms r show ?thesis
      by (intro disjI1 exI [of _ "t\<lparr>tok_type := ty\<rparr>"])
         (simp add: process_plain_token_def Let_def reserved_type_kept)
  next
    case None
    with assms r obtain w where w: "io_number_word tk t = Some w"
      by (auto simp: process_plain_token_def bind_eq_Some_conv)
    show ?thesis
    proof (cases w)
      case None
      with assms r w \<open>r = None\<close> show ?thesis
        by (intro disjI1 exI [of _ t]) (simp add: process_plain_token_def kept_def)
    next
      case (Some word)
      with w have nxt: "tk_pos tk + 1 < length (tk_input tk)" using io_word_next by blast
      from assms r w Some \<open>r = None\<close> obtain n ts where n: "st = TOK_OK" "0 \<le> n"
        "ts = (tk_input tk)[tk_pos tk + 1 := (tk_input tk ! (tk_pos tk + 1))
            \<lparr>tok_type := TOKEN_IO_NUMBER, tok_io_number := n\<rparr>]"
        "a = tk\<lparr>tk_input := take (tk_pos tk) ts @ drop (tk_pos tk + 1) ts\<rparr>"
        by (auto simp: process_plain_token_def bind_eq_Some_conv token_list_set_io_number_def
              token_list_remove_def split: if_splits)
      have "drop (tk_pos tk + 1) ts = (tk_input tk ! (tk_pos tk + 1))
            \<lparr>tok_type := TOKEN_IO_NUMBER, tok_io_number := n\<rparr> # drop (tk_pos tk + 2) (tk_input tk)"
        using nxt unfolding n(3) by (subst Cons_nth_drop_Suc [symmetric]) simp_all
      moreover have "take (tk_pos tk) ts = take (tk_pos tk) (tk_input tk)"
        unfolding n(3) by simp
      ultimately show ?thesis using n(1,2,4) w Some nxt by auto
    qed
  qed
qed

lemma expand_effect:
  assumes "tokenizer_expand_alias tk n = Some (Some (st, a))"
  shows "tk_pos a = tk_pos tk \<and> tk_depth a = tk_depth tk \<and> tk_stack a = tk_stack tk \<and>
    tk_output a = tk_output tk \<and> tk_buffered a = tk_buffered tk \<and> tk_aliases a = tk_aliases tk \<and>
    tk_max_depth a = tk_max_depth tk \<and> st \<in> {TOK_OK, TOK_ERROR} \<and>
    (st = TOK_OK \<longrightarrow> tk_error a = tk_error tk \<and>
       (tk_at_command tk \<longrightarrow> tk_at_command a) \<and>
       (\<exists>new. tk_input a = take (tk_pos tk) (tk_input tk) @ new @ drop (tk_pos tk) (tk_input tk)))"
proof (cases "tk_depth tk \<ge> tk_max_depth tk")
  case True
  with assms show ?thesis by (auto simp: tokenizer_expand_alias_def tokenizer_set_error_def)
next
  case False
  note deep = False
  show ?thesis
  proof (cases "alias_value_of tk n")
    case (Some r)
    note look = Some
    show ?thesis
    proof (cases r)
      case None
      with assms look deep show ?thesis
        by (auto simp: tokenizer_expand_alias_def intro: exI [of _ "[]"])
    next
      case (Some v)
      define tk' where "tk' = (tokenizer_mark_alias_expanded n tk)\<lparr>tk_depth := tk_depth tk + 1\<rparr>"
      from assms look deep Some obtain b where b: "tokenizer_relex_text tk' v = Some (Some (st, b))"
        "a = (if st \<noteq> TOK_OK then b\<lparr>tk_depth := tk_depth b - 1, tk_expanded := butlast (tk_expanded b)\<rparr>
              else if tokenizer_alias_ends_with_blank v then b\<lparr>tk_depth := tk_depth b - 1, tk_at_command := True\<rparr>
              else b\<lparr>tk_depth := tk_depth b - 1\<rparr>)"
        by (auto simp: tokenizer_expand_alias_def Let_def tk'_def split: option.splits prod.splits if_splits)
      have "tk_pos tk' = tk_pos tk \<and> tk_stack tk' = tk_stack tk \<and> tk_output tk' = tk_output tk \<and>
          tk_buffered tk' = tk_buffered tk \<and> tk_aliases tk' = tk_aliases tk \<and>
          tk_max_depth tk' = tk_max_depth tk \<and> tk_error tk' = tk_error tk \<and>
          tk_input tk' = tk_input tk \<and> tk_at_command tk' = tk_at_command tk \<and>
          tk_depth tk' = tk_depth tk + 1"
        by (simp add: tk'_def tokenizer_mark_alias_expanded_def)
      then show ?thesis using relex_fields [OF b(1)] unfolding b(2) by auto
    qed
  qed (use assms deep in \<open>simp add: tokenizer_expand_alias_def\<close>)
qed

end
