(* ===== verification/Tokenizer_Runs.thy ===== *)
theory Tokenizer_Runs
  imports
    Tokenizer_Proofs
begin

section \<open>The tokenizer: runs over an input\<close>

text \<open>
  What \<open>tokenizer_process\<close> does with a list of tokens: the order and the nesting of what it
  hands over, its termination when there are no aliases, and resuming an open command.
\<close>

lemma process_tokens_induct [consumes 1, case_names finished failed aborted step]:
  assumes "process_tokens tk = Some r"
    and "\<And>tk. \<not> tk_pos tk < length (tk_input tk) \<Longrightarrow> P tk (Some (TOK_OK, tk))"
    and "\<And>tk st a. tk_pos tk < length (tk_input tk) \<Longrightarrow>
      tokenizer_process_one_token tk = Some (Some (st, a)) \<Longrightarrow> st \<noteq> TOK_OK \<Longrightarrow> P tk (Some (st, a))"
    and "\<And>tk. tk_pos tk < length (tk_input tk) \<Longrightarrow>
      tokenizer_process_one_token tk = Some None \<Longrightarrow> P tk None"
    and "\<And>tk a r. tk_pos tk < length (tk_input tk) \<Longrightarrow>
      tokenizer_process_one_token tk = Some (Some (TOK_OK, a)) \<Longrightarrow> P a r \<Longrightarrow> P tk r"
  shows "P tk r"
  using assms(1)
proof (rule process_tokens.raw_induct [rotated])
  fix f :: "tokenizer_t \<Rightarrow> (tok_status_t \<times> tokenizer_t) option option" and tk r
  assume IH: "\<And>tk r. f tk = Some r \<Longrightarrow> P tk r"
    and body: "(if tk_pos tk < length (tk_input tk)
      then (case tokenizer_process_one_token tk of
              None \<Rightarrow> None
            | Some None \<Rightarrow> Some None
            | Some (Some (status, tk)) \<Rightarrow>
                if status \<noteq> TOK_OK then Some (Some (status, tk)) else f tk)
      else Some (Some (TOK_OK, tk))) = Some r"
  show "P tk r"
  proof (cases "tk_pos tk < length (tk_input tk)")
    case True
    note inside = True
    show ?thesis
    proof (cases "tokenizer_process_one_token tk")
      case (Some q)
      show ?thesis
      proof (cases q)
        case None
        with inside Some body show ?thesis using assms(4) by auto
      next
        case (Some q')
        obtain st a where "q' = (st, a)" by (cases q')
        with inside Some \<open>tokenizer_process_one_token tk = Some q\<close> body show ?thesis
          using assms(3) [of tk st a] assms(5) [of tk a r] IH [of a r] by (cases "st = TOK_OK") auto
      qed
    qed (use inside body in auto)
  next
    case False
    with body show ?thesis using assms(2) by auto
  qed
qed

subsection \<open>Order and nesting\<close>

lemma nesting_append: "nesting s (xs @ ys) = Option.bind (nesting s xs) (\<lambda>s. nesting s ys)"
  by (induction xs arbitrary: s) (auto split: bind_splits)

definition grows :: "tokenizer_t \<Rightarrow> tokenizer_t \<Rightarrow> bool" where
  "grows tk a \<longleftrightarrow> (\<exists>added. held a = held tk @ added \<and>
     nesting (tk_stack tk) (map tok_type added) = Some (tk_stack a)) \<and>
     (kept_in_order tk \<longrightarrow> kept_in_order a)"

lemma grows_refl: "grows tk tk"
  by (auto simp: grows_def intro: exI [of _ "[]"])

lemma grows_trans: "grows tk a \<Longrightarrow> grows a b \<Longrightarrow> grows tk b"
  unfolding grows_def by (metis append_assoc bind.bind_lunit map_append nesting_append)

lemma grows_same: "tk_output a = tk_output tk \<Longrightarrow> tk_buffered a = tk_buffered tk \<Longrightarrow>
    tk_stack a = tk_stack tk \<Longrightarrow> grows tk a"
  by (auto simp: grows_def held_def kept_in_order_def intro: exI [of _ "[]"])

lemma held_input [simp]: "held (tk\<lparr>tk_input := i\<rparr>) = held tk"
  by (simp add: held_def)

lemma add_token_grows: "add_token (tk\<lparr>tk_input := i\<rparr>) t = (st, a) \<Longrightarrow> grows tk a"
  using add_token_effect [of "tk\<lparr>tk_input := i\<rparr>" t st a]
  by (auto simp: grows_def kept_in_order_def held_def intro: exI [of _ "[t]"] exI [of _ "[]"]
        split: if_splits)


lemma step_grows:
  assumes "tokenizer_process_one_token tk = Some (Some (st, a))" "tk_pos tk < length (tk_input tk)"
  shows "grows tk a \<and> st \<in> {TOK_OK, TOK_ERROR}"
proof -
  let ?t = "tk_input tk ! tk_pos tk"
  from assms consider
      (plain) "process_plain_token tk ?t = Some (st, a)"
    | (expand) n ts where "tokenizer_expand_alias (tk\<lparr>tk_input := ts\<rparr>) n = Some (Some (st, a))"
    by (auto simp: tokenizer_process_one_token_def Let_def split: option.splits)
  then show ?thesis
  proof cases
    case plain
    then show ?thesis
      using plain_effect [OF plain refl assms(2)] add_token_grows add_token_effect
      by (fastforce intro: grows_same)
  next
    case expand
    then show ?thesis using expand_effect [OF expand] by (auto intro: grows_same)
  qed
qed

lemma run_grows:
  "process_tokens tk = Some r \<Longrightarrow> r = Some (st, a) \<Longrightarrow> grows tk a \<and> st \<in> {TOK_OK, TOK_ERROR}"
proof (induction tk r arbitrary: st a rule: process_tokens_induct)
  case (step tk a r)
  then show ?case using step_grows grows_trans by blast
qed (auto simp: grows_refl dest: step_grows)

lemma start_fields [simp]:
  "tk_input (start_process tk i out) = i" "tk_pos (start_process tk i out) = 0"
  "tk_output (start_process tk i out) = out" "tk_stack (start_process tk i out) = tk_stack tk"
  "tk_buffered (start_process tk i out) = tk_buffered tk"
  "tk_aliases (start_process tk i out) = tk_aliases tk"
  "tk_at_command (start_process tk i out) = True" "tk_expanded (start_process tk i out) = []"
  "tk_depth (start_process tk i out) = tk_depth tk"
  "tk_max_depth (start_process tk i out) = tk_max_depth tk"
  by (simp_all add: start_process_def tokenizer_clear_error_def tokenizer_clear_expanded_aliases_def)

lemma process_cases:
  assumes "tokenizer_process tk input out = Some (Some (st, a))"
  obtains b where "process_tokens (start_process tk input out) = Some (Some (TOK_OK, b))"
      "(st, a) = finish_process b"
    | "process_tokens (start_process tk input out) = Some (Some (st, a))" "st = TOK_ERROR"
  using assms run_grows
  by (fastforce simp: tokenizer_process_def split: option.splits prod.splits if_splits)

lemma process_grows:
  assumes "tokenizer_process tk input out = Some (Some (st, a))" "kept_in_order tk"
  shows "(\<exists>added. held a = out @ tk_buffered tk @ added \<and>
       nesting (tk_stack tk) (map tok_type added) = Some (tk_stack a)) \<and> kept_in_order a \<and>
     (st = TOK_OK \<and> tk_stack a = [] \<and> tk_buffered a = [] \<or>
      st = TOK_INCOMPLETE \<and> tk_stack a \<noteq> [] \<and> tk_buffered a \<noteq> [] \<or> st = TOK_ERROR)"
proof -
  have start: "kept_in_order (start_process tk input out)"
    "held (start_process tk input out) = out @ tk_buffered tk"
    using assms(2) by (simp_all add: kept_in_order_def held_def)
  from assms(1) show ?thesis
  proof (cases rule: process_cases)
    case (1 b)
    with run_grows have "grows (start_process tk input out) b" by blast
    with start 1(2) show ?thesis
      by (auto simp: grows_def finish_process_def kept_in_order_def held_def
            tokenizer_set_error_def split: if_splits)
  next
    case 2
    with run_grows have "grows (start_process tk input out) a" by blast
    with start 2 show ?thesis by (auto simp: grows_def)
  qed
qed

subsection \<open>Runs without aliases\<close>

definition no_aliases :: "tokenizer_t \<Rightarrow> bool" where
  "no_aliases tk \<longleftrightarrow> (\<forall>s. tk_aliases tk = Some s \<longrightarrow> as_invar s [])"

definition word_ok :: "token \<Rightarrow> bool" where
  \<comment> \<open>words have a list of parts\<close>
  "word_ok t \<longleftrightarrow> (tok_type t = TOKEN_WORD \<longrightarrow> tok_parts t \<noteq> None)"

definition digit_word :: "token \<Rightarrow> bool" where
  "digit_word t \<longleftrightarrow> (\<exists>w. tokenizer_extract_word_text t = Some (Some w) \<and> w \<noteq> [] \<and> list_all c_isdigit w)"

fun numbers_free :: "token list \<Rightarrow> bool" where
  \<comment> \<open>no number stands directly before a redirection operator\<close>
  "numbers_free (x # y # ts) \<longleftrightarrow>
     \<not> (digit_word x \<and> is_redirection_type (tok_type y)) \<and> numbers_free (y # ts)"
| "numbers_free _ \<longleftrightarrow> True"

lemma extract_total: "word_ok t \<Longrightarrow> tokenizer_extract_word_text t \<noteq> None"
  by (auto simp: tokenizer_extract_word_text_def word_ok_def token_part_count_def token_get_part_def)

lemma eligible_total: "word_ok t \<Longrightarrow> tokenizer_is_alias_eligible tk t \<noteq> None"
  by (auto simp: tokenizer_is_alias_eligible_def word_ok_def token_part_count_def token_get_part_def)

lemma no_alias_step:
  assumes "no_aliases tk" "word_ok t"
  shows "alias_to_expand tk t = Some None"
proof (cases "tk_aliases tk")
  case (Some s)
  with assms(1) have "alias_store_has_name s n = Some False" for n
    using has_name_ok [of s "[]" n] by (simp add: no_aliases_def)
  moreover obtain b w where "tokenizer_is_alias_eligible tk t = Some b"
    "tokenizer_extract_word_text t = Some w"
    using eligible_total extract_total assms(2) by fastforce
  ultimately show ?thesis using Some by (auto simp: alias_to_expand_def split: option.split)
qed (simp add: alias_to_expand_def)

lemma no_number:
  assumes "word_ok t" "drop (tk_pos tk) (tk_input tk) = t # r" "numbers_free (t # r)"
  shows "io_number_word tk t = Some None"
proof -
  have "next_type_is is_redirection_type tk \<Longrightarrow> r \<noteq> [] \<and> is_redirection_type (tok_type (hd r))"
    using arg_cong [OF assms(2), of "\<lambda>l. l ! 1"] arg_cong [OF assms(2), of length]
    by (cases r) (auto simp: next_type_is_def)
  moreover obtain w where "tokenizer_extract_word_text t = Some w"
    using extract_total assms(1) by fastforce
  ultimately show ?thesis
    using assms(3) by (cases r) (auto simp: io_number_word_def digit_word_def split: option.split)
qed

lemma plain_total:
  assumes "word_ok t" "drop (tk_pos tk) (tk_input tk) = t # r" "numbers_free (t # r)"
  shows "\<exists>t'. kept t t' \<and> process_plain_token tk t =
    Some (add_token (tk\<lparr>tk_input := (tk_input tk)[tk_pos tk := t']\<rparr>) t')"
proof -
  have "tokenizer_extract_word_text t \<noteq> None" using extract_total assms(1) by blast
  then obtain w where "tokenizer_extract_word_text t = Some w" by blast
  then obtain q where q: "reserved_type tk t = Some q"
    by (cases "reserved_type tk t") (auto simp: reserved_type_def split: if_splits)
  show ?thesis
  proof (cases q)
    case (Some ty)
    with q show ?thesis
      by (intro exI [of _ "t\<lparr>tok_type := ty\<rparr>"])
         (simp add: process_plain_token_def Let_def reserved_type_kept)
  next
    case None
    have "(tk_input tk)[tk_pos tk := t] = tk_input tk"
      using arg_cong [OF assms(2), of hd] arg_cong [OF assms(2), of length]
      by (auto simp: hd_drop_conv_nth)
    with None q show ?thesis
      by (intro exI [of _ t]) (simp add: process_plain_token_def no_number [OF assms] kept_def)
  qed
qed

lemma run_plain:
  "no_aliases tk \<Longrightarrow> drop (tk_pos tk) (tk_input tk) = ts \<Longrightarrow> list_all word_ok ts \<Longrightarrow>
   numbers_free ts \<Longrightarrow>
   \<exists>st a n added. process_tokens tk = Some (Some (st, a)) \<and> n \<le> length ts \<and>
     held a = held tk @ added \<and> list_all2 kept (take n ts) added \<and>
     (st = TOK_OK \<and> n = length ts \<or>
      st = TOK_ERROR \<and> n < length ts \<and> (\<exists>t. kept (ts ! n) t \<and> nest (tok_type t) (tk_stack a) = None))"
proof (induction ts arbitrary: tk)
  case Nil
  then have "process_tokens tk = Some (Some (TOK_OK, tk))" by (subst process_tokens.simps) simp
  then show ?case by (intro exI [of _ TOK_OK] exI [of _ tk] exI [of _ 0] exI [of _ "[]"]) simp
next
  case (Cons t r)
  have inside: "tk_pos tk < length (tk_input tk)"
    using arg_cong [OF Cons.prems(2), of length] by (cases "tk_pos tk < length (tk_input tk)") auto
  have t: "tk_input tk ! tk_pos tk = t"
    using Cons.prems(2) inside by (metis hd_drop_conv_nth list.sel(1))
  have wok: "word_ok t" using Cons.prems(3) by simp
  obtain t' where t': "kept t t'" "process_plain_token tk t =
      Some (add_token (tk\<lparr>tk_input := (tk_input tk)[tk_pos tk := t']\<rparr>) t')"
    using plain_total [OF wok Cons.prems(2,4)] by blast
  define b where "b = tk\<lparr>tk_input := (tk_input tk)[tk_pos tk := t']\<rparr>"
  obtain st a where a: "add_token b t' = (st, a)" by fastforce
  have one: "tokenizer_process_one_token tk = Some (Some (st, a))"
    using inside t t' a no_alias_step [OF Cons.prems(1) wok]
    by (simp add: tokenizer_process_one_token_def Let_def b_def)
  note eff = add_token_effect [OF a]
  have held_b: "held b = held tk" "tk_stack b = tk_stack tk" "tk_pos b = tk_pos tk"
    "tk_aliases b = tk_aliases tk" by (simp_all add: b_def)
  have "drop (Suc (tk_pos tk)) (tk_input tk) = r"
    using arg_cong [OF Cons.prems(2), of tl] by (simp add: drop_Suc tl_drop)
  then have rest: "drop (Suc (tk_pos tk)) (tk_input b) = r" by (simp add: b_def)
  show ?case
  proof (cases "st = TOK_OK")
    case True
    with eff held_b have a': "held a = held tk @ [t']" "tk_pos a = Suc (tk_pos tk)"
      "tk_aliases a = tk_aliases tk" "tk_input a = tk_input b" by auto
    have "numbers_free r" using Cons.prems(4) by (cases r) auto
    have na: "no_aliases a" using Cons.prems(1) a'(3) by (simp add: no_aliases_def)
    have dr: "drop (tk_pos a) (tk_input a) = r" using a'(2,4) rest by simp
    have wo: "list_all word_ok r" using Cons.prems(3) by simp
    obtain st' c n added where
      "process_tokens a = Some (Some (st', c)) \<and> n \<le> length r \<and> held c = held a @ added \<and>
       list_all2 kept (take n r) added \<and>
        (st' = TOK_OK \<and> n = length r \<or> st' = TOK_ERROR \<and> n < length r \<and>
           (\<exists>t. kept (r ! n) t \<and> nest (tok_type t) (tk_stack c) = None))"
      using Cons.IH [OF na dr wo \<open>numbers_free r\<close>] by (elim exE)
    note c = conjunct1 [OF this] this [THEN conjunct2]
    have "process_tokens tk = Some (Some (st', c))"
      using c(1) one True inside by (subst process_tokens.simps) simp
    with c a' t'(1) show ?thesis
      by (intro exI [of _ st'] exI [of _ c] exI [of _ "Suc n"] exI [of _ "t' # added"]) auto
  next
    case False
    with eff held_b have err: "st = TOK_ERROR" "held a = held tk"
      "nest (tok_type t') (tk_stack a) = None" by (auto simp: held_def)
    have "process_tokens tk = Some (Some (st, a))"
      using one False inside by (subst process_tokens.simps) simp
    with err t'(1) show ?thesis
      by (intro exI [of _ st] exI [of _ a] exI [of _ 0] exI [of _ "[]"]) auto
  qed
qed


lemma process_plain:
  assumes "no_aliases tk" "kept_in_order tk" "list_all word_ok input" "numbers_free input"
  shows "\<exists>st a n added. tokenizer_process tk input out = Some (Some (st, a)) \<and>
    tk_output a @ tk_buffered a = out @ tk_buffered tk @ added \<and> list_all2 kept (take n input) added \<and>
    (n = length input \<and> (st = TOK_OK \<and> tk_buffered a = [] \<or> st = TOK_INCOMPLETE) \<or>
     n < length input \<and> st = TOK_ERROR \<and>
       (\<exists>t. kept (input ! n) t \<and> nest (tok_type t) (tk_stack a) = None))"
proof -
  have start: "no_aliases (start_process tk input out)" using assms(1) by (simp add: no_aliases_def)
  obtain st a n added where run: "process_tokens (start_process tk input out) = Some (Some (st, a))"
    "held a = held (start_process tk input out) @ added" "list_all2 kept (take n input) added"
    "st = TOK_OK \<and> n = length input \<or> st = TOK_ERROR \<and> n < length input \<and>
       (\<exists>t. kept (input ! n) t \<and> nest (tok_type t) (tk_stack a) = None)"
    using run_plain [OF start _ assms(3,4)] by (metis drop0 start_fields(1,2))
  define r where "r = (if st \<noteq> TOK_OK then (st, a) else finish_process a)"
  have "tokenizer_process tk input out = Some (Some (fst r, snd r))"
    using run(1) by (simp add: tokenizer_process_def r_def)
  moreover have "held (snd r) = held a"
    by (simp add: r_def finish_process_def held_def tokenizer_set_error_def)
  moreover have "fst r = (if st \<noteq> TOK_OK then st else if tk_stack a \<noteq> [] then TOK_INCOMPLETE else TOK_OK)"
    "fst r = TOK_OK \<longrightarrow> tk_buffered (snd r) = []" "st \<noteq> TOK_OK \<longrightarrow> snd r = a"
    by (simp_all add: r_def finish_process_def)
  ultimately show ?thesis
    using run(2-4)
    by (intro exI [of _ "fst r"] exI [of _ "snd r"] exI [of _ n] exI [of _ added])
       (auto simp: held_def)
qed

subsection \<open>Resuming\<close>

text \<open>A run over an input that ends in a newline, as a part of a longer run.\<close>

definition ends_line :: "tokenizer_t \<Rightarrow> bool" where
  "ends_line tk \<longleftrightarrow> tk_input tk \<noteq> [] \<and> tok_type (last (tk_input tk)) = TOKEN_NEWLINE \<and>
     tk_pos tk \<le> length (tk_input tk) \<and>
     (tk_pos tk = length (tk_input tk) \<longrightarrow> tk_at_command tk \<and> tk_expanded tk = [])"

definition no_loop_word :: "token list \<Rightarrow> bool" where
  "no_loop_word ts \<longleftrightarrow> \<not> last_type_is (\<lambda>ty. ty = TOKEN_FOR \<or> ty = TOKEN_CASE) ts"

lemma ends_line_sees: "ends_line tk \<Longrightarrow> tk_pos tk < length (tk_input tk) \<Longrightarrow> sees ys tk"
proof -
  assume "ends_line tk" "tk_pos tk < length (tk_input tk)"
  moreover from this have "tok_type (tk_input tk ! (length (tk_input tk) - 1)) = TOKEN_NEWLINE"
    using last_conv_nth [of "tk_input tk"] by (simp add: ends_line_def)
  moreover have "tk_pos tk + 1 < length (tk_input tk) \<or> tk_pos tk = length (tk_input tk) - 1"
    using calculation(2) by linarith
  ultimately show ?thesis by (auto simp: sees_def)
qed

lemma one_token_error: "tokenizer_process_one_token tk = Some (Some (TOK_OK, a)) \<Longrightarrow>
    tk_pos tk < length (tk_input tk) \<Longrightarrow> tk_error a = tk_error tk"
proof -
  assume one: "tokenizer_process_one_token tk = Some (Some (TOK_OK, a))"
    and inside: "tk_pos tk < length (tk_input tk)"
  let ?t = "tk_input tk ! tk_pos tk"
  from one inside consider
      (plain) "process_plain_token tk ?t = Some (TOK_OK, a)"
    | (expand) n ts where "tokenizer_expand_alias (tk\<lparr>tk_input := ts\<rparr>) n = Some (Some (TOK_OK, a))"
    by (auto simp: tokenizer_process_one_token_def Let_def split: option.splits)
  then show ?thesis
  proof cases
    case plain
    then show ?thesis
      using plain_effect [OF plain refl inside] by (auto dest: add_token_effect)
  next
    case expand
    then show ?thesis using expand_effect [OF expand] by simp
  qed
qed

lemma one_token_longer:
  assumes "ends_line tk" "tk_pos tk < length (tk_input tk)"
    "tokenizer_process_one_token tk = Some (Some (TOK_OK, a))"
  shows "tokenizer_process_one_token (within [] [] (tk_error tk) ys tk) =
      Some (Some (TOK_OK, within [] [] (tk_error a) ys a))"
  using one_token_within [of ys tk "[]" "[]" "tk_error tk"] assms
    ends_line_sees [OF assms(1,2)] one_token_error [OF assms(3,2)]
  by (simp add: fits_def within_result_def result_error_def)


lemma kept_newline: "kept x t \<Longrightarrow> tok_type x = TOKEN_NEWLINE \<Longrightarrow> t = x"
  by (auto simp: kept_def)

lemma alias_word: "alias_to_expand tk t = Some (Some n) \<Longrightarrow> tok_type t = TOKEN_WORD"
  by (auto simp: alias_to_expand_def tokenizer_is_alias_eligible_def bind_eq_Some_conv
      split: option.splits if_splits)

lemma io_word_redirection: "io_number_word tk t = Some (Some w) \<Longrightarrow>
    tok_type t = TOKEN_WORD \<and> is_redirection_type (tok_type (tk_input tk ! (tk_pos tk + 1)))"
  by (auto simp: io_number_word_def next_type_is_def split: if_splits)

lemma one_token_cases:
  assumes "tokenizer_process_one_token tk = Some (Some (TOK_OK, a))"
    "tk_pos tk < length (tk_input tk)"
  obtains (expand) n ts where "tok_type (tk_input tk ! tk_pos tk) = TOKEN_WORD"
      "ts = take (tk_pos tk) (tk_input tk) @ drop (tk_pos tk + 1) (tk_input tk)"
      "tokenizer_expand_alias (tk\<lparr>tk_input := ts\<rparr>) n = Some (Some (TOK_OK, a))"
    | (add) t where "kept (tk_input tk ! tk_pos tk) t"
      "add_token (tk\<lparr>tk_input := (tk_input tk)[tk_pos tk := t]\<rparr>) t = (TOK_OK, a)"
    | (number) y where "tk_pos tk + 1 < length (tk_input tk)"
      "is_redirection_type (tok_type (tk_input tk ! (tk_pos tk + 1)))"
      "a = tk\<lparr>tk_input := take (tk_pos tk) (tk_input tk) @ y # drop (tk_pos tk + 2) (tk_input tk)\<rparr>"
proof -
  let ?t = "tk_input tk ! tk_pos tk"
  from assms consider
      "process_plain_token tk ?t = Some (TOK_OK, a)"
    | n ts where "alias_to_expand tk ?t = Some (Some n)"
      "token_list_remove (tk_input tk) (tk_pos tk) = Some ts"
      "tokenizer_expand_alias (tk\<lparr>tk_input := ts\<rparr>) n = Some (Some (TOK_OK, a))"
    by (auto simp: tokenizer_process_one_token_def Let_def split: option.splits)
  then show thesis
  proof cases
    case 1
    then show thesis
      using plain_effect [OF 1 refl assms(2)] add number io_word_redirection by blast
  next
    case (2 n ts)
    then show thesis
      using alias_word expand by (auto simp: token_list_remove_def split: if_splits)
  qed
qed

lemma last_at: "i + 1 < length xs \<Longrightarrow> last (drop (i + 1) xs) = last xs"
  by simp

lemma ends_line_step:
  assumes "ends_line tk" "tk_pos tk < length (tk_input tk)"
    "tokenizer_process_one_token tk = Some (Some (TOK_OK, a))"
  shows "ends_line a"
  using assms(3,2)
proof (cases rule: one_token_cases)
  case (expand n ts)
  have more: "tk_pos tk + 1 < length (tk_input tk)"
  proof (rule ccontr)
    assume "\<not> ?thesis"
    with assms(2) have "tk_pos tk = length (tk_input tk) - 1" by simp
    with expand(1) assms(1) last_conv_nth [of "tk_input tk"] show False
      by (simp add: ends_line_def)
  qed
  have "take (tk_pos tk) ts = take (tk_pos tk) (tk_input tk)"
    "drop (tk_pos tk) ts = drop (tk_pos tk + 1) (tk_input tk)"
    using expand(2) assms(2) by simp_all
  then obtain new where
    "tk_input a = take (tk_pos tk) (tk_input tk) @ new @ drop (tk_pos tk + 1) (tk_input tk)"
    "tk_pos a = tk_pos tk"
    using expand_effect [OF expand(3)] by auto
  moreover have "last (tk_input a) = last (tk_input tk)" "tk_pos a < length (tk_input a)"
    using calculation more by simp_all
  ultimately show ?thesis using assms(1) by (simp only: ends_line_def) auto
next
  case (add t)
  have eff: "tk_input a = (tk_input tk)[tk_pos tk := t]" "tk_pos a = tk_pos tk + 1"
    "tk_at_command a = command_position_follows (tok_type t)"
    "command_position_follows (tok_type t) \<longrightarrow> tk_expanded a = []"
    using add_token_effect [OF add(2)] by simp_all
  have last: "last (tk_input tk) = tk_input tk ! (length (tk_input tk) - 1)"
    using assms(1) by (simp add: ends_line_def last_conv_nth)
  have "tok_type (last ((tk_input tk)[tk_pos tk := t])) = TOKEN_NEWLINE"
  proof (cases "tk_pos tk + 1 = length (tk_input tk)")
    case True
    then have pos: "tk_input tk ! tk_pos tk = last (tk_input tk)"
      unfolding last by (metis add_diff_cancel_right')
    with assms(1) have "t = last (tk_input tk)"
      using kept_newline [OF add(1)] by (simp add: ends_line_def)
    with assms(1,2) True show ?thesis
      by (simp add: ends_line_def last_list_update)
  next
    case False
    with assms(2) have "tk_pos tk \<noteq> length (tk_input tk) - 1" by simp
    with assms(1,2) show ?thesis by (simp add: ends_line_def last_list_update)
  qed
  moreover from this have "tk_pos tk + 1 = length (tk_input tk) \<Longrightarrow> tok_type t = TOKEN_NEWLINE"
  proof -
    assume at_end: "tk_pos tk + 1 = length (tk_input tk)"
    from at_end have "tk_pos tk = length (tk_input tk) - 1" "tk_input tk \<noteq> []" by auto
    then have "last ((tk_input tk)[tk_pos tk := t]) = t" by (simp add: last_list_update)
    with \<open>tok_type (last ((tk_input tk)[tk_pos tk := t])) = TOKEN_NEWLINE\<close>
    show "tok_type t = TOKEN_NEWLINE" by simp
  qed
  ultimately show ?thesis
    using assms(1,2) eff by (auto simp: ends_line_def command_position_follows_def)
next
  case (number y)
  have "tk_pos tk + 2 < length (tk_input tk)"
  proof (rule ccontr)
    assume "\<not> ?thesis"
    with number(1) have "tk_pos tk + 1 = length (tk_input tk) - 1" by simp
    with number(2) assms(1) last_conv_nth [of "tk_input tk"] show False
      by (simp add: ends_line_def is_redirection_type_def)
  qed
  with number assms(1) show ?thesis by (auto simp: ends_line_def)
qed

definition plain_output :: "tokenizer_t \<Rightarrow> bool" where
  "plain_output tk \<longleftrightarrow> (\<forall>t \<in> set (tk_output tk). \<not> opens_compound (tok_type t))"

lemma add_token_output:
  assumes "add_token tk t = (TOK_OK, a)" "plain_output tk"
  shows "plain_output a"
proof -
  define tk' where "tk' = (if starts_function_definition tk (tok_type t) then move_function_name tk else tk)"
  obtain b ok where tr: "track_compound (tok_type t) tk' = (b, ok)" by fastforce
  have out: "tk_output b = tk_output tk'" by (subst track_fields [OF tr, THEN conjunct1]) simp
  have sub: "set (tk_output tk') \<subseteq> set (tk_output tk)"
    by (auto simp: tk'_def move_function_name_def dest: in_set_butlastD)
  from assms(1) tr have ok: "ok" "a = place_token (tk_stack tk \<noteq> [] \<or> tk_buffered tk \<noteq> [] \<or>
      starts_function_definition tk (tok_type t)) t b"
    by (auto simp: add_token_def Let_def tk'_def split: bool.splits prod.splits)
  have "tk_stack b \<noteq> []" if "opens_compound (tok_type t)"
    using track_nest [OF tr] ok(1) that
    by (auto simp: nest_def opens_compound_def closes_compound_def)
  then show ?thesis using assms(2) out sub ok(2) by (auto simp: plain_output_def)
qed

lemma plain_output_input [simp]: "plain_output (tk\<lparr>tk_input := i\<rparr>) = plain_output tk"
  by (simp add: plain_output_def)

lemma plain_output_step:
  assumes "plain_output tk" "tk_pos tk < length (tk_input tk)"
    "tokenizer_process_one_token tk = Some (Some (TOK_OK, a))"
  shows "plain_output a"
  using assms(3,2)
proof (cases rule: one_token_cases)
  case (expand n ts)
  with expand_effect [OF expand(3)] assms(1) show ?thesis by (simp add: plain_output_def)
next
  case (add t)
  with add_token_output [OF add(2)] assms(1) show ?thesis by simp
next
  case (number y)
  with assms(1) show ?thesis by simp
qed

lemma run_longer:
  "process_tokens tk = Some r \<Longrightarrow> r = Some (TOK_OK, a) \<Longrightarrow> ends_line tk \<Longrightarrow> plain_output tk \<Longrightarrow>
   process_tokens (within [] [] (tk_error tk) ys tk) =
     process_tokens (within [] [] (tk_error a) ys a) \<and>
   ends_line a \<and> plain_output a \<and> tk_pos a = length (tk_input a)"
proof (induction tk r rule: process_tokens_induct)
  case (step tk b r)
  have "process_tokens (within [] [] (tk_error tk) ys tk) =
      process_tokens (within [] [] (tk_error b) ys b)"
    using one_token_longer [OF step.prems(2) step.hyps] step.hyps(1)
    by (subst process_tokens.simps) simp
  with step ends_line_step [OF step.prems(2) step.hyps] plain_output_step [OF step.prems(3) step.hyps]
  show ?case by simp
qed (auto simp: ends_line_def)

lemma buffered_step:
  assumes "tk_buffered tk \<noteq> []" "tk_pos tk < length (tk_input tk)"
    "tokenizer_process_one_token tk = Some (Some (TOK_OK, a))"
  shows "tk_buffered a \<noteq> [] \<and> tk_output a = tk_output tk"
  using assms(3,2)
proof (cases rule: one_token_cases)
  case (expand n ts)
  with expand_effect [OF expand(3)] assms(1) show ?thesis by simp
next
  case (add t)
  with add_token_effect [OF add(2)] assms(1) show ?thesis by simp
next
  case (number y)
  with assms(1) show ?thesis by simp
qed

lemma run_within:
  "process_tokens tk = Some r \<Longrightarrow> tk_output tk = [] \<Longrightarrow> tk_buffered tk \<noteq> [] \<Longrightarrow>
   no_loop_word out \<Longrightarrow>
   process_tokens (within p out e [] tk) = Some (map_option (within_result p out e []) r)"
proof (induction tk r rule: process_tokens_induct)
  case (finished tk)
  then show ?case
    by (subst process_tokens.simps) (simp add: within_result_def result_error_def)
next
  case (failed tk st a)
  then have "tokenizer_process_one_token (within p out e [] tk) =
      Some (Some (within_result p out e [] (st, a)))"
    by (simp add: one_token_within sees_def fits_def no_loop_word_def)
  with failed show ?case by (subst process_tokens.simps) (simp add: within_result_def)
next
  case (aborted tk)
  then have "tokenizer_process_one_token (within p out e [] tk) = Some None"
    by (simp add: one_token_within sees_def fits_def no_loop_word_def)
  with aborted show ?case by (subst process_tokens.simps) simp
next
  case (step tk a r)
  then have "tokenizer_process_one_token (within p out e [] tk) =
      Some (Some (TOK_OK, within p out e [] a))"
    by (simp add: one_token_within sees_def fits_def no_loop_word_def within_result_def
          result_error_def)
  with step buffered_step [OF step.prems(2) step.hyps] show ?case
    by (subst process_tokens.simps) simp
qed

lemma process_resumed:
  assumes first: "tokenizer_process tk (line @ [nl]) [] = Some (Some (TOK_INCOMPLETE, a))"
    and nl: "tok_type nl = TOKEN_NEWLINE" and kept: "kept_in_order tk"
    and second: "tokenizer_process a rest [] = Some (Some (st, b))"
  shows "\<exists>c. tokenizer_process tk (line @ nl # rest) [] = Some (Some (st, c)) \<and>
    tk_output c = tk_output a @ tk_output b \<and> tk_buffered c = tk_buffered b \<and>
    tk_stack c = tk_stack b"
proof -
  define s where "s = start_process tk (line @ [nl]) []"
  from first obtain a' where a': "process_tokens s = Some (Some (TOK_OK, a'))"
    "(TOK_INCOMPLETE, a) = finish_process a'"
    by (cases rule: process_cases) (auto simp: s_def)
  have "ends_line s" "plain_output s"
    by (simp_all add: s_def ends_line_def plain_output_def nl)
  with run_longer [OF a'(1) refl, of rest] have longer:
    "process_tokens (within [] [] (tk_error s) rest s) =
       process_tokens (within [] [] (tk_error a') rest a')"
    "ends_line a'" "plain_output a'" "tk_pos a' = length (tk_input a')" by auto
  have kept': "kept_in_order a'"
    using run_grows [OF a'(1) refl] kept by (simp add: grows_def s_def kept_in_order_def)
  define s2 where "s2 = start_process a rest []"
  from a'(2) have a: "tk_stack a' \<noteq> []" "tk_output a = tk_output a'"
     "a = (tokenizer_set_error (unclosed_message (tk_stack a')) a')\<lparr>tk_input := [], tk_pos := 0\<rparr>"
    by (auto simp: finish_process_def tokenizer_set_error_def split: if_splits)
  have "within (tk_input a') (tk_output a') (tk_error a') [] s2 = within [] [] (tk_error a') rest a'"
    using longer(2,4) unfolding s2_def a(3)
    by (intro tokenizer_t.equality)
       (simp_all add: ends_line_def tokenizer_set_error_def start_process_def
         tokenizer_clear_error_def tokenizer_clear_expanded_aliases_def within_def)
  moreover have "no_loop_word (tk_output a')"
    using longer(3) last_in_set
    by (fastforce simp: no_loop_word_def last_type_is_def plain_output_def opens_compound_def)
  moreover have "tk_output s2 = []" "tk_buffered s2 \<noteq> []"
    using kept' a by (simp_all add: s2_def kept_in_order_def tokenizer_set_error_def)
  ultimately have run: "process_tokens (within [] [] (tk_error s) rest s) =
      Some (map_option (within_result (tk_input a') (tk_output a') (tk_error a') []) r)"
    if "process_tokens s2 = Some r" for r
    using run_within [OF that] longer(1) by metis
  have whole: "start_process tk (line @ nl # rest) [] = within [] [] (tk_error s) rest s"
    by (simp add: s_def start_process_def tokenizer_clear_error_def
          tokenizer_clear_expanded_aliases_def within_def)
  from second show ?thesis
  proof (cases rule: process_cases)
    case (1 d)
    with run [of "Some (TOK_OK, d)"] show ?thesis
      by (auto simp: tokenizer_process_def whole s2_def within_result_def finish_process_def a(2)
            tokenizer_set_error_def split: if_splits)
  next
    case 2
    with run [of "Some (st, b)"] show ?thesis
      by (auto simp: tokenizer_process_def whole s2_def within_result_def a(2))
  qed
qed

subsection \<open>The consumed part of the input\<close>

definition consumed :: "token list \<Rightarrow> tokenizer_t \<Rightarrow> bool" where
  \<comment> \<open>what has been handed over since the tokens \<open>ts\<close> were held is the input before the position\<close>
  "consumed ts tk \<longleftrightarrow> tk_pos tk \<le> length (tk_input tk) \<and> held tk = ts @ take (tk_pos tk) (tk_input tk)"

lemma expand_consumed:
  assumes "tokenizer_expand_alias (tk\<lparr>tk_input := ts\<rparr>) n = Some (Some (st, a))"
    "ts = take (tk_pos tk) (tk_input tk) @ drop (tk_pos tk + 1) (tk_input tk)" "consumed h tk"
    "tk_pos tk < length (tk_input tk)" "st = TOK_OK"
  shows "consumed h a"
proof -
  obtain new where "tk_input a = take (tk_pos tk) ts @ new @ drop (tk_pos tk) ts"
      "tk_pos a = tk_pos tk" "held a = held tk"
    using expand_effect [OF assms(1)] assms(5) by (auto simp: held_def)
  with assms show ?thesis by (simp add: consumed_def)
qed

lemma consumed_step:
  assumes "consumed h tk" "tk_pos tk < length (tk_input tk)"
    "tokenizer_process_one_token tk = Some (Some (TOK_OK, a))"
  shows "consumed h a"
  using assms(3,2)
proof (cases rule: one_token_cases)
  case (expand n ts)
  show ?thesis using expand_consumed [OF expand(3,2) assms(1,2) refl] .
next
  case (add t)
  with add_token_effect [OF add(2)] assms(1,2) show ?thesis
    by (simp add: consumed_def take_Suc_conv_app_nth)
next
  case (number y)
  with assms(1) show ?thesis by (simp add: consumed_def held_def)
qed

lemma expand_failed:
  assumes "tokenizer_expand_alias tk n = Some (Some (st, a))" "st \<noteq> TOK_OK"
  shows "tk_input a = tk_input tk"
proof -
  have "tk_input b = tk_input tk'" if "tokenizer_relex_text tk' v = Some (Some (st, b))" for tk' b v
    using that assms(2)
    by (auto simp: tokenizer_relex_text_def tokenizer_set_error_def split: option.splits prod.splits if_splits)
  from this [of "(tokenizer_mark_alias_expanded n tk)\<lparr>tk_depth := tk_depth tk + 1\<rparr>"] assms
  show ?thesis
    by (fastforce simp: tokenizer_expand_alias_def tokenizer_set_error_def Let_def
          tokenizer_mark_alias_expanded_def split: option.splits prod.splits if_splits)
qed

lemma consumed_failed:
  assumes "consumed h tk" "tk_pos tk < length (tk_input tk)"
    "tokenizer_process_one_token tk = Some (Some (st, a))" "st \<noteq> TOK_OK"
  shows "held a = h @ take (tk_pos a) (tk_input a)"
proof -
  let ?t = "tk_input tk ! tk_pos tk"
  from assms(2,3) consider
      (plain) "process_plain_token tk ?t = Some (st, a)"
    | (expand) n ts where "token_list_remove (tk_input tk) (tk_pos tk) = Some ts"
       "tokenizer_expand_alias (tk\<lparr>tk_input := ts\<rparr>) n = Some (Some (st, a))"
    by (auto simp: tokenizer_process_one_token_def Let_def split: option.splits)
  then show ?thesis
  proof cases
    case plain
    then obtain t' where "add_token (tk\<lparr>tk_input := (tk_input tk)[tk_pos tk := t']\<rparr>) t' = (st, a)"
      using plain_effect [OF plain refl assms(2)] assms(4) by auto
    from add_token_effect [OF this] assms show ?thesis
      by (auto simp: consumed_def held_def)
  next
    case expand
    then have "tk_input a = ts"
      using assms(4) expand_failed by fastforce
    with expand expand_effect [OF expand(2)] assms(1,2) show ?thesis
      by (auto simp: consumed_def held_def token_list_remove_def split: if_splits)
  qed
qed

lemma run_consumed_from:
  "process_tokens tk = Some r \<Longrightarrow> r = Some (st, a) \<Longrightarrow> consumed h tk \<Longrightarrow>
   held a = h @ take (tk_pos a) (tk_input a)"
proof (induction tk r arbitrary: st a rule: process_tokens_induct)
  case (step tk b r)
  with consumed_step [OF step.prems(2) step.hyps] show ?case by blast
next
  case (failed tk st' a')
  with consumed_failed show ?case by blast
qed (auto simp: consumed_def)

lemma run_consumed:
  "process_tokens (start_process tk input out) = Some r \<Longrightarrow> r = Some (st, a) \<Longrightarrow>
   held a = out @ tk_buffered tk @ take (tk_pos a) (tk_input a)"
  using run_consumed_from [of "start_process tk input out" r st a "out @ tk_buffered tk"]
  by (simp add: consumed_def held_def)

end
