(* ===== verification/Tokenizer_Props.thy ===== *)
theory Tokenizer_Props
  imports
    Tokenizer_Runs
begin

section \<open>What the tokenizer promises\<close>

text \<open>
  The properties of the tokenizer, alone and on the output of the lexer.  Concrete runs of
  lexer and tokenizer together are evaluated by the simplifier.
\<close>

subsection \<open>Order, nesting and resuming\<close>


definition tokens_of :: "string \<Rightarrow> token list" where
  \<comment> \<open>the tokens of a text that the lexer accepts\<close>
  "tokens_of s = (case lex_cstr_to_tokens s of Some (Some (_, ts)) \<Rightarrow> ts | _ \<Rightarrow> [])"

definition tokenized :: "alias_store option \<Rightarrow> string \<Rightarrow> (tok_status_t \<times> tokenizer_t) option" where
  "tokenized aliases s =
     (case tokenizer_process (tokenizer_create aliases) (tokens_of s) [] of
        Some (Some r) \<Rightarrow> Some r | _ \<Rightarrow> None)"

lemma tokenizedD: "tokenized al s = Some r \<Longrightarrow>
    tokenizer_process (tokenizer_create al) (tokens_of s) [] = Some (Some r)"
  by (auto simp: tokenized_def split: option.splits)

lemma created_fields [simp]:
  "tk_stack (tokenizer_create al) = []" "tk_buffered (tokenizer_create al) = []"
  "tk_aliases (tokenizer_create al) = al"
  by (simp_all add: tokenizer_create_def)

lemma created_ordered [simp]: "kept_in_order (tokenizer_create al)"
  by (simp add: kept_in_order_def tokenizer_create_def)

abbreviation types :: "token list \<Rightarrow> token_type list" where
  "types \<equiv> map tok_type"

lemma open_if: "map_option (\<lambda>(st, a). (st, types (tk_output a), types (tk_buffered a), tk_stack a))
    (tokenized None ''a; if b; then'') =
  Some (TOK_INCOMPLETE, [TOKEN_WORD, TOKEN_SEMI],
    [TOKEN_IF, TOKEN_WORD, TOKEN_SEMI, TOKEN_THEN], [TOKEN_IF])"
  by code_simp


lemma numbers_free_all: "list_all (\<lambda>t. \<not> is_redirection_type (tok_type t)) ts \<Longrightarrow> numbers_free ts"
  by (induction ts rule: numbers_free.induct) auto

text \<open>C15: Without aliases, and when no number stands directly before a redirection operator,
  the tokenizer always returns and loses nothing: each input token is handed over as it is or
  as the reserved word it spells, and the only error is a closing word that does not match.\<close>

theorem plain_input_handed_over:
  assumes "no_aliases tk" and "kept_in_order tk" and "list_all word_ok input" and "numbers_free input"
  shows "\<exists>st a n added. tokenizer_process tk input out = Some (Some (st, a)) \<and>
    tk_output a @ tk_buffered a = out @ tk_buffered tk @ added \<and> list_all2 kept (take n input) added \<and>
    (n = length input \<and> (st = TOK_OK \<and> tk_buffered a = [] \<or> st = TOK_INCOMPLETE) \<or>
     n < length input \<and> st = TOK_ERROR \<and>
       (\<exists>t. kept (input ! n) t \<and> nest (tok_type t) (tk_stack a) = None))"
  using assms by (rule process_plain)

theorem plain_input_handed_over_witness:
  "\<exists>st a n added. tokenizer_process (tokenizer_create None) (tokens_of ''if a; then b; fi'') [] =
       Some (Some (st, a)) \<and> list_all2 kept (take n (tokens_of ''if a; then b; fi'')) added"
proof -
  have "no_aliases (tokenizer_create None)" by (simp add: no_aliases_def tokenizer_create_def)
  moreover have "list_all (\<lambda>t. tok_type t = TOKEN_WORD \<longrightarrow> tok_parts t \<noteq> None) (tokens_of ''if a; then b; fi'')"
    by code_simp
  then have "list_all word_ok (tokens_of ''if a; then b; fi'')" by (simp add: word_ok_def list_all_def)
  moreover have "list_all (\<lambda>t. \<not> is_redirection_type (tok_type t)) (tokens_of ''if a; then b; fi'')"
    by code_simp
  then have "numbers_free (tokens_of ''if a; then b; fi'')"
    by (rule numbers_free_all)
  ultimately show ?thesis using plain_input_handed_over [OF _ created_ordered] by blast
qed

text \<open>C16: Feeding a compound command line by line is feeding it at once: when a line that ends
  in a newline leaves a command open, the next call continues as if both inputs had been one,
  whatever the aliases, provided that the output of the first call is kept.\<close>

theorem line_by_line_is_whole:
  assumes "tokenizer_process tk (line @ [nl]) [] = Some (Some (TOK_INCOMPLETE, a))"
    and "tok_type nl = TOKEN_NEWLINE" and "kept_in_order tk"
    and "tokenizer_process a rest [] = Some (Some (st, b))"
  shows "\<exists>c. tokenizer_process tk (line @ nl # rest) [] = Some (Some (st, c)) \<and>
    tk_output c = tk_output a @ tk_output b \<and> tk_buffered c = tk_buffered b \<and>
    tk_stack c = tk_stack b"
  using assms by (rule process_resumed)


definition resumed :: "string \<Rightarrow> string \<Rightarrow> (tok_status_t \<times> tokenizer_t) option" where
  "resumed s1 s2 =
     (case tokenized None s1 of
        Some (TOK_INCOMPLETE, a) \<Rightarrow>
          (case tokenizer_process a (tokens_of s2) [] of Some (Some r) \<Rightarrow> Some r | _ \<Rightarrow> None)
      | _ \<Rightarrow> None)"

lemma resumed_if:
  "map_option (\<lambda>(st, b). (st, types (tk_output b))) (resumed (''if a'' @ [NEWLINE]) ''then b; fi'') =
   Some (TOK_OK, [TOKEN_IF, TOKEN_WORD, TOKEN_NEWLINE, TOKEN_THEN, TOKEN_WORD, TOKEN_SEMI, TOKEN_FI])"
  by code_simp

lemma if_line: "types (tokens_of (''if a'' @ [NEWLINE])) = [TOKEN_WORD, TOKEN_WORD, TOKEN_NEWLINE]"
  by code_simp

theorem line_by_line_is_whole_witness:
  "\<exists>a b c x y. tokenized None (''if a'' @ [NEWLINE]) = Some (TOK_INCOMPLETE, a) \<and>
     tokenizer_process a (tokens_of ''then b; fi'') [] = Some (Some (TOK_OK, b)) \<and>
     tokenizer_process (tokenizer_create None)
       (tokens_of (''if a'' @ [NEWLINE]) @ tokens_of ''then b; fi'') [] = Some (Some (TOK_OK, c)) \<and>
     tk_output c = tk_output a @ tk_output b"
proof -
  obtain x y nl where line: "tokens_of (''if a'' @ [NEWLINE]) = [x, y] @ [nl]" "tok_type nl = TOKEN_NEWLINE"
    using if_line by auto
  obtain a b where a: "tokenized None (''if a'' @ [NEWLINE]) = Some (TOK_INCOMPLETE, a)"
    and b: "tokenizer_process a (tokens_of ''then b; fi'') [] = Some (Some (TOK_OK, b))"
    using resumed_if by (auto simp: resumed_def split: option.splits tok_status_t.splits)
  show ?thesis
    using line_by_line_is_whole [OF tokenizedD [OF a, unfolded line(1)] line(2) created_ordered b]
      a b line(1) by auto
qed

subsection \<open>Numbers before redirections\<close>

lemma digits_value_nonneg: "list_all c_isdigit w \<Longrightarrow> 0 \<le> n \<Longrightarrow> 0 \<le> digits_value w n"
  by (induction w arbitrary: n) (auto simp: c_isdigit_def of_char_int Let_def)

lemma digits_not_reserved: "w \<noteq> [] \<Longrightarrow> list_all c_isdigit w \<Longrightarrow>
    token_string_to_reserved_word w = TOKEN_WORD"
proof -
  assume "w \<noteq> []" "list_all c_isdigit w"
  moreover have "list_all (\<lambda>(k, _). \<not> list_all c_isdigit k) reserved_words" by code_simp
  ultimately have "w \<notin> fst ` set reserved_words" by (auto simp: list_all_iff)
  then have "map_of reserved_words w = None" by (simp add: map_of_eq_None_iff)
  then show ?thesis by (simp add: token_string_to_reserved_word_def)
qed

text \<open>A word of digits that stands directly before a redirection operator in the token list
  (whether or not a blank or a quote separated them in the text) swallows the operator: the
  tokenizer replaces both tokens by one of type \<open>TOKEN_IO_NUMBER\<close>, so that no redirection
  operator is left for the parser.\<close>

theorem number_replaces_redirection:
  assumes "tk_pos tk + 1 < length (tk_input tk)" and "x = tk_input tk ! tk_pos tk"
    and "op = tk_input tk ! (tk_pos tk + 1)" and "is_redirection_type (tok_type op)"
    and "alias_to_expand tk x = Some None"
    and "tokenizer_extract_word_text x = Some (Some w)" and "w \<noteq> []" and "list_all c_isdigit w"
    and "digits_value w 0 \<le> INT_MAX"
  shows "tokenizer_process_one_token tk = Some (Some (TOK_OK,
    tk\<lparr>tk_input := take (tk_pos tk) (tk_input tk) @
         op\<lparr>tok_type := TOKEN_IO_NUMBER, tok_io_number := digits_value w 0\<rparr> #
         drop (tk_pos tk + 2) (tk_input tk)\<rparr>))"
proof -
  have "tok_type x = TOKEN_WORD"
    using assms(6) by (auto simp: tokenizer_extract_word_text_def split: if_splits)
  moreover have "token_string_to_reserved_word w = TOKEN_WORD"
    using assms(7,8) by (rule digits_not_reserved)
  ultimately have "reserved_type tk x = Some None" "io_number_word tk x = Some (Some w)"
    using assms by (simp_all add: reserved_type_def io_number_word_def next_type_is_def)
  moreover have n: "c_atoi w = Some (digits_value w 0)" "0 \<le> digits_value w 0"
    using assms(8,9) digits_value_nonneg [of w 0] by (simp_all add: c_atoi_def c_int_def)
  moreover have "drop (tk_pos tk + 1) ((tk_input tk)[tk_pos tk + 1 := y]) =
      y # drop (tk_pos tk + 2) (tk_input tk)" for y
    using assms(1) by (subst Cons_nth_drop_Suc [symmetric]) simp_all
  ultimately show ?thesis
    using assms(1-5)
    by (simp add: tokenizer_process_one_token_def process_plain_token_def Let_def
          token_list_set_io_number_def token_list_remove_def)
qed

lemma redirected_ls: "map (\<lambda>t. (tok_type t, tokenizer_extract_word_text t)) (tokens_of ''ls 2>err'') =
    [(TOKEN_WORD, Some (Some ''ls'')), (TOKEN_WORD, Some (Some ''2'')), (TOKEN_GREATER, Some None),
     (TOKEN_WORD, Some (Some ''err''))]"
  by code_simp

theorem number_replaces_redirection_witness:
  "map_option (map_option (\<lambda>(st, a). types (tk_input a)))
     (tokenizer_process_one_token
       ((start_process (tokenizer_create None) (tokens_of ''ls 2>err'') [])\<lparr>tk_pos := 1\<rparr>)) =
     Some (Some [TOKEN_WORD, TOKEN_IO_NUMBER, TOKEN_WORD]) \<and>
   map_option (\<lambda>(st, a). types (tk_output a)) (tokenized None ''ls 2>err'') =
     Some [TOKEN_WORD, TOKEN_IO_NUMBER, TOKEN_WORD]"
proof -
  obtain t0 t1 t2 t3 where ts: "tokens_of ''ls 2>err'' = [t0, t1, t2, t3]"
    and words: "tok_type t0 = TOKEN_WORD" "tokenizer_extract_word_text t1 = Some (Some ''2'')"
      "tok_type t2 = TOKEN_GREATER" "tok_type t3 = TOKEN_WORD"
    using redirected_ls by auto
  define tk where "tk = (start_process (tokenizer_create None) [t0, t1, t2, t3] [])\<lparr>tk_pos := 1\<rparr>"
  have "tokenizer_process_one_token tk = Some (Some (TOK_OK,
    tk\<lparr>tk_input := take (tk_pos tk) (tk_input tk) @
         t2\<lparr>tok_type := TOKEN_IO_NUMBER, tok_io_number := digits_value ''2'' 0\<rparr> #
         drop (tk_pos tk + 2) (tk_input tk)\<rparr>))"
    by (rule number_replaces_redirection [of tk t1 t2])
       (simp_all add: tk_def words is_redirection_type_def alias_to_expand_def c_isdigit_def)
  then have "map_option (map_option (\<lambda>(st, a). types (tk_input a))) (tokenizer_process_one_token tk) =
      Some (Some [TOKEN_WORD, TOKEN_IO_NUMBER, TOKEN_WORD])"
    by (simp add: tk_def words)
  moreover have "map_option (\<lambda>(st, a). types (tk_output a)) (tokenized None ''ls 2>err'') =
      Some [TOKEN_WORD, TOKEN_IO_NUMBER, TOKEN_WORD]" by code_simp
  ultimately show ?thesis by (simp add: ts tk_def)
qed

subsection \<open>Errors\<close>

text \<open>A call that fails leaves tokens in two lists: everything it has handed over is still
  in the input list, so that a caller that destroys both lists, as the shell does, destroys
  those tokens twice.  A call that does not fail leaves the input list empty.\<close>

theorem error_shares_tokens:
  assumes "tokenizer_process tk input out = Some (Some (st, a))" and "kept_in_order tk"
  shows "if st = TOK_ERROR
    then tk_output a @ tk_buffered a = out @ tk_buffered tk @ take (tk_pos a) (tk_input a)
    else tk_input a = []"
  using assms(1)
proof (cases rule: process_cases)
  case (1 b)
  then show ?thesis by (auto simp: finish_process_def split: if_splits)
next
  case 2
  with run_consumed [OF 2(1) refl] show ?thesis by (simp add: held_def)
qed

lemma stray_brace:
  "map_option (\<lambda>(st, a). (st, types (tk_output a), types (tk_input a), tk_pos a))
     (tokenized None ''a; }'') =
   Some (TOK_ERROR, [TOKEN_WORD, TOKEN_SEMI], [TOKEN_WORD, TOKEN_SEMI, TOKEN_RBRACE], 2)"
  by code_simp

theorem error_shares_tokens_witness:
  "\<exists>a. tokenized None ''a; }'' = Some (TOK_ERROR, a) \<and> tk_output a \<noteq> [] \<and>
     tk_output a @ tk_buffered a = take (tk_pos a) (tk_input a)"
proof -
  obtain a where a: "tokenized None ''a; }'' = Some (TOK_ERROR, a)" "tk_output a \<noteq> []"
    using stray_brace by auto
  from error_shares_tokens [OF tokenizedD [OF a(1)]] a show ?thesis by simp
qed

subsection \<open>Aliases\<close>

definition two_aliases :: "alias_store option" where
  "two_aliases = Option.bind (alias_store_add alias_store_create ''a'' ''b '')
     (\<lambda>s. alias_store_add s ''c'' ''d'')"

text \<open>The blank at the end of an alias has no effect: the command position it requests is
  consumed by the first word of the alias itself.  With \<open>a\<close> standing for \<open>b\<close> and a blank, and \<open>c\<close>
  for \<open>d\<close>, the words \<open>a c\<close> become \<open>b c\<close>, not \<open>b d\<close>, although the guard that should give \<open>d\<close>
  holds.\<close>

theorem trailing_blank_ignored:
  "tokenizer_alias_ends_with_blank ''b '' \<and>
   map_option (\<lambda>(st, a). (st, map tokenizer_extract_word_text (tk_output a)))
     (tokenized two_aliases ''a c'') = Some (TOK_OK, [Some (Some ''b''), Some (Some ''c'')]) \<and>
   map_option (\<lambda>(st, a). (st, map tokenizer_extract_word_text (tk_output a)))
     (tokenized two_aliases ''c'') = Some (TOK_OK, [Some (Some ''d'')])"
  by code_simp

text \<open>An alias whose text names the alias again after a separator.\<close>

definition plain_word :: "string \<Rightarrow> token \<Rightarrow> bool" where
  "plain_word w t \<longleftrightarrow> tok_type t = TOKEN_WORD \<and> \<not> tok_was_quoted t \<and>
     (case tok_parts t of Some [p] \<Rightarrow> part_type_of p = PART_LITERAL \<and> part_text p = Some w \<and>
        \<not> part_single_quoted p \<and> \<not> part_double_quoted p
      | _ \<Rightarrow> False)"

lemma plain_wordD:
  assumes "plain_word w t" "cstr_of w = w"
  shows "tok_type t = TOKEN_WORD" "\<not> tok_was_quoted t"
    "tokenizer_extract_word_text t = Some (Some w)"
    "tk_at_command tk \<Longrightarrow> tokenizer_is_alias_eligible tk t = Some True"
  using assms
  by (auto simp: plain_word_def tokenizer_extract_word_text_def tokenizer_is_alias_eligible_def
        token_part_count_def token_get_part_def split: option.splits list.splits)

definition cd_alias :: alias_store where
  \<comment> \<open>the store after \<open>alias l='cd;l'\<close>\<close>
  "cd_alias = the (alias_store_add alias_store_create ''l'' ''cd;l'')"

lemma cd_alias_lookup:
  "alias_store_has_name cd_alias ''l'' = Some True"
  "alias_store_has_name cd_alias ''cd'' = Some False"
  "alias_store_get_value_cstr cd_alias ''l'' = Some (Some ''cd;l'')"
  by code_simp+

lemma cd_text:
  "(case lexer_tokenize (lexer_append_input lexer_create ''cd;l'') of
      Some (Some (st, ts, lx)) \<Rightarrow> st = LEX_OK \<and> length ts = 3 \<and> plain_word ''cd'' (ts ! 0) \<and>
        tok_type (ts ! 1) = TOKEN_SEMI \<and> plain_word ''l'' (ts ! 2)
    | _ \<Rightarrow> False)"
  by code_simp

definition at_word :: "string list \<Rightarrow> tokenizer_t \<Rightarrow> bool" where
  \<comment> \<open>the next tokens are these plain words and, for the empty one, a semicolon\<close>
  "at_word ws tk \<longleftrightarrow> tk_pos tk + length ws \<le> length (tk_input tk) \<and>
     (\<forall>i < length ws. let t = tk_input tk ! (tk_pos tk + i) in
        if ws ! i = [] then tok_type t = TOKEN_SEMI else plain_word (ws ! i) t)"

definition stuck :: "tokenizer_t \<Rightarrow> bool" where
  "stuck tk \<longleftrightarrow> tk_aliases tk = Some cd_alias \<and> tk_depth tk < tk_max_depth tk \<and>
     (at_word [''l''] tk \<and> tk_at_command tk \<and> ''l'' \<notin> set (tk_expanded tk) \<or>
      at_word [''cd'', [], ''l''] tk \<or> at_word [[], ''l''] tk)"


lemma nest_plain: "\<not> opens_compound ty \<Longrightarrow> \<not> closes_compound ty \<Longrightarrow> nest ty s = Some s"
  by (simp add: nest_def)

lemma passes_plain:
  assumes "tk_pos tk < length (tk_input tk)" "t = tk_input tk ! tk_pos tk"
    "alias_to_expand tk t = Some None" "reserved_type tk t = Some None"
    "io_number_word tk t = Some None" "\<not> opens_compound (tok_type t)" "\<not> closes_compound (tok_type t)"
  obtains a where "tokenizer_process_one_token tk = Some (Some (TOK_OK, a))"
    "tk_pos a = tk_pos tk + 1" "tk_input a = tk_input tk" "tk_aliases a = tk_aliases tk"
    "tk_depth a = tk_depth tk" "tk_max_depth a = tk_max_depth tk"
    "tk_at_command a = command_position_follows (tok_type t)"
    "command_position_follows (tok_type t) \<longrightarrow> tk_expanded a = []"
proof -
  obtain st a where a: "add_token tk t = (st, a)" by fastforce
  have "nest (tok_type t) (tk_stack tk) \<noteq> None" using nest_plain assms(6,7) by simp
  with add_token_effect [OF a] have "st = TOK_OK" by (auto split: if_splits)
  moreover have "tokenizer_process_one_token tk = Some (Some (st, a))"
    using assms a by (simp add: tokenizer_process_one_token_def process_plain_token_def Let_def)
  ultimately show thesis using add_token_effect [OF a] that [of a] by simp
qed

lemma stuck_step:
  assumes "stuck tk"
  shows "tk_pos tk < length (tk_input tk) \<and>
    (\<exists>a. tokenizer_process_one_token tk = Some (Some (TOK_OK, a)) \<and> stuck a)"
proof -
  let ?t = "tk_input tk ! tk_pos tk"
  from assms have al: "tk_aliases tk = Some cd_alias" "tk_depth tk < tk_max_depth tk"
    by (simp_all add: stuck_def)
  from assms consider
      (name) "at_word [''l''] tk" "tk_at_command tk" "''l'' \<notin> set (tk_expanded tk)"
    | (cd) "at_word [''cd'', [], ''l''] tk" | (semi) "at_word [[], ''l''] tk"
    by (auto simp: stuck_def)
  then show ?thesis
  proof cases
    case name
    then have inside: "tk_pos tk < length (tk_input tk)" and l: "plain_word ''l'' ?t"
      by (simp_all add: at_word_def)
    have l': "tokenizer_extract_word_text ?t = Some (Some ''l'')"
        "tokenizer_is_alias_eligible tk ?t = Some True"
      using plain_wordD [OF l] name(2) by (simp_all add: cstr_of_def)
    then have expands: "alias_to_expand tk ?t = Some (Some ''l'')"
      using name(3) al by (simp add: alias_to_expand_def cd_alias_lookup tokenizer_is_alias_expanded_def)
    obtain t0 t1 t2 lx where lex: "lexer_tokenize (lexer_append_input lexer_create ''cd;l'') =
        Some (Some (LEX_OK, [t0, t1, t2], lx))" and ts: "plain_word ''cd'' t0"
        "tok_type t1 = TOKEN_SEMI" "plain_word ''l'' t2"
      using cd_text by (auto simp: numeral_3_eq_3 length_Suc_conv split: option.splits prod.splits)
    define a where "a = tk\<lparr>tk_input := take (tk_pos tk) (tk_input tk) @ [t0, t1, t2] @
        drop (tk_pos tk + 1) (tk_input tk), tk_expanded := tk_expanded tk @ [''l'']\<rparr>"
    have "tokenizer_process_one_token tk = Some (Some (TOK_OK, a))"
      using inside expands al
      by (simp add: tokenizer_process_one_token_def Let_def token_list_remove_def
            tokenizer_expand_alias_def alias_value_of_def cd_alias_lookup tokenizer_relex_text_def
            lex tokenizer_mark_alias_expanded_def token_list_insert_range_def
            tokenizer_alias_ends_with_blank_def a_def)
    moreover have "at_word [''cd'', [], ''l''] a"
      using inside ts by (auto simp: at_word_def a_def nth_append less_Suc_eq numeral_3_eq_3)
    ultimately show ?thesis using inside al by (auto simp: stuck_def a_def)
  next
    case cd
    then have inside: "tk_pos tk + 2 < length (tk_input tk)" and c: "plain_word ''cd'' ?t"
      and semi: "tok_type (tk_input tk ! (tk_pos tk + 1)) = TOKEN_SEMI"
      and l: "plain_word ''l'' (tk_input tk ! (tk_pos tk + 2))"
      by (auto simp: at_word_def Let_def less_Suc_eq numeral_3_eq_3 all_conj_distrib)
    have c': "tok_type ?t = TOKEN_WORD" "tokenizer_extract_word_text ?t = Some (Some ''cd'')"
      using plain_wordD [OF c] by (simp_all add: cstr_of_def)
    have "tokenizer_is_alias_eligible tk ?t \<noteq> None"
      using c by (auto simp: plain_word_def tokenizer_is_alias_eligible_def token_part_count_def
          token_get_part_def split: option.splits list.splits)
    then have "alias_to_expand tk ?t = Some None"
      using al c' by (auto simp: alias_to_expand_def cd_alias_lookup)
    moreover have "token_string_to_reserved_word ''cd'' = TOKEN_WORD" by code_simp
    then have "reserved_type tk ?t = Some None" using c' by (simp add: reserved_type_def)
    moreover have "io_number_word tk ?t = Some None"
      using semi by (simp add: io_number_word_def next_type_is_def is_redirection_type_def)
    ultimately obtain a where "tokenizer_process_one_token tk = Some (Some (TOK_OK, a))"
      "tk_pos a = tk_pos tk + 1" "tk_input a = tk_input tk" "tk_aliases a = tk_aliases tk"
      "tk_depth a = tk_depth tk" "tk_max_depth a = tk_max_depth tk"
      using passes_plain [of tk ?t] inside c'(1) by (auto simp: opens_compound_def closes_compound_def)
    moreover from this have "at_word [[], ''l''] a"
      using inside semi l by (auto simp: at_word_def less_Suc_eq numeral_2_eq_2)
    ultimately show ?thesis using inside al by (auto simp: stuck_def)
  next
    case semi
    then have inside: "tk_pos tk + 1 < length (tk_input tk)" and s: "tok_type ?t = TOKEN_SEMI"
      and l: "plain_word ''l'' (tk_input tk ! (tk_pos tk + 1))"
      by (auto simp: at_word_def Let_def less_Suc_eq numeral_2_eq_2 all_conj_distrib)
    have "alias_to_expand tk ?t = Some None"
      using al s by (simp add: alias_to_expand_def tokenizer_is_alias_eligible_def)
    moreover have "reserved_type tk ?t = Some None" "io_number_word tk ?t = Some None"
      using s by (simp_all add: reserved_type_def io_number_word_def)
    ultimately obtain a where "tokenizer_process_one_token tk = Some (Some (TOK_OK, a))"
      "tk_pos a = tk_pos tk + 1" "tk_input a = tk_input tk" "tk_aliases a = tk_aliases tk"
      "tk_depth a = tk_depth tk" "tk_max_depth a = tk_max_depth tk" "tk_at_command a"
      "tk_expanded a = []"
      using passes_plain [of tk ?t] inside s
      by (auto simp: opens_compound_def closes_compound_def command_position_follows_def)
    moreover from this have "at_word [''l''] a" using inside l by (simp add: at_word_def)
    ultimately show ?thesis using inside al by (auto simp: stuck_def)
  qed
qed

lemma stuck_diverges: "process_tokens tk = Some r \<Longrightarrow> \<not> stuck tk"
  by (induction tk r rule: process_tokens_induct) (use stuck_step in fastforce)+

text \<open>The recursion guard of alias expansion is lost at every separator, so an alias whose
  text names it again after one is expanded for ever: after \<open>alias l='cd;l'\<close> the tokenizer does
  not return on the command \<open>l\<close>, and the limit on the expansion depth, which counts nested
  re-lexing only, never stops it.\<close>

theorem alias_after_separator_diverges:
  assumes "plain_word ''l'' t" and "tk_aliases tk = Some cd_alias" and "tk_depth tk < tk_max_depth tk"
  shows "tokenizer_process tk (t # ts) out = None"
proof -
  have "stuck (start_process tk (t # ts) out)"
    using assms by (simp add: stuck_def at_word_def)
  then have "process_tokens (start_process tk (t # ts) out) = None"
    using stuck_diverges by (cases "process_tokens (start_process tk (t # ts) out)") auto
  then show ?thesis by (simp add: tokenizer_process_def)
qed

lemma l_tokens: "length (tokens_of ''l'') = 1 \<and> plain_word ''l'' (hd (tokens_of ''l''))"
  by code_simp

theorem alias_after_separator_diverges_witness:
  "tokenizer_process (tokenizer_create (Some cd_alias)) (tokens_of ''l'') [] = None"
proof -
  obtain t where "tokens_of ''l'' = [t]" "plain_word ''l'' t"
    using l_tokens by (cases "tokens_of ''l''") auto
  then show ?thesis
    using alias_after_separator_diverges [of t "tokenizer_create (Some cd_alias)" "[]" "[]"]
    by (simp add: tokenizer_create_def)
qed

end
