(* ===== verification/Parse_Session.thy ===== *)
theory Parse_Session
  imports
    Tokenizer_Props
begin

section \<open>The parse session (parse\_session.c, exec\_frame\_string\_core of exec\_frame.c)\<close>

text \<open>
  The state that the shell keeps between the lines of its input: lexer, tokenizer, alias store,
  and the tokens accumulated while a command is incomplete.  \<open>string_core_tokens\<close> is the first
  half of \<open>exec_frame_string_core\<close>, up to the call of the parser: what the parser is given, or
  why it is not called.
\<close>

record parse_session =
  ps_lexer :: lexer
  ps_own_aliases :: bool
  ps_aliases :: alias_store
  ps_tokenizer :: tokenizer_t
  ps_accumulated :: "token list option"
  ps_line_num :: int
  ps_incomplete :: bool
  ps_filename :: "string option"
  ps_caller_line_number :: nat

definition parse_session_create :: "alias_store option \<Rightarrow> parse_session" where
  "parse_session_create aliases =
     (let store = (case aliases of Some s \<Rightarrow> s | None \<Rightarrow> alias_store_create)
      in \<lparr> ps_lexer = lexer_create, ps_own_aliases = (aliases = None), ps_aliases = store,
           ps_tokenizer = tokenizer_create (Some store), ps_accumulated = None, ps_line_num = 0,
           ps_incomplete = False, ps_filename = None, ps_caller_line_number = 0 \<rparr>)"

definition parse_session_reset :: "parse_session \<Rightarrow> parse_session" where
  "parse_session_reset s =
     s\<lparr>ps_lexer := lexer_reset (ps_lexer s), ps_accumulated := None,
       ps_tokenizer := tokenizer_reset (ps_tokenizer s), ps_incomplete := False\<rparr>"

definition parse_session_hard_reset ::
    "parse_session \<Rightarrow> alias_store option \<Rightarrow> parse_session option" where
  "parse_session_hard_reset s aliases =
     do { new \<leftarrow> (case (ps_own_aliases s, aliases) of
            (False, None) \<Rightarrow> Some (alias_store_create, True)
          | (False, Some a) \<Rightarrow> Some (a, False)
          | (True, None) \<Rightarrow> map_option (\<lambda>c. (c, True)) (alias_store_clear (ps_aliases s))
          | (True, Some a) \<Rightarrow> Some (a, False));
          let (store, own) = new;
          Some (s\<lparr>ps_lexer := lexer_reset (ps_lexer s), ps_accumulated := None,
                  ps_own_aliases := own, ps_aliases := store,
                  ps_tokenizer := tokenizer_create (Some store), ps_incomplete := False\<rparr>) }"

datatype core_result =
    Core_Error string
  | Core_Incomplete
  | Core_Empty
  | Core_Parse "token list"

definition core_message :: "string \<Rightarrow> string option \<Rightarrow> string" where
  "core_message stage err = stage @ (case err of None \<Rightarrow> ''unknown'' | Some e \<Rightarrow> e)"

definition tokenizer_failed :: "parse_session \<Rightarrow> (core_result \<times> parse_session) option option" where
  \<comment> \<open>the input list still holds the tokens that were handed over before the error, and both lists
     are destroyed: if a token is in the output it is destroyed twice.  Tokens handed to the
     buffer in the failed call are left dangling there.\<close>
  "tokenizer_failed s =
     (if tk_output (ps_tokenizer s) \<noteq> [] then Some None
      else Some (Some (Core_Error (core_message ''Tokenizer error: ''
                  (tokenizer_get_error (ps_tokenizer s))), s)))"

definition incomplete_line ::
    "parse_session \<Rightarrow> token list \<Rightarrow> (core_result \<times> parse_session) option option" where
  \<comment> \<open>the lexer wants more input: tokens that it has produced are put aside\<close>
  "incomplete_line s raw =
     (if raw = [] then Some (Some (Core_Incomplete, s))
      else case tokenizer_process (ps_tokenizer s) raw [] of
        None \<Rightarrow> None
      | Some None \<Rightarrow> Some None
      | Some (Some (st, tk)) \<Rightarrow>
          let s = s\<lparr>ps_tokenizer := tk\<rparr> in
          if st = TOK_ERROR then tokenizer_failed s
          else if st = TOK_INCOMPLETE then Some (Some (Core_Incomplete, s))
          else Some (Some (Core_Incomplete, s\<lparr>ps_accumulated :=
                 Some (case ps_accumulated s of None \<Rightarrow> tk_output tk
                       | Some acc \<Rightarrow> token_list_append_list_move acc (tk_output tk))\<rparr>)))"

definition complete_line ::
    "parse_session \<Rightarrow> token list \<Rightarrow> (core_result \<times> parse_session) option option" where
  "complete_line s raw =
     (case tokenizer_process (ps_tokenizer s) raw [] of
        None \<Rightarrow> None
      | Some None \<Rightarrow> Some None
      | Some (Some (st, tk)) \<Rightarrow>
          let s = s\<lparr>ps_tokenizer := tk\<rparr> in
          if st = TOK_ERROR then tokenizer_failed s
          else if st = TOK_INCOMPLETE then Some (Some (Core_Incomplete, s))
          else if tk_output tk = [] then Some (Some (Core_Empty, s))
          else case ps_accumulated s of
            None \<Rightarrow> Some (Some (Core_Parse (tk_output tk), s))
          | Some acc \<Rightarrow> Some (Some (Core_Parse (token_list_append_list_move acc (tk_output tk)),
                                   s\<lparr>ps_accumulated := None\<rparr>)))"

definition string_core_tokens ::
    "string \<Rightarrow> parse_session \<Rightarrow> (core_result \<times> parse_session) option option" where
  "string_core_tokens input s =
     (let s = s\<lparr>ps_line_num := ps_line_num s + 1\<rparr> in
      case lexer_tokenize (lexer_append_input (ps_lexer s) input) of
        None \<Rightarrow> None
      | Some None \<Rightarrow> Some None
      | Some (Some (lex_st, raw, lx)) \<Rightarrow>
          let s = s\<lparr>ps_lexer := lx\<rparr> in
          if lex_st = LEX_ERROR
          then Some (Some (Core_Error (core_message ''Lexer error: '' (lx_error_msg lx)), s))
          else if lex_st = LEX_INCOMPLETE \<or> lex_st = LEX_NEED_HEREDOC then incomplete_line s raw
          else complete_line s raw)"

fun feed_lines :: "string list \<Rightarrow> parse_session \<Rightarrow> (core_result list \<times> parse_session) option option" where
  \<comment> \<open>one call per line\<close>
  "feed_lines [] s = Some (Some ([], s))"
| "feed_lines (l # ls) s =
     (case string_core_tokens l s of
        None \<Rightarrow> None
      | Some None \<Rightarrow> Some None
      | Some (Some (r, s)) \<Rightarrow> map_option (map_option (\<lambda>(rs, s). (r # rs, s))) (feed_lines ls s))"

fun core_words :: "core_result \<Rightarrow> (token_type \<times> string option option) list option" where
  "core_words (Core_Parse ts) = Some (map (\<lambda>t. (tok_type t, tokenizer_extract_word_text t)) ts)"
| "core_words _ = None"


end
