(* ===== verification/Gnode.thy ===== *)
theory Gnode
  imports
    Tokens
begin

section \<open>Nodes of the grammar tree (gnode.h, gnode.c)\<close>

text \<open>
  The parser builds a tree of nodes that carry a type, the kind of their payload and a union.
  The union is modelled by the member that was stored last, next to the kind, so that a node
  whose kind does not name the stored member can be told.  Lists of children are HOL lists; the
  location fields are never set.
\<close>

datatype (plugins only: code size) gnode_type =
    G_UNSPECIFIED | G_PROGRAM | G_COMPLETE_COMMANDS | G_COMPLETE_COMMAND | G_LIST | G_AND_OR | G_PIPELINE
  | G_PIPE_SEQUENCE | G_COMMAND
  | G_SIMPLE_COMMAND | G_CMD_PREFIX | G_CMD_WORD | G_CMD_SUFFIX | G_CMD_NAME | G_ASSIGNMENT_WORD | G_WORD_NODE
  | G_REDIRECT_LIST | G_IO_REDIRECT | G_IO_FILE | G_IO_HERE | G_FILENAME | G_HERE_END
  | G_COMPOUND_COMMAND | G_SUBSHELL | G_BRACE_GROUP | G_IF_CLAUSE | G_ELSE_PART | G_WHILE_CLAUSE
  | G_UNTIL_CLAUSE | G_FOR_CLAUSE | G_CASE_CLAUSE | G_CASE_LIST | G_CASE_LIST_NS | G_CASE_ITEM | G_CASE_ITEM_NS
  | G_PATTERN_LIST | G_DO_GROUP | G_COMPOUND_LIST | G_TERM
  | G_FUNCTION_DEFINITION | G_FUNCTION_BODY | G_FNAME
  | G_SEPARATOR_OP | G_SEPARATOR | G_SEQUENTIAL_SEP | G_NEWLINE_LIST | G_LINEBREAK
  | G_NAME_NODE | G_IN_NODE | G_WORDLIST | G_IO_NUMBER_NODE | G_IO_LOCATION_NODE

datatype (plugins only: code size) gnode_payload =
    GNODE_PAYLOAD_NONE | GNODE_PAYLOAD_LIST | GNODE_PAYLOAD_TOKEN | GNODE_PAYLOAD_STRING | GNODE_PAYLOAD_PAIR
  | GNODE_PAYLOAD_CHILD | GNODE_PAYLOAD_MULTI | GNODE_PAYLOAD_IO_HERE | GNODE_PAYLOAD_INDETERMINATE

datatype gnode = Node gnode_type gnode_payload gnode_data
  and gnode_data =
      D_Zero  \<comment> \<open>as \<open>xcalloc\<close> leaves it: every pointer is NULL\<close>
    | D_List "gnode list"
    | D_Token token
    | D_String string
    | D_Child gnode
    | D_Pair "gnode option" "gnode option"
    | D_Multi "gnode option" "gnode option" "gnode option" "gnode option"
    | D_Io_Here token_type string "token option"

fun node_type :: "gnode \<Rightarrow> gnode_type" where
  "node_type (Node ty _ _) = ty"

definition gnode_get_payload_type :: "gnode_type \<Rightarrow> gnode_payload" where
  "gnode_get_payload_type ty =
     (if ty \<in> {G_WORD_NODE, G_ASSIGNMENT_WORD, G_NAME_NODE, G_IO_NUMBER_NODE, G_IO_LOCATION_NODE,
               G_SEPARATOR_OP, G_CMD_NAME, G_CMD_WORD}
      then GNODE_PAYLOAD_TOKEN
      else if ty \<in> {G_FNAME, G_HERE_END} then GNODE_PAYLOAD_STRING
      else if ty = G_FILENAME then GNODE_PAYLOAD_TOKEN
      else if ty \<in> {G_COMPLETE_COMMANDS, G_LIST, G_PIPELINE, G_PIPE_SEQUENCE, G_SIMPLE_COMMAND, G_CMD_SUFFIX,
                    G_REDIRECT_LIST, G_CASE_LIST, G_CASE_LIST_NS, G_PATTERN_LIST, G_WORDLIST, G_TERM,
                    G_NEWLINE_LIST}
      then GNODE_PAYLOAD_LIST
      else if ty = G_COMPOUND_LIST then GNODE_PAYLOAD_PAIR
      else if ty = G_ELSE_PART then GNODE_PAYLOAD_MULTI
      else if ty \<in> {G_PROGRAM, G_CMD_PREFIX, G_FUNCTION_BODY, G_SEPARATOR, G_LINEBREAK, G_COMPOUND_COMMAND}
      then GNODE_PAYLOAD_CHILD
      else if ty \<in> {G_AND_OR, G_BRACE_GROUP, G_COMPLETE_COMMAND, G_IF_CLAUSE, G_WHILE_CLAUSE, G_UNTIL_CLAUSE,
                    G_FOR_CLAUSE, G_CASE_CLAUSE, G_CASE_ITEM, G_CASE_ITEM_NS, G_FUNCTION_DEFINITION,
                    G_IO_REDIRECT, G_IO_FILE, G_SUBSHELL, G_DO_GROUP}
      then GNODE_PAYLOAD_MULTI
      else if ty \<in> {G_COMMAND, G_IN_NODE} then GNODE_PAYLOAD_INDETERMINATE
      else if ty = G_IO_HERE then GNODE_PAYLOAD_IO_HERE
      else GNODE_PAYLOAD_NONE)"

definition g_node :: "gnode_type \<Rightarrow> gnode_data \<Rightarrow> gnode" where
  \<comment> \<open>\<open>g_node_create\<close> followed by the assignment of a member of \<open>data\<close>\<close>
  "g_node ty d = Node ty (gnode_get_payload_type ty) d"

definition g_node_create_token :: "gnode_type \<Rightarrow> token \<Rightarrow> gnode" where
  "g_node_create_token ty t = Node ty GNODE_PAYLOAD_TOKEN (D_Token t)"

definition g_node_create_string :: "gnode_type \<Rightarrow> string \<Rightarrow> gnode" where
  "g_node_create_string ty s = Node ty GNODE_PAYLOAD_STRING (D_String s)"

definition g_list_append :: "gnode list \<Rightarrow> gnode \<Rightarrow> gnode list" where
  "g_list_append list node = list @ [node]"

text \<open>
  Which member \<open>g_node_destroy\<close> reads follows from the kind alone.  It is one that was stored
  exactly when \<open>g_node_destroy\<close> below holds: the member itself, or \<open>child\<close> where
  \<open>multi\<close> or \<open>pair\<close> was stored, whose first member lies at the same place and has the same
  type (the others are then leaked).
\<close>

fun g_node_destroy :: "gnode \<Rightarrow> bool"
  and g_data_destroy :: "gnode_payload \<Rightarrow> gnode_data \<Rightarrow> bool" where
  "g_node_destroy (Node _ payload d) = g_data_destroy payload d"
| "g_data_destroy payload D_Zero = True"
| "g_data_destroy payload (D_List xs) =
     (payload \<in> {GNODE_PAYLOAD_NONE, GNODE_PAYLOAD_INDETERMINATE} \<or>
      payload = GNODE_PAYLOAD_LIST \<and> list_all g_node_destroy xs)"
| "g_data_destroy payload (D_Token t) =
     (payload \<in> {GNODE_PAYLOAD_NONE, GNODE_PAYLOAD_INDETERMINATE, GNODE_PAYLOAD_TOKEN})"
| "g_data_destroy payload (D_String s) =
     (payload \<in> {GNODE_PAYLOAD_NONE, GNODE_PAYLOAD_INDETERMINATE, GNODE_PAYLOAD_STRING})"
| "g_data_destroy payload (D_Child x) =
     (payload \<in> {GNODE_PAYLOAD_NONE, GNODE_PAYLOAD_INDETERMINATE} \<or>
      payload = GNODE_PAYLOAD_CHILD \<and> g_node_destroy x)"
| "g_data_destroy payload (D_Pair a b) =
     (payload \<in> {GNODE_PAYLOAD_NONE, GNODE_PAYLOAD_INDETERMINATE} \<or>
      payload \<in> {GNODE_PAYLOAD_PAIR, GNODE_PAYLOAD_MULTI} \<and> pred_option g_node_destroy a \<and> pred_option g_node_destroy b \<or>
      payload = GNODE_PAYLOAD_CHILD \<and> pred_option g_node_destroy a)"
| "g_data_destroy payload (D_Multi a b c d) =
     (payload \<in> {GNODE_PAYLOAD_NONE, GNODE_PAYLOAD_INDETERMINATE} \<or>
      payload = GNODE_PAYLOAD_MULTI \<and> pred_option g_node_destroy a \<and> pred_option g_node_destroy b \<and>
        pred_option g_node_destroy c \<and> pred_option g_node_destroy d \<or>
      payload = GNODE_PAYLOAD_PAIR \<and> pred_option g_node_destroy a \<and> pred_option g_node_destroy b \<or>
      payload = GNODE_PAYLOAD_CHILD \<and> pred_option g_node_destroy a)"
| "g_data_destroy payload (D_Io_Here op here_end tok) =
     (payload \<in> {GNODE_PAYLOAD_NONE, GNODE_PAYLOAD_INDETERMINATE, GNODE_PAYLOAD_IO_HERE})"

text \<open>The tokens of a tree, from left to right.\<close>

fun fringe :: "gnode \<Rightarrow> token list"
  and data_fringe :: "gnode_data \<Rightarrow> token list" where
  "fringe (Node _ _ d) = data_fringe d"
| "data_fringe D_Zero = []"
| "data_fringe (D_List xs) = concat (map fringe xs)"
| "data_fringe (D_Token t) = [t]"
| "data_fringe (D_String s) = []"
| "data_fringe (D_Child x) = fringe x"
| "data_fringe (D_Pair a b) = concat (map (\<lambda>x. case x of None \<Rightarrow> [] | Some y \<Rightarrow> fringe y) [a, b])"
| "data_fringe (D_Multi a b c d) =
     concat (map (\<lambda>x. case x of None \<Rightarrow> [] | Some y \<Rightarrow> fringe y) [a, b, c, d])"
| "data_fringe (D_Io_Here op here_end tok) = (case tok of None \<Rightarrow> [] | Some t \<Rightarrow> [t])"

lemma fringe_g_node [simp]: "fringe (g_node ty d) = data_fringe d"
  by (simp add: g_node_def)

lemma node_type_g_node [simp]: "node_type (g_node ty d) = ty"
  by (simp add: g_node_def)

end
