(* ===== verification/Parser.thy ===== *)
theory Parser
  imports
    Gnode
begin

section \<open>The parser (parser.c)\<close>

text \<open>
  Recursive descent over the tokens of a command.  A \<open>gparse_\<close> function gives \<open>Inr\<close> of a node,
  the status \<open>PARSE_OK\<close>, or \<open>Inl\<close> of another status, with the parser after it: the position is
  not taken back on failure unless the code does so, and words that were promoted to reserved
  words stay promoted.  Tokens are the lexer's, so a word has parts and literal parts have text.

  Every cycle of calls goes through \<open>gparse_compound_list\<close>, so each function between takes it as
  its argument \<open>cl\<close>, with a bound \<open>n\<close> on the rounds of its own loop.  For these functions the
  result \<open>None\<close> is an exhausted bound and \<open>Some None\<close> a violated contract.
\<close>

datatype parse_status = PARSE_ERROR | PARSE_INCOMPLETE | PARSE_EMPTY

record parser_t =
  pr_tokens :: "token list"
  pr_position :: nat
  pr_error_msg :: string
  pr_error_line :: int
  pr_error_column :: int

type_synonym parse_out = "(parse_status + gnode) \<times> parser_t"
type_synonym parse_result = "parse_out option option"

subsection \<open>Access to the tokens\<close>

definition parser_create_with_tokens_move :: "token list \<Rightarrow> parser_t" where
  "parser_create_with_tokens_move tokens =
     \<lparr> pr_tokens = tokens, pr_position = 0, pr_error_msg = [], pr_error_line = 0, pr_error_column = 0 \<rparr>"

definition parser_current_token :: "parser_t \<Rightarrow> token option" where
  "parser_current_token p =
     (if pr_position p \<ge> length (pr_tokens p) then None else Some (pr_tokens p ! pr_position p))"

definition parser_current_token_type :: "parser_t \<Rightarrow> token_type" where
  "parser_current_token_type p = (case parser_current_token p of None \<Rightarrow> TOKEN_EOF | Some t \<Rightarrow> tok_type t)"

definition parser_at_end :: "parser_t \<Rightarrow> bool" where
  "parser_at_end p \<longleftrightarrow> parser_current_token p = None"

definition parser_peek_token :: "parser_t \<Rightarrow> nat \<Rightarrow> token option" where
  "parser_peek_token p offset =
     (let pos = pr_position p + offset in
      if pos \<ge> length (pr_tokens p) then None else Some (pr_tokens p ! pos))"

definition parser_previous_token :: "parser_t \<Rightarrow> token option" where
  "parser_previous_token p =
     (if pr_position p = 0 then None else Some (pr_tokens p ! (pr_position p - 1)))"

definition parser_rewind_to_position :: "parser_t \<Rightarrow> nat \<Rightarrow> parser_t" where
  "parser_rewind_to_position p position =
     (if position \<ge> length (pr_tokens p) then p else p\<lparr>pr_position := position\<rparr>)"

definition parser_advance :: "parser_t \<Rightarrow> parser_t" where
  "parser_advance p =
     (if pr_position p < length (pr_tokens p) then p\<lparr>pr_position := pr_position p + 1\<rparr> else p)"

definition parser_accept :: "parser_t \<Rightarrow> token_type \<Rightarrow> parser_t \<times> bool" where
  "parser_accept p ty = (if parser_current_token_type p = ty then (parser_advance p, True) else (p, False))"

definition tokens_left :: "parser_t \<Rightarrow> nat" where
  "tokens_left p = length (pr_tokens p) - pr_position p"

lemma advance_left: "parser_current_token_type p \<noteq> TOKEN_EOF \<Longrightarrow>
    tokens_left (parser_advance p) < tokens_left p"
  by (auto simp: parser_current_token_type_def parser_current_token_def tokens_left_def parser_advance_def
      split: if_splits)

function parser_skip_newlines :: "parser_t \<Rightarrow> parser_t" where
  "parser_skip_newlines p =
     (case parser_accept p TOKEN_NEWLINE of (p, True) \<Rightarrow> parser_skip_newlines p | (p, False) \<Rightarrow> p)"
  by pat_completeness auto
termination
  by (relation "measure tokens_left") (auto simp: parser_accept_def intro: advance_left split: if_splits)

declare parser_skip_newlines.simps [simp del]

subsection \<open>Promotion of words\<close>

definition parser_token_try_promote :: "string \<Rightarrow> token_type \<Rightarrow> parser_t \<Rightarrow> nat \<Rightarrow> parser_t \<times> bool" where
  \<comment> \<open>the shape of the functions below\<close>
  "parser_token_try_promote target ty p offset =
     (let index = pr_position p + offset in
      if index \<ge> length (pr_tokens p) then (p, False)
      else if tok_type (pr_tokens p ! index) = TOKEN_WORD
      then (let (t, promoted) = token_try_promote_to_word (pr_tokens p ! index) target ty
            in (p\<lparr>pr_tokens := (pr_tokens p)[index := t]\<rparr>, promoted))
      else (p, False))"

definition parser_token_try_promote_to_lbrace :: "parser_t \<Rightarrow> nat \<Rightarrow> parser_t \<times> bool" where
  "parser_token_try_promote_to_lbrace = parser_token_try_promote ''{'' TOKEN_LBRACE"

definition parser_token_try_promote_to_rbrace :: "parser_t \<Rightarrow> nat \<Rightarrow> parser_t \<times> bool" where
  "parser_token_try_promote_to_rbrace = parser_token_try_promote ''}'' TOKEN_RBRACE"

definition parser_token_try_promote_to_bang :: "parser_t \<Rightarrow> nat \<Rightarrow> parser_t \<times> bool" where
  "parser_token_try_promote_to_bang = parser_token_try_promote ''!'' TOKEN_BANG"

definition parser_token_try_promote_to_if :: "parser_t \<Rightarrow> nat \<Rightarrow> parser_t \<times> bool" where
  "parser_token_try_promote_to_if = parser_token_try_promote ''if'' TOKEN_IF"

definition parser_token_try_promote_to_while :: "parser_t \<Rightarrow> nat \<Rightarrow> parser_t \<times> bool" where
  "parser_token_try_promote_to_while = parser_token_try_promote ''while'' TOKEN_WHILE"

definition parser_token_try_promote_to_until :: "parser_t \<Rightarrow> nat \<Rightarrow> parser_t \<times> bool" where
  "parser_token_try_promote_to_until = parser_token_try_promote ''until'' TOKEN_UNTIL"

definition parser_token_try_promote_to_for :: "parser_t \<Rightarrow> nat \<Rightarrow> parser_t \<times> bool" where
  "parser_token_try_promote_to_for = parser_token_try_promote ''for'' TOKEN_FOR"

definition parser_token_try_promote_to_case :: "parser_t \<Rightarrow> nat \<Rightarrow> parser_t \<times> bool" where
  "parser_token_try_promote_to_case = parser_token_try_promote ''case'' TOKEN_CASE"

definition parser_token_try_promote_to_then :: "parser_t \<Rightarrow> nat \<Rightarrow> parser_t \<times> bool" where
  "parser_token_try_promote_to_then = parser_token_try_promote ''then'' TOKEN_THEN"

definition parser_token_try_promote_to_fi :: "parser_t \<Rightarrow> nat \<Rightarrow> parser_t \<times> bool" where
  "parser_token_try_promote_to_fi = parser_token_try_promote ''fi'' TOKEN_FI"

definition parser_token_try_promote_to_elif :: "parser_t \<Rightarrow> nat \<Rightarrow> parser_t \<times> bool" where
  "parser_token_try_promote_to_elif = parser_token_try_promote ''elif'' TOKEN_ELIF"

definition parser_token_try_promote_to_else :: "parser_t \<Rightarrow> nat \<Rightarrow> parser_t \<times> bool" where
  "parser_token_try_promote_to_else = parser_token_try_promote ''else'' TOKEN_ELSE"

definition parser_token_try_promote_to_do :: "parser_t \<Rightarrow> nat \<Rightarrow> parser_t \<times> bool" where
  "parser_token_try_promote_to_do = parser_token_try_promote ''do'' TOKEN_DO"

definition parser_token_try_promote_to_done :: "parser_t \<Rightarrow> nat \<Rightarrow> parser_t \<times> bool" where
  "parser_token_try_promote_to_done = parser_token_try_promote ''done'' TOKEN_DONE"

definition parser_token_try_promote_to_esac :: "parser_t \<Rightarrow> nat \<Rightarrow> parser_t \<times> bool" where
  "parser_token_try_promote_to_esac = parser_token_try_promote ''esac'' TOKEN_ESAC"

definition promote_to_in :: "parser_t \<Rightarrow> parser_t" where
  \<comment> \<open>the promotion of the current word where \<open>in\<close> may follow\<close>
  "promote_to_in p = fst (parser_token_try_promote ''in'' TOKEN_IN p 0)"

subsection \<open>Errors\<close>

definition PARSER_ERROR_BUFFER_SIZE :: nat where "PARSER_ERROR_BUFFER_SIZE = 512"

definition parser_set_error :: "string \<Rightarrow> parser_t \<Rightarrow> parser_t" where
  \<comment> \<open>the argument is the formatted message\<close>
  "parser_set_error msg p =
     (let p = p\<lparr>pr_error_msg := take (PARSER_ERROR_BUFFER_SIZE - 1) msg\<rparr> in
      case parser_current_token p of
        None \<Rightarrow> p
      | Some t \<Rightarrow> p\<lparr>pr_error_line := tok_first_line t, pr_error_column := tok_first_column t\<rparr>)"

definition parser_get_error :: "parser_t \<Rightarrow> string option" where
  "parser_get_error p = (if pr_error_msg p = [] then None else Some (pr_error_msg p))"

definition parser_clear_error :: "parser_t \<Rightarrow> parser_t" where
  "parser_clear_error p = p\<lparr>pr_error_msg := []\<rparr>"

definition parser_error_is_unexpected_eof :: "parser_t \<Rightarrow> parse_status option \<Rightarrow> bool" where
  \<comment> \<open>the status \<open>PARSE_OK\<close> is \<open>None\<close>\<close>
  "parser_error_is_unexpected_eof p status \<longleftrightarrow>
     status = Some PARSE_INCOMPLETE \<and> pr_position p \<ge> length (pr_tokens p)"

subsection \<open>Results\<close>

definition failed :: "parse_status \<Rightarrow> parser_t \<Rightarrow> parse_result" where
  "failed status p = Some (Some (Inl status, p))"

definition error :: "string \<Rightarrow> parser_t \<Rightarrow> parse_result" where
  "error msg p = failed PARSE_ERROR (parser_set_error msg p)"

definition parsed :: "gnode \<Rightarrow> parser_t \<Rightarrow> parse_result" where
  "parsed node p = Some (Some (Inr node, p))"

definition on_result :: "parse_result \<Rightarrow> (parse_status + gnode \<Rightarrow> parser_t \<Rightarrow> parse_result) \<Rightarrow> parse_result" where
  "on_result m f =
     (case m of None \<Rightarrow> None | Some None \<Rightarrow> Some None | Some (Some (r, p)) \<Rightarrow> f r p)"

definition on_ok :: "parse_result \<Rightarrow> (gnode \<Rightarrow> parser_t \<Rightarrow> parse_result) \<Rightarrow> parse_result" where
  \<comment> \<open>go on with the node, or return the status\<close>
  "on_ok m f = on_result m (\<lambda>r p. case r of Inl status \<Rightarrow> failed status p | Inr node \<Rightarrow> f node p)"

definition node_of :: "parse_status + gnode \<Rightarrow> gnode option" where
  \<comment> \<open>\<open>*out_node\<close>\<close>
  "node_of r = (case r of Inl _ \<Rightarrow> None | Inr node \<Rightarrow> Some node)"

definition take_token :: "gnode_type \<Rightarrow> parser_t \<Rightarrow> gnode \<times> parser_t" where
  \<comment> \<open>a node with a clone of the current token, whose type has been tested, and the next position\<close>
  "take_token ty p =
     (g_node ty (D_Token (token_clone (pr_tokens p ! pr_position p))), parser_advance p)"

definition multi :: "gnode_type \<Rightarrow> gnode option list \<Rightarrow> gnode" where
  \<comment> \<open>the members \<open>a\<close>, \<open>b\<close>, \<open>c\<close>, \<open>d\<close>, as far as they are set\<close>
  "multi ty xs =
     (let x = xs @ replicate 4 None in g_node ty (D_Multi (x ! 0) (x ! 1) (x ! 2) (x ! 3)))"

end
