(* ===== verification/Parser_Simple.thy ===== *)
theory Parser_Simple
  imports
    Parser
begin

section \<open>Simple commands, redirections and separators (parser.c)\<close>

text \<open>
  The functions of the parser that do not recurse through \<open>gparse_compound_list\<close>.  Their loops
  consume a token per round.
\<close>

subsection \<open>Separators\<close>

definition gparse_separator_op :: "parser_t \<Rightarrow> parse_out" where
  "gparse_separator_op p =
     (if parser_current_token_type p \<noteq> TOKEN_AMPER \<and> parser_current_token_type p \<noteq> TOKEN_SEMI
      then (Inl PARSE_ERROR, p)
      else let (node, p) = take_token G_SEPARATOR_OP p in (Inr node, p))"

function newline_tokens :: "gnode list \<Rightarrow> parser_t \<Rightarrow> gnode list \<times> parser_t" where
  "newline_tokens list p =
     (if parser_current_token_type p = TOKEN_NEWLINE
      then newline_tokens (g_list_append list (fst (take_token G_WORD_NODE p))) (parser_advance p)
      else (list, p))"
  by pat_completeness auto
termination by (relation "measure (tokens_left \<circ> snd)") (auto intro: advance_left)

declare newline_tokens.simps [simp del]

definition gparse_separator :: "parser_t \<Rightarrow> parse_out" where
  "gparse_separator p =
     (if parser_current_token_type p = TOKEN_AMPER \<or> parser_current_token_type p = TOKEN_SEMI
      then let (op, p) = take_token G_SEPARATOR_OP p
           in (Inr (g_node G_SEPARATOR (D_Child op)), parser_skip_newlines p)
      else if parser_current_token_type p = TOKEN_NEWLINE
      then let (list, p) = newline_tokens [] p
           in (Inr (g_node G_SEPARATOR (D_Child (g_node G_NEWLINE_LIST (D_List list)))), p)
      else (Inl PARSE_ERROR, p))"

subsection \<open>Redirections\<close>

definition gparse_filename :: "parser_t \<Rightarrow> parse_out" where
  "gparse_filename p =
     (if parser_current_token_type p \<noteq> TOKEN_WORD then (Inl PARSE_ERROR, p)
      else let (node, p) = take_token G_FILENAME p in (Inr node, p))"

definition is_file_operator :: "token_type \<Rightarrow> bool" where
  "is_file_operator t \<longleftrightarrow>
     t \<in> {TOKEN_LESS, TOKEN_LESSAND, TOKEN_GREATER, TOKEN_GREATAND, TOKEN_DGREAT, TOKEN_LESSGREAT, TOKEN_CLOBBER}"

definition gparse_io_file :: "parser_t \<Rightarrow> parse_out" where
  "gparse_io_file p =
     (if \<not> is_file_operator (parser_current_token_type p) then (Inl PARSE_ERROR, p)
      else let (op, p) = take_token G_WORD_NODE p in
        case gparse_filename p of
          (Inl status, p) \<Rightarrow> (Inl status, p)
        | (Inr fname, p) \<Rightarrow> (Inr (multi G_IO_FILE [Some op, Some fname]), p))"

definition word_text :: "token \<Rightarrow> string" where
  \<comment> \<open>\<open>token_get_all_text\<close> of a word\<close>
  "word_text t = (case token_get_all_text t of None \<Rightarrow> [] | Some s \<Rightarrow> s)"

definition gparse_io_here :: "parser_t \<Rightarrow> parse_out" where
  "gparse_io_here p =
     (let t = parser_current_token_type p in
      if t \<noteq> TOKEN_DLESS \<and> t \<noteq> TOKEN_DLESSDASH then (Inl PARSE_ERROR, p)
      else let p = parser_advance p in
        if parser_current_token_type p \<noteq> TOKEN_WORD then (Inl PARSE_ERROR, p)
        else (Inr (g_node G_IO_HERE
                (D_Io_Here t (word_text (token_clone (pr_tokens p ! pr_position p))) None)),
              parser_advance p))"

definition gparse_here_end :: "parser_t \<Rightarrow> parse_out" where
  "gparse_here_end p =
     (if parser_current_token_type p \<noteq> TOKEN_WORD then (Inl PARSE_ERROR, p)
      else (Inr (g_node G_HERE_END
              (D_String (word_text (token_clone (pr_tokens p ! pr_position p))))),
            parser_advance p))"

definition io_prefix :: "parser_t \<Rightarrow> gnode option \<times> gnode option \<times> parser_t" where
  \<comment> \<open>the optional number or location\<close>
  "io_prefix p =
     (if parser_current_token_type p = TOKEN_IO_NUMBER
      then let (x, p) = take_token G_IO_NUMBER_NODE p in (Some x, None, p)
      else if parser_current_token_type p = TOKEN_IO_LOCATION
      then let (x, p) = take_token G_IO_LOCATION_NODE p in (None, Some x, p)
      else (None, None, p))"

definition gparse_io_redirect :: "parser_t \<Rightarrow> parse_out" where
  "gparse_io_redirect p =
     (let (io_number, io_location, p) = io_prefix p in
      case gparse_io_file p of
        (Inr file, p) \<Rightarrow> (Inr (multi G_IO_REDIRECT [io_number, io_location, Some file]), p)
      | (Inl _, p) \<Rightarrow>
          (case gparse_io_here p of
             (Inr here, p) \<Rightarrow> (Inr (multi G_IO_REDIRECT [io_number, io_location, Some here]), p)
           | (Inl _, p) \<Rightarrow> (Inl PARSE_ERROR, p)))"

definition is_redirect_token :: "token_type \<Rightarrow> bool" where
  "is_redirect_token t \<longleftrightarrow>
     t \<in> {TOKEN_IO_NUMBER, TOKEN_IO_LOCATION, TOKEN_LESS, TOKEN_LESSAND, TOKEN_GREATER, TOKEN_GREATAND,
          TOKEN_DGREAT, TOKEN_LESSGREAT, TOKEN_CLOBBER, TOKEN_DLESS, TOKEN_DLESSDASH}"

text \<open>A redirection that is read has moved the position.\<close>

lemma left_advance_le [simp]: "tokens_left (parser_advance p) \<le> tokens_left p"
  by (auto simp: tokens_left_def parser_advance_def)

lemma left_io_file: "gparse_io_file p = (r, p1) \<Longrightarrow>
    tokens_left p1 \<le> tokens_left p \<and> (\<forall>x. r = Inr x \<longrightarrow> tokens_left p1 < tokens_left p)"
  using advance_left [of p] advance_left [of "parser_advance p"] left_advance_le [of p]
  by (auto simp: gparse_io_file_def gparse_filename_def take_token_def is_file_operator_def Let_def
      split: if_splits)

lemma left_io_here: "gparse_io_here p = (r, p1) \<Longrightarrow>
    tokens_left p1 \<le> tokens_left p \<and> (\<forall>x. r = Inr x \<longrightarrow> tokens_left p1 < tokens_left p)"
  using advance_left [of p] advance_left [of "parser_advance p"] left_advance_le [of p]
  by (auto simp: gparse_io_here_def Let_def split: if_splits)

lemma left_io_prefix: "io_prefix p = (a, b, p1) \<Longrightarrow> tokens_left p1 \<le> tokens_left p"
  by (auto simp: io_prefix_def take_token_def split: if_splits)

lemma left_io_redirect: "gparse_io_redirect p = (r, p1) \<Longrightarrow>
    tokens_left p1 \<le> tokens_left p \<and> (\<forall>x. r = Inr x \<longrightarrow> tokens_left p1 < tokens_left p)"
  by (fastforce simp: gparse_io_redirect_def split: prod.splits sum.splits
      dest!: left_io_file left_io_here left_io_prefix)

lemmas left_io_redirectD = left_io_redirect [OF sym]

function redirect_loop :: "gnode list \<Rightarrow> parser_t \<Rightarrow> gnode list \<times> parser_t" where
  "redirect_loop list p =
     (case gparse_io_redirect p of
        (Inr next, p) \<Rightarrow> redirect_loop (g_list_append list next) p
      | (Inl _, p) \<Rightarrow> (list, p))"
  by pat_completeness auto
termination by (relation "measure (tokens_left \<circ> snd)") (auto dest: left_io_redirectD)

declare redirect_loop.simps [simp del]

subsection \<open>Here-documents\<close>

definition take_heredoc :: "string \<Rightarrow> parser_t \<Rightarrow> parse_status option \<times> token option \<times> parser_t" where
  \<comment> \<open>skip newlines and take the token with the content; \<open>None\<close> is \<open>PARSE_OK\<close>\<close>
  "take_heredoc here_end p =
     (let p = parser_skip_newlines p in
      if parser_current_token_type p \<noteq> TOKEN_END_OF_HEREDOC
      then (Some PARSE_ERROR, None,
            parser_set_error (''Expected heredoc content for delimiter '' @ [SQUOTE] @ cstr_of here_end @ [SQUOTE]) p)
      else (None, Some (token_clone (pr_tokens p ! pr_position p)), parser_advance p))"

definition match_here :: "gnode \<Rightarrow> parser_t \<Rightarrow> (parse_status + gnode) \<times> parser_t" where
  \<comment> \<open>fill in the content of a here-document that has none\<close>
  "match_here node p =
     (case node of Node ty k d \<Rightarrow>
        (case d of D_Io_Here op here_end None \<Rightarrow>
           if ty \<noteq> G_IO_HERE then (Inr node, p)
           else (case take_heredoc here_end p of
                   (Some status, _, p) \<Rightarrow> (Inl status, p)
                 | (None, tok, p) \<Rightarrow> (Inr (Node ty k (D_Io_Here op here_end tok)), p))
         | _ \<Rightarrow> (Inr node, p)))"

definition match_redirect :: "gnode \<Rightarrow> parser_t \<Rightarrow> (parse_status + gnode) \<times> parser_t" where
  \<comment> \<open>the same for the target of a redirection\<close>
  "match_redirect node p =
     (case node of Node ty k d \<Rightarrow>
        (case d of D_Multi a b (Some target) e \<Rightarrow>
           if ty \<noteq> G_IO_REDIRECT then (Inr node, p)
           else (case match_here target p of
                   (Inl status, p) \<Rightarrow> (Inl status, p)
                 | (Inr t, p) \<Rightarrow> (Inr (Node ty k (D_Multi a b (Some t) e)), p))
         | _ \<Rightarrow> (Inr node, p)))"

fun match_list :: "gnode list \<Rightarrow> parser_t \<Rightarrow> (parse_status + gnode list) \<times> parser_t" where
  "match_list [] p = (Inr [], p)"
| "match_list (x # xs) p =
     (case match_redirect x p of
        (Inl status, p) \<Rightarrow> (Inl status, p)
      | (Inr y, p) \<Rightarrow>
          (case match_list xs p of (Inl status, p) \<Rightarrow> (Inl status, p) | (Inr ys, p) \<Rightarrow> (Inr (y # ys), p)))"

definition match_item :: "gnode \<Rightarrow> parser_t \<Rightarrow> (parse_status + gnode) \<times> parser_t" where
  \<comment> \<open>one round of the loop over the items of a simple command\<close>
  "match_item node p =
     (case node of Node ty k d \<Rightarrow>
        (case d of
           D_Child x \<Rightarrow>
             if ty \<noteq> G_CMD_PREFIX then (Inr node, p)
             else (case match_redirect x p of
                     (Inl status, p) \<Rightarrow> (Inl status, p)
                   | (Inr y, p) \<Rightarrow> (Inr (Node ty k (D_Child y)), p))
         | D_List xs \<Rightarrow>
             if ty \<noteq> G_CMD_SUFFIX then (Inr node, p)
             else (case match_list xs p of
                     (Inl status, p) \<Rightarrow> (Inl status, p)
                   | (Inr ys, p) \<Rightarrow> (Inr (Node ty k (D_List ys)), p))
         | _ \<Rightarrow> (Inr node, p)))"

fun match_items :: "gnode list \<Rightarrow> parser_t \<Rightarrow> (parse_status + gnode list) \<times> parser_t" where
  "match_items [] p = (Inr [], p)"
| "match_items (x # xs) p =
     (case match_item x p of
        (Inl status, p) \<Rightarrow> (Inl status, p)
      | (Inr y, p) \<Rightarrow>
          (case match_items xs p of (Inl status, p) \<Rightarrow> (Inl status, p) | (Inr ys, p) \<Rightarrow> (Inr (y # ys), p)))"

definition match_heredocs_in_simple_command :: "parser_t \<Rightarrow> gnode list \<Rightarrow> (parse_status + gnode list) \<times> parser_t" where
  \<comment> \<open>on the list of a \<open>G_SIMPLE_COMMAND\<close>\<close>
  "match_heredocs_in_simple_command p items = match_items items p"

definition gparse_redirect_list :: "parser_t \<Rightarrow> parse_out" where
  "gparse_redirect_list p =
     (case gparse_io_redirect p of
        (Inl status, p) \<Rightarrow> (Inl status, p)
      | (Inr redir, p) \<Rightarrow>
          (let (list, p) = redirect_loop [redir] p in
           case match_list list p of
             (Inl status, p) \<Rightarrow> (Inl status, p)
           | (Inr list, p) \<Rightarrow> (Inr (g_node G_REDIRECT_LIST (D_List list)), p)))"

subsection \<open>Simple commands\<close>

definition is_terminating_reserved_word :: "token \<Rightarrow> bool" where
  "is_terminating_reserved_word t \<longleftrightarrow> tok_type t = TOKEN_WORD \<and>
     (case single_unquoted_literal t of None \<Rightarrow> False
      | Some word \<Rightarrow> cstr_of word \<in> {''then'', ''fi'', ''do'', ''done'', ''else'', ''elif'', ''esac''})"

definition at_command_word :: "parser_t \<Rightarrow> bool" where
  "at_command_word p \<longleftrightarrow> parser_current_token_type p = TOKEN_WORD \<and>
     \<not> is_terminating_reserved_word (pr_tokens p ! pr_position p)"

function prefix_loop :: "gnode list \<Rightarrow> parser_t \<Rightarrow> gnode list \<times> parser_t" where
  "prefix_loop list p =
     (if is_redirect_token (parser_current_token_type p)
      then (case gparse_io_redirect p of
              (Inl _, p) \<Rightarrow> (list, p)
            | (Inr redir, p) \<Rightarrow> prefix_loop (g_list_append list (g_node G_CMD_PREFIX (D_Child redir))) p)
      else if parser_current_token_type p = TOKEN_ASSIGNMENT_WORD
      then prefix_loop (g_list_append list (g_node G_CMD_PREFIX (D_Child (fst (take_token G_ASSIGNMENT_WORD p)))))
             (parser_advance p)
      else (list, p))"
  by pat_completeness auto
termination
  by (relation "measure (tokens_left \<circ> snd)") (auto dest: left_io_redirectD intro: advance_left)

function suffix_loop :: "gnode list \<Rightarrow> parser_t \<Rightarrow> gnode list \<times> parser_t" where
  "suffix_loop list p =
     (if is_redirect_token (parser_current_token_type p)
      then (case gparse_io_redirect p of
              (Inl _, p) \<Rightarrow> (list, p)
            | (Inr redir, p) \<Rightarrow> suffix_loop (g_list_append list redir) p)
      else if at_command_word p
      then suffix_loop (g_list_append list (fst (take_token G_CMD_WORD p))) (parser_advance p)
      else (list, p))"
  by pat_completeness auto
termination
  by (relation "measure (tokens_left \<circ> snd)") (auto dest: left_io_redirectD intro: advance_left simp: at_command_word_def)

declare prefix_loop.simps [simp del] suffix_loop.simps [simp del]

definition gparse_simple_command :: "parser_t \<Rightarrow> parse_out" where
  "gparse_simple_command p =
     (let (list, p) = prefix_loop [] p;
          has_cmd_prefix = (list \<noteq> []);
          has_cmd_name = at_command_word p;
          (list, p) = (if has_cmd_name
                       then let (name, p) = take_token G_CMD_NAME p in (g_list_append list name, p)
                       else (list, p));
          (suffix, p) = suffix_loop [] p;
          list = (if suffix \<noteq> [] then g_list_append list (g_node G_CMD_SUFFIX (D_List suffix)) else list)
      in if \<not> has_cmd_prefix \<and> \<not> has_cmd_name
         then (Inl (if parser_current_token_type p = TOKEN_EOF then PARSE_INCOMPLETE else PARSE_ERROR), p)
         else case match_heredocs_in_simple_command p list of
                (Inl status, p) \<Rightarrow> (Inl status, p)
              | (Inr list, p) \<Rightarrow> (Inr (g_node G_SIMPLE_COMMAND (D_List list)), p))"

subsection \<open>Lists of words\<close>

function wordlist_loop :: "gnode list \<Rightarrow> parser_t \<Rightarrow> gnode list \<times> parser_t" where
  "wordlist_loop list p =
     (if parser_current_token_type p = TOKEN_WORD
      then wordlist_loop (g_list_append list (fst (take_token G_WORD_NODE p))) (parser_advance p)
      else (list, p))"
  by pat_completeness auto
termination by (relation "measure (tokens_left \<circ> snd)") (auto intro: advance_left)

declare wordlist_loop.simps [simp del]

definition gparse_wordlist :: "parser_t \<Rightarrow> parse_out" where
  "gparse_wordlist p =
     (if parser_current_token_type p \<noteq> TOKEN_WORD
      then (Inl PARSE_ERROR, parser_set_error ''Expected word in wordlist'' p)
      else let (list, p) = wordlist_loop [] p in (Inr (g_node G_WORDLIST (D_List list)), p))"

definition gparse_in_clause :: "parser_t \<Rightarrow> parse_out" where
  "gparse_in_clause p =
     (let p = promote_to_in (parser_skip_newlines p) in
      if parser_current_token_type p \<noteq> TOKEN_IN
      then (Inl PARSE_ERROR, parser_set_error (''Expected '' @ [SQUOTE] @ ''in'' @ [SQUOTE] @ '' keyword'') p)
      else let node = Node G_IN_NODE GNODE_PAYLOAD_TOKEN (D_Token (token_clone (pr_tokens p ! pr_position p)));
               p = parser_advance p
        in case gparse_wordlist p of
             (Inr words, p) \<Rightarrow>
               (Inr (Node G_IN_NODE GNODE_PAYLOAD_MULTI (D_Multi (Some node) (Some words) None None)), p)
           | (Inl _, p) \<Rightarrow> (Inr node, p))"

function pattern_loop :: "gnode list \<Rightarrow> parser_t \<Rightarrow> (parse_status + gnode list) \<times> parser_t" where
  "pattern_loop list p =
     (if parser_current_token_type p = TOKEN_PIPE
      then let list = g_list_append list (fst (take_token G_WORD_NODE p)); p = parser_advance p in
        if parser_current_token_type p \<noteq> TOKEN_WORD
        then (Inl PARSE_ERROR, parser_set_error (''Expected word after '' @ [SQUOTE] @ ''|'' @ [SQUOTE] @ '' in pattern'') p)
        else pattern_loop (g_list_append list (fst (take_token G_WORD_NODE p))) (parser_advance p)
      else (Inr list, p))"
  by pat_completeness auto
termination
  by (relation "measure (tokens_left \<circ> snd)")
    (auto simp: Let_def intro!: order_le_less_trans [OF left_advance_le advance_left])

declare pattern_loop.simps [simp del]

definition gparse_pattern_list :: "parser_t \<Rightarrow> parse_out" where
  "gparse_pattern_list p =
     (if parser_current_token_type p \<noteq> TOKEN_WORD then (Inl PARSE_ERROR, p)
      else let (w, p) = take_token G_WORD_NODE p in
        case pattern_loop [w] p of
          (Inl status, p) \<Rightarrow> (Inl status, p)
        | (Inr list, p) \<Rightarrow> (Inr (g_node G_PATTERN_LIST (D_List list)), p))"

end
