(* ===== verification/Parser_Grammar.thy ===== *)
theory Parser_Grammar
  imports
    Parser_Simple
begin

section \<open>The grammar of commands (parser.c)\<close>

text \<open>
  The functions of the parser in the order of their dependencies, with the parser of compound
  lists as the argument \<open>cl\<close>.  \<open>gparse_compound_list\<close> ties the knot by recursion on the bound,
  and \<open>parser_parse_program\<close> chooses a bound from the number of tokens.
\<close>

subsection \<open>Loops and groups\<close>

definition closing_keyword :: "(parser_t \<Rightarrow> nat \<Rightarrow> parser_t \<times> bool) \<Rightarrow> parser_t \<Rightarrow> parser_t" where
  \<comment> \<open>try to promote the current word, whatever comes of it\<close>
  "closing_keyword promote p = fst (promote p 0)"

definition quoted_name :: "string \<Rightarrow> string" where
  "quoted_name s = [SQUOTE] @ s @ [SQUOTE]"

definition gparse_do_group :: "(parser_t \<Rightarrow> parse_result) \<Rightarrow> parser_t \<Rightarrow> parse_result" where
  "gparse_do_group cl p =
     (let p = closing_keyword parser_token_try_promote_to_do p in
      if parser_current_token_type p \<noteq> TOKEN_DO
      then error (''Expected '' @ quoted_name ''do'' @ '' keyword'') p
      else let (do_tok, p) = take_token G_WORD_NODE p in
        on_ok (cl p) (\<lambda>list p.
          let p = closing_keyword parser_token_try_promote_to_done p in
          if parser_current_token_type p \<noteq> TOKEN_DONE
          then if parser_current_token_type p = TOKEN_EOF then failed PARSE_INCOMPLETE p
               else error (''Expected '' @ quoted_name ''done'' @ '' to close do group'') p
          else let (done_tok, p) = take_token G_WORD_NODE p in
            parsed (multi G_DO_GROUP [Some do_tok, Some list, Some done_tok]) p))"

definition skip_sequential_sep :: "parser_t \<Rightarrow> parser_t" where
  "skip_sequential_sep p =
     (if parser_current_token_type p = TOKEN_SEMI then parser_skip_newlines (parser_advance p)
      else if parser_current_token_type p = TOKEN_NEWLINE then parser_skip_newlines p else p)"

definition gparse_for_clause :: "(parser_t \<Rightarrow> parse_result) \<Rightarrow> parser_t \<Rightarrow> parse_result" where
  "gparse_for_clause cl p =
     (if parser_current_token_type p \<noteq> TOKEN_FOR then failed PARSE_ERROR p
      else let (for_tok, p) = take_token G_WORD_NODE p in
        if parser_current_token_type p \<noteq> TOKEN_WORD
        then error (''Expected name after '' @ quoted_name ''for'') p
        else let (name, p) = take_token G_NAME_NODE p;
                 (in_clause, p) = gparse_in_clause p
          in if parser_current_token_type p \<noteq> TOKEN_SEMI \<and> parser_current_token_type p \<noteq> TOKEN_NEWLINE
                \<and> node_of in_clause = None
             then error (''Expected '' @ quoted_name '';'' @ '' or newline in for clause'') p
             else on_ok (gparse_do_group cl (skip_sequential_sep p)) (\<lambda>do_grp p.
               parsed (multi G_FOR_CLAUSE [Some for_tok, Some name, node_of in_clause, Some do_grp]) p))"

definition gparse_while_clause :: "(parser_t \<Rightarrow> parse_result) \<Rightarrow> parser_t \<Rightarrow> parse_result" where
  "gparse_while_clause cl p =
     (if parser_current_token_type p \<noteq> TOKEN_WHILE
      then error (''Expected '' @ quoted_name ''while'' @ '' keyword'') p
      else let (while_tok, p) = take_token G_WORD_NODE p in
        on_ok (cl p) (\<lambda>cond p.
        on_ok (gparse_do_group cl p) (\<lambda>do_grp p.
          parsed (multi G_WHILE_CLAUSE [Some while_tok, Some cond, Some do_grp]) p)))"

definition gparse_until_clause :: "(parser_t \<Rightarrow> parse_result) \<Rightarrow> parser_t \<Rightarrow> parse_result" where
  "gparse_until_clause cl p =
     (if parser_current_token_type p \<noteq> TOKEN_UNTIL
      then error (''Expected '' @ quoted_name ''until'' @ '' keyword'') p
      else let (until_tok, p) = take_token G_WORD_NODE p in
        on_ok (cl p) (\<lambda>cond p.
        on_ok (gparse_do_group cl p) (\<lambda>do_grp p.
          parsed (multi G_UNTIL_CLAUSE [Some until_tok, Some cond, Some do_grp]) p)))"

definition gparse_subshell :: "(parser_t \<Rightarrow> parse_result) \<Rightarrow> parser_t \<Rightarrow> parse_result" where
  "gparse_subshell cl p =
     (if parser_current_token_type p \<noteq> TOKEN_LPAREN then failed PARSE_ERROR p
      else let (lparen, p) = take_token G_WORD_NODE p in
        on_ok (cl p) (\<lambda>list p.
          if parser_current_token_type p \<noteq> TOKEN_RPAREN
          then error (''Expected '' @ quoted_name '')'' @ '' to close subshell'') p
          else let (rparen, p) = take_token G_WORD_NODE p in
            parsed (multi G_SUBSHELL [Some lparen, Some list, Some rparen]) p))"

fun promote_rbrace :: "nat \<Rightarrow> nat \<Rightarrow> parser_t \<Rightarrow> parser_t option" where
  \<comment> \<open>at most \<open>n\<close> rounds of the loop that looks for the next closing brace, from \<open>offset\<close>;
     \<open>None\<close> is the return of \<open>PARSE_INCOMPLETE\<close>, before any promotion\<close>
  "promote_rbrace 0 offset p = None"
| "promote_rbrace (Suc n) offset p =
     (case parser_peek_token p offset of
        None \<Rightarrow> None
      | Some t \<Rightarrow>
          if tok_type t = TOKEN_EOF then None
          else let (q, promoted) = parser_token_try_promote_to_rbrace p offset in
            if tok_type t = TOKEN_WORD \<and> promoted then Some q
            else if tok_type t = TOKEN_RBRACE then Some p
            else promote_rbrace n (offset + 1) p)"

definition gparse_brace_group :: "(parser_t \<Rightarrow> parse_result) \<Rightarrow> parser_t \<Rightarrow> parse_result" where
  "gparse_brace_group cl p =
     (if parser_current_token_type p \<noteq> TOKEN_LBRACE
      then error (''Expected '' @ quoted_name ''{'' @ '' to start brace group'') p
      else case promote_rbrace (tokens_left p) 1 p of
        None \<Rightarrow> failed PARSE_INCOMPLETE p
      | Some p \<Rightarrow>
          let (lbrace, p) = take_token G_WORD_NODE p in
          on_result (cl p) (\<lambda>r p.
            if parser_current_token_type p = TOKEN_RBRACE
            then let (rbrace, p) = take_token G_WORD_NODE p in
              parsed (multi G_BRACE_GROUP [Some lbrace, node_of r, Some rbrace]) p
            else case r of
              Inl status \<Rightarrow> failed status p
            | Inr _ \<Rightarrow>
                if parser_current_token_type p = TOKEN_EOF then failed PARSE_INCOMPLETE p
                else error (''Expected '' @ quoted_name ''}'' @ '' to close brace group'') p))"

subsection \<open>Conditionals\<close>

fun gparse_else_part :: "nat \<Rightarrow> (parser_t \<Rightarrow> parse_result) \<Rightarrow> parser_t \<Rightarrow> parse_result" where
  "gparse_else_part 0 cl p = None"
| "gparse_else_part (Suc n) cl p =
     (let (p1, is_elif) = (if parser_current_token_type p = TOKEN_WORD
                           then parser_token_try_promote_to_elif p 0 else (p, False));
          p = (if parser_current_token_type p = TOKEN_WORD \<and> \<not> is_elif
               then closing_keyword parser_token_try_promote_to_else p1 else p1)
      in if parser_current_token_type p = TOKEN_ELIF
         then on_ok (cl (parser_advance p)) (\<lambda>cond p.
           let p = closing_keyword parser_token_try_promote_to_then p in
           if parser_current_token_type p \<noteq> TOKEN_THEN
           then error (''Expected '' @ quoted_name ''then'' @ '' after elif condition'') p
           else on_ok (cl (parser_advance p)) (\<lambda>then_body p.
             on_result (gparse_else_part n cl p) (\<lambda>else_part p.
               parsed (multi G_ELSE_PART [Some cond, Some then_body, node_of else_part]) p)))
         else if parser_current_token_type p = TOKEN_ELSE
         then on_ok (cl (parser_advance p)) (\<lambda>body p. parsed (multi G_ELSE_PART [Some body]) p)
         else failed PARSE_ERROR p)"

definition gparse_if_clause :: "nat \<Rightarrow> (parser_t \<Rightarrow> parse_result) \<Rightarrow> parser_t \<Rightarrow> parse_result" where
  "gparse_if_clause n cl p =
     (if parser_current_token_type p \<noteq> TOKEN_IF then failed PARSE_ERROR p
      else let (if_tok, p) = take_token G_WORD_NODE p in
        on_ok (cl p) (\<lambda>cond p.
          let p = closing_keyword parser_token_try_promote_to_then p in
          if parser_current_token_type p \<noteq> TOKEN_THEN
          then if parser_current_token_type p = TOKEN_EOF then failed PARSE_INCOMPLETE p
               else error (''Expected '' @ quoted_name ''then'' @ '' after if condition'') p
          else let (then_tok, p) = take_token G_WORD_NODE p in
            on_ok (cl p) (\<lambda>then_body p.
            on_result (gparse_else_part n cl p) (\<lambda>else_part p.
              let p = closing_keyword parser_token_try_promote_to_fi p in
              if parser_current_token_type p \<noteq> TOKEN_FI
              then if parser_current_token_type p = TOKEN_EOF then failed PARSE_INCOMPLETE p
                   else error (''Expected '' @ quoted_name ''fi'' @ '' to close if statement'') p
              else let (fi_tok, p) = take_token G_WORD_NODE p;
                       node = multi G_IF_CLAUSE [Some if_tok, Some cond, Some then_tok, Some then_body]
                in parsed (multi G_IF_CLAUSE [Some node, node_of else_part, Some fi_tok]) p))))"

subsection \<open>Case\<close>

definition take_lparen :: "parser_t \<Rightarrow> gnode option \<times> parser_t" where
  "take_lparen p =
     (if parser_current_token_type p = TOKEN_LPAREN
      then let (x, p) = take_token G_WORD_NODE p in (Some x, p) else (None, p))"

definition case_patterns ::
    "parser_t \<Rightarrow> (gnode option \<Rightarrow> gnode \<Rightarrow> gnode \<Rightarrow> parser_t \<Rightarrow> parse_result) \<Rightarrow> parse_result" where
  \<comment> \<open>what the two kinds of items begin with\<close>
  "case_patterns p f =
     (let (lparen, p) = take_lparen p in
      case gparse_pattern_list p of
        (Inl status, p) \<Rightarrow> failed status p
      | (Inr patterns, p) \<Rightarrow>
          if parser_current_token_type p \<noteq> TOKEN_RPAREN
          then error (''Expected '' @ quoted_name '')'' @ '' after pattern list'') p
          else let (rparen, p) = take_token G_WORD_NODE p in f lparen patterns rparen p)"

definition gparse_case_item_ns :: "(parser_t \<Rightarrow> parse_result) \<Rightarrow> parser_t \<Rightarrow> parse_result" where
  "gparse_case_item_ns cl p =
     case_patterns p (\<lambda>lparen patterns rparen p.
       on_result (cl p) (\<lambda>list p.
         parsed (multi G_CASE_ITEM_NS [lparen, Some patterns, Some rparen, node_of list])
           (parser_skip_newlines p)))"

definition gparse_case_item :: "(parser_t \<Rightarrow> parse_result) \<Rightarrow> parser_t \<Rightarrow> parse_result" where
  "gparse_case_item cl p =
     case_patterns p (\<lambda>lparen patterns rparen p.
       on_result (cl p) (\<lambda>list p.
         let p = (if node_of list = None then parser_skip_newlines p else p) in
         if parser_current_token_type p \<noteq> TOKEN_DSEMI
         then error (''Expected '' @ quoted_name '';;'' @ '' after case item'') p
         else let (dsemi, p) = take_token G_WORD_NODE p;
                  node = multi G_CASE_ITEM [lparen, Some patterns, Some rparen, node_of list]
           in parsed (multi G_CASE_ITEM [Some node, Some dsemi]) (parser_skip_newlines p)))"

definition at_esac :: "parser_t \<Rightarrow> bool" where
  "at_esac p \<longleftrightarrow> parser_current_token_type p = TOKEN_ESAC \<or>
     parser_current_token_type p = TOKEN_WORD \<and>
     map_option cstr_of (single_unquoted_literal (pr_tokens p ! pr_position p)) = Some ''esac''"

fun case_list_loop :: "nat \<Rightarrow> (parser_t \<Rightarrow> parse_result) \<Rightarrow> gnode list \<Rightarrow> parser_t \<Rightarrow> parse_result" where
  "case_list_loop 0 cl list p = None"
| "case_list_loop (Suc n) cl list p =
     (if at_esac p then parsed (g_node G_CASE_LIST (D_List list)) p
      else on_result (gparse_case_item cl p) (\<lambda>r p.
        case r of Inl _ \<Rightarrow> parsed (g_node G_CASE_LIST (D_List list)) p
        | Inr next \<Rightarrow> case_list_loop n cl (g_list_append list next) p))"

definition gparse_case_list :: "nat \<Rightarrow> (parser_t \<Rightarrow> parse_result) \<Rightarrow> parser_t \<Rightarrow> parse_result" where
  "gparse_case_list n cl p = on_ok (gparse_case_item cl p) (\<lambda>item p. case_list_loop n cl [item] p)"

definition gparse_case_list_ns :: "nat \<Rightarrow> (parser_t \<Rightarrow> parse_result) \<Rightarrow> parser_t \<Rightarrow> parse_result" where
  "gparse_case_list_ns n cl p =
     on_result (gparse_case_list n cl p) (\<lambda>r p.
       let list = (case r of Inl _ \<Rightarrow> [] | Inr l \<Rightarrow> [l]) in
       on_ok (gparse_case_item_ns cl p) (\<lambda>item p.
         parsed (g_node G_CASE_LIST_NS (D_List (g_list_append list item))) p))"

definition gparse_case_clause :: "nat \<Rightarrow> (parser_t \<Rightarrow> parse_result) \<Rightarrow> parser_t \<Rightarrow> parse_result" where
  "gparse_case_clause n cl p =
     (if parser_current_token_type p \<noteq> TOKEN_CASE then failed PARSE_ERROR p
      else let (case_tok, p) = take_token G_WORD_NODE p in
        if parser_current_token_type p \<noteq> TOKEN_WORD
        then error (''Expected word after '' @ quoted_name ''case'') p
        else let (wrd, p) = take_token G_WORD_NODE p;
                 p = promote_to_in (parser_skip_newlines p)
          in if parser_current_token_type p \<noteq> TOKEN_IN
             then error (''Expected '' @ quoted_name ''in'' @ '' in case statement'') p
             else let (in_tok, p) = take_token G_WORD_NODE p in
               on_result (gparse_case_list n cl (parser_skip_newlines p)) (\<lambda>r p.
               on_result (case r of Inl _ \<Rightarrow> gparse_case_list_ns n cl p | Inr list \<Rightarrow> parsed list p) (\<lambda>r p.
                 let p = closing_keyword parser_token_try_promote_to_esac p in
                 if parser_current_token_type p \<noteq> TOKEN_ESAC
                 then error (''Expected '' @ quoted_name ''esac'' @ '' to close case statement'') p
                 else let (esac_tok, p) = take_token G_WORD_NODE p;
                          node = multi G_CASE_CLAUSE [Some case_tok, Some wrd, Some in_tok, Some esac_tok]
                   in case r of
                        Inr list \<Rightarrow> parsed (multi G_CASE_CLAUSE [Some node, Some list]) p
                      | Inl _ \<Rightarrow> parsed node p)))"

subsection \<open>Commands\<close>

definition promote_compound :: "parser_t \<Rightarrow> parser_t" where
  \<comment> \<open>the first reserved word that the current word spells\<close>
  "promote_compound p =
     (let (p1, b) = parser_token_try_promote_to_lbrace p 0 in if b then p1 else
      let (p1, b) = parser_token_try_promote_to_if p 0 in if b then p1 else
      let (p1, b) = parser_token_try_promote_to_while p 0 in if b then p1 else
      let (p1, b) = parser_token_try_promote_to_until p 0 in if b then p1 else
      let (p1, b) = parser_token_try_promote_to_for p 0 in if b then p1 else
      fst (parser_token_try_promote_to_case p 0))"

definition gparse_compound_command :: "nat \<Rightarrow> (parser_t \<Rightarrow> parse_result) \<Rightarrow> parser_t \<Rightarrow> parse_result" where
  "gparse_compound_command n cl p =
     (if parser_at_end p then Some None
      else let p = promote_compound p;
               t = parser_current_token_type p;
               wrap = (\<lambda>child p. parsed (g_node G_COMPOUND_COMMAND (D_Child child)) p)
        in if t = TOKEN_LBRACE then on_ok (gparse_brace_group cl p) wrap
           else if t = TOKEN_LPAREN then on_ok (gparse_subshell cl p) wrap
           else if t = TOKEN_FOR then on_ok (gparse_for_clause cl p) wrap
           else if t = TOKEN_CASE then on_ok (gparse_case_clause n cl p) wrap
           else if t = TOKEN_IF then on_ok (gparse_if_clause n cl p) wrap
           else if t = TOKEN_WHILE then on_ok (gparse_while_clause cl p) wrap
           else if t = TOKEN_UNTIL then on_ok (gparse_until_clause cl p) wrap
           else error ''Expected compound command (if/while/for/case/{/())'' p)"

definition reserved_name :: "parser_t \<Rightarrow> string option" where
  \<comment> \<open>the reserved word that the current word spells\<close>
  "reserved_name p =
     (case single_unquoted_literal (pr_tokens p ! pr_position p) of
        None \<Rightarrow> None
      | Some w \<Rightarrow> if token_is_reserved_word (cstr_of w) then Some (cstr_of w) else None)"

definition function_error :: string where
  "function_error = ''Expected compound command (e.g., { ... }) after function declaration''"

definition function_body :: "nat \<Rightarrow> (parser_t \<Rightarrow> parse_result) \<Rightarrow> gnode list \<Rightarrow> parser_t \<Rightarrow> parse_result" where
  \<comment> \<open>from the function body on, with the nodes of name and parentheses\<close>
  "function_body n cl header p =
     (if parser_at_end p then failed PARSE_INCOMPLETE (parser_set_error function_error p)
      else on_result (gparse_compound_command n cl p) (\<lambda>r p.
        case r of
          Inl status \<Rightarrow>
            failed status (if status = PARSE_ERROR then parser_set_error function_error p else p)
        | Inr compound \<Rightarrow>
            (case gparse_redirect_list p of
               (Inr redirects, p) \<Rightarrow>
                 parsed (multi G_FUNCTION_DEFINITION
                   (map Some header @ [Some (multi G_FUNCTION_BODY [Some compound, Some redirects])])) p
             | (Inl _, p) \<Rightarrow> parsed (multi G_FUNCTION_DEFINITION (map Some header @ [Some compound])) p)))"

definition gparse_function_definition :: "nat \<Rightarrow> (parser_t \<Rightarrow> parse_result) \<Rightarrow> parser_t \<Rightarrow> parse_result" where
  "gparse_function_definition n cl p =
     (if parser_current_token_type p \<noteq> TOKEN_WORD then failed PARSE_ERROR p
      else case reserved_name p of
        Some w \<Rightarrow> error (''Cannot use reserved word '' @ quoted_name w @ '' as function name'') p
      | None \<Rightarrow>
          if map_option tok_type (parser_peek_token p 1) \<noteq> Some TOKEN_LPAREN then failed PARSE_ERROR p
          else let (fname, p) = take_token G_FNAME p;
                   (lparen, p) = take_token G_WORD_NODE p
            in if parser_current_token_type p \<noteq> TOKEN_RPAREN
               then error (''Expected '' @ quoted_name '')'' @ '' after '' @ quoted_name ''('' @ '' in function definition'') p
               else let (rparen, p) = take_token G_WORD_NODE p in
                 function_body n cl [fname, lparen, rparen] (parser_skip_newlines p))"

definition command_node :: "gnode \<Rightarrow> gnode" where
  "command_node x = Node G_COMMAND GNODE_PAYLOAD_CHILD (D_Child x)"

definition compound_with_redirects :: "gnode \<Rightarrow> parser_t \<Rightarrow> parse_result" where
  "compound_with_redirects compound p =
     (case gparse_redirect_list p of
        (Inr redirects, p) \<Rightarrow>
          parsed (command_node (Node G_COMMAND GNODE_PAYLOAD_MULTI
            (D_Multi (Some compound) (Some redirects) None None))) p
      | (Inl _, p) \<Rightarrow> parsed (command_node compound) p)"

definition gparse_command :: "nat \<Rightarrow> (parser_t \<Rightarrow> parse_result) \<Rightarrow> parser_t \<Rightarrow> parse_result" where
  "gparse_command n cl p =
     on_result (gparse_function_definition n cl p) (\<lambda>r p.
       case r of
         Inr func \<Rightarrow> parsed (command_node func) p
       | Inl status \<Rightarrow>
           if status = PARSE_INCOMPLETE then failed PARSE_INCOMPLETE p
           else on_result (gparse_compound_command n cl p) (\<lambda>r p.
             case r of
               Inr compound \<Rightarrow> compound_with_redirects compound p
             | Inl status \<Rightarrow>
                 if status = PARSE_INCOMPLETE then failed PARSE_INCOMPLETE p
                 else (case gparse_simple_command p of
                         (Inr simple, p) \<Rightarrow> parsed (command_node simple) p
                       | (Inl status, p) \<Rightarrow> failed status p)))"

subsection \<open>Pipelines and lists\<close>

fun pipe_loop :: "nat \<Rightarrow> (parser_t \<Rightarrow> parse_result) \<Rightarrow> gnode list \<Rightarrow> parser_t \<Rightarrow> parse_result" where
  "pipe_loop 0 cl list p = None"
| "pipe_loop (Suc n) cl list p =
     (if parser_current_token_type p = TOKEN_PIPE
      then let (pipe, p) = take_token G_WORD_NODE p in
        on_ok (gparse_command n cl (parser_skip_newlines p)) (\<lambda>next p.
          pipe_loop n cl (g_list_append (g_list_append list pipe) next) p)
      else parsed (g_node G_PIPE_SEQUENCE (D_List list)) p)"

definition gparse_pipe_sequence :: "nat \<Rightarrow> (parser_t \<Rightarrow> parse_result) \<Rightarrow> parser_t \<Rightarrow> parse_result" where
  "gparse_pipe_sequence n cl p = on_ok (gparse_command n cl p) (\<lambda>cmd p. pipe_loop n cl [cmd] p)"

definition gparse_pipeline :: "nat \<Rightarrow> (parser_t \<Rightarrow> parse_result) \<Rightarrow> parser_t \<Rightarrow> parse_result" where
  "gparse_pipeline n cl p =
     (let p = closing_keyword parser_token_try_promote_to_bang p;
          t = parser_current_token_type p
      in if t = TOKEN_EOF then failed PARSE_EMPTY p
         else let (list, p) = (if t = TOKEN_BANG
                               then let (bang, p) = take_token G_WORD_NODE p in ([bang], p) else ([], p))
           in on_ok (gparse_pipe_sequence n cl p) (\<lambda>seq p.
                parsed (g_node G_PIPELINE (D_List (g_list_append list seq))) p))"

fun and_or_loop :: "nat \<Rightarrow> (parser_t \<Rightarrow> parse_result) \<Rightarrow> gnode \<Rightarrow> parser_t \<Rightarrow> parse_result" where
  "and_or_loop 0 cl left p = None"
| "and_or_loop (Suc n) cl left p =
     (let start_pos = pr_position p; t = parser_current_token_type p in
      if t \<noteq> TOKEN_AND_IF \<and> t \<noteq> TOKEN_OR_IF then parsed left p
      else let (opr, p) = take_token G_AND_OR p in
        on_result (gparse_pipeline n cl (parser_skip_newlines p)) (\<lambda>r p.
          case r of
            Inl _ \<Rightarrow> parsed left (parser_rewind_to_position p start_pos)
          | Inr right \<Rightarrow> and_or_loop n cl (multi G_AND_OR [Some left, Some opr, Some right]) p))"

definition gparse_and_or :: "nat \<Rightarrow> (parser_t \<Rightarrow> parse_result) \<Rightarrow> parser_t \<Rightarrow> parse_result" where
  "gparse_and_or n cl p = on_ok (gparse_pipeline n cl p) (\<lambda>left p. and_or_loop n cl left p)"

fun term_loop :: "nat \<Rightarrow> (parser_t \<Rightarrow> parse_out) \<Rightarrow> gnode_type \<Rightarrow> (parser_t \<Rightarrow> parse_result) \<Rightarrow>
    gnode list \<Rightarrow> parser_t \<Rightarrow> parse_result" where
  \<comment> \<open>the loop of \<open>gparse_term\<close> and of \<open>gparse_list\<close>, which differ in the separator\<close>
  "term_loop 0 separator ty cl list p = None"
| "term_loop (Suc n) separator ty cl list p =
     (let position_cur = pr_position p in
      case separator p of
        (Inl _, p) \<Rightarrow> parsed (g_node ty (D_List list)) p
      | (Inr sep, p) \<Rightarrow>
          on_result (gparse_and_or n cl p) (\<lambda>r p.
            case r of
              Inl _ \<Rightarrow> parsed (g_node ty (D_List list)) (parser_rewind_to_position p position_cur)
            | Inr next \<Rightarrow> term_loop n separator ty cl (g_list_append (g_list_append list sep) next) p))"

definition gparse_term :: "nat \<Rightarrow> (parser_t \<Rightarrow> parse_result) \<Rightarrow> parser_t \<Rightarrow> parse_result" where
  "gparse_term n cl p =
     on_ok (gparse_and_or n cl p) (\<lambda>first p. term_loop n gparse_separator G_TERM cl [first] p)"

fun gparse_compound_list :: "nat \<Rightarrow> parser_t \<Rightarrow> parse_result" where
  "gparse_compound_list 0 p = None"
| "gparse_compound_list (Suc n) p =
     on_ok (gparse_term n (gparse_compound_list n) (parser_skip_newlines p)) (\<lambda>term p.
       case gparse_separator p of
         (Inr sep, p) \<Rightarrow> parsed (g_node G_COMPOUND_LIST (D_Pair (Some term) (Some sep))) p
       | (Inl _, p) \<Rightarrow> parsed (g_node G_COMPOUND_LIST (D_Pair (Some term) None)) p)"

subsection \<open>Programs\<close>

definition gparse_list :: "nat \<Rightarrow> parser_t \<Rightarrow> parse_result" where
  "gparse_list n p =
     on_ok (gparse_and_or n (gparse_compound_list n) p) (\<lambda>first p.
       term_loop n gparse_separator_op G_LIST (gparse_compound_list n) [first] p)"

definition gparse_complete_command :: "nat \<Rightarrow> parser_t \<Rightarrow> parse_result" where
  "gparse_complete_command n p =
     on_ok (gparse_list n p) (\<lambda>list p.
       case gparse_separator_op p of
         (sep, p) \<Rightarrow> parsed (multi G_COMPLETE_COMMAND [Some list, node_of sep]) p)"

fun complete_commands_loop :: "nat \<Rightarrow> nat \<Rightarrow> gnode list \<Rightarrow> parser_t \<Rightarrow> parse_result" where
  "complete_commands_loop 0 n list p = None"
| "complete_commands_loop (Suc m) n list p =
     (if parser_current_token_type p \<noteq> TOKEN_NEWLINE
      then parsed (g_node G_COMPLETE_COMMANDS (D_List list)) p
      else on_result (gparse_complete_command n (parser_skip_newlines p)) (\<lambda>r p.
        case r of
          Inr next \<Rightarrow> complete_commands_loop m n (g_list_append list next) p
        | Inl status \<Rightarrow>
            if status = PARSE_EMPTY then parsed (g_node G_COMPLETE_COMMANDS (D_List list)) p
            else failed status p))"

definition gparse_complete_commands :: "nat \<Rightarrow> parser_t \<Rightarrow> parse_result" where
  "gparse_complete_commands n p =
     (if parser_at_end p then failed PARSE_EMPTY p
      else on_ok (gparse_complete_command n p) (\<lambda>cmd p. complete_commands_loop n n [cmd] p))"

definition gparse_program :: "nat \<Rightarrow> parser_t \<Rightarrow> parse_result" where
  "gparse_program n p =
     on_result (gparse_complete_commands n (parser_skip_newlines p)) (\<lambda>r p.
       case r of
         Inr commands \<Rightarrow> parsed (g_node G_PROGRAM (D_Child commands)) (parser_skip_newlines p)
       | Inl status \<Rightarrow>
           if status = PARSE_EMPTY
           then parsed (Node G_PROGRAM GNODE_PAYLOAD_NONE D_Zero) (parser_skip_newlines p)
           else failed status p)"

definition parser_parse_program :: "parser_t \<Rightarrow> parse_result" where
  "parser_parse_program p =
     (let p = parser_clear_error (p\<lparr>pr_position := 0\<rparr>) in
      if pr_tokens p = [] then failed PARSE_EMPTY p
      else gparse_program (length (pr_tokens p) + 2) p)"

end
