(* ===== verification/Parser_Runs.thy ===== *)
theory Parser_Runs
  imports
    Parser_Grammar "HOL-Library.Multiset"
begin

section \<open>What a run of the parser does with its tokens\<close>

text \<open>
  \<open>ran p M q\<close>: between the states \<open>p\<close> and \<open>q\<close> the position has not moved back, words may have been
  promoted from the position of \<open>p\<close> on, and the tokens \<open>M\<close> are among clones of those in between.
\<close>

subsection \<open>Promoted tokens\<close>

definition promoted :: "token \<Rightarrow> token \<Rightarrow> bool" where
  "promoted a b \<longleftrightarrow> b = a \<or>
     tok_type a = TOKEN_WORD \<and> (\<exists>w ty. (w, ty) \<in> set reserved_words \<and> single_unquoted_literal a = Some w \<and>
       b = a\<lparr>tok_type := ty, tok_parts := None\<rparr>)"

lemma promoted_refl [simp]: "promoted a a"
  by (simp add: promoted_def)

lemma reserved_not_word: "(w, ty) \<in> set reserved_words \<Longrightarrow> ty \<noteq> TOKEN_WORD"
  by (auto simp: reserved_words_def)

lemma promoted_trans: "promoted a b \<Longrightarrow> promoted b c \<Longrightarrow> promoted a c"
  using reserved_not_word unfolding promoted_def by fastforce

lemma all_promoted_trans: "list_all2 promoted xs ys \<Longrightarrow> list_all2 promoted ys zs \<Longrightarrow> list_all2 promoted xs zs"
  by (rule list_all2_trans [of promoted promoted promoted]) (auto intro: promoted_trans)

subsection \<open>Runs\<close>

definition between :: "parser_t \<Rightarrow> parser_t \<Rightarrow> token list" where
  "between p q = drop (pr_position p) (take (pr_position q) (pr_tokens q))"

definition ran :: "parser_t \<Rightarrow> token multiset \<Rightarrow> parser_t \<Rightarrow> bool" where
  "ran p M q \<longleftrightarrow> pr_position p \<le> pr_position q \<and> list_all2 promoted (pr_tokens p) (pr_tokens q) \<and>
     take (pr_position p) (pr_tokens p) = take (pr_position p) (pr_tokens q) \<and>
     M \<subseteq># image_mset token_clone (mset (between p q))"

lemma ran_refl [simp]: "ran p {#} p"
  by (simp add: ran_def list_all2_refl)

lemma ran_weaken: "ran p M q \<Longrightarrow> N \<subseteq># M \<Longrightarrow> ran p N q"
  by (auto simp: ran_def intro: subset_mset.order_trans)

lemma ran_length: "ran p M q \<Longrightarrow> length (pr_tokens q) = length (pr_tokens p)"
  by (auto simp: ran_def dest: list_all2_lengthD)

lemma ran_left: "ran p M q \<Longrightarrow> tokens_left q \<le> tokens_left p"
  using ran_length [of p M q] by (auto simp: tokens_left_def ran_def intro: diff_le_mono2)

lemma between_split:
  assumes "pr_position p \<le> pr_position q" "pr_position q \<le> pr_position r"
    and "take (pr_position q) (pr_tokens q) = take (pr_position q) (pr_tokens r)"
  shows "between p r = between p q @ between q r"
proof -
  have "take (pr_position r) (pr_tokens r) =
      take (pr_position q) (pr_tokens r) @ drop (pr_position q) (take (pr_position r) (pr_tokens r))"
    using assms(2) by (metis append_take_drop_id min.absorb2 min.commute take_take)
  then have "between p r = drop (pr_position p) (take (pr_position q) (pr_tokens r) @ between q r)"
    unfolding between_def by metis
  also have "\<dots> = drop (pr_position p) (take (pr_position q) (pr_tokens r)) @
      drop (pr_position p - length (take (pr_position q) (pr_tokens r))) (between q r)" by simp
  also have "drop (pr_position p - length (take (pr_position q) (pr_tokens r))) (between q r) = between q r"
  proof (cases "pr_position q \<le> length (pr_tokens r)")
    case False
    then show ?thesis by (simp add: between_def)
  qed (use assms(1) in simp)
  finally show ?thesis using assms(3) by (simp add: between_def)
qed

lemma ran_trans:
  assumes "ran p M q" "ran q N r"
  shows "ran p (M + N) r"
proof -
  have "between p r = between p q @ between q r" by (rule between_split) (use assms in \<open>auto simp: ran_def\<close>)
  moreover have "take (pr_position p) (pr_tokens q) = take (pr_position p) (pr_tokens r)"
    using assms by (auto simp: ran_def) (metis min.absorb1 take_take)
  moreover have "list_all2 promoted (pr_tokens p) (pr_tokens r)"
    by (rule all_promoted_trans) (use assms in \<open>auto simp: ran_def\<close>)
  ultimately show ?thesis using assms by (auto simp: ran_def intro: subset_mset.add_mono)
qed

lemma ran_trans0: "ran p M q \<Longrightarrow> ran q {#} r \<Longrightarrow> ran p M r"
  using ran_trans [of p M q "{#}" r] by simp

lemma ran_advance0: "ran p {#} (parser_advance p)"
  by (auto simp: ran_def parser_advance_def list_all2_refl)

lemma ran_advance:
  assumes "parser_current_token_type p \<noteq> TOKEN_EOF"
  shows "ran p {#token_clone (pr_tokens p ! pr_position p)#} (parser_advance p)"
proof -
  have "pr_position p < length (pr_tokens p)"
    using assms by (auto simp: parser_current_token_type_def parser_current_token_def split: if_splits)
  then show ?thesis
    by (simp add: ran_def parser_advance_def list_all2_refl between_def take_Suc_conv_app_nth)
qed

lemma ran_skip: "ran p {#} (parser_skip_newlines p)"
proof (induction p rule: parser_skip_newlines.induct)
  case (1 p)
  show ?case
  proof (cases "parser_current_token_type p = TOKEN_NEWLINE")
    case True
    then have acc: "parser_accept p TOKEN_NEWLINE = (parser_advance p, True)" by (simp add: parser_accept_def)
    have "ran (parser_advance p) {#} (parser_skip_newlines (parser_advance p))"
      using 1 [OF acc [symmetric]] by simp
    with ran_advance0 [of p] acc show ?thesis
      by (subst parser_skip_newlines.simps) (simp add: ran_trans0)
  next
    case False
    then have "parser_skip_newlines p = p"
      by (subst parser_skip_newlines.simps) (simp add: parser_accept_def)
    then show ?thesis by simp
  qed
qed

lemma ran_error: "ran p {#} (parser_set_error msg p)"
  by (auto simp: ran_def parser_set_error_def Let_def list_all2_refl split: option.split)

lemma error_same [simp]: "parser_current_token_type (parser_set_error msg p) = parser_current_token_type p"
  "tokens_left (parser_set_error msg p) = tokens_left p"
  by (auto simp: parser_set_error_def parser_current_token_type_def parser_current_token_def tokens_left_def Let_def
      split: option.split)

lemma ran_promote:
  assumes "(target, ty) \<in> set reserved_words" "parser_token_try_promote target ty p offset = (q, b)"
  shows "ran p {#} q"
proof (cases "pr_position p + offset < length (pr_tokens p) \<and>
    tok_type (pr_tokens p ! (pr_position p + offset)) = TOKEN_WORD")
  case True
  let ?i = "pr_position p + offset"
  let ?t = "fst (token_try_promote_to_word (pr_tokens p ! ?i) target ty)"
  have q: "q = p\<lparr>pr_tokens := (pr_tokens p)[?i := ?t]\<rparr>"
    using assms(2) True by (auto simp: parser_token_try_promote_def Let_def split: prod.splits)
  have "promoted (pr_tokens p ! ?i) ?t"
    using True assms(1) by (auto simp: token_try_promote_to_word_def promoted_def)
  then have "list_all2 promoted (pr_tokens p) ((pr_tokens p)[?i := ?t])"
    unfolding list_all2_conv_all_nth by (metis length_list_update nth_list_update_eq nth_list_update_neq promoted_refl)
  then show ?thesis by (simp add: q ran_def)
qed (use assms(2) in \<open>auto simp: parser_token_try_promote_def Let_def split: if_splits\<close>)

lemma ran_rewind:
  assumes "ran p M q" "ran q N r" "0 < tokens_left q"
  shows "ran p M (parser_rewind_to_position r (pr_position q))"
proof -
  have "pr_position q < length (pr_tokens r)"
    using assms(3) ran_length [OF assms(2)] by (simp add: tokens_left_def)
  then have "parser_rewind_to_position r (pr_position q) = r\<lparr>pr_position := pr_position q\<rparr>"
    by (simp add: parser_rewind_to_position_def)
  moreover have "ran q {#} (r\<lparr>pr_position := pr_position q\<rparr>)" using assms(2) by (simp add: ran_def)
  ultimately show ?thesis using ran_trans0 [OF assms(1)] by simp
qed

subsection \<open>The shape of nodes\<close>

text \<open>
  \<open>typed\<close>: the kind of every node names the member that is stored, but for three types of nodes:
  the operator of an and-or list, the name of a function and the body of a function that has
  redirections.
\<close>

fun names_member :: "gnode_payload \<Rightarrow> gnode_data \<Rightarrow> bool" where
  "names_member k D_Zero = True"
| "names_member k (D_List _) = (k = GNODE_PAYLOAD_LIST)"
| "names_member k (D_Token _) = (k = GNODE_PAYLOAD_TOKEN)"
| "names_member k (D_String _) = (k = GNODE_PAYLOAD_STRING)"
| "names_member k (D_Child _) = (k = GNODE_PAYLOAD_CHILD)"
| "names_member k (D_Pair _ _) = (k = GNODE_PAYLOAD_PAIR)"
| "names_member k (D_Multi _ _ _ _) = (k = GNODE_PAYLOAD_MULTI)"
| "names_member k (D_Io_Here _ _ _) = (k = GNODE_PAYLOAD_IO_HERE)"

fun exempt :: "gnode_type \<Rightarrow> gnode_data \<Rightarrow> bool" where
  "exempt ty (D_Token _) = (ty \<in> {G_AND_OR, G_FNAME})"
| "exempt ty (D_Multi _ _ _ _) = (ty = G_FUNCTION_BODY)"
| "exempt ty _ = False"

fun typed :: "gnode \<Rightarrow> bool" and data_typed :: "gnode_data \<Rightarrow> bool" where
  "typed (Node ty k d) = ((names_member k d \<or> exempt ty d) \<and> data_typed d)"
| "data_typed D_Zero = True"
| "data_typed (D_List xs) = list_all typed xs"
| "data_typed (D_Token t) = True"
| "data_typed (D_String s) = True"
| "data_typed (D_Child x) = typed x"
| "data_typed (D_Pair a b) = (pred_option typed a \<and> pred_option typed b)"
| "data_typed (D_Multi a b c d) =
     (pred_option typed a \<and> pred_option typed b \<and> pred_option typed c \<and> pred_option typed d)"
| "data_typed (D_Io_Here op here_end tok) = True"

lemma typed_g_node: "typed (g_node ty d) \<longleftrightarrow>
    (names_member (gnode_get_payload_type ty) d \<or> exempt ty d) \<and> data_typed d"
  by (simp add: g_node_def)

abbreviation toks :: "gnode \<Rightarrow> token multiset" where
  "toks x \<equiv> mset (fringe x)"

definition toks_of :: "gnode option \<Rightarrow> token multiset" where
  "toks_of x = (case x of None \<Rightarrow> {#} | Some y \<Rightarrow> toks y)"

lemma toks_of_simps [simp]: "toks_of None = {#}" "toks_of (Some x) = toks x"
  by (simp_all add: toks_of_def)

lemma mset_opt: "mset (case x of None \<Rightarrow> [] | Some y \<Rightarrow> fringe y) = toks_of x"
  by (simp add: toks_of_def split: option.split)

lemma multi_simps [simp]:
  "multi ty [a] = g_node ty (D_Multi a None None None)"
  "multi ty [a, b] = g_node ty (D_Multi a b None None)"
  "multi ty [a, b, c] = g_node ty (D_Multi a b c None)"
  "multi ty [a, b, c, d] = g_node ty (D_Multi a b c d)"
  by (simp_all add: multi_def eval_nat_numeral)

lemma toks_data [simp]:
  "mset (data_fringe (D_Multi a b c d)) = toks_of a + toks_of b + toks_of c + toks_of d"
  "mset (data_fringe (D_Pair a b)) = toks_of a + toks_of b"
  by (simp_all add: mset_opt add.assoc)

definition all_toks :: "gnode list \<Rightarrow> token multiset" where
  "all_toks xs = mset (concat (map fringe xs))"

lemma all_toks_simps [simp]:
  "all_toks [] = {#}" "all_toks (x # xs) = toks x + all_toks xs" "all_toks (xs @ ys) = all_toks xs + all_toks ys"
  "mset (data_fringe (D_List xs)) = all_toks xs"
  by (simp_all add: all_toks_def)

declare data_fringe.simps(2,6,7) [simp del]

subsection \<open>Good results\<close>

definition good :: "parser_t \<Rightarrow> parse_result \<Rightarrow> bool" where
  "good p m \<longleftrightarrow> (case m of None \<Rightarrow> False | Some None \<Rightarrow> True
     | Some (Some (Inl _, q)) \<Rightarrow> ran p {#} q
     | Some (Some (Inr x, q)) \<Rightarrow> ran p (toks x) q \<and> tokens_left q < tokens_left p \<and> typed x)"

definition good_out :: "parser_t \<Rightarrow> parse_out \<Rightarrow> bool" where
  "good_out p out \<longleftrightarrow> (case out of
       (Inl _, q) \<Rightarrow> ran p {#} q
     | (Inr x, q) \<Rightarrow> ran p (toks x) q \<and> tokens_left q < tokens_left p \<and> typed x)"

lemma good_failed: "ran p M q \<Longrightarrow> good p (failed status q)"
  by (auto simp: good_def failed_def intro: ran_weaken)

lemma good_error: "ran p M q \<Longrightarrow> good p (error msg q)"
  unfolding error_def by (rule good_failed [OF ran_trans0 [OF _ ran_error]])

lemma good_parsed:
  "ran p M q \<Longrightarrow> toks x \<subseteq># M \<Longrightarrow> tokens_left q < tokens_left p \<Longrightarrow> typed x \<Longrightarrow> good p (parsed x q)"
  by (auto simp: good_def parsed_def intro: ran_weaken)

lemma good_on_result:
  assumes "good q m" "ran p M q"
    and "\<And>status r. ran p M r \<Longrightarrow> tokens_left r \<le> tokens_left q \<Longrightarrow> good p (f (Inl status) r)"
    and "\<And>x r. ran p (M + toks x) r \<Longrightarrow> tokens_left r < tokens_left q \<Longrightarrow> typed x \<Longrightarrow> good p (f (Inr x) r)"
  shows "good p (on_result m f)"
proof (cases m)
  case (Some res)
  show ?thesis
  proof (cases res)
    case None
    with Some show ?thesis by (simp add: on_result_def good_def)
  next
    case (Some out)
    obtain s r where out: "out = (s, r)" by force
    show ?thesis
    proof (cases s)
      case (Inl st)
      with assms(1) \<open>m = Some res\<close> Some out have "ran q {#} r" by (simp add: good_def)
      with assms(2) have "ran p M r" "tokens_left r \<le> tokens_left q"
        by (auto intro: ran_trans0 ran_left)
      with assms(3) Inl \<open>m = Some res\<close> Some out show ?thesis by (simp add: on_result_def)
    next
      case (Inr x)
      with assms(1) \<open>m = Some res\<close> Some out have "ran q (toks x) r" "tokens_left r < tokens_left q" "typed x"
        by (auto simp: good_def)
      with assms(2,4) Inr \<open>m = Some res\<close> Some out show ?thesis
        by (auto simp: on_result_def intro: ran_trans)
    qed
  qed
qed (use assms(1) in \<open>simp add: good_def\<close>)

lemma good_on_ok:
  assumes "good q m" "ran p M q"
    and "\<And>x r. ran p (M + toks x) r \<Longrightarrow> tokens_left r < tokens_left q \<Longrightarrow> typed x \<Longrightarrow> good p (f x r)"
  shows "good p (on_ok m f)"
  unfolding on_ok_def by (rule good_on_result [OF assms(1,2)]) (auto intro: good_failed assms(3))

lemma good_outE:
  assumes "good_out q out" "ran p M q"
  obtains status r where "out = (Inl status, r)" "ran p M r" "tokens_left r \<le> tokens_left q"
  | x r where "out = (Inr x, r)" "ran p (M + toks x) r" "tokens_left r < tokens_left q" "typed x"
proof (cases out)
  case (Pair s r)
  show thesis
  proof (cases s)
    case (Inl st)
    with assms Pair have r: "ran q {#} r" by (simp add: good_out_def)
    show thesis using that(1) [OF _ ran_trans0 [OF assms(2) r] ran_left [OF r]] Pair Inl by simp
  next
    case (Inr x)
    with assms Pair have r: "ran q (toks x) r" "tokens_left r < tokens_left q" "typed x"
      by (auto simp: good_out_def)
    show thesis using that(2) [OF _ ran_trans [OF assms(2) r(1)] r(2,3)] Pair Inr by simp
  qed
qed

lemma good_out_leI: "good_out p (Inl st, q) \<longleftrightarrow> ran p {#} q"
  by (simp add: good_out_def)

subsection \<open>Steps\<close>

lemma take_token_pair: "take_token ty p = (fst (take_token ty p), parser_advance p)"
  by (simp add: take_token_def)

lemma ran_take:
  assumes "ran p M q" "parser_current_token_type q \<noteq> TOKEN_EOF"
  shows "ran p (M + toks (fst (take_token ty q))) (parser_advance q)"
  using ran_trans [OF assms(1) ran_advance [OF assms(2)]] by (simp add: take_token_def)

lemma ran_skipI: "ran p M q \<Longrightarrow> ran p M (parser_skip_newlines q)"
  by (rule ran_trans0 [OF _ ran_skip])

lemma ran_advanceI: "ran p M q \<Longrightarrow> ran p M (parser_advance q)"
  by (rule ran_trans0 [OF _ ran_advance0])

lemma ran_errorI: "ran p M q \<Longrightarrow> ran p M (parser_set_error msg q)"
  by (rule ran_trans0 [OF _ ran_error])

lemma left_skip: "tokens_left (parser_skip_newlines p) \<le> tokens_left p"
  by (rule ran_left [OF ran_skip])

lemma typed_take: "gnode_get_payload_type ty = GNODE_PAYLOAD_TOKEN \<or> ty \<in> {G_AND_OR, G_FNAME} \<Longrightarrow>
    typed (fst (take_token ty p))"
  by (auto simp: take_token_def typed_g_node)

lemmas promote_defs =
  parser_token_try_promote_to_lbrace_def parser_token_try_promote_to_rbrace_def
  parser_token_try_promote_to_bang_def parser_token_try_promote_to_if_def parser_token_try_promote_to_while_def
  parser_token_try_promote_to_until_def parser_token_try_promote_to_for_def parser_token_try_promote_to_case_def
  parser_token_try_promote_to_then_def parser_token_try_promote_to_fi_def parser_token_try_promote_to_elif_def
  parser_token_try_promote_to_else_def parser_token_try_promote_to_do_def parser_token_try_promote_to_done_def
  parser_token_try_promote_to_esac_def promote_to_in_def closing_keyword_def

lemma ran_fst_promote: "(target, ty) \<in> set reserved_words \<Longrightarrow> ran p M q \<Longrightarrow>
    ran p M (fst (parser_token_try_promote target ty q offset))"
  by (rule ran_trans0, assumption) (rule ran_promote, auto simp: prod_eq_iff)

lemma ran_keyword:
  assumes "ran p M q"
  shows "ran p M (closing_keyword parser_token_try_promote_to_then q)"
    "ran p M (closing_keyword parser_token_try_promote_to_fi q)"
    "ran p M (closing_keyword parser_token_try_promote_to_do q)"
    "ran p M (closing_keyword parser_token_try_promote_to_done q)"
    "ran p M (closing_keyword parser_token_try_promote_to_esac q)"
    "ran p M (closing_keyword parser_token_try_promote_to_else q)"
    "ran p M (closing_keyword parser_token_try_promote_to_bang q)"
    "ran p M (promote_to_in q)"
  unfolding promote_defs by (rule ran_fst_promote; simp add: reserved_words_def assms)+

lemma left_promote: "tokens_left (fst (parser_token_try_promote target ty p offset)) = tokens_left p"
  by (auto simp: parser_token_try_promote_def Let_def tokens_left_def split: prod.split)

lemma left_keyword [simp]:
  "tokens_left (closing_keyword parser_token_try_promote_to_then q) = tokens_left q"
  "tokens_left (closing_keyword parser_token_try_promote_to_fi q) = tokens_left q"
  "tokens_left (closing_keyword parser_token_try_promote_to_do q) = tokens_left q"
  "tokens_left (closing_keyword parser_token_try_promote_to_done q) = tokens_left q"
  "tokens_left (closing_keyword parser_token_try_promote_to_esac q) = tokens_left q"
  "tokens_left (closing_keyword parser_token_try_promote_to_else q) = tokens_left q"
  "tokens_left (closing_keyword parser_token_try_promote_to_bang q) = tokens_left q"
  "tokens_left (promote_to_in q) = tokens_left q"
  unfolding promote_defs by (rule left_promote)+

end
