(* ===== verification/Parser_Progress.thy ===== *)
theory Parser_Progress
  imports
    Parser_Runs
begin

section \<open>Every function of the parser is good\<close>

text \<open>
  For each function: it returns if the parser of compound lists does on the tokens after the
  current one, what it returns is a node of clones of the tokens it has passed, and on success
  it has passed at least one.
\<close>

subsection \<open>Automation\<close>

definition here_token :: "parser_t \<Rightarrow> token" where
  "here_token p = token_clone (pr_tokens p ! pr_position p)"

lemma take_token_here: "take_token ty p = (g_node ty (D_Token (here_token p)), parser_advance p)"
  by (simp add: take_token_def here_token_def)

lemma ran_here: "ran p M q \<Longrightarrow> parser_current_token_type q \<noteq> TOKEN_EOF \<Longrightarrow>
    ran p (M + {#here_token q#}) (parser_advance q)"
  using ran_trans [OF _ ran_advance] by (simp add: here_token_def)

lemma left_advance [simp]: "tokens_left (parser_advance q) = tokens_left q - 1"
  by (auto simp: tokens_left_def parser_advance_def)

lemma left_pos: "parser_current_token_type q \<noteq> TOKEN_EOF \<Longrightarrow> 0 < tokens_left q"
  using advance_left by fastforce

lemma left_type: "parser_current_token_type q = ty \<Longrightarrow> ty \<noteq> TOKEN_EOF \<Longrightarrow> 0 < tokens_left q"
  using left_pos by blast

lemma good_if: "(c \<Longrightarrow> good p a) \<Longrightarrow> (\<not> c \<Longrightarrow> good p b) \<Longrightarrow> good p (if c then a else b)"
  by simp

lemma good_out_if: "(c \<Longrightarrow> good_out p a) \<Longrightarrow> (\<not> c \<Longrightarrow> good_out p b) \<Longrightarrow> good_out p (if c then a else b)"
  by simp

lemma good_out_failed: "ran p M q \<Longrightarrow> good_out p (Inl status, q)"
  by (auto simp: good_out_def intro: ran_weaken)

lemma good_out_parsed:
  "ran p M q \<Longrightarrow> toks x \<subseteq># M \<Longrightarrow> tokens_left q < tokens_left p \<Longrightarrow> typed x \<Longrightarrow> good_out p (Inr x, q)"
  by (auto simp: good_out_def intro: ran_weaken)

definition cl_ok :: "nat \<Rightarrow> (parser_t \<Rightarrow> parse_result) \<Rightarrow> bool" where
  "cl_ok m cl \<longleftrightarrow> (\<forall>q. tokens_left q < m \<longrightarrow> good q (cl q))"

lemma cl_okD: "cl_ok m cl \<Longrightarrow> tokens_left q < m \<Longrightarrow> good q (cl q)"
  by (simp add: cl_ok_def)

lemma cl_ok_le: "cl_ok m cl \<Longrightarrow> k \<le> m \<Longrightarrow> cl_ok k cl"
  by (auto simp: cl_ok_def)

lemmas payloads [simp] = gnode_get_payload_type_def
lemmas typed_simps [simp] = typed_g_node

subsection \<open>Separators, redirections and words\<close>

lemma good_separator_op: "good_out p (gparse_separator_op p)"
  unfolding gparse_separator_op_def take_token_here Let_def prod.case
  by (rule good_out_if, rule good_out_failed, rule ran_refl, rule good_out_parsed, rule ran_here, rule ran_refl)
    (auto dest: left_type)

definition collects :: "(gnode list \<Rightarrow> parser_t \<Rightarrow> gnode list \<times> parser_t) \<Rightarrow> gnode list \<Rightarrow> parser_t \<Rightarrow> bool" where
  "collects loop list p \<longleftrightarrow> (\<exists>xs q. loop list p = (list @ xs, q) \<and> ran p (all_toks xs) q \<and> list_all typed xs \<and>
     (xs \<noteq> [] \<longrightarrow> tokens_left q < tokens_left p))"

lemma collects_end: "loop list p = (list, p) \<Longrightarrow> collects loop list p"
  unfolding collects_def by (intro exI [of _ "[]"] exI [of _ p]) simp

lemma collects_step:
  assumes "loop list p = loop (g_list_append list x) q" "collects loop (g_list_append list x) q"
    and "ran p (toks x) q" "tokens_left q < tokens_left p" "typed x"
  shows "collects loop list p"
proof -
  obtain xs r where xs: "loop (g_list_append list x) q = (g_list_append list x @ xs, r)"
    "ran q (all_toks xs) r" "list_all typed xs" using assms(2) by (auto simp: collects_def)
  have "tokens_left r < tokens_left p" using ran_left [OF xs(2)] assms(4) by linarith
  with xs assms(1,5) ran_trans [OF assms(3) xs(2)] show ?thesis
    unfolding collects_def by (intro exI [of _ "x # xs"] exI [of _ r]) (simp add: g_list_append_def)
qed

lemma collects_token:
  assumes "loop list p = loop (g_list_append list (fst (take_token ty p))) (parser_advance p)"
    and "collects loop (g_list_append list (fst (take_token ty p))) (parser_advance p)"
    and "parser_current_token_type p \<noteq> TOKEN_EOF" "gnode_get_payload_type ty = GNODE_PAYLOAD_TOKEN"
  shows "collects loop list p"
proof (rule collects_step [OF assms(1,2)])
  show "ran p (toks (fst (take_token ty p))) (parser_advance p)"
    using ran_here [OF ran_refl assms(3)] by (simp add: take_token_here)
  show "typed (fst (take_token ty p))" using assms(4) by (simp only: take_token_here typed_g_node) simp
qed (use left_pos [OF assms(3)] in simp)

lemma collects_newlines: "collects newline_tokens list p"
proof (induction list p rule: newline_tokens.induct)
  case (1 list p)
  show ?case
  proof (cases "parser_current_token_type p = TOKEN_NEWLINE")
    case True
    then show ?thesis by (intro collects_token [OF _ 1]) (simp_all add: newline_tokens.simps [of list p])
  qed (simp add: collects_end newline_tokens.simps)
qed

lemma good_separator: "good_out p (gparse_separator p)"
proof (cases "parser_current_token_type p = TOKEN_NEWLINE")
  case True
  let ?x = "fst (take_token G_WORD_NODE p)"
  obtain xs q where q: "newline_tokens [?x] (parser_advance p) = ([?x] @ xs, q)"
    "ran (parser_advance p) (all_toks xs) q" "list_all typed xs"
    using collects_newlines [of "[?x]" "parser_advance p"] by (auto simp: collects_def)
  have "ran p (toks ?x + all_toks xs) q"
    using ran_trans [OF ran_here [OF ran_refl] q(2)] True by (simp add: take_token_here)
  moreover have "tokens_left q < tokens_left p" using ran_left [OF q(2)] left_type [OF True] by simp
  moreover have "newline_tokens [] p = (?x # xs, q)"
    using True q(1) by (subst newline_tokens.simps) (simp add: g_list_append_def)
  ultimately show ?thesis
    using True q(3) by (auto simp: gparse_separator_def take_token_here good_out_def)
next
  case False
  then show ?thesis
    unfolding gparse_separator_def take_token_here Let_def prod.case
    apply (intro good_out_if)
      apply (rule good_out_parsed)
         apply (rule ran_skipI)
         apply (rule ran_here, rule ran_refl)
         apply auto [1]
        apply simp
       apply (rule order_le_less_trans [OF left_skip])
       apply (auto dest: left_type) [1]
      apply simp
     apply simp
    apply (rule good_out_failed, rule ran_refl)
    done
qed

text \<open>Automation for the remaining functions: the state is followed through the code.\<close>

lemma ran_keyword_rules:
  "ran p M q \<Longrightarrow> ran p M (closing_keyword parser_token_try_promote_to_then q)"
  "ran p M q \<Longrightarrow> ran p M (closing_keyword parser_token_try_promote_to_fi q)"
  "ran p M q \<Longrightarrow> ran p M (closing_keyword parser_token_try_promote_to_do q)"
  "ran p M q \<Longrightarrow> ran p M (closing_keyword parser_token_try_promote_to_done q)"
  "ran p M q \<Longrightarrow> ran p M (closing_keyword parser_token_try_promote_to_esac q)"
  "ran p M q \<Longrightarrow> ran p M (closing_keyword parser_token_try_promote_to_else q)"
  "ran p M q \<Longrightarrow> ran p M (closing_keyword parser_token_try_promote_to_bang q)"
  "ran p M q \<Longrightarrow> ran p M (promote_to_in q)"
  by (rule ran_keyword, assumption)+

lemma good_filename: "good_out p (gparse_filename p)"
  unfolding gparse_filename_def take_token_here Let_def prod.case
  by (rule good_out_if, rule good_out_failed, rule ran_refl, rule good_out_parsed, rule ran_here, rule ran_refl)
    (auto dest: left_type)

lemma good_io_file: "good_out p (gparse_io_file p)"
proof (cases "is_file_operator (parser_current_token_type p)")
  case True
  then have t: "parser_current_token_type p \<noteq> TOKEN_EOF" by (auto simp: is_file_operator_def)
  from good_filename ran_here [OF ran_refl t] show ?thesis
  proof (cases rule: good_outE)
    case (1 status r)
    with True show ?thesis
      by (simp add: gparse_io_file_def take_token_here) (rule good_out_failed)
  next
    case (2 x r)
    with True show ?thesis
      by (simp add: gparse_io_file_def take_token_here) (rule good_out_parsed, assumption, auto)
  qed
next
  case False
  then show ?thesis by (simp add: gparse_io_file_def good_out_def)
qed

lemma good_io_here: "good_out p (gparse_io_here p)"
  unfolding gparse_io_here_def Let_def
  by (intro good_out_if; (rule good_out_failed good_out_parsed)?, (rule ran_advanceI ran_refl)+)
    (auto dest: left_type)

lemma ran_io_prefix:
  assumes "io_prefix p = (a, b, q)"
  shows "ran p (toks_of a + toks_of b) q \<and> pred_option typed a \<and> pred_option typed b"
  using assms ran_here [OF ran_refl, of p]
  by (auto simp: io_prefix_def take_token_here split: if_splits)

lemma good_io_redirect: "good_out p (gparse_io_redirect p)"
proof -
  obtain a b q where io: "io_prefix p = (a, b, q)" by (cases "io_prefix p") auto
  note ab = ran_io_prefix [OF io]
  then have left: "tokens_left q \<le> tokens_left p" by (auto dest: ran_left)
  from good_io_file conjunct1 [OF ab] show ?thesis
  proof (cases rule: good_outE)
    case (1 status r)
    from good_io_here 1(2) show ?thesis
    proof (cases rule: good_outE)
      case (1 status2 s)
      with \<open>gparse_io_file q = _\<close> io show ?thesis
        by (simp add: gparse_io_redirect_def) (rule good_out_failed)
    next
      case (2 x s)
      with \<open>gparse_io_file q = _\<close> \<open>tokens_left r \<le> _\<close> io ab left show ?thesis
        by (simp add: gparse_io_redirect_def) (rule good_out_parsed, assumption, auto)
    qed
  next
    case (2 x r)
    with io ab left show ?thesis
      by (simp add: gparse_io_redirect_def) (rule good_out_parsed, assumption, auto)
  qed
qed

lemma collects_redirects: "collects redirect_loop list p"
proof (induction list p rule: redirect_loop.induct)
  case (1 list p)
  from good_io_redirect [of p] ran_refl show ?case
  proof (cases rule: good_outE)
    case (1 status r)
    then have "redirect_loop list p = (list, r)" by (simp add: redirect_loop.simps)
    with 1 show ?thesis unfolding collects_def by (intro exI [of _ "[]"] exI [of _ r]) simp
  next
    case (2 x r)
    show ?thesis
    proof (rule collects_step)
      show "redirect_loop list p = redirect_loop (g_list_append list x) r"
        using 2 by (simp add: redirect_loop.simps [of list p])
      show "collects redirect_loop (g_list_append list x) r" using 1 2(1) by fastforce
    qed (use 2 in simp_all)
  qed
qed

subsection \<open>Here-documents\<close>

lemma take_heredoc_ran: "take_heredoc h p = (st, tok, q) \<Longrightarrow>
    ran p (case tok of None \<Rightarrow> {#} | Some t \<Rightarrow> {#t#}) q \<and> (st = None \<longrightarrow> tok \<noteq> None)"
  using ran_here [OF ran_skip, of p] ran_errorI [OF ran_skip, of p]
  by (auto simp: take_heredoc_def Let_def here_token_def split: if_splits)

definition matches_up :: "token multiset \<Rightarrow> (parse_status + 'a) \<Rightarrow> ('a \<Rightarrow> token multiset) \<Rightarrow> ('a \<Rightarrow> bool) \<Rightarrow> parser_t \<Rightarrow> parser_t \<Rightarrow> bool" where
  "matches_up M r ts ok p q \<longleftrightarrow> (case r of Inl _ \<Rightarrow> ran p {#} q
     | Inr y \<Rightarrow> (\<exists>N. ran p N q \<and> ts y \<subseteq># M + N) \<and> ok y)"

lemma matches_up_same: "ok y \<Longrightarrow> matches_up (ts y) (Inr y) ts ok p p"
  unfolding matches_up_def by (auto intro: exI [of _ "{#}"])

lemma match_here_ok: "match_here x p = (r, q) \<Longrightarrow> typed x \<Longrightarrow> matches_up (toks x) r toks typed p q"
proof (cases x)
  case (Node ty k d)
  assume m: "match_here x p = (r, q)" "typed x"
  show ?thesis
  proof (cases "\<exists>op h. d = D_Io_Here op h None \<and> ty = G_IO_HERE")
    case True
    then obtain op h where d: "d = D_Io_Here op h None" "ty = G_IO_HERE" by blast
    obtain st tok s where t: "take_heredoc h p = (st, tok, s)" by (cases "take_heredoc h p") auto
    note ran = take_heredoc_ran [OF t]
    show ?thesis
    proof (cases st)
      case None
      then obtain y where y: "tok = Some y" using ran by auto
      with ran have "ran p {#y#} s" by simp
      with m d Node t None y show ?thesis
        by (auto simp: match_here_def matches_up_def intro!: exI [of _ "{#y#}"])
    next
      case (Some a)
      from ran have "ran p {#} s" by (auto intro: ran_weaken)
      with m d Node t Some show ?thesis by (auto simp: match_here_def matches_up_def)
    qed
  next
    case False
    then have "r = Inr x \<and> q = p"
      using m Node by (auto simp: match_here_def split: gnode_data.splits option.splits if_splits)
    with m(2) matches_up_same [of typed x toks p] show ?thesis by simp
  qed
qed

lemma match_redirect_ok:
  assumes "match_redirect x p = (r, q)" "typed x"
  shows "matches_up (toks x) r toks typed p q"
proof (cases "\<exists>k a b t e. x = Node G_IO_REDIRECT k (D_Multi a b (Some t) e)")
  case True
  then obtain k a b t e where x: "x = Node G_IO_REDIRECT k (D_Multi a b (Some t) e)" by blast
  obtain r1 q1 where m: "match_here t p = (r1, q1)" by force
  have "matches_up (toks t) r1 toks typed p q1" using match_here_ok [OF m] assms(2) x by simp
  with m x assms show ?thesis
    by (auto simp: match_redirect_def matches_up_def ac_simps split: sum.splits
        intro!: exI subset_mset.add_left_mono)
next
  case False
  then have "r = Inr x \<and> q = p"
    using assms by (cases x) (auto simp: match_redirect_def split: gnode_data.splits option.splits if_splits)
  with assms(2) matches_up_same [of typed x toks p] show ?thesis by simp
qed

lemma matches_up_seq:
  assumes "matches_up M (Inr y) ts ok p q" "ran q N s" "L \<subseteq># ts y + K + N"
  shows "\<exists>N. ran p N s \<and> L \<subseteq># M + K + N"
proof -
  obtain N' where N': "ran p N' q" "ts y \<subseteq># M + N'" using assms(1) by (auto simp: matches_up_def)
  have "ts y + K + N \<subseteq># (M + N') + K + N"
    using N'(2) by (intro subset_mset.add_right_mono)
  with assms(3) have "L \<subseteq># (M + N') + K + N" by (rule subset_mset.order_trans)
  then have "L \<subseteq># M + K + (N' + N)" by (simp add: ac_simps)
  with ran_trans [OF N'(1) assms(2)] show ?thesis by blast
qed

lemma matches_up_cons:
  assumes "matches_up (toks x) (Inr y) toks typed p q"
    and "matches_up (all_toks xs) r all_toks (list_all typed) q s"
  shows "matches_up (toks x + all_toks xs) (map_sum id ((#) y) r) all_toks (list_all typed) p s"
proof (cases r)
  case (Inl st)
  with assms show ?thesis by (auto simp: matches_up_def intro: ran_weaken dest: ran_trans)
next
  case (Inr ys)
  obtain N where N: "ran q N s" "all_toks ys \<subseteq># all_toks xs + N" "list_all typed ys"
    using assms(2) Inr by (auto simp: matches_up_def)
  have "\<exists>N. ran p N s \<and> toks y + all_toks ys \<subseteq># toks x + all_toks xs + N"
    using matches_up_seq [OF assms(1) N(1), of "toks y + all_toks ys" "all_toks xs"] N(2)
    by (simp add: add.assoc)
  with Inr assms(1) N(3) show ?thesis by (auto simp: matches_up_def)
qed

lemma match_list_ok: "match_list xs p = (r, q) \<Longrightarrow> list_all typed xs \<Longrightarrow>
    matches_up (all_toks xs) r all_toks (list_all typed) p q"
proof (induction xs arbitrary: p r q)
  case Nil
  then show ?case using matches_up_same [of "list_all typed" "[]" all_toks p] by simp
next
  case (Cons x xs)
  obtain r1 q1 where m: "match_redirect x p = (r1, q1)" by force
  then have x: "matches_up (toks x) r1 toks typed p q1" using match_redirect_ok Cons.prems by auto
  show ?case
  proof (cases r1)
    case (Inl st)
    with m Cons.prems x show ?thesis by (auto simp: matches_up_def)
  next
    case (Inr y)
    obtain r2 q2 where l: "match_list xs q1 = (r2, q2)" by force
    then have xs: "matches_up (all_toks xs) r2 all_toks (list_all typed) q1 q2" using Cons by simp
    from matches_up_cons [OF x [unfolded Inr] xs] m l Inr Cons.prems show ?thesis
      by (cases r2) (auto simp: matches_up_def)
  qed
qed

lemma match_item_ok:
  assumes "match_item x p = (r, q)" "typed x"
  shows "matches_up (toks x) r toks typed p q"
proof (cases "\<exists>k y. x = Node G_CMD_PREFIX k (D_Child y) \<or> (\<exists>ys. x = Node G_CMD_SUFFIX k (D_List ys))")
  case True
  then consider k y where "x = Node G_CMD_PREFIX k (D_Child y)" | k ys where "x = Node G_CMD_SUFFIX k (D_List ys)"
    by blast
  then show ?thesis
  proof cases
    case 1
    obtain r1 q1 where m: "match_redirect y p = (r1, q1)" by force
    have "matches_up (toks y) r1 toks typed p q1" using match_redirect_ok [OF m] assms(2) 1 by simp
    with m 1 assms show ?thesis by (auto simp: match_item_def matches_up_def split: sum.splits)
  next
    case 2
    obtain r1 q1 where m: "match_list ys p = (r1, q1)" by force
    have "matches_up (all_toks ys) r1 all_toks (list_all typed) p q1" using match_list_ok [OF m] assms(2) 2 by simp
    with m 2 assms show ?thesis by (auto simp: match_item_def matches_up_def split: sum.splits)
  qed
next
  case False
  then have "r = Inr x \<and> q = p"
    using assms by (cases x) (auto simp: match_item_def split: gnode_data.splits if_splits)
  with assms(2) matches_up_same [of typed x toks p] show ?thesis by simp
qed

lemma match_items_ok: "match_items xs p = (r, q) \<Longrightarrow> list_all typed xs \<Longrightarrow>
    matches_up (all_toks xs) r all_toks (list_all typed) p q"
proof (induction xs arbitrary: p r q)
  case Nil
  then show ?case using matches_up_same [of "list_all typed" "[]" all_toks p] by simp
next
  case (Cons x xs)
  obtain r1 q1 where m: "match_item x p = (r1, q1)" by force
  then have x: "matches_up (toks x) r1 toks typed p q1" using match_item_ok Cons.prems by auto
  show ?case
  proof (cases r1)
    case (Inl st)
    with m Cons.prems x show ?thesis by (auto simp: matches_up_def)
  next
    case (Inr y)
    obtain r2 q2 where l: "match_items xs q1 = (r2, q2)" by force
    then have xs: "matches_up (all_toks xs) r2 all_toks (list_all typed) q1 q2" using Cons by simp
    from matches_up_cons [OF x [unfolded Inr] xs] m l Inr Cons.prems show ?thesis
      by (cases r2) (auto simp: matches_up_def)
  qed
qed

lemma good_redirect_list: "good_out p (gparse_redirect_list p)"
  using good_io_redirect [of p] ran_refl [of p]
proof (cases rule: good_outE)
  case (1 status r)
  then show ?thesis by (simp add: gparse_redirect_list_def) (rule good_out_failed)
next
  case (2 x r)
  obtain xs q where l: "redirect_loop [x] r = (x # xs, q)" "ran r (all_toks xs) q" "list_all typed xs"
    using collects_redirects [of "[x]" r] by (auto simp: collects_def)
  obtain s t where m: "match_list (x # xs) q = (s, t)" by force
  have up: "matches_up (all_toks (x # xs)) s all_toks (list_all typed) q t"
    using match_list_ok [OF m] 2 l by simp
  have ran: "ran p (toks x + all_toks xs) q" using ran_trans [OF 2(2) l(2)] by simp
  have left: "tokens_left q < tokens_left p" using ran_left [OF l(2)] 2(3) by simp
  show ?thesis
  proof (cases s)
    case (Inl st)
    with up have "ran q {#} t" by (simp add: matches_up_def)
    from ran_trans [OF ran this] 2(1) l(1) m Inl show ?thesis
      by (simp add: gparse_redirect_list_def) (rule good_out_failed)
  next
    case (Inr ys)
    with up obtain N where N: "ran q N t" "all_toks ys \<subseteq># all_toks (x # xs) + N" "list_all typed ys"
      by (auto simp: matches_up_def)
    from ran_trans [OF ran N(1)] ran_left [OF N(1)] left N(2,3) 2(1) l(1) m Inr show ?thesis
      by (simp add: gparse_redirect_list_def) (rule good_out_parsed, assumption, auto)
  qed
qed

subsection \<open>Simple commands and lists of words\<close>

lemma collects_prefix: "collects prefix_loop list p"
proof (induction list p rule: prefix_loop.induct)
  case (1 list p)
  show ?case
  proof (cases "is_redirect_token (parser_current_token_type p)")
    case True
    from good_io_redirect [of p] ran_refl show ?thesis
    proof (cases rule: good_outE)
      case (1 status r)
      then have "prefix_loop list p = (list, r)" using True by (simp add: prefix_loop.simps)
      with 1 show ?thesis unfolding collects_def by (intro exI [of _ "[]"] exI [of _ r]) simp
    next
      case (2 x r)
      show ?thesis
      proof (rule collects_step [of _ _ _ "g_node G_CMD_PREFIX (D_Child x)"])
        show "prefix_loop list p = prefix_loop (g_list_append list (g_node G_CMD_PREFIX (D_Child x))) r"
          using 2 True by (simp add: prefix_loop.simps [of list p])
        show "collects prefix_loop (g_list_append list (g_node G_CMD_PREFIX (D_Child x))) r"
          using 1(1) True 2(1) by fastforce
      qed (use 2 in simp_all)
    qed
  next
    case False
    show ?thesis
    proof (cases "parser_current_token_type p = TOKEN_ASSIGNMENT_WORD")
      case True
      let ?x = "g_node G_CMD_PREFIX (D_Child (fst (take_token G_ASSIGNMENT_WORD p)))"
      show ?thesis
      proof (rule collects_step [of _ _ _ ?x])
        show "prefix_loop list p = prefix_loop (g_list_append list ?x) (parser_advance p)"
          using False True by (simp add: prefix_loop.simps [of list p])
        show "ran p (toks ?x) (parser_advance p)" using ran_here [OF ran_refl, of p] True by (simp add: take_token_here)
      qed (use 1(2) [OF False True] left_type [OF True] in \<open>simp_all add: take_token_here\<close>)
    qed (use False in \<open>simp add: collects_end prefix_loop.simps\<close>)
  qed
qed

lemma collects_suffix: "collects suffix_loop list p"
proof (induction list p rule: suffix_loop.induct)
  case (1 list p)
  show ?case
  proof (cases "is_redirect_token (parser_current_token_type p)")
    case True
    from good_io_redirect [of p] ran_refl show ?thesis
    proof (cases rule: good_outE)
      case (1 status r)
      then have "suffix_loop list p = (list, r)" using True by (simp add: suffix_loop.simps)
      with 1 show ?thesis unfolding collects_def by (intro exI [of _ "[]"] exI [of _ r]) simp
    next
      case (2 x r)
      show ?thesis
      proof (rule collects_step)
        show "suffix_loop list p = suffix_loop (g_list_append list x) r"
          using 2 True by (simp add: suffix_loop.simps [of list p])
        show "collects suffix_loop (g_list_append list x) r" using 1(1) True 2(1) by fastforce
      qed (use 2 in simp_all)
    qed
  next
    case False
    show ?thesis
    proof (cases "at_command_word p")
      case True
      then have "parser_current_token_type p \<noteq> TOKEN_EOF" by (simp add: at_command_word_def)
      with False True show ?thesis
        by (intro collects_token [OF _ 1(2) [OF False True]]) (simp_all add: suffix_loop.simps [of list p])
    qed (use False in \<open>simp add: collects_end suffix_loop.simps\<close>)
  qed
qed

definition optional_name :: "parser_t \<Rightarrow> gnode list" where
  "optional_name p = (if at_command_word p then [fst (take_token G_CMD_NAME p)] else [])"

lemma good_simple_command: "good_out p (gparse_simple_command p)"
proof -
  obtain xs q where pre: "prefix_loop [] p = (xs, q)" "ran p (all_toks xs) q" "list_all typed xs"
    "xs \<noteq> [] \<longrightarrow> tokens_left q < tokens_left p" using collects_prefix [of "[]" p] by (auto simp: collects_def)
  define named where "named = at_command_word q"
  define r where "r = (if named then parser_advance q else q)"
  define name where "name = (if named then [fst (take_token G_CMD_NAME q)] else [])"
  have t: "named \<Longrightarrow> parser_current_token_type q = TOKEN_WORD" by (simp add: named_def at_command_word_def)
  have r: "ran p (all_toks xs + all_toks name) r" "list_all typed name"
    "named \<longrightarrow> tokens_left r < tokens_left q" "tokens_left r \<le> tokens_left q"
    using ran_here [OF pre(2)] t pre(2) left_type [OF t]
    by (auto simp: r_def name_def take_token_here)
  obtain ss s where suf: "suffix_loop [] r = (ss, s)" "ran r (all_toks ss) s" "list_all typed ss"
    using collects_suffix [of "[]" r] by (auto simp: collects_def)
  define items where "items = xs @ name @ (if ss \<noteq> [] then [g_node G_CMD_SUFFIX (D_List ss)] else [])"
  have ran: "ran p (all_toks items) s"
    using ran_trans [OF r(1) suf(2)] by (auto simp: items_def ac_simps)
  have items: "list_all typed items" using pre(3) r(2) suf(3) by (auto simp: items_def)
  have code: "gparse_simple_command p =
     (if xs = [] \<and> \<not> named
      then (Inl (if parser_current_token_type s = TOKEN_EOF then PARSE_INCOMPLETE else PARSE_ERROR), s)
      else case match_items items s of
        (Inl status, p) \<Rightarrow> (Inl status, p)
      | (Inr list, p) \<Rightarrow> (Inr (g_node G_SIMPLE_COMMAND (D_List list)), p))"
  proof (cases named)
    case True
    with suf(1) have "suffix_loop [] (parser_advance q) = (ss, s)" by (simp add: r_def)
    with True show ?thesis
      by (simp add: gparse_simple_command_def pre(1) named_def [symmetric] items_def name_def Let_def
          take_token_here g_list_append_def match_heredocs_in_simple_command_def)
  next
    case False
    with suf(1) have "suffix_loop [] q = (ss, s)" by (simp add: r_def)
    with False show ?thesis
      by (simp add: gparse_simple_command_def pre(1) named_def [symmetric] items_def name_def Let_def
          g_list_append_def match_heredocs_in_simple_command_def)
  qed
  show ?thesis
  proof (cases "xs = [] \<and> \<not> named")
    case True
    then show ?thesis unfolding code by (auto intro: good_out_failed [OF ran])
  next
    case False
    have left: "tokens_left s < tokens_left p"
      using False pre(4) r(3,4) ran_left [OF suf(2)] ran_left [OF pre(2)] by auto
    note code = code [unfolded if_not_P [OF False]]
    obtain m u where m: "match_items items s = (m, u)" by force
    note up = match_items_ok [OF m items]
    show ?thesis
    proof (cases m)
      case (Inl st)
      with up have "ran s {#} u" by (simp add: matches_up_def)
      from ran_trans [OF ran this] m Inl show ?thesis unfolding code by simp (rule good_out_failed)
    next
      case (Inr ys)
      with up obtain N where N: "ran s N u" "all_toks ys \<subseteq># all_toks items + N" "list_all typed ys"
        by (auto simp: matches_up_def)
      from ran_trans [OF ran N(1)] ran_left [OF N(1)] left N(2,3) m Inr show ?thesis
        unfolding code by simp (rule good_out_parsed, assumption, auto)
    qed
  qed
qed

lemma collects_wordlist: "collects wordlist_loop list p"
proof (induction list p rule: wordlist_loop.induct)
  case (1 list p)
  show ?case
  proof (cases "parser_current_token_type p = TOKEN_WORD")
    case True
    then show ?thesis by (intro collects_token [OF _ 1]) (simp_all add: wordlist_loop.simps [of list p])
  qed (simp add: collects_end wordlist_loop.simps)
qed

lemma good_wordlist: "good_out p (gparse_wordlist p)"
proof (cases "parser_current_token_type p = TOKEN_WORD")
  case True
  obtain xs q where l: "wordlist_loop [] p = (xs, q)" "ran p (all_toks xs) q" "list_all typed xs"
    "xs \<noteq> [] \<longrightarrow> tokens_left q < tokens_left p" using collects_wordlist [of "[]" p] by (auto simp: collects_def)
  obtain ys s where "wordlist_loop [fst (take_token G_WORD_NODE p)] (parser_advance p) =
      ([fst (take_token G_WORD_NODE p)] @ ys, s)"
    using collects_wordlist [of "[fst (take_token G_WORD_NODE p)]" "parser_advance p"] by (auto simp: collects_def)
  moreover have "wordlist_loop [] p = wordlist_loop [fst (take_token G_WORD_NODE p)] (parser_advance p)"
    using True by (subst wordlist_loop.simps) (simp add: g_list_append_def)
  ultimately have "xs \<noteq> []" using l(1) by auto
  with True l show ?thesis by (simp add: gparse_wordlist_def good_out_def)
next
  case False
  then show ?thesis by (simp add: gparse_wordlist_def good_out_def ran_errorI)
qed

lemma good_in_clause: "good_out p (gparse_in_clause p)"
proof -
  define q where "q = promote_to_in (parser_skip_newlines p)"
  have q: "ran p {#} q" "tokens_left q \<le> tokens_left p"
    using ran_keyword(8) [OF ran_skip, of p] left_skip [of p] by (simp_all add: q_def)
  show ?thesis
  proof (cases "parser_current_token_type q = TOKEN_IN")
    case True
    have ran: "ran p {#here_token q#} (parser_advance q)" using ran_here [OF q(1)] True by simp
    have left: "tokens_left (parser_advance q) < tokens_left p" using left_type [OF True] q(2) by simp
    from good_wordlist ran show ?thesis
    proof (cases rule: good_outE)
      case (1 status r)
      with True left show ?thesis
        by (simp add: gparse_in_clause_def q_def [symmetric] Let_def here_token_def [symmetric])
          (rule good_out_parsed, assumption, auto)
    next
      case (2 x r)
      with True left show ?thesis
        by (simp add: gparse_in_clause_def q_def [symmetric] Let_def here_token_def [symmetric])
          (rule good_out_parsed, assumption, auto)
    qed
  next
    case False
    with ran_errorI [OF q(1)] show ?thesis
      by (simp add: gparse_in_clause_def q_def [symmetric] Let_def good_out_def)
  qed
qed

lemma pattern_loop_ok: "pattern_loop list p = (r, q) \<Longrightarrow>
    (case r of Inl _ \<Rightarrow> ran p {#} q
     | Inr l \<Rightarrow> (\<exists>xs. l = list @ xs \<and> ran p (all_toks xs) q \<and> list_all typed xs))"
proof (induction list p arbitrary: r q rule: pattern_loop.induct)
  case (1 list p)
  show ?case
  proof (cases "parser_current_token_type p = TOKEN_PIPE")
    case True
    let ?a = "parser_advance p"
    have a: "ran p {#here_token p#} ?a" using ran_here [OF ran_refl, of p] True by simp
    show ?thesis
    proof (cases "parser_current_token_type ?a = TOKEN_WORD")
      case word: True
      let ?x = "fst (take_token G_WORD_NODE p)" and ?y = "fst (take_token G_WORD_NODE ?a)"
      have step: "pattern_loop (g_list_append (g_list_append list ?x) ?y) (parser_advance ?a) = (r, q)"
        using 1(2) True word by (subst (asm) pattern_loop.simps) (simp add: Let_def)
      have b: "ran p {#here_token p, here_token ?a#} (parser_advance ?a)"
        using ran_here [OF a] word by (simp add: add_mset_commute)
      note IH = 1(1) [OF True refl refl _ step]
      show ?thesis
      proof (cases r)
        case (Inl st)
        with IH word have "ran (parser_advance ?a) {#} q" by simp
        from ran_trans [OF b this] Inl show ?thesis by (auto intro: ran_weaken)
      next
        case (Inr l)
        with IH word obtain xs where xs: "l = list @ ?x # ?y # xs" "ran (parser_advance ?a) (all_toks xs) q"
          "list_all typed xs" by (auto simp: g_list_append_def)
        have "ran p (all_toks (?x # ?y # xs)) q"
          using ran_trans [OF b xs(2)] by (simp add: take_token_here add_mset_commute)
        moreover have "list_all typed (?x # ?y # xs)" using xs(3) by (simp add: take_token_here)
        ultimately show ?thesis using Inr xs(1) by auto
      qed
    next
      case False
      with 1(2) True have "r = Inl PARSE_ERROR" "\<exists>msg. q = parser_set_error msg ?a"
        by (subst (asm) pattern_loop.simps; force simp: Let_def)+
      with ran_errorI [OF ran_advance0, of p] show ?thesis by auto
    qed
  next
    case False
    with 1(2) have "r = Inr list" "q = p" by (subst (asm) pattern_loop.simps; simp)+
    then show ?thesis by simp
  qed
qed

lemma good_pattern_list: "good_out p (gparse_pattern_list p)"
proof (cases "parser_current_token_type p = TOKEN_WORD")
  case True
  have a: "ran p {#here_token p#} (parser_advance p)" using ran_here [OF ran_refl, of p] True by simp
  obtain r q where l: "pattern_loop [fst (take_token G_WORD_NODE p)] (parser_advance p) = (r, q)" by force
  show ?thesis
  proof (cases r)
    case (Inl st)
    with pattern_loop_ok [OF l] have "ran (parser_advance p) {#} q" by simp
    from ran_trans [OF a this] True l Inl show ?thesis
      by (simp add: gparse_pattern_list_def take_token_here) (rule good_out_failed)
  next
    case (Inr xs)
    with pattern_loop_ok [OF l] obtain ys where ys: "xs = fst (take_token G_WORD_NODE p) # ys"
      "ran (parser_advance p) (all_toks ys) q" "list_all typed ys" by auto
    have "tokens_left q < tokens_left p" using ran_left [OF ys(2)] left_type [OF True] by simp
    with ran_trans [OF a ys(2)] True l Inr ys show ?thesis
      by (simp add: gparse_pattern_list_def take_token_here) (rule good_out_parsed, assumption, auto)
  qed
qed (simp add: gparse_pattern_list_def good_out_def)


end
