(* ===== verification/Parser_Good.thy ===== *)
theory Parser_Good
  imports
    Parser_Progress
begin

section \<open>The functions that recurse through compound lists\<close>

text \<open>
  \<open>cl_ok (tokens_left p) cl\<close>: the parser of compound lists is good on what follows the current
  token of \<open>p\<close>.  The proofs follow the code with the rules for its statements.
\<close>

lemmas good_rules = good_if good_error good_failed good_on_ok good_on_result good_parsed
  ran_keyword_rules ran_refl ran_here ran_skipI

lemma good_do_group:
  assumes "cl_ok (tokens_left p) cl"
  shows "good p (gparse_do_group cl p)"
  unfolding gparse_do_group_def Let_def take_token_here prod.case
  by (assumption | rule good_rules cl_okD [OF assms] | (auto dest!: left_type; fail))+

lemma good_do_group_later: "cl_ok m cl \<Longrightarrow> tokens_left q \<le> m \<Longrightarrow> good q (gparse_do_group cl q)"
  by (rule good_do_group) (rule cl_ok_le)

lemma good_while_clause:
  assumes "cl_ok (tokens_left p) cl"
  shows "good p (gparse_while_clause cl p)"
  unfolding gparse_while_clause_def Let_def take_token_here prod.case
  by (assumption | rule good_rules cl_okD [OF assms] good_do_group_later [OF assms] | (auto dest!: left_type; fail))+

lemma good_until_clause:
  assumes "cl_ok (tokens_left p) cl"
  shows "good p (gparse_until_clause cl p)"
  unfolding gparse_until_clause_def Let_def take_token_here prod.case
  by (assumption | rule good_rules cl_okD [OF assms] good_do_group_later [OF assms] | (auto dest!: left_type; fail))+

lemma good_subshell:
  assumes "cl_ok (tokens_left p) cl"
  shows "good p (gparse_subshell cl p)"
  unfolding gparse_subshell_def Let_def take_token_here prod.case
  by (assumption | rule good_rules cl_okD [OF assms] | (auto dest!: left_type; fail))+

lemma ran_sequential_sep: "ran p M q \<Longrightarrow> ran p M (skip_sequential_sep q)"
  by (simp add: skip_sequential_sep_def ran_skipI ran_advanceI)

lemma left_sequential_sep: "tokens_left (skip_sequential_sep q) \<le> tokens_left q"
  using ran_left [OF ran_sequential_sep [OF ran_refl]] .

lemma good_for_clause:
  assumes "cl_ok (tokens_left p) cl"
  shows "good p (gparse_for_clause cl p)"
proof (cases "parser_current_token_type p = TOKEN_FOR \<and> parser_current_token_type (parser_advance p) = TOKEN_WORD")
  case True
  define q where "q = parser_advance (parser_advance p)"
  have q: "ran p ({#here_token p#} + {#here_token (parser_advance p)#}) q"
    using ran_here [OF ran_here [OF ran_refl]] True by (simp add: q_def)
  have left: "tokens_left q < tokens_left p" using True by (auto simp: q_def dest!: left_type)
  obtain c r where c: "gparse_in_clause q = (c, r)" by force
  have r: "ran p ({#here_token p#} + {#here_token (parser_advance p)#} + toks_of (node_of c)) r"
    "tokens_left r \<le> tokens_left q" "pred_option typed (node_of c)"
    using good_in_clause [of q] ran_trans [OF q] c by (auto simp: good_out_def node_of_def split: sum.splits dest: ran_left)
  have "good p (if parser_current_token_type r \<noteq> TOKEN_SEMI \<and> parser_current_token_type r \<noteq> TOKEN_NEWLINE
                \<and> node_of c = None
             then error (''Expected '' @ quoted_name '';'' @ '' or newline in for clause'') r
             else on_ok (gparse_do_group cl (skip_sequential_sep r)) (\<lambda>do_grp s.
               parsed (multi G_FOR_CLAUSE [Some (g_node G_WORD_NODE (D_Token (here_token p))),
                 Some (g_node G_NAME_NODE (D_Token (here_token (parser_advance p)))), node_of c, Some do_grp]) s))"
    by (assumption | rule good_rules r(1) ran_sequential_sep good_do_group_later [OF assms]
        | (use left r(2,3) left_sequential_sep [of r] in \<open>auto\<close>; fail))+
  with True c show ?thesis by (simp add: gparse_for_clause_def take_token_here q_def [symmetric] Let_def)
next
  case False
  then show ?thesis unfolding gparse_for_clause_def Let_def take_token_here prod.case
    by (auto intro!: good_rules)
qed

lemma ran_here_left: "ran p M q \<Longrightarrow> 0 < tokens_left q \<Longrightarrow> ran p (M + {#here_token q#}) (parser_advance q)"
  by (rule ran_trans, assumption)
    (simp add: ran_def parser_advance_def list_all2_refl between_def take_Suc_conv_app_nth tokens_left_def here_token_def)

lemma promote_rbrace_ran: "promote_rbrace n offset p = Some q \<Longrightarrow> ran p {#} q \<and> tokens_left q = tokens_left p"
proof (induction n arbitrary: offset)
  case (Suc n)
  obtain t where t: "parser_peek_token p offset = Some t" using Suc.prems by (auto split: option.splits)
  obtain r b where r: "parser_token_try_promote_to_rbrace p offset = (r, b)" by force
  then have "ran p {#} r" "tokens_left r = tokens_left p"
    using ran_promote [of "''}''" TOKEN_RBRACE p offset r b] left_promote [of "''}''" TOKEN_RBRACE p offset]
    by (simp_all add: parser_token_try_promote_to_rbrace_def reserved_words_def)
  with Suc t r show ?case by (auto split: if_splits)
qed simp

lemma good_brace_group:
  assumes "cl_ok (tokens_left p) cl"
  shows "good p (gparse_brace_group cl p)"
proof (cases "parser_current_token_type p = TOKEN_LBRACE \<and> promote_rbrace (tokens_left p) 1 p \<noteq> None")
  case True
  then obtain q where q: "promote_rbrace (tokens_left p) 1 p = Some q" by auto
  note r = promote_rbrace_ran [OF q]
  have pos: "0 < tokens_left p" using True by (auto dest!: left_type)
  have adv: "ran p {#here_token q#} (parser_advance q)" "tokens_left (parser_advance q) < tokens_left p"
    using ran_here_left [OF conjunct1 [OF r]] r pos by simp_all
  show ?thesis
    unfolding gparse_brace_group_def Let_def take_token_here prod.case if_not_P [OF not_not [THEN iffD2, OF conjunct1 [OF True]]]
      q option.case
    by (assumption | rule good_rules cl_okD [OF assms] adv | (simp only: sum.case node_of_def; fail)
        | (use adv(2) in \<open>auto dest!: left_type\<close>; fail) | simp only: sum.case node_of_def)+
next
  case False
  then show ?thesis unfolding gparse_brace_group_def Let_def take_token_here prod.case
    by (auto intro!: good_rules split: option.split)
qed

lemma good_violation: "good p (Some None)"
  by (simp add: good_def)

lemma good_case_prod:
  assumes "good_out q out" "ran p M q"
    and "\<And>status r. ran p M r \<Longrightarrow> tokens_left r \<le> tokens_left q \<Longrightarrow> good p (g (Inl status) r)"
    and "\<And>x r. ran p (M + toks x) r \<Longrightarrow> tokens_left r < tokens_left q \<Longrightarrow> typed x \<Longrightarrow> good p (g (Inr x) r)"
  shows "good p (case out of (s, r) \<Rightarrow> g s r)"
  using assms(1,2) by (cases rule: good_outE) (use assms(3,4) in auto)

lemma good_on_result_back:
  \<comment> \<open>where a failure takes the position back to that of \<open>q\<close>\<close>
  assumes "good r m" "ran p M q" "0 < tokens_left q" "ran q N r"
    and "\<And>status s. ran p M s \<Longrightarrow> tokens_left s = tokens_left q \<Longrightarrow> good p (f (Inl status) s)"
    and "\<And>x s. ran p (M + N + toks x) s \<Longrightarrow> tokens_left s < tokens_left r \<Longrightarrow> typed x \<Longrightarrow> good p (g x s)"
  shows "good p (on_result m (\<lambda>res s. case res of
      Inl status \<Rightarrow> f (Inl status) (parser_rewind_to_position s (pr_position q)) | Inr x \<Rightarrow> g x s))"
proof (cases "\<exists>status s. m = Some (Some (Inl status, s))")
  case True
  then obtain status s where m: "m = Some (Some (Inl status, s))" by blast
  with assms(1) have s: "ran r {#} s" by (simp add: good_def)
  let ?b = "parser_rewind_to_position s (pr_position q)"
  have again: "ran p M ?b" using ran_rewind [OF assms(2) ran_trans [OF assms(4) s] assms(3)] .
  have "pr_position q < length (pr_tokens s)" "length (pr_tokens s) = length (pr_tokens q)"
    using assms(3) ran_length [OF ran_trans [OF assms(4) s]] by (simp_all add: tokens_left_def)
  then have "tokens_left ?b = tokens_left q" by (simp add: parser_rewind_to_position_def tokens_left_def)
  with assms(5) again m show ?thesis by (simp add: on_result_def)
next
  case False
  have "good p (on_result m (\<lambda>res s. case res of Inl status \<Rightarrow> failed status s | Inr x \<Rightarrow> g x s))"
    by (rule good_on_result [OF assms(1) ran_trans [OF assms(2,4)]]) (auto intro: good_failed assms(6))
  with False show ?thesis by (auto simp: on_result_def split: option.splits prod.splits sum.splits)
qed

subsection \<open>Conditionals and case\<close>

lemma ran_opt: "ran p (M + toks_of None) q \<longleftrightarrow> ran p M q"
  by simp

lemma good_else_part:
  "cl_ok (tokens_left p) cl \<Longrightarrow> tokens_left p < n \<Longrightarrow> good p (gparse_else_part n cl p)"
proof (induction n arbitrary: p)
  case (Suc n)
  obtain p1 e where p1: "(if parser_current_token_type p = TOKEN_WORD then parser_token_try_promote_to_elif p 0
      else (p, False)) = (p1, e)" by force
  define q where "q = (if parser_current_token_type p = TOKEN_WORD \<and> \<not> e
      then closing_keyword parser_token_try_promote_to_else p1 else p1)"
  have "ran p {#} p1" "tokens_left p1 = tokens_left p"
    using p1 ran_promote [of "''elif''" TOKEN_ELIF p 0] left_promote [of "''elif''" TOKEN_ELIF p 0]
    by (auto simp: parser_token_try_promote_to_elif_def reserved_words_def prod_eq_iff split: if_splits)
  then have q: "ran p {#} q" "tokens_left q = tokens_left p" by (auto simp: q_def intro: ran_keyword)
  have IH: "good r (gparse_else_part n cl r)" if "tokens_left r < tokens_left p" for r
    using Suc.IH [of r] cl_ok_le [OF Suc.prems(1)] Suc.prems(2) that by simp
  have "good p (if parser_current_token_type q = TOKEN_ELIF
         then on_ok (cl (parser_advance q)) (\<lambda>cond p.
           if parser_current_token_type (closing_keyword parser_token_try_promote_to_then p) \<noteq> TOKEN_THEN
           then error (''Expected '' @ quoted_name ''then'' @ '' after elif condition'')
             (closing_keyword parser_token_try_promote_to_then p)
           else on_ok (cl (parser_advance (closing_keyword parser_token_try_promote_to_then p))) (\<lambda>then_body p.
             on_result (gparse_else_part n cl p) (\<lambda>else_part p.
               parsed (multi G_ELSE_PART [Some cond, Some then_body, node_of else_part]) p)))
         else if parser_current_token_type q = TOKEN_ELSE
         then on_ok (cl (parser_advance q)) (\<lambda>body p. parsed (multi G_ELSE_PART [Some body]) p)
         else failed PARSE_ERROR q)"
    by (assumption | rule good_rules q(1) cl_okD [OF Suc.prems(1)] ran_advanceI IH
        | (use q(2) in \<open>auto simp: node_of_def dest!: left_type\<close>; fail))+
  then show ?case unfolding gparse_else_part.simps Let_def p1 prod.case q_def [symmetric] by assumption
qed simp

lemma good_if_clause:
  assumes "cl_ok (tokens_left p) cl" "tokens_left p \<le> n"
  shows "good p (gparse_if_clause n cl p)"
proof -
  have else_part: "good r (gparse_else_part n cl r)" if "tokens_left r < tokens_left p" for r
    using good_else_part [OF cl_ok_le [OF assms(1)]] assms(2) that by simp
  show ?thesis unfolding gparse_if_clause_def Let_def take_token_here prod.case
    by (assumption | rule good_rules cl_okD [OF assms(1)] else_part
        | (auto simp: node_of_def ac_simps dest!: left_type; fail))+
qed

lemma good_case_patterns:
  assumes "\<And>l ps r M q. ran p (toks_of l + toks ps + toks r) q \<Longrightarrow> tokens_left q < tokens_left p \<Longrightarrow>
      pred_option typed l \<Longrightarrow> typed ps \<Longrightarrow> typed r \<Longrightarrow> good p (f l ps r q)"
  shows "good p (case_patterns p f)"
proof -
  obtain l q where l: "take_lparen p = (l, q)" by force
  then have q: "ran p (toks_of l) q" "tokens_left q \<le> tokens_left p" "pred_option typed l"
    using ran_here [OF ran_refl, of p] by (auto simp: take_lparen_def take_token_here split: if_splits)
  have "good p (case gparse_pattern_list q of (s, r) \<Rightarrow> case s of
        Inl status \<Rightarrow> failed status r
      | Inr patterns \<Rightarrow>
          if parser_current_token_type r \<noteq> TOKEN_RPAREN
          then error (''Expected '' @ quoted_name '')'' @ '' after pattern list'') r
          else f l patterns (g_node G_WORD_NODE (D_Token (here_token r))) (parser_advance r))"
  proof (rule good_case_prod [OF good_pattern_list q(1)], goal_cases)
    case (1 status r)
    then show ?case by (simp add: good_failed)
  next
    case (2 x r)
    show ?case
    proof (cases "parser_current_token_type r = TOKEN_RPAREN")
      case True
      have "ran p (toks_of l + toks x + {#here_token r#}) (parser_advance r)"
        using ran_here [OF 2(1)] True by simp
      with True 2 q left_type [OF True] show ?thesis by (simp add: assms)
    next
      case False
      with 2 show ?thesis by (auto intro: good_error)
    qed
  qed
  then show ?thesis unfolding case_patterns_def Let_def l prod.case take_token_here by assumption
qed

lemma left_skip_less: "tokens_left q < a \<Longrightarrow> tokens_left (parser_skip_newlines q) < a"
  using left_skip [of q] by simp

lemma left_advance_less: "tokens_left q < a \<Longrightarrow> tokens_left (parser_advance q) < a"
  by simp

lemmas left_less = left_skip_less left_advance_less

lemma good_case_item_ns:
  assumes "cl_ok (tokens_left p) cl"
  shows "good p (gparse_case_item_ns cl p)"
  unfolding gparse_case_item_ns_def
  by (rule good_case_patterns)
    (assumption | rule good_rules cl_okD [OF assms] left_skip_less | (auto simp: node_of_def; fail))+

lemma good_case_item:
  assumes "cl_ok (tokens_left p) cl"
  shows "good p (gparse_case_item cl p)"
  unfolding gparse_case_item_def Let_def take_token_here prod.case
  by (rule good_case_patterns, rule good_on_result [OF cl_okD [OF assms]], assumption, assumption,
      simp_all only: node_of_def sum.case if_True if_False option.distinct simp_thms)
    (assumption | rule good_rules left_less | (auto dest!: left_type; fail))+

lemma good_case_list_loop:
  "ran p M q \<Longrightarrow> all_toks list \<subseteq># M \<Longrightarrow> list_all typed list \<Longrightarrow> tokens_left q < tokens_left p \<Longrightarrow>
   tokens_left q < n \<Longrightarrow> cl_ok (tokens_left q) cl \<Longrightarrow> good p (case_list_loop n cl list q)"
proof (induction n arbitrary: M list q)
  case (Suc n)
  have step: "good p (case_list_loop n cl (g_list_append list x) r)"
    if "ran p (M + toks x) r" "tokens_left r < tokens_left q" "typed x" for x r
    using that Suc.prems cl_ok_le [OF Suc.prems(6)]
    by (intro Suc.IH [OF that(1)]) (auto simp: g_list_append_def subset_mset.add_right_mono)
  show ?case
    unfolding case_list_loop.simps
    by (assumption | rule good_rules good_case_item Suc.prems(1,6) step | simp only: sum.case
        | (use Suc.prems in \<open>auto intro: order.trans\<close>; fail))+
qed simp

lemma good_case_list:
  assumes "cl_ok (tokens_left p) cl" "tokens_left p \<le> n"
  shows "good p (gparse_case_list n cl p)"
  unfolding gparse_case_list_def
  by (rule good_on_ok [OF good_case_item [OF assms(1)] ran_refl], rule good_case_list_loop)
    (use assms in \<open>auto intro: cl_ok_le\<close>)

lemma good_case_list_ns:
  assumes "cl_ok (tokens_left p) cl" "tokens_left p \<le> n"
  shows "good p (gparse_case_list_ns n cl p)"
  unfolding gparse_case_list_ns_def Let_def
  by (rule good_on_result [OF good_case_list [OF assms] ran_refl];
      simp only: sum.case; rule good_on_ok [OF good_case_item_ns]; (assumption | rule good_rules | (use assms in \<open>auto intro: cl_ok_le simp: g_list_append_def\<close>; fail))+)

lemma good_case_clause:
  assumes "cl_ok (tokens_left p) cl" "tokens_left p \<le> n"
  shows "good p (gparse_case_clause n cl p)"
proof -
  have lists: "good r (gparse_case_list n cl r)" "good r (gparse_case_list_ns n cl r)"
    if "tokens_left r < tokens_left p" for r
    using that good_case_list [of r cl n] good_case_list_ns [of r cl n] cl_ok_le [OF assms(1)] assms(2) by auto
  show ?thesis
  proof (cases "parser_current_token_type p = TOKEN_CASE \<and> parser_current_token_type (parser_advance p) = TOKEN_WORD")
    case True
    let ?a = "parser_advance p"
    let ?q = "promote_to_in (parser_skip_newlines (parser_advance ?a))"
    let ?H = "{#here_token p#} + {#here_token ?a#}"
    have a: "ran p ?H ?q" using ran_here [OF ran_here [OF ran_refl]] True by (simp add: ran_keyword ran_skipI)
    have left: "tokens_left ?q < tokens_left p" using True left_skip [of "parser_advance ?a"] by (auto dest!: left_type)
    define K where "K = (\<lambda>r p'. let p' = closing_keyword parser_token_try_promote_to_esac p' in
                 if parser_current_token_type p' \<noteq> TOKEN_ESAC
                 then error (''Expected '' @ quoted_name ''esac'' @ '' to close case statement'') p'
                 else let (esac_tok, p') = take_token G_WORD_NODE p';
                          node = multi G_CASE_CLAUSE [Some (g_node G_WORD_NODE (D_Token (here_token p))),
                            Some (g_node G_WORD_NODE (D_Token (here_token ?a))),
                            Some (g_node G_WORD_NODE (D_Token (here_token ?q))), Some esac_tok]
                   in case r of
                        Inr list \<Rightarrow> parsed (multi G_CASE_CLAUSE [Some node, Some list]) p'
                      | Inl (_::parse_status) \<Rightarrow> parsed node p')"
    have fin: "good p (K r s)" if "ran p (?H + {#here_token ?q#} + toks_of (node_of r)) s"
      "tokens_left s < tokens_left p" "pred_option typed (node_of r)" for r s
      unfolding K_def Let_def take_token_here prod.case
      using that by (cases r) ((assumption | rule good_rules
        | (auto simp: node_of_def ac_simps dest!: left_type; fail) | simp only: sum.case)+)
    have "good p (if parser_current_token_type ?q \<noteq> TOKEN_IN
             then error (''Expected '' @ quoted_name ''in'' @ '' in case statement'') ?q
             else on_result (gparse_case_list n cl (parser_skip_newlines (parser_advance ?q))) (\<lambda>r p.
               on_result (case r of Inl _ \<Rightarrow> gparse_case_list_ns n cl p | Inr list \<Rightarrow> parsed list p) K))"
    proof (cases "parser_current_token_type ?q = TOKEN_IN")
      case True
      let ?c = "parser_skip_newlines (parser_advance ?q)"
      have c: "ran p (?H + {#here_token ?q#}) ?c" using ran_here [OF a] True by (simp add: ran_skipI)
      have leftc: "tokens_left ?c < tokens_left p" using left left_skip [of "parser_advance ?q"] left_type [OF True] by simp
      have "good p (on_result (gparse_case_list n cl ?c) (\<lambda>r p.
               on_result (case r of Inl _ \<Rightarrow> gparse_case_list_ns n cl p | Inr list \<Rightarrow> parsed list p) K))"
      proof (rule good_on_result [OF lists(1) [OF leftc] c], goal_cases)
        case (1 status r)
        with leftc show ?case unfolding sum.case
          by (intro good_on_result [OF lists(2)] fin) (auto simp: node_of_def)
      next
        case (2 x r)
        with leftc show ?case by (simp add: on_result_def parsed_def fin node_of_def)
      qed
      with True show ?thesis by simp
    qed (simp add: good_error [OF a])
    with True show ?thesis unfolding gparse_case_clause_def K_def Let_def take_token_here prod.case
      by (simp only: simp_thms if_False)
  next
    case False
    then show ?thesis unfolding gparse_case_clause_def Let_def take_token_here prod.case
      by (auto intro!: good_rules)
  qed
qed

end
