(* ===== verification/Parser_Total.thy ===== *)
theory Parser_Total
  imports
    Parser_Good
begin

section \<open>Every input is parsed or refused\<close>

text \<open>
  The rest of the grammar, up to programs.  The bound on the rounds is a bound on the tokens left:
  each round of a loop and each nested compound list takes a token.
\<close>

subsection \<open>Compound commands and functions\<close>

lemma promote_or:
  assumes "(target, ty) \<in> set reserved_words" "ran q {#} other \<and> tokens_left other = tokens_left q"
  shows "ran q {#} (let (p1, b) = parser_token_try_promote target ty q 0 in if b then p1 else other) \<and>
    tokens_left (let (p1, b) = parser_token_try_promote target ty q 0 in if b then p1 else other) = tokens_left q"
proof -
  obtain p1 b where "parser_token_try_promote target ty q 0 = (p1, b)" by force
  with ran_promote [OF assms(1) this] left_promote [of target ty q 0] assms(2) show ?thesis by simp
qed

lemma promote_compound_same: "ran q {#} (promote_compound q) \<and> tokens_left (promote_compound q) = tokens_left q"
  unfolding promote_compound_def promote_defs
  by (intro promote_or conjI ran_fst_promote left_promote) (simp_all add: reserved_words_def)

lemma good_wrap: "ran p (toks x) q \<Longrightarrow> tokens_left q < tokens_left p \<Longrightarrow> typed x \<Longrightarrow>
    good p (parsed (g_node G_COMPOUND_COMMAND (D_Child x)) q)"
  by (rule good_parsed) (auto simp: typed_g_node)

lemma good_compound_command:
  assumes "cl_ok (tokens_left p) cl" "tokens_left p \<le> n"
  shows "good p (gparse_compound_command n cl p)"
proof -
  define q where "q = promote_compound p"
  have q: "ran p {#} q" "tokens_left q = tokens_left p" using promote_compound_same [of p] by (simp_all add: q_def)
  have ok: "cl_ok (tokens_left q) cl" "tokens_left q \<le> n" using assms q(2) by simp_all
  have wrap: "good p (on_ok m (\<lambda>child p. parsed (g_node G_COMPOUND_COMMAND (D_Child child)) p))" if "good q m" for m
    by (rule good_on_ok [OF that q(1)]) (auto intro: good_wrap simp: q(2))
  show ?thesis unfolding gparse_compound_command_def Let_def q_def [symmetric]
    by (auto intro!: good_violation wrap good_error [OF q(1)] good_brace_group good_subshell good_for_clause
        good_case_clause good_if_clause good_while_clause good_until_clause ok)
qed

lemma good_compound_later: "cl_ok m cl \<Longrightarrow> m \<le> n \<Longrightarrow> tokens_left q \<le> m \<Longrightarrow> good q (gparse_compound_command n cl q)"
  by (rule good_compound_command) (auto intro: cl_ok_le)

lemma good_function_body:
  assumes "ran p (toks a + toks b + toks c) q" "typed a" "typed b" "typed c" "tokens_left q < tokens_left p"
    "cl_ok (tokens_left p) cl" "tokens_left p \<le> n"
  shows "good p (function_body n cl [a, b, c] q)"
proof (cases "parser_at_end q")
  case True
  then show ?thesis by (simp add: function_body_def good_failed [OF ran_errorI [OF assms(1)]])
next
  case False
  have "good p (on_result (gparse_compound_command n cl q) (\<lambda>r p.
        case r of
          Inl status \<Rightarrow>
            failed status (if status = PARSE_ERROR then parser_set_error function_error p else p)
        | Inr compound \<Rightarrow>
            (case gparse_redirect_list p of
               (Inr redirects, p) \<Rightarrow>
                 parsed (multi G_FUNCTION_DEFINITION
                   (map Some [a, b, c] @ [Some (multi G_FUNCTION_BODY [Some compound, Some redirects])])) p
             | (Inl _, p) \<Rightarrow> parsed (multi G_FUNCTION_DEFINITION (map Some [a, b, c] @ [Some compound])) p)))"
  proof (rule good_on_result [OF good_compound_later [OF assms(6,7)] assms(1)], goal_cases)
    case (2 status r)
    then show ?case by (auto intro: good_failed ran_errorI)
  next
    case (3 x r)
    show ?case unfolding sum.case
    proof (rule good_case_prod [OF good_redirect_list 3(1)], goal_cases)
      case (1 status r)
      with 3 assms show ?case by (auto intro!: good_parsed simp: typed_g_node)
    next
      case (2 x r)
      with 3 assms show ?case by (auto intro!: good_parsed simp: typed_g_node)
    qed
  qed (use assms in simp)
  with False show ?thesis by (simp add: function_body_def)
qed

lemma good_function_definition:
  assumes "cl_ok (tokens_left p) cl" "tokens_left p \<le> n"
  shows "good p (gparse_function_definition n cl p)"
proof (cases "parser_current_token_type p = TOKEN_WORD \<and> reserved_name p = None \<and>
    map_option tok_type (parser_peek_token p 1) = Some TOKEN_LPAREN")
  case True
  let ?a = "parser_advance p" and ?b = "parser_advance (parser_advance p)"
  have "parser_current_token_type ?a = TOKEN_LPAREN"
    using True by (auto simp: parser_peek_token_def parser_current_token_type_def parser_current_token_def
        parser_advance_def split: if_splits)
  then have b: "ran p ({#here_token p#} + {#here_token ?a#}) ?b"
    using ran_here [OF ran_here [OF ran_refl]] True by simp
  have left: "tokens_left ?b < tokens_left p" using True by (auto dest!: left_type)
  show ?thesis
  proof (cases "parser_current_token_type ?b = TOKEN_RPAREN")
    case rparen: True
    let ?c = "parser_skip_newlines (parser_advance ?b)"
    have c: "ran p ({#here_token p#} + {#here_token ?a#} + {#here_token ?b#}) ?c"
      using ran_here [OF b] rparen by (simp add: ran_skipI)
    have "tokens_left ?c < tokens_left p" using left left_skip [of "parser_advance ?b"] by simp
    then have "good p (function_body n cl [g_node G_FNAME (D_Token (here_token p)),
        g_node G_WORD_NODE (D_Token (here_token ?a)), g_node G_WORD_NODE (D_Token (here_token ?b))] ?c)"
      using c assms by (intro good_function_body) (simp_all add: typed_g_node)
    with True rparen show ?thesis by (simp add: gparse_function_definition_def take_token_here)
  next
    case False
    with True b show ?thesis by (simp add: gparse_function_definition_def take_token_here good_error)
  qed
next
  case False
  then show ?thesis unfolding gparse_function_definition_def
    by (auto intro!: good_rules split: option.split)
qed

lemma typed_command [simp]: "typed (command_node x) = typed x"
  by (simp add: command_node_def)

lemma toks_command [simp]: "toks (command_node x) = toks x"
  by (simp add: command_node_def)

lemma good_compound_with_redirects:
  assumes "ran p (toks x) q" "typed x" "tokens_left q < tokens_left p"
  shows "good p (compound_with_redirects x q)"
  unfolding compound_with_redirects_def
  by (rule good_case_prod [OF good_redirect_list assms(1)]; unfold sum.case)
    (use assms in \<open>auto intro!: good_parsed\<close>)

lemma good_command:
  assumes "cl_ok (tokens_left p) cl" "tokens_left p \<le> n"
  shows "good p (gparse_command n cl p)"
  unfolding gparse_command_def
proof (rule good_on_result [OF good_function_definition [OF assms] ran_refl], goal_cases)
  case (1 status r)
  note left = 1(2)
  have "good p (on_result (gparse_compound_command n cl r) (\<lambda>r p.
             case r of
               Inr compound \<Rightarrow> compound_with_redirects compound p
             | Inl status \<Rightarrow>
                 if status = PARSE_INCOMPLETE then failed PARSE_INCOMPLETE p
                 else (case gparse_simple_command p of
                         (Inr simple, p) \<Rightarrow> parsed (command_node simple) p
                       | (Inl status, p) \<Rightarrow> failed status p)))"
  proof (rule good_on_result [OF good_compound_later [OF assms 1(2)] 1(1)], goal_cases)
    case (1 status r)
    have "good p (case gparse_simple_command r of
                         (Inr simple, p) \<Rightarrow> parsed (command_node simple) p
                       | (Inl status, p) \<Rightarrow> failed status p)"
      by (rule good_case_prod [OF good_simple_command 1(1)]; unfold sum.case)
        (use 1 left in \<open>auto intro!: good_failed good_parsed\<close>)
    with 1 show ?case by (simp add: good_failed)
  qed (use 1 in \<open>auto intro: good_compound_with_redirects\<close>)
  with 1 show ?case by (simp add: good_failed)
qed (auto intro: good_parsed)

lemma good_command_later: "cl_ok m cl \<Longrightarrow> m \<le> n \<Longrightarrow> tokens_left q \<le> m \<Longrightarrow> good q (gparse_command n cl q)"
  by (rule good_command) (auto intro: cl_ok_le)

subsection \<open>Pipelines and lists\<close>

lemma good_pipe_loop:
  "ran p M q \<Longrightarrow> all_toks list \<subseteq># M \<Longrightarrow> list_all typed list \<Longrightarrow> tokens_left q < tokens_left p \<Longrightarrow>
   tokens_left q < n \<Longrightarrow> cl_ok (tokens_left q) cl \<Longrightarrow> good p (pipe_loop n cl list q)"
proof (induction n arbitrary: M list q)
  case (Suc n)
  show ?case
  proof (cases "parser_current_token_type q = TOKEN_PIPE")
    case True
    let ?t = "g_node G_WORD_NODE (D_Token (here_token q))" and ?r = "parser_skip_newlines (parser_advance q)"
    have r: "ran p (M + {#here_token q#}) ?r" "tokens_left ?r < tokens_left q"
      using ran_here [OF Suc.prems(1)] True left_skip [of "parser_advance q"] left_type [OF True]
      by (simp_all add: ran_skipI)
    have "good p (on_ok (gparse_command n cl ?r) (\<lambda>next p.
        pipe_loop n cl (g_list_append (g_list_append list ?t) next) p))"
      using Suc.prems r
      by (intro good_on_ok [OF good_command_later [OF Suc.prems(6)] r(1)] Suc.IH)
        (auto simp: g_list_append_def typed_g_node intro: cl_ok_le intro!: subset_mset.add_mono)
    with True show ?thesis by (simp add: take_token_here)
  next
    case False
    with Suc.prems show ?thesis by (auto intro!: good_parsed simp: typed_g_node)
  qed
qed simp


lemma good_pipe_sequence:
  assumes "cl_ok (tokens_left p) cl" "tokens_left p \<le> n"
  shows "good p (gparse_pipe_sequence n cl p)"
  unfolding gparse_pipe_sequence_def
  by (rule good_on_ok [OF good_command [OF assms] ran_refl], rule good_pipe_loop)
    (use assms in \<open>auto intro: cl_ok_le\<close>)

lemma good_pipeline:
  assumes "cl_ok (tokens_left p) cl" "tokens_left p \<le> n"
  shows "good p (gparse_pipeline n cl p)"
proof -
  define q where "q = closing_keyword parser_token_try_promote_to_bang p"
  have q: "ran p {#} q" "tokens_left q = tokens_left p" by (simp_all add: q_def ran_keyword)
  have seq: "good p (on_ok (gparse_pipe_sequence n cl r)
      (\<lambda>seq p. parsed (g_node G_PIPELINE (D_List (g_list_append list seq))) p))"
    if "ran p (all_toks list) r" "tokens_left r \<le> tokens_left p" "list_all typed list" for r list
  proof (rule good_on_ok [OF good_pipe_sequence that(1)], goal_cases)
    case (3 x s)
    with that show ?case by (auto intro!: good_parsed simp: typed_g_node g_list_append_def)
  qed (use that assms in \<open>auto intro: cl_ok_le\<close>)
  show ?thesis
  proof (cases "parser_current_token_type q = TOKEN_BANG")
    case True
    have "good p (on_ok (gparse_pipe_sequence n cl (parser_advance q))
      (\<lambda>seq p. parsed (g_node G_PIPELINE (D_List (g_list_append
        [g_node G_WORD_NODE (D_Token (here_token q))] seq))) p))"
      using ran_here [OF q(1)] True left_type [OF True] q(2) by (intro seq) (simp_all add: typed_g_node)
    with True show ?thesis by (simp add: gparse_pipeline_def q_def [symmetric] take_token_here Let_def)
  next
    case False
    with seq [of "[]" q] q show ?thesis by (simp add: gparse_pipeline_def q_def [symmetric] Let_def good_failed)
  qed
qed

lemma good_pipeline_later: "cl_ok m cl \<Longrightarrow> m \<le> n \<Longrightarrow> tokens_left q \<le> m \<Longrightarrow> good q (gparse_pipeline n cl q)"
  by (rule good_pipeline) (auto intro: cl_ok_le)

lemma good_and_or_loop:
  "ran p M q \<Longrightarrow> toks left \<subseteq># M \<Longrightarrow> typed left \<Longrightarrow> tokens_left q < tokens_left p \<Longrightarrow>
   tokens_left q < n \<Longrightarrow> cl_ok (tokens_left q) cl \<Longrightarrow> good p (and_or_loop n cl left q)"
proof (induction n arbitrary: M left q)
  case (Suc n)
  show ?case
  proof (cases "parser_current_token_type q = TOKEN_AND_IF \<or> parser_current_token_type q = TOKEN_OR_IF")
    case True
    let ?t = "g_node G_AND_OR (D_Token (here_token q))" and ?r = "parser_skip_newlines (parser_advance q)"
    have t: "parser_current_token_type q \<noteq> TOKEN_EOF" using True by auto
    have r: "ran q {#here_token q#} ?r" "tokens_left ?r < tokens_left q" "0 < tokens_left q"
      using ran_here [OF ran_refl t] True left_skip [of "parser_advance q"] by (auto simp: ran_skipI dest!: left_type)
    have "good p (on_result (gparse_pipeline n cl ?r) (\<lambda>res s.
          case res of
            Inl status \<Rightarrow> parsed left (parser_rewind_to_position s (pr_position q))
          | Inr right \<Rightarrow> and_or_loop n cl (multi G_AND_OR [Some left, Some ?t, Some right]) s))"
    proof (rule good_on_result_back [OF good_pipeline_later [OF Suc.prems(6)] Suc.prems(1) r(3,1)], goal_cases)
      case (4 x s)
      with Suc.prems r show ?case
        by (intro Suc.IH) (auto simp: typed_g_node intro: cl_ok_le intro!: subset_mset.add_mono)
    qed (use Suc.prems r in \<open>auto intro: good_parsed\<close>)
    with True show ?thesis by (auto simp: take_token_here Let_def)
  next
    case False
    with Suc.prems show ?thesis by (auto intro: good_parsed)
  qed
qed simp

lemma good_and_or:
  assumes "cl_ok (tokens_left p) cl" "tokens_left p \<le> n"
  shows "good p (gparse_and_or n cl p)"
  unfolding gparse_and_or_def
  by (rule good_on_ok [OF good_pipeline [OF assms] ran_refl], rule good_and_or_loop)
    (use assms in \<open>auto intro: cl_ok_le\<close>)

lemma good_and_or_later: "cl_ok m cl \<Longrightarrow> m \<le> n \<Longrightarrow> tokens_left q \<le> m \<Longrightarrow> good q (gparse_and_or n cl q)"
  by (rule good_and_or) (auto intro: cl_ok_le)

lemma sub_sum: "A \<subseteq># M \<Longrightarrow> A + (X + Y) \<subseteq># M + X + Y" for A M X Y :: "token multiset"
  by (simp add: add.assoc subset_mset.add_right_mono)

lemma good_term_loop:
  assumes separator: "\<And>p. good_out p (separator p)" and ty: "\<And>xs. typed (g_node ty (D_List xs)) = list_all typed xs"
  shows "ran p M q \<Longrightarrow> all_toks list \<subseteq># M \<Longrightarrow> list_all typed list \<Longrightarrow> tokens_left q < tokens_left p \<Longrightarrow>
   tokens_left q < n \<Longrightarrow> cl_ok (tokens_left q) cl \<Longrightarrow> good p (term_loop n separator ty cl list q)"
proof (induction n arbitrary: M list q)
  case (Suc n)
  from separator [of q] ran_refl show ?case
  proof (cases rule: good_outE)
    case (1 status r)
    with Suc.prems show ?thesis
      by (auto intro!: good_parsed [OF ran_trans0 [OF Suc.prems(1)]] simp: ty Let_def simp del: typed_g_node)
  next
    case (2 x r)
    have "good p (on_result (gparse_and_or n cl r) (\<lambda>res s.
            case res of
              Inl status \<Rightarrow> parsed (g_node ty (D_List list)) (parser_rewind_to_position s (pr_position q))
            | Inr next \<Rightarrow> term_loop n separator ty cl (g_list_append (g_list_append list x) next) s))"
    proof (rule good_on_result_back [OF good_and_or_later [OF Suc.prems(6)] Suc.prems(1) _ 2(2)], goal_cases)
      case (5 x s)
      with Suc.prems 2 show ?case
        by (intro Suc.IH) (auto simp: g_list_append_def intro: cl_ok_le intro!: sub_sum)
    qed (use Suc.prems 2 in \<open>auto intro: good_parsed simp: ty simp del: typed_g_node\<close>)
    with 2 show ?thesis by (simp add: Let_def)
  qed
qed simp


lemma term_loop_typed: "typed (g_node G_TERM (D_List xs)) = list_all typed xs"
  "typed (g_node G_LIST (D_List xs)) = list_all typed xs"
  by (simp_all add: typed_g_node)

lemma good_term:
  assumes "cl_ok (tokens_left p) cl" "tokens_left p \<le> n"
  shows "good p (gparse_term n cl p)"
  unfolding gparse_term_def
  by (rule good_on_ok [OF good_and_or [OF assms] ran_refl], rule good_term_loop [OF good_separator term_loop_typed(1)])
    (use assms in \<open>auto intro: cl_ok_le\<close>)

lemma good_compound_list: "tokens_left p < n \<Longrightarrow> good p (gparse_compound_list n p)"
proof (induction n arbitrary: p)
  case (Suc n)
  have left: "tokens_left (parser_skip_newlines p) \<le> n" using left_skip [of p] Suc.prems by simp
  have cl: "cl_ok (tokens_left (parser_skip_newlines p)) (gparse_compound_list n)"
    unfolding cl_ok_def using left Suc.IH by auto
  show ?case unfolding gparse_compound_list.simps
  proof (rule good_on_ok [OF good_term [OF cl left] ran_skip], goal_cases)
    case (1 x r)
    show ?case
      by (rule good_case_prod [OF good_separator 1(1)]; unfold sum.case)
        (use 1 left_skip [of p] in \<open>auto intro!: good_parsed simp: typed_g_node\<close>)
  qed
qed simp

lemma compound_list_ok: "m \<le> n \<Longrightarrow> cl_ok m (gparse_compound_list n)"
  by (simp add: cl_ok_def good_compound_list)

subsection \<open>Programs\<close>

lemma good_list:
  assumes "tokens_left p \<le> n"
  shows "good p (gparse_list n p)"
  unfolding gparse_list_def
proof (rule good_on_ok [OF good_and_or [OF compound_list_ok] ran_refl], goal_cases)
  case (3 x r)
  with assms show ?case
    by (intro good_term_loop [OF good_separator_op term_loop_typed(2)]) (auto intro: compound_list_ok)
qed (use assms in auto)

lemma good_complete_command:
  assumes "tokens_left p \<le> n"
  shows "good p (gparse_complete_command n p)"
  unfolding gparse_complete_command_def
proof (rule good_on_ok [OF good_list [OF assms] ran_refl], goal_cases)
  case (1 x r)
  show ?case
    by (rule good_case_prod [OF good_separator_op 1(1)])
      (use 1 in \<open>auto intro!: good_parsed simp: typed_g_node node_of_def\<close>)
qed

lemma good_complete_commands_loop:
  "ran p M q \<Longrightarrow> all_toks list \<subseteq># M \<Longrightarrow> list_all typed list \<Longrightarrow> tokens_left q < tokens_left p \<Longrightarrow>
   tokens_left q < m \<Longrightarrow> tokens_left q \<le> n \<Longrightarrow> good p (complete_commands_loop m n list q)"
proof (induction m arbitrary: M list q)
  case (Suc m)
  show ?case
  proof (cases "parser_current_token_type q = TOKEN_NEWLINE")
    case True
    let ?r = "parser_skip_newlines q"
    have r: "ran p M ?r" "tokens_left ?r \<le> tokens_left q"
      using ran_skipI [OF Suc.prems(1)] left_skip by simp_all
    have "good p (on_result (gparse_complete_command n ?r) (\<lambda>res s.
        case res of
          Inr next \<Rightarrow> complete_commands_loop m n (g_list_append list next) s
        | Inl status \<Rightarrow>
            if status = PARSE_EMPTY then parsed (g_node G_COMPLETE_COMMANDS (D_List list)) s
            else failed status s))"
    proof (rule good_on_result [OF good_complete_command r(1)], goal_cases)
      case (2 status s)
      with Suc.prems r show ?case by (auto intro: good_parsed good_failed simp: typed_g_node)
    next
      case (3 x s)
      with Suc.prems r show ?case
        by (auto intro!: Suc.IH [OF 3(1)] subset_mset.add_mono simp: g_list_append_def)
    qed (use Suc.prems r in simp)
    with True show ?thesis by simp
  next
    case False
    with Suc.prems show ?thesis by (auto intro: good_parsed simp: typed_g_node)
  qed
qed simp

lemma good_complete_commands:
  assumes "tokens_left p \<le> n"
  shows "good p (gparse_complete_commands n p)"
proof -
  have "good p (on_ok (gparse_complete_command n p) (\<lambda>cmd p. complete_commands_loop n n [cmd] p))"
    by (rule good_on_ok [OF good_complete_command [OF assms] ran_refl], rule good_complete_commands_loop)
      (use assms in auto)
  then show ?thesis by (simp add: gparse_complete_commands_def good_failed [OF ran_refl])
qed

definition well_parsed :: "parser_t \<Rightarrow> parse_result \<Rightarrow> bool" where
  \<comment> \<open>as \<open>good\<close>, without progress: an empty program has no token\<close>
  "well_parsed p m \<longleftrightarrow> (case m of None \<Rightarrow> False | Some None \<Rightarrow> True
     | Some (Some (Inl _, q)) \<Rightarrow> ran p {#} q
     | Some (Some (Inr x, q)) \<Rightarrow> ran p (toks x) q \<and> typed x)"

lemma well_parsed_program:
  assumes "tokens_left p \<le> n"
  shows "well_parsed p (gparse_program n p)"
proof -
  let ?q = "parser_skip_newlines p"
  have good: "good ?q (gparse_complete_commands n ?q)"
    using good_complete_commands left_skip [of p] assms by simp
  consider "gparse_complete_commands n ?q = Some None"
    | status r where "gparse_complete_commands n ?q = Some (Some (Inl status, r))" "ran ?q {#} r"
    | x r where "gparse_complete_commands n ?q = Some (Some (Inr x, r))" "ran ?q (toks x) r" "typed x"
    using good unfolding good_def by (auto split: option.splits prod.splits sum.splits)
  then show ?thesis
  proof cases
    case (2 status r)
    have "ran p {#} r" using ran_trans [OF ran_skip 2(2)] by simp
    with 2 show ?thesis
      by (auto simp: gparse_program_def on_result_def well_parsed_def failed_def parsed_def intro: ran_skipI)
  next
    case (3 x r)
    have "ran p (toks x) r" using ran_trans [OF ran_skip 3(2)] by simp
    with 3 show ?thesis
      by (auto simp: gparse_program_def on_result_def well_parsed_def parsed_def typed_g_node intro: ran_skipI)
  qed (simp add: gparse_program_def on_result_def well_parsed_def)
qed

lemma well_parsed_parser_parse_program: "well_parsed (parser_clear_error (p\<lparr>pr_position := 0\<rparr>)) (parser_parse_program p)"
  using well_parsed_program [of "parser_clear_error (p\<lparr>pr_position := 0\<rparr>)" "length (pr_tokens p) + 2"]
  by (simp add: parser_parse_program_def parser_clear_error_def tokens_left_def Let_def well_parsed_def failed_def)


end
