(* ===== verification/Parse_Program.thy ===== *)
theory Parse_Program
  imports
    Parse_Session Parser_Total
begin

section \<open>From lines to programs (exec\_frame\_string\_core of exec\_frame.c)\<close>

text \<open>
  The second half of \<open>exec_frame_string_core\<close>: the parser is given the tokens, and its status
  becomes an error, a request for more input with the tokens put aside, or the tree that is
  lowered and executed.  Lowering and execution are not part of this model: \<open>Program\<close> holds what
  \<open>ast_lower\<close> is called with.
\<close>

datatype program_error =
    Earlier_Error string                \<comment> \<open>of the lexer or the tokenizer\<close>
  | Error_At_Line int string
  | Error_Near int int token            \<comment> \<open>line, column and the token the message shows\<close>
  | Error_No_Details int

datatype program_result =
    Program_Error program_error
  | Program_Incomplete
  | Program_Empty
  | Program gnode

definition parse_error_of :: "int \<Rightarrow> parser_t \<Rightarrow> program_error" where
  "parse_error_of line p =
     (case parser_get_error p of
        Some err \<Rightarrow> Error_At_Line line err
      | None \<Rightarrow> (case map_option token_clone (parser_current_token p) of
          Some t \<Rightarrow> Error_Near (tok_first_line t) (tok_first_column t) t
        | None \<Rightarrow> Error_No_Details line))"

definition parse_tokens :: "token list \<Rightarrow> parse_session \<Rightarrow> (program_result \<times> parse_session) option option" where
  "parse_tokens ts s =
     map_option (map_option (\<lambda>(r, p).
         case r of
           Inl status \<Rightarrow>
             (case status of
                PARSE_ERROR \<Rightarrow> (Program_Error (parse_error_of (ps_line_num s) p), s)
              | PARSE_INCOMPLETE \<Rightarrow>
                  (Program_Incomplete, s\<lparr>ps_accumulated := Some (map token_clone (pr_tokens p))\<rparr>)
              | PARSE_EMPTY \<Rightarrow> (Program_Empty, s))
         | Inr node \<Rightarrow> (Program node, s)))
       (parser_parse_program (parser_create_with_tokens_move ts))"

definition string_core_program :: "string \<Rightarrow> parse_session \<Rightarrow> (program_result \<times> parse_session) option option" where
  "string_core_program input s =
     (case string_core_tokens input s of
        None \<Rightarrow> None
      | Some None \<Rightarrow> Some None
      | Some (Some (r, s)) \<Rightarrow>
          (case r of
             Core_Error msg \<Rightarrow> Some (Some (Program_Error (Earlier_Error msg), s))
           | Core_Incomplete \<Rightarrow> Some (Some (Program_Incomplete, s))
           | Core_Empty \<Rightarrow> Some (Some (Program_Empty, s))
           | Core_Parse ts \<Rightarrow> parse_tokens ts s))"

fun program_types :: "gnode \<Rightarrow> gnode_type list" and data_types :: "gnode_data \<Rightarrow> gnode_type list" where
  "program_types (Node ty k d) = ty # data_types d"
| "data_types D_Zero = []"
| "data_types (D_List xs) = concat (map program_types xs)"
| "data_types (D_Token t) = []"
| "data_types (D_String s) = []"
| "data_types (D_Child x) = program_types x"
| "data_types (D_Pair a b) = concat (map (case_option [] program_types) [a, b])"
| "data_types (D_Multi a b c d) = concat (map (case_option [] program_types) [a, b, c, d])"
| "data_types (D_Io_Here a b c) = []"

end
