(* ===== verification/Parser_Bound.thy ===== *)
theory Parser_Bound
  imports
    Parser_Total
begin

section \<open>The bounds do not matter\<close>

text \<open>
  \<open>below m m'\<close>: \<open>m\<close> is an exhausted bound or the result \<open>m'\<close>.  Every function of the grammar is
  monotone in its bound and in the parser of compound lists, so a larger bound gives the same
  result once there is one.
\<close>

definition below :: "parse_result \<Rightarrow> parse_result \<Rightarrow> bool" where
  "below m m' \<longleftrightarrow> m = None \<or> m' = m"

lemma below_refl [simp]: "below m m"
  by (simp add: below_def)

lemma below_None [simp]: "below None m"
  by (simp add: below_def)

lemma below_on_result:
  "below m m' \<Longrightarrow> (\<And>r p. below (f r p) (f' r p)) \<Longrightarrow> below (on_result m f) (on_result m' f')"
  by (auto simp: below_def on_result_def split: option.split prod.split)

lemma below_on_ok:
  "below m m' \<Longrightarrow> (\<And>x p. below (f x p) (f' x p)) \<Longrightarrow> below (on_ok m f) (on_ok m' f')"
  unfolding on_ok_def by (rule below_on_result) (auto split: sum.split)

lemma below_if: "(c \<Longrightarrow> below a a') \<Longrightarrow> (\<not> c \<Longrightarrow> below b b') \<Longrightarrow> below (if c then a else b) (if c then a' else b')"
  by simp

lemma below_sum: "(\<And>x. r = Inl x \<Longrightarrow> below (f x) (f' x)) \<Longrightarrow> (\<And>y. r = Inr y \<Longrightarrow> below (g y) (g' y)) \<Longrightarrow>
    below (case r of Inl x \<Rightarrow> f x | Inr y \<Rightarrow> g y) (case r of Inl x \<Rightarrow> f' x | Inr y \<Rightarrow> g' y)"
  by (cases r) auto

lemma below_prod: "(\<And>a b. x = (a, b) \<Longrightarrow> below (f a b) (f' a b)) \<Longrightarrow>
    below (case x of (a, b) \<Rightarrow> f a b) (case x of (a, b) \<Rightarrow> f' a b)"
  by (cases x) auto

lemma below_option: "below a a' \<Longrightarrow> (\<And>y. r = Some y \<Longrightarrow> below (g y) (g' y)) \<Longrightarrow>
    below (case r of None \<Rightarrow> a | Some y \<Rightarrow> g y) (case r of None \<Rightarrow> a' | Some y \<Rightarrow> g' y)"
  by (cases r) auto

lemmas below_rules = below_on_ok below_on_result below_if below_sum below_prod below_option

definition cl_below :: "(parser_t \<Rightarrow> parse_result) \<Rightarrow> (parser_t \<Rightarrow> parse_result) \<Rightarrow> bool" where
  "cl_below cl cl' \<longleftrightarrow> (\<forall>p. below (cl p) (cl' p))"

lemma cl_belowD: "cl_below cl cl' \<Longrightarrow> below (cl p) (cl' p)"
  by (simp add: cl_below_def)

lemma below_do_group: "cl_below cl cl' \<Longrightarrow> below (gparse_do_group cl p) (gparse_do_group cl' p)"
  unfolding gparse_do_group_def Let_def by (intro below_rules below_refl cl_belowD)

lemma below_for_clause: "cl_below cl cl' \<Longrightarrow> below (gparse_for_clause cl p) (gparse_for_clause cl' p)"
  unfolding gparse_for_clause_def Let_def by (rule below_refl below_rules cl_belowD below_do_group | assumption)+

lemma below_while_clause: "cl_below cl cl' \<Longrightarrow> below (gparse_while_clause cl p) (gparse_while_clause cl' p)"
  unfolding gparse_while_clause_def Let_def by (rule below_refl below_rules cl_belowD below_do_group | assumption)+

lemma below_until_clause: "cl_below cl cl' \<Longrightarrow> below (gparse_until_clause cl p) (gparse_until_clause cl' p)"
  unfolding gparse_until_clause_def Let_def by (rule below_refl below_rules cl_belowD below_do_group | assumption)+

lemma below_subshell: "cl_below cl cl' \<Longrightarrow> below (gparse_subshell cl p) (gparse_subshell cl' p)"
  unfolding gparse_subshell_def Let_def by (rule below_refl below_rules cl_belowD below_do_group | assumption)+

lemma below_brace_group: "cl_below cl cl' \<Longrightarrow> below (gparse_brace_group cl p) (gparse_brace_group cl' p)"
  unfolding gparse_brace_group_def Let_def by (rule below_refl below_rules cl_belowD below_do_group | assumption)+

lemma below_case_item_ns: "cl_below cl cl' \<Longrightarrow> below (gparse_case_item_ns cl p) (gparse_case_item_ns cl' p)"
  unfolding gparse_case_item_ns_def case_patterns_def Let_def by (rule below_refl below_rules cl_belowD | assumption)+

lemma below_case_item: "cl_below cl cl' \<Longrightarrow> below (gparse_case_item cl p) (gparse_case_item cl' p)"
  unfolding gparse_case_item_def case_patterns_def Let_def by (rule below_refl below_rules cl_belowD | assumption)+

lemma below_else_part: "cl_below cl cl' \<Longrightarrow> n \<le> n' \<Longrightarrow> below (gparse_else_part n cl p) (gparse_else_part n' cl' p)"
proof (induction n arbitrary: n' p)
  case (Suc n)
  then obtain m where m: "n' = Suc m" "n \<le> m" by (cases n') auto
  note IH = Suc.IH [OF Suc.prems(1) m(2)]
  show ?case unfolding m(1) gparse_else_part.simps Let_def
    by (rule below_refl below_rules IH cl_belowD [OF Suc.prems(1)] )+
qed simp

lemma below_if_clause:
  assumes "cl_below cl cl'" "n \<le> n'"
  shows "below (gparse_if_clause n cl p) (gparse_if_clause n' cl' p)"
  unfolding gparse_if_clause_def Let_def
  by (rule below_refl below_rules cl_belowD [OF assms(1)] below_else_part [OF assms])+

lemma below_case_list_loop: "cl_below cl cl' \<Longrightarrow> n \<le> n' \<Longrightarrow> below (case_list_loop n cl list p) (case_list_loop n' cl' list p)"
proof (induction n arbitrary: n' list p)
  case (Suc n)
  then obtain m where m: "n' = Suc m" "n \<le> m" by (cases n') auto
  note IH = Suc.IH [OF Suc.prems(1) m(2)]
  show ?case unfolding m(1) case_list_loop.simps Let_def
    by (rule below_refl below_rules IH cl_belowD [OF Suc.prems(1)] below_case_item [OF Suc.prems(1)])+
qed simp

lemma below_case_list:
  assumes "cl_below cl cl'" "n \<le> n'"
  shows "below (gparse_case_list n cl p) (gparse_case_list n' cl' p)"
  unfolding gparse_case_list_def Let_def
  by (rule below_refl below_rules cl_belowD [OF assms(1)] below_case_list_loop [OF assms] below_case_item [OF assms(1)])+

lemma below_case_list_ns:
  assumes "cl_below cl cl'" "n \<le> n'"
  shows "below (gparse_case_list_ns n cl p) (gparse_case_list_ns n' cl' p)"
  unfolding gparse_case_list_ns_def Let_def
  by (rule below_refl below_rules cl_belowD [OF assms(1)] below_case_list [OF assms] below_case_item_ns [OF assms(1)])+

lemma below_case_clause:
  assumes "cl_below cl cl'" "n \<le> n'"
  shows "below (gparse_case_clause n cl p) (gparse_case_clause n' cl' p)"
  unfolding gparse_case_clause_def Let_def
  by (rule below_refl below_rules cl_belowD [OF assms(1)] below_case_list [OF assms] below_case_list_ns [OF assms])+

lemma below_compound_command:
  assumes "cl_below cl cl'" "n \<le> n'"
  shows "below (gparse_compound_command n cl p) (gparse_compound_command n' cl' p)"
  unfolding gparse_compound_command_def Let_def
  by (rule below_refl below_rules cl_belowD [OF assms(1)] below_case_clause [OF assms] below_if_clause [OF assms] below_for_clause [OF assms(1)] below_while_clause [OF assms(1)] below_until_clause [OF assms(1)] below_subshell [OF assms(1)] below_brace_group [OF assms(1)])+

lemma below_function_body:
  assumes "cl_below cl cl'" "n \<le> n'"
  shows "below (function_body n cl header p) (function_body n' cl' header p)"
  unfolding function_body_def Let_def
  by (rule below_refl below_rules below_compound_command [OF assms])+

lemma below_function_definition:
  assumes "cl_below cl cl'" "n \<le> n'"
  shows "below (gparse_function_definition n cl p) (gparse_function_definition n' cl' p)"
  unfolding gparse_function_definition_def Let_def
  by (rule below_refl below_rules cl_belowD [OF assms(1)] below_function_body [OF assms])+

lemma below_command:
  assumes "cl_below cl cl'" "n \<le> n'"
  shows "below (gparse_command n cl p) (gparse_command n' cl' p)"
  unfolding gparse_command_def Let_def
  by (rule below_refl below_rules cl_belowD [OF assms(1)] below_function_definition [OF assms] below_compound_command [OF assms])+

lemma below_pipe_loop: "cl_below cl cl' \<Longrightarrow> n \<le> n' \<Longrightarrow> below (pipe_loop n cl list p) (pipe_loop n' cl' list p)"
proof (induction n arbitrary: n' list p)
  case (Suc n)
  then obtain m where m: "n' = Suc m" "n \<le> m" by (cases n') auto
  note IH = Suc.IH [OF Suc.prems(1) m(2)]
  show ?case unfolding m(1) pipe_loop.simps Let_def
    by (rule below_refl below_rules IH cl_belowD [OF Suc.prems(1)] below_command [OF Suc.prems(1) m(2)])+
qed simp

lemma below_pipe_sequence:
  assumes "cl_below cl cl'" "n \<le> n'"
  shows "below (gparse_pipe_sequence n cl p) (gparse_pipe_sequence n' cl' p)"
  unfolding gparse_pipe_sequence_def Let_def
  by (rule below_refl below_rules cl_belowD [OF assms(1)] below_command [OF assms] below_pipe_loop [OF assms])+

lemma below_pipeline:
  assumes "cl_below cl cl'" "n \<le> n'"
  shows "below (gparse_pipeline n cl p) (gparse_pipeline n' cl' p)"
  unfolding gparse_pipeline_def Let_def
  by (rule below_refl below_rules cl_belowD [OF assms(1)] below_pipe_sequence [OF assms])+

lemma below_and_or_loop: "cl_below cl cl' \<Longrightarrow> n \<le> n' \<Longrightarrow> below (and_or_loop n cl left p) (and_or_loop n' cl' left p)"
proof (induction n arbitrary: n' left p)
  case (Suc n)
  then obtain m where m: "n' = Suc m" "n \<le> m" by (cases n') auto
  note IH = Suc.IH [OF Suc.prems(1) m(2)]
  show ?case unfolding m(1) and_or_loop.simps Let_def
    by (rule below_refl below_rules IH cl_belowD [OF Suc.prems(1)] below_pipeline [OF Suc.prems(1) m(2)])+
qed simp

lemma below_and_or:
  assumes "cl_below cl cl'" "n \<le> n'"
  shows "below (gparse_and_or n cl p) (gparse_and_or n' cl' p)"
  unfolding gparse_and_or_def Let_def
  by (rule below_refl below_rules cl_belowD [OF assms(1)] below_pipeline [OF assms] below_and_or_loop [OF assms])+

lemma below_term_loop: "cl_below cl cl' \<Longrightarrow> n \<le> n' \<Longrightarrow> below (term_loop n separator ty cl list p) (term_loop n' separator ty cl' list p)"
proof (induction n arbitrary: n' list p)
  case (Suc n)
  then obtain m where m: "n' = Suc m" "n \<le> m" by (cases n') auto
  note IH = Suc.IH [OF Suc.prems(1) m(2)]
  show ?case unfolding m(1) term_loop.simps Let_def
    by (rule below_refl below_rules IH cl_belowD [OF Suc.prems(1)] below_and_or [OF Suc.prems(1) m(2)])+
qed simp

lemma below_term:
  assumes "cl_below cl cl'" "n \<le> n'"
  shows "below (gparse_term n cl p) (gparse_term n' cl' p)"
  unfolding gparse_term_def Let_def
  by (rule below_refl below_rules cl_belowD [OF assms(1)] below_and_or [OF assms] below_term_loop [OF assms])+

lemma below_compound_list: "n \<le> n' \<Longrightarrow> below (gparse_compound_list n p) (gparse_compound_list n' p)"
proof (induction n arbitrary: n' p)
  case (Suc n)
  then obtain m where m: "n' = Suc m" "n \<le> m" by (cases n') auto
  have cl: "cl_below (gparse_compound_list n) (gparse_compound_list m)"
    by (simp add: cl_below_def Suc.IH [OF m(2)])
  show ?case unfolding m(1) gparse_compound_list.simps
    by (rule below_refl below_rules below_term [OF cl m(2)])+
qed simp

lemma cl_below_compound_list: "n \<le> n' \<Longrightarrow> cl_below (gparse_compound_list n) (gparse_compound_list n')"
  by (simp add: cl_below_def below_compound_list)

lemma below_list: "n \<le> n' \<Longrightarrow> below (gparse_list n p) (gparse_list n' p)"
  unfolding gparse_list_def
  by (rule below_refl below_rules below_and_or [OF cl_below_compound_list] below_term_loop [OF cl_below_compound_list] | assumption)+

lemma below_complete_command: "n \<le> n' \<Longrightarrow> below (gparse_complete_command n p) (gparse_complete_command n' p)"
  unfolding gparse_complete_command_def by (rule below_refl below_rules below_list | assumption)+

lemma below_complete_commands_loop: "m \<le> m' \<Longrightarrow> n \<le> n' \<Longrightarrow>
    below (complete_commands_loop m n list p) (complete_commands_loop m' n' list p)"
proof (induction m arbitrary: m' list p)
  case (Suc m)
  then obtain k where m: "m' = Suc k" "m \<le> k" by (cases m') auto
  note IH = Suc.IH [OF m(2) Suc.prems(2)]
  show ?case unfolding m(1) complete_commands_loop.simps
    by (rule below_refl below_rules IH below_complete_command [OF Suc.prems(2)])+
qed simp

lemma below_program: "n \<le> n' \<Longrightarrow> below (gparse_program n p) (gparse_program n' p)"
  unfolding gparse_program_def gparse_complete_commands_def
  by (rule below_refl below_rules below_complete_command below_complete_commands_loop | assumption)+

lemma enough_rounds:
  assumes "tokens_left p \<le> n" "n \<le> n'"
  shows "gparse_program n' p = gparse_program n p"
  using below_program [OF assms(2), of p] well_parsed_program [OF assms(1)]
  by (auto simp: below_def well_parsed_def)

end
