(* ===== verification/Parser_Accepts.thy ===== *)
theory Parser_Accepts
  imports
    Parser_Bound
begin

section \<open>Where the parser accepts and refuses\<close>

text \<open>
  \<open>at_tokens p ts\<close>: what is left to read is \<open>ts\<close>.  \<open>yields\<close> and \<open>fails\<close> say what a function returns and
  what it leaves; the lemmas give them for simple commands and for tokens that begin no command.
\<close>

subsection \<open>Where the parser is\<close>

definition at_tokens :: "parser_t \<Rightarrow> token list \<Rightarrow> bool" where
  "at_tokens p ts \<longleftrightarrow> pr_position p \<le> length (pr_tokens p) \<and> drop (pr_position p) (pr_tokens p) = ts"

definition plain_word :: "token \<Rightarrow> bool" where
  \<comment> \<open>a word that spells no reserved word\<close>
  "plain_word t \<longleftrightarrow> tok_type t = TOKEN_WORD \<and>
     (case single_unquoted_literal t of None \<Rightarrow> True
      | Some w \<Rightarrow> \<not> token_is_reserved_word w \<and> \<not> token_is_reserved_word (cstr_of w))"

lemma at_here:
  assumes "at_tokens p (t # ts)"
  shows "parser_current_token_type p = tok_type t" "pr_tokens p ! pr_position p = t"
    "at_tokens (parser_advance p) ts" "parser_at_end p = False" "pr_tokens (parser_advance p) = pr_tokens p"
    "take_token ty p = (g_node ty (D_Token (token_clone t)), parser_advance p)"
proof -
  have d: "drop (pr_position p) (pr_tokens p) = t # ts" using assms by (simp add: at_tokens_def)
  then have l: "pr_position p < length (pr_tokens p)" by (metis drop_eq_Nil list.distinct(1) not_le)
  with d have t: "pr_tokens p ! pr_position p = t" "drop (Suc (pr_position p)) (pr_tokens p) = ts"
    by (simp_all add: Cons_nth_drop_Suc [symmetric])
  with l show "parser_current_token_type p = tok_type t" "pr_tokens p ! pr_position p = t"
    "at_tokens (parser_advance p) ts" "parser_at_end p = False" "pr_tokens (parser_advance p) = pr_tokens p"
    "take_token ty p = (g_node ty (D_Token (token_clone t)), parser_advance p)"
    by (simp_all add: parser_current_token_type_def parser_current_token_def at_tokens_def parser_advance_def
        parser_at_end_def take_token_def)
qed

lemma at_end: "at_tokens p [] \<Longrightarrow> parser_current_token_type p = TOKEN_EOF"
  by (auto simp: at_tokens_def parser_current_token_type_def parser_current_token_def)

lemma at_error [simp]: "at_tokens (parser_set_error msg p) ts = at_tokens p ts"
  "pr_tokens (parser_set_error msg p) = pr_tokens p" "pr_position (parser_set_error msg p) = pr_position p"
  by (auto simp: at_tokens_def parser_set_error_def Let_def split: option.split)

lemma at_peek: "at_tokens p (t # u # ts) \<Longrightarrow> parser_peek_token p (Suc 0) = Some u"
  "at_tokens p [t] \<Longrightarrow> parser_peek_token p (Suc 0) = None"
  by (auto simp: at_tokens_def parser_peek_token_def Let_def)
    (metis drop_eq_Nil list.distinct(1) list.inject Cons_nth_drop_Suc not_le Suc_leI le_antisym drop_all linorder_not_less)+

lemma at_skip:
  assumes "at_tokens p (t # ts)" "tok_type t \<noteq> TOKEN_NEWLINE"
  shows "parser_skip_newlines p = p"
  using at_here [OF assms(1)] assms(2) by (subst parser_skip_newlines.simps) (simp add: parser_accept_def)

lemma at_promote:
  assumes "at_tokens p (t # ts)" "plain_word t \<or> tok_type t \<noteq> TOKEN_WORD" "(w, ty) \<in> set reserved_words"
  shows "parser_token_try_promote w ty p 0 = (p, False)"
proof -
  have "w \<in> fst ` set reserved_words" using assms(3) by force
  then have "plain_word t \<Longrightarrow> single_unquoted_literal t \<noteq> Some w"
    by (intro notI) (simp add: plain_word_def token_is_reserved_word_def)
  moreover have "pr_tokens p ! pr_position p = t" using at_here [OF assms(1)] by simp
  ultimately show ?thesis
    using assms(2) by (auto simp: parser_token_try_promote_def token_try_promote_to_word_def Let_def)
qed


subsection \<open>Results\<close>

definition yields :: "parser_t \<Rightarrow> parse_result \<Rightarrow> gnode \<Rightarrow> token list \<Rightarrow> bool" where
  "yields p m x ts \<longleftrightarrow> (\<exists>q. m = parsed x q \<and> at_tokens q ts \<and> pr_tokens q = pr_tokens p)"

definition fails :: "parser_t \<Rightarrow> parse_result \<Rightarrow> parse_status \<Rightarrow> token list \<Rightarrow> bool" where
  "fails p m st ts \<longleftrightarrow> (\<exists>q. m = failed st q \<and> at_tokens q ts \<and> pr_tokens q = pr_tokens p)"

lemma yields_parsed: "at_tokens q ts \<Longrightarrow> pr_tokens q = pr_tokens p \<Longrightarrow> yields p (parsed x q) x ts"
  by (auto simp: yields_def)

lemma fails_failed: "at_tokens q ts \<Longrightarrow> pr_tokens q = pr_tokens p \<Longrightarrow> fails p (failed st q) st ts"
  by (auto simp: fails_def)

lemma fails_error: "at_tokens q ts \<Longrightarrow> pr_tokens q = pr_tokens p \<Longrightarrow> fails p (error msg q) PARSE_ERROR ts"
  by (simp add: error_def fails_failed)

lemma yields_on_result:
  "yields p m x ts \<Longrightarrow> (\<And>q. at_tokens q ts \<Longrightarrow> pr_tokens q = pr_tokens p \<Longrightarrow> yields p (f (Inr x) q) y us) \<Longrightarrow>
    yields p (on_result m f) y us"
  by (auto simp: yields_def on_result_def parsed_def)

lemma yields_on_ok:
  "yields p m x ts \<Longrightarrow> (\<And>q. at_tokens q ts \<Longrightarrow> pr_tokens q = pr_tokens p \<Longrightarrow> yields p (f x q) y us) \<Longrightarrow>
    yields p (on_ok m f) y us"
  unfolding on_ok_def by (rule yields_on_result) auto

lemma yields_after_failure:
  "fails p m st ts \<Longrightarrow> (\<And>q. at_tokens q ts \<Longrightarrow> pr_tokens q = pr_tokens p \<Longrightarrow> yields p (f (Inl st) q) y us) \<Longrightarrow>
    yields p (on_result m f) y us"
  by (auto simp: fails_def yields_def on_result_def failed_def parsed_def)

lemma fails_after_failure:
  "fails p m st ts \<Longrightarrow> (\<And>q. at_tokens q ts \<Longrightarrow> pr_tokens q = pr_tokens p \<Longrightarrow> fails p (f (Inl st) q) st' us) \<Longrightarrow>
    fails p (on_result m f) st' us"
  by (auto simp: fails_def on_result_def failed_def)

lemma fails_on_ok: "fails p m st ts \<Longrightarrow> fails p (on_ok m f) st ts"
  unfolding on_ok_def by (rule fails_after_failure) (auto intro: fails_failed)

lemma yields_tokens: "yields p m x ts \<longleftrightarrow> yields q m x ts" if "pr_tokens p = pr_tokens q"
  by (simp add: yields_def that)

lemma fails_tokens: "fails p m x ts \<longleftrightarrow> fails q m x ts" if "pr_tokens p = pr_tokens q"
  by (simp add: fails_def that)

subsection \<open>Simple commands\<close>

definition leaf :: "gnode_type \<Rightarrow> token \<Rightarrow> gnode" where
  "leaf ty t = g_node ty (D_Token (token_clone t))"

definition follows :: "token_type set" where
  \<comment> \<open>what can follow a command\<close>
  "follows = {TOKEN_PIPE, TOKEN_AND_IF, TOKEN_OR_IF, TOKEN_SEMI, TOKEN_AMPER, TOKEN_NEWLINE, TOKEN_RPAREN,
     TOKEN_DO, TOKEN_DONE, TOKEN_THEN, TOKEN_FI, TOKEN_DSEMI, TOKEN_ESAC}"

definition simple_tree :: "token \<Rightarrow> token list \<Rightarrow> gnode" where
  "simple_tree w ws = g_node G_SIMPLE_COMMAND (D_List (leaf G_CMD_NAME w #
     (if ws = [] then [] else [g_node G_CMD_SUFFIX (D_List (map (leaf G_CMD_WORD) ws))])))"

lemma not_redirect: "tok_type t = TOKEN_WORD \<or> tok_type t \<in> follows \<Longrightarrow> \<not> is_redirect_token (tok_type t)"
  by (auto simp: follows_def is_redirect_token_def)

lemma word_not_redirect [simp]: "\<not> is_redirect_token TOKEN_WORD"
  by (simp add: is_redirect_token_def)

lemma plain_not_terminating: "plain_word t \<Longrightarrow> \<not> is_terminating_reserved_word t"
  by (auto simp: plain_word_def is_terminating_reserved_word_def token_is_reserved_word_def reserved_words_def
      split: option.splits)

lemma at_plain: "at_tokens p (t # ts) \<Longrightarrow> plain_word t \<Longrightarrow> at_command_word p"
  by (simp add: at_command_word_def at_here plain_not_terminating) (simp add: plain_word_def)

lemma at_follow: "at_tokens p (t # ts) \<Longrightarrow> tok_type t \<in> follows \<Longrightarrow> \<not> at_command_word p"
  by (auto simp: at_command_word_def at_here follows_def)

lemma suffix_words:
  "at_tokens p (ws @ t # ts) \<Longrightarrow> list_all plain_word ws \<Longrightarrow> tok_type t \<in> follows \<Longrightarrow>
   \<exists>q. suffix_loop list p = (list @ map (leaf G_CMD_WORD) ws, q) \<and> at_tokens q (t # ts) \<and> pr_tokens q = pr_tokens p"
proof (induction ws arbitrary: list p)
  case Nil
  then show ?case
    by (auto simp: suffix_loop.simps [of list p] at_here [of p t] not_redirect at_follow)
next
  case (Cons w ws)
  then have w: "plain_word w" "at_tokens p (w # ws @ t # ts)" "tok_type w = TOKEN_WORD" by (auto simp: plain_word_def)
  note h = at_here [OF w(2)]
  from Cons.IH [OF h(3), of "list @ [leaf G_CMD_WORD w]"] Cons.prems w h show ?case
    by (simp add: suffix_loop.simps [of list p] not_redirect at_plain [OF w(2,1)] g_list_append_def leaf_def)
qed

lemma match_leaves: "match_list (map (leaf ty) ws) p = (Inr (map (leaf ty) ws), p)"
  by (induction ws) (auto simp: match_redirect_def leaf_def g_node_def)

lemma simple_command_parses:
  assumes "at_tokens p (w # ws @ t # ts)" "list_all plain_word (w # ws)" "tok_type t \<in> follows"
  shows "\<exists>q. gparse_simple_command p = (Inr (simple_tree w ws), q) \<and> at_tokens q (t # ts) \<and> pr_tokens q = pr_tokens p"
proof -
  have w: "plain_word w" "tok_type w = TOKEN_WORD" using assms(2) by (auto simp: plain_word_def)
  note h = at_here [OF assms(1)]
  have pre: "prefix_loop [] p = ([], p)" by (simp add: prefix_loop.simps h w not_redirect)
  obtain q where q: "suffix_loop [] (parser_advance p) = (map (leaf G_CMD_WORD) ws, q)"
    "at_tokens q (t # ts)" "pr_tokens q = pr_tokens p"
    using suffix_words [OF h(3), of "[]"] assms h by auto
  have m: "match_item (leaf ty w) r = (Inr (leaf ty w), r)" for ty r by (simp add: match_item_def leaf_def g_node_def)
  show ?thesis
    by (simp add: gparse_simple_command_def pre at_plain [OF assms(1) w(1)] h q g_list_append_def
        match_heredocs_in_simple_command_def leaf_def [symmetric] m)
      (auto simp: simple_tree_def q match_item_def match_leaves g_node_def)
qed

subsection \<open>Commands that begin and that are refused\<close>

lemma promote_compound_none:
  assumes "at_tokens p (t # ts)" "plain_word t \<or> tok_type t \<noteq> TOKEN_WORD"
  shows "promote_compound p = p"
  unfolding promote_compound_def promote_defs
  by (simp add: at_promote [OF assms] reserved_words_def)

lemma keyword_none:
  assumes "at_tokens p (t # ts)" "plain_word t \<or> tok_type t \<noteq> TOKEN_WORD"
  shows "closing_keyword parser_token_try_promote_to_do p = p" "closing_keyword parser_token_try_promote_to_done p = p"
    "closing_keyword parser_token_try_promote_to_then p = p" "closing_keyword parser_token_try_promote_to_fi p = p"
    "closing_keyword parser_token_try_promote_to_bang p = p"
  unfolding promote_defs by (simp_all add: at_promote [OF assms] reserved_words_def)

lemma reserved_name_plain: "at_tokens p (t # ts) \<Longrightarrow> plain_word t \<Longrightarrow> reserved_name p = None"
  by (auto simp: reserved_name_def at_here plain_word_def split: option.splits)

lemma no_function:
  assumes "at_tokens p (w # t # ts)" "plain_word w \<and> tok_type t \<noteq> TOKEN_LPAREN \<or> tok_type w \<noteq> TOKEN_WORD"
  shows "gparse_function_definition n cl p = failed PARSE_ERROR p"
  using assms reserved_name_plain [OF assms(1)]
  by (auto simp: gparse_function_definition_def at_here at_peek)

lemma no_function_here: "at_tokens p (t # ts) \<Longrightarrow> tok_type t \<noteq> TOKEN_WORD \<Longrightarrow>
    gparse_function_definition n cl p = failed PARSE_ERROR p"
  by (simp add: gparse_function_definition_def at_here)

lemma no_compound:
  assumes "at_tokens p (t # ts)" "plain_word t \<or> tok_type t \<in> follows"
  shows "\<exists>msg. gparse_compound_command n cl p = error msg p"
proof -
  have "plain_word t \<or> tok_type t \<noteq> TOKEN_WORD" using assms(2) by (auto simp: follows_def)
  with promote_compound_none [OF assms(1)] assms show ?thesis
    by (auto simp: gparse_compound_command_def at_here [OF assms(1)] plain_word_def follows_def Let_def)
qed

lemma no_redirect:
  assumes "at_tokens p (t # ts)" "tok_type t \<in> follows"
  shows "gparse_redirect_list p = (Inl PARSE_ERROR, p)"
proof -
  have "tok_type t \<noteq> TOKEN_IO_NUMBER" "tok_type t \<noteq> TOKEN_IO_LOCATION" "\<not> is_file_operator (tok_type t)"
    "tok_type t \<noteq> TOKEN_DLESS" "tok_type t \<noteq> TOKEN_DLESSDASH"
    using assms(2) by (auto simp: follows_def is_file_operator_def)
  then show ?thesis
    by (simp add: gparse_redirect_list_def gparse_io_redirect_def io_prefix_def gparse_io_file_def
        gparse_io_here_def at_here [OF assms(1)] Let_def)
qed

lemma command_simple:
  assumes "at_tokens p (w # ws @ t # ts)" "list_all plain_word (w # ws)" "tok_type t \<in> follows"
  shows "yields p (gparse_command n cl p) (command_node (simple_tree w ws)) (t # ts)"
proof -
  have w: "plain_word w" using assms(2) by simp
  have "gparse_function_definition n cl p = failed PARSE_ERROR p"
  proof (cases ws)
    case Nil
    with no_function [of p w t ts] assms w show ?thesis by (auto simp: follows_def)
  next
    case (Cons v vs)
    with no_function [of p w v] assms w show ?thesis by (auto simp: plain_word_def)
  qed
  moreover obtain msg where "gparse_compound_command n cl p = error msg p"
    using no_compound [OF assms(1)] w by blast
  moreover obtain q where "gparse_simple_command (parser_set_error msg p) = (Inr (simple_tree w ws), q)"
    "at_tokens q (t # ts)" "pr_tokens q = pr_tokens p"
    using simple_command_parses [of "parser_set_error msg p" w ws t ts] assms by (auto simp del: error_same)
  ultimately show ?thesis
    by (simp add: gparse_command_def on_result_def failed_def error_def yields_parsed)
qed

lemma command_refused:
  assumes "at_tokens p (t # ts)" "tok_type t \<in> follows"
  shows "fails p (gparse_command n cl p) PARSE_ERROR (t # ts)"
proof -
  have t: "tok_type t \<noteq> TOKEN_WORD" "tok_type t \<noteq> TOKEN_EOF" "tok_type t \<noteq> TOKEN_ASSIGNMENT_WORD"
    using assms(2) by (auto simp: follows_def)
  obtain msg where msg: "gparse_compound_command n cl p = error msg p" using no_compound assms by blast
  let ?q = "parser_set_error msg p"
  have q: "at_tokens ?q (t # ts)" using assms by simp
  have "gparse_simple_command ?q = (Inl PARSE_ERROR, ?q)"
    using t at_follow [OF q assms(2)]
    by (simp add: gparse_simple_command_def prefix_loop.simps suffix_loop.simps at_here [OF q]
        not_redirect assms(2) del: error_same)
  with no_function_here [OF assms(1) t(1)] msg q show ?thesis
    by (simp add: gparse_command_def on_result_def failed_def error_def fails_def)
qed

lemma pipeline_refused:
  assumes "at_tokens p (t # ts)" "tok_type t \<in> follows"
  shows "fails p (gparse_pipeline n cl p) PARSE_ERROR (t # ts)"
proof -
  have t: "tok_type t \<noteq> TOKEN_WORD" "tok_type t \<noteq> TOKEN_EOF" "tok_type t \<noteq> TOKEN_BANG"
    using assms(2) by (auto simp: follows_def)
  show ?thesis
    using t fails_on_ok [OF fails_on_ok [OF command_refused [OF assms]]]
    by (simp add: gparse_pipeline_def gparse_pipe_sequence_def keyword_none [OF assms(1)] at_here [OF assms(1)] Let_def)
qed

lemma and_or_refused:
  assumes "at_tokens p (t # ts)" "tok_type t \<in> follows"
  shows "fails p (gparse_and_or n cl p) PARSE_ERROR (t # ts)"
  unfolding gparse_and_or_def by (rule fails_on_ok [OF pipeline_refused [OF assms]])

end
