(* ===== verification/Parser_Language.thy ===== *)
theory Parser_Language
  imports
    Parser_Accepts
begin

section \<open>A language of commands and its trees\<close>

text \<open>
  Words, pipelines, and-or lists, lists, subshells, loops and conditionals over tokens: the tokens
  that spell a command, the tree that stands for it, and the proof that the parser turns the one
  into the other.
\<close>

subsection \<open>The language\<close>

datatype cmd =
    Simple token "token list"
  | Subshell token clist token
  | Loop token clist token clist token
  | If token clist token clist token
and pipe = Pipe cmd ptail
and ptail = PEnd | PMore token cmd ptail
and ao = AndOr pipe atail
and atail = AEnd | AMore token pipe atail
and clist = CList ao ltail "token option"
and ltail = LEnd | LMore token ao ltail

primrec cmd_tokens :: "cmd \<Rightarrow> token list" and pipe_tokens :: "pipe \<Rightarrow> token list"
  and ptail_tokens :: "ptail \<Rightarrow> token list" and ao_tokens :: "ao \<Rightarrow> token list"
  and atail_tokens :: "atail \<Rightarrow> token list" and clist_tokens :: "clist \<Rightarrow> token list"
  and ltail_tokens :: "ltail \<Rightarrow> token list" where
  "cmd_tokens (Simple w ws) = w # ws"
| "cmd_tokens (Subshell l c r) = l # clist_tokens c @ [r]"
| "cmd_tokens (Loop w c d b e) = w # clist_tokens c @ d # clist_tokens b @ [e]"
| "cmd_tokens (If i c t b f) = i # clist_tokens c @ t # clist_tokens b @ [f]"
| "pipe_tokens (Pipe c pt) = cmd_tokens c @ ptail_tokens pt"
| "ptail_tokens PEnd = []"
| "ptail_tokens (PMore s c pt) = s # cmd_tokens c @ ptail_tokens pt"
| "ao_tokens (AndOr p a) = pipe_tokens p @ atail_tokens a"
| "atail_tokens AEnd = []"
| "atail_tokens (AMore s p a) = s # pipe_tokens p @ atail_tokens a"
| "clist_tokens (CList a lt s) = ao_tokens a @ ltail_tokens lt @ (case s of None \<Rightarrow> [] | Some t \<Rightarrow> [t])"
| "ltail_tokens LEnd = []"
| "ltail_tokens (LMore s a lt) = s # ao_tokens a @ ltail_tokens lt"

primrec cmd_ok :: "cmd \<Rightarrow> bool" and pipe_ok :: "pipe \<Rightarrow> bool" and ptail_ok :: "ptail \<Rightarrow> bool"
  and ao_ok :: "ao \<Rightarrow> bool" and atail_ok :: "atail \<Rightarrow> bool" and clist_ok :: "clist \<Rightarrow> bool"
  and ltail_ok :: "ltail \<Rightarrow> bool" where
  "cmd_ok (Simple w ws) = list_all plain_word (w # ws)"
| "cmd_ok (Subshell l c r) = (tok_type l = TOKEN_LPAREN \<and> clist_ok c \<and> tok_type r = TOKEN_RPAREN)"
| "cmd_ok (Loop w c d b e) = (tok_type w \<in> {TOKEN_WHILE, TOKEN_UNTIL} \<and> clist_ok c \<and> tok_type d = TOKEN_DO \<and>
     clist_ok b \<and> tok_type e = TOKEN_DONE)"
| "cmd_ok (If i c t b f) = (tok_type i = TOKEN_IF \<and> clist_ok c \<and> tok_type t = TOKEN_THEN \<and>
     clist_ok b \<and> tok_type f = TOKEN_FI)"
| "pipe_ok (Pipe c pt) = (cmd_ok c \<and> ptail_ok pt)"
| "ptail_ok PEnd = True"
| "ptail_ok (PMore s c pt) = (tok_type s = TOKEN_PIPE \<and> cmd_ok c \<and> ptail_ok pt)"
| "ao_ok (AndOr p a) = (pipe_ok p \<and> atail_ok a)"
| "atail_ok AEnd = True"
| "atail_ok (AMore s p a) = (tok_type s \<in> {TOKEN_AND_IF, TOKEN_OR_IF} \<and> pipe_ok p \<and> atail_ok a)"
| "clist_ok (CList a lt s) = (ao_ok a \<and> ltail_ok lt \<and>
     (case s of None \<Rightarrow> True | Some t \<Rightarrow> tok_type t \<in> {TOKEN_SEMI, TOKEN_AMPER}))"
| "ltail_ok LEnd = True"
| "ltail_ok (LMore s a lt) = (tok_type s \<in> {TOKEN_SEMI, TOKEN_AMPER} \<and> ao_ok a \<and> ltail_ok lt)"

abbreviation word_node :: "token \<Rightarrow> gnode option" where
  "word_node t \<equiv> Some (leaf G_WORD_NODE t)"

abbreviation compound_node :: "gnode \<Rightarrow> gnode" where
  "compound_node x \<equiv> command_node (g_node G_COMPOUND_COMMAND (D_Child x))"

definition separator_node :: "token \<Rightarrow> gnode" where
  "separator_node t = g_node G_SEPARATOR (D_Child (leaf G_SEPARATOR_OP t))"

primrec cmd_tree :: "cmd \<Rightarrow> gnode" and pipe_tree :: "pipe \<Rightarrow> gnode" and ptail_trees :: "ptail \<Rightarrow> gnode list"
  and ao_tree :: "ao \<Rightarrow> gnode" and atail_tree :: "atail \<Rightarrow> gnode \<Rightarrow> gnode" and clist_tree :: "clist \<Rightarrow> gnode"
  and ltail_trees :: "ltail \<Rightarrow> (token \<times> gnode) list" where
  "cmd_tree (Simple w ws) = command_node (simple_tree w ws)"
| "cmd_tree (Subshell l c r) = compound_node (multi G_SUBSHELL [word_node l, Some (clist_tree c), word_node r])"
| "cmd_tree (Loop w c d b e) =
     compound_node (multi (if tok_type w = TOKEN_WHILE then G_WHILE_CLAUSE else G_UNTIL_CLAUSE)
       [word_node w, Some (clist_tree c),
        Some (multi G_DO_GROUP [word_node d, Some (clist_tree b), word_node e])])"
| "cmd_tree (If i c t b f) =
     compound_node (multi G_IF_CLAUSE
       [Some (multi G_IF_CLAUSE [word_node i, Some (clist_tree c), word_node t, Some (clist_tree b)]), None, word_node f])"
| "pipe_tree (Pipe c pt) = g_node G_PIPELINE (D_List [g_node G_PIPE_SEQUENCE (D_List (cmd_tree c # ptail_trees pt))])"
| "ptail_trees PEnd = []"
| "ptail_trees (PMore s c pt) = leaf G_WORD_NODE s # cmd_tree c # ptail_trees pt"
| "ao_tree (AndOr p a) = atail_tree a (pipe_tree p)"
| "atail_tree AEnd = (\<lambda>left. left)"
| "atail_tree (AMore s p a) =
     (\<lambda>left. atail_tree a (multi G_AND_OR [Some left, Some (leaf G_AND_OR s), Some (pipe_tree p)]))"
| "clist_tree (CList a lt s) =
     g_node G_COMPOUND_LIST (D_Pair
       (Some (g_node G_TERM (D_List (ao_tree a # concat (map (\<lambda>(s, x). [separator_node s, x]) (ltail_trees lt))))))
       (map_option separator_node s))"
| "ltail_trees LEnd = []"
| "ltail_trees (LMore s a lt) = (s, ao_tree a) # ltail_trees lt"


subsection \<open>How commands begin\<close>

definition starts :: "token list \<Rightarrow> bool" where
  "starts ts \<longleftrightarrow> (case ts of [] \<Rightarrow> False
     | t # _ \<Rightarrow> plain_word t \<or> tok_type t \<in> {TOKEN_LPAREN, TOKEN_WHILE, TOKEN_UNTIL, TOKEN_IF, TOKEN_CASE})"

lemma starts_more [simp]: "starts ts \<Longrightarrow> starts (ts @ us)"
  by (auto simp: starts_def split: list.splits)

lemma cmd_starts: "cmd_ok c \<Longrightarrow> starts (cmd_tokens c)"
  by (cases c) (auto simp: starts_def)

lemma pipe_starts: "pipe_ok p \<Longrightarrow> starts (pipe_tokens p)"
  by (cases p) (auto simp: cmd_starts)

lemma ao_starts: "ao_ok a \<Longrightarrow> starts (ao_tokens a)"
  by (cases a) (auto simp: pipe_starts)

lemma startsE:
  assumes "starts ts" "at_tokens p ts"
  shows "parser_skip_newlines p = p" "closing_keyword parser_token_try_promote_to_bang p = p"
    "parser_current_token_type p \<noteq> TOKEN_EOF" "parser_current_token_type p \<noteq> TOKEN_BANG"
    "parser_at_end p = False" "parser_current_token_type p \<noteq> TOKEN_NEWLINE"
proof -
  obtain t us where t: "ts = t # us" "plain_word t \<or> tok_type t \<in> {TOKEN_LPAREN, TOKEN_WHILE, TOKEN_UNTIL, TOKEN_IF, TOKEN_CASE}"
    using assms(1) by (auto simp: starts_def split: list.splits)
  then have ty: "plain_word t \<or> tok_type t \<noteq> TOKEN_WORD" "tok_type t \<noteq> TOKEN_NEWLINE" "tok_type t \<noteq> TOKEN_EOF"
    "tok_type t \<noteq> TOKEN_BANG" by (auto simp: plain_word_def)
  have p: "at_tokens p (t # us)" using assms(2) t(1) by simp
  show "parser_skip_newlines p = p" "closing_keyword parser_token_try_promote_to_bang p = p"
    "parser_current_token_type p \<noteq> TOKEN_EOF" "parser_current_token_type p \<noteq> TOKEN_BANG"
    "parser_at_end p = False" "parser_current_token_type p \<noteq> TOKEN_NEWLINE"
    using at_skip [OF p ty(2)] keyword_none(5) [OF p ty(1)] at_here [OF p] ty by simp_all
qed

subsection \<open>Lists and their separators\<close>

lemma ltail_induct [case_names LEnd LMore]:
  assumes "P LEnd" "\<And>s a lt. P lt \<Longrightarrow> P (LMore s a lt)"
  shows "P lt"
  by (rule ltail.induct [of "\<lambda>_. True" "\<lambda>_. True" "\<lambda>_. True" "\<lambda>_. True" "\<lambda>_. True" "\<lambda>_. True" P])
    (auto intro: assms)

text \<open>The two functions that read separators, as the loop over a list uses them: what a separator
  becomes, and at which tokens they refuse.\<close>

definition parses_ao :: "ao \<Rightarrow> bool" where
  "parses_ao a \<longleftrightarrow> (\<forall>p n m t ts. at_tokens p (ao_tokens a @ t # ts) \<longrightarrow> ao_ok a \<longrightarrow>
     tok_type t \<in> follows - {TOKEN_PIPE, TOKEN_AND_IF, TOKEN_OR_IF} \<longrightarrow>
     length (ao_tokens a @ t # ts) \<le> n \<longrightarrow> length (ao_tokens a @ t # ts) \<le> m \<longrightarrow>
     yields p (gparse_and_or n (gparse_compound_list m) p) (ao_tree a) (t # ts))"

primrec all_ao :: "(ao \<Rightarrow> bool) \<Rightarrow> ltail \<Rightarrow> bool" where
  "all_ao P LEnd = True"
| "all_ao P (LMore s a lt) = (P a \<and> all_ao P lt)"

definition list_separators :: "token_type set" where
  "list_separators = {TOKEN_SEMI, TOKEN_AMPER}"

definition opt_tokens :: "token option \<Rightarrow> token list" where
  "opt_tokens s = (case s of None \<Rightarrow> [] | Some t \<Rightarrow> [t])"

locale separator_parser =
  fixes separator :: "parser_t \<Rightarrow> parse_out" and node :: "token \<Rightarrow> gnode" and stops :: "token_type set"
  assumes takes: "at_tokens p (s # ts) \<Longrightarrow> tok_type s \<in> list_separators \<Longrightarrow>
      starts ts \<or> (\<exists>t us. ts = t # us \<and> tok_type t \<in> stops) \<Longrightarrow>
      \<exists>q. separator p = (Inr (node s), q) \<and> at_tokens q ts \<and> pr_tokens q = pr_tokens p"
    and refuses: "at_tokens p (t # ts) \<Longrightarrow> tok_type t \<in> stops \<Longrightarrow> \<exists>st. separator p = (Inl st, p)"
    and stops_follow: "stops \<subseteq> follows - {TOKEN_PIPE, TOKEN_AND_IF, TOKEN_OR_IF}"
begin

lemma tail_end:
  assumes "at_tokens p (opt_tokens s @ t # ts)" "tok_type t \<in> stops"
    "case s of None \<Rightarrow> True | Some u \<Rightarrow> tok_type u \<in> list_separators" "0 < n"
  shows "yields p (term_loop n separator ty cl list p) (g_node ty (D_List list)) (opt_tokens s @ t # ts)"
proof -
  obtain k where n: "n = Suc k" using assms(4) by (cases n) auto
  show ?thesis
  proof (cases s)
    case None
    with assms refuses [of p t ts] show ?thesis by (auto simp: n opt_tokens_def Let_def yields_parsed)
  next
    case (Some u)
    with assms takes [of p u "t # ts"] obtain q where q: "separator p = (Inr (node u), q)" "at_tokens q (t # ts)"
      "pr_tokens q = pr_tokens p" by (auto simp: opt_tokens_def)
    obtain r where r: "gparse_and_or k cl q = failed PARSE_ERROR r" "pr_tokens r = pr_tokens q"
      using and_or_refused [OF q(2)] assms(2) stops_follow unfolding fails_def by blast
    have "pr_position p < length (pr_tokens p)" "pr_position p \<le> length (pr_tokens p)"
      using assms(1) Some by (auto simp: at_tokens_def opt_tokens_def) (metis drop_eq_Nil list.distinct(1) not_le)
    with assms(1) q(3) r(2) have "at_tokens (parser_rewind_to_position r (pr_position p)) (opt_tokens s @ t # ts)"
      "pr_tokens (parser_rewind_to_position r (pr_position p)) = pr_tokens p"
      by (auto simp: parser_rewind_to_position_def at_tokens_def)
    with q r(1) show ?thesis by (simp add: n on_result_def failed_def yields_parsed Let_def)
  qed
qed

lemma tail_parses:
  assumes "0 < length (opt_tokens s @ t # ts)" "tok_type t \<in> stops"
    "case s of None \<Rightarrow> True | Some u \<Rightarrow> tok_type u \<in> list_separators"
  shows "at_tokens p (ltail_tokens lt @ opt_tokens s @ t # ts) \<Longrightarrow> ltail_ok lt \<Longrightarrow> all_ao parses_ao lt \<Longrightarrow>
    length (ltail_tokens lt @ opt_tokens s @ t # ts) \<le> n \<Longrightarrow> length (ltail_tokens lt @ opt_tokens s @ t # ts) \<le> m \<Longrightarrow>
    yields p (term_loop n separator ty (gparse_compound_list m) list p)
      (g_node ty (D_List (list @ concat (map (\<lambda>(s, x). [node s, x]) (ltail_trees lt))))) (opt_tokens s @ t # ts)"
proof (induction lt arbitrary: n p list rule: ltail_induct)
  case LEnd
  then show ?case using tail_end [of p s t ts n] assms by (cases n) auto
next
  case (LMore u a lt)
  obtain k where n: "n = Suc k" using LMore.prems(4) by (cases n) auto
  let ?rest = "ltail_tokens lt @ opt_tokens s @ t # ts"
  have rest: "\<exists>v vs. ?rest = v # vs \<and> tok_type v \<in> follows - {TOKEN_PIPE, TOKEN_AND_IF, TOKEN_OR_IF}"
  proof (cases lt)
    case LEnd
    then show ?thesis using assms(2,3) stops_follow
      by (cases s) (auto simp: opt_tokens_def list_separators_def follows_def)
  qed (use LMore.prems(2) in \<open>auto simp: follows_def\<close>)
  then obtain v vs where v: "?rest = v # vs" "tok_type v \<in> follows - {TOKEN_PIPE, TOKEN_AND_IF, TOKEN_OR_IF}" by blast
  have p: "at_tokens p (u # ao_tokens a @ ?rest)" using LMore.prems(1) by simp
  obtain q where q: "separator p = (Inr (node u), q)" "at_tokens q (ao_tokens a @ ?rest)" "pr_tokens q = pr_tokens p"
    using takes [OF p] LMore.prems(2) ao_starts [of a] by (auto simp: list_separators_def)
  have a: "yields q (gparse_and_or k (gparse_compound_list m) q) (ao_tree a) ?rest"
    using LMore.prems(2-5) q(2) v by (auto simp: parses_ao_def n)
  have "yields q (on_result (gparse_and_or k (gparse_compound_list m) q) (\<lambda>r p'. case r of
        Inl _ \<Rightarrow> parsed (g_node ty (D_List list)) (parser_rewind_to_position p' (pr_position p))
      | Inr next \<Rightarrow> term_loop k separator ty (gparse_compound_list m) (g_list_append (g_list_append list (node u)) next) p'))
      (g_node ty (D_List (list @ concat (map (\<lambda>(s, x). [node s, x]) (ltail_trees (LMore u a lt)))))) (opt_tokens s @ t # ts)"
  proof (rule yields_on_result [OF a], goal_cases)
    case (1 r)
    have "yields r (term_loop k separator ty (gparse_compound_list m) (list @ [node u, ao_tree a]) r)
        (g_node ty (D_List ((list @ [node u, ao_tree a]) @ concat (map (\<lambda>(s, x). [node s, x]) (ltail_trees lt)))))
        (opt_tokens s @ t # ts)"
      by (rule LMore.IH) (use 1 LMore.prems n in auto)
    then show ?case using yields_tokens [OF 1(2)] by (simp add: g_list_append_def)
  qed
  then show ?case using q yields_tokens [OF q(3)] by (simp add: n Let_def)
qed

end


definition closers :: "token_type set" where
  \<comment> \<open>what ends a compound list\<close>
  "closers = {TOKEN_RPAREN, TOKEN_DO, TOKEN_DONE, TOKEN_THEN, TOKEN_FI, TOKEN_DSEMI, TOKEN_ESAC}"

interpretation term_separator: separator_parser gparse_separator separator_node closers
proof (unfold_locales, goal_cases)
  case (1 p s ts)
  note h = at_here [OF 1(1)]
  have "parser_skip_newlines (parser_advance p) = parser_advance p"
    using 1(3) startsE(1) [OF _ h(3)] at_skip [of "parser_advance p"] h(3) by (auto simp: closers_def)
  with 1 h show ?case by (auto simp: gparse_separator_def list_separators_def separator_node_def leaf_def)
qed (auto simp: gparse_separator_def at_here closers_def follows_def)

interpretation list_separator: separator_parser gparse_separator_op "leaf G_SEPARATOR_OP" "{TOKEN_NEWLINE}"
  by (unfold_locales) (auto simp: gparse_separator_op_def at_here list_separators_def leaf_def follows_def)

subsection \<open>Every command is parsed\<close>

definition parses_cmd :: "cmd \<Rightarrow> bool" where
  "parses_cmd c \<longleftrightarrow> (\<forall>p n m t ts. at_tokens p (cmd_tokens c @ t # ts) \<longrightarrow> cmd_ok c \<longrightarrow> tok_type t \<in> follows \<longrightarrow>
     length (cmd_tokens c @ t # ts) \<le> n \<longrightarrow> length (cmd_tokens c @ t # ts) \<le> m \<longrightarrow>
     yields p (gparse_command n (gparse_compound_list m) p) (cmd_tree c) (t # ts))"

definition parses_pipe :: "pipe \<Rightarrow> bool" where
  "parses_pipe c \<longleftrightarrow> (\<forall>p n m t ts. at_tokens p (pipe_tokens c @ t # ts) \<longrightarrow> pipe_ok c \<longrightarrow>
     tok_type t \<in> follows - {TOKEN_PIPE} \<longrightarrow>
     length (pipe_tokens c @ t # ts) \<le> n \<longrightarrow> length (pipe_tokens c @ t # ts) \<le> m \<longrightarrow>
     yields p (gparse_pipeline n (gparse_compound_list m) p) (pipe_tree c) (t # ts))"

definition parses_ptail :: "ptail \<Rightarrow> bool" where
  "parses_ptail c \<longleftrightarrow> (\<forall>p n m t ts list. at_tokens p (ptail_tokens c @ t # ts) \<longrightarrow> ptail_ok c \<longrightarrow>
     tok_type t \<in> follows - {TOKEN_PIPE} \<longrightarrow>
     length (ptail_tokens c @ t # ts) \<le> n \<longrightarrow> length (ptail_tokens c @ t # ts) \<le> m \<longrightarrow>
     yields p (pipe_loop n (gparse_compound_list m) list p)
       (g_node G_PIPE_SEQUENCE (D_List (list @ ptail_trees c))) (t # ts))"

definition parses_atail :: "atail \<Rightarrow> bool" where
  "parses_atail c \<longleftrightarrow> (\<forall>p n m t ts left. at_tokens p (atail_tokens c @ t # ts) \<longrightarrow> atail_ok c \<longrightarrow>
     tok_type t \<in> follows - {TOKEN_PIPE, TOKEN_AND_IF, TOKEN_OR_IF} \<longrightarrow>
     length (atail_tokens c @ t # ts) \<le> n \<longrightarrow> length (atail_tokens c @ t # ts) \<le> m \<longrightarrow>
     yields p (and_or_loop n (gparse_compound_list m) left p) (atail_tree c left) (t # ts))"

definition parses_clist :: "clist \<Rightarrow> bool" where
  "parses_clist c \<longleftrightarrow> (\<forall>p m t ts. at_tokens p (clist_tokens c @ t # ts) \<longrightarrow> clist_ok c \<longrightarrow> tok_type t \<in> closers \<longrightarrow>
     length (clist_tokens c @ t # ts) < m \<longrightarrow> yields p (gparse_compound_list m p) (clist_tree c) (t # ts))"

lemma ptail_hd: "ptail_ok pt \<Longrightarrow> tok_type t \<in> follows \<Longrightarrow> \<exists>v vs. ptail_tokens pt @ t # ts = v # vs \<and> tok_type v \<in> follows"
  by (cases pt) (auto simp: follows_def)

lemma atail_hd: "atail_ok a \<Longrightarrow> tok_type t \<in> follows - {TOKEN_PIPE} \<Longrightarrow>
    \<exists>v vs. atail_tokens a @ t # ts = v # vs \<and> tok_type v \<in> follows - {TOKEN_PIPE}"
  by (cases a) (auto simp: follows_def)

lemma ltail_hd: "ltail_ok lt \<Longrightarrow> (case s of None \<Rightarrow> True | Some u \<Rightarrow> tok_type u \<in> list_separators) \<Longrightarrow>
    tok_type t \<in> follows - {TOKEN_PIPE, TOKEN_AND_IF, TOKEN_OR_IF} \<Longrightarrow>
    \<exists>v vs. ltail_tokens lt @ opt_tokens s @ t # ts = v # vs \<and>
      tok_type v \<in> follows - {TOKEN_PIPE, TOKEN_AND_IF, TOKEN_OR_IF}"
  by (cases lt; cases s) (auto simp: follows_def list_separators_def opt_tokens_def)

lemma pipe_parses:
  assumes "parses_cmd c" "parses_ptail pt"
  shows "parses_pipe (Pipe c pt)"
  unfolding parses_pipe_def
proof (intro allI impI)
  fix p n m t ts
  assume p: "at_tokens p (pipe_tokens (Pipe c pt) @ t # ts)" and ok: "pipe_ok (Pipe c pt)"
    and t: "tok_type t \<in> follows - {TOKEN_PIPE}"
    and len: "length (pipe_tokens (Pipe c pt) @ t # ts) \<le> n" "length (pipe_tokens (Pipe c pt) @ t # ts) \<le> m"
  note s = startsE [OF starts_more [OF pipe_starts [OF ok]] p]
  obtain v vs where v: "ptail_tokens pt @ t # ts = v # vs" "tok_type v \<in> follows"
    using ptail_hd [of pt t ts] ok t by auto
  have seq: "yields p (gparse_pipe_sequence n (gparse_compound_list m) p)
      (g_node G_PIPE_SEQUENCE (D_List (cmd_tree c # ptail_trees pt))) (t # ts)"
    unfolding gparse_pipe_sequence_def
  proof (rule yields_on_ok)
    show "yields p (gparse_command n (gparse_compound_list m) p) (cmd_tree c) (ptail_tokens pt @ t # ts)"
      using assms(1) p ok len v by (auto simp: parses_cmd_def)
    fix q
    assume q: "at_tokens q (ptail_tokens pt @ t # ts)" "pr_tokens q = pr_tokens p"
    have "yields q (pipe_loop n (gparse_compound_list m) [cmd_tree c] q)
        (g_node G_PIPE_SEQUENCE (D_List ([cmd_tree c] @ ptail_trees pt))) (t # ts)"
      by (rule assms(2) [unfolded parses_ptail_def, rule_format]) (use q ok t len in auto)
    then show "yields p (pipe_loop n (gparse_compound_list m) [cmd_tree c] q)
        (g_node G_PIPE_SEQUENCE (D_List (cmd_tree c # ptail_trees pt))) (t # ts)"
      using yields_tokens [OF q(2)] by simp
  qed
  show "yields p (gparse_pipeline n (gparse_compound_list m) p) (pipe_tree (Pipe c pt)) (t # ts)"
    using s by (auto simp: gparse_pipeline_def Let_def g_list_append_def intro!: yields_on_ok [OF seq] yields_parsed)
qed

lemma ptail_parses:
  assumes "parses_cmd c" "parses_ptail pt"
  shows "parses_ptail (PMore s c pt)"
  unfolding parses_ptail_def
proof (intro allI impI)
  fix p n m t ts list
  assume p: "at_tokens p (ptail_tokens (PMore s c pt) @ t # ts)" and ok: "ptail_ok (PMore s c pt)"
    and t: "tok_type t \<in> follows - {TOKEN_PIPE}"
    and len: "length (ptail_tokens (PMore s c pt) @ t # ts) \<le> n" "length (ptail_tokens (PMore s c pt) @ t # ts) \<le> m"
  obtain k where n: "n = Suc k" using len by (cases n) auto
  have p': "at_tokens p (s # cmd_tokens c @ ptail_tokens pt @ t # ts)" using p by simp
  note h = at_here [OF p']
  have skip: "parser_skip_newlines (parser_advance p) = parser_advance p"
    by (rule startsE [OF starts_more [OF cmd_starts] h(3)]) (use ok in simp)
  obtain v vs where v: "ptail_tokens pt @ t # ts = v # vs" "tok_type v \<in> follows"
    using ptail_hd [of pt t ts] ok t by auto
  have "yields p (on_ok (gparse_command k (gparse_compound_list m) (parser_advance p)) (\<lambda>next p.
          pipe_loop k (gparse_compound_list m) (g_list_append (g_list_append list (leaf G_WORD_NODE s)) next) p))
       (g_node G_PIPE_SEQUENCE (D_List (list @ ptail_trees (PMore s c pt)))) (t # ts)"
  proof (rule yields_on_ok)
    show "yields p (gparse_command k (gparse_compound_list m) (parser_advance p)) (cmd_tree c) (ptail_tokens pt @ t # ts)"
      unfolding yields_tokens [OF h(5) [symmetric]]
      using assms(1) h(3) ok len v n by (auto simp: parses_cmd_def)
    fix q
    assume q: "at_tokens q (ptail_tokens pt @ t # ts)" "pr_tokens q = pr_tokens p"
    have "yields q (pipe_loop k (gparse_compound_list m) (list @ [leaf G_WORD_NODE s, cmd_tree c]) q)
       (g_node G_PIPE_SEQUENCE (D_List ((list @ [leaf G_WORD_NODE s, cmd_tree c]) @ ptail_trees pt))) (t # ts)"
      by (rule assms(2) [unfolded parses_ptail_def, rule_format]) (use q ok t len n in auto)
    then show "yields p (pipe_loop k (gparse_compound_list m) (g_list_append (g_list_append list (leaf G_WORD_NODE s)) (cmd_tree c)) q)
       (g_node G_PIPE_SEQUENCE (D_List (list @ ptail_trees (PMore s c pt)))) (t # ts)"
      using yields_tokens [OF q(2)] by (simp add: g_list_append_def)
  qed
  with h ok skip show "yields p (pipe_loop n (gparse_compound_list m) list p)
       (g_node G_PIPE_SEQUENCE (D_List (list @ ptail_trees (PMore s c pt)))) (t # ts)"
    by (simp add: n leaf_def)
qed

lemma pend_parses: "parses_ptail PEnd"
  unfolding parses_ptail_def
proof (intro allI impI)
  fix p n m t ts list
  assume a: "at_tokens p (ptail_tokens PEnd @ t # ts)" "tok_type t \<in> follows - {TOKEN_PIPE}"
    "length (ptail_tokens PEnd @ t # ts) \<le> n"
  then show "yields p (pipe_loop n (gparse_compound_list m) list p)
       (g_node G_PIPE_SEQUENCE (D_List (list @ ptail_trees PEnd))) (t # ts)"
    by (cases n) (auto simp: at_here intro: yields_parsed)
qed


lemma aend_parses: "parses_atail AEnd"
  unfolding parses_atail_def
proof (intro allI impI)
  fix p n m t ts left
  assume "at_tokens p (atail_tokens AEnd @ t # ts)" "tok_type t \<in> follows - {TOKEN_PIPE, TOKEN_AND_IF, TOKEN_OR_IF}"
    "length (atail_tokens AEnd @ t # ts) \<le> n"
  then show "yields p (and_or_loop n (gparse_compound_list m) left p) (atail_tree AEnd left) (t # ts)"
    by (cases n) (auto simp: at_here intro: yields_parsed)
qed

lemma atail_parses:
  assumes "parses_pipe c" "parses_atail a"
  shows "parses_atail (AMore s c a)"
  unfolding parses_atail_def
proof (intro allI impI)
  fix p n m t ts left
  assume p: "at_tokens p (atail_tokens (AMore s c a) @ t # ts)" and ok: "atail_ok (AMore s c a)"
    and t: "tok_type t \<in> follows - {TOKEN_PIPE, TOKEN_AND_IF, TOKEN_OR_IF}"
    and len: "length (atail_tokens (AMore s c a) @ t # ts) \<le> n" "length (atail_tokens (AMore s c a) @ t # ts) \<le> m"
  obtain k where n: "n = Suc k" using len by (cases n) auto
  have p': "at_tokens p (s # pipe_tokens c @ atail_tokens a @ t # ts)" using p by simp
  note h = at_here [OF p']
  have skip: "parser_skip_newlines (parser_advance p) = parser_advance p"
    by (rule startsE [OF starts_more [OF pipe_starts] h(3)]) (use ok in simp)
  obtain v vs where v: "atail_tokens a @ t # ts = v # vs" "tok_type v \<in> follows - {TOKEN_PIPE}"
    using atail_hd [of a t ts] ok t by auto
  let ?left = "multi G_AND_OR [Some left, Some (leaf G_AND_OR s), Some (pipe_tree c)]"
  have "yields p (on_result (gparse_pipeline k (gparse_compound_list m) (parser_advance p)) (\<lambda>r p'.
          case r of
            Inl _ \<Rightarrow> parsed left (parser_rewind_to_position p' (pr_position p))
          | Inr right \<Rightarrow> and_or_loop k (gparse_compound_list m)
              (multi G_AND_OR [Some left, Some (leaf G_AND_OR s), Some right]) p'))
       (atail_tree (AMore s c a) left) (t # ts)"
  proof (rule yields_on_result)
    show "yields p (gparse_pipeline k (gparse_compound_list m) (parser_advance p)) (pipe_tree c) (atail_tokens a @ t # ts)"
      unfolding yields_tokens [OF h(5) [symmetric]]
      using assms(1) h(3) ok len v n by (auto simp: parses_pipe_def)
    fix q
    assume q: "at_tokens q (atail_tokens a @ t # ts)" "pr_tokens q = pr_tokens p"
    have "yields q (and_or_loop k (gparse_compound_list m) ?left q) (atail_tree a ?left) (t # ts)"
      by (rule assms(2) [unfolded parses_atail_def, rule_format]) (use q ok t len n in auto)
    then show "yields p (case Inr (pipe_tree c) of
            Inl (_ :: parse_status) \<Rightarrow> parsed left (parser_rewind_to_position q (pr_position p))
          | Inr right \<Rightarrow> and_or_loop k (gparse_compound_list m)
              (multi G_AND_OR [Some left, Some (leaf G_AND_OR s), Some right]) q) (atail_tree (AMore s c a) left) (t # ts)"
      using yields_tokens [OF q(2)] by simp
  qed
  moreover have "tok_type s = TOKEN_AND_IF \<or> tok_type s = TOKEN_OR_IF" using ok by auto
  ultimately show "yields p (and_or_loop n (gparse_compound_list m) left p) (atail_tree (AMore s c a) left) (t # ts)"
    by (elim disjE) (simp_all add: n Let_def h(1) h(6) [folded leaf_def] skip)
qed

lemma ao_parses:
  assumes "parses_pipe c" "parses_atail a"
  shows "parses_ao (AndOr c a)"
  unfolding parses_ao_def gparse_and_or_def
proof (intro allI impI yields_on_ok)
  fix p n m t ts
  assume p: "at_tokens p (ao_tokens (AndOr c a) @ t # ts)" and ok: "ao_ok (AndOr c a)"
    and t: "tok_type t \<in> follows - {TOKEN_PIPE, TOKEN_AND_IF, TOKEN_OR_IF}"
    and len: "length (ao_tokens (AndOr c a) @ t # ts) \<le> n" "length (ao_tokens (AndOr c a) @ t # ts) \<le> m"
  obtain v vs where v: "atail_tokens a @ t # ts = v # vs" "tok_type v \<in> follows - {TOKEN_PIPE}"
    using atail_hd [of a t ts] ok t by auto
  show "yields p (gparse_pipeline n (gparse_compound_list m) p) (pipe_tree c) (atail_tokens a @ t # ts)"
    using assms(1) p ok len v by (auto simp: parses_pipe_def)
  fix q
  assume q: "at_tokens q (atail_tokens a @ t # ts)" "pr_tokens q = pr_tokens p"
  have "yields q (and_or_loop n (gparse_compound_list m) (pipe_tree c) q) (atail_tree a (pipe_tree c)) (t # ts)"
    by (rule assms(2) [unfolded parses_atail_def, rule_format]) (use q ok t len in auto)
  then show "yields p (and_or_loop n (gparse_compound_list m) (pipe_tree c) q) (ao_tree (AndOr c a)) (t # ts)"
    using yields_tokens [OF q(2)] by simp
qed

lemma clist_tokens_opt: "clist_tokens (CList a lt s) = ao_tokens a @ ltail_tokens lt @ opt_tokens s"
  by (simp add: opt_tokens_def)

lemma clist_ok_sep: "clist_ok (CList a lt s) \<Longrightarrow> (case s of None \<Rightarrow> True | Some u \<Rightarrow> tok_type u \<in> list_separators)"
  by (cases s) (auto simp: list_separators_def)

lemma clist_parses:
  assumes "parses_ao a" "all_ao parses_ao lt"
  shows "parses_clist (CList a lt s)"
  unfolding parses_clist_def
proof (intro allI impI)
  fix p m t ts
  assume p0: "at_tokens p (clist_tokens (CList a lt s) @ t # ts)" and ok: "clist_ok (CList a lt s)"
    and t: "tok_type t \<in> closers" and len: "length (clist_tokens (CList a lt s) @ t # ts) < m"
  obtain k where m: "m = Suc k" using len by (cases m) auto
  let ?rest = "ltail_tokens lt @ opt_tokens s @ t # ts"
  have p: "at_tokens p (ao_tokens a @ ?rest)" using p0 unfolding clist_tokens_opt by simp
  have len': "length (ao_tokens a @ ?rest) \<le> k" using len unfolding clist_tokens_opt m by simp
  have ao: "ao_ok a" "ltail_ok lt" using ok by simp_all
  note sep = clist_ok_sep [OF ok]
  have tf: "tok_type t \<in> follows - {TOKEN_PIPE, TOKEN_AND_IF, TOKEN_OR_IF}" using t by (auto simp: closers_def follows_def)
  obtain v vs where v: "?rest = v # vs" "tok_type v \<in> follows - {TOKEN_PIPE, TOKEN_AND_IF, TOKEN_OR_IF}"
    using ltail_hd [OF ao(2) sep tf] by blast
  have skip: "parser_skip_newlines p = p" by (rule startsE [OF starts_more [OF ao_starts [OF ao(1)]] p])
  let ?terms = "g_node G_TERM (D_List (ao_tree a # concat (map (\<lambda>(s, x). [separator_node s, x]) (ltail_trees lt))))"
  have body: "yields p (gparse_term k (gparse_compound_list k) p) ?terms (opt_tokens s @ t # ts)"
    unfolding gparse_term_def
  proof (rule yields_on_ok)
    show "yields p (gparse_and_or k (gparse_compound_list k) p) (ao_tree a) ?rest"
      using assms(1) p ao len' v by (auto simp: parses_ao_def)
    fix q
    assume q: "at_tokens q ?rest" "pr_tokens q = pr_tokens p"
    have "yields q (term_loop k gparse_separator G_TERM (gparse_compound_list k) [ao_tree a] q)
       (g_node G_TERM (D_List ([ao_tree a] @ concat (map (\<lambda>(s, x). [separator_node s, x]) (ltail_trees lt)))))
       (opt_tokens s @ t # ts)"
      by (rule term_separator.tail_parses [OF _ t sep q(1) ao(2) assms(2)]) (use len' in auto)
    then show "yields p (term_loop k gparse_separator G_TERM (gparse_compound_list k) [ao_tree a] q) ?terms (opt_tokens s @ t # ts)"
      using yields_tokens [OF q(2)] by simp
  qed
  show "yields p (gparse_compound_list m p) (clist_tree (CList a lt s)) (t # ts)"
    unfolding m gparse_compound_list.simps skip
  proof (rule yields_on_ok [OF body], goal_cases)
    case (1 q)
    show ?case
    proof (cases s)
      case None
      with 1 term_separator.refuses [of q t ts] t show ?thesis
        by (auto simp: opt_tokens_def intro: yields_parsed)
    next
      case (Some u)
      with 1 sep t have "\<exists>r. gparse_separator q = (Inr (separator_node u), r) \<and> at_tokens r (t # ts) \<and> pr_tokens r = pr_tokens q"
        by (intro term_separator.takes) (auto simp: opt_tokens_def)
      with 1 Some show ?thesis by (auto intro: yields_parsed)
    qed
  qed
qed


subsection \<open>Compound commands\<close>

lemma take_leaf: "at_tokens p (t # ts) \<Longrightarrow> take_token ty p = (leaf ty t, parser_advance p)"
  by (simp add: at_here leaf_def)

lemma compound_command_parses:
  assumes p: "at_tokens p (w # us)" and w: "tok_type w \<in> {TOKEN_LPAREN, TOKEN_WHILE, TOKEN_UNTIL, TOKEN_IF, TOKEN_CASE}"
    and body: "yields p' (if tok_type w = TOKEN_LPAREN then gparse_subshell cl p else if tok_type w = TOKEN_WHILE
      then gparse_while_clause cl p else if tok_type w = TOKEN_UNTIL then gparse_until_clause cl p
      else if tok_type w = TOKEN_CASE then gparse_case_clause n cl p else gparse_if_clause n cl p) x ts"
  shows "gparse_function_definition n cl p = failed PARSE_ERROR p"
    "yields p' (gparse_compound_command n cl p) (g_node G_COMPOUND_COMMAND (D_Child x)) ts"
proof -
  have not_word: "tok_type w \<noteq> TOKEN_WORD" using w by auto
  show "gparse_function_definition n cl p = failed PARSE_ERROR p"
    using no_function_here [OF p not_word] .
  have "gparse_compound_command n cl p = on_ok (if tok_type w = TOKEN_LPAREN then gparse_subshell cl p
      else if tok_type w = TOKEN_WHILE then gparse_while_clause cl p
      else if tok_type w = TOKEN_UNTIL then gparse_until_clause cl p
      else if tok_type w = TOKEN_CASE then gparse_case_clause n cl p else gparse_if_clause n cl p)
    (\<lambda>child p. parsed (g_node G_COMPOUND_COMMAND (D_Child child)) p)"
    using w promote_compound_none [OF p] not_word
    by (auto simp: gparse_compound_command_def Let_def at_here(1,4) [OF p])
  then show "yields p' (gparse_compound_command n cl p) (g_node G_COMPOUND_COMMAND (D_Child x)) ts"
    by (simp only:) (rule yields_on_ok [OF body], rule yields_parsed)
qed

lemma compound_parses:
  assumes p: "at_tokens p (w # us)" and w: "tok_type w \<in> {TOKEN_LPAREN, TOKEN_WHILE, TOKEN_UNTIL, TOKEN_IF, TOKEN_CASE}"
    and t: "tok_type t \<in> follows"
    and body: "yields p' (if tok_type w = TOKEN_LPAREN then gparse_subshell cl p else if tok_type w = TOKEN_WHILE
      then gparse_while_clause cl p else if tok_type w = TOKEN_UNTIL then gparse_until_clause cl p
      else if tok_type w = TOKEN_CASE then gparse_case_clause n cl p else gparse_if_clause n cl p) x (t # ts)"
  shows "yields p' (gparse_command n cl p) (compound_node x) (t # ts)"
proof -
  note compound = compound_command_parses [OF p w body]
  obtain q where q: "gparse_compound_command n cl p = parsed (g_node G_COMPOUND_COMMAND (D_Child x)) q"
    "at_tokens q (t # ts)" "pr_tokens q = pr_tokens p'" using compound(2) by (auto simp: yields_def)
  with compound(1) show ?thesis
    by (simp add: gparse_command_def on_result_def failed_def parsed_def compound_with_redirects_def
        no_redirect [OF q(2) t] yields_def)
qed

lemma later: "parses_clist c \<Longrightarrow> clist_ok c \<Longrightarrow> at_tokens q (clist_tokens c @ t # ts) \<Longrightarrow> tok_type t \<in> closers \<Longrightarrow>
    length (clist_tokens c @ t # ts) < m \<Longrightarrow> pr_tokens q = pr_tokens p \<Longrightarrow>
    yields p (gparse_compound_list m q) (clist_tree c) (t # ts)"
  using yields_tokens [of p q] by (simp add: parses_clist_def)

lemma not_word_closer: "tok_type t \<in> closers \<Longrightarrow> tok_type t \<noteq> TOKEN_WORD \<and> tok_type t \<noteq> TOKEN_EOF"
  by (auto simp: closers_def)

lemma subshell_group_parses:
  assumes "parses_clist c" and p: "at_tokens p (l # clist_tokens c @ r # ts)"
    and ok: "tok_type l = TOKEN_LPAREN" "clist_ok c" "tok_type r = TOKEN_RPAREN"
    and len: "length (clist_tokens c @ r # ts) < m"
  shows "yields p (gparse_subshell (gparse_compound_list m) p)
      (multi G_SUBSHELL [word_node l, Some (clist_tree c), word_node r]) ts"
proof -
  note h = at_here [OF p]
  have r: "tok_type r \<in> closers" using ok by (simp add: closers_def)
  show ?thesis
    unfolding gparse_subshell_def Let_def take_leaf [OF p] prod.case h(1) if_not_P [OF not_not [THEN iffD2, OF ok(1)]]
  proof (rule yields_on_ok [OF later [OF assms(1) ok(2) h(3) r len h(5)]], goal_cases)
    case (1 q)
    note k = at_here [OF 1(1)]
    show ?case using ok k(1,3,5) 1(2) by (simp add: take_leaf [OF 1(1)] yields_parsed)
  qed
qed

lemma subshell_parses:
  assumes "parses_clist c"
  shows "parses_cmd (Subshell l c r)"
  unfolding parses_cmd_def
proof (intro allI impI)
  fix p n m t ts
  assume p0: "at_tokens p (cmd_tokens (Subshell l c r) @ t # ts)" and ok: "cmd_ok (Subshell l c r)"
    and t: "tok_type t \<in> follows" and len: "length (cmd_tokens (Subshell l c r) @ t # ts) \<le> m"
  have p: "at_tokens p (l # clist_tokens c @ r # t # ts)" using p0 by simp
  have "yields p (gparse_subshell (gparse_compound_list m) p)
      (multi G_SUBSHELL [word_node l, Some (clist_tree c), word_node r]) (t # ts)"
    using subshell_group_parses [OF assms p, of m] ok len by (simp del: multi_simps)
  then show "yields p (gparse_command n (gparse_compound_list m) p) (cmd_tree (Subshell l c r)) (t # ts)"
    using compound_parses [OF p _ t, of p "gparse_compound_list m" n] ok by simp
qed

lemma do_group_parses:
  assumes b: "parses_clist b" and ok: "tok_type d = TOKEN_DO" "clist_ok b" "tok_type e = TOKEN_DONE"
    and p: "at_tokens p (d # clist_tokens b @ e # ts)" and len: "length (clist_tokens b @ e # ts) < m"
  shows "yields p (gparse_do_group (gparse_compound_list m) p)
    (multi G_DO_GROUP [word_node d, Some (clist_tree b), word_node e]) ts"
proof -
  note h = at_here [OF p]
  have e: "tok_type e \<in> closers" using ok by (simp add: closers_def)
  have d: "closing_keyword parser_token_try_promote_to_do p = p" using keyword_none(1) [OF p] ok by simp
  have "yields p (on_ok (gparse_compound_list m (parser_advance p)) (\<lambda>list p.
          let p = closing_keyword parser_token_try_promote_to_done p in
          if parser_current_token_type p \<noteq> TOKEN_DONE
          then if parser_current_token_type p = TOKEN_EOF then failed PARSE_INCOMPLETE p
               else error (''Expected '' @ quoted_name ''done'' @ '' to close do group'') p
          else let (done_tok, p) = take_token G_WORD_NODE p in
            parsed (multi G_DO_GROUP [word_node d, Some list, Some done_tok]) p))
    (multi G_DO_GROUP [word_node d, Some (clist_tree b), word_node e]) ts"
  proof (rule yields_on_ok [OF later [OF b ok(2) h(3) e len h(5)]], goal_cases)
    case (1 q)
    note k = at_here [OF 1(1)]
    have "closing_keyword parser_token_try_promote_to_done q = q" using keyword_none(2) [OF 1(1)] ok by simp
    then show ?case using ok k(1,3,5) 1(2) by (simp add: take_leaf [OF 1(1)] yields_parsed)
  qed
  then show ?thesis unfolding gparse_do_group_def Let_def d take_leaf [OF p] prod.case h(1) ok(1) by simp
qed


lemma loop_parses:
  assumes "parses_clist c" "parses_clist b"
  shows "parses_cmd (Loop w c d b e)"
  unfolding parses_cmd_def
proof (intro allI impI)
  fix p n m t ts
  assume p0: "at_tokens p (cmd_tokens (Loop w c d b e) @ t # ts)" and ok: "cmd_ok (Loop w c d b e)"
    and t: "tok_type t \<in> follows" and len: "length (cmd_tokens (Loop w c d b e) @ t # ts) \<le> m"
  have p: "at_tokens p (w # clist_tokens c @ d # clist_tokens b @ e # t # ts)" using p0 by simp
  note h = at_here [OF p]
  have d: "tok_type d \<in> closers" using ok by (simp add: closers_def)
  let ?do = "multi G_DO_GROUP [word_node d, Some (clist_tree b), word_node e]"
  have parts: "yields p (on_ok (gparse_compound_list m (parser_advance p)) (\<lambda>cond p.
        on_ok (gparse_do_group (gparse_compound_list m) p) (\<lambda>do_grp p.
          parsed (multi ty [word_node w, Some cond, Some do_grp]) p)))
      (multi ty [word_node w, Some (clist_tree c), Some ?do]) (t # ts)" for ty
  proof (rule yields_on_ok [OF later [OF assms(1) _ h(3) d]], goal_cases)
    case (4 q)
    have "yields p (gparse_do_group (gparse_compound_list m) q) ?do (t # ts)"
      using do_group_parses [OF assms(2) _ _ _ 4(1)] ok len yields_tokens [OF 4(2)] by auto
    then show ?case by (rule yields_on_ok) (rule yields_parsed)
  qed (use ok len h(5) in auto)
  have "yields p (if tok_type w = TOKEN_LPAREN then gparse_subshell (gparse_compound_list m) p
      else if tok_type w = TOKEN_WHILE then gparse_while_clause (gparse_compound_list m) p
      else if tok_type w = TOKEN_UNTIL then gparse_until_clause (gparse_compound_list m) p
      else if tok_type w = TOKEN_CASE then gparse_case_clause n (gparse_compound_list m) p
      else gparse_if_clause n (gparse_compound_list m) p)
     (multi (if tok_type w = TOKEN_WHILE then G_WHILE_CLAUSE else G_UNTIL_CLAUSE)
       [word_node w, Some (clist_tree c), Some ?do]) (t # ts)"
  proof (cases "tok_type w = TOKEN_WHILE")
    case True
    with parts [of G_WHILE_CLAUSE] show ?thesis
      by (simp add: gparse_while_clause_def take_leaf [OF p] h(1) del: multi_simps)
  next
    case False
    with ok have "tok_type w = TOKEN_UNTIL" by simp
    with parts [of G_UNTIL_CLAUSE] show ?thesis
      by (simp add: gparse_until_clause_def take_leaf [OF p] h(1) del: multi_simps)
  qed
  then show "yields p (gparse_command n (gparse_compound_list m) p) (cmd_tree (Loop w c d b e)) (t # ts)"
    using compound_parses [OF p _ t, of p "gparse_compound_list m" n] ok by (auto simp del: multi_simps)
qed

lemma if_parses:
  assumes "parses_clist c" "parses_clist b"
  shows "parses_cmd (If i c u b f)"
  unfolding parses_cmd_def
proof (intro allI impI)
  fix p n m t ts
  assume p0: "at_tokens p (cmd_tokens (If i c u b f) @ t # ts)" and ok: "cmd_ok (If i c u b f)"
    and t: "tok_type t \<in> follows" and len: "length (cmd_tokens (If i c u b f) @ t # ts) \<le> n"
      "length (cmd_tokens (If i c u b f) @ t # ts) \<le> m"
  obtain k where n: "n = Suc k" using len(1) by (cases n) auto
  have p: "at_tokens p (i # clist_tokens c @ u # clist_tokens b @ f # t # ts)" using p0 by simp
  note h = at_here [OF p]
  have closers: "tok_type u \<in> closers" "tok_type f \<in> closers" using ok by (simp_all add: closers_def)
  let ?tree = "multi G_IF_CLAUSE
       [Some (multi G_IF_CLAUSE [word_node i, Some (clist_tree c), word_node u, Some (clist_tree b)]), None, word_node f]"
  define else_then where "else_then = (\<lambda>cond then_tok then_body p. on_result (gparse_else_part n (gparse_compound_list m) p) (\<lambda>else_part p.
              let p = closing_keyword parser_token_try_promote_to_fi p in
              if parser_current_token_type p \<noteq> TOKEN_FI
              then if parser_current_token_type p = TOKEN_EOF then failed PARSE_INCOMPLETE p
                   else error (''Expected '' @ quoted_name ''fi'' @ '' to close if statement'') p
              else let (fi_tok, p) = take_token G_WORD_NODE p;
                       node = multi G_IF_CLAUSE [word_node i, Some cond, Some then_tok, Some then_body]
                in parsed (multi G_IF_CLAUSE [Some node, node_of else_part, Some fi_tok]) p))"
  have last: "yields p (else_then (clist_tree c) (leaf G_WORD_NODE u) (clist_tree b) r) ?tree (t # ts)"
    if "at_tokens r (f # t # ts)" "pr_tokens r = pr_tokens p" for r
  proof -
    note k = at_here [OF that(1)]
    have "gparse_else_part n (gparse_compound_list m) r = failed PARSE_ERROR r"
      using ok k(1) by (simp add: n)
    then show ?thesis using keyword_none(4) [OF that(1)] ok k(1,3,5) that(2)
      by (simp add: else_then_def on_result_def failed_def take_leaf [OF that(1)] node_of_def yields_parsed)
  qed
  have then_part: "yields p (let q = closing_keyword parser_token_try_promote_to_then q in
          if parser_current_token_type q \<noteq> TOKEN_THEN
          then if parser_current_token_type q = TOKEN_EOF then failed PARSE_INCOMPLETE q
               else error (''Expected '' @ quoted_name ''then'' @ '' after if condition'') q
          else let (then_tok, q) = take_token G_WORD_NODE q in
            on_ok (gparse_compound_list m q) (\<lambda>then_body. else_then (clist_tree c) then_tok then_body)) ?tree (t # ts)"
    if q: "at_tokens q (u # clist_tokens b @ f # t # ts)" "pr_tokens q = pr_tokens p" for q
  proof -
    note k = at_here [OF q(1)]
    have "yields p (on_ok (gparse_compound_list m (parser_advance q)) (\<lambda>then_body. else_then (clist_tree c) (leaf G_WORD_NODE u) then_body))
       ?tree (t # ts)"
      by (rule yields_on_ok [OF later [OF assms(2) _ k(3) closers(2)]]) (use last ok len k(5) q(2) in auto)
    then show ?thesis using keyword_none(3) [OF q(1)] ok k(1) by (simp add: take_leaf [OF q(1)])
  qed
  have "yields p (on_ok (gparse_compound_list m (parser_advance p)) (\<lambda>cond q.
          let q = closing_keyword parser_token_try_promote_to_then q in
          if parser_current_token_type q \<noteq> TOKEN_THEN
          then if parser_current_token_type q = TOKEN_EOF then failed PARSE_INCOMPLETE q
               else error (''Expected '' @ quoted_name ''then'' @ '' after if condition'') q
          else let (then_tok, q) = take_token G_WORD_NODE q in
            on_ok (gparse_compound_list m q) (\<lambda>then_body. else_then cond then_tok then_body))) ?tree (t # ts)"
    by (rule yields_on_ok [OF later [OF assms(1) _ h(3) closers(1)]], goal_cases) (use ok len h(5) in \<open>auto simp del: multi_simps intro: then_part\<close>)
  then have "yields p (gparse_if_clause n (gparse_compound_list m) p) ?tree (t # ts)"
    unfolding gparse_if_clause_def take_leaf [OF p] h(1) Let_def prod.case else_then_def
    using ok by (simp only: cmd_ok.simps simp_thms if_False)
  then show "yields p (gparse_command n (gparse_compound_list m) p) (cmd_tree (If i c u b f)) (t # ts)"
    using compound_parses [OF p _ t, of p "gparse_compound_list m" n] ok by (simp del: multi_simps)
qed

lemma everything_parses:
  "parses_cmd c" "parses_pipe p" "parses_ptail pt" "parses_ao a" "parses_atail at" "parses_clist cl" "all_ao parses_ao lt"
proof (induction c and p and pt and a and at and cl and lt)
  case (Simple w ws)
  show ?case by (auto simp: parses_cmd_def intro!: command_simple)
qed (auto intro: subshell_parses loop_parses if_parses pipe_parses pend_parses ptail_parses ao_parses aend_parses
    atail_parses clist_parses)

subsection \<open>Programs\<close>

type_synonym line = "clist \<times> token"

definition line_tokens :: "line \<Rightarrow> token list" where
  "line_tokens l = clist_tokens (fst l) @ [snd l]"

definition line_ok :: "line \<Rightarrow> bool" where
  "line_ok l \<longleftrightarrow> clist_ok (fst l) \<and> tok_type (snd l) = TOKEN_NEWLINE"

primrec list_tree :: "clist \<Rightarrow> gnode" where
  \<comment> \<open>the list of a complete command, whose separators are not wrapped\<close>
  "list_tree (CList a lt s) =
     multi G_COMPLETE_COMMAND
       [Some (g_node G_LIST (D_List (ao_tree a #
          concat (map (\<lambda>(s, x). [leaf G_SEPARATOR_OP s, x]) (ltail_trees lt))))),
        map_option (leaf G_SEPARATOR_OP) s]"

definition program_tree :: "line list \<Rightarrow> gnode" where
  "program_tree ls =
     g_node G_PROGRAM (D_Child (g_node G_COMPLETE_COMMANDS (D_List (map (list_tree \<circ> fst) ls))))"

lemma clist_starts: "clist_ok c \<Longrightarrow> starts (clist_tokens c)"
  by (cases c) (auto simp: ao_starts)

lemma complete_command_parses:
  assumes p0: "at_tokens p (clist_tokens c @ t # ts)" and ok: "clist_ok c" and t: "tok_type t = TOKEN_NEWLINE"
    and len: "length (clist_tokens c @ t # ts) \<le> n"
  shows "yields p (gparse_complete_command n p) (list_tree c) (t # ts)"
proof -
  obtain a lt s where c: "c = CList a lt s" by (cases c)
  let ?rest = "ltail_tokens lt @ opt_tokens s @ t # ts"
  have p: "at_tokens p (ao_tokens a @ ?rest)" using p0 unfolding c clist_tokens_opt by simp
  have len': "length (ao_tokens a @ ?rest) \<le> n" using len unfolding c clist_tokens_opt by simp
  have ao: "ao_ok a" "ltail_ok lt" using ok by (simp_all add: c)
  note sep = clist_ok_sep [OF ok [unfolded c]]
  have tf: "tok_type t \<in> follows - {TOKEN_PIPE, TOKEN_AND_IF, TOKEN_OR_IF}" "tok_type t \<in> {TOKEN_NEWLINE}"
    using t by (auto simp: follows_def)
  obtain v vs where v: "?rest = v # vs" "tok_type v \<in> follows - {TOKEN_PIPE, TOKEN_AND_IF, TOKEN_OR_IF}"
    using ltail_hd [OF ao(2) sep tf(1)] by blast
  let ?list = "g_node G_LIST (D_List (ao_tree a # concat (map (\<lambda>(s, x). [leaf G_SEPARATOR_OP s, x]) (ltail_trees lt))))"
  have body: "yields p (gparse_list n p) ?list (opt_tokens s @ t # ts)"
    unfolding gparse_list_def
  proof (rule yields_on_ok)
    show "yields p (gparse_and_or n (gparse_compound_list n) p) (ao_tree a) ?rest"
      using everything_parses(4) [of a] p ao len' v by (auto simp: parses_ao_def)
    fix q
    assume q: "at_tokens q ?rest" "pr_tokens q = pr_tokens p"
    have "yields q (term_loop n gparse_separator_op G_LIST (gparse_compound_list n) [ao_tree a] q)
       (g_node G_LIST (D_List ([ao_tree a] @ concat (map (\<lambda>(s, x). [leaf G_SEPARATOR_OP s, x]) (ltail_trees lt)))))
       (opt_tokens s @ t # ts)"
      by (rule list_separator.tail_parses [OF _ tf(2) sep q(1) ao(2) everything_parses(7)]) (use len' in auto)
    then show "yields p (term_loop n gparse_separator_op G_LIST (gparse_compound_list n) [ao_tree a] q) ?list (opt_tokens s @ t # ts)"
      using yields_tokens [OF q(2)] by simp
  qed
  show ?thesis unfolding gparse_complete_command_def
  proof (rule yields_on_ok [OF body], goal_cases)
    case (1 q)
    show ?case
    proof (cases s)
      case None
      with 1 list_separator.refuses [of q t ts] t show ?thesis
        by (auto simp: opt_tokens_def c node_of_def intro: yields_parsed)
    next
      case (Some u)
      with 1 sep t have "\<exists>r. gparse_separator_op q = (Inr (leaf G_SEPARATOR_OP u), r) \<and> at_tokens r (t # ts) \<and> pr_tokens r = pr_tokens q"
        by (intro list_separator.takes) (auto simp: opt_tokens_def)
      with 1 Some show ?thesis by (auto simp: c node_of_def intro: yields_parsed)
    qed
  qed
qed

lemma keyword_end: "at_tokens p [] \<Longrightarrow> closing_keyword parser_token_try_promote_to_bang p = p"
  by (auto simp: promote_defs parser_token_try_promote_def at_tokens_def Let_def)

lemma no_more_commands: "at_tokens p [] \<Longrightarrow> gparse_complete_command n p = failed PARSE_EMPTY p"
  by (simp add: gparse_complete_command_def gparse_list_def gparse_and_or_def gparse_pipeline_def keyword_end at_end
      on_ok_def on_result_def failed_def)

lemma skip_end: "at_tokens p [] \<Longrightarrow> parser_skip_newlines p = p"
  by (subst parser_skip_newlines.simps) (simp add: parser_accept_def at_end)

lemma at_skip_newline:
  assumes "at_tokens p (t # ts)" "tok_type t = TOKEN_NEWLINE" "ts = [] \<or> starts ts"
  shows "at_tokens (parser_skip_newlines p) ts" "pr_tokens (parser_skip_newlines p) = pr_tokens p"
proof -
  note h = at_here [OF assms(1)]
  have "parser_skip_newlines p = parser_skip_newlines (parser_advance p)"
    using h(1) assms(2) by (subst parser_skip_newlines.simps) (simp add: parser_accept_def)
  moreover have "parser_skip_newlines (parser_advance p) = parser_advance p"
    using assms(3) startsE(1) [OF _ h(3)] skip_end h(3) by blast
  ultimately show "at_tokens (parser_skip_newlines p) ts" "pr_tokens (parser_skip_newlines p) = pr_tokens p"
    using h(3,5) by simp_all
qed

lemma lines_start: "list_all line_ok ls \<Longrightarrow> concat (map line_tokens ls) = [] \<or> starts (concat (map line_tokens ls))"
  by (cases ls) (auto simp: line_ok_def line_tokens_def clist_starts)

lemma lines_cons: "concat (map line_tokens (l # ls)) = clist_tokens (fst l) @ snd l # concat (map line_tokens ls)"
  by (simp add: line_tokens_def)

lemma more_lines:
  "at_tokens p (nl # concat (map line_tokens ls)) \<Longrightarrow> tok_type nl = TOKEN_NEWLINE \<Longrightarrow> list_all line_ok ls \<Longrightarrow>
   length (concat (map line_tokens ls)) < m \<Longrightarrow> length (concat (map line_tokens ls)) \<le> n \<Longrightarrow>
   yields p (complete_commands_loop m n list p)
     (g_node G_COMPLETE_COMMANDS (D_List (list @ map (list_tree \<circ> fst) ls))) []"
proof (induction ls arbitrary: p nl list m)
  case Nil
  then obtain k where m: "m = Suc k" by (cases m) auto
  have "at_tokens (parser_skip_newlines p) []" "pr_tokens (parser_skip_newlines p) = pr_tokens p"
    using at_skip_newline [of p nl "[]"] Nil by simp_all
  with Nil at_here(1) [of p nl] show ?case
    by (simp add: m no_more_commands on_result_def failed_def yields_parsed)
next
  case (Cons l ls)
  then obtain k where m: "m = Suc k" by (cases m) auto
  let ?q = "parser_skip_newlines p"
  have q: "at_tokens ?q (clist_tokens (fst l) @ snd l # concat (map line_tokens ls))" "pr_tokens ?q = pr_tokens p"
    using at_skip_newline [OF Cons.prems(1,2)] lines_start [OF Cons.prems(3)] unfolding lines_cons by auto
  have l: "clist_ok (fst l)" "tok_type (snd l) = TOKEN_NEWLINE" using Cons.prems(3) by (simp_all add: line_ok_def)
  have first: "yields ?q (gparse_complete_command n ?q) (list_tree (fst l)) (snd l # concat (map line_tokens ls))"
    by (rule complete_command_parses [OF q(1) l]) (use Cons.prems(5) [unfolded lines_cons] in simp)
  have "yields ?q (on_result (gparse_complete_command n ?q) (\<lambda>r p.
        case r of
          Inr next \<Rightarrow> complete_commands_loop k n (g_list_append list next) p
        | Inl status \<Rightarrow>
            if status = PARSE_EMPTY then parsed (g_node G_COMPLETE_COMMANDS (D_List list)) p
            else failed status p))
     (g_node G_COMPLETE_COMMANDS (D_List (list @ map (list_tree \<circ> fst) (l # ls)))) []"
  proof (rule yields_on_result [OF first], goal_cases)
    case (1 r)
    have "yields r (complete_commands_loop k n (list @ [list_tree (fst l)]) r)
       (g_node G_COMPLETE_COMMANDS (D_List ((list @ [list_tree (fst l)]) @ map (list_tree \<circ> fst) ls))) []"
      by (rule Cons.IH [OF 1(1) l(2)]) (use Cons.prems(3) Cons.prems(4,5) [unfolded lines_cons] m in auto)
    then show ?case using yields_tokens [OF 1(2)] by (simp add: g_list_append_def)
  qed
  with yields_tokens [OF q(2)] at_here(1) [OF Cons.prems(1)] Cons.prems(2) show ?case by (simp add: m o_def)
qed

lemma program_parses:
  assumes "list_all line_ok ls" "ls \<noteq> []"
  shows "\<exists>q. parser_parse_program (parser_create_with_tokens_move (concat (map line_tokens ls))) =
      parsed (program_tree ls) q \<and> at_tokens q []"
proof -
  obtain l ks where ls: "ls = l # ks" using assms(2) by (cases ls) auto
  let ?ts = "concat (map line_tokens ls)" and ?p = "parser_create_with_tokens_move (concat (map line_tokens ls))"
  have p: "at_tokens ?p ?ts" "pr_tokens ?p = ?ts" by (simp_all add: parser_create_with_tokens_move_def at_tokens_def)
  have ts: "?ts = clist_tokens (fst l) @ snd l # concat (map line_tokens ks)" by (simp only: ls lines_cons)
  have start: "starts ?ts" "?ts \<noteq> []" using lines_start [OF assms(1)] by (auto simp: ls line_tokens_def)
  let ?n = "length ?ts + 2"
  note s = startsE [OF start(1) p(1)]
  have l: "clist_ok (fst l)" "tok_type (snd l) = TOKEN_NEWLINE" using assms(1) by (simp_all add: ls line_ok_def)
  have first: "yields ?p (gparse_complete_command ?n ?p) (list_tree (fst l)) (snd l # concat (map line_tokens ks))"
    by (rule complete_command_parses [OF _ l]; unfold ts [symmetric]) (use p(1) in simp_all)
  have commands: "yields ?p (gparse_complete_commands ?n ?p)
      (g_node G_COMPLETE_COMMANDS (D_List (map (list_tree \<circ> fst) ls))) []"
    unfolding gparse_complete_commands_def s(5) if_False
  proof (rule yields_on_ok [OF first], goal_cases)
    case (1 q)
    have "yields q (complete_commands_loop ?n ?n [list_tree (fst l)] q)
       (g_node G_COMPLETE_COMMANDS (D_List ([list_tree (fst l)] @ map (list_tree \<circ> fst) ks))) []"
      by (rule more_lines [OF 1(1) l(2)]) (use assms(1) in \<open>simp_all only: ls lines_cons, simp_all\<close>)
    then show ?case using yields_tokens [OF 1(2)] by (simp add: ls)
  qed
  have "yields ?p (gparse_program ?n ?p) (program_tree ls) []"
    unfolding gparse_program_def s(1)
  proof (rule yields_on_result [OF commands], goal_cases)
    case (1 q)
    with skip_end [OF 1(1)] show ?case by (simp add: program_tree_def yields_parsed)
  qed
  moreover have "parser_parse_program ?p = gparse_program ?n ?p"
    using start(2) by (simp add: parser_parse_program_def parser_create_with_tokens_move_def parser_clear_error_def
        Let_def del: concat_eq_Nil_conv)
  ultimately show ?thesis by (auto simp: yields_def)
qed


subsection \<open>The tokens of a tree\<close>

lemma fringe_leaf [simp]: "fringe (leaf ty t) = [token_clone t]"
  by (simp add: leaf_def)

lemma fringe_command [simp]: "fringe (command_node x) = fringe x"
  by (simp add: command_node_def)

lemma fringe_separator [simp]: "fringe (separator_node t) = [token_clone t]"
  by (simp add: separator_node_def)

lemma fringe_data [simp]:
  "data_fringe (D_List xs) = concat (map fringe xs)"
  "data_fringe (D_Multi a b c d) = concat (map (\<lambda>x. case x of None \<Rightarrow> [] | Some y \<Rightarrow> fringe y) [a, b, c, d])"
  "data_fringe (D_Pair a b) = concat (map (\<lambda>x. case x of None \<Rightarrow> [] | Some y \<Rightarrow> fringe y) [a, b])"
  by (simp_all add: data_fringe.simps)

lemma fringe_simple [simp]: "fringe (simple_tree w ws) = map token_clone (w # ws)"
  by (auto simp: simple_tree_def o_def)

lemma concat_pairs: "concat (concat (map (\<lambda>x. [[f x], g x]) xs)) = concat (map (\<lambda>x. f x # g x) xs)"
  by (induction xs) auto

lemma fringe_command_trees:
  "fringe (cmd_tree c) = map token_clone (cmd_tokens c)"
  "fringe (pipe_tree p) = map token_clone (pipe_tokens p)"
  "concat (map fringe (ptail_trees pt)) = map token_clone (ptail_tokens pt)"
  "fringe (ao_tree a) = map token_clone (ao_tokens a)"
  "fringe (atail_tree at left) = fringe left @ map token_clone (atail_tokens at)"
  "fringe (clist_tree cl) = map token_clone (clist_tokens cl)"
  "concat (map (\<lambda>(s, x). token_clone s # fringe x) (ltail_trees lt)) = map token_clone (ltail_tokens lt)"
  by (induction c and p and pt and a and at and cl and lt arbitrary: and and and and left)
    (auto simp: map_concat o_def split_def concat_pairs split: option.split)

lemma fringe_list_tree: "fringe (list_tree c) = map token_clone (clist_tokens c)"
  by (cases c) (use fringe_command_trees(4,7) in \<open>auto simp: map_concat o_def split_def concat_pairs split: option.split\<close>)

lemma fringe_program: "fringe (program_tree ls) = map token_clone (concat (map (clist_tokens \<circ> fst) ls))"
  by (simp add: program_tree_def map_concat o_def fringe_list_tree)

end
