(* ===== verification/Parser_Props.thy ===== *)
theory Parser_Props
  imports
    Parse_Program Parser_Language
begin

section \<open>Properties of the parser\<close>

subsection \<open>Regular trees\<close>

fun regular :: "gnode \<Rightarrow> bool" and data_regular :: "gnode_data \<Rightarrow> bool" where
  \<comment> \<open>every node's kind names the member that is stored\<close>
  "regular (Node ty k d) = (names_member k d \<and> data_regular d)"
| "data_regular D_Zero = True"
| "data_regular (D_List xs) = list_all regular xs"
| "data_regular (D_Token t) = True"
| "data_regular (D_String s) = True"
| "data_regular (D_Child x) = regular x"
| "data_regular (D_Pair a b) = (pred_option regular a \<and> pred_option regular b)"
| "data_regular (D_Multi a b c d) =
     (pred_option regular a \<and> pred_option regular b \<and> pred_option regular c \<and> pred_option regular d)"
| "data_regular (D_Io_Here op here_end tok) = True"

lemma regular_destroy:
  "regular x \<Longrightarrow> g_node_destroy x"
  "names_member k d \<Longrightarrow> data_regular d \<Longrightarrow> g_data_destroy k d"
  by (induction x and k d rule: g_node_destroy_g_data_destroy.induct)
    (auto simp: list_all_iff pred_option_def)

subsection \<open>A line of input\<close>

definition plain_token :: "token_type \<Rightarrow> string option \<Rightarrow> token" where
  \<comment> \<open>a token of a type, with a literal part where it is a word\<close>
  "plain_token ty text = (token_create ty)\<lparr>tok_parts := map_option (\<lambda>s. [part_create_literal s]) text\<rparr>"

abbreviation word :: "string \<Rightarrow> token" where
  "word s \<equiv> plain_token TOKEN_WORD (Some s)"

abbreviation sign :: "token_type \<Rightarrow> token" where
  "sign ty \<equiv> plain_token ty None"

lemma plain_token_simps [simp]: "tok_type (plain_token ty text) = ty"
  "single_unquoted_literal (word s) = Some s"
  by (simp_all add: plain_token_def token_create_def single_unquoted_literal_def part_create_literal_def blank_part_def)

definition and_line :: line where
  \<comment> \<open>\<open>a && b\<close>\<close>
  "and_line = (CList (AndOr (Pipe (Simple (word ''a'') []) PEnd)
     (AMore (sign TOKEN_AND_IF) (Pipe (Simple (word ''b'') []) PEnd) AEnd)) LEnd None, sign TOKEN_NEWLINE)"

lemma plain_word_ab [simp]: "plain_word (word ''a'')" "plain_word (word ''b'')" "plain_word (word ''c'')"
  by (simp_all add: plain_word_def token_is_reserved_word_def reserved_words_def cstr_of_def)

lemma and_line_ok: "line_ok and_line"
  by (simp add: line_ok_def and_line_def)

lemma and_line_parses:
  obtains q where "parser_parse_program (parser_create_with_tokens_move (line_tokens and_line)) =
    Some (Some (Inr (program_tree [and_line]), q))"
  using program_parses [of "[and_line]"] and_line_ok by (auto simp: parsed_def)

subsection \<open>For every list of tokens\<close>


text \<open>C9: What the parser returns accounts for the tokens it was given.  The tokens of the tree are
  clones of tokens before the position, none of them twice; the tokens themselves are unchanged but
  for words promoted to the reserved word they spell.  On failure the list is unchanged in the
  same sense.\<close>

theorem tree_holds_consumed_tokens:
  assumes "parser_parse_program p = Some (Some (r, q))"
  shows "toks_of (node_of r) \<subseteq># image_mset token_clone (mset (take (pr_position q) (pr_tokens q))) \<and>
    list_all2 promoted (pr_tokens p) (pr_tokens q)"
proof -
  let ?s = "parser_clear_error (p\<lparr>pr_position := 0\<rparr>)"
  have "ran ?s (toks_of (node_of r)) q"
    using well_parsed_parser_parse_program [of p] assms by (cases r) (simp_all add: well_parsed_def node_of_def)
  then show ?thesis by (simp add: ran_def between_def parser_clear_error_def)
qed

theorem tree_holds_consumed_tokens_witness:
  "\<exists>q. parser_parse_program (parser_create_with_tokens_move (line_tokens and_line)) =
      Some (Some (Inr (program_tree [and_line]), q)) \<and>
    toks (program_tree [and_line]) \<subseteq># image_mset token_clone (mset (take (pr_position q) (pr_tokens q)))"
proof -
  obtain q where run: "parser_parse_program (parser_create_with_tokens_move (line_tokens and_line)) =
      Some (Some (Inr (program_tree [and_line]), q))" by (rule and_line_parses)
  with tree_holds_consumed_tokens [OF run] show ?thesis by (auto simp: node_of_def)
qed

text \<open>C14: In every tree the kind of each node names the member of the union that was stored, but for the
  operator of an and-or list, the name of a function and the body of a function with
  redirections; a tree without these is destroyed without reading another member.\<close>

theorem tree_typed:
  assumes "parser_parse_program p = Some (Some (Inr tree, q))"
  shows "typed tree \<and> (regular tree \<longrightarrow> g_node_destroy tree)"
  using well_parsed_parser_parse_program [of p] assms regular_destroy(1) by (simp add: well_parsed_def)

theorem tree_typed_witness: "typed (program_tree [and_line])"
proof -
  obtain q where run: "parser_parse_program (parser_create_with_tokens_move (line_tokens and_line)) =
      Some (Some (Inr (program_tree [and_line]), q))" by (rule and_line_parses)
  with tree_typed [OF run] show ?thesis by simp
qed

text \<open>C5: Parsing gives back what was written.  The tokens of any lines of the language, made of words,
  pipelines, and-or lists, lists with both separators, subshells, while and until loops and
  conditionals nested in any way, are parsed to the end, to the one tree that stands for them, and
  reading off the tree gives the tokens of the lines again, in their order.\<close>

theorem program_round_trip:
  assumes "list_all line_ok ls" "ls \<noteq> []"
  shows "\<exists>q. parser_parse_program (parser_create_with_tokens_move (concat (map line_tokens ls))) =
      Some (Some (Inr (program_tree ls), q)) \<and> at_tokens q [] \<and>
    fringe (program_tree ls) = map token_clone (concat (map (clist_tokens \<circ> fst) ls))"
  using program_parses [OF assms] fringe_program [of ls] by (auto simp: parsed_def)

theorem program_round_trip_witness:
  "\<exists>q. parser_parse_program (parser_create_with_tokens_move (line_tokens and_line)) =
      Some (Some (Inr (program_tree [and_line]), q)) \<and> at_tokens q [] \<and>
    fringe (program_tree [and_line]) =
      map token_clone [word ''a'', sign TOKEN_AND_IF, word ''b'']"
  using program_round_trip [of "[and_line]"] and_line_ok by (auto simp: and_line_def)

lemma bad_left: "\<not> g_node_destroy left \<Longrightarrow> \<not> g_node_destroy (atail_tree a left)"
proof -
  have "\<forall>left. \<not> g_node_destroy left \<longrightarrow> \<not> g_node_destroy (atail_tree a left)"
    by (rule atail.induct [of "\<lambda>_. True" "\<lambda>_. True" "\<lambda>_. True" "\<lambda>_. True"
        "\<lambda>a. \<forall>left. \<not> g_node_destroy left \<longrightarrow> \<not> g_node_destroy (atail_tree a left)" "\<lambda>_. True" "\<lambda>_. True"])
      (auto simp: g_node_def gnode_get_payload_type_def)
  then show "\<not> g_node_destroy left \<Longrightarrow> \<not> g_node_destroy (atail_tree a left)" by blast
qed

lemma atail_bad: "a \<noteq> AEnd \<Longrightarrow> \<not> g_node_destroy (atail_tree a left)"
  by (cases a) (auto intro!: bad_left simp: g_node_def gnode_get_payload_type_def leaf_def)

text \<open>C40: The operator of an and-or list is stored as a token in a node whose kind says that it holds
  four children: \<open>g_node_destroy\<close>, which the shell calls on every tree after lowering it, reads the
  pointer to the token as one to a node.\<close>

theorem and_or_misread:
  assumes "line_ok (CList (AndOr p a) lt s, nl)" "a \<noteq> AEnd"
  shows "\<exists>tree q. parser_parse_program (parser_create_with_tokens_move
      (line_tokens (CList (AndOr p a) lt s, nl))) = Some (Some (Inr tree, q)) \<and> \<not> g_node_destroy tree"
proof -
  obtain q where "parser_parse_program (parser_create_with_tokens_move (concat (map line_tokens
      [(CList (AndOr p a) lt s, nl)]))) = parsed (program_tree [(CList (AndOr p a) lt s, nl)]) q"
    using program_parses [of "[(CList (AndOr p a) lt s, nl)]"] assms(1) by auto
  moreover have "\<not> g_node_destroy (program_tree [(CList (AndOr p a) lt s, nl)])"
    using atail_bad [OF assms(2)] by (simp add: program_tree_def g_node_def gnode_get_payload_type_def)
  ultimately show ?thesis by (auto simp: parsed_def)
qed

theorem and_or_misread_witness:
  "\<exists>tree q. parser_parse_program (parser_create_with_tokens_move (line_tokens and_line)) = Some (Some (Inr tree, q)) \<and>
    \<not> g_node_destroy tree"
  using and_or_misread and_line_ok unfolding and_line_def by blast

subsection \<open>Lines that are cut short\<close>

lemma start_of_command:
  \<comment> \<open>a simple command as the first pipeline of a program\<close>
  assumes "list_all plain_word (w # ws)" "tok_type t \<in> follows"
    and p_def: "p = parser_create_with_tokens_move (w # ws @ t # ts)"
  shows "parser_parse_program p = gparse_program (length (w # ws @ t # ts) + 2) p" "at_tokens p (w # ws @ t # ts)"
    "parser_skip_newlines p = p" "parser_at_end p = False"
    "yields p (gparse_command n cl p) (command_node (simple_tree w ws)) (t # ts)"
    "gparse_pipeline n cl p = on_ok (gparse_pipe_sequence n cl p) (\<lambda>seq p. parsed (g_node G_PIPELINE (D_List [seq])) p)"
proof -
  show at: "at_tokens p (w # ws @ t # ts)" by (simp add: p_def parser_create_with_tokens_move_def at_tokens_def)
  have "starts (w # ws @ t # ts)" using assms(1) by (simp add: starts_def)
  note s = startsE [OF this at]
  show "parser_skip_newlines p = p" "parser_at_end p = False" by (fact s)+
  show "yields p (gparse_command n cl p) (command_node (simple_tree w ws)) (t # ts)"
    by (rule command_simple [OF at assms(1,2)])
  show "gparse_pipeline n cl p = on_ok (gparse_pipe_sequence n cl p) (\<lambda>seq p. parsed (g_node G_PIPELINE (D_List [seq])) p)"
    using s(2-4) by (simp add: gparse_pipeline_def Let_def g_list_append_def)
  show "parser_parse_program p = gparse_program (length (w # ws @ t # ts) + 2) p"
    by (simp add: parser_parse_program_def p_def parser_create_with_tokens_move_def parser_clear_error_def Let_def)
qed

lemma violated_on [simp]: "on_result (Some None) f = Some None" "on_ok (Some None) g = Some None"
  by (simp_all add: on_result_def on_ok_def)

text \<open>C35: A pipe at the end of a line ends the shell.  What follows the newline is read as a command, and
  where there is none a contract of \<open>gparse_compound_command\<close> is violated; POSIX has the command
  go on with the next line.\<close>

theorem pipe_at_end_aborts:
  assumes "list_all plain_word (w # ws)" "tok_type bar = TOKEN_PIPE" "tok_type nl = TOKEN_NEWLINE"
  shows "parse_tokens (w # ws @ [bar, nl]) s = Some None"
proof -
  let ?p = "parser_create_with_tokens_move (w # ws @ [bar, nl])"
  have bar: "tok_type bar \<in> follows" using assms(2) by (simp add: follows_def)
  note st = start_of_command [OF assms(1) bar, of ?p "[nl]", OF refl]
  have violated: "gparse_pipe_sequence (Suc n) cl ?p = Some None" for n cl
  proof -
    obtain q where q: "gparse_command (Suc n) cl ?p = parsed (command_node (simple_tree w ws)) q" "at_tokens q [bar, nl]"
      using st(5) [of "Suc n" cl] by (auto simp: yields_def)
    note h = at_here [OF q(2)]
    let ?r = "parser_skip_newlines (parser_advance q)"
    have r: "at_tokens ?r []" using at_skip_newline [OF h(3) assms(3)] by simp
    have "gparse_command n cl ?r = Some None"
      using at_end [OF r] r
      by (simp add: gparse_command_def gparse_function_definition_def gparse_compound_command_def
          on_result_def failed_def at_tokens_def parser_at_end_def parser_current_token_def)
    with q(1) h(1) assms(2) show ?thesis
      by (simp add: gparse_pipe_sequence_def on_ok_def on_result_def parsed_def take_leaf [OF q(2)])
  qed
  have "gparse_complete_commands (Suc n) ?p = Some None" for n
    by (simp only: gparse_complete_commands_def gparse_complete_command_def gparse_list_def gparse_and_or_def
        st(4) st(6) violated violated_on if_False)
  then have "gparse_program (Suc n) ?p = Some None" for n
    by (simp only: gparse_program_def st(3) violated_on)
  from this [of "Suc (length (w # ws @ [bar, nl]))"] have "parser_parse_program ?p = Some None"
    unfolding st(1) by simp
  then show ?thesis by (simp add: parse_tokens_def)
qed

theorem pipe_at_end_aborts_witness:
  "parse_tokens [word ''a'', sign TOKEN_PIPE, sign TOKEN_NEWLINE] (parse_session_create None) = Some None"
  using pipe_at_end_aborts [of "word ''a''" "[]"] by simp

definition program_of :: "gnode \<Rightarrow> gnode" where
  \<comment> \<open>the program of one and-or list\<close>
  "program_of x = g_node G_PROGRAM (D_Child (g_node G_COMPLETE_COMMANDS (D_List
      [multi G_COMPLETE_COMMAND [Some (g_node G_LIST (D_List [x])), None]])))"

lemma one_command_program:
  \<comment> \<open>an and-or list is the whole program, be it before the last newline or before a token that is no
     separator\<close>
  assumes p: "p = parser_create_with_tokens_move (w # us)" and w: "starts (w # us)"
    and ao: "yields r (gparse_and_or (length (w # us) + 2) (gparse_compound_list (length (w # us) + 2)) p) x (t # ts)"
    and t: "tok_type t \<notin> {TOKEN_SEMI, TOKEN_AMPER}" "tok_type t = TOKEN_NEWLINE \<longrightarrow> ts = []"
  shows "yields r (parser_parse_program p) (program_of x) (if tok_type t = TOKEN_NEWLINE then [] else t # ts)"
proof -
  define n where "n = length (w # us) + 2"
  then have n: "length (w # us) < n" "\<exists>k. n = Suc k" by simp_all
  have at: "at_tokens p (w # us)" by (simp add: p parser_create_with_tokens_move_def at_tokens_def)
  note s = startsE [OF w at]
  have sep: "gparse_separator_op q = (Inl PARSE_ERROR, q)" if "at_tokens q (t # ts)" for q
    using at_here(1) [OF that] t by (simp add: gparse_separator_op_def)
  have list: "yields r (gparse_list n p) (g_node G_LIST (D_List [x])) (t # ts)"
    unfolding gparse_list_def
    by (rule yields_on_ok [OF ao [folded n_def]]) (use n(2) in \<open>auto simp: sep Let_def yields_parsed\<close>)
  have cmd: "yields r (gparse_complete_command n p)
      (multi G_COMPLETE_COMMAND [Some (g_node G_LIST (D_List [x])), None]) (t # ts)"
    unfolding gparse_complete_command_def
    by (rule yields_on_ok [OF list]) (simp add: sep yields_parsed node_of_def)
  have cmds: "yields r (gparse_complete_commands n p) (g_node G_COMPLETE_COMMANDS (D_List
      [multi G_COMPLETE_COMMAND [Some (g_node G_LIST (D_List [x])), None]]))
      (if tok_type t = TOKEN_NEWLINE then [] else t # ts)"
    unfolding gparse_complete_commands_def s(5) if_False
  proof (rule yields_on_ok [OF cmd], goal_cases)
    case (1 q)
    note h = at_here [OF 1(1)]
    show ?case
    proof (cases "tok_type t = TOKEN_NEWLINE")
      case True
      note e = at_skip_newline [OF 1(1) True]
      have "gparse_complete_command n (parser_skip_newlines q) = failed PARSE_EMPTY (parser_skip_newlines q)"
        using no_more_commands e(1) t(2) True by simp
      with e t(2) True h(1) n(2) 1(2) show ?thesis by (auto simp: on_result_def failed_def yields_parsed)
    next
      case False
      with h(1) n(2) 1 show ?thesis by (auto simp: yields_parsed)
    qed
  qed
  have "yields r (gparse_program n p) (program_of x) (if tok_type t = TOKEN_NEWLINE then [] else t # ts)"
    unfolding gparse_program_def s(1)
  proof (rule yields_on_result [OF cmds], goal_cases)
    case (1 q)
    have "parser_skip_newlines q = q" using 1(1) at_skip [of q t ts] skip_end [of q] by (auto split: if_splits)
    with 1 show ?case by (simp add: yields_parsed program_of_def)
  qed
  then show ?thesis
    by (simp add: parser_parse_program_def p parser_create_with_tokens_move_def parser_clear_error_def Let_def n_def)
qed

lemma parse_tokens_yields: "yields r (parser_parse_program (parser_create_with_tokens_move ts)) x us \<Longrightarrow>
    parse_tokens ts s = Some (Some (Program x, s))"
  by (auto simp: parse_tokens_def yields_def parsed_def)

definition pipeline_of :: "gnode \<Rightarrow> gnode" where
  \<comment> \<open>the pipeline of one command\<close>
  "pipeline_of x = g_node G_PIPELINE (D_List [g_node G_PIPE_SEQUENCE (D_List [x])])"

lemma one_command_pipeline:
  assumes "at_tokens p us" "starts us" "yields r (gparse_command (Suc n) cl p) x (t # ts)" "tok_type t \<noteq> TOKEN_PIPE"
  shows "yields r (gparse_pipeline (Suc n) cl p) (pipeline_of x) (t # ts)"
proof -
  note s = startsE [OF assms(2,1)]
  have "yields r (gparse_pipe_sequence (Suc n) cl p) (g_node G_PIPE_SEQUENCE (D_List [x])) (t # ts)"
    unfolding gparse_pipe_sequence_def
  proof (rule yields_on_ok [OF assms(3)], goal_cases)
    case (1 q)
    with at_here(1) [OF 1(1)] assms(4) show ?case by (simp add: yields_parsed)
  qed
  then have "yields r (on_ok (gparse_pipe_sequence (Suc n) cl p) (\<lambda>seq p. parsed (g_node G_PIPELINE (D_List [seq])) p))
      (pipeline_of x) (t # ts)"
    by (rule yields_on_ok) (simp add: yields_parsed pipeline_of_def)
  with s(2-4) show ?thesis by (simp add: gparse_pipeline_def Let_def g_list_append_def)
qed

lemma one_command_and_or:
  assumes "at_tokens p us" "starts us" "yields r (gparse_command n cl p) x (t # ts)"
    and t: "tok_type t \<notin> {TOKEN_PIPE, TOKEN_AND_IF, TOKEN_OR_IF}" and n: "0 < n"
  shows "yields r (gparse_and_or n cl p) (pipeline_of x) (t # ts)"
proof -
  obtain k where k: "n = Suc k" using n by (cases n) auto
  have "yields r (gparse_pipeline n cl p) (pipeline_of x) (t # ts)"
    using one_command_pipeline [OF assms(1,2), of r k cl x t ts] assms(3) t by (simp add: k)
  then show ?thesis unfolding gparse_and_or_def
  proof (rule yields_on_ok, goal_cases)
    case (1 q)
    with at_here(1) [OF 1(1)] t show ?case by (auto simp: k Let_def yields_parsed)
  qed
qed

text \<open>Tokens that no command can begin with, after a command, are dropped without an error: the shell
  runs the command and nothing says that \<open>)\<close> or \<open>done\<close> was not expected.\<close>

theorem leftover_ignored:
  assumes "list_all plain_word (w # ws)" "tok_type t \<in> closers"
  shows "parse_tokens (w # ws @ t # ts) s =
    Some (Some (Program (program_of (pipeline_of (command_node (simple_tree w ws)))), s))"
proof (rule parse_tokens_yields [where r = "parser_create_with_tokens_move (w # ws @ t # ts)"],
    rule one_command_program [OF refl, where t = t and ts = ts], goal_cases)
  case 2
  let ?p = "parser_create_with_tokens_move (w # ws @ t # ts)"
  have p: "at_tokens ?p (w # ws @ t # ts)" by (simp add: parser_create_with_tokens_move_def at_tokens_def)
  have t: "tok_type t \<in> follows" "tok_type t \<notin> {TOKEN_PIPE, TOKEN_AND_IF, TOKEN_OR_IF}"
    using assms(2) by (auto simp: closers_def follows_def)
  have "starts (w # ws @ t # ts)" using assms(1) by (simp add: starts_def)
  from one_command_and_or [OF p this command_simple [OF p assms(1) t(1)] t(2)] show ?case by simp
qed (use assms in \<open>auto simp: starts_def closers_def\<close>)

theorem leftover_ignored_witness:
  "parse_tokens [word ''a'', sign TOKEN_RPAREN, word ''b''] (parse_session_create None) =
     Some (Some (Program (program_of (pipeline_of (command_node (simple_tree (word ''a'') [])))),
       parse_session_create None))"
  using leftover_ignored [of "word ''a''" "[]" "sign TOKEN_RPAREN" "[word ''b'']"] by (simp add: closers_def)

text \<open>An and-or operator at the end of a line does not ask for the next line: the parser goes back to
  the operator, and the shell runs what was before it.  \<open>&&\<close> and \<open>||\<close> are dropped like the tokens
  of the previous property.\<close>

theorem operator_at_end_ignored:
  assumes "list_all plain_word (w # ws)" "tok_type opr \<in> {TOKEN_AND_IF, TOKEN_OR_IF}" "tok_type nl = TOKEN_NEWLINE"
  shows "parse_tokens (w # ws @ [opr, nl]) s =
    Some (Some (Program (program_of (pipeline_of (command_node (simple_tree w ws)))), s))"
proof (rule parse_tokens_yields [where r = "parser_create_with_tokens_move (w # ws @ [opr, nl])"],
    rule one_command_program [OF refl, where t = opr and ts = "[nl]"], goal_cases)
  case 2
  let ?p = "parser_create_with_tokens_move (w # ws @ [opr, nl])"
  obtain k where k: "length (w # ws @ [opr, nl]) + 2 = Suc k" by simp
  have p: "at_tokens ?p (w # ws @ [opr, nl])" by (simp add: parser_create_with_tokens_move_def at_tokens_def)
  have t: "tok_type opr \<in> follows" "tok_type opr \<noteq> TOKEN_PIPE" using assms(2) by (auto simp: follows_def)
  have "starts (w # ws @ [opr, nl])" using assms(1) by (simp add: starts_def)
  note line = one_command_pipeline [OF p this command_simple [OF p assms(1) t(1)] t(2)]
  show ?case unfolding gparse_and_or_def k
  proof (rule yields_on_ok [OF line], goal_cases)
    case (1 q)
    note h = at_here [OF 1(1)]
    let ?r = "parser_skip_newlines (parser_advance q)"
    have r: "at_tokens ?r []" "pr_tokens ?r = pr_tokens ?p"
      using at_skip_newline [OF h(3) assms(3)] h(5) 1(2) by simp_all
    have fail: "gparse_pipeline k cl ?r = failed PARSE_EMPTY ?r" for cl
      by (simp add: gparse_pipeline_def keyword_end [OF r(1)] at_end [OF r(1)])
    have pos: "pr_position q < length (pr_tokens ?p)"
      using 1 by (auto simp: at_tokens_def) (metis drop_eq_Nil list.distinct(1) not_le)
    then have again: "at_tokens (parser_rewind_to_position ?r (pr_position q)) [opr, nl]"
      "pr_tokens (parser_rewind_to_position ?r (pr_position q)) = pr_tokens ?p"
      using 1 r(2) by (auto simp: parser_rewind_to_position_def at_tokens_def)
    have "and_or_loop (Suc k) cl x q = parsed x (parser_rewind_to_position ?r (pr_position q))" for x cl
      using assms(2) h(1) by (auto simp: take_leaf [OF 1(1)] fail on_result_def failed_def Let_def)
    with again show ?case by (simp add: yields_parsed)
  qed
qed (use assms in \<open>auto simp: starts_def\<close>)

theorem operator_at_end_ignored_witness:
  "parse_tokens [word ''a'', sign TOKEN_AND_IF, sign TOKEN_NEWLINE] (parse_session_create None) =
     Some (Some (Program (program_of (pipeline_of (command_node (simple_tree (word ''a'') [])))),
       parse_session_create None))"
  using operator_at_end_ignored [of "word ''a''" "[]" "sign TOKEN_AND_IF" "sign TOKEN_NEWLINE"] by simp

subsection \<open>The last item of a case command\<close>

lemma at_promote_in:
  assumes "at_tokens p (i # ts)" "tok_type i = TOKEN_WORD" "single_unquoted_literal i = Some ''in''"
  defines "j \<equiv> i\<lparr>tok_type := TOKEN_IN, tok_parts := None\<rparr>"
  shows "at_tokens (promote_to_in p) (j # ts)"
proof -
  have d: "pr_position p < length (pr_tokens p)" "drop (Suc (pr_position p)) (pr_tokens p) = ts"
    using assms(1) at_here(3) [OF assms(1)] unfolding at_tokens_def parser_advance_def
    by (auto split: if_splits)
  then have "promote_to_in p = p\<lparr>pr_tokens := (pr_tokens p)[pr_position p := j]\<rparr>"
    using assms at_here(2) [OF assms(1)]
    by (simp add: promote_to_in_def parser_token_try_promote_def token_try_promote_to_word_def)
  with d show ?thesis
    by (simp add: at_tokens_def Cons_nth_drop_Suc [symmetric])
qed

lemma one_pattern:
  assumes "at_tokens p (pat # rp # ts)" "tok_type pat = TOKEN_WORD" "tok_type rp = TOKEN_RPAREN"
  shows "case_patterns p f = f None (g_node G_PATTERN_LIST (D_List [leaf G_WORD_NODE pat])) (leaf G_WORD_NODE rp)
      (parser_advance (parser_advance p))"
    "at_tokens (parser_advance (parser_advance p)) ts" "pr_tokens (parser_advance (parser_advance p)) = pr_tokens p"
proof -
  note h = at_here [OF assms(1)]
  note k = at_here [OF h(3)]
  have "pattern_loop xs (parser_advance p) = (Inr xs, parser_advance p)" for xs
    using k(1) assms(3) by (simp add: pattern_loop.simps)
  then have "gparse_pattern_list p = (Inr (g_node G_PATTERN_LIST (D_List [leaf G_WORD_NODE pat])), parser_advance p)"
    using h(1) assms(2) by (simp add: gparse_pattern_list_def take_leaf [OF assms(1)])
  then show "case_patterns p f = f None (g_node G_PATTERN_LIST (D_List [leaf G_WORD_NODE pat])) (leaf G_WORD_NODE rp)
      (parser_advance (parser_advance p))" using h(1) k(1) assms(2,3)
    by (simp add: case_patterns_def take_lparen_def take_leaf [OF h(3)])
  show "at_tokens (parser_advance (parser_advance p)) ts" "pr_tokens (parser_advance (parser_advance p)) = pr_tokens p"
    using h(5) k(3,5) by simp_all
qed

lemma no_pattern:
  assumes "at_tokens p (t # ts)" "tok_type t \<noteq> TOKEN_LPAREN" "tok_type t \<noteq> TOKEN_WORD"
  shows "case_patterns p f = failed PARSE_ERROR p"
  using assms at_here(1) [OF assms(1)] by (simp add: case_patterns_def take_lparen_def gparse_pattern_list_def)

lemma last_item_refused:
  \<comment> \<open>an item whose commands are followed by \<open>esac\<close>\<close>
  assumes "at_tokens p (pat # rp # clist_tokens body @ e # ts)" "tok_type pat = TOKEN_WORD" "tok_type rp = TOKEN_RPAREN"
    "clist_ok body" "tok_type e = TOKEN_ESAC" "length (clist_tokens body @ e # ts) < m"
  shows "fails p (gparse_case_list n (gparse_compound_list m) p) PARSE_ERROR (e # ts)"
proof -
  let ?r = "parser_advance (parser_advance p)"
  note item = one_pattern [OF assms(1-3)]
  have e: "tok_type e \<in> closers" using assms(5) by (simp add: closers_def)
  have "yields p (gparse_compound_list m ?r) (clist_tree body) (e # ts)"
    by (rule later [OF everything_parses(6) assms(4) item(2) e assms(6) item(3)])
  then obtain u where u: "gparse_compound_list m ?r = parsed (clist_tree body) u" "at_tokens u (e # ts)"
    "pr_tokens u = pr_tokens p" by (auto simp: yields_def)
  have "gparse_case_item (gparse_compound_list m) p = error (''Expected '' @ quoted_name '';;'' @ '' after case item'') u"
    using at_here(1) [OF u(2)] assms(5)
    by (simp add: gparse_case_item_def item(1) u(1) on_result_def parsed_def node_of_def)
  with u(2,3) show ?thesis by (auto simp: gparse_case_list_def intro!: fails_on_ok fails_error)
qed

lemma no_items_at_esac:
  assumes "at_tokens p (e # ts)" "tok_type e = TOKEN_ESAC"
  shows "gparse_case_list_ns n cl p = failed PARSE_ERROR p" "closing_keyword parser_token_try_promote_to_esac p = p"
proof -
  have none: "case_patterns p f = failed PARSE_ERROR p" for f using no_pattern [OF assms(1)] assms(2) by simp
  show "gparse_case_list_ns n cl p = failed PARSE_ERROR p"
    by (simp add: gparse_case_list_ns_def gparse_case_list_def gparse_case_item_def gparse_case_item_ns_def none
        on_ok_def on_result_def failed_def)
  show "closing_keyword parser_token_try_promote_to_esac p = p"
    using at_promote [OF assms(1)] assms(2) by (simp add: promote_defs reserved_words_def)
qed

lemma case_without_items:
  fixes i
  defines "j \<equiv> i\<lparr>tok_type := TOKEN_IN, tok_parts := None\<rparr>"
  assumes p: "at_tokens p (c # x # i # t # us)"
    and ty: "tok_type c = TOKEN_CASE" "tok_type x = TOKEN_WORD" "tok_type i = TOKEN_WORD"
      "single_unquoted_literal i = Some ''in''" "tok_type t \<noteq> TOKEN_NEWLINE"
    and items: "\<And>q. at_tokens q (t # us) \<Longrightarrow> fails q (gparse_case_list n cl q) PARSE_ERROR (e # ts)"
    and e: "tok_type e = TOKEN_ESAC"
  shows "\<exists>r. yields r (gparse_case_clause n cl p) (multi G_CASE_CLAUSE [word_node c, word_node x, word_node j, word_node e]) ts"
proof -
  note hp = at_here [OF p]
  note hx = at_here [OF hp(3)]
  have skip: "parser_skip_newlines (parser_advance (parser_advance p)) = parser_advance (parser_advance p)"
    using at_skip [OF hx(3)] ty by simp
  define q where "q = promote_to_in (parser_advance (parser_advance p))"
  have q: "at_tokens q (j # t # us)" using at_promote_in [OF hx(3) ty(3,4)] by (simp add: q_def j_def)
  note hq = at_here [OF q]
  have q1: "parser_skip_newlines (parser_advance q) = parser_advance q" using at_skip [OF hq(3)] ty(5) by simp
  obtain u where u: "gparse_case_list n cl (parser_advance q) = failed PARSE_ERROR u" "at_tokens u (e # ts)"
    using items [OF hq(3)] by (auto simp: fails_def)
  note hu = at_here [OF u(2)]
  have "tok_type j = TOKEN_IN" by (simp add: j_def)
  then have "gparse_case_clause n cl p =
      parsed (multi G_CASE_CLAUSE [word_node c, word_node x, word_node j, word_node e]) (parser_advance u)"
    using hp(1) hx(1) hq(1) hu(1) ty e no_items_at_esac [OF u(2) e]
    by (simp add: gparse_case_clause_def take_leaf [OF p] take_leaf [OF hp(3)] skip q_def [symmetric]
        take_leaf [OF q] q1 u(1) on_result_def failed_def take_leaf [OF u(2)])
  with hu(3) have "yields u (gparse_case_clause n cl p)
      (multi G_CASE_CLAUSE [word_node c, word_node x, word_node j, word_node e]) ts"
    using hu(5) by (simp add: yields_parsed)
  then show ?thesis by blast
qed

lemma yields_any: "yields r m x ts \<Longrightarrow> \<exists>q. m = parsed x q \<and> at_tokens q ts"
  by (auto simp: yields_def)

text \<open>C34: The last item of a case command may be written without \<open>;;\<close>.  It is then parsed, refused for
  the missing \<open>;;\<close>, and dropped without an error: whatever the commands of the item are, the tree is that of the
  command with no items, and the shell does nothing.  (The function for items without \<open>;;\<close> is called
  after the position has passed the item.)\<close>

theorem case_item_dropped:
  assumes "tok_type c = TOKEN_CASE" "tok_type x = TOKEN_WORD"
    "tok_type i = TOKEN_WORD" "single_unquoted_literal i = Some ''in''"
    "tok_type pat = TOKEN_WORD" "tok_type rp = TOKEN_RPAREN" "clist_ok body"
    "tok_type e = TOKEN_ESAC" "tok_type nl = TOKEN_NEWLINE"
  shows "parse_tokens ([c, x, i, pat, rp] @ clist_tokens body @ [e, nl]) s =
    Some (Some (Program (program_of (pipeline_of (compound_node (multi G_CASE_CLAUSE
      [word_node c, word_node x, word_node (i\<lparr>tok_type := TOKEN_IN, tok_parts := None\<rparr>), word_node e])))), s))"
proof -
  let ?ts = "c # x # i # pat # rp # clist_tokens body @ [e, nl]" and ?cl = gparse_compound_list
  let ?p = "parser_create_with_tokens_move ?ts"
  let ?tree = "multi G_CASE_CLAUSE [word_node c, word_node x, word_node (i\<lparr>tok_type := TOKEN_IN, tok_parts := None\<rparr>), word_node e]"
  have p: "at_tokens ?p ?ts" by (simp add: parser_create_with_tokens_move_def at_tokens_def)
  have start: "starts ?ts" using assms(1) by (simp add: starts_def)
  define n where "n = length ?ts + 2"
  have clause: "\<exists>r. yields r (gparse_case_clause n (?cl n) ?p) ?tree [nl]"
    using assms by (intro case_without_items [OF p]) (auto intro!: last_item_refused simp: n_def)
  have ao: "\<exists>r. yields r (gparse_and_or n (?cl n) ?p) (pipeline_of (compound_node ?tree)) [nl]"
    using clause compound_parses [OF p, of nl _ "?cl n" n ?tree "[]"] one_command_and_or [OF p start, of _ n "?cl n" _ nl "[]"] assms(1,9)
    by (fastforce simp: follows_def n_def)
  then obtain r where "yields r (gparse_and_or n (?cl n) ?p) (pipeline_of (compound_node ?tree)) [nl]" by blast
  then have "yields r (parser_parse_program ?p) (program_of (pipeline_of (compound_node ?tree))) []"
    using one_command_program [OF refl start, of r _ nl "[]"] assms(9) by (simp add: n_def)
  then show ?thesis using parse_tokens_yields by simp
qed

theorem case_item_dropped_witness:
  "parse_tokens [sign TOKEN_CASE, word ''a'', word ''in'', word ''a'', sign TOKEN_RPAREN, word ''b'', sign TOKEN_SEMI,
      sign TOKEN_ESAC, sign TOKEN_NEWLINE] (parse_session_create None) =
    Some (Some (Program (program_of (pipeline_of (compound_node (multi G_CASE_CLAUSE
      [word_node (sign TOKEN_CASE), word_node (word ''a''),
       word_node ((word ''in'')\<lparr>tok_type := TOKEN_IN, tok_parts := None\<rparr>), word_node (sign TOKEN_ESAC)])))),
      parse_session_create None))"
  using case_item_dropped [of "sign TOKEN_CASE" "word ''a''" "word ''in''" "word ''a''" "sign TOKEN_RPAREN"
      "CList (AndOr (Pipe (Simple (word ''b'') []) PEnd) AEnd) LEnd (Some (sign TOKEN_SEMI))"
      "sign TOKEN_ESAC" "sign TOKEN_NEWLINE" "parse_session_create None"]
  by simp

subsection \<open>Here-documents\<close>

lemma heredoc_command_refused:
  assumes "plain_word w" "tok_type h \<in> {TOKEN_DLESS, TOKEN_DLESSDASH}" "tok_type d = TOKEN_WORD"
    "tok_type t \<in> follows" "tok_type t \<noteq> TOKEN_NEWLINE" "at_tokens p (w # h # d # t # ts)"
  shows "\<exists>u msg. (\<forall>n cl. gparse_command n cl p = failed PARSE_ERROR u) \<and> pr_error_msg u \<noteq> []"
proof -
  have word: "tok_type w = TOKEN_WORD" "tok_type t \<noteq> TOKEN_END_OF_HEREDOC"
    using assms(1,4) by (auto simp: plain_word_def follows_def)
  obtain msg where msg: "gparse_compound_command n cl p = error msg p" for n cl
  proof
    show "gparse_compound_command n cl p = error ''Expected compound command (if/while/for/case/{/())'' p" for n cl
      using promote_compound_none [OF assms(6)] assms(1) word(1)
      by (simp add: gparse_compound_command_def at_here(1,4) [OF assms(6)] Let_def)
  qed
  have no_fun: "gparse_function_definition n cl p = failed PARSE_ERROR p" for n cl
    using no_function [OF assms(6)] assms(1,2) by auto
  let ?q = "parser_set_error msg p"
  have q: "at_tokens ?q (w # h # d # t # ts)" using assms(6) by simp
  note hw = at_here [OF q]
  note hh = at_here [OF hw(3)]
  note hd = at_here [OF hh(3)]
  define e where "e = g_node G_IO_REDIRECT (D_Multi None None
    (Some (g_node G_IO_HERE (D_Io_Here (tok_type h) (word_text (token_clone d)) None))) None)"
  let ?r = "parser_advance (parser_advance (parser_advance ?q))"
  have not_file: "\<not> is_file_operator (tok_type h)" "tok_type h \<noteq> TOKEN_IO_NUMBER" "tok_type h \<noteq> TOKEN_IO_LOCATION"
    "is_redirect_token (tok_type h)" "\<not> at_command_word (parser_advance ?q)"
    using assms(2) hh(1) by (auto simp: is_file_operator_def is_redirect_token_def at_command_word_def)
  have redirect: "gparse_io_redirect (parser_advance ?q) = (Inr e, ?r)"
    using not_file assms(2,3) hh(1) hd(1,2)
    by (auto simp: gparse_io_redirect_def io_prefix_def gparse_io_file_def gparse_io_here_def Let_def e_def)
  have r: "at_tokens ?r (t # ts)" by (rule hd(3))
  have suffix: "suffix_loop [] (parser_advance ?q) = ([e], ?r)"
    using not_redirect [of t] assms(4) at_follow [OF r assms(4)] at_here(1) [OF r]
    by (simp add: suffix_loop.simps [of "[]"] suffix_loop.simps [of "[e]"] hh(1) not_file redirect g_list_append_def)
  obtain u msg' where u: "match_list [e] ?r = (Inl PARSE_ERROR, u)" "u = parser_set_error (''Expected heredoc content'' @ msg') ?r"
    using at_skip [OF r assms(5)] at_here(1) [OF r] word(2)
    by (simp add: e_def g_node_def match_redirect_def match_here_def take_heredoc_def)
  have simple: "gparse_simple_command ?q = (Inl PARSE_ERROR, u)"
    using hw(1) word(1) u(1) at_plain [OF q assms(1)]
    by (simp add: gparse_simple_command_def prefix_loop.simps [of "[]"] take_leaf [OF q] suffix g_list_append_def
        match_heredocs_in_simple_command_def match_item_def leaf_def g_node_def del: error_same)
  have command: "gparse_command n cl p = failed PARSE_ERROR u" for n cl
    by (simp add: gparse_command_def no_fun msg on_result_def failed_def error_def simple)
  have "pr_error_msg u \<noteq> []"
    by (simp add: u(2) parser_set_error_def Let_def PARSER_ERROR_BUFFER_SIZE_def split: option.split)
  with command show ?thesis by blast
qed

lemma refused_command_refuses_program:
  assumes "starts ts" "\<And>n cl. gparse_command n cl (parser_create_with_tokens_move ts) = failed PARSE_ERROR u"
  shows "parser_parse_program (parser_create_with_tokens_move ts) = failed PARSE_ERROR u"
proof -
  let ?p = "parser_create_with_tokens_move ts"
  have "at_tokens ?p ts" by (simp add: parser_create_with_tokens_move_def at_tokens_def)
  note s = startsE [OF assms(1) this]
  have pipeline: "gparse_pipeline n cl ?p = failed PARSE_ERROR u" for n cl
    using s(2-4) by (simp add: gparse_pipeline_def gparse_pipe_sequence_def assms(2) on_ok_def on_result_def failed_def Let_def)
  have "gparse_complete_commands n ?p = failed PARSE_ERROR u" for n
    using s(5) by (simp add: gparse_complete_commands_def gparse_complete_command_def gparse_list_def gparse_and_or_def
        pipeline on_ok_def on_result_def failed_def)
  with s(1) assms(1) show ?thesis
    by (auto simp: parser_parse_program_def gparse_program_def on_result_def failed_def starts_def
        parser_create_with_tokens_move_def parser_clear_error_def Let_def)
qed

text \<open>A here-document has to be the last thing on its line.  The content is looked for right after the
  simple command, before the parser has seen the rest of the line, so a pipeline, an and-or list or
  a list whose first command has a here-document is a parse error.\<close>

theorem heredoc_then_pipe_refused:
  assumes "plain_word w" "tok_type h \<in> {TOKEN_DLESS, TOKEN_DLESSDASH}" "tok_type d = TOKEN_WORD"
    "tok_type t \<in> {TOKEN_PIPE, TOKEN_AND_IF, TOKEN_OR_IF, TOKEN_SEMI, TOKEN_AMPER}"
  shows "\<exists>msg. parse_tokens (w # h # d # t # ts) s =
    Some (Some (Program_Error (Error_At_Line (ps_line_num s) msg), s))"
proof -
  let ?ts = "w # h # d # t # ts"
  have "at_tokens (parser_create_with_tokens_move ?ts) ?ts" by (simp add: parser_create_with_tokens_move_def at_tokens_def)
  moreover have "tok_type t \<in> follows" "tok_type t \<noteq> TOKEN_NEWLINE" using assms(4) by (auto simp: follows_def)
  ultimately obtain u where u: "\<And>n cl. gparse_command n cl (parser_create_with_tokens_move ?ts) = failed PARSE_ERROR u"
    "pr_error_msg u \<noteq> []" using heredoc_command_refused [OF assms(1-3)] by metis
  have "starts ?ts" using assms(1) by (simp add: starts_def)
  from refused_command_refuses_program [OF this u(1)] u(2) show ?thesis
    by (simp add: parse_tokens_def failed_def parse_error_of_def parser_get_error_def)
qed

theorem heredoc_then_pipe_refused_witness:
  "\<exists>msg. parse_tokens [word ''a'', sign TOKEN_DLESS, word ''b'', sign TOKEN_PIPE, word ''c'', sign TOKEN_NEWLINE,
      sign TOKEN_END_OF_HEREDOC] (parse_session_create None) =
    Some (Some (Program_Error (Error_At_Line 0 msg), parse_session_create None))"
  using heredoc_then_pipe_refused [of "word ''a''" "sign TOKEN_DLESS" "word ''b''" "sign TOKEN_PIPE" _ "parse_session_create None"]
  by (simp add: parse_session_create_def)


end
