(* ===== verification/Ast.thy ===== *)
theory Ast
  imports
    Tokens
begin

section \<open>The tree that is executed (ast.h, ast.c)\<close>

text \<open>
  The nodes of the tree that the executor runs.  A constructor holds the members of the union
  that its type uses; a pointer that may be NULL is an option, lists of nodes and of tokens are
  HOL lists.  The location fields are never set.  As elsewhere \<open>None\<close> is a violated contract.
\<close>

datatype (plugins only: code size) andor_operator = ANDOR_OP_AND | ANDOR_OP_OR

datatype (plugins only: code size) cmd_separator = CMD_EXEC_SEQUENTIAL | CMD_EXEC_BACKGROUND | CMD_EXEC_END

datatype (plugins only: code size) redirection_type =
    REDIR_READ | REDIR_WRITE | REDIR_APPEND | REDIR_READWRITE | REDIR_WRITE_FORCE
  | REDIR_FD_DUP_IN | REDIR_FD_DUP_OUT | REDIR_FROM_BUFFER | REDIR_FROM_BUFFER_STRIP

datatype (plugins only: code size) redir_target_kind =
    REDIR_TARGET_INVALID | REDIR_TARGET_FILE | REDIR_TARGET_FD | REDIR_TARGET_CLOSE
  | REDIR_TARGET_FD_STRING | REDIR_TARGET_BUFFER

datatype (plugins only: code size) case_action = CASE_ACTION_NONE | CASE_ACTION_BREAK | CASE_ACTION_FALLTHROUGH

record redirection =
  rd_redir_type :: redirection_type
  rd_io_number :: int                    \<comment> \<open>or -1\<close>
  rd_operand :: redir_target_kind
  rd_buffer_needs_expansion :: bool
  rd_fd_string :: "string option"
  rd_target :: "token option"
  rd_buffer :: "string option"

datatype ast =
    AST_SIMPLE_COMMAND "token list" "ast list" "token list"     \<comment> \<open>words, redirections, assignments\<close>
  | AST_PIPELINE "ast list" bool                                \<comment> \<open>commands, is it negated\<close>
  | AST_AND_OR_LIST ast ast andor_operator
  | AST_COMMAND_LIST "ast list" "cmd_separator list"
  | AST_SUBSHELL ast
  | AST_BRACE_GROUP ast
  | AST_IF_CLAUSE ast ast "ast list option" "ast option"        \<comment> \<open>condition, then, elif list, else\<close>
  | AST_WHILE_CLAUSE ast ast
  | AST_UNTIL_CLAUSE ast ast
  | AST_FOR_CLAUSE string "token list option" ast
  | AST_CASE_CLAUSE token "ast list"
  | AST_CASE_ITEM "token list" "ast option" case_action
  | AST_FUNCTION_DEF string ast "ast list option"
  | AST_REDIRECTED_COMMAND "ast option" "ast list"
  | AST_REDIRECTION redirection
  | AST_FUNCTION_STORED

subsection \<open>Construction\<close>

definition ast_create_command_list :: ast where
  "ast_create_command_list = AST_COMMAND_LIST [] []"

fun ast_command_list_node_append_item :: "ast \<Rightarrow> ast \<Rightarrow> ast option" where
  "ast_command_list_node_append_item (AST_COMMAND_LIST items separators) item =
     Some (AST_COMMAND_LIST (items @ [item]) separators)"
| "ast_command_list_node_append_item _ item = None"

fun ast_command_list_node_append_separator :: "ast \<Rightarrow> cmd_separator \<Rightarrow> ast option" where
  "ast_command_list_node_append_separator (AST_COMMAND_LIST items separators) separator =
     Some (AST_COMMAND_LIST items (separators @ [separator]))"
| "ast_command_list_node_append_separator _ separator = None"

definition ast_create_if_clause :: "ast \<Rightarrow> ast \<Rightarrow> ast" where
  "ast_create_if_clause condition then_body = AST_IF_CLAUSE condition then_body None None"

definition ast_create_case_item :: "token list \<Rightarrow> ast option \<Rightarrow> ast" where
  "ast_create_case_item patterns body = AST_CASE_ITEM patterns body CASE_ACTION_NONE"

definition ast_create_redirection ::
    "redirection_type \<Rightarrow> redir_target_kind \<Rightarrow> int \<Rightarrow> string option \<Rightarrow> token option \<Rightarrow> redirection" where
  "ast_create_redirection redir_type operand io_number fd_string target =
     \<lparr> rd_redir_type = redir_type, rd_io_number = io_number, rd_operand = operand,
       rd_buffer_needs_expansion = False, rd_fd_string = fd_string, rd_target = target, rd_buffer = None \<rparr>"

fun ast_node_command_list_separator_count :: "ast \<Rightarrow> int option" where
  "ast_node_command_list_separator_count (AST_COMMAND_LIST items separators) = Some (int (length separators))"
| "ast_node_command_list_separator_count _ = None"

fun ast_node_command_list_get_separator :: "ast \<Rightarrow> nat \<Rightarrow> cmd_separator option" where
  "ast_node_command_list_get_separator (AST_COMMAND_LIST items separators) index =
     (if index < length separators then Some (separators ! index) else None)"
| "ast_node_command_list_get_separator _ index = None"

subsection \<open>Copies\<close>

definition clone_redirection :: "redirection \<Rightarrow> redirection option" where
  \<comment> \<open>the \<open>switch\<close> on the operand; other members are copied as they are\<close>
  "clone_redirection r =
     (case rd_operand r of
        REDIR_TARGET_FILE \<Rightarrow> Some (r\<lparr>rd_target := map_option token_clone (rd_target r)\<rparr>)
      | REDIR_TARGET_FD \<Rightarrow> Some (r\<lparr>rd_target := map_option token_clone (rd_target r)\<rparr>)
      | REDIR_TARGET_FD_STRING \<Rightarrow>
          (case rd_fd_string r of None \<Rightarrow> None | Some s \<Rightarrow> Some (r\<lparr>rd_fd_string := Some s\<rparr>))
      | REDIR_TARGET_BUFFER \<Rightarrow>
          (case rd_buffer r of None \<Rightarrow> None
           | Some s \<Rightarrow> Some (r\<lparr>rd_target := map_option token_clone (rd_target r), rd_buffer := Some s\<rparr>))
      | _ \<Rightarrow> Some r)"

fun ast_node_clone :: "ast \<Rightarrow> ast option" and ast_node_list_clone :: "ast list \<Rightarrow> ast list option"
  and clone_opt :: "ast option \<Rightarrow> ast option option" and clone_list_opt :: "ast list option \<Rightarrow> ast list option option" where
  "ast_node_clone (AST_SIMPLE_COMMAND words redirections assignments) =
     do { rs \<leftarrow> ast_node_list_clone redirections;
          Some (AST_SIMPLE_COMMAND (map token_clone words) rs (map token_clone assignments)) }"
| "ast_node_clone (AST_PIPELINE commands is_negated) =
     do { cs \<leftarrow> ast_node_list_clone commands; Some (AST_PIPELINE cs is_negated) }"
| "ast_node_clone (AST_AND_OR_LIST left right opr) =
     do { l \<leftarrow> ast_node_clone left; r \<leftarrow> ast_node_clone right; Some (AST_AND_OR_LIST l r opr) }"
| "ast_node_clone (AST_COMMAND_LIST items separators) =
     do { xs \<leftarrow> ast_node_list_clone items; Some (AST_COMMAND_LIST xs separators) }"
| "ast_node_clone (AST_SUBSHELL body) = do { b \<leftarrow> ast_node_clone body; Some (AST_SUBSHELL b) }"
| "ast_node_clone (AST_BRACE_GROUP body) = do { b \<leftarrow> ast_node_clone body; Some (AST_BRACE_GROUP b) }"
| "ast_node_clone (AST_IF_CLAUSE condition then_body elif_list else_body) =
     do { c \<leftarrow> ast_node_clone condition;
          t \<leftarrow> ast_node_clone then_body;
          el \<leftarrow> clone_list_opt elif_list;
          e \<leftarrow> clone_opt else_body;
          Some (AST_IF_CLAUSE c t el e) }"
| "ast_node_clone (AST_WHILE_CLAUSE condition body) =
     do { c \<leftarrow> ast_node_clone condition; b \<leftarrow> ast_node_clone body; Some (AST_WHILE_CLAUSE c b) }"
| "ast_node_clone (AST_UNTIL_CLAUSE condition body) =
     do { c \<leftarrow> ast_node_clone condition; b \<leftarrow> ast_node_clone body; Some (AST_UNTIL_CLAUSE c b) }"
| "ast_node_clone (AST_FOR_CLAUSE variable None body) = None"     \<comment> \<open>\<open>token_list_clone\<close> expects a list\<close>
| "ast_node_clone (AST_FOR_CLAUSE variable (Some words) body) =
     do { b \<leftarrow> ast_node_clone body; Some (AST_FOR_CLAUSE variable (Some (map token_clone words)) b) }"
| "ast_node_clone (AST_CASE_CLAUSE word case_items) =
     do { xs \<leftarrow> ast_node_list_clone case_items; Some (AST_CASE_CLAUSE (token_clone word) xs) }"
| "ast_node_clone (AST_CASE_ITEM patterns None action) = None"    \<comment> \<open>\<open>ast_node_clone\<close> expects a node\<close>
| "ast_node_clone (AST_CASE_ITEM patterns (Some body) action) =
     do { b \<leftarrow> ast_node_clone body; Some (AST_CASE_ITEM (map token_clone patterns) (Some b) action) }"
| "ast_node_clone (AST_FUNCTION_DEF name body None) = None"        \<comment> \<open>\<open>ast_node_list_clone\<close> expects a list\<close>
| "ast_node_clone (AST_FUNCTION_DEF name body (Some redirections)) =
     do { b \<leftarrow> ast_node_clone body; rs \<leftarrow> ast_node_list_clone redirections; Some (AST_FUNCTION_DEF name b (Some rs)) }"
| "ast_node_clone (AST_REDIRECTED_COMMAND None redirections) = None"
| "ast_node_clone (AST_REDIRECTED_COMMAND (Some command) redirections) =
     do { c \<leftarrow> ast_node_clone command; rs \<leftarrow> ast_node_list_clone redirections;
          Some (AST_REDIRECTED_COMMAND (Some c) rs) }"
| "ast_node_clone (AST_REDIRECTION r) = map_option AST_REDIRECTION (clone_redirection r)"
| "ast_node_clone AST_FUNCTION_STORED = Some AST_FUNCTION_STORED"
| "ast_node_list_clone [] = Some []"
| "ast_node_list_clone (x # xs) =
     do { y \<leftarrow> ast_node_clone x; ys \<leftarrow> ast_node_list_clone xs; Some (y # ys) }"
| "clone_opt None = Some None"
| "clone_opt (Some x) = map_option Some (ast_node_clone x)"
| "clone_list_opt None = Some None"
| "clone_list_opt (Some xs) = map_option Some (ast_node_list_clone xs)"

subsection \<open>Visits\<close>

text \<open>A visitor changes the state and says whether to go on.\<close>

type_synonym 's visitor = "ast \<Rightarrow> 's \<Rightarrow> bool \<times> 's"

definition go_on :: "bool \<times> 's \<Rightarrow> ('s \<Rightarrow> bool \<times> 's) \<Rightarrow> bool \<times> 's" where
  "go_on res f = (case res of (True, s) \<Rightarrow> f s | (False, s) \<Rightarrow> (False, s))"

lemma go_on_cong [fundef_cong]:
  "res = res' \<Longrightarrow> (\<And>s. f s = f' s) \<Longrightarrow> go_on res f = go_on res' f'"
  by presburger

fun ast_traverse_helper :: "'s visitor \<Rightarrow> ast \<Rightarrow> 's \<Rightarrow> bool \<times> 's"
  and traverse_list :: "'s visitor \<Rightarrow> ast list \<Rightarrow> 's \<Rightarrow> bool \<times> 's"
  and traverse_opt :: "'s visitor \<Rightarrow> ast option \<Rightarrow> 's \<Rightarrow> bool \<times> 's"
  and traverse_list_opt :: "'s visitor \<Rightarrow> ast list option \<Rightarrow> 's \<Rightarrow> bool \<times> 's" where
  "ast_traverse_helper v node s =
     go_on (v node s) (\<lambda>s. case node of
        AST_PIPELINE commands _ \<Rightarrow> traverse_list v commands s
      | AST_AND_OR_LIST left right _ \<Rightarrow> go_on (ast_traverse_helper v left s) (ast_traverse_helper v right)
      | AST_COMMAND_LIST items _ \<Rightarrow> traverse_list v items s
      | AST_SUBSHELL body \<Rightarrow> ast_traverse_helper v body s
      | AST_BRACE_GROUP body \<Rightarrow> ast_traverse_helper v body s
      | AST_IF_CLAUSE condition then_body elif_list else_body \<Rightarrow>
          go_on (ast_traverse_helper v condition s) (\<lambda>s.
          go_on (ast_traverse_helper v then_body s) (\<lambda>s.
          go_on (traverse_list_opt v elif_list s) (traverse_opt v else_body)))
      | AST_WHILE_CLAUSE condition body \<Rightarrow> go_on (ast_traverse_helper v condition s) (ast_traverse_helper v body)
      | AST_UNTIL_CLAUSE condition body \<Rightarrow> go_on (ast_traverse_helper v condition s) (ast_traverse_helper v body)
      | AST_FOR_CLAUSE _ _ body \<Rightarrow> ast_traverse_helper v body s
      | AST_CASE_CLAUSE _ case_items \<Rightarrow> traverse_list v case_items s
      | AST_CASE_ITEM _ body _ \<Rightarrow> traverse_opt v body s
      | AST_FUNCTION_DEF _ body redirections \<Rightarrow>
          go_on (ast_traverse_helper v body s) (traverse_list_opt v redirections)
      | AST_REDIRECTED_COMMAND command redirections \<Rightarrow>
          go_on (traverse_opt v command s) (traverse_list v redirections)
      | _ \<Rightarrow> (True, s))"
| "traverse_list v [] s = (True, s)"
| "traverse_list v (x # xs) s = go_on (ast_traverse_helper v x s) (traverse_list v xs)"
| "traverse_opt v None s = (True, s)"
| "traverse_opt v (Some x) s = ast_traverse_helper v x s"
| "traverse_list_opt v None s = (True, s)"
| "traverse_list_opt v (Some xs) s = traverse_list v xs s"

declare ast_traverse_helper.simps [simp del]

definition ast_traverse :: "'s visitor \<Rightarrow> ast \<Rightarrow> 's \<Rightarrow> bool \<times> 's" where
  "ast_traverse v root s = ast_traverse_helper v root s"

end
