(* ===== verification/Ast_Proofs.thy ===== *)
theory Ast_Proofs
  imports
    Ast
begin

section \<open>Copies and visits of the tree\<close>

text \<open>
  A copy has every token copied and is refused for exactly the trees that \<open>clonable\<close> rules out;
  a visit goes through the nodes in the order \<open>preorder\<close>.
\<close>

subsection \<open>Copies\<close>

definition redirection_clonable :: "redirection \<Rightarrow> bool" where
  "redirection_clonable r \<longleftrightarrow>
     (rd_operand r = REDIR_TARGET_FD_STRING \<longrightarrow> rd_fd_string r \<noteq> None) \<and>
     (rd_operand r = REDIR_TARGET_BUFFER \<longrightarrow> rd_buffer r \<noteq> None)"

definition redirection_copy :: "redirection \<Rightarrow> redirection" where
  "redirection_copy r =
     (if rd_operand r \<in> {REDIR_TARGET_FILE, REDIR_TARGET_FD, REDIR_TARGET_BUFFER}
      then r\<lparr>rd_target := map_option token_clone (rd_target r)\<rparr> else r)"

fun clonable :: "ast \<Rightarrow> bool" where
  "clonable (AST_SIMPLE_COMMAND words redirections assignments) = list_all clonable redirections"
| "clonable (AST_PIPELINE commands is_negated) = list_all clonable commands"
| "clonable (AST_AND_OR_LIST left right opr) = (clonable left \<and> clonable right)"
| "clonable (AST_COMMAND_LIST items separators) = list_all clonable items"
| "clonable (AST_SUBSHELL body) = clonable body"
| "clonable (AST_BRACE_GROUP body) = clonable body"
| "clonable (AST_IF_CLAUSE condition then_body elif_list else_body) =
     (clonable condition \<and> clonable then_body \<and> pred_option (list_all clonable) elif_list \<and>
      pred_option clonable else_body)"
| "clonable (AST_WHILE_CLAUSE condition body) = (clonable condition \<and> clonable body)"
| "clonable (AST_UNTIL_CLAUSE condition body) = (clonable condition \<and> clonable body)"
| "clonable (AST_FOR_CLAUSE variable words body) = (words \<noteq> None \<and> clonable body)"
| "clonable (AST_CASE_CLAUSE word case_items) = list_all clonable case_items"
| "clonable (AST_CASE_ITEM patterns body action) = (body \<noteq> None \<and> pred_option clonable body)"
| "clonable (AST_FUNCTION_DEF name body redirections) =
     (clonable body \<and> redirections \<noteq> None \<and> pred_option (list_all clonable) redirections)"
| "clonable (AST_REDIRECTED_COMMAND command redirections) =
     (command \<noteq> None \<and> pred_option clonable command \<and> list_all clonable redirections)"
| "clonable (AST_REDIRECTION r) = redirection_clonable r"
| "clonable AST_FUNCTION_STORED = True"

fun copied :: "ast \<Rightarrow> ast" where
  "copied (AST_SIMPLE_COMMAND words redirections assignments) =
     AST_SIMPLE_COMMAND (map token_clone words) (map copied redirections) (map token_clone assignments)"
| "copied (AST_PIPELINE commands is_negated) = AST_PIPELINE (map copied commands) is_negated"
| "copied (AST_AND_OR_LIST left right opr) = AST_AND_OR_LIST (copied left) (copied right) opr"
| "copied (AST_COMMAND_LIST items separators) = AST_COMMAND_LIST (map copied items) separators"
| "copied (AST_SUBSHELL body) = AST_SUBSHELL (copied body)"
| "copied (AST_BRACE_GROUP body) = AST_BRACE_GROUP (copied body)"
| "copied (AST_IF_CLAUSE condition then_body elif_list else_body) =
     AST_IF_CLAUSE (copied condition) (copied then_body) (map_option (map copied) elif_list) (map_option copied else_body)"
| "copied (AST_WHILE_CLAUSE condition body) = AST_WHILE_CLAUSE (copied condition) (copied body)"
| "copied (AST_UNTIL_CLAUSE condition body) = AST_UNTIL_CLAUSE (copied condition) (copied body)"
| "copied (AST_FOR_CLAUSE variable words body) =
     AST_FOR_CLAUSE variable (map_option (map token_clone) words) (copied body)"
| "copied (AST_CASE_CLAUSE word case_items) = AST_CASE_CLAUSE (token_clone word) (map copied case_items)"
| "copied (AST_CASE_ITEM patterns body action) =
     AST_CASE_ITEM (map token_clone patterns) (map_option copied body) action"
| "copied (AST_FUNCTION_DEF name body redirections) =
     AST_FUNCTION_DEF name (copied body) (map_option (map copied) redirections)"
| "copied (AST_REDIRECTED_COMMAND command redirections) =
     AST_REDIRECTED_COMMAND (map_option copied command) (map copied redirections)"
| "copied (AST_REDIRECTION r) = AST_REDIRECTION (redirection_copy r)"
| "copied AST_FUNCTION_STORED = AST_FUNCTION_STORED"

lemma clone_redirection_eq:
  "clone_redirection r = (if redirection_clonable r then Some (redirection_copy r) else None)"
proof (cases r)
  case (fields ty n opd e fd_string target buffer)
  then show ?thesis
    by (cases opd; cases fd_string; cases buffer)
      (simp_all add: clone_redirection_def redirection_clonable_def redirection_copy_def)
qed

lemma clone_eq:
  "ast_node_clone a = (if clonable a then Some (copied a) else None)"
  "ast_node_list_clone xs = (if list_all clonable xs then Some (map copied xs) else None)"
  "clone_opt x = (if pred_option clonable x then Some (map_option copied x) else None)"
  "clone_list_opt ys = (if pred_option (list_all clonable) ys then Some (map_option (map copied) ys) else None)"
  by (induction a and xs and x and ys rule: ast_node_clone_ast_node_list_clone_clone_opt_clone_list_opt.induct)
    (auto simp: clone_redirection_eq)

lemma part_clone_idem [simp]: "part_clone (part_clone p) = part_clone p"
  by (simp add: part_clone_def blank_part_def)

lemma token_clone_idem [simp]: "token_clone (token_clone t) = token_clone t"
  by (cases "tok_parts t"; cases "tok_assignment_value t") (auto simp: token_clone_def comp_def)

lemma redirection_copy_idem: "redirection_copy (redirection_copy r) = redirection_copy r"
  by (cases "rd_target r") (simp_all add: redirection_copy_def)

lemma redirection_copy_clonable: "redirection_clonable (redirection_copy r) = redirection_clonable r"
  by (simp add: redirection_copy_def redirection_clonable_def)

lemma copied_idem: "copied (copied a) = copied a"
proof (induction a rule: copied.induct)
  case (7 condition then_body elif_list else_body)
  then show ?case by (cases elif_list; cases else_body) simp_all
next
  case (10 variable words body)
  then show ?case by (cases words) simp_all
next
  case (12 patterns body action)
  then show ?case by (cases body) simp_all
next
  case (13 name body redirections)
  then show ?case by (cases redirections) simp_all
next
  case (14 command redirections)
  then show ?case by (cases command) simp_all
qed (simp_all add: redirection_copy_idem)

lemma copied_clonable: "clonable (copied a) = clonable a"
  by (induction a rule: copied.induct)
    (auto simp: list_all_iff option.pred_map redirection_copy_clonable pred_option_def option.map_sel)

subsection \<open>Visits\<close>

fun preorder :: "ast \<Rightarrow> ast list" where
  \<comment> \<open>every node before the nodes below it, from left to right\<close>
  "preorder (AST_PIPELINE commands is_negated) =
     AST_PIPELINE commands is_negated # concat (map preorder commands)"
| "preorder (AST_AND_OR_LIST left right opr) = AST_AND_OR_LIST left right opr # preorder left @ preorder right"
| "preorder (AST_COMMAND_LIST items separators) = AST_COMMAND_LIST items separators # concat (map preorder items)"
| "preorder (AST_SUBSHELL body) = AST_SUBSHELL body # preorder body"
| "preorder (AST_BRACE_GROUP body) = AST_BRACE_GROUP body # preorder body"
| "preorder (AST_IF_CLAUSE condition then_body elif_list else_body) =
     AST_IF_CLAUSE condition then_body elif_list else_body # preorder condition @ preorder then_body @
       (case elif_list of None \<Rightarrow> [] | Some xs \<Rightarrow> concat (map preorder xs)) @
       (case else_body of None \<Rightarrow> [] | Some x \<Rightarrow> preorder x)"
| "preorder (AST_WHILE_CLAUSE condition body) = AST_WHILE_CLAUSE condition body # preorder condition @ preorder body"
| "preorder (AST_UNTIL_CLAUSE condition body) = AST_UNTIL_CLAUSE condition body # preorder condition @ preorder body"
| "preorder (AST_FOR_CLAUSE variable words body) = AST_FOR_CLAUSE variable words body # preorder body"
| "preorder (AST_CASE_CLAUSE word case_items) = AST_CASE_CLAUSE word case_items # concat (map preorder case_items)"
| "preorder (AST_CASE_ITEM patterns body action) =
     AST_CASE_ITEM patterns body action # (case body of None \<Rightarrow> [] | Some x \<Rightarrow> preorder x)"
| "preorder (AST_FUNCTION_DEF name body redirections) =
     AST_FUNCTION_DEF name body redirections # preorder body @
       (case redirections of None \<Rightarrow> [] | Some xs \<Rightarrow> concat (map preorder xs))"
| "preorder (AST_REDIRECTED_COMMAND command redirections) =
     AST_REDIRECTED_COMMAND command redirections #
       (case command of None \<Rightarrow> [] | Some x \<Rightarrow> preorder x) @ concat (map preorder redirections)"
| "preorder node = [node]"

fun visit :: "'s visitor \<Rightarrow> ast list \<Rightarrow> 's \<Rightarrow> bool \<times> 's" where
  \<comment> \<open>up to the first node that the visitor refuses\<close>
  "visit v [] s = (True, s)"
| "visit v (x # xs) s = go_on (v x s) (visit v xs)"

lemma go_on_simps [simp]: "go_on (True, s) f = f s" "go_on (False, s) f = (False, s)"
  by (simp_all add: go_on_def)

lemma visit_append: "visit v (xs @ ys) s = go_on (visit v xs s) (visit v ys)"
  by (induction xs arbitrary: s) (auto simp: go_on_def split: prod.splits bool.splits)

lemma traverse_eq:
  "ast_traverse_helper v a s = visit v (preorder a) s"
  "traverse_list v xs s = visit v (concat (map preorder xs)) s"
  "traverse_opt v x s = visit v (case x of None \<Rightarrow> [] | Some y \<Rightarrow> preorder y) s"
  "traverse_list_opt v ys s = visit v (case ys of None \<Rightarrow> [] | Some zs \<Rightarrow> concat (map preorder zs)) s"
proof (induction v a s and v xs s and v x s and v ys s
    rule: ast_traverse_helper_traverse_list_traverse_opt_traverse_list_opt.induct)
  case (1 v node s)
  then show ?case
    by (cases node) (simp_all add: ast_traverse_helper.simps visit_append cong: go_on_cong)
qed (simp_all add: visit_append cong: go_on_cong)

end
