(* ===== verification/Ast_Props.thy ===== *)
theory Ast_Props
  imports
    Ast_Proofs
begin

section \<open>Properties of the tree that is executed\<close>

subsection \<open>Nodes of a copy\<close>

lemma nodes_copied:
  "(\<And>x. x \<in> set xs \<Longrightarrow> preorder (copied x) = map copied (preorder x)) \<Longrightarrow>
    concat (map (preorder \<circ> copied) xs) = map copied (concat (map preorder xs))"
  by (induction xs) simp_all

lemma preorder_copied: "preorder (copied a) = map copied (preorder a)"
proof (induction a rule: preorder.induct)
  case (6 condition then_body elif_list else_body)
  then show ?case by (cases elif_list; cases else_body) (simp_all add: nodes_copied)
next
  case (11 patterns body action)
  then show ?case by (cases body) simp_all
next
  case (12 name body redirections)
  then show ?case by (cases redirections) (simp_all add: nodes_copied)
next
  case (13 command redirections)
  then show ?case by (cases command) (simp_all add: nodes_copied)
qed (simp_all add: nodes_copied)

lemma clonable_list: "(\<And>x. x \<in> set xs \<Longrightarrow> clonable x \<Longrightarrow> list_all clonable (preorder x)) \<Longrightarrow> list_all clonable xs \<Longrightarrow>
    list_all clonable (concat (map preorder xs))"
  by (induction xs) simp_all

lemma clonable_nodes: "clonable a \<Longrightarrow> list_all clonable (preorder a)"
proof (induction a rule: preorder.induct)
  case (6 condition then_body elif_list else_body)
  then show ?case by (cases elif_list; cases else_body) (simp_all add: clonable_list)
next
  case (11 patterns body action)
  then show ?case by (cases body) simp_all
next
  case (12 name body redirections)
  then show ?case by (cases redirections) (simp_all add: clonable_list)
next
  case (13 command redirections)
  then show ?case by (cases command) (simp_all add: clonable_list)
qed (simp_all add: clonable_list)

text \<open>C29: A copy of a tree has the nodes of the tree in the same order, each the copy of its original, and a copy of a
  copy is the copy again.\<close>

theorem copy_has_same_nodes:
  assumes "ast_node_clone a = Some b"
  shows "ast_node_clone b = Some b \<and> list_all2 (\<lambda>x y. ast_node_clone x = Some y) (preorder a) (preorder b)"
proof -
  have b: "clonable a" "b = copied a" using assms by (simp_all add: clone_eq split: if_splits)
  then show ?thesis using clonable_nodes [OF b(1)]
    by (simp add: list_all_iff clone_eq copied_clonable copied_idem preorder_copied list_all2_map2 list_all2_same)
qed

theorem copy_has_same_nodes_witness:
  "\<exists>b. ast_node_clone (AST_SUBSHELL AST_FUNCTION_STORED) = Some b \<and> ast_node_clone b = Some b"
  using copy_has_same_nodes [of "AST_SUBSHELL AST_FUNCTION_STORED" "AST_SUBSHELL AST_FUNCTION_STORED"] by simp

text \<open>C38: A tree with a loop over the positional parameters, that is a \<open>for\<close> without words, with a case item
  without commands or with a function definition without redirections is not copied: a contract is
  violated.  The body of a function is copied when the function is defined, so the definition of a
  function with one of these in its body ends the shell.\<close>

theorem missing_members_not_copied:
  assumes "n \<in> set (preorder a)"
    and "n = AST_FOR_CLAUSE v None body \<or> n = AST_CASE_ITEM patterns None action \<or> n = AST_FUNCTION_DEF name body None"
  shows "ast_node_clone a = None"
  using assms clonable_nodes [of a] by (auto simp: clone_eq list_all_iff dest!: bspec)

theorem missing_members_not_copied_witness:
  "ast_node_clone (AST_BRACE_GROUP (AST_COMMAND_LIST [AST_FOR_CLAUSE ''a'' None ast_create_command_list] [CMD_EXEC_SEQUENTIAL])) = None"
  using missing_members_not_copied [of "AST_FOR_CLAUSE ''a'' None ast_create_command_list"
      "AST_BRACE_GROUP (AST_COMMAND_LIST [AST_FOR_CLAUSE ''a'' None ast_create_command_list] [CMD_EXEC_SEQUENTIAL])"]
  by simp

subsection \<open>Visits\<close>

text \<open>\<open>ast_traverse\<close> visits the nodes in preorder, from left to right, and stops at the first that the visitor
  refuses.\<close>

theorem traverse_in_preorder:
  "ast_traverse v root s = visit v (preorder root) s \<and>
   ast_traverse (\<lambda>n xs. (True, xs @ [n])) root [] = (True, preorder root)"
proof -
  have "visit (\<lambda>n xs. (True, xs @ [n])) ns xs = (True, xs @ ns)" for ns xs :: "ast list"
    by (induction ns arbitrary: xs) simp_all
  then show ?thesis by (simp add: ast_traverse_def traverse_eq(1))
qed

end
