(* ===== verification/Lower.thy ===== *)
theory Lower
  imports
    Parser_Simple Ast String_Number
begin

section \<open>Lowering (lower.c)\<close>

text \<open>
  The tree of the grammar becomes the tree that is executed.  A function gives a node, NULL
  after an error that is only logged, or a violated contract: a NULL that is dereferenced, a
  failed \<open>Expects\<close>, or a member of the union that is not the one stored.

  Every cycle of calls that goes down to a nested list of commands passes
  \<open>lower_compound_list\<close>, so the functions between take it as the argument \<open>cl\<close>;
  \<open>Exhausted\<close> is the end of the bound on this nesting.
\<close>

datatype 'a lowered = Tree 'a | Null | Violated | Exhausted

definition and_then :: "'a lowered \<Rightarrow> ('a \<Rightarrow> 'b lowered) \<Rightarrow> 'b lowered" where
  \<comment> \<open>go on with the result, or return NULL\<close>
  "and_then m f = (case m of Tree x \<Rightarrow> f x | Null \<Rightarrow> Null | Violated \<Rightarrow> Violated | Exhausted \<Rightarrow> Exhausted)"

lemma and_then_cong [fundef_cong]:
  "m = m' \<Longrightarrow> (\<And>x. f x = f' x) \<Longrightarrow> and_then m f = and_then m' f'"
  by presburger

definition expects :: "'a option \<Rightarrow> ('a \<Rightarrow> 'b lowered) \<Rightarrow> 'b lowered" where
  "expects x f = (case x of None \<Rightarrow> Violated | Some y \<Rightarrow> f y)"

lemma expects_cong [fundef_cong]:
  "x = x' \<Longrightarrow> (\<And>y. x' = Some y \<Longrightarrow> f y = f' y) \<Longrightarrow> expects x f = expects x' f'"
  by (auto simp: expects_def split: option.split)

definition EXPECT_TYPE :: "gnode option \<Rightarrow> gnode_type \<Rightarrow> (gnode \<Rightarrow> 'b lowered) \<Rightarrow> 'b lowered" where
  "EXPECT_TYPE x ty f = (case x of None \<Rightarrow> Null | Some g \<Rightarrow> if node_type g = ty then f g else Null)"

definition Expects_type :: "gnode_type \<Rightarrow> (gnode \<Rightarrow> 'b lowered) \<Rightarrow> gnode \<Rightarrow> 'b lowered" where
  \<comment> \<open>\<open>Expects_eq(g->type, ty)\<close>\<close>
  "Expects_type ty f g = (if node_type g = ty then f g else Violated)"

subsection \<open>Members of a node\<close>

fun data_of :: "gnode \<Rightarrow> gnode_data" where
  "data_of (Node ty k d) = d"

fun payload_of :: "gnode \<Rightarrow> gnode_payload" where
  "payload_of (Node ty k d) = k"

definition token_of :: "gnode \<Rightarrow> token option" where
  "token_of g = (case data_of g of D_Token t \<Rightarrow> Some t | _ \<Rightarrow> None)"

definition list_of :: "gnode \<Rightarrow> gnode list option" where
  "list_of g = (case data_of g of D_List xs \<Rightarrow> Some xs | _ \<Rightarrow> None)"

definition child_of :: "gnode \<Rightarrow> gnode option option" where
  "child_of g = (case data_of g of D_Child x \<Rightarrow> Some (Some x) | D_Zero \<Rightarrow> Some None | _ \<Rightarrow> None)"

definition pair_of :: "gnode \<Rightarrow> (gnode option \<times> gnode option) option" where
  "pair_of g = (case data_of g of D_Pair a b \<Rightarrow> Some (a, b) | D_Zero \<Rightarrow> Some (None, None) | _ \<Rightarrow> None)"

definition multi_of :: "gnode \<Rightarrow> (gnode option \<times> gnode option \<times> gnode option \<times> gnode option) option" where
  "multi_of g =
     (case data_of g of D_Multi a b c d \<Rightarrow> Some (a, b, c, d) | D_Zero \<Rightarrow> Some (None, None, None, None) | _ \<Rightarrow> None)"

subsection \<open>Redirections\<close>

definition map_redir_type_from_io_file :: "gnode \<Rightarrow> redirection_type lowered" where
  "map_redir_type_from_io_file = Expects_type G_IO_FILE (\<lambda>g.
     expects (multi_of g) (\<lambda>(a, _). expects a (Expects_type G_WORD_NODE (\<lambda>opr.
     expects (token_of opr) (\<lambda>t. Tree
       (case tok_type t of
          TOKEN_LESS \<Rightarrow> REDIR_READ
        | TOKEN_GREATER \<Rightarrow> REDIR_WRITE
        | TOKEN_DGREAT \<Rightarrow> REDIR_APPEND
        | TOKEN_LESSAND \<Rightarrow> REDIR_FD_DUP_IN
        | TOKEN_GREATAND \<Rightarrow> REDIR_FD_DUP_OUT
        | TOKEN_LESSGREAT \<Rightarrow> REDIR_READWRITE
        | TOKEN_CLOBBER \<Rightarrow> REDIR_WRITE_FORCE
        | _ \<Rightarrow> REDIR_READ))))))"

definition determine_target_kind :: "token_type \<Rightarrow> token \<Rightarrow> redir_target_kind lowered" where
  "determine_target_kind op_type target_tok =
     expects (token_get_all_text target_tok) (\<lambda>lx. Tree
       (if op_type \<in> {TOKEN_DLESS, TOKEN_DLESSDASH} then REDIR_TARGET_BUFFER
        else if op_type \<in> {TOKEN_LESSAND, TOKEN_GREATAND}
        then if cstr_of lx = ''-'' then REDIR_TARGET_CLOSE
             else if lx \<noteq> [] \<and> list_ex (\<lambda>c. \<not> c_isdigit c) lx then REDIR_TARGET_FILE
             else REDIR_TARGET_FD
        else REDIR_TARGET_FILE))"

definition location_number :: "string \<Rightarrow> int \<Rightarrow> int" where
  \<comment> \<open>the number of a location that is all digits\<close>
  "location_number fd_string io_number =
     (if io_number = -1 \<and> fd_string \<noteq> []
      then let (parsed_num, endpos) = string_atoi_at_0 fd_string in
        if endpos = length fd_string then parsed_num else io_number
      else io_number)"

definition redirection_prefix :: "gnode option \<Rightarrow> gnode option \<Rightarrow> (int \<times> string option) lowered" where
  \<comment> \<open>the descriptor and the location\<close>
  "redirection_prefix gionum gioloc =
     and_then (case gionum of None \<Rightarrow> Tree (-1)
               | Some _ \<Rightarrow> EXPECT_TYPE gionum G_IO_NUMBER_NODE (\<lambda>g. expects (token_of g) (\<lambda>t. Tree (tok_io_number t))))
       (\<lambda>io_number.
     case gioloc of None \<Rightarrow> Tree (io_number, None)
     | Some _ \<Rightarrow> EXPECT_TYPE gioloc G_IO_LOCATION_NODE (\<lambda>g. expects (token_of g) (\<lambda>t.
         expects (tok_io_location t) (\<lambda>s. Tree (location_number s io_number, Some s)))))"

definition io_file_redirection :: "gnode \<Rightarrow> int \<Rightarrow> string option \<Rightarrow> ast lowered" where
  "io_file_redirection target io_number fd_string =
     expects (multi_of target) (\<lambda>(op_node, gfname, _).
     expects op_node (\<lambda>opr.
     expects (token_of opr) (\<lambda>op_tok.
     and_then (map_redir_type_from_io_file target) (\<lambda>rtype.
     EXPECT_TYPE gfname G_FILENAME (\<lambda>fname.
     expects (token_of fname) (\<lambda>target_tok.
     and_then (determine_target_kind (tok_type op_tok) target_tok) (\<lambda>operand.
       Tree (AST_REDIRECTION
         (ast_create_redirection rtype operand io_number fd_string (Some (token_clone target_tok)))))))))))"

definition io_here_redirection :: "gnode \<Rightarrow> int \<Rightarrow> string option \<Rightarrow> ast lowered" where
  "io_here_redirection target io_number fd_string =
     (case data_of target of
        D_Io_Here opr here_end here_tok \<Rightarrow>
          let rtype = (if opr = TOKEN_DLESS then REDIR_FROM_BUFFER else REDIR_FROM_BUFFER_STRIP);
              content = (case here_tok of None \<Rightarrow> None | Some t \<Rightarrow> tok_heredoc_content t);
              quoted = (case here_tok of None \<Rightarrow> False | Some t \<Rightarrow> tok_heredoc_delim_quoted t)
          in Tree (AST_REDIRECTION
               ((ast_create_redirection rtype REDIR_TARGET_BUFFER io_number fd_string None)
                 \<lparr>rd_buffer := content, rd_buffer_needs_expansion := (content \<noteq> None \<and> \<not> quoted)\<rparr>))
      | _ \<Rightarrow> Violated)"

definition lower_io_redirect :: "gnode \<Rightarrow> ast lowered" where
  "lower_io_redirect = Expects_type G_IO_REDIRECT (\<lambda>g.
     expects (multi_of g) (\<lambda>(gionum, gioloc, gtarget, _).
     and_then (redirection_prefix gionum gioloc) (\<lambda>(io_number, fd_string).
     expects gtarget (\<lambda>target.
       if node_type target = G_IO_FILE then io_file_redirection target io_number fd_string
       else if node_type target = G_IO_HERE then io_here_redirection target io_number fd_string
       else Null))))"

fun lower_redirects :: "gnode list \<Rightarrow> ast list lowered" where
  \<comment> \<open>the loop over the redirections of a function definition\<close>
  "lower_redirects [] = Tree []"
| "lower_redirects (g # gs) =
     and_then (lower_io_redirect g) (\<lambda>r. and_then (lower_redirects gs) (\<lambda>rs. Tree (r # rs)))"

fun typed_redirects :: "gnode list \<Rightarrow> ast list lowered" where
  "typed_redirects [] = Tree []"
| "typed_redirects (g # gs) =
     EXPECT_TYPE (Some g) G_IO_REDIRECT (\<lambda>g.
     and_then (lower_io_redirect g) (\<lambda>r. and_then (typed_redirects gs) (\<lambda>rs. Tree (r # rs))))"

definition lower_redirect_list :: "gnode \<Rightarrow> ast lowered" where
  \<comment> \<open>never called\<close>
  "lower_redirect_list = Expects_type G_REDIRECT_LIST (\<lambda>g.
     expects (list_of g) (\<lambda>lst. and_then (typed_redirects lst) (\<lambda>rs. Tree (AST_REDIRECTED_COMMAND None rs))))"

subsection \<open>Lists of tokens\<close>

fun wordlist_tokens :: "gnode list \<Rightarrow> token list option lowered" where
  \<comment> \<open>\<open>Tree None\<close> is the NULL that ends in a loop without words\<close>
  "wordlist_tokens [] = Tree (Some [])"
| "wordlist_tokens (w # ws) =
     (if node_type w \<noteq> G_WORD_NODE then Tree None
      else expects (token_of w) (\<lambda>t.
        and_then (wordlist_tokens ws) (\<lambda>ts. Tree (map_option (\<lambda>ts. token_clone t # ts) ts))))"

definition token_list_from_wordlist :: "gnode \<Rightarrow> token list option lowered" where
  "token_list_from_wordlist = Expects_type G_WORDLIST (\<lambda>g. expects (list_of g) wordlist_tokens)"

fun pattern_tokens :: "gnode list \<Rightarrow> token list lowered" where
  "pattern_tokens [] = Tree []"
| "pattern_tokens (w # ws) =
     (if node_type w \<noteq> G_WORD_NODE then pattern_tokens ws
      else expects (token_of w) (\<lambda>t.
        if tok_type t = TOKEN_PIPE then pattern_tokens ws
        else and_then (pattern_tokens ws) (\<lambda>ts. Tree (token_clone t # ts))))"

definition token_list_from_pattern_list :: "gnode \<Rightarrow> token list lowered" where
  "token_list_from_pattern_list = Expects_type G_PATTERN_LIST (\<lambda>g. expects (list_of g) pattern_tokens)"

subsection \<open>Simple commands\<close>

type_synonym simple_parts = "token list \<times> ast list \<times> token list"  \<comment> \<open>words, redirections, assignments\<close>

fun suffix_items :: "gnode list \<Rightarrow> simple_parts \<Rightarrow> simple_parts lowered" where
  "suffix_items [] s = Tree s"
| "suffix_items (x # xs) (words, redirs, assignments) =
     (if node_type x \<in> {G_CMD_WORD, G_WORD_NODE}
      then expects (token_of x) (\<lambda>t. suffix_items xs (words @ [token_clone t], redirs, assignments))
      else if node_type x = G_IO_REDIRECT
      then and_then (lower_io_redirect x) (\<lambda>r. suffix_items xs (words, redirs @ [r], assignments))
      else suffix_items xs (words, redirs, assignments))"

definition simple_item :: "gnode \<Rightarrow> simple_parts \<Rightarrow> simple_parts lowered" where
  \<comment> \<open>the \<open>switch\<close> on the type of an element\<close>
  "simple_item x s =
     (case s of (words, redirs, assignments) \<Rightarrow>
        if node_type x = G_ASSIGNMENT_WORD
        then expects (token_of x) (\<lambda>t. Tree (words, redirs, assignments @ [token_clone t]))
        else if node_type x \<in> {G_CMD_NAME, G_CMD_WORD, G_WORD_NODE}
        then expects (token_of x) (\<lambda>t. Tree (words @ [token_clone t], redirs, assignments))
        else if node_type x = G_IO_REDIRECT
        then and_then (lower_io_redirect x) (\<lambda>r. Tree (words, redirs @ [r], assignments))
        else Null)"

fun simple_items :: "gnode list \<Rightarrow> simple_parts \<Rightarrow> simple_parts lowered" where
  "simple_items [] s = Tree s"
| "simple_items (x # xs) s =
     (if node_type x = G_CMD_PREFIX
      then expects (child_of x) (\<lambda>child.
        case child of None \<Rightarrow> simple_items xs s
        | Some e \<Rightarrow> and_then (simple_item e s) (simple_items xs))
      else if node_type x = G_CMD_SUFFIX
      then expects (list_of x) (\<lambda>suffix. and_then (suffix_items suffix s) (simple_items xs))
      else and_then (simple_item x s) (simple_items xs))"

definition lower_simple_command :: "gnode \<Rightarrow> ast lowered" where
  "lower_simple_command = Expects_type G_SIMPLE_COMMAND (\<lambda>g.
     expects (list_of g) (\<lambda>lst.
     and_then (simple_items lst ([], [], [])) (\<lambda>(words, redirs, assignments).
       Tree (AST_SIMPLE_COMMAND words redirs assignments))))"

end
