(* ===== verification/Lower_Commands.thy ===== *)
theory Lower_Commands
  imports
    Lower
begin

section \<open>Lowering of commands and lists (lower.c)\<close>

text \<open>
  The functions that lead to nested lists of commands, with the lowering of these lists as the
  argument \<open>cl\<close>, then the lists, and the entry point.
\<close>

subsection \<open>Groups, loops and conditionals\<close>

definition lower_do_group :: "(gnode \<Rightarrow> ast lowered) \<Rightarrow> gnode \<Rightarrow> ast lowered" where
  "lower_do_group cl = Expects_type G_DO_GROUP (\<lambda>g.
     expects (multi_of g) (\<lambda>(_, list, _). expects list cl))"

definition lower_subshell :: "(gnode \<Rightarrow> ast lowered) \<Rightarrow> gnode \<Rightarrow> ast lowered" where
  "lower_subshell cl = Expects_type G_SUBSHELL (\<lambda>g.
     expects (multi_of g) (\<lambda>(_, clist, _). expects clist (\<lambda>l. and_then (cl l) (\<lambda>body. Tree (AST_SUBSHELL body)))))"

definition lower_brace_group :: "(gnode \<Rightarrow> ast lowered) \<Rightarrow> gnode \<Rightarrow> ast lowered" where
  "lower_brace_group cl = Expects_type G_BRACE_GROUP (\<lambda>g.
     expects (multi_of g) (\<lambda>(_, clist, _).
       case clist of
         None \<Rightarrow> Tree (AST_BRACE_GROUP ast_create_command_list)
       | Some l \<Rightarrow> and_then (cl l) (\<lambda>body. Tree (AST_BRACE_GROUP body))))"

definition loop_parts :: "(gnode \<Rightarrow> ast lowered) \<Rightarrow> (ast \<Rightarrow> ast \<Rightarrow> ast) \<Rightarrow> gnode \<Rightarrow> ast lowered" where
  \<comment> \<open>what the two functions below share\<close>
  "loop_parts cl create g =
     expects (multi_of g) (\<lambda>(_, gcond, gbody, _).
     expects gcond (\<lambda>c. and_then (cl c) (\<lambda>cond.
     expects gbody (\<lambda>b. and_then (lower_do_group cl b) (\<lambda>body. Tree (create cond body))))))"

definition lower_while_clause :: "(gnode \<Rightarrow> ast lowered) \<Rightarrow> gnode \<Rightarrow> ast lowered" where
  "lower_while_clause cl = Expects_type G_WHILE_CLAUSE (loop_parts cl AST_WHILE_CLAUSE)"

definition lower_until_clause :: "(gnode \<Rightarrow> ast lowered) \<Rightarrow> gnode \<Rightarrow> ast lowered" where
  "lower_until_clause cl = Expects_type G_UNTIL_CLAUSE (loop_parts cl AST_UNTIL_CLAUSE)"

fun lower_else_part :: "(gnode \<Rightarrow> ast lowered) \<Rightarrow> gnode \<Rightarrow> ast lowered" where
  "lower_else_part cl (Node ty k d) =
     (if ty \<noteq> G_ELSE_PART then Violated
      else case d of
        D_Multi a b c _ \<Rightarrow>
          if b = None \<and> c = None then expects a cl
          else expects a (\<lambda>a. and_then (cl a) (\<lambda>cond.
            expects b (\<lambda>b. and_then (cl b) (\<lambda>then_body.
              case c of
                None \<Rightarrow> Tree (ast_create_if_clause cond then_body)
              | Some rest \<Rightarrow> and_then (lower_else_part cl rest) (\<lambda>tail.
                  Tree (AST_IF_CLAUSE cond then_body None (Some tail)))))))
      | _ \<Rightarrow> Violated)"

definition lower_if_clause :: "(gnode \<Rightarrow> ast lowered) \<Rightarrow> gnode \<Rightarrow> ast lowered" where
  "lower_if_clause cl = Expects_type G_IF_CLAUSE (\<lambda>g.
     expects (multi_of g) (\<lambda>(inner, gelse_part, _).
     EXPECT_TYPE inner G_IF_CLAUSE (\<lambda>inner.
     expects (multi_of inner) (\<lambda>(_, gcond, _, gthen).
     expects gcond (\<lambda>c. and_then (cl c) (\<lambda>cond.
     expects gthen (\<lambda>t. and_then (cl t) (\<lambda>then_body.
       case gelse_part of
         None \<Rightarrow> Tree (ast_create_if_clause cond then_body)
       | Some e \<Rightarrow> and_then (lower_else_part cl e) (\<lambda>else_node.
           Tree (AST_IF_CLAUSE cond then_body None (Some else_node)))))))))))"

definition for_words :: "gnode option \<Rightarrow> token list option lowered" where
  "for_words gin_clause =
     (case gin_clause of
        None \<Rightarrow> Tree None
      | Some _ \<Rightarrow> EXPECT_TYPE gin_clause G_IN_NODE (\<lambda>g.
          if payload_of g = GNODE_PAYLOAD_MULTI
          then expects (multi_of g) (\<lambda>(_, gwlist, _).
            case gwlist of None \<Rightarrow> Tree None
            | Some _ \<Rightarrow> EXPECT_TYPE gwlist G_WORDLIST token_list_from_wordlist)
          else Tree None))"

definition lower_for_clause :: "(gnode \<Rightarrow> ast lowered) \<Rightarrow> gnode \<Rightarrow> ast lowered" where
  "lower_for_clause cl = Expects_type G_FOR_CLAUSE (\<lambda>g.
     expects (multi_of g) (\<lambda>(_, gname, gin_clause, gdo).
     EXPECT_TYPE gname G_NAME_NODE (\<lambda>name.
     expects (token_of name) (\<lambda>t.
     expects (token_get_all_text t) (\<lambda>var.
     and_then (for_words gin_clause) (\<lambda>words.
     expects gdo (\<lambda>d. and_then (lower_do_group cl d) (\<lambda>body.
       Tree (AST_FOR_CLAUSE var words body)))))))))"

subsection \<open>Case\<close>

definition item_action :: "gnode option \<Rightarrow> case_action lowered" where
  "item_action dsemi =
     (case dsemi of
        None \<Rightarrow> Tree CASE_ACTION_NONE
      | Some g \<Rightarrow>
          if node_type g = G_WORD_NODE
          then expects (token_of g) (\<lambda>t. Tree
            (if tok_type t = TOKEN_DSEMI then CASE_ACTION_BREAK
             else if tok_type t = TOKEN_SEMIAND then CASE_ACTION_FALLTHROUGH else CASE_ACTION_NONE))
          else Tree CASE_ACTION_NONE)"

definition lower_case_item :: "(gnode \<Rightarrow> ast lowered) \<Rightarrow> gnode \<Rightarrow> ast lowered" where
  "lower_case_item cl = Expects_type G_CASE_ITEM (\<lambda>g.
     expects (multi_of g) (\<lambda>(inner, dsemi, _).
     EXPECT_TYPE inner G_CASE_ITEM (\<lambda>inner.
     expects (multi_of inner) (\<lambda>(_, gpatterns, _, gbody).
     EXPECT_TYPE gpatterns G_PATTERN_LIST (\<lambda>gpatterns.
     and_then (token_list_from_pattern_list gpatterns) (\<lambda>patterns.
     and_then (case gbody of
         None \<Rightarrow> Tree None
       | Some b \<Rightarrow> if node_type b = G_COMPOUND_LIST then and_then (cl b) (\<lambda>body. Tree (Some body)) else Tree None)
       (\<lambda>body.
     and_then (item_action dsemi) (\<lambda>action. Tree (AST_CASE_ITEM patterns body action)))))))))"

definition lower_case_item_ns :: "(gnode \<Rightarrow> ast lowered) \<Rightarrow> gnode \<Rightarrow> ast lowered" where
  \<comment> \<open>a body that gives NULL is left out\<close>
  "lower_case_item_ns cl = Expects_type G_CASE_ITEM_NS (\<lambda>g.
     expects (multi_of g) (\<lambda>(_, gpatterns, _, gbody).
     expects gpatterns (\<lambda>gpatterns.
     and_then (token_list_from_pattern_list gpatterns) (\<lambda>patterns.
     and_then (case gbody of
         None \<Rightarrow> Tree None
       | Some b \<Rightarrow> (case cl b of Null \<Rightarrow> Tree None | r \<Rightarrow> and_then r (\<lambda>body. Tree (Some body))))
       (\<lambda>body. Tree (ast_create_case_item patterns body))))))"

fun lower_case_items :: "(gnode \<Rightarrow> ast lowered) \<Rightarrow> gnode list \<Rightarrow> ast list lowered" where
  "lower_case_items cl [] = Tree []"
| "lower_case_items cl (item # items) =
     and_then (if node_type item = G_CASE_ITEM then lower_case_item cl item
               else if node_type item = G_CASE_ITEM_NS then lower_case_item_ns cl item else Null) (\<lambda>ci.
     and_then (lower_case_items cl items) (\<lambda>cis. Tree (ci # cis)))"

definition case_parts :: "gnode option \<Rightarrow> gnode option \<Rightarrow> (gnode option \<times> gnode option) lowered" where
  \<comment> \<open>the word and the list of items, from the members \<open>a\<close> and \<open>b\<close>\<close>
  "case_parts ginner glist =
     (case ginner of
        None \<Rightarrow> Tree (glist, None)
      | Some inner \<Rightarrow>
          if node_type inner = G_CASE_CLAUSE
          then expects (multi_of inner) (\<lambda>(_, gword, _). Tree (gword, glist))
          else if node_type inner = G_WORD_NODE
          then if map_option node_type glist = Some G_WORD_NODE then Tree (glist, None) else Tree (ginner, None)
          else Tree (glist, None))"

definition lower_case_clause :: "(gnode \<Rightarrow> ast lowered) \<Rightarrow> gnode \<Rightarrow> ast lowered" where
  "lower_case_clause cl = Expects_type G_CASE_CLAUSE (\<lambda>g.
     expects (multi_of g) (\<lambda>(a, b, _).
     and_then (case_parts a b) (\<lambda>(gword, glist).
     EXPECT_TYPE gword G_WORD_NODE (\<lambda>w.
     expects (token_of w) (\<lambda>t.
       case glist of
         None \<Rightarrow> Tree (AST_CASE_CLAUSE (token_clone t) [])
       | Some l \<Rightarrow>
           if node_type l \<in> {G_CASE_LIST, G_CASE_LIST_NS}
           then expects (list_of l) (\<lambda>lst. and_then (lower_case_items cl lst) (\<lambda>items.
             Tree (AST_CASE_CLAUSE (token_clone t) items)))
           else Tree (AST_CASE_CLAUSE (token_clone t) []))))))"

subsection \<open>Commands\<close>

definition compound_dispatch :: "(gnode \<Rightarrow> ast lowered) \<Rightarrow> gnode \<Rightarrow> ast lowered" where
  \<comment> \<open>the \<open>switch\<close> but for \<open>G_COMPOUND_COMMAND\<close>\<close>
  "compound_dispatch cl g =
     (case node_type g of
        G_SUBSHELL \<Rightarrow> lower_subshell cl g
      | G_BRACE_GROUP \<Rightarrow> lower_brace_group cl g
      | G_FOR_CLAUSE \<Rightarrow> lower_for_clause cl g
      | G_CASE_CLAUSE \<Rightarrow> lower_case_clause cl g
      | G_IF_CLAUSE \<Rightarrow> lower_if_clause cl g
      | G_WHILE_CLAUSE \<Rightarrow> lower_while_clause cl g
      | G_UNTIL_CLAUSE \<Rightarrow> lower_until_clause cl g
      | _ \<Rightarrow> Null)"

fun lower_compound_command :: "(gnode \<Rightarrow> ast lowered) \<Rightarrow> gnode \<Rightarrow> ast lowered" where
  "lower_compound_command cl (Node ty k d) =
     (if ty = G_COMPOUND_COMMAND
      then (case d of D_Child x \<Rightarrow> lower_compound_command cl x | _ \<Rightarrow> Violated)
      else compound_dispatch cl (Node ty k d))"

definition lower_function_definition :: "(gnode \<Rightarrow> ast lowered) \<Rightarrow> gnode \<Rightarrow> ast lowered" where
  "lower_function_definition cl = Expects_type G_FUNCTION_DEFINITION (\<lambda>g.
     expects (multi_of g) (\<lambda>(gfname, _, _, gbody).
     EXPECT_TYPE gfname G_FNAME (\<lambda>fname.
     expects (token_of fname) (\<lambda>t.
     expects (token_get_all_text t) (\<lambda>name.
     expects gbody (\<lambda>body.
       if node_type body = G_FUNCTION_BODY
       then expects (multi_of body) (\<lambda>(gcmd, gredirs, _).
         expects gcmd (\<lambda>c. and_then (lower_compound_command cl c) (\<lambda>cmd.
           case gredirs of
             None \<Rightarrow> Tree (AST_FUNCTION_DEF name cmd None)
           | Some r \<Rightarrow> expects (list_of r) (\<lambda>lst. and_then (lower_redirects lst) (\<lambda>redirs.
               Tree (AST_FUNCTION_DEF name cmd (Some redirs)))))))
       else and_then (lower_compound_command cl body) (\<lambda>cmd. Tree (AST_FUNCTION_DEF name cmd None))))))))"

definition command_dispatch :: "(gnode \<Rightarrow> ast lowered) \<Rightarrow> gnode \<Rightarrow> ast lowered" where
  \<comment> \<open>the \<open>switch\<close> but for \<open>G_COMMAND\<close>\<close>
  "command_dispatch cl child =
     (let ty = node_type child in
      if ty = G_SIMPLE_COMMAND then lower_simple_command child
      else if ty \<in> {G_SUBSHELL, G_BRACE_GROUP}
      then expects (multi_of child) (\<lambda>(_, b, _). expects b (lower_compound_command cl))
      else if ty \<in> {G_FOR_CLAUSE, G_CASE_CLAUSE, G_IF_CLAUSE, G_WHILE_CLAUSE, G_UNTIL_CLAUSE, G_COMPOUND_COMMAND}
      then lower_compound_command cl child
      else if ty = G_FUNCTION_DEFINITION then lower_function_definition cl child
      else Null)"

fun lower_command :: "(gnode \<Rightarrow> ast lowered) \<Rightarrow> gnode \<Rightarrow> ast lowered" where
  "lower_command cl (Node ty k d) =
     (if ty \<noteq> G_COMMAND then Violated
      else if k = GNODE_PAYLOAD_CHILD
      then (case d of
              D_Child x \<Rightarrow> if node_type x = G_COMMAND then lower_command cl x else command_dispatch cl x
            | D_Zero \<Rightarrow> Null
            | _ \<Rightarrow> Violated)
      else if k = GNODE_PAYLOAD_MULTI
      then (case d of
              D_Multi a _ _ _ \<Rightarrow>
                (case a of None \<Rightarrow> Null
                 | Some x \<Rightarrow> if node_type x = G_COMMAND then lower_command cl x else command_dispatch cl x)
            | D_Zero \<Rightarrow> Null
            | _ \<Rightarrow> Violated)
      else Null)"

subsection \<open>Pipelines and lists\<close>

fun lower_pipe_commands :: "(gnode \<Rightarrow> ast lowered) \<Rightarrow> gnode list \<Rightarrow> ast list lowered" where
  "lower_pipe_commands cl [] = Tree []"
| "lower_pipe_commands cl (x # xs) =
     (if node_type x = G_COMMAND
      then and_then (lower_command cl x) (\<lambda>cmd. and_then (lower_pipe_commands cl xs) (\<lambda>cmds. Tree (cmd # cmds)))
      else lower_pipe_commands cl xs)"

definition lower_pipe_sequence :: "(gnode \<Rightarrow> ast lowered) \<Rightarrow> bool \<Rightarrow> gnode \<Rightarrow> ast lowered" where
  "lower_pipe_sequence cl is_negated = Expects_type G_PIPE_SEQUENCE (\<lambda>g.
     expects (list_of g) (\<lambda>lst.
     and_then (lower_pipe_commands cl lst) (\<lambda>cmds.
       case cmds of
         [] \<Rightarrow> Null
       | only # others \<Rightarrow> if others = [] \<and> \<not> is_negated then Tree only else Tree (AST_PIPELINE cmds is_negated))))"

definition lower_pipeline :: "(gnode \<Rightarrow> ast lowered) \<Rightarrow> gnode \<Rightarrow> ast lowered" where
  "lower_pipeline cl = Expects_type G_PIPELINE (\<lambda>g.
     expects (list_of g) (\<lambda>lst.
     and_then (case lst of
         [seq] \<Rightarrow> Tree (False, seq)
       | [first, second] \<Rightarrow>
           if node_type first = G_WORD_NODE
           then expects (token_of first) (\<lambda>t.
             if tok_type t = TOKEN_BANG then Tree (True, second) else Tree (False, first))
           else Tree (False, first)
       | _ \<Rightarrow> Null) (\<lambda>(is_negated, seq).
     EXPECT_TYPE (Some seq) G_PIPE_SEQUENCE (lower_pipe_sequence cl is_negated))))"

fun lower_and_or :: "(gnode \<Rightarrow> ast lowered) \<Rightarrow> gnode \<Rightarrow> ast lowered" where
  "lower_and_or cl (Node ty k d) =
     (if ty \<noteq> G_AND_OR then Violated
      else case d of
        D_Zero \<Rightarrow> Null
      | D_Multi (Some left_node) (Some op_node) (Some right_node) _ \<Rightarrow>
          and_then (if node_type left_node = G_AND_OR then lower_and_or cl left_node
                    else if node_type left_node = G_PIPELINE then lower_pipeline cl left_node else Null) (\<lambda>left.
          EXPECT_TYPE (Some op_node) G_AND_OR (\<lambda>op_node.
          expects (token_of op_node) (\<lambda>tok.
            if tok_type tok = TOKEN_AND_IF \<or> tok_type tok = TOKEN_OR_IF
            then and_then (if node_type right_node = G_PIPELINE then lower_pipeline cl right_node
                           else if node_type right_node = G_AND_OR then lower_and_or cl right_node else Null) (\<lambda>right.
              Tree (AST_AND_OR_LIST left right (if tok_type tok = TOKEN_AND_IF then ANDOR_OP_AND else ANDOR_OP_OR)))
            else Null)))
      | D_Multi (Some maybe_pipeline) None None _ \<Rightarrow>
          if node_type maybe_pipeline = G_PIPELINE then lower_pipeline cl maybe_pipeline else Null
      | D_Multi _ _ _ _ \<Rightarrow> Null
      | _ \<Rightarrow> Violated)"

definition lower_element :: "(gnode \<Rightarrow> ast lowered) \<Rightarrow> gnode \<Rightarrow> ast lowered" where
  "lower_element cl elem =
     (if node_type elem = G_AND_OR then lower_and_or cl elem
      else if node_type elem = G_PIPELINE then lower_pipeline cl elem else Null)"

definition separator_from_gseparator_op :: "gnode \<Rightarrow> cmd_separator lowered" where
  "separator_from_gseparator_op = Expects_type G_SEPARATOR_OP (\<lambda>g.
     expects (token_of g) (\<lambda>t. Tree (if tok_type t = TOKEN_AMPER then CMD_EXEC_BACKGROUND else CMD_EXEC_SEQUENTIAL)))"

fun lower_elements :: "gnode_type \<Rightarrow> (gnode \<Rightarrow> cmd_separator lowered) \<Rightarrow> (gnode \<Rightarrow> ast lowered) \<Rightarrow> gnode list \<Rightarrow>
    (ast list \<times> cmd_separator list) lowered" where
  \<comment> \<open>the loop of \<open>lower_list\<close> and \<open>lower_term_as_command_list\<close>, which differ in the node of a separator
     and in what it becomes\<close>
  "lower_elements ty sep_of cl [] = Tree ([], [])"
| "lower_elements ty sep_of cl [x] =
     and_then (lower_element cl x) (\<lambda>node. Tree ([node], [CMD_EXEC_END]))"
| "lower_elements ty sep_of cl (x # y # xs) =
     and_then (lower_element cl x) (\<lambda>node.
       if node_type y = ty
       then and_then (sep_of y) (\<lambda>sep.
         and_then (lower_elements ty sep_of cl xs) (\<lambda>(nodes, seps). Tree (node # nodes, sep # seps)))
       else and_then (lower_elements ty sep_of cl (y # xs)) (\<lambda>(nodes, seps). Tree (node # nodes, CMD_EXEC_END # seps)))"

definition lower_list :: "(gnode \<Rightarrow> ast lowered) \<Rightarrow> gnode \<Rightarrow> (ast list \<times> cmd_separator list) lowered" where
  "lower_list cl = Expects_type G_LIST (\<lambda>g.
     expects (list_of g) (lower_elements G_SEPARATOR_OP separator_from_gseparator_op cl))"

definition lower_term_as_command_list :: "(gnode \<Rightarrow> ast lowered) \<Rightarrow> gnode \<Rightarrow> (ast list \<times> cmd_separator list) lowered" where
  "lower_term_as_command_list cl = Expects_type G_TERM (\<lambda>g.
     expects (list_of g) (lower_elements G_SEPARATOR (\<lambda>_. Tree CMD_EXEC_SEQUENTIAL) cl))"

definition set_final_separator :: "(bool \<times> cmd_separator) \<Rightarrow> ast list \<times> cmd_separator list \<Rightarrow>
    (ast list \<times> cmd_separator list) lowered" where
  \<comment> \<open>the part after the separator has been read: is there a change, and to which\<close>
  "set_final_separator fin l =
     (case (fin, l) of ((explicit, final_separator), (items, separators)) \<Rightarrow>
        if explicit \<or> length separators < length items
        then if items = [] then Null
             else if length items = length separators + 1 then Tree (items, separators @ [final_separator])
             else if length items = length separators
             then Tree (items, separators[length separators - 1 := final_separator])
             else Null
        else Tree (items, separators))"

definition token_separator :: "gnode \<Rightarrow> (bool \<times> cmd_separator) lowered" where
  "token_separator sep =
     expects (token_of sep) (\<lambda>t.
       case tok_type t of
         TOKEN_AMPER \<Rightarrow> Tree (True, CMD_EXEC_BACKGROUND)
       | TOKEN_SEMI \<Rightarrow> Tree (True, CMD_EXEC_SEQUENTIAL)
       | _ \<Rightarrow> Null)"

definition compound_separator :: "gnode option \<Rightarrow> (bool \<times> cmd_separator) lowered" where
  "compound_separator sep =
     (case sep of
        None \<Rightarrow> Tree (False, CMD_EXEC_END)
      | Some _ \<Rightarrow> EXPECT_TYPE sep G_SEPARATOR (\<lambda>g.
          expects (child_of g) (\<lambda>child. expects child (\<lambda>c.
            if node_type c = G_SEPARATOR_OP then token_separator c
            else if node_type c = G_NEWLINE_LIST then Tree (True, CMD_EXEC_SEQUENTIAL)
            else Null))))"

fun lower_compound_list :: "nat \<Rightarrow> gnode \<Rightarrow> ast lowered" where
  "lower_compound_list 0 g = Exhausted"
| "lower_compound_list (Suc n) g =
     Expects_type G_COMPOUND_LIST (\<lambda>g.
       expects (pair_of g) (\<lambda>(left, right).
       EXPECT_TYPE left G_TERM (\<lambda>terms.
         case lower_term_as_command_list (lower_compound_list n) terms of
           Tree l \<Rightarrow> and_then (compound_separator right) (\<lambda>fin.
             and_then (set_final_separator fin l) (\<lambda>(items, separators). Tree (AST_COMMAND_LIST items separators)))
         | Null \<Rightarrow> Violated                    \<comment> \<open>the list is used without a test\<close>
         | Violated \<Rightarrow> Violated
         | Exhausted \<Rightarrow> Exhausted))) g"

subsection \<open>Programs\<close>

definition command_separator :: "gnode option \<Rightarrow> (bool \<times> cmd_separator) lowered" where
  "command_separator sep =
     (case sep of
        None \<Rightarrow> Tree (False, CMD_EXEC_END)
      | Some _ \<Rightarrow> EXPECT_TYPE sep G_SEPARATOR_OP token_separator)"

definition lower_complete_command :: "nat \<Rightarrow> gnode \<Rightarrow> ast lowered" where
  "lower_complete_command n = Expects_type G_COMPLETE_COMMAND (\<lambda>g.
     expects (multi_of g) (\<lambda>(glist, sep, _).
     expects glist (\<lambda>l.
     and_then (lower_list (lower_compound_list n) l) (\<lambda>(items, separators).
     and_then (command_separator sep) (\<lambda>fin.
     and_then (set_final_separator fin (items, separators)) (\<lambda>(final_items, final_separators).
       if length items = 1 \<and> length separators = 1 \<and> final_separators ! 0 = CMD_EXEC_END
       then Tree (final_items ! 0)
       else Tree (AST_COMMAND_LIST final_items final_separators)))))))"

definition command_items :: "ast \<Rightarrow> ast list \<times> cmd_separator list" where
  \<comment> \<open>the items of a list, each with a separator, or the single command\<close>
  "command_items item =
     (case item of
        AST_COMMAND_LIST items separators \<Rightarrow>
          (items, map (\<lambda>j. if j < length separators then separators ! j else CMD_EXEC_END) [0..<length items])
      | _ \<Rightarrow> ([item], [CMD_EXEC_END]))"

fun lower_complete_command_list :: "nat \<Rightarrow> gnode list \<Rightarrow> (ast list \<times> cmd_separator list) lowered" where
  "lower_complete_command_list n [] = Tree ([], [])"
| "lower_complete_command_list n (x # xs) =
     and_then (lower_complete_command n x) (\<lambda>item.
     and_then (lower_complete_command_list n xs) (\<lambda>(items, separators).
       Tree (fst (command_items item) @ items, snd (command_items item) @ separators)))"

definition lower_complete_commands :: "nat \<Rightarrow> gnode \<Rightarrow> ast lowered" where
  "lower_complete_commands n = Expects_type G_COMPLETE_COMMANDS (\<lambda>g.
     expects (list_of g) (\<lambda>lst.
       case lst of
         [gcmd] \<Rightarrow> and_then (lower_complete_command n gcmd) (\<lambda>result. Tree
           (case result of
              AST_COMMAND_LIST _ _ \<Rightarrow> result
            | _ \<Rightarrow> AST_COMMAND_LIST [result] [CMD_EXEC_END]))
       | _ \<Rightarrow> and_then (lower_complete_command_list n lst) (\<lambda>(items, separators).
           Tree (AST_COMMAND_LIST items separators))))"

definition lower_program :: "nat \<Rightarrow> gnode \<Rightarrow> ast lowered" where
  "lower_program n = Expects_type G_PROGRAM (\<lambda>g.
     expects (child_of g) (\<lambda>child. case child of None \<Rightarrow> Null | Some x \<Rightarrow> lower_complete_commands n x))"

definition ast_lower :: "gnode \<Rightarrow> ast lowered" where
  \<comment> \<open>the nesting is less than the number of nodes\<close>
  "ast_lower root = EXPECT_TYPE (Some root) G_PROGRAM (lower_program (size root))"

end
