(* ===== verification/Lower_Bound.thy ===== *)
theory Lower_Bound
  imports
    Lower_Commands
begin

section \<open>The bound of the lowering\<close>

text \<open>
  Every function calls the lowering of compound lists only on nodes smaller than its own.  So
  the bound that \<open>ast_lower\<close> chooses is never reached, and a larger one gives the same result.
\<close>

definition same :: "'a lowered \<Rightarrow> 'a lowered \<Rightarrow> bool" where
  "same r s \<longleftrightarrow> r = s \<and> r \<noteq> Exhausted"

definition agree :: "nat \<Rightarrow> (gnode \<Rightarrow> ast lowered) \<Rightarrow> (gnode \<Rightarrow> ast lowered) \<Rightarrow> bool" where
  "agree m cl cl' \<longleftrightarrow> (\<forall>x. size x < m \<longrightarrow> same (cl x) (cl' x))"

lemma agreeD: "agree m cl cl' \<Longrightarrow> size x < m \<Longrightarrow> same (cl x) (cl' x)"
  by (simp add: agree_def)

lemma agree_le: "agree m cl cl' \<Longrightarrow> n \<le> m \<Longrightarrow> agree n cl cl'"
  by (simp add: agree_def)

subsection \<open>Rules for the statements\<close>

lemma same_results [simp]: "same (Tree x) (Tree y) \<longleftrightarrow> x = y" "same Null Null" "same Violated Violated"
  by (auto simp: same_def)

lemma same_Tree: "x = y \<Longrightarrow> same (Tree x) (Tree y)"
  by simp

lemma same_and_then:
  "same m m' \<Longrightarrow> (\<And>x. m = Tree x \<Longrightarrow> same (f x) (f' x)) \<Longrightarrow> same (and_then m f) (and_then m' f')"
  by (cases m) (auto simp: same_def and_then_def)

lemma same_expects:
  "(\<And>y. x = Some y \<Longrightarrow> same (f y) (f' y)) \<Longrightarrow> same (expects x f) (expects x f')"
  by (cases x) (auto simp: expects_def)

lemma same_EXPECT:
  "(\<And>y. x = Some y \<Longrightarrow> same (f y) (f' y)) \<Longrightarrow> same (EXPECT_TYPE x ty f) (EXPECT_TYPE x ty f')"
  by (cases x) (auto simp: EXPECT_TYPE_def)

lemma same_Expects:
  "same (f g) (f' g) \<Longrightarrow> same (Expects_type ty f g) (Expects_type ty f' g)"
  by (auto simp: Expects_type_def)

lemma same_if: "(b \<Longrightarrow> same x x') \<Longrightarrow> (\<not> b \<Longrightarrow> same y y') \<Longrightarrow> same (if b then x else y) (if b then x' else y')"
  by simp

lemma same_option: "(x = None \<Longrightarrow> same a a') \<Longrightarrow> (\<And>y. x = Some y \<Longrightarrow> same (f y) (f' y)) \<Longrightarrow>
    same (case x of None \<Rightarrow> a | Some y \<Rightarrow> f y) (case x of None \<Rightarrow> a' | Some y \<Rightarrow> f' y)"
  by (cases x) auto

lemma same_prod: "(\<And>a b. x = (a, b) \<Longrightarrow> same (f a b) (f' a b)) \<Longrightarrow>
    same (case x of (a, b) \<Rightarrow> f a b) (case x of (a, b) \<Rightarrow> f' a b)"
  by (cases x) auto

lemmas same_rules = same_and_then same_expects same_EXPECT same_Expects same_if same_option same_prod
  same_Tree same_results(2,3)

subsection \<open>Sizes\<close>

lemma member_sizes:
  "child_of g = Some (Some x) \<Longrightarrow> size x < size g"
  "pair_of g = Some (a, b) \<Longrightarrow> pred_option (\<lambda>x. size x < size g) a \<and> pred_option (\<lambda>x. size x < size g) b"
  "multi_of g = Some (a, b, c, d) \<Longrightarrow>
    pred_option (\<lambda>x. size x < size g) a \<and> pred_option (\<lambda>x. size x < size g) b \<and>
    pred_option (\<lambda>x. size x < size g) c \<and> pred_option (\<lambda>x. size x < size g) d"
  by (cases g; auto simp: child_of_def pair_of_def multi_of_def pred_option_def split: gnode_data.splits)+

lemma list_sizes: "list_of g = Some xs \<Longrightarrow> x \<in> set xs \<Longrightarrow> size x < size g"
  using size_list_estimation' [of x xs "size x" size]
  by (cases g) (auto simp: list_of_def split: gnode_data.splits)

subsection \<open>Functions without nested lists\<close>

lemma same_location: "same (redirection_prefix a b) (redirection_prefix a b)"
  unfolding redirection_prefix_def by (intro same_rules) auto

lemma same_io_redirect: "same (lower_io_redirect g) (lower_io_redirect g)"
  unfolding lower_io_redirect_def io_file_redirection_def io_here_redirection_def map_redir_type_from_io_file_def
    determine_target_kind_def
  by (intro same_rules same_location) (auto simp: Let_def same_def split: gnode_data.split)

lemma same_redirects: "same (lower_redirects gs) (lower_redirects gs)"
  by (induction gs) (auto intro!: same_rules same_io_redirect)

lemma same_wordlist: "same (token_list_from_wordlist g) (token_list_from_wordlist g)"
proof -
  have "same (wordlist_tokens ws) (wordlist_tokens ws)" for ws
    by (induction ws) (auto intro!: same_rules)
  then show ?thesis unfolding token_list_from_wordlist_def by (intro same_rules)
qed

lemma same_patterns: "same (token_list_from_pattern_list g) (token_list_from_pattern_list g)"
proof -
  have "same (pattern_tokens ws) (pattern_tokens ws)" for ws
    by (induction ws) (auto intro!: same_rules)
  then show ?thesis unfolding token_list_from_pattern_list_def by (intro same_rules)
qed

lemma same_simple_command: "same (lower_simple_command g) (lower_simple_command g)"
proof -
  have suffix: "same (suffix_items xs s) (suffix_items xs s)" for xs s
    by (induction xs s rule: suffix_items.induct) (auto intro!: same_rules same_io_redirect)
  have item: "same (simple_item x s) (simple_item x s)" for x s
    unfolding simple_item_def by (intro same_rules same_io_redirect) auto
  have "same (simple_items xs s) (simple_items xs s)" for xs s
    by (induction xs arbitrary: s) (auto intro!: same_rules suffix item)
  then show ?thesis unfolding lower_simple_command_def by (intro same_rules) auto
qed

subsection \<open>Compound commands\<close>

lemma same_do_group:
  assumes "agree (size g) cl cl'"
  shows "same (lower_do_group cl g) (lower_do_group cl' g)"
  unfolding lower_do_group_def
  by (intro same_rules agreeD [OF assms]) (auto dest!: member_sizes)

lemma same_subshell:
  assumes "agree (size g) cl cl'"
  shows "same (lower_subshell cl g) (lower_subshell cl' g)"
  unfolding lower_subshell_def
  by (intro same_rules agreeD [OF assms]) (auto dest!: member_sizes)

lemma same_brace_group:
  assumes "agree (size g) cl cl'"
  shows "same (lower_brace_group cl g) (lower_brace_group cl' g)"
  unfolding lower_brace_group_def
  by (intro same_rules agreeD [OF assms]) (auto dest!: member_sizes)

lemma same_loop:
  assumes "agree (size g) cl cl'"
  shows "same (loop_parts cl f g) (loop_parts cl' f g)"
  unfolding loop_parts_def
  by (intro same_rules agreeD [OF assms] same_do_group agree_le [OF assms]) (auto dest!: member_sizes)

lemma same_while:
  assumes "agree (size g) cl cl'"
  shows "same (lower_while_clause cl g) (lower_while_clause cl' g)"
  unfolding lower_while_clause_def by (intro same_rules same_loop assms)

lemma same_until:
  assumes "agree (size g) cl cl'"
  shows "same (lower_until_clause cl g) (lower_until_clause cl' g)"
  unfolding lower_until_clause_def by (intro same_rules same_loop assms)

lemma same_else_part: "agree (size g) cl cl' \<Longrightarrow> same (lower_else_part cl g) (lower_else_part cl' g)"
proof (induction cl g rule: lower_else_part.induct)
  case (1 cl ty k d)
  show ?case
  proof (cases d)
    case (D_Multi a b c e)
    have "agree (size x) cl cl'" if "c = Some x" for x
      using 1(2) by (rule agree_le) (simp add: D_Multi that)
    with 1 D_Multi show ?thesis
      by (auto intro!: same_rules agreeD [OF 1(2)])
  qed auto
qed

lemma same_if_clause:
  assumes "agree (size g) cl cl'"
  shows "same (lower_if_clause cl g) (lower_if_clause cl' g)"
  unfolding lower_if_clause_def
  by (intro same_rules agreeD [OF assms] same_else_part agree_le [OF assms]) (auto dest!: member_sizes)

lemma same_for_clause:
  assumes "agree (size g) cl cl'"
  shows "same (lower_for_clause cl g) (lower_for_clause cl' g)"
proof -
  have "same (for_words x) (for_words x)" for x
    unfolding for_words_def by (intro same_rules same_wordlist) auto
  then show ?thesis
    unfolding lower_for_clause_def
    by (intro same_rules same_do_group agree_le [OF assms]) (auto dest!: member_sizes)
qed

lemma same_item_action: "same (item_action x) (item_action x)"
  unfolding item_action_def by (intro same_rules) auto

lemma same_case_item:
  assumes "agree (size g) cl cl'"
  shows "same (lower_case_item cl g) (lower_case_item cl' g)"
  unfolding lower_case_item_def
  by (intro same_rules agreeD [OF assms] same_patterns same_item_action) (auto dest!: member_sizes)

lemma same_case_item_ns:
  assumes "agree (size g) cl cl'"
  shows "same (lower_case_item_ns cl g) (lower_case_item_ns cl' g)"
proof -
  have body: "same (case cl b of Null \<Rightarrow> Tree None | r \<Rightarrow> and_then r (\<lambda>body. Tree (Some body)))
      (case cl' b of Null \<Rightarrow> Tree None | r \<Rightarrow> and_then r (\<lambda>body. Tree (Some body)))" if "size b < size g" for b
  proof -
    have "cl' b = cl b" "cl b \<noteq> Exhausted" using agreeD [OF assms that] by (auto simp: same_def)
    then show ?thesis by (cases "cl b") (simp_all add: and_then_def)
  qed
  show ?thesis
    unfolding lower_case_item_ns_def
    by (intro same_rules body same_patterns) (auto dest!: member_sizes)
qed

lemma same_case_items:
  "(\<And>x. x \<in> set xs \<Longrightarrow> agree (size x) cl cl') \<Longrightarrow> same (lower_case_items cl xs) (lower_case_items cl' xs)"
  by (induction xs) (auto intro!: same_rules same_case_item same_case_item_ns)

lemma same_case_clause:
  assumes "agree (size g) cl cl'"
  shows "same (lower_case_clause cl g) (lower_case_clause cl' g)"
proof -
  have parts: "same (case_parts a b) (case_parts a b)" for a b
    unfolding case_parts_def by (intro same_rules) auto
  have list: "case_parts a b = Tree (x, Some l) \<Longrightarrow> b = Some l" for a b x l
    by (auto simp: case_parts_def expects_def split: option.splits if_splits)
  have items: "same (lower_case_items cl xs) (lower_case_items cl' xs)"
    if "multi_of g = Some (a, b, c, d)" "case_parts a b = Tree (x, Some l)" "list_of l = Some xs" for a b c d x l xs
  proof (rule same_case_items)
    fix y assume "y \<in> set xs"
    then have "size y < size g" using that list_sizes [of l xs y] member_sizes(3) [of g] list by fastforce
    then show "agree (size y) cl cl'" by (intro agree_le [OF assms]) simp
  qed
  show ?thesis
    unfolding lower_case_clause_def
    by (intro same_rules parts) (auto intro!: items)
qed

lemma same_dispatch:
  assumes "agree (size g) cl cl'"
  shows "same (compound_dispatch cl g) (compound_dispatch cl' g)"
  using same_subshell [OF assms] same_brace_group [OF assms] same_for_clause [OF assms] same_case_clause [OF assms]
    same_if_clause [OF assms] same_while [OF assms] same_until [OF assms]
  by (cases "node_type g") (simp_all add: compound_dispatch_def)

lemma same_compound_command: "agree (size g) cl cl' \<Longrightarrow> same (lower_compound_command cl g) (lower_compound_command cl' g)"
proof (induction cl g rule: lower_compound_command.induct)
  case (1 cl ty k d)
  show ?case
  proof (cases "ty = G_COMPOUND_COMMAND")
    case True
    have "agree (size x) cl cl'" if "d = D_Child x" for x
      using 1(2) by (rule agree_le) (simp add: that)
    with 1 True show ?thesis by (auto split: gnode_data.split)
  next
    case False
    then show ?thesis using same_dispatch [OF 1(2)] by simp
  qed
qed

lemma same_function_definition:
  assumes "agree (size g) cl cl'"
  shows "same (lower_function_definition cl g) (lower_function_definition cl' g)"
  unfolding lower_function_definition_def
  by (intro same_rules same_compound_command same_redirects agree_le [OF assms]) (auto dest!: member_sizes)

subsection \<open>Commands and lists\<close>

lemma same_command_dispatch:
  assumes "agree (size g) cl cl'"
  shows "same (command_dispatch cl g) (command_dispatch cl' g)"
  unfolding command_dispatch_def Let_def
  by (intro same_rules same_compound_command same_function_definition same_simple_command agree_le [OF assms])
    (auto dest!: member_sizes)

lemma same_command: "agree (size g) cl cl' \<Longrightarrow> same (lower_command cl g) (lower_command cl' g)"
proof (induction cl g rule: lower_command.induct)
  case (1 cl ty k d)
  have sub: "agree (size x) cl cl'" if "size x < size (Node ty k d)" for x
    using agree_le [OF 1(3)] that by simp
  have disp: "same (command_dispatch cl x) (command_dispatch cl' x)" if "size x < size (Node ty k d)" for x
    using same_command_dispatch [OF sub [OF that]] .
  show ?case
  proof (cases d)
    case (D_Child x)
    then have x: "size x < size (Node ty k d)" by simp
    show ?thesis using 1(1) [OF _ _ D_Child _ sub [OF x]] disp [OF x] D_Child by auto
  next
    case (D_Multi a b c e)
    show ?thesis
    proof (cases a)
      case (Some x)
      with D_Multi have x: "size x < size (Node ty k d)" by simp
      show ?thesis using 1(2) [OF _ _ _ D_Multi Some _ sub [OF x]] disp [OF x] D_Multi Some by auto
    qed (use D_Multi in auto)
  qed auto
qed

lemma same_pipe_commands:
  "(\<And>x. x \<in> set xs \<Longrightarrow> agree (size x) cl cl') \<Longrightarrow> same (lower_pipe_commands cl xs) (lower_pipe_commands cl' xs)"
  by (induction xs) (auto intro!: same_rules same_command)

lemma agree_list: "agree (size g) cl cl' \<Longrightarrow> list_of g = Some xs \<Longrightarrow> x \<in> set xs \<Longrightarrow> agree (size x) cl cl'"
  using list_sizes [of g xs x] agree_le [of "size g" cl cl' "size x"] by simp

lemma same_pipe_sequence:
  assumes "agree (size g) cl cl'"
  shows "same (lower_pipe_sequence cl b g) (lower_pipe_sequence cl' b g)"
proof -
  have "same (case cmds of [] \<Rightarrow> Null | only # others \<Rightarrow> if others = [] \<and> \<not> b then Tree only else Tree (AST_PIPELINE cmds b))
      (case cmds of [] \<Rightarrow> Null | only # others \<Rightarrow> if others = [] \<and> \<not> b then Tree only else Tree (AST_PIPELINE cmds b))" for cmds
    by (auto split: list.split)
  then show ?thesis
    unfolding lower_pipe_sequence_def
    by (intro same_rules same_pipe_commands) (auto intro: agree_list [OF assms])
qed

lemma same_pipeline:
  assumes "agree (size g) cl cl'"
  shows "same (lower_pipeline cl g) (lower_pipeline cl' g)"
proof -
  let ?choose = "\<lambda>lst. (case lst of
         [seq] \<Rightarrow> Tree (False, seq)
       | [first, second] \<Rightarrow>
           if node_type first = G_WORD_NODE
           then expects (token_of first) (\<lambda>t.
             if tok_type t = TOKEN_BANG then Tree (True, second) else Tree (False, first))
           else Tree (False, first)
       | _ \<Rightarrow> Null)"
  have choose: "same (?choose lst) (?choose lst)" "?choose lst = Tree (b, seq) \<Longrightarrow> seq \<in> set lst" for lst b seq
    by (auto simp: expects_def same_def split: list.splits option.splits if_splits)
  show ?thesis
    unfolding lower_pipeline_def
    by (intro same_rules choose same_pipe_sequence agree_list [OF assms]) (auto dest: choose(2))
qed

lemma same_and_or: "agree (size g) cl cl' \<Longrightarrow> same (lower_and_or cl g) (lower_and_or cl' g)"
proof (induction cl g rule: lower_and_or.induct)
  case (1 cl ty k d)
  have sub: "agree (size x) cl cl'" if "size x < size (Node ty k d)" for x
    using agree_le [OF 1(3)] that by simp
  show ?case
  proof (cases d)
    case (D_Multi a b c e)
    have a: "agree (size x) cl cl'" if "x \<in> set_option a \<union> set_option c" for x
      using that by (intro sub) (auto simp: D_Multi)
    have left: "same (lower_and_or cl x) (lower_and_or cl' x)"
      if "ty = G_AND_OR" "a = Some x" "b = Some y" "c = Some z" "node_type x = G_AND_OR" for x y z
      using 1(1) D_Multi that a [of x] by auto
    have right: "same (lower_and_or cl z) (lower_and_or cl' z)"
      if "ty = G_AND_OR" "a = Some x" "b = Some y" "c = Some z" "node_type z = G_AND_OR"
        "token_of y = Some t" "tok_type t = TOKEN_AND_IF \<or> tok_type t = TOKEN_OR_IF" for x y z t
      using 1(2) D_Multi that a [of z] by auto
    show ?thesis unfolding lower_and_or.simps D_Multi gnode_data.case
      by (cases a; cases b; cases c) (auto intro!: same_rules same_pipeline a intro: left right)
  qed auto
qed

lemma same_elements:
  "(\<And>x. x \<in> set xs \<Longrightarrow> agree (size x) cl cl') \<Longrightarrow> (\<And>y. same (sep_of y) (sep_of y)) \<Longrightarrow>
    same (lower_elements ty sep_of cl xs) (lower_elements ty sep_of cl' xs)"
proof (induction ty sep_of cl xs rule: lower_elements.induct)
  case (2 ty sep_of cl x)
  then show ?case by (auto simp: lower_element_def intro!: same_rules same_and_or same_pipeline)
next
  case (3 ty sep_of cl x y xs)
  then show ?case
    by (auto simp: lower_element_def intro!: same_rules same_and_or same_pipeline)
qed simp

lemma same_separators:
  "same (separator_from_gseparator_op g) (separator_from_gseparator_op g)"
  "same (token_separator g) (token_separator g)"
  "same (compound_separator x) (compound_separator x)" "same (command_separator x) (command_separator x)"
  "same (set_final_separator fin l) (set_final_separator fin l)"
proof -
  have t: "same (token_separator g) (token_separator g)" for g
    unfolding token_separator_def by (intro same_rules) (auto split: token_type.split)
  show "same (separator_from_gseparator_op g) (separator_from_gseparator_op g)"
    "same (compound_separator x) (compound_separator x)" "same (command_separator x) (command_separator x)"
    "same (set_final_separator fin l) (set_final_separator fin l)" "same (token_separator g) (token_separator g)"
    unfolding separator_from_gseparator_op_def compound_separator_def command_separator_def set_final_separator_def
    by (intro same_rules t refl)+
qed

lemma same_list:
  assumes "agree (size g) cl cl'"
  shows "same (lower_list cl g) (lower_list cl' g)"
  unfolding lower_list_def by (intro same_rules same_elements same_separators) (rule agree_list [OF assms])

lemma same_term_list:
  assumes "agree (size g) cl cl'"
  shows "same (lower_term_as_command_list cl g) (lower_term_as_command_list cl' g)"
  unfolding lower_term_as_command_list_def
  by (intro same_rules same_elements refl) (rule agree_list [OF assms])

lemma enough_nesting: "agree m (lower_compound_list (m + i)) (lower_compound_list (m + j))"
proof (induction m)
  case (Suc m)
  have "same (lower_compound_list (Suc (m + i)) g) (lower_compound_list (Suc (m + j)) g)" if "size g < Suc m" for g
  proof -
    have terms: "same (lower_term_as_command_list (lower_compound_list (m + i)) x)
        (lower_term_as_command_list (lower_compound_list (m + j)) x)" if "size x < size g" for x
      using that \<open>size g < Suc m\<close> by (intro same_term_list agree_le [OF Suc.IH]) simp
    have "same
        (case lower_term_as_command_list (lower_compound_list (m + i)) x of
           Tree l \<Rightarrow> and_then (compound_separator right) (\<lambda>fin.
             and_then (set_final_separator fin l) (\<lambda>(items, separators). Tree (AST_COMMAND_LIST items separators)))
         | Null \<Rightarrow> Violated | Violated \<Rightarrow> Violated | Exhausted \<Rightarrow> Exhausted)
        (case lower_term_as_command_list (lower_compound_list (m + j)) x of
           Tree l \<Rightarrow> and_then (compound_separator right) (\<lambda>fin.
             and_then (set_final_separator fin l) (\<lambda>(items, separators). Tree (AST_COMMAND_LIST items separators)))
         | Null \<Rightarrow> Violated | Violated \<Rightarrow> Violated | Exhausted \<Rightarrow> Exhausted)" if "size x < size g" for x right
    proof -
      have "lower_term_as_command_list (lower_compound_list (m + j)) x = lower_term_as_command_list (lower_compound_list (m + i)) x"
        "lower_term_as_command_list (lower_compound_list (m + i)) x \<noteq> Exhausted"
        using terms [OF that] by (auto simp: same_def)
      then show ?thesis
        by (cases "lower_term_as_command_list (lower_compound_list (m + i)) x")
          (auto intro!: same_rules same_separators)
    qed
    then show ?thesis
      unfolding lower_compound_list.simps
      by (intro same_rules) (auto dest!: member_sizes)
  qed
  then show ?case by (simp add: agree_def)
qed (simp add: agree_def)

lemma nesting_bound: "m \<le> i \<Longrightarrow> m \<le> j \<Longrightarrow> agree m (lower_compound_list i) (lower_compound_list j)"
  using enough_nesting [of m "i - m" "j - m"] by simp

lemma same_complete_command:
  assumes "size g \<le> i" "size g \<le> j"
  shows "same (lower_complete_command i g) (lower_complete_command j g)"
  unfolding lower_complete_command_def
  by (intro same_rules same_list same_separators agree_le [OF nesting_bound [OF assms]]) (auto dest!: member_sizes)

lemma same_complete_commands:
  assumes "size g \<le> i" "size g \<le> j"
  shows "same (lower_complete_commands i g) (lower_complete_commands j g)"
proof -
  have list: "same (lower_complete_command_list i xs) (lower_complete_command_list j xs)"
    if "\<And>x. x \<in> set xs \<Longrightarrow> size x \<le> i \<and> size x \<le> j" for xs
    using that by (induction xs) (auto intro!: same_rules same_complete_command)
  have "size x \<le> i \<and> size x \<le> j" if "list_of g = Some xs" "x \<in> set xs" for xs x
    using list_sizes [OF that] assms by simp
  then show ?thesis
    unfolding lower_complete_commands_def
    by (intro same_rules) (auto split: list.split intro!: same_rules same_complete_command list)
qed

lemma same_program:
  assumes "size g \<le> i" "size g \<le> j"
  shows "same (lower_program i g) (lower_program j g)"
  unfolding lower_program_def
  by (intro same_rules same_complete_commands) (use assms in \<open>auto dest!: member_sizes\<close>)

end
