(* ===== verification/Lower_Language.thy ===== *)
theory Lower_Language
  imports
    Lower_Bound Ast_Proofs Parser_Language
begin

section \<open>The meaning of the language of commands\<close>

text \<open>
  What the commands of \<open>Parser_Language\<close> are to become, and the proof that lowering their trees
  gives it.  The separators inside compound lists are an argument: \<open>separator_of\<close> is what they
  mean, and the constant \<open>CMD_EXEC_SEQUENTIAL\<close> what the code makes of them.
\<close>

definition separator_of :: "token \<Rightarrow> cmd_separator" where
  "separator_of t = (if tok_type t = TOKEN_AMPER then CMD_EXEC_BACKGROUND else CMD_EXEC_SEQUENTIAL)"

definition last_separator :: "token option \<Rightarrow> cmd_separator" where
  "last_separator s = (case s of None \<Rightarrow> CMD_EXEC_END | Some t \<Rightarrow> separator_of t)"

primrec ltail_separators :: "ltail \<Rightarrow> token list" where
  "ltail_separators LEnd = []"
| "ltail_separators (LMore s a lt) = s # ltail_separators lt"

primrec cmd_ast :: "(token \<Rightarrow> cmd_separator) \<Rightarrow> cmd \<Rightarrow> ast"
  and pipe_ast :: "(token \<Rightarrow> cmd_separator) \<Rightarrow> pipe \<Rightarrow> ast"
  and ptail_asts :: "(token \<Rightarrow> cmd_separator) \<Rightarrow> ptail \<Rightarrow> ast list"
  and ao_ast :: "(token \<Rightarrow> cmd_separator) \<Rightarrow> ao \<Rightarrow> ast"
  and atail_ast :: "(token \<Rightarrow> cmd_separator) \<Rightarrow> atail \<Rightarrow> ast \<Rightarrow> ast"
  and clist_ast :: "(token \<Rightarrow> cmd_separator) \<Rightarrow> clist \<Rightarrow> ast"
  and ltail_asts :: "(token \<Rightarrow> cmd_separator) \<Rightarrow> ltail \<Rightarrow> ast list" where
  "cmd_ast f (Simple w ws) = AST_SIMPLE_COMMAND (map token_clone (w # ws)) [] []"
| "cmd_ast f (Subshell l c r) = AST_SUBSHELL (clist_ast f c)"
| "cmd_ast f (Loop w c d b e) =
     (if tok_type w = TOKEN_WHILE then AST_WHILE_CLAUSE else AST_UNTIL_CLAUSE) (clist_ast f c) (clist_ast f b)"
| "cmd_ast f (If i c t b fi) = AST_IF_CLAUSE (clist_ast f c) (clist_ast f b) None None"
| "pipe_ast f (Pipe c pt) =
     (if pt = PEnd then cmd_ast f c else AST_PIPELINE (cmd_ast f c # ptail_asts f pt) False)"
| "ptail_asts f PEnd = []"
| "ptail_asts f (PMore s c pt) = cmd_ast f c # ptail_asts f pt"
| "ao_ast f (AndOr p a) = atail_ast f a (pipe_ast f p)"
| "atail_ast f AEnd = (\<lambda>left. left)"
| "atail_ast f (AMore s p a) =
     (\<lambda>left. atail_ast f a (AST_AND_OR_LIST left (pipe_ast f p)
       (if tok_type s = TOKEN_AND_IF then ANDOR_OP_AND else ANDOR_OP_OR)))"
| "clist_ast f (CList a lt s) =
     AST_COMMAND_LIST (ao_ast f a # ltail_asts f lt) (map f (ltail_separators lt) @ [last_separator s])"
| "ltail_asts f LEnd = []"
| "ltail_asts f (LMore s a lt) = ao_ast f a # ltail_asts f lt"

primrec line_items :: "(token \<Rightarrow> cmd_separator) \<Rightarrow> clist \<Rightarrow> ast list" where
  "line_items f (CList a lt s) = ao_ast f a # ltail_asts f lt"

primrec line_separators :: "clist \<Rightarrow> cmd_separator list" where
  "line_separators (CList a lt s) = map separator_of (ltail_separators lt) @ [last_separator s]"

definition program_ast :: "(token \<Rightarrow> cmd_separator) \<Rightarrow> line list \<Rightarrow> ast" where
  \<comment> \<open>the commands of all lines, each with the separator after it\<close>
  "program_ast f ls = AST_COMMAND_LIST (concat (map (line_items f \<circ> fst) ls)) (concat (map (line_separators \<circ> fst) ls))"

subsection \<open>Evaluation\<close>

lemma on_results [simp]: "and_then (Tree x) f = f x" "expects (Some y) g = g y"
  "EXPECT_TYPE (Some z) ty h = (if node_type z = ty then h z else Null)"
  by (simp_all add: and_then_def expects_def EXPECT_TYPE_def)

lemma Expects_type_eval [simp]: "node_type g = ty \<Longrightarrow> Expects_type ty f g = f g"
  by (simp add: Expects_type_def)

lemma data_of_g_node [simp]: "data_of (g_node ty d) = d"
  by (simp add: g_node_def)

lemma token_type_clone [simp]: "tok_type (token_clone t) = tok_type t"
  by (simp add: token_clone_def)

lemma members [simp]:
  "token_of (leaf ty t) = Some (token_clone t)" "node_type (leaf ty t) = ty"
  "list_of (g_node ty (D_List xs)) = Some xs" "child_of (g_node ty (D_Child x)) = Some (Some x)"
  "pair_of (g_node ty (D_Pair a b)) = Some (a, b)"
  "multi_of (g_node ty (D_Multi a b c d)) = Some (a, b, c, d)"
  by (simp_all add: token_of_def leaf_def list_of_def child_of_def pair_of_def multi_of_def multi_def Let_def)

lemma lower_wrapped [simp]: "node_type x \<noteq> G_COMMAND \<Longrightarrow> lower_command cl (command_node x) = command_dispatch cl x"
  by (simp add: command_node_def)

lemma lower_compound [simp]:
  "command_dispatch cl (g_node G_COMPOUND_COMMAND (D_Child x)) = lower_compound_command cl x"
  "ty \<noteq> G_COMPOUND_COMMAND \<Longrightarrow> lower_compound_command cl (g_node ty d) = compound_dispatch cl (g_node ty d)"
  by (simp_all add: command_dispatch_def g_node_def)

lemma lower_simple [simp]: "lower_simple_command (simple_tree w ws) = Tree (AST_SIMPLE_COMMAND (map token_clone (w # ws)) [] [])"
proof -
  have "suffix_items (map (leaf G_CMD_WORD) ws) (us, [], []) = Tree (us @ map token_clone ws, [], [])" for us
    by (induction ws arbitrary: us) simp_all
  then show ?thesis by (simp add: lower_simple_command_def simple_tree_def simple_item_def)
qed

lemma tree_types [simp]: "node_type (command_node x) = G_COMMAND" "node_type (cmd_tree c) = G_COMMAND"
  "node_type (simple_tree w ws) = G_SIMPLE_COMMAND"
  by (simp_all add: command_node_def simple_tree_def) (cases c; simp add: command_node_def)

lemma list_types [simp]: "node_type (pipe_tree p) = G_PIPELINE" "node_type (clist_tree cl) = G_COMPOUND_LIST"
  "node_type (list_tree cl) = G_COMPLETE_COMMAND"
  by (cases p; simp) (cases cl; simp)+

lemma atail_element: "node_type left \<in> {G_AND_OR, G_PIPELINE} \<Longrightarrow> node_type (atail_tree a left) \<in> {G_AND_OR, G_PIPELINE}"
  by (induction a arbitrary: left rule: atail.induct [of "\<lambda>_. True" "\<lambda>_. True" "\<lambda>_. True" "\<lambda>_. True" _ "\<lambda>_. True" "\<lambda>_. True"])
    auto

lemma elements:
  assumes "lower_element cl x = Tree a" "map (\<lambda>x. lower_element cl (snd x)) ts = map Tree bs"
    and "\<And>s. s \<in> fst ` set ts \<Longrightarrow> node_type (node s) = ty \<and> sep_of (node s) = Tree (g s)"
  shows "lower_elements ty sep_of cl (x # concat (map (\<lambda>(s, x). [node s, x]) ts)) =
    Tree (a # bs, map (g \<circ> fst) ts @ [CMD_EXEC_END])"
  using assms
proof (induction ts arbitrary: x a bs)
  case (Cons t ts)
  obtain s y where t: "t = (s, y)" by force
  obtain b bs' where bs: "bs = b # bs'" "lower_element cl y = Tree b" "map (\<lambda>x. lower_element cl (snd x)) ts = map Tree bs'"
    using Cons.prems(2) t by (cases bs) (auto simp: comp_def)
  have "lower_elements ty sep_of cl (y # concat (map (\<lambda>(s, x). [node s, x]) ts)) = Tree (b # bs', map (g \<circ> fst) ts @ [CMD_EXEC_END])"
    using Cons.IH [OF bs(2,3)] Cons.prems(3) t by simp
  then show ?case using Cons.prems(1) Cons.prems(3) [of s] t bs(1) by simp
qed simp

subsection \<open>Every command is lowered\<close>

text \<open>With a bound that is large enough, in the sense of the filter of the natural numbers.\<close>

abbreviation code_separator :: "token \<Rightarrow> cmd_separator" where
  "code_separator \<equiv> \<lambda>_. CMD_EXEC_SEQUENTIAL"

lemma finish_list: "compound_separator (map_option separator_node s) = Tree (s \<noteq> None, last_separator s)"
  if "case s of None \<Rightarrow> True | Some t \<Rightarrow> tok_type t \<in> {TOKEN_SEMI, TOKEN_AMPER}"
  using that by (cases s) (auto simp: compound_separator_def separator_node_def last_separator_def separator_of_def token_separator_def)

lemma finish_command: "command_separator (map_option (leaf G_SEPARATOR_OP) s) = Tree (s \<noteq> None, last_separator s)"
  if "case s of None \<Rightarrow> True | Some t \<Rightarrow> tok_type t \<in> {TOKEN_SEMI, TOKEN_AMPER}"
  using that by (cases s) (auto simp: command_separator_def last_separator_def separator_of_def token_separator_def)

lemma set_final: "length items = Suc (length seps) \<Longrightarrow>
    set_final_separator (s \<noteq> None, last_separator s) (items, seps @ [CMD_EXEC_END]) = Tree (items, seps @ [last_separator s])"
  by (cases s) (auto simp: set_final_separator_def last_separator_def list_update_append)

lemma tail_lengths: "length (ltail_asts f lt) = length (ltail_separators lt)"
  "map (g \<circ> fst) (ltail_trees lt) = map g (ltail_separators lt)"
  by (induction lt rule: ltail_induct) simp_all

lemma pipe_lowered:
  assumes "\<forall>\<^sub>F n in sequentially. lower_command (lower_compound_list n) (cmd_tree c) = Tree (cmd_ast f c)"
    "\<forall>\<^sub>F n in sequentially. lower_pipe_commands (lower_compound_list n) (ptail_trees pt) = Tree (ptail_asts f pt)"
  shows "\<forall>\<^sub>F n in sequentially. lower_element (lower_compound_list n) (pipe_tree (Pipe c pt)) = Tree (pipe_ast f (Pipe c pt))"
  using assms
proof eventually_elim
  case (elim n)
  then show ?case
    by (cases pt) (simp_all add: lower_element_def lower_pipeline_def lower_pipe_sequence_def)
qed

lemma everything_lowered:
  "cmd_ok c \<longrightarrow> (\<forall>\<^sub>F n in sequentially. lower_command (lower_compound_list n) (cmd_tree c) = Tree (cmd_ast code_separator c))"
  "pipe_ok p \<longrightarrow> (\<forall>\<^sub>F n in sequentially. lower_element (lower_compound_list n) (pipe_tree p) = Tree (pipe_ast code_separator p))"
  "ptail_ok pt \<longrightarrow>
    (\<forall>\<^sub>F n in sequentially. lower_pipe_commands (lower_compound_list n) (ptail_trees pt) = Tree (ptail_asts code_separator pt))"
  "ao_ok a \<longrightarrow> (\<forall>\<^sub>F n in sequentially. lower_element (lower_compound_list n) (ao_tree a) = Tree (ao_ast code_separator a))"
  "atail_ok at \<longrightarrow> (\<forall>left l. node_type left \<in> {G_AND_OR, G_PIPELINE} \<longrightarrow>
    (\<forall>\<^sub>F n in sequentially. lower_element (lower_compound_list n) left = Tree l) \<longrightarrow>
    (\<forall>\<^sub>F n in sequentially. lower_element (lower_compound_list n) (atail_tree at left) = Tree (atail_ast code_separator at l)))"
  "clist_ok cl \<longrightarrow> (\<forall>\<^sub>F n in sequentially. lower_compound_list n (clist_tree cl) = Tree (clist_ast code_separator cl))"
  "ltail_ok lt \<longrightarrow>
    (\<forall>\<^sub>F n in sequentially. map (\<lambda>x. lower_element (lower_compound_list n) (snd x)) (ltail_trees lt) = map Tree (ltail_asts code_separator lt))"
proof (induction c and p and pt and a and at and cl and lt)
  case (Simple w ws)
  then show ?case by (simp add: command_dispatch_def)
next
  case (Subshell l c r)
  show ?case
  proof
    assume "cmd_ok (Subshell l c r)"
    with Subshell have "\<forall>\<^sub>F n in sequentially. lower_compound_list n (clist_tree c) = Tree (clist_ast code_separator c)" by simp
    then show "\<forall>\<^sub>F n in sequentially. lower_command (lower_compound_list n) (cmd_tree (Subshell l c r)) = Tree (cmd_ast code_separator (Subshell l c r))"
      by eventually_elim (simp add: compound_dispatch_def lower_subshell_def)
  qed
next
  case (Loop w c d b e)
  show ?case
  proof
    assume ok: "cmd_ok (Loop w c d b e)"
    with Loop have "\<forall>\<^sub>F n in sequentially. lower_compound_list n (clist_tree c) = Tree (clist_ast code_separator c)"
      "\<forall>\<^sub>F n in sequentially. lower_compound_list n (clist_tree b) = Tree (clist_ast code_separator b)" by simp_all
    then show "\<forall>\<^sub>F n in sequentially. lower_command (lower_compound_list n) (cmd_tree (Loop w c d b e)) = Tree (cmd_ast code_separator (Loop w c d b e))"
      by eventually_elim
        (simp add: compound_dispatch_def lower_while_clause_def lower_until_clause_def loop_parts_def lower_do_group_def)
  qed
next
  case (If i c t b fi)
  show ?case
  proof
    assume ok: "cmd_ok (If i c t b fi)"
    with If have "\<forall>\<^sub>F n in sequentially. lower_compound_list n (clist_tree c) = Tree (clist_ast code_separator c)"
      "\<forall>\<^sub>F n in sequentially. lower_compound_list n (clist_tree b) = Tree (clist_ast code_separator b)" by simp_all
    then show "\<forall>\<^sub>F n in sequentially. lower_command (lower_compound_list n) (cmd_tree (If i c t b fi)) = Tree (cmd_ast code_separator (If i c t b fi))"
      by eventually_elim (simp add: compound_dispatch_def lower_if_clause_def ast_create_if_clause_def)
  qed
next
  case (Pipe c pt)
  then show ?case using pipe_lowered [of c code_separator pt] by simp
next
  case PEnd
  show ?case by simp
next
  case (PMore s c pt)
  show ?case
  proof
    assume ok: "ptail_ok (PMore s c pt)"
    with PMore have "\<forall>\<^sub>F n in sequentially. lower_command (lower_compound_list n) (cmd_tree c) = Tree (cmd_ast code_separator c)"
      "\<forall>\<^sub>F n in sequentially. lower_pipe_commands (lower_compound_list n) (ptail_trees pt) = Tree (ptail_asts code_separator pt)"
      by simp_all
    then show "\<forall>\<^sub>F n in sequentially. lower_pipe_commands (lower_compound_list n) (ptail_trees (PMore s c pt)) = Tree (ptail_asts code_separator (PMore s c pt))"
      by eventually_elim simp
  qed
next
  case (AndOr p a)
  then show ?case by simp
next
  case AEnd
  show ?case by simp
next
  case (AMore s p a)
  show ?case
  proof (intro impI allI)
    fix left l
    assume ok: "atail_ok (AMore s p a)" and ty: "node_type left \<in> {G_AND_OR, G_PIPELINE}"
      and left: "\<forall>\<^sub>F n in sequentially. lower_element (lower_compound_list n) left = Tree l"
    have "\<forall>\<^sub>F n in sequentially. lower_element (lower_compound_list n) (pipe_tree p) = Tree (pipe_ast code_separator p)"
      using AMore(1) ok by simp
    with left have "\<forall>\<^sub>F n in sequentially. lower_element (lower_compound_list n)
        (multi G_AND_OR [Some left, Some (leaf G_AND_OR s), Some (pipe_tree p)]) =
      Tree (AST_AND_OR_LIST l (pipe_ast code_separator p) (if tok_type s = TOKEN_AND_IF then ANDOR_OP_AND else ANDOR_OP_OR))"
      by eventually_elim (use ok ty in \<open>auto simp: lower_element_def multi_def g_node_def Let_def\<close>)
    with AMore(2) ok show "\<forall>\<^sub>F n in sequentially. lower_element (lower_compound_list n) (atail_tree (AMore s p a) left) =
        Tree (atail_ast code_separator (AMore s p a) l)"
      by simp
  qed
next
  case (CList a lt s)
  show ?case
  proof
    assume ok: "clist_ok (CList a lt s)"
    with CList have "\<forall>\<^sub>F n in sequentially. lower_element (lower_compound_list n) (ao_tree a) = Tree (ao_ast code_separator a)"
      "\<forall>\<^sub>F n in sequentially. map (\<lambda>x. lower_element (lower_compound_list n) (snd x)) (ltail_trees lt) = map Tree (ltail_asts code_separator lt)"
      by simp_all
    then have "\<forall>\<^sub>F n in sequentially. lower_compound_list (Suc n) (clist_tree (CList a lt s)) = Tree (clist_ast code_separator (CList a lt s))"
    proof eventually_elim
      case (elim n)
      have e: "lower_elements G_SEPARATOR code_sep (lower_compound_list n)
          (ao_tree a # concat (map (\<lambda>(s, x). [separator_node s, x]) (ltail_trees lt))) =
        Tree (ao_ast code_separator a # ltail_asts code_separator lt, map code_separator (ltail_separators lt) @ [CMD_EXEC_END])"
        if "code_sep = (\<lambda>_. Tree CMD_EXEC_SEQUENTIAL)" for code_sep
        using elements [OF elim, of separator_node G_SEPARATOR code_sep code_separator] that tail_lengths(2) [of code_separator lt]
        by (simp add: separator_node_def)
      show ?case
        using ok finish_list [of s] set_final [of "ao_ast code_separator a # ltail_asts code_separator lt" "map code_separator (ltail_separators lt)" s]
        by (simp add: lower_term_as_command_list_def e tail_lengths(1))
    qed
    then show "\<forall>\<^sub>F n in sequentially. lower_compound_list n (clist_tree (CList a lt s)) = Tree (clist_ast code_separator (CList a lt s))"
      by (rule eventually_sequentially_Suc [THEN iffD1])
  qed
next
  case LEnd
  show ?case by simp
next
  case (LMore s a lt)
  show ?case
  proof
    assume ok: "ltail_ok (LMore s a lt)"
    with LMore have "\<forall>\<^sub>F n in sequentially. lower_element (lower_compound_list n) (ao_tree a) = Tree (ao_ast code_separator a)"
      "\<forall>\<^sub>F n in sequentially. map (\<lambda>x. lower_element (lower_compound_list n) (snd x)) (ltail_trees lt) = map Tree (ltail_asts code_separator lt)"
      by simp_all
    then show "\<forall>\<^sub>F n in sequentially. map (\<lambda>x. lower_element (lower_compound_list n) (snd x)) (ltail_trees (LMore s a lt)) =
        map Tree (ltail_asts code_separator (LMore s a lt))"
      by eventually_elim simp
  qed
qed

subsection \<open>Programs\<close>

lemma not_list:
  "cmd_ast f c \<noteq> AST_COMMAND_LIST xs ys" "pipe_ast f p \<noteq> AST_COMMAND_LIST xs ys" "ao_ast f a \<noteq> AST_COMMAND_LIST xs ys"
proof -
  have c: "cmd_ast f c \<noteq> AST_COMMAND_LIST xs ys" for c xs ys by (cases c) auto
  have p: "pipe_ast f p \<noteq> AST_COMMAND_LIST xs ys" for p xs ys by (cases p) (auto simp: c)
  have at: "\<forall>l. (\<forall>xs ys. l \<noteq> AST_COMMAND_LIST xs ys) \<longrightarrow> (\<forall>xs ys. atail_ast f at l \<noteq> AST_COMMAND_LIST xs ys)" for at
    by (rule atail.induct [of "\<lambda>_. True" "\<lambda>_. True" "\<lambda>_. True" "\<lambda>_. True" _ "\<lambda>_. True" "\<lambda>_. True"]) auto
  show "cmd_ast f c \<noteq> AST_COMMAND_LIST xs ys" "pipe_ast f p \<noteq> AST_COMMAND_LIST xs ys" by (rule c, rule p)
  obtain q at where "a = AndOr q at" by (cases a)
  with at [of at] p [of q] show "ao_ast f a \<noteq> AST_COMMAND_LIST xs ys" by simp
qed

lemma all_separators: "map (\<lambda>j. if j < length seps then seps ! j else x) [0..<length seps] = seps"
  by (rule nth_equalityI) simp_all

lemma no_separators: "ltail_separators lt = [] \<longleftrightarrow> lt = LEnd"
  by (cases lt) simp_all

lemma complete_command_lowered:
  assumes "clist_ok c"
  shows "\<forall>\<^sub>F n in sequentially. lower_complete_command n (list_tree c) = Tree
    (if line_items code_separator c = [hd (line_items code_separator c)] \<and> line_separators c = [CMD_EXEC_END]
     then hd (line_items code_separator c) else AST_COMMAND_LIST (line_items code_separator c) (line_separators c))"
proof (cases c)
  case (CList a lt s)
  note ok = assms [unfolded CList]
  from ok have "\<forall>\<^sub>F n in sequentially. lower_element (lower_compound_list n) (ao_tree a) = Tree (ao_ast code_separator a)"
    "\<forall>\<^sub>F n in sequentially. map (\<lambda>x. lower_element (lower_compound_list n) (snd x)) (ltail_trees lt) = map Tree (ltail_asts code_separator lt)"
    using everything_lowered(4) [of a] everything_lowered(7) [of lt] by simp_all
  then show ?thesis
  proof eventually_elim
    case (elim n)
    have seps: "s \<in> set (ltail_separators lt) \<Longrightarrow> tok_type s \<in> {TOKEN_SEMI, TOKEN_AMPER}" for s
      using ok by (induction lt rule: ltail_induct) auto
    have "fst ` set (ltail_trees lt) = set (ltail_separators lt)"
      by (induction lt rule: ltail_induct) auto
    then have e: "lower_list (lower_compound_list n) (g_node G_LIST (D_List (ao_tree a #
          concat (map (\<lambda>(s, x). [leaf G_SEPARATOR_OP s, x]) (ltail_trees lt))))) =
        Tree (ao_ast code_separator a # ltail_asts code_separator lt, map separator_of (ltail_separators lt) @ [CMD_EXEC_END])"
      using elements [OF elim, of "leaf G_SEPARATOR_OP" G_SEPARATOR_OP separator_from_gseparator_op separator_of]
        tail_lengths(2) [of separator_of lt] seps
      by (auto simp: lower_list_def separator_from_gseparator_op_def separator_of_def)
    show ?case
      using ok finish_command [of s] set_final [of "ao_ast code_separator a # ltail_asts code_separator lt" "map separator_of (ltail_separators lt)" s]
      by (auto simp: CList lower_complete_command_def e tail_lengths(1) no_separators)
  qed
qed

lemma items_shape: "line_items f c \<noteq> []" "hd (line_items f c) \<noteq> AST_COMMAND_LIST xs ys"
  "length (line_items f c) = length (line_separators c)"
  by (cases c; simp add: not_list tail_lengths(1))+

lemma lines_lowered:
  assumes "list_all (clist_ok \<circ> fst) ls"
  shows "\<forall>\<^sub>F n in sequentially. lower_complete_command_list n (map (list_tree \<circ> fst) ls) =
    Tree (concat (map (line_items code_separator \<circ> fst) ls), concat (map (line_separators \<circ> fst) ls))"
  using assms
proof (induction ls)
  case (Cons l ls)
  let ?items = "line_items code_separator (fst l)" and ?seps = "line_separators (fst l)"
  have r: "command_items (if ?items = [hd ?items] \<and> ?seps = [CMD_EXEC_END] then hd ?items else AST_COMMAND_LIST ?items ?seps) =
      (?items, ?seps)"
  proof (cases "?items = [hd ?items] \<and> ?seps = [CMD_EXEC_END]")
    case True
    show ?thesis
    proof (cases "hd ?items")
      case (AST_COMMAND_LIST xs ys)
      then show ?thesis using items_shape(2) [of code_separator "fst l" xs ys] by simp
    qed (use True in \<open>simp_all add: command_items_def\<close>)
  next
    case False
    then show ?thesis using items_shape(3) [of code_separator "fst l"]
      by (simp only: if_False command_items_def ast.case all_separators)
  qed
  have "\<forall>\<^sub>F n in sequentially. lower_complete_command_list n (map (list_tree \<circ> fst) ls) =
      Tree (concat (map (line_items code_separator \<circ> fst) ls), concat (map (line_separators \<circ> fst) ls))"
    using Cons by (simp add: comp_def)
  moreover have "clist_ok (fst l)" using Cons.prems by simp
  note complete_command_lowered [OF this]
  ultimately show ?case
    by eventually_elim (simp add: r comp_def)
qed simp

theorem program_lowered:
  assumes "list_all (clist_ok \<circ> fst) ls"
  shows "ast_lower (program_tree ls) = Tree (program_ast code_separator ls)"
proof -
  let ?items = "\<lambda>l. line_items code_separator (fst l)" and ?seps = "\<lambda>l. line_separators (fst l)"
  have "\<forall>\<^sub>F n in sequentially. lower_complete_commands n (g_node G_COMPLETE_COMMANDS (D_List (map (list_tree \<circ> fst) ls))) =
      Tree (program_ast code_separator ls)"
  proof (cases "length ls = 1")
    case True
    then obtain l where l: "ls = [l]" by (auto simp: length_Suc_conv)
    have "clist_ok (fst l)" using assms l by simp
    note complete_command_lowered [OF this]
    then show ?thesis
    proof eventually_elim
      case (elim n)
      then show ?case using items_shape [of code_separator "fst l"]
        by (auto simp: l lower_complete_commands_def program_ast_def split: ast.split)
    qed
  next
    case False
    from lines_lowered [OF assms] show ?thesis
      by eventually_elim (use False in \<open>auto simp: lower_complete_commands_def program_ast_def split: list.split\<close>)
  qed
  then have "\<forall>\<^sub>F n in sequentially. lower_program n (program_tree ls) = Tree (program_ast code_separator ls)"
    by eventually_elim (simp add: lower_program_def program_tree_def)
  then obtain m where m: "\<And>n. m \<le> n \<Longrightarrow> lower_program n (program_tree ls) = Tree (program_ast code_separator ls)"
    by (auto simp: eventually_sequentially)
  have "same (lower_program (size (program_tree ls)) (program_tree ls)) (lower_program (max m (size (program_tree ls))) (program_tree ls))"
    by (rule same_program) simp_all
  with m [of "max m (size (program_tree ls))"] show ?thesis
    by (simp add: ast_lower_def same_def program_tree_def)
qed

end
