(* ===== verification/Lower_Total.thy ===== *)
theory Lower_Total
  imports
    Lower_Language
begin

section \<open>Every tree of the parser is lowered\<close>

text \<open>
  \<open>gives P m\<close>: a node that a parser function returns has the property \<open>P\<close>; here the property is
  that lowering it neither gives NULL nor violates a contract.  Two trees are left out by
  \<open>acceptable\<close>: those with a location token without a text, and those with the list of items that
  the parser builds when it tries a list again after an error.
\<close>

subsection \<open>Acceptable trees and fine results\<close>

definition located :: "token \<Rightarrow> bool" where
  "located t \<longleftrightarrow> (tok_type t = TOKEN_IO_LOCATION \<longrightarrow> tok_io_location t \<noteq> None)"

fun flat_cases :: "gnode \<Rightarrow> bool" and data_flat :: "gnode_data \<Rightarrow> bool" where
  \<comment> \<open>a list of items that ends without \<open>;;\<close> holds one item\<close>
  "flat_cases (Node ty k d) =
     ((case d of D_List xs \<Rightarrow> ty = G_CASE_LIST_NS \<longrightarrow> length xs = 1 | _ \<Rightarrow> True) \<and> data_flat d)"
| "data_flat D_Zero = True"
| "data_flat (D_List xs) = list_all flat_cases xs"
| "data_flat (D_Token t) = True"
| "data_flat (D_String s) = True"
| "data_flat (D_Child x) = flat_cases x"
| "data_flat (D_Pair a b) = (pred_option flat_cases a \<and> pred_option flat_cases b)"
| "data_flat (D_Multi a b c d) =
     (pred_option flat_cases a \<and> pred_option flat_cases b \<and> pred_option flat_cases c \<and> pred_option flat_cases d)"
| "data_flat (D_Io_Here opr here_end tok) = True"

definition acceptable :: "gnode \<Rightarrow> bool" where
  "acceptable g \<longleftrightarrow> flat_cases g \<and> (\<forall>t \<in># toks g. located t)"

lemma acceptable_list: "(\<forall>t \<in># all_toks xs. located t) \<longleftrightarrow> (\<forall>x \<in> set xs. \<forall>t \<in># toks x. located t)"
  by (induction xs) auto

lemma acceptable_node [simp]:
  "acceptable (g_node ty (D_List xs)) \<longleftrightarrow> (ty = G_CASE_LIST_NS \<longrightarrow> length xs = 1) \<and> list_all acceptable xs"
  "acceptable (g_node ty (D_Child x)) \<longleftrightarrow> acceptable x"
  "acceptable (g_node ty (D_Pair a b)) \<longleftrightarrow> pred_option acceptable a \<and> pred_option acceptable b"
  "acceptable (g_node ty (D_Multi a b c d)) \<longleftrightarrow>
     pred_option acceptable a \<and> pred_option acceptable b \<and> pred_option acceptable c \<and> pred_option acceptable d"
  "acceptable (leaf ty t) \<longleftrightarrow> located (token_clone t)"
  "acceptable (command_node x) \<longleftrightarrow> acceptable x"
  by (auto simp: acceptable_def g_node_def leaf_def command_node_def list_all_iff acceptable_list pred_option_def
      toks_of_def split: option.splits)

definition fine :: "'a lowered \<Rightarrow> bool" where
  "fine r \<longleftrightarrow> r \<noteq> Null \<and> r \<noteq> Violated"

lemma fine_simps [simp]: "fine (Tree x)" "fine Exhausted" "\<not> fine Null" "\<not> fine Violated"
  by (simp_all add: fine_def)

lemma fine_and_then [intro]: "fine m \<Longrightarrow> (\<And>x. m = Tree x \<Longrightarrow> fine (f x)) \<Longrightarrow> fine (and_then m f)"
  by (cases m) (auto simp: and_then_def)

lemma fine_expects: "fine (expects x f) \<longleftrightarrow> (\<exists>y. x = Some y \<and> fine (f y))"
  by (cases x) (auto simp: expects_def)

definition lowers :: "((gnode \<Rightarrow> ast lowered) \<Rightarrow> gnode \<Rightarrow> 'a lowered) \<Rightarrow> gnode_type \<Rightarrow> gnode \<Rightarrow> bool" where
  \<comment> \<open>a node of this type that is lowered whatever the bound\<close>
  "lowers f ty g \<longleftrightarrow> node_type g = ty \<and> (acceptable g \<longrightarrow> (\<forall>n. fine (f (lower_compound_list n) g)))"

abbreviation nested :: "gnode \<Rightarrow> bool" where
  "nested \<equiv> lowers (\<lambda>cl g. cl g) G_COMPOUND_LIST"

lemma lowersD: "lowers f ty g \<Longrightarrow> acceptable g \<Longrightarrow> fine (f (lower_compound_list n) g)" "lowers f ty g \<Longrightarrow> node_type g = ty"
  by (simp_all add: lowers_def)

subsection \<open>Results of the parser\<close>

definition gives :: "(gnode \<Rightarrow> bool) \<Rightarrow> parse_result \<Rightarrow> bool" where
  "gives P m \<longleftrightarrow> (\<forall>x q. m = Some (Some (Inr x, q)) \<longrightarrow> P x)"

definition gives_out :: "(gnode \<Rightarrow> bool) \<Rightarrow> parse_out \<Rightarrow> bool" where
  "gives_out P out \<longleftrightarrow> (\<forall>x q. out = (Inr x, q) \<longrightarrow> P x)"

lemma gives_simps [simp]: "gives P (parsed x p) \<longleftrightarrow> P x" "gives P (failed st p)" "gives P (error msg p)"
  "gives P None" "gives P (Some None)" "gives_out P (Inr x, p) \<longleftrightarrow> P x" "gives_out P (Inl st, p)"
  by (simp_all add: gives_def parsed_def failed_def error_def gives_out_def)

lemma gives_on_ok: "gives Q m \<Longrightarrow> (\<And>x p. Q x \<Longrightarrow> gives P (f x p)) \<Longrightarrow> gives P (on_ok m f)"
  by (fastforce simp: gives_def on_ok_def on_result_def failed_def split: option.splits sum.splits)

lemma gives_on_result: "gives Q m \<Longrightarrow> (\<And>x p. Q x \<Longrightarrow> gives P (f (Inr x) p)) \<Longrightarrow>
    (\<And>st p. gives P (f (Inl st) p)) \<Longrightarrow> gives P (on_result m f)"
  by (auto simp: gives_def on_result_def split: option.splits) (metis sum.exhaust)

lemma gives_if: "(b \<Longrightarrow> gives P x) \<Longrightarrow> (\<not> b \<Longrightarrow> gives P y) \<Longrightarrow> gives P (if b then x else y)"
  by simp

lemma gives_case: "gives_out Q out \<Longrightarrow> (\<And>st p. gives P (f st p)) \<Longrightarrow> (\<And>x p. Q x \<Longrightarrow> gives P (g x p)) \<Longrightarrow>
    gives P (case out of (Inl st, p) \<Rightarrow> f st p | (Inr x, p) \<Rightarrow> g x p)"
  by (auto simp: gives_out_def split: prod.splits sum.splits)

lemma gives_case': "gives_out Q out \<Longrightarrow> (\<And>st p. gives P (f st p)) \<Longrightarrow> (\<And>x p. Q x \<Longrightarrow> gives P (g x p)) \<Longrightarrow>
    gives P (case out of (Inr x, p) \<Rightarrow> g x p | (Inl st, p) \<Rightarrow> f st p)"
  by (auto simp: gives_out_def split: prod.splits sum.splits)

lemma take_is_leaf [simp]: "take_token ty p = (leaf ty (pr_tokens p ! pr_position p), parser_advance p)"
  by (simp add: take_token_def leaf_def)

lemma here_type: "parser_current_token_type p = ty \<Longrightarrow> ty \<noteq> TOKEN_EOF \<Longrightarrow> tok_type (pr_tokens p ! pr_position p) = ty"
  by (auto simp: parser_current_token_type_def parser_current_token_def split: if_splits)

lemma node_type_simps [simp]: "node_type (g_node ty d) = ty" "node_type (leaf ty t) = ty"
  by simp_all

subsection \<open>Redirections\<close>

lemma word_text_some: "tok_type t = TOKEN_WORD \<Longrightarrow> token_get_all_text (token_clone t) \<noteq> None"
  by (auto simp: token_get_all_text_def token_clone_def split: option.split)

lemma text_expects: "tok_type t = TOKEN_WORD \<Longrightarrow> (\<And>s. fine (f s)) \<Longrightarrow> fine (expects (token_get_all_text (token_clone t)) f)"
  using word_text_some [of t] by (auto simp: fine_expects)

definition redirect_target :: "gnode \<Rightarrow> bool" where
  "redirect_target g \<longleftrightarrow>
     node_type g = G_IO_FILE \<and> (\<forall>i s. fine (io_file_redirection g i s)) \<or>
     node_type g = G_IO_HERE \<and> (\<exists>k opr s t. g = Node G_IO_HERE k (D_Io_Here opr s t))"

lemma io_file_gives: "gives_out redirect_target (gparse_io_file p)"
proof -
  have "fine (io_file_redirection (multi G_IO_FILE [Some (leaf G_WORD_NODE t), Some (leaf G_FILENAME u)]) i s)"
    if "tok_type u = TOKEN_WORD" for t u i s
    using that by (auto simp: io_file_redirection_def map_redir_type_from_io_file_def determine_target_kind_def
        intro!: fine_and_then text_expects)
  then show ?thesis
    by (auto simp: gparse_io_file_def gparse_filename_def redirect_target_def dest!: here_type)
qed

lemma io_here_gives: "gives_out redirect_target (gparse_io_here p)"
  by (auto simp: gparse_io_here_def redirect_target_def Let_def g_node_def)

lemma prefix_fine: "io_prefix p = (a, b, q) \<Longrightarrow> pred_option acceptable b \<Longrightarrow> fine (redirection_prefix a b)"
  by (auto simp: io_prefix_def redirection_prefix_def located_def intro!: fine_and_then dest!: here_type split: if_splits)

definition redirect :: "gnode \<Rightarrow> bool" where
  "redirect g \<longleftrightarrow> (\<exists>a b t. g = multi G_IO_REDIRECT [a, b, Some t] \<and> redirect_target t \<and>
     (pred_option acceptable b \<longrightarrow> fine (redirection_prefix a b)))"

lemma redirect_lowered: "redirect g \<Longrightarrow> acceptable g \<Longrightarrow> fine (lower_io_redirect g)"
  by (auto simp: redirect_def lower_io_redirect_def redirect_target_def io_here_redirection_def Let_def intro!: fine_and_then)

lemma redirect_type: "redirect g \<Longrightarrow> node_type g = G_IO_REDIRECT"
  by (auto simp: redirect_def)

lemma io_redirect_gives: "gives_out redirect (gparse_io_redirect p)"
proof -
  obtain a b q where p: "io_prefix p = (a, b, q)" by (cases "io_prefix p") auto
  have "redirect (multi G_IO_REDIRECT [a, b, Some t])" if "redirect_target t" for t
    using that prefix_fine [OF p] by (auto simp: redirect_def simp del: multi_simps)
  moreover obtain f r where f: "gparse_io_file q = (f, r)" by force
  moreover obtain h s where h: "gparse_io_here r = (h, s)" by force
  ultimately show ?thesis
    using io_file_gives [of q] io_here_gives [of r]
    by (auto simp: gparse_io_redirect_def p f h gives_out_def split: sum.splits simp del: multi_simps)
qed

lemma io_redirect_node: "gparse_io_redirect p = (Inr x, q) \<Longrightarrow> redirect x"
  using io_redirect_gives [of p] by (simp add: gives_out_def)

lemma redirect_loop_gives: "redirect_loop list p = (xs, q) \<Longrightarrow> list_all redirect list \<Longrightarrow> list_all redirect xs"
proof (induction list p arbitrary: xs q rule: redirect_loop.induct)
  case (1 list p)
  from 1(2) [unfolded redirect_loop.simps [of list p]] 1(3) 1(1) show ?case
    by (auto simp: g_list_append_def dest: io_redirect_node split: prod.splits sum.splits)
qed

subsection \<open>Here-documents\<close>

lemma match_here_gives: "match_here x p = (Inr y, q) \<Longrightarrow> redirect_target x \<Longrightarrow> redirect_target y"
  by (cases x) (auto simp: match_here_def redirect_target_def split: gnode_data.splits option.splits prod.splits if_splits)

lemma match_redirect_gives:
  assumes "match_redirect x p = (Inr y, q)" "redirect x"
  shows "redirect y"
proof -
  obtain a b t where x: "x = multi G_IO_REDIRECT [a, b, Some t]" "redirect_target t"
    "pred_option acceptable b \<longrightarrow> fine (redirection_prefix a b)" using assms(2) unfolding redirect_def by blast
  then obtain u where "match_here t p = (Inr u, q)" "y = multi G_IO_REDIRECT [a, b, Some u]"
    using assms(1) by (auto simp: match_redirect_def g_node_def split: prod.splits sum.splits)
  with x match_here_gives [of t p u q] show ?thesis unfolding redirect_def by blast
qed

lemma match_other: "match_redirect (leaf ty t) p = (Inr (leaf ty t), p)"
  by (simp add: match_redirect_def leaf_def g_node_def)

definition or_leaf :: "gnode_type \<Rightarrow> gnode \<Rightarrow> bool" where
  "or_leaf ty g \<longleftrightarrow> redirect g \<or> (\<exists>t. g = leaf ty t)"

lemma match_or_leaf: "match_redirect x p = (Inr y, q) \<Longrightarrow> or_leaf ty x \<Longrightarrow> or_leaf ty y"
  by (auto simp: or_leaf_def match_other dest: match_redirect_gives)

lemma match_list_gives: "match_list xs p = (Inr ys, q) \<Longrightarrow> list_all (or_leaf ty) xs \<Longrightarrow> list_all (or_leaf ty) ys"
  by (induction xs arbitrary: p ys) (auto split: prod.splits sum.splits dest: match_or_leaf)

lemma match_list_redirects: "match_list xs p = (Inr ys, q) \<Longrightarrow> list_all redirect xs \<Longrightarrow> list_all redirect ys"
  by (induction xs arbitrary: p ys) (auto split: prod.splits sum.splits dest: match_redirect_gives)

definition redirect_list :: "gnode \<Rightarrow> bool" where
  "redirect_list g \<longleftrightarrow> (\<exists>xs. g = g_node G_REDIRECT_LIST (D_List xs) \<and> list_all redirect xs)"

lemma redirect_list_gives: "gives_out redirect_list (gparse_redirect_list p)"
  by (fastforce simp: gparse_redirect_list_def gives_out_def redirect_list_def split: prod.splits sum.splits
      dest: io_redirect_node redirect_loop_gives match_list_redirects)

lemma redirects_lowered: "list_all redirect xs \<Longrightarrow> list_all acceptable xs \<Longrightarrow> fine (lower_redirects xs)"
  by (induction xs) (auto intro!: fine_and_then redirect_lowered)

subsection \<open>Simple commands\<close>

definition simple_element :: "gnode \<Rightarrow> bool" where
  "simple_element g \<longleftrightarrow>
     (\<exists>c. g = g_node G_CMD_PREFIX (D_Child c) \<and> or_leaf G_ASSIGNMENT_WORD c) \<or> (\<exists>t. g = leaf G_CMD_NAME t) \<or>
     (\<exists>xs. g = g_node G_CMD_SUFFIX (D_List xs) \<and> list_all (or_leaf G_CMD_WORD) xs)"

lemma simple_elementI [intro]:
  "or_leaf G_ASSIGNMENT_WORD c \<Longrightarrow> simple_element (g_node G_CMD_PREFIX (D_Child c))"
  "simple_element (leaf G_CMD_NAME t)"
  "list_all (or_leaf G_CMD_WORD) xs \<Longrightarrow> simple_element (g_node G_CMD_SUFFIX (D_List xs))"
  by (auto simp: simple_element_def)

lemma or_leafI [intro]: "redirect x \<Longrightarrow> or_leaf ty x" "or_leaf ty (leaf ty t)"
  by (auto simp: or_leaf_def)

lemma prefix_loop_gives: "prefix_loop list p = (xs, q) \<Longrightarrow> list_all simple_element list \<Longrightarrow> list_all simple_element xs"
proof (induction list p arbitrary: xs q rule: prefix_loop.induct)
  case (1 list p)
  note run = 1(3) [unfolded prefix_loop.simps [of list p]]
  show ?case
  proof (cases "is_redirect_token (parser_current_token_type p)")
    case True
    obtain r q' where g: "gparse_io_redirect p = (r, q')" by force
    show ?thesis
    proof (cases r)
      case (Inr x)
      with g have "redirect x" using io_redirect_node by simp
      with 1(4) have "list_all simple_element (g_list_append list (g_node G_CMD_PREFIX (D_Child x)))" by (auto simp: g_list_append_def)
      with 1(1) [OF True g [symmetric] Inr] run True g Inr show ?thesis by simp
    qed (use run True g 1(4) in simp)
  next
    case False
    show ?thesis
    proof (cases "parser_current_token_type p = TOKEN_ASSIGNMENT_WORD")
      case True
      have "list_all simple_element (g_list_append list (g_node G_CMD_PREFIX (D_Child (fst (take_token G_ASSIGNMENT_WORD p)))))"
        using 1(4) by (auto simp: g_list_append_def)
      with 1(2) [OF False True] run False True show ?thesis by simp
    qed (use run False 1(4) in simp)
  qed
qed

lemma suffix_loop_gives: "suffix_loop list p = (xs, q) \<Longrightarrow> list_all (or_leaf G_CMD_WORD) list \<Longrightarrow> list_all (or_leaf G_CMD_WORD) xs"
proof (induction list p arbitrary: xs q rule: suffix_loop.induct)
  case (1 list p)
  note run = 1(3) [unfolded suffix_loop.simps [of list p]]
  show ?case
  proof (cases "is_redirect_token (parser_current_token_type p)")
    case True
    obtain r q' where g: "gparse_io_redirect p = (r, q')" by force
    show ?thesis
    proof (cases r)
      case (Inr x)
      with g have "redirect x" using io_redirect_node by simp
      with 1(4) have "list_all (or_leaf G_CMD_WORD) (g_list_append list x)" by (auto simp: g_list_append_def)
      with 1(1) [OF True g [symmetric] Inr] run True g Inr show ?thesis by simp
    qed (use run True g 1(4) in simp)
  next
    case False
    show ?thesis
    proof (cases "at_command_word p")
      case True
      have "list_all (or_leaf G_CMD_WORD) (g_list_append list (fst (take_token G_CMD_WORD p)))"
        using 1(4) by (auto simp: g_list_append_def)
      with 1(2) [OF False True] run False True show ?thesis by simp
    qed (use run False 1(4) in simp)
  qed
qed

lemma match_item_gives:
  assumes "match_item x p = (Inr y, q)" "simple_element x"
  shows "simple_element y"
  using assms(2) unfolding simple_element_def [of x]
proof (elim disjE exE conjE)
  fix c assume "x = g_node G_CMD_PREFIX (D_Child c)" "or_leaf G_ASSIGNMENT_WORD c"
  with assms(1) show ?thesis
    by (auto simp: match_item_def g_node_def simple_element_def split: prod.splits sum.splits dest: match_or_leaf)
next
  fix t assume "x = leaf G_CMD_NAME t"
  with assms show ?thesis by (simp add: match_item_def leaf_def g_node_def)
next
  fix xs assume "x = g_node G_CMD_SUFFIX (D_List xs)" "list_all (or_leaf G_CMD_WORD) xs"
  with assms(1) show ?thesis
    by (auto simp: match_item_def g_node_def simple_element_def split: prod.splits sum.splits dest: match_list_gives)
qed

lemma match_items_gives: "match_items xs p = (Inr ys, q) \<Longrightarrow> list_all simple_element xs \<Longrightarrow> list_all simple_element ys"
  by (induction xs arbitrary: p ys) (auto split: prod.splits sum.splits dest: match_item_gives)

lemma suffix_lowered: "list_all (or_leaf G_CMD_WORD) xs \<Longrightarrow> list_all acceptable xs \<Longrightarrow> fine (suffix_items xs s)"
  by (induction xs s rule: suffix_items.induct)
    (auto simp: or_leaf_def redirect_type intro!: fine_and_then redirect_lowered)

lemma simple_items_lowered: "list_all simple_element xs \<Longrightarrow> list_all acceptable xs \<Longrightarrow> fine (simple_items xs s)"
  by (induction xs arbitrary: s)
    (auto simp: simple_element_def or_leaf_def redirect_type simple_item_def intro!: fine_and_then redirect_lowered suffix_lowered
      split: prod.splits)

lemma simple_command_gives: "gives_out (lowers (\<lambda>cl. lower_simple_command) G_SIMPLE_COMMAND) (gparse_simple_command p)"
proof -
  have "lowers (\<lambda>cl. lower_simple_command) G_SIMPLE_COMMAND (g_node G_SIMPLE_COMMAND (D_List xs))"
    if "list_all simple_element xs" for xs
    using simple_items_lowered [OF that]
    by (auto simp: lowers_def lower_simple_command_def intro!: fine_and_then)
  note node = this
  obtain a q where a: "prefix_loop [] p = (a, q)" by force
  obtain b r where b: "(if at_command_word q then (g_list_append a (leaf G_CMD_NAME (pr_tokens q ! pr_position q)), parser_advance q)
      else (a, q)) = (b, r)" by force
  obtain c s where c: "suffix_loop [] r = (c, s)" by force
  let ?list = "if c \<noteq> [] then g_list_append b (g_node G_CMD_SUFFIX (D_List c)) else b"
  have "list_all simple_element b" "list_all (or_leaf G_CMD_WORD) c"
    using prefix_loop_gives [OF a] suffix_loop_gives [OF c] b by (auto simp: g_list_append_def split: if_splits)
  then have "list_all simple_element ?list" by (auto simp: g_list_append_def)
  then have "lowers (\<lambda>cl. lower_simple_command) G_SIMPLE_COMMAND (g_node G_SIMPLE_COMMAND (D_List ys))"
    if "match_heredocs_in_simple_command s ?list = (Inr ys, t)" for ys t
    using that node match_items_gives [of ?list s ys t] by (simp add: match_heredocs_in_simple_command_def)
  then show ?thesis
    unfolding gparse_simple_command_def a b c Let_def prod.case take_is_leaf
    by (auto simp: gives_out_def split: prod.splits sum.splits)
qed

subsection \<open>Lists of words\<close>

definition is_leaf :: "gnode_type \<Rightarrow> gnode \<Rightarrow> bool" where
  "is_leaf ty g \<longleftrightarrow> (\<exists>t. g = leaf ty t)"

lemma is_leaf_leaf [simp]: "is_leaf ty (leaf ty t)"
  by (auto simp: is_leaf_def)

lemma wordlist_loop_gives: "wordlist_loop list p = (xs, q) \<Longrightarrow> list_all (is_leaf G_WORD_NODE) list \<Longrightarrow>
    list_all (is_leaf G_WORD_NODE) xs"
proof (induction list p arbitrary: xs q rule: wordlist_loop.induct)
  case (1 list p)
  note run = 1(2) [unfolded wordlist_loop.simps [of list p]]
  show ?case
  proof (cases "parser_current_token_type p = TOKEN_WORD")
    case True
    from 1(1) [OF True] run True 1(3) show ?thesis by (simp add: g_list_append_def)
  qed (use run 1(3) in simp)
qed

lemma pattern_loop_gives: "pattern_loop list p = (Inr xs, q) \<Longrightarrow> list_all (is_leaf G_WORD_NODE) list \<Longrightarrow>
    list_all (is_leaf G_WORD_NODE) xs"
proof (induction list p arbitrary: xs q rule: pattern_loop.induct)
  case (1 list p)
  note run = 1(2) [unfolded pattern_loop.simps [of list p]]
  show ?case
  proof (cases "parser_current_token_type p = TOKEN_PIPE \<and> parser_current_token_type (parser_advance p) = TOKEN_WORD")
    case True
    then have pipe: "parser_current_token_type p = TOKEN_PIPE" by simp
    from 1(1) [OF pipe refl refl] run True 1(3) show ?thesis by (simp add: g_list_append_def Let_def)
  qed (use run 1(3) in \<open>auto simp: Let_def split: if_splits\<close>)
qed

lemma wordlist_fine: "list_all (is_leaf G_WORD_NODE) xs \<Longrightarrow> fine (wordlist_tokens xs)"
  by (induction xs) (auto simp: is_leaf_def intro!: fine_and_then)

lemma patterns_fine: "list_all (is_leaf G_WORD_NODE) xs \<Longrightarrow> fine (pattern_tokens xs)"
  by (induction xs) (auto simp: is_leaf_def intro!: fine_and_then)

definition in_node :: "gnode \<Rightarrow> bool" where
  "in_node g \<longleftrightarrow> fine (for_words (Some g))"

lemma in_clause_gives: "gives_out in_node (gparse_in_clause p)"
proof -
  have "in_node (Node G_IN_NODE GNODE_PAYLOAD_TOKEN (D_Token t))" for t
    by (simp add: in_node_def for_words_def)
  moreover have "in_node (Node G_IN_NODE GNODE_PAYLOAD_MULTI (D_Multi (Some x) (Some (g_node G_WORDLIST (D_List xs))) None None))"
    if "list_all (is_leaf G_WORD_NODE) xs" for x xs
    using wordlist_fine [OF that] by (simp add: in_node_def for_words_def multi_of_def token_list_from_wordlist_def)
  ultimately show ?thesis
    by (auto simp: gparse_in_clause_def gparse_wordlist_def gives_out_def Let_def dest!: wordlist_loop_gives
        split: prod.splits sum.splits if_splits)
qed

definition patterns :: "gnode \<Rightarrow> bool" where
  "patterns g \<longleftrightarrow> node_type g = G_PATTERN_LIST \<and> fine (token_list_from_pattern_list g)"

lemma pattern_list_gives: "gives_out patterns (gparse_pattern_list p)"
  by (auto simp: gparse_pattern_list_def gives_out_def patterns_def token_list_from_pattern_list_def
      dest!: pattern_loop_gives patterns_fine split: prod.splits sum.splits)

subsection \<open>Compound commands\<close>

definition cl_gives :: "(parser_t \<Rightarrow> parse_result) \<Rightarrow> bool" where
  "cl_gives cl \<longleftrightarrow> (\<forall>p. gives nested (cl p))"

lemma cl_givesD: "cl_gives cl \<Longrightarrow> gives nested (cl p)"
  by (simp add: cl_gives_def)

lemma lowersI: "node_type g = ty \<Longrightarrow> (\<And>n. acceptable g \<Longrightarrow> fine (f (lower_compound_list n) g)) \<Longrightarrow> lowers f ty g"
  by (simp add: lowers_def)

lemma do_group_gives:
  assumes "cl_gives cl"
  shows "gives (lowers lower_do_group G_DO_GROUP) (gparse_do_group cl p)"
proof -
  have "lowers lower_do_group G_DO_GROUP (multi G_DO_GROUP [a, Some x, b])" if "nested x" for x a b
    using that by (auto simp: lowers_def lower_do_group_def)
  then show ?thesis
    unfolding gparse_do_group_def Let_def take_is_leaf prod.case
    by (intro gives_if gives_on_ok [OF cl_givesD [OF assms]]) (simp_all del: multi_simps)
qed

lemma loop_fine: "nested c \<Longrightarrow> lowers lower_do_group G_DO_GROUP d \<Longrightarrow> acceptable c \<Longrightarrow> acceptable d \<Longrightarrow>
    fine (loop_parts (lower_compound_list n) f (multi ty [a, Some c, Some d]))"
  by (auto simp: loop_parts_def dest!: lowersD(1) intro!: fine_and_then)

lemma while_gives:
  assumes "cl_gives cl"
  shows "gives (lowers lower_while_clause G_WHILE_CLAUSE) (gparse_while_clause cl p)"
proof -
  have "lowers lower_while_clause G_WHILE_CLAUSE (multi G_WHILE_CLAUSE [a, Some c, Some d])"
    if "nested c" "lowers lower_do_group G_DO_GROUP d" for a c d
    using loop_fine [OF that] by (intro lowersI) (simp_all add: lower_while_clause_def)
  then show ?thesis
    unfolding gparse_while_clause_def Let_def take_is_leaf prod.case
    by (intro gives_if gives_on_ok [OF cl_givesD [OF assms]] gives_on_ok [OF do_group_gives [OF assms]]) (simp_all del: multi_simps)
qed

lemma until_gives:
  assumes "cl_gives cl"
  shows "gives (lowers lower_until_clause G_UNTIL_CLAUSE) (gparse_until_clause cl p)"
proof -
  have "lowers lower_until_clause G_UNTIL_CLAUSE (multi G_UNTIL_CLAUSE [a, Some c, Some d])"
    if "nested c" "lowers lower_do_group G_DO_GROUP d" for a c d
    using loop_fine [OF that] by (intro lowersI) (simp_all add: lower_until_clause_def)
  then show ?thesis
    unfolding gparse_until_clause_def Let_def take_is_leaf prod.case
    by (intro gives_if gives_on_ok [OF cl_givesD [OF assms]] gives_on_ok [OF do_group_gives [OF assms]]) (simp_all del: multi_simps)
qed

lemma subshell_gives:
  assumes "cl_gives cl"
  shows "gives (lowers lower_subshell G_SUBSHELL) (gparse_subshell cl p)"
proof -
  have "lowers lower_subshell G_SUBSHELL (multi G_SUBSHELL [a, Some c, b])" if "nested c" for a b c
    using that by (auto simp: lowers_def lower_subshell_def intro!: fine_and_then)
  then show ?thesis
    unfolding gparse_subshell_def Let_def take_is_leaf prod.case
    by (intro gives_if gives_on_ok [OF cl_givesD [OF assms]]) (simp_all del: multi_simps)
qed

lemma brace_group_gives:
  assumes "cl_gives cl"
  shows "gives (lowers lower_brace_group G_BRACE_GROUP) (gparse_brace_group cl p)"
proof -
  have "lowers lower_brace_group G_BRACE_GROUP (multi G_BRACE_GROUP [a, c, b])" if "pred_option nested c" for a b c
    using that by (cases c) (auto simp: lowers_def lower_brace_group_def intro!: fine_and_then)
  then show ?thesis
    unfolding gparse_brace_group_def Let_def take_is_leaf prod.case
    by (auto split: option.split simp: node_of_def simp del: multi_simps
        intro!: gives_on_result [OF cl_givesD [OF assms]])
qed

lemma for_gives:
  assumes "cl_gives cl"
  shows "gives (lowers lower_for_clause G_FOR_CLAUSE) (gparse_for_clause cl p)"
proof -
  have "lowers lower_for_clause G_FOR_CLAUSE (multi G_FOR_CLAUSE [a, Some (leaf G_NAME_NODE t), i, Some d])"
    if "tok_type t = TOKEN_WORD" "pred_option in_node i" "lowers lower_do_group G_DO_GROUP d" for a t i d
  proof -
    have "fine (for_words i)" using that(2) by (cases i) (simp_all add: in_node_def, simp add: for_words_def)
    with that(1,3) show ?thesis
      by (auto simp: lowers_def lower_for_clause_def intro!: fine_and_then text_expects)
  qed
  note node = this
  obtain c r where c: "gparse_in_clause (parser_advance (parser_advance p)) = (c, r)" by force
  then have "pred_option in_node (node_of c)"
    using in_clause_gives [of "parser_advance (parser_advance p)"] by (cases c) (auto simp: node_of_def gives_out_def)
  note node = node [OF _ this]
  show ?thesis
    unfolding gparse_for_clause_def Let_def take_is_leaf prod.case c
    by (intro gives_if gives_on_ok [OF do_group_gives [OF assms]]) (auto simp del: multi_simps dest: here_type intro!: node)
qed

subsection \<open>Conditionals\<close>

lemma lower_else:
  "lower_else_part cl (g_node G_ELSE_PART (D_Multi (Some b) None None d)) = cl b"
  "lower_else_part cl (g_node G_ELSE_PART (D_Multi (Some c) (Some t) None d)) =
     and_then (cl c) (\<lambda>cond. and_then (cl t) (\<lambda>then_body. Tree (ast_create_if_clause cond then_body)))"
  "lower_else_part cl (g_node G_ELSE_PART (D_Multi (Some c) (Some t) (Some e) d)) =
     and_then (cl c) (\<lambda>cond. and_then (cl t) (\<lambda>then_body. and_then (lower_else_part cl e) (\<lambda>tail.
       Tree (AST_IF_CLAUSE cond then_body None (Some tail)))))"
  by (simp_all add: g_node_def)

lemma else_part_gives:
  assumes "cl_gives cl"
  shows "gives (lowers lower_else_part G_ELSE_PART) (gparse_else_part n cl p)"
proof (induction n arbitrary: p)
  case (Suc n)
  have body: "lowers lower_else_part G_ELSE_PART (multi G_ELSE_PART [Some b])" if "nested b" for b
    using that by (auto simp: lowers_def lower_else)
  have elif: "lowers lower_else_part G_ELSE_PART (multi G_ELSE_PART [Some c, Some t, e])"
    if "nested c" "nested t" "pred_option (lowers lower_else_part G_ELSE_PART) e" for c t e
    using that by (cases e) (auto simp: lowers_def lower_else intro!: fine_and_then)
  show ?case
    unfolding gparse_else_part.simps Let_def
    by (auto split: prod.split simp: node_of_def simp del: multi_simps
        intro!: body elif gives_on_ok [OF cl_givesD [OF assms]] gives_on_result [OF Suc.IH])
qed simp

lemma if_gives:
  assumes "cl_gives cl"
  shows "gives (lowers lower_if_clause G_IF_CLAUSE) (gparse_if_clause n cl p)"
proof -
  have node: "lowers lower_if_clause G_IF_CLAUSE (multi G_IF_CLAUSE [Some (multi G_IF_CLAUSE [i, Some c, t, Some b]), e, f])"
    if "nested c" "nested b" "pred_option (lowers lower_else_part G_ELSE_PART) e" for i c t b e f
    using that by (cases e) (auto simp: lowers_def lower_if_clause_def intro!: fine_and_then)
  show ?thesis
    unfolding gparse_if_clause_def Let_def take_is_leaf prod.case
    by (auto simp: node_of_def simp del: multi_simps
        intro!: node gives_on_ok [OF cl_givesD [OF assms]] gives_on_result [OF else_part_gives [OF assms]])
qed

subsection \<open>Case\<close>

lemma case_patterns_gives:
  assumes "\<And>l x r q. patterns x \<Longrightarrow> gives P (f l x r q)"
  shows "gives P (case_patterns p f)"
proof -
  obtain l q where l: "take_lparen p = (l, q)" by force
  obtain r s where r: "gparse_pattern_list q = (r, s)" by force
  with pattern_list_gives [of q] show ?thesis
    unfolding case_patterns_def l Let_def prod.case r
    by (cases r) (auto simp: gives_out_def intro!: assms)
qed

lemma body_fine: "pred_option nested b \<Longrightarrow> pred_option acceptable b \<Longrightarrow>
    fine (case b of None \<Rightarrow> Tree None
      | Some b \<Rightarrow> if node_type b = G_COMPOUND_LIST then and_then (lower_compound_list n b) (\<lambda>body. Tree (Some body)) else Tree None)"
  by (cases b) (auto simp: lowers_def intro!: fine_and_then)

lemma ns_body_fine: "pred_option nested b \<Longrightarrow> pred_option acceptable b \<Longrightarrow>
    fine (case b of None \<Rightarrow> Tree None
      | Some b \<Rightarrow> (case lower_compound_list n b of Null \<Rightarrow> Tree None | r \<Rightarrow> and_then r (\<lambda>body. Tree (Some body))))"
proof (cases b)
  case (Some x)
  moreover assume "pred_option nested b" "pred_option acceptable b"
  ultimately have "fine (lower_compound_list n x)" by (simp add: lowers_def)
  with Some show ?thesis by (cases "lower_compound_list n x") (auto simp: and_then_def)
qed simp

lemma case_item_gives:
  assumes "cl_gives cl"
  shows "gives (lowers lower_case_item G_CASE_ITEM) (gparse_case_item cl p)"
proof -
  have "lowers lower_case_item G_CASE_ITEM
      (multi G_CASE_ITEM [Some (multi G_CASE_ITEM [l, Some x, Some r, b]), Some (leaf G_WORD_NODE t)])"
    if "patterns x" "pred_option nested b" for l x r b t
    using that body_fine [OF that(2)]
    by (auto simp: lowers_def lower_case_item_def patterns_def item_action_def intro!: fine_and_then)
  then show ?thesis
    unfolding gparse_case_item_def Let_def take_is_leaf prod.case
    by (intro case_patterns_gives gives_on_result [OF cl_givesD [OF assms]]) (auto simp: node_of_def simp del: multi_simps)
qed

lemma case_item_ns_gives:
  assumes "cl_gives cl"
  shows "gives (lowers lower_case_item_ns G_CASE_ITEM_NS) (gparse_case_item_ns cl p)"
proof -
  have "lowers lower_case_item_ns G_CASE_ITEM_NS (multi G_CASE_ITEM_NS [l, Some x, Some r, b])"
    if "patterns x" "pred_option nested b" for l x r b
    using that ns_body_fine [OF that(2)]
    by (auto simp: lowers_def lower_case_item_ns_def patterns_def intro!: fine_and_then)
  then show ?thesis
    unfolding gparse_case_item_ns_def
    by (intro case_patterns_gives gives_on_result [OF cl_givesD [OF assms]]) (auto simp: node_of_def simp del: multi_simps)
qed

definition item_list :: "gnode \<Rightarrow> bool" where
  "item_list g \<longleftrightarrow> (\<exists>xs. g = g_node G_CASE_LIST (D_List xs) \<and> list_all (lowers lower_case_item G_CASE_ITEM) xs)"

lemma case_list_loop_gives:
  assumes "cl_gives cl"
  shows "list_all (lowers lower_case_item G_CASE_ITEM) list \<Longrightarrow> gives item_list (case_list_loop n cl list p)"
proof (induction n arbitrary: list p)
  case (Suc n)
  have "item_list (g_node G_CASE_LIST (D_List list))" using Suc.prems unfolding item_list_def by blast
  moreover have "gives item_list (case_list_loop n cl (g_list_append list x) q)"
    if "lowers lower_case_item G_CASE_ITEM x" for x q
    using Suc that by (simp add: g_list_append_def)
  ultimately show ?case
    unfolding case_list_loop.simps
    by (auto intro!: gives_on_result [OF case_item_gives [OF assms]])
qed simp

lemma case_list_gives:
  assumes "cl_gives cl"
  shows "gives item_list (gparse_case_list n cl p)"
  unfolding gparse_case_list_def
  by (intro gives_on_ok [OF case_item_gives [OF assms]] case_list_loop_gives [OF assms]) simp

definition items_lowered :: "gnode \<Rightarrow> bool" where
  "items_lowered g \<longleftrightarrow> node_type g \<in> {G_CASE_LIST, G_CASE_LIST_NS} \<and>
     (acceptable g \<longrightarrow> (\<exists>xs. list_of g = Some xs \<and> (\<forall>n. fine (lower_case_items (lower_compound_list n) xs))))"

lemma case_items_fine: "list_all (lowers lower_case_item G_CASE_ITEM) xs \<Longrightarrow> list_all acceptable xs \<Longrightarrow>
    fine (lower_case_items (lower_compound_list n) xs)"
  by (induction xs) (auto simp: lowers_def intro!: fine_and_then)

lemma item_list_lowered: "item_list g \<Longrightarrow> items_lowered g"
  by (auto simp: item_list_def items_lowered_def case_items_fine)

lemma case_list_ns_gives:
  assumes "cl_gives cl"
  shows "gives items_lowered (gparse_case_list_ns n cl p)"
proof -
  have "items_lowered (g_node G_CASE_LIST_NS (D_List (l @ [x])))" if "lowers lower_case_item_ns G_CASE_ITEM_NS x" for l x
    using that by (cases l) (auto simp: items_lowered_def lowers_def intro!: fine_and_then)
  from this [of _ "[]"] this [of _ "[_]"] show ?thesis
    unfolding gparse_case_list_ns_def Let_def
    by (auto simp: g_list_append_def intro!: gives_on_result [OF case_list_gives [OF assms]] gives_on_ok [OF case_item_ns_gives [OF assms]])
qed

lemma case_gives:
  assumes "cl_gives cl"
  shows "gives (lowers lower_case_clause G_CASE_CLAUSE) (gparse_case_clause n cl p)"
proof -
  let ?node = "\<lambda>a t b c. multi G_CASE_CLAUSE [Some (leaf G_WORD_NODE a), Some (leaf G_WORD_NODE t), b, c]"
  have one: "lowers lower_case_clause G_CASE_CLAUSE (?node a t b c)" for a t b c
    by (simp add: lowers_def lower_case_clause_def case_parts_def)
  have two: "lowers lower_case_clause G_CASE_CLAUSE (multi G_CASE_CLAUSE [Some (?node a t b c), Some l])"
    if "items_lowered l" for a t b c l
    using that by (auto simp: items_lowered_def lowers_def lower_case_clause_def case_parts_def intro!: fine_and_then)
  have list: "gives items_lowered (gparse_case_list m cl q)" for m q
    using case_list_gives [OF assms, of m q] item_list_lowered by (auto simp: gives_def)
  have again: "gives items_lowered (case r of Inl _ \<Rightarrow> gparse_case_list_ns n cl q | Inr list \<Rightarrow> parsed list q)"
    if "\<And>x. r = Inr x \<Longrightarrow> items_lowered x" for r q
    using that case_list_ns_gives [OF assms, of n q] by (cases r) auto
  show ?thesis
    unfolding gparse_case_clause_def Let_def take_is_leaf prod.case
    by (auto simp del: multi_simps intro!: one two gives_on_result [OF list] gives_on_result [OF again])
qed

subsection \<open>Commands\<close>

abbreviation is_compound :: "gnode \<Rightarrow> bool" where
  "is_compound \<equiv> lowers lower_compound_command G_COMPOUND_COMMAND"

abbreviation is_command :: "gnode \<Rightarrow> bool" where
  "is_command \<equiv> lowers lower_command G_COMMAND"

lemma compound_child: "lower_compound_command cl (g_node G_COMPOUND_COMMAND (D_Child x)) = lower_compound_command cl x"
  by (simp add: g_node_def)

lemma wrap_compound: "lowers f ty x \<Longrightarrow> ty \<noteq> G_COMPOUND_COMMAND \<Longrightarrow> (\<And>cl. compound_dispatch cl x = f cl x) \<Longrightarrow>
    is_compound (g_node G_COMPOUND_COMMAND (D_Child x))"
  by (cases x) (auto simp: lowers_def compound_child)

lemma wrap_dispatch:
  assumes "lowers f ty x" "(ty, f) \<in> {(G_SUBSHELL, lower_subshell), (G_BRACE_GROUP, lower_brace_group), (G_FOR_CLAUSE, lower_for_clause),
    (G_CASE_CLAUSE, lower_case_clause), (G_IF_CLAUSE, lower_if_clause), (G_WHILE_CLAUSE, lower_while_clause),
    (G_UNTIL_CLAUSE, lower_until_clause)}"
  shows "is_compound (g_node G_COMPOUND_COMMAND (D_Child x))"
  by (rule wrap_compound [OF assms(1)]) (use assms in \<open>auto simp: compound_dispatch_def lowers_def\<close>)

lemma compound_gives:
  assumes "cl_gives cl"
  shows "gives is_compound (gparse_compound_command n cl p)"
  unfolding gparse_compound_command_def Let_def
  by (auto intro!: gives_on_ok [OF brace_group_gives [OF assms]] gives_on_ok [OF subshell_gives [OF assms]]
      gives_on_ok [OF for_gives [OF assms]] gives_on_ok [OF case_gives [OF assms]] gives_on_ok [OF if_gives [OF assms]]
      gives_on_ok [OF while_gives [OF assms]] gives_on_ok [OF until_gives [OF assms]] intro: wrap_dispatch)

lemma function_node:
  assumes "tok_type t = TOKEN_WORD" "is_compound c"
  shows "lowers lower_function_definition G_FUNCTION_DEFINITION (multi G_FUNCTION_DEFINITION [Some (leaf G_FNAME t), a, b, Some c])"
    "redirect_list r \<Longrightarrow> lowers lower_function_definition G_FUNCTION_DEFINITION
      (multi G_FUNCTION_DEFINITION [Some (leaf G_FNAME t), a, b, Some (multi G_FUNCTION_BODY [Some c, Some r])])"
  using assms
  by (auto simp: lowers_def lower_function_definition_def redirect_list_def redirects_lowered intro!: fine_and_then text_expects)

lemma function_gives:
  assumes "cl_gives cl"
  shows "gives (lowers lower_function_definition G_FUNCTION_DEFINITION) (gparse_function_definition n cl p)"
proof -
  have body: "gives (lowers lower_function_definition G_FUNCTION_DEFINITION)
      (function_body n cl [leaf G_FNAME t, leaf G_WORD_NODE u, leaf G_WORD_NODE v] q)" if "tok_type t = TOKEN_WORD" for t u v q
    unfolding function_body_def
  proof (intro gives_if gives_on_result [OF compound_gives [OF assms]])
    fix c r
    assume c: "is_compound c"
    obtain o' s where o: "gparse_redirect_list r = (o', s)" by force
    with redirect_list_gives [of r] function_node [OF that c]
    show "gives (lowers lower_function_definition G_FUNCTION_DEFINITION)
        (case Inr c of Inl status \<Rightarrow> failed status (if status = PARSE_ERROR then parser_set_error function_error r else r)
         | Inr compound \<Rightarrow> (case gparse_redirect_list r of
             (Inr redirects, p) \<Rightarrow> parsed (multi G_FUNCTION_DEFINITION
               (map Some [leaf G_FNAME t, leaf G_WORD_NODE u, leaf G_WORD_NODE v] @
                [Some (multi G_FUNCTION_BODY [Some compound, Some redirects])])) p
           | (Inl _, p) \<Rightarrow> parsed (multi G_FUNCTION_DEFINITION
               (map Some [leaf G_FNAME t, leaf G_WORD_NODE u, leaf G_WORD_NODE v] @ [Some compound])) p))"
      by (cases o') (auto simp: gives_out_def simp del: multi_simps)
  qed simp_all
  then show ?thesis
    unfolding gparse_function_definition_def Let_def take_is_leaf prod.case
    by (auto split: option.split dest: here_type intro!: body)
qed

lemma wrap_command: "lowers f ty x \<Longrightarrow> ty \<noteq> G_COMMAND \<Longrightarrow> (\<And>cl. command_dispatch cl x = f cl x) \<Longrightarrow> is_command (command_node x)"
  by (auto simp: lowers_def)

lemma command_gives:
  assumes "cl_gives cl"
  shows "gives is_command (gparse_command n cl p)"
proof -
  have func: "is_command (command_node x)" if "lowers lower_function_definition G_FUNCTION_DEFINITION x" for x
    by (rule wrap_command [OF that]) (use that in \<open>auto simp: command_dispatch_def lowers_def\<close>)
  have comp: "is_command (command_node x)" if "is_compound x" for x
    by (rule wrap_command [OF that]) (use that in \<open>auto simp: command_dispatch_def lowers_def\<close>)
  have simple: "is_command (command_node x)" if "lowers (\<lambda>cl. lower_simple_command) G_SIMPLE_COMMAND x" for x
    by (rule wrap_command [OF that]) (use that in \<open>auto simp: command_dispatch_def lowers_def\<close>)
  have redirects: "is_command (command_node (Node G_COMMAND GNODE_PAYLOAD_MULTI (D_Multi (Some x) (Some r) None None)))"
    if "is_compound x" for x r
  proof -
    have "acceptable (Node G_COMMAND GNODE_PAYLOAD_MULTI (D_Multi (Some x) (Some r) None None)) \<Longrightarrow> acceptable x"
      by (simp add: acceptable_def)
    moreover have "lower_command cl (command_node (Node G_COMMAND GNODE_PAYLOAD_MULTI (D_Multi (Some x) (Some r) None None))) =
        lower_compound_command cl x" for cl
      using that by (auto simp: command_node_def command_dispatch_def lowers_def)
    ultimately show ?thesis using that by (auto simp: lowers_def)
  qed
  have "gives is_command (compound_with_redirects x q)" if "is_compound x" for x q
    using that comp [OF that] redirects [OF that] by (auto simp: compound_with_redirects_def split: prod.split sum.split)
  moreover have "gives is_command (case gparse_simple_command q of (Inr simple, p) \<Rightarrow> parsed (command_node simple) p
      | (Inl status, p) \<Rightarrow> failed status p)" for q
    using simple_command_gives [of q] simple by (auto simp: gives_out_def split: prod.split sum.split)
  ultimately show ?thesis
    unfolding gparse_command_def
    by (intro gives_on_result [OF function_gives [OF assms]]) (auto intro!: func gives_on_result [OF compound_gives [OF assms]])
qed

subsection \<open>Pipelines and and-or lists\<close>

definition pipe_list :: "gnode list \<Rightarrow> bool" where
  "pipe_list list \<longleftrightarrow> (\<exists>x xs. list = x # xs \<and> is_command x \<and> list_all (\<lambda>y. is_command y \<or> is_leaf G_WORD_NODE y) xs)"

definition pipe_seq :: "gnode \<Rightarrow> bool" where
  "pipe_seq g \<longleftrightarrow> (\<exists>list. g = g_node G_PIPE_SEQUENCE (D_List list) \<and> pipe_list list)"

lemma pipe_loop_gives:
  assumes "cl_gives cl"
  shows "pipe_list list \<Longrightarrow> gives pipe_seq (pipe_loop n cl list p)"
proof (induction n arbitrary: list p)
  case (Suc n)
  have "pipe_seq (g_node G_PIPE_SEQUENCE (D_List list))" using Suc.prems unfolding pipe_seq_def by blast
  moreover have "gives pipe_seq (pipe_loop n cl (g_list_append (g_list_append list (leaf G_WORD_NODE t)) x) q)"
    if "is_command x" for x t q
  proof -
    have "pipe_list (g_list_append (g_list_append list (leaf G_WORD_NODE t)) x)"
      using Suc.prems that by (auto simp: pipe_list_def g_list_append_def)
    then show ?thesis by (rule Suc.IH)
  qed
  ultimately show ?case
    unfolding pipe_loop.simps Let_def take_is_leaf prod.case
    by (auto intro!: gives_on_ok [OF command_gives [OF assms]])
qed simp

lemma pipe_sequence_gives:
  assumes "cl_gives cl"
  shows "gives pipe_seq (gparse_pipe_sequence n cl p)"
  unfolding gparse_pipe_sequence_def
  by (intro gives_on_ok [OF command_gives [OF assms]] pipe_loop_gives [OF assms]) (simp add: pipe_list_def)

lemma pipe_commands_fine: "list_all (\<lambda>y. is_command y \<or> is_leaf G_WORD_NODE y) xs \<Longrightarrow> list_all acceptable xs \<Longrightarrow>
    fine (lower_pipe_commands (lower_compound_list n) xs)"
  by (induction xs) (auto simp: lowers_def is_leaf_def intro!: fine_and_then)

lemma pipe_seq_fine: "pipe_seq g \<Longrightarrow> acceptable g \<Longrightarrow> fine (lower_pipe_sequence (lower_compound_list n) b g)"
proof -
  have some: "lower_pipe_commands cl (x # xs) = Tree cmds \<Longrightarrow> node_type x = G_COMMAND \<Longrightarrow> cmds \<noteq> []" for cl x xs cmds
    by (auto simp: and_then_def split: lowered.splits)
  assume "pipe_seq g" "acceptable g"
  then obtain x xs where g: "g = g_node G_PIPE_SEQUENCE (D_List (x # xs))" "is_command x"
      "list_all (\<lambda>y. is_command y \<or> is_leaf G_WORD_NODE y) (x # xs)" "list_all acceptable (x # xs)"
    by (auto simp: pipe_seq_def pipe_list_def)
  have "fine (case cmds of [] \<Rightarrow> Null | only # others \<Rightarrow> if others = [] \<and> \<not> b then Tree only else Tree (AST_PIPELINE cmds b))"
    if "lower_pipe_commands (lower_compound_list n) (x # xs) = Tree cmds" for cmds
    using some [OF that] lowersD(2) [OF g(2)] by (auto split: list.split)
  then show ?thesis
    unfolding lower_pipe_sequence_def using pipe_commands_fine [OF g(3,4), of n]
    by (simp del: lower_pipe_commands.simps add: g(1) fine_and_then)
qed

abbreviation is_pipeline :: "gnode \<Rightarrow> bool" where
  "is_pipeline \<equiv> lowers lower_pipeline G_PIPELINE"

lemma pipeline_gives:
  assumes "cl_gives cl"
  shows "gives is_pipeline (gparse_pipeline n cl p)"
proof -
  have ty: "pipe_seq x \<Longrightarrow> node_type x = G_PIPE_SEQUENCE" for x by (auto simp: pipe_seq_def)
  have "is_pipeline (g_node G_PIPELINE (D_List [x]))" if "pipe_seq x" for x
    using pipe_seq_fine [OF that] ty [OF that] by (auto simp: lowers_def lower_pipeline_def)
  moreover have "is_pipeline (g_node G_PIPELINE (D_List [leaf G_WORD_NODE t, x]))"
    if "pipe_seq x" "tok_type t = TOKEN_BANG" for x t
    using pipe_seq_fine [OF that(1)] ty [OF that(1)] that(2) by (auto simp: lowers_def lower_pipeline_def)
  ultimately show ?thesis
    unfolding gparse_pipeline_def Let_def take_is_leaf prod.case
    by (auto simp: g_list_append_def dest: here_type intro!: gives_on_ok [OF pipe_sequence_gives [OF assms]])
qed

definition list_element :: "gnode \<Rightarrow> bool" where
  "list_element g \<longleftrightarrow> is_pipeline g \<or> lowers lower_and_or G_AND_OR g"

lemma element_fine: "list_element g \<Longrightarrow> acceptable g \<Longrightarrow> fine (lower_element (lower_compound_list n) g)"
  by (auto simp: list_element_def lowers_def lower_element_def)

lemma and_or_loop_gives:
  assumes "cl_gives cl"
  shows "list_element left \<Longrightarrow> gives list_element (and_or_loop n cl left p)"
proof (induction n arbitrary: left p)
  case (Suc n)
  have "list_element (multi G_AND_OR [Some left, Some (leaf G_AND_OR t), Some r])"
    if "is_pipeline r" "tok_type t = TOKEN_AND_IF \<or> tok_type t = TOKEN_OR_IF" for r t
  proof -
    have eval: "lower_and_or cl (g_node G_AND_OR (D_Multi (Some left) (Some (leaf G_AND_OR t)) (Some r) None)) =
      and_then (lower_element cl left) (\<lambda>l. and_then (lower_element cl r) (\<lambda>r.
        Tree (AST_AND_OR_LIST l r (if tok_type t = TOKEN_AND_IF then ANDOR_OP_AND else ANDOR_OP_OR))))" for cl
      using that by (auto simp: g_node_def lower_element_def lowers_def)
    have r: "list_element r" using that by (simp add: list_element_def)
    have "lowers lower_and_or G_AND_OR (multi G_AND_OR [Some left, Some (leaf G_AND_OR t), Some r])"
      by (rule lowersI) (simp, auto simp: eval intro!: fine_and_then element_fine [OF Suc.prems] element_fine [OF r])
    then show ?thesis by (simp add: list_element_def)
  qed
  moreover have "gives list_element (and_or_loop n cl x q)" if "list_element x" for x q by (rule Suc.IH) (fact that)
  ultimately show ?case
    unfolding and_or_loop.simps Let_def take_is_leaf prod.case using Suc.prems
    by (auto dest: here_type simp del: multi_simps intro!: gives_on_result [OF pipeline_gives [OF assms]])
qed simp

lemma and_or_gives:
  assumes "cl_gives cl"
  shows "gives list_element (gparse_and_or n cl p)"
  unfolding gparse_and_or_def
  by (intro gives_on_ok [OF pipeline_gives [OF assms]] and_or_loop_gives [OF assms]) (simp add: list_element_def)

subsection \<open>Lists\<close>

fun alternates :: "(gnode \<Rightarrow> bool) \<Rightarrow> gnode list \<Rightarrow> bool" where
  \<comment> \<open>elements with separators between them\<close>
  "alternates S [] = False"
| "alternates S [x] = list_element x"
| "alternates S (x # s # xs) = (list_element x \<and> S s \<and> alternates S xs)"

lemma alternates_more: "alternates S xs \<Longrightarrow> S s \<Longrightarrow> list_element y \<Longrightarrow> alternates S (xs @ [s, y])"
  by (induction S xs rule: alternates.induct) auto

lemma term_loop_gives:
  assumes "cl_gives cl" "\<And>p. gives_out S (separator p)"
  shows "alternates S list \<Longrightarrow> gives (\<lambda>g. \<exists>xs. g = g_node ty (D_List xs) \<and> alternates S xs) (term_loop n separator ty cl list p)"
proof (induction n arbitrary: list p)
  case (Suc n)
  obtain r q where r: "separator p = (r, q)" by force
  have more: "gives (\<lambda>g. \<exists>xs. g = g_node ty (D_List xs) \<and> alternates S xs)
      (term_loop n separator ty cl (g_list_append (g_list_append list s) x) q')" if "S s" "list_element x" for s x q'
    using Suc alternates_more [OF Suc.prems that] by (simp add: g_list_append_def)
  show ?case
  proof (cases r)
    case (Inr s)
    then have "S s" using assms(2) [of p] r by (simp add: gives_out_def)
    with Suc.prems show ?thesis
      by (auto simp: r Inr Let_def intro!: gives_on_result [OF and_or_gives [OF assms(1)]] more)
  qed (use Suc.prems in \<open>auto simp: r\<close>)
qed simp

lemma elements_fine:
  "(\<And>s. S s \<Longrightarrow> acceptable s \<Longrightarrow> node_type s = ty \<and> fine (sep_of s)) \<Longrightarrow> alternates S xs \<Longrightarrow> list_all acceptable xs \<Longrightarrow>
    fine (lower_elements ty sep_of (lower_compound_list n) xs)"
proof (induction S xs rule: alternates.induct)
  case (3 S x s xs)
  then have "node_type s = ty" "fine (sep_of s)" by simp_all
  with 3 show ?case by (auto intro!: fine_and_then element_fine)
qed (auto intro!: fine_and_then element_fine)

lemma elements_lengths: "lower_elements ty sep_of cl xs = Tree (items, seps) \<Longrightarrow>
    length items = length seps \<and> (items = [] \<longleftrightarrow> xs = [])"
  by (induction ty sep_of cl xs arbitrary: items seps rule: lower_elements.induct)
    (auto simp: and_then_def split: lowered.splits if_splits)

lemma final_fine: "length items = length seps \<Longrightarrow> items \<noteq> [] \<Longrightarrow> fine (set_final_separator fin (items, seps))"
  by (cases fin) (auto simp: set_final_separator_def)

definition separator_op :: "gnode \<Rightarrow> bool" where
  "separator_op g \<longleftrightarrow> (\<exists>t. g = leaf G_SEPARATOR_OP t \<and> tok_type t \<in> {TOKEN_AMPER, TOKEN_SEMI})"

definition separator :: "gnode \<Rightarrow> bool" where
  "separator g \<longleftrightarrow> (\<exists>x. g = g_node G_SEPARATOR (D_Child x) \<and> (separator_op x \<or> node_type x = G_NEWLINE_LIST))"

lemma separator_op_gives: "gives_out separator_op (gparse_separator_op p)"
  by (auto simp: gparse_separator_op_def separator_op_def gives_out_def dest: here_type split: if_splits)

lemma separator_gives: "gives_out separator (gparse_separator p)"
  by (auto simp: gparse_separator_def separator_def separator_op_def gives_out_def dest: here_type split: if_splits prod.splits)

lemma separators_fine: "separator_op g \<Longrightarrow> fine (token_separator g)" "separator_op g \<Longrightarrow> fine (separator_from_gseparator_op g)"
  "pred_option separator s \<Longrightarrow> fine (compound_separator s)" "pred_option separator_op o' \<Longrightarrow> fine (command_separator o')"
proof -
  have t: "separator_op g \<Longrightarrow> fine (token_separator g)" for g by (auto simp: separator_op_def token_separator_def)
  then show "separator_op g \<Longrightarrow> fine (token_separator g)" .
  show "separator_op g \<Longrightarrow> fine (separator_from_gseparator_op g)"
    by (auto simp: separator_op_def separator_from_gseparator_op_def)
  show "pred_option separator s \<Longrightarrow> fine (compound_separator s)"
    by (cases s) (auto simp: separator_def compound_separator_def t, auto simp: separator_op_def)
  show "pred_option separator_op o' \<Longrightarrow> fine (command_separator o')"
    by (cases o') (auto simp: command_separator_def t, auto simp: separator_op_def)
qed

lemma compound_list_fine:
  assumes "alternates separator xs" "pred_option separator s"
  shows "nested (g_node G_COMPOUND_LIST (D_Pair (Some (g_node G_TERM (D_List xs))) s))"
proof (rule lowersI)
  fix n
  assume acc: "acceptable (g_node G_COMPOUND_LIST (D_Pair (Some (g_node G_TERM (D_List xs))) s))"
  show "fine (lower_compound_list n (g_node G_COMPOUND_LIST (D_Pair (Some (g_node G_TERM (D_List xs))) s)))"
  proof (cases n)
    case (Suc m)
    let ?l = "lower_elements G_SEPARATOR (\<lambda>_. Tree CMD_EXEC_SEQUENTIAL) (lower_compound_list m) xs"
    have "fine ?l"
      by (rule elements_fine [OF _ assms(1)]) (use acc in \<open>auto simp: separator_def\<close>)
    moreover have "fine (and_then (compound_separator s) (\<lambda>fin. and_then (set_final_separator fin (items, seps))
        (\<lambda>(items, separators). Tree (AST_COMMAND_LIST items separators))))" if "?l = Tree (items, seps)" for items seps
      using elements_lengths [OF that] assms separators_fine(3) by (auto intro!: fine_and_then final_fine)
    ultimately show ?thesis
      by (cases ?l) (auto simp: Suc lower_term_as_command_list_def)
  qed simp
qed simp

lemma compound_list_gives: "cl_gives (gparse_compound_list n)"
proof (induction n)
  case (Suc n)
  have "gives nested (gparse_compound_list (Suc n) p)" for p
    unfolding gparse_compound_list.simps gparse_term_def
  proof (intro gives_on_ok [OF gives_on_ok [OF and_or_gives [OF Suc.IH] term_loop_gives [OF Suc.IH separator_gives]]])
    fix g q
    assume "\<exists>xs. g = g_node G_TERM (D_List xs) \<and> alternates separator xs"
    then obtain xs where g: "g = g_node G_TERM (D_List xs)" "alternates separator xs" by blast
    obtain r q' where r: "gparse_separator q = (r, q')" by force
    show "gives nested (case gparse_separator q of
         (Inr sep, p) \<Rightarrow> parsed (g_node G_COMPOUND_LIST (D_Pair (Some g) (Some sep))) p
       | (Inl _, p) \<Rightarrow> parsed (g_node G_COMPOUND_LIST (D_Pair (Some g) None)) p)"
      using separator_gives [of q] by (cases r) (auto simp: r gives_out_def g intro!: compound_list_fine)
  qed simp
  then show ?case by (simp add: cl_gives_def)
qed (simp add: cl_gives_def)

subsection \<open>Programs\<close>

definition complete :: "gnode \<Rightarrow> bool" where
  "complete g \<longleftrightarrow> node_type g = G_COMPLETE_COMMAND \<and> (acceptable g \<longrightarrow> (\<forall>n. fine (lower_complete_command n g)))"

lemma complete_command_fine:
  assumes "alternates separator_op xs" "pred_option separator_op s"
  shows "complete (multi G_COMPLETE_COMMAND [Some (g_node G_LIST (D_List xs)), s])"
proof -
  have "fine (lower_complete_command n (multi G_COMPLETE_COMMAND [Some (g_node G_LIST (D_List xs)), s]))"
    if acc: "list_all acceptable xs" for n
  proof -
    let ?l = "lower_elements G_SEPARATOR_OP separator_from_gseparator_op (lower_compound_list n) xs"
    have "fine ?l"
      by (rule elements_fine [OF _ assms(1) acc]) (auto simp: separators_fine(2), auto simp: separator_op_def)
    moreover have "fine (set_final_separator fin (items, seps))" if "?l = Tree (items, seps)" for fin items seps
      using elements_lengths [OF that] assms(1) by (auto intro!: final_fine)
    ultimately show ?thesis
      using separators_fine(4) [OF assms(2)] by (auto simp: lower_complete_command_def lower_list_def intro!: fine_and_then)
  qed
  then show ?thesis by (simp add: complete_def)
qed

lemma complete_command_gives: "gives complete (gparse_complete_command n p)"
  unfolding gparse_complete_command_def gparse_list_def
proof (intro gives_on_ok [OF gives_on_ok [OF and_or_gives [OF compound_list_gives]
      term_loop_gives [OF compound_list_gives separator_op_gives]]])
  fix g q
  assume "\<exists>xs. g = g_node G_LIST (D_List xs) \<and> alternates separator_op xs"
  then obtain xs where g: "g = g_node G_LIST (D_List xs)" "alternates separator_op xs" by blast
  obtain r q' where r: "gparse_separator_op q = (r, q')" by force
  have "pred_option separator_op (node_of r)"
    using separator_op_gives [of q] by (cases r) (auto simp: r node_of_def gives_out_def)
  then show "gives complete (case gparse_separator_op q of
      (sep, p) \<Rightarrow> parsed (multi G_COMPLETE_COMMAND [Some g, node_of sep]) p)"
    using complete_command_fine [OF g(2)] by (simp add: r g(1) del: multi_simps)
qed simp

definition commands :: "gnode \<Rightarrow> bool" where
  "commands g \<longleftrightarrow> (\<exists>xs. g = g_node G_COMPLETE_COMMANDS (D_List xs) \<and> xs \<noteq> [] \<and> list_all complete xs)"

lemma complete_commands_loop_gives: "list_all complete list \<Longrightarrow> list \<noteq> [] \<Longrightarrow> gives commands (complete_commands_loop m n list p)"
proof (induction m arbitrary: list p)
  case (Suc m)
  have "commands (g_node G_COMPLETE_COMMANDS (D_List list))" using Suc.prems unfolding commands_def by blast
  moreover have "gives commands (complete_commands_loop m n (g_list_append list x) q)" if "complete x" for x q
    using Suc that by (simp add: g_list_append_def)
  ultimately show ?case
    unfolding complete_commands_loop.simps by (auto intro!: gives_on_result [OF complete_command_gives])
qed simp

lemma commands_fine: "commands g \<Longrightarrow> acceptable g \<Longrightarrow> fine (lower_complete_commands n g)"
proof -
  have "list_all complete xs \<Longrightarrow> list_all acceptable xs \<Longrightarrow> fine (lower_complete_command_list n xs)" for xs
    by (induction xs) (auto simp: complete_def intro!: fine_and_then)
  then show "commands g \<Longrightarrow> acceptable g \<Longrightarrow> fine (lower_complete_commands n g)"
    by (auto simp: commands_def lower_complete_commands_def complete_def intro!: fine_and_then split: list.split)
qed

definition program :: "gnode \<Rightarrow> bool" where
  "program g \<longleftrightarrow> g = Node G_PROGRAM GNODE_PAYLOAD_NONE D_Zero \<or> (\<exists>c. g = g_node G_PROGRAM (D_Child c) \<and> commands c)"

lemma program_gives: "gives program (parser_parse_program p)"
proof -
  have "gives commands (gparse_complete_commands n q)" for n q
    unfolding gparse_complete_commands_def
    by (auto intro!: gives_on_ok [OF complete_command_gives] complete_commands_loop_gives)
  then have "gives program (gparse_program n q)" for n q
    unfolding gparse_program_def by (auto intro!: gives_on_result simp: program_def)
  then show ?thesis unfolding parser_parse_program_def Let_def by auto
qed

lemma never_exhausted: "ast_lower g \<noteq> Exhausted"
  using same_program [of g "size g" "size g"] by (auto simp: ast_lower_def same_def)

theorem parsed_program_lowered:
  assumes "parser_parse_program p = Some (Some (Inr root, q))" "acceptable root"
  shows "(if root = Node G_PROGRAM GNODE_PAYLOAD_NONE D_Zero then ast_lower root = Null else \<exists>a. ast_lower root = Tree a)"
proof -
  have "program root" using program_gives [of p] assms(1) by (simp add: gives_def)
  then consider "root = Node G_PROGRAM GNODE_PAYLOAD_NONE D_Zero"
    | c where "root = g_node G_PROGRAM (D_Child c)" "commands c" unfolding program_def by blast
  then show ?thesis
  proof cases
    case 1
    then show ?thesis by (simp add: ast_lower_def lower_program_def child_of_def)
  next
    case 2
    then have "fine (ast_lower root)"
      using assms(2) commands_fine [of c] by (simp add: ast_lower_def lower_program_def)
    with 2 never_exhausted [of root] show ?thesis by (cases "ast_lower root") (auto simp: g_node_def)
  qed
qed

end
