(* ===== verification/Lower_Props.thy ===== *)
theory Lower_Props
  imports
    Lower_Total Parser_Props
begin

section \<open>Properties of the lowering\<close>

subsection \<open>What is written and what is executed\<close>

primrec cmd_foreground :: "cmd \<Rightarrow> bool" and pipe_foreground :: "pipe \<Rightarrow> bool" and ptail_foreground :: "ptail \<Rightarrow> bool"
  and ao_foreground :: "ao \<Rightarrow> bool" and atail_foreground :: "atail \<Rightarrow> bool" and clist_foreground :: "clist \<Rightarrow> bool"
  and ltail_foreground :: "ltail \<Rightarrow> bool" where
  \<comment> \<open>no \<open>&\<close> between the commands of a nested list\<close>
  "cmd_foreground (Simple w ws) = True"
| "cmd_foreground (Subshell l c r) = clist_foreground c"
| "cmd_foreground (Loop w c d b e) = (clist_foreground c \<and> clist_foreground b)"
| "cmd_foreground (If i c t b fi) = (clist_foreground c \<and> clist_foreground b)"
| "pipe_foreground (Pipe c pt) = (cmd_foreground c \<and> ptail_foreground pt)"
| "ptail_foreground PEnd = True"
| "ptail_foreground (PMore s c pt) = (cmd_foreground c \<and> ptail_foreground pt)"
| "ao_foreground (AndOr p a) = (pipe_foreground p \<and> atail_foreground a)"
| "atail_foreground AEnd = True"
| "atail_foreground (AMore s p a) = (pipe_foreground p \<and> atail_foreground a)"
| "clist_foreground (CList a lt s) =
     (ao_foreground a \<and> ltail_foreground lt \<and> list_all (\<lambda>t. tok_type t \<noteq> TOKEN_AMPER) (ltail_separators lt))"
| "ltail_foreground LEnd = True"
| "ltail_foreground (LMore s a lt) = (ao_foreground a \<and> ltail_foreground lt)"

primrec line_foreground :: "clist \<Rightarrow> bool" where
  "line_foreground (CList a lt s) = (ao_foreground a \<and> ltail_foreground lt)"

lemma foreground_means:
  "cmd_foreground c \<longrightarrow> cmd_ast code_separator c = cmd_ast separator_of c"
  "pipe_foreground p \<longrightarrow> pipe_ast code_separator p = pipe_ast separator_of p"
  "ptail_foreground pt \<longrightarrow> ptail_asts code_separator pt = ptail_asts separator_of pt"
  "ao_foreground a \<longrightarrow> ao_ast code_separator a = ao_ast separator_of a"
  "atail_foreground at \<longrightarrow> atail_ast code_separator at = atail_ast separator_of at"
  "clist_foreground cl \<longrightarrow> clist_ast code_separator cl = clist_ast separator_of cl"
  "ltail_foreground lt \<longrightarrow> ltail_asts code_separator lt = ltail_asts separator_of lt"
  by (induction c and p and pt and a and at and cl and lt) (auto simp: separator_of_def list_all_iff)

lemma line_items_foreground: "line_foreground c \<Longrightarrow> line_items code_separator c = line_items separator_of c"
  by (cases c) (simp add: foreground_means)

lemma program_foreground:
  "list_all (line_foreground \<circ> fst) ls \<Longrightarrow> program_ast code_separator ls = program_ast separator_of ls"
  by (induction ls) (simp_all add: program_ast_def line_items_foreground)

lemma lines_parsed_and_lowered:
  assumes "list_all line_ok ls" "ls \<noteq> []"
  obtains q where "parser_parse_program (parser_create_with_tokens_move (concat (map line_tokens ls))) =
    Some (Some (Inr (program_tree ls), q))" "ast_lower (program_tree ls) = Tree (program_ast code_separator ls)"
proof -
  have "list_all (clist_ok \<circ> fst) ls" using assms(1) by (auto simp: list_all_iff line_ok_def)
  then show ?thesis using that program_parses [OF assms] program_lowered by (auto simp: parsed_def)
qed

text \<open>C3: The executor is given what was written.  Lines of the language are parsed and lowered to the list
  of their commands: every word of every command, the operators of the and-or lists with the left
  operand first, the pipelines in their order, the bodies of subshells, loops and conditionals, and
  after each command of a line the separator that follows it.  Inside compound commands the lists
  must not have \<open>&\<close> between two commands.\<close>

theorem program_means_what_is_written:
  assumes "list_all line_ok ls" "ls \<noteq> []" "list_all (line_foreground \<circ> fst) ls"
  shows "\<exists>tree q. parser_parse_program (parser_create_with_tokens_move (concat (map line_tokens ls))) =
      Some (Some (Inr tree, q)) \<and> ast_lower tree = Tree (program_ast separator_of ls)"
  using lines_parsed_and_lowered [OF assms(1,2)] program_foreground [OF assms(3)] by metis

theorem program_means_what_is_written_witness:
  "\<exists>tree q. parser_parse_program (parser_create_with_tokens_move (line_tokens and_line)) = Some (Some (Inr tree, q)) \<and>
    ast_lower tree = Tree (AST_COMMAND_LIST
      [AST_AND_OR_LIST (AST_SIMPLE_COMMAND [word ''a''] [] []) (AST_SIMPLE_COMMAND [word ''b''] [] []) ANDOR_OP_AND]
      [CMD_EXEC_END])"
proof -
  have "token_clone (word s) = word s" for s
    by (simp add: token_clone_def plain_token_def token_create_def part_create_literal_def part_clone_def blank_part_def)
  then show ?thesis
    using program_means_what_is_written [of "[and_line]"] and_line_ok
    by (simp add: and_line_def program_ast_def last_separator_def)
qed

subsection \<open>For every tree\<close>

text \<open>Lowering returns on every tree, whatever its nodes, and the bound is only that of the model.\<close>

theorem lowering_returns:
  "ast_lower g \<noteq> Exhausted \<and> (node_type g = G_PROGRAM \<longrightarrow> ast_lower g = lower_program (size g + k) g)"
  using never_exhausted [of g] same_program [of g "size g" "size g + k"]
  by (simp add: ast_lower_def same_def)

theorem lowering_returns_witness:
  "ast_lower (program_tree [and_line]) = lower_program (size (program_tree [and_line]) + 5) (program_tree [and_line])"
  using lowering_returns [of "program_tree [and_line]" 5] by (simp add: program_tree_def)

lemma promoted_located: "promoted a b \<Longrightarrow> located a \<Longrightarrow> located b"
  by (auto simp: promoted_def located_def reserved_words_def)

lemma cloned_located: "located (token_clone t) = located t"
  by (simp add: located_def token_clone_def)

lemma parsed_tokens_located:
  assumes "parser_parse_program p = Some (Some (Inr root, q))" "\<forall>t \<in> set (pr_tokens p). located t"
  shows "\<forall>t \<in># toks root. located t"
proof -
  let ?s = "parser_clear_error (p\<lparr>pr_position := 0\<rparr>)"
  have ran: "ran ?s (toks root) q"
    using well_parsed_parser_parse_program [of p] assms(1) by (simp add: well_parsed_def node_of_def)
  then have "list_all2 promoted (pr_tokens p) (pr_tokens q)"
    by (simp add: ran_def parser_clear_error_def)
  then have q: "\<forall>t \<in> set (pr_tokens q). located t"
    using assms(2) promoted_located by (fastforce simp: list_all2_conv_all_nth in_set_conv_nth)
  have "toks root \<subseteq># image_mset token_clone (mset (between ?s q))" using ran by (simp add: ran_def)
  then have "t \<in> token_clone ` set (between ?s q)" if "t \<in># toks root" for t
    using mset_subset_eqD [OF _ that] by fastforce
  moreover have "set (between ?s q) \<subseteq> set (pr_tokens q)"
    by (auto simp: between_def dest: in_set_takeD in_set_dropD)
  ultimately show ?thesis using q cloned_located by fastforce
qed

text \<open>C10: Every program that the parser accepts is lowered: of the tree of a program with a command lowering
  gives a tree, without dereferencing a missing node, reading another member of the union or giving
  up; of the empty program it gives nothing.  The tokens of locations must have their text, as the
  lexer makes them, and no list of case items may hold what was read before an error.\<close>

theorem parsed_program_is_lowered:
  assumes "parser_parse_program p = Some (Some (Inr root, q))"
    and "\<forall>t \<in> set (pr_tokens p). located t" "flat_cases root"
  shows "if root = Node G_PROGRAM GNODE_PAYLOAD_NONE D_Zero then ast_lower root = Null else \<exists>a. ast_lower root = Tree a"
  using parsed_program_lowered [OF assms(1)] parsed_tokens_located [OF assms(1,2)] assms(3)
  by (simp add: acceptable_def)

theorem parsed_program_is_lowered_witness:
  "\<exists>a. ast_lower (program_tree [and_line]) = Tree a"
proof -
  obtain q where run: "parser_parse_program (parser_create_with_tokens_move (line_tokens and_line)) =
      Some (Some (Inr (program_tree [and_line]), q))" by (rule and_line_parses)
  have "\<forall>t \<in> set (pr_tokens (parser_create_with_tokens_move (line_tokens and_line))). located t"
    by (simp add: parser_create_with_tokens_move_def line_tokens_def and_line_def located_def)
  moreover have "flat_cases (program_tree [and_line])"
    by (simp add: program_tree_def and_line_def g_node_def leaf_def simple_tree_def command_node_def multi_def)
  ultimately show ?thesis
    using parsed_program_is_lowered [OF run] by (simp add: program_tree_def g_node_def)
qed

subsection \<open>What is lost\<close>

abbreviation command_line :: "cmd \<Rightarrow> token \<Rightarrow> line" where
  "command_line c nl \<equiv> (CList (AndOr (Pipe c PEnd) AEnd) LEnd None, nl)"

text \<open>C37: Inside a compound command \<open>&\<close> between two commands means \<open>;\<close>: of \<open>( a & b )\<close> the executor is given two
  commands to be run one after the other.\<close>

theorem background_in_list_lost:
  assumes "line_ok (command_line (Subshell l (CList a (LMore s b lt) e) r) nl)" "tok_type s = TOKEN_AMPER"
  shows "\<exists>tree q xs seps. parser_parse_program (parser_create_with_tokens_move
      (line_tokens (command_line (Subshell l (CList a (LMore s b lt) e) r) nl))) = Some (Some (Inr tree, q)) \<and>
    ast_lower tree = Tree (AST_COMMAND_LIST [AST_SUBSHELL (AST_COMMAND_LIST
      (ao_ast code_separator a # ao_ast code_separator b # xs) (CMD_EXEC_SEQUENTIAL # seps))] [CMD_EXEC_END])"
  using lines_parsed_and_lowered [of "[command_line (Subshell l (CList a (LMore s b lt) e) r) nl]"] assms(1)
  by (fastforce simp: program_ast_def last_separator_def)

theorem background_in_list_lost_witness:
  "\<exists>tree q xs seps. parser_parse_program (parser_create_with_tokens_move [sign TOKEN_LPAREN, word ''a'', sign TOKEN_AMPER,
      word ''b'', sign TOKEN_RPAREN, sign TOKEN_NEWLINE]) = Some (Some (Inr tree, q)) \<and>
    ast_lower tree = Tree (AST_COMMAND_LIST [AST_SUBSHELL (AST_COMMAND_LIST
      (ao_ast code_separator (AndOr (Pipe (Simple (word ''a'') []) PEnd) AEnd) #
       ao_ast code_separator (AndOr (Pipe (Simple (word ''b'') []) PEnd) AEnd) # xs) (CMD_EXEC_SEQUENTIAL # seps))] [CMD_EXEC_END])"
  using background_in_list_lost [of "sign TOKEN_LPAREN" "AndOr (Pipe (Simple (word ''a'') []) PEnd) AEnd" "sign TOKEN_AMPER"
      "AndOr (Pipe (Simple (word ''b'') []) PEnd) AEnd" LEnd None "sign TOKEN_RPAREN" "sign TOKEN_NEWLINE"]
  by (simp add: line_ok_def line_tokens_def)

lemma redirect_of_file:
  assumes "at_tokens p (g # w # t # ts)" "is_file_operator (tok_type g)" "tok_type w = TOKEN_WORD" "tok_type t = TOKEN_NEWLINE"
  obtains x where "gparse_redirect_list p = (Inr x, parser_advance (parser_advance p))"
proof -
  note hg = at_here [OF assms(1)]
  note hw = at_here [OF hg(3)]
  note ht = at_here [OF hw(3)]
  define f where "f = multi G_IO_FILE [Some (leaf G_WORD_NODE g), Some (leaf G_FILENAME w)]"
  define x where "x = multi G_IO_REDIRECT [None, None, Some f]"
  have g: "tok_type g \<noteq> TOKEN_IO_NUMBER" "tok_type g \<noteq> TOKEN_IO_LOCATION"
    using assms(2) by (auto simp: is_file_operator_def)
  have first: "gparse_io_redirect p = (Inr x, parser_advance (parser_advance p))"
    using g hg(1,2) hw(1,2) assms(2,3)
    by (simp add: gparse_io_redirect_def io_prefix_def gparse_io_file_def gparse_filename_def take_leaf [OF assms(1)]
        take_leaf [OF hg(3)] x_def f_def)
  have "fst (gparse_io_redirect (parser_advance (parser_advance p))) = Inl PARSE_ERROR"
    using ht(1) assms(4)
    by (simp add: gparse_io_redirect_def io_prefix_def gparse_io_file_def gparse_io_here_def is_file_operator_def)
  then obtain u where "gparse_io_redirect (parser_advance (parser_advance p)) = (Inl PARSE_ERROR, u)"
    by (cases "gparse_io_redirect (parser_advance (parser_advance p))") simp
  moreover have "u = parser_advance (parser_advance p)"
    using ht(1) assms(4) calculation
    by (simp add: gparse_io_redirect_def io_prefix_def gparse_io_file_def gparse_io_here_def is_file_operator_def)
  ultimately have loop: "redirect_loop [x] (parser_advance (parser_advance p)) = ([x], parser_advance (parser_advance p))"
    by (simp add: redirect_loop.simps)
  have "match_list [x] q = (Inr [x], q)" for q
    by (simp add: x_def f_def multi_def g_node_def match_redirect_def match_here_def)
  then show ?thesis using that first loop by (simp add: gparse_redirect_list_def)
qed

lemma redirected_lowered [simp]:
  "lower_command cl (command_node (Node G_COMMAND GNODE_PAYLOAD_MULTI (D_Multi (Some (g_node G_COMPOUND_COMMAND d)) x y z))) =
   lower_command cl (command_node (g_node G_COMPOUND_COMMAND d))"
  by (simp add: command_node_def g_node_def)

lemma one_command_lowered:
  assumes "\<forall>\<^sub>F n in sequentially. lower_command (lower_compound_list n) x = Tree a" "node_type x = G_COMMAND"
    "\<And>xs ys. a \<noteq> AST_COMMAND_LIST xs ys"
  shows "ast_lower (program_of (pipeline_of x)) = Tree (AST_COMMAND_LIST [a] [CMD_EXEC_END])"
proof -
  let ?g = "program_of (pipeline_of x)"
  have "\<forall>\<^sub>F n in sequentially. lower_program n ?g = Tree (AST_COMMAND_LIST [a] [CMD_EXEC_END])"
    using assms(1)
  proof eventually_elim
    case (elim n)
    then show ?case using assms(2,3)
      by (cases a) (auto simp: program_of_def pipeline_of_def lower_program_def lower_complete_commands_def
          lower_complete_command_def lower_list_def lower_element_def lower_pipeline_def lower_pipe_sequence_def
          command_separator_def set_final_separator_def)
  qed
  then obtain m where m: "\<And>n. m \<le> n \<Longrightarrow> lower_program n ?g = Tree (AST_COMMAND_LIST [a] [CMD_EXEC_END])"
    by (auto simp: eventually_sequentially)
  have "same (lower_program (size ?g) ?g) (lower_program (max m (size ?g)) ?g)"
    by (rule same_program) simp_all
  with m [of "max m (size ?g)"] show ?thesis
    by (simp add: ast_lower_def same_def program_of_def)
qed

text \<open>C36: The redirections of a compound command are parsed and dropped: of \<open>( a ) > f\<close> the executor is given \<open>( a )\<close>
  alone, whatever the commands and whatever the redirection.\<close>

theorem compound_redirections_dropped:
  assumes "tok_type l = TOKEN_LPAREN" "clist_ok c" "tok_type r = TOKEN_RPAREN"
    "is_file_operator (tok_type g)" "tok_type w = TOKEN_WORD" "tok_type nl = TOKEN_NEWLINE"
  shows "\<exists>tree q. parser_parse_program (parser_create_with_tokens_move (l # clist_tokens c @ [r, g, w, nl])) =
      Some (Some (Inr tree, q)) \<and>
    ast_lower tree = Tree (AST_COMMAND_LIST [AST_SUBSHELL (clist_ast code_separator c)] [CMD_EXEC_END])"
proof -
  let ?ts = "l # clist_tokens c @ [r, g, w, nl]" and ?cl = gparse_compound_list
  let ?p = "parser_create_with_tokens_move ?ts"
  let ?sub = "multi G_SUBSHELL [word_node l, Some (clist_tree c), word_node r]"
  define n where "n = length ?ts + 2"
  have p: "at_tokens ?p ?ts" by (simp add: parser_create_with_tokens_move_def at_tokens_def)
  have start: "starts ?ts" using assms(1) by (simp add: starts_def)
  have "yields ?p (gparse_subshell (?cl n) ?p) ?sub [g, w, nl]"
    by (rule subshell_group_parses [OF everything_parses(6) p assms(1-3)]) (simp add: n_def)
  then have compound: "gparse_function_definition n (?cl n) ?p = failed PARSE_ERROR ?p"
    "yields ?p (gparse_compound_command n (?cl n) ?p) (g_node G_COMPOUND_COMMAND (D_Child ?sub)) [g, w, nl]"
    using compound_command_parses [OF p, of ?p "?cl n" n ?sub "[g, w, nl]"] assms(1) by simp_all
  then obtain u where u: "gparse_compound_command n (?cl n) ?p = parsed (g_node G_COMPOUND_COMMAND (D_Child ?sub)) u"
    "at_tokens u [g, w, nl]" "pr_tokens u = pr_tokens ?p" by (auto simp: yields_def)
  obtain x where x: "gparse_redirect_list u = (Inr x, parser_advance (parser_advance u))"
    using redirect_of_file [OF u(2) assms(4-6)] .
  let ?tree = "command_node (Node G_COMMAND GNODE_PAYLOAD_MULTI (D_Multi (Some (g_node G_COMPOUND_COMMAND (D_Child ?sub))) (Some x) None None))"
  note hu = at_here [OF u(2)]
  have "yields ?p (gparse_command n (?cl n) ?p) ?tree [nl]"
    using compound(1) u(1,3) hu(5) at_here(3,5) [OF hu(3)]
    by (simp add: gparse_command_def on_result_def failed_def parsed_def compound_with_redirects_def x yields_def)
  then have "yields ?p (gparse_and_or n (?cl n) ?p) (pipeline_of ?tree) [nl]"
    by (rule one_command_and_or [OF p start]) (simp_all add: assms(6) n_def)
  then have "yields ?p (parser_parse_program ?p) (program_of (pipeline_of ?tree)) []"
    using one_command_program [OF refl start, of ?p _ nl "[]"] assms(6) by (simp add: n_def)
  moreover have "\<forall>\<^sub>F n in sequentially. lower_compound_list n (clist_tree c) = Tree (clist_ast code_separator c)"
    using everything_lowered(6) [of c] assms(2) by simp
  then have "\<forall>\<^sub>F n in sequentially. lower_command (lower_compound_list n) ?tree = Tree (AST_SUBSHELL (clist_ast code_separator c))"
    by eventually_elim (simp add: compound_dispatch_def lower_subshell_def)
  then have "ast_lower (program_of (pipeline_of ?tree)) =
      Tree (AST_COMMAND_LIST [AST_SUBSHELL (clist_ast code_separator c)] [CMD_EXEC_END])"
    by (rule one_command_lowered) simp_all
  ultimately show ?thesis unfolding yields_def parsed_def by blast
qed

theorem compound_redirections_dropped_witness:
  "\<exists>tree q. parser_parse_program (parser_create_with_tokens_move [sign TOKEN_LPAREN, word ''a'', sign TOKEN_RPAREN,
      sign TOKEN_GREATER, word ''f'', sign TOKEN_NEWLINE]) = Some (Some (Inr tree, q)) \<and>
    ast_lower tree = Tree (AST_COMMAND_LIST [AST_SUBSHELL (clist_ast code_separator
      (CList (AndOr (Pipe (Simple (word ''a'') []) PEnd) AEnd) LEnd None))] [CMD_EXEC_END])"
  using compound_redirections_dropped [of "sign TOKEN_LPAREN" "CList (AndOr (Pipe (Simple (word ''a'') []) PEnd) AEnd) LEnd None"
      "sign TOKEN_RPAREN" "sign TOKEN_GREATER" "word ''f''" "sign TOKEN_NEWLINE"]
  by (simp add: is_file_operator_def)

end
