(* ===== verification/Read_Commands.thy ===== *)
theory Read_Commands
  imports
    Lower_Props Lexer_Props
begin

section \<open>From text to commands (exec\_frame\_string\_core of exec\_frame.c)\<close>

text \<open>
  The whole of \<open>exec_frame_string_core\<close> up to the execution: text to tokens, aliases and reserved
  words, the tree of the grammar, and the tree that is executed.  The properties follow a text
  through all four.
\<close>

datatype core_command =
    Command_Error program_error
  | Command_Incomplete
  | Command_Empty
  | Command ast

definition string_core_command :: "string \<Rightarrow> parse_session \<Rightarrow> (core_command \<times> parse_session) option option" where
  \<comment> \<open>what is given to \<open>exec_frame_execute_dispatch\<close>, or the status without it\<close>
  "string_core_command input s =
     (case string_core_program input s of
        None \<Rightarrow> None
      | Some None \<Rightarrow> Some None
      | Some (Some (r, s)) \<Rightarrow>
          (case r of
             Program_Error e \<Rightarrow> Some (Some (Command_Error e, s))
           | Program_Incomplete \<Rightarrow> Some (Some (Command_Incomplete, s))
           | Program_Empty \<Rightarrow> Some (Some (Command_Empty, s))
           | Program gnode \<Rightarrow>
               (case ast_lower gnode of
                  Tree a \<Rightarrow> Some (Some (Command a, s))
                | Null \<Rightarrow> Some (Some (Command_Empty, s))
                | _ \<Rightarrow> Some None)))"

subsection \<open>Ordinary words\<close>

definition ordinary_word :: "segment list \<Rightarrow> bool" where
  \<comment> \<open>quoted somewhere, or not the spelling of a reserved word\<close>
  "ordinary_word segs \<longleftrightarrow> segs \<noteq> [] \<and> list_all segment_ok segs \<and>
     (list_ex quoted_segment segs \<or> \<not> token_is_reserved_word (concat (map segment_text segs)))"

fun command_item :: "item \<Rightarrow> bool" where
  "command_item (Wrd segs) = ordinary_word segs"
| "command_item (Opr ty) \<longleftrightarrow> ty \<in> {TOKEN_PIPE, TOKEN_AND_IF, TOKEN_OR_IF, TOKEN_SEMI, TOKEN_AMPER}"
| "command_item Line = True"

lemma command_item_ok: "command_item it \<Longrightarrow> item_ok it"
  by (cases it) (auto simp: ordinary_word_def plain_operators_eval)

lemma plain_text: "list_all segment_ok segs \<Longrightarrow> \<not> list_ex quoted_segment segs \<Longrightarrow> nul_free (concat (map segment_text segs))"
proof (induction segs)
  case (Cons seg segs)
  then show ?case by (cases seg) (auto simp: nul_free_def list_all_iff plain_char_def is_word_char_def)
qed simp

lemma not_reserved_word: "\<not> token_is_reserved_word w \<Longrightarrow> token_string_to_reserved_word w = TOKEN_WORD"
  by (auto simp: token_is_reserved_word_def token_string_to_reserved_word_def split: option.split dest!: map_of_SomeD) force

lemma ordinary_token:
  assumes "ordinary_word segs" "view t = item_view (Wrd segs)"
  shows "Parser_Accepts.plain_word t" "word_ok t" "kept t t' \<longleftrightarrow> t' = t" "token_get_all_text t = Some (concat (map segment_text segs))"
proof -
  let ?w = "concat (map segment_text segs)" and ?ps = "fold add_segment segs []"
  have t: "tok_type t = TOKEN_WORD" "tok_parts t = Some ?ps" "tok_was_quoted t = list_ex quoted_segment segs"
    using assms(2) by (simp_all add: view_def)
  have joined: "parts_text ?ps = ?w" using parts_text_segments [of "[]" segs] by (simp add: parts_text_def)
  then show "token_get_all_text t = Some ?w" using all_text_view assms(2) by auto
  show "word_ok t" using t by (simp add: word_ok_def)
  have unquoted: "cstr_of ?w = ?w" "\<not> token_is_reserved_word ?w" if "\<not> tok_was_quoted t"
    using that assms(1) plain_text t(3) by (auto simp: ordinary_word_def)
  have "u = ?w" if "single_unquoted_literal t = Some u" for u
    using that t(2) joined by (auto simp: single_unquoted_literal_def parts_text_def split: list.splits if_splits)
  then show "Parser_Accepts.plain_word t" using t(1) unquoted
    by (cases "single_unquoted_literal t") (auto simp: Parser_Accepts.plain_word_def, auto simp: single_unquoted_literal_def split: if_splits)
  have "u = ?w" if "\<not> tok_was_quoted t" "tokenizer_extract_word_text t = Some (Some u)" for u
    using that t(1,2) joined unquoted
    by (auto simp: tokenizer_extract_word_text_def token_part_count_def token_get_part_def parts_text_def length_Suc_conv
        split: if_splits)
  then show "kept t t' \<longleftrightarrow> t' = t" using unquoted not_reserved_word t(1) by (auto simp: kept_def)
qed


subsection \<open>The tokens of a text\<close>

abbreviation command_types :: "token_type set" where
  "command_types \<equiv> {TOKEN_WORD, TOKEN_NEWLINE, TOKEN_PIPE, TOKEN_AND_IF, TOKEN_OR_IF, TOKEN_SEMI, TOKEN_AMPER}"

lemma command_token:
  assumes "command_item it" "view t = item_view it"
  shows "word_ok t" "kept t u \<longleftrightarrow> u = t" "tok_type t \<in> command_types"
proof -
  have "word_ok t \<and> (kept t u \<longleftrightarrow> u = t)"
  proof (cases it)
    case (Wrd segs)
    with assms ordinary_token [of segs t] show ?thesis by simp
  qed (use assms in \<open>auto simp: view_def word_ok_def kept_def\<close>)
  then show "word_ok t" "kept t u \<longleftrightarrow> u = t" by simp_all
  show "tok_type t \<in> command_types" using assms by (cases it) (auto simp: view_def)
qed

lemma command_tokens:
  assumes "list_all command_item items" "map view ts = map item_view items"
  shows "list_all word_ok ts" "numbers_free ts" "list_all2 kept (take n ts) us \<longleftrightarrow> us = take n ts"
    "t \<in> set ts \<Longrightarrow> tok_type t \<in> command_types"
proof -
  have it: "\<exists>it. command_item it \<and> view t = item_view it" if "t \<in> set ts" for t
    using that assms by (metis (no_types, lifting) image_iff list.set_map list_all_iff)
  have types: "tok_type t \<in> command_types" if "t \<in> set ts" for t using it [OF that] command_token(3) by blast
  then show "t \<in> set ts \<Longrightarrow> tok_type t \<in> command_types" .
  show "list_all word_ok ts" using it command_token(1) by (fastforce simp: list_all_iff)
  show "numbers_free ts" by (rule numbers_free_all) (use types in \<open>fastforce simp: list_all_iff is_redirection_type_def\<close>)
  have "list_all2 kept xs us \<longleftrightarrow> us = xs" if "set xs \<subseteq> set ts" for xs us
    using that
  proof (induction xs arbitrary: us)
    case (Cons x xs)
    obtain it where "command_item it" "view x = item_view it" using it [of x] Cons.prems by auto
    note x = command_token(2) [OF this]
    show ?case using Cons by (cases us) (auto simp: x)
  qed simp
  then show "list_all2 kept (take n ts) us \<longleftrightarrow> us = take n ts" using set_take_subset by metis
qed

lemma not_nested: "ty \<in> command_types \<Longrightarrow> nest ty stack = Some stack"
  by (auto simp: nest_def opens_compound_def closes_compound_def)

lemma nothing_nested: "set tys \<subseteq> command_types \<Longrightarrow> nesting [] tys = Some []"
  by (induction tys) (simp_all add: not_nested del: insert_iff)

lemma text_to_tokens:
  assumes "list_all command_item items" "items \<noteq> []" "int (length (render_line items)) < INT_MAX"
  obtains ts s where "string_core_tokens (render_line items) (parse_session_create None) = Some (Some (Core_Parse ts, s))"
    "map view ts = map item_view items"
proof -
  have "list_all item_ok items" using assms(1) command_item_ok by (auto simp: list_all_iff)
  from lexes_result [OF lexes_line [OF initial_state [OF assms(3)] this] assms(3)] obtain ts
    where "lex_cstr_to_tokens (render_line items) = Some (Some (LEX_OK, ts))" and views: "map view ts = map item_view items"
    by blast
  then obtain lx where lexed: "lexer_tokenize (lexer_append_input lexer_create (render_line items)) = Some (Some (LEX_OK, ts, lx))"
    by (auto simp: lex_cstr_to_tokens_def lexer_create_with_input_cstr_def)
  let ?tk = "tokenizer_create (Some alias_store_create)"
  note toks = command_tokens [OF assms(1) views]
  have "no_aliases ?tk" by (simp add: no_aliases_def create_store_ok)
  note plain = process_plain [OF this created_ordered toks(1,2), of "[]"]
  obtain st a n where run: "tokenizer_process ?tk ts [] = Some (Some (st, a))"
    "list_all2 kept (take n ts) (tk_output a @ tk_buffered a)"
    "n = length ts \<and> (st = TOK_OK \<and> tk_buffered a = [] \<or> st = TOK_INCOMPLETE) \<or>
     n < length ts \<and> st = TOK_ERROR \<and> (\<exists>t. kept (ts ! n) t \<and> nest (tok_type t) (tk_stack a) = None)"
    using plain by (simp, elim exE conjE) (rule that, simp_all)
  have all: "tk_output a @ tk_buffered a = take n ts" using run(2) toks(3) by simp
  have "nesting [] (map tok_type (tk_output a @ tk_buffered a)) = Some (tk_stack a)"
    "st = TOK_INCOMPLETE \<longrightarrow> tk_stack a \<noteq> []"
    using process_grows [OF run(1) created_ordered] by (auto simp: held_def)
  moreover have "nesting [] (map tok_type (take n ts)) = Some []"
    using toks(4) set_take_subset [of n ts] by (intro nothing_nested) (auto simp del: insert_iff)
  ultimately have st: "st \<noteq> TOK_INCOMPLETE" using all by auto
  have "n = length ts"
  proof (rule ccontr)
    assume "n \<noteq> length ts"
    with run(3) obtain t where t: "n < length ts" "kept (ts ! n) t" "nest (tok_type t) (tk_stack a) = None" by auto
    have "list_all2 kept (take (Suc n) ts) (take n ts @ [t])"
      using t(1,2) toks(3) [of n "take n ts"] by (simp add: take_Suc_conv_app_nth list_all2_appendI)
    then have "ts ! n = t" using toks(3) [of "Suc n"] t(1) by (simp add: take_Suc_conv_app_nth)
    with t(1,3) not_nested toks(4) [of "ts ! n"] show False by (metis nth_mem option.distinct(1))
  qed
  with run(3) st all have ok: "st = TOK_OK" "tk_output a = ts" by auto
  have ne: "ts \<noteq> []" using views assms(2) by auto
  have "string_core_tokens (render_line items) (parse_session_create None) =
      Some (Some (Core_Parse ts, (parse_session_create None)\<lparr>ps_line_num := 1, ps_lexer := lx, ps_tokenizer := a\<rparr>))"
    using lexed run(1) ok ne
    by (simp add: string_core_tokens_def parse_session_create_def complete_line_def)
  then show ?thesis using that views by blast
qed

subsection \<open>What a text is executed as\<close>

lemma simple_foreground:
  "cmd_ok c \<longrightarrow> set (map tok_type (cmd_tokens c)) \<subseteq> command_types \<longrightarrow> cmd_foreground c"
  "pipe_ok p \<longrightarrow> set (map tok_type (pipe_tokens p)) \<subseteq> command_types \<longrightarrow> pipe_foreground p"
  "ptail_ok pt \<longrightarrow> set (map tok_type (ptail_tokens pt)) \<subseteq> command_types \<longrightarrow> ptail_foreground pt"
  "ao_ok a \<longrightarrow> set (map tok_type (ao_tokens a)) \<subseteq> command_types \<longrightarrow> ao_foreground a"
  "atail_ok at \<longrightarrow> set (map tok_type (atail_tokens at)) \<subseteq> command_types \<longrightarrow> atail_foreground at"
  "clist_ok cl \<longrightarrow> set (map tok_type (clist_tokens cl)) \<subseteq> command_types \<longrightarrow> line_foreground cl"
  "ltail_ok lt \<longrightarrow> set (map tok_type (ltail_tokens lt)) \<subseteq> command_types \<longrightarrow> ltail_foreground lt"
  by (induction c and p and pt and a and at and cl and lt) auto

lemma tokens_to_commands:
  assumes "string_core_tokens input s0 = Some (Some (Core_Parse ts, s))" "ts = concat (map line_tokens ls)"
    "list_all line_ok ls" "ls \<noteq> []" "\<forall>t \<in> set ts. tok_type t \<in> command_types"
  shows "string_core_command input s0 = Some (Some (Command (program_ast separator_of ls), s))"
proof -
  obtain q where run: "parser_parse_program (parser_create_with_tokens_move ts) = Some (Some (Inr (program_tree ls), q))"
    "ast_lower (program_tree ls) = Tree (program_ast code_separator ls)"
    using lines_parsed_and_lowered [OF assms(3,4)] assms(2) by metis
  have "line_foreground (fst l)" if "l \<in> set ls" for l
  proof -
    have "set (clist_tokens (fst l)) \<subseteq> set ts" using that assms(2) by (auto simp: line_tokens_def)
    then have "set (map tok_type (clist_tokens (fst l))) \<subseteq> command_types" using assms(5) by auto
    moreover have "clist_ok (fst l)" using that assms(3) by (simp add: line_ok_def list_all_iff)
    ultimately show ?thesis using simple_foreground(6) by blast
  qed
  then have "program_ast code_separator ls = program_ast separator_of ls"
    by (intro program_foreground) (simp add: list_all_iff)
  with run assms(1) show ?thesis by (simp add: string_core_command_def string_core_program_def parse_tokens_def)
qed



definition word_value :: "segment list \<Rightarrow> string" where
  "word_value segs = concat (map segment_text segs)"

definition simple_of :: "token list \<Rightarrow> ast" where
  "simple_of us = AST_SIMPLE_COMMAND us [] []"

lemma text_of_clone: "word_ok t \<Longrightarrow> token_get_all_text (token_clone t) = token_get_all_text t"
  by (cases "tok_parts t") (simp_all add: token_get_all_text_def token_clone_def part_clone_def blank_part_def comp_def word_ok_def)

lemma words_read:
  assumes "list_all ordinary_word ws" "map view ts = map item_view (map Wrd ws)"
  shows "list_all Parser_Accepts.plain_word ts \<and> map (token_get_all_text \<circ> token_clone) ts = map (Some \<circ> word_value) ws"
  using assms
proof (induction ws arbitrary: ts)
  case (Cons w ws)
  then obtain t ts' where ts: "ts = t # ts'" "view t = item_view (Wrd w)" "map view ts' = map item_view (map Wrd ws)" by auto
  with Cons ordinary_token [of w t] text_of_clone [of t] show ?case by (simp add: word_value_def)
qed simp

lemma map_splitE:
  assumes "map f xs = ys @ zs"
  obtains us vs where "xs = us @ vs" "map f us = ys" "map f vs = zs"
  using assms by (auto simp: map_eq_append_conv)

lemma pipes_read:
  assumes "list_all (\<lambda>ws. ws \<noteq> [] \<and> list_all ordinary_word ws) css"
    "map view ts = map item_view (concat (map (\<lambda>ws. Opr TOKEN_PIPE # map Wrd ws) css))"
  shows "\<exists>pt uss. ptail_tokens pt = ts \<and> ptail_ok pt \<and> (pt = PEnd \<longleftrightarrow> css = []) \<and>
    ptail_asts f pt = map simple_of uss \<and> map (map token_get_all_text) uss = map (map (Some \<circ> word_value)) css"
  using assms
proof (induction css arbitrary: ts)
  case Nil
  then show ?case by (intro exI [of _ PEnd] exI [of _ "[]"]) simp
next
  case (Cons ws css)
  then obtain s us vs where ts: "ts = s # us @ vs" "view s = item_view (Opr TOKEN_PIPE)" "map view us = map item_view (map Wrd ws)"
    "map view vs = map item_view (concat (map (\<lambda>ws. Opr TOKEN_PIPE # map Wrd ws) css))"
    by (auto simp: map_eq_append_conv map_eq_Cons_conv)
  have css: "list_all (\<lambda>ws. ws \<noteq> [] \<and> list_all ordinary_word ws) css" "ws \<noteq> []" "list_all ordinary_word ws" using Cons.prems(1) by simp_all
  obtain pt uss where pt: "ptail_tokens pt = vs" "ptail_ok pt" "pt = PEnd \<longleftrightarrow> css = []"
    "ptail_asts f pt = map simple_of uss" "map (map token_get_all_text) uss = map (map (Some \<circ> word_value)) css"
    using Cons.IH [OF css(1) ts(4)] by blast
  have us: "list_all Parser_Accepts.plain_word us" "map (token_get_all_text \<circ> token_clone) us = map (Some \<circ> word_value) ws"
    using words_read [OF css(3) ts(3)] by simp_all
  obtain w us' where "us = w # us'" using ts(3) css(2) by (cases us) auto
  with us pt ts(1,2) show ?case
    by (intro exI [of _ "PMore s (Simple w us') pt"] exI [of _ "map token_clone us # uss"]) (simp add: simple_of_def view_def)
qed

text \<open>C1: From the text of a pipeline to its execution: the words of each command, however they are quoted, are
  the words that the executor is given, in their order, and the commands stand in one pipeline, or alone
  where there is only one.\<close>

theorem pipeline_is_executed_as_written:
  assumes "list_all (\<lambda>ws. ws \<noteq> [] \<and> list_all ordinary_word ws) (ws # css)"
    and items: "items = map Wrd ws @ concat (map (\<lambda>ws. Opr TOKEN_PIPE # map Wrd ws) css) @ [Line]"
    and "int (length (render_line items)) < INT_MAX"
  shows "\<exists>us uss s. string_core_command (render_line items) (parse_session_create None) = Some (Some (Command (AST_COMMAND_LIST
      [if css = [] then simple_of us else AST_PIPELINE (map simple_of (us # uss)) False] [CMD_EXEC_END]), s)) \<and>
    map (map token_get_all_text) (us # uss) = map (map (Some \<circ> word_value)) (ws # css)"
proof -
  have ok: "list_all command_item items" "items \<noteq> []" using assms(1) by (auto simp: items list_all_iff)
  obtain ts s where ts: "string_core_tokens (render_line items) (parse_session_create None) = Some (Some (Core_Parse ts, s))"
    "map view ts = map item_view items" by (rule text_to_tokens [OF ok assms(3)])
  then have "map view ts = map item_view (map Wrd ws) @
      map item_view (concat (map (\<lambda>ws. Opr TOKEN_PIPE # map Wrd ws) css)) @ [item_view Line]"
    by (simp only: items map_append list.map)
  then obtain vs r where r: "ts = vs @ r" "map view vs = map item_view (map Wrd ws)"
    "map view r = map item_view (concat (map (\<lambda>ws. Opr TOKEN_PIPE # map Wrd ws) css)) @ [item_view Line]"
    by (rule map_splitE)
  obtain xs n where n: "r = xs @ n" "map view n = [item_view Line]"
    "map view xs = map item_view (concat (map (\<lambda>ws. Opr TOKEN_PIPE # map Wrd ws) css))"
    using r(3) by (rule map_splitE)
  obtain nl where "n = [nl]" "view nl = item_view Line" using n(2) by (auto simp: map_eq_Cons_conv)
  with r n have split: "ts = vs @ xs @ [nl]" "map view vs = map item_view (map Wrd ws)"
    "map view xs = map item_view (concat (map (\<lambda>ws. Opr TOKEN_PIPE # map Wrd ws) css))" "view nl = item_view Line"
    by simp_all
  have "list_all (\<lambda>ws. ws \<noteq> [] \<and> list_all ordinary_word ws) css" using assms(1) by simp
  from pipes_read [OF this split(3), of separator_of] obtain pt uss where pt: "ptail_tokens pt = xs" "ptail_ok pt"
    "pt = PEnd \<longleftrightarrow> css = []" "ptail_asts separator_of pt = map simple_of uss"
    "map (map token_get_all_text) uss = map (map (Some \<circ> word_value)) css" by blast
  have vs: "list_all Parser_Accepts.plain_word vs" "map (token_get_all_text \<circ> token_clone) vs = map (Some \<circ> word_value) ws"
    using words_read [OF _ split(2)] assms(1) by simp_all
  obtain w vs' where w: "vs = w # vs'" using split(2) assms(1) by (cases vs) auto
  let ?l = "(CList (AndOr (Pipe (Simple w vs') pt) AEnd) LEnd None, nl)"
  have "line_ok ?l" using vs(1) w pt(2) split(4) by (simp add: line_ok_def view_def)
  moreover have "ts = concat (map line_tokens [?l])" using split(1) w pt(1) by (simp add: line_tokens_def)
  moreover have "\<forall>t \<in> set ts. tok_type t \<in> command_types" using command_tokens(4) [OF ok(1) ts(2)] by blast
  ultimately have "string_core_command (render_line items) (parse_session_create None) =
      Some (Some (Command (program_ast separator_of [?l]), s))"
    using tokens_to_commands [OF ts(1), of "[?l]"] by simp
  moreover have "program_ast separator_of [?l] = AST_COMMAND_LIST
      [if css = [] then simple_of (map token_clone vs) else AST_PIPELINE (map simple_of (map token_clone vs # uss)) False] [CMD_EXEC_END]"
    using pt(3,4) w by (simp add: program_ast_def last_separator_def simple_of_def)
  ultimately show ?thesis using vs(2) pt(5)
    by (intro exI [of _ "map token_clone vs"] exI [of _ uss] exI [of _ s]) simp
qed

theorem pipeline_is_executed_as_written_witness:
  "\<exists>t u v s. string_core_command (''echo '' @ [SQUOTE] @ ''if'' @ [SQUOTE] @ '' | wc '' @ [NEWLINE]) (parse_session_create None) =
      Some (Some (Command (AST_COMMAND_LIST [AST_PIPELINE [simple_of [t, u], simple_of [v]] False] [CMD_EXEC_END]), s)) \<and>
    map token_get_all_text [t, u, v] = [Some ''echo'', Some ''if'', Some ''wc'']"
proof -
  let ?ws = "[[Plain ''echo''], [Single ''if'']]" and ?css = "[[[Plain ''wc'']]]"
  let ?items = "map Wrd ?ws @ concat (map (\<lambda>ws. Opr TOKEN_PIPE # map Wrd ws) ?css) @ [Line]"
  have "list_all (\<lambda>ws. ws \<noteq> [] \<and> list_all ordinary_word ws) (?ws # ?css)" by code_simp
  moreover have written: "render_line ?items = ''echo '' @ [SQUOTE] @ ''if'' @ [SQUOTE] @ '' | wc '' @ [NEWLINE]" by code_simp
  moreover have "int (length (render_line ?items)) < INT_MAX" unfolding written by code_simp
  ultimately show ?thesis
    using pipeline_is_executed_as_written [of ?ws ?css ?items] by (fastforce simp: word_value_def)
qed

end
