(* ===== verification/Job_Store.thy ===== *)
theory Job_Store
  imports
    Prelude
begin

section \<open>The job store (job\_store.c)\<close>

text \<open>
  The table of jobs of the shell: a list of jobs, newest first, each with the processes of
  its pipeline, and the two references \<open>%+\<close> and \<open>%-\<close> to jobs of the list.  A node of the
  list is named by its job id, which is written once, at creation; that the ids of a store
  are pairwise distinct, so that a reference names one node, is part of the invariant
  proved in \<open>Job_Store_Proofs\<close>.  Process ids, exit statuses and job ids are C integers;
  \<open>None\<close> is the overflow of the id counter.  The stores passed in are not NULL; a
  \<open>job_t *\<close> that may be NULL is an \<open>option\<close>.
\<close>

subsection \<open>State\<close>

datatype job_state_t = JOB_RUNNING | JOB_STOPPED | JOB_DONE | JOB_TERMINATED

record process_t =
  proc_command :: string
  proc_pid :: int
  proc_exit_status :: int
  proc_state :: job_state_t

record job_t =
  job_id :: int
  job_pgid :: int
  job_processes :: "process_t list"
  job_command_line :: string
  job_state :: job_state_t
  job_is_background :: bool
  job_is_notified :: bool

record job_store_t =
  jobs :: "job_t list"
  current_job :: "int option"
  previous_job :: "int option"
  job_count :: nat
  next_job_id :: int

definition process_create :: "int \<Rightarrow> string \<Rightarrow> process_t" where
  "process_create pid command =
     \<lparr> proc_command = command, proc_pid = pid, proc_exit_status = 0, proc_state = JOB_RUNNING \<rparr>"

definition job_create :: "int \<Rightarrow> string \<Rightarrow> bool \<Rightarrow> job_t" where
  "job_create i command_line is_background =
     \<lparr> job_id = i, job_pgid = 0, job_processes = [], job_command_line = command_line,
       job_state = JOB_RUNNING, job_is_background = is_background, job_is_notified = False \<rparr>"

definition job_store_create :: job_store_t where
  "job_store_create =
     \<lparr> jobs = [], current_job = None, previous_job = None, job_count = 0, next_job_id = 1 \<rparr>"

subsection \<open>The state of a job\<close>

fun scan_states :: "process_t list \<Rightarrow> bool \<times> bool \<times> bool \<times> bool \<Rightarrow> bool \<times> bool \<times> bool \<times> bool" where
  \<comment> \<open>the loop over the processes: running, stopped, terminated, all done\<close>
  "scan_states [] acc = acc"
| "scan_states (p # ps) (has_running, has_stopped, has_terminated, all_done) =
     scan_states ps
       (case proc_state p of
          JOB_RUNNING \<Rightarrow> (True, has_stopped, has_terminated, False)
        | JOB_STOPPED \<Rightarrow> (has_running, True, has_terminated, False)
        | JOB_TERMINATED \<Rightarrow> (has_running, has_stopped, True, False)
        | JOB_DONE \<Rightarrow> (has_running, has_stopped, has_terminated, all_done))"

definition job_update_state :: "job_t \<Rightarrow> job_t" where
  "job_update_state job =
     (if job_processes job = [] then job
      else case scan_states (job_processes job) (False, False, False, True) of
        (has_running, has_stopped, has_terminated, all_done) \<Rightarrow>
          if has_stopped then job\<lparr>job_state := JOB_STOPPED\<rparr>
          else if has_running then job\<lparr>job_state := JOB_RUNNING\<rparr>
          else if has_terminated then job\<lparr>job_state := JOB_TERMINATED\<rparr>
          else if all_done then job\<lparr>job_state := JOB_DONE\<rparr>
          else job)"

definition job_is_running :: "job_t option \<Rightarrow> bool" where
  "job_is_running job =
     (case job of None \<Rightarrow> False
      | Some j \<Rightarrow> list_ex (\<lambda>p. proc_state p = JOB_RUNNING) (job_processes j))"

definition job_is_completed :: "job_t option \<Rightarrow> bool" where
  "job_is_completed job =
     (case job of None \<Rightarrow> False
      | Some j \<Rightarrow>
          if job_processes j = [] then job_state j = JOB_DONE \<or> job_state j = JOB_TERMINATED
          else \<not> list_ex (\<lambda>p. proc_state p = JOB_RUNNING \<or> proc_state p = JOB_STOPPED)
                    (job_processes j))"

definition job_state_to_string :: "job_state_t \<Rightarrow> string" where
  "job_state_to_string st =
     (case st of JOB_RUNNING \<Rightarrow> ''Running'' | JOB_STOPPED \<Rightarrow> ''Stopped''
      | JOB_DONE \<Rightarrow> ''Done'' | JOB_TERMINATED \<Rightarrow> ''Terminated'')"

subsection \<open>Adding and looking up\<close>

definition job_store_add :: "job_store_t \<Rightarrow> string \<Rightarrow> bool \<Rightarrow> (job_store_t \<times> int) option" where
  "job_store_add store command_line is_background =
     do { n \<leftarrow> c_int (next_job_id store + 1);
          let i = next_job_id store;
          let s = store\<lparr>next_job_id := n,
                        jobs := job_create i command_line is_background # jobs store,
                        job_count := job_count store + 1\<rparr>;
          Some (if is_background
                then (s\<lparr>previous_job := current_job s, current_job := Some i\<rparr>, i)
                else (s, i)) }"

definition job_store_find :: "job_store_t \<Rightarrow> int \<Rightarrow> job_t option" where
  "job_store_find store i = find (\<lambda>j. job_id j = i) (jobs store)"

fun update_job :: "int \<Rightarrow> (job_t \<Rightarrow> job_t) \<Rightarrow> job_t list \<Rightarrow> job_t list" where
  \<comment> \<open>an assignment through the pointer that \<open>job_store_find\<close> returns\<close>
  "update_job i f [] = []"
| "update_job i f (j # js) = (if job_id j = i then f j # js else j # update_job i f js)"

definition on_job :: "job_store_t \<Rightarrow> int \<Rightarrow> (job_t \<Rightarrow> job_t) \<Rightarrow> job_store_t \<times> bool" where
  "on_job store i f =
     (case job_store_find store i of None \<Rightarrow> (store, False)
      | Some _ \<Rightarrow> (store\<lparr>jobs := update_job i f (jobs store)\<rparr>, True))"

definition append_process :: "process_t \<Rightarrow> job_t \<Rightarrow> job_t" where
  "append_process p job =
     (if job_processes job = [] then job\<lparr>job_processes := [p], job_pgid := proc_pid p\<rparr>
      else job\<lparr>job_processes := job_processes job @ [p]\<rparr>)"

definition job_store_add_process ::
    "job_store_t \<Rightarrow> int \<Rightarrow> int \<Rightarrow> string \<Rightarrow> job_store_t \<times> bool" where
  "job_store_add_process store i pid command =
     on_job store i (append_process (process_create pid command))"

definition job_store_get_current :: "job_store_t \<Rightarrow> job_t option" where
  "job_store_get_current store = Option.bind (current_job store) (job_store_find store)"

definition job_store_get_previous :: "job_store_t \<Rightarrow> job_t option" where
  "job_store_get_previous store = Option.bind (previous_job store) (job_store_find store)"

definition strncmp_same :: "string \<Rightarrow> string \<Rightarrow> nat \<Rightarrow> bool" where
  \<comment> \<open>\<open>strncmp(a, b, n) == 0\<close>\<close>
  "strncmp_same a b n \<longleftrightarrow> take n (cstr_of a) = take n (cstr_of b)"

fun strstr_found :: "string \<Rightarrow> string \<Rightarrow> bool" where
  \<comment> \<open>\<open>strstr(a, b) != NULL\<close> on the bytes before the terminators\<close>
  "strstr_found [] b = (b = [])"
| "strstr_found (c # a) b = (take (length b) (c # a) = b \<or> strstr_found a b)"

definition job_store_find_by_prefix :: "job_store_t \<Rightarrow> string \<Rightarrow> job_t option" where
  "job_store_find_by_prefix store prefix =
     (let n = length (cstr_of prefix) in
      if n = 0 then None
      else find (\<lambda>j. strncmp_same (job_command_line j) prefix n) (jobs store))"

definition job_store_find_by_substring :: "job_store_t \<Rightarrow> string \<Rightarrow> job_t option" where
  "job_store_find_by_substring store sub =
     (if length (cstr_of sub) = 0 then None
      else find (\<lambda>j. strstr_found (cstr_of (job_command_line j)) (cstr_of sub)) (jobs store))"

definition job_store_find_by_pgid :: "job_store_t \<Rightarrow> int \<Rightarrow> job_t option" where
  "job_store_find_by_pgid store pgid = find (\<lambda>j. job_pgid j = pgid) (jobs store)"

subsection \<open>State changes\<close>

definition job_store_set_state :: "job_store_t \<Rightarrow> int \<Rightarrow> job_state_t \<Rightarrow> job_store_t \<times> bool" where
  "job_store_set_state store i new_state = on_job store i (job_state_update (\<lambda>_. new_state))"

fun set_first_process :: "int \<Rightarrow> job_state_t \<Rightarrow> int \<Rightarrow> process_t list \<Rightarrow> process_t list option" where
  "set_first_process pid new_state status [] = None"
| "set_first_process pid new_state status (p # ps) =
     (if proc_pid p = pid then Some (p\<lparr>proc_state := new_state, proc_exit_status := status\<rparr> # ps)
      else map_option ((#) p) (set_first_process pid new_state status ps))"

fun set_in_jobs :: "int \<Rightarrow> job_state_t \<Rightarrow> int \<Rightarrow> job_t list \<Rightarrow> job_t list option" where
  "set_in_jobs pid new_state status [] = None"
| "set_in_jobs pid new_state status (j # js) =
     (case set_first_process pid new_state status (job_processes j) of
        Some ps \<Rightarrow> Some (job_update_state (j\<lparr>job_processes := ps\<rparr>) # js)
      | None \<Rightarrow> map_option ((#) j) (set_in_jobs pid new_state status js))"

definition job_store_set_process_state ::
    "job_store_t \<Rightarrow> int \<Rightarrow> job_state_t \<Rightarrow> int \<Rightarrow> job_store_t \<times> bool" where
  "job_store_set_process_state store pid new_state exit_status =
     (case set_in_jobs pid new_state exit_status (jobs store) of
        Some js \<Rightarrow> (store\<lparr>jobs := js\<rparr>, True)
      | None \<Rightarrow> (store, False))"

definition job_store_mark_notified :: "job_store_t \<Rightarrow> int \<Rightarrow> job_store_t \<times> bool" where
  "job_store_mark_notified store i = on_job store i (job_is_notified_update (\<lambda>_. True))"

definition to_report :: "job_t \<Rightarrow> bool" where
  "to_report j \<longleftrightarrow> job_is_completed (Some j) \<and> \<not> job_is_notified j"

definition job_store_print_completed_jobs ::
    "job_store_t \<Rightarrow> job_store_t \<times> (int \<times> string \<times> string) list" where
  \<comment> \<open>the fields of each line that \<open>fprintf\<close> formats\<close>
  "job_store_print_completed_jobs store =
     (store\<lparr>jobs := map (\<lambda>j. if to_report j then j\<lparr>job_is_notified := True\<rparr> else j) (jobs store)\<rparr>,
      map (\<lambda>j. (job_id j, job_state_to_string (job_state j), cstr_of (job_command_line j)))
        (filter to_report (jobs store)))"

subsection \<open>Removal\<close>

definition drop_references :: "job_store_t \<Rightarrow> int \<Rightarrow> job_store_t" where
  "drop_references store i =
     (let s = (if current_job store = Some i
               then store\<lparr>current_job :=
                      (if previous_job store = Some i then None else previous_job store)\<rparr>
               else store)
      in if previous_job s = Some i then s\<lparr>previous_job := None\<rparr> else s)"

fun unlink :: "int \<Rightarrow> job_t list \<Rightarrow> job_t list option" where
  "unlink i [] = None"
| "unlink i (j # js) = (if job_id j = i then Some js else map_option ((#) j) (unlink i js))"

definition job_store_remove :: "job_store_t \<Rightarrow> int \<Rightarrow> job_store_t \<times> bool" where
  "job_store_remove store i =
     (case unlink i (jobs store) of None \<Rightarrow> (store, False)
      | Some js \<Rightarrow> ((drop_references store i)\<lparr>jobs := js, job_count := job_count store - 1\<rparr>, True))"

fun remove_completed_loop ::
    "job_t list \<Rightarrow> job_t list \<Rightarrow> job_store_t \<Rightarrow> nat \<Rightarrow> job_store_t \<times> nat" where
  \<comment> \<open>\<open>kept\<close> are the nodes up to \<open>prev\<close>, newest last; the second argument starts at \<open>curr\<close>, here \<open>job\<close>\<close>
  "remove_completed_loop kept [] store removed = (store, removed)"
| "remove_completed_loop kept (job # rest) store removed =
     (if job_is_completed (Some job) \<and> job_is_notified job
      then remove_completed_loop kept rest
             ((drop_references store (job_id job))\<lparr>jobs := kept @ rest,
                job_count := job_count store - 1\<rparr>) (removed + 1)
      else remove_completed_loop (kept @ [job]) rest store removed)"

definition job_store_remove_completed :: "job_store_t \<Rightarrow> job_store_t \<times> nat" where
  "job_store_remove_completed store = remove_completed_loop [] (jobs store) store 0"

subsection \<open>The iterator over the active processes\<close>

text \<open>
  The two pointers of the iterator are positions: that of a job in the list (the length of
  the list for NULL) and that of a process in the job (\<open>None\<close> for NULL).
\<close>

record job_process_iterator_t =
  it_job :: nat
  it_process :: "nat option"

definition active :: "process_t \<Rightarrow> bool" where
  "active p \<longleftrightarrow> proc_state p = JOB_RUNNING \<or> proc_state p = JOB_STOPPED"

definition job_store_active_processes_begin :: "job_store_t \<Rightarrow> job_process_iterator_t" where
  "job_store_active_processes_begin store = \<lparr> it_job = 0, it_process = None \<rparr>"

fun first_active :: "process_t list \<Rightarrow> nat \<Rightarrow> nat option" where
  \<comment> \<open>the loop \<open>while (iter->current_process)\<close> from position \<open>k\<close> on\<close>
  "first_active [] k = None"
| "first_active (p # ps) k = (if active p then Some k else first_active ps (k + 1))"

fun next_job :: "job_t list \<Rightarrow> nat \<Rightarrow> job_process_iterator_t \<times> bool" where
  \<comment> \<open>the loop \<open>while (iter->current_job)\<close> from position \<open>n\<close> on\<close>
  "next_job [] n = (\<lparr> it_job = n, it_process = None \<rparr>, False)"
| "next_job (j # js) n =
     (case first_active (job_processes j) 0 of
        Some k \<Rightarrow> (\<lparr> it_job = n, it_process = Some k \<rparr>, True)
      | None \<Rightarrow> next_job js (n + 1))"

definition iter_job :: "job_store_t \<Rightarrow> job_process_iterator_t \<Rightarrow> job_t option" where
  "iter_job store it =
     (if it_job it < length (jobs store) then Some (jobs store ! it_job it) else None)"

definition iter_process :: "job_store_t \<Rightarrow> job_process_iterator_t \<Rightarrow> process_t option" where
  "iter_process store it =
     do { j \<leftarrow> iter_job store it;
          k \<leftarrow> it_process it;
          if k < length (job_processes j) then Some (job_processes j ! k) else None }"

definition job_store_active_processes_next ::
    "job_store_t \<Rightarrow> job_process_iterator_t \<Rightarrow> job_process_iterator_t \<times> bool" where
  "job_store_active_processes_next store it =
     (let n = it_job it in
      case it_process it of
        Some k \<Rightarrow>
          (case first_active (drop (k + 1) (job_processes (jobs store ! n))) (k + 1) of
             Some k' \<Rightarrow> (it\<lparr>it_process := Some k'\<rparr>, True)
           | None \<Rightarrow> next_job (drop (n + 1) (jobs store)) (n + 1))
      | None \<Rightarrow> next_job (drop n (jobs store)) n)"

definition job_store_iter_get_pid :: "job_store_t \<Rightarrow> job_process_iterator_t \<Rightarrow> int" where
  "job_store_iter_get_pid store it =
     (case iter_process store it of None \<Rightarrow> -1 | Some p \<Rightarrow> proc_pid p)"

definition job_store_iter_get_job_id :: "job_store_t \<Rightarrow> job_process_iterator_t \<Rightarrow> int" where
  "job_store_iter_get_job_id store it =
     (case iter_job store it of None \<Rightarrow> -1 | Some j \<Rightarrow> job_id j)"

definition job_store_iter_get_job_state ::
    "job_store_t \<Rightarrow> job_process_iterator_t \<Rightarrow> job_state_t" where
  "job_store_iter_get_job_state store it =
     (case iter_job store it of None \<Rightarrow> JOB_DONE | Some j \<Rightarrow> job_state j)"

definition job_store_iter_set_state ::
    "job_store_t \<Rightarrow> job_process_iterator_t \<Rightarrow> job_state_t \<Rightarrow> int \<Rightarrow> job_store_t \<times> bool" where
  "job_store_iter_set_state store it new_state exit_status =
     (case (iter_job store it, iter_process store it, it_process it) of
        (Some j, Some p, Some k) \<Rightarrow>
          (store\<lparr>jobs := (jobs store)[it_job it :=
             job_update_state (j\<lparr>job_processes := (job_processes j)[k :=
               p\<lparr>proc_state := new_state, proc_exit_status := exit_status\<rparr>]\<rparr>)]\<rparr>, True)
      | _ \<Rightarrow> (store, False))"

subsection \<open>Accessors\<close>

definition job_store_count :: "job_store_t \<Rightarrow> nat" where
  "job_store_count store = job_count store"

definition job_process_count :: "job_t option \<Rightarrow> nat" where
  "job_process_count job = (case job of None \<Rightarrow> 0 | Some j \<Rightarrow> length (job_processes j))"

definition process_field :: "'a \<Rightarrow> (process_t \<Rightarrow> 'a) \<Rightarrow> job_t option \<Rightarrow> nat \<Rightarrow> 'a" where
  \<comment> \<open>the loop that the three accessors below share, with the value they return otherwise\<close>
  "process_field dflt f job index =
     (case job of None \<Rightarrow> dflt
      | Some j \<Rightarrow> if index < length (job_processes j) then f (job_processes j ! index) else dflt)"

definition job_get_process_pid :: "job_t option \<Rightarrow> nat \<Rightarrow> int" where
  "job_get_process_pid = process_field (- 1) proc_pid"

definition job_get_process_state :: "job_t option \<Rightarrow> nat \<Rightarrow> job_state_t" where
  "job_get_process_state = process_field JOB_DONE proc_state"

definition job_get_process_exit_status :: "job_t option \<Rightarrow> nat \<Rightarrow> int" where
  "job_get_process_exit_status = process_field (- 1) proc_exit_status"

definition job_store_get_job_ids :: "job_store_t \<Rightarrow> nat \<Rightarrow> int list option" where
  \<comment> \<open>the ids written to the caller's array of \<open>max_jobs\<close> elements; \<open>None\<close> for -1\<close>
  "job_store_get_job_ids store max_jobs =
     (if max_jobs = 0 then None else Some (map job_id (take max_jobs (jobs store))))"

definition job_store_first :: "job_store_t \<Rightarrow> job_t option" where
  "job_store_first store = (case jobs store of [] \<Rightarrow> None | j # _ \<Rightarrow> Some j)"

end
