(* ===== verification/Job_Store_Proofs.thy ===== *)
theory Job_Store_Proofs
  imports
    Job_Store
begin

section \<open>The job store: invariant, removal and the iterator\<close>

text \<open>
  The invariant of the store over every operation, the state of a job as a function of the
  states of its processes, bulk removal as repeated removal, and the sequence of processes
  that the iterator visits.
\<close>

subsection \<open>The invariant\<close>

definition js_invar :: "job_store_t \<Rightarrow> bool" where
  "js_invar s \<longleftrightarrow>
     distinct (map job_id (jobs s)) \<and>
     (\<forall>i \<in> job_id ` set (jobs s). 1 \<le> i \<and> i < next_job_id s) \<and>
     1 \<le> next_job_id s \<and> next_job_id s \<le> INT_MAX \<and>
     job_count s = length (jobs s) \<and>
     set_option (current_job s) \<union> set_option (previous_job s) \<subseteq> job_id ` set (jobs s) \<and>
     (previous_job s \<noteq> None \<longrightarrow> current_job s \<noteq> None)"

definition same_ids :: "job_store_t \<Rightarrow> job_store_t \<Rightarrow> bool" where
  "same_ids s t \<longleftrightarrow> map job_id (jobs t) = map job_id (jobs s) \<and> job_count t = job_count s \<and>
     current_job t = current_job s \<and> previous_job t = previous_job s \<and>
     next_job_id t = next_job_id s"

lemma ids_set: "job_id ` set js = set (map job_id js)"
  by simp

lemma js_invar_same: "js_invar s \<Longrightarrow> same_ids s t \<Longrightarrow> js_invar t"
  by (simp only: js_invar_def same_ids_def ids_set) (metis length_map)

lemma same_ids_refl [simp]: "same_ids s s"
  by (simp add: same_ids_def)

lemma update_job_ids: "(\<And>j. job_id (f j) = job_id j) \<Longrightarrow>
    map job_id (update_job i f js) = map job_id js"
  by (induction js) auto

lemma on_job_same: "(\<And>j. job_id (f j) = job_id j) \<Longrightarrow> same_ids s (fst (on_job s i f))"
  by (auto simp: on_job_def same_ids_def update_job_ids split: option.split)

lemma job_update_state_fields [simp]:
  "job_id (job_update_state j) = job_id j" "job_processes (job_update_state j) = job_processes j"
  "job_is_notified (job_update_state j) = job_is_notified j"
  by (simp_all add: job_update_state_def split: prod.split)

lemma append_process_id [simp]: "job_id (append_process p j) = job_id j"
  by (simp add: append_process_def)

lemma set_in_jobs_ids: "set_in_jobs pid st x js = Some js' \<Longrightarrow> map job_id js' = map job_id js"
  by (induction js arbitrary: js') (auto split: option.splits)

lemma set_process_state_same: "same_ids s (fst (job_store_set_process_state s pid st x))"
  by (auto simp: job_store_set_process_state_def same_ids_def split: option.split
           dest: set_in_jobs_ids)

lemma report_same: "same_ids s (fst (job_store_print_completed_jobs s))"
  by (simp add: job_store_print_completed_jobs_def same_ids_def)

lemma map_update_same: "n < length xs \<Longrightarrow> f y = f (xs ! n) \<Longrightarrow> map f (xs[n := y]) = map f xs"
  by (metis list_update_id map_update)

lemma iter_set_same: "same_ids s (fst (job_store_iter_set_state s it st x))"
  by (auto simp: job_store_iter_set_state_def same_ids_def iter_job_def map_update_same
           split: option.split if_splits)

lemma add_result: "job_store_add s c b = Some (t, i) \<Longrightarrow>
    i = next_job_id s \<and> next_job_id s < INT_MAX \<and> next_job_id t = next_job_id s + 1 \<and>
    jobs t = job_create i c b # jobs s \<and> job_count t = job_count s + 1 \<and>
    current_job t = (if b then Some i else current_job s) \<and>
    previous_job t = (if b then current_job s else previous_job s)"
  by (auto simp: job_store_add_def c_int_Some_iff Let_def bind_eq_Some_conv split: if_splits)

lemma fresh_id: "js_invar s \<Longrightarrow> next_job_id s \<notin> job_id ` set (jobs s)"
  by (auto simp: js_invar_def)

lemma add_invar:
  assumes "js_invar s" and "job_store_add s c b = Some (t, i)"
  shows "js_invar t"
  using assms(1) add_result [OF assms(2)] fresh_id [OF assms(1)]
  by (cases b) (auto simp: js_invar_def job_create_def less_imp_le
    elim!: ballE intro: less_le_trans)

lemma unlink_filter: "distinct (map job_id js) \<Longrightarrow> unlink i js = Some js' \<Longrightarrow>
    js' = filter (\<lambda>j. job_id j \<noteq> i) js \<and> i \<in> job_id ` set js \<and> length js = Suc (length js')"
proof (induction js arbitrary: js')
  case (Cons j js)
  have "filter (\<lambda>k. job_id k \<noteq> job_id j) js = js" if "job_id j \<notin> set (map job_id js)"
    using that by (intro filter_True) (auto intro: rev_image_eqI)
  with Cons show ?case by (auto split: if_splits)
qed simp

lemma unlink_None: "unlink i js = None \<longleftrightarrow> i \<notin> job_id ` set js"
  by (induction js) auto

lemma drop_references_fields [simp]:
  "jobs (drop_references s i) = jobs s" "job_count (drop_references s i) = job_count s"
  "next_job_id (drop_references s i) = next_job_id s"
  by (simp_all add: drop_references_def Let_def)

definition without :: "int \<Rightarrow> int option \<Rightarrow> int option" where
  "without i r = (if r = Some i then None else r)"

definition removed :: "(job_t \<Rightarrow> bool) \<Rightarrow> job_store_t \<Rightarrow> job_store_t" where
  \<comment> \<open>the store without the jobs that \<open>P\<close> selects, as far as the list is concerned\<close>
  "removed P s = s\<lparr>jobs := filter (\<lambda>j. \<not> P j) (jobs s), job_count := length (filter (\<lambda>j. \<not> P j) (jobs s))\<rparr>"

lemma drop_references_refs:
  "current_job (drop_references s i) =
     (if current_job s = Some i then without i (previous_job s) else current_job s)"
  "previous_job (drop_references s i) = without i (previous_job s)"
  by (auto simp: drop_references_def without_def Let_def)

lemma unlinked_invar:
  assumes "js_invar s" and "unlink i (jobs s) = Some js"
  shows "js_invar ((drop_references s i)\<lparr>jobs := js, job_count := job_count s - 1\<rparr>)"
  using assms unlink_filter [of "jobs s" i js]
  by (fastforce simp: js_invar_def drop_references_refs without_def distinct_map_filter
        split: if_splits)

lemma remove_invar: "js_invar s \<Longrightarrow> js_invar (fst (job_store_remove s i))"
  by (auto simp: job_store_remove_def unlinked_invar simp del: One_nat_def split: option.split)

subsection \<open>Removing the completed jobs is removing them one by one\<close>

abbreviation finished :: "job_t \<Rightarrow> bool" where
  "finished j \<equiv> job_is_completed (Some j) \<and> job_is_notified j"

lemma unlink_append: "j \<notin> job_id ` set kept \<Longrightarrow>
    unlink j (kept @ rest) = map_option ((@) kept) (unlink j rest)"
  by (induction kept) (cases "unlink j rest"; auto)+

lemma remove_head: "job_id j \<notin> job_id ` set kept \<Longrightarrow> jobs s = kept @ j # rest \<Longrightarrow>
    job_store_remove s (job_id j) =
      ((drop_references s (job_id j))\<lparr>jobs := kept @ rest, job_count := job_count s - 1\<rparr>, True)"
  by (simp add: job_store_remove_def unlink_append)

lemma remove_completed_loop_eq:
  "distinct (map job_id (kept @ rest)) \<Longrightarrow> jobs s = kept @ rest \<Longrightarrow>
   remove_completed_loop kept rest s n =
     (fold (\<lambda>i t. fst (job_store_remove t i)) (map job_id (filter finished rest)) s,
      n + length (filter finished rest))"
proof (induction rest arbitrary: kept s n)
  case (Cons j rest)
  show ?case
  proof (cases "finished j")
    case True
    with Cons.prems have "fst (job_store_remove s (job_id j)) =
        (drop_references s (job_id j))\<lparr>jobs := kept @ rest, job_count := job_count s - 1\<rparr>"
      by (subst remove_head) auto
    with True Cons.prems show ?thesis by (auto simp: Cons.IH)
  next
    case False
    with Cons.prems Cons.IH [of "kept @ [j]" s n] show ?thesis by auto
  qed
qed simp

lemma fold_remove_invar:
  "js_invar s \<Longrightarrow> js_invar (fold (\<lambda>i t. fst (job_store_remove t i)) is s)"
  by (induction "is" arbitrary: s) (simp_all add: remove_invar)

lemma remove_completed_eq: "js_invar s \<Longrightarrow> job_store_remove_completed s =
    (fold (\<lambda>i t. fst (job_store_remove t i)) (map job_id (filter finished (jobs s))) s,
     length (filter finished (jobs s)))"
  unfolding job_store_remove_completed_def by (subst remove_completed_loop_eq) (auto simp: js_invar_def)

lemma remove_completed_invar: "js_invar s \<Longrightarrow> js_invar (fst (job_store_remove_completed s))"
  by (simp add: remove_completed_eq fold_remove_invar)

lemma remove_jobs: "js_invar s \<Longrightarrow>
    jobs (fst (job_store_remove s i)) = filter (\<lambda>j. job_id j \<noteq> i) (jobs s)"
proof (cases "unlink i (jobs s)")
  case None
  then have "i \<notin> job_id ` set (jobs s)" by (simp add: unlink_None)
  with None show ?thesis
    by (auto simp: job_store_remove_def intro!: filter_True[symmetric])
next
  case (Some js)
  assume "js_invar s"
  with Some unlink_filter [of "jobs s" i js] show ?thesis
    by (simp add: job_store_remove_def js_invar_def)
qed

lemma fold_remove_jobs: "js_invar s \<Longrightarrow>
    jobs (fold (\<lambda>i t. fst (job_store_remove t i)) is s) = filter (\<lambda>j. job_id j \<notin> set is) (jobs s)"
  by (induction "is" arbitrary: s) (auto simp: remove_invar remove_jobs intro: filter_cong)

lemma remove_completed_jobs: "js_invar s \<Longrightarrow>
    jobs (fst (job_store_remove_completed s)) = filter (\<lambda>j. \<not> finished j) (jobs s)"
  by (auto simp: remove_completed_eq fold_remove_jobs js_invar_def distinct_map inj_on_def
           intro!: filter_cong)

subsection \<open>Reachable stores\<close>

datatype job_op =
    Add string bool
  | Add_Process int int string
  | Set_State int job_state_t
  | Set_Process_State int job_state_t int
  | Iter_Set_State job_process_iterator_t job_state_t int
  | Mark_Notified int
  | Report
  | Remove int
  | Remove_Completed

fun job_step :: "job_op \<Rightarrow> job_store_t \<Rightarrow> job_store_t option" where
  "job_step (Add c b) s = map_option fst (job_store_add s c b)"
| "job_step (Add_Process i pid c) s = Some (fst (job_store_add_process s i pid c))"
| "job_step (Set_State i st) s = Some (fst (job_store_set_state s i st))"
| "job_step (Set_Process_State pid st x) s = Some (fst (job_store_set_process_state s pid st x))"
| "job_step (Iter_Set_State it st x) s = Some (fst (job_store_iter_set_state s it st x))"
| "job_step (Mark_Notified i) s = Some (fst (job_store_mark_notified s i))"
| "job_step Report s = Some (fst (job_store_print_completed_jobs s))"
| "job_step (Remove i) s = Some (fst (job_store_remove s i))"
| "job_step Remove_Completed s = Some (fst (job_store_remove_completed s))"

inductive job_reachable :: "job_store_t \<Rightarrow> bool" where
  created: "job_reachable job_store_create"
| stepped: "job_reachable s \<Longrightarrow> job_step op s = Some t \<Longrightarrow> job_reachable t"

lemma step_invar: "job_step op s = Some t \<Longrightarrow> js_invar s \<Longrightarrow> js_invar t"
  by (cases op)
     (auto simp: job_store_add_process_def job_store_set_state_def job_store_mark_notified_def
       remove_invar remove_completed_invar add_invar
       intro: js_invar_same [OF _ on_job_same] js_invar_same [OF _ set_process_state_same]
         js_invar_same [OF _ iter_set_same] js_invar_same [OF _ report_same])

lemma create_invar: "js_invar job_store_create"
  by (simp add: js_invar_def job_store_create_def)

lemma reachable_invar: "job_reachable s \<Longrightarrow> js_invar s"
  by (induction rule: job_reachable.induct) (auto intro: create_invar step_invar)

subsection \<open>The state of a job\<close>

lemma scan_states_eq: "scan_states ps (r, s, t, d) =
    (r \<or> (\<exists>p \<in> set ps. proc_state p = JOB_RUNNING), s \<or> (\<exists>p \<in> set ps. proc_state p = JOB_STOPPED),
     t \<or> (\<exists>p \<in> set ps. proc_state p = JOB_TERMINATED), d \<and> (\<forall>p \<in> set ps. proc_state p = JOB_DONE))"
  by (induction ps arbitrary: r s t d) (auto split: job_state_t.split)

definition summary :: "process_t list \<Rightarrow> job_state_t" where
  "summary ps =
     (if JOB_STOPPED \<in> proc_state ` set ps then JOB_STOPPED
      else if JOB_RUNNING \<in> proc_state ` set ps then JOB_RUNNING
      else if JOB_TERMINATED \<in> proc_state ` set ps then JOB_TERMINATED else JOB_DONE)"

lemma update_state_summary: "job_processes j \<noteq> [] \<Longrightarrow>
    job_update_state j = j\<lparr>job_state := summary (job_processes j)\<rparr>"
  by (auto simp: job_update_state_def scan_states_eq summary_def image_iff Bex_def)
     (metis job_state_t.exhaust)+

lemma find_in_distinct: "distinct (map job_id js) \<Longrightarrow> j \<in> set js \<Longrightarrow>
    find (\<lambda>k. job_id k = job_id j) js = Some j"
  by (induction js) (auto intro: rev_image_eqI)

lemma find_distinct_id:
  "distinct (map job_id (jobs s)) \<Longrightarrow> j \<in> set (jobs s) \<Longrightarrow>
   job_store_find s (job_id j) = Some j"
  by (simp add: job_store_find_def find_in_distinct)

lemma set_first_process_none: "pid \<notin> proc_pid ` set ps \<Longrightarrow> set_first_process pid st x ps = None"
  by (induction ps) auto

lemma set_first_process_found: "pid \<notin> proc_pid ` set ps \<Longrightarrow> proc_pid p = pid \<Longrightarrow>
    set_first_process pid st x (ps @ p # qs) =
      Some (ps @ p\<lparr>proc_state := st, proc_exit_status := x\<rparr> # qs)"
  by (induction ps) auto

lemma set_in_jobs_found:
  "\<forall>i \<in> set newer. pid \<notin> proc_pid ` set (job_processes i) \<Longrightarrow>
   set_first_process pid st x (job_processes j) = Some ps \<Longrightarrow>
   set_in_jobs pid st x (newer @ j # older) =
     Some (newer @ job_update_state (j\<lparr>job_processes := ps\<rparr>) # older)"
  by (induction newer) (auto simp: set_first_process_none)

subsection \<open>The iterator\<close>

text \<open>What a client that calls \<open>next\<close> until it returns false sees, with fuel \<open>n\<close>.\<close>

fun poll_all :: "nat \<Rightarrow> job_store_t \<Rightarrow> job_process_iterator_t \<Rightarrow> (int \<times> int) list option" where
  "poll_all 0 s it = None"
| "poll_all (Suc n) s it =
     (case job_store_active_processes_next s it of
        (it', True) \<Rightarrow>
          map_option ((#) (job_store_iter_get_job_id s it', job_store_iter_get_pid s it'))
            (poll_all n s it')
      | (it', False) \<Rightarrow> Some [])"

definition actives :: "job_t \<Rightarrow> (int \<times> int) list" where
  "actives j = map (\<lambda>p. (job_id j, proc_pid p)) (filter active (job_processes j))"

definition all_actives :: "job_store_t \<Rightarrow> (int \<times> int) list" where
  "all_actives s = concat (map actives (jobs s))"

definition left_over :: "job_store_t \<Rightarrow> job_process_iterator_t \<Rightarrow> (int \<times> int) list" where
  "left_over s it =
     (let n = it_job it in
      case it_process it of
        Some k \<Rightarrow> map (\<lambda>p. (job_id (jobs s ! n), proc_pid p))
                   (filter active (drop (Suc k) (job_processes (jobs s ! n)))) @
                 concat (map actives (drop (Suc n) (jobs s)))
      | None \<Rightarrow> concat (map actives (drop n (jobs s))))"

lemma first_active_None: "first_active ps k = None \<longleftrightarrow> filter active ps = []"
  by (induction ps arbitrary: k) auto

lemma first_active_Some: "first_active ps k = Some m \<Longrightarrow>
    \<exists>i. m = k + i \<and> i < length ps \<and> filter active ps = ps ! i # filter active (drop (Suc i) ps)"
proof (induction ps arbitrary: k)
  case (Cons p ps)
  show ?case
  proof (cases "active p")
    case False
    with Cons.prems Cons.IH [of "k + 1"] obtain i where "m = Suc k + i" "i < length ps"
      "filter active ps = ps ! i # filter active (drop (Suc i) ps)" by auto
    with False show ?thesis by (intro exI [of _ "Suc i"]) simp
  qed (use Cons.prems in auto)
qed simp

lemma next_job_True: "next_job js n = (it, True) \<Longrightarrow>
    \<exists>i k. it = \<lparr>it_job = n + i, it_process = Some k\<rparr> \<and> i < length js \<and>
       k < length (job_processes (js ! i)) \<and>
       concat (map actives js) = (job_id (js ! i), proc_pid (job_processes (js ! i) ! k)) #
         map (\<lambda>p. (job_id (js ! i), proc_pid p))
           (filter active (drop (Suc k) (job_processes (js ! i)))) @
         concat (map actives (drop (Suc i) js))"
proof (induction js n arbitrary: it rule: next_job.induct)
  case (2 j js n)
  show ?case
  proof (cases "first_active (job_processes j) 0")
    case None
    with 2 obtain i k where "it = \<lparr>it_job = Suc n + i, it_process = Some k\<rparr>" "i < length js"
       "k < length (job_processes (js ! i))"
       "concat (map actives js) = (job_id (js ! i), proc_pid (job_processes (js ! i) ! k)) #
         map (\<lambda>p. (job_id (js ! i), proc_pid p))
           (filter active (drop (Suc k) (job_processes (js ! i)))) @
         concat (map actives (drop (Suc i) js))" by fastforce
    moreover from None have "actives j = []" by (simp add: first_active_None actives_def)
    ultimately show ?thesis by (intro exI [of _ "Suc i"] exI [of _ k]) simp
  next
    case (Some k)
    with 2 first_active_Some [OF Some] show ?thesis
      by (intro exI [of _ 0] exI [of _ k]) (auto simp: actives_def)
  qed
qed simp

lemma next_job_False: "next_job js n = (it, False) \<Longrightarrow> concat (map actives js) = []"
  by (induction js n arbitrary: it rule: next_job.induct)
     (auto simp: actives_def first_active_None split: option.splits)

lemma next_True:
  assumes "job_store_active_processes_next s it = (it', True)"
    and "it_process it \<noteq> None \<longrightarrow> it_job it < length (jobs s)"
  shows "it_job it' < length (jobs s) \<and>
     left_over s it =
       (job_store_iter_get_job_id s it', job_store_iter_get_pid s it') # left_over s it'"
proof -
  have search: "it_job it' < length (jobs s) \<and>
     concat (map actives (drop n (jobs s))) =
       (job_store_iter_get_job_id s it', job_store_iter_get_pid s it') # left_over s it'"
    if "next_job (drop n (jobs s)) n = (it', True)" for n
    using next_job_True [OF that]
    by (auto simp: Let_def left_over_def job_store_iter_get_job_id_def job_store_iter_get_pid_def
          iter_job_def iter_process_def add.commute)
  show ?thesis
  proof (cases "it_process it")
    case None
    with assms search [of "it_job it"] show ?thesis
      by (simp add: job_store_active_processes_next_def Let_def left_over_def)
  next
    case (Some k)
    define ps where "ps = job_processes (jobs s ! it_job it)"
    show ?thesis
    proof (cases "first_active (drop (Suc k) ps) (Suc k)")
      case None
      then have nil: "filter active (drop (Suc k) ps) = []" by (simp add: first_active_None)
      from Some None nil assms search [of "Suc (it_job it)"] show ?thesis
        by (simp add: job_store_active_processes_next_def Let_def left_over_def ps_def)
    next
      case (Some m)
      then obtain i where "m = Suc k + i" "i < length (drop (Suc k) ps)"
        "filter active (drop (Suc k) ps) =
           drop (Suc k) ps ! i # filter active (drop (Suc i) (drop (Suc k) ps))"
        using first_active_Some by blast
      with Some \<open>it_process it = Some k\<close> assms show ?thesis
        by (auto simp: job_store_active_processes_next_def Let_def left_over_def ps_def [symmetric]
              job_store_iter_get_job_id_def job_store_iter_get_pid_def iter_job_def
              iter_process_def add.commute)
    qed
  qed
qed

lemma next_False: "job_store_active_processes_next s it = (it', False) \<Longrightarrow> left_over s it = []"
  by (auto simp: job_store_active_processes_next_def Let_def left_over_def first_active_None
        dest: next_job_False split: option.splits)

lemma poll_all_ok:
  "it_process it \<noteq> None \<longrightarrow> it_job it < length (jobs s) \<Longrightarrow> length (left_over s it) < n \<Longrightarrow>
   poll_all n s it = Some (left_over s it)"
proof (induction n arbitrary: it)
  case (Suc n)
  obtain it' b where step: "job_store_active_processes_next s it = (it', b)" by fastforce
  with Suc.prems next_True [of s it it'] next_False [of s it it'] Suc.IH [of it'] show ?case
    by (cases b) simp_all
qed simp

end
