(* ===== verification/Job_Props.thy ===== *)
theory Job_Props
  imports
    Job_Store_Proofs
begin

section \<open>What the job store promises\<close>

text \<open>The properties of the job store, over the lemmas of \<open>Job_Store_Proofs\<close>.\<close>

text \<open>C17: In every state that the operations of the store reach from a new store, the job
  ids are distinct, positive and below the next id, the count is the number of jobs, and
  the references \<open>%+\<close> and \<open>%-\<close> never dangle: each is empty or names a job of the list, and
  \<open>%-\<close> is set only when \<open>%+\<close> is.\<close>

theorem job_references_valid:
  assumes "job_reachable s"
  shows "distinct (map job_id (jobs s)) \<and>
    (\<forall>j \<in> set (jobs s). 1 \<le> job_id j \<and> job_id j < next_job_id s \<and>
       job_store_find s (job_id j) = Some j) \<and>
    job_store_count s = length (jobs s) \<and>
    (current_job s = None \<longleftrightarrow> job_store_get_current s = None) \<and>
    (previous_job s = None \<longleftrightarrow> job_store_get_previous s = None) \<and>
    (previous_job s \<noteq> None \<longrightarrow> current_job s \<noteq> None)"
proof -
  have inv: "js_invar s" using assms by (rule reachable_invar)
  then have found: "job_store_find s (job_id j) = Some j" if "j \<in> set (jobs s)" for j
    using that by (auto simp: js_invar_def intro: find_distinct_id)
  have valid: "r = None \<longleftrightarrow> Option.bind r (job_store_find s) = None"
    if "set_option r \<subseteq> job_id ` set (jobs s)" for r
    using that found by (cases r) auto
  from inv show ?thesis
    by (simp only: js_invar_def job_store_count_def job_store_get_current_def
          job_store_get_previous_def Un_subset_iff) (auto simp: found valid [symmetric])
qed

lemma three_jobs_reachable:
  "job_reachable (the (Option.bind (Option.bind (job_step (Add ''a'' True) job_store_create)
     (job_step (Add ''b'' True))) (job_step (Add ''c'' True))))"
  by (rule stepped [of "the (Option.bind (job_step (Add ''a'' True) job_store_create)
            (job_step (Add ''b'' True)))" "Add ''c'' True"],
      rule stepped [of "the (job_step (Add ''a'' True) job_store_create)" "Add ''b'' True"],
      rule stepped [of job_store_create "Add ''a'' True"], rule created)
     (simp_all add: job_store_add_def c_int_def job_store_create_def Let_def)

definition three_jobs :: job_store_t where
  "three_jobs = \<lparr> jobs = [job_create 3 ''c'' True, job_create 2 ''b'' True, job_create 1 ''a'' True],
     current_job = Some 3, previous_job = Some 2, job_count = 3, next_job_id = 4 \<rparr>"

lemma three_jobs_reached: "job_reachable three_jobs"
  using three_jobs_reachable
  by (simp add: job_store_add_def c_int_def job_store_create_def Let_def three_jobs_def eval_nat_numeral)

theorem job_references_valid_witness:
  "job_store_get_current three_jobs \<noteq> None \<and> job_store_count three_jobs = length (jobs three_jobs)"
  using job_references_valid [OF three_jobs_reached] by (simp add: three_jobs_def)

text \<open>A change of state of a process is recorded in the newest job that has the process,
  and that job's state becomes the summary of its processes: stopped when one is stopped,
  otherwise running when one runs, otherwise terminated when one was terminated, otherwise
  done.  The other jobs and processes are unchanged.\<close>

theorem process_state_reported:
  assumes "jobs s = newer @ j # older" and "job_processes j = ps @ p # qs"
    and "\<forall>i \<in> set newer. pid \<notin> proc_pid ` set (job_processes i)"
    and "pid \<notin> proc_pid ` set ps" and "proc_pid p = pid"
  shows "job_store_set_process_state s pid st x =
    (let ps' = ps @ p\<lparr>proc_state := st, proc_exit_status := x\<rparr> # qs
     in (s\<lparr>jobs := newer @ j\<lparr>job_processes := ps', job_state := summary ps'\<rparr> # older\<rparr>, True))"
  using assms set_first_process_found [of pid ps p st x qs]
  by (simp add: job_store_set_process_state_def set_in_jobs_found update_state_summary Let_def)

theorem process_state_reported_witness:
  "let p = process_create 7 ''b''; q = process_create 8 ''c'';
       s = job_store_create\<lparr>jobs := [(job_create 1 ''b|c'' True)\<lparr>job_processes := [p, q]\<rparr>]\<rparr>
   in job_state (hd (jobs (fst (job_store_set_process_state s 8 JOB_STOPPED 0)))) = JOB_STOPPED"
  using process_state_reported [of "job_store_create\<lparr>jobs := [(job_create 1 ''b|c'' True)
      \<lparr>job_processes := [process_create 7 ''b'', process_create 8 ''c'']\<rparr>]\<rparr>" "[]"
      "(job_create 1 ''b|c'' True)\<lparr>job_processes := [process_create 7 ''b'', process_create 8 ''c'']\<rparr>"
      "[]" "[process_create 7 ''b'']" "process_create 8 ''c''" "[]" 8 JOB_STOPPED 0]
  by (simp add: process_create_def Let_def summary_def)

text \<open>Removing the completed jobs in one walk over the list is removing each completed
  and notified job with \<open>job_store_remove\<close>, newest first; what is left are exactly the
  other jobs, in order, and the result is the number of jobs removed.\<close>

theorem remove_completed_one_by_one:
  assumes "job_reachable s"
  shows "job_store_remove_completed s =
      (fold (\<lambda>i t. fst (job_store_remove t i)) (map job_id (filter finished (jobs s))) s,
       length (filter finished (jobs s))) \<and>
    jobs (fst (job_store_remove_completed s)) = filter (\<lambda>j. \<not> finished j) (jobs s)"
  using reachable_invar [OF assms] by (intro conjI remove_completed_eq remove_completed_jobs)

lemma one_done_reached:
  "job_reachable (fst (job_store_mark_notified (fst (job_store_set_state three_jobs 2 JOB_DONE)) 2))"
  by (rule stepped [of "fst (job_store_set_state three_jobs 2 JOB_DONE)" "Mark_Notified 2"],
      rule stepped [of three_jobs "Set_State 2 JOB_DONE"], rule three_jobs_reached) simp_all

theorem remove_completed_one_by_one_witness:
  "let s = fst (job_store_mark_notified (fst (job_store_set_state three_jobs 2 JOB_DONE)) 2)
   in map job_id (jobs (fst (job_store_remove_completed s))) = [3, 1]"
proof -
  let ?s = "fst (job_store_mark_notified (fst (job_store_set_state three_jobs 2 JOB_DONE)) 2)"
  have "jobs (fst (job_store_remove_completed ?s)) = filter (\<lambda>j. \<not> finished j) (jobs ?s)"
    using remove_completed_one_by_one [OF one_done_reached] by (rule conjunct2)
  also have "map job_id \<dots> = [3, 1]"
    by (simp add: job_store_mark_notified_def job_store_set_state_def on_job_def
          job_store_find_def three_jobs_def job_create_def job_is_completed_def)
  finally show ?thesis by (simp add: Let_def)
qed

text \<open>C23: Polling ends and misses nothing: a client that starts the iterator and calls
  \<open>next\<close> until it returns false sees every running or stopped process of every job once,
  in the order of the list, with the id of its job, and one more call than there are such
  processes is enough.\<close>

theorem polling_visits_active:
  assumes "length (all_actives s) < n"
  shows "poll_all n s (job_store_active_processes_begin s) = Some (all_actives s)"
  using assms poll_all_ok [of "job_store_active_processes_begin s" s n]
  by (simp add: left_over_def job_store_active_processes_begin_def all_actives_def)

theorem polling_visits_active_witness:
  "let p = process_create 7 ''b''; q = process_create 8 ''c'';
       s = job_store_create\<lparr>jobs := [job_create 2 ''d'' True,
             (job_create 1 ''b|c'' True)\<lparr>job_processes := [p\<lparr>proc_state := JOB_DONE\<rparr>, q]\<rparr>]\<rparr>
   in poll_all 2 s (job_store_active_processes_begin s) = Some [(1, 8)]"
  using polling_visits_active [of "job_store_create\<lparr>jobs := [job_create 2 ''d'' True,
      (job_create 1 ''b|c'' True)\<lparr>job_processes :=
        [(process_create 7 ''b'')\<lparr>proc_state := JOB_DONE\<rparr>, process_create 8 ''c'']\<rparr>]\<rparr>" 2]
  by (simp add: process_create_def job_create_def Let_def all_actives_def actives_def active_def)

text \<open>The reference to the current job can be lost while background jobs remain: with
  three background jobs, removing the current one makes \<open>%+\<close> and \<open>%-\<close> both name job 2, and
  removing that one too leaves no current job although job 1 is still in the store.\<close>

theorem current_job_lost:
  "let s = fst (job_store_remove three_jobs 3); t = fst (job_store_remove s 2)
   in current_job s = Some 2 \<and> previous_job s = Some 2 \<and>
      job_store_get_current t = None \<and> job_store_first t = Some (job_create 1 ''a'' True)"
  by (simp add: Let_def job_store_remove_def drop_references_def three_jobs_def job_create_def
        job_store_get_current_def job_store_first_def)

end
