(* ===== verification/Positional_Params.thy ===== *)
theory Positional_Params
  imports
    Prelude
begin

section \<open>Positional parameters (positional\_params.c)\<close>

text \<open>
  \<open>$0\<close> and the list \<open>$1\<close>, \<open>$2\<close>, ... of a frame.  The array of parameters is NULL (\<open>None\<close>) or a
  block of slots, each NULL or a string; every access is checked against the block, and \<open>None\<close>
  is an access outside it, the use of a NULL string, or a violated contract.  The last part
  relates every operation to the list of parameters.
\<close>

abbreviation POSITIONAL_PARAMS_MAX :: int where "POSITIONAL_PARAMS_MAX \<equiv> 4096"

record positional_params_t =
  pp_arg0 :: "string option"
  pp_params :: "string option list option"
  pp_count :: int
  pp_max :: int

subsection \<open>Operations\<close>

definition positional_params_create :: positional_params_t where
  "positional_params_create =
     \<lparr> pp_arg0 = None, pp_params = None, pp_count = 0, pp_max = POSITIONAL_PARAMS_MAX \<rparr>"

definition slot :: "positional_params_t \<Rightarrow> int \<Rightarrow> string option option" where
  \<comment> \<open>reading \<open>params->params[i]\<close>\<close>
  "slot p i =
     do { a \<leftarrow> pp_params p;
          if 0 \<le> i \<and> nat i < length a then Some (a ! nat i) else None }"

fun read_slots :: "nat \<Rightarrow> int \<Rightarrow> positional_params_t \<Rightarrow> string list option" where
  \<comment> \<open>the strings of \<open>n\<close> slots from slot \<open>i\<close>, each of them used\<close>
  "read_slots 0 i p = Some []"
| "read_slots (Suc n) i p =
     do { s \<leftarrow> slot p i; s \<leftarrow> s; ss \<leftarrow> read_slots n (i + 1) p; Some (s # ss) }"

definition positional_params_create_from_array ::
    "string \<Rightarrow> int \<Rightarrow> string option list \<Rightarrow> positional_params_t option option" where
  \<comment> \<open>\<open>Some None\<close> is the result NULL\<close>
  "positional_params_create_from_array arg0 count params =
     (if count < 0 then None
      else if count > POSITIONAL_PARAMS_MAX then Some None
      else if nat count \<le> length params \<and> None \<notin> set (take (nat count) params)
      then Some (Some \<lparr> pp_arg0 = Some arg0, pp_params = Some (take (nat count) params @ [None]),
                        pp_count = count, pp_max = POSITIONAL_PARAMS_MAX \<rparr>)
      else None)"

definition positional_params_create_from_strlist ::
    "string \<Rightarrow> string list \<Rightarrow> positional_params_t option" where
  "positional_params_create_from_strlist arg0 params =
     (if int (length params) > POSITIONAL_PARAMS_MAX then None
      else Some \<lparr> pp_arg0 = Some arg0, pp_params = Some (map Some params @ [None]),
                  pp_count = int (length params), pp_max = POSITIONAL_PARAMS_MAX \<rparr>)"

definition positional_params_create_from_argv ::
    "string \<Rightarrow> int \<Rightarrow> string list \<Rightarrow> positional_params_t option option" where
  "positional_params_create_from_argv arg0 argc argv =
     (if argc < 0 then None
      else if argc > POSITIONAL_PARAMS_MAX then Some None
      else if argc = 0
      then Some (Some \<lparr> pp_arg0 = Some (cstr_of arg0), pp_params = None, pp_count = 0,
                        pp_max = POSITIONAL_PARAMS_MAX \<rparr>)
      else if nat argc \<le> length argv
      then Some (Some \<lparr> pp_arg0 = Some (cstr_of arg0),
                        pp_params = Some (map (Some \<circ> cstr_of) (take (nat argc) argv) @ [None]),
                        pp_count = argc, pp_max = POSITIONAL_PARAMS_MAX \<rparr>)
      else None)"

definition positional_params_clone :: "positional_params_t \<Rightarrow> positional_params_t option" where
  "positional_params_clone src =
     (let p = \<lparr> pp_arg0 = Some (case pp_arg0 src of Some a \<Rightarrow> a | None \<Rightarrow> ''miga''),
                pp_params = None, pp_count = pp_count src, pp_max = pp_max src \<rparr>
      in if pp_count src = 0 \<or> pp_params src = None then Some p
         else do { ss \<leftarrow> read_slots (nat (pp_count src)) 0 src;
                   Some (p\<lparr>pp_params := Some (map Some ss)\<rparr>) })"

definition positional_params_get :: "positional_params_t \<Rightarrow> int \<Rightarrow> string option option" where
  "positional_params_get p n =
     (if n < 1 then None else if n > pp_count p then Some None else slot p (n - 1))"

definition positional_params_get_arg0 :: "positional_params_t \<Rightarrow> string option" where
  "positional_params_get_arg0 p = pp_arg0 p"

definition positional_params_count :: "positional_params_t \<Rightarrow> int" where
  "positional_params_count p = pp_count p"

definition positional_params_get_all :: "positional_params_t \<Rightarrow> string list option" where
  "positional_params_get_all p =
     (if pp_params p = None \<or> pp_count p = 0 then Some []
      else read_slots (nat (pp_count p)) 0 p)"

fun join_slots :: "nat \<Rightarrow> int \<Rightarrow> char \<Rightarrow> positional_params_t \<Rightarrow> string \<Rightarrow> string option" where
  \<comment> \<open>\<open>n\<close> rounds of the loop that appends, from slot \<open>i\<close>\<close>
  "join_slots 0 i sep p result = Some result"
| "join_slots (Suc n) i sep p result =
     do { s \<leftarrow> slot p i; s \<leftarrow> s;
          join_slots n (i + 1) sep p ((if i > 0 then result @ [sep] else result) @ s) }"

definition positional_params_get_all_joined :: "positional_params_t \<Rightarrow> char \<Rightarrow> string option" where
  "positional_params_get_all_joined p sep =
     (if sep = NUL then None
      else if pp_params p = None \<or> pp_count p = 0 then Some []
      else join_slots (nat (pp_count p)) 0 sep p [])"

definition positional_params_set_arg0 :: "positional_params_t \<Rightarrow> string \<Rightarrow> positional_params_t" where
  "positional_params_set_arg0 p arg0 = p\<lparr>pp_arg0 := Some arg0\<rparr>"

fun move_slots :: "nat \<Rightarrow> int \<Rightarrow> positional_params_t \<Rightarrow> string option list option" where
  \<comment> \<open>reading \<open>n\<close> pointers from slot \<open>i\<close>, to free the strings or to copy them to a new array\<close>
  "move_slots 0 i p = Some []"
| "move_slots (Suc n) i p = do { s \<leftarrow> slot p i; ss \<leftarrow> move_slots n (i + 1) p; Some (s # ss) }"

definition positional_params_replace ::
    "positional_params_t \<Rightarrow> string option list option \<Rightarrow> int \<Rightarrow> (positional_params_t \<times> bool) option" where
  "positional_params_replace p new_params count =
     (if count < 0 \<or> (count > 0 \<and> new_params = None) then None
      else if count > pp_max p then Some (p, False)
      else do { _ \<leftarrow> (if pp_params p = None then Some [] else move_slots (nat (pp_count p)) 0 p);
                Some (p\<lparr>pp_params := new_params, pp_count := count\<rparr>, True) })"

definition positional_params_shift ::
    "positional_params_t \<Rightarrow> int \<Rightarrow> (positional_params_t \<times> bool) option" where
  "positional_params_shift p n =
     (if n < 0 then None
      else if n > pp_count p then Some (p, False)
      else if n = 0 then Some (p, True)
      else do { _ \<leftarrow> move_slots (nat n) 0 p;
                let new_count = pp_count p - n;
                if new_count = 0 then Some (p\<lparr>pp_params := None, pp_count := 0\<rparr>, True)
                else do { new \<leftarrow> move_slots (nat new_count) n p;
                          Some (p\<lparr>pp_params := Some new, pp_count := new_count\<rparr>, True) } })"

definition positional_params_set_max :: "positional_params_t \<Rightarrow> int \<Rightarrow> positional_params_t option" where
  "positional_params_set_max p n =
     (if 0 < n \<and> n \<le> POSITIONAL_PARAMS_MAX then Some (p\<lparr>pp_max := n\<rparr>) else None)"

definition positional_params_get_max :: "positional_params_t \<Rightarrow> int" where
  "positional_params_get_max p = pp_max p"

subsection \<open>The list of parameters\<close>

definition pp_list :: "positional_params_t \<Rightarrow> string list" where
  "pp_list p = (case pp_params p of None \<Rightarrow> []
     | Some a \<Rightarrow> map the (take (nat (pp_count p)) a))"

definition pp_invar :: "positional_params_t \<Rightarrow> bool" where
  "pp_invar p \<longleftrightarrow> 0 \<le> pp_count p \<and> pp_count p \<le> POSITIONAL_PARAMS_MAX \<and>
     0 < pp_max p \<and> pp_max p \<le> POSITIONAL_PARAMS_MAX \<and>
     (case pp_params p of None \<Rightarrow> pp_count p = 0
      | Some a \<Rightarrow> nat (pp_count p) \<le> length a \<and> None \<notin> set (take (nat (pp_count p)) a))"

lemma slot_ok: "pp_invar p \<Longrightarrow> 0 \<le> i \<Longrightarrow> i < pp_count p \<Longrightarrow>
    slot p i = Some (Some (pp_list p ! nat i))"
proof -
  assume inv: "pp_invar p" and i: "0 \<le> i" "i < pp_count p"
  then obtain a where a: "pp_params p = Some a" "nat (pp_count p) \<le> length a"
    "None \<notin> set (take (nat (pp_count p)) a)"
    by (auto simp: pp_invar_def split: option.splits)
  from i have n: "nat i < nat (pp_count p)" by simp
  with a(2,3) have "a ! nat i \<noteq> None"
    by (metis in_set_conv_nth length_take min.absorb2 nth_take)
  with a n i show ?thesis by (auto simp: slot_def pp_list_def)
qed

lemma pp_length: "pp_invar p \<Longrightarrow> int (length (pp_list p)) = pp_count p"
  by (auto simp: pp_invar_def pp_list_def min_def split: option.splits)

lemma read_slots_ok: "pp_invar p \<Longrightarrow> 0 \<le> i \<Longrightarrow> i + int n \<le> pp_count p \<Longrightarrow>
    read_slots n i p = Some (take n (drop (nat i) (pp_list p)))"
proof (induction n arbitrary: i)
  case (Suc n)
  then have "nat i < length (pp_list p)" using pp_length [of p] by simp
  then have "drop (nat i) (pp_list p) = pp_list p ! nat i # drop (nat (i + 1)) (pp_list p)"
    using Suc.prems(2) by (simp add: Cons_nth_drop_Suc [symmetric] nat_add_distrib)
  with Suc show ?case by (simp add: slot_ok)
qed simp

lemma move_slots_ok: "pp_invar p \<Longrightarrow> 0 \<le> i \<Longrightarrow> i + int n \<le> pp_count p \<Longrightarrow>
    move_slots n i p = Some (map Some (take n (drop (nat i) (pp_list p))))"
proof (induction n arbitrary: i)
  case (Suc n)
  then have "nat i < length (pp_list p)" using pp_length [of p] by simp
  then have "drop (nat i) (pp_list p) = pp_list p ! nat i # drop (nat (i + 1)) (pp_list p)"
    using Suc.prems(2) by (simp add: Cons_nth_drop_Suc [symmetric] nat_add_distrib)
  with Suc show ?case by (simp add: slot_ok)
qed simp

definition joined :: "char \<Rightarrow> string list \<Rightarrow> string" where
  "joined sep xs = concat (map (\<lambda>x. sep # x) xs)"

lemma join_slots_ok: "pp_invar p \<Longrightarrow> 0 < i \<Longrightarrow> i + int n \<le> pp_count p \<Longrightarrow>
    join_slots n i sep p r = Some (r @ joined sep (take n (drop (nat i) (pp_list p))))"
proof (induction n arbitrary: i r)
  case (Suc n)
  then have "nat i < length (pp_list p)" using pp_length [of p] by simp
  then have "drop (nat i) (pp_list p) = pp_list p ! nat i # drop (nat (i + 1)) (pp_list p)"
    using Suc.prems(2) by (simp add: Cons_nth_drop_Suc [symmetric] nat_add_distrib)
  with Suc show ?case by (simp add: slot_ok joined_def)
qed (simp add: joined_def)

lemma get_all_ok:
  assumes "pp_invar p"
  shows "positional_params_get_all p = Some (pp_list p)"
proof -
  have "0 \<le> pp_count p" using assms by (simp add: pp_invar_def)
  then show ?thesis
    using read_slots_ok [of p 0 "nat (pp_count p)"] pp_length [OF assms] assms
    by (auto simp: positional_params_get_all_def pp_list_def)
qed

lemma joined_ok:
  assumes inv: "pp_invar p" and "sep \<noteq> NUL"
  shows "positional_params_get_all_joined p sep =
    Some (case pp_list p of [] \<Rightarrow> [] | x # xs \<Rightarrow> x @ joined sep xs)"
proof (cases "pp_list p")
  case Nil
  then have "pp_count p = 0" using pp_length [OF inv] by simp
  with assms Nil show ?thesis by (simp add: positional_params_get_all_joined_def)
next
  case (Cons x xs)
  then have n: "pp_count p = 1 + int (length xs)" using pp_length [OF inv] by simp
  then have "nat (pp_count p) = Suc (length xs)" "pp_params p \<noteq> None"
    using inv by (auto simp: pp_invar_def split: option.splits)
  with n show ?thesis
    using assms Cons slot_ok [OF inv, of 0] join_slots_ok [OF inv, of 1 "length xs" sep x]
    by (auto simp: positional_params_get_all_joined_def)
qed

lemma shift_ok:
  assumes inv: "pp_invar p" and n: "0 \<le> n"
  shows "\<exists>q. positional_params_shift p n = Some (q, n \<le> pp_count p) \<and> pp_invar q \<and>
    pp_list q = (if n \<le> pp_count p then drop (nat n) (pp_list p) else pp_list p)"
proof (cases "n = 0 \<or> n > pp_count p")
  case True
  with inv n show ?thesis
    by (auto simp: positional_params_shift_def pp_invar_def)
next
  case False
  define m where "m = pp_count p - n"
  have free: "move_slots (nat n) 0 p \<noteq> None" using move_slots_ok [OF inv, of 0 "nat n"] n False by simp
  have move: "move_slots (nat m) n p = Some (map Some (drop (nat n) (pp_list p)))"
    using move_slots_ok [OF inv, of n "nat m"] n False pp_length [OF inv] by (simp add: m_def)
  show ?thesis
  proof (cases "m = 0")
    case True
    then have "drop (nat n) (pp_list p) = []" using pp_length [OF inv] by (simp add: m_def)
    with False True free n inv show ?thesis
      by (auto simp: positional_params_shift_def Let_def m_def pp_invar_def pp_list_def)
  next
    assume m: "m \<noteq> 0"
    with False free n move have "positional_params_shift p n =
        Some (p\<lparr>pp_params := Some (map Some (drop (nat n) (pp_list p))), pp_count := m\<rparr>, True)"
      by (auto simp: positional_params_shift_def Let_def m_def)
    with m False n inv pp_length [OF inv] show ?thesis
      by (auto simp: m_def pp_invar_def pp_list_def comp_def)
  qed
qed

lemma pp_clone_ok:
  assumes inv: "pp_invar p"
  shows "\<exists>q. positional_params_clone p = Some q \<and> pp_invar q \<and> pp_list q = pp_list p"
proof (cases "pp_count p = 0 \<or> pp_params p = None")
  case True
  then have "pp_count p = 0" "pp_list p = []"
    using inv pp_length [OF inv] by (auto simp: pp_invar_def)
  with inv show ?thesis
    by (auto simp: positional_params_clone_def Let_def pp_invar_def pp_list_def)
next
  case False
  then have "read_slots (nat (pp_count p)) 0 p = Some (pp_list p)"
    using get_all_ok [OF inv] by (auto simp: positional_params_get_all_def)
  with False inv pp_length [OF inv] show ?thesis
    by (auto simp: positional_params_clone_def Let_def pp_invar_def pp_list_def comp_def)
qed

lemma replace_ok:
  assumes inv: "pp_invar p" and new: "0 \<le> c" "c = int (length xs)"
  shows "positional_params_replace p (Some (map Some xs)) c =
      Some (if c \<le> pp_max p then (p\<lparr>pp_params := Some (map Some xs), pp_count := c\<rparr>, True) else (p, False))"
  using move_slots_ok [OF inv, of 0 "nat (pp_count p)"] inv new
  by (auto simp: positional_params_replace_def pp_invar_def)

text \<open>C22: The positional parameters are a list, and no operation on them reads a slot outside
  the array or a NULL string: reading one, all or all joined gives the elements of the list,
  and NULL beyond its end; \<open>shift n\<close> drops the first \<open>n\<close> when there are as many and fails
  without a change otherwise; a clone has the same list; and replacing installs the new list,
  exactly when it is within the configured maximum.\<close>

theorem positional_params_are_list:
  assumes "pp_invar p"
  shows "positional_params_count p = int (length (pp_list p)) \<and>
    positional_params_get_all p = Some (pp_list p) \<and>
    positional_params_get p (int k + 1) =
      Some (if k < length (pp_list p) then Some (pp_list p ! k) else None) \<and>
    positional_params_get_all_joined p CHR '' '' =
      Some (case pp_list p of [] \<Rightarrow> [] | x # xs \<Rightarrow> x @ joined CHR '' '' xs) \<and>
    (\<exists>q. positional_params_shift p (int n) = Some (q, n \<le> length (pp_list p)) \<and> pp_invar q \<and>
       pp_list q = (if n \<le> length (pp_list p) then drop n (pp_list p) else pp_list p)) \<and>
    (\<exists>q. positional_params_clone p = Some q \<and> pp_invar q \<and> pp_list q = pp_list p) \<and>
    (\<exists>q. positional_params_replace p (Some (map Some new)) (int (length new)) =
         Some (q, int (length new) \<le> pp_max p) \<and> pp_invar q \<and>
       pp_list q = (if int (length new) \<le> pp_max p then new else pp_list p))"
proof -
  have len: "pp_count p = int (length (pp_list p))" using pp_length [OF assms] by simp
  have "positional_params_get p (int k + 1) =
      Some (if k < length (pp_list p) then Some (pp_list p ! k) else None)"
    using slot_ok [OF assms, of "int k"] by (simp add: positional_params_get_def len)
  moreover have "pp_invar (p\<lparr>pp_params := Some (map Some new), pp_count := int (length new)\<rparr>) \<and>
      pp_list (p\<lparr>pp_params := Some (map Some new), pp_count := int (length new)\<rparr>) = new"
    if "int (length new) \<le> pp_max p"
    using assms that by (auto simp: pp_invar_def pp_list_def comp_def)
  ultimately show ?thesis
    using get_all_ok [OF assms] joined_ok [OF assms, of "CHR '' ''"] shift_ok [OF assms, of "int n"]
      pp_clone_ok [OF assms] replace_ok [OF assms, of "int (length new)" new] assms
    by (auto simp: positional_params_count_def len)
qed

theorem positional_params_are_list_witness:
  "\<exists>p q. positional_params_create_from_argv ''sh'' 3 [''a'', ''b'', ''c''] = Some (Some p) \<and>
     positional_params_shift p 2 = Some (q, True) \<and> pp_list q = [''c''] \<and>
     positional_params_get p 1 = Some (Some ''a'') \<and>
     positional_params_get_all_joined p CHR '' '' = Some ''a b c''"
proof -
  define p where "p = \<lparr> pp_arg0 = Some ''sh'', pp_params = Some [Some ''a'', Some ''b'', Some ''c'', None],
      pp_count = 3, pp_max = POSITIONAL_PARAMS_MAX \<rparr>"
  have "positional_params_create_from_argv ''sh'' 3 [''a'', ''b'', ''c''] = Some (Some p)"
    by (simp add: positional_params_create_from_argv_def p_def cstr_of_def)
  moreover have "pp_invar p" "pp_list p = [''a'', ''b'', ''c'']"
    by (simp_all add: p_def pp_invar_def pp_list_def)
  ultimately show ?thesis
    using positional_params_are_list [of p 0 2 "[]"] by (auto simp: joined_def)
qed

end
