(* ===== verification/Fd_Table.thy ===== *)
theory Fd_Table
  imports
    Prelude
begin

section \<open>The file descriptor table (fd\_table.c)\<close>

text \<open>
  What the shell knows of its descriptors: a dynamic array of entries, at most one for a
  descriptor, and the highest descriptor in it.  A slot of the array that has never been
  written is \<open>None\<close>; the length of the array is the capacity.  A result \<open>None\<close> of an operation
  is an access outside the array or of a slot never written; the second part shows that it
  does not happen.  Flags are 32-bit words.
\<close>

unbundle bit_operations_syntax

subsection \<open>State\<close>

type_synonym fd_flags_t = "32 word"

abbreviation FD_IS_DEFAULT :: fd_flags_t where "FD_IS_DEFAULT \<equiv> 0"
abbreviation FD_IS_CLOSE_ON_EXEC :: fd_flags_t where "FD_IS_CLOSE_ON_EXEC \<equiv> 1"
abbreviation FD_IS_REDIRECTED :: fd_flags_t where "FD_IS_REDIRECTED \<equiv> 2"
abbreviation FD_IS_SAVED :: fd_flags_t where "FD_IS_SAVED \<equiv> 4"

record fd_entry_t =
  fe_fd :: int
  fe_original_fd :: int
  fe_flags :: fd_flags_t
  fe_is_open :: bool
  fe_path :: "string option"

record fd_table_t =
  ft_entries :: "fd_entry_t option list"
  ft_count :: nat
  ft_highest_fd :: int

definition ft_capacity :: "fd_table_t \<Rightarrow> nat" where
  "ft_capacity t = length (ft_entries t)"

definition fd_table_create :: fd_table_t where
  "fd_table_create = \<lparr> ft_entries = replicate 16 None, ft_count = 0, ft_highest_fd = -1 \<rparr>"

subsection \<open>Access to the array\<close>

definition entry_at_index :: "fd_table_t \<Rightarrow> nat \<Rightarrow> fd_entry_t option" where
  "entry_at_index t i = (if i < length (ft_entries t) then ft_entries t ! i else None)"

definition write_entry :: "fd_table_t \<Rightarrow> nat \<Rightarrow> fd_entry_t \<Rightarrow> fd_table_t option" where
  "write_entry t i e =
     (if i < length (ft_entries t) then Some (t\<lparr>ft_entries := (ft_entries t)[i := Some e]\<rparr>) else None)"

fun find_from :: "nat \<Rightarrow> nat \<Rightarrow> int \<Rightarrow> fd_table_t \<Rightarrow> nat option option" where
  \<comment> \<open>\<open>n\<close> rounds of the loop, from index \<open>i\<close>\<close>
  "find_from 0 i fd t = Some None"
| "find_from (Suc n) i fd t =
     do { e \<leftarrow> entry_at_index t i;
          if fe_fd e = fd then Some (Some i) else find_from n (i + 1) fd t }"

definition find_entry_index :: "fd_table_t \<Rightarrow> int \<Rightarrow> nat option option" where
  "find_entry_index t fd = find_from (ft_count t) 0 fd t"

definition ensure_capacity :: "fd_table_t \<Rightarrow> fd_table_t" where
  "ensure_capacity t =
     (if ft_count t + 4 < ft_capacity t then t
      else t\<lparr>ft_entries := ft_entries t @ replicate (ft_capacity t) None\<rparr>)"

definition clear_fd_entry :: "fd_entry_t \<Rightarrow> fd_entry_t" where
  "clear_fd_entry e = e\<lparr>fe_fd := -1, fe_original_fd := -1, fe_flags := FD_IS_DEFAULT, fe_is_open := False\<rparr>"

subsection \<open>Operations\<close>

definition append_entry :: "fd_table_t \<Rightarrow> fd_entry_t \<Rightarrow> fd_table_t option" where
  \<comment> \<open>the part that \<open>fd_table_add\<close> and \<open>fd_table_mark_saved\<close> share\<close>
  "append_entry t e =
     do { let t = ensure_capacity t;
          t \<leftarrow> write_entry t (ft_count t) e;
          let t = t\<lparr>ft_count := ft_count t + 1\<rparr>;
          Some (if fe_fd e > ft_highest_fd t then t\<lparr>ft_highest_fd := fe_fd e\<rparr> else t) }"

definition fd_table_add :: "fd_table_t \<Rightarrow> int \<Rightarrow> fd_flags_t \<Rightarrow> string \<Rightarrow> fd_table_t option" where
  "fd_table_add t fd flags path =
     do { r \<leftarrow> find_entry_index t fd;
          case r of
            Some i \<Rightarrow> do { e \<leftarrow> entry_at_index t i;
                           write_entry t i (e\<lparr>fe_path := Some path, fe_flags := flags, fe_is_open := True\<rparr>) }
          | None \<Rightarrow> append_entry t \<lparr> fe_fd = fd, fe_original_fd = -1, fe_flags = flags,
                      fe_is_open = True, fe_path = Some path \<rparr> }"

definition fd_table_mark_saved :: "fd_table_t \<Rightarrow> int \<Rightarrow> int \<Rightarrow> fd_table_t option" where
  "fd_table_mark_saved t saved_fd original_fd =
     do { r \<leftarrow> find_entry_index t saved_fd;
          case r of
            Some i \<Rightarrow> do { e \<leftarrow> entry_at_index t i;
                           write_entry t i (e\<lparr>fe_original_fd := original_fd,
                             fe_flags := fe_flags e OR FD_IS_SAVED\<rparr>) }
          | None \<Rightarrow> append_entry t \<lparr> fe_fd = saved_fd, fe_original_fd = original_fd,
                      fe_flags = FD_IS_SAVED, fe_is_open = True, fe_path = Some ''(unknown)'' \<rparr> }"

definition update_found ::
    "fd_table_t \<Rightarrow> int \<Rightarrow> (fd_entry_t \<Rightarrow> fd_entry_t) \<Rightarrow> (fd_table_t \<times> bool) option" where
  \<comment> \<open>the operations that change the entry of a descriptor, if there is one\<close>
  "update_found t fd f =
     do { r \<leftarrow> find_entry_index t fd;
          case r of None \<Rightarrow> Some (t, False)
          | Some i \<Rightarrow> do { e \<leftarrow> entry_at_index t i;
                          t \<leftarrow> write_entry t i (f e);
                          Some (t, True) } }"

definition fd_table_mark_closed :: "fd_table_t \<Rightarrow> int \<Rightarrow> (fd_table_t \<times> bool) option" where
  "fd_table_mark_closed t fd = update_found t fd (fe_is_open_update (\<lambda>_. False))"

definition fd_table_mark_open :: "fd_table_t \<Rightarrow> int \<Rightarrow> (fd_table_t \<times> bool) option" where
  "fd_table_mark_open t fd = update_found t fd (fe_is_open_update (\<lambda>_. True))"

definition fd_table_set_flag :: "fd_table_t \<Rightarrow> int \<Rightarrow> fd_flags_t \<Rightarrow> (fd_table_t \<times> bool) option" where
  "fd_table_set_flag t fd flag = update_found t fd (fe_flags_update (\<lambda>f. f OR flag))"

definition fd_table_clear_flag :: "fd_table_t \<Rightarrow> int \<Rightarrow> fd_flags_t \<Rightarrow> (fd_table_t \<times> bool) option" where
  "fd_table_clear_flag t fd flag = update_found t fd (fe_flags_update (\<lambda>f. f AND NOT flag))"

fun highest_from :: "nat \<Rightarrow> nat \<Rightarrow> int \<Rightarrow> fd_table_t \<Rightarrow> int option" where
  \<comment> \<open>\<open>n\<close> rounds of the loop that recomputes \<open>highest_fd\<close>\<close>
  "highest_from 0 i h t = Some h"
| "highest_from (Suc n) i h t =
     do { e \<leftarrow> entry_at_index t i;
          highest_from n (i + 1) (if fe_fd e > h then fe_fd e else h) t }"

definition fd_table_remove :: "fd_table_t \<Rightarrow> int \<Rightarrow> (fd_table_t \<times> bool) option" where
  "fd_table_remove t fd =
     do { r \<leftarrow> find_entry_index t fd;
          case r of None \<Rightarrow> Some (t, False)
          | Some i \<Rightarrow>
              do { e \<leftarrow> entry_at_index t i;
                   t \<leftarrow> write_entry t i ((clear_fd_entry e)\<lparr>fe_path := None\<rparr>);
                   t \<leftarrow> (if i < ft_count t - 1
                         then do { l \<leftarrow> entry_at_index t (ft_count t - 1); write_entry t i l }
                         else Some t);
                   let t = t\<lparr>ft_count := ft_count t - 1\<rparr>;
                   if fd = ft_highest_fd t
                   then do { h \<leftarrow> highest_from (ft_count t) 0 (- 1) t;
                             Some (t\<lparr>ft_highest_fd := h\<rparr>, True) }
                   else Some (t, True) } }"

subsection \<open>Queries\<close>

definition fd_table_find :: "fd_table_t \<Rightarrow> int \<Rightarrow> fd_entry_t option option" where
  "fd_table_find t fd =
     do { r \<leftarrow> find_entry_index t fd;
          case r of None \<Rightarrow> Some None
          | Some i \<Rightarrow> map_option Some (entry_at_index t i) }"

definition query :: "'a \<Rightarrow> (fd_entry_t \<Rightarrow> 'a) \<Rightarrow> fd_table_t \<Rightarrow> int \<Rightarrow> 'a option" where
  \<comment> \<open>the shape of the accessors below, with the value for a descriptor not in the table\<close>
  "query dflt f t fd = map_option (\<lambda>r. case r of None \<Rightarrow> dflt | Some e \<Rightarrow> f e) (fd_table_find t fd)"

definition fd_table_is_open :: "fd_table_t \<Rightarrow> int \<Rightarrow> bool option" where
  "fd_table_is_open = query False fe_is_open"

definition fd_table_get_flags :: "fd_table_t \<Rightarrow> int \<Rightarrow> fd_flags_t option" where
  "fd_table_get_flags = query FD_IS_DEFAULT fe_flags"

definition fd_table_has_flag :: "fd_table_t \<Rightarrow> int \<Rightarrow> fd_flags_t \<Rightarrow> bool option" where
  "fd_table_has_flag t fd flag = query False (\<lambda>e. fe_flags e AND flag \<noteq> 0) t fd"

definition fd_table_get_original :: "fd_table_t \<Rightarrow> int \<Rightarrow> int option" where
  "fd_table_get_original = query (- 1) fe_original_fd"

definition fd_table_get_original_fd :: "fd_table_t \<Rightarrow> int \<Rightarrow> int option" where
  "fd_table_get_original_fd = query (- 1) fe_original_fd"

definition fd_table_get_path :: "fd_table_t \<Rightarrow> int \<Rightarrow> string option option" where
  "fd_table_get_path = query None fe_path"

fun fds_from :: "nat \<Rightarrow> nat \<Rightarrow> fd_flags_t \<Rightarrow> fd_table_t \<Rightarrow> int list option" where
  "fds_from 0 i flag t = Some []"
| "fds_from (Suc n) i flag t =
     do { e \<leftarrow> entry_at_index t i;
          fds \<leftarrow> fds_from n (i + 1) flag t;
          Some (if fe_flags e AND flag \<noteq> 0 then fe_fd e # fds else fds) }"

definition fd_table_get_fds_with_flag :: "fd_table_t \<Rightarrow> fd_flags_t \<Rightarrow> int list option" where
  \<comment> \<open>both passes, which use the same test: the array and its length\<close>
  "fd_table_get_fds_with_flag t flag = fds_from (ft_count t) 0 flag t"

definition fd_table_get_saved_fds :: "fd_table_t \<Rightarrow> int list option" where
  "fd_table_get_saved_fds t = fd_table_get_fds_with_flag t FD_IS_SAVED"

definition fd_table_count :: "fd_table_t \<Rightarrow> nat" where
  "fd_table_count t = ft_count t"

definition fd_table_get_highest_fd :: "fd_table_t \<Rightarrow> int" where
  "fd_table_get_highest_fd t = ft_highest_fd t"

fun foreach_entry :: "nat \<Rightarrow> nat \<Rightarrow> fd_table_t \<Rightarrow> (fd_entry_t \<Rightarrow> 'a \<Rightarrow> 'a \<times> bool) \<Rightarrow> 'a \<Rightarrow> 'a option" where
  "foreach_entry 0 i t callback x = Some x"
| "foreach_entry (Suc n) i t callback x =
     do { e \<leftarrow> entry_at_index t i;
          if fe_fd e < 0 then foreach_entry n (i + 1) t callback x
          else case callback e x of
            (x, True) \<Rightarrow> foreach_entry n (i + 1) t callback x
          | (x, False) \<Rightarrow> Some x }"

definition fd_table_foreach ::
    "fd_table_t \<Rightarrow> (fd_entry_t \<Rightarrow> 'a \<Rightarrow> 'a \<times> bool) \<Rightarrow> 'a \<Rightarrow> 'a option" where
  "fd_table_foreach t = foreach_entry (ft_count t) 0 t"

fun clone_entries :: "nat \<Rightarrow> nat \<Rightarrow> fd_table_t \<Rightarrow> fd_entry_t option list option" where
  "clone_entries 0 i t = Some []"
| "clone_entries (Suc n) i t =
     do { e \<leftarrow> entry_at_index t i; es \<leftarrow> clone_entries n (i + 1) t; Some (Some e # es) }"

definition zero_entry :: fd_entry_t where
  \<comment> \<open>what \<open>xcalloc\<close> leaves in the slots beyond the count\<close>
  "zero_entry = \<lparr> fe_fd = 0, fe_original_fd = 0, fe_flags = 0, fe_is_open = False, fe_path = None \<rparr>"

definition fd_table_clone :: "fd_table_t \<Rightarrow> fd_table_t option" where
  "fd_table_clone t =
     (if ft_count t \<le> ft_capacity t
      then do { es \<leftarrow> clone_entries (ft_count t) 0 t;
                Some \<lparr> ft_entries = es @ replicate (ft_capacity t - ft_count t) (Some zero_entry),
                       ft_count = ft_count t, ft_highest_fd = ft_highest_fd t \<rparr> }
      else None)"

definition fd_flags_to_string :: "fd_flags_t \<Rightarrow> string" where
  "fd_flags_to_string flags =
     (if flags = FD_IS_DEFAULT then ''none''
      else let buffer = []; first = True;
               (buffer, first) = (if flags AND FD_IS_CLOSE_ON_EXEC \<noteq> 0
                                  then (buffer @ ''CLOEXEC'', False) else (buffer, first));
               (buffer, first) = (if flags AND FD_IS_REDIRECTED \<noteq> 0
                                  then (buffer @ (if first then ''REDIR'' else ''|REDIR''), False)
                                  else (buffer, first))
           in if flags AND FD_IS_SAVED \<noteq> 0
              then buffer @ (if first then ''SAVED'' else ''|SAVED'') else buffer)"

end
