(* ===== verification/Fd_Table_Proofs.thy ===== *)
theory Fd_Table_Proofs
  imports
    Fd_Table
begin

section \<open>The descriptor table is a finite map\<close>

text \<open>
  \<open>ft_ok t es\<close> relates a table to the entries it holds.  Every operation is shown to stay within
  the array and to act on the entries as on a finite map from descriptors, and the run of any
  sequence of operations is simulated by the run on maps.
\<close>

subsection \<open>The representation\<close>

abbreviation fds :: "fd_entry_t list \<Rightarrow> int list" where
  "fds \<equiv> map fe_fd"

definition top_fd :: "fd_entry_t list \<Rightarrow> int" where
  "top_fd es = Max (insert (- 1) (set (fds es)))"

definition ft_ok :: "fd_table_t \<Rightarrow> fd_entry_t list \<Rightarrow> bool" where
  "ft_ok t es \<longleftrightarrow> ft_count t = length es \<and> ft_entries t \<noteq> [] \<and>
     length es \<le> length (ft_entries t) \<and> take (length es) (ft_entries t) = map Some es \<and>
     distinct (fds es) \<and> ft_highest_fd t = top_fd es"

definition entry_of :: "fd_entry_t list \<Rightarrow> int \<rightharpoonup> fd_entry_t" where
  "entry_of es fd = find (\<lambda>e. fe_fd e = fd) es"

lemma entry_of_Nil [simp]: "entry_of [] = Map.empty"
  by (rule ext) (simp add: entry_of_def)

lemma entry_of_Cons [simp]: "entry_of (e # es) = (entry_of es)(fe_fd e \<mapsto> e)"
  by (rule ext) (simp add: entry_of_def)

lemma entry_of_append: "entry_of (xs @ ys) = entry_of ys ++ entry_of xs"
  by (induction xs) (auto simp: map_add_def fun_eq_iff split: option.split)

lemma dom_entry_of [simp]: "dom (entry_of es) = set (fds es)"
  by (induction es) (auto simp: dom_def)

lemma entry_of_None [simp]: "fd \<notin> set (fds es) \<Longrightarrow> entry_of es fd = None"
  using dom_entry_of [of es] by (auto simp: dom_def)

lemma ft_entry_ok: "ft_ok t es \<Longrightarrow> i < length es \<Longrightarrow> entry_at_index t i = Some (es ! i)"
  unfolding ft_ok_def entry_at_index_def by (metis nth_map nth_take order_less_le_trans)

lemma find_from_ok: "ft_ok t es \<Longrightarrow> i + n = length es \<Longrightarrow>
    find_from n i fd t =
      Some (if fd \<in> set (fds (drop i es))
            then Some (i + length (takeWhile (\<lambda>e. fe_fd e \<noteq> fd) (drop i es))) else None)"
proof (induction n arbitrary: i)
  case (Suc n)
  then have "drop i es = es ! i # drop (i + 1) es" by (simp add: Cons_nth_drop_Suc)
  with Suc show ?case by (simp add: ft_entry_ok)
qed simp

lemma split_at: "fd \<in> set (fds es) \<Longrightarrow>
    \<exists>xs e ys. es = xs @ e # ys \<and> fe_fd e = fd \<and> fd \<notin> set (fds xs) \<and>
      takeWhile (\<lambda>e. fe_fd e \<noteq> fd) es = xs"
proof (induction es)
  case (Cons e es)
  show ?case
  proof (cases "fe_fd e = fd")
    case True
    then show ?thesis by (intro exI [of _ "[]"]) simp
  next
    case False
    with Cons obtain xs e' ys where "es = xs @ e' # ys" "fe_fd e' = fd" "fd \<notin> set (fds xs)"
      "takeWhile (\<lambda>e. fe_fd e \<noteq> fd) es = xs" by auto
    with False show ?thesis by (intro exI [of _ "e # xs"]) auto
  qed
qed simp

lemma find_absent: "ft_ok t es \<Longrightarrow> fd \<notin> set (fds es) \<Longrightarrow> find_entry_index t fd = Some None"
  using find_from_ok [of t es 0 "length es"] by (simp add: find_entry_index_def ft_ok_def)

lemma find_present:
  assumes "ft_ok t es" "fd \<in> set (fds es)"
  obtains xs e ys where "es = xs @ e # ys" "fe_fd e = fd" "fd \<notin> set (fds xs)" "fd \<notin> set (fds ys)"
    "find_entry_index t fd = Some (Some (length xs))" "entry_at_index t (length xs) = Some e"
proof -
  obtain xs e ys where es: "es = xs @ e # ys" "fe_fd e = fd" "fd \<notin> set (fds xs)"
    "takeWhile (\<lambda>e. fe_fd e \<noteq> fd) es = xs" using split_at [OF assms(2)] by blast
  moreover have "find_entry_index t fd = Some (Some (length xs))"
    using find_from_ok [OF assms(1), of 0 "length es" fd] assms es(4)
    by (simp add: find_entry_index_def ft_ok_def)
  moreover have "entry_at_index t (length xs) = Some e" using ft_entry_ok [OF assms(1)] es(1) by simp
  moreover have "fd \<notin> set (fds ys)" using assms(1) es(1,2) by (auto simp: ft_ok_def)
  ultimately show thesis using that by blast
qed

subsection \<open>Updates\<close>

lemma top_fd_same: "set (fds xs) = set (fds ys) \<Longrightarrow> top_fd xs = top_fd ys"
  by (simp add: top_fd_def)

lemma ft_write_ok:
  assumes "ft_ok t (xs @ e # ys)" "fe_fd e' = fe_fd e"
  shows "\<exists>u. write_entry t (length xs) e' = Some u \<and> ft_ok u (xs @ e' # ys)"
proof -
  have "take (length (xs @ e' # ys)) ((ft_entries t)[length xs := Some e']) =
      (take (length (xs @ e # ys)) (ft_entries t))[length xs := Some e']"
    by (simp add: take_update_swap)
  also have "\<dots> = map Some (xs @ e' # ys)"
    using assms(1) by (simp add: ft_ok_def list_update_append)
  finally show ?thesis
    using assms top_fd_same [of "xs @ e' # ys" "xs @ e # ys"]
    by (auto simp: write_entry_def ft_ok_def)
qed

lemma top_fd_snoc: "top_fd (es @ [e]) = (if fe_fd e > top_fd es then fe_fd e else top_fd es)"
proof -
  have "insert (- 1) (set (fds (es @ [e]))) = insert (fe_fd e) (insert (- 1) (set (fds es)))" by auto
  then have "top_fd (es @ [e]) = max (fe_fd e) (top_fd es)" unfolding top_fd_def by simp
  then show ?thesis by (simp add: max_def)
qed

lemma ft_ensure_ok:
  assumes "ft_ok t es"
  shows "ft_ok (ensure_capacity t) es \<and> length es < length (ft_entries (ensure_capacity t))"
proof -
  have "0 < length (ft_entries t)" "length es \<le> length (ft_entries t)"
    using assms by (simp_all add: ft_ok_def)
  then have "length es < 2 * length (ft_entries t)" by linarith
  with assms show ?thesis by (auto simp: ensure_capacity_def ft_ok_def ft_capacity_def)
qed

lemma ft_append_ok:
  assumes "ft_ok t es" "fe_fd e \<notin> set (fds es)"
  shows "\<exists>u. append_entry t e = Some u \<and> ft_ok u (es @ [e])"
proof -
  define s where "s = ensure_capacity t"
  have s: "ft_ok s es" "length es < length (ft_entries s)"
    using ft_ensure_ok [OF assms(1)] by (simp_all add: s_def)
  have "take (Suc (length es)) ((ft_entries s)[length es := Some e]) = map Some (es @ [e])"
    using s by (simp add: take_Suc_conv_app_nth ft_ok_def)
  then show ?thesis
    using s assms(2) top_fd_snoc [of es e]
    by (auto simp: append_entry_def s_def [symmetric] write_entry_def ft_ok_def)
qed

lemma highest_from_ok: "ft_ok t es \<or> (ft_count t = length es \<and> length es \<le> length (ft_entries t) \<and>
      take (length es) (ft_entries t) = map Some es) \<Longrightarrow>
    i + n = length es \<Longrightarrow> highest_from n i h t = Some (Max (insert h (set (fds (drop i es)))))"
proof (induction n arbitrary: i h)
  case (Suc n)
  then have d: "drop i es = es ! i # drop (i + 1) es" by (simp add: Cons_nth_drop_Suc)
  have "entry_at_index t i = Some (es ! i)"
    using Suc.prems unfolding ft_ok_def entry_at_index_def
    by (metis add_Suc_right less_add_Suc1 nth_map nth_take order_less_le_trans)
  moreover have "Max (insert h (set (fds (drop i es)))) =
      Max (insert (max h (fe_fd (es ! i))) (set (fds (drop (i + 1) es))))"
    unfolding d by (cases "set (fds (drop (i + 1) es)) = {}") (simp_all add: max.assoc)
  ultimately show ?case using Suc by (simp add: max_def)
qed simp

lemma ft_remove_ok:
  assumes ok: "ft_ok t es" and "fd \<in> set (fds es)"
  shows "\<exists>u es'. fd_table_remove t fd = Some (u, True) \<and> ft_ok u es' \<and>
    entry_of es' = (entry_of es)(fd := None)"
proof -
  obtain xs e ys where es: "es = xs @ e # ys" "fe_fd e = fd" "fd \<notin> set (fds xs)" "fd \<notin> set (fds ys)"
    and found: "find_entry_index t fd = Some (Some (length xs))"
      "entry_at_index t (length xs) = Some e"
    using find_present [OF assms] by metis
  define c where "c = (clear_fd_entry e)\<lparr>fe_path := None\<rparr>"
  have len: "length xs < length (ft_entries t)" "ft_count t = length es"
    using ok es(1) by (auto simp: ft_ok_def)
  define t1 where "t1 = t\<lparr>ft_entries := (ft_entries t)[length xs := Some c]\<rparr>"
  have w1: "write_entry t (length xs) c = Some t1"
    using len by (simp add: write_entry_def t1_def)
  have slots1: "take (length es) (ft_entries t1) = map Some (xs @ c # ys)"
    using ok es(1) by (simp add: ft_ok_def t1_def take_update_swap list_update_append)
  \<comment> \<open>the entries after the last one has filled the gap\<close>
  define es' where "es' = (if ys = [] then xs else xs @ last ys # butlast ys)"
  have len': "length es' = length es - 1" by (simp add: es'_def es(1))
  obtain t2 where t2: "(if length xs < ft_count t1 - 1
      then do { l \<leftarrow> entry_at_index t1 (ft_count t1 - 1); write_entry t1 (length xs) l }
      else Some t1) = Some t2"
    and slots2: "take (length es') (ft_entries t2) = map Some es'"
    and t2': "ft_count t2 = length es" "length (ft_entries t2) = length (ft_entries t)"
      "ft_highest_fd t2 = ft_highest_fd t"
  proof (cases "ys = []")
    case True
    have "take (length xs) (ft_entries t1) = map Some xs"
      using arg_cong [OF slots1, of "take (length xs)"] es(1) by (simp add: min_def)
    with True len es(1) show thesis by (intro that [of t1]) (simp_all add: es'_def t1_def)
  next
    case False
    have "es ! (length es - 1) = last es" using es(1) by (simp add: last_conv_nth)
    then have "es ! (length es - 1) = last ys" using False es(1) by simp
    then have "ft_entries t1 ! (length es - 1) = Some (last ys)"
      using arg_cong [OF slots1, of "\<lambda>l. l ! (length es - 1)"] False es(1)
      by (simp add: last_conv_nth nth_append)
    then have l: "entry_at_index t1 (ft_count t1 - 1) = Some (last ys)"
      using ok es(1) len by (simp add: entry_at_index_def t1_def ft_ok_def)
    obtain n where n: "length ys = Suc n" using False by (cases ys) auto
    have "take (length es') ((ft_entries t1)[length xs := Some (last ys)]) =
        (take (length es') (take (length es) (ft_entries t1)))[length xs := Some (last ys)]"
      using len' by (simp add: take_update_swap min_def)
    also have "\<dots> = map Some es'"
      unfolding slots1 using n False es(1) len'
      by (simp add: es'_def take_map list_update_append butlast_conv_take)
    finally have "take (length es') ((ft_entries t1)[length xs := Some (last ys)]) = map Some es'" .
    with False len es(1) l show thesis
      by (intro that [of "t1\<lparr>ft_entries := (ft_entries t1)[length xs := Some (last ys)]\<rparr>"])
         (simp_all add: write_entry_def t1_def)
  qed
  define t3 where "t3 = t2\<lparr>ft_count := ft_count t2 - 1\<rparr>"
  define h where "h = (if fd = ft_highest_fd t3 then top_fd es' else ft_highest_fd t3)"
  have set': "set (fds es') = set (fds es) - {fd}"
  proof (cases "ys = []")
    case False
    then have "set ys = insert (last ys) (set (butlast ys))"
      by (metis append_butlast_last_id list.set(1) list.set(2) rotate1.simps(2) set_rotate1)
    with False es show ?thesis by (auto simp: es'_def)
  qed (use es in \<open>auto simp: es'_def\<close>)
  have "distinct (fds es')"
  proof (cases "ys = []")
    case False
    then have "fds ys = fds (butlast ys) @ [fe_fd (last ys)]"
      by (metis append_butlast_last_id list.simps(8) list.simps(9) map_append)
    with ok es(1) False show ?thesis by (auto simp: ft_ok_def es'_def)
  qed (use ok es(1) in \<open>auto simp: ft_ok_def es'_def\<close>)
  moreover have "h = top_fd es'"
  proof (cases "fd = ft_highest_fd t3")
    case False
    then have top: "fd \<noteq> top_fd es" using ok by (simp add: t3_def t2' ft_ok_def)
    have "fd \<le> top_fd es" using assms(2) by (simp add: top_fd_def)
    have "top_fd es \<in> insert (- 1) (set (fds es))"
      unfolding top_fd_def by (rule Max_in) simp_all
    with top have "top_fd es \<in> insert (- 1) (set (fds es'))" unfolding set' by blast
    then have "top_fd es = top_fd es'"
      unfolding top_fd_def by (intro antisym Max_mono Max_ge; auto simp: set'[simplified])
    with False ok show ?thesis by (simp add: h_def t3_def t2' ft_ok_def)
  qed (simp add: h_def)
  moreover have "entry_of es' = (entry_of es)(fd := None)"
  proof (cases "ys = []")
    case True
    with es show ?thesis
      by (auto simp: es'_def entry_of_append fun_eq_iff map_add_def split: option.split)
  next
    case False
    then have ys: "ys = butlast ys @ [last ys]" by simp
    have "last ys \<in> set ys" using False by simp
    with es(4) have "fe_fd (last ys) \<noteq> fd" by force
    moreover from ok es(1) have "fe_fd (last ys) \<notin> set (fds (butlast ys))"
      by (subst (asm) ys) (auto simp: ft_ok_def)
    then have "entry_of ys = (entry_of (butlast ys))(fe_fd (last ys) \<mapsto> last ys)"
      by (subst ys) (auto simp: entry_of_append map_add_def fun_eq_iff split: option.split)
    moreover have "entry_of (butlast ys) fd = None"
      using es(4) by (intro entry_of_None) (auto dest: in_set_butlastD)
    ultimately show ?thesis
      using es by (auto simp: es'_def False entry_of_append fun_eq_iff map_add_def split: option.split)
  qed
  moreover have "fd_table_remove t fd = Some (t3\<lparr>ft_highest_fd := h\<rparr>, True)"
  proof -
    have "highest_from (ft_count t3) 0 (- 1) t3 = Some (top_fd es')"
      using highest_from_ok [of t3 es' 0 "length es'" "- 1"] slots2 t2' len' ok es(1)
      by (simp add: t3_def top_fd_def ft_ok_def)
    then show ?thesis
      using found w1 t2 by (auto simp: fd_table_remove_def c_def t3_def h_def Let_def t2')
  qed
  ultimately show ?thesis
    using slots2 t2' len' ok es(1)
    by (intro exI [of _ "t3\<lparr>ft_highest_fd := h\<rparr>"] exI [of _ es']) (auto simp: ft_ok_def t3_def)
qed

subsection \<open>The operations on the entries\<close>

lemma entry_of_write:
  assumes "distinct (fds (xs @ e # ys))" "fe_fd e' = fe_fd e"
  shows "entry_of (xs @ e' # ys) = (entry_of (xs @ e # ys))(fe_fd e \<mapsto> e')"
  using assms by (auto simp: entry_of_append fun_eq_iff map_add_def split: option.split)

lemma entry_of_snoc: "fe_fd e \<notin> set (fds es) \<Longrightarrow> entry_of (es @ [e]) = (entry_of es)(fe_fd e \<mapsto> e)"
  by (auto simp: entry_of_append fun_eq_iff map_add_def split: option.split)

lemma ft_update_ok:
  assumes "ft_ok t es" "\<And>e. fe_fd (f e) = fe_fd e"
  shows "\<exists>u b es'. update_found t fd f = Some (u, b) \<and> ft_ok u es' \<and>
    entry_of es' = (case entry_of es fd of None \<Rightarrow> entry_of es | Some e \<Rightarrow> (entry_of es)(fd \<mapsto> f e)) \<and>
    b = (entry_of es fd \<noteq> None)"
proof (cases "fd \<in> set (fds es)")
  case True
  obtain xs e ys where es: "es = xs @ e # ys" "fe_fd e = fd" "fd \<notin> set (fds xs)" "fd \<notin> set (fds ys)"
    and found: "find_entry_index t fd = Some (Some (length xs))"
      "entry_at_index t (length xs) = Some e"
    using find_present [OF assms(1) True] by metis
  obtain u where u: "write_entry t (length xs) (f e) = Some u" "ft_ok u (xs @ f e # ys)"
    using ft_write_ok [of t xs e ys "f e"] assms es(1) by auto
  have "distinct (fds es)" using assms(1) by (simp add: ft_ok_def)
  then have "entry_of (xs @ f e # ys) = (entry_of es)(fd \<mapsto> f e)" "entry_of es fd = Some e"
    using es entry_of_write [of xs e ys "f e"] assms(2)
    by (auto simp: entry_of_append map_add_def split: option.split)
  with u found show ?thesis
    by (intro exI [of _ u] exI [of _ True] exI [of _ "xs @ f e # ys"]) (simp add: update_found_def)
next
  case False
  with assms(1) find_absent [OF assms(1) False] show ?thesis
    by (intro exI [of _ t] exI [of _ False] exI [of _ es]) (simp add: update_found_def)
qed

lemma ft_put_ok:
  \<comment> \<open>what \<open>fd_table_add\<close> and \<open>fd_table_mark_saved\<close> do\<close>
  assumes "ft_ok t es" "\<And>e. fe_fd (f e) = fe_fd e" "fe_fd new = fd"
  shows "\<exists>u es'. (do { r \<leftarrow> find_entry_index t fd;
      case r of Some i \<Rightarrow> do { e \<leftarrow> entry_at_index t i; write_entry t i (f e) }
      | None \<Rightarrow> append_entry t new }) = Some u \<and> ft_ok u es' \<and>
    entry_of es' = (entry_of es)(fd \<mapsto> case entry_of es fd of None \<Rightarrow> new | Some e \<Rightarrow> f e)"
proof (cases "fd \<in> set (fds es)")
  case True
  have "entry_of es fd \<noteq> None" using True dom_entry_of [of es] by (auto simp: dom_def)
  with ft_update_ok [of t es f fd, OF assms(1,2)] show ?thesis
    by (auto simp: update_found_def split: Option.bind_splits option.splits)
next
  case False
  obtain u where "append_entry t new = Some u" "ft_ok u (es @ [new])"
    using ft_append_ok [OF assms(1)] False assms(3) by auto
  with False assms(3) find_absent [OF assms(1) False] entry_of_snoc [of new es] show ?thesis
    by (intro exI [of _ u] exI [of _ "es @ [new]"]) simp
qed

lemma remove_absent: "ft_ok t es \<Longrightarrow> fd \<notin> set (fds es) \<Longrightarrow> fd_table_remove t fd = Some (t, False)"
  by (simp add: fd_table_remove_def find_absent)

lemma ft_find_ok: "ft_ok t es \<Longrightarrow> fd_table_find t fd = Some (entry_of es fd)"
proof (cases "fd \<in> set (fds es)")
  case True
  assume ok: "ft_ok t es"
  obtain xs e ys where es: "es = xs @ e # ys" "fe_fd e = fd" "fd \<notin> set (fds xs)" "fd \<notin> set (fds ys)"
    and found: "find_entry_index t fd = Some (Some (length xs))"
      "entry_at_index t (length xs) = Some e"
    using find_present [OF ok True] by metis
  then have "entry_of es fd = Some e" by (simp add: entry_of_append map_add_def)
  with found show ?thesis by (simp add: fd_table_find_def)
qed (simp add: fd_table_find_def find_absent)

lemma ft_create_ok: "ft_ok fd_table_create []"
  by (simp add: ft_ok_def fd_table_create_def top_fd_def)

lemma card_entries: "ft_ok t es \<Longrightarrow> ft_count t = card (dom (entry_of es))"
  using distinct_card [of "fds es"] unfolding ft_ok_def dom_entry_of length_map by metis

subsection \<open>Runs of operations\<close>

datatype fd_op =
    Add int fd_flags_t string
  | Mark_Saved int int
  | Mark_Closed int
  | Mark_Open int
  | Set_Flag int fd_flags_t
  | Clear_Flag int fd_flags_t
  | Remove int

fun fd_step :: "fd_op \<Rightarrow> fd_table_t \<Rightarrow> fd_table_t option" where
  "fd_step (Add fd flags path) t = fd_table_add t fd flags path"
| "fd_step (Mark_Saved fd original) t = fd_table_mark_saved t fd original"
| "fd_step (Mark_Closed fd) t = map_option fst (fd_table_mark_closed t fd)"
| "fd_step (Mark_Open fd) t = map_option fst (fd_table_mark_open t fd)"
| "fd_step (Set_Flag fd flag) t = map_option fst (fd_table_set_flag t fd flag)"
| "fd_step (Clear_Flag fd flag) t = map_option fst (fd_table_clear_flag t fd flag)"
| "fd_step (Remove fd) t = map_option fst (fd_table_remove t fd)"

fun fd_run :: "fd_op list \<Rightarrow> fd_table_t \<Rightarrow> fd_table_t option" where
  "fd_run [] t = Some t"
| "fd_run (op # ops) t = do { t \<leftarrow> fd_step op t; fd_run ops t }"

text \<open>The specification: a map from descriptors to entries.\<close>

type_synonym fd_spec = "int \<rightharpoonup> fd_entry_t"

definition amend :: "int \<Rightarrow> (fd_entry_t \<Rightarrow> fd_entry_t) \<Rightarrow> fd_spec \<Rightarrow> fd_spec" where
  "amend fd f m = (case m fd of None \<Rightarrow> m | Some e \<Rightarrow> m(fd \<mapsto> f e))"

fun spec_step :: "fd_op \<Rightarrow> fd_spec \<Rightarrow> fd_spec" where
  "spec_step (Add fd flags path) m = m(fd \<mapsto> case m fd of
     Some e \<Rightarrow> e\<lparr>fe_path := Some path, fe_flags := flags, fe_is_open := True\<rparr>
   | None \<Rightarrow> \<lparr> fe_fd = fd, fe_original_fd = -1, fe_flags = flags, fe_is_open = True, fe_path = Some path \<rparr>)"
| "spec_step (Mark_Saved fd original) m = m(fd \<mapsto> case m fd of
     Some e \<Rightarrow> e\<lparr>fe_original_fd := original, fe_flags := fe_flags e OR FD_IS_SAVED\<rparr>
   | None \<Rightarrow> \<lparr> fe_fd = fd, fe_original_fd = original, fe_flags = FD_IS_SAVED, fe_is_open = True,
              fe_path = Some ''(unknown)'' \<rparr>)"
| "spec_step (Mark_Closed fd) m = amend fd (fe_is_open_update (\<lambda>_. False)) m"
| "spec_step (Mark_Open fd) m = amend fd (fe_is_open_update (\<lambda>_. True)) m"
| "spec_step (Set_Flag fd flag) m = amend fd (fe_flags_update (\<lambda>f. f OR flag)) m"
| "spec_step (Clear_Flag fd flag) m = amend fd (fe_flags_update (\<lambda>f. f AND NOT flag)) m"
| "spec_step (Remove fd) m = m(fd := None)"

fun spec_run :: "fd_op list \<Rightarrow> fd_spec \<Rightarrow> fd_spec" where
  "spec_run [] m = m"
| "spec_run (op # ops) m = spec_run ops (spec_step op m)"

lemma ft_amend_ok:
  assumes "ft_ok t es" "\<And>e. fe_fd (f e) = fe_fd e"
  shows "\<exists>u es'. map_option fst (update_found t fd f) = Some u \<and> ft_ok u es' \<and>
    entry_of es' = amend fd f (entry_of es)"
  using ft_update_ok [of t es f fd, OF assms] by (auto simp: amend_def)

lemma ft_step_ok: "ft_ok t es \<Longrightarrow>
    \<exists>u es'. fd_step op t = Some u \<and> ft_ok u es' \<and> entry_of es' = spec_step op (entry_of es)"
proof (cases op)
  case (Add fd flags path)
  assume "ft_ok t es"
  from ft_put_ok [OF this, of "\<lambda>e. e\<lparr>fe_path := Some path, fe_flags := flags, fe_is_open := True\<rparr>"
      "\<lparr> fe_fd = fd, fe_original_fd = -1, fe_flags = flags, fe_is_open = True, fe_path = Some path \<rparr>" fd]
  show ?thesis by (simp add: Add fd_table_add_def)
next
  case (Mark_Saved fd original)
  assume "ft_ok t es"
  from ft_put_ok [OF this, of "\<lambda>e. e\<lparr>fe_original_fd := original, fe_flags := fe_flags e OR FD_IS_SAVED\<rparr>"
      "\<lparr> fe_fd = fd, fe_original_fd = original, fe_flags = FD_IS_SAVED, fe_is_open = True,
         fe_path = Some ''(unknown)'' \<rparr>" fd]
  show ?thesis by (simp add: Mark_Saved fd_table_mark_saved_def)
next
  case (Remove fd)
  assume ok: "ft_ok t es"
  show ?thesis
  proof (cases "fd \<in> set (fds es)")
    case True
    with ft_remove_ok [OF ok True] show ?thesis by (auto simp: Remove)
  next
    case False
    then have "entry_of es fd = None" by simp
    with ok remove_absent [OF ok False] show ?thesis
      by (intro exI [of _ t] exI [of _ es]) (auto simp: Remove fun_eq_iff)
  qed
qed ((simp only: fd_step.simps spec_step.simps fd_table_mark_closed_def fd_table_mark_open_def
    fd_table_set_flag_def fd_table_clear_flag_def; rule ft_amend_ok; simp)+)

lemma ft_run_ok: "ft_ok t es \<Longrightarrow>
    \<exists>u es'. fd_run ops t = Some u \<and> ft_ok u es' \<and> entry_of es' = spec_run ops (entry_of es)"
proof (induction ops arbitrary: t es)
  case (Cons op ops)
  obtain u es' where "fd_step op t = Some u" "ft_ok u es'" "entry_of es' = spec_step op (entry_of es)"
    using ft_step_ok [OF Cons.prems] by blast
  with Cons.IH [of u es'] show ?case by simp
qed auto

text \<open>C18: Whatever operations are applied to a new descriptor table, none of them leaves the array
  or reads a slot that was never written, and the table is what the same operations make of a map
  from descriptors to entries: a lookup gives the entry of the map, the count is the number of
  descriptors in the map and stays within the capacity, and the highest descriptor reported is the
  greatest one of the map, or -1 for an empty table.\<close>

theorem fd_table_is_map:
  "\<exists>t. fd_run ops fd_table_create = Some t \<and>
     (\<forall>fd. fd_table_find t fd = Some (spec_run ops Map.empty fd)) \<and>
     fd_table_count t = card (dom (spec_run ops Map.empty)) \<and> fd_table_count t \<le> ft_capacity t \<and>
     fd_table_get_highest_fd t = Max (insert (- 1) (dom (spec_run ops Map.empty)))"
proof -
  obtain t es where t: "fd_run ops fd_table_create = Some t" "ft_ok t es"
    "entry_of es = spec_run ops Map.empty" using ft_run_ok [OF ft_create_ok, of ops] by auto
  have "ft_highest_fd t = Max (insert (- 1) (dom (entry_of es)))" "ft_count t \<le> length (ft_entries t)"
    using t(2) by (simp_all add: ft_ok_def top_fd_def)
  with t ft_find_ok [OF t(2)] card_entries [OF t(2)] show ?thesis
    by (simp add: fd_table_count_def fd_table_get_highest_fd_def ft_capacity_def)
qed

end
