(* ===== verification/Field_Split.thy ===== *)
theory Field_Split
  imports
    String_Search
begin

section \<open>Field splitting (exec\_frame\_expander.c)\<close>

text \<open>
  \<open>expand_field_split\<close> on the contents of its strings.  A search that finds nothing is \<open>None\<close>, and
  the first lemmas relate the two searches to those of string\_t.c.  The three loops recurse on the
  position; that they end is part of their definition.
\<close>

subsection \<open>Searches\<close>

definition position :: "(char \<Rightarrow> bool) \<Rightarrow> string \<Rightarrow> nat \<Rightarrow> nat option" where
  \<comment> \<open>the first position from \<open>i\<close> on\<close>
  "position P cs i = find (\<lambda>j. P (cs ! j)) [i..<length cs]"

abbreviation first_of_set :: "string \<Rightarrow> string \<Rightarrow> nat \<Rightarrow> nat option" where
  "first_of_set cs chars \<equiv> position (\<lambda>c. c \<in> set chars) cs"

abbreviation first_not_of_set :: "string \<Rightarrow> string \<Rightarrow> nat \<Rightarrow> nat option" where
  "first_not_of_set cs chars \<equiv> position (\<lambda>c. c \<notin> set chars) cs"

definition index_of :: "nat option \<Rightarrow> int" where
  "index_of p = (case p of None \<Rightarrow> -1 | Some i \<Rightarrow> int i)"

lemma position_None: "position P cs i = None \<longleftrightarrow> (\<forall>j. i \<le> j \<and> j < length cs \<longrightarrow> \<not> P (cs ! j))"
  by (auto simp: position_def find_None_iff)

lemma position_Some:
  "position P cs i = Some k \<longleftrightarrow> i \<le> k \<and> k < length cs \<and> P (cs ! k) \<and> (\<forall>j. i \<le> j \<and> j < k \<longrightarrow> \<not> P (cs ! j))"
proof
  assume "position P cs i = Some k"
  then obtain m where "m < length [i..<length cs]" "P (cs ! ([i..<length cs] ! m))" "k = [i..<length cs] ! m"
    "\<forall>j < m. \<not> P (cs ! ([i..<length cs] ! j))"
    by (auto simp: position_def find_Some_iff)
  then show "i \<le> k \<and> k < length cs \<and> P (cs ! k) \<and> (\<forall>j. i \<le> j \<and> j < k \<longrightarrow> \<not> P (cs ! j))"
    by (auto, metis le_add_diff_inverse nat_add_left_cancel_less)
next
  assume k: "i \<le> k \<and> k < length cs \<and> P (cs ! k) \<and> (\<forall>j. i \<le> j \<and> j < k \<longrightarrow> \<not> P (cs ! j))"
  then show "position P cs i = Some k"
    unfolding position_def find_Some_iff by (intro exI [of _ "k - i"]) auto
qed

lemma position_here: "i < length cs \<Longrightarrow> position P cs i = Some i \<longleftrightarrow> P (cs ! i)"
  by (auto simp: position_Some)

lemma string_find_first_of_at_position:
  assumes "represents s cs" "represents t ts"
  shows "string_find_first_of_at s (Some t) (int i) = Some (index_of (first_of_set cs ts i))"
proof -
  obtain r where "string_find_first_of_at s (Some t) (int i) = Some r" "first_index (\<lambda>c. c \<in> set ts) cs (int i) r"
    using string_find_first_of_at_ok [OF assms, of "int i"] by auto
  then have r: "string_find_first_of_at s (Some t) (int i) = Some r"
    "r = -1 \<Longrightarrow> int i \<le> k \<Longrightarrow> k < int (length cs) \<Longrightarrow> cs ! nat k \<notin> set ts"
    "r \<noteq> -1 \<Longrightarrow> int i \<le> r \<and> r < int (length cs) \<and> cs ! nat r \<in> set ts"
    "r \<noteq> -1 \<Longrightarrow> int i \<le> k \<Longrightarrow> k < r \<Longrightarrow> cs ! nat k \<notin> set ts" for k
    by (simp_all add: first_index_def split: if_splits)
  have "r = index_of (first_of_set cs ts i)"
  proof (cases "first_of_set cs ts i")
    case None
    have "r = -1"
    proof (rule ccontr)
      assume "r \<noteq> -1"
      from r(3) [OF this] None show False by (auto simp: position_None dest: spec [of _ "nat r"])
    qed
    with None show ?thesis by (simp add: index_of_def)
  next
    case (Some k)
    then have k: "i \<le> k" "k < length cs" "cs ! k \<in> set ts" "\<And>j. i \<le> j \<Longrightarrow> j < k \<Longrightarrow> cs ! j \<notin> set ts"
      by (auto simp: position_Some)
    have ne: "r \<noteq> -1" using r(2) [of "int k"] k(1-3) by auto
    have "\<not> int k < r" using r(4) [OF ne, of "int k"] k(1,3) by auto
    then have "\<not> k < nat r" by simp
    moreover have "\<not> nat r < k" using k(4) [of "nat r"] r(3) [OF ne] by (auto simp: le_nat_iff)
    ultimately have "nat r = k" by simp
    then show ?thesis using r(3) [OF ne] Some by (auto simp: index_of_def)
  qed
  with r(1) show ?thesis by simp
qed

subsection \<open>The loops\<close>

definition is_ifs_whitespace :: "char \<Rightarrow> bool" where
  "is_ifs_whitespace c \<longleftrightarrow> c = CHR '' '' \<or> c = TAB \<or> c = NEWLINE"

definition is_ifs_char :: "char \<Rightarrow> string \<Rightarrow> bool" where
  "is_ifs_char c ifs \<longleftrightarrow> c \<in> set (cstr_of ifs)"

abbreviation ifs_ws :: "string \<Rightarrow> string" where
  "ifs_ws \<equiv> filter is_ifs_whitespace"

abbreviation ifs_nws :: "string \<Rightarrow> string" where
  "ifs_nws \<equiv> filter (\<lambda>c. \<not> is_ifs_whitespace c)"

function hard_delimiters :: "string \<Rightarrow> string \<Rightarrow> nat \<Rightarrow> string list \<Rightarrow> bool \<times> nat \<times> string list" where
  \<comment> \<open>the innermost loop; the flag is \<open>in_delimiter\<close> after it\<close>
  "hard_delimiters str ifs i out =
     (if i < length str \<and> first_of_set str (ifs_nws ifs) i = Some i
      then if i + 1 \<ge> length str \<or> first_of_set str ifs (i + 1) = Some (i + 1)
           then hard_delimiters str ifs (i + 1) (out @ [[]])
           else (False, i + 1, out)
      else (True, i, out))"
  by pat_completeness auto
termination by (relation "measure (\<lambda>(str, ifs, i, out). length str - i)") auto

declare hard_delimiters.simps [simp del]

lemma hard_delimiters_bounds:
  "hard_delimiters str ifs i out = (d, j, res) \<Longrightarrow> i \<le> j \<and> (j = i \<longrightarrow> d \<and> res = out) \<and>
    (i \<le> length str \<longrightarrow> j \<le> length str) \<and> (d \<longrightarrow> j < length str \<longrightarrow> str ! j \<notin> set (ifs_nws ifs))"
proof (induction str ifs i out rule: hard_delimiters.induct)
  case (1 str ifs i out)
  show ?case
  proof (cases "i < length str \<and> first_of_set str (ifs_nws ifs) i = Some i")
    case True
    show ?thesis
    proof (cases "i + 1 \<ge> length str \<or> first_of_set str ifs (i + 1) = Some (i + 1)")
      case again: True
      then have "hard_delimiters str ifs (i + 1) (out @ [[]]) = (d, j, res)"
        using "1.prems" True by (simp add: hard_delimiters.simps [of str ifs i])
      from "1.IH" [OF True again this] True show ?thesis by auto
    next
      case False
      then show ?thesis using "1.prems" True by (auto simp: hard_delimiters.simps [of str ifs i])
    qed
  next
    case False
    then have "hard_delimiters str ifs i out = (True, i, out)"
      by (subst hard_delimiters.simps) (rule if_not_P)
    with "1.prems" False show ?thesis by (auto simp: position_here)
  qed
qed

lemma delimiters_progress:
  assumes "i < length str" "(if ifs_ws ifs = [] then Some i else first_not_of_set str (ifs_ws ifs) i) = Some i'"
    "hard_delimiters str ifs i' out = (True, j, res)" "\<not> (j < length str \<and> first_of_set str ifs j \<noteq> Some j)"
  shows "i < j"
proof (rule ccontr)
  assume "\<not> i < j"
  note bounds = hard_delimiters_bounds [OF assms(3)]
  have i': "i \<le> i'" "i' < length str" "ifs_ws ifs \<noteq> [] \<Longrightarrow> str ! i' \<notin> set (ifs_ws ifs)"
    using assms(1,2) by (auto simp: position_Some split: if_splits)
  with bounds \<open>\<not> i < j\<close> have eq: "j = i'" "i' = i" by auto
  with assms(4) i'(2) have "str ! i \<in> set ifs" by (simp add: position_here)
  moreover have "str ! i \<notin> set (ifs_nws ifs)" using bounds eq i'(2) by auto
  ultimately have "str ! i \<in> set (ifs_ws ifs)" by auto
  with i'(3) eq show False by (cases "ifs_ws ifs = []") auto
qed

function delimiters :: "string \<Rightarrow> string \<Rightarrow> nat \<Rightarrow> string list \<Rightarrow> nat option \<times> string list" where
  \<comment> \<open>the loop over one sequence of delimiters: where the next field begins, or \<open>None\<close> for \<open>goto cleanup\<close>\<close>
  "delimiters str ifs i out =
     (if i < length str
      then case (if ifs_ws ifs = [] then Some i else first_not_of_set str (ifs_ws ifs) i) of
             None \<Rightarrow> (None, out)
           | Some i' \<Rightarrow>
               (case hard_delimiters str ifs i' out of (in_delimiter, j, out) \<Rightarrow>
                  if in_delimiter \<and> \<not> (j < length str \<and> first_of_set str ifs j \<noteq> Some j)
                  then delimiters str ifs j out else (Some j, out))
      else (Some i, out))"
  by pat_completeness auto
termination
  by (relation "measure (\<lambda>(str, ifs, i, out). length str - i)")
    (simp, force intro: diff_less_mono2 delimiters_progress [OF _ _ sym])

declare delimiters.simps [simp del]

lemma hard_delimiters_next: "hard_delimiters str ifs i out = (False, j, res) \<Longrightarrow> j < length str \<and> str ! j \<notin> set ifs"
proof (induction str ifs i out rule: hard_delimiters.induct)
  case (1 str ifs i out)
  then show ?case
    by (auto simp: hard_delimiters.simps [of str ifs i] position_here not_le split: if_splits)
qed

lemma delimiters_next:
  "delimiters str ifs i out = (Some j, res) \<Longrightarrow> i \<le> length str \<Longrightarrow>
    i \<le> j \<and> j \<le> length str \<and> (j < length str \<longrightarrow> str ! j \<notin> set ifs)"
proof (induction str ifs i out rule: delimiters.induct)
  case (1 str ifs i out)
  show ?case
  proof (cases "i < length str")
    case True
    then obtain i' where i': "(if ifs_ws ifs = [] then Some i else first_not_of_set str (ifs_ws ifs) i) = Some i'"
      using "1.prems"(1) by (auto simp: delimiters.simps [of str ifs i] split: option.splits)
    then have le: "i \<le> i'" "i' < length str" using True by (auto simp: position_Some split: if_splits)
    obtain d k out' where h: "hard_delimiters str ifs i' out = (d, k, out')" by (metis prod_cases3)
    note bounds = hard_delimiters_bounds [OF h]
    show ?thesis
    proof (cases "d \<and> \<not> (k < length str \<and> first_of_set str ifs k \<noteq> Some k)")
      case again: True
      have "delimiters str ifs k out' = (Some j, res)"
        using "1.prems"(1) True i' h again by (simp add: delimiters.simps [of str ifs i])
      from "1.IH" [OF True i' h [symmetric] refl again this] bounds le show ?thesis by auto
    next
      case False
      then have "j = k" using "1.prems"(1) True i' h
        by (simp add: delimiters.simps [of str ifs i] del: de_Morgan_conj not_imp split: if_splits)
      with False bounds le hard_delimiters_next [of str ifs i' out k out'] h show ?thesis
        by (cases d) (auto simp: position_here)
    qed
  next
    case False
    with "1.prems" show ?thesis by (simp add: delimiters.simps [of str ifs i])
  qed
qed

lemma split_progress:
  assumes "i < length str" "e = (case first_of_set str ifs i of None \<Rightarrow> length str | Some e \<Rightarrow> e)" "\<not> length str \<le> e"
    "delimiters str ifs e out = (Some j, res)"
  shows "i < j"
proof -
  have e: "i \<le> e" "e < length str" "str ! e \<in> set ifs"
    using assms(2,3) by (auto simp: position_Some position_None not_le split: option.splits)
  from delimiters_next [OF assms(4)] e have "e \<le> j" "j < length str \<longrightarrow> str ! j \<notin> set ifs" by auto
  with e show ?thesis by (cases "j = e") auto
qed

function split_fields :: "string \<Rightarrow> string \<Rightarrow> nat \<Rightarrow> string list \<Rightarrow> string list" where
  \<comment> \<open>the outer loop\<close>
  "split_fields str ifs i out =
     (if i < length str
      then let field_end = (case first_of_set str ifs i of None \<Rightarrow> length str | Some e \<Rightarrow> e);
               out = out @ [take (field_end - i) (drop i str)]
           in if field_end \<ge> length str then out
              else case delimiters str ifs field_end out of
                     (None, out) \<Rightarrow> out
                   | (Some j, out) \<Rightarrow> split_fields str ifs j out
      else out)"
  by pat_completeness auto
termination
  by (relation "measure (\<lambda>(str, ifs, i, out). length str - i)")
    (simp, force intro: diff_less_mono2 split_progress [OF _ refl _ sym])

declare split_fields.simps [simp del]

definition field_split :: "string \<Rightarrow> string \<Rightarrow> string list" where
  \<comment> \<open>\<open>expand_field_split\<close> for the given value of \<open>IFS\<close>\<close>
  "field_split ifs str =
     (if str = [] then []
      else if ifs = [] then [str]
      else if ifs_ws ifs = [] then split_fields str ifs 0 []
      else case first_not_of_set str (ifs_ws ifs) 0 of
             None \<Rightarrow> []
           | Some i \<Rightarrow> split_fields str ifs i [])"

subsection \<open>The fields of a rest\<close>

text \<open>The same without positions: what is found in the text from a sequence of delimiters on.\<close>

abbreviation field_char :: "string \<Rightarrow> char \<Rightarrow> bool" where
  "field_char ifs c \<equiv> c \<notin> set ifs"

function after_delimiters :: "string \<Rightarrow> string \<Rightarrow> string list" where
  "after_delimiters ifs rest =
     (case dropWhile (\<lambda>c. c \<in> set (ifs_ws ifs)) rest of
        [] \<Rightarrow> []
      | c # r \<Rightarrow>
          if field_char ifs c
          then takeWhile (field_char ifs) (c # r) # after_delimiters ifs (dropWhile (field_char ifs) (c # r))
          else if r = [] \<or> \<not> field_char ifs (hd r) then [] # after_delimiters ifs r
          else takeWhile (field_char ifs) r # after_delimiters ifs (dropWhile (field_char ifs) r))"
  by pat_completeness auto
termination
proof (relation "measure (length \<circ> snd)", simp, goal_cases)
  case (1 ifs rest c r)
  then have "length (c # r) \<le> length rest" by (metis length_dropWhile_le)
  with 1 length_dropWhile_le [of "field_char ifs" r] show ?case by simp
next
  case (2 ifs rest c r)
  then have "length (c # r) \<le> length rest" by (metis length_dropWhile_le)
  then show ?case by simp
next
  case (3 ifs rest c r)
  then have "length (c # r) \<le> length rest" by (metis length_dropWhile_le)
  with length_dropWhile_le [of "field_char ifs" r] show ?case by simp
qed

declare after_delimiters.simps [simp del]

definition fields_of :: "string \<Rightarrow> string \<Rightarrow> string list" where
  \<comment> \<open>from the beginning of a field on\<close>
  "fields_of ifs rest =
     (if rest = [] then [] else takeWhile (field_char ifs) rest # after_delimiters ifs (dropWhile (field_char ifs) rest))"

lemma position_drop:
  "position P str i = None \<longleftrightarrow> list_all (\<lambda>c. \<not> P c) (drop i str)"
  "position P str i = Some k \<Longrightarrow> takeWhile (\<lambda>c. \<not> P c) (drop i str) = take (k - i) (drop i str) \<and>
     dropWhile (\<lambda>c. \<not> P c) (drop i str) = drop k str"
proof -
  show "position P str i = None \<longleftrightarrow> list_all (\<lambda>c. \<not> P c) (drop i str)"
  proof
    assume "position P str i = None"
    then show "list_all (\<lambda>c. \<not> P c) (drop i str)" by (auto simp: position_None list_all_length)
  next
    assume all: "list_all (\<lambda>c. \<not> P c) (drop i str)"
    have "\<not> P (str ! j)" if "i \<le> j" "j < length str" for j
      using all [unfolded list_all_length, THEN spec, of "j - i"] that by simp
    then show "position P str i = None" by (simp add: position_None)
  qed
  assume "position P str i = Some k"
  then have k: "i \<le> k" "k < length str" "P (str ! k)" "\<forall>j. i \<le> j \<and> j < k \<longrightarrow> \<not> P (str ! j)" by (auto simp: position_Some)
  let ?pre = "take (k - i) (drop i str)"
  have "\<forall>x \<in> set ?pre. \<not> P x" using k by (auto simp: in_set_conv_nth)
  moreover have split: "drop i str = ?pre @ str ! k # drop (Suc k) str"
    using k(1,2) id_take_nth_drop [of "k - i" "drop i str"] by simp
  moreover have "str ! k # drop (Suc k) str = drop k str" using k(2) by (rule Cons_nth_drop_Suc)
  moreover have "takeWhile (\<lambda>c. \<not> P c) (drop k str) = []" "dropWhile (\<lambda>c. \<not> P c) (drop k str) = drop k str"
    using k(2,3) by (simp_all add: Cons_nth_drop_Suc [symmetric])
  ultimately show "takeWhile (\<lambda>c. \<not> P c) (drop i str) = ?pre \<and> dropWhile (\<lambda>c. \<not> P c) (drop i str) = drop k str"
    using k(3) takeWhile_append [of "\<lambda>c. \<not> P c" ?pre "str ! k # drop (Suc k) str"]
      dropWhile_append [of "\<lambda>c. \<not> P c" ?pre "str ! k # drop (Suc k) str"] by auto
qed

lemma no_skip: "ifs_ws ifs = [] \<Longrightarrow> dropWhile (\<lambda>c. c \<in> set (ifs_ws ifs)) rest = rest"
  by (cases rest) (simp_all del: set_filter)

lemma after_skip: "after_delimiters ifs (dropWhile (\<lambda>c. c \<in> set (ifs_ws ifs)) rest) = after_delimiters ifs rest"
  by (simp add: after_delimiters.simps [of ifs rest] after_delimiters.simps [of ifs "dropWhile _ rest"] dropWhile_idem)

lemma after_Nil [simp]: "after_delimiters ifs [] = []"
  by (simp add: after_delimiters.simps)

lemma after_hard: "c \<in> set (ifs_nws ifs) \<Longrightarrow> after_delimiters ifs (c # r) =
    (if r = [] \<or> \<not> field_char ifs (hd r) then [] # after_delimiters ifs r else fields_of ifs r)"
  by (simp add: after_delimiters.simps [of ifs "c # r"] fields_of_def)

lemma after_field: "field_char ifs c \<Longrightarrow> after_delimiters ifs (c # r) = fields_of ifs (c # r)"
  by (simp add: after_delimiters.simps [of ifs "c # r"] fields_of_def)

lemma hard_delimiters_rest:
  "hard_delimiters str ifs i out = (d, j, res) \<Longrightarrow>
    res @ (if d then after_delimiters ifs (drop j str) else fields_of ifs (drop j str)) = out @ after_delimiters ifs (drop i str)"
proof (induction str ifs i out rule: hard_delimiters.induct)
  case (1 str ifs i out)
  show ?case
  proof (cases "i < length str \<and> first_of_set str (ifs_nws ifs) i = Some i")
    case True
    then have i: "str ! i \<in> set (ifs_nws ifs)" "drop i str = str ! i # drop (i + 1) str"
      by (auto simp: position_here Cons_nth_drop_Suc)
    have next': "i + 1 \<ge> length str \<or> first_of_set str ifs (i + 1) = Some (i + 1) \<longleftrightarrow>
        drop (i + 1) str = [] \<or> \<not> field_char ifs (hd (drop (i + 1) str))"
      by (cases "i + 1 < length str") (auto simp: position_here hd_drop_conv_nth not_less)
    show ?thesis
    proof (cases "i + 1 \<ge> length str \<or> first_of_set str ifs (i + 1) = Some (i + 1)")
      case again: True
      then have "hard_delimiters str ifs (i + 1) (out @ [[]]) = (d, j, res)"
        using "1.prems" True by (simp add: hard_delimiters.simps [of str ifs i])
      from "1.IH" [OF True again this] again next' after_hard [OF i(1), of "drop (i + 1) str"] show ?thesis by (simp add: i(2))
    next
      case False
      then have "hard_delimiters str ifs i out = (False, i + 1, out)"
        using True by (simp add: hard_delimiters.simps [of str ifs i])
      with "1.prems" False next' after_hard [OF i(1), of "drop (i + 1) str"] show ?thesis by (simp add: i(2))
    qed
  next
    case False
    then have "hard_delimiters str ifs i out = (True, i, out)"
      by (subst hard_delimiters.simps) (rule if_not_P)
    with "1.prems" show ?thesis by simp
  qed
qed

lemma delimiters_rest:
  "delimiters str ifs i out = (p, res) \<Longrightarrow>
    res @ (case p of None \<Rightarrow> [] | Some j \<Rightarrow> fields_of ifs (drop j str)) = out @ after_delimiters ifs (drop i str)"
proof (induction str ifs i out rule: delimiters.induct)
  case (1 str ifs i out)
  let ?skip = "if ifs_ws ifs = [] then Some i else first_not_of_set str (ifs_ws ifs) i"
  show ?case
  proof (cases "i < length str")
    case True
    show ?thesis
    proof (cases ?skip)
      case None
      then have "dropWhile (\<lambda>c. c \<in> set (ifs_ws ifs)) (drop i str) = []"
        by (auto simp: position_drop(1) list_all_iff split: if_splits)
      then have "after_delimiters ifs (drop i str) = []" by (metis after_skip after_Nil)
      with None True "1.prems" show ?thesis by (auto simp: delimiters.simps [of str ifs i])
    next
      case (Some i')
      have "dropWhile (\<lambda>c. c \<in> set (ifs_ws ifs)) (drop i str) = drop i' str"
        using Some position_drop(2) [of "\<lambda>c. c \<notin> set (ifs_ws ifs)" str i i'] no_skip [of ifs "drop i str"]
        by (cases "ifs_ws ifs = []") (simp_all del: set_filter)
      then have skip: "after_delimiters ifs (drop i str) = after_delimiters ifs (drop i' str)" by (metis after_skip)
      obtain d k out' where h: "hard_delimiters str ifs i' out = (d, k, out')" by (metis prod_cases3)
      note rest = hard_delimiters_rest [OF h]
      show ?thesis
      proof (cases "d \<and> \<not> (k < length str \<and> first_of_set str ifs k \<noteq> Some k)")
        case again: True
        have "delimiters str ifs k out' = (p, res)"
          using "1.prems" True Some h again by (simp add: delimiters.simps [of str ifs i])
        from "1.IH" [OF True Some h [symmetric] refl again this] rest again skip show ?thesis by simp
      next
        case False
        then have p: "p = Some k" "res = out'" using "1.prems" True Some h
          by (simp_all add: delimiters.simps [of str ifs i] del: de_Morgan_conj not_imp split: if_splits)
        have "after_delimiters ifs (drop k str) = fields_of ifs (drop k str)" if d
        proof -
          from that False have "k < length str" "field_char ifs (str ! k)" by (auto simp: position_here)
          then show ?thesis by (simp add: Cons_nth_drop_Suc [symmetric] after_field)
        qed
        with p rest skip show ?thesis by (cases d) simp_all
      qed
    qed
  next
    case False
    with "1.prems" show ?thesis by (auto simp: delimiters.simps [of str ifs i] fields_of_def)
  qed
qed

lemma split_fields_rest: "split_fields str ifs i out = out @ fields_of ifs (drop i str)"
proof (induction str ifs i out rule: split_fields.induct)
  case (1 str ifs i out)
  define e where "e = (case first_of_set str ifs i of None \<Rightarrow> length str | Some e \<Rightarrow> e)"
  define out1 where "out1 = out @ [take (e - i) (drop i str)]"
  show ?case
  proof (cases "i < length str")
    case True
    have e: "takeWhile (field_char ifs) (drop i str) = take (e - i) (drop i str) \<and> dropWhile (field_char ifs) (drop i str) = drop e str"
    proof (cases "first_of_set str ifs i")
      case None
      then have "\<forall>c \<in> set (drop i str). field_char ifs c" by (simp add: position_drop(1) list_all_iff)
      then show ?thesis using None by (simp add: e_def takeWhile_eq_all_conv [THEN iffD2] dropWhile_eq_Nil_conv [THEN iffD2])
    next
      case (Some k)
      from position_drop(2) [OF Some] Some show ?thesis by (simp add: e_def)
    qed
    then have fields: "fields_of ifs (drop i str) = take (e - i) (drop i str) # after_delimiters ifs (drop e str)"
      using True by (simp add: fields_of_def)
    show ?thesis
    proof (cases "length str \<le> e")
      case True
      with \<open>i < length str\<close> fields show ?thesis
        by (simp add: split_fields.simps [of str ifs i] e_def [symmetric] Let_def)
    next
      case False
      obtain p res where d: "delimiters str ifs e out1 = (p, res)" by fastforce
      note rest = delimiters_rest [OF d]
      show ?thesis
      proof (cases p)
        case None
        with True False d rest fields show ?thesis
          by (simp add: split_fields.simps [of str ifs i] e_def [symmetric] out1_def [symmetric] Let_def)
      next
        case (Some j)
        have "split_fields str ifs j res = res @ fields_of ifs (drop j str)"
          using "1.IH" [OF True e_def out1_def False d [symmetric] Some] .
        with True False d rest fields Some show ?thesis
          by (simp add: split_fields.simps [of str ifs i] e_def [symmetric] out1_def [symmetric] Let_def)
      qed
    qed
  next
    case False
    then show ?thesis by (simp add: split_fields.simps [of str ifs i] fields_of_def)
  qed
qed

theorem field_split_fields:
  "field_split ifs str =
     (if str = [] then [] else if ifs = [] then [str] else fields_of ifs (dropWhile (\<lambda>c. c \<in> set (ifs_ws ifs)) str))"
proof (cases "str = [] \<or> ifs = [] \<or> ifs_ws ifs = []")
  case True
  then show ?thesis by (auto simp: field_split_def split_fields_rest dropWhile_eq_self_iff filter_empty_conv)
next
  case False
  then show ?thesis
    using position_drop [of "\<lambda>c. c \<notin> set (ifs_ws ifs)" str 0]
    by (auto simp: field_split_def split_fields_rest list_all_iff fields_of_def dropWhile_eq_Nil_conv split: option.split)
qed

end
