(* ===== verification/Field_Props.thy ===== *)
theory Field_Props
  imports
    Field_Split
begin

section \<open>Properties of field splitting\<close>

subsection \<open>Nothing is lost\<close>

lemma dropWhile_ws_filter:
  "filter (field_char ifs) (dropWhile (\<lambda>c. c \<in> set (ifs_ws ifs)) str) = filter (field_char ifs) str"
  by (induction str) auto

lemma take_drop_filter: "takeWhile P xs @ filter P (dropWhile P xs) = filter P xs"
  by (induction xs) auto

lemma after_chars:
  "concat (after_delimiters ifs rest) = filter (field_char ifs) rest \<and>
   (\<forall>f \<in> set (after_delimiters ifs rest). list_all (field_char ifs) f)"
proof (induction ifs rest rule: after_delimiters.induct)
  case (1 ifs rest)
  note skip = dropWhile_ws_filter [of ifs rest]
  have pre: "list_all (field_char ifs) (takeWhile (field_char ifs) r)" for r
    by (auto simp: list_all_iff dest: set_takeWhileD)
  show ?case
  proof (cases "dropWhile (\<lambda>c. c \<in> set (ifs_ws ifs)) rest")
    case Nil
    then have "after_delimiters ifs rest = []" by (metis after_skip after_Nil)
    with skip Nil show ?thesis by simp
  next
    case (Cons c r)
    then have eq: "after_delimiters ifs rest = after_delimiters ifs (c # r)" by (metis after_skip)
    have hd: "c \<notin> set (ifs_ws ifs)" using Cons hd_dropWhile [of "\<lambda>c. c \<in> set (ifs_ws ifs)" rest] by auto
    show ?thesis
    proof (cases "field_char ifs c")
      case True
      from "1.IH"(1) [OF Cons True] skip Cons True pre [of "c # r"] take_drop_filter [of "field_char ifs" r] show ?thesis
        by (simp add: eq after_field fields_of_def)
    next
      case False
      with hd have hard: "c \<in> set (ifs_nws ifs)" by auto
      show ?thesis
      proof (cases "r = [] \<or> \<not> field_char ifs (hd r)")
        case True
        from "1.IH"(2) [OF Cons False True] skip Cons False True show ?thesis
          by (simp add: eq after_hard [OF hard])
      next
        case more: False
        from "1.IH"(3) [OF Cons False more] skip Cons False more pre [of r] take_drop_filter [of "field_char ifs" r] show ?thesis
          by (simp add: eq after_hard [OF hard] fields_of_def)
      qed
    qed
  qed
qed

lemma field_prefix: "list_all (field_char ifs) (takeWhile (field_char ifs) rest)"
  by (auto simp: list_all_iff dest: set_takeWhileD)

lemma fields_chars:
  "concat (fields_of ifs rest) = filter (field_char ifs) rest" "\<forall>f \<in> set (fields_of ifs rest). list_all (field_char ifs) f"
  using after_chars [of ifs "dropWhile (field_char ifs) rest"]
  by (simp_all add: fields_of_def take_drop_filter field_prefix)

text \<open>C24: Field splitting loses no character and invents none: the fields, in their order, are the text
  without the characters of \<open>IFS\<close>, and no field holds one of these.\<close>

theorem fields_are_text:
  "concat (field_split ifs str) = filter (field_char ifs) str \<and>
   (\<forall>f \<in> set (field_split ifs str). list_all (field_char ifs) f)"
proof (cases "str = [] \<or> ifs = []")
  case True
  then show ?thesis by (auto simp: field_split_fields list_all_iff)
next
  case False
  then show ?thesis by (simp only: field_split_fields if_False de_Morgan_disj fields_chars dropWhile_ws_filter) (use fields_chars(2) in blast)
qed

theorem fields_are_text_witness:
  "field_split '' :'' ''a:b c'' = [''a'', ''b'', ''c''] \<and> concat (field_split '' :'' ''a:b c'') = ''abc''"
  using fields_are_text [of "'' :''" "''a:b c''"] by code_simp

subsection \<open>White space and other delimiters\<close>

fun pieces :: "(char \<Rightarrow> bool) \<Rightarrow> string \<Rightarrow> string list" where
  \<comment> \<open>what stands between single delimiters\<close>
  "pieces P [] = [[]]"
| "pieces P (c # cs) = (if P c then [] # pieces P cs else (c # hd (pieces P cs)) # tl (pieces P cs))"

lemma pieces_not_Nil [simp]: "pieces P cs \<noteq> []"
  by (cases cs) auto

lemma pieces_step:
  "pieces P cs = takeWhile (\<lambda>c. \<not> P c) cs # (case dropWhile (\<lambda>c. \<not> P c) cs of [] \<Rightarrow> [] | c # r \<Rightarrow> pieces P r)"
  by (induction cs) auto

lemma after_hard_only:
  assumes "ifs_ws ifs = []"
  shows "after_delimiters ifs rest = (case rest of [] \<Rightarrow> [] | c # r \<Rightarrow>
     if field_char ifs c then fields_of ifs rest else pieces (\<lambda>c. c \<in> set ifs) r) \<and>
     (rest \<noteq> [] \<longrightarrow> fields_of ifs rest = pieces (\<lambda>c. c \<in> set ifs) rest)"
proof (induction "length rest" arbitrary: rest rule: less_induct)
  case less
  have nws: "ifs_nws ifs = ifs" using assms(1) by (induction ifs) (auto split: if_splits)
  have after: "after_delimiters ifs (c # r) = pieces (\<lambda>c. c \<in> set ifs) r" if "rest = c # r" "\<not> field_char ifs c" for c r
  proof (cases "r = [] \<or> \<not> field_char ifs (hd r)")
    case True
    have "c \<in> set (ifs_nws ifs)" using that(2) by (simp add: nws)
    from after_hard [OF this, of r] True less [of r] that(1) show ?thesis by (cases r) auto
  next
    case False
    have "c \<in> set (ifs_nws ifs)" using that(2) by (simp add: nws)
    from after_hard [OF this, of r] False less [of r] that(1) show ?thesis by auto
  qed
  show ?case
  proof (cases rest)
    case (Cons c r)
    show ?thesis
    proof (cases "field_char ifs c")
      case True
      then have "length (dropWhile (field_char ifs) rest) < length rest"
        using Cons length_dropWhile_le [of "field_char ifs" r] by simp
      note ih = less [OF this]
      have "after_delimiters ifs (dropWhile (field_char ifs) rest) =
          (case dropWhile (field_char ifs) rest of [] \<Rightarrow> [] | c # r \<Rightarrow> pieces (\<lambda>c. c \<in> set ifs) r)"
      proof (cases "dropWhile (field_char ifs) rest")
        case (Cons x xs)
        then have "\<not> field_char ifs x" using hd_dropWhile [of "field_char ifs" rest] by simp
        with ih Cons show ?thesis by simp
      next
        case Nil
        then show ?thesis by (simp del: dropWhile_eq_Nil_conv)
      qed
      then have "fields_of ifs rest = pieces (\<lambda>c. c \<in> set ifs) rest"
        unfolding fields_of_def by (subst pieces_step) (simp add: Cons del: takeWhile.simps dropWhile.simps pieces.simps)
      with Cons True show ?thesis by (simp add: after_field)
    next
      case False
      with Cons after [OF Cons] show ?thesis by (simp add: fields_of_def)
    qed
  qed simp
qed

text \<open>C26: With an \<open>IFS\<close> that holds no white space every delimiter ends a field: the result is what stands
  between the delimiters, empty fields included, also after a delimiter at the end.\<close>

theorem hard_delimiters_separate:
  assumes "ifs \<noteq> []" "ifs_ws ifs = []" "str \<noteq> []"
  shows "field_split ifs str = pieces (\<lambda>c. c \<in> set ifs) str"
  using assms after_hard_only [of ifs str] no_skip [OF assms(2), of str] by (simp add: field_split_fields)

theorem hard_delimiters_separate_witness: "field_split '':'' ''a::b:'' = [''a'', [], ''b'', []]"
proof -
  have "ifs_ws '':'' = []" by code_simp
  from hard_delimiters_separate [OF _ this, of "''a::b:''"] show ?thesis by simp
qed


definition words_in :: "(char \<Rightarrow> bool) \<Rightarrow> string \<Rightarrow> string list" where
  \<comment> \<open>the longest pieces without delimiters\<close>
  "words_in P cs = filter (\<lambda>f. f \<noteq> []) (pieces P cs)"

lemma words_simps [simp]: "words_in P [] = []" "P c \<Longrightarrow> words_in P (c # cs) = words_in P cs"
  by (simp_all add: words_in_def)

lemma words_skip: "words_in P (dropWhile P cs) = words_in P cs"
  by (induction cs) simp_all

lemma words_step:
  assumes "\<not> P c"
  shows "words_in P (c # cs) = takeWhile (\<lambda>c. \<not> P c) (c # cs) # words_in P (dropWhile (\<lambda>c. \<not> P c) (c # cs))"
proof -
  define d where "d = dropWhile (\<lambda>c. \<not> P c) (c # cs)"
  have "filter (\<lambda>f. f \<noteq> []) (case d of [] \<Rightarrow> [] | x # r \<Rightarrow> pieces P r) = words_in P d"
  proof (cases d)
    case (Cons x r)
    then have "P x" using hd_dropWhile [of "\<lambda>c. \<not> P c" "c # cs"] by (simp add: d_def)
    with Cons show ?thesis by (simp add: words_in_def)
  qed simp
  moreover have "pieces P (c # cs) = takeWhile (\<lambda>c. \<not> P c) (c # cs) # (case d of [] \<Rightarrow> [] | x # r \<Rightarrow> pieces P r)"
    unfolding d_def by (rule pieces_step)
  ultimately show ?thesis unfolding d_def [symmetric] using assms by (simp add: words_in_def del: pieces.simps)
qed

lemma after_white_only:
  assumes "ifs_nws ifs = []"
  shows "after_delimiters ifs rest = words_in (\<lambda>c. c \<in> set ifs) rest"
proof (induction "length rest" arbitrary: rest rule: less_induct)
  case less
  have ws: "ifs_ws ifs = ifs" using assms by (induction ifs) (auto split: if_splits)
  define d where "d = dropWhile (\<lambda>c. c \<in> set ifs) rest"
  have d: "after_delimiters ifs rest = after_delimiters ifs d" "words_in (\<lambda>c. c \<in> set ifs) rest = words_in (\<lambda>c. c \<in> set ifs) d"
    using after_skip [of ifs rest] words_skip [of "\<lambda>c. c \<in> set ifs" rest] by (simp_all only: ws d_def)
  show ?case
  proof (cases d)
    case (Cons c r)
    then have c: "field_char ifs c" using hd_dropWhile [of "\<lambda>c. c \<in> set ifs" rest] by (simp add: d_def)
    have "length (dropWhile (field_char ifs) d) < length d"
      using Cons c length_dropWhile_le [of "field_char ifs" r] by simp
    also have "length d \<le> length rest" by (simp add: d_def length_dropWhile_le)
    finally have "after_delimiters ifs (dropWhile (field_char ifs) d) = words_in (\<lambda>c. c \<in> set ifs) (dropWhile (field_char ifs) d)"
      using less by blast
    with c Cons show ?thesis
      using words_step [of "\<lambda>c. c \<in> set ifs" c r] by (simp add: d after_field fields_of_def)
  qed (simp add: d)
qed

text \<open>C25: With an \<open>IFS\<close> of white space, such as the default, splitting yields the words of the text: no field is
  empty, and delimiters at the beginning, at the end and in sequence do not count.\<close>

theorem white_space_separates_words:
  assumes "ifs \<noteq> []" "ifs_nws ifs = []"
  shows "field_split ifs str = words_in (\<lambda>c. c \<in> set ifs) str"
proof -
  have ws: "ifs_ws ifs = ifs" using assms(2) by (induction ifs) (auto split: if_splits)
  define d where "d = dropWhile (\<lambda>c. c \<in> set ifs) str"
  have "fields_of ifs d = after_delimiters ifs d"
  proof (cases d)
    case (Cons c r)
    then have "field_char ifs c" using hd_dropWhile [of "\<lambda>c. c \<in> set ifs" str] by (simp add: d_def)
    with Cons show ?thesis by (simp add: after_field)
  qed (simp add: fields_of_def)
  then have "fields_of ifs d = words_in (\<lambda>c. c \<in> set ifs) str"
    by (simp add: after_white_only [OF assms(2)] d_def words_skip)
  then show ?thesis using assms(1) by (simp add: field_split_fields ws d_def [symmetric])
qed

theorem white_space_separates_words_witness:
  "field_split [CHR '' '', TAB, NEWLINE] ''  echo  a b '' = [''echo'', ''a'', ''b'']"
proof -
  have "ifs_nws [CHR '' '', TAB, NEWLINE] = []" by code_simp
  from white_space_separates_words [OF _ this, of "''  echo  a b ''"] show ?thesis by (simp add: words_in_def)
qed

text \<open>C39: White space after another delimiter is taken for a field: with \<open>IFS\<close> set to a colon and a blank, \<open>a: b\<close> gives
  three fields, of which the second is empty.  POSIX, and the comment on the function, have the
  white space belong to the delimiter.\<close>

theorem white_space_after_delimiter:
  assumes "h \<in> set (ifs_nws ifs)" "w \<in> set (ifs_ws ifs)" "list_all (field_char ifs) u" "list_all (field_char ifs) v"
    "u \<noteq> []" "v \<noteq> []"
  shows "field_split ifs (u @ [h, w] @ v) = [u, [], v]"
proof -
  have v: "after_delimiters ifs (w # v) = [v]"
  proof -
    obtain c r where cr: "v = c # r" using assms(6) by (cases v) auto
    have "dropWhile (\<lambda>c. c \<in> set (ifs_ws ifs)) (w # v) = v" using assms(2,4) by (auto simp: cr)
    then have "after_delimiters ifs (w # v) = after_delimiters ifs v" by (metis after_skip)
    moreover have "after_delimiters ifs v = [v]" using assms(4)
      by (simp add: cr after_field fields_of_def list_all_iff takeWhile_eq_all_conv [THEN iffD2] dropWhile_eq_Nil_conv [THEN iffD2])
    ultimately show ?thesis by simp
  qed
  have "after_delimiters ifs (h # w # v) = [[], v]" using assms(2) by (simp add: after_hard [OF assms(1)] v)
  moreover have "takeWhile (field_char ifs) (u @ h # w # v) = u" "dropWhile (field_char ifs) (u @ h # w # v) = h # w # v"
    using assms(1,3) by (auto simp: takeWhile_append dropWhile_append list_all_iff)
  ultimately have "fields_of ifs (u @ h # w # v) = [u, [], v]" by (simp add: fields_of_def)
  moreover have "dropWhile (\<lambda>c. c \<in> set (ifs_ws ifs)) (u @ h # w # v) = u @ h # w # v"
    using assms(3,5) by (cases u) auto
  moreover have "ifs \<noteq> []" using assms(1) by auto
  ultimately show ?thesis by (simp add: field_split_fields)
qed

theorem white_space_after_delimiter_witness: "field_split '': '' ''a: b'' = [''a'', [], ''b'']"
proof -
  have "CHR '':'' \<in> set (ifs_nws '': '')" "CHR '' '' \<in> set (ifs_ws '': '')"
    "list_all (field_char '': '') ''a''" "list_all (field_char '': '') ''b''" by code_simp+
  from white_space_after_delimiter [OF this] show ?thesis by simp
qed

end
