(* ===== verification/Spec2Isabelle.thy ===== *)
theory Spec2Isabelle
  imports
    String_Props Variable_Props Arithmetic_Props Pattern_Props Lexer_Props Lexer_Chunks
    Tokenizer_Props Alias_Proofs Parser_Props Ast_Props Lower_Props Read_Commands Job_Props Positional_Params Fd_Table_Proofs
    Field_Props
begin

text \<open>
  A verification development for migash, a POSIX shell written in C.  Names of C files are
  relative to \<open>src/src/\<close>.

  \<^bold>\<open>The program.\<close>  A line of input goes through the lexer (characters to tokens), the tokenizer
  (aliases, reserved words, open compound commands), the parser and the lowering to an AST; the
  executor walks the AST, expands words with the variables, positional parameters and patterns
  of the current frame, and keeps jobs and descriptors in tables.  The parse session holds what
  survives from one line to the next.

  \<^bold>\<open>The theories\<close>, in the order of their dependencies:
  \<^item> \<open>Prelude\<close>: \<open>int\<close>, \<open>long\<close> and \<open>char\<close> of C as checked integers, C strings, memory blocks.
  \<^item> \<open>StringT\<close>, \<open>String_Ops\<close>, \<open>String_Edit\<close>, \<open>String_Search\<close>, \<open>String_Props\<close> (string\_t.c):
    the small-string representation on memory blocks; every operation returns what it promises
    on the contents that a string \<open>represents\<close>.
  \<^item> \<open>Variable_Map\<close> (variable\_map.c): open addressing with backward-shift deletion.
    \<open>Map_Interface\<close> is the locale of a map from strings; \<open>Variable_Map_Proofs\<close> proves the
    invariant of linear probing and interprets the locale.
  \<^item> \<open>Variable_Store\<close>, \<open>Variable_Store_Proofs\<close> (variable\_store.c): validation, attributes and the
    cached environment over that interface.  \<open>Variable_Props\<close> states the properties of both.
  \<^item> \<open>Frame_Vars\<close> (frame.c, exec\_frame.c): the stores of a frame, lookup and assignment.
  \<^item> \<open>Arithmetic\<close>, \<open>Arithmetic_Proofs\<close>, \<open>Arithmetic_Props\<close> (arithmetic.c): the tokenizer and the
    precedence-climbing evaluator, against a reference evaluator on syntax trees.
  \<^item> \<open>Glob\<close>, \<open>Glob_Proofs\<close>, \<open>Pattern_Removal\<close>, \<open>Pattern_Props\<close> (glob\_util.c, pattern\_removal.c):
    the matcher against a declarative language of patterns, and the four removals.
  \<^item> \<open>String_Number\<close> (string\_t.c): numbers in strings, shared by arithmetic and redirections.
  \<^item> \<open>Tokens\<close> (token.c); \<open>Lexer\<close>, \<open>Lexer_Modes\<close>, \<open>Lexer_Heredoc\<close>, \<open>Lexer_Normal\<close> (lexer*.c): the
    state of the lexer, its modes and the driver.  \<open>Lexer_Progress\<close> shows that every mode consumes
    input, \<open>Lexer_Words\<close> that a rendered line is read back, \<open>Lexer_Chunks\<close> and \<open>Lexer_Props\<close>
    state properties.
  \<^item> \<open>Alias_Store\<close>, \<open>Alias_Proofs\<close> (alias.c, alias\_array.c, alias\_store.c): a second instance of
    the map interface, on a dynamic array.
  \<^item> \<open>Tokenizer\<close> (tokenizer.c and the token lists of token.c): the steps and runs of the tokenizer.
    \<open>Tokenizer_Proofs\<close> describes one step, \<open>Tokenizer_Runs\<close> whole runs, \<open>Tokenizer_Props\<close> states the
    properties, alone and behind the lexer.
  \<^item> \<open>Parse_Session\<close> (parse\_session.c, the front half of \<open>exec_frame_string_core\<close> in exec\_frame.c):
    line-wise input up to the call of the parser.
  \<^item> \<open>Gnode\<close> (gnode.c): the nodes of the tree with the kind and the member of their union.
    \<open>Parser\<close>, \<open>Parser_Simple\<close>, \<open>Parser_Grammar\<close> (parser.c): access to the tokens and promotion of
    words, simple commands with redirections, and the rest of the grammar; \<open>Parse_Program\<close>: the
    second half of \<open>exec_frame_string_core\<close>, which turns the status of the parser into a program,
    an error or a request for more input.
  \<^item> \<open>Parser_Runs\<close>, \<open>Parser_Progress\<close>, \<open>Parser_Good\<close>, \<open>Parser_Total\<close>: what any run of each function
    does with the position, the tokens and the kinds of nodes; \<open>Parser_Bound\<close>: the result does not
    depend on the bound.  \<open>Parser_Accepts\<close>, \<open>Parser_Language\<close>: a language of commands and the
    proof that its tokens are parsed to its trees, over the locale \<open>separator_parser\<close> of the two
    functions that read separators.  \<open>Parser_Props\<close> states the properties.
  \<^item> \<open>Ast\<close>, \<open>Ast_Proofs\<close>, \<open>Ast_Props\<close> (ast.h, ast.c): the tree that is executed, its copies and
    visits.  \<open>Lower\<close>, \<open>Lower_Commands\<close> (lower.c): every function of the lowering, from a node to a
    tree, NULL, or a violated contract.  \<open>Lower_Bound\<close>: the result does not depend on the bound;
    \<open>Lower_Language\<close>: what the commands of \<open>Parser_Language\<close> mean, and that their trees are lowered to
    it; \<open>Lower_Total\<close>: every tree of the parser is lowered, but for two kinds that are named there.
    \<open>Lower_Props\<close> states the properties.
  \<^item> \<open>Read_Commands\<close> (\<open>exec_frame_string_core\<close> as a whole): text to the tree that is executed, through
    lexer, tokenizer, parser and lowering.
  \<^item> \<open>Job_Store\<close>, \<open>Job_Store_Proofs\<close>, \<open>Job_Props\<close> (job\_store.c): jobs, their states, the references
    \<open>%+\<close> and \<open>%-\<close>, and the iterator; reachable states are an inductive predicate over all
    operations.
  \<^item> \<open>Positional_Params\<close> (positional\_params.c) and \<open>Fd_Table\<close>, \<open>Fd_Table_Proofs\<close> (fd\_table.c):
    bounds-checked arrays that implement a list and a finite map.
  \<^item> \<open>Field_Split\<close>, \<open>Field_Props\<close> (exec\_frame\_expander.c): the loops of field splitting, against
    a description without positions, and what they give for the kinds of \<open>IFS\<close>.

  \<^bold>\<open>Conventions.\<close>  A result \<open>None\<close> is undefined behaviour or a violated contract (\<open>Expects_...\<close>),
  so a lemma that an operation yields \<open>Some\<close> excludes it.  Where a loop of the code may not end
  (lexer, tokenizer) the result has a second, outer option and the outer \<open>None\<close> is divergence:
  these loops are \<open>partial_function (option)\<close>, and that they return is proved separately.  Errors
  of the program are values of status types, with the state after them.  A struct is a record, a
  list linked or grown by the program is a HOL list, and a node of a linked list that another
  field points to is named by its id.

  \<^bold>\<open>Bounds and fuel.\<close>  The evaluator of arithmetic runs on fuel \<open>arithmetic_fuel\<close>, three times
  the length of the text plus three; it is shown to be enough for every text.  The polling loop of
  the job iterator runs on fuel that is shown to be enough when it exceeds the number of active
  processes.  The functions of the parser take a bound on the rounds of each loop and on the depth
  of nested lists; \<open>parser_parse_program\<close> uses the number of tokens plus two, which is shown to be
  enough for every list of tokens, and no larger bound gives another result.  Lowering takes a bound
  on the nesting of lists; \<open>ast_lower\<close> uses the size of the tree, which is never reached.  \<open>int\<close> has 32 bits and \<open>long\<close> 64; \<open>char\<close> is signed; the locale is the C locale;
  allocation does not fail.

  \<^bold>\<open>Not modelled.\<close>  The expander beyond field splitting, patterns and arithmetic, the executor, redirections, traps
  and builtins, which are mostly calls of the operating system; printing, logging, getline and
  printf-style formatting; deallocation, except where it decides a result.  The trap
  store and the table of functions (an instance of the same hash table as the variables)
  are not modelled.
\<close>

end
